(* ===== verification/Prelude.thy ===== *)
theory Prelude
  imports Main "HOL-Library.Word" "HOL-Library.List_Lexorder" "HOL-Library.Char_ord"
    "HOL-Library.Product_Lexorder"
begin

text \<open>
  The vocabulary the components share.

  \<^item> Go's maps.  A Go map is an unordered finite map; the model keeps its entries as an
    association list in strictly increasing key order, so that two maps with the same contents are
    the same value and \<open>range\<close> loops are executable.  \<open>gm_put\<close>, \<open>gm_del\<close> and the library's
    \<open>map_of\<close> are assignment, \<open>delete\<close> and lookup; \<open>gm_export\<close> is the "collect the values and
    sort them by key" idiom of the \<open>sorted...\<close> functions and \<open>gm_import\<close> the loop that puts a list
    of self-keyed values back into a map.  The locale \<open>go_map\<close> is their contract.
  \<^item> Machines.  \<open>run_ops\<close> runs a list of operations; the locale \<open>guarded_machine\<close> turns "each
    permitted operation keeps the invariant" into "each permitted run keeps it", and the locale
    \<open>data_refinement\<close> turns a one-step simulation into a simulation of runs.
  \<^item> Small pieces of the language: \<open>wrap64\<close> (two's complement wrap-around of \<open>int64\<close>), \<open>itoa\<close>
    (\<open>strconv.Itoa\<close>), bounded appends and facts about \<open>sorted_wrt\<close>, \<open>filter\<close> and words.
\<close>

named_theorems gm_simps \<open>lookup equations of the Go map operations\<close>
named_theorems gm_intros \<open>well-formedness of Go maps\<close>

section \<open>Go maps as ordered association lists\<close>

type_synonym ('k, 'v) gomap = "('k \<times> 'v) list"

definition gm_wf :: "('k::linorder, 'v) gomap \<Rightarrow> bool" where
  "gm_wf m \<longleftrightarrow> sorted_wrt (<) (map fst m)"

primrec gm_put :: "'k::linorder \<Rightarrow> 'v \<Rightarrow> ('k, 'v) gomap \<Rightarrow> ('k, 'v) gomap" where
  "gm_put k v [] = [(k, v)]"
| "gm_put k v (e # m) =
     (if fst e < k then e # gm_put k v m
      else (k, v) # (if fst e = k then m else e # m))"

definition gm_del :: "'k \<Rightarrow> ('k, 'v) gomap \<Rightarrow> ('k, 'v) gomap" where
  "gm_del k m = filter (\<lambda>e. fst e \<noteq> k) m"

definition gm_remove :: "('k \<Rightarrow> bool) \<Rightarrow> ('k, 'v) gomap \<Rightarrow> ('k, 'v) gomap" where
  "gm_remove p m = filter (\<lambda>e. \<not> p (fst e)) m"

definition gm_has :: "('k, 'v) gomap \<Rightarrow> 'k \<Rightarrow> bool" where
  "gm_has m k \<longleftrightarrow> map_of m k \<noteq> None"

definition gm_export :: "('v \<Rightarrow> 'k::linorder) \<Rightarrow> ('j, 'v) gomap \<Rightarrow> 'v list" where
  "gm_export key m = sort_key key (map snd m)"

definition gm_import :: "('v \<Rightarrow> 'k::linorder) \<Rightarrow> ('v \<Rightarrow> 'w) \<Rightarrow> 'v list \<Rightarrow> ('k, 'w) gomap" where
  "gm_import key val vs = foldl (\<lambda>m v. gm_put (key v) (val v) m) [] vs"

definition gm_keyed :: "('v \<Rightarrow> 'k) \<Rightarrow> ('k, 'v) gomap \<Rightarrow> bool" where
  "gm_keyed key m \<longleftrightarrow> list_all (\<lambda>e. key (snd e) = fst e) m"

lemma gm_wf_Nil [simp, gm_intros]: "gm_wf []"
  by (simp add: gm_wf_def)

lemma gm_wf_Cons: "gm_wf (e # m) \<longleftrightarrow> (\<forall>x \<in> set m. fst e < fst x) \<and> gm_wf m"
  by (auto simp: gm_wf_def)

lemma gm_wf_distinct: "gm_wf m \<Longrightarrow> distinct (map fst m)"
  by (simp add: gm_wf_def strict_sorted_iff)

lemma map_of_gm_put [gm_simps]: "map_of (gm_put k v m) = (map_of m)(k \<mapsto> v)"
  by (induction m) (auto simp: fun_eq_iff)

lemma map_of_gm_remove [gm_simps]:
  "map_of (gm_remove p m) k = (if p k then None else map_of m k)"
  by (induction m) (auto simp: gm_remove_def)

lemma map_of_gm_del [gm_simps]: "map_of (gm_del k m) = (map_of m)(k := None)"
  by (induction m) (auto simp: gm_del_def fun_eq_iff)

lemma set_gm_put: "set (gm_put k v m) \<subseteq> insert (k, v) (set m)"
  by (induction m) auto

lemma set_gm_put_fst: "fst ` set (gm_put k v m) = insert k (fst ` set m)"
  by (induction m) auto

lemma gm_wf_put [gm_intros]: "gm_wf m \<Longrightarrow> gm_wf (gm_put k v m)"
proof (induction m)
  case Nil
  then show ?case by (simp add: gm_wf_Cons)
next
  case (Cons e m)
  then have wf: "\<forall>x \<in> set m. fst e < fst x" and wfm: "gm_wf m" by (auto simp: gm_wf_Cons)
  have below: "\<forall>x \<in> set (gm_put k v m). fst e < fst x" if "fst e < k"
    using wf that set_gm_put [of k v m] by auto
  show ?case
    using wf wfm below Cons.IH by (force simp: gm_wf_Cons)
qed

lemma gm_wf_filter: "gm_wf m \<Longrightarrow> gm_wf (filter p m)"
  by (induction m) (auto simp: gm_wf_Cons)

lemma gm_wf_remove [gm_intros]: "gm_wf m \<Longrightarrow> gm_wf (gm_remove p m)"
  by (simp add: gm_remove_def gm_wf_filter)

lemma gm_wf_del [gm_intros]: "gm_wf m \<Longrightarrow> gm_wf (gm_del k m)"
  by (simp add: gm_del_def gm_wf_filter)

lemma gm_keyed_Nil [simp, gm_intros]: "gm_keyed key []"
  by (simp add: gm_keyed_def)

lemma gm_keyed_put [gm_intros]: "gm_keyed key m \<Longrightarrow> key v = k \<Longrightarrow> gm_keyed key (gm_put k v m)"
  using set_gm_put [of k v m] by (auto simp: gm_keyed_def list_all_iff)

lemma gm_keyed_filter: "gm_keyed key m \<Longrightarrow> gm_keyed key (filter p m)"
  by (auto simp: gm_keyed_def list_all_iff)

lemma gm_keyed_remove [gm_intros]: "gm_keyed key m \<Longrightarrow> gm_keyed key (gm_remove p m)"
  by (simp add: gm_remove_def gm_keyed_filter)

lemma gm_keyed_del [gm_intros]: "gm_keyed key m \<Longrightarrow> gm_keyed key (gm_del k m)"
  by (simp add: gm_del_def gm_keyed_filter)

text \<open>Two well-formed maps with the same lookups are the same list.\<close>

lemma gm_wf_map_of_mem: "gm_wf m \<Longrightarrow> map_of m k = Some v \<longleftrightarrow> (k, v) \<in> set m"
  by (simp add: gm_wf_distinct)

lemma gm_ext:
  assumes "gm_wf m" "gm_wf m'" "map_of m = map_of m'"
  shows "m = m'"
proof -
  have "set m = set m'"
    using assms gm_wf_map_of_mem [of m] gm_wf_map_of_mem [of m'] by fastforce
  moreover have "sorted_wrt (\<lambda>x y. fst x < fst y) m" "sorted_wrt (\<lambda>x y. fst x < fst y) m'"
    using assms(1,2) by (simp_all add: gm_wf_def sorted_wrt_map)
  moreover have "inj_on fst (set m \<union> set m')"
    using calculation(1) gm_wf_distinct [OF assms(1)] by (simp add: distinct_map)
  moreover have "sorted (map fst m)" "sorted (map fst m')"
    using assms(1,2) by (simp_all add: gm_wf_def strict_sorted_imp_sorted)
  ultimately show ?thesis
    using gm_wf_distinct [OF assms(1)] gm_wf_distinct [OF assms(2)]
    by (intro map_sorted_distinct_set_unique [of fst m m'])
qed

text \<open>\<open>len\<close> of a map after an assignment and a \<open>delete\<close>.\<close>

lemma size_gm_put: "gm_wf m \<Longrightarrow> length (gm_put k v m) = (if gm_has m k then length m else Suc (length m))"
proof (induction m)
  case Nil
  then show ?case by (simp add: gm_has_def)
next
  case (Cons e m)
  then have "map_of m k = None" if "k < fst e"
    using that by (auto simp: gm_wf_Cons map_of_eq_None_iff)
  with Cons show ?case by (auto simp: gm_has_def gm_wf_Cons split: if_splits)
qed

lemma size_gm_del: "gm_wf m \<Longrightarrow> map_of m k = Some v \<Longrightarrow> Suc (length (gm_del k m)) = length m"
proof (induction m)
  case (Cons e m)
  have "gm_del k m = m" if "map_of m k = None"
    using that by (auto simp: gm_del_def filter_id_conv map_of_eq_None_iff)
  moreover have "fst e = k \<Longrightarrow> map_of m k = None" using Cons.prems(1) by (auto simp: gm_wf_Cons map_of_eq_None_iff)
  ultimately show ?case using Cons by (auto simp: gm_del_def gm_wf_Cons split: if_splits)
qed simp

text \<open>The contract of a Go map, and the facts its clients use.\<close>

locale go_map =
  fixes get :: "'m \<Rightarrow> 'k \<Rightarrow> 'v option"
    and put :: "'k \<Rightarrow> 'v \<Rightarrow> 'm \<Rightarrow> 'm"
    and del :: "'k \<Rightarrow> 'm \<Rightarrow> 'm"
    and wf :: "'m \<Rightarrow> bool"
  assumes get_put: "get (put k v m) k' = (if k' = k then Some v else get m k')"
    and get_del: "get (del k m) k' = (if k' = k then None else get m k')"
    and wf_put: "wf m \<Longrightarrow> wf (put k v m)"
    and wf_del: "wf m \<Longrightarrow> wf (del k m)"
    and ext: "wf m \<Longrightarrow> wf m' \<Longrightarrow> (\<And>k. get m k = get m' k) \<Longrightarrow> m = m'"
begin

lemma put_overwrites: "wf m \<Longrightarrow> put k v (put k w m) = put k v m"
  by (rule ext) (auto simp: get_put wf_put)

lemma put_commute: "wf m \<Longrightarrow> k \<noteq> j \<Longrightarrow> put k v (put j w m) = put j w (put k v m)"
  by (rule ext) (auto simp: get_put wf_put)

lemma del_undoes_put: "wf m \<Longrightarrow> get m k = None \<Longrightarrow> del k (put k v m) = m"
  by (rule ext) (auto simp: get_put get_del wf_put wf_del)

lemma put_same: "wf m \<Longrightarrow> get m k = Some v \<Longrightarrow> put k v m = m"
  by (rule ext) (auto simp: get_put wf_put)

lemma del_absent: "wf m \<Longrightarrow> get m k = None \<Longrightarrow> del k m = m"
  by (rule ext) (auto simp: get_del wf_del)

end

interpretation gm: go_map map_of gm_put gm_del gm_wf
  by unfold_locales (auto simp: gm_simps gm_intros intro: gm_ext ext)

section \<open>Exporting a map as a sorted list and importing it again\<close>

lemma map_fst_keyed: "gm_keyed key m \<Longrightarrow> map key (map snd m) = map fst m"
  by (induction m) (auto simp: gm_keyed_def)

lemma gm_export_keyed:
  assumes "gm_wf m" "gm_keyed key m"
  shows "gm_export key m = map snd m"
proof -
  have "sorted (map key (map snd m))"
    using assms by (metis map_fst_keyed gm_wf_def strict_sorted_imp_sorted)
  then show ?thesis
    by (simp only: gm_export_def sorted_sort_id sort_key_id_if_sorted)
qed

lemma gm_put_snoc: "\<forall>x \<in> set m. fst x < k \<Longrightarrow> gm_put k v m = m @ [(k, v)]"
  by (induction m) auto

lemma foldl_put_sorted:
  assumes "gm_wf (acc @ map (\<lambda>x. (key x, val x)) vs)"
  shows "foldl (\<lambda>m v. gm_put (key v) (val v) m) acc vs = acc @ map (\<lambda>x. (key x, val x)) vs"
  using assms
proof (induction vs arbitrary: acc)
  case Nil
  then show ?case by simp
next
  case (Cons v vs)
  have "\<forall>x \<in> set acc. fst x < key v"
    using Cons.prems by (auto simp: gm_wf_def sorted_wrt_append)
  then have "gm_put (key v) (val v) acc = acc @ [(key v, val v)]"
    by (rule gm_put_snoc)
  with Cons.IH [of "acc @ [(key v, val v)]"] Cons.prems show ?case by simp
qed

lemma gm_import_sorted:
  "sorted_wrt (<) (map key vs) \<Longrightarrow> gm_import key val vs = map (\<lambda>x. (key x, val x)) vs"
  using foldl_put_sorted [of "[]" key val vs]
  by (simp add: gm_import_def gm_wf_def comp_def)

lemma zip_key_map: "zip (map f xs) xs = map (\<lambda>x. (f x, x)) xs"
  by (induction xs) auto

lemma gm_import_export:
  assumes "gm_wf m" "gm_keyed key m"
  shows "gm_import key (\<lambda>x. x) (gm_export key m) = m"
proof -
  have keys: "map key (map snd m) = map fst m"
    using assms(2) by (rule map_fst_keyed)
  have "sorted_wrt (<) (map key (map snd m))"
    unfolding keys using assms(1) by (simp add: gm_wf_def)
  then have "gm_import key (\<lambda>x. x) (map snd m) = map (\<lambda>x. (key x, x)) (map snd m)"
    by (rule gm_import_sorted)
  also have "\<dots> = zip (map key (map snd m)) (map snd m)"
    by (rule zip_key_map [symmetric])
  also have "\<dots> = m"
    by (simp only: keys zip_map_fst_snd)
  finally show ?thesis
    by (simp only: gm_export_keyed [OF assms])
qed

lemma gm_import_wf [gm_intros]: "gm_wf (gm_import key val vs)"
proof -
  have "gm_wf acc \<Longrightarrow> gm_wf (foldl (\<lambda>m v. gm_put (key v) (val v) m) acc vs)" for acc
    by (induction vs arbitrary: acc) (auto intro: gm_wf_put)
  then show ?thesis by (simp add: gm_import_def)
qed

lemma snd_gm_put: "snd ` set (gm_put k v m) \<subseteq> insert v (snd ` set m)"
  using set_gm_put [of k v m] by force

lemma snd_gm_import: "snd ` set (gm_import key val vs) \<subseteq> val ` set vs"
proof -
  have "snd ` set (foldl (\<lambda>m v. gm_put (key v) (val v) m) acc vs) \<subseteq> snd ` set acc \<union> val ` set vs" for acc
  proof (induction vs arbitrary: acc)
    case Nil
    then show ?case by simp
  next
    case (Cons v vs)
    from Cons.IH [of "gm_put (key v) (val v) acc"] snd_gm_put [of "key v" "val v" acc]
    show ?case by (simp add: subset_iff) blast
  qed
  from this [of "[]"] show ?thesis by (simp add: gm_import_def)
qed

section \<open>Machines: runs of operations, invariants and refinement\<close>

primrec run_ops :: "('op \<Rightarrow> 's \<Rightarrow> 's) \<Rightarrow> 'op list \<Rightarrow> 's \<Rightarrow> 's" where
  "run_ops step [] s = s"
| "run_ops step (x # xs) s = run_ops step xs (step x s)"

primrec run_ok :: "('op \<Rightarrow> 's \<Rightarrow> 's) \<Rightarrow> ('op \<Rightarrow> 's \<Rightarrow> bool) \<Rightarrow> 'op list \<Rightarrow> 's \<Rightarrow> bool" where
  "run_ok step ok [] s = True"
| "run_ok step ok (x # xs) s = (ok x s \<and> run_ok step ok xs (step x s))"

lemma run_ops_append: "run_ops step (xs @ ys) s = run_ops step ys (run_ops step xs s)"
  by (induction xs arbitrary: s) auto

lemma run_ok_True: "run_ok step (\<lambda>_ _. True) xs s"
  by (induction xs arbitrary: s) auto

locale guarded_machine =
  fixes step :: "'op \<Rightarrow> 's \<Rightarrow> 's"
    and ok :: "'op \<Rightarrow> 's \<Rightarrow> bool"
    and inv :: "'s \<Rightarrow> bool"
  assumes step_inv: "inv s \<Longrightarrow> ok x s \<Longrightarrow> inv (step x s)"
begin

lemma run_inv: "inv s \<Longrightarrow> run_ok step ok xs s \<Longrightarrow> inv (run_ops step xs s)"
  by (induction xs arbitrary: s) (auto intro: step_inv)

lemma run_prefix_inv:
  "inv s \<Longrightarrow> run_ok step ok (xs @ ys) s \<Longrightarrow> inv (run_ops step xs s)"
  by (induction xs arbitrary: s) (auto intro: step_inv)

end

locale data_refinement = guarded_machine step ok inv
  for step :: "'op \<Rightarrow> 's \<Rightarrow> 's" and ok :: "'op \<Rightarrow> 's \<Rightarrow> bool" and inv :: "'s \<Rightarrow> bool" +
  fixes astep :: "'op \<Rightarrow> 'a \<Rightarrow> 'a"
    and abs :: "'s \<Rightarrow> 'a"
  assumes abs_step: "inv s \<Longrightarrow> ok x s \<Longrightarrow> abs (step x s) = astep x (abs s)"
begin

lemma run_refines:
  "inv s \<Longrightarrow> run_ok step ok xs s \<Longrightarrow> abs (run_ops step xs s) = run_ops astep xs (abs s)"
  by (induction xs arbitrary: s) (auto simp: abs_step step_inv)

end

section \<open>Pieces of the language\<close>

text \<open>\<open>int64\<close> arithmetic: the exact result reduced into \<open>[-2^63, 2^63)\<close>.\<close>

definition wrap64 :: "int \<Rightarrow> int" where
  "wrap64 x = (x + 2 ^ 63) mod 2 ^ 64 - 2 ^ 63"

lemma wrap64_id: "- (2 ^ 63) \<le> x \<Longrightarrow> x < 2 ^ 63 \<Longrightarrow> wrap64 x = x"
  by (simp add: wrap64_def)

lemma wrap64_range: "- (2 ^ 63) \<le> wrap64 x \<and> wrap64 x < 2 ^ 63"
  by (simp add: wrap64_def)

text \<open>\<open>strconv.Itoa\<close>.\<close>

definition digit :: "nat \<Rightarrow> char" where
  "digit n = (CHR ''0'' # ''123456789'') ! n"

fun nat_digits :: "nat \<Rightarrow> string" where
  "nat_digits n = (if n < 10 then [digit n] else nat_digits (n div 10) @ [digit (n mod 10)])"

declare nat_digits.simps [simp del]

definition itoa :: "int \<Rightarrow> string" where
  "itoa n = (if n < 0 then ''-'' @ nat_digits (nat (- n)) else nat_digits (nat n))"

text \<open>\<open>slices.IndexFunc\<close>: the position of the first element satisfying the predicate.\<close>

primrec index_of :: "('a \<Rightarrow> bool) \<Rightarrow> 'a list \<Rightarrow> nat option" where
  "index_of p [] = None"
| "index_of p (x # xs) = (if p x then Some 0 else map_option Suc (index_of p xs))"

lemma index_of_None: "index_of p xs = None \<longleftrightarrow> (\<forall>x \<in> set xs. \<not> p x)"
  by (induction xs) auto

lemma index_of_Some:
  "index_of p xs = Some i \<Longrightarrow> i < length xs \<and> p (xs ! i) \<and> (\<forall>j < i. \<not> p (xs ! j))"
proof (induction xs arbitrary: i)
  case Nil
  then show ?case by simp
next
  case (Cons x xs)
  show ?case
  proof (cases "p x")
    case True
    with Cons.prems show ?thesis by simp
  next
    case False
    with Cons.prems obtain k where "index_of p xs = Some k" and i: "i = Suc k" by auto
    with Cons.IH [of k] False show ?thesis by (auto simp: nth_Cons split: nat.splits)
  qed
qed

text \<open>An append that drops the oldest element of a full list.\<close>

definition push_bounded :: "nat \<Rightarrow> 'a \<Rightarrow> 'a list \<Rightarrow> 'a list" where
  "push_bounded n x xs = (if length xs = n then tl xs @ [x] else xs @ [x])"

lemma set_push_bounded: "set (push_bounded n x xs) \<subseteq> insert x (set xs)"
  by (cases xs) (auto simp: push_bounded_def)

lemma sorted_push_bounded:
  "sorted_wrt r xs \<Longrightarrow> (\<And>y. y \<in> set xs \<Longrightarrow> r y x) \<Longrightarrow> sorted_wrt r (push_bounded n x xs)"
  by (cases xs) (auto simp: push_bounded_def sorted_wrt_append)

lemma length_push_bounded: "length xs \<le> n \<Longrightarrow> 0 < n \<Longrightarrow> length (push_bounded n x xs) \<le> n"
  by (auto simp: push_bounded_def)

lemma last_push_bounded: "last (push_bounded n x xs) = x"
  by (simp add: push_bounded_def)

text \<open>Incrementing a word that is not at its maximum is the successor.\<close>

lemma unat_Suc_word: "unat (w :: 'a::len word) + 1 < 2 ^ LENGTH('a) \<Longrightarrow> unat (w + 1) = Suc (unat w)"
  by (simp add: unat_word_ariths)

end
