(* ===== verification/Go_Net.thy ===== *)
theory Go_Net
  imports Prelude
begin

text \<open>
  What the source uses of Go's \<open>net/netip\<close> and \<open>net\<close> packages: addresses and prefixes with
  their validity, masking and text forms, and hardware addresses with the three notations
  \<open>net.ParseMAC\<close> accepts.  An IPv4-mapped IPv6 address is a \<open>V6\<close> value, as in \<open>netip\<close>, where
  \<open>Is4\<close> is false for it.  The lemmas give masking (idempotent, keeps the length and the family)
  and the canonical form of hardware addresses (printing and parsing again is the identity).
\<close>

unbundle bit_operations_syntax

section \<open>Addresses and prefixes (\<open>net/netip\<close>)\<close>

datatype Addr = NoAddr | V4 "32 word" | V6 "128 word" string

datatype Prefix = Prefix (prefixAddr: Addr) (prefixBits: int)

definition noPrefix :: Prefix where
  "noPrefix = Prefix NoAddr (- 1)"

primrec Is4 :: "Addr \<Rightarrow> bool" where
  "Is4 NoAddr = False"
| "Is4 (V4 a) = True"
| "Is4 (V6 a z) = False"

primrec addrIsValid :: "Addr \<Rightarrow> bool" where
  "addrIsValid NoAddr = False"
| "addrIsValid (V4 a) = True"
| "addrIsValid (V6 a z) = True"

primrec IsUnspecified :: "Addr \<Rightarrow> bool" where
  "IsUnspecified NoAddr = False"
| "IsUnspecified (V4 a) = (a = 0)"
| "IsUnspecified (V6 a z) = (a = 0 \<and> z = [])"

primrec IsMulticast :: "Addr \<Rightarrow> bool" where
  "IsMulticast NoAddr = False"
| "IsMulticast (V4 a) = (drop_bit 28 a = 14)"
| "IsMulticast (V6 a z) = (drop_bit 120 a = 255)"

primrec BitLen :: "Addr \<Rightarrow> int" where
  "BitLen NoAddr = 0"
| "BitLen (V4 a) = 32"
| "BitLen (V6 a z) = 128"

primrec withoutZone :: "Addr \<Rightarrow> Addr" where
  "withoutZone NoAddr = NoAddr"
| "withoutZone (V4 a) = V4 a"
| "withoutZone (V6 a z) = V6 a []"

definition PrefixFrom :: "Addr \<Rightarrow> int \<Rightarrow> Prefix" where
  "PrefixFrom ip bits =
     Prefix (withoutZone ip) (if addrIsValid ip \<and> 0 \<le> bits \<and> bits \<le> BitLen ip then bits else - 1)"

definition prefixIsValid :: "Prefix \<Rightarrow> bool" where
  "prefixIsValid p \<longleftrightarrow> 0 \<le> prefixBits p"

text \<open>Keep the leading \<open>b\<close> of \<open>w\<close> bits.\<close>

definition keep_top :: "nat \<Rightarrow> nat \<Rightarrow> 'a::len word \<Rightarrow> 'a word" where
  "keep_top w b x = push_bit (w - b) (drop_bit (w - b) x)"

primrec maskAddr :: "Addr \<Rightarrow> nat \<Rightarrow> Addr" where
  "maskAddr NoAddr b = NoAddr"
| "maskAddr (V4 a) b = V4 (keep_top 32 b a)"
| "maskAddr (V6 a z) b = V6 (keep_top 128 b a) []"

definition Masked :: "Prefix \<Rightarrow> Prefix" where
  "Masked p =
     (if prefixBits p < 0 \<or> prefixAddr p = NoAddr \<or> BitLen (prefixAddr p) < prefixBits p then noPrefix
      else PrefixFrom (maskAddr (prefixAddr p) (nat (prefixBits p))) (prefixBits p))"

lemma keep_top_idem: "keep_top w b (keep_top w b x) = keep_top w b x"
  by (rule bit_word_eqI) (auto simp: keep_top_def bit_simps)

lemma BitLen_maskAddr [simp]: "BitLen (maskAddr a b) = BitLen a"
  by (cases a) auto

lemma addrIsValid_maskAddr [simp]: "addrIsValid (maskAddr a b) = addrIsValid a"
  by (cases a) auto

lemma withoutZone_maskAddr [simp]: "withoutZone (maskAddr a b) = maskAddr a b"
  by (cases a) auto

lemma maskAddr_idem [simp]: "maskAddr (maskAddr a b) b = maskAddr a b"
  by (cases a) (auto simp: keep_top_idem)

lemma maskAddr_eq_NoAddr [simp]: "maskAddr a b = NoAddr \<longleftrightarrow> a = NoAddr"
  by (cases a) auto

lemma Is4_maskAddr [simp]: "Is4 (maskAddr a b) = Is4 a"
  by (cases a) auto

lemma addrIsValid_iff: "addrIsValid a \<longleftrightarrow> a \<noteq> NoAddr"
  by (cases a) auto

text \<open>\<open>prefix_ok\<close>: what \<open>PrefixFrom\<close> can build, the only way the packages make prefixes.\<close>

definition prefix_ok :: "Prefix \<Rightarrow> bool" where
  "prefix_ok p \<longleftrightarrow> withoutZone (prefixAddr p) = prefixAddr p \<and>
     (prefixBits p = - 1 \<or> (prefixAddr p \<noteq> NoAddr \<and> 0 \<le> prefixBits p \<and> prefixBits p \<le> BitLen (prefixAddr p)))"

lemma prefix_ok_PrefixFrom: "prefix_ok (PrefixFrom a b)"
  by (cases a) (auto simp: prefix_ok_def PrefixFrom_def)

lemma Masked_idem: "Masked (Masked p) = Masked p"
  by (auto simp: Masked_def PrefixFrom_def noPrefix_def addrIsValid_iff)

lemma Masked_valid:
  "prefix_ok p \<Longrightarrow> prefixIsValid p \<Longrightarrow> prefixIsValid (Masked p) \<and> prefixBits (Masked p) = prefixBits p"
  by (auto simp: Masked_def PrefixFrom_def prefix_ok_def prefixIsValid_def addrIsValid_iff)

section \<open>Text forms\<close>

definition hex_digit :: "nat \<Rightarrow> char" where
  "hex_digit n = (''0123456789abcdef'') ! n"

fun hex_digits :: "nat \<Rightarrow> string" where
  "hex_digits n = (if n < 16 then [hex_digit n] else hex_digits (n div 16) @ [hex_digit (n mod 16)])"

declare hex_digits.simps [simp del]

fun joinWith :: "string \<Rightarrow> string list \<Rightarrow> string" where
  "joinWith sep [] = []"
| "joinWith sep [x] = x"
| "joinWith sep (x # y # ys) = x @ sep @ joinWith sep (y # ys)"

definition dotted :: "32 word \<Rightarrow> string" where
  "dotted a = joinWith ''.'' (map (\<lambda>i. nat_digits (unat (drop_bit (24 - 8 * i) a AND 255))) [0, 1, 2, 3])"

definition groups16 :: "128 word \<Rightarrow> nat list" where
  "groups16 a = map (\<lambda>i. unat (drop_bit (112 - 16 * i) a AND 65535)) [0..<8]"

definition zero_run :: "nat list \<Rightarrow> nat \<Rightarrow> nat" where
  "zero_run gs i = length (takeWhile (\<lambda>g. g = 0) (drop i gs))"

definition best_run :: "nat list \<Rightarrow> nat \<times> nat" where
  "best_run gs = foldl (\<lambda>(st, l) i. let r = zero_run gs i in if 2 \<le> r \<and> l < r then (i, r) else (st, l))
     (255, 0) [0..<length gs]"

definition string6 :: "128 word \<Rightarrow> string" where
  "string6 a = (let gs = groups16 a; (st, l) = best_run gs in
     if l = 0 then joinWith '':'' (map hex_digits gs)
     else joinWith '':'' (map hex_digits (take st gs)) @ ''::'' @
          joinWith '':'' (map hex_digits (drop (st + l) gs)))"

primrec addrString :: "Addr \<Rightarrow> string" where
  "addrString NoAddr = ''invalid IP''"
| "addrString (V4 a) = dotted a"
| "addrString (V6 a z) =
     (if drop_bit 32 a = 65535 then ''::ffff:'' @ dotted (ucast a) else string6 a) @
     (if z = [] then [] else ''%'' @ z)"

definition prefixString :: "Prefix \<Rightarrow> string" where
  "prefixString p = (if prefixIsValid p then addrString (prefixAddr p) @ ''/'' @ itoa (prefixBits p)
     else ''invalid Prefix'')"

section \<open>Hardware addresses (\<open>net.ParseMAC\<close>, \<open>HardwareAddr.String\<close>)\<close>

definition hexval :: "char \<Rightarrow> nat option" where
  "hexval c = (let n = of_char c in
     if 48 \<le> n \<and> n \<le> 57 then Some (n - 48)
     else if 97 \<le> n \<and> n \<le> 102 then Some (n - 87)
     else if 65 \<le> n \<and> n \<le> 70 then Some (n - 55) else None)"

definition xtoi2 :: "string \<Rightarrow> char option \<Rightarrow> nat option" where
  "xtoi2 s e =
     (if 2 < length s \<and> Some (s ! 2) \<noteq> e then None
      else case s of a # b # _ \<Rightarrow> (case (hexval a, hexval b) of
             (Some h, Some l) \<Rightarrow> Some (16 * h + l) | _ \<Rightarrow> None)
           | _ \<Rightarrow> None)"

primrec mac_bytes :: "nat \<Rightarrow> string \<Rightarrow> char \<Rightarrow> nat list option" where
  "mac_bytes 0 s e = Some []"
| "mac_bytes (Suc n) s e = (case xtoi2 s (Some e) of None \<Rightarrow> None
     | Some b \<Rightarrow> map_option ((#) b) (mac_bytes n (drop 3 s) e))"

primrec mac_pairs :: "nat \<Rightarrow> string \<Rightarrow> char \<Rightarrow> nat list option" where
  "mac_pairs 0 s e = Some []"
| "mac_pairs (Suc n) s e = (case (xtoi2 (take 2 s) None, xtoi2 (drop 2 s) (Some e)) of
     (Some a, Some b) \<Rightarrow> map_option (\<lambda>bs. a # b # bs) (mac_pairs n (drop 5 s) e) | _ \<Rightarrow> None)"

definition ParseMAC :: "string \<Rightarrow> nat list option" where
  "ParseMAC s =
     (if length s < 14 then None
      else if s ! 2 = CHR '':'' \<or> s ! 2 = CHR ''-'' then
        (let n = (length s + 1) div 3 in
         if (length s + 1) mod 3 \<noteq> 0 \<or> n \<notin> {6, 8, 20} then None else mac_bytes n s (s ! 2))
      else if s ! 4 = CHR ''.'' then
        (let n = 2 * (length s + 1) div 5 in
         if (length s + 1) mod 5 \<noteq> 0 \<or> n \<notin> {6, 8, 20} then None else mac_pairs (n div 2) s (s ! 4))
      else None)"

definition hex2 :: "nat \<Rightarrow> string" where
  "hex2 b = [hex_digit (b div 16), hex_digit (b mod 16)]"

definition macString :: "nat list \<Rightarrow> string" where
  "macString bs = joinWith '':'' (map hex2 bs)"

lemma hexval_less: "hexval c = Some n \<Longrightarrow> n < 16"
  by (auto simp: hexval_def Let_def split: if_splits)

lemma nat_less_16: "n < (16::nat) \<Longrightarrow> n \<in> {0, 1, 2, 3, 4, 5, 6, 7, 8, 9, 10, 11, 12, 13, 14, 15}"
  by (simp only: insert_iff empty_iff) presburger

lemma hexval_hex_digit: "n < 16 \<Longrightarrow> hexval (hex_digit n) = Some n"
  by (drule nat_less_16) (auto simp: hexval_def hex_digit_def)

lemma xtoi2_less: "xtoi2 s e = Some b \<Longrightarrow> b < 256"
  by (auto simp: xtoi2_def split: if_splits list.splits option.splits dest!: hexval_less)

lemma xtoi2_hex2: "b < 256 \<Longrightarrow> xtoi2 (hex2 b) e = Some b"
  by (simp add: xtoi2_def hex2_def hexval_hex_digit)

lemma xtoi2_hex2_sep: "b < 256 \<Longrightarrow> xtoi2 (hex2 b @ e # r) (Some e) = Some b"
  by (simp add: xtoi2_def hex2_def hexval_hex_digit)

lemma mac_bytes_bounds:
  "mac_bytes n s e = Some bs \<Longrightarrow> length bs = n \<and> (\<forall>b \<in> set bs. b < 256)"
  by (induction n arbitrary: s bs) (auto split: option.splits dest: xtoi2_less)

lemma mac_pairs_bounds:
  "mac_pairs n s e = Some bs \<Longrightarrow> length bs = 2 * n \<and> (\<forall>b \<in> set bs. b < 256)"
  by (induction n arbitrary: s bs) (fastforce split: option.splits dest: xtoi2_less)+

lemma ParseMAC_bounds: "ParseMAC s = Some bs \<Longrightarrow> \<forall>b \<in> set bs. b < 256"
  by (auto simp: ParseMAC_def Let_def split: if_splits dest: mac_bytes_bounds mac_pairs_bounds)

lemma mac_bytes_macString:
  "\<forall>b \<in> set bs. b < 256 \<Longrightarrow> mac_bytes (length bs) (macString bs) (CHR '':'') = Some bs"
proof (induction bs)
  case Nil
  then show ?case by simp
next
  case (Cons b bs)
  show ?case
  proof (cases bs)
    case Nil
    with Cons.prems show ?thesis by (simp add: macString_def xtoi2_hex2)
  next
    case (Cons c cs)
    then have "macString (b # bs) = hex2 b @ CHR '':'' # macString bs"
      by (simp add: macString_def)
    moreover have "drop 3 (hex2 b @ CHR '':'' # macString bs) = macString bs"
      by (simp add: hex2_def)
    ultimately show ?thesis
      using Cons.IH Cons.prems by (simp add: xtoi2_hex2_sep)
  qed
qed

lemma length_macString: "bs \<noteq> [] \<Longrightarrow> length (macString bs) = 3 * length bs - 1"
proof (induction bs)
  case (Cons b bs)
  then show ?case by (cases bs) (auto simp: macString_def hex2_def)
qed simp

lemma macString_sep: "2 \<le> length bs \<Longrightarrow> macString bs ! 2 = CHR '':''"
  by (cases bs; cases "tl bs") (auto simp: macString_def hex2_def)

text \<open>A six-byte address prints to a text that parses back to it.\<close>

lemma ParseMAC_macString:
  assumes "length bs = 6" "\<forall>b \<in> set bs. b < 256"
  shows "ParseMAC (macString bs) = Some bs"
proof -
  have "length (macString bs) = 17"
    using assms(1) length_macString [of bs] by (cases bs) auto
  moreover have "macString bs ! 2 = CHR '':''"
    using assms(1) by (intro macString_sep) simp
  ultimately show ?thesis
    using mac_bytes_macString [OF assms(2)] assms(1) by (simp add: ParseMAC_def)
qed

end
