(* ===== verification/Device_Types.thy ===== *)
theory Device_Types
  imports Go_Net
begin

text \<open>
  The data of \<open>internal/devicestate\<close>: interfaces, routes, VLANs and routers (\<open>network.go\<close>),
  identity, configuration banks and snapshots (\<open>store.go\<close>), the four fault families with their
  catalogs (\<open>store_fault.go\<close>, \<open>store_device_fault.go\<close>, \<open>store_interface_address_fault.go\<close>,
  \<open>store_prefix_fault.go\<close>, \<open>fault_catalog.go\<close>), one-shot actions and telemetry (\<open>action.go\<close>,
  \<open>store_device_action.go\<close>), stations, radios, checkpoints, events and the errors.

  Struct fields keep the source's names behind a short prefix, since a record field is a constant
  of the whole theory.  Fault types, action types and event kinds are Go strings and stay strings:
  a value outside the constants is possible and the validators must refuse it.  \<open>time.Time\<close> is the
  number of nanoseconds since the zero time, so \<open>IsZero\<close> is \<open>t = 0\<close>.
\<close>

type_synonym time = int

definition unixEpoch :: time where
  "unixEpoch = 62135596800 * 10 ^ 9"

section \<open>Network inventory (network.go)\<close>

record Interface =
  ifName :: string
  ifNetwork :: string
  ifAddress :: Prefix
  ifDescription :: string
  ifVLANs :: "int list"
  ifAdminUp :: bool
  ifOperUp :: bool
  ifCarrierUp :: bool

record Route =
  rtDestination :: Prefix
  rtVia :: string
  rtNextHop :: Addr
  rtConnected :: bool

record VLAN =
  vlanID :: int
  vlanName :: string
  vlanActive :: bool

record RouterNetwork =
  rnAddress :: string
  rnWildcard :: string
  rnArea :: string

record Router =
  roProtocol :: string
  roProcessID :: string
  roNetworks :: "RouterNetwork list"

record Network =
  nwInterfaces :: "Interface list"
  nwRoutes :: "Route list"
  nwVLANs :: "VLAN list"
  nwRouters :: "Router list"

record Identity =
  Hostname :: string

record configuration =
  cfIdentity :: Identity
  cfNetwork :: Network

section \<open>Faults\<close>

definition FaultFCS :: string where "FaultFCS = ''fcs_errors''"
definition FaultDiscards :: string where "FaultDiscards = ''packet_discards''"
definition FaultInterface :: string where "FaultInterface = ''interface_errors''"
definition FaultUtilization :: string where "FaultUtilization = ''high_utilization''"
definition FaultLinkDown :: string where "FaultLinkDown = ''link_down''"
definition FaultPoELoss :: string where "FaultPoELoss = ''poe_loss''"

lemmas fault_type_defs = FaultFCS_def FaultDiscards_def FaultInterface_def FaultUtilization_def
  FaultLinkDown_def FaultPoELoss_def

record FaultDefinition =
  fdType :: string
  fdLabel :: string

definition interfaceFaultDefinitions :: "FaultDefinition list" where
  "interfaceFaultDefinitions =
    [\<lparr>fdType = FaultFCS, fdLabel = ''FCS Errors''\<rparr>,
     \<lparr>fdType = FaultDiscards, fdLabel = ''Packet Discards''\<rparr>,
     \<lparr>fdType = FaultInterface, fdLabel = ''Interface Errors''\<rparr>,
     \<lparr>fdType = FaultUtilization, fdLabel = ''High Utilization''\<rparr>,
     \<lparr>fdType = FaultLinkDown, fdLabel = ''Link Down''\<rparr>,
     \<lparr>fdType = FaultPoELoss, fdLabel = ''PoE Loss''\<rparr>]"

definition faultLabel :: "string \<Rightarrow> string" where
  "faultLabel f = (case find (\<lambda>d. fdType d = f) interfaceFaultDefinitions of
     Some d \<Rightarrow> fdLabel d | None \<Rightarrow> [])"

definition ParseFaultLabel :: "string \<Rightarrow> string option" where
  "ParseFaultLabel label = map_option fdType (find (\<lambda>d. fdLabel d = label) interfaceFaultDefinitions)"

definition validFaultType :: "string \<Rightarrow> bool" where
  "validFaultType f = list_ex (\<lambda>d. fdType d = f) interfaceFaultDefinitions"

record InterfaceFault =
  ftInterface :: string
  ftType :: string
  ftValue :: int

text \<open>\<open>interfaceFaultKey\<close> and its two siblings: the interface name and the fault type.\<close>

type_synonym interfaceFaultKey = "string \<times> string"

definition faultKey :: "InterfaceFault \<Rightarrow> interfaceFaultKey" where
  "faultKey f = (ftInterface f, ftType f)"

definition FaultDHCPNoOffer :: string where "FaultDHCPNoOffer = ''dhcp_no_offer''"
definition FaultDNSNXDomain :: string where "FaultDNSNXDomain = ''dns_nxdomain''"
definition FaultDNSTimeout :: string where "FaultDNSTimeout = ''dns_timeout''"
definition FaultLatency :: string where "FaultLatency = ''latency''"
definition FaultCPUPercent :: string where "FaultCPUPercent = ''cpu_percent''"
definition FaultMemoryPercent :: string where "FaultMemoryPercent = ''memory_percent''"
definition FaultDiskPercent :: string where "FaultDiskPercent = ''disk_percent''"
definition FaultCaptivePortal :: string where "FaultCaptivePortal = ''captive_portal''"
definition FaultDuplicateDHCPOffer :: string where "FaultDuplicateDHCPOffer = ''duplicate_dhcp_offer''"

lemmas device_fault_type_defs = FaultDHCPNoOffer_def FaultDNSNXDomain_def FaultDNSTimeout_def
  FaultLatency_def FaultCPUPercent_def FaultMemoryPercent_def FaultDiskPercent_def
  FaultCaptivePortal_def FaultDuplicateDHCPOffer_def

definition faultRateMax :: int where "faultRateMax = 100"
definition faultLatencyMaxMs :: int where "faultLatencyMaxMs = 60000"

record DeviceFault =
  dfType :: string
  dfValue :: int
  dfAddress :: Addr

record DeviceFaultDefinition =
  ddType :: string
  ddLabel :: string
  ddMaxValue :: int

definition deviceFaultDefinitions :: "DeviceFaultDefinition list" where
  "deviceFaultDefinitions =
    [\<lparr>ddType = FaultDHCPNoOffer, ddLabel = ''DHCP No Offer'', ddMaxValue = faultRateMax\<rparr>,
     \<lparr>ddType = FaultDNSNXDomain, ddLabel = ''DNS NXDOMAIN'', ddMaxValue = faultRateMax\<rparr>,
     \<lparr>ddType = FaultDNSTimeout, ddLabel = ''DNS Timeout'', ddMaxValue = faultRateMax\<rparr>,
     \<lparr>ddType = FaultLatency, ddLabel = ''Latency'', ddMaxValue = faultLatencyMaxMs\<rparr>,
     \<lparr>ddType = FaultCPUPercent, ddLabel = ''CPU Utilization'', ddMaxValue = faultRateMax\<rparr>,
     \<lparr>ddType = FaultMemoryPercent, ddLabel = ''Memory Utilization'', ddMaxValue = faultRateMax\<rparr>,
     \<lparr>ddType = FaultDiskPercent, ddLabel = ''Disk Utilization'', ddMaxValue = faultRateMax\<rparr>,
     \<lparr>ddType = FaultCaptivePortal, ddLabel = ''Captive Portal'', ddMaxValue = 1\<rparr>]"

definition deviceFaultDefinition :: "string \<Rightarrow> DeviceFaultDefinition option" where
  "deviceFaultDefinition t =
     (case index_of (\<lambda>d. ddType d = t) deviceFaultDefinitions of
        None \<Rightarrow> None | Some i \<Rightarrow> Some (deviceFaultDefinitions ! i))"

definition deviceFaultLabel :: "string \<Rightarrow> string" where
  "deviceFaultLabel f =
     (if f = FaultDuplicateDHCPOffer then ''Duplicate DHCP Offer''
      else case find (\<lambda>d. ddType d = f) deviceFaultDefinitions of Some d \<Rightarrow> ddLabel d | None \<Rightarrow> [])"

definition ParseDeviceFaultLabel :: "string \<Rightarrow> string option" where
  "ParseDeviceFaultLabel label =
     (if label = deviceFaultLabel FaultDuplicateDHCPOffer then Some FaultDuplicateDHCPOffer
      else map_option ddType (find (\<lambda>d. ddLabel d = label) deviceFaultDefinitions))"

definition FaultDuplicateIP :: string where "FaultDuplicateIP = ''duplicate_ip''"
definition FaultBadMask :: string where "FaultBadMask = ''bad_mask''"

lemmas payload_fault_type_defs = FaultDuplicateIP_def FaultBadMask_def FaultDuplicateDHCPOffer_def

record InterfaceAddressFault =
  afInterface :: string
  afType :: string
  afAddress :: Addr

definition addressFaultKey :: "InterfaceAddressFault \<Rightarrow> string \<times> string" where
  "addressFaultKey f = (afInterface f, afType f)"

record InterfacePrefixFault =
  pfInterface :: string
  pfType :: string
  pfPrefixBits :: int

definition prefixFaultKey :: "InterfacePrefixFault \<Rightarrow> string \<times> string" where
  "prefixFaultKey f = (pfInterface f, pfType f)"

definition addressFaultLabel :: "string \<Rightarrow> string" where
  "addressFaultLabel t = (if t = FaultDuplicateIP then ''Duplicate IP'' else [])"

definition prefixFaultLabel :: "string \<Rightarrow> string" where
  "prefixFaultLabel t = (if t = FaultBadMask then ''Bad Subnet Mask'' else [])"

definition AuthorableFaultTypes :: "string list" where
  "AuthorableFaultTypes =
     sort ([FaultDuplicateDHCPOffer, FaultDuplicateIP, FaultBadMask] @
       map fdType interfaceFaultDefinitions @ map ddType deviceFaultDefinitions)"

definition ValidFaultAddress :: "Addr \<Rightarrow> bool" where
  "ValidFaultAddress a \<longleftrightarrow>
     Is4 a \<and> \<not> IsUnspecified a \<and> \<not> IsMulticast a \<and> a \<noteq> V4 0xFFFFFFFF"

definition validDeviceFault :: "DeviceFault \<Rightarrow> bool" where
  "validDeviceFault f =
     (if dfType f = FaultDuplicateDHCPOffer then dfValue f = 0 \<and> ValidFaultAddress (dfAddress f)
      else case deviceFaultDefinition (dfType f) of
        None \<Rightarrow> False
      | Some d \<Rightarrow> dfAddress f = NoAddr \<and> 0 < dfValue f \<and> dfValue f \<le> ddMaxValue d)"

definition isCarrierFault :: "string \<Rightarrow> bool" where
  "isCarrierFault t =
     (if t = FaultLinkDown \<or> t = FaultPoELoss then True
      else if t = FaultFCS \<or> t = FaultDiscards \<or> t = FaultInterface \<or> t = FaultUtilization then False
      else False)"

definition interfaceExists :: "Interface list \<Rightarrow> string \<Rightarrow> bool" where
  "interfaceExists ifs name = list_ex (\<lambda>i. ifName i = name) ifs"

lemma interfaceExists_iff: "interfaceExists ifs name \<longleftrightarrow> name \<in> set (map ifName ifs)"
  by (auto simp: interfaceExists_def list_ex_iff)

section \<open>One-shot actions, stations, radios\<close>

definition ActionReboot :: string where "ActionReboot = ''reboot''"
definition ActionSTPTopologyChange :: string where "ActionSTPTopologyChange = ''stp_topology_change''"

definition DeviceActionTypes :: "string list" where
  "DeviceActionTypes = [ActionReboot, ActionSTPTopologyChange]"

lemma action_types_distinct [simp]:
  "ActionReboot \<noteq> ActionSTPTopologyChange" "ActionSTPTopologyChange \<noteq> ActionReboot"
  "ActionReboot \<noteq> []" "ActionSTPTopologyChange \<noteq> []"
  "[] \<noteq> ActionReboot" "[] \<noteq> ActionSTPTopologyChange"
  by (simp_all add: ActionReboot_def ActionSTPTopologyChange_def)

definition maxConsumedDeviceActions :: nat where "maxConsumedDeviceActions = 100000"
definition maxDeviceActionIDLength :: nat where "maxDeviceActionIDLength = 128"

definition validDeviceAction :: "string \<Rightarrow> bool" where
  "validDeviceAction k \<longleftrightarrow> k = ActionReboot \<or> k = ActionSTPTopologyChange"

record DeviceTelemetry =
  RebootedAt :: time
  STPChanges :: "32 word"
  STPChangedAt :: time

record ConsumedDeviceAction =
  caID :: string
  caType :: string

record Station =
  stMAC :: string
  stRadio :: string
  stIPAddress :: Addr
  stSignalDBM :: int
  stSignalQualityPct :: int
  stAssociatedAt :: time
  stReturnRadio :: string

definition RoamCauseRadioDown :: string where "RoamCauseRadioDown = ''radio_down''"
definition RoamCauseTxPowerDrop :: string where "RoamCauseTxPowerDrop = ''tx_power_drop''"

definition MinRadioTxPowerDBM :: int where "MinRadioTxPowerDBM = 1"
definition MaxRadioTxPowerDBM :: int where "MaxRadioTxPowerDBM = 30"

record RadioTxPower =
  rpInterface :: string
  rpDBM :: int

section \<open>Events, checkpoints, durable records, errors\<close>

definition maxEventHistory :: nat where "maxEventHistory = 1024"
definition initialStoreVersion :: "64 word" where "initialStoreVersion = 1"

definition EventNetworkInstalled :: string where "EventNetworkInstalled = ''network.installed''"
definition EventIdentityUpdated :: string where "EventIdentityUpdated = ''identity.updated''"
definition EventInterfaceUpdated :: string where "EventInterfaceUpdated = ''interface.updated''"
definition EventStartupSaved :: string where "EventStartupSaved = ''startup.saved''"
definition EventStartupReloaded :: string where "EventStartupReloaded = ''startup.reloaded''"
definition EventStartupErased :: string where "EventStartupErased = ''startup.erased''"
definition EventAuthoredReset :: string where "EventAuthoredReset = ''authored.reset''"
definition EventCheckpointSaved :: string where "EventCheckpointSaved = ''checkpoint.saved''"
definition EventCheckpointRestored :: string where "EventCheckpointRestored = ''checkpoint.restored''"
definition EventVLANUpdated :: string where "EventVLANUpdated = ''vlan.updated''"
definition EventRouterUpdated :: string where "EventRouterUpdated = ''router.updated''"
definition EventRouteUpdated :: string where "EventRouteUpdated = ''route.updated''"
definition EventFaultUpdated :: string where "EventFaultUpdated = ''fault.updated''"
definition EventFaultCleared :: string where "EventFaultCleared = ''fault.cleared''"
definition EventDeviceFaultUpdated :: string where "EventDeviceFaultUpdated = ''device_fault.updated''"
definition EventDeviceFaultCleared :: string where "EventDeviceFaultCleared = ''device_fault.cleared''"
definition EventDeviceRebooted :: string where "EventDeviceRebooted = ''device.rebooted''"
definition EventSTPTopologyChanged :: string where "EventSTPTopologyChanged = ''stp.topology_changed''"
definition EventStationAssociated :: string where "EventStationAssociated = ''station.associated''"
definition EventStationRoamed :: string where "EventStationRoamed = ''station.roamed''"
definition EventRadioUpdated :: string where "EventRadioUpdated = ''radio.updated''"

lemmas event_kind_defs = EventNetworkInstalled_def EventIdentityUpdated_def EventInterfaceUpdated_def
  EventStartupSaved_def EventStartupReloaded_def EventStartupErased_def EventAuthoredReset_def
  EventCheckpointSaved_def EventCheckpointRestored_def EventVLANUpdated_def EventRouterUpdated_def
  EventRouteUpdated_def EventFaultUpdated_def EventFaultCleared_def EventDeviceFaultUpdated_def
  EventDeviceFaultCleared_def EventDeviceRebooted_def EventSTPTopologyChanged_def
  EventStationAssociated_def EventStationRoamed_def EventRadioUpdated_def

record Event =
  evVersion :: "64 word"
  evKind :: string
  evTarget :: string
  evInterface :: "Interface option"
  evPreviousInterface :: "Interface option"
  evInterfaceIndex :: int
  evTimestamp :: time

record Snapshot =
  snIdentity :: Identity
  snNetwork :: Network
  snFaults :: "InterfaceFault list"
  snAddressFaults :: "InterfaceAddressFault list"
  snPrefixFaults :: "InterfacePrefixFault list"
  snDeviceFaults :: "DeviceFault list"
  snStations :: "Station list"
  snVersion :: "64 word"

record checkpoint =
  cpTelemetry :: DeviceTelemetry
  cpConfig :: configuration
  cpFaults :: "(string \<times> string, InterfaceFault) gomap"
  cpAddressFaults :: "(string \<times> string, InterfaceAddressFault) gomap"
  cpPrefixFaults :: "(string \<times> string, InterfacePrefixFault) gomap"
  cpDeviceFaults :: "(string, DeviceFault) gomap"
  cpStations :: "(string, Station) gomap"
  cpRadioTxPower :: "(string, int) gomap"

record interfaceTransition =
  trOperUp :: bool
  trChangedAt :: time

datatype derror =
    ErrConcurrentUpdate | ErrInterfaceNotFound | ErrInterfaceRename
  | ErrFaultTypeInvalid | ErrFaultValueInvalid | ErrDeviceFaultTypeInvalid
  | ErrFaultAddressInvalid | ErrFaultPrefixInvalid | ErrCheckpointNotFound | ErrStateInvalid
  | ErrStationInvalid | ErrStationAssociated | ErrStationNotFound | ErrVLANNotFound
  | ErrRadioTxPowerInvalid | ErrDeviceActionInvalid | ErrDeviceActionConflict | ErrDeviceActionLimit
  | ErrUpdate string \<comment> \<open>an error returned by an update callback\<close>
  | PanicIndex \<comment> \<open>index out of range\<close>

section \<open>Facts about the catalogs\<close>

lemma validFaultType_iff:
  "validFaultType f \<longleftrightarrow>
     f \<in> {FaultFCS, FaultDiscards, FaultInterface, FaultUtilization, FaultLinkDown, FaultPoELoss}"
  by (auto simp: validFaultType_def interfaceFaultDefinitions_def)

lemma isCarrierFault_iff: "isCarrierFault t \<longleftrightarrow> t = FaultLinkDown \<or> t = FaultPoELoss"
  by (simp add: isCarrierFault_def)

lemma deviceFaultDefinition_type: "deviceFaultDefinition t = Some d \<Longrightarrow> ddType d = t"
  by (auto simp: deviceFaultDefinition_def split: option.splits dest: index_of_Some)

lemma deviceFaultDefinition_mem: "deviceFaultDefinition t = Some d \<Longrightarrow> d \<in> set deviceFaultDefinitions"
  by (auto simp: deviceFaultDefinition_def split: option.splits dest: index_of_Some)

lemma deviceFaultDefinition_duplicate: "deviceFaultDefinition FaultDuplicateDHCPOffer = None"
  by (auto simp: deviceFaultDefinition_def index_of_None deviceFaultDefinitions_def
      device_fault_type_defs split: option.splits)

lemma deviceFaultDefinition_max: "deviceFaultDefinition t = Some d \<Longrightarrow> 1 \<le> ddMaxValue d"
  by (drule deviceFaultDefinition_mem)
    (auto simp: deviceFaultDefinitions_def faultRateMax_def faultLatencyMaxMs_def)

end
