(* ===== verification/Device_Store.thy ===== *)
theory Device_Store
  imports Device_Types
begin

text \<open>
  The store of \<open>internal/devicestate\<close> (\<open>store.go\<close>) and what every operation shares: the bounded
  event journal (\<open>event.go\<close>), the projection of carrier faults (\<open>store_fault.go\<close>), snapshots,
  and the last-change table (\<open>store_interface_transition.go\<close>).

  One goroutine at a time holds the store's mutex while it changes it, so each operation is a
  function from store to store; the read-then-commit operations, which release the lock around a
  callback, take the effect of the other goroutines in that window as an argument.  A deep copy
  (\<open>cloneNetwork\<close> and its kin) is the identity on values.  The clock field \<open>now\<close> is a Go function:
  its n-th call returns \<open>now n\<close>, and \<open>ticks\<close> counts the calls.  The one-slot channel \<open>changes\<close>
  is the flag "a token is in the slot"; \<open>changeSignal\<close>, the one-slot wake channel of the
  notification dispatcher, is absent or such a flag; the change observer is absent or the list of
  snapshots it was called with.
\<close>

section \<open>Copies\<close>

definition cloneInterface :: "Interface \<Rightarrow> Interface" where
  "cloneInterface i = i\<lparr>ifVLANs := map (\<lambda>v. v) (ifVLANs i)\<rparr>"

definition cloneNetwork :: "Network \<Rightarrow> Network" where
  "cloneNetwork n =
     \<lparr>nwInterfaces = map cloneInterface (nwInterfaces n), nwRoutes = nwRoutes n, nwVLANs = nwVLANs n,
      nwRouters = map (\<lambda>r. r\<lparr>roNetworks := map (\<lambda>x. x) (roNetworks r)\<rparr>) (nwRouters n)\<rparr>"

definition cloneConfiguration :: "configuration \<Rightarrow> configuration" where
  "cloneConfiguration c = \<lparr>cfIdentity = cfIdentity c, cfNetwork = cloneNetwork (cfNetwork c)\<rparr>"

definition cloneEvents :: "Event list \<Rightarrow> Event list" where
  "cloneEvents es = map (\<lambda>e. e\<lparr>evInterface := map_option cloneInterface (evInterface e),
     evPreviousInterface := map_option cloneInterface (evPreviousInterface e)\<rparr>) es"

lemma cloneInterface_id [simp]: "cloneInterface i = i"
  by (simp add: cloneInterface_def)

lemma cloneInterface_fun [simp]: "cloneInterface = (\<lambda>i. i)"
  by (simp add: fun_eq_iff)

lemma cloneNetwork_id [simp]: "cloneNetwork n = n"
  by (simp add: cloneNetwork_def)

lemma cloneConfiguration_id [simp]: "cloneConfiguration c = c"
  by (simp add: cloneConfiguration_def)

lemma cloneEvents_id [simp]: "cloneEvents es = es"
  by (simp add: cloneEvents_def option.map_ident)

section \<open>The store\<close>

record Store =
  running :: configuration
  startup :: configuration
  authored :: configuration
  version :: "64 word"
  events :: "Event list"
  checkpoints :: "(string, checkpoint) gomap"
  faults :: "(string \<times> string, InterfaceFault) gomap"
  addressFaults :: "(string \<times> string, InterfaceAddressFault) gomap"
  prefixFaults :: "(string \<times> string, InterfacePrefixFault) gomap"
  deviceFaults :: "(string, DeviceFault) gomap"
  changes :: bool
  changeSignal :: "bool option"
  changeObserver :: "Snapshot list option"
  now :: "nat \<Rightarrow> time"
  ticks :: nat
  interfaceTransitions :: "(string, interfaceTransition) gomap"
  telemetry :: DeviceTelemetry
  consumedActions :: "(string, string) gomap"
  stations :: "(string, Station) gomap"
  radioTxPower :: "(string, int) gomap"

definition emptyNetwork :: Network where
  "emptyNetwork = \<lparr>nwInterfaces = [], nwRoutes = [], nwVLANs = [], nwRouters = []\<rparr>"

definition zeroTelemetry :: DeviceTelemetry where
  "zeroTelemetry = \<lparr>RebootedAt = 0, STPChanges = 0, STPChangedAt = 0\<rparr>"

definition NewStore :: "Identity \<Rightarrow> (nat \<Rightarrow> time) \<Rightarrow> Store" where
  "NewStore identity clock =
     (let initial = \<lparr>cfIdentity = identity, cfNetwork = emptyNetwork\<rparr> in
      \<lparr>running = initial, startup = initial, authored = initial, version = initialStoreVersion,
       events = [], checkpoints = [], faults = [], addressFaults = [], prefixFaults = [],
       deviceFaults = [], changes = False, changeSignal = None, changeObserver = None,
       now = clock, ticks = 0, interfaceTransitions = [], telemetry = zeroTelemetry,
       consumedActions = [], stations = [], radioTxPower = []\<rparr>)"

abbreviation runningInterfaces :: "Store \<Rightarrow> Interface list" where
  "runningInterfaces s \<equiv> nwInterfaces (cfNetwork (running s))"

abbreviation authoredInterfaces :: "Store \<Rightarrow> Interface list" where
  "authoredInterfaces s \<equiv> nwInterfaces (cfNetwork (authored s))"

definition setRunningNetwork :: "(Network \<Rightarrow> Network) \<Rightarrow> Store \<Rightarrow> Store" where
  "setRunningNetwork f s = s\<lparr>running := (running s)\<lparr>cfNetwork := f (cfNetwork (running s))\<rparr>\<rparr>"

section \<open>Carrier faults (store_fault.go)\<close>

definition takeCarrier :: "string \<Rightarrow> Interface \<Rightarrow> Interface" where
  "takeCarrier name i =
     (if ifName i = name then i\<lparr>ifCarrierUp := False, ifOperUp := False\<rparr> else i)"

definition applyCarrierFaults ::
  "Interface list \<Rightarrow> (string \<times> string, InterfaceFault) gomap \<Rightarrow> Interface list" where
  "applyCarrierFaults ifs m =
     foldl (\<lambda>acc (key, fault).
        if \<not> isCarrierFault (snd key) \<or> ftValue fault \<le> 0 then acc
        else map (takeCarrier (fst key)) acc) ifs m"

text \<open>The names whose carrier the armed faults take.\<close>

definition carrierTaken :: "(string \<times> string, InterfaceFault) gomap \<Rightarrow> string set" where
  "carrierTaken m =
     (\<lambda>e. fst (fst e)) ` {e \<in> set m. isCarrierFault (snd (fst e)) \<and> 0 < ftValue (snd e)}"

lemma carrierTaken_Nil [simp]: "carrierTaken [] = {}"
  by (simp add: carrierTaken_def)

lemma carrierTaken_Cons:
  "carrierTaken (e # m) =
     (if isCarrierFault (snd (fst e)) \<and> 0 < ftValue (snd e) then {fst (fst e)} else {}) \<union> carrierTaken m"
  by (auto simp: carrierTaken_def)

lemma takeCarrier_simps [simp]: "ifName (takeCarrier n i) = ifName i" "ifAdminUp (takeCarrier n i) = ifAdminUp i"
  by (simp_all add: takeCarrier_def)

text \<open>
  The projection is pointwise, and depends on the set of entries only: the order in which the
  Go loop ranges over the map does not matter.
\<close>

lemma applyCarrierFaults_eq:
  "applyCarrierFaults ifs m =
     map (\<lambda>i. if ifName i \<in> carrierTaken m then takeCarrier (ifName i) i else i) ifs"
proof (induction m arbitrary: ifs)
  case Nil
  then show ?case by (simp add: applyCarrierFaults_def)
next
  case (Cons e m)
  obtain key fault where e: "e = (key, fault)" by (cases e)
  have step: "applyCarrierFaults ifs (e # m) =
      applyCarrierFaults (if isCarrierFault (snd key) \<and> 0 < ftValue fault
        then map (takeCarrier (fst key)) ifs else ifs) m"
    by (simp add: applyCarrierFaults_def e)
  show ?case
    unfolding step Cons.IH
    by (auto simp: e carrierTaken_Cons takeCarrier_def)
qed

lemma map_ifName_applyCarrierFaults [simp]:
  "map ifName (applyCarrierFaults ifs m) = map ifName ifs"
  by (simp add: applyCarrierFaults_eq)

lemma length_applyCarrierFaults [simp]: "length (applyCarrierFaults ifs m) = length ifs"
  by (simp add: applyCarrierFaults_eq)

lemma applyCarrierFaults_Nil [simp]: "applyCarrierFaults ifs [] = ifs"
  by (simp add: applyCarrierFaults_def)

section \<open>Snapshots (store.go)\<close>

definition sortedInterfaceFaults :: "(string \<times> string, InterfaceFault) gomap \<Rightarrow> InterfaceFault list" where
  "sortedInterfaceFaults m = gm_export faultKey m"

definition sortedAddressFaults ::
  "(string \<times> string, InterfaceAddressFault) gomap \<Rightarrow> InterfaceAddressFault list" where
  "sortedAddressFaults m = gm_export addressFaultKey m"

definition sortedPrefixFaults ::
  "(string \<times> string, InterfacePrefixFault) gomap \<Rightarrow> InterfacePrefixFault list" where
  "sortedPrefixFaults m = gm_export prefixFaultKey m"

definition sortedDeviceFaults :: "(string, DeviceFault) gomap \<Rightarrow> DeviceFault list" where
  "sortedDeviceFaults m = gm_export dfType m"

definition sortedStations :: "(string, Station) gomap \<Rightarrow> Station list" where
  "sortedStations m = gm_export stMAC m"

definition snapshot :: "Store \<Rightarrow> configuration \<Rightarrow> Snapshot" where
  "snapshot s source =
     (let network = cloneNetwork (cfNetwork source) in
      \<lparr>snIdentity = cfIdentity source,
       snNetwork = network\<lparr>nwInterfaces := applyCarrierFaults (nwInterfaces network) (faults s)\<rparr>,
       snFaults = sortedInterfaceFaults (faults s),
       snAddressFaults = sortedAddressFaults (addressFaults s),
       snPrefixFaults = sortedPrefixFaults (prefixFaults s),
       snDeviceFaults = sortedDeviceFaults (deviceFaults s),
       snStations = sortedStations (stations s),
       snVersion = version s\<rparr>)"

definition storeSnapshot :: "Store \<Rightarrow> Snapshot" where
  "storeSnapshot s = snapshot s (running s)"

definition StartupSnapshot :: "Store \<Rightarrow> Snapshot" where
  "StartupSnapshot s = snapshot s (startup s)"

section \<open>Last operational change (store_interface_transition.go)\<close>

fun transitionLoop ::
  "(nat \<Rightarrow> time) \<Rightarrow> (string, interfaceTransition) gomap \<Rightarrow> Interface list \<Rightarrow>
   (string, interfaceTransition) gomap \<Rightarrow> time \<Rightarrow> nat \<Rightarrow> (string, interfaceTransition) gomap \<times> nat" where
  "transitionLoop clock old [] nxt changedAt tk = (nxt, tk)"
| "transitionLoop clock old (i # is) nxt changedAt tk =
     (let prev = (case map_of old (ifName i) of None \<Rightarrow> \<lparr>trOperUp = False, trChangedAt = 0\<rparr> | Some p \<Rightarrow> p);
          moved = (gm_has old (ifName i) \<and> trOperUp prev \<noteq> ifOperUp i);
          (changedAt', tk') = (if moved \<and> changedAt = 0 then (clock tk, Suc tk) else (changedAt, tk));
          prev' = (if moved then prev\<lparr>trChangedAt := changedAt'\<rparr> else prev)
      in transitionLoop clock old is (gm_put (ifName i) (prev'\<lparr>trOperUp := ifOperUp i\<rparr>) nxt) changedAt' tk')"

definition updateInterfaceTransitions :: "Store \<Rightarrow> Store" where
  "updateInterfaceTransitions s =
     (let interfaces = applyCarrierFaults (runningInterfaces s) (faults s);
          (nxt, tk) = transitionLoop (now s) (interfaceTransitions s) interfaces [] 0 (ticks s)
      in s\<lparr>interfaceTransitions := nxt, ticks := tk\<rparr>)"

definition InterfaceLastChange :: "string \<Rightarrow> Store \<Rightarrow> time" where
  "InterfaceLastChange name s =
     (case map_of (interfaceTransitions s) name of None \<Rightarrow> 0 | Some t \<Rightarrow> trChangedAt t)"

section \<open>The event journal (event.go)\<close>

definition readNow :: "Store \<Rightarrow> time \<times> Store" where
  "readNow s = (now s (ticks s), s\<lparr>ticks := Suc (ticks s)\<rparr>)"

definition appendEvent :: "Event \<Rightarrow> Store \<Rightarrow> Store" where
  "appendEvent e s =
     (if length (events s) = maxEventHistory then s\<lparr>events := tl (events s) @ [e]\<rparr>
      else s\<lparr>events := events s @ [e]\<rparr>)"

definition signalChange :: "Store \<Rightarrow> Store" where
  "signalChange s =
     (let s1 = updateInterfaceTransitions s;
          s2 = (case changeObserver s1 of None \<Rightarrow> s1
                | Some seen \<Rightarrow> s1\<lparr>changeObserver := Some (seen @ [snapshot s1 (running s1)])\<rparr>)
      in s2\<lparr>changes := True, changeSignal := map_option (\<lambda>_. True) (changeSignal s2)\<rparr>)"

definition recordEvent :: "string \<Rightarrow> string \<Rightarrow> Store \<Rightarrow> Store" where
  "recordEvent kind target s =
     (let (t, s1) = readNow s in
      signalChange (appendEvent \<lparr>evVersion = version s, evKind = kind, evTarget = target,
        evInterface = None, evPreviousInterface = None, evInterfaceIndex = 0, evTimestamp = t\<rparr> s1))"

definition recordInterfaceEvent :: "nat \<Rightarrow> Interface \<Rightarrow> Interface \<Rightarrow> Store \<Rightarrow> Store" where
  "recordInterfaceEvent index previous current s =
     (let (t, s1) = readNow s in
      signalChange (appendEvent \<lparr>evVersion = version s, evKind = EventInterfaceUpdated,
        evTarget = ifName current, evInterface = Some (cloneInterface current),
        evPreviousInterface = Some (cloneInterface previous), evInterfaceIndex = int index,
        evTimestamp = t\<rparr> s1))"

definition bumpVersion :: "Store \<Rightarrow> Store" where
  "bumpVersion s = s\<lparr>version := version s + 1\<rparr>"

definition storeEvents :: "Store \<Rightarrow> Event list" where
  "storeEvents s = cloneEvents (events s)"

definition EventsAfter :: "64 word \<Rightarrow> Store \<Rightarrow> Event list \<times> bool" where
  "EventsAfter cursor s =
     (let v = max cursor initialStoreVersion in
      case events s of
        [] \<Rightarrow> ([], True)
      | e # _ \<Rightarrow>
          if v < evVersion e \<and> 1 < evVersion e - v then (cloneEvents (events s), False)
          else (cloneEvents (dropWhile (\<lambda>x. \<not> v < evVersion x) (events s)), True))"

definition SetChangeObserver :: "bool \<Rightarrow> Store \<Rightarrow> Store" where
  "SetChangeObserver observer s =
     s\<lparr>changeObserver := (if observer then Some [snapshot s (running s)] else None)\<rparr>"

definition SetChangeSignal :: "bool option \<Rightarrow> Store \<Rightarrow> Store" where
  "SetChangeSignal signal s = s\<lparr>changeSignal := signal\<rparr>"

definition receiveChange :: "Store \<Rightarrow> Store" where
  "receiveChange s = s\<lparr>changes := False\<rparr>"

section \<open>What recording an event leaves alone\<close>

text \<open>
  \<open>core\<close> is the part of a store that recording never touches: everything but the journal, the
  clock, the notification state and the last-change table.
\<close>

definition core where
  "core s = (running s, startup s, authored s, version s, checkpoints s, faults s, addressFaults s,
     prefixFaults s, deviceFaults s, now s, telemetry s, consumedActions s, stations s, radioTxPower s)"

named_theorems store_frame \<open>fields an operation does not change\<close>

lemma updateInterfaceTransitions_frame [store_frame]:
  "core (updateInterfaceTransitions s) = core s"
  "events (updateInterfaceTransitions s) = events s"
  "changeObserver (updateInterfaceTransitions s) = changeObserver s"
  "changeSignal (updateInterfaceTransitions s) = changeSignal s"
  by (simp_all add: updateInterfaceTransitions_def core_def split: prod.splits)

lemma appendEvent_frame [store_frame]:
  "core (appendEvent e s) = core s"
  "changeObserver (appendEvent e s) = changeObserver s"
  "interfaceTransitions (appendEvent e s) = interfaceTransitions s"
  "ticks (appendEvent e s) = ticks s"
  by (simp_all add: appendEvent_def core_def)

lemma events_appendEvent: "events (appendEvent e s) = push_bounded maxEventHistory e (events s)"
  by (simp add: appendEvent_def push_bounded_def)

lemma core_eqD:
  assumes "core s = core t"
  shows "running s = running t" "startup s = startup t" "authored s = authored t"
    "version s = version t" "checkpoints s = checkpoints t" "faults s = faults t"
    "addressFaults s = addressFaults t" "prefixFaults s = prefixFaults t"
    "deviceFaults s = deviceFaults t" "now s = now t" "telemetry s = telemetry t"
    "consumedActions s = consumedActions t" "stations s = stations t" "radioTxPower s = radioTxPower t"
  using assms by (simp_all add: core_def)

lemma core_updates [simp]:
  "core (s\<lparr>ticks := n\<rparr>) = core s" "core (s\<lparr>events := es\<rparr>) = core s"
  "core (s\<lparr>changeObserver := x\<rparr>) = core s" "core (s\<lparr>changes := b\<rparr>) = core s"
  "core (s\<lparr>changeSignal := c\<rparr>) = core s" "core (s\<lparr>interfaceTransitions := m\<rparr>) = core s"
  by (simp_all add: core_def)

lemma signalChange_frame [store_frame]:
  "core (signalChange s) = core s" "events (signalChange s) = events s" "changes (signalChange s)"
  by (simp_all add: signalChange_def Let_def updateInterfaceTransitions_frame split: option.splits)

lemma recordEvent_frame [store_frame]:
  "core (recordEvent k t s) = core s" "changes (recordEvent k t s)"
  by (simp_all add: recordEvent_def readNow_def store_frame)

lemma recordInterfaceEvent_frame [store_frame]:
  "core (recordInterfaceEvent i p c s) = core s" "changes (recordInterfaceEvent i p c s)"
  by (simp_all add: recordInterfaceEvent_def readNow_def store_frame)

lemmas recordEvent_fields [simp] = core_eqD [OF recordEvent_frame(1)]
lemmas recordInterfaceEvent_fields [simp] = core_eqD [OF recordInterfaceEvent_frame(1)]
lemmas signalChange_fields [simp] = core_eqD [OF signalChange_frame(1)]
lemmas appendEvent_fields [simp] = core_eqD [OF appendEvent_frame(1)]
lemmas updateInterfaceTransitions_fields [simp] = core_eqD [OF updateInterfaceTransitions_frame(1)]

lemma snapshot_core: "core s = core t \<Longrightarrow> snapshot s c = snapshot t c"
  using core_eqD [of s t] by (simp add: snapshot_def)

lemma events_recordEvent:
  "\<exists>ts. events (recordEvent k t s) = push_bounded maxEventHistory
     \<lparr>evVersion = version s, evKind = k, evTarget = t, evInterface = None,
      evPreviousInterface = None, evInterfaceIndex = 0, evTimestamp = ts\<rparr> (events s)"
  by (auto simp: recordEvent_def readNow_def store_frame events_appendEvent)

lemma events_recordInterfaceEvent:
  "\<exists>ts. events (recordInterfaceEvent i p c s) = push_bounded maxEventHistory
     \<lparr>evVersion = version s, evKind = EventInterfaceUpdated, evTarget = ifName c, evInterface = Some c,
      evPreviousInterface = Some p, evInterfaceIndex = int i, evTimestamp = ts\<rparr> (events s)"
  by (auto simp: recordInterfaceEvent_def readNow_def store_frame events_appendEvent)

end
