(* ===== verification/Device_Ops.thy ===== *)
theory Device_Ops
  imports Device_Store
begin

text \<open>
  The operations of the device store, in the order of the source files: fault setters
  (\<open>store_fault.go\<close>, \<open>store_device_fault.go\<close>, \<open>store_address_fault.go\<close>,
  \<open>store_interface_address_fault.go\<close>, \<open>store_prefix_fault.go\<close>), configuration transactions
  (\<open>store.go\<close>, \<open>store_interface.go\<close>, \<open>store_network.go\<close>, \<open>store_route.go\<close>,
  \<open>store_routing.go\<close>), lifecycle and checkpoints (\<open>store_lifecycle.go\<close>,
  \<open>store_checkpoint.go\<close>), one-shot actions (\<open>store_device_action.go\<close>), stations and radios
  (\<open>store_station.go\<close>, \<open>store_radio.go\<close>).  An operation that can fail returns its error beside
  the store.
\<close>

section \<open>Interface faults (store_fault.go)\<close>

fun carrierLoop :: "nat \<Rightarrow> Interface list \<Rightarrow> Interface list \<Rightarrow> Store \<Rightarrow> Store" where
  "carrierLoop index (b # bs) (a # as) s =
     carrierLoop (Suc index) bs as
       (if ifOperUp b \<noteq> ifOperUp a then recordInterfaceEvent (index + 1) b a (bumpVersion s) else s)"
| "carrierLoop index _ _ s = s"

definition recordCarrierTransitions ::
  "(string \<times> string, InterfaceFault) gomap \<Rightarrow> Store \<Rightarrow> Store" where
  "recordCarrierTransitions previous s =
     carrierLoop 0 (applyCarrierFaults (runningInterfaces s) previous)
       (applyCarrierFaults (runningInterfaces s) (faults s)) s"

definition SetInterfaceFault :: "string \<Rightarrow> string \<Rightarrow> int \<Rightarrow> Store \<Rightarrow> derror option \<times> Store" where
  "SetInterfaceFault interfaceName faultType value s =
     (if \<not> validFaultType faultType then (Some ErrFaultTypeInvalid, s)
      else if value < 0 \<or> 100 < value then (Some ErrFaultValueInvalid, s)
      else if \<not> interfaceExists (runningInterfaces s) interfaceName then (Some ErrInterfaceNotFound, s)
      else
        let key = (interfaceName, faultType); current = map_of (faults s) key; previous = faults s in
        if value = 0 then
          (if current = None then (None, s)
           else (None, recordCarrierTransitions previous
             (recordEvent EventFaultCleared (interfaceName @ '':'' @ faultType)
               (bumpVersion (s\<lparr>faults := gm_del key (faults s)\<rparr>)))))
        else if map_option ftValue current = Some value then (None, s)
        else (None, recordCarrierTransitions previous
             (recordEvent EventFaultUpdated (interfaceName @ '':'' @ faultType)
               (bumpVersion (s\<lparr>faults := gm_put key
                  \<lparr>ftInterface = interfaceName, ftType = faultType, ftValue = value\<rparr> (faults s)\<rparr>)))))"

definition ClearInterfaceFaults :: "string \<Rightarrow> Store \<Rightarrow> derror option \<times> Store" where
  "ClearInterfaceFaults interfaceName s =
     (if \<not> interfaceExists (runningInterfaces s) interfaceName then (Some ErrInterfaceNotFound, s)
      else
        let on = (\<lambda>k. fst k = interfaceName); previous = faults s;
            changed = (list_ex (\<lambda>e. on (fst e)) (prefixFaults s) \<or>
                       list_ex (\<lambda>e. on (fst e)) (addressFaults s) \<or>
                       list_ex (\<lambda>e. on (fst e)) (faults s));
            s1 = s\<lparr>prefixFaults := gm_remove on (prefixFaults s),
                   addressFaults := gm_remove on (addressFaults s),
                   faults := gm_remove on (faults s)\<rparr>
        in if changed then
             (None, recordCarrierTransitions previous (recordEvent EventFaultCleared interfaceName (bumpVersion s1)))
           else (None, s1))"

definition ClearAllFaults :: "Store \<Rightarrow> Store" where
  "ClearAllFaults s =
     (if faults s = [] \<and> addressFaults s = [] \<and> prefixFaults s = [] then s
      else let previous = faults s in
        recordCarrierTransitions previous (recordEvent EventFaultCleared ''*''
          (bumpVersion (s\<lparr>faults := [], addressFaults := [], prefixFaults := []\<rparr>))))"

section \<open>Device faults (store_device_fault.go, store_address_fault.go)\<close>

definition ClearDeviceFault :: "string \<Rightarrow> Store \<Rightarrow> derror option \<times> Store" where
  "ClearDeviceFault kind s =
     (if deviceFaultDefinition kind = None \<and> kind \<noteq> FaultDuplicateDHCPOffer
      then (Some ErrDeviceFaultTypeInvalid, s)
      else if gm_has (deviceFaults s) kind then
        (None, recordEvent EventDeviceFaultCleared kind
          (bumpVersion (s\<lparr>deviceFaults := gm_del kind (deviceFaults s)\<rparr>)))
      else (None, s))"

definition setDeviceFault :: "DeviceFault \<Rightarrow> Store \<Rightarrow> Store" where
  "setDeviceFault fault s =
     (if map_of (deviceFaults s) (dfType fault) = Some fault then s
      else recordEvent EventDeviceFaultUpdated (dfType fault)
        (bumpVersion (s\<lparr>deviceFaults := gm_put (dfType fault) fault (deviceFaults s)\<rparr>)))"

definition SetDeviceFault :: "string \<Rightarrow> int \<Rightarrow> Store \<Rightarrow> derror option \<times> Store" where
  "SetDeviceFault faultType value s =
     (case deviceFaultDefinition faultType of
        None \<Rightarrow> (Some ErrDeviceFaultTypeInvalid, s)
      | Some definition \<Rightarrow>
          if value < 0 \<or> ddMaxValue definition < value then (Some ErrFaultValueInvalid, s)
          else if value = 0 then ClearDeviceFault faultType s
          else (None, setDeviceFault \<lparr>dfType = faultType, dfValue = value, dfAddress = NoAddr\<rparr> s))"

definition SetDeviceAddressFault :: "string \<Rightarrow> Addr \<Rightarrow> Store \<Rightarrow> derror option \<times> Store" where
  "SetDeviceAddressFault kind address s =
     (if kind \<noteq> FaultDuplicateDHCPOffer then (Some ErrDeviceFaultTypeInvalid, s)
      else if \<not> ValidFaultAddress address then (Some ErrFaultAddressInvalid, s)
      else (None, setDeviceFault \<lparr>dfType = kind, dfValue = 0, dfAddress = address\<rparr> s))"

definition ClearDeviceFaults :: "Store \<Rightarrow> Store" where
  "ClearDeviceFaults s =
     (if deviceFaults s = [] then s
      else recordEvent EventDeviceFaultCleared ''*'' (bumpVersion (s\<lparr>deviceFaults := []\<rparr>)))"

definition DeviceFaultActive :: "string \<Rightarrow> Store \<Rightarrow> bool" where
  "DeviceFaultActive t s = gm_has (deviceFaults s) t"

definition DeviceFaultValue :: "string \<Rightarrow> Store \<Rightarrow> int" where
  "DeviceFaultValue t s = (case map_of (deviceFaults s) t of None \<Rightarrow> 0 | Some f \<Rightarrow> dfValue f)"

definition DeviceFaultAddress :: "string \<Rightarrow> Store \<Rightarrow> Addr" where
  "DeviceFaultAddress t s = (case map_of (deviceFaults s) t of None \<Rightarrow> NoAddr | Some f \<Rightarrow> dfAddress f)"

section \<open>Addressed and prefix faults on interfaces\<close>

definition zeroAddressFault :: InterfaceAddressFault where
  "zeroAddressFault = \<lparr>afInterface = [], afType = [], afAddress = NoAddr\<rparr>"

definition SetInterfaceAddressFault :: "InterfaceAddressFault \<Rightarrow> Store \<Rightarrow> derror option \<times> Store" where
  "SetInterfaceAddressFault fault s =
     (if afType fault \<noteq> FaultDuplicateIP then (Some ErrFaultTypeInvalid, s)
      else if \<not> ValidFaultAddress (afAddress fault) then (Some ErrFaultAddressInvalid, s)
      else if \<not> interfaceExists (runningInterfaces s) (afInterface fault) then (Some ErrInterfaceNotFound, s)
      else
        let key = addressFaultKey fault;
            stored = (case map_of (addressFaults s) key of None \<Rightarrow> zeroAddressFault | Some f \<Rightarrow> f) in
        if stored = fault then (None, s)
        else (None, recordEvent EventFaultUpdated (afInterface fault @ '':'' @ afType fault)
          (bumpVersion (s\<lparr>addressFaults := gm_put key fault (addressFaults s)\<rparr>))))"

definition ClearInterfaceAddressFault :: "string \<Rightarrow> string \<Rightarrow> Store \<Rightarrow> derror option \<times> Store" where
  "ClearInterfaceAddressFault iface kind s =
     (if kind \<noteq> FaultDuplicateIP then (Some ErrFaultTypeInvalid, s)
      else if \<not> interfaceExists (runningInterfaces s) iface then (Some ErrInterfaceNotFound, s)
      else if gm_has (addressFaults s) (iface, kind) then
        (None, recordEvent EventFaultCleared (iface @ '':'' @ kind)
          (bumpVersion (s\<lparr>addressFaults := gm_del (iface, kind) (addressFaults s)\<rparr>)))
      else (None, s))"

definition HasInterfacePrefixFaults :: "Store \<Rightarrow> bool" where
  "HasInterfacePrefixFaults s \<longleftrightarrow> prefixFaults s \<noteq> []"

definition SetInterfacePrefixFault :: "InterfacePrefixFault \<Rightarrow> Store \<Rightarrow> derror option \<times> Store" where
  "SetInterfacePrefixFault fault s =
     (if pfType fault \<noteq> FaultBadMask then (Some ErrFaultTypeInvalid, s)
      else case index_of (\<lambda>i. ifName i = pfInterface fault) (runningInterfaces s) of
        None \<Rightarrow> (Some ErrInterfaceNotFound, s)
      | Some index \<Rightarrow>
          let address = ifAddress (runningInterfaces s ! index) in
          if \<not> prefixIsValid address \<or> \<not> ValidFaultAddress (prefixAddr address) \<or>
             pfPrefixBits fault < 0 \<or> 32 < pfPrefixBits fault then (Some ErrFaultPrefixInvalid, s)
          else
            let key = prefixFaultKey fault in
            if map_of (prefixFaults s) key = Some fault then (None, s)
            else (None, recordEvent EventFaultUpdated (pfInterface fault @ '':'' @ pfType fault)
              (bumpVersion (s\<lparr>prefixFaults := gm_put key fault (prefixFaults s)\<rparr>))))"

definition ClearInterfacePrefixFault :: "string \<Rightarrow> string \<Rightarrow> Store \<Rightarrow> derror option \<times> Store" where
  "ClearInterfacePrefixFault iface kind s =
     (if kind \<noteq> FaultBadMask then (Some ErrFaultTypeInvalid, s)
      else if \<not> interfaceExists (runningInterfaces s) iface then (Some ErrInterfaceNotFound, s)
      else if gm_has (prefixFaults s) (iface, kind) then
        (None, recordEvent EventFaultCleared (iface @ '':'' @ kind)
          (bumpVersion (s\<lparr>prefixFaults := gm_del (iface, kind) (prefixFaults s)\<rparr>)))
      else (None, s))"

section \<open>Configuration transactions\<close>

definition UpdateIdentity ::
  "(Identity \<Rightarrow> derror + Identity) \<Rightarrow> (Store \<Rightarrow> Store) \<Rightarrow> Store \<Rightarrow> derror option \<times> Store" where
  "UpdateIdentity update others s =
     (case update (cfIdentity (running s)) of
        Inl e \<Rightarrow> (Some e, others s)
      | Inr nxt \<Rightarrow>
          let s' = others s in
          if version s' \<noteq> version s then (Some ErrConcurrentUpdate, s')
          else (None, recordEvent EventIdentityUpdated (Hostname nxt)
            (bumpVersion (s'\<lparr>running := (running s')\<lparr>cfIdentity := nxt\<rparr>\<rparr>))))"

definition reconcileConnectedRoute :: "Route list \<Rightarrow> Interface \<Rightarrow> Route list" where
  "reconcileConnectedRoute routes iface =
     (let result = filter (\<lambda>r. \<not> (rtConnected r \<and> rtVia r = ifName iface)) routes in
      if prefixIsValid (ifAddress iface) \<and> ifAdminUp iface \<and> ifOperUp iface then
        result @ [\<lparr>rtDestination = Masked (ifAddress iface), rtVia = ifName iface,
                   rtNextHop = NoAddr, rtConnected = True\<rparr>]
      else result)"

definition UpdateInterface ::
  "string \<Rightarrow> (Interface \<Rightarrow> derror + Interface) \<Rightarrow> (Store \<Rightarrow> Store) \<Rightarrow> Store \<Rightarrow> derror option \<times> Store" where
  "UpdateInterface name update others s =
     (case index_of (\<lambda>i. ifName i = name) (runningInterfaces s) of
        None \<Rightarrow> (Some ErrInterfaceNotFound, s)
      | Some index \<Rightarrow>
          let current = runningInterfaces s ! index in
          case update (cloneInterface current) of
            Inl e \<Rightarrow> (Some e, others s)
          | Inr nxt \<Rightarrow>
              let s' = others s in
              if ifName nxt \<noteq> ifName current then (Some ErrInterfaceRename, s')
              else if version s' \<noteq> version s then (Some ErrConcurrentUpdate, s')
              else if length (runningInterfaces s') \<le> index then (Some PanicIndex, s')
              else
                let s1 = setRunningNetwork
                      (\<lambda>n. n\<lparr>nwInterfaces := (nwInterfaces n)[index := cloneInterface nxt]\<rparr>) s';
                    s2 = (if ifAddress current \<noteq> ifAddress nxt \<or> ifAdminUp current \<noteq> ifAdminUp nxt \<or>
                             ifOperUp current \<noteq> ifOperUp nxt
                          then setRunningNetwork
                            (\<lambda>n. n\<lparr>nwRoutes := reconcileConnectedRoute (nwRoutes n) nxt\<rparr>) s1
                          else s1)
                in (None, recordInterfaceEvent (index + 1) current nxt (bumpVersion s2)))"

definition ReplaceNetwork :: "Network \<Rightarrow> Store \<Rightarrow> Store" where
  "ReplaceNetwork network s =
     (let network' = network\<lparr>nwInterfaces :=
            map (\<lambda>i. if ifOperUp i then i\<lparr>ifCarrierUp := True\<rparr> else i) (nwInterfaces network)\<rparr>
      in recordEvent EventNetworkInstalled []
        (bumpVersion (s\<lparr>running := (running s)\<lparr>cfNetwork := cloneNetwork network'\<rparr>,
           startup := (startup s)\<lparr>cfNetwork := cloneNetwork network'\<rparr>,
           authored := (authored s)\<lparr>cfNetwork := cloneNetwork network'\<rparr>\<rparr>)))"

definition UpsertRoute :: "Route \<Rightarrow> Store \<Rightarrow> Store" where
  "UpsertRoute route0 s =
     (let route = route0\<lparr>rtDestination := Masked (rtDestination route0)\<rparr>;
          routes = nwRoutes (cfNetwork (running s));
          routes' = (case index_of (\<lambda>c. \<not> rtConnected c \<and> rtDestination c = rtDestination route) routes of
            Some index \<Rightarrow> routes[index := route]
          | None \<Rightarrow> routes @ [route])
      in recordEvent EventRouteUpdated (prefixString (rtDestination route))
        (bumpVersion (setRunningNetwork (\<lambda>n. n\<lparr>nwRoutes := routes'\<rparr>) s)))"

definition EnsureVLAN :: "int \<Rightarrow> Store \<Rightarrow> Store" where
  "EnsureVLAN i s =
     (if list_ex (\<lambda>v. vlanID v = i) (nwVLANs (cfNetwork (running s))) then s
      else recordEvent EventVLANUpdated (itoa i)
        (bumpVersion (setRunningNetwork (\<lambda>n. n\<lparr>nwVLANs := nwVLANs n @
           [\<lparr>vlanID = i, vlanName = [], vlanActive = True\<rparr>]\<rparr>) s)))"

definition UpdateVLAN ::
  "int \<Rightarrow> (VLAN \<Rightarrow> VLAN) \<Rightarrow> (Store \<Rightarrow> Store) \<Rightarrow> Store \<Rightarrow> derror option \<times> Store" where
  "UpdateVLAN i update others s =
     (case index_of (\<lambda>v. vlanID v = i) (nwVLANs (cfNetwork (running s))) of
        None \<Rightarrow> (Some ErrVLANNotFound, s)
      | Some index \<Rightarrow>
          let nxt = update (nwVLANs (cfNetwork (running s)) ! index); s' = others s in
          if version s' \<noteq> version s then (Some ErrConcurrentUpdate, s')
          else if length (nwVLANs (cfNetwork (running s'))) \<le> index then (Some PanicIndex, s')
          else (None, recordEvent EventVLANUpdated (itoa i)
            (bumpVersion (setRunningNetwork (\<lambda>n. n\<lparr>nwVLANs := (nwVLANs n)[index := nxt]\<rparr>) s'))))"

definition isRouter :: "string \<Rightarrow> string \<Rightarrow> Router \<Rightarrow> bool" where
  "isRouter protocol processID r \<longleftrightarrow> roProtocol r = protocol \<and> roProcessID r = processID"

definition EnsureRouter :: "string \<Rightarrow> string \<Rightarrow> Store \<Rightarrow> Store" where
  "EnsureRouter protocol processID s =
     (if list_ex (isRouter protocol processID) (nwRouters (cfNetwork (running s))) then s
      else recordEvent EventRouterUpdated (protocol @ '':'' @ processID)
        (bumpVersion (setRunningNetwork (\<lambda>n. n\<lparr>nwRouters := nwRouters n @
           [\<lparr>roProtocol = protocol, roProcessID = processID, roNetworks = []\<rparr>]\<rparr>) s)))"

definition AddRouterNetwork :: "string \<Rightarrow> string \<Rightarrow> RouterNetwork \<Rightarrow> Store \<Rightarrow> Store" where
  "AddRouterNetwork protocol processID network s =
     (let routers = nwRouters (cfNetwork (running s)) in
      case index_of (isRouter protocol processID) routers of
        None \<Rightarrow> s
      | Some index \<Rightarrow>
          let router = routers ! index in
          if network \<in> set (roNetworks router) then s
          else recordEvent EventRouterUpdated (protocol @ '':'' @ processID)
            (bumpVersion (setRunningNetwork (\<lambda>n. n\<lparr>nwRouters :=
               routers[index := router\<lparr>roNetworks := roNetworks router @ [network]\<rparr>]\<rparr>) s)))"

section \<open>Lifecycle and checkpoints\<close>

definition sameInterface :: "Interface \<Rightarrow> Interface \<Rightarrow> bool" where
  "sameInterface left right \<longleftrightarrow>
     ifName left = ifName right \<and> ifNetwork left = ifNetwork right \<and>
     ifAddress left = ifAddress right \<and> ifDescription left = ifDescription right \<and>
     ifVLANs left = ifVLANs right \<and> ifAdminUp left = ifAdminUp right \<and>
     ifOperUp left = ifOperUp right \<and> ifCarrierUp left = ifCarrierUp right"

fun changedLoop :: "(string, Interface) gomap \<Rightarrow> nat \<Rightarrow> Interface list \<Rightarrow> Store \<Rightarrow> Store" where
  "changedLoop byName index [] s = s"
| "changedLoop byName index (current # rest) s =
     changedLoop byName (Suc index) rest
       (case map_of byName (ifName current) of
          None \<Rightarrow> s
        | Some before \<Rightarrow> if \<not> sameInterface before current
            then recordInterfaceEvent (index + 1) before current s else s)"

definition recordChangedInterfaceEvents :: "Interface list \<Rightarrow> Store \<Rightarrow> Store" where
  "recordChangedInterfaceEvents previous s =
     changedLoop (gm_import ifName (\<lambda>i. i) previous) 0 (runningInterfaces s) s"

definition replaceRunning :: "configuration \<Rightarrow> string \<Rightarrow> string \<Rightarrow> Store \<Rightarrow> Store" where
  "replaceRunning nxt kind target s =
     (let previousInterfaces = nwInterfaces (cloneNetwork (cfNetwork (running s))) in
      recordChangedInterfaceEvents previousInterfaces
        (recordEvent kind target (bumpVersion (s\<lparr>running := cloneConfiguration nxt\<rparr>))))"

definition SaveStartup :: "Store \<Rightarrow> Store" where
  "SaveStartup s = recordEvent EventStartupSaved [] (bumpVersion (s\<lparr>startup := cloneConfiguration (running s)\<rparr>))"

definition ReloadStartup :: "Store \<Rightarrow> Store" where
  "ReloadStartup s = replaceRunning (startup s) EventStartupReloaded [] s"

definition ResetAuthored :: "Store \<Rightarrow> Store" where
  "ResetAuthored s =
     (let s1 = replaceRunning (authored s) EventAuthoredReset [] s
      in s1\<lparr>startup := cloneConfiguration (authored s1)\<rparr>)"

definition EraseStartup :: "Store \<Rightarrow> Store" where
  "EraseStartup s = recordEvent EventStartupErased [] (bumpVersion (s\<lparr>startup := cloneConfiguration (authored s)\<rparr>))"

definition SaveCheckpoint :: "string \<Rightarrow> Store \<Rightarrow> Store" where
  "SaveCheckpoint name s =
     recordEvent EventCheckpointSaved name
       (bumpVersion (s\<lparr>checkpoints := gm_put name
          \<lparr>cpTelemetry = telemetry s, cpConfig = cloneConfiguration (running s), cpFaults = faults s,
           cpAddressFaults = addressFaults s, cpPrefixFaults = prefixFaults s,
           cpDeviceFaults = deviceFaults s, cpStations = stations s,
           cpRadioTxPower = radioTxPower s\<rparr> (checkpoints s)\<rparr>))"

definition RestoreCheckpoint :: "string \<Rightarrow> Store \<Rightarrow> derror option \<times> Store" where
  "RestoreCheckpoint name s =
     (case map_of (checkpoints s) name of
        None \<Rightarrow> (Some ErrCheckpointNotFound, s)
      | Some saved \<Rightarrow>
          (None, replaceRunning (cpConfig saved) EventCheckpointRestored name
            (s\<lparr>faults := cpFaults saved, addressFaults := cpAddressFaults saved,
               prefixFaults := cpPrefixFaults saved, deviceFaults := cpDeviceFaults saved,
               stations := cpStations saved, radioTxPower := cpRadioTxPower saved,
               telemetry := cpTelemetry saved\<rparr>)))"

definition CheckpointNames :: "Store \<Rightarrow> string list" where
  "CheckpointNames s = sort (map fst (checkpoints s))"

definition HasCheckpoint :: "string \<Rightarrow> Store \<Rightarrow> bool" where
  "HasCheckpoint name s = gm_has (checkpoints s) name"

section \<open>One-shot device actions (store_device_action.go)\<close>

definition ExecuteDeviceAction :: "string \<Rightarrow> string \<Rightarrow> Store \<Rightarrow> (bool \<times> derror option) \<times> Store" where
  "ExecuteDeviceAction kind i s =
     (if \<not> validDeviceAction kind \<or> i = [] \<or> maxDeviceActionIDLength < length i
      then ((False, Some ErrDeviceActionInvalid), s)
      else case map_of (consumedActions s) i of
        Some previous \<Rightarrow>
          if previous \<noteq> kind then ((False, Some ErrDeviceActionConflict), s) else ((False, None), s)
      | None \<Rightarrow>
          if maxConsumedDeviceActions \<le> length (consumedActions s) then ((False, Some ErrDeviceActionLimit), s)
          else
            let (t, s1) = readNow s;
                (tel, eventKind) =
                  (if kind = ActionReboot then ((telemetry s1)\<lparr>RebootedAt := t\<rparr>, EventDeviceRebooted)
                   else ((telemetry s1)\<lparr>STPChanges := STPChanges (telemetry s1) + 1, STPChangedAt := t\<rparr>,
                         EventSTPTopologyChanged));
                s2 = bumpVersion (s1\<lparr>telemetry := tel, consumedActions := gm_put i kind (consumedActions s1)\<rparr>)
            in ((True, None), signalChange (appendEvent
                 \<lparr>evVersion = version s2, evKind = eventKind, evTarget = i, evInterface = None,
                  evPreviousInterface = None, evInterfaceIndex = 0, evTimestamp = t\<rparr> s2)))"

section \<open>Stations and radios (store_station.go, store_radio.go)\<close>

definition stationMACLength :: nat where "stationMACLength = 6"

definition canonicalMAC :: "string \<Rightarrow> string option" where
  "canonicalMAC mac = (case ParseMAC mac of None \<Rightarrow> None
     | Some parsed \<Rightarrow> if length parsed \<noteq> stationMACLength then None else Some (macString parsed))"

definition canonicalStation :: "Station \<Rightarrow> Station option" where
  "canonicalStation st = (case canonicalMAC (stMAC st) of None \<Rightarrow> None
     | Some mac \<Rightarrow> if stRadio st = [] \<or> \<not> Is4 (stIPAddress st) then None else Some (st\<lparr>stMAC := mac\<rparr>))"

primrec installLoop :: "(string, Station) gomap \<Rightarrow> Station list \<Rightarrow> (string, Station) gomap option" where
  "installLoop m [] = Some m"
| "installLoop m (st # sts) = (case canonicalStation st of None \<Rightarrow> None
     | Some c \<Rightarrow> installLoop (gm_put (stMAC c) c m) sts)"

definition InstallStations :: "Station list \<Rightarrow> Store \<Rightarrow> derror option \<times> Store" where
  "InstallStations sts s = (case installLoop [] sts of None \<Rightarrow> (Some ErrStationInvalid, s)
     | Some installed \<Rightarrow> (None, s\<lparr>stations := installed\<rparr>))"

definition AssociateStation :: "Station \<Rightarrow> Store \<Rightarrow> derror option \<times> Store" where
  "AssociateStation st s = (case canonicalStation st of None \<Rightarrow> (Some ErrStationInvalid, s)
     | Some c \<Rightarrow>
         if gm_has (stations s) (stMAC c) then (Some ErrStationAssociated, s)
         else (None, recordEvent EventStationAssociated (stMAC c)
           (bumpVersion (s\<lparr>stations := gm_put (stMAC c) c (stations s)\<rparr>))))"

definition RoamStation :: "string \<Rightarrow> Store \<Rightarrow> (derror + Station) \<times> Store" where
  "RoamStation mac s = (case canonicalMAC mac of None \<Rightarrow> (Inl ErrStationInvalid, s)
     | Some c \<Rightarrow> (case map_of (stations s) c of None \<Rightarrow> (Inl ErrStationNotFound, s)
         | Some st \<Rightarrow> (Inr st, recordEvent EventStationRoamed c
             (bumpVersion (s\<lparr>stations := gm_del c (stations s)\<rparr>)))))"

definition storeStation :: "string \<Rightarrow> Store \<Rightarrow> Station option" where
  "storeStation mac s = (case canonicalMAC mac of None \<Rightarrow> None | Some c \<Rightarrow> map_of (stations s) c)"

definition SetRadioTxPower :: "string \<Rightarrow> int \<Rightarrow> Store \<Rightarrow> derror option \<times> Store" where
  "SetRadioTxPower interfaceName dBm s =
     (if dBm < MinRadioTxPowerDBM \<or> MaxRadioTxPowerDBM < dBm then (Some ErrRadioTxPowerInvalid, s)
      else if \<not> interfaceExists (runningInterfaces s) interfaceName then (Some ErrInterfaceNotFound, s)
      else if map_of (radioTxPower s) interfaceName = Some dBm then (None, s)
      else (None, recordEvent EventRadioUpdated interfaceName
        (bumpVersion (s\<lparr>radioTxPower := gm_put interfaceName dBm (radioTxPower s)\<rparr>))))"

definition RestoreRadioTxPower :: "string \<Rightarrow> Store \<Rightarrow> Store" where
  "RestoreRadioTxPower interfaceName s =
     (if \<not> gm_has (radioTxPower s) interfaceName then s
      else recordEvent EventRadioUpdated interfaceName
        (bumpVersion (s\<lparr>radioTxPower := gm_del interfaceName (radioTxPower s)\<rparr>)))"

definition RadioTxPowerDBM :: "string \<Rightarrow> Store \<Rightarrow> int option" where
  "RadioTxPowerDBM interfaceName s = map_of (radioTxPower s) interfaceName"

section \<open>The projection for host consumers (store_prefix_fault.go)\<close>

fun maskLoop :: "InterfacePrefixFault \<Rightarrow> nat \<Rightarrow> Network \<Rightarrow> Interface list \<Rightarrow> Network" where
  "maskLoop fault index network [] = network"
| "maskLoop fault index network (iface # rest) =
     (if ifName iface \<noteq> pfInterface fault \<or> \<not> prefixIsValid (ifAddress iface) \<or> \<not> Is4 (prefixAddr (ifAddress iface))
      then maskLoop fault (Suc index) network rest
      else
        let iface' = iface\<lparr>ifAddress := PrefixFrom (prefixAddr (ifAddress iface)) (pfPrefixBits fault)\<rparr>
        in maskLoop fault (Suc index)
             (network\<lparr>nwInterfaces := (nwInterfaces network)[index := iface'],
                      nwRoutes := reconcileConnectedRoute (nwRoutes network) iface'\<rparr>) rest)"

definition EffectiveHostNetwork :: "Snapshot \<Rightarrow> Network" where
  "EffectiveHostNetwork sn =
     foldl (\<lambda>network fault. maskLoop fault 0 network (nwInterfaces network))
       (cloneNetwork (snNetwork sn)) (snPrefixFaults sn)"

end
