(* ===== verification/Device_Durable.thy ===== *)
theory Device_Durable
  imports Device_Ops
begin

text \<open>
  Durable state records (\<open>store_state.go\<close>, \<open>store_state_validation.go\<close> and the validators beside
  each fault family): export, validation against the authored interfaces, restore.  \<open>all_fresh\<close> is
  the validators' common loop over a \<open>seen\<close> map.  The table lemmas (\<open>table_ok\<close>) say when a fault or
  station table exports to a list its validator accepts and that importing gives the table back.
\<close>

section \<open>Records (store_state.go)\<close>

record Checkpoint =
  ckTelemetry :: DeviceTelemetry
  ckName :: string
  ckConfiguration :: configuration
  ckInterfaceFaults :: "InterfaceFault list"
  ckAddressFaults :: "InterfaceAddressFault list"
  ckPrefixFaults :: "InterfacePrefixFault list"
  ckDeviceFaults :: "DeviceFault list"
  ckStations :: "Station list"
  ckRadioTxPowers :: "RadioTxPower list"

record State =
  saTelemetry :: DeviceTelemetry
  saConsumedActions :: "ConsumedDeviceAction list"
  saRunning :: configuration
  saStartup :: configuration
  saInterfaceFaults :: "InterfaceFault list"
  saAddressFaults :: "InterfaceAddressFault list"
  saPrefixFaults :: "InterfacePrefixFault list"
  saDeviceFaults :: "DeviceFault list"
  saStations :: "Station list"
  saRadioTxPowers :: "RadioTxPower list"
  saCheckpoints :: "Checkpoint list"
  saEvents :: "Event list"
  saVersion :: "64 word"

section \<open>Export\<close>

definition gm_at :: "'v \<Rightarrow> ('k, 'v) gomap \<Rightarrow> 'k \<Rightarrow> 'v" where
  "gm_at d m k = (case map_of m k of None \<Rightarrow> d | Some v \<Rightarrow> v)"

definition exportConsumedActions :: "(string, string) gomap \<Rightarrow> ConsumedDeviceAction list" where
  "exportConsumedActions consumed =
     map (\<lambda>i. \<lparr>caID = i, caType = gm_at [] consumed i\<rparr>) (sort (map fst consumed))"

definition sortedRadioTxPowers :: "(string, int) gomap \<Rightarrow> RadioTxPower list" where
  "sortedRadioTxPowers powers =
     map (\<lambda>n. \<lparr>rpInterface = n, rpDBM = gm_at 0 powers n\<rparr>) (sort (map fst powers))"

definition exportConfiguration :: "configuration \<Rightarrow> configuration" where
  "exportConfiguration c = \<lparr>cfIdentity = cfIdentity c, cfNetwork = cloneNetwork (cfNetwork c)\<rparr>"

definition importConfiguration :: "configuration \<Rightarrow> configuration" where
  "importConfiguration c = \<lparr>cfIdentity = cfIdentity c, cfNetwork = cloneNetwork (cfNetwork c)\<rparr>"

definition exportCheckpoint :: "string \<Rightarrow> checkpoint \<Rightarrow> Checkpoint" where
  "exportCheckpoint name point =
     \<lparr>ckTelemetry = cpTelemetry point, ckName = name,
      ckConfiguration = exportConfiguration (cpConfig point),
      ckInterfaceFaults = sortedInterfaceFaults (cpFaults point),
      ckAddressFaults = sortedAddressFaults (cpAddressFaults point),
      ckPrefixFaults = sortedPrefixFaults (cpPrefixFaults point),
      ckDeviceFaults = sortedDeviceFaults (cpDeviceFaults point),
      ckStations = sortedStations (cpStations point),
      ckRadioTxPowers = sortedRadioTxPowers (cpRadioTxPower point)\<rparr>"

definition exportCheckpoints :: "(string, checkpoint) gomap \<Rightarrow> Checkpoint list" where
  "exportCheckpoints saved =
     concat (map (\<lambda>name. case map_of saved name of None \<Rightarrow> [] | Some point \<Rightarrow> [exportCheckpoint name point])
       (sort (map fst saved)))"

definition ExportState :: "Store \<Rightarrow> State" where
  "ExportState s =
     \<lparr>saTelemetry = telemetry s,
      saConsumedActions = exportConsumedActions (consumedActions s),
      saRunning = exportConfiguration (running s),
      saStartup = exportConfiguration (startup s),
      saInterfaceFaults = sortedInterfaceFaults (faults s),
      saAddressFaults = sortedAddressFaults (addressFaults s),
      saPrefixFaults = sortedPrefixFaults (prefixFaults s),
      saDeviceFaults = sortedDeviceFaults (deviceFaults s),
      saStations = sortedStations (stations s),
      saRadioTxPowers = sortedRadioTxPowers (radioTxPower s),
      saCheckpoints = exportCheckpoints (checkpoints s),
      saEvents = cloneEvents (events s),
      saVersion = version s\<rparr>"

section \<open>Import\<close>

definition importInterfaceFaults :: "InterfaceFault list \<Rightarrow> (string \<times> string, InterfaceFault) gomap" where
  "importInterfaceFaults fs = gm_import faultKey (\<lambda>f. f) fs"

definition importAddressFaults ::
  "InterfaceAddressFault list \<Rightarrow> (string \<times> string, InterfaceAddressFault) gomap" where
  "importAddressFaults fs = gm_import addressFaultKey (\<lambda>f. f) fs"

definition importPrefixFaults ::
  "InterfacePrefixFault list \<Rightarrow> (string \<times> string, InterfacePrefixFault) gomap" where
  "importPrefixFaults fs = gm_import prefixFaultKey (\<lambda>f. f) fs"

definition importDeviceFaults :: "DeviceFault list \<Rightarrow> (string, DeviceFault) gomap" where
  "importDeviceFaults fs = gm_import dfType (\<lambda>f. f) fs"

definition importStations :: "Station list \<Rightarrow> (string, Station) gomap" where
  "importStations sts = gm_import stMAC (\<lambda>st. st) sts"

definition importRadioTxPowers :: "RadioTxPower list \<Rightarrow> (string, int) gomap" where
  "importRadioTxPowers ps = gm_import rpInterface rpDBM ps"

definition importConsumedActions :: "ConsumedDeviceAction list \<Rightarrow> (string, string) gomap" where
  "importConsumedActions as = gm_import caID caType as"

definition importCheckpoint :: "Checkpoint \<Rightarrow> checkpoint" where
  "importCheckpoint point =
     \<lparr>cpTelemetry = ckTelemetry point,
      cpConfig = importConfiguration (ckConfiguration point),
      cpFaults = importInterfaceFaults (ckInterfaceFaults point),
      cpAddressFaults = importAddressFaults (ckAddressFaults point),
      cpPrefixFaults = importPrefixFaults (ckPrefixFaults point),
      cpDeviceFaults = importDeviceFaults (ckDeviceFaults point),
      cpStations = importStations (ckStations point),
      cpRadioTxPower = importRadioTxPowers (ckRadioTxPowers point)\<rparr>"

definition importCheckpoints :: "Checkpoint list \<Rightarrow> (string, checkpoint) gomap" where
  "importCheckpoints saved = gm_import ckName importCheckpoint saved"

section \<open>Validation (store_state_validation.go and the fault files)\<close>

primrec all_fresh :: "('a \<Rightarrow> 'k) \<Rightarrow> ('a \<Rightarrow> bool) \<Rightarrow> 'k list \<Rightarrow> 'a list \<Rightarrow> bool" where
  "all_fresh key ok seen [] = True"
| "all_fresh key ok seen (x # xs) =
     (if key x \<in> set seen \<or> \<not> ok x then False else all_fresh key ok (key x # seen) xs)"

lemma all_fresh_iff:
  "all_fresh key ok seen xs \<longleftrightarrow>
     distinct (map key xs) \<and> set (map key xs) \<inter> set seen = {} \<and> (\<forall>x \<in> set xs. ok x)"
  by (induction xs arbitrary: seen) auto

definition validStateInterfaceFaults :: "InterfaceFault list \<Rightarrow> Interface list \<Rightarrow> bool" where
  "validStateInterfaceFaults fs interfaces =
     all_fresh faultKey (\<lambda>f. \<not> (\<not> validFaultType (ftType f) \<or> ftValue f \<le> 0 \<or>
       faultRateMax < ftValue f \<or> \<not> interfaceExists interfaces (ftInterface f))) [] fs"

definition validStateAddressFaults :: "InterfaceAddressFault list \<Rightarrow> Interface list \<Rightarrow> bool" where
  "validStateAddressFaults fs interfaces =
     all_fresh addressFaultKey (\<lambda>f. \<not> (afType f \<noteq> FaultDuplicateIP \<or> \<not> ValidFaultAddress (afAddress f) \<or>
       \<not> interfaceExists interfaces (afInterface f))) [] fs"

definition validStatePrefixFaults :: "InterfacePrefixFault list \<Rightarrow> Interface list \<Rightarrow> bool" where
  "validStatePrefixFaults fs interfaces =
     all_fresh prefixFaultKey (\<lambda>f. \<not> (pfType f \<noteq> FaultBadMask \<or> pfPrefixBits f < 0 \<or> 32 < pfPrefixBits f \<or>
       \<not> interfaceExists interfaces (pfInterface f))) [] fs"

definition validStateDeviceFaults :: "DeviceFault list \<Rightarrow> bool" where
  "validStateDeviceFaults fs = all_fresh dfType validDeviceFault [] fs"

definition validStateStations :: "Station list \<Rightarrow> Interface list \<Rightarrow> bool" where
  "validStateStations sts interfaces =
     all_fresh stMAC (\<lambda>st. \<not> (case canonicalStation st of None \<Rightarrow> True
        | Some c \<Rightarrow> stMAC c \<noteq> stMAC st \<or> \<not> list_ex (\<lambda>i. ifName i = stRadio st) interfaces)) [] sts"

fun radioLoop :: "Interface list \<Rightarrow> string option \<Rightarrow> RadioTxPower list \<Rightarrow> bool" where
  "radioLoop interfaces prev [] = True"
| "radioLoop interfaces prev (p # ps) =
     (if rpDBM p < MinRadioTxPowerDBM \<or> MaxRadioTxPowerDBM < rpDBM p \<or>
         \<not> interfaceExists interfaces (rpInterface p) \<or>
         (case prev of None \<Rightarrow> False | Some q \<Rightarrow> rpInterface p \<le> q)
      then False else radioLoop interfaces (Some (rpInterface p)) ps)"

definition validStateRadioTxPowers :: "RadioTxPower list \<Rightarrow> Interface list \<Rightarrow> bool" where
  "validStateRadioTxPowers ps interfaces = radioLoop interfaces None ps"

definition validDeviceTelemetry :: "DeviceTelemetry \<Rightarrow> bool" where
  "validDeviceTelemetry t =
     (if STPChangedAt t = 0 \<and> STPChanges t \<noteq> 0 then False
      else \<not> list_ex (\<lambda>ts. ts \<noteq> 0 \<and> ts < unixEpoch) [RebootedAt t, STPChangedAt t])"

definition telemetryHasConsumedActions :: "DeviceTelemetry \<Rightarrow> (string, 32 word) gomap \<Rightarrow> bool" where
  "telemetryHasConsumedActions t counts \<longleftrightarrow>
     (RebootedAt t = 0 \<or> 0 < gm_at 0 counts ActionReboot) \<and>
     (STPChangedAt t = 0 \<or> 0 < gm_at 0 counts ActionSTPTopologyChange) \<and>
     STPChanges t \<le> gm_at 0 counts ActionSTPTopologyChange"

fun actionLoop :: "ConsumedDeviceAction list \<Rightarrow> (string, string) gomap \<Rightarrow> (string, 32 word) gomap \<Rightarrow>
    ((string, string) gomap \<times> (string, 32 word) gomap) option" where
  "actionLoop [] seen counts = Some (seen, counts)"
| "actionLoop (a # as) seen counts =
     (if gm_at [] seen (caID a) \<noteq> [] \<or> caID a = [] \<or> maxDeviceActionIDLength < length (caID a) \<or>
         \<not> validDeviceAction (caType a) then None
      else actionLoop as (gm_put (caID a) (caType a) seen)
        (gm_put (caType a) (gm_at 0 counts (caType a) + 1) counts))"

definition validActionState :: "State \<Rightarrow> bool" where
  "validActionState st =
     (if \<not> validDeviceTelemetry (saTelemetry st) \<or> maxConsumedDeviceActions < length (saConsumedActions st)
      then False
      else case actionLoop (saConsumedActions st) [] [] of
        None \<Rightarrow> False
      | Some (seen, counts) \<Rightarrow>
          telemetryHasConsumedActions (saTelemetry st) counts \<and>
          list_all (\<lambda>point. telemetryHasConsumedActions (ckTelemetry point) counts) (saCheckpoints st) \<and>
          list_all (\<lambda>e. \<not> (evKind e = EventDeviceRebooted \<and> gm_at [] seen (evTarget e) \<noteq> ActionReboot \<or>
             evKind e = EventSTPTopologyChanged \<and> gm_at [] seen (evTarget e) \<noteq> ActionSTPTopologyChange))
            (saEvents st))"

fun historyLoop :: "64 word \<Rightarrow> 64 word \<Rightarrow> Event list \<Rightarrow> bool" where
  "historyLoop v previous [] = True"
| "historyLoop v previous (e # es) =
     (if evVersion e = 0 \<or> evVersion e < previous \<or> v < evVersion e then False
      else historyLoop v (evVersion e) es)"

definition validStateHistory :: "State \<Rightarrow> bool" where
  "validStateHistory st =
     (if saVersion st = 0 \<or> saVersion st = - 1 \<or> maxEventHistory < length (saEvents st) then False
      else historyLoop (saVersion st) 0 (saEvents st))"

fun interfaceLoop :: "string list \<Rightarrow> Interface list \<Rightarrow> Interface list \<Rightarrow> bool" where
  "interfaceLoop seen (i # is) (a # as) =
     (if ifName i \<in> set seen \<or> ifName i \<noteq> ifName a then False else interfaceLoop (ifName i # seen) is as)"
| "interfaceLoop seen _ _ = True"

definition validStateInterfaces :: "Interface list \<Rightarrow> Interface list \<Rightarrow> bool" where
  "validStateInterfaces interfaces auth =
     (if length interfaces \<noteq> length auth then False else interfaceLoop [] interfaces auth)"

definition validStateCheckpoint :: "Checkpoint \<Rightarrow> Interface list \<Rightarrow> bool" where
  "validStateCheckpoint point auth \<longleftrightarrow>
     validDeviceTelemetry (ckTelemetry point) \<and>
     validStateInterfaces (nwInterfaces (cfNetwork (ckConfiguration point))) auth \<and>
     validStateInterfaceFaults (ckInterfaceFaults point) auth \<and>
     validStateAddressFaults (ckAddressFaults point) auth \<and>
     validStatePrefixFaults (ckPrefixFaults point) auth \<and>
     validStateDeviceFaults (ckDeviceFaults point) \<and>
     validStateStations (ckStations point) auth \<and>
     validStateRadioTxPowers (ckRadioTxPowers point) auth"

definition currentPoint :: "State \<Rightarrow> Checkpoint" where
  "currentPoint st =
     \<lparr>ckTelemetry = saTelemetry st, ckName = [], ckConfiguration = saRunning st,
      ckInterfaceFaults = saInterfaceFaults st, ckAddressFaults = saAddressFaults st,
      ckPrefixFaults = saPrefixFaults st, ckDeviceFaults = saDeviceFaults st,
      ckStations = saStations st, ckRadioTxPowers = saRadioTxPowers st\<rparr>"

definition validateState :: "State \<Rightarrow> Interface list \<Rightarrow> derror option" where
  "validateState st auth =
     (if \<not> validStateHistory st \<or> \<not> validActionState st \<or>
         \<not> validStateInterfaces (nwInterfaces (cfNetwork (saStartup st))) auth then Some ErrStateInvalid
      else if \<not> validStateCheckpoint (currentPoint st) auth then Some ErrStateInvalid
      else if \<not> all_fresh ckName (\<lambda>point. validStateCheckpoint point auth) [] (saCheckpoints st)
        then Some ErrStateInvalid
      else None)"

definition ValidateState :: "State \<Rightarrow> Store \<Rightarrow> derror option" where
  "ValidateState st s = validateState st (authoredInterfaces s)"

section \<open>Restore\<close>

text \<open>
  The record is installed under the lock (\<open>installState\<close>), with the observer and the snapshot for it read there; the observer is called
  only after the lock has been released, so that \<open>others\<close>, what other goroutines do to the store, runs before the call.
  \<open>changeObserver\<close> holds what the installed observer was handed; one that was removed meanwhile is called too, and
  what it sees is not kept.
\<close>

definition installState :: "State \<Rightarrow> Store \<Rightarrow> Store" where
  "installState st s = updateInterfaceTransitions
     (s\<lparr>running := importConfiguration (saRunning st),
       startup := importConfiguration (saStartup st),
       faults := importInterfaceFaults (saInterfaceFaults st),
       addressFaults := importAddressFaults (saAddressFaults st),
       prefixFaults := importPrefixFaults (saPrefixFaults st),
       deviceFaults := importDeviceFaults (saDeviceFaults st),
       stations := importStations (saStations st),
       radioTxPower := importRadioTxPowers (saRadioTxPowers st),
       telemetry := saTelemetry st,
       consumedActions := importConsumedActions (saConsumedActions st),
       checkpoints := importCheckpoints (saCheckpoints st),
       events := cloneEvents (saEvents st),
       version := saVersion st,
       interfaceTransitions := []\<rparr>)"

definition RestoreState :: "State \<Rightarrow> (Store \<Rightarrow> Store) \<Rightarrow> Store \<Rightarrow> derror option \<times> Store" where
  "RestoreState st others s =
     (case validateState st (authoredInterfaces s) of
        Some e \<Rightarrow> (Some e, s)
      | None \<Rightarrow>
          let s2 = installState st s;
              restored = snapshot s2 (running s2);
              s3 = others s2
          in (None, case (changeObserver s2, changeObserver s3) of
                (Some _, Some seen) \<Rightarrow> s3\<lparr>changeObserver := Some (seen @ [restored])\<rparr>
              | _ \<Rightarrow> s3))"

text \<open>With nothing in the gap, the observer ends with the restored snapshot.\<close>

lemma RestoreState_alone:
  "RestoreState st (\<lambda>x. x) s =
     (case validateState st (authoredInterfaces s) of
        Some e \<Rightarrow> (Some e, s)
      | None \<Rightarrow>
          let s1 = s\<lparr>running := importConfiguration (saRunning st),
                     startup := importConfiguration (saStartup st),
                     faults := importInterfaceFaults (saInterfaceFaults st),
                     addressFaults := importAddressFaults (saAddressFaults st),
                     prefixFaults := importPrefixFaults (saPrefixFaults st),
                     deviceFaults := importDeviceFaults (saDeviceFaults st),
                     stations := importStations (saStations st),
                     radioTxPower := importRadioTxPowers (saRadioTxPowers st),
                     telemetry := saTelemetry st,
                     consumedActions := importConsumedActions (saConsumedActions st),
                     checkpoints := importCheckpoints (saCheckpoints st),
                     events := cloneEvents (saEvents st),
                     version := saVersion st,
                     interfaceTransitions := []\<rparr>;
              s2 = updateInterfaceTransitions s1
          in (None, case changeObserver s2 of None \<Rightarrow> s2
                | Some seen \<Rightarrow> s2\<lparr>changeObserver := Some (seen @ [snapshot s2 (running s2)])\<rparr>))"
  unfolding RestoreState_def installState_def Let_def by (simp split: option.split)

end
