(* ===== verification/Device_Inv.thy ===== *)
theory Device_Inv
  imports Device_Durable
begin

text \<open>
  The store's invariant and its agreement with the durable-record validator.

  \<open>table_ok\<close> (self-keyed tables) and \<open>assoc_ok\<close> (plain ones) describe the maps, \<open>point_ok\<close> one
  scenario point (the current one or a saved checkpoint), \<open>history_ok\<close> the event journal,
  \<open>actions_ok\<close> the one-shot actions, and \<open>store_inv\<close> the whole store.  The lemmas of this theory
  go both ways: a store in the invariant exports to a record that \<open>validateState\<close> accepts and that
  imports to the same tables, and a record the validator accepts imports to a store in the
  invariant.
\<close>

section \<open>Tables\<close>

definition table_ok :: "('v \<Rightarrow> 'k::linorder) \<Rightarrow> ('v \<Rightarrow> bool) \<Rightarrow> ('k, 'v) gomap \<Rightarrow> bool" where
  "table_ok key ok m \<longleftrightarrow> gm_wf m \<and> gm_keyed key m \<and> (\<forall>v \<in> snd ` set m. ok v)"

definition assoc_ok :: "('k::linorder \<Rightarrow> 'v \<Rightarrow> bool) \<Rightarrow> ('k, 'v) gomap \<Rightarrow> bool" where
  "assoc_ok ok m \<longleftrightarrow> gm_wf m \<and> (\<forall>(k, v) \<in> set m. ok k v)"

named_theorems table_intros \<open>introduction rules for well-formed tables\<close>

lemma table_ok_Nil [simp, table_intros]: "table_ok key ok []"
  by (simp add: table_ok_def)

lemma table_ok_put [table_intros]:
  "table_ok key ok m \<Longrightarrow> key v = k \<Longrightarrow> ok v \<Longrightarrow> table_ok key ok (gm_put k v m)"
  using set_gm_put [of k v m] by (auto simp: table_ok_def gm_intros)

lemma table_ok_del [table_intros]: "table_ok key ok m \<Longrightarrow> table_ok key ok (gm_del k m)"
  by (auto simp: table_ok_def gm_intros) (auto simp: gm_del_def)

lemma table_ok_remove [table_intros]: "table_ok key ok m \<Longrightarrow> table_ok key ok (gm_remove p m)"
  by (auto simp: table_ok_def gm_intros) (auto simp: gm_remove_def)

lemma table_ok_get: "table_ok key ok m \<Longrightarrow> map_of m k = Some v \<Longrightarrow> key v = k \<and> ok v"
  by (force simp: table_ok_def gm_keyed_def list_all_iff dest!: map_of_SomeD)

lemma assoc_ok_Nil [simp, table_intros]: "assoc_ok ok []"
  by (simp add: assoc_ok_def)

lemma assoc_ok_put [table_intros]: "assoc_ok ok m \<Longrightarrow> ok k v \<Longrightarrow> assoc_ok ok (gm_put k v m)"
  using set_gm_put [of k v m] by (auto simp: assoc_ok_def gm_intros)

lemma assoc_ok_del [table_intros]: "assoc_ok ok m \<Longrightarrow> assoc_ok ok (gm_del k m)"
  by (auto simp: assoc_ok_def gm_intros) (auto simp: gm_del_def)

lemma assoc_ok_get: "assoc_ok ok m \<Longrightarrow> map_of m k = Some v \<Longrightarrow> ok k v"
  by (auto simp: assoc_ok_def dest!: map_of_SomeD)

lemma table_ok_export:
  assumes "table_ok key ok m"
  shows "all_fresh key ok [] (gm_export key m)"
proof -
  have wf: "gm_wf m" "gm_keyed key m" using assms by (auto simp: table_ok_def)
  then have "map key (map snd m) = map fst m" by (intro map_fst_keyed)
  then have "distinct (map key (map snd m))" using wf(1) by (simp only: gm_wf_distinct)
  then show ?thesis
    using assms wf by (simp add: gm_export_keyed all_fresh_iff table_ok_def)
qed

lemma foldl_put_table:
  "table_ok key ok acc \<Longrightarrow> \<forall>v \<in> set vs. ok v \<Longrightarrow>
     table_ok key ok (foldl (\<lambda>m v. gm_put (key v) v m) acc vs)"
  by (induction vs arbitrary: acc) (auto intro: table_intros)

lemma table_ok_import: "all_fresh key ok [] vs \<Longrightarrow> table_ok key ok (gm_import key (\<lambda>x. x) vs)"
  by (simp add: gm_import_def foldl_put_table all_fresh_iff)

lemma sort_keys_wf: "gm_wf m \<Longrightarrow> sort (map fst m) = map fst m"
  by (simp add: gm_wf_def sorted_sort_id strict_sorted_imp_sorted)

lemma gm_at_entry: "gm_wf m \<Longrightarrow> (k, v) \<in> set m \<Longrightarrow> gm_at d m k = v"
  by (simp add: gm_at_def gm_wf_map_of_mem [THEN iffD2])

text \<open>Listing a plain map by sorted keys lists its entries.\<close>

lemma export_assoc: "gm_wf m \<Longrightarrow> map (\<lambda>k. f k (gm_at d m k)) (sort (map fst m)) = map (\<lambda>(k, v). f k v) m"
  by (auto simp: sort_keys_wf gm_at_entry)

lemma import_assoc:
  assumes "gm_wf m" "\<And>k v. key (f k v) = k" "\<And>k v. val (f k v) = v"
  shows "gm_import key val (map (\<lambda>(k, v). f k v) m) = m"
proof -
  have "map key (map (\<lambda>(k, v). f k v) m) = map fst m"
    by (auto simp: assms(2))
  then have "sorted_wrt (<) (map key (map (\<lambda>(k, v). f k v) m))"
    using assms(1) by (simp only: gm_wf_def)
  then have "gm_import key val (map (\<lambda>(k, v). f k v) m) =
      map (\<lambda>x. (key x, val x)) (map (\<lambda>(k, v). f k v) m)"
    by (rule gm_import_sorted)
  also have "\<dots> = m"
    by (induction m) (auto simp: assms(2,3))
  finally show ?thesis .
qed

lemma foldl_put_assoc:
  "assoc_ok ok acc \<Longrightarrow> \<forall>x \<in> set vs. ok (key x) (val x) \<Longrightarrow>
     assoc_ok ok (foldl (\<lambda>m x. gm_put (key x) (val x) m) acc vs)"
  by (induction vs arbitrary: acc) (auto intro: table_intros)

lemma assoc_ok_import: "\<forall>x \<in> set vs. ok (key x) (val x) \<Longrightarrow> assoc_ok ok (gm_import key val vs)"
  by (simp add: gm_import_def foldl_put_assoc)

section \<open>The invariant\<close>

definition fault_ok :: "string list \<Rightarrow> InterfaceFault \<Rightarrow> bool" where
  "fault_ok names f \<longleftrightarrow>
     validFaultType (ftType f) \<and> 0 < ftValue f \<and> ftValue f \<le> 100 \<and> ftInterface f \<in> set names"

definition addressFault_ok :: "string list \<Rightarrow> InterfaceAddressFault \<Rightarrow> bool" where
  "addressFault_ok names f \<longleftrightarrow>
     afType f = FaultDuplicateIP \<and> ValidFaultAddress (afAddress f) \<and> afInterface f \<in> set names"

definition prefixFault_ok :: "string list \<Rightarrow> InterfacePrefixFault \<Rightarrow> bool" where
  "prefixFault_ok names f \<longleftrightarrow>
     pfType f = FaultBadMask \<and> 0 \<le> pfPrefixBits f \<and> pfPrefixBits f \<le> 32 \<and> pfInterface f \<in> set names"

definition station_ok :: "string list \<Rightarrow> Station \<Rightarrow> bool" where
  "station_ok names st \<longleftrightarrow> canonicalStation st = Some st \<and> stRadio st \<in> set names"

definition power_ok :: "string list \<Rightarrow> string \<Rightarrow> int \<Rightarrow> bool" where
  "power_ok names n d \<longleftrightarrow> n \<in> set names \<and> MinRadioTxPowerDBM \<le> d \<and> d \<le> MaxRadioTxPowerDBM"

definition action_ok :: "string \<Rightarrow> string \<Rightarrow> bool" where
  "action_ok i k \<longleftrightarrow> i \<noteq> [] \<and> length i \<le> maxDeviceActionIDLength \<and> validDeviceAction k"

definition names_of :: "configuration \<Rightarrow> string list" where
  "names_of c = map ifName (nwInterfaces (cfNetwork c))"

definition point_ok :: "string list \<Rightarrow> checkpoint \<Rightarrow> bool" where
  "point_ok names p \<longleftrightarrow>
     validDeviceTelemetry (cpTelemetry p) \<and> names_of (cpConfig p) = names \<and>
     table_ok faultKey (fault_ok names) (cpFaults p) \<and>
     table_ok addressFaultKey (addressFault_ok names) (cpAddressFaults p) \<and>
     table_ok prefixFaultKey (prefixFault_ok names) (cpPrefixFaults p) \<and>
     table_ok dfType validDeviceFault (cpDeviceFaults p) \<and>
     table_ok stMAC (station_ok names) (cpStations p) \<and>
     assoc_ok (power_ok names) (cpRadioTxPower p)"

definition currentCheckpoint :: "Store \<Rightarrow> checkpoint" where
  "currentCheckpoint s =
     \<lparr>cpTelemetry = telemetry s, cpConfig = running s, cpFaults = faults s,
      cpAddressFaults = addressFaults s, cpPrefixFaults = prefixFaults s,
      cpDeviceFaults = deviceFaults s, cpStations = stations s, cpRadioTxPower = radioTxPower s\<rparr>"

definition count_actions :: "string \<Rightarrow> (string, string) gomap \<Rightarrow> nat" where
  "count_actions k m = length (filter (\<lambda>e. snd e = k) m)"

definition telemetry_backed :: "(string, string) gomap \<Rightarrow> DeviceTelemetry \<Rightarrow> bool" where
  "telemetry_backed consumed t \<longleftrightarrow>
     (RebootedAt t = 0 \<or> 0 < count_actions ActionReboot consumed) \<and>
     (STPChangedAt t = 0 \<or> 0 < count_actions ActionSTPTopologyChange consumed) \<and>
     unat (STPChanges t) \<le> count_actions ActionSTPTopologyChange consumed"

definition event_backed :: "(string, string) gomap \<Rightarrow> Event \<Rightarrow> bool" where
  "event_backed consumed e \<longleftrightarrow>
     (evKind e = EventDeviceRebooted \<longrightarrow> map_of consumed (evTarget e) = Some ActionReboot) \<and>
     (evKind e = EventSTPTopologyChanged \<longrightarrow> map_of consumed (evTarget e) = Some ActionSTPTopologyChange)"

definition actions_ok :: "Store \<Rightarrow> bool" where
  "actions_ok s \<longleftrightarrow>
     assoc_ok action_ok (consumedActions s) \<and>
     length (consumedActions s) \<le> maxConsumedDeviceActions \<and>
     telemetry_backed (consumedActions s) (telemetry s) \<and>
     (\<forall>p \<in> snd ` set (checkpoints s). telemetry_backed (consumedActions s) (cpTelemetry p)) \<and>
     (\<forall>e \<in> set (events s). event_backed (consumedActions s) e)"

definition history_ok :: "64 word \<Rightarrow> Event list \<Rightarrow> bool" where
  "history_ok v es \<longleftrightarrow>
     v \<noteq> 0 \<and> v \<noteq> - 1 \<and> length es \<le> maxEventHistory \<and>
     sorted (map evVersion es) \<and> (\<forall>e \<in> set es. evVersion e \<noteq> 0 \<and> evVersion e \<le> v)"

definition clock_ok :: "Store \<Rightarrow> bool" where
  "clock_ok s \<longleftrightarrow> (\<forall>n. unixEpoch \<le> now s n)"

definition store_inv :: "Store \<Rightarrow> bool" where
  "store_inv s \<longleftrightarrow>
     clock_ok s \<and> distinct (names_of (authored s)) \<and> names_of (startup s) = names_of (authored s) \<and>
     point_ok (names_of (authored s)) (currentCheckpoint s) \<and>
     gm_wf (checkpoints s) \<and> (\<forall>p \<in> snd ` set (checkpoints s). point_ok (names_of (authored s)) p) \<and>
     actions_ok s \<and> history_ok (version s) (events s)"

section \<open>Validators and tables agree\<close>

lemma interfaceExists_names: "interfaceExists (nwInterfaces (cfNetwork c)) n \<longleftrightarrow> n \<in> set (names_of c)"
  by (simp add: interfaceExists_iff names_of_def)

lemma validStateInterfaces_iff:
  "validStateInterfaces ifs auth \<longleftrightarrow> map ifName ifs = map ifName auth \<and> distinct (map ifName ifs)"
proof -
  have "length ifs = length auth \<Longrightarrow> interfaceLoop seen ifs auth \<longleftrightarrow>
      map ifName ifs = map ifName auth \<and> distinct (map ifName ifs) \<and> set (map ifName ifs) \<inter> set seen = {}"
    for seen
    by (induction ifs auth arbitrary: seen rule: list_induct2) auto
  from this [of "[]"] show ?thesis
    unfolding validStateInterfaces_def by (metis empty_set inf_bot_right length_map)
qed

lemma validStateInterfaceFaults_iff:
  "validStateInterfaceFaults fs auth = all_fresh faultKey (fault_ok (map ifName auth)) [] fs"
  by (auto simp: validStateInterfaceFaults_def all_fresh_iff fault_ok_def interfaceExists_iff
      faultRateMax_def not_le not_less)

lemma validStateAddressFaults_iff:
  "validStateAddressFaults fs auth = all_fresh addressFaultKey (addressFault_ok (map ifName auth)) [] fs"
  by (auto simp: validStateAddressFaults_def all_fresh_iff addressFault_ok_def interfaceExists_iff)

lemma validStatePrefixFaults_iff:
  "validStatePrefixFaults fs auth = all_fresh prefixFaultKey (prefixFault_ok (map ifName auth)) [] fs"
  by (auto simp: validStatePrefixFaults_def all_fresh_iff prefixFault_ok_def interfaceExists_iff
      not_le not_less)

lemma canonicalStation_same: "canonicalStation st = Some c \<Longrightarrow> stMAC c = stMAC st \<Longrightarrow> c = st"
  by (auto simp: canonicalStation_def split: option.splits if_splits)

lemma station_ok_iff:
  "station_ok (map ifName (auth :: Interface list)) st \<longleftrightarrow> \<not> (case canonicalStation st of None \<Rightarrow> True
     | Some c \<Rightarrow> stMAC c \<noteq> stMAC st \<or> \<not> list_ex (\<lambda>i. ifName i = stRadio st) auth)"
  using interfaceExists_iff [of auth "stRadio st"]
  by (auto simp: station_ok_def interfaceExists_def split: option.splits dest: canonicalStation_same)

lemma validStateStations_iff:
  "validStateStations sts auth = all_fresh stMAC (station_ok (map ifName auth)) [] sts"
  by (simp only: validStateStations_def flip: station_ok_iff)

lemma radioLoop_iff:
  "radioLoop auth prev ps \<longleftrightarrow>
     sorted_wrt (<) (map rpInterface ps) \<and>
     (\<forall>p \<in> set ps. power_ok (map ifName auth) (rpInterface p) (rpDBM p)) \<and>
     (\<forall>q. prev = Some q \<longrightarrow> (\<forall>p \<in> set ps. q < rpInterface p))"
  by (induction auth prev ps rule: radioLoop.induct)
    (auto simp: power_ok_def interfaceExists_iff not_le not_less split: option.splits
      intro: less_trans)

lemma validStateRadioTxPowers_iff:
  "validStateRadioTxPowers ps auth \<longleftrightarrow> sorted_wrt (<) (map rpInterface ps) \<and>
     (\<forall>p \<in> set ps. power_ok (map ifName auth) (rpInterface p) (rpDBM p))"
  by (simp add: validStateRadioTxPowers_def radioLoop_iff)

lemmas validState_iffs = validStateInterfaces_iff validStateInterfaceFaults_iff
  validStateAddressFaults_iff validStatePrefixFaults_iff validStateStations_iff
  validStateRadioTxPowers_iff validStateDeviceFaults_def

lemma exportConfiguration_id [simp]: "exportConfiguration c = c"
  by (simp add: exportConfiguration_def)

lemma importConfiguration_id [simp]: "importConfiguration c = c"
  by (simp add: importConfiguration_def)

lemma sortedRadioTxPowers_wf:
  "gm_wf m \<Longrightarrow> sortedRadioTxPowers m = map (\<lambda>(k, v). \<lparr>rpInterface = k, rpDBM = v\<rparr>) m"
  unfolding sortedRadioTxPowers_def by (rule export_assoc)

lemma exportConsumedActions_wf:
  "gm_wf m \<Longrightarrow> exportConsumedActions m = map (\<lambda>(k, v). \<lparr>caID = k, caType = v\<rparr>) m"
  unfolding exportConsumedActions_def by (rule export_assoc)

lemma radio_export_ok:
  assumes "assoc_ok (power_ok (map ifName auth)) m"
  shows "validStateRadioTxPowers (sortedRadioTxPowers m) auth"
proof -
  have wf: "gm_wf m" using assms by (simp add: assoc_ok_def)
  have "map rpInterface (map (\<lambda>(k, v). \<lparr>rpInterface = k, rpDBM = v\<rparr>) m) = map fst m"
    by auto
  with wf show ?thesis
    using assms by (auto simp: validStateRadioTxPowers_iff sortedRadioTxPowers_wf gm_wf_def assoc_ok_def
        simp del: map_map)
qed

lemma radio_reimport: "gm_wf m \<Longrightarrow> importRadioTxPowers (sortedRadioTxPowers m) = m"
  unfolding importRadioTxPowers_def by (simp add: sortedRadioTxPowers_wf import_assoc)

lemma consumed_reimport: "gm_wf m \<Longrightarrow> importConsumedActions (exportConsumedActions m) = m"
  unfolding importConsumedActions_def by (simp add: exportConsumedActions_wf import_assoc)

lemmas sorted_defs = sortedInterfaceFaults_def sortedAddressFaults_def sortedPrefixFaults_def
  sortedDeviceFaults_def sortedStations_def

lemmas import_defs = importInterfaceFaults_def importAddressFaults_def importPrefixFaults_def
  importDeviceFaults_def importStations_def

lemma point_export_valid:
  "point_ok (map ifName auth) p \<Longrightarrow> distinct (map ifName auth) \<Longrightarrow>
     validStateCheckpoint (exportCheckpoint name p) auth"
  by (simp add: point_ok_def validStateCheckpoint_def exportCheckpoint_def validState_iffs sorted_defs
      table_ok_export radio_export_ok names_of_def flip: validStateRadioTxPowers_iff)

lemma point_reimport: "point_ok names p \<Longrightarrow> importCheckpoint (exportCheckpoint name p) = p"
  by (simp add: point_ok_def importCheckpoint_def exportCheckpoint_def sorted_defs import_defs
      table_ok_def gm_import_export radio_reimport assoc_ok_def)

lemma point_import_ok:
  "validStateCheckpoint c auth \<Longrightarrow> point_ok (map ifName auth) (importCheckpoint c)"
  by (simp add: point_ok_def validStateCheckpoint_def importCheckpoint_def validState_iffs import_defs
      table_ok_import names_of_def importRadioTxPowers_def assoc_ok_import)

section \<open>History\<close>

lemma historyLoop_iff:
  "historyLoop v previous es \<longleftrightarrow>
     sorted (map evVersion es) \<and> (\<forall>e \<in> set es. evVersion e \<noteq> 0 \<and> previous \<le> evVersion e \<and> evVersion e \<le> v)"
  by (induction v previous es rule: historyLoop.induct) (auto simp: not_less intro: order_trans)

lemma validStateHistory_iff: "validStateHistory st \<longleftrightarrow> history_ok (saVersion st) (saEvents st)"
  by (auto simp: validStateHistory_def history_ok_def historyLoop_iff)

section \<open>Actions\<close>

definition bumpCount :: "(string, 32 word) gomap \<Rightarrow> ConsumedDeviceAction \<Rightarrow> (string, 32 word) gomap" where
  "bumpCount c a = gm_put (caType a) (gm_at 0 c (caType a) + 1) c"

lemma gm_at_Nil [simp]: "gm_at d [] k = d"
  by (simp add: gm_at_def)

lemma gm_at_put [simp]: "gm_at d (gm_put k v m) j = (if j = k then v else gm_at d m j)"
  by (simp add: gm_at_def gm_simps)

lemma action_type_nonempty: "action_ok i k \<Longrightarrow> k \<noteq> []"
  by (auto simp: action_ok_def validDeviceAction_def)

lemma actionLoop_eq:
  assumes "\<forall>v \<in> ran (map_of seen). v \<noteq> []"
  shows "actionLoop as seen counts =
    (if (\<forall>a \<in> set as. action_ok (caID a) (caType a) \<and> map_of seen (caID a) = None) \<and> distinct (map caID as)
     then Some (foldl (\<lambda>m a. gm_put (caID a) (caType a) m) seen as, foldl bumpCount counts as) else None)"
  using assms
proof (induction as arbitrary: seen counts)
  case Nil
  then show ?case by simp
next
  case (Cons a as)
  have fresh: "gm_at [] seen (caID a) \<noteq> [] \<longleftrightarrow> map_of seen (caID a) \<noteq> None"
    using Cons.prems by (auto simp: gm_at_def ran_def split: option.splits)
  show ?case
  proof (cases "action_ok (caID a) (caType a) \<and> map_of seen (caID a) = None")
    case False
    then show ?thesis by (auto simp: fresh action_ok_def)
  next
    case True
    let ?seen = "gm_put (caID a) (caType a) seen"
    have "\<forall>v \<in> ran (map_of ?seen). v \<noteq> []"
      using Cons.prems True by (auto simp: gm_simps ran_def dest: action_type_nonempty split: if_splits)
    from Cons.IH [OF this] True show ?thesis
      by (auto simp: fresh action_ok_def bumpCount_def gm_simps image_iff) metis+
  qed
qed

lemma count_bump:
  "gm_at 0 (foldl bumpCount counts as) k = gm_at 0 counts k + of_nat (length (filter (\<lambda>a. caType a = k) as))"
  by (induction as arbitrary: counts) (auto simp: bumpCount_def)

lemma filter_gm_put:
  "k \<notin> fst ` set m \<Longrightarrow> length (filter p (gm_put k v m)) = length (filter p m) + (if p (k, v) then 1 else 0)"
  by (induction m) auto

lemma length_gm_put: "k \<notin> fst ` set m \<Longrightarrow> length (gm_put k v m) = Suc (length m)"
  by (induction m) auto

lemma count_foldl_put:
  assumes "distinct (map caID as)" "\<forall>a \<in> set as. caID a \<notin> fst ` set m"
  shows "count_actions k (foldl (\<lambda>m a. gm_put (caID a) (caType a) m) m as) =
      count_actions k m + length (filter (\<lambda>a. caType a = k) as) \<and>
    length (foldl (\<lambda>m a. gm_put (caID a) (caType a) m) m as) = length m + length as"
  using assms
proof (induction as arbitrary: m)
  case Nil
  then show ?case by simp
next
  case (Cons a as)
  from Cons.prems have "\<forall>b \<in> set as. caID b \<notin> fst ` set (gm_put (caID a) (caType a) m)"
    by (auto simp: set_gm_put_fst intro: rev_image_eqI)
  with Cons show ?case
    by (simp add: count_actions_def filter_gm_put length_gm_put)
qed

lemma count_actions_le: "count_actions k m \<le> length m"
  by (simp add: count_actions_def)

lemma unat_count: "n \<le> maxConsumedDeviceActions \<Longrightarrow> unat (of_nat n :: 32 word) = n"
  by (simp add: maxConsumedDeviceActions_def unat_of_nat)

lemma telemetry_backed_iff:
  assumes "\<And>k. gm_at 0 counts k = of_nat (count_actions k m)" "length m \<le> maxConsumedDeviceActions"
  shows "telemetryHasConsumedActions t counts \<longleftrightarrow> telemetry_backed m t"
proof -
  have "unat (of_nat (count_actions k m) :: 32 word) = count_actions k m" for k
    using assms(2) count_actions_le [of k m] by (intro unat_count) simp
  then show ?thesis
    by (simp add: telemetryHasConsumedActions_def telemetry_backed_def assms(1) word_less_nat_alt word_le_nat_alt)
qed

lemma event_backed_iff:
  "\<not> (evKind e = EventDeviceRebooted \<and> gm_at [] m (evTarget e) \<noteq> ActionReboot \<or>
      evKind e = EventSTPTopologyChanged \<and> gm_at [] m (evTarget e) \<noteq> ActionSTPTopologyChange) \<longleftrightarrow>
    event_backed m e"
  by (auto simp: event_backed_def gm_at_def split: option.splits)

text \<open>The action part of the validator in terms of the imported table.\<close>

lemma validActionState_iff:
  "validActionState st \<longleftrightarrow>
     (let as = saConsumedActions st; m = importConsumedActions as in
      validDeviceTelemetry (saTelemetry st) \<and> length as \<le> maxConsumedDeviceActions \<and>
      (\<forall>a \<in> set as. action_ok (caID a) (caType a)) \<and> distinct (map caID as) \<and>
      telemetry_backed m (saTelemetry st) \<and>
      (\<forall>p \<in> set (saCheckpoints st). telemetry_backed m (ckTelemetry p)) \<and>
      (\<forall>e \<in> set (saEvents st). event_backed m e))"
proof -
  let ?as = "saConsumedActions st"
  let ?m = "importConsumedActions ?as"
  have loop: "actionLoop ?as [] [] =
      (if (\<forall>a \<in> set ?as. action_ok (caID a) (caType a)) \<and> distinct (map caID ?as)
       then Some (?m, foldl bumpCount [] ?as) else None)"
    by (simp add: actionLoop_eq importConsumedActions_def gm_import_def)
  show ?thesis
  proof (cases "length ?as \<le> maxConsumedDeviceActions \<and> distinct (map caID ?as)")
    case False
    then show ?thesis by (auto simp: validActionState_def loop Let_def not_le)
  next
    case True
    then have cnt: "gm_at 0 (foldl bumpCount [] ?as) k = of_nat (count_actions k ?m)" for k
      using count_foldl_put [of ?as "[]" k]
      by (simp add: count_bump importConsumedActions_def gm_import_def count_actions_def)
    have len: "length ?m \<le> maxConsumedDeviceActions"
      using True count_foldl_put [of ?as "[]"] by (simp add: importConsumedActions_def gm_import_def)
    show ?thesis
      unfolding validActionState_def loop Let_def
      using True by (auto simp: telemetry_backed_iff [OF cnt len] event_backed_iff [symmetric] list_all_iff)
  qed
qed

section \<open>Whole stores\<close>

lemma exportCheckpoints_wf:
  assumes "gm_wf m"
  shows "exportCheckpoints m = map (\<lambda>(n, p). exportCheckpoint n p) m"
proof -
  have "map_of m k = Some v" if "(k, v) \<in> set m" for k v
    using assms that by (simp add: gm_wf_map_of_mem [THEN iffD2])
  then have "concat (map (\<lambda>x. case map_of m (fst x) of None \<Rightarrow> []
      | Some p \<Rightarrow> [exportCheckpoint (fst x) p]) xs) = map (\<lambda>(n, p). exportCheckpoint n p) xs"
    if "set xs \<subseteq> set m" for xs
    using that by (induction xs) auto
  from this [of m] show ?thesis
    unfolding exportCheckpoints_def sort_keys_wf [OF assms] by (simp add: comp_def)
qed

lemma checkpoints_reimport:
  assumes "gm_wf m" "\<forall>p \<in> snd ` set m. point_ok names p"
  shows "importCheckpoints (exportCheckpoints m) = m"
proof -
  let ?f = "\<lambda>(n, p). exportCheckpoint n p"
  have keys: "map ckName (map ?f m) = map fst m"
    by (auto simp: exportCheckpoint_def)
  then have "sorted_wrt (<) (map ckName (map ?f m))"
    using assms(1) by (simp only: gm_wf_def)
  then have "importCheckpoints (map ?f m) = map (\<lambda>x. (ckName x, importCheckpoint x)) (map ?f m)"
    unfolding importCheckpoints_def by (rule gm_import_sorted)
  also have "\<dots> = m"
    using assms(2) by (induction m) (auto simp: point_reimport, simp add: exportCheckpoint_def)
  finally show ?thesis
    by (simp only: exportCheckpoints_wf [OF assms(1)])
qed

lemma exportCheckpoints_valid:
  assumes "gm_wf m" "\<forall>p \<in> snd ` set m. point_ok (map ifName auth) p" "distinct (map ifName auth)"
  shows "all_fresh ckName (\<lambda>p. validStateCheckpoint p auth) [] (exportCheckpoints m)"
proof -
  have "map ckName (map (\<lambda>(n, p). exportCheckpoint n p) m) = map fst m"
    by (auto simp: exportCheckpoint_def)
  then have "distinct (map ckName (map (\<lambda>(n, p). exportCheckpoint n p) m))"
    using assms(1) by (simp only: gm_wf_distinct)
  with assms show ?thesis
    by (auto simp: exportCheckpoints_wf all_fresh_iff point_export_valid simp del: map_map)
qed

lemma currentPoint_export: "currentPoint (ExportState s) = exportCheckpoint [] (currentCheckpoint s)"
  by (simp add: currentPoint_def ExportState_def exportCheckpoint_def currentCheckpoint_def)

lemma export_actions_valid:
  assumes "actions_ok s" "validDeviceTelemetry (telemetry s)" "gm_wf (checkpoints s)"
  shows "validActionState (ExportState s)"
proof -
  let ?m = "consumedActions s"
  have wf: "gm_wf ?m" and ok: "\<forall>(k, v) \<in> set ?m. action_ok k v"
    using assms(1) by (auto simp: actions_ok_def assoc_ok_def)
  have "map caID (exportConsumedActions ?m) = map fst ?m"
    using wf by (auto simp: exportConsumedActions_wf)
  then have "distinct (map caID (exportConsumedActions ?m))"
    using wf by (simp only: gm_wf_distinct)
  moreover have "\<forall>a \<in> set (exportConsumedActions ?m). action_ok (caID a) (caType a)"
    "length (exportConsumedActions ?m) = length ?m"
    using wf ok by (auto simp: exportConsumedActions_wf)
  moreover have "\<forall>c \<in> set (exportCheckpoints (checkpoints s)). telemetry_backed ?m (ckTelemetry c)"
    using assms by (auto simp: exportCheckpoints_wf actions_ok_def exportCheckpoint_def)
  ultimately show ?thesis
    using assms wf
    by (simp add: validActionState_iff Let_def ExportState_def consumed_reimport actions_ok_def)
qed

lemma export_valid:
  assumes inv: "store_inv s" and same: "names_of (authored t) = names_of (authored s)"
  shows "validateState (ExportState s) (authoredInterfaces t) = None"
proof -
  let ?auth = "authoredInterfaces t"
  have names: "map ifName ?auth = names_of (authored s)"
    using same by (simp add: names_of_def)
  have dist: "distinct (map ifName ?auth)"
    using inv by (simp add: names store_inv_def)
  have cur: "point_ok (map ifName ?auth) (currentCheckpoint s)"
    and cps: "\<forall>p \<in> snd ` set (checkpoints s). point_ok (map ifName ?auth) p"
    using inv by (simp_all add: names store_inv_def)
  have "validStateHistory (ExportState s)"
    using inv by (simp add: validStateHistory_iff ExportState_def store_inv_def)
  moreover have "validActionState (ExportState s)"
    using inv by (intro export_actions_valid) (simp_all add: store_inv_def point_ok_def currentCheckpoint_def)
  moreover have "validStateInterfaces (nwInterfaces (cfNetwork (saStartup (ExportState s)))) ?auth"
    using inv dist names by (simp add: validStateInterfaces_iff ExportState_def store_inv_def names_of_def)
  moreover have "validStateCheckpoint (currentPoint (ExportState s)) ?auth"
    unfolding currentPoint_export using cur dist by (rule point_export_valid)
  moreover have "all_fresh ckName (\<lambda>p. validStateCheckpoint p ?auth) [] (saCheckpoints (ExportState s))"
    using inv cps dist by (simp add: ExportState_def exportCheckpoints_valid store_inv_def)
  ultimately show ?thesis
    by (simp add: validateState_def)
qed

lemma validateState_iff:
  "validateState st auth = None \<longleftrightarrow>
     validStateHistory st \<and> validActionState st \<and>
     validStateInterfaces (nwInterfaces (cfNetwork (saStartup st))) auth \<and>
     validStateCheckpoint (currentPoint st) auth \<and>
     all_fresh ckName (\<lambda>p. validStateCheckpoint p auth) [] (saCheckpoints st)"
  by (auto simp: validateState_def)

text \<open>A record the validator accepts imports into a store in the invariant.\<close>

lemma restore_fields:
  assumes "RestoreState st (\<lambda>x. x) s = (None, s')"
  shows "validateState st (authoredInterfaces s) = None" "events s' = saEvents st"
    "running s' = saRunning st" "startup s' = saStartup st" "authored s' = authored s"
    "version s' = saVersion st" "checkpoints s' = importCheckpoints (saCheckpoints st)"
    "faults s' = importInterfaceFaults (saInterfaceFaults st)"
    "addressFaults s' = importAddressFaults (saAddressFaults st)"
    "prefixFaults s' = importPrefixFaults (saPrefixFaults st)"
    "deviceFaults s' = importDeviceFaults (saDeviceFaults st)" "now s' = now s"
    "telemetry s' = saTelemetry st"
    "consumedActions s' = importConsumedActions (saConsumedActions st)"
    "stations s' = importStations (saStations st)"
    "radioTxPower s' = importRadioTxPowers (saRadioTxPowers st)"
proof -
  show valid: "validateState st (authoredInterfaces s) = None"
    using assms by (simp add: RestoreState_alone Let_def split: option.splits)
  let ?t = "s\<lparr>running := importConfiguration (saRunning st), startup := importConfiguration (saStartup st),
      faults := importInterfaceFaults (saInterfaceFaults st),
      addressFaults := importAddressFaults (saAddressFaults st),
      prefixFaults := importPrefixFaults (saPrefixFaults st),
      deviceFaults := importDeviceFaults (saDeviceFaults st),
      stations := importStations (saStations st),
      radioTxPower := importRadioTxPowers (saRadioTxPowers st), telemetry := saTelemetry st,
      consumedActions := importConsumedActions (saConsumedActions st),
      checkpoints := importCheckpoints (saCheckpoints st), events := cloneEvents (saEvents st),
      version := saVersion st, interfaceTransitions := []\<rparr>"
  have s': "s' = (case changeObserver (updateInterfaceTransitions ?t) of None \<Rightarrow> updateInterfaceTransitions ?t
      | Some seen \<Rightarrow> (updateInterfaceTransitions ?t)\<lparr>changeObserver := Some (seen @
          [snapshot (updateInterfaceTransitions ?t) (running (updateInterfaceTransitions ?t))])\<rparr>)"
    using assms unfolding RestoreState_alone valid Let_def option.case by simp
  have obs: "core (case c of None \<Rightarrow> u | Some x \<Rightarrow> u\<lparr>changeObserver := f x\<rparr>) = core u"
    "events (case c of None \<Rightarrow> u | Some x \<Rightarrow> u\<lparr>changeObserver := f x\<rparr>) = events u" for c f and u :: Store
    by (simp_all split: option.split)
  have cr: "core s' = core ?t"
    unfolding s' obs by (rule updateInterfaceTransitions_frame)
  have "events s' = events ?t"
    unfolding s' obs by (rule updateInterfaceTransitions_frame)
  then show "events s' = saEvents st" by simp
  show "running s' = saRunning st" "startup s' = saStartup st" "authored s' = authored s"
    "version s' = saVersion st" "checkpoints s' = importCheckpoints (saCheckpoints st)"
    "faults s' = importInterfaceFaults (saInterfaceFaults st)"
    "addressFaults s' = importAddressFaults (saAddressFaults st)"
    "prefixFaults s' = importPrefixFaults (saPrefixFaults st)"
    "deviceFaults s' = importDeviceFaults (saDeviceFaults st)" "now s' = now s"
    "telemetry s' = saTelemetry st"
    "consumedActions s' = importConsumedActions (saConsumedActions st)"
    "stations s' = importStations (saStations st)"
    "radioTxPower s' = importRadioTxPowers (saRadioTxPowers st)"
    by (simp_all add: core_eqD [OF cr])
qed

lemma import_checkpoint_set: "snd ` set (importCheckpoints cs) \<subseteq> importCheckpoint ` set cs"
  unfolding importCheckpoints_def by (rule snd_gm_import)

lemma restore_point_ok:
  assumes "RestoreState st (\<lambda>x. x) s = (None, s')"
  shows "point_ok (names_of (authored s)) (currentCheckpoint s')"
proof -
  note f = restore_fields(2-) [OF assms]
  have "currentCheckpoint s' = importCheckpoint (currentPoint st)"
    by (simp add: currentCheckpoint_def importCheckpoint_def currentPoint_def f)
  with restore_fields(1) [OF assms] show ?thesis
    by (simp add: validateState_iff names_of_def point_import_ok)
qed

lemma restore_actions_ok:
  assumes "RestoreState st (\<lambda>x. x) s = (None, s')"
  shows "actions_ok s'"
proof -
  note f = restore_fields(2-) [OF assms]
  let ?as = "saConsumedActions st"
  have v: "validActionState st"
    using restore_fields(1) [OF assms] by (simp add: validateState_iff)
  then have "length (importConsumedActions ?as) = length ?as"
    using count_foldl_put [of ?as "[]"]
    by (simp add: validActionState_iff Let_def importConsumedActions_def gm_import_def)
  moreover have "assoc_ok action_ok (importConsumedActions ?as)"
    using v by (simp add: validActionState_iff Let_def importConsumedActions_def assoc_ok_import)
  moreover have "\<forall>p \<in> snd ` set (checkpoints s'). telemetry_backed (importConsumedActions ?as) (cpTelemetry p)"
  proof -
    have "\<forall>c \<in> set (saCheckpoints st). telemetry_backed (importConsumedActions ?as) (ckTelemetry c)"
      using v by (simp add: validActionState_iff Let_def)
    moreover have "snd ` set (checkpoints s') \<subseteq> importCheckpoint ` set (saCheckpoints st)"
      using import_checkpoint_set by (simp add: f)
    ultimately show ?thesis
      by (auto simp: importCheckpoint_def)
  qed
  ultimately show ?thesis
    using v by (simp add: actions_ok_def f restore_fields(2) [OF assms] validActionState_iff Let_def)
qed

lemma restore_inv:
  assumes "clock_ok s" "RestoreState st (\<lambda>x. x) s = (None, s')"
  shows "store_inv s'"
proof -
  note f = restore_fields(2-) [OF assms(2)]
  have val: "validateState st (authoredInterfaces s) = None"
    by (rule restore_fields(1) [OF assms(2)])
  have start: "names_of (saStartup st) = names_of (authored s)" "distinct (names_of (authored s))"
    using val by (auto simp: validateState_iff validStateInterfaces_iff names_of_def)
  have cps: "\<forall>p \<in> snd ` set (checkpoints s'). point_ok (names_of (authored s)) p"
  proof
    fix p assume "p \<in> snd ` set (checkpoints s')"
    then obtain c where "c \<in> set (saCheckpoints st)" "p = importCheckpoint c"
      using import_checkpoint_set [of "saCheckpoints st"] by (auto simp: f)
    with val show "point_ok (names_of (authored s)) p"
      by (simp add: validateState_iff all_fresh_iff names_of_def point_import_ok)
  qed
  have "history_ok (version s') (events s')"
    using val by (simp add: validateState_iff validStateHistory_iff f restore_fields(2) [OF assms(2)])
  moreover have "gm_wf (checkpoints s')"
    by (simp add: f importCheckpoints_def gm_import_wf)
  ultimately show ?thesis
    using assms(1) start cps restore_point_ok [OF assms(2)] restore_actions_ok [OF assms(2)]
    by (simp add: store_inv_def clock_ok_def f)
qed

text \<open>Restoring what a store exported gives its state back.\<close>

lemma restore_export:
  assumes inv: "store_inv s" and same: "names_of (authored t) = names_of (authored s)"
  shows "\<exists>t'. RestoreState (ExportState s) (\<lambda>x. x) t = (None, t') \<and> events t' = events s \<and>
    core t' = core (s\<lparr>authored := authored t, now := now t\<rparr>)"
proof -
  have "validateState (ExportState s) (authoredInterfaces t) = None"
    using inv same by (rule export_valid)
  then obtain t' where t': "RestoreState (ExportState s) (\<lambda>x. x) t = (None, t')"
    by (simp add: RestoreState_alone Let_def)
  note f = restore_fields(2-) [OF t']
  have pt: "point_ok (names_of (authored s)) (currentCheckpoint s)"
    and cps: "gm_wf (checkpoints s)" "\<forall>p \<in> snd ` set (checkpoints s). point_ok (names_of (authored s)) p"
    and cons: "gm_wf (consumedActions s)"
    using inv by (auto simp: store_inv_def actions_ok_def assoc_ok_def)
  have "importCheckpoint (exportCheckpoint [] (currentCheckpoint s)) = currentCheckpoint s"
    using pt by (rule point_reimport)
  then have tabs: "importInterfaceFaults (sortedInterfaceFaults (faults s)) = faults s"
    "importAddressFaults (sortedAddressFaults (addressFaults s)) = addressFaults s"
    "importPrefixFaults (sortedPrefixFaults (prefixFaults s)) = prefixFaults s"
    "importDeviceFaults (sortedDeviceFaults (deviceFaults s)) = deviceFaults s"
    "importStations (sortedStations (stations s)) = stations s"
    "importRadioTxPowers (sortedRadioTxPowers (radioTxPower s)) = radioTxPower s"
    by (simp_all add: currentCheckpoint_def exportCheckpoint_def importCheckpoint_def)
  have "core t' = core (s\<lparr>authored := authored t, now := now t\<rparr>)"
    using f checkpoints_reimport [OF cps] consumed_reimport [OF cons] tabs
    by (simp add: core_def ExportState_def)
  moreover have "events t' = events s"
    by (simp add: restore_fields(2) [OF t'] ExportState_def)
  ultimately show ?thesis using t' by blast
qed

end
