(* ===== verification/Device_Machine.thy ===== *)
theory Device_Machine
  imports Device_Inv
begin

text \<open>
  The device store as a machine: one constructor of \<open>op\<close> per operation of the package, \<open>step\<close>
  applying it, \<open>permitted\<close> what its caller has to respect.  The invariant splits into a part over
  configuration, faults, stations and checkpoints (\<open>body_inv\<close>) and one over the journal
  (\<open>journal_inv\<close>); \<open>commit_inv\<close> carries the operations, which all end in "bump the version and
  record an event".  The locale \<open>guarded_machine\<close> is interpreted here, so that the invariant
  holds along every permitted run.
\<close>

section \<open>Operations\<close>

datatype op =
    OpSetInterfaceFault string string int | OpClearInterfaceFaults string | OpClearAllFaults
  | OpSetDeviceFault string int | OpSetDeviceAddressFault string Addr | OpClearDeviceFault string
  | OpClearDeviceFaults | OpSetInterfaceAddressFault InterfaceAddressFault
  | OpClearInterfaceAddressFault string string | OpSetInterfacePrefixFault InterfacePrefixFault
  | OpClearInterfacePrefixFault string string | OpUpdateIdentity "Identity \<Rightarrow> derror + Identity"
  | OpUpdateInterface string "Interface \<Rightarrow> derror + Interface" | OpReplaceNetwork Network
  | OpUpsertRoute Route | OpEnsureVLAN int | OpUpdateVLAN int "VLAN \<Rightarrow> VLAN"
  | OpEnsureRouter string string | OpAddRouterNetwork string string RouterNetwork
  | OpSaveStartup | OpReloadStartup | OpResetAuthored | OpEraseStartup
  | OpSaveCheckpoint string | OpRestoreCheckpoint string | OpExecuteDeviceAction string string
  | OpInstallStations "Station list" | OpAssociateStation Station | OpRoamStation string
  | OpSetRadioTxPower string int | OpRestoreRadioTxPower string | OpRestoreState State
  | OpSetChangeObserver bool | OpSetChangeSignal "bool option" | OpReceiveChange

fun step :: "op \<Rightarrow> Store \<Rightarrow> Store" where
  "step (OpSetInterfaceFault i t v) s = snd (SetInterfaceFault i t v s)"
| "step (OpClearInterfaceFaults i) s = snd (ClearInterfaceFaults i s)"
| "step OpClearAllFaults s = ClearAllFaults s"
| "step (OpSetDeviceFault t v) s = snd (SetDeviceFault t v s)"
| "step (OpSetDeviceAddressFault t a) s = snd (SetDeviceAddressFault t a s)"
| "step (OpClearDeviceFault t) s = snd (ClearDeviceFault t s)"
| "step OpClearDeviceFaults s = ClearDeviceFaults s"
| "step (OpSetInterfaceAddressFault f) s = snd (SetInterfaceAddressFault f s)"
| "step (OpClearInterfaceAddressFault i k) s = snd (ClearInterfaceAddressFault i k s)"
| "step (OpSetInterfacePrefixFault f) s = snd (SetInterfacePrefixFault f s)"
| "step (OpClearInterfacePrefixFault i k) s = snd (ClearInterfacePrefixFault i k s)"
| "step (OpUpdateIdentity f) s = snd (UpdateIdentity f (\<lambda>x. x) s)"
| "step (OpUpdateInterface n f) s = snd (UpdateInterface n f (\<lambda>x. x) s)"
| "step (OpReplaceNetwork n) s = ReplaceNetwork n s"
| "step (OpUpsertRoute r) s = UpsertRoute r s"
| "step (OpEnsureVLAN i) s = EnsureVLAN i s"
| "step (OpUpdateVLAN i f) s = snd (UpdateVLAN i f (\<lambda>x. x) s)"
| "step (OpEnsureRouter p i) s = EnsureRouter p i s"
| "step (OpAddRouterNetwork p i n) s = AddRouterNetwork p i n s"
| "step OpSaveStartup s = SaveStartup s"
| "step OpReloadStartup s = ReloadStartup s"
| "step OpResetAuthored s = ResetAuthored s"
| "step OpEraseStartup s = EraseStartup s"
| "step (OpSaveCheckpoint n) s = SaveCheckpoint n s"
| "step (OpRestoreCheckpoint n) s = snd (RestoreCheckpoint n s)"
| "step (OpExecuteDeviceAction k i) s = snd (ExecuteDeviceAction k i s)"
| "step (OpInstallStations sts) s = snd (InstallStations sts s)"
| "step (OpAssociateStation st) s = snd (AssociateStation st s)"
| "step (OpRoamStation m) s = snd (RoamStation m s)"
| "step (OpSetRadioTxPower i d) s = snd (SetRadioTxPower i d s)"
| "step (OpRestoreRadioTxPower i) s = RestoreRadioTxPower i s"
| "step (OpRestoreState st) s = snd (RestoreState st (\<lambda>x. x) s)"
| "step (OpSetChangeObserver b) s = SetChangeObserver b s"
| "step (OpSetChangeSignal c) s = SetChangeSignal c s"
| "step OpReceiveChange s = receiveChange s"

text \<open>
  What the invariant asks of an operation's caller, because the operation itself does not check it: versions do not run
  out, a network is reinstalled only with the same (distinct) interface names once anything refers to them, and stations
  name one of the device's interfaces.  The store alone does not enforce it; \<open>AssociateStation\<close> and \<open>InstallStations\<close> take
  any non-empty radio name, and it is the configuration's validator (\<open>validateWiFiRadioInterface\<close>) that asks a radio to be
  one of the device's interfaces.  The start-up of the stack, which installs the authored stations before there are
  interfaces, is not a permitted run but \<open>registerDeviceState\<close> below, and has its own lemma (\<open>start_inv\<close>).
\<close>

definition pristine :: "Store \<Rightarrow> bool" where
  "pristine s \<longleftrightarrow> faults s = [] \<and> addressFaults s = [] \<and> prefixFaults s = [] \<and> stations s = [] \<and>
     radioTxPower s = [] \<and> checkpoints s = []"

definition room :: "Store \<Rightarrow> bool" where
  "room s \<longleftrightarrow> unat (version s) + length (runningInterfaces s) + 2 < 2 ^ 64"

definition permitted :: "op \<Rightarrow> Store \<Rightarrow> bool" where
  "permitted x s \<longleftrightarrow> room s \<and>
     (case x of
        OpReplaceNetwork n \<Rightarrow> distinct (map ifName (nwInterfaces n)) \<and>
          (map ifName (nwInterfaces n) = names_of (authored s) \<or> pristine s)
      | OpAssociateStation st \<Rightarrow> stRadio st \<in> set (names_of (authored s))
      | OpInstallStations sts \<Rightarrow> (\<forall>st \<in> set sts. stRadio st \<in> set (names_of (authored s)))
      | _ \<Rightarrow> True)"

text \<open>
  How the stack builds the store of a device: the authored stations are installed into the new store, an error being only
  logged, and the observer is set.  \<open>configureDeviceStates\<close> then replaces the network of every store.
\<close>

definition registerDeviceState :: "Identity \<Rightarrow> Station list \<Rightarrow> (nat \<Rightarrow> int) \<Rightarrow> Store" where
  "registerDeviceState identity authoredStations clock =
     (let store = NewStore identity clock;
          (_, store') = InstallStations authoredStations store
      in SetChangeObserver True store')"

section \<open>Splitting the invariant\<close>

definition body_inv :: "Store \<Rightarrow> bool" where
  "body_inv s \<longleftrightarrow>
     clock_ok s \<and> distinct (names_of (authored s)) \<and> names_of (startup s) = names_of (authored s) \<and>
     point_ok (names_of (authored s)) (currentCheckpoint s) \<and>
     gm_wf (checkpoints s) \<and> (\<forall>p \<in> snd ` set (checkpoints s). point_ok (names_of (authored s)) p) \<and>
     assoc_ok action_ok (consumedActions s) \<and> length (consumedActions s) \<le> maxConsumedDeviceActions \<and>
     telemetry_backed (consumedActions s) (telemetry s) \<and>
     (\<forall>p \<in> snd ` set (checkpoints s). telemetry_backed (consumedActions s) (cpTelemetry p))"

definition journal_inv :: "Store \<Rightarrow> bool" where
  "journal_inv s \<longleftrightarrow> history_ok (version s) (events s) \<and> (\<forall>e \<in> set (events s). event_backed (consumedActions s) e)"

lemma store_inv_split: "store_inv s \<longleftrightarrow> body_inv s \<and> journal_inv s"
  by (auto simp: store_inv_def body_inv_def journal_inv_def actions_ok_def)

lemma body_inv_core:
  assumes "core s = core t"
  shows "body_inv s = body_inv t"
  using core_eqD [OF assms] by (simp add: body_inv_def clock_ok_def currentCheckpoint_def)

lemma body_inv_record [simp]:
  "body_inv (recordEvent k tg s) = body_inv s"
  "body_inv (recordInterfaceEvent i p c s) = body_inv s"
  "body_inv (signalChange s) = body_inv s"
  "body_inv (appendEvent e s) = body_inv s"
  by (rule body_inv_core, rule store_frame)+

lemma bumpVersion_fields [simp]:
  "running (bumpVersion s) = running s" "startup (bumpVersion s) = startup s"
  "authored (bumpVersion s) = authored s" "version (bumpVersion s) = version s + 1"
  "events (bumpVersion s) = events s" "checkpoints (bumpVersion s) = checkpoints s"
  "faults (bumpVersion s) = faults s" "addressFaults (bumpVersion s) = addressFaults s"
  "prefixFaults (bumpVersion s) = prefixFaults s" "deviceFaults (bumpVersion s) = deviceFaults s"
  "now (bumpVersion s) = now s" "telemetry (bumpVersion s) = telemetry s"
  "consumedActions (bumpVersion s) = consumedActions s" "stations (bumpVersion s) = stations s"
  "radioTxPower (bumpVersion s) = radioTxPower s" "changeObserver (bumpVersion s) = changeObserver s"
  "ticks (bumpVersion s) = ticks s" "interfaceTransitions (bumpVersion s) = interfaceTransitions s"
  by (simp_all add: bumpVersion_def)

lemma body_inv_bump [simp]: "body_inv (bumpVersion s) = body_inv s"
  by (simp add: body_inv_def clock_ok_def currentCheckpoint_def)

section \<open>The journal\<close>

lemma plain_kinds [simp]:
  "EventNetworkInstalled \<noteq> EventDeviceRebooted" "EventNetworkInstalled \<noteq> EventSTPTopologyChanged"
  "EventIdentityUpdated \<noteq> EventDeviceRebooted" "EventIdentityUpdated \<noteq> EventSTPTopologyChanged"
  "EventInterfaceUpdated \<noteq> EventDeviceRebooted" "EventInterfaceUpdated \<noteq> EventSTPTopologyChanged"
  "EventStartupSaved \<noteq> EventDeviceRebooted" "EventStartupSaved \<noteq> EventSTPTopologyChanged"
  "EventStartupReloaded \<noteq> EventDeviceRebooted" "EventStartupReloaded \<noteq> EventSTPTopologyChanged"
  "EventStartupErased \<noteq> EventDeviceRebooted" "EventStartupErased \<noteq> EventSTPTopologyChanged"
  "EventAuthoredReset \<noteq> EventDeviceRebooted" "EventAuthoredReset \<noteq> EventSTPTopologyChanged"
  "EventCheckpointSaved \<noteq> EventDeviceRebooted" "EventCheckpointSaved \<noteq> EventSTPTopologyChanged"
  "EventCheckpointRestored \<noteq> EventDeviceRebooted" "EventCheckpointRestored \<noteq> EventSTPTopologyChanged"
  "EventVLANUpdated \<noteq> EventDeviceRebooted" "EventVLANUpdated \<noteq> EventSTPTopologyChanged"
  "EventRouterUpdated \<noteq> EventDeviceRebooted" "EventRouterUpdated \<noteq> EventSTPTopologyChanged"
  "EventRouteUpdated \<noteq> EventDeviceRebooted" "EventRouteUpdated \<noteq> EventSTPTopologyChanged"
  "EventFaultUpdated \<noteq> EventDeviceRebooted" "EventFaultUpdated \<noteq> EventSTPTopologyChanged"
  "EventFaultCleared \<noteq> EventDeviceRebooted" "EventFaultCleared \<noteq> EventSTPTopologyChanged"
  "EventDeviceFaultUpdated \<noteq> EventDeviceRebooted" "EventDeviceFaultUpdated \<noteq> EventSTPTopologyChanged"
  "EventDeviceFaultCleared \<noteq> EventDeviceRebooted" "EventDeviceFaultCleared \<noteq> EventSTPTopologyChanged"
  "EventStationAssociated \<noteq> EventDeviceRebooted" "EventStationAssociated \<noteq> EventSTPTopologyChanged"
  "EventStationRoamed \<noteq> EventDeviceRebooted" "EventStationRoamed \<noteq> EventSTPTopologyChanged"
  "EventRadioUpdated \<noteq> EventDeviceRebooted" "EventRadioUpdated \<noteq> EventSTPTopologyChanged"
  "EventDeviceRebooted \<noteq> EventSTPTopologyChanged" "EventSTPTopologyChanged \<noteq> EventDeviceRebooted"
  by (simp_all add: event_kind_defs)

lemma history_push:
  assumes "history_ok v es" "v \<le> w" "w \<noteq> - 1" "evVersion e = w"
  shows "history_ok w (push_bounded maxEventHistory e es)"
proof -
  have le: "evVersion x \<noteq> 0 \<and> evVersion x \<le> w" if "x \<in> set es" for x
    using assms(1,2) that by (auto simp: history_ok_def)
  have "w \<noteq> 0" using assms(1,2) by (auto simp: history_ok_def word_le_0_iff)
  have "sorted_wrt (\<lambda>x y. evVersion x \<le> evVersion y) (push_bounded maxEventHistory e es)"
    using assms(1,4) le by (intro sorted_push_bounded) (auto simp: history_ok_def sorted_wrt_map)
  moreover have "length (push_bounded maxEventHistory e es) \<le> maxEventHistory"
    using assms(1) by (intro length_push_bounded) (auto simp: history_ok_def maxEventHistory_def)
  moreover have "evVersion x \<noteq> 0 \<and> evVersion x \<le> w" if "x \<in> set (push_bounded maxEventHistory e es)" for x
    using that set_push_bounded [of maxEventHistory e es] le assms(4) \<open>w \<noteq> 0\<close> by auto
  ultimately show ?thesis
    using assms(3) \<open>w \<noteq> 0\<close> by (simp add: history_ok_def sorted_wrt_map)
qed

lemma word_bump:
  assumes "unat (v :: 64 word) + 2 < 2 ^ 64"
  shows "v \<le> v + 1" "v + 1 \<noteq> - 1" "unat (v + 1) = Suc (unat v)"
proof -
  show u: "unat (v + 1) = Suc (unat v)"
    using assms by (intro unat_Suc_word) simp
  show "v + 1 \<noteq> - 1"
  proof
    assume "v + 1 = - 1"
    then have "unat (v + 1) = unat (- 1 :: 64 word)" by (simp only:)
    also have "\<dots> = 2 ^ 64 - 1" by (simp add: unsigned_minus_1_eq_mask mask_eq_exp_minus_1)
    finally have "unat (v + 1) = 2 ^ 64 - 1" .
    with u assms show False by simp
  qed
  show "v \<le> v + 1" using u by (simp add: word_le_nat_alt)
qed

lemma journal_inv_recordEvent:
  assumes "history_ok v (events t)" "v \<le> version t" "version t \<noteq> - 1"
    and "\<forall>e \<in> set (events t). event_backed (consumedActions t) e"
    and "k \<noteq> EventDeviceRebooted" "k \<noteq> EventSTPTopologyChanged"
  shows "journal_inv (recordEvent k tg t)"
proof -
  obtain ts where ev: "events (recordEvent k tg t) = push_bounded maxEventHistory
     \<lparr>evVersion = version t, evKind = k, evTarget = tg, evInterface = None,
      evPreviousInterface = None, evInterfaceIndex = 0, evTimestamp = ts\<rparr> (events t)" (is "_ = push_bounded _ ?e _")
    using events_recordEvent by blast
  have "history_ok (version t) (push_bounded maxEventHistory ?e (events t))"
    using assms(1-3) by (rule history_push) simp
  moreover have "event_backed (consumedActions t) ?e"
    using assms(5,6) by (simp add: event_backed_def)
  ultimately show ?thesis
    using assms(4) set_push_bounded [of maxEventHistory ?e "events t"]
    unfolding journal_inv_def ev recordEvent_fields by blast
qed

lemma journal_inv_recordInterfaceEvent:
  assumes "history_ok v (events t)" "v \<le> version t" "version t \<noteq> - 1"
    and "\<forall>e \<in> set (events t). event_backed (consumedActions t) e"
  shows "journal_inv (recordInterfaceEvent i p c t)"
proof -
  obtain ts where ev: "events (recordInterfaceEvent i p c t) = push_bounded maxEventHistory
     \<lparr>evVersion = version t, evKind = EventInterfaceUpdated, evTarget = ifName c, evInterface = Some c,
      evPreviousInterface = Some p, evInterfaceIndex = int i, evTimestamp = ts\<rparr> (events t)" (is "_ = push_bounded _ ?e _")
    using events_recordInterfaceEvent by blast
  have "history_ok (version t) (push_bounded maxEventHistory ?e (events t))"
    using assms(1-3) by (rule history_push) simp
  moreover have "event_backed (consumedActions t) ?e"
    by (simp add: event_backed_def)
  ultimately show ?thesis
    using assms(4) set_push_bounded [of maxEventHistory ?e "events t"]
    unfolding journal_inv_def ev recordInterfaceEvent_fields by blast
qed

lemma commit_inv:
  assumes "body_inv t" "journal_inv t" "unat (version t) + 2 < 2 ^ 64"
    and "k \<noteq> EventDeviceRebooted" "k \<noteq> EventSTPTopologyChanged"
  shows "store_inv (recordEvent k tg (bumpVersion t))"
proof -
  have "journal_inv (recordEvent k tg (bumpVersion t))"
    using assms(2,4,5) word_bump [OF assms(3)]
    by (intro journal_inv_recordEvent [of "version t"]) (simp_all add: journal_inv_def)
  with assms(1) show ?thesis
    by (simp add: store_inv_split)
qed

lemma commit_interface_inv:
  assumes "body_inv t" "journal_inv t" "unat (version t) + 2 < 2 ^ 64"
  shows "store_inv (recordInterfaceEvent i p c (bumpVersion t))"
proof -
  have "journal_inv (recordInterfaceEvent i p c (bumpVersion t))"
    using assms(2) word_bump [OF assms(3)]
    by (intro journal_inv_recordInterfaceEvent [of "version t"]) (simp_all add: journal_inv_def)
  with assms(1) show ?thesis
    by (simp add: store_inv_split)
qed

lemma carrierLoop_inv:
  "store_inv s \<Longrightarrow> unat (version s) + length bs + 1 < 2 ^ 64 \<Longrightarrow> store_inv (carrierLoop i bs as s)"
proof (induction i bs as s rule: carrierLoop.induct)
  case (1 index b bs a as s)
  let ?s = "recordInterfaceEvent (index + 1) b a (bumpVersion s)"
  have small: "unat (version s) + 2 < 2 ^ 64" using "1.prems"(2) by simp
  have "store_inv ?s"
    using "1.prems"(1) small by (intro commit_interface_inv) (auto simp: store_inv_split)
  moreover have "unat (version ?s) = Suc (unat (version s))"
    using word_bump(3) [OF small] by simp
  ultimately show ?case
    using "1.IH" "1.prems" by simp
qed simp_all

lemma changedLoop_inv: "store_inv s \<Longrightarrow> store_inv (changedLoop m i cs s)"
proof (induction m i cs s rule: changedLoop.induct)
  case (2 byName index current rest s)
  have "store_inv (recordInterfaceEvent (index + 1) before current s)" for before
  proof -
    have "journal_inv (recordInterfaceEvent (index + 1) before current s)"
      using "2.prems" by (intro journal_inv_recordInterfaceEvent [of "version s"])
        (auto simp: store_inv_def actions_ok_def history_ok_def)
    with "2.prems" show ?thesis by (simp add: store_inv_split)
  qed
  with "2.IH" "2.prems" show ?case by (simp split: option.split)
qed simp

section \<open>Field updates that keep the body of the invariant\<close>

named_theorems body_intros \<open>field updates that keep \<open>body_inv\<close>\<close>

lemma body_names: "body_inv s \<Longrightarrow> names_of (running s) = names_of (authored s)"
  by (simp add: body_inv_def point_ok_def currentCheckpoint_def)

lemma body_tables:
  assumes "body_inv s"
  shows "table_ok faultKey (fault_ok (names_of (authored s))) (faults s)"
    "table_ok addressFaultKey (addressFault_ok (names_of (authored s))) (addressFaults s)"
    "table_ok prefixFaultKey (prefixFault_ok (names_of (authored s))) (prefixFaults s)"
    "table_ok dfType validDeviceFault (deviceFaults s)"
    "table_ok stMAC (station_ok (names_of (authored s))) (stations s)"
    "assoc_ok (power_ok (names_of (authored s))) (radioTxPower s)"
  using assms by (simp_all add: body_inv_def point_ok_def currentCheckpoint_def)

lemma body_inv_faults [body_intros]:
  "body_inv s \<Longrightarrow> table_ok faultKey (fault_ok (names_of (authored s))) m \<Longrightarrow> body_inv (s\<lparr>faults := m\<rparr>)"
  "body_inv s \<Longrightarrow> table_ok addressFaultKey (addressFault_ok (names_of (authored s))) ma \<Longrightarrow>
     body_inv (s\<lparr>addressFaults := ma\<rparr>)"
  "body_inv s \<Longrightarrow> table_ok prefixFaultKey (prefixFault_ok (names_of (authored s))) mp \<Longrightarrow>
     body_inv (s\<lparr>prefixFaults := mp\<rparr>)"
  "body_inv s \<Longrightarrow> table_ok dfType validDeviceFault md \<Longrightarrow> body_inv (s\<lparr>deviceFaults := md\<rparr>)"
  "body_inv s \<Longrightarrow> table_ok stMAC (station_ok (names_of (authored s))) ms \<Longrightarrow> body_inv (s\<lparr>stations := ms\<rparr>)"
  "body_inv s \<Longrightarrow> assoc_ok (power_ok (names_of (authored s))) mr \<Longrightarrow> body_inv (s\<lparr>radioTxPower := mr\<rparr>)"
  by (simp_all add: body_inv_def clock_ok_def point_ok_def currentCheckpoint_def)

lemma body_inv_banks [body_intros]:
  "body_inv s \<Longrightarrow> names_of c = names_of (authored s) \<Longrightarrow> body_inv (s\<lparr>running := c\<rparr>)"
  "body_inv s \<Longrightarrow> names_of c = names_of (authored s) \<Longrightarrow> body_inv (s\<lparr>startup := c\<rparr>)"
  by (simp_all add: body_inv_def clock_ok_def point_ok_def currentCheckpoint_def)

lemma body_inv_checkpoint [body_intros]:
  assumes "body_inv s" "point_ok (names_of (authored s)) p" "telemetry_backed (consumedActions s) (cpTelemetry p)"
  shows "body_inv (s\<lparr>checkpoints := gm_put name p (checkpoints s)\<rparr>)"
proof -
  have "\<forall>q \<in> snd ` set (gm_put name p (checkpoints s)).
      point_ok (names_of (authored s)) q \<and> telemetry_backed (consumedActions s) (cpTelemetry q)"
    using assms snd_gm_put [of name p "checkpoints s"] unfolding body_inv_def by blast
  with assms(1) show ?thesis
    by (simp add: body_inv_def clock_ok_def currentCheckpoint_def gm_intros)
qed

lemma body_inv_restore_point [body_intros]:
  assumes "body_inv s" "map_of (checkpoints s) name = Some p"
  shows "body_inv (s\<lparr>faults := cpFaults p, addressFaults := cpAddressFaults p, prefixFaults := cpPrefixFaults p,
    deviceFaults := cpDeviceFaults p, stations := cpStations p, radioTxPower := cpRadioTxPower p,
    telemetry := cpTelemetry p\<rparr>) \<and> names_of (cpConfig p) = names_of (authored s)"
proof -
  have "p \<in> snd ` set (checkpoints s)"
    using assms(2) by (force dest: map_of_SomeD)
  then have "point_ok (names_of (authored s)) p" "telemetry_backed (consumedActions s) (cpTelemetry p)"
    using assms(1) unfolding body_inv_def by blast+
  with assms(1) show ?thesis
    by (simp add: body_inv_def clock_ok_def point_ok_def currentCheckpoint_def)
qed

lemma body_inv_network [body_intros]:
  "body_inv s \<Longrightarrow> map ifName (nwInterfaces (f (cfNetwork (running s)))) = names_of (running s) \<Longrightarrow>
     body_inv (setRunningNetwork f s)"
  unfolding setRunningNetwork_def
  by (rule body_inv_banks) (simp_all add: names_of_def body_names [unfolded names_of_def])

lemma names_of_network [simp]: "names_of (c\<lparr>cfNetwork := n\<rparr>) = map ifName (nwInterfaces n)"
  by (simp add: names_of_def)

lemma setRunningNetwork_fields [simp]:
  "version (setRunningNetwork f s) = version s" "events (setRunningNetwork f s) = events s"
  "consumedActions (setRunningNetwork f s) = consumedActions s" "authored (setRunningNetwork f s) = authored s"
  "running (setRunningNetwork f s) = (running s)\<lparr>cfNetwork := f (cfNetwork (running s))\<rparr>"
  by (simp_all add: setRunningNetwork_def)

lemma journal_inv_fields [simp]:
  "journal_inv (s\<lparr>running := c\<rparr>) = journal_inv s" "journal_inv (s\<lparr>startup := c\<rparr>) = journal_inv s"
  "journal_inv (s\<lparr>authored := c\<rparr>) = journal_inv s" "journal_inv (s\<lparr>checkpoints := cp\<rparr>) = journal_inv s"
  "journal_inv (s\<lparr>faults := m\<rparr>) = journal_inv s" "journal_inv (s\<lparr>addressFaults := ma\<rparr>) = journal_inv s"
  "journal_inv (s\<lparr>prefixFaults := mp\<rparr>) = journal_inv s" "journal_inv (s\<lparr>deviceFaults := md\<rparr>) = journal_inv s"
  "journal_inv (s\<lparr>stations := ms\<rparr>) = journal_inv s" "journal_inv (s\<lparr>radioTxPower := mr\<rparr>) = journal_inv s"
  "journal_inv (s\<lparr>telemetry := te\<rparr>) = journal_inv s" "journal_inv (setRunningNetwork f s) = journal_inv s"
  by (simp_all add: journal_inv_def)

section \<open>Fault operations\<close>

lemma carrier_commit_inv:
  assumes "body_inv t" "journal_inv t" "room t"
    and "k \<noteq> EventDeviceRebooted" "k \<noteq> EventSTPTopologyChanged"
  shows "store_inv (recordCarrierTransitions previous (recordEvent k tg (bumpVersion t)))"
proof -
  let ?t = "recordEvent k tg (bumpVersion t)"
  have small: "unat (version t) + 2 < 2 ^ 64" using assms(3) by (simp add: room_def)
  have "store_inv ?t" using assms(1,2) small assms(4,5) by (rule commit_inv)
  moreover have "unat (version ?t) = Suc (unat (version t))" using word_bump(3) [OF small] by simp
  ultimately show ?thesis
    using assms(3) unfolding recordCarrierTransitions_def
    by (intro carrierLoop_inv) (simp_all add: room_def)
qed

lemma room_small: "room s \<Longrightarrow> unat (version s) < 18446744073709551614"
  by (simp add: room_def)

lemma room_same: "room t \<Longrightarrow> version t = version s \<Longrightarrow> unat (version s) < 18446744073709551614"
  using room_small [of t] by simp

lemma room_fields [simp]:
  "room (s\<lparr>faults := m\<rparr>) = room s" "room (s\<lparr>addressFaults := ma\<rparr>) = room s"
  "room (s\<lparr>prefixFaults := mp\<rparr>) = room s"
  by (simp_all add: room_def)

lemma running_exists: "body_inv s \<Longrightarrow> interfaceExists (runningInterfaces s) n \<longleftrightarrow> n \<in> set (names_of (authored s))"
  by (simp add: interfaceExists_names body_names)

lemma SetInterfaceFault_inv:
  assumes "store_inv s" "room s"
  shows "store_inv (snd (SetInterfaceFault i t v s))"
proof -
  have b: "body_inv s" "journal_inv s" using assms(1) by (simp_all add: store_inv_split)
  have put: "table_ok faultKey (fault_ok (names_of (authored s)))
      (gm_put (i, t) \<lparr>ftInterface = i, ftType = t, ftValue = v\<rparr> (faults s))"
    if "validFaultType t" "\<not> (v < 0 \<or> 100 < v)" "v \<noteq> 0" "interfaceExists (runningInterfaces s) i"
    using that body_tables(1) [OF b(1)] running_exists [OF b(1)]
    by (intro table_intros) (auto simp: faultKey_def fault_ok_def)
  have del: "table_ok faultKey (fault_ok (names_of (authored s))) (gm_del (i, t) (faults s))"
    using body_tables(1) [OF b(1)] by (rule table_intros)
  show ?thesis
    using assms b put del unfolding SetInterfaceFault_def Let_def
    by (auto intro!: carrier_commit_inv body_intros)
qed

lemma ClearInterfaceFaults_inv:
  assumes "store_inv s" "room s"
  shows "store_inv (snd (ClearInterfaceFaults i s))"
proof -
  have b: "body_inv s" "journal_inv s" using assms(1) by (simp_all add: store_inv_split)
  let ?on = "\<lambda>k. fst k = i"
  let ?s = "s\<lparr>prefixFaults := gm_remove ?on (prefixFaults s), addressFaults := gm_remove ?on (addressFaults s),
    faults := gm_remove ?on (faults s)\<rparr>"
  have "body_inv ?s" "journal_inv ?s" "room ?s"
    using b assms(2) body_tables [OF b(1)] by (auto intro!: body_intros table_intros)
  then show ?thesis
    using assms(1) unfolding ClearInterfaceFaults_def Let_def
    by (auto intro!: carrier_commit_inv simp: store_inv_split [of s] store_inv_split [of ?s])
qed

lemma ClearAllFaults_inv: "store_inv s \<Longrightarrow> room s \<Longrightarrow> store_inv (ClearAllFaults s)"
  unfolding ClearAllFaults_def Let_def
  by (auto simp: store_inv_split [of s] intro!: carrier_commit_inv body_intros)

lemma setDeviceFault_inv:
  assumes "store_inv s" "room s" "validDeviceFault f"
  shows "store_inv (setDeviceFault f s)"
  using assms body_tables(4) [of s] unfolding setDeviceFault_def
  by (auto simp: store_inv_split [of s] room_small intro!: commit_inv body_intros table_intros)

lemma ClearDeviceFault_inv:
  assumes "store_inv s" "room s"
  shows "store_inv (snd (ClearDeviceFault k s))"
  using assms body_tables(4) [of s] unfolding ClearDeviceFault_def
  by (auto simp: store_inv_split [of s] room_small intro!: commit_inv body_intros table_intros)

lemma SetDeviceFault_inv:
  assumes "store_inv s" "room s"
  shows "store_inv (snd (SetDeviceFault t v s))"
proof (cases "deviceFaultDefinition t")
  case None
  with assms show ?thesis by (simp add: SetDeviceFault_def)
next
  case (Some d)
  have "t \<noteq> FaultDuplicateDHCPOffer" using Some deviceFaultDefinition_duplicate by auto
  then have "validDeviceFault \<lparr>dfType = t, dfValue = v, dfAddress = NoAddr\<rparr>"
    if "0 < v" "v \<le> ddMaxValue d"
    using that Some by (simp add: validDeviceFault_def)
  with Some assms show ?thesis
    by (auto simp: SetDeviceFault_def intro: setDeviceFault_inv ClearDeviceFault_inv)
qed

lemma SetDeviceAddressFault_inv:
  assumes "store_inv s" "room s"
  shows "store_inv (snd (SetDeviceAddressFault k a s))"
  using assms by (auto simp: SetDeviceAddressFault_def validDeviceFault_def intro: setDeviceFault_inv)

lemma ClearDeviceFaults_inv: "store_inv s \<Longrightarrow> room s \<Longrightarrow> store_inv (ClearDeviceFaults s)"
  unfolding ClearDeviceFaults_def
  by (auto simp: store_inv_split [of s] room_small intro!: commit_inv body_intros)

lemma SetInterfaceAddressFault_inv:
  assumes "store_inv s" "room s"
  shows "store_inv (snd (SetInterfaceAddressFault f s))"
proof -
  have b: "body_inv s" "journal_inv s" using assms(1) by (simp_all add: store_inv_split)
  have put: "table_ok addressFaultKey (addressFault_ok (names_of (authored s)))
      (gm_put (addressFaultKey f) f (addressFaults s))"
    if "afType f = FaultDuplicateIP" "ValidFaultAddress (afAddress f)"
      "interfaceExists (runningInterfaces s) (afInterface f)"
    using that body_tables(2) [OF b(1)] running_exists [OF b(1)]
    by (intro table_intros) (auto simp: addressFault_ok_def)
  show ?thesis
    using assms b put unfolding SetInterfaceAddressFault_def Let_def
    by (auto simp: room_small intro!: commit_inv body_intros)
qed

lemma ClearInterfaceAddressFault_inv:
  assumes "store_inv s" "room s"
  shows "store_inv (snd (ClearInterfaceAddressFault i k s))"
  using assms body_tables(2) [of s] unfolding ClearInterfaceAddressFault_def
  by (auto simp: store_inv_split [of s] room_small intro!: commit_inv body_intros table_intros)

lemma SetInterfacePrefixFault_inv:
  assumes "store_inv s" "room s"
  shows "store_inv (snd (SetInterfacePrefixFault f s))"
proof -
  have b: "body_inv s" "journal_inv s" using assms(1) by (simp_all add: store_inv_split)
  have put: "table_ok prefixFaultKey (prefixFault_ok (names_of (authored s)))
      (gm_put (prefixFaultKey f) f (prefixFaults s))"
    if "pfType f = FaultBadMask" "0 \<le> pfPrefixBits f" "pfPrefixBits f \<le> 32"
      "index_of (\<lambda>i. ifName i = pfInterface f) (runningInterfaces s) = Some n" for n
  proof -
    have "pfInterface f \<in> set (names_of (running s))"
      using index_of_Some [OF that(4)] by (metis names_of_def nth_mem image_eqI set_map)
    then show ?thesis
      using that(1-3) body_tables(3) [OF b(1)] body_names [OF b(1)]
      by (intro table_intros) (auto simp: prefixFault_ok_def)
  qed
  show ?thesis
    using assms b put unfolding SetInterfacePrefixFault_def Let_def
    by (auto simp: room_small intro!: commit_inv body_intros split: option.splits)
qed

lemma ClearInterfacePrefixFault_inv:
  assumes "store_inv s" "room s"
  shows "store_inv (snd (ClearInterfacePrefixFault i k s))"
  using assms body_tables(3) [of s] unfolding ClearInterfacePrefixFault_def
  by (auto simp: store_inv_split [of s] room_small intro!: commit_inv body_intros table_intros)

section \<open>Configuration, lifecycle and checkpoints\<close>

text \<open>
  The transactions that release the lock are taken with arbitrary \<open>others\<close> in the gap: if those leave a sound store of the
  same interfaces, so does the transaction, even where a restored record brought the old version number back.
\<close>

lemma UpdateIdentity_gap_inv:
  assumes "store_inv (others s)" "room (others s)"
  shows "store_inv (snd (UpdateIdentity f others s))"
  using assms body_names [of "others s"] unfolding UpdateIdentity_def Let_def
  by (auto simp: store_inv_split [of "others s"] room_same [OF assms(2)] names_of_def split: sum.splits
      intro!: commit_inv body_intros)

lemma UpdateIdentity_inv:
  assumes "store_inv s" "room s"
  shows "store_inv (snd (UpdateIdentity f (\<lambda>x. x) s))"
  using assms by (intro UpdateIdentity_gap_inv)

lemma map_ifName_update:
  "n < length ifs \<Longrightarrow> ifName x = ifName (ifs ! n) \<Longrightarrow> map ifName (ifs[n := x]) = map ifName ifs"
  by (metis list_update_id map_update)

lemma UpdateInterface_gap_inv:
  assumes "store_inv s" "store_inv (others s)" "room (others s)" "authored (others s) = authored s"
  shows "store_inv (snd (UpdateInterface n f others s))"
proof (cases "index_of (\<lambda>i. ifName i = n) (runningInterfaces s)")
  case None
  with assms show ?thesis by (simp add: UpdateInterface_def)
next
  case (Some k)
  have b: "body_inv s" "body_inv (others s)" "journal_inv (others s)" using assms(1,2) by (simp_all add: store_inv_split)
  then have same: "map ifName (runningInterfaces (others s)) = map ifName (runningInterfaces s)"
    using assms(4) body_names unfolding names_of_def by metis
  then have len: "length (runningInterfaces (others s)) = length (runningInterfaces s)" by (metis length_map)
  have "ifName (runningInterfaces (others s) ! k) = ifName (runningInterfaces s ! k)"
    using same len index_of_Some [OF Some] by (metis nth_map)
  then have names: "map ifName ((runningInterfaces (others s))[k := x]) = names_of (running (others s))"
    if "ifName x = ifName (runningInterfaces s ! k)" for x
    using that index_of_Some [OF Some] len by (simp add: map_ifName_update names_of_def)
  show ?thesis
    using assms b names unfolding UpdateInterface_def Let_def Some
    by (auto simp: room_same [OF assms(3)] split: sum.splits intro!: commit_interface_inv body_intros)
qed

lemma UpdateInterface_inv:
  assumes "store_inv s" "room s"
  shows "store_inv (snd (UpdateInterface n f (\<lambda>x. x) s))"
  using assms by (intro UpdateInterface_gap_inv) simp_all

lemma UpsertRoute_inv: "store_inv s \<Longrightarrow> room s \<Longrightarrow> store_inv (UpsertRoute r s)"
  unfolding UpsertRoute_def Let_def
  by (rule commit_inv) (auto simp: store_inv_split room_small names_of_def intro!: body_intros)

lemma EnsureVLAN_inv: "store_inv s \<Longrightarrow> room s \<Longrightarrow> store_inv (EnsureVLAN i s)"
  unfolding EnsureVLAN_def
  by (auto simp: store_inv_split [of s] room_small names_of_def intro!: commit_inv body_intros)

lemma UpdateVLAN_gap_inv:
  assumes "store_inv s" "store_inv (others s)" "room (others s)"
  shows "store_inv (snd (UpdateVLAN i f others s))"
  using assms unfolding UpdateVLAN_def Let_def
  by (auto simp: store_inv_split [of "others s"] room_same [OF assms(3)] names_of_def split: option.splits
      intro!: commit_inv body_intros)

lemma UpdateVLAN_inv: "store_inv s \<Longrightarrow> room s \<Longrightarrow> store_inv (snd (UpdateVLAN i f (\<lambda>x. x) s))"
  by (intro UpdateVLAN_gap_inv)

lemma EnsureRouter_inv: "store_inv s \<Longrightarrow> room s \<Longrightarrow> store_inv (EnsureRouter p i s)"
  unfolding EnsureRouter_def
  by (auto simp: store_inv_split [of s] room_small names_of_def intro!: commit_inv body_intros)

lemma AddRouterNetwork_inv: "store_inv s \<Longrightarrow> room s \<Longrightarrow> store_inv (AddRouterNetwork p i n s)"
  unfolding AddRouterNetwork_def Let_def
  by (auto simp: store_inv_split [of s] room_small names_of_def split: option.splits
      intro!: commit_inv body_intros)

lemma replaceRunning_inv:
  assumes "body_inv s" "journal_inv s" "unat (version s) < 18446744073709551614"
    and "names_of c = names_of (authored s)"
    and "k \<noteq> EventDeviceRebooted" "k \<noteq> EventSTPTopologyChanged"
  shows "store_inv (replaceRunning c k tg s)"
  unfolding replaceRunning_def Let_def recordChangedInterfaceEvents_def
  using assms by (intro changedLoop_inv commit_inv) (auto simp: room_small intro: body_intros)

lemma SaveStartup_inv: "store_inv s \<Longrightarrow> room s \<Longrightarrow> store_inv (SaveStartup s)"
  unfolding SaveStartup_def
  by (rule commit_inv) (auto simp: store_inv_split room_small body_names intro!: body_intros)

lemma EraseStartup_inv: "store_inv s \<Longrightarrow> room s \<Longrightarrow> store_inv (EraseStartup s)"
  unfolding EraseStartup_def
  by (rule commit_inv) (auto simp: store_inv_split room_small intro!: body_intros)

lemma ReloadStartup_inv: "store_inv s \<Longrightarrow> room s \<Longrightarrow> store_inv (ReloadStartup s)"
  unfolding ReloadStartup_def
  by (rule replaceRunning_inv) (auto simp: store_inv_split room_small body_inv_def)

lemma store_inv_startup:
  "store_inv s \<Longrightarrow> names_of c = names_of (authored s) \<Longrightarrow> store_inv (s\<lparr>startup := c\<rparr>)"
  by (auto simp: store_inv_split intro: body_intros)

lemma ResetAuthored_inv: "store_inv s \<Longrightarrow> room s \<Longrightarrow> store_inv (ResetAuthored s)"
  unfolding ResetAuthored_def Let_def
  by (rule store_inv_startup, rule replaceRunning_inv) (auto simp: store_inv_split room_small)

lemma SaveCheckpoint_inv:
  assumes "store_inv s" "room s"
  shows "store_inv (SaveCheckpoint n s)"
proof -
  have "body_inv (s\<lparr>checkpoints := gm_put n (currentCheckpoint s) (checkpoints s)\<rparr>)"
    using assms(1) by (intro body_intros) (auto simp: store_inv_split body_inv_def currentCheckpoint_def)
  with assms show ?thesis
    unfolding SaveCheckpoint_def currentCheckpoint_def cloneConfiguration_id
    by (intro commit_inv) (auto simp: store_inv_split room_small)
qed

lemma RestoreCheckpoint_inv:
  assumes "store_inv s" "room s"
  shows "store_inv (snd (RestoreCheckpoint n s))"
proof (cases "map_of (checkpoints s) n")
  case None
  with assms show ?thesis by (simp add: RestoreCheckpoint_def)
next
  case (Some p)
  have "body_inv s" using assms(1) by (simp add: store_inv_split)
  note pt = body_inv_restore_point [OF this Some]
  show ?thesis
    unfolding RestoreCheckpoint_def Some option.case snd_conv
    using assms pt by (intro replaceRunning_inv) (auto simp: store_inv_split room_small)
qed

lemma point_ok_bare:
  assumes "point_ok names p" "cpFaults p = []" "cpAddressFaults p = []" "cpPrefixFaults p = []"
    "cpStations p = []" "cpRadioTxPower p = []" "names_of c = names'"
  shows "point_ok names' (p\<lparr>cpConfig := c\<rparr>)"
  using assms by (simp add: point_ok_def)

lemma ReplaceNetwork_inv:
  assumes "store_inv s" "room s" "distinct (map ifName (nwInterfaces n))"
    and names: "map ifName (nwInterfaces n) = names_of (authored s) \<or> pristine s"
  shows "store_inv (ReplaceNetwork n s)"
proof -
  let ?ifs = "map (\<lambda>i. if ifOperUp i then i\<lparr>ifCarrierUp := True\<rparr> else i) (nwInterfaces n)"
  let ?n = "n\<lparr>nwInterfaces := ?ifs\<rparr>"
  let ?t = "s\<lparr>running := (running s)\<lparr>cfNetwork := ?n\<rparr>, startup := (startup s)\<lparr>cfNetwork := ?n\<rparr>,
    authored := (authored s)\<lparr>cfNetwork := ?n\<rparr>\<rparr>"
  have eq: "map ifName ?ifs = map ifName (nwInterfaces n)" by simp
  have b: "body_inv s" using assms(1) by (simp add: store_inv_split)
  have "point_ok (map ifName (nwInterfaces n)) (currentCheckpoint ?t)"
    using b names unfolding body_inv_def pristine_def
    by (auto simp: point_ok_def currentCheckpoint_def comp_def if_distrib cong: if_cong)
  moreover have "\<forall>p \<in> snd ` set (checkpoints s). point_ok (map ifName (nwInterfaces n)) p"
    using b names by (auto simp: body_inv_def pristine_def)
  ultimately have "body_inv ?t"
    using b assms(3) eq unfolding body_inv_def
    by (simp add: clock_ok_def currentCheckpoint_def del: map_map)
  with assms(1,2) show ?thesis
    unfolding ReplaceNetwork_def Let_def cloneNetwork_id
    by (intro commit_inv) (auto simp: store_inv_split room_small)
qed

section \<open>One-shot actions\<close>

lemma count_actions_put:
  "map_of m i = None \<Longrightarrow> count_actions k (gm_put i kind m) = count_actions k m + (if kind = k then 1 else 0)"
  by (simp add: count_actions_def filter_gm_put map_of_eq_None_iff)

lemma telemetry_backed_put:
  "map_of m i = None \<Longrightarrow> telemetry_backed m t \<Longrightarrow> telemetry_backed (gm_put i kind m) t"
  by (auto simp: telemetry_backed_def count_actions_put)

lemma event_backed_put: "map_of m i = None \<Longrightarrow> event_backed m e \<Longrightarrow> event_backed (gm_put i kind m) e"
  by (auto simp: event_backed_def gm_simps)

lemma unat_incr_le: "unat (w + 1 :: 32 word) \<le> Suc (unat w)"
  using unat_word_ariths(1) [of w 1] by simp

lemma telemetry_backed_reboot:
  "map_of m i = None \<Longrightarrow> telemetry_backed m t \<Longrightarrow>
     telemetry_backed (gm_put i ActionReboot m) (t\<lparr>RebootedAt := x\<rparr>)"
  by (auto simp: telemetry_backed_def count_actions_put)

lemma telemetry_backed_stp:
  "map_of m i = None \<Longrightarrow> telemetry_backed m t \<Longrightarrow>
     telemetry_backed (gm_put i ActionSTPTopologyChange m) (t\<lparr>STPChanges := STPChanges t + 1, STPChangedAt := x\<rparr>)"
  using unat_incr_le [of "STPChanges t"] by (auto simp: telemetry_backed_def count_actions_put)

lemma body_inv_action:
  assumes "body_inv s" "map_of (consumedActions s) i = None" "action_ok i kind"
    and "length (consumedActions s) < maxConsumedDeviceActions"
    and "validDeviceTelemetry tel" "telemetry_backed (gm_put i kind (consumedActions s)) tel"
  shows "body_inv (s\<lparr>telemetry := tel, consumedActions := gm_put i kind (consumedActions s)\<rparr>)"
proof -
  have "length (gm_put i kind (consumedActions s)) \<le> maxConsumedDeviceActions"
    using assms(2,4) by (simp add: length_gm_put map_of_eq_None_iff)
  moreover have "assoc_ok action_ok (gm_put i kind (consumedActions s))"
    using assms(1,3) by (intro table_intros) (simp_all add: body_inv_def)
  moreover have "\<forall>p \<in> snd ` set (checkpoints s). telemetry_backed (gm_put i kind (consumedActions s)) (cpTelemetry p)"
    using assms(1,2) unfolding body_inv_def by (blast intro: telemetry_backed_put)
  ultimately show ?thesis
    using assms(1,5,6) unfolding body_inv_def by (simp add: clock_ok_def point_ok_def currentCheckpoint_def)
qed

lemma journal_inv_action:
  assumes "journal_inv s" "map_of (consumedActions s) i = None" "unat (version s) < 18446744073709551614"
    and "version t = version s + 1" "events t = events s" "consumedActions t = gm_put i kind (consumedActions s)"
    and "evVersion e = version t" "event_backed (consumedActions t) e"
  shows "journal_inv (signalChange (appendEvent e t))"
proof -
  have small: "unat (version s) + 2 < 2 ^ 64" using assms(3) by simp
  have ev: "events (signalChange (appendEvent e t)) = push_bounded maxEventHistory e (events s)"
    by (simp add: store_frame events_appendEvent assms(5))
  have "history_ok (version t) (push_bounded maxEventHistory e (events s))"
    using assms(1) word_bump [OF small] unfolding assms(4)
    by (intro history_push [of "version s"]) (simp_all add: journal_inv_def assms(4,7))
  moreover have "\<forall>x \<in> set (events s). event_backed (consumedActions t) x"
    using assms(1,2) by (simp add: journal_inv_def assms(6) event_backed_put)
  ultimately show ?thesis
    unfolding journal_inv_def ev signalChange_fields appendEvent_fields
    using assms(8) set_push_bounded [of maxEventHistory e "events s"] by blast
qed

lemma ExecuteDeviceAction_inv:
  assumes "store_inv s" "room s"
  shows "store_inv (snd (ExecuteDeviceAction k i s))"
proof (cases "validDeviceAction k \<and> i \<noteq> [] \<and> length i \<le> maxDeviceActionIDLength \<and>
    map_of (consumedActions s) i = None \<and> length (consumedActions s) < maxConsumedDeviceActions")
  case False
  with assms(1) show ?thesis
    by (auto simp: ExecuteDeviceAction_def not_less split: option.splits)
next
  case True
  let ?t = "now s (ticks s)"
  let ?tel = "if k = ActionReboot then (telemetry s)\<lparr>RebootedAt := ?t\<rparr>
    else (telemetry s)\<lparr>STPChanges := STPChanges (telemetry s) + 1, STPChangedAt := ?t\<rparr>"
  let ?ek = "if k = ActionReboot then EventDeviceRebooted else EventSTPTopologyChanged"
  let ?s1 = "s\<lparr>ticks := Suc (ticks s)\<rparr>"
  let ?s2 = "bumpVersion (?s1\<lparr>telemetry := ?tel, consumedActions := gm_put i k (consumedActions ?s1)\<rparr>)"
  let ?e = "\<lparr>evVersion = version ?s2, evKind = ?ek, evTarget = i, evInterface = None,
    evPreviousInterface = None, evInterfaceIndex = 0, evTimestamp = ?t\<rparr>"
  have res: "snd (ExecuteDeviceAction k i s) = signalChange (appendEvent ?e ?s2)"
    using True by (auto simp: ExecuteDeviceAction_def readNow_def Let_def not_less)
  have kinds: "k = ActionReboot \<or> k = ActionSTPTopologyChange"
    using True by (auto simp: validDeviceAction_def)
  have b: "body_inv ?s1" "journal_inv ?s1"
    using assms(1) body_inv_core [of ?s1 s] by (simp_all add: store_inv_split journal_inv_def)
  have t: "unixEpoch \<le> ?t" "0 < unixEpoch"
    using assms(1) by (simp_all add: store_inv_def clock_ok_def unixEpoch_def)
  have tel: "validDeviceTelemetry (telemetry s)" "telemetry_backed (consumedActions s) (telemetry s)"
    using assms(1) by (simp_all add: store_inv_def point_ok_def currentCheckpoint_def actions_ok_def)
  have "validDeviceTelemetry ?tel"
    using tel(1) t by (simp add: validDeviceTelemetry_def split: if_splits)
  moreover have "telemetry_backed (gm_put i k (consumedActions s)) ?tel"
    using kinds True tel(2) by (auto simp: telemetry_backed_reboot telemetry_backed_stp)
  ultimately have "body_inv (?s1\<lparr>telemetry := ?tel, consumedActions := gm_put i k (consumedActions ?s1)\<rparr>)"
    using b(1) True by (intro body_inv_action) (simp_all add: action_ok_def)
  moreover have "journal_inv (signalChange (appendEvent ?e ?s2))"
    using b(2) True kinds assms(2)
    by (intro journal_inv_action [of ?s1 i _ k]) (auto simp: room_small event_backed_def gm_simps)
  ultimately show ?thesis
    unfolding res by (simp add: store_inv_split)
qed

section \<open>Stations, radios, observers\<close>

lemma canonicalMAC_idem: "canonicalMAC m = Some c \<Longrightarrow> canonicalMAC c = Some c"
  by (auto simp: canonicalMAC_def stationMACLength_def ParseMAC_macString split: option.splits if_splits
      dest: ParseMAC_bounds)

lemma canonicalStation_idem: "canonicalStation st = Some c \<Longrightarrow> canonicalStation c = Some c \<and> stRadio c = stRadio st"
  by (auto simp: canonicalStation_def split: option.splits if_splits dest: canonicalMAC_idem)

lemma installLoop_ok:
  "installLoop m sts = Some m' \<Longrightarrow> table_ok stMAC (station_ok names) m \<Longrightarrow>
     \<forall>st \<in> set sts. stRadio st \<in> set names \<Longrightarrow> table_ok stMAC (station_ok names) m'"
proof (induction sts arbitrary: m)
  case (Cons st sts)
  then obtain c where c: "canonicalStation st = Some c" and rest: "installLoop (gm_put (stMAC c) c m) sts = Some m'"
    by (auto split: option.splits)
  have "station_ok names c"
    using canonicalStation_idem [OF c] Cons.prems(3) by (simp add: station_ok_def)
  then show ?case
    using Cons.prems(2,3) by (intro Cons.IH [OF rest] table_intros) auto
qed simp

lemma InstallStations_inv:
  assumes "store_inv s" "\<forall>st \<in> set sts. stRadio st \<in> set (names_of (authored s))"
  shows "store_inv (snd (InstallStations sts s))"
  using assms by (auto simp: InstallStations_def store_inv_split split: option.splits
      intro!: body_intros dest: installLoop_ok)

lemma AssociateStation_inv:
  assumes "store_inv s" "room s" "stRadio st \<in> set (names_of (authored s))"
  shows "store_inv (snd (AssociateStation st s))"
proof (cases "canonicalStation st")
  case None
  with assms show ?thesis by (simp add: AssociateStation_def)
next
  case (Some c)
  have "station_ok (names_of (authored s)) c"
    using canonicalStation_idem [OF Some] assms(3) by (simp add: station_ok_def)
  then show ?thesis
    using assms body_tables(5) [of s] unfolding AssociateStation_def Some
    by (auto simp: store_inv_split [of s] room_small intro!: commit_inv body_intros table_intros)
qed

lemma RoamStation_inv: "store_inv s \<Longrightarrow> room s \<Longrightarrow> store_inv (snd (RoamStation m s))"
  using body_tables(5) [of s] unfolding RoamStation_def
  by (auto simp: store_inv_split [of s] room_small split: option.splits
      intro!: commit_inv body_intros table_intros)

lemma SetRadioTxPower_inv: "store_inv s \<Longrightarrow> room s \<Longrightarrow> store_inv (snd (SetRadioTxPower i d s))"
  using body_tables(6) [of s] running_exists [of s i] unfolding SetRadioTxPower_def
  by (auto simp: store_inv_split [of s] room_small power_ok_def intro!: commit_inv body_intros table_intros)

lemma RestoreRadioTxPower_inv: "store_inv s \<Longrightarrow> room s \<Longrightarrow> store_inv (RestoreRadioTxPower i s)"
  using body_tables(6) [of s] unfolding RestoreRadioTxPower_def
  by (auto simp: store_inv_split [of s] room_small intro!: commit_inv body_intros table_intros)

lemma RestoreState_inv: "store_inv s \<Longrightarrow> store_inv (snd (RestoreState st (\<lambda>x. x) s))"
proof (cases "RestoreState st (\<lambda>x. x) s")
  case (Pair r s')
  assume inv: "store_inv s"
  show ?thesis
  proof (cases r)
    case None
    with inv Pair show ?thesis
      using restore_inv [of s st s'] by (simp add: store_inv_def)
  next
    case (Some e)
    with Pair have "s' = s" by (auto simp: RestoreState_alone Let_def split: option.splits)
    with inv Pair show ?thesis by simp
  qed
qed

lemma notify_inv:
  "store_inv s \<Longrightarrow> store_inv (SetChangeObserver b s)"
  "store_inv s \<Longrightarrow> store_inv (SetChangeSignal c s)"
  "store_inv s \<Longrightarrow> store_inv (receiveChange s)"
  by (auto simp: store_inv_split journal_inv_def SetChangeObserver_def SetChangeSignal_def receiveChange_def
      elim: body_inv_core [THEN iffD1, rotated])

section \<open>The machine\<close>

lemmas op_invs = SetInterfaceFault_inv ClearInterfaceFaults_inv ClearAllFaults_inv SetDeviceFault_inv
  SetDeviceAddressFault_inv ClearDeviceFault_inv ClearDeviceFaults_inv SetInterfaceAddressFault_inv
  ClearInterfaceAddressFault_inv SetInterfacePrefixFault_inv ClearInterfacePrefixFault_inv
  UpdateIdentity_inv UpdateInterface_inv ReplaceNetwork_inv UpsertRoute_inv EnsureVLAN_inv UpdateVLAN_inv
  EnsureRouter_inv AddRouterNetwork_inv SaveStartup_inv ReloadStartup_inv ResetAuthored_inv
  EraseStartup_inv SaveCheckpoint_inv RestoreCheckpoint_inv ExecuteDeviceAction_inv InstallStations_inv
  AssociateStation_inv RoamStation_inv SetRadioTxPower_inv RestoreRadioTxPower_inv RestoreState_inv
  notify_inv

lemma step_keeps_inv: "store_inv s \<Longrightarrow> permitted x s \<Longrightarrow> store_inv (step x s)"
  by (cases x) (simp_all add: permitted_def op_invs)

interpretation dev: guarded_machine step permitted store_inv
  by unfold_locales (rule step_keeps_inv)

lemma NewStore_inv:
  assumes "\<And>n. unixEpoch \<le> clock n"
  shows "store_inv (NewStore i clock)"
  using assms by (simp add: store_inv_def NewStore_def clock_ok_def point_ok_def currentCheckpoint_def
      actions_ok_def history_ok_def names_of_def emptyNetwork_def zeroTelemetry_def validDeviceTelemetry_def
      telemetry_backed_def initialStoreVersion_def maxConsumedDeviceActions_def maxEventHistory_def Let_def)

text \<open>The stack's start-up: stations first, then the network whose interfaces they name.\<close>

lemma install_network_inv:
  assumes "store_inv s" "room s" "pristine s" "distinct (map ifName (nwInterfaces n))"
    and sts: "table_ok stMAC (station_ok (map ifName (nwInterfaces n))) sts"
  shows "store_inv (ReplaceNetwork n (s\<lparr>stations := sts, changeObserver := ob\<rparr>))"
proof -
  let ?ifs = "map (\<lambda>i. if ifOperUp i then i\<lparr>ifCarrierUp := True\<rparr> else i) (nwInterfaces n)"
  let ?n = "n\<lparr>nwInterfaces := ?ifs\<rparr>"
  let ?t = "s\<lparr>stations := sts, changeObserver := ob, running := (running s)\<lparr>cfNetwork := ?n\<rparr>,
    startup := (startup s)\<lparr>cfNetwork := ?n\<rparr>, authored := (authored s)\<lparr>cfNetwork := ?n\<rparr>\<rparr>"
  have eq: "map ifName ?ifs = map ifName (nwInterfaces n)" by simp
  have b: "body_inv s" and nocp: "checkpoints s = []" using assms(1,3) by (simp_all add: store_inv_split pristine_def)
  have "point_ok (map ifName (nwInterfaces n)) (currentCheckpoint ?t)"
    using b assms(3) sts unfolding body_inv_def pristine_def
    by (auto simp: point_ok_def currentCheckpoint_def comp_def if_distrib cong: if_cong)
  then have "body_inv ?t"
    using b assms(4) eq nocp unfolding body_inv_def by (simp add: clock_ok_def currentCheckpoint_def del: map_map)
  moreover have "journal_inv ?t" using assms(1) by (simp add: store_inv_split journal_inv_def)
  ultimately show ?thesis
    using assms(2) unfolding ReplaceNetwork_def Let_def cloneNetwork_id
    by (intro commit_inv) (simp_all add: room_small)
qed

lemma start_inv:
  assumes "\<And>k. unixEpoch \<le> clock k" "distinct (map ifName (nwInterfaces n))"
    and "\<forall>st \<in> set sts. stRadio st \<in> set (map ifName (nwInterfaces n))"
  shows "store_inv (ReplaceNetwork n (registerDeviceState i sts clock))"
proof -
  let ?s = "NewStore i clock"
  have s: "store_inv ?s" "room ?s" "pristine ?s" "stations ?s = []"
    using NewStore_inv [of clock i] assms(1)
    by (simp_all add: NewStore_def room_def pristine_def initialStoreVersion_def emptyNetwork_def Let_def)
  obtain m where m: "snd (InstallStations sts ?s) = ?s\<lparr>stations := m\<rparr>"
    "table_ok stMAC (station_ok (map ifName (nwInterfaces n))) m"
  proof (cases "installLoop [] sts")
    case None
    then show ?thesis using that [of "[]"] s(4) by (simp add: InstallStations_def)
  next
    case (Some m)
    then show ?thesis
      using that [of m] installLoop_ok [OF Some table_ok_Nil assms(3)] by (simp add: InstallStations_def)
  qed
  have "registerDeviceState i sts clock = SetChangeObserver True (?s\<lparr>stations := m\<rparr>)"
    using m(1) by (simp add: registerDeviceState_def case_prod_unfold)
  then show ?thesis using install_network_inv [OF s(1-3) assms(2) m(2)] by (simp add: SetChangeObserver_def)
qed

end
