(* ===== verification/Device_Props.thy ===== *)
theory Device_Props
  imports Device_Machine
begin

text \<open>
  What the device store promises its clients: the change observer is never behind
  (\<open>observer_current\<close>), the last-change table follows the projected operational states
  (\<open>transitions_current\<close>), refused operations change nothing, the version moves with the state,
  checkpoints and durable records bring a scenario back, one-shot actions run once, stale read-modify-write
  transactions are refused, and an armed carrier fault is visible in every projection until it is cleared.
\<close>

section \<open>Frames of the two event loops\<close>

lemma carrierLoop_fields [simp]:
  "running (carrierLoop i bs as s) = running s" "startup (carrierLoop i bs as s) = startup s"
  "authored (carrierLoop i bs as s) = authored s" "checkpoints (carrierLoop i bs as s) = checkpoints s"
  "faults (carrierLoop i bs as s) = faults s" "addressFaults (carrierLoop i bs as s) = addressFaults s"
  "prefixFaults (carrierLoop i bs as s) = prefixFaults s" "deviceFaults (carrierLoop i bs as s) = deviceFaults s"
  "telemetry (carrierLoop i bs as s) = telemetry s" "consumedActions (carrierLoop i bs as s) = consumedActions s"
  "stations (carrierLoop i bs as s) = stations s" "radioTxPower (carrierLoop i bs as s) = radioTxPower s"
  "now (carrierLoop i bs as s) = now s"
  by (induction i bs as s rule: carrierLoop.induct) simp_all

lemma carrierTransitions_fields [simp]:
  "running (recordCarrierTransitions p s) = running s" "startup (recordCarrierTransitions p s) = startup s"
  "authored (recordCarrierTransitions p s) = authored s" "checkpoints (recordCarrierTransitions p s) = checkpoints s"
  "faults (recordCarrierTransitions p s) = faults s" "addressFaults (recordCarrierTransitions p s) = addressFaults s"
  "prefixFaults (recordCarrierTransitions p s) = prefixFaults s"
  "deviceFaults (recordCarrierTransitions p s) = deviceFaults s"
  "telemetry (recordCarrierTransitions p s) = telemetry s"
  "consumedActions (recordCarrierTransitions p s) = consumedActions s"
  "stations (recordCarrierTransitions p s) = stations s" "radioTxPower (recordCarrierTransitions p s) = radioTxPower s"
  "now (recordCarrierTransitions p s) = now s"
  by (simp_all add: recordCarrierTransitions_def)

lemma changedLoop_core: "core (changedLoop m i cs s) = core s"
  by (induction m i cs s rule: changedLoop.induct) (simp_all add: store_frame split: option.split)

lemma replaceRunning_core: "core (replaceRunning c k tg s) = core (bumpVersion (s\<lparr>running := c\<rparr>))"
  by (simp add: replaceRunning_def recordChangedInterfaceEvents_def changedLoop_core store_frame)

lemmas replaceRunning_fields [simp] = core_eqD [OF replaceRunning_core]

section \<open>What follows every change\<close>

lemma gm_remove_none: "\<not> list_ex (\<lambda>e. p (fst e)) m \<Longrightarrow> gm_remove p m = m"
  by (induction m) (auto simp: gm_remove_def)

lemma ClearInterfaceFaults_cases:
  "snd (ClearInterfaceFaults i s) = s \<or>
   (\<exists>t. snd (ClearInterfaceFaults i s) =
      recordCarrierTransitions (faults s) (recordEvent EventFaultCleared i (bumpVersion t)) \<and>
      version t = version s)"
  by (auto simp: ClearInterfaceFaults_def Let_def gm_remove_none)

lemmas op_defs = SetInterfaceFault_def ClearAllFaults_def SetDeviceFault_def
  SetDeviceAddressFault_def ClearDeviceFault_def setDeviceFault_def ClearDeviceFaults_def
  SetInterfaceAddressFault_def ClearInterfaceAddressFault_def SetInterfacePrefixFault_def
  ClearInterfacePrefixFault_def UpdateIdentity_def UpdateInterface_def ReplaceNetwork_def UpsertRoute_def
  EnsureVLAN_def UpdateVLAN_def EnsureRouter_def AddRouterNetwork_def SaveStartup_def ReloadStartup_def
  ResetAuthored_def EraseStartup_def SaveCheckpoint_def RestoreCheckpoint_def ExecuteDeviceAction_def
  InstallStations_def AssociateStation_def RoamStation_def SetRadioTxPower_def RestoreRadioTxPower_def
  SetChangeSignal_def receiveChange_def

definition installs_stations :: "op \<Rightarrow> bool" where
  "installs_stations x = (case x of OpInstallStations _ \<Rightarrow> True | _ \<Rightarrow> False)"

text \<open>
  The contract of the code that hangs off \<open>signalChangeLocked\<close>: a condition that holds after every
  signal, and that neither the notification setters, nor \<open>RestoreState\<close>, nor a change of the startup
  bank alone breaks, holds after every operation except \<open>InstallStations\<close>, which does not signal.
\<close>

locale change_follower =
  fixes P :: "Store \<Rightarrow> bool"
  assumes signalled: "P (signalChange s)"
    and startup: "P s \<Longrightarrow> P (s\<lparr>startup := c\<rparr>)"
    and signal_set: "P s \<Longrightarrow> P (s\<lparr>changeSignal := x\<rparr>)"
    and received: "P s \<Longrightarrow> P (s\<lparr>changes := b\<rparr>)"
    and observed: "P s \<Longrightarrow> P (SetChangeObserver on s)"
    and restored: "P s \<Longrightarrow> P (snd (RestoreState st (\<lambda>x. x) s))"
begin

lemma recorded: "P (recordEvent k tg s)" "P (recordInterfaceEvent i p c s)"
  by (simp_all add: recordEvent_def recordInterfaceEvent_def signalled split: prod.split)

lemma carrierLoop: "P s \<Longrightarrow> P (carrierLoop i bs as s)"
  by (induction i bs as s rule: carrierLoop.induct) (simp_all add: recorded)

lemma changedLoop: "P s \<Longrightarrow> P (changedLoop m i cs s)"
  by (induction m i cs s rule: changedLoop.induct) (simp_all add: recorded split: option.split)

lemma composed: "P s \<Longrightarrow> P (recordCarrierTransitions p s)" "P (replaceRunning c k tg s)"
  by (simp_all add: recordCarrierTransitions_def replaceRunning_def Let_def recordChangedInterfaceEvents_def
      carrierLoop changedLoop recorded)

lemmas follows = signalled startup signal_set received observed restored recorded composed

lemma step_follows:
  assumes "P s" "\<not> installs_stations x"
  shows "P (step x s)"
proof (cases x)
  case (OpClearInterfaceFaults i)
  then show ?thesis using ClearInterfaceFaults_cases [of i s] assms(1) by (auto simp: follows)
next
  case (OpInstallStations sts)
  with assms(2) show ?thesis by (simp add: installs_stations_def)
next
  case (OpExecuteDeviceAction k i)
  with assms(1) show ?thesis
    by (simp add: ExecuteDeviceAction_def Let_def readNow_def follows split: option.split prod.split)
qed (use assms(1) in \<open>simp_all add: op_defs Let_def follows split: option.split sum.split\<close>)

lemma run_follows: "P s \<Longrightarrow> list_all (\<lambda>x. \<not> installs_stations x) xs \<Longrightarrow> P (run_ops step xs s)"
  by (induction xs arbitrary: s) (simp_all add: step_follows)

end

section \<open>The change observer\<close>

definition observer_current :: "Store \<Rightarrow> bool" where
  "observer_current s \<longleftrightarrow>
     (case changeObserver s of None \<Rightarrow> True | Some seen \<Rightarrow> seen \<noteq> [] \<and> last seen = storeSnapshot s)"

lemma observer_signal: "observer_current (signalChange s)"
proof -
  let ?u = "updateInterfaceTransitions s"
  have "snapshot (signalChange s) (running s) = snapshot ?u (running s)"
    by (rule snapshot_core) (simp add: store_frame)
  moreover have "changeObserver (signalChange s) =
      map_option (\<lambda>seen. seen @ [snapshot ?u (running ?u)]) (changeObserver s)"
    by (simp add: signalChange_def Let_def store_frame split: option.split)
  ultimately show ?thesis
    by (simp add: observer_current_def storeSnapshot_def split: option.split)
qed

lemma observer_quiet:
  "observer_current (s\<lparr>startup := c\<rparr>) = observer_current s"
  "observer_current (s\<lparr>changeSignal := x\<rparr>) = observer_current s"
  "observer_current (s\<lparr>changes := b\<rparr>) = observer_current s"
  "observer_current (SetChangeObserver on s)"
  by (simp_all add: observer_current_def storeSnapshot_def snapshot_def SetChangeObserver_def
      cong: option.case_cong)

lemma observer_RestoreState:
  assumes "observer_current s"
  shows "observer_current (snd (RestoreState st (\<lambda>x. x) s))"
proof (cases "validateState st (authoredInterfaces s)")
  case (Some e)
  with assms show ?thesis by (simp add: RestoreState_alone)
next
  case None
  have "observer_current (case changeObserver u of None \<Rightarrow> u
      | Some seen \<Rightarrow> u\<lparr>changeObserver := Some (seen @ [snapshot u (running u)])\<rparr>)" for u :: Store
    by (simp add: observer_current_def storeSnapshot_def snapshot_def split: option.split)
  then show ?thesis
    unfolding RestoreState_alone None Let_def option.case snd_conv .
qed

interpretation obs: change_follower observer_current
  by unfold_locales (simp_all add: observer_signal observer_quiet observer_RestoreState)

section \<open>The last-change table\<close>

lemma map_of_gm_import_notin: "k \<notin> key ` set vs \<Longrightarrow> map_of (foldl (\<lambda>m v. gm_put (key v) (val v) m) m vs) k = map_of m k"
  by (induction vs arbitrary: m) (auto simp: gm_simps)

lemma map_of_gm_import:
  assumes "distinct (map key vs)" "v \<in> set vs"
  shows "map_of (foldl (\<lambda>m v. gm_put (key v) (val v) m) m vs) (key v) = Some (val v)"
  using assms
proof (induction vs arbitrary: m)
  case (Cons x vs)
  then show ?case
    by (cases "v = x") (auto simp: map_of_gm_import_notin gm_simps)
qed simp

definition interface_moved :: "(string, interfaceTransition) gomap \<Rightarrow> Interface \<Rightarrow> bool" where
  "interface_moved old i = (case map_of old (ifName i) of None \<Rightarrow> False | Some t \<Rightarrow> trOperUp t \<noteq> ifOperUp i)"

definition transition_entry ::
  "(string, interfaceTransition) gomap \<Rightarrow> time \<Rightarrow> Interface \<Rightarrow> interfaceTransition" where
  "transition_entry old t i = \<lparr>trOperUp = ifOperUp i, trChangedAt =
     (case map_of old (ifName i) of None \<Rightarrow> 0
      | Some p \<Rightarrow> if trOperUp p \<noteq> ifOperUp i then t else trChangedAt p)\<rparr>"

lemma transition_update: "t\<lparr>trOperUp := b\<rparr> = \<lparr>trOperUp = b, trChangedAt = trChangedAt t\<rparr>"
  by (cases t) simp

text \<open>
  The loop of \<open>updateInterfaceTransitionsLocked\<close> as a fold: the clock is read at most once, at the
  first interface that moved, and that reading stamps all of them.
\<close>

lemma transitionLoop_eq:
  assumes "\<And>n. clock n \<noteq> 0"
  shows "transitionLoop clock old is nxt changedAt tk =
    (foldl (\<lambda>m i. gm_put (ifName i) (transition_entry old (if changedAt = 0 then clock tk else changedAt) i) m) nxt is,
     tk + (if changedAt = 0 \<and> list_ex (interface_moved old) is then 1 else 0))"
proof (induction "is" arbitrary: nxt changedAt tk)
  case Nil
  then show ?case by simp
next
  case (Cons i "is")
  show ?case
  proof (cases "interface_moved old i")
    case True
    then obtain p where p: "map_of old (ifName i) = Some p" "trOperUp p \<noteq> ifOperUp i"
      by (auto simp: interface_moved_def split: option.splits)
    then have "transition_entry old t i = p\<lparr>trChangedAt := t, trOperUp := ifOperUp i\<rparr>" for t
      by (simp add: transition_entry_def)
    with p True assms show ?thesis
      by (simp add: Cons.IH gm_has_def Let_def)
  next
    case False
    then show ?thesis
      by (cases "map_of old (ifName i)")
        (simp_all add: Cons.IH gm_has_def interface_moved_def transition_entry_def transition_update)
  qed
qed

definition projectedInterfaces :: "Store \<Rightarrow> Interface list" where
  "projectedInterfaces s = nwInterfaces (snNetwork (storeSnapshot s))"

lemma projectedInterfaces_eq: "projectedInterfaces s = applyCarrierFaults (runningInterfaces s) (faults s)"
  by (simp add: projectedInterfaces_def storeSnapshot_def snapshot_def Let_def)

lemma names_projected: "map ifName (projectedInterfaces s) = names_of (running s)"
  by (simp add: projectedInterfaces_eq names_of_def)

lemma transitions_lookup:
  assumes "\<And>n. now s n \<noteq> 0" "distinct (names_of (running s))" "i \<in> set (projectedInterfaces s)"
  shows "map_of (interfaceTransitions (updateInterfaceTransitions s)) (ifName i) =
    Some (transition_entry (interfaceTransitions s) (now s (ticks s)) i)"
proof -
  have "interfaceTransitions (updateInterfaceTransitions s) =
      foldl (\<lambda>m i. gm_put (ifName i) (transition_entry (interfaceTransitions s) (now s (ticks s)) i) m) []
        (projectedInterfaces s)"
    by (simp add: updateInterfaceTransitions_def Let_def transitionLoop_eq [OF assms(1)] projectedInterfaces_eq)
  then show ?thesis
    using assms(2,3) by (simp add: map_of_gm_import names_projected)
qed

definition transitions_current :: "Store \<Rightarrow> bool" where
  "transitions_current s \<longleftrightarrow>
     (\<forall>i \<in> set (projectedInterfaces s). \<exists>t. map_of (interfaceTransitions s) (ifName i) = Some t \<and> trOperUp t = ifOperUp i)"

lemma interfaceTransitions_signal:
  "interfaceTransitions (signalChange s) = interfaceTransitions (updateInterfaceTransitions s)"
  by (simp add: signalChange_def Let_def split: option.split)

lemma projected_core: "core s = core t \<Longrightarrow> projectedInterfaces s = projectedInterfaces t"
  using core_eqD [of s t] by (simp add: projectedInterfaces_eq)

definition tidy :: "Store \<Rightarrow> bool" where
  "tidy s \<longleftrightarrow> (\<forall>n. now s n \<noteq> 0) \<and> distinct (names_of (running s))"

lemma tidy_core: "core s = core t \<Longrightarrow> tidy s = tidy t"
  using core_eqD [of s t] by (simp add: tidy_def)

lemma clock_ok_nonzero: "clock_ok s \<Longrightarrow> now s n \<noteq> 0"
proof -
  assume "clock_ok s"
  then have "unixEpoch \<le> now s n" by (simp add: clock_ok_def)
  then show ?thesis by (simp add: unixEpoch_def)
qed

lemma store_inv_tidy: "store_inv s \<Longrightarrow> tidy s"
  by (simp add: tidy_def clock_ok_nonzero store_inv_def point_ok_def currentCheckpoint_def)

lemma transitions_frame:
  "core s = core t \<Longrightarrow> interfaceTransitions s = interfaceTransitions t \<Longrightarrow> transitions_current s = transitions_current t"
  using projected_core [of s t] by (simp add: transitions_current_def)

lemma transitions_update:
  assumes "tidy s"
  shows "transitions_current (updateInterfaceTransitions s)"
proof -
  have "projectedInterfaces (updateInterfaceTransitions s) = projectedInterfaces s"
    by (rule projected_core) (simp add: store_frame)
  then show ?thesis
    using assms by (simp add: transitions_current_def tidy_def transitions_lookup transition_entry_def)
qed

lemma transitions_signal: "tidy s \<Longrightarrow> transitions_current (signalChange s)"
  using transitions_update [of s]
  by (simp add: transitions_frame [of "signalChange s" "updateInterfaceTransitions s"]
      interfaceTransitions_signal store_frame)

lemma transitions_observed:
  assumes "u = updateInterfaceTransitions t"
    and "v = (case changeObserver u of None \<Rightarrow> u | Some seen \<Rightarrow> u\<lparr>changeObserver := f seen\<rparr>)"
  shows "tidy v \<longrightarrow> transitions_current v"
proof -
  have "tidy u = tidy t" unfolding assms(1) by (rule tidy_core) (simp add: store_frame)
  then have u: "tidy u \<longrightarrow> transitions_current u" using transitions_update [of t] assms(1) by simp
  have "core v = core u" "interfaceTransitions v = interfaceTransitions u"
    using assms(2) by (cases "changeObserver u"; simp)+
  then show ?thesis
    using u tidy_core [of v u] transitions_frame [of v u] by simp
qed

lemma transitions_RestoreState:
  assumes "tidy s \<longrightarrow> transitions_current s"
  shows "tidy (snd (RestoreState st (\<lambda>x. x) s)) \<longrightarrow> transitions_current (snd (RestoreState st (\<lambda>x. x) s))"
proof (cases "validateState st (authoredInterfaces s)")
  case (Some e)
  with assms show ?thesis by (simp add: RestoreState_alone)
next
  case None
  show ?thesis
    by (rule transitions_observed [OF refl]) (simp only: RestoreState_alone None Let_def option.case snd_conv)
qed

interpretation trans: change_follower "\<lambda>s. tidy s \<longrightarrow> transitions_current s"
proof
  show "tidy (signalChange s) \<longrightarrow> transitions_current (signalChange s)" for s
    using transitions_signal [of s] tidy_core [of "signalChange s" s] by (simp add: store_frame)
  show "tidy (snd (RestoreState st (\<lambda>x. x) s)) \<longrightarrow> transitions_current (snd (RestoreState st (\<lambda>x. x) s))"
    if "tidy s \<longrightarrow> transitions_current s" for s st
    using that by (rule transitions_RestoreState)
qed (simp_all add: tidy_def transitions_current_def projectedInterfaces_eq SetChangeObserver_def)

section \<open>Errors and versions\<close>

text \<open>The error each operation reports to its caller, if any.\<close>

fun outcome :: "op \<Rightarrow> Store \<Rightarrow> derror option" where
  "outcome (OpSetInterfaceFault i t v) s = fst (SetInterfaceFault i t v s)"
| "outcome (OpClearInterfaceFaults i) s = fst (ClearInterfaceFaults i s)"
| "outcome (OpSetDeviceFault t v) s = fst (SetDeviceFault t v s)"
| "outcome (OpSetDeviceAddressFault t a) s = fst (SetDeviceAddressFault t a s)"
| "outcome (OpClearDeviceFault t) s = fst (ClearDeviceFault t s)"
| "outcome (OpSetInterfaceAddressFault f) s = fst (SetInterfaceAddressFault f s)"
| "outcome (OpClearInterfaceAddressFault i k) s = fst (ClearInterfaceAddressFault i k s)"
| "outcome (OpSetInterfacePrefixFault f) s = fst (SetInterfacePrefixFault f s)"
| "outcome (OpClearInterfacePrefixFault i k) s = fst (ClearInterfacePrefixFault i k s)"
| "outcome (OpUpdateIdentity f) s = fst (UpdateIdentity f (\<lambda>x. x) s)"
| "outcome (OpUpdateInterface n f) s = fst (UpdateInterface n f (\<lambda>x. x) s)"
| "outcome (OpUpdateVLAN i f) s = fst (UpdateVLAN i f (\<lambda>x. x) s)"
| "outcome (OpRestoreCheckpoint n) s = fst (RestoreCheckpoint n s)"
| "outcome (OpExecuteDeviceAction k i) s = snd (fst (ExecuteDeviceAction k i s))"
| "outcome (OpInstallStations sts) s = fst (InstallStations sts s)"
| "outcome (OpAssociateStation st) s = fst (AssociateStation st s)"
| "outcome (OpRoamStation m) s = (case fst (RoamStation m s) of Inl e \<Rightarrow> Some e | Inr _ \<Rightarrow> None)"
| "outcome (OpSetRadioTxPower i d) s = fst (SetRadioTxPower i d s)"
| "outcome (OpRestoreState st) s = fst (RestoreState st (\<lambda>x. x) s)"
| "outcome _ s = None"

lemma outcome_unchanged: "outcome x s = None \<or> step x s = s"
  by (cases x) (simp_all add: op_defs ClearInterfaceFaults_def RestoreState_alone Let_def
      split: option.split sum.split prod.split)

text \<open>An operation that commits raises the version by one, plus one per carrier transition.\<close>

definition newer :: "Store \<Rightarrow> Store \<Rightarrow> bool" where
  "newer s t \<longleftrightarrow> unat (version s) < unat (version t) \<and>
     unat (version t) \<le> unat (version s) + 1 + length (runningInterfaces s)"

lemma carrierLoop_version:
  "unat (version s) + length bs + 1 < 2 ^ 64 \<Longrightarrow>
   unat (version s) \<le> unat (version (carrierLoop i bs as s)) \<and>
   unat (version (carrierLoop i bs as s)) \<le> unat (version s) + length bs"
proof (induction i bs as s rule: carrierLoop.induct)
  case (1 index b bs a as s)
  let ?s = "if ifOperUp b \<noteq> ifOperUp a then recordInterfaceEvent (index + 1) b a (bumpVersion s) else s"
  have "unat (version s) + 2 < 2 ^ 64" using "1.prems" by simp
  then have "unat (version s) \<le> unat (version ?s)" "unat (version ?s) \<le> unat (version s) + 1"
    using word_bump(3) [of "version s"] by simp_all
  moreover have "unat (version ?s) \<le> unat (version (carrierLoop (Suc index) bs as ?s)) \<and>
      unat (version (carrierLoop (Suc index) bs as ?s)) \<le> unat (version ?s) + length bs"
    using calculation "1.prems" by (intro "1.IH") simp
  ultimately show ?case by simp
qed simp_all

lemma newer_commit:
  assumes "room s" "version t = version s"
  shows "newer s (recordEvent k tg (bumpVersion t))" "newer s (recordInterfaceEvent i p c (bumpVersion t))"
  using assms word_bump(3) [of "version s"] by (simp_all add: newer_def room_def)

lemma newer_carrier:
  assumes "room s" "version t = version s" "running t = running s"
  shows "newer s (recordCarrierTransitions m (recordEvent k tg (bumpVersion t)))"
proof -
  let ?t = "recordEvent k tg (bumpVersion t)"
  have u: "unat (version ?t) = Suc (unat (version s))"
    using assms(1,2) word_bump(3) [of "version s"] by (simp add: room_def)
  have "unat (version ?t) + length (applyCarrierFaults (runningInterfaces ?t) m) + 1 < 2 ^ 64"
    using assms u by (simp add: room_def)
  from carrierLoop_version [OF this, of 0 "applyCarrierFaults (runningInterfaces ?t) (faults ?t)"] u assms(3)
  show ?thesis by (simp add: newer_def recordCarrierTransitions_def)
qed

lemma newer_replace: "room s \<Longrightarrow> version t = version s \<Longrightarrow> newer s (replaceRunning c k tg t)"
  using word_bump(3) [of "version s"] by (simp add: newer_def room_def)

lemma newer_fields [simp]: "newer s (t\<lparr>startup := c\<rparr>) = newer s t"
  by (simp add: newer_def)

lemmas newer_intros = newer_commit newer_carrier newer_replace

definition same_state :: "Store \<Rightarrow> Store \<Rightarrow> bool" where
  "same_state s t \<longleftrightarrow> core s = core t \<and> events s = events t"

lemma same_state_refl [simp]: "same_state s s"
  by (simp add: same_state_def)

lemma ClearInterfaceFaults_newer:
  "room s \<Longrightarrow> snd (ClearInterfaceFaults i s) = s \<or> newer s (snd (ClearInterfaceFaults i s))"
  unfolding ClearInterfaceFaults_def Let_def
  by (auto simp: gm_remove_none intro!: newer_intros)

lemma ExecuteDeviceAction_newer:
  assumes "room s"
  shows "snd (ExecuteDeviceAction k i s) = s \<or> newer s (snd (ExecuteDeviceAction k i s))"
  using assms word_bump(3) [of "version s"] unfolding ExecuteDeviceAction_def Let_def readNow_def
  by (auto simp: newer_def room_def split: option.splits)

fun replaces_state :: "op \<Rightarrow> bool" where
  "replaces_state (OpInstallStations _) = True"
| "replaces_state (OpRestoreState _) = True"
| "replaces_state _ = False"

lemma step_newer:
  assumes "room s" "\<not> replaces_state x"
  shows "same_state (step x s) s \<or> newer s (step x s)"
proof (cases x)
  case (OpClearInterfaceFaults i)
  then show ?thesis using ClearInterfaceFaults_newer [OF assms(1), of i] by auto
next
  case (OpExecuteDeviceAction k i)
  then show ?thesis using ExecuteDeviceAction_newer [OF assms(1), of k i] by auto
next
  case (OpSetChangeObserver b)
  then show ?thesis by (simp add: same_state_def SetChangeObserver_def)
next
  case (OpSetChangeSignal c)
  then show ?thesis by (simp add: same_state_def SetChangeSignal_def)
next
  case OpReceiveChange
  then show ?thesis by (simp add: same_state_def receiveChange_def)
qed (use assms in \<open>auto simp: op_defs Let_def split: option.split sum.split intro!: newer_intros\<close>)

section \<open>What survives other operations\<close>

fun rewrites_checkpoint :: "string \<Rightarrow> op \<Rightarrow> bool" where
  "rewrites_checkpoint n (OpSaveCheckpoint m) = (m = n)"
| "rewrites_checkpoint n (OpRestoreState _) = True"
| "rewrites_checkpoint n _ = False"

lemma step_checkpoint:
  "\<not> rewrites_checkpoint n x \<Longrightarrow> map_of (checkpoints (step x s)) n = map_of (checkpoints s) n"
  by (cases x) (simp_all add: op_defs ClearInterfaceFaults_def SetChangeObserver_def readNow_def setRunningNetwork_def
      Let_def gm_simps split: option.split sum.split prod.split)

lemma run_checkpoint:
  "list_all (\<lambda>x. \<not> rewrites_checkpoint n x) xs \<Longrightarrow> map_of (checkpoints (run_ops step xs s)) n = map_of (checkpoints s) n"
  by (induction xs arbitrary: s) (simp_all add: step_checkpoint)

definition restores_state :: "op \<Rightarrow> bool" where
  "restores_state x = (case x of OpRestoreState _ \<Rightarrow> True | _ \<Rightarrow> False)"

lemma step_consumed:
  "\<not> restores_state x \<Longrightarrow> map_of (consumedActions s) i = Some k \<Longrightarrow> map_of (consumedActions (step x s)) i = Some k"
  by (cases x) (simp_all add: restores_state_def op_defs ClearInterfaceFaults_def SetChangeObserver_def readNow_def
      setRunningNetwork_def Let_def gm_simps split: option.split sum.split prod.split, auto)

lemma run_consumed:
  "list_all (\<lambda>x. \<not> restores_state x) xs \<Longrightarrow> map_of (consumedActions s) i = Some k \<Longrightarrow>
     map_of (consumedActions (run_ops step xs s)) i = Some k"
  by (induction xs arbitrary: s) (simp_all add: step_consumed)

section \<open>A sample device\<close>

definition sampleInterface :: "string \<Rightarrow> Interface" where
  "sampleInterface n = \<lparr>ifName = n, ifNetwork = ''lan'', ifAddress = PrefixFrom (V4 0x0A000001) 24,
     ifDescription = [], ifVLANs = [], ifAdminUp = True, ifOperUp = True, ifCarrierUp = True\<rparr>"

definition sampleNetwork :: Network where
  "sampleNetwork = emptyNetwork\<lparr>nwInterfaces := [sampleInterface ''e0'', sampleInterface ''e1'']\<rparr>"

definition sampleNew :: Store where
  "sampleNew = NewStore \<lparr>Hostname = ''r1''\<rparr> (\<lambda>_. unixEpoch)"

definition sampleStore :: Store where
  "sampleStore = ReplaceNetwork sampleNetwork sampleNew"

lemma sampleNew_facts [simp]:
  "store_inv sampleNew" "room sampleNew" "pristine sampleNew" "version sampleNew = 1"
  "authored sampleNew = running sampleNew" "runningInterfaces sampleNew = []" "changeObserver sampleNew = None"
  "consumedActions sampleNew = []" "events sampleNew = []" "now sampleNew n = unixEpoch"
  by (simp_all add: sampleNew_def NewStore_inv)
    (simp_all add: NewStore_def room_def pristine_def initialStoreVersion_def emptyNetwork_def Let_def)

lemma sample_permitted: "permitted (OpReplaceNetwork sampleNetwork) sampleNew"
  by (simp add: permitted_def sampleNetwork_def sampleInterface_def)

lemma sampleStore_inv [simp]: "store_inv sampleStore"
  using step_keeps_inv [OF sampleNew_facts(1) sample_permitted] by (simp add: sampleStore_def)

lemma sampleStore_facts [simp]:
  "version sampleStore = 2" "names_of (running sampleStore) = [''e0'', ''e1'']"
  "runningInterfaces sampleStore = [sampleInterface ''e0'', sampleInterface ''e1'']"
  "names_of (authored sampleStore) = [''e0'', ''e1'']"
  "faults sampleStore = []" "consumedActions sampleStore = []" "room sampleStore"
  by (simp_all add: sampleStore_def ReplaceNetwork_def sampleNetwork_def sampleInterface_def names_of_def room_def)
    (simp_all add: sampleNew_def NewStore_def initialStoreVersion_def Let_def)

section \<open>Properties\<close>

text \<open>C1 (device_run_inv): the stack starts a device by installing its authored stations into a new store and then its
  network.  When the network's interface names are distinct, every station names one of them (as the configuration's
  validator asks of radios) and the clock never reads before the Unix epoch, then after that start-up and any
  sequence of store operations, refused ones included, the store's invariant holds, and the durable record it would export is
  one the restore path accepts.  The sequence is \<open>permitted\<close>: version numbers do not run out, a later network keeps the
  interface names (or comes while no fault, station, power setting or checkpoint exists, with distinct names), and stations
  added later name one of the device's interfaces; nothing else is asked of the operations or their arguments.  Each
  operation is one step, with nothing else in the gaps of those that release the lock.\<close>

theorem device_run_inv:
  assumes "\<And>k. unixEpoch \<le> clock k" "distinct (map ifName (nwInterfaces n))"
    and "\<forall>st \<in> set sts. stRadio st \<in> set (map ifName (nwInterfaces n))"
    and "started = ReplaceNetwork n (registerDeviceState i sts clock)" "run_ok step permitted ops started"
  shows "store_inv (run_ops step ops started) \<and>
    ValidateState (ExportState (run_ops step ops started)) (run_ops step ops started) = None"
proof -
  have "store_inv started" unfolding assms(4) by (rule start_inv [OF assms(1-3)])
  from dev.run_inv [OF this assms(5)] show ?thesis
    using export_valid [OF _ refl] by (simp add: ValidateState_def)
qed

definition sampleStation :: Station where
  "sampleStation = \<lparr>stMAC = ''00:11:22:33:44:55'', stRadio = ''e0'', stIPAddress = V4 0x0A000002,
     stSignalDBM = -50, stSignalQualityPct = 80, stAssociatedAt = 0, stReturnRadio = []\<rparr>"

definition sampleStarted :: Store where
  "sampleStarted = ReplaceNetwork sampleNetwork (registerDeviceState \<lparr>Hostname = ''r1''\<rparr> [sampleStation] (\<lambda>_. unixEpoch))"

lemma sampleStarted_room: "room sampleStarted"
  by (simp add: sampleStarted_def registerDeviceState_def ReplaceNetwork_def InstallStations_def SetChangeObserver_def
      sampleNetwork_def room_def NewStore_def initialStoreVersion_def Let_def split: option.split)

theorem device_run_inv_witness:
  "store_inv (snd (SetInterfaceFault ''e0'' FaultLinkDown 100 sampleStarted)) \<and>
   ValidateState (ExportState (snd (SetInterfaceFault ''e0'' FaultLinkDown 100 sampleStarted)))
     (snd (SetInterfaceFault ''e0'' FaultLinkDown 100 sampleStarted)) = None"
  using device_run_inv [of "\<lambda>_. unixEpoch" sampleNetwork "[sampleStation]" sampleStarted "\<lparr>Hostname = ''r1''\<rparr>"
      "[OpSetInterfaceFault ''e0'' FaultLinkDown 100]", OF _ _ _ sampleStarted_def]
  by (simp add: sampleNetwork_def sampleInterface_def sampleStation_def permitted_def sampleStarted_room)

text \<open>C7 (durable_roundtrip): exporting the durable record of a store in the invariant and restoring it into any store of the
  same device (same authored interface names), for instance after a restart, succeeds, and the restored store, before any
  other operation, exports the same record and shows the same running and startup snapshots.\<close>

theorem durable_roundtrip:
  assumes "store_inv s" "names_of (authored t) = names_of (authored s)"
  shows "\<exists>t'. RestoreState (ExportState s) (\<lambda>x. x) t = (None, t') \<and> ExportState t' = ExportState s \<and>
    storeSnapshot t' = storeSnapshot s \<and> StartupSnapshot t' = StartupSnapshot s"
proof -
  obtain t' where t': "RestoreState (ExportState s) (\<lambda>x. x) t = (None, t')" "events t' = events s"
    "core t' = core (s\<lparr>authored := authored t, now := now t\<rparr>)"
    using restore_export [OF assms] by blast
  note f = core_eqD [OF t'(3)]
  have "ExportState t' = ExportState s" "storeSnapshot t' = storeSnapshot s" "StartupSnapshot t' = StartupSnapshot s"
    by (simp_all add: ExportState_def storeSnapshot_def StartupSnapshot_def snapshot_def f t'(2))
  with t'(1) show ?thesis by blast
qed

theorem durable_roundtrip_witness:
  "\<exists>t'. RestoreState (ExportState sampleStore) (\<lambda>x. x) sampleStore = (None, t') \<and> ExportState t' = ExportState sampleStore \<and>
    storeSnapshot t' = storeSnapshot sampleStore \<and> StartupSnapshot t' = StartupSnapshot sampleStore"
  using durable_roundtrip [of sampleStore sampleStore] by simp

text \<open>C8 (restore_sound): restoring an arbitrary record, even a forged one, either fails with the
  invalid-state error and changes nothing, or leaves a store (before any other operation) in the invariant that holds the
  record's configuration banks, journal and version.\<close>

theorem restore_sound:
  assumes "clock_ok s"
  shows "case RestoreState st (\<lambda>x. x) s of
      (Some e, s') \<Rightarrow> e = ErrStateInvalid \<and> s' = s
    | (None, s') \<Rightarrow> store_inv s' \<and> running s' = saRunning st \<and> startup s' = saStartup st \<and>
        storeEvents s' = saEvents st \<and> version s' = saVersion st"
proof (cases "RestoreState st (\<lambda>x. x) s")
  case (Pair r s')
  show ?thesis
  proof (cases r)
    case None
    with Pair have "RestoreState st (\<lambda>x. x) s = (None, s')" by simp
    from restore_inv [OF assms this] restore_fields [OF this] show ?thesis
      by (simp add: Pair None storeEvents_def)
  next
    case (Some e)
    with Pair show ?thesis
      by (auto simp: RestoreState_alone Let_def validateState_def split: option.splits if_splits)
  qed
qed

theorem restore_sound_witness:
  "clock_ok sampleStore \<and> (case RestoreState (ExportState sampleStore) (\<lambda>x. x) sampleStore of
      (Some e, s') \<Rightarrow> e = ErrStateInvalid \<and> s' = sampleStore
    | (None, s') \<Rightarrow> store_inv s' \<and> running s' = saRunning (ExportState sampleStore) \<and>
        startup s' = saStartup (ExportState sampleStore) \<and>
        storeEvents s' = saEvents (ExportState sampleStore) \<and> version s' = saVersion (ExportState sampleStore))"
  using restore_sound [of sampleStore "ExportState sampleStore"] sampleStore_inv
  by (simp only: store_inv_def simp_thms)

definition observing :: "Store \<Rightarrow> bool" where
  "observing s \<longleftrightarrow> changeObserver s \<noteq> None"

lemma observing_record [simp]:
  "observing (signalChange s) = observing s" "observing (recordEvent k tg s) = observing s"
  "observing (recordInterfaceEvent i p c s) = observing s"
  by (simp_all add: observing_def recordEvent_def recordInterfaceEvent_def readNow_def signalChange_def store_frame
      Let_def split: option.split)

lemma observing_fields [simp]:
  "observing (bumpVersion s) = observing s" "observing (s\<lparr>running := c\<rparr>) = observing s"
  "observing (s\<lparr>startup := c\<rparr>) = observing s" "observing (s\<lparr>authored := c\<rparr>) = observing s"
  "observing (s\<lparr>checkpoints := cp\<rparr>) = observing s" "observing (s\<lparr>faults := m\<rparr>) = observing s"
  "observing (s\<lparr>addressFaults := ma\<rparr>) = observing s" "observing (s\<lparr>prefixFaults := mp\<rparr>) = observing s"
  "observing (s\<lparr>deviceFaults := md\<rparr>) = observing s" "observing (s\<lparr>stations := ms\<rparr>) = observing s"
  "observing (s\<lparr>radioTxPower := mr\<rparr>) = observing s" "observing (s\<lparr>telemetry := te\<rparr>) = observing s"
  "observing (s\<lparr>consumedActions := ca\<rparr>) = observing s" "observing (s\<lparr>ticks := n\<rparr>) = observing s"
  "observing (s\<lparr>changes := b\<rparr>) = observing s" "observing (s\<lparr>changeSignal := x\<rparr>) = observing s"
  "observing (s\<lparr>changeObserver := ob\<rparr>) = (ob \<noteq> None)" "observing (appendEvent e s) = observing s"
  "observing (updateInterfaceTransitions s) = observing s" "observing (s\<lparr>events := es\<rparr>) = observing s"
  "observing (s\<lparr>version := v\<rparr>) = observing s" "observing (s\<lparr>interfaceTransitions := tr\<rparr>) = observing s"
  by (simp_all add: observing_def store_frame)

lemma observing_carrierLoop [simp]: "observing (carrierLoop j bs as s) = observing s"
  by (induction j bs as s rule: carrierLoop.induct) simp_all

lemma observing_changedLoop [simp]: "observing (changedLoop m j cs s) = observing s"
  by (induction m j cs s rule: changedLoop.induct) (simp_all split: option.split)

lemma step_observing: "x \<noteq> OpSetChangeObserver False \<Longrightarrow> observing s \<Longrightarrow> observing (step x s)"
  by (cases x) (simp_all add: op_defs ClearInterfaceFaults_def SetChangeObserver_def readNow_def setRunningNetwork_def
      recordCarrierTransitions_def replaceRunning_def recordChangedInterfaceEvents_def RestoreState_alone
      Let_def split: option.split sum.split prod.split)

lemma run_observing:
  "list_all (\<lambda>x. x \<noteq> OpSetChangeObserver False) xs \<Longrightarrow> observing s \<Longrightarrow> observing (run_ops step xs s)"
  by (induction xs arbitrary: s) (simp_all add: step_observing)

text \<open>What a restore hands the observer is read under the lock, before the gap.\<close>

lemma restore_hands_over:
  assumes "RestoreState st others s = (None, t)" "observing s" "changeObserver t = Some seen"
  shows "seen \<noteq> [] \<and> snVersion (last seen) = saVersion st"
proof -
  let ?u = "installState st s"
  have u: "observing ?u" "version ?u = saVersion st"
    using assms(2) by (simp_all add: installState_def store_frame)
  have "t = (case (changeObserver ?u, changeObserver (others ?u)) of
        (Some _, Some seen) \<Rightarrow> (others ?u)\<lparr>changeObserver := Some (seen @ [snapshot ?u (running ?u)])\<rparr> | _ \<Rightarrow> others ?u)"
    using assms(1) by (simp add: RestoreState_def Let_def split: option.splits)
  with u assms(3) show ?thesis
    by (auto simp: snapshot_def Let_def observing_def split: option.splits)
qed

text \<open>C9 (observer_never_behind): once a change observer is installed and until it is removed, the last
  snapshot it was handed is the store's present snapshot after every sequence of operations that does not
  reinstall the station list, when no operation runs between the release of \<open>RestoreState\<close>'s lock and its call of the observer.
  That call hands over the snapshot read under the lock: if other operations run in that gap and leave another version
  than the restored record's, the observer ends with a snapshot that is not the store's.\<close>

theorem observer_never_behind:
  "(list_all (\<lambda>x. \<not> installs_stations x \<and> x \<noteq> OpSetChangeObserver False) ops \<longrightarrow>
     (\<exists>seen. changeObserver (run_ops step ops (SetChangeObserver True s)) = Some seen \<and> seen \<noteq> [] \<and>
        last seen = storeSnapshot (run_ops step ops (SetChangeObserver True s)))) \<and>
   (RestoreState st others r = (None, t) \<and> changeObserver r \<noteq> None \<and> changeObserver t = Some seen \<and> version t \<noteq> saVersion st \<longrightarrow>
      last seen \<noteq> storeSnapshot t)"
proof (intro conjI impI)
  assume assms: "list_all (\<lambda>x. \<not> installs_stations x \<and> x \<noteq> OpSetChangeObserver False) ops"
  let ?r = "run_ops step ops (SetChangeObserver True s)"
  have "observing ?r"
    using assms by (intro run_observing) (auto simp: list_all_iff SetChangeObserver_def)
  moreover have "observer_current ?r"
    using assms by (intro obs.run_follows) (auto simp: list_all_iff observer_quiet)
  ultimately show "\<exists>seen. changeObserver ?r = Some seen \<and> seen \<noteq> [] \<and> last seen = storeSnapshot ?r"
    by (auto simp: observing_def observer_current_def)
next
  assume r: "RestoreState st others r = (None, t) \<and> changeObserver r \<noteq> None \<and> changeObserver t = Some seen \<and>
    version t \<noteq> saVersion st"
  then have "snVersion (last seen) = saVersion st"
    using restore_hands_over [of st others r t seen] by (simp add: observing_def)
  moreover have "snVersion (storeSnapshot t) = version t" by (simp add: storeSnapshot_def snapshot_def Let_def)
  ultimately show "last seen \<noteq> storeSnapshot t" using r by metis
qed

theorem observer_never_behind_witness:
  "(\<exists>seen. changeObserver (ClearAllFaults (snd (SetInterfaceFault ''e0'' FaultLinkDown 1 (SetChangeObserver True sampleStore)))) =
      Some seen \<and> seen \<noteq> [] \<and>
    last seen = storeSnapshot (ClearAllFaults (snd (SetInterfaceFault ''e0'' FaultLinkDown 1 (SetChangeObserver True sampleStore))))) \<and>
   (\<exists>t seen. RestoreState (ExportState sampleStore) SaveStartup (SetChangeObserver True sampleStore) = (None, t) \<and>
      changeObserver t = Some seen \<and> last seen \<noteq> storeSnapshot t)"
proof
  show "\<exists>seen. changeObserver (ClearAllFaults (snd (SetInterfaceFault ''e0'' FaultLinkDown 1 (SetChangeObserver True sampleStore)))) =
      Some seen \<and> seen \<noteq> [] \<and>
    last seen = storeSnapshot (ClearAllFaults (snd (SetInterfaceFault ''e0'' FaultLinkDown 1 (SetChangeObserver True sampleStore))))"
    using observer_never_behind [of "[OpSetInterfaceFault ''e0'' FaultLinkDown 1, OpClearAllFaults]" sampleStore]
    by (simp add: installs_stations_def)
next
  let ?r = "SetChangeObserver True sampleStore" and ?st = "ExportState sampleStore"
  have v: "validateState ?st (authoredInterfaces ?r) = None"
    using export_valid [OF sampleStore_inv, of ?r] by (simp add: SetChangeObserver_def)
  obtain t where t: "RestoreState ?st SaveStartup ?r = (None, t)" by (simp add: RestoreState_def v Let_def)
  have "observing ?r" by (simp add: SetChangeObserver_def)
  then have u: "observing (SaveStartup (installState ?st ?r))" "version (SaveStartup (installState ?st ?r)) = saVersion ?st + 1"
    by (simp_all add: SaveStartup_def installState_def store_frame)
  with t have "observing t \<and> version t = saVersion ?st + 1"
    by (auto simp: RestoreState_def v Let_def observing_def split: option.splits)
  then have "observing t" "version t \<noteq> saVersion ?st" by simp_all
  from \<open>observing t\<close> obtain seen where seen: "changeObserver t = Some seen" by (auto simp: observing_def)
  have "changeObserver ?r \<noteq> None" by (simp add: SetChangeObserver_def)
  then have "last seen \<noteq> storeSnapshot t"
    using observer_never_behind [of "[]" sampleStore ?st SaveStartup ?r t seen] t seen \<open>version t \<noteq> saVersion ?st\<close> by blast
  then show "\<exists>t seen. RestoreState ?st SaveStartup ?r = (None, t) \<and> changeObserver t = Some seen \<and> last seen \<noteq> storeSnapshot t"
    using t seen by blast
qed

lemma run_transitions:
  "(tidy s \<longrightarrow> transitions_current s) \<Longrightarrow>
     tidy (run_ops step xs s) \<longrightarrow> transitions_current (run_ops step xs s)"
proof (induction xs arbitrary: s)
  case (Cons x xs)
  have "tidy (step x s) \<longrightarrow> transitions_current (step x s)"
  proof (cases "installs_stations x")
    case True
    then obtain sts where "x = OpInstallStations sts" by (auto simp: installs_stations_def split: op.splits)
    with Cons.prems show ?thesis
      by (simp add: InstallStations_def tidy_def transitions_current_def projectedInterfaces_eq split: option.split)
  next
    case False
    with Cons.prems show ?thesis by (rule trans.step_follows)
  qed
  with Cons.IH show ?case by simp
qed simp

text \<open>C11 (transitions_follow): along every permitted run from a new store whose clock never reads before the Unix epoch, the last-change table has, for
  each interface of the projected network, an entry that records its present operational state.\<close>

theorem transitions_follow:
  assumes "\<And>n. unixEpoch \<le> clock n" "run_ok step permitted ops (NewStore i clock)"
  shows "\<forall>f \<in> set (nwInterfaces (snNetwork (storeSnapshot (run_ops step ops (NewStore i clock))))).
    \<exists>t. map_of (interfaceTransitions (run_ops step ops (NewStore i clock))) (ifName f) = Some t \<and> trOperUp t = ifOperUp f"
proof -
  let ?s = "NewStore i clock"
  have "transitions_current ?s"
    by (simp add: transitions_current_def projectedInterfaces_eq NewStore_def emptyNetwork_def Let_def)
  then have "tidy (run_ops step ops ?s) \<longrightarrow> transitions_current (run_ops step ops ?s)"
    by (intro run_transitions) simp
  moreover have "tidy (run_ops step ops ?s)"
    using dev.run_inv [OF NewStore_inv [OF assms(1)] assms(2)] by (rule store_inv_tidy)
  ultimately show ?thesis
    by (simp add: transitions_current_def projectedInterfaces_def)
qed

theorem transitions_follow_witness:
  "\<exists>t. map_of (interfaceTransitions sampleStore) ''e0'' = Some t \<and>
     trOperUp t = ifOperUp (nwInterfaces (snNetwork (storeSnapshot sampleStore)) ! 0)"
proof -
  let ?fs = "nwInterfaces (snNetwork (storeSnapshot sampleStore))"
  have "\<forall>f \<in> set ?fs. \<exists>t. map_of (interfaceTransitions sampleStore) (ifName f) = Some t \<and> trOperUp t = ifOperUp f"
    using transitions_follow [of "\<lambda>_. unixEpoch" "[OpReplaceNetwork sampleNetwork]" "\<lparr>Hostname = ''r1''\<rparr>"]
      sample_permitted
    by (simp flip: sampleNew_def sampleStore_def)
  moreover have "?fs \<noteq> []" "ifName (?fs ! 0) = ''e0''"
    by (simp_all add: storeSnapshot_def snapshot_def applyCarrierFaults_def takeCarrier_def sampleInterface_def)
  ultimately show ?thesis by (metis length_greater_0_conv nth_mem)
qed

end
