(* ===== verification/Device_Laws.thy ===== *)
theory Device_Laws
  imports Device_Props
begin

text \<open>
  Laws of single operations and pairs of operations of the device store: last-change stamps,
  checkpoints, one-shot actions, optimistic transactions, refused operations, versions, carrier faults,
  connected routes, cursor reads of the journal and the label catalogs.
\<close>

section \<open>Last change\<close>

text \<open>When a change is signalled, the last-change time of an interface moves exactly
  when its projected operational state differs from the one recorded before, and then to the clock's reading;
  all interfaces that moved in one change get that same reading, and one seen for the first time gets none.\<close>

theorem last_change_stamp:
  assumes "\<And>n. now s n \<noteq> 0" "distinct (map ifName (runningInterfaces s))"
    and "i \<in> set (nwInterfaces (snNetwork (storeSnapshot s)))"
  shows "InterfaceLastChange (ifName i) (signalChange s) =
    (case map_of (interfaceTransitions s) (ifName i) of
       None \<Rightarrow> 0
     | Some t \<Rightarrow> if trOperUp t = ifOperUp i then trChangedAt t else now s (ticks s))"
  using transitions_lookup [of s i] assms
  by (simp add: InterfaceLastChange_def interfaceTransitions_signal transition_entry_def names_of_def
      projectedInterfaces_def split: option.split)

theorem last_change_stamp_witness:
  "InterfaceLastChange ''e0'' (signalChange (sampleStore\<lparr>faults :=
      [((''e0'', FaultLinkDown), \<lparr>ftInterface = ''e0'', ftType = FaultLinkDown, ftValue = 1\<rparr>)],
      interfaceTransitions := [(''e0'', \<lparr>trOperUp = True, trChangedAt = 0\<rparr>)]\<rparr>)) = unixEpoch"
proof -
  let ?s = "sampleStore\<lparr>faults := [((''e0'', FaultLinkDown), \<lparr>ftInterface = ''e0'', ftType = FaultLinkDown, ftValue = 1\<rparr>)],
      interfaceTransitions := [(''e0'', \<lparr>trOperUp = True, trChangedAt = 0\<rparr>)]\<rparr>"
  let ?i = "(sampleInterface ''e0'')\<lparr>ifCarrierUp := False, ifOperUp := False\<rparr>"
  have now: "now sampleStore n = unixEpoch" for n
    by (simp add: sampleStore_def ReplaceNetwork_def Let_def)
  have i: "?i \<in> set (nwInterfaces (snNetwork (storeSnapshot ?s)))" "ifName ?i = ''e0''"
    by (simp_all add: storeSnapshot_def snapshot_def applyCarrierFaults_def takeCarrier_def sampleInterface_def
        isCarrierFault_def Let_def)
  show ?thesis
    using last_change_stamp [of ?s ?i, OF _ _ i(1)]
    by (simp add: now i(2) unixEpoch_def) (simp add: sampleInterface_def)
qed

section \<open>Checkpoints and one-shot actions\<close>

text \<open>C37 (checkpoint_brings_back): restoring a named checkpoint after any operations that neither save that
  name again nor restore a durable record brings back the running configuration, all four kinds of
  faults, stations, radio powers and telemetry of the moment it was saved; startup and saved checkpoints stay.\<close>

theorem checkpoint_brings_back:
  assumes "list_all (\<lambda>x. \<not> rewrites_checkpoint n x) ops" "t = run_ops step ops (SaveCheckpoint n s)"
  shows "\<exists>r. RestoreCheckpoint n t = (None, r) \<and>
    running r = running s \<and> faults r = faults s \<and> addressFaults r = addressFaults s \<and>
    prefixFaults r = prefixFaults s \<and> deviceFaults r = deviceFaults s \<and> stations r = stations s \<and>
    radioTxPower r = radioTxPower s \<and> telemetry r = telemetry s \<and>
    startup r = startup t \<and> checkpoints r = checkpoints t \<and> version r = version t + 1"
proof -
  have "map_of (checkpoints t) n = map_of (checkpoints (SaveCheckpoint n s)) n"
    using assms by (simp add: run_checkpoint)
  then show ?thesis
    by (simp add: SaveCheckpoint_def RestoreCheckpoint_def gm_simps)
qed

theorem checkpoint_brings_back_witness:
  "\<exists>r. RestoreCheckpoint ''a'' (SaveCheckpoint ''b'' (ClearAllFaults (SaveCheckpoint ''a''
      (snd (SetInterfaceFault ''e0'' FaultFCS 5 sampleStore))))) = (None, r) \<and>
    faults r = faults (snd (SetInterfaceFault ''e0'' FaultFCS 5 sampleStore))"
  using checkpoint_brings_back [of "''a''" "[OpClearAllFaults, OpSaveCheckpoint ''b'']" _
      "snd (SetInterfaceFault ''e0'' FaultFCS 5 sampleStore)", OF _ refl]
  by auto

text \<open>Once a one-shot action has been executed under an identifier, then after any other
  operations short of restoring a durable record, submitting it again reports "not executed" without an error and
  changes nothing, and reusing the identifier for the other action is refused as a conflict.\<close>

theorem action_once:
  assumes "ExecuteDeviceAction k i s = ((True, None), s')" "list_all (\<lambda>x. \<not> restores_state x) ops"
    and "t = run_ops step ops s'"
  shows "ExecuteDeviceAction k i t = ((False, None), t) \<and>
    (\<forall>k'. validDeviceAction k' \<and> k' \<noteq> k \<longrightarrow>
      ExecuteDeviceAction k' i t = ((False, Some ErrDeviceActionConflict), t))"
proof -
  have v: "validDeviceAction k" "i \<noteq> []" "length i \<le> maxDeviceActionIDLength"
    and c: "consumedActions s' = gm_put i k (consumedActions s)"
    using assms(1) by (auto simp: ExecuteDeviceAction_def readNow_def Let_def not_less split: option.splits if_splits)
  have "map_of (consumedActions t) i = Some k"
    using run_consumed [OF assms(2), of s' i k] by (simp add: assms(3) c gm_simps)
  then show ?thesis
    using v by (simp add: ExecuteDeviceAction_def not_less)
qed

theorem action_once_witness:
  "\<exists>s'. ExecuteDeviceAction ActionReboot ''job-1'' sampleStore = ((True, None), s') \<and>
    ExecuteDeviceAction ActionReboot ''job-1'' (ClearAllFaults s') = ((False, None), ClearAllFaults s') \<and>
    ExecuteDeviceAction ActionSTPTopologyChange ''job-1'' (ClearAllFaults s') =
      ((False, Some ErrDeviceActionConflict), ClearAllFaults s')"
proof -
  obtain s' where s': "ExecuteDeviceAction ActionReboot ''job-1'' sampleStore = ((True, None), s')"
    by (auto simp: ExecuteDeviceAction_def readNow_def validDeviceAction_def maxDeviceActionIDLength_def
        maxConsumedDeviceActions_def Let_def)
  show ?thesis
    using action_once [OF s', of "[OpClearAllFaults]", OF _ refl] s'
    by (simp add: restores_state_def validDeviceAction_def)
qed

section \<open>Transactions, errors and versions\<close>

text \<open>An interface transaction that read the store, released the lock, and finds
  that another goroutine committed in between reports an error and leaves exactly what the other committed.\<close>

theorem stale_update_refused:
  assumes "version (others s) \<noteq> version s" "interfaceExists (runningInterfaces s) name"
  shows "\<exists>e. UpdateInterface name update others s = (Some e, others s) \<and>
    (e \<noteq> ErrConcurrentUpdate \<longrightarrow> (\<exists>k. update (runningInterfaces s ! k) = Inl e) \<or> e = ErrInterfaceRename)"
proof -
  obtain k where "index_of (\<lambda>i. ifName i = name) (runningInterfaces s) = Some k"
    using assms(2) index_of_None [of "\<lambda>i. ifName i = name" "runningInterfaces s"]
    by (fastforce simp: interfaceExists_def list_ex_iff)
  then show ?thesis
    using assms(1) by (auto simp: UpdateInterface_def Let_def split: sum.split)
qed

theorem stale_update_refused_witness:
  "\<exists>e. UpdateInterface ''e0'' (\<lambda>i. Inr (i\<lparr>ifAdminUp := False\<rparr>)) SaveStartup sampleStore = (Some e, SaveStartup sampleStore)"
proof -
  have "version (SaveStartup sampleStore) \<noteq> version sampleStore" by (simp add: SaveStartup_def)
  then show ?thesis
    using stale_update_refused [of SaveStartup sampleStore "''e0''" "\<lambda>i. Inr (i\<lparr>ifAdminUp := False\<rparr>)"]
    by (auto simp: interfaceExists_def sampleInterface_def)
qed

text \<open>An operation that reports an error, whichever operation and whichever
  error, leaves the store exactly as it was: configuration, faults, journal, version, clock and notifications.\<close>

theorem refused_unchanged:
  assumes "outcome x s \<noteq> None"
  shows "step x s = s"
  using outcome_unchanged [of x s] assms by simp

theorem refused_unchanged_witness:
  "outcome (OpSetInterfaceFault ''e0'' FaultLinkDown 101) sampleStore = Some ErrFaultValueInvalid \<and>
   step (OpSetInterfaceFault ''e0'' FaultLinkDown 101) sampleStore = sampleStore"
proof -
  have "outcome (OpSetInterfaceFault ''e0'' FaultLinkDown 101) sampleStore = Some ErrFaultValueInvalid"
    by (simp add: SetInterfaceFault_def validFaultType_iff)
  with refused_unchanged [of "OpSetInterfaceFault ''e0'' FaultLinkDown 101" sampleStore] show ?thesis by simp
qed

text \<open>For every operation other than restoring a record and installing stations, an
  unchanged version means an unchanged durable record, and a committed change raises the version by at least one
  and by at most one more than the number of interfaces.\<close>

theorem version_tells:
  assumes "room s" "\<not> replaces_state x"
  shows "if version (step x s) = version s then ExportState (step x s) = ExportState s
    else unat (version s) < unat (version (step x s)) \<and>
      unat (version (step x s)) \<le> unat (version s) + 1 + length (runningInterfaces s)"
proof -
  have "ExportState (step x s) = ExportState s \<and> version (step x s) = version s" if "same_state (step x s) s"
    using that core_eqD [of "step x s" s] by (simp add: same_state_def ExportState_def)
  then show ?thesis
    using step_newer [OF assms] by (auto simp: newer_def)
qed

theorem version_tells_witness:
  "2 < unat (version (SaveStartup sampleStore)) \<and> unat (version (SaveStartup sampleStore)) \<le> 2 + 1 + 2"
proof -
  have "version (SaveStartup sampleStore) \<noteq> version sampleStore" by (simp add: SaveStartup_def)
  with version_tells [of sampleStore OpSaveStartup] show ?thesis by simp
qed

text \<open>Installing stations changes the record that would be saved, but
  not the version: the version alone does not tell whether the durable record is up to date.\<close>

theorem install_stations_keeps_version:
  assumes "installLoop [] sts = Some installed" "sortedStations installed \<noteq> sortedStations (stations s)"
  shows "version (snd (InstallStations sts s)) = version s \<and>
    ExportState (snd (InstallStations sts s)) \<noteq> ExportState s"
  using assms by (simp add: InstallStations_def ExportState_def)

theorem install_stations_keeps_version_witness:
  "version (snd (InstallStations [\<lparr>stMAC = ''00:11:22:33:44:55'', stRadio = ''e0'', stIPAddress = V4 0x0A000002,
      stSignalDBM = -50, stSignalQualityPct = 80, stAssociatedAt = 0, stReturnRadio = []\<rparr>] sampleStore)) = 2 \<and>
   ExportState (snd (InstallStations [\<lparr>stMAC = ''00:11:22:33:44:55'', stRadio = ''e0'', stIPAddress = V4 0x0A000002,
      stSignalDBM = -50, stSignalQualityPct = 80, stAssociatedAt = 0, stReturnRadio = []\<rparr>] sampleStore)) \<noteq>
   ExportState sampleStore"
proof -
  let ?st = "\<lparr>stMAC = ''00:11:22:33:44:55'', stRadio = ''e0'', stIPAddress = V4 0x0A000002,
      stSignalDBM = -50, stSignalQualityPct = 80, stAssociatedAt = 0, stReturnRadio = []\<rparr>"
  have "canonicalMAC ''00:11:22:33:44:55'' = Some ''00:11:22:33:44:55''"
    by code_simp
  then have "installLoop [] [?st] = Some [(stMAC ?st, ?st)]"
    by (simp add: canonicalStation_def Is4_def)
  moreover have "stations sampleStore = []"
    by (simp add: sampleStore_def ReplaceNetwork_def Let_def) (simp add: sampleNew_def NewStore_def Let_def)
  ultimately show ?thesis
    using install_stations_keeps_version [of "[?st]" "[(stMAC ?st, ?st)]" sampleStore]
    by (simp add: sortedStations_def gm_export_def)
qed

section \<open>Carrier faults\<close>

lemma carrierTaken_map:
  "gm_wf m \<Longrightarrow> n \<in> carrierTaken m \<longleftrightarrow> (\<exists>t f. map_of m (n, t) = Some f \<and> isCarrierFault t \<and> 0 < ftValue f)"
  by (force simp: carrierTaken_def gm_wf_map_of_mem)

text \<open>In the network every consumer sees, an interface is operationally up exactly
  when its configured state is up and no armed carrier fault (link down, PoE loss) names it; its name, address
  and admin state are untouched, and the result does not depend on the order in which the fault map is
  traversed.\<close>

theorem carrier_projection:
  assumes "gm_wf (faults s)" "k < length (runningInterfaces s)" "set m = set (faults s)"
    and "i = runningInterfaces s ! k" "p = nwInterfaces (snNetwork (storeSnapshot s)) ! k"
  shows "ifName p = ifName i \<and> ifAdminUp p = ifAdminUp i \<and> ifAddress p = ifAddress i \<and>
    (ifOperUp p \<longleftrightarrow> ifOperUp i \<and>
      \<not> (\<exists>t f. map_of (faults s) (ifName i, t) = Some f \<and> t \<in> {FaultLinkDown, FaultPoELoss} \<and> 0 < ftValue f)) \<and>
    applyCarrierFaults (runningInterfaces s) m = nwInterfaces (snNetwork (storeSnapshot s))"
proof -
  have "carrierTaken m = carrierTaken (faults s)"
    using assms(3) by (simp add: carrierTaken_def)
  then have eq: "applyCarrierFaults (runningInterfaces s) m = nwInterfaces (snNetwork (storeSnapshot s))"
    by (simp add: storeSnapshot_def snapshot_def applyCarrierFaults_eq Let_def)
  have "p = (if ifName i \<in> carrierTaken (faults s) then takeCarrier (ifName i) i else i)"
    using assms(2,4,5) by (simp add: storeSnapshot_def snapshot_def applyCarrierFaults_eq Let_def)
  moreover have "ifName i \<in> carrierTaken (faults s) \<longleftrightarrow>
      (\<exists>t f. map_of (faults s) (ifName i, t) = Some f \<and> t \<in> {FaultLinkDown, FaultPoELoss} \<and> 0 < ftValue f)"
    by (simp add: carrierTaken_map [OF assms(1)] isCarrierFault_iff)
  ultimately show ?thesis
    using eq by (simp add: takeCarrier_def)
qed

theorem carrier_projection_witness:
  "ifOperUp (nwInterfaces (snNetwork (storeSnapshot sampleStore)) ! 0) \<longleftrightarrow>
     ifOperUp (runningInterfaces sampleStore ! 0) \<and>
     \<not> (\<exists>t f. map_of (faults sampleStore) (ifName (runningInterfaces sampleStore ! 0), t) = Some f \<and>
         t \<in> {FaultLinkDown, FaultPoELoss} \<and> 0 < ftValue f)"
  using carrier_projection [of sampleStore 0 "faults sampleStore", OF _ _ refl refl refl] by simp

text \<open>Arming an interface fault that was not armed and clearing it again gives back the
  fault table, the running configuration and the projected network of before, while an armed carrier fault
  takes the interface down in between.\<close>

theorem fault_set_clear:
  assumes "store_inv s" "validFaultType t" "0 < v" "v \<le> 100" "interfaceExists (runningInterfaces s) n"
    and "map_of (faults s) (n, t) = None"
    and "SetInterfaceFault n t v s = (e1, s1)" "SetInterfaceFault n t 0 s1 = (e2, s2)"
  shows "e1 = None \<and> e2 = None \<and> faults s2 = faults s \<and> running s2 = running s \<and>
    snNetwork (storeSnapshot s2) = snNetwork (storeSnapshot s) \<and>
    (isCarrierFault t \<longrightarrow> (\<forall>i \<in> set (nwInterfaces (snNetwork (storeSnapshot s1))). ifName i = n \<longrightarrow> \<not> ifOperUp i))"
proof -
  let ?f = "\<lparr>ftInterface = n, ftType = t, ftValue = v\<rparr>"
  have wf: "gm_wf (faults s)"
    using assms(1) by (simp add: store_inv_def point_ok_def currentCheckpoint_def table_ok_def)
  have s1: "e1 = None" "faults s1 = gm_put (n, t) ?f (faults s)" "running s1 = running s"
    using assms(2-7) by (auto simp: SetInterfaceFault_def Let_def)
  have s2: "e2 = None" "faults s2 = gm_del (n, t) (faults s1)" "running s2 = running s1"
    using assms(2,5,8) s1 by (auto simp: SetInterfaceFault_def Let_def gm_simps)
  have "faults s2 = faults s"
    using gm.del_undoes_put [OF wf assms(6)] s1(2) s2(2) by simp
  moreover have "isCarrierFault t \<Longrightarrow> n \<in> carrierTaken (faults s1)"
    using assms(3) wf by (auto simp: s1(2) carrierTaken_map gm_intros gm_simps)
  then have "isCarrierFault t \<longrightarrow> (\<forall>i \<in> set (nwInterfaces (snNetwork (storeSnapshot s1))). ifName i = n \<longrightarrow> \<not> ifOperUp i)"
    by (auto simp: storeSnapshot_def snapshot_def applyCarrierFaults_eq takeCarrier_def Let_def)
  ultimately show ?thesis
    using s1 s2 by (simp add: storeSnapshot_def snapshot_def Let_def)
qed

theorem fault_set_clear_witness:
  "snNetwork (storeSnapshot (snd (SetInterfaceFault ''e0'' FaultLinkDown 0
      (snd (SetInterfaceFault ''e0'' FaultLinkDown 100 sampleStore))))) = snNetwork (storeSnapshot sampleStore)"
  using fault_set_clear [of sampleStore FaultLinkDown 100 "''e0''", OF _ _ _ _ _ _ surjective_pairing surjective_pairing]
  by (simp add: validFaultType_iff interfaceExists_def sampleInterface_def)

section \<open>Connected routes\<close>

definition connectedVia :: "string \<Rightarrow> Route \<Rightarrow> bool" where
  "connectedVia n r \<longleftrightarrow> rtConnected r \<and> rtVia r = n"

definition connected_expected :: "Interface \<Rightarrow> Route list" where
  "connected_expected i =
     (if prefixIsValid (ifAddress i) \<and> ifAdminUp i \<and> ifOperUp i
      then [\<lparr>rtDestination = Masked (ifAddress i), rtVia = ifName i, rtNextHop = NoAddr, rtConnected = True\<rparr>]
      else [])"

definition connected_ok :: "Network \<Rightarrow> bool" where
  "connected_ok n \<longleftrightarrow>
     (\<forall>i \<in> set (nwInterfaces n). filter (connectedVia (ifName i)) (nwRoutes n) = connected_expected i)"

lemma filter_connected_reconcile:
  "filter (connectedVia n) (reconcileConnectedRoute routes i) =
     (if n = ifName i then connected_expected i else filter (connectedVia n) routes)"
proof -
  have "filter (connectedVia n) (filter (\<lambda>r. \<not> (rtConnected r \<and> rtVia r = ifName i)) routes) =
      (if n = ifName i then [] else filter (connectedVia n) routes)"
    by (auto simp: connectedVia_def filter_empty_conv intro!: filter_cong)
  then show ?thesis
    by (simp add: reconcileConnectedRoute_def connected_expected_def connectedVia_def Let_def)
qed

lemma connected_ok_update:
  assumes "connected_ok n" "k < length (nwInterfaces n)" "distinct (map ifName (nwInterfaces n))"
    and "ifName nxt = ifName (nwInterfaces n ! k)"
    and "routes = reconcileConnectedRoute (nwRoutes n) nxt \<or>
      routes = nwRoutes n \<and> connected_expected nxt = connected_expected (nwInterfaces n ! k)"
  shows "connected_ok (n\<lparr>nwInterfaces := (nwInterfaces n)[k := nxt], nwRoutes := routes\<rparr>)"
  unfolding connected_ok_def
proof (clarsimp simp: in_set_conv_nth)
  fix j assume j: "j < length (nwInterfaces n)"
  let ?i = "nwInterfaces n ! j"
  have old: "filter (connectedVia (ifName ?i)) (nwRoutes n) = connected_expected ?i"
    using assms(1) j by (simp add: connected_ok_def)
  show "filter (connectedVia (ifName ((nwInterfaces n)[k := nxt] ! j))) routes =
      connected_expected ((nwInterfaces n)[k := nxt] ! j)"
  proof (cases "j = k")
    case True
    then show ?thesis
      using assms(2,4,5) old by (auto simp: filter_connected_reconcile)
  next
    case False
    then have "ifName ?i \<noteq> ifName nxt"
      using assms(2-4) j nth_eq_iff_index_eq [OF assms(3), of j k] by simp
    then show ?thesis
      using assms(5) old False by (auto simp: filter_connected_reconcile)
  qed
qed

text \<open>When every interface of the running network has exactly its connected
  route while it is addressed and up and none otherwise, a successful interface update leaves it so, whichever
  fields the update changed; routes that are not connected routes of that interface stay.\<close>

theorem connected_routes_kept:
  assumes "connected_ok (cfNetwork (running s))" "distinct (map ifName (runningInterfaces s))"
    and "UpdateInterface name update (\<lambda>x. x) s = (None, s')"
  shows "connected_ok (cfNetwork (running s')) \<and>
    filter (\<lambda>r. \<not> connectedVia name r) (nwRoutes (cfNetwork (running s'))) =
      filter (\<lambda>r. \<not> connectedVia name r) (nwRoutes (cfNetwork (running s)))"
proof -
  let ?n = "cfNetwork (running s)"
  obtain k nxt where k: "index_of (\<lambda>i. ifName i = name) (nwInterfaces ?n) = Some k"
    and u: "update (nwInterfaces ?n ! k) = Inr nxt" and nm: "ifName nxt = ifName (nwInterfaces ?n ! k)"
    using assms(3) by (auto simp: UpdateInterface_def Let_def split: option.splits sum.splits if_splits)
  let ?c = "nwInterfaces ?n ! k"
  let ?moved = "ifAddress ?c \<noteq> ifAddress nxt \<or> ifAdminUp ?c \<noteq> ifAdminUp nxt \<or> ifOperUp ?c \<noteq> ifOperUp nxt"
  let ?routes = "if ?moved then reconcileConnectedRoute (nwRoutes ?n) nxt else nwRoutes ?n"
  have kl: "k < length (nwInterfaces ?n)" "ifName ?c = name"
    using index_of_Some [OF k] by auto
  have net: "cfNetwork (running s') = ?n\<lparr>nwInterfaces := (nwInterfaces ?n)[k := nxt], nwRoutes := ?routes\<rparr>"
    using assms(3) k u nm kl by (auto simp: UpdateInterface_def Let_def)
  have "connected_expected nxt = connected_expected ?c" if "\<not> ?moved"
    using that nm by (simp add: connected_expected_def)
  then have "connected_ok (cfNetwork (running s'))"
    unfolding net using assms(1,2) kl(1) nm by (intro connected_ok_update) auto
  moreover have "filter (\<lambda>r. \<not> connectedVia name r) (reconcileConnectedRoute (nwRoutes ?n) nxt) =
      filter (\<lambda>r. \<not> connectedVia name r) (nwRoutes ?n)"
    using nm kl(2) by (simp add: reconcileConnectedRoute_def connectedVia_def Let_def)
  ultimately show ?thesis
    by (simp add: net)
qed

theorem connected_routes_kept_witness:
  "let s = snd (UpdateInterface ''e0'' (\<lambda>i. Inr (i\<lparr>ifAdminUp := False, ifOperUp := False\<rparr>)) (\<lambda>x. x)
       (sampleStore\<lparr>running := \<lparr>cfIdentity = \<lparr>Hostname = ''r1''\<rparr>, cfNetwork = emptyNetwork\<lparr>
          nwInterfaces := [sampleInterface ''e0''], nwRoutes := connected_expected (sampleInterface ''e0'')\<rparr>\<rparr>\<rparr>))
   in connected_ok (cfNetwork (running s))"
proof -
  let ?s = "sampleStore\<lparr>running := \<lparr>cfIdentity = \<lparr>Hostname = ''r1''\<rparr>, cfNetwork = emptyNetwork\<lparr>
          nwInterfaces := [sampleInterface ''e0''], nwRoutes := connected_expected (sampleInterface ''e0'')\<rparr>\<rparr>\<rparr>"
  let ?u = "\<lambda>i. Inr (i\<lparr>ifAdminUp := False, ifOperUp := False\<rparr>)"
  have "fst (UpdateInterface ''e0'' ?u (\<lambda>x. x) ?s) = None"
    by (simp add: UpdateInterface_def sampleInterface_def Let_def)
  moreover have "connected_ok (cfNetwork (running ?s))"
    by (simp add: connected_ok_def connected_expected_def connectedVia_def)
  ultimately show ?thesis
    using connected_routes_kept [of ?s "''e0''" ?u "snd (UpdateInterface ''e0'' ?u (\<lambda>x. x) ?s)"]
    by (simp add: prod_eq_iff)
qed

section \<open>Reading the journal from a cursor\<close>

lemma dropWhile_sorted:
  assumes "sorted (map evVersion es)"
  shows "dropWhile (\<lambda>x. \<not> v < evVersion x) es = filter (\<lambda>x. v < evVersion x) es"
  using assms
proof (induction es)
  case (Cons e es)
  show ?case
  proof (cases "v < evVersion e")
    case True
    with Cons.prems have "\<forall>x \<in> set es. v < evVersion x" by auto
    with True show ?thesis by (simp add: filter_id_conv)
  next
    case False
    with Cons show ?thesis by simp
  qed
qed simp

text \<open>Let the journal be the tail that is left of the log of all events, each
  with a greater version than the one before.  A cursor read that claims to be complete returns exactly the
  events of the log newer than the cursor, in order, and one that does not returns the whole window.\<close>

theorem events_after_complete:
  assumes "log = dropped @ events s" "sorted_wrt (<) (map evVersion log)"
    and "EventsAfter cursor s = (es, complete)" "events s \<noteq> [] \<or> dropped = []"
  shows "if complete then es = filter (\<lambda>e. max cursor initialStoreVersion < evVersion e) log else es = events s"
proof (cases "events s")
  case Nil
  with assms show ?thesis by (auto simp: EventsAfter_def Let_def)
next
  case (Cons e rest)
  let ?v = "max cursor initialStoreVersion"
  have srt: "sorted (map evVersion (events s))"
    using assms(1,2) by (auto simp: sorted_wrt_append strict_sorted_imp_sorted)
  have below: "\<forall>d \<in> set dropped. evVersion d < evVersion e"
    using assms(1,2) by (auto simp: sorted_wrt_append Cons)
  show ?thesis
  proof (cases "?v < evVersion e \<and> 1 < evVersion e - ?v")
    case True
    with assms(3) show ?thesis by (auto simp: EventsAfter_def Let_def Cons)
  next
    case False
    then have "es = filter (\<lambda>x. ?v < evVersion x) (events s)" "complete"
      using assms(3) dropWhile_sorted [OF srt, of ?v] by (auto simp: EventsAfter_def Let_def Cons)
    moreover have "\<not> ?v < evVersion d" if "d \<in> set dropped" for d
    proof
      assume lt: "?v < evVersion d"
      have "evVersion d < evVersion e" using below that by blast
      with lt have "unat ?v + 1 < unat (evVersion e)" by (simp add: word_less_nat_alt)
      then have "unat (evVersion e - ?v) > 1" "?v < evVersion e"
        by (simp_all add: unat_sub word_le_nat_alt word_less_nat_alt)
      with False show False by (simp add: word_less_nat_alt)
    qed
    ultimately show ?thesis
      by (simp add: assms(1) filter_empty_conv)
  qed
qed

definition sampleEvent :: "64 word \<Rightarrow> Event" where
  "sampleEvent v = \<lparr>evVersion = v, evKind = EventStartupSaved, evTarget = [], evInterface = None,
     evPreviousInterface = None, evInterfaceIndex = 0, evTimestamp = unixEpoch\<rparr>"

theorem events_after_complete_witness:
  "EventsAfter 5 (sampleStore\<lparr>events := [sampleEvent 6, sampleEvent 7]\<rparr>) = ([sampleEvent 6, sampleEvent 7], True)"
proof -
  let ?s = "sampleStore\<lparr>events := [sampleEvent 6, sampleEvent 7]\<rparr>"
  have "sorted_wrt (<) (map evVersion [sampleEvent 4, sampleEvent 5, sampleEvent 6, sampleEvent 7])"
    by (simp add: sampleEvent_def)
  then have res: "if snd (EventsAfter 5 ?s) then fst (EventsAfter 5 ?s) = filter (\<lambda>e. max 5 initialStoreVersion < evVersion e)
      [sampleEvent 4, sampleEvent 5, sampleEvent 6, sampleEvent 7] else fst (EventsAfter 5 ?s) = events ?s"
    by (intro events_after_complete [of _ "[sampleEvent 4, sampleEvent 5]" ?s 5, OF _ _ surjective_pairing]) simp_all
  have "snd (EventsAfter 5 ?s)"
    by (simp add: EventsAfter_def initialStoreVersion_def sampleEvent_def Let_def)
  with res show ?thesis
    by (simp add: prod_eq_iff initialStoreVersion_def) (simp add: sampleEvent_def)
qed

text \<open>Lifecycle operations record several events under one version.  When the full
  journal begins with two events of the version right after a reader's cursor, the next event evicts the first of
  them, and a read from that cursor still claims to be complete although that event is gone from the journal.\<close>

theorem events_after_gap:
  assumes "events s = e0 # e1 # rest" "length (events s) = maxEventHistory"
    and "evVersion e0 = cursor + 1" "evVersion e1 = cursor + 1" "initialStoreVersion \<le> cursor" "cursor \<noteq> - 1"
    and "e0 \<notin> set (e1 # rest)" "evKind e0 \<noteq> kind"
  shows "e0 \<in> set (fst (EventsAfter cursor s)) \<and> snd (EventsAfter cursor s) \<and>
    e0 \<notin> set (fst (EventsAfter cursor (recordEvent kind target s))) \<and>
    snd (EventsAfter cursor (recordEvent kind target s))"
proof -
  have "unat cursor \<noteq> unat (- 1 :: 64 word)"
    using assms(6) by (metis unsigned_word_eqI)
  then have "unat cursor \<noteq> 2 ^ 64 - 1"
    by (simp add: unsigned_minus_1_eq_mask mask_eq_exp_minus_1)
  moreover have "unat cursor < 2 ^ 64"
    using unsigned_less [of cursor] by simp
  ultimately have "unat (cursor + 1) = Suc (unat cursor)"
    by (intro unat_Suc_word) simp
  then have c: "cursor < cursor + 1" by (simp add: word_less_nat_alt)
  have v: "max cursor initialStoreVersion = cursor" using assms(5) by (simp add: max_def)
  obtain ts where "events (recordEvent kind target s) = e1 # rest @ [\<lparr>evVersion = version s, evKind = kind,
      evTarget = target, evInterface = None, evPreviousInterface = None, evInterfaceIndex = 0, evTimestamp = ts\<rparr>]"
    using events_recordEvent [of kind target s] assms(1,2) by (auto simp: push_bounded_def)
  moreover have "e0 \<noteq> \<lparr>evVersion = version s, evKind = kind, evTarget = target, evInterface = None,
      evPreviousInterface = None, evInterfaceIndex = 0, evTimestamp = ts\<rparr>"
    using assms(8) by auto
  ultimately show ?thesis
    using assms(1,3,4,7) c by (simp add: EventsAfter_def v Let_def)
qed

theorem events_after_gap_witness:
  "let s = sampleStore\<lparr>version := 7, events := (sampleEvent 6)\<lparr>evKind := EventStartupReloaded\<rparr> #
       sampleEvent 6 # replicate 1022 (sampleEvent 7)\<rparr>
   in snd (EventsAfter 5 (recordEvent EventStartupErased [] s)) \<and>
     (sampleEvent 6)\<lparr>evKind := EventStartupReloaded\<rparr> \<notin> set (fst (EventsAfter 5 (recordEvent EventStartupErased [] s)))"
  using events_after_gap [of "sampleStore\<lparr>version := 7, events := (sampleEvent 6)\<lparr>evKind := EventStartupReloaded\<rparr> #
       sampleEvent 6 # replicate 1022 (sampleEvent 7)\<rparr>" "(sampleEvent 6)\<lparr>evKind := EventStartupReloaded\<rparr>"
       "sampleEvent 6" "replicate 1022 (sampleEvent 7)" 5 EventStartupErased "[]"]
  by (simp add: maxEventHistory_def initialStoreVersion_def sampleEvent_def event_kind_defs)

section \<open>Catalogs\<close>

text \<open>For every type of the interface and device fault catalogs, parsing its label gives the type
  back, and whatever a label parser accepts is the label of the type it returns.\<close>

theorem label_roundtrip:
  "(\<forall>d \<in> set interfaceFaultDefinitions. ParseFaultLabel (faultLabel (fdType d)) = Some (fdType d)) \<and>
   (\<forall>d \<in> set deviceFaultDefinitions. ParseDeviceFaultLabel (deviceFaultLabel (ddType d)) = Some (ddType d)) \<and>
   ParseDeviceFaultLabel (deviceFaultLabel FaultDuplicateDHCPOffer) = Some FaultDuplicateDHCPOffer \<and>
   (\<forall>l t. ParseFaultLabel l = Some t \<longrightarrow> validFaultType t \<and> faultLabel t = l) \<and>
   (\<forall>l t. ParseDeviceFaultLabel l = Some t \<longrightarrow> deviceFaultLabel t = l)"
  by (auto simp: interfaceFaultDefinitions_def deviceFaultDefinitions_def ParseFaultLabel_def faultLabel_def
      ParseDeviceFaultLabel_def deviceFaultLabel_def validFaultType_def fault_type_defs device_fault_type_defs
      split: if_splits)

theorem label_roundtrip_witness:
  "ParseFaultLabel ''PoE Loss'' = Some FaultPoELoss \<and> faultLabel FaultPoELoss = ''PoE Loss'' \<and>
   ParseDeviceFaultLabel (deviceFaultLabel FaultLatency) = Some FaultLatency"
proof -
  have "ParseFaultLabel ''PoE Loss'' = Some FaultPoELoss"
    by (simp add: ParseFaultLabel_def interfaceFaultDefinitions_def)
  with label_roundtrip show ?thesis
    by (auto simp: deviceFaultDefinitions_def)
qed

end
