(* ===== verification/Behavior_Schedule.thy ===== *)
theory Behavior_Schedule
  imports Device_Types "HOL-Library.Multiset"
begin

text \<open>
  Saved behavior timelines (\<open>internal/config/behavior_types.go\<close>) and their compilation into a
  transition list (\<open>internal/behavior/schedule.go\<close>, \<open>schedule_interface_address.go\<close>,
  \<open>schedule_prefix.go\<close>).  Durations are \<open>int64\<close> nanoseconds: every sum and product goes through
  \<open>wrap64\<close>.  The lemmas give the compiled list as a group-by of the scheduled transitions, the order
  inside a group, and the uniqueness of the identifiers that make one-shot actions idempotent.
\<close>

section \<open>Authored timelines (behavior_types.go)\<close>

record BehaviorTraffic =
  btDevice :: string
  btInterface :: string
  btUtilization :: int

record BehaviorFault =
  bfDevice :: string
  bfInterface :: string
  bfType :: string
  bfValue :: int
  bfAddress :: Addr
  bfPrefixBits :: int

record BehaviorAction =
  baDevice :: string
  baType :: string

record BehaviorRoam =
  brStation :: string
  brFrom :: string
  brTo :: string
  brCause :: string
  brTxPowerDBM :: int

record BehaviorPhase =
  phName :: string
  phStartOffset :: int
  phDuration :: int
  phReset :: bool
  phTraffic :: "BehaviorTraffic list"
  phFaults :: "BehaviorFault list"
  phActions :: "BehaviorAction list"
  phRoams :: "BehaviorRoam list"

record BehaviorTimeline =
  tlName :: string
  tlStartOffset :: int
  tlRepeatCount :: int
  tlPhases :: "BehaviorPhase list"

section \<open>Compiled actions (schedule.go)\<close>

record Action =
  acDevice :: string
  acInterface :: string
  acType :: string
  acValue :: int

record DeviceAction =
  daDevice :: string
  daType :: string
  daValue :: int
  daAddress :: Addr
  daClear :: bool

record OneShotAction =
  osDevice :: string
  osType :: string
  osID :: string

record RoamAction =
  raStation :: string
  raFrom :: string
  raTo :: string
  raCause :: string
  raTxPowerDBM :: int
  raReturn :: bool

record InterfaceAddressAction =
  iaDevice :: string
  iaFault :: InterfaceAddressFault
  iaClear :: bool

record InterfacePrefixAction =
  ipDevice :: string
  ipFault :: InterfacePrefixFault
  ipClear :: bool

record PhaseRef =
  prID :: string
  prLabel :: string

record Transition =
  tnOffset :: int
  tnStartPhases :: "PhaseRef list"
  tnEndPhases :: "PhaseRef list"
  tnActions :: "Action list"
  tnDeviceActions :: "DeviceAction list"
  tnAddressActions :: "InterfaceAddressAction list"
  tnPrefixActions :: "InterfacePrefixAction list"
  tnOneShotActions :: "OneShotAction list"
  tnRoamActions :: "RoamAction list"

record scheduledTransition =
  scOffset :: int
  scPhase :: PhaseRef
  scEnd :: bool
  scActions :: "Action list"
  scDeviceActions :: "DeviceAction list"
  scAddressActions :: "InterfaceAddressAction list"
  scPrefixActions :: "InterfacePrefixAction list"
  scOneShotActions :: "OneShotAction list"
  scRoamActions :: "RoamAction list"

definition behaviorCycleDuration :: "BehaviorPhase list \<Rightarrow> int" where
  "behaviorCycleDuration phases =
     foldl (\<lambda>duration p. max duration (wrap64 (phStartOffset p + phDuration p))) 0 phases"

definition trafficAction :: "BehaviorTraffic \<Rightarrow> Action" where
  "trafficAction t = \<lparr>acDevice = btDevice t, acInterface = btInterface t,
     acType = FaultUtilization, acValue = btUtilization t\<rparr>"

fun faultLoop :: "BehaviorFault list \<Rightarrow> Action list \<Rightarrow> DeviceAction list \<Rightarrow> Action list \<times> DeviceAction list" where
  "faultLoop [] as ds = (as, ds)"
| "faultLoop (f # fs) as ds =
     (if bfType f = FaultDuplicateIP \<or> bfType f = FaultBadMask then faultLoop fs as ds
      else if bfInterface f = [] then
        faultLoop fs as (ds @ [\<lparr>daDevice = bfDevice f, daType = bfType f, daValue = bfValue f,
          daAddress = bfAddress f, daClear = False\<rparr>])
      else
        faultLoop fs (as @ [\<lparr>acDevice = bfDevice f, acInterface = bfInterface f,
          acType = bfType f, acValue = bfValue f\<rparr>]) ds)"

definition behaviorActions :: "BehaviorPhase \<Rightarrow> Action list \<times> DeviceAction list" where
  "behaviorActions phase = faultLoop (phFaults phase) (map trafficAction (phTraffic phase)) []"

definition resetActions :: "Action list \<Rightarrow> Action list" where
  "resetActions as = map (\<lambda>a. a\<lparr>acValue := 0\<rparr>) as"

definition resetDeviceActions :: "DeviceAction list \<Rightarrow> DeviceAction list" where
  "resetDeviceActions as = map (\<lambda>a. a\<lparr>daValue := 0, daAddress := NoAddr, daClear := True\<rparr>) as"

definition interfaceAddressActions :: "BehaviorPhase \<Rightarrow> bool \<Rightarrow> InterfaceAddressAction list" where
  "interfaceAddressActions phase clearFault =
     map (\<lambda>f. \<lparr>iaDevice = bfDevice f,
        iaFault = \<lparr>afInterface = bfInterface f, afType = FaultDuplicateIP,
          afAddress = (if clearFault then NoAddr else bfAddress f)\<rparr>,
        iaClear = clearFault\<rparr>)
       (filter (\<lambda>f. bfType f = FaultDuplicateIP) (phFaults phase))"

definition interfacePrefixActions :: "BehaviorPhase \<Rightarrow> bool \<Rightarrow> InterfacePrefixAction list" where
  "interfacePrefixActions phase clearFault =
     map (\<lambda>f. \<lparr>ipDevice = bfDevice f,
        ipFault = \<lparr>pfInterface = bfInterface f, pfType = FaultBadMask, pfPrefixBits = bfPrefixBits f\<rparr>,
        ipClear = clearFault\<rparr>)
       (filter (\<lambda>f. bfType f = FaultBadMask) (phFaults phase))"

definition compileOneShotActions :: "BehaviorAction list \<Rightarrow> string \<Rightarrow> OneShotAction list" where
  "compileOneShotActions as phaseID =
     map (\<lambda>(index, a). \<lparr>osDevice = baDevice a, osType = baType a, osID = phaseID @ '':'' @ itoa (int index)\<rparr>)
       (enumerate 0 as)"

definition roamActions :: "BehaviorRoam list \<Rightarrow> bool \<Rightarrow> RoamAction list" where
  "roamActions roams reset =
     map (\<lambda>r. let a = \<lparr>raStation = brStation r, raFrom = brFrom r, raTo = brTo r, raCause = brCause r,
                raTxPowerDBM = brTxPowerDBM r, raReturn = False\<rparr>
              in if reset then a\<lparr>raFrom := brTo r, raTo := brFrom r, raReturn := True\<rparr> else a) roams"

section \<open>Compile\<close>

definition phaseID :: "nat \<Rightarrow> nat \<Rightarrow> nat \<Rightarrow> string" where
  "phaseID timeline repetition phase =
     itoa (int timeline) @ '':'' @ itoa (int repetition) @ '':'' @ itoa (int phase)"

definition scheduledPhase ::
  "nat \<Rightarrow> BehaviorTimeline \<Rightarrow> int \<Rightarrow> nat \<Rightarrow> nat \<Rightarrow> BehaviorPhase \<Rightarrow> scheduledTransition list" where
  "scheduledPhase timelineIndex timeline cycleStart repetition phaseIndex phase =
     (let (actions, deviceActions) = behaviorActions phase;
          phaseRef = \<lparr>prID = phaseID timelineIndex repetition phaseIndex,
            prLabel = tlName timeline @ '': '' @ phName phase\<rparr>;
          start = \<lparr>scOffset = wrap64 (cycleStart + phStartOffset phase), scPhase = phaseRef, scEnd = False,
            scActions = actions, scDeviceActions = deviceActions,
            scAddressActions = interfaceAddressActions phase False,
            scPrefixActions = interfacePrefixActions phase False,
            scOneShotActions = compileOneShotActions (phActions phase) (prID phaseRef),
            scRoamActions = roamActions (phRoams phase) False\<rparr>;
          end0 = \<lparr>scOffset = wrap64 (wrap64 (cycleStart + phStartOffset phase) + phDuration phase),
            scPhase = phaseRef, scEnd = True, scActions = [], scDeviceActions = [], scAddressActions = [],
            scPrefixActions = [], scOneShotActions = [], scRoamActions = []\<rparr>;
          end1 = (if phReset phase then
              end0\<lparr>scActions := resetActions actions, scDeviceActions := resetDeviceActions deviceActions,
                scAddressActions := interfaceAddressActions phase True,
                scPrefixActions := interfacePrefixActions phase True,
                scRoamActions := roamActions (phRoams phase) True\<rparr>
            else end0)
      in [start, end1])"

definition scheduledTimeline :: "nat \<Rightarrow> BehaviorTimeline \<Rightarrow> scheduledTransition list" where
  "scheduledTimeline timelineIndex timeline =
     (let cycleDuration = behaviorCycleDuration (tlPhases timeline) in
      concat (map (\<lambda>repetition.
        let cycleStart = wrap64 (tlStartOffset timeline + wrap64 (int repetition * cycleDuration)) in
        concat (map (\<lambda>(phaseIndex, phase).
            scheduledPhase timelineIndex timeline cycleStart repetition phaseIndex phase)
          (enumerate 0 (tlPhases timeline))))
        [0 ..< nat (tlRepeatCount timeline)]))"

definition scheduledAll :: "BehaviorTimeline list \<Rightarrow> scheduledTransition list" where
  "scheduledAll timelines =
     concat (map (\<lambda>(index, timeline). scheduledTimeline index timeline) (enumerate 0 timelines))"

text \<open>
  The comparison passed to \<open>slices.SortStableFunc\<close>: by offset, and at one offset the ends before the
  starts.  A stable sort by that order is \<open>sort_key\<close> with the pair as key.
\<close>

definition scheduleKey :: "scheduledTransition \<Rightarrow> int \<times> nat" where
  "scheduleKey s = (scOffset s, if scEnd s then 0 else 1)"

definition extendTransition :: "Transition \<Rightarrow> scheduledTransition \<Rightarrow> Transition" where
  "extendTransition t c =
     (let t1 = (if scEnd c then t\<lparr>tnEndPhases := tnEndPhases t @ [scPhase c]\<rparr>
                else t\<lparr>tnStartPhases := tnStartPhases t @ [scPhase c]\<rparr>)
      in t1\<lparr>tnActions := tnActions t1 @ scActions c,
            tnDeviceActions := tnDeviceActions t1 @ scDeviceActions c,
            tnAddressActions := tnAddressActions t1 @ scAddressActions c,
            tnPrefixActions := tnPrefixActions t1 @ scPrefixActions c,
            tnOneShotActions := tnOneShotActions t1 @ scOneShotActions c,
            tnRoamActions := tnRoamActions t1 @ scRoamActions c\<rparr>)"

definition emptyTransition :: "int \<Rightarrow> Transition" where
  "emptyTransition offset = \<lparr>tnOffset = offset, tnStartPhases = [], tnEndPhases = [], tnActions = [],
     tnDeviceActions = [], tnAddressActions = [], tnPrefixActions = [], tnOneShotActions = [], tnRoamActions = []\<rparr>"

definition groupStep :: "Transition list \<Rightarrow> scheduledTransition \<Rightarrow> Transition list" where
  "groupStep result current =
     (let result1 = (if result = [] \<or> tnOffset (last result) \<noteq> scOffset current
            then result @ [emptyTransition (scOffset current)] else result)
      in butlast result1 @ [extendTransition (last result1) current])"

definition groupTransitions :: "scheduledTransition list \<Rightarrow> Transition list" where
  "groupTransitions scheduled = foldl groupStep [] scheduled"

definition Compile :: "BehaviorTimeline list \<Rightarrow> Transition list" where
  "Compile timelines = groupTransitions (sort_key scheduleKey (scheduledAll timelines))"

section \<open>Grouping\<close>

text \<open>The transition one offset should compile to: everything scheduled there, in order.\<close>

definition transitionAt :: "int \<Rightarrow> scheduledTransition list \<Rightarrow> Transition" where
  "transitionAt offset ss =
     \<lparr>tnOffset = offset,
      tnStartPhases = map scPhase (filter (\<lambda>s. \<not> scEnd s) ss),
      tnEndPhases = map scPhase (filter scEnd ss),
      tnActions = concat (map scActions ss), tnDeviceActions = concat (map scDeviceActions ss),
      tnAddressActions = concat (map scAddressActions ss), tnPrefixActions = concat (map scPrefixActions ss),
      tnOneShotActions = concat (map scOneShotActions ss), tnRoamActions = concat (map scRoamActions ss)\<rparr>"

lemma extend_transitionAt: "extendTransition (transitionAt o1 ss) c = transitionAt o1 (ss @ [c])"
  by (simp add: extendTransition_def transitionAt_def Let_def)

lemma transitionAt_Nil: "transitionAt o1 [] = emptyTransition o1"
  by (simp add: transitionAt_def emptyTransition_def)

lemma tnOffset_transitionAt [simp]: "tnOffset (transitionAt o1 ss) = o1"
  by (simp add: transitionAt_def)

lemma remdups_adj_snoc_same: "xs \<noteq> [] \<Longrightarrow> last xs = x \<Longrightarrow> remdups_adj (xs @ [x]) = remdups_adj xs"
  by (induction xs rule: remdups_adj.induct) (auto split: if_splits)

lemma remdups_adj_snoc_new: "xs = [] \<or> last xs \<noteq> x \<Longrightarrow> remdups_adj (xs @ [x]) = remdups_adj xs @ [x]"
  by (induction xs rule: remdups_adj.induct) auto

lemma last_remdups_adj: "xs \<noteq> [] \<Longrightarrow> last (remdups_adj xs) = last xs"
  by (induction xs rule: remdups_adj.induct) auto

lemma strict_remdups_adj: "sorted (xs :: int list) \<Longrightarrow> sorted_wrt (<) (remdups_adj xs)"
  by (induction xs rule: remdups_adj.induct) (auto simp: less_le)

lemma groupTransitions_spec:
  assumes "sorted (map scOffset ss)"
  shows "groupTransitions ss =
    map (\<lambda>o1. transitionAt o1 (filter (\<lambda>s. scOffset s = o1) ss)) (remdups_adj (map scOffset ss))"
  using assms
proof (induction ss rule: rev_induct)
  case Nil
  then show ?case by (simp add: groupTransitions_def)
next
  case (snoc c ss)
  let ?g = "\<lambda>o1. transitionAt o1 (filter (\<lambda>s. scOffset s = o1) ss)"
  let ?ks = "remdups_adj (map scOffset ss)"
  have srt: "sorted (map scOffset ss)" and le: "\<forall>s \<in> set ss. scOffset s \<le> scOffset c"
    using snoc.prems by (auto simp: sorted_wrt_append)
  have IH: "groupTransitions ss = map ?g ?ks" using snoc.IH [OF srt] .
  have step: "groupTransitions (ss @ [c]) = groupStep (map ?g ?ks) c"
    by (simp add: groupTransitions_def flip: IH)
  show ?case
  proof (cases "ss \<noteq> [] \<and> scOffset (last ss) = scOffset c")
    case True
    have ne: "map scOffset ss \<noteq> []" "?ks \<noteq> []" using True by auto
    have lst: "last ?ks = scOffset c" using True last_remdups_adj [OF ne(1)] by (simp add: last_map)
    then have split: "?ks = butlast ?ks @ [scOffset c]" using ne(2) append_butlast_last_id [of ?ks] by simp
    have "sorted_wrt (<) (butlast ?ks @ [scOffset c])"
      using strict_remdups_adj [OF srt] split by simp
    then have old: "k \<noteq> scOffset c" if "k \<in> set (butlast ?ks)" for k
      using that by (auto simp: sorted_wrt_append)
    have "groupStep (map ?g ?ks) c = map ?g (butlast ?ks) @ [extendTransition (?g (scOffset c)) c]"
      using ne lst by (simp add: groupStep_def last_map map_butlast)
    also have "\<dots> = map (\<lambda>o1. transitionAt o1 (filter (\<lambda>s. scOffset s = o1) (ss @ [c]))) (butlast ?ks @ [scOffset c])"
      using old by (auto simp: extend_transitionAt)
    also have "butlast ?ks @ [scOffset c] = remdups_adj (map scOffset (ss @ [c]))"
      using remdups_adj_snoc_same [OF ne(1), of "scOffset c"] True split by (simp add: last_map)
    finally show ?thesis using step by simp
  next
    case False
    have new: "scOffset s \<noteq> scOffset c" if "s \<in> set ss" for s
    proof
      assume "scOffset s = scOffset c"
      moreover have "scOffset s \<le> scOffset (last ss)"
        using srt that by (cases ss rule: rev_cases) (auto simp: sorted_wrt_append)
      moreover have "scOffset (last ss) \<le> scOffset c" using le that by (cases ss) auto
      ultimately show False using False that by auto
    qed
    then have old: "k \<noteq> scOffset c" if "k \<in> set ?ks" for k using that by auto
    have "groupStep (map ?g ?ks) c = map ?g ?ks @ [extendTransition (emptyTransition (scOffset c)) c]"
      using False last_remdups_adj [of "map scOffset ss"]
      by (cases "ss = []") (auto simp: groupStep_def last_map Let_def butlast_append)
    also have "\<dots> = map (\<lambda>o1. transitionAt o1 (filter (\<lambda>s. scOffset s = o1) (ss @ [c]))) (?ks @ [scOffset c])"
      using old new by (auto simp: extend_transitionAt filter_empty_conv simp flip: transitionAt_Nil)
    also have "?ks @ [scOffset c] = remdups_adj (map scOffset (ss @ [c]))"
      using False remdups_adj_snoc_new [of "map scOffset ss" "scOffset c"] by (cases "ss = []") (auto simp: last_map)
    finally show ?thesis using step by simp
  qed
qed

lemma sorted_scheduled: "sorted (map scOffset (sort_key scheduleKey ss))"
proof -
  have "sorted (map scheduleKey (sort_key scheduleKey ss))" by (rule sorted_sort_key)
  then show ?thesis
    unfolding sorted_map by (rule sorted_wrt_mono_rel [rotated]) (auto simp: scheduleKey_def less_eq_prod_def split: if_splits)
qed

lemma ends_before_starts:
  "sorted (map scheduleKey ys) \<Longrightarrow> \<forall>y \<in> set ys. scOffset y = o1 \<Longrightarrow>
     ys = filter scEnd ys @ filter (\<lambda>s. \<not> scEnd s) ys"
proof (induction ys)
  case (Cons y ys)
  show ?case
  proof (cases "scEnd y")
    case True
    with Cons show ?thesis by simp
  next
    case False
    have "\<forall>z \<in> set ys. \<not> scEnd z"
      using Cons.prems False by (force simp: scheduleKey_def less_eq_prod_def)
    with False show ?thesis by (simp add: filter_False filter_True)
  qed
qed simp

text \<open>At one offset the sorted schedule lists the ends first and then the starts, each in authored order.\<close>

lemma filter_sort_offset:
  "filter (\<lambda>s. scOffset s = o1) (sort_key scheduleKey ss) =
     filter (\<lambda>s. scOffset s = o1 \<and> scEnd s) ss @ filter (\<lambda>s. scOffset s = o1 \<and> \<not> scEnd s) ss"
proof -
  let ?ys = "filter (\<lambda>s. scOffset s = o1) (sort_key scheduleKey ss)"
  have stable: "filter (\<lambda>y. scheduleKey y = k) (sort_key scheduleKey ss) = filter (\<lambda>y. scheduleKey y = k) ss" for k
    by (rule sort_key_stable)
  have key: "(scheduleKey y = (o1, 0)) = (scOffset y = o1 \<and> scEnd y)"
    "(scheduleKey y = (o1, Suc 0)) = (scOffset y = o1 \<and> \<not> scEnd y)" for y
    by (auto simp: scheduleKey_def)
  have "sorted (map scheduleKey ?ys)"
    using sorted_sort_key [of scheduleKey ss] by (simp add: sorted_filter)
  then have "?ys = filter scEnd ?ys @ filter (\<lambda>s. \<not> scEnd s) ?ys"
    by (rule ends_before_starts [of _ o1]) simp
  then show ?thesis
    using stable [of "(o1, 0)"] stable [of "(o1, Suc 0)"] by (simp add: key conj_commute)
qed

section \<open>Identifiers\<close>

definition digits_value :: "string \<Rightarrow> nat" where
  "digits_value s = foldl (\<lambda>a c. 10 * a + (of_char c - 48)) 0 s"

lemma nat_less_10: "n < (10::nat) \<Longrightarrow> n \<in> {0, 1, 2, 3, 4, 5, 6, 7, 8, 9}"
  by (simp only: insert_iff empty_iff) presburger

lemma of_char_digit: "n < 10 \<Longrightarrow> of_char (digit n) = 48 + n"
  by (drule nat_less_10) (auto simp: digit_def)

lemma digits_value_nat_digits: "digits_value (nat_digits n) = n"
proof (induction n rule: nat_digits.induct)
  case (1 n)
  then show ?case
    by (subst nat_digits.simps) (auto simp: digits_value_def of_char_digit)
qed

lemma colon_nat_digits [simp]: "CHR '':'' \<notin> set (nat_digits n)"
proof (induction n rule: nat_digits.induct)
  case (1 n)
  have "digit k \<noteq> CHR '':''" if "k < 10" for k
    using of_char_digit [OF that] that by auto
  from this [of n] this [of "n mod 10"] 1 show ?case
    by (subst nat_digits.simps) auto
qed

lemma nat_digits_inj: "nat_digits m = nat_digits n \<longleftrightarrow> m = n"
  by (metis digits_value_nat_digits)

lemma append_sep_inj:
  "c \<notin> set a \<Longrightarrow> c \<notin> set a' \<Longrightarrow> a @ c # b = a' @ c # b' \<longleftrightarrow> a = a' \<and> b = b'"
proof (induction a arbitrary: a')
  case Nil
  then show ?case by (cases a') auto
next
  case (Cons x a)
  then show ?case by (cases a') auto
qed

lemma phaseID_inj: "phaseID a b c = phaseID a' b' c' \<longleftrightarrow> a = a' \<and> b = b' \<and> c = c'"
  by (auto simp: phaseID_def itoa_def append_sep_inj nat_digits_inj)

lemma oneShotID_inj:
  "phaseID a b c @ '':'' @ itoa (int i) = phaseID a' b' c' @ '':'' @ itoa (int i') \<longleftrightarrow>
     a = a' \<and> b = b' \<and> c = c' \<and> i = i'"
  by (auto simp: phaseID_def itoa_def append_sep_inj nat_digits_inj)

lemma distinct_concat_tagged:
  assumes "distinct (map tag xs)" "\<forall>x \<in> set xs. distinct (f x) \<and> set (f x) \<subseteq> S (tag x)"
    and "\<forall>a b. a \<noteq> b \<longrightarrow> S a \<inter> S b = {}"
  shows "distinct (concat (map f xs)) \<and> set (concat (map f xs)) \<subseteq> \<Union> (S ` tag ` set xs)"
  using assms(1,2)
proof (induction xs)
  case (Cons x xs)
  then have IH: "distinct (concat (map f xs))" "set (concat (map f xs)) \<subseteq> \<Union> (S ` tag ` set xs)" by auto
  have "S (tag x) \<inter> \<Union> (S ` tag ` set xs) = {}"
    using Cons.prems(1) assms(3) by fastforce
  then have "set (f x) \<inter> set (concat (map f xs)) = {}"
    using IH(2) Cons.prems(2) by fastforce
  then show ?case
    using IH Cons.prems(2) by (simp only: list.map concat.simps distinct_append set_append) auto
qed simp

lemma distinct_enumerate_fst: "distinct (map fst (enumerate 0 l))"
  by (simp add: enumerate_eq_zip)

definition oneShotIDs :: "nat \<Rightarrow> nat \<Rightarrow> nat \<Rightarrow> string set" where
  "oneShotIDs t r p = {phaseID t r p @ '':'' @ itoa (int i) | i. True}"

lemma oneShotIDs_disjoint: "(t, r, p) \<noteq> (t', r', p') \<Longrightarrow> oneShotIDs t r p \<inter> oneShotIDs t' r' p' = {}"
  by (auto simp: oneShotIDs_def oneShotID_inj simp del: append.simps append_assoc)

lemma compileOneShot_ids:
  "distinct (map osID (compileOneShotActions as (phaseID t r p)))"
  "set (map osID (compileOneShotActions as (phaseID t r p))) \<subseteq> oneShotIDs t r p"
proof -
  have eq: "map osID (compileOneShotActions as (phaseID t r p)) =
      map (\<lambda>i. phaseID t r p @ '':'' @ itoa (int i)) [0 ..< length as]"
    by (rule nth_equalityI) (simp_all add: compileOneShotActions_def nth_enumerate_eq)
  show "distinct (map osID (compileOneShotActions as (phaseID t r p)))"
    unfolding eq by (simp add: distinct_map inj_on_def itoa_def nat_digits_inj)
  show "set (map osID (compileOneShotActions as (phaseID t r p))) \<subseteq> oneShotIDs t r p"
    unfolding eq by (auto simp: oneShotIDs_def)
qed

abbreviation schedIDs :: "scheduledTransition list \<Rightarrow> string list" where
  "schedIDs ss \<equiv> map osID (concat (map scOneShotActions ss))"

lemma schedIDs_phase:
  "schedIDs (scheduledPhase t tm cs r p ph) = map osID (compileOneShotActions (phActions ph) (phaseID t r p))"
  by (simp add: scheduledPhase_def Let_def split: prod.split)

lemma schedIDs_concat: "schedIDs (concat xss) = concat (map schedIDs xss)"
  by (induction xss) auto

lemma oneShotIDs_levels:
  "\<forall>p p'. p \<noteq> p' \<longrightarrow> oneShotIDs t r p \<inter> oneShotIDs t r p' = {}"
  "\<forall>r r'. r \<noteq> r' \<longrightarrow> (\<Union>p. oneShotIDs t r p) \<inter> (\<Union>p. oneShotIDs t r' p) = {}"
  "\<forall>t t'. t \<noteq> t' \<longrightarrow> (\<Union>r p. oneShotIDs t r p) \<inter> (\<Union>r p. oneShotIDs t' r p) = {}"
  using oneShotIDs_disjoint by fastforce+

lemma schedIDs_repetition:
  "distinct (schedIDs (concat (map (\<lambda>(p, ph). scheduledPhase t tm cs r p ph) (enumerate 0 phases)))) \<and>
   set (schedIDs (concat (map (\<lambda>(p, ph). scheduledPhase t tm cs r p ph) (enumerate 0 phases)))) \<subseteq> (\<Union>p. oneShotIDs t r p)"
proof -
  let ?f = "\<lambda>(p, ph). map osID (compileOneShotActions (phActions ph) (phaseID t r p))"
  have "distinct (?f x) \<and> set (?f x) \<subseteq> oneShotIDs t r (fst x)" for x
    by (cases x) (simp only: prod.case fst_conv compileOneShot_ids simp_thms)
  then have "\<forall>x \<in> set (enumerate 0 phases). distinct (?f x) \<and> set (?f x) \<subseteq> oneShotIDs t r (fst x)" by blast
  from distinct_concat_tagged [OF distinct_enumerate_fst this oneShotIDs_levels(1)]
  have "distinct (concat (map ?f (enumerate 0 phases)))"
    "set (concat (map ?f (enumerate 0 phases))) \<subseteq> (\<Union>p. oneShotIDs t r p)" by blast+
  moreover have "schedIDs (concat (map (\<lambda>(p, ph). scheduledPhase t tm cs r p ph) (enumerate 0 phases))) =
      concat (map ?f (enumerate 0 phases))"
    unfolding schedIDs_concat map_map
    by (rule arg_cong [where f = concat], rule map_cong) (auto simp only: schedIDs_phase comp_apply split: prod.split)
  ultimately show ?thesis by simp
qed

definition scheduledRepetition :: "nat \<Rightarrow> BehaviorTimeline \<Rightarrow> nat \<Rightarrow> scheduledTransition list" where
  "scheduledRepetition t tm r = concat (map (\<lambda>(p, ph). scheduledPhase t tm
    (wrap64 (tlStartOffset tm + wrap64 (int r * behaviorCycleDuration (tlPhases tm)))) r p ph) (enumerate 0 (tlPhases tm)))"

lemma scheduledTimeline_eq:
  "scheduledTimeline t tm = concat (map (scheduledRepetition t tm) [0 ..< nat (tlRepeatCount tm)])"
  by (simp add: scheduledTimeline_def scheduledRepetition_def Let_def cong: map_cong)

lemma schedIDs_timeline:
  "distinct (schedIDs (scheduledTimeline t tm)) \<and>
   set (schedIDs (scheduledTimeline t tm)) \<subseteq> (\<Union>r p. oneShotIDs t r p)"
proof -
  let ?rs = "[0 ..< nat (tlRepeatCount tm)]"
  let ?f = "\<lambda>r. schedIDs (scheduledRepetition t tm r)"
  have "distinct (?f r) \<and> set (?f r) \<subseteq> (\<Union>p. oneShotIDs t r p)" for r
    unfolding scheduledRepetition_def by (rule schedIDs_repetition)
  then have "\<forall>r \<in> set ?rs. distinct (?f r) \<and> set (?f r) \<subseteq> (\<Union>p. oneShotIDs t (id r) p)" by simp
  then have "distinct (concat (map ?f ?rs)) \<and>
      set (concat (map ?f ?rs)) \<subseteq> \<Union> ((\<lambda>r. \<Union>p. oneShotIDs t r p) ` id ` set ?rs)"
    by (rule distinct_concat_tagged [rotated, OF _ oneShotIDs_levels(2)]) (simp only: list.map_id distinct_upt)
  moreover have "\<Union> ((\<lambda>r. \<Union>p. oneShotIDs t r p) ` id ` R) \<subseteq> (\<Union>r p. oneShotIDs t r p)" for R
    by blast
  ultimately have "distinct (concat (map ?f ?rs))" "set (concat (map ?f ?rs)) \<subseteq> (\<Union>r p. oneShotIDs t r p)"
    by (iprover intro: order_trans)+
  moreover have "schedIDs (scheduledTimeline t tm) = concat (map ?f ?rs)"
    unfolding scheduledTimeline_eq schedIDs_concat map_map comp_def ..
  ultimately show ?thesis by (simp only: simp_thms)
qed

lemma schedIDs_all: "distinct (schedIDs (scheduledAll timelines))"
proof -
  let ?f = "\<lambda>(i, tm). schedIDs (scheduledTimeline i tm)"
  have "distinct (?f x) \<and> set (?f x) \<subseteq> (\<Union>r p. oneShotIDs (fst x) r p)" for x
    by (cases x) (simp only: prod.case fst_conv schedIDs_timeline simp_thms)
  then have "\<forall>x \<in> set (enumerate 0 timelines). distinct (?f x) \<and> set (?f x) \<subseteq> (\<Union>r p. oneShotIDs (fst x) r p)" by blast
  from distinct_concat_tagged [OF distinct_enumerate_fst this oneShotIDs_levels(3)]
  have "distinct (concat (map ?f (enumerate 0 timelines)))" by blast
  moreover have "schedIDs (scheduledAll timelines) = concat (map ?f (enumerate 0 timelines))"
    unfolding scheduledAll_def schedIDs_concat map_map
    by (rule arg_cong [where f = concat], rule map_cong) (auto simp only: comp_apply split: prod.split)
  ultimately show ?thesis by simp
qed

section \<open>What the compiled list holds\<close>

lemma concat_map_last: "r \<noteq> [] \<Longrightarrow> concat (map f r) = concat (map f (butlast r)) @ f (last r)"
  by (cases r rule: rev_cases) auto

lemma concat_groupStep:
  assumes "\<And>t c. f (extendTransition t c) = f t @ g c" "\<And>o1. f (emptyTransition o1) = []"
  shows "concat (map f (groupTransitions ss)) = concat (map g ss)"
proof (induction ss rule: rev_induct)
  case Nil
  then show ?case by (simp add: groupTransitions_def)
next
  case (snoc c ss)
  let ?r = "groupTransitions ss"
  have "concat (map f (groupStep ?r c)) = concat (map f ?r) @ g c"
  proof (cases "?r = [] \<or> tnOffset (last ?r) \<noteq> scOffset c")
    case True
    then show ?thesis by (simp add: groupStep_def assms)
  next
    case False
    then have "concat (map f ?r) = concat (map f (butlast ?r)) @ f (last ?r)"
      by (intro concat_map_last) simp
    with False show ?thesis by (simp add: groupStep_def assms Let_def)
  qed
  with snoc show ?case by (simp add: groupTransitions_def)
qed

lemma mset_concat_map: "mset xs = mset ys \<Longrightarrow> mset (concat (map f xs)) = mset (concat (map f ys))"
  by (metis mset_concat map_map mset_map sum_mset_sum_list)

lemma compiled_oneShot:
  "mset (concat (map tnOneShotActions (Compile timelines))) = mset (concat (map scOneShotActions (scheduledAll timelines)))"
proof -
  have "concat (map tnOneShotActions (Compile timelines)) =
      concat (map scOneShotActions (sort_key scheduleKey (scheduledAll timelines)))"
    unfolding Compile_def
    by (rule concat_groupStep [of tnOneShotActions scOneShotActions])
      (simp_all add: extendTransition_def emptyTransition_def Let_def)
  moreover have "mset (concat (map scOneShotActions (sort_key scheduleKey (scheduledAll timelines)))) =
      mset (concat (map scOneShotActions (scheduledAll timelines)))"
    by (rule mset_concat_map) simp
  ultimately show ?thesis by (simp only:)
qed

lemma keys_sorted_list:
  "remdups_adj (map scOffset (sort_key scheduleKey ss)) = sorted_list_of_set (scOffset ` set ss)"
proof -
  let ?ks = "remdups_adj (map scOffset (sort_key scheduleKey ss))"
  have "sorted_wrt (<) ?ks" by (rule strict_remdups_adj [OF sorted_scheduled])
  then have "sorted_list_of_set (set ?ks) = ?ks"
    using sorted_list_of_set.idem_if_sorted_distinct [of ?ks] by (simp only: strict_sorted_iff simp_thms)
  then show ?thesis by simp
qed

lemma compile_spec:
  "Compile timelines =
     map (\<lambda>offset. transitionAt offset
         (filter (\<lambda>s. scOffset s = offset \<and> scEnd s) (scheduledAll timelines) @
          filter (\<lambda>s. scOffset s = offset \<and> \<not> scEnd s) (scheduledAll timelines)))
       (sorted_list_of_set (scOffset ` set (scheduledAll timelines)))"
  unfolding Compile_def
  by (simp add: groupTransitions_spec [OF sorted_scheduled] keys_sorted_list filter_sort_offset)

text \<open>C12 (compile_groups): the compiled list has one transition per distinct scheduled offset, in strictly
  increasing order of offset, and the transition at an offset lists exactly what the timelines, taken phase by phase (\<open>scheduledAll\<close>), schedule there:
  the resets of the phases that end before the actions of the phases that start, each in authored order.\<close>

theorem compile_groups:
  "Compile timelines =
     map (\<lambda>offset. transitionAt offset
         (filter (\<lambda>s. scOffset s = offset \<and> scEnd s) (scheduledAll timelines) @
          filter (\<lambda>s. scOffset s = offset \<and> \<not> scEnd s) (scheduledAll timelines)))
       (sorted_list_of_set (scOffset ` set (scheduledAll timelines)))"
  by (rule compile_spec)

text \<open>Over all timelines, repetitions, phases and positions, no two one-shot
  actions of a compiled schedule share an identifier, so each of them is executed once by a store that
  remembers identifiers.\<close>

theorem one_shot_ids_distinct:
  "distinct (map osID (concat (map tnOneShotActions (Compile timelines))))"
proof -
  have "mset (map osID (concat (map tnOneShotActions (Compile timelines)))) = mset (schedIDs (scheduledAll timelines))"
    using compiled_oneShot by (simp only: mset_map)
  then show ?thesis
    using schedIDs_all mset_eq_imp_distinct_iff by blast
qed

section \<open>Phases of the compiled list\<close>

definition cycleStart :: "BehaviorTimeline \<Rightarrow> nat \<Rightarrow> int" where
  "cycleStart tm r = wrap64 (tlStartOffset tm + wrap64 (int r * behaviorCycleDuration (tlPhases tm)))"

definition phaseStart :: "BehaviorTimeline \<Rightarrow> nat \<Rightarrow> BehaviorPhase \<Rightarrow> int" where
  "phaseStart tm r ph = wrap64 (cycleStart tm r + phStartOffset ph)"

definition phaseEnd :: "BehaviorTimeline \<Rightarrow> nat \<Rightarrow> BehaviorPhase \<Rightarrow> int" where
  "phaseEnd tm r ph = wrap64 (phaseStart tm r ph + phDuration ph)"

lemma in_scheduledPhase:
  "s \<in> set (scheduledPhase t tm (cycleStart tm r) r p ph) \<Longrightarrow>
     prID (scPhase s) = phaseID t r p \<and> scOffset s = (if scEnd s then phaseEnd tm r ph else phaseStart tm r ph)"
  by (auto simp: scheduledPhase_def phaseStart_def phaseEnd_def Let_def split: prod.splits if_splits)

lemma scheduledPhase_both:
  "\<exists>s \<in> set (scheduledPhase t tm (cycleStart tm r) r p ph). scEnd s = b"
proof -
  obtain as ds where "behaviorActions ph = (as, ds)" by (cases "behaviorActions ph")
  then show ?thesis by (simp add: scheduledPhase_def Let_def)
qed

lemma bex_enumerate: "(\<exists>x \<in> set (enumerate 0 l). P x) \<longleftrightarrow> (\<exists>k < length l. P (k, l ! k))"
proof
  assume "\<exists>x \<in> set (enumerate 0 l). P x"
  then obtain k v where "(k, v) \<in> set (enumerate 0 l)" "P (k, v)" by force
  then show "\<exists>k < length l. P (k, l ! k)" by (auto simp: in_set_enumerate_eq)
next
  assume "\<exists>k < length l. P (k, l ! k)"
  then obtain k where "k < length l" "P (k, l ! k)" by blast
  then show "\<exists>x \<in> set (enumerate 0 l). P x" by (intro bexI [of _ "(k, l ! k)"]) (auto simp: in_set_enumerate_eq)
qed

lemma in_scheduledAll:
  "s \<in> set (scheduledAll tms) \<longleftrightarrow>
     (\<exists>t < length tms. \<exists>r < nat (tlRepeatCount (tms ! t)). \<exists>p < length (tlPhases (tms ! t)).
        s \<in> set (scheduledPhase t (tms ! t) (cycleStart (tms ! t) r) r p (tlPhases (tms ! t) ! p)))"
proof -
  have tm: "s \<in> set (scheduledTimeline t tm) \<longleftrightarrow> (\<exists>r < nat (tlRepeatCount tm). \<exists>p < length (tlPhases tm).
      s \<in> set (scheduledPhase t tm (cycleStart tm r) r p (tlPhases tm ! p)))" for t tm
    unfolding scheduledTimeline_def cycleStart_def Let_def set_concat set_map UN_iff Union_iff bex_simps case_prod_beta' bex_enumerate
    by (simp add: bex_enumerate Bex_def)
  show ?thesis
    unfolding scheduledAll_def set_concat set_map UN_iff Union_iff bex_simps case_prod_beta' bex_enumerate
    by (simp add: bex_enumerate tm)
qed

lemma scheduledAll_offset:
  assumes "s \<in> set (scheduledAll tms)" "prID (scPhase s) = phaseID t r p"
  shows "scOffset s = (if scEnd s then phaseEnd (tms ! t) r (tlPhases (tms ! t) ! p)
    else phaseStart (tms ! t) r (tlPhases (tms ! t) ! p))"
  using assms by (auto simp: in_scheduledAll phaseID_inj dest!: in_scheduledPhase)

lemma compile_offsets: "map tnOffset (Compile tms) = sorted_list_of_set (scOffset ` set (scheduledAll tms))"
  by (simp add: compile_spec comp_def)

lemma compile_phases:
  assumes "t \<in> set (Compile tms)"
  shows "p \<in> set (tnStartPhases t) \<longleftrightarrow> (\<exists>s \<in> set (scheduledAll tms). scOffset s = tnOffset t \<and> \<not> scEnd s \<and> scPhase s = p)"
    "p \<in> set (tnEndPhases t) \<longleftrightarrow> (\<exists>s \<in> set (scheduledAll tms). scOffset s = tnOffset t \<and> scEnd s \<and> scPhase s = p)"
  using assms by (auto simp: compile_spec transitionAt_def)

lemma compile_has_offset: "s \<in> set (scheduledAll tms) \<Longrightarrow> \<exists>t \<in> set (Compile tms). tnOffset t = scOffset s"
  using compile_offsets [of tms] by (metis (no_types, lifting) List.finite_set finite_imageI image_eqI
      set_sorted_list_of_set set_map imageE)

lemma compile_sorted: "sorted_wrt (<) (map tnOffset (Compile tms))"
  by (simp add: compile_offsets)

end
