(* ===== verification/Behavior_Runner.thy ===== *)
theory Behavior_Runner
  imports Behavior_Schedule "HOL-Library.Sublist"
begin

text \<open>
  The replay of a compiled transition list (\<open>internal/behavior/runner.go\<close>, \<open>runner_actions.go\<close> and
  the apply methods of \<open>schedule_interface_address.go\<close> and \<open>schedule_prefix.go\<close>).

  The \<open>Target\<close> interface is a record of functions on the target's state \<open>'w\<close>, each returning the error
  text or none.  \<open>Clock\<close> gives the readings of \<open>Now\<close> and the outcomes of \<open>Wait\<close>; \<open>ctx\<close> gives the outcomes of
  the successive \<open>ctx.Err() != nil\<close> checks, so a cancellation by \<open>Stop\<close> may fall between any two
  of them.  A call the target refuses ends the run, as in the code; so does a cancelled check.  The log line
  of \<open>fail\<close> is not modelled.  A run is compared with the flat list of the calls its transitions make
  (\<open>transitionCalls\<close>): whatever happens, the target has received a prefix of that list.
\<close>

section \<open>Targets, clocks, status (runner.go)\<close>

record 'w Target =
  tgSetInterfaceFault :: "string \<Rightarrow> string \<Rightarrow> string \<Rightarrow> int \<Rightarrow> 'w \<Rightarrow> string option \<times> 'w"
  tgSetDeviceFault :: "string \<Rightarrow> string \<Rightarrow> int \<Rightarrow> 'w \<Rightarrow> string option \<times> 'w"
  tgSetDeviceAddressFault :: "string \<Rightarrow> string \<Rightarrow> Addr \<Rightarrow> 'w \<Rightarrow> string option \<times> 'w"
  tgClearDeviceFault :: "string \<Rightarrow> string \<Rightarrow> 'w \<Rightarrow> string option \<times> 'w"
  tgSetInterfaceAddressFault :: "string \<Rightarrow> InterfaceAddressFault \<Rightarrow> 'w \<Rightarrow> string option \<times> 'w"
  tgClearInterfaceAddressFault :: "string \<Rightarrow> string \<Rightarrow> string \<Rightarrow> 'w \<Rightarrow> string option \<times> 'w"
  tgSetInterfacePrefixFault :: "string \<Rightarrow> InterfacePrefixFault \<Rightarrow> 'w \<Rightarrow> string option \<times> 'w"
  tgClearInterfacePrefixFault :: "string \<Rightarrow> string \<Rightarrow> string \<Rightarrow> 'w \<Rightarrow> string option \<times> 'w"
  tgExecuteDeviceAction :: "string \<Rightarrow> string \<Rightarrow> string \<Rightarrow> 'w \<Rightarrow> string option \<times> 'w"
  tgRoamStation :: "RoamAction \<Rightarrow> 'w \<Rightarrow> string option \<times> 'w"

record Clock =
  clNow :: "nat \<Rightarrow> time"
  clWait :: "nat \<Rightarrow> int \<Rightarrow> bool"

record Status =
  stState :: string
  stStartedAt :: time
  stCompletedAt :: time
  stAppliedTransitions :: int
  stTotalTransitions :: int
  stActivePhases :: "string list"
  stLastError :: string

record 'w Runner =
  rnTransitions :: "Transition list"
  rnStatus :: Status
  rnWorld :: 'w
  rnReads :: nat
  rnWaits :: nat
  rnChecks :: nat

definition idleStatus :: "nat \<Rightarrow> Status" where
  "idleStatus n = \<lparr>stState = ''idle'', stStartedAt = 0, stCompletedAt = 0, stAppliedTransitions = 0,
     stTotalTransitions = int n, stActivePhases = [], stLastError = []\<rparr>"

definition NewWithClock :: "Transition list \<Rightarrow> 'w \<Rightarrow> 'w Runner" where
  "NewWithClock transitions w = \<lparr>rnTransitions = transitions, rnStatus = idleStatus (length transitions),
     rnWorld = w, rnReads = 0, rnWaits = 0, rnChecks = 0\<rparr>"

definition clockNow :: "Clock \<Rightarrow> 'w Runner \<Rightarrow> time \<times> 'w Runner" where
  "clockNow c r = (clNow c (rnReads r), r\<lparr>rnReads := Suc (rnReads r)\<rparr>)"

definition finish :: "Clock \<Rightarrow> string \<Rightarrow> string \<Rightarrow> 'w Runner \<Rightarrow> 'w Runner" where
  "finish c state lastError r =
     (let (t, r1) = clockNow c r in
      r1\<lparr>rnStatus := (rnStatus r1)\<lparr>stState := state, stLastError := lastError, stActivePhases := [],
         stCompletedAt := t\<rparr>\<rparr>)"

definition fail :: "Clock \<Rightarrow> string \<Rightarrow> 'w Runner \<Rightarrow> 'w Runner" where
  "fail c err r = finish c ''failed'' err r"

text \<open>\<open>Time.Sub\<close> saturates at the bounds of \<open>Duration\<close>.\<close>

definition timeSub :: "time \<Rightarrow> time \<Rightarrow> int" where
  "timeSub t u = max (- (2 ^ 63)) (min (2 ^ 63 - 1) (t - u))"

section \<open>Applying one transition (runner_actions.go, schedule_prefix.go)\<close>

datatype verdict = Applied | Cancelled | Refused string

fun applyLoop ::
  "bool \<Rightarrow> (nat \<Rightarrow> bool) \<Rightarrow> ('a \<Rightarrow> 'w \<Rightarrow> string option \<times> 'w) \<Rightarrow> 'a list \<Rightarrow> nat \<Rightarrow> 'w \<Rightarrow> verdict \<times> nat \<times> 'w" where
  "applyLoop checked ctx f [] n w = (Applied, n, w)"
| "applyLoop checked ctx f (x # xs) n w =
     (if checked \<and> ctx n then (Cancelled, Suc n, w)
      else let m = (if checked then Suc n else n) in
        case f x w of
          (Some e, w') \<Rightarrow> (Refused e, m, w')
        | (None, w') \<Rightarrow> applyLoop checked ctx f xs m w')"

definition andThen :: "verdict \<times> nat \<times> 'w \<Rightarrow> (nat \<Rightarrow> 'w \<Rightarrow> verdict \<times> nat \<times> 'w) \<Rightarrow> verdict \<times> nat \<times> 'w" where
  "andThen res k = (case res of (Applied, n, w) \<Rightarrow> k n w | _ \<Rightarrow> res)"

definition applyInterface :: "'w Target \<Rightarrow> Action \<Rightarrow> 'w \<Rightarrow> string option \<times> 'w" where
  "applyInterface tg a = tgSetInterfaceFault tg (acDevice a) (acInterface a) (acType a) (acValue a)"

definition applyDeviceFault :: "'w Target \<Rightarrow> DeviceAction \<Rightarrow> 'w \<Rightarrow> string option \<times> 'w" where
  "applyDeviceFault tg a =
     (if daClear a then tgClearDeviceFault tg (daDevice a) (daType a)
      else if daType a = FaultDuplicateDHCPOffer then tgSetDeviceAddressFault tg (daDevice a) (daType a) (daAddress a)
      else tgSetDeviceFault tg (daDevice a) (daType a) (daValue a))"

definition applyInterfaceAddressFault :: "'w Target \<Rightarrow> InterfaceAddressAction \<Rightarrow> 'w \<Rightarrow> string option \<times> 'w" where
  "applyInterfaceAddressFault tg a =
     (if iaClear a then tgClearInterfaceAddressFault tg (iaDevice a) (afInterface (iaFault a)) (afType (iaFault a))
      else tgSetInterfaceAddressFault tg (iaDevice a) (iaFault a))"

definition applyInterfacePrefixFault :: "'w Target \<Rightarrow> InterfacePrefixAction \<Rightarrow> 'w \<Rightarrow> string option \<times> 'w" where
  "applyInterfacePrefixFault tg a =
     (if ipClear a then tgClearInterfacePrefixFault tg (ipDevice a) (pfInterface (ipFault a)) (pfType (ipFault a))
      else tgSetInterfacePrefixFault tg (ipDevice a) (ipFault a))"

definition applyOneShot :: "'w Target \<Rightarrow> OneShotAction \<Rightarrow> 'w \<Rightarrow> string option \<times> 'w" where
  "applyOneShot tg a = tgExecuteDeviceAction tg (osDevice a) (osType a) (osID a)"

definition applyPrefixActions ::
  "'w Target \<Rightarrow> (nat \<Rightarrow> bool) \<Rightarrow> Transition \<Rightarrow> nat \<Rightarrow> 'w \<Rightarrow> verdict \<times> nat \<times> 'w" where
  "applyPrefixActions tg ctx t = applyLoop True ctx (applyInterfacePrefixFault tg) (tnPrefixActions t)"

definition applyTransition ::
  "'w Target \<Rightarrow> (nat \<Rightarrow> bool) \<Rightarrow> Transition \<Rightarrow> nat \<Rightarrow> 'w \<Rightarrow> verdict \<times> nat \<times> 'w" where
  "applyTransition tg ctx t n w =
     andThen (applyLoop False ctx (applyInterface tg) (tnActions t) n w) (\<lambda>n w.
     andThen (applyLoop False ctx (applyDeviceFault tg) (tnDeviceActions t) n w) (\<lambda>n w.
     andThen (applyLoop True ctx (applyInterfaceAddressFault tg) (tnAddressActions t) n w) (\<lambda>n w.
     andThen (applyPrefixActions tg ctx t n w) (\<lambda>n w.
     andThen (applyLoop True ctx (applyOneShot tg) (tnOneShotActions t) n w) (\<lambda>n w.
     applyLoop False ctx (tgRoamStation tg) (tnRoamActions t) n w)))))"

section \<open>The run (runner.go)\<close>

definition endPhases :: "PhaseRef list \<Rightarrow> (string, string) gomap \<Rightarrow> (string, string) gomap" where
  "endPhases ps m = foldl (\<lambda>m p. gm_del (prID p) m) m ps"

definition startPhases :: "PhaseRef list \<Rightarrow> (string, string) gomap \<Rightarrow> (string, string) gomap" where
  "startPhases ps m = foldl (\<lambda>m p. gm_put (prID p) (prLabel p) m) m ps"

definition nextPhases :: "Transition \<Rightarrow> (string, string) gomap \<Rightarrow> (string, string) gomap" where
  "nextPhases t m = startPhases (tnStartPhases t) (endPhases (tnEndPhases t) m)"

fun runLoop :: "'w Target \<Rightarrow> Clock \<Rightarrow> (nat \<Rightarrow> bool) \<Rightarrow> time \<Rightarrow> Transition list \<Rightarrow>
    (string, string) gomap \<Rightarrow> 'w Runner \<Rightarrow> 'w Runner" where
  "runLoop tg c ctx started [] active r = finish c ''completed'' [] r"
| "runLoop tg c ctx started (t # ts) active r =
     (let (current, r1) = clockNow c r;
          ok = clWait c (rnWaits r1) (wrap64 (tnOffset t - timeSub current started));
          r2 = r1\<lparr>rnWaits := Suc (rnWaits r1)\<rparr> in
      if \<not> ok then finish c ''stopped'' [] r2
      else case applyTransition tg ctx t (rnChecks r2) (rnWorld r2) of
        (Refused e, n, w) \<Rightarrow> fail c e (r2\<lparr>rnChecks := n, rnWorld := w\<rparr>)
      | (Cancelled, n, w) \<Rightarrow> finish c ''stopped'' [] (r2\<lparr>rnChecks := n, rnWorld := w\<rparr>)
      | (Applied, n, w) \<Rightarrow>
          let active1 = nextPhases t active; phases = sort (map snd active1);
              st = (rnStatus r2)\<lparr>stAppliedTransitions := stAppliedTransitions (rnStatus r2) + 1, stActivePhases := phases\<rparr>
          in runLoop tg c ctx started ts active1 (r2\<lparr>rnChecks := n, rnWorld := w, rnStatus := st\<rparr>))"

text \<open>\<open>Start\<close>, with the goroutine it spawns run to its end.\<close>

definition Start :: "'w Target \<Rightarrow> Clock \<Rightarrow> (nat \<Rightarrow> bool) \<Rightarrow> 'w Runner \<Rightarrow> 'w Runner" where
  "Start tg c ctx r =
     (if stState (rnStatus r) \<noteq> ''idle'' then r
      else if rnTransitions r = [] then
        let (t, r1) = clockNow c r in
        r1\<lparr>rnStatus := (rnStatus r1)\<lparr>stState := ''completed'', stCompletedAt := t\<rparr>\<rparr>
      else
        let (started, r1) = clockNow c r in
        runLoop tg c ctx started (rnTransitions r)  []
          (r1\<lparr>rnStatus := (rnStatus r1)\<lparr>stState := ''running'', stStartedAt := started\<rparr>\<rparr>))"

text \<open>\<open>Reset\<close>, after the worker has ended.\<close>

definition Reset :: "'w Runner \<Rightarrow> 'w Runner" where
  "Reset r = r\<lparr>rnStatus := idleStatus (length (rnTransitions r))\<rparr>"

section \<open>Calls\<close>

datatype call =
    CallInterface Action | CallDevice DeviceAction | CallAddress InterfaceAddressAction
  | CallPrefix InterfacePrefixAction | CallOneShot OneShotAction | CallRoam RoamAction

fun exec :: "'w Target \<Rightarrow> call \<Rightarrow> 'w \<Rightarrow> string option \<times> 'w" where
  "exec tg (CallInterface a) = applyInterface tg a"
| "exec tg (CallDevice a) = applyDeviceFault tg a"
| "exec tg (CallAddress a) = applyInterfaceAddressFault tg a"
| "exec tg (CallPrefix a) = applyInterfacePrefixFault tg a"
| "exec tg (CallOneShot a) = applyOneShot tg a"
| "exec tg (CallRoam a) = tgRoamStation tg a"

definition transitionCalls :: "Transition \<Rightarrow> call list" where
  "transitionCalls t =
     map CallInterface (tnActions t) @ map CallDevice (tnDeviceActions t) @ map CallAddress (tnAddressActions t) @
     map CallPrefix (tnPrefixActions t) @ map CallOneShot (tnOneShotActions t) @ map CallRoam (tnRoamActions t)"

text \<open>
  \<open>played tg cs w v w'\<close>: of the calls \<open>cs\<close> a prefix was made from state \<open>w\<close>, in order and without error
  but possibly the last, ending in \<open>w'\<close>: all of them, up to a cancellation, or up to the refused one.
\<close>

fun played :: "'w Target \<Rightarrow> call list \<Rightarrow> 'w \<Rightarrow> verdict \<Rightarrow> 'w \<Rightarrow> bool" where
  "played tg [] w v w' \<longleftrightarrow> v \<in> {Applied, Cancelled} \<and> w' = w"
| "played tg (c # cs) w v w' \<longleftrightarrow>
     v = Cancelled \<and> w' = w \<or>
     (case exec tg c w of (Some e, w1) \<Rightarrow> v = Refused e \<and> w' = w1 | (None, w1) \<Rightarrow> played tg cs w1 v w')"

lemma played_append_stop: "played tg cs w v w' \<Longrightarrow> v \<noteq> Applied \<Longrightarrow> played tg (cs @ ds) w v w'"
proof (induction cs arbitrary: w)
  case Nil
  then show ?case by (cases ds) auto
next
  case (Cons c cs)
  then show ?case by (auto split: prod.splits option.splits)
qed

lemma played_append: "played tg cs w Applied w1 \<Longrightarrow> played tg ds w1 v w' \<Longrightarrow> played tg (cs @ ds) w v w'"
  by (induction cs arbitrary: w) (auto split: prod.splits option.splits)

lemma applyLoop_played:
  assumes "\<And>x. exec tg (K x) = f x" "applyLoop checked ctx f xs n w = (v, n', w')"
  shows "played tg (map K xs) w v w' \<and> ((\<forall>k. \<not> ctx k) \<longrightarrow> v \<noteq> Cancelled)"
  using assms(2)
proof (induction xs arbitrary: n w)
  case (Cons x xs)
  show ?case
  proof (cases "checked \<and> ctx n")
    case True
    with Cons.prems show ?thesis by auto
  next
    case False
    obtain e w1 where f: "f x w = (e, w1)" by (cases "f x w")
    show ?thesis
    proof (cases e)
      case None
      with Cons.prems f False have "applyLoop checked ctx f xs (if checked then Suc n else n) w1 = (v, n', w')"
        by (auto simp: Let_def split: if_splits)
      from Cons.IH [OF this] f None assms(1) [of x] show ?thesis by simp
    next
      case (Some e')
      with Cons.prems f False assms(1) [of x] show ?thesis by (auto simp: Let_def)
    qed
  qed
qed simp

definition plays :: "'w Target \<Rightarrow> (nat \<Rightarrow> bool) \<Rightarrow> call list \<Rightarrow> (nat \<Rightarrow> 'w \<Rightarrow> verdict \<times> nat \<times> 'w) \<Rightarrow> bool" where
  "plays tg ctx cs g \<longleftrightarrow> (\<forall>n w v n' w'. g n w = (v, n', w') \<longrightarrow>
     played tg cs w v w' \<and> ((\<forall>k. \<not> ctx k) \<longrightarrow> v \<noteq> Cancelled))"

lemma plays_loop: "(\<And>x. exec tg (K x) = f x) \<Longrightarrow> plays tg ctx (map K xs) (applyLoop checked ctx f xs)"
  using applyLoop_played [of tg K f] by (auto simp: plays_def)

lemma plays_andThen:
  assumes "plays tg ctx cs g" "plays tg ctx ds h"
  shows "plays tg ctx (cs @ ds) (\<lambda>n w. andThen (g n w) h)"
  unfolding plays_def
proof (intro allI impI)
  fix n w v n' w'
  assume res: "andThen (g n w) h = (v, n', w')"
  obtain v1 n1 w1 where g: "g n w = (v1, n1, w1)" by (cases "g n w")
  with assms(1) have 1: "played tg cs w v1 w1 \<and> ((\<forall>k. \<not> ctx k) \<longrightarrow> v1 \<noteq> Cancelled)" by (simp add: plays_def)
  show "played tg (cs @ ds) w v w' \<and> ((\<forall>k. \<not> ctx k) \<longrightarrow> v \<noteq> Cancelled)"
  proof (cases "v1 = Applied")
    case True
    with res g have "h n1 w1 = (v, n', w')" by (simp add: andThen_def)
    with assms(2) 1 True show ?thesis by (auto simp: plays_def intro: played_append)
  next
    case False
    with res g have "v1 = v" "w1 = w'" by (auto simp: andThen_def split: verdict.splits)
    with 1 False show ?thesis by (auto intro: played_append_stop)
  qed
qed

lemma applyTransition_plays: "plays tg ctx (transitionCalls t) (applyTransition tg ctx t)"
proof -
  have "plays tg ctx (transitionCalls t) (\<lambda>n w. applyTransition tg ctx t n w)"
    unfolding transitionCalls_def applyTransition_def applyPrefixActions_def
    by (intro plays_andThen plays_loop) simp_all
  then show ?thesis by (simp add: plays_def)
qed

section \<open>Runs\<close>

definition run_result :: "'w Target \<Rightarrow> Clock \<Rightarrow> (nat \<Rightarrow> bool) \<Rightarrow> call list \<Rightarrow> int \<Rightarrow> 'w \<Rightarrow> int \<Rightarrow> 'w Runner \<Rightarrow> bool" where
  "run_result tg c ctx cs left w applied r \<longleftrightarrow>
     (\<exists>v. played tg cs w v (rnWorld r) \<and>
       (case v of
          Applied \<Rightarrow> stState (rnStatus r) = ''completed'' \<and> stLastError (rnStatus r) = [] \<and>
            stAppliedTransitions (rnStatus r) = applied + left
        | Cancelled \<Rightarrow> stState (rnStatus r) = ''stopped'' \<and> stLastError (rnStatus r) = [] \<and>
            stAppliedTransitions (rnStatus r) < applied + left
        | Refused e \<Rightarrow> stState (rnStatus r) = ''failed'' \<and> stLastError (rnStatus r) = e \<and>
            stAppliedTransitions (rnStatus r) < applied + left) \<and>
       ((\<forall>k. \<not> ctx k) \<and> (\<forall>k d. clWait c k d) \<longrightarrow> v \<noteq> Cancelled)) \<and>
     stActivePhases (rnStatus r) = [] \<and> applied \<le> stAppliedTransitions (rnStatus r)"

lemma played_stop_here: "played tg cs w Cancelled w"
  by (cases cs) auto

lemma runLoop_result:
  "run_result tg c ctx (concat (map transitionCalls ts)) (int (length ts)) (rnWorld r)
     (stAppliedTransitions (rnStatus r)) (runLoop tg c ctx started ts active r)"
proof (induction ts arbitrary: active r)
  case Nil
  then show ?case
    by (auto simp: run_result_def finish_def clockNow_def Let_def intro: exI [of _ Applied])
next
  case (Cons t ts)
  let ?r2 = "r\<lparr>rnReads := Suc (rnReads r), rnWaits := Suc (rnWaits r)\<rparr>"
  let ?ok = "clWait c (rnWaits r) (wrap64 (tnOffset t - timeSub (clNow c (rnReads r)) started))"
  obtain v n w where at: "applyTransition tg ctx t (rnChecks r) (rnWorld r) = (v, n, w)"
    by (cases "applyTransition tg ctx t (rnChecks r) (rnWorld r)")
  then have pl: "played tg (transitionCalls t) (rnWorld r) v w \<and> ((\<forall>k. \<not> ctx k) \<longrightarrow> v \<noteq> Cancelled)"
    using applyTransition_plays [of tg ctx t] by (auto simp: plays_def)
  show ?case
  proof (cases ?ok)
    case False
    then show ?thesis
      by (auto simp: run_result_def finish_def clockNow_def Let_def intro!: exI [of _ Cancelled] played_stop_here)
  next
    case True
    show ?thesis
    proof (cases v)
      case Applied
      let ?st = "(rnStatus r)\<lparr>stAppliedTransitions := stAppliedTransitions (rnStatus r) + 1,
        stActivePhases := sort (map snd (nextPhases t active))\<rparr>"
      let ?r3 = "?r2\<lparr>rnChecks := n, rnWorld := w, rnStatus := ?st\<rparr>"
      have "runLoop tg c ctx started (t # ts) active r = runLoop tg c ctx started ts (nextPhases t active) ?r3"
        using True at Applied by (simp add: clockNow_def Let_def)
      moreover have "run_result tg c ctx (concat (map transitionCalls ts)) (int (length ts)) w
          (stAppliedTransitions (rnStatus r) + 1) (runLoop tg c ctx started ts (nextPhases t active) ?r3)"
        using Cons.IH [of ?r3 "nextPhases t active"] by simp
      moreover have "played tg (transitionCalls t) (rnWorld r) Applied w" using pl Applied by simp
      ultimately show ?thesis
        unfolding run_result_def
        by (auto simp: algebra_simps split: verdict.splits intro: played_append) 
    next
      case Cancelled
      with True at pl show ?thesis
        by (auto simp: run_result_def finish_def clockNow_def Let_def intro!: exI [of _ Cancelled] played_append_stop)
    next
      case (Refused e)
      with True at pl show ?thesis
        by (auto simp: run_result_def finish_def fail_def clockNow_def Let_def
            intro!: exI [of _ "Refused e"] played_append_stop)
    qed
  qed
qed

section \<open>Active phases\<close>

definition activeAfter :: "Transition list \<Rightarrow> (string, string) gomap" where
  "activeAfter ts = foldl (\<lambda>m t. nextPhases t m) [] ts"

lemma map_of_endPhases: "map_of (endPhases ps m) k = (if k \<in> prID ` set ps then None else map_of m k)"
  unfolding endPhases_def by (induction ps arbitrary: m) (auto simp: gm_simps)

lemma has_startPhases: "map_of (startPhases ps m) k \<noteq> None \<longleftrightarrow> k \<in> prID ` set ps \<or> map_of m k \<noteq> None"
  unfolding startPhases_def by (induction ps arbitrary: m) (auto simp: gm_simps)

lemma has_nextPhases:
  "map_of (nextPhases t m) k \<noteq> None \<longleftrightarrow>
     k \<in> prID ` set (tnStartPhases t) \<or> k \<notin> prID ` set (tnEndPhases t) \<and> map_of m k \<noteq> None"
  unfolding nextPhases_def has_startPhases map_of_endPhases by simp

lemma activeAfter_snoc: "activeAfter (ts @ [t]) = nextPhases t (activeAfter ts)"
  by (simp add: activeAfter_def)

text \<open>With one start and one later end of a phase in a list sorted by offset, the phase is active in between.\<close>

lemma active_between:
  assumes "sorted_wrt (<) (map tnOffset ts)" "a < b"
    and "\<And>t. t \<in> set ts \<Longrightarrow> k \<in> prID ` set (tnStartPhases t) \<longleftrightarrow> tnOffset t = a"
    and "\<And>t. t \<in> set ts \<Longrightarrow> k \<in> prID ` set (tnEndPhases t) \<longleftrightarrow> tnOffset t = b"
  shows "map_of (activeAfter ts) k \<noteq> None \<longleftrightarrow> a \<in> tnOffset ` set ts \<and> b \<notin> tnOffset ` set ts"
  using assms(1,3,4)
proof (induction ts rule: rev_induct)
  case Nil
  then show ?case by (simp add: activeAfter_def)
next
  case (snoc t ts)
  have lt: "\<forall>x \<in> set ts. tnOffset x < tnOffset t"
    using snoc.prems(1) by (auto simp: sorted_wrt_append)
  have "map_of (activeAfter ts) k \<noteq> None \<longleftrightarrow> a \<in> tnOffset ` set ts \<and> b \<notin> tnOffset ` set ts"
    using snoc.prems by (intro snoc.IH) (auto simp: sorted_wrt_append)
  moreover have "k \<in> prID ` set (tnStartPhases t) \<longleftrightarrow> tnOffset t = a" "k \<in> prID ` set (tnEndPhases t) \<longleftrightarrow> tnOffset t = b"
    using snoc.prems(2,3) by auto
  ultimately show ?case
    unfolding activeAfter_snoc has_nextPhases using lt assms(2) by fastforce
qed

section \<open>Properties\<close>

text \<open>C13 (run_outcome): whatever the target, the clock and the moments of cancellation, one replay of a
  transition list ends, and it has made a prefix of the listed calls in order: all of them when it reports
  completion; up to and including the refused call, whose error it reports, when it reports failure; and
  fewer transitions than the list has when it was stopped.  Without cancellation it is never stopped, and no
  phase is reported active afterwards.\<close>

theorem run_outcome:
  "\<exists>v. played tg (concat (map transitionCalls ts)) w v (rnWorld (Start tg c ctx (NewWithClock ts w))) \<and>
     (case v of
        Applied \<Rightarrow> stState (rnStatus (Start tg c ctx (NewWithClock ts w))) = ''completed'' \<and>
          stAppliedTransitions (rnStatus (Start tg c ctx (NewWithClock ts w))) = int (length ts)
      | Cancelled \<Rightarrow> stState (rnStatus (Start tg c ctx (NewWithClock ts w))) = ''stopped'' \<and>
          stAppliedTransitions (rnStatus (Start tg c ctx (NewWithClock ts w))) < int (length ts)
      | Refused e \<Rightarrow> stState (rnStatus (Start tg c ctx (NewWithClock ts w))) = ''failed'' \<and>
          stLastError (rnStatus (Start tg c ctx (NewWithClock ts w))) = e \<and>
          stAppliedTransitions (rnStatus (Start tg c ctx (NewWithClock ts w))) < int (length ts)) \<and>
     ((\<forall>k. \<not> ctx k) \<and> (\<forall>k d. clWait c k d) \<longrightarrow> v \<noteq> Cancelled) \<and>
     stActivePhases (rnStatus (Start tg c ctx (NewWithClock ts w))) = []"
proof (cases "ts = []")
  case True
  then show ?thesis
    by (auto simp: Start_def NewWithClock_def idleStatus_def clockNow_def Let_def intro: exI [of _ Applied])
next
  case False
  let ?r = "(NewWithClock ts w)\<lparr>rnReads := Suc 0, rnStatus := (idleStatus (length ts))\<lparr>stState := ''running'',
    stStartedAt := clNow c 0\<rparr>\<rparr>"
  have "Start tg c ctx (NewWithClock ts w) = runLoop tg c ctx (clNow c 0) ts [] ?r"
    using False by (simp add: Start_def NewWithClock_def idleStatus_def clockNow_def Let_def)
  then show ?thesis
    using runLoop_result [of tg c ctx ts ?r "clNow c 0" "[]"]
    by (fastforce simp: run_result_def NewWithClock_def idleStatus_def split: verdict.splits)
qed

definition countingTarget :: "nat Target" where
  "countingTarget = \<lparr>tgSetInterfaceFault = (\<lambda>_ _ _ _ n. (None, Suc n)), tgSetDeviceFault = (\<lambda>_ _ _ n. (None, Suc n)),
     tgSetDeviceAddressFault = (\<lambda>_ _ _ n. (None, Suc n)), tgClearDeviceFault = (\<lambda>_ _ n. (None, Suc n)),
     tgSetInterfaceAddressFault = (\<lambda>_ _ n. (None, Suc n)), tgClearInterfaceAddressFault = (\<lambda>_ _ _ n. (None, Suc n)),
     tgSetInterfacePrefixFault = (\<lambda>_ _ n. (None, Suc n)), tgClearInterfacePrefixFault = (\<lambda>_ _ _ n. (None, Suc n)),
     tgExecuteDeviceAction = (\<lambda>_ _ _ n. (None, Suc n)), tgRoamStation = (\<lambda>_ n. (None, Suc n))\<rparr>"

definition sampleTransition :: Transition where
  "sampleTransition = (emptyTransition 5)\<lparr>tnActions := [\<lparr>acDevice = ''r1'', acInterface = ''e0'',
     acType = FaultLinkDown, acValue = 1\<rparr>]\<rparr>"

theorem run_outcome_witness:
  "stState (rnStatus (Start countingTarget \<lparr>clNow = (\<lambda>_. 7), clWait = (\<lambda>_ _. True)\<rparr> (\<lambda>_. False)
     (NewWithClock [sampleTransition] 0))) = ''completed'' \<and>
   rnWorld (Start countingTarget \<lparr>clNow = (\<lambda>_. 7), clWait = (\<lambda>_ _. True)\<rparr> (\<lambda>_. False)
     (NewWithClock [sampleTransition] 0)) = 1"
proof -
  let ?c = "\<lparr>clNow = (\<lambda>_. 7), clWait = (\<lambda>_ _. True)\<rparr>"
  have calls: "concat (map transitionCalls [sampleTransition]) = [CallInterface \<lparr>acDevice = ''r1'', acInterface = ''e0'',
     acType = FaultLinkDown, acValue = 1\<rparr>]"
    by (simp add: transitionCalls_def sampleTransition_def emptyTransition_def)
  have "played countingTarget (concat (map transitionCalls [sampleTransition])) 0 v n \<Longrightarrow>
      v = Cancelled \<or> v = Applied \<and> n = 1" for v n
    unfolding calls by (auto simp: applyInterface_def countingTarget_def)
  with run_outcome [of countingTarget "[sampleTransition]" 0 ?c "\<lambda>_. False"] show ?thesis
    by fastforce
qed

text \<open>After the transitions up to any offset have been applied, a phase of a compiled
  schedule is in the set of active phases exactly when it has started and not ended by then, provided its
  duration is positive and its end fits the clock's range.\<close>

theorem phase_active_iff:
  assumes "t < length tms" "r < nat (tlRepeatCount (tms ! t))" "p < length (tlPhases (tms ! t))"
    and "ph = tlPhases (tms ! t) ! p" "0 < phDuration ph" "phaseStart (tms ! t) r ph + phDuration ph < 2 ^ 63"
  shows "gm_has (activeAfter (filter (\<lambda>x. tnOffset x \<le> offset) (Compile tms))) (phaseID t r p) \<longleftrightarrow>
    phaseStart (tms ! t) r ph \<le> offset \<and> offset < phaseStart (tms ! t) r ph + phDuration ph"
proof -
  let ?a = "phaseStart (tms ! t) r ph" and ?b = "phaseEnd (tms ! t) r ph" and ?k = "phaseID t r p"
  let ?ts = "filter (\<lambda>x. tnOffset x \<le> offset) (Compile tms)"
  have "- (2 ^ 63) \<le> ?a" using wrap64_range by (simp add: phaseStart_def)
  then have b: "?b = ?a + phDuration ph"
    using assms(5,6) by (simp add: phaseEnd_def wrap64_id)
  obtain s e where s: "s \<in> set (scheduledAll tms)" "\<not> scEnd s" "prID (scPhase s) = ?k" "scOffset s = ?a"
    and e: "e \<in> set (scheduledAll tms)" "scEnd e" "prID (scPhase e) = ?k" "scOffset e = ?b"
    using scheduledPhase_both [of t "tms ! t" r p ph False] scheduledPhase_both [of t "tms ! t" r p ph True]
      assms(1-4) in_scheduledPhase by (metis in_scheduledAll)
  have start: "?k \<in> prID ` set (tnStartPhases x) \<longleftrightarrow> tnOffset x = ?a" if "x \<in> set (Compile tms)" for x
    using s scheduledAll_offset [of _ tms t r p] assms(4)
    by (force simp: compile_phases(1) [OF that] image_iff)
  have stop: "?k \<in> prID ` set (tnEndPhases x) \<longleftrightarrow> tnOffset x = ?b" if "x \<in> set (Compile tms)" for x
    using e scheduledAll_offset [of _ tms t r p] assms(4)
    by (force simp: compile_phases(2) [OF that] image_iff)
  have "sorted_wrt (<) (map tnOffset ?ts)"
    using compile_sorted [of tms] by (auto simp: sorted_wrt_map intro: sorted_wrt_filter)
  then have "map_of (activeAfter ?ts) ?k \<noteq> None \<longleftrightarrow> ?a \<in> tnOffset ` set ?ts \<and> ?b \<notin> tnOffset ` set ?ts"
    using assms(5) b start stop by (intro active_between) auto
  moreover have "?a \<in> tnOffset ` set (Compile tms)" "?b \<in> tnOffset ` set (Compile tms)"
    using compile_has_offset s(1,4) e(1,4) by force+
  then have "?a \<in> tnOffset ` set ?ts \<longleftrightarrow> ?a \<le> offset" "?b \<in> tnOffset ` set ?ts \<longleftrightarrow> ?b \<le> offset"
    by auto
  ultimately show ?thesis
    using b by (simp add: gm_has_def not_le)
qed

definition sampleTimeline :: BehaviorTimeline where
  "sampleTimeline = \<lparr>tlName = ''flap'', tlStartOffset = 10, tlRepeatCount = 3, tlPhases =
     [\<lparr>phName = ''down'', phStartOffset = 0, phDuration = 4, phReset = True, phTraffic = [],
       phFaults = [\<lparr>bfDevice = ''r1'', bfInterface = ''e0'', bfType = FaultLinkDown, bfValue = 1,
         bfAddress = NoAddr, bfPrefixBits = 0\<rparr>], phActions = [], phRoams = []\<rparr>]\<rparr>"

theorem phase_active_iff_witness:
  "gm_has (activeAfter (filter (\<lambda>x. tnOffset x \<le> 20) (Compile [sampleTimeline]))) (phaseID 0 2 0) \<and>
   \<not> gm_has (activeAfter (filter (\<lambda>x. tnOffset x \<le> 20) (Compile [sampleTimeline]))) (phaseID 0 1 0)"
  using phase_active_iff [of 0 "[sampleTimeline]" 2 0 "tlPhases sampleTimeline ! 0" 20]
    phase_active_iff [of 0 "[sampleTimeline]" 1 0 "tlPhases sampleTimeline ! 0" 20]
  by (simp add: sampleTimeline_def phaseStart_def cycleStart_def behaviorCycleDuration_def wrap64_def)

end
