(* ===== verification/Behavior_Validate.thy ===== *)
theory Behavior_Validate
  imports Behavior_Runner
begin

text \<open>
  Schedule-level validation of authored timelines (\<open>internal/config/behavior.go\<close>): the bound on the
  number of scheduled actions and the search for timelines that drive one target at the same time.
  \<open>timelineLimits\<close> states the ranges of \<open>internal/converter/types_behavior.go\<close> under which timelines
  reach this code.  \<open>slices.SortFunc\<close> is not stable, so the order it gives to intervals with equal starts is
  a parameter \<open>sf\<close> with its documented behaviour as hypothesis: the result is a permutation sorted by
  the comparison.
\<close>

section \<open>Ranges of authored timelines (types_behavior.go)\<close>

definition msToDuration :: "int \<Rightarrow> int" where
  "msToDuration ms = ms * 10 ^ 6"

definition phaseLimits :: "BehaviorPhase \<Rightarrow> bool" where
  "phaseLimits p \<longleftrightarrow>
     0 \<le> phStartOffset p \<and> phStartOffset p \<le> msToDuration 86400000 \<and>
     msToDuration 1 \<le> phDuration p \<and> phDuration p \<le> msToDuration 86400000 \<and>
     length (phTraffic p) \<le> 1024 \<and> length (phFaults p) \<le> 1024 \<and> length (phActions p) \<le> 1024 \<and>
     length (phRoams p) \<le> 1024"

definition timelineLimits :: "BehaviorTimeline \<Rightarrow> bool" where
  "timelineLimits t \<longleftrightarrow>
     0 \<le> tlStartOffset t \<and> tlStartOffset t \<le> msToDuration 86400000 \<and>
     1 \<le> tlRepeatCount t \<and> tlRepeatCount t \<le> 1000 \<and>
     tlPhases t \<noteq> [] \<and> length (tlPhases t) \<le> 256 \<and> list_all phaseLimits (tlPhases t)"

section \<open>Schedule size (behavior.go)\<close>

datatype berror = ErrBehaviorScheduleTooLarge | ErrBehaviorPhaseOverlap

definition maxBehaviorScheduledActions :: int where "maxBehaviorScheduledActions = 100000"

definition phaseApplications :: "BehaviorPhase \<Rightarrow> int" where
  "phaseApplications p =
     (let applications = wrap64 (int (length (phTraffic p) + length (phFaults p) + length (phRoams p)));
          doubled = (if phReset p then wrap64 (applications * 2) else applications)
      in wrap64 (doubled + int (length (phActions p))))"

fun sizePhases :: "int \<Rightarrow> BehaviorPhase list \<Rightarrow> int \<Rightarrow> berror + int" where
  "sizePhases repeatCount [] scheduled = Inr scheduled"
| "sizePhases repeatCount (p # ps) scheduled =
     (let scheduled1 = wrap64 (scheduled + wrap64 (phaseApplications p * repeatCount)) in
      if maxBehaviorScheduledActions < scheduled1 then Inl ErrBehaviorScheduleTooLarge
      else sizePhases repeatCount ps scheduled1)"

fun sizeTimelines :: "BehaviorTimeline list \<Rightarrow> int \<Rightarrow> berror + int" where
  "sizeTimelines [] scheduled = Inr scheduled"
| "sizeTimelines (t # ts) scheduled =
     (case sizePhases (tlRepeatCount t) (tlPhases t) scheduled of
        Inl e \<Rightarrow> Inl e | Inr s \<Rightarrow> sizeTimelines ts s)"

definition validateBehaviorScheduleSize :: "BehaviorTimeline list \<Rightarrow> berror option" where
  "validateBehaviorScheduleSize timelines =
     (case sizeTimelines timelines 0 of Inl e \<Rightarrow> Some e | Inr _ \<Rightarrow> None)"

section \<open>Conflicts (behavior.go)\<close>

record behaviorInterval =
  biStart :: int
  biEnd :: int
  biPersistent :: bool
  biTimelineIndex :: nat
  biTimeline :: string
  biPhase :: string

definition behaviorConflictKey :: "string \<Rightarrow> string \<Rightarrow> string \<Rightarrow> string" where
  "behaviorConflictKey device iface faultType = device @ [CHR 0x00] @ iface @ [CHR 0x00] @ faultType"

definition behaviorPhaseTargetKeys :: "BehaviorPhase \<Rightarrow> string list" where
  "behaviorPhaseTargetKeys p = remdups
     (map (\<lambda>t. behaviorConflictKey (btDevice t) (btInterface t) ''high_utilization'') (phTraffic p) @
      map (\<lambda>f. behaviorConflictKey (bfDevice f) (bfInterface f) (bfType f)) (phFaults p) @
      concat (map (\<lambda>r. case ParseMAC (brStation r) of None \<Rightarrow> []
        | Some station \<Rightarrow> [behaviorConflictKey (macString station) [] ''roam'']) (phRoams p)))"

definition behaviorTimelineDuration :: "BehaviorPhase list \<Rightarrow> int" where
  "behaviorTimelineDuration phases =
     foldl (\<lambda>duration p. max duration (wrap64 (phStartOffset p + phDuration p))) 0 phases"

definition phaseIntervals :: "nat \<Rightarrow> BehaviorTimeline \<Rightarrow> BehaviorPhase \<Rightarrow> behaviorInterval list" where
  "phaseIntervals index t p =
     (let cycleDuration = behaviorTimelineDuration (tlPhases t);
          repetitions = (if phReset p then tlRepeatCount t else 1) in
      map (\<lambda>repetition.
        let start = wrap64 (wrap64 (tlStartOffset t + wrap64 (int repetition * cycleDuration)) + phStartOffset p)
        in \<lparr>biStart = start, biEnd = wrap64 (start + phDuration p), biPersistent = \<not> phReset p,
            biTimelineIndex = index, biTimeline = tlName t, biPhase = phName p\<rparr>)
        [0 ..< nat repetitions])"

definition appendAll :: "string list \<Rightarrow> behaviorInterval \<Rightarrow> (string, behaviorInterval list) gomap \<Rightarrow>
    (string, behaviorInterval list) gomap" where
  "appendAll keys i m =
     foldl (\<lambda>m k. gm_put k ((case map_of m k of None \<Rightarrow> [] | Some is \<Rightarrow> is) @ [i]) m) m keys"

definition behaviorIntervalsByTarget :: "BehaviorTimeline list \<Rightarrow> (string, behaviorInterval list) gomap" where
  "behaviorIntervalsByTarget timelines =
     foldl (\<lambda>m (index, t).
        foldl (\<lambda>m p. foldl (\<lambda>m i. appendAll (behaviorPhaseTargetKeys p) i m) m (phaseIntervals index t p)) m (tlPhases t))
       [] (enumerate 0 timelines)"

definition clashes :: "behaviorInterval \<Rightarrow> nat \<Rightarrow> behaviorInterval \<Rightarrow> bool" where
  "clashes current index previous \<longleftrightarrow>
     \<not> (index = biTimelineIndex current \<or> \<not> biPersistent previous \<and> biEnd previous \<le> biStart current)"

definition updateFurthest ::
  "behaviorInterval \<Rightarrow> (nat, behaviorInterval) gomap \<Rightarrow> (nat, behaviorInterval) gomap" where
  "updateFurthest current furthest =
     (case map_of furthest (biTimelineIndex current) of
        None \<Rightarrow> gm_put (biTimelineIndex current) current furthest
      | Some previous \<Rightarrow>
          if biPersistent current \<or> \<not> biPersistent previous \<and> biEnd previous < biEnd current
          then gm_put (biTimelineIndex current) current furthest else furthest)"

fun intervalLoop :: "behaviorInterval list \<Rightarrow> (nat, behaviorInterval) gomap \<Rightarrow> berror option" where
  "intervalLoop [] furthest = None"
| "intervalLoop (current # rest) furthest =
     (if list_ex (\<lambda>(index, previous). clashes current index previous) furthest then Some ErrBehaviorPhaseOverlap
      else intervalLoop rest (updateFurthest current furthest))"

definition validateBehaviorTargetIntervals ::
  "(behaviorInterval list \<Rightarrow> behaviorInterval list) \<Rightarrow> behaviorInterval list \<Rightarrow> berror option" where
  "validateBehaviorTargetIntervals sf intervals = intervalLoop (sf intervals) []"

text \<open>The loop over the map stops at the first error; whichever comes first, it is this one.\<close>

definition validateBehaviorConflicts ::
  "(behaviorInterval list \<Rightarrow> behaviorInterval list) \<Rightarrow> BehaviorTimeline list \<Rightarrow> berror option" where
  "validateBehaviorConflicts sf timelines =
     (case find (\<lambda>e. validateBehaviorTargetIntervals sf (snd e) \<noteq> None) (behaviorIntervalsByTarget timelines) of
        None \<Rightarrow> None | Some e \<Rightarrow> validateBehaviorTargetIntervals sf (snd e))"

section \<open>Intervals of one target\<close>

definition follows_ok :: "behaviorInterval \<Rightarrow> behaviorInterval \<Rightarrow> bool" where
  "follows_ok a b \<longleftrightarrow> biTimelineIndex a = biTimelineIndex b \<or> \<not> biPersistent a \<and> biEnd a \<le> biStart b"

definition covers :: "behaviorInterval list \<Rightarrow> (nat, behaviorInterval) gomap \<Rightarrow> bool" where
  "covers seen m \<longleftrightarrow> gm_wf m \<and>
     (\<forall>i f. map_of m i = Some f \<longrightarrow> f \<in> set seen \<and> biTimelineIndex f = i) \<and>
     (\<forall>a \<in> set seen. \<exists>f. map_of m (biTimelineIndex a) = Some f \<and>
        (biPersistent f \<or> \<not> biPersistent a \<and> biEnd a \<le> biEnd f))"

lemma covers_clash:
  assumes "covers seen m"
  shows "list_ex (\<lambda>(index, previous). clashes current index previous) m \<longleftrightarrow> (\<exists>a \<in> set seen. \<not> follows_ok a current)"
proof
  assume "list_ex (\<lambda>(index, previous). clashes current index previous) m"
  then obtain i f where "(i, f) \<in> set m" "clashes current i f" by (auto simp: list_ex_iff)
  moreover from this have "map_of m i = Some f" using assms by (simp add: covers_def gm_wf_map_of_mem)
  ultimately show "\<exists>a \<in> set seen. \<not> follows_ok a current"
    using assms by (auto simp: covers_def clashes_def follows_ok_def)
next
  assume "\<exists>a \<in> set seen. \<not> follows_ok a current"
  then obtain a where a: "a \<in> set seen" "\<not> follows_ok a current" by blast
  then obtain f where f: "map_of m (biTimelineIndex a) = Some f"
    "biPersistent f \<or> \<not> biPersistent a \<and> biEnd a \<le> biEnd f"
    using assms by (auto simp: covers_def)
  then have "clashes current (biTimelineIndex a) f"
    using a(2) by (auto simp: clashes_def follows_ok_def)
  with f(1) show "list_ex (\<lambda>(index, previous). clashes current index previous) m"
    by (force simp: list_ex_iff dest: map_of_SomeD)
qed

lemma covers_update:
  assumes "covers seen m"
  shows "covers (current # seen) (updateFurthest current m)"
  using assms unfolding covers_def updateFurthest_def
  by (auto simp: gm_intros gm_simps split: option.splits)

lemma intervalLoop_iff:
  "covers seen m \<Longrightarrow> intervalLoop xs m = None \<longleftrightarrow>
     sorted_wrt follows_ok xs \<and> (\<forall>a \<in> set seen. \<forall>b \<in> set xs. follows_ok a b)"
proof (induction xs arbitrary: seen m)
  case (Cons x xs)
  have "intervalLoop xs (updateFurthest x m) = None \<longleftrightarrow>
      sorted_wrt follows_ok xs \<and> (\<forall>a \<in> set (x # seen). \<forall>b \<in> set xs. follows_ok a b)"
    using covers_update [OF Cons.prems] by (rule Cons.IH)
  with covers_clash [OF Cons.prems, of x] show ?case by auto
qed simp

lemma targetIntervals_iff:
  "validateBehaviorTargetIntervals sf xs = None \<longleftrightarrow> sorted_wrt follows_ok (sf xs)"
  using intervalLoop_iff [of "[]" "[]" "sf xs"] by (simp add: validateBehaviorTargetIntervals_def covers_def)

text \<open>Two intervals of different timelines that are in force at the same time.\<close>

definition overlaps :: "behaviorInterval \<Rightarrow> behaviorInterval \<Rightarrow> bool" where
  "overlaps a b \<longleftrightarrow> biTimelineIndex a \<noteq> biTimelineIndex b \<and>
     (biStart a \<le> biStart b \<and> (biPersistent a \<or> biStart b < biEnd a) \<or>
      biStart b \<le> biStart a \<and> (biPersistent b \<or> biStart a < biEnd b))"

lemma sorted_follows_iff:
  assumes "sorted (map biStart xs)" "\<forall>a \<in> set xs. biStart a < biEnd a"
  shows "sorted_wrt follows_ok xs \<longleftrightarrow> \<not> (\<exists>a \<in> set xs. \<exists>b \<in> set xs. overlaps a b)"
proof -
  have later: "\<not> follows_ok a b \<longleftrightarrow> overlaps a b"
    if "biStart a \<le> biStart b" "a \<in> set xs" "b \<in> set xs" for a b
    using that assms(2) by (force simp: follows_ok_def overlaps_def)
  have sym: "overlaps a b = overlaps b a" for a b by (auto simp: overlaps_def)
  have irr: "\<not> overlaps a a" for a by (simp add: overlaps_def)
  from assms(1) later show ?thesis
  proof (induction xs)
    case (Cons x xs)
    have "sorted_wrt follows_ok xs \<longleftrightarrow> \<not> (\<exists>a \<in> set xs. \<exists>b \<in> set xs. overlaps a b)"
      using Cons.prems by (intro Cons.IH) auto
    moreover have "(\<forall>b \<in> set xs. follows_ok x b) \<longleftrightarrow> \<not> (\<exists>b \<in> set xs. overlaps x b)"
      using Cons.prems by fastforce
    ultimately show ?case using sym irr by auto
  qed simp
qed

section \<open>All targets\<close>

definition intervalsOf :: "(string, behaviorInterval list) gomap \<Rightarrow> string \<Rightarrow> behaviorInterval set" where
  "intervalsOf m k = (case map_of m k of None \<Rightarrow> {} | Some is \<Rightarrow> set is)"

text \<open>\<open>drives tms k i\<close>: some phase of the timelines drives target \<open>k\<close> over the interval \<open>i\<close>.\<close>

definition drives :: "BehaviorTimeline list \<Rightarrow> string \<Rightarrow> behaviorInterval \<Rightarrow> bool" where
  "drives tms k i \<longleftrightarrow> (\<exists>index < length tms. \<exists>p \<in> set (tlPhases (tms ! index)).
     k \<in> set (behaviorPhaseTargetKeys p) \<and> i \<in> set (phaseIntervals index (tms ! index) p))"

definition grows :: "((string, behaviorInterval list) gomap \<Rightarrow> (string, behaviorInterval list) gomap) \<Rightarrow>
    (string \<Rightarrow> behaviorInterval set) \<Rightarrow> bool" where
  "grows f S \<longleftrightarrow> (\<forall>m. gm_wf m \<longrightarrow> gm_wf (f m) \<and> (\<forall>k. intervalsOf (f m) k = intervalsOf m k \<union> S k))"

lemma grows_foldl:
  assumes "\<And>x. x \<in> set xs \<Longrightarrow> grows (\<lambda>m. f m x) (S x)"
  shows "grows (\<lambda>m. foldl f m xs) (\<lambda>k. \<Union>x \<in> set xs. S x k)"
  using assms
proof (induction xs)
  case Nil
  then show ?case by (simp add: grows_def)
next
  case (Cons x xs)
  then have IH: "grows (\<lambda>m. foldl f m xs) (\<lambda>k. \<Union>x \<in> set xs. S x k)" and x: "grows (\<lambda>m. f m x) (S x)" by auto
  from IH x show ?case unfolding grows_def by (simp add: Un_assoc)
qed

lemma intervalsOf_put:
  "intervalsOf (gm_put k ((case map_of m k of None \<Rightarrow> [] | Some is \<Rightarrow> is) @ [i]) m) j =
     intervalsOf m j \<union> (if j = k then {i} else {})"
  by (auto simp: intervalsOf_def gm_simps split: option.split)

lemma grows_appendAll: "grows (appendAll keys i) (\<lambda>k. if k \<in> set keys then {i} else {})"
proof -
  have "grows (\<lambda>m. foldl (\<lambda>m k. gm_put k ((case map_of m k of None \<Rightarrow> [] | Some is \<Rightarrow> is) @ [i]) m) m keys)
      (\<lambda>j. \<Union>k \<in> set keys. if j = k then {i} else {})"
    by (rule grows_foldl) (simp add: grows_def gm_intros intervalsOf_put)
  moreover have "(\<lambda>j. \<Union>k \<in> set keys. if j = k then {i} else {}) = (\<lambda>k. if k \<in> set keys then {i} else {})"
    by (auto simp: fun_eq_iff)
  ultimately show ?thesis by (simp add: appendAll_def [abs_def])
qed

lemma byTarget_drives: "gm_wf (behaviorIntervalsByTarget tms) \<and> intervalsOf (behaviorIntervalsByTarget tms) k = {i. drives tms k i}"
proof -
  let ?keys = "\<lambda>p. set (behaviorPhaseTargetKeys p)"
  have "grows (\<lambda>m. foldl (\<lambda>m (index, t).
      foldl (\<lambda>m p. foldl (\<lambda>m i. appendAll (behaviorPhaseTargetKeys p) i m) m (phaseIntervals index t p)) m (tlPhases t))
      m (enumerate 0 tms))
    (\<lambda>k. \<Union>x \<in> set (enumerate 0 tms). \<Union>p \<in> set (tlPhases (snd x)).
      \<Union>i \<in> set (phaseIntervals (fst x) (snd x) p). if k \<in> ?keys p then {i} else {})"
    by (rule grows_foldl, simp only: case_prod_beta', rule grows_foldl, rule grows_foldl, rule grows_appendAll)
  then have "gm_wf (behaviorIntervalsByTarget tms)" and
    "intervalsOf (behaviorIntervalsByTarget tms) k = (\<Union>x \<in> set (enumerate 0 tms). \<Union>p \<in> set (tlPhases (snd x)).
      \<Union>i \<in> set (phaseIntervals (fst x) (snd x) p). if k \<in> ?keys p then {i} else {})"
    unfolding grows_def behaviorIntervalsByTarget_def by (auto simp: intervalsOf_def)
  moreover have "(\<Union>x \<in> set (enumerate 0 tms). \<Union>p \<in> set (tlPhases (snd x)).
      \<Union>i \<in> set (phaseIntervals (fst x) (snd x) p). if k \<in> ?keys p then {i} else {}) = {i. drives tms k i}"
    unfolding drives_def set_eq_iff UN_iff bex_enumerate fst_conv snd_conv mem_Collect_eq
    by (auto split: if_splits)
  ultimately show ?thesis by simp
qed

section \<open>Ranges\<close>

lemma cycle_bounds:
  "\<forall>p \<in> set ps. phaseLimits p \<Longrightarrow> 0 \<le> acc \<Longrightarrow> acc \<le> 2 * msToDuration 86400000 \<Longrightarrow>
     0 \<le> foldl (\<lambda>d p. max d (wrap64 (phStartOffset p + phDuration p))) acc ps \<and>
     foldl (\<lambda>d p. max d (wrap64 (phStartOffset p + phDuration p))) acc ps \<le> 2 * msToDuration 86400000"
proof (induction ps arbitrary: acc)
  case (Cons p ps)
  have "wrap64 (phStartOffset p + phDuration p) = phStartOffset p + phDuration p"
    using Cons.prems(1) by (intro wrap64_id) (auto simp: phaseLimits_def msToDuration_def)
  with Cons show ?case by (auto simp: phaseLimits_def msToDuration_def)
qed simp

lemma interval_positive:
  assumes "timelineLimits t" "p \<in> set (tlPhases t)" "i \<in> set (phaseIntervals index t p)"
  shows "biStart i < biEnd i"
proof -
  let ?c = "behaviorTimelineDuration (tlPhases t)"
  have lim: "phaseLimits p" "tlRepeatCount t \<le> 1000" "0 \<le> tlStartOffset t" "tlStartOffset t \<le> msToDuration 86400000"
    using assms(1,2) by (auto simp: timelineLimits_def list_all_iff)
  have c: "0 \<le> ?c" "?c \<le> 2 * msToDuration 86400000"
    using cycle_bounds [of "tlPhases t" 0] assms(1)
    by (auto simp: behaviorTimelineDuration_def timelineLimits_def list_all_iff msToDuration_def)
  have "\<exists>r < nat (if phReset p then tlRepeatCount t else 1).
      biStart i = wrap64 (wrap64 (tlStartOffset t + wrap64 (int r * ?c)) + phStartOffset p) \<and>
      biEnd i = wrap64 (biStart i + phDuration p)"
    using assms(3) unfolding phaseIntervals_def Let_def set_map by (auto simp del: if_split)
  then obtain r where r0: "r < nat (if phReset p then tlRepeatCount t else 1)" and i: "biStart i =
      wrap64 (wrap64 (tlStartOffset t + wrap64 (int r * ?c)) + phStartOffset p)" "biEnd i = wrap64 (biStart i + phDuration p)"
    by blast
  have r: "r < 1000" using r0 lim(2) by (auto split: if_splits)
  have rc: "0 \<le> int r * ?c" "int r * ?c \<le> 1000 * (2 * msToDuration 86400000)"
    using r c by (simp, intro mult_mono) (auto simp: msToDuration_def)
  then have "wrap64 (int r * ?c) = int r * ?c" by (intro wrap64_id) (auto simp: msToDuration_def)
  then have "biStart i = tlStartOffset t + int r * ?c + phStartOffset p"
    using i(1) rc lim by (simp add: wrap64_id phaseLimits_def msToDuration_def)
  then have "biEnd i = biStart i + phDuration p"
    using i(2) rc lim by (simp add: wrap64_id phaseLimits_def msToDuration_def)
  with lim(1) show ?thesis by (simp add: phaseLimits_def msToDuration_def)
qed

lemma first_error_None:
  "(case find (\<lambda>e. f e \<noteq> None) xs of None \<Rightarrow> None | Some e \<Rightarrow> f e) = None \<longleftrightarrow> (\<forall>e \<in> set xs. f e = None)"
  by (induction xs) auto

section \<open>Properties\<close>

text \<open>Timelines within the authored ranges are accepted exactly when no target (an
  interface fault, a device fault, a station's roam) is driven by two of them at the same time, where a phase that
  does not reset drives its targets for ever; the answer does not depend on how the sort orders equal starts.\<close>

theorem conflicts_iff:
  assumes "\<And>xs. mset (sf xs) = mset xs \<and> sorted (map biStart (sf xs))"
    and "\<forall>t \<in> set tms. timelineLimits t"
  shows "validateBehaviorConflicts sf tms = None \<longleftrightarrow>
    \<not> (\<exists>k a b. drives tms k a \<and> drives tms k b \<and> overlaps a b)"
proof -
  let ?m = "behaviorIntervalsByTarget tms"
  have wf: "gm_wf ?m" and of: "intervalsOf ?m k = {i. drives tms k i}" for k
    using byTarget_drives by blast+
  have pos: "biStart i < biEnd i" if "drives tms k i" for k i
    using that assms(2) by (auto simp: drives_def intro: interval_positive)
  have each: "validateBehaviorTargetIntervals sf is = None \<longleftrightarrow> \<not> (\<exists>a b. drives tms k a \<and> drives tms k b \<and> overlaps a b)"
    if "(k, is) \<in> set ?m" for k "is"
  proof -
    have s: "set is = {i. drives tms k i}"
      using of [of k] that wf by (simp add: intervalsOf_def gm_wf_map_of_mem [THEN iffD2])
    have sf: "set (sf is) = set is" using assms(1) [of "is"] by (metis set_mset_mset)
    show ?thesis
      unfolding targetIntervals_iff using assms(1) pos sf s by (subst sorted_follows_iff) auto
  qed
  have entry: "\<exists>is. (k, is) \<in> set ?m" if "drives tms k a" for k a
    using of [of k] that by (auto simp: intervalsOf_def split: option.splits dest: map_of_SomeD)
  have "validateBehaviorConflicts sf tms = None \<longleftrightarrow>
      (\<forall>e \<in> set ?m. validateBehaviorTargetIntervals sf (snd e) = None)"
    unfolding validateBehaviorConflicts_def by (rule first_error_None)
  also have "\<dots> \<longleftrightarrow> \<not> (\<exists>k a b. drives tms k a \<and> drives tms k b \<and> overlaps a b)"
    using each entry by fastforce
  finally show ?thesis .
qed

lemma insort_sorts: "mset (sort_key biStart xs) = mset xs \<and> sorted (map biStart (sort_key biStart xs))"
  by simp

text \<open>Two timelines that take the same port down at overlapping times, and the same ones apart.\<close>

definition downPhase :: "int \<Rightarrow> BehaviorPhase" where
  "downPhase start = \<lparr>phName = ''down'', phStartOffset = start, phDuration = msToDuration 5, phReset = True, phTraffic = [],
     phFaults = [\<lparr>bfDevice = ''r1'', bfInterface = ''e0'', bfType = FaultLinkDown, bfValue = 1,
       bfAddress = NoAddr, bfPrefixBits = 0\<rparr>], phActions = [], phRoams = []\<rparr>"

definition downTimeline :: "int \<Rightarrow> BehaviorTimeline" where
  "downTimeline start = \<lparr>tlName = ''flap'', tlStartOffset = 0, tlRepeatCount = 1, tlPhases = [downPhase start]\<rparr>"

lemma downTimeline_limits: "0 \<le> start \<Longrightarrow> start \<le> msToDuration 100 \<Longrightarrow> timelineLimits (downTimeline start)"
  by (simp add: timelineLimits_def phaseLimits_def downTimeline_def downPhase_def msToDuration_def)

lemma downTimeline_drives:
  assumes "0 \<le> start" "start \<le> msToDuration 100" "index < length tms" "tms ! index = downTimeline start"
  shows "drives tms (behaviorConflictKey ''r1'' ''e0'' FaultLinkDown)
    \<lparr>biStart = start, biEnd = start + msToDuration 5, biPersistent = False, biTimelineIndex = index,
     biTimeline = ''flap'', biPhase = ''down''\<rparr>"
proof -
  have "wrap64 start = start" "wrap64 (start + msToDuration 5) = start + msToDuration 5" "wrap64 0 = 0"
    using assms(1,2) by (auto intro!: wrap64_id simp: msToDuration_def)
  then show ?thesis
    using assms(3,4) unfolding drives_def
    by (intro exI [of _ index]) (simp add: downTimeline_def downPhase_def behaviorPhaseTargetKeys_def phaseIntervals_def Let_def)
qed

theorem conflicts_iff_witness:
  "validateBehaviorConflicts (sort_key biStart) [downTimeline 0, downTimeline (msToDuration 3)] \<noteq> None"
proof -
  let ?tms = "[downTimeline 0, downTimeline (msToDuration 3)]"
  have "\<forall>t \<in> set ?tms. timelineLimits t" using downTimeline_limits by (simp add: msToDuration_def)
  then have iff: "validateBehaviorConflicts (sort_key biStart) ?tms = None \<longleftrightarrow>
      \<not> (\<exists>k a b. drives ?tms k a \<and> drives ?tms k b \<and> overlaps a b)"
    by (rule conflicts_iff [OF insort_sorts])
  have "overlaps \<lparr>biStart = 0, biEnd = 0 + msToDuration 5, biPersistent = False, biTimelineIndex = 0,
       biTimeline = ''flap'', biPhase = ''down''\<rparr>
     \<lparr>biStart = msToDuration 3, biEnd = msToDuration 3 + msToDuration 5, biPersistent = False, biTimelineIndex = 1,
       biTimeline = ''flap'', biPhase = ''down''\<rparr>"
    by (simp add: overlaps_def msToDuration_def)
  with downTimeline_drives [of 0 0 ?tms] downTimeline_drives [of "msToDuration 3" 1 ?tms] show ?thesis
    unfolding iff by (auto simp: msToDuration_def)
qed

section \<open>How many calls a schedule makes\<close>

definition phaseCalls :: "BehaviorPhase \<Rightarrow> nat" where
  "phaseCalls p = (length (phTraffic p) + length (phFaults p) + length (phRoams p)) * (if phReset p then 2 else 1) +
     length (phActions p)"

definition scheduleCalls :: "BehaviorTimeline list \<Rightarrow> nat" where
  "scheduleCalls tms = (\<Sum>t\<leftarrow>tms. nat (tlRepeatCount t) * (\<Sum>p\<leftarrow>tlPhases t. phaseCalls p))"

definition schedCalls :: "scheduledTransition \<Rightarrow> nat" where
  "schedCalls s = length (scActions s) + length (scDeviceActions s) + length (scAddressActions s) +
     length (scPrefixActions s) + length (scOneShotActions s) + length (scRoamActions s)"

lemma length_transitionCalls:
  "length (transitionCalls (extendTransition t c)) = length (transitionCalls t) + schedCalls c"
  "length (transitionCalls (emptyTransition k)) = 0"
  by (simp_all add: transitionCalls_def extendTransition_def emptyTransition_def schedCalls_def Let_def)

lemma sum_groupTransitions:
  "(\<Sum>t\<leftarrow>groupTransitions ss. length (transitionCalls t)) = (\<Sum>s\<leftarrow>ss. schedCalls s)"
proof -
  let ?f = "\<lambda>t. replicate (length (transitionCalls t)) ()" and ?g = "\<lambda>s. replicate (schedCalls s) ()"
  have "concat (map ?f (groupTransitions ss)) = concat (map ?g ss)"
    by (rule concat_groupStep [of ?f ?g]) (simp_all only: length_transitionCalls replicate_add replicate_0)
  then have "length (concat (map ?f (groupTransitions ss))) = length (concat (map ?g ss))"
    by (simp only:)
  then show ?thesis by (simp add: length_concat comp_def)
qed

lemma faultLoop_length:
  "faultLoop fs as ds = (as', ds') \<Longrightarrow>
     length as' + length ds' + length (filter (\<lambda>f. bfType f = FaultDuplicateIP) fs) +
       length (filter (\<lambda>f. bfType f = FaultBadMask) fs) = length as + length ds + length fs"
proof (induction fs as ds arbitrary: as' ds' rule: faultLoop.induct)
  case (2 f fs as ds)
  have "FaultDuplicateIP \<noteq> FaultBadMask" by (simp add: payload_fault_type_defs)
  with 2 show ?case by (auto split: if_splits)
qed simp

lemma sum_scheduledPhase: "(\<Sum>s\<leftarrow>scheduledPhase i t cs r k p. schedCalls s) = phaseCalls p"
proof -
  obtain as ds where b: "behaviorActions p = (as, ds)" by (cases "behaviorActions p")
  then have "length as + length ds + length (filter (\<lambda>f. bfType f = FaultDuplicateIP) (phFaults p)) +
      length (filter (\<lambda>f. bfType f = FaultBadMask) (phFaults p)) = length (phTraffic p) + length (phFaults p)"
    using faultLoop_length [of "phFaults p"] by (simp add: behaviorActions_def)
  then show ?thesis
    by (simp add: scheduledPhase_def b Let_def schedCalls_def phaseCalls_def resetActions_def resetDeviceActions_def
        interfaceAddressActions_def interfacePrefixActions_def compileOneShotActions_def roamActions_def)
qed

lemma sum_list_concat_map: "(\<Sum>y\<leftarrow>concat (map f xs). g y) = (\<Sum>x\<leftarrow>xs. \<Sum>y\<leftarrow>f x. (g y :: nat))"
  by (induction xs) auto

lemma sum_list_enumerate: "(\<Sum>x\<leftarrow>enumerate n xs. (h (snd x) :: nat)) = (\<Sum>x\<leftarrow>xs. h x)"
  by (induction xs arbitrary: n) auto

lemma sum_scheduledAll: "(\<Sum>s\<leftarrow>scheduledAll tms. schedCalls s) = scheduleCalls tms"
proof -
  have "(\<Sum>s\<leftarrow>scheduledTimeline i t. schedCalls s) = nat (tlRepeatCount t) * (\<Sum>p\<leftarrow>tlPhases t. phaseCalls p)" for i t
    unfolding scheduledTimeline_def Let_def sum_list_concat_map case_prod_beta' sum_scheduledPhase sum_list_enumerate
    by (simp add: sum_list_triv)
  then show ?thesis
    unfolding scheduledAll_def scheduleCalls_def sum_list_concat_map case_prod_beta'
    by (simp add: sum_list_enumerate [where h = "\<lambda>t. nat (tlRepeatCount t) * sum_list (map phaseCalls (tlPhases t))"])
qed

lemma sum_compile: "(\<Sum>t\<leftarrow>Compile tms. length (transitionCalls t)) = scheduleCalls tms"
proof -
  have "(\<Sum>t\<leftarrow>Compile tms. length (transitionCalls t)) = (\<Sum>s\<leftarrow>sort_key scheduleKey (scheduledAll tms). schedCalls s)"
    by (simp add: Compile_def sum_groupTransitions)
  also have "\<dots> = (\<Sum>s\<leftarrow>scheduledAll tms. schedCalls s)"
    by (metis mset_map mset_sort sum_mset_sum_list)
  finally show ?thesis by (simp only: sum_scheduledAll)
qed

lemma phaseApplications_exact: "phaseLimits p \<Longrightarrow> phaseApplications p = int (phaseCalls p) \<and> phaseCalls p \<le> 7168"
  by (auto simp: phaseApplications_def phaseCalls_def phaseLimits_def Let_def wrap64_id)

lemma sizePhases_iff:
  assumes "list_all phaseLimits ps" "1 \<le> n" "n \<le> 1000" "0 \<le> s" "s \<le> maxBehaviorScheduledActions"
  shows "sizePhases n ps s =
    (if s + n * int (\<Sum>p\<leftarrow>ps. phaseCalls p) \<le> maxBehaviorScheduledActions
     then Inr (s + n * int (\<Sum>p\<leftarrow>ps. phaseCalls p)) else Inl ErrBehaviorScheduleTooLarge)"
  using assms
proof (induction ps arbitrary: s)
  case (Cons p ps)
  let ?a = "int (phaseCalls p)"
  have a: "phaseApplications p = ?a" "?a \<le> 7168" using Cons.prems(1) phaseApplications_exact [of p] by auto
  have "0 \<le> ?a * n" "?a * n \<le> 7168 * 1000"
    using a Cons.prems(2,3) by (simp, intro mult_mono) auto
  then have w: "wrap64 (s + wrap64 (?a * n)) = s + ?a * n"
    using Cons.prems(4,5) by (simp add: wrap64_id maxBehaviorScheduledActions_def)
  have rest: "0 \<le> n * int (\<Sum>p\<leftarrow>ps. phaseCalls p)" using Cons.prems(2) by simp
  show ?case
  proof (cases "maxBehaviorScheduledActions < s + ?a * n")
    case True
    with w a rest show ?thesis by (simp add: Let_def algebra_simps)
  next
    case False
    with Cons.IH [of "s + ?a * n"] Cons.prems w a \<open>0 \<le> ?a * n\<close> show ?thesis
      by (simp add: Let_def algebra_simps)
  qed
qed simp

lemma sizeTimelines_iff:
  assumes "\<forall>t \<in> set tms. timelineLimits t" "0 \<le> s" "s \<le> maxBehaviorScheduledActions"
  shows "sizeTimelines tms s =
    (if s + int (scheduleCalls tms) \<le> maxBehaviorScheduledActions then Inr (s + int (scheduleCalls tms))
     else Inl ErrBehaviorScheduleTooLarge)"
  using assms
proof (induction tms arbitrary: s)
  case (Cons t tms)
  let ?n = "tlRepeatCount t * int (\<Sum>p\<leftarrow>tlPhases t. phaseCalls p)"
  have lim: "list_all phaseLimits (tlPhases t)" "1 \<le> tlRepeatCount t" "tlRepeatCount t \<le> 1000"
    using Cons.prems(1) by (auto simp: timelineLimits_def)
  then have calls: "int (scheduleCalls (t # tms)) = ?n + int (scheduleCalls tms)" "0 \<le> ?n"
    by (simp_all add: scheduleCalls_def)
  show ?case
    using sizePhases_iff [OF lim Cons.prems(2,3)] Cons.IH [of "s + ?n"] Cons.prems calls by auto
qed (simp add: scheduleCalls_def)

text \<open>For timelines within the authored ranges the size check is exact: it accepts them
  exactly when the compiled schedule, over all repetitions and resets, makes at most 100000 calls to the
  target, and no intermediate count overflows.\<close>

theorem schedule_size_iff:
  assumes "\<forall>t \<in> set tms. timelineLimits t"
  shows "validateBehaviorScheduleSize tms = None \<longleftrightarrow>
    int (\<Sum>t\<leftarrow>Compile tms. length (transitionCalls t)) \<le> maxBehaviorScheduledActions"
  unfolding validateBehaviorScheduleSize_def sum_compile
  by (simp add: sizeTimelines_iff [OF assms] maxBehaviorScheduledActions_def)

theorem schedule_size_iff_witness:
  "(\<Sum>t\<leftarrow>Compile [downTimeline 0]. length (transitionCalls t)) \<le> 100000"
proof -
  have lim: "\<forall>t \<in> set [downTimeline 0]. timelineLimits t"
    using downTimeline_limits by (simp add: msToDuration_def)
  have "validateBehaviorScheduleSize [downTimeline 0] = None"
    by (simp add: validateBehaviorScheduleSize_def downTimeline_def downPhase_def phaseApplications_def
        maxBehaviorScheduledActions_def wrap64_def)
  with schedule_size_iff [OF lim] show ?thesis
    by (simp add: maxBehaviorScheduledActions_def)
qed

end
