(* ===== verification/Go_Text.thy ===== *)
theory Go_Text
  imports Prelude
begin

text \<open>
  The text functions of Go's \<open>strings\<close> and \<open>strconv\<close> packages that the components use: \<open>Split\<close>, \<open>HasPrefix\<close>,
  \<open>TrimPrefix\<close>, \<open>Cut\<close>, \<open>TrimSpace\<close>, \<open>Fields\<close>, \<open>ToLower\<close>, \<open>Atoi\<close>, \<open>ParseUint\<close> and the left-justified verbs of
  \<open>fmt\<close>.  A string is its bytes.  White space is Unicode's: its code points above ASCII are found as the UTF-8 sequences they are encoded to,
  none of which can start inside another code point.  \<open>ToLower\<close> is modelled on ASCII.
\<close>

primrec splitAt :: "char \<Rightarrow> string \<Rightarrow> string list" where
  "splitAt c [] = [[]]"
| "splitAt c (x # xs) =
     (if x = c then [] # splitAt c xs
      else (x # hd (splitAt c xs)) # tl (splitAt c xs))"

definition hasPrefix :: "string \<Rightarrow> string \<Rightarrow> bool" where
  "hasPrefix p s \<longleftrightarrow> take (length p) s = p"

definition trimPrefix :: "string \<Rightarrow> string \<Rightarrow> string" where
  "trimPrefix p s = (if hasPrefix p s then drop (length p) s else s)"

fun cutAt :: "string \<Rightarrow> string \<Rightarrow> (string \<times> string) option" where
  "cutAt sep [] = (if sep = [] then Some ([], []) else None)"
| "cutAt sep (x # xs) =
     (if hasPrefix sep (x # xs) then Some ([], drop (length sep) (x # xs))
      else map_option (\<lambda>(a, b). (x # a, b)) (cutAt sep xs))"

definition digitVal :: "char \<Rightarrow> int option" where
  "digitVal c = (let n = of_char c in if 48 \<le> n \<and> n \<le> (57::nat) then Some (int n - 48) else None)"

fun digitsVal :: "int \<Rightarrow> string \<Rightarrow> int option" where
  "digitsVal acc [] = Some acc"
| "digitsVal acc (c # cs) = (case digitVal c of None \<Rightarrow> None | Some d \<Rightarrow> digitsVal (10 * acc + d) cs)"

text \<open>\<open>strconv.Atoi\<close>: an optional sign, at least one digit, and a value that fits an \<open>int\<close>.\<close>

definition atoi :: "string \<Rightarrow> int option" where
  "atoi s =
     (let (neg, ds) = (case s of [] \<Rightarrow> (False, [])
        | c # cs \<Rightarrow> if c = CHR ''-'' then (True, cs) else if c = CHR ''+'' then (False, cs) else (False, s)) in
      if ds = [] then None
      else case digitsVal 0 ds of None \<Rightarrow> None
        | Some n \<Rightarrow> let v = (if neg then - n else n) in
            if v < - (2 ^ 63) \<or> 2 ^ 63 \<le> v then None else Some v)"

definition lowerChar :: "char \<Rightarrow> char" where
  "lowerChar c = (let n = of_char c in if 65 \<le> n \<and> n \<le> (90::nat) then char_of (n + 32) else c)"

definition toLower :: "string \<Rightarrow> string" where
  "toLower s = map lowerChar s"

definition isSpace :: "char \<Rightarrow> bool" where
  "isSpace c = (let n = (of_char c :: nat) in 9 \<le> n \<and> n \<le> 13 \<or> n = 32)"

definition unicodeSpaces :: "string list" where
  "unicodeSpaces =
     [[CHR 0xC2, CHR 0x85], [CHR 0xC2, CHR 0xA0], [CHR 0xE1, CHR 0x9A, CHR 0x80], [CHR 0xE2, CHR 0x80, CHR 0x80], [CHR 0xE2, CHR 0x80, CHR 0x81],
      [CHR 0xE2, CHR 0x80, CHR 0x82], [CHR 0xE2, CHR 0x80, CHR 0x83], [CHR 0xE2, CHR 0x80, CHR 0x84], [CHR 0xE2, CHR 0x80, CHR 0x85],
      [CHR 0xE2, CHR 0x80, CHR 0x86], [CHR 0xE2, CHR 0x80, CHR 0x87], [CHR 0xE2, CHR 0x80, CHR 0x88], [CHR 0xE2, CHR 0x80, CHR 0x89],
      [CHR 0xE2, CHR 0x80, CHR 0x8A], [CHR 0xE2, CHR 0x80, CHR 0xA8], [CHR 0xE2, CHR 0x80, CHR 0xA9], [CHR 0xE2, CHR 0x80, CHR 0xAF],
      [CHR 0xE2, CHR 0x81, CHR 0x9F], [CHR 0xE3, CHR 0x80, CHR 0x80]]"

text \<open>The number of bytes of the white space code point the text starts with, 0 when it starts with something else.\<close>

definition spaceAmong :: "string list \<Rightarrow> string \<Rightarrow> nat" where
  "spaceAmong seqs s =
     (case s of [] \<Rightarrow> 0
      | c # _ \<Rightarrow> if isSpace c then 1 else case find (\<lambda>p. hasPrefix p s) seqs of None \<Rightarrow> 0 | Some p \<Rightarrow> length p)"

definition spaceAt :: "string \<Rightarrow> nat" where
  "spaceAt s = spaceAmong unicodeSpaces s"

lemma spaceAmong_le: "spaceAmong seqs s \<le> length s"
proof (cases s)
  case (Cons c r)
  have "length p \<le> length s" if "find (\<lambda>p. hasPrefix p s) seqs = Some p" for p
  proof -
    have "take (length p) s = p" using that by (auto simp: find_Some_iff hasPrefix_def)
    then show ?thesis by (metis length_take min.cobounded1)
  qed
  with Cons show ?thesis by (auto simp: spaceAmong_def split: option.split)
qed (simp add: spaceAmong_def)

function trimFront :: "string list \<Rightarrow> string \<Rightarrow> string" where
  "trimFront seqs s = (if spaceAmong seqs s = 0 then s else trimFront seqs (drop (spaceAmong seqs s) s))"
  by auto
termination by (relation "measure (\<lambda>(seqs, s). length s)") (auto simp: spaceAmong_def split: list.splits)

declare trimFront.simps [simp del]

definition trimSpace :: "string \<Rightarrow> string" where
  "trimSpace s = rev (trimFront (map rev unicodeSpaces) (rev (trimFront unicodeSpaces s)))"

text \<open>\<open>strings.Fields\<close>; \<open>cur\<close> is the field being read.\<close>

function fieldsLoop :: "string \<Rightarrow> string \<Rightarrow> string list" where
  "fieldsLoop cur [] = (if cur = [] then [] else [cur])"
| "fieldsLoop cur (c # s) =
     (if spaceAt (c # s) = 0 then fieldsLoop (cur @ [c]) s
      else (if cur = [] then [] else [cur]) @ fieldsLoop [] (drop (spaceAt (c # s)) (c # s)))"
  by pat_completeness auto
termination by (relation "measure (\<lambda>(cur, s). length s)") auto

definition Fields :: "string \<Rightarrow> string list" where
  "Fields s = fieldsLoop [] s"

text \<open>\<open>strconv.ParseUint(s, 10, 32)\<close>.\<close>

definition parseUint32 :: "string \<Rightarrow> nat option" where
  "parseUint32 s = (if s = [] then None else case digitsVal 0 s of None \<Rightarrow> None | Some n \<Rightarrow> if n < 2 ^ 32 then Some (nat n) else None)"

text \<open>\<open>utf8.RuneCountInString\<close>: a byte that does not start a valid encoding counts as one code point.\<close>

definition byteIn :: "nat \<Rightarrow> nat \<Rightarrow> char \<Rightarrow> bool" where
  "byteIn lo hi c \<longleftrightarrow> lo \<le> of_char c \<and> of_char c \<le> hi"

definition runeLen :: "string \<Rightarrow> nat" where
  "runeLen s =
     (case s of [] \<Rightarrow> 0
      | a # r \<Rightarrow>
          if byteIn 0xC2 0xDF a \<and> 1 \<le> length r \<and> byteIn 0x80 0xBF (r ! 0) then 2
          else if byteIn 0xE0 0xEF a \<and> 2 \<le> length r \<and>
            byteIn (if a = CHR 0xE0 then 0xA0 else 0x80) (if a = CHR 0xED then 0x9F else 0xBF) (r ! 0) \<and> byteIn 0x80 0xBF (r ! 1) then 3
          else if byteIn 0xF0 0xF4 a \<and> 3 \<le> length r \<and>
            byteIn (if a = CHR 0xF0 then 0x90 else 0x80) (if a = CHR 0xF4 then 0x8F else 0xBF) (r ! 0) \<and>
            byteIn 0x80 0xBF (r ! 1) \<and> byteIn 0x80 0xBF (r ! 2) then 4
          else 1)"

function runeCount :: "string \<Rightarrow> nat" where
  "runeCount s = (if s = [] then 0 else Suc (runeCount (drop (runeLen s) s)))"
  by auto
termination by (relation "measure length") (auto simp: runeLen_def split: list.split)

declare runeCount.simps [simp del]

text \<open>The verb \<open>%-<width>s\<close>.\<close>

definition padRight :: "nat \<Rightarrow> string \<Rightarrow> string" where
  "padRight width s = s @ replicate (width - runeCount s) CHR '' ''"

definition trimSuffix :: "string \<Rightarrow> string \<Rightarrow> string" where
  "trimSuffix p s = rev (trimPrefix (rev p) (rev s))"

definition cutSuffix :: "string \<Rightarrow> string \<Rightarrow> string option" where
  "cutSuffix p s = (if hasPrefix (rev p) (rev s) then Some (rev (drop (length p) (rev s))) else None)"

lemma splitAt_ne [simp]: "splitAt c s \<noteq> []"
  by (induction s) auto

text \<open>Evaluation splits the rest once.\<close>

lemma splitAt_code [code]:
  "splitAt c [] = [[]]"
  "splitAt c (x # xs) =
     (if x = c then [] # splitAt c xs else case splitAt c xs of [] \<Rightarrow> [[x]] | y # ys \<Rightarrow> (x # y) # ys)"
  by (simp_all split: list.split)

lemma splitAt_append: "splitAt c (a @ c # b) = splitAt c a @ splitAt c b"
  by (induction a) (auto simp: neq_Nil_conv)

lemma cutAt_dot: "cutAt ''.'' s = Some (a, b) \<Longrightarrow> s = a @ CHR ''.'' # b"
  by (induction s arbitrary: a) (auto simp: hasPrefix_def split: if_splits)

end
