(* ===== verification/Device_Class.thy ===== *)
theory Device_Class
  imports Go_Text
begin

text \<open>
  What a device type means (\<open>internal/deviceclass\<close>): the schema's vocabulary, the tolerated aliases and the
  classifications every protocol asks for.
\<close>

datatype Type =
    Router | Switch | Layer3Switch | AP | AccessPoint | Firewall | Server | Host | Workstation | IoT | Printer | VoipPhone
  | Unknown

primrec typeName :: "Type \<Rightarrow> string" where
  "typeName Router = ''router''"
| "typeName Switch = ''switch''"
| "typeName Layer3Switch = ''layer3-switch''"
| "typeName AP = ''ap''"
| "typeName AccessPoint = ''access-point''"
| "typeName Firewall = ''firewall''"
| "typeName Server = ''server''"
| "typeName Host = ''host''"
| "typeName Workstation = ''workstation''"
| "typeName IoT = ''iot''"
| "typeName Printer = ''printer''"
| "typeName VoipPhone = ''voip-phone''"
| "typeName Unknown = []"

definition AllTypes :: "Type list" where
  "AllTypes = [Router, Switch, Layer3Switch, AP, AccessPoint, Firewall, Server, Host, Workstation, IoT, Printer, VoipPhone]"

definition IsKnown :: "string \<Rightarrow> Type option" where
  "IsKnown t = find (\<lambda>k. typeName k = t) AllTypes"

definition aliases :: "(string \<times> Type) list" where
  "aliases =
     [(''access_point'', AccessPoint), (''accesspoint'', AccessPoint), (''wireless-ap'', AccessPoint),
      (''wireless_ap'', AccessPoint), (''voip_phone'', VoipPhone), (''phone'', VoipPhone), (''pc'', Workstation),
      (''client'', Workstation)]"

definition Parse :: "string \<Rightarrow> Type" where
  "Parse raw =
     (let lowered = toLower (trimSpace raw) in
      case IsKnown lowered of Some t \<Rightarrow> t
      | None \<Rightarrow> (case map_of aliases lowered of Some resolved \<Rightarrow> resolved | None \<Rightarrow> Unknown))"

definition Forwards :: "Type \<Rightarrow> bool" where
  "Forwards t = (t \<in> set [Router, Switch, Layer3Switch, AP, AccessPoint, Firewall])"

definition RunsLLDPByDefault :: "Type \<Rightarrow> bool" where
  "RunsLLDPByDefault t = (t \<in> set [Router, Switch, Layer3Switch, AP, AccessPoint, Firewall, VoipPhone])"

definition RoutesIP :: "Type \<Rightarrow> bool" where
  "RoutesIP t = (t \<in> set [Router, Layer3Switch, Firewall])"

definition IsEndpoint :: "Type \<Rightarrow> bool" where
  "IsEndpoint t = (t \<in> set [Server, Host, Workstation, IoT, Printer, VoipPhone])"

text \<open>
  The classifications fit together: every known type either forwards or is an endpoint, never both; only forwarding
  types route; an authored spelling of a known type means that type.
\<close>

lemma classes_fit:
  "Forwards t \<longleftrightarrow> t \<noteq> Unknown \<and> \<not> IsEndpoint t" "RoutesIP t \<Longrightarrow> Forwards t" "Forwards t \<Longrightarrow> RunsLLDPByDefault t"
  by (cases t; simp add: Forwards_def IsEndpoint_def RoutesIP_def RunsLLDPByDefault_def)+

lemma Parse_typeName: "Parse (typeName t) = t"
  by (cases t; simp only: typeName.simps; code_simp)

end
