(* ===== verification/Go_Addr.thy ===== *)
theory Go_Addr
  imports Go_Net Go_Text
begin

text \<open>
  Reading IPv4 addresses and prefixes as \<open>net/netip\<close> does (\<open>ParseAddr\<close>, \<open>ParsePrefix\<close>).  The callers modelled here refuse every address that is
  not \<open>Is4\<close>, so \<open>ParseAddr4\<close> and \<open>ParsePrefix4\<close> are the parsers followed by that test: \<open>None\<close> for an error and for an IPv6 result.
  What \<open>String\<close> prints of an IPv4 address or prefix is read back as the same.
\<close>

unbundle bit_operations_syntax

section \<open>Parsers\<close>

text \<open>The loop of \<open>parseIPv4Fields\<close>: the value and number of digits of the current octet, the octets already read, and whether the
  position is the first one or follows a dot.\<close>

fun parse4Loop :: "nat \<Rightarrow> nat \<Rightarrow> nat list \<Rightarrow> bool \<Rightarrow> string \<Rightarrow> nat list option" where
  "parse4Loop val digLen fields start [] = (if length fields < 3 then None else Some (fields @ [val]))"
| "parse4Loop val digLen fields start (c # s) =
     (case digitVal c of
        Some d \<Rightarrow>
          if digLen = 1 \<and> val = 0 then None
          else let v = val * 10 + nat d in if 255 < v then None else parse4Loop v (Suc digLen) fields False s
      | None \<Rightarrow>
          if c = CHR ''.'' then
            (if start \<or> s = [] then None else if length fields = 3 then None else parse4Loop 0 0 (fields @ [val]) True s)
          else None)"

definition octets :: "nat list \<Rightarrow> 32 word" where
  "octets fs = foldl (\<lambda>a f. a * 256 + of_nat f) 0 fs"

definition ParseAddr4 :: "string \<Rightarrow> 32 word option" where
  "ParseAddr4 s =
     (case find (\<lambda>c. c = CHR ''.'' \<or> c = CHR '':'' \<or> c = CHR ''%'') s of
        Some c \<Rightarrow> if c = CHR ''.'' then map_option octets (parse4Loop 0 0 [] True s) else None
      | None \<Rightarrow> None)"

definition ParsePrefix4 :: "string \<Rightarrow> Prefix option" where
  "ParsePrefix4 s =
     (case cutAt ''/'' (rev s) of
        None \<Rightarrow> None
      | Some (bits, ip) \<Rightarrow>
          case ParseAddr4 (rev ip) of
            None \<Rightarrow> None
          | Some a \<Rightarrow>
              let bitsStr = rev bits in
              if 1 < length bitsStr \<and> (bitsStr ! 0 < CHR ''1'' \<or> CHR ''9'' < bitsStr ! 0) then None
              else case atoi bitsStr of
                None \<Rightarrow> None
              | Some n \<Rightarrow> if n < 0 \<or> 32 < n then None else Some (PrefixFrom (V4 a) n))"

section \<open>Decimal digits\<close>

lemma digitVal_digit: "n < 10 \<Longrightarrow> digitVal (digit n) = Some (int n)"
proof -
  assume "n < 10"
  then have "n \<in> {0, 1, 2, 3, 4, 5, 6, 7, 8, 9}" by auto
  then show ?thesis by (auto simp: digit_def digitVal_def)
qed

lemma digit_plain: "n < 10 \<Longrightarrow> digit n \<notin> {CHR ''.'', CHR '':'', CHR ''%'', CHR ''/'', CHR ''-'', CHR ''+''}"
proof -
  assume "n < 10"
  then have "n \<in> {0, 1, 2, 3, 4, 5, 6, 7, 8, 9}" by auto
  then show ?thesis by (auto simp: digit_def)
qed

lemma nat_digits_set: "set (nat_digits n) \<subseteq> digit ` {..<10}"
  by (induction n rule: nat_digits.induct) (subst nat_digits.simps, auto)

lemma nat_digits_ne [simp]: "nat_digits n \<noteq> []"
  by (subst nat_digits.simps) auto

lemma nat_digits_plain: "c \<in> set (nat_digits n) \<Longrightarrow> c \<notin> {CHR ''.'', CHR '':'', CHR ''%'', CHR ''/'', CHR ''-'', CHR ''+''}"
proof -
  assume "c \<in> set (nat_digits n)"
  then obtain k where "k < 10" "c = digit k" using nat_digits_set [of n] by auto
  then show ?thesis using digit_plain by simp
qed

lemma digitsVal_append: "digitsVal a (xs @ ys) = (case digitsVal a xs of None \<Rightarrow> None | Some b \<Rightarrow> digitsVal b ys)"
  by (induction a xs rule: digitsVal.induct) (auto split: option.split)

lemma digitsVal_nat_digits: "digitsVal 0 (nat_digits n) = Some (int n)"
proof (induction n rule: nat_digits.induct)
  case (1 n)
  show ?case
  proof (cases "n < 10")
    case True
    then show ?thesis by (subst nat_digits.simps) (simp add: digitVal_digit)
  next
    case False
    then have "digitsVal 0 (nat_digits n) = digitsVal 0 (nat_digits (n div 10) @ [digit (n mod 10)])" by (subst nat_digits.simps) simp
    also have "\<dots> = Some (10 * int (n div 10) + int (n mod 10))" using 1 [OF False] by (simp add: digitsVal_append digitVal_digit)
    also have "10 * int (n div 10) + int (n mod 10) = int n" by presburger
    finally show ?thesis .
  qed
qed

lemma atoi_itoa: "0 \<le> n \<Longrightarrow> n < 2 ^ 63 \<Longrightarrow> atoi (itoa n) = Some n"
proof -
  assume n: "0 \<le> n" "n < 2 ^ 63"
  obtain c cs where ds: "nat_digits (nat n) = c # cs" by (cases "nat_digits (nat n)") auto
  then have "c \<noteq> CHR ''-''" "c \<noteq> CHR ''+''" using nat_digits_plain [of c "nat n"] by auto
  with n ds digitsVal_nat_digits [of "nat n"] show ?thesis by (simp add: atoi_def itoa_def)
qed

section \<open>Reading back what is printed\<close>

lemma digit_split:
  assumes "n < 256"
  shows "nat_digits n = (if n < 10 then [digit n] else if n < 100 then [digit (n div 10), digit (n mod 10)]
    else [digit (n div 100), digit (n div 10 mod 10), digit (n mod 10)])"
proof -
  have "nat_digits n = (if n < 10 then [digit n] else if n div 10 < 10 then [digit (n div 10), digit (n mod 10)]
    else nat_digits (n div 10 div 10) @ [digit (n div 10 mod 10), digit (n mod 10)])"
    by (subst nat_digits.simps, subst nat_digits.simps) auto
  moreover have "n div 10 div 10 = n div 100" by (simp add: div_mult2_eq)
  moreover have "nat_digits (n div 100) = [digit (n div 100)]" using assms by (subst nat_digits.simps) simp
  ultimately show ?thesis by auto
qed

lemma parse4_octet:
  assumes "n < 256"
  shows "\<exists>k. parse4Loop 0 0 fs st (nat_digits n @ rest) = parse4Loop n k fs False rest"
proof -
  have d: "n div 100 < 10" "n div 10 mod 10 < 10" "n mod 10 < 10" "n < 100 \<Longrightarrow> n div 10 < 10" using assms by auto
  have step: "parse4Loop v k fs b (digit e # r) = parse4Loop (v * 10 + e) (Suc k) fs False r"
    if "e < 10" "\<not> (k = 1 \<and> v = 0)" "v * 10 + e \<le> 255" for v k b e r
    using that by (auto simp: digitVal_digit Let_def)
  consider "n < 10" | "10 \<le> n" "n < 100" | "100 \<le> n" by linarith
  then show ?thesis
  proof cases
    case 1
    then have "parse4Loop 0 0 fs st (nat_digits n @ rest) = parse4Loop n (Suc 0) fs False rest" by (simp add: digit_split [OF assms] step del: parse4Loop.simps)
    then show ?thesis by blast
  next
    case 2
    then have "nat_digits n = [digit (n div 10), digit (n mod 10)]" "n div 10 \<noteq> 0" "n div 10 * 10 + n mod 10 = n" using digit_split [OF assms] by auto
    then have "parse4Loop 0 0 fs st (nat_digits n @ rest) = parse4Loop n (Suc (Suc 0)) fs False rest"
      using 2 d(3) d(4) by (simp add: step del: parse4Loop.simps)
    then show ?thesis by blast
  next
    case 3
    have "nat_digits n = [digit (n div 100), digit (n div 10 mod 10), digit (n mod 10)]" using 3 digit_split [OF assms] by simp
    moreover have high: "n div 100 * 10 + n div 10 mod 10 = n div 10" using div_mult_mod_eq [of "n div 10" 10] by (simp add: div_mult2_eq [symmetric])
    moreover have "n div 10 * 10 + n mod 10 = n" "n div 100 \<noteq> 0" "n div 100 \<le> 255" "n div 10 \<le> 255" using 3 assms by simp_all
    ultimately have "parse4Loop 0 0 fs st (nat_digits n @ rest) = parse4Loop n (Suc (Suc (Suc 0))) fs False rest"
      using assms d(1-3) by (simp add: step del: parse4Loop.simps)
    then show ?thesis by blast
  qed
qed

lemma parse4_octet_dot:
  assumes "n < 256" "length fs < 3" "rest \<noteq> []"
  shows "parse4Loop 0 0 fs st (nat_digits n @ CHR ''.'' # rest) = parse4Loop 0 0 (fs @ [n]) True rest"
proof -
  obtain k where "parse4Loop 0 0 fs st (nat_digits n @ CHR ''.'' # rest) = parse4Loop n k fs False (CHR ''.'' # rest)"
    using parse4_octet [OF assms(1)] by blast
  moreover have "digitVal CHR ''.'' = None" by (simp add: digitVal_def)
  ultimately show ?thesis using assms(2,3) by simp
qed

lemma unat_octet: "unat (drop_bit k a AND 255) = unat a div 2 ^ k mod 256" for a :: "32 word"
proof -
  have "drop_bit k a AND 255 = take_bit 8 (drop_bit k a)" by (simp add: take_bit_eq_mask mask_eq_exp_minus_1)
  moreover have "take_bit 32 (unat a) = unat a" using unsigned_less [of a] by (simp add: take_bit_nat_eq_self_iff)
  ultimately have "unat (drop_bit k a AND 255) = take_bit 8 (drop_bit k (unat a))" by (simp add: unsigned_take_bit_eq unsigned_drop_bit_eq)
  then show ?thesis by (simp add: take_bit_eq_mod drop_bit_eq_div)
qed

lemma octets_of_nat: "octets [p, q, r, t] = of_nat (((p * 256 + q) * 256 + r) * 256 + t)"
  by (simp add: octets_def)

lemma octets_of_word: "octets (map (\<lambda>i. unat (drop_bit (24 - 8 * i) a AND 255)) [0, 1, 2, 3]) = a"
proof -
  define x where "x = unat a"
  have "x < 2 ^ 32" using unsigned_less [of a] by (simp add: x_def)
  then have top: "x div 2 ^ 24 mod 256 = x div 2 ^ 24" by simp
  have up: "x div 2 ^ (k + 8) * 256 + x div 2 ^ k mod 256 = x div 2 ^ k" for k
    using div_mult_mod_eq [of "x div 2 ^ k" 256] by (simp add: div_mult2_eq [symmetric] power_add)
  have "((x div 2 ^ 24 mod 256 * 256 + x div 2 ^ 16 mod 256) * 256 + x div 2 ^ 8 mod 256) * 256 + x div 2 ^ 0 mod 256 = x"
    unfolding top using up [of 16] up [of 8] up [of 0] by simp
  then have "octets (map (\<lambda>i. unat (drop_bit (24 - 8 * i) a AND 255)) [0, 1, 2, 3]) = of_nat x"
    unfolding list.map unat_octet octets_of_nat x_def [symmetric] by (intro arg_cong [where f = of_nat]) (simp only: eval_nat_numeral, simp)
  then show ?thesis by (simp add: x_def)
qed

lemma find_append: "find p (xs @ ys) = (case find p xs of None \<Rightarrow> find p ys | Some x \<Rightarrow> Some x)"
  by (induction xs) auto

lemma ParseAddr4_dotted: "ParseAddr4 (dotted a) = Some a"
proof -
  let ?o = "\<lambda>i. unat (drop_bit (24 - 8 * i) a AND 255)"
  have small: "?o i < 256" for i
    by (simp add: unat_octet)
  have d: "dotted a = nat_digits (?o 0) @ CHR ''.'' # (nat_digits (?o 1) @ CHR ''.'' # (nat_digits (?o 2) @ CHR ''.'' # nat_digits (?o 3)))"
    by (simp add: dotted_def)
  have "parse4Loop 0 0 [] True (dotted a) = parse4Loop 0 0 [?o 0, ?o 1, ?o 2] True (nat_digits (?o 3))"
    unfolding d using small [of 0] small [of 1] small [of 2] by (simp add: parse4_octet_dot)
  moreover obtain k where "parse4Loop 0 0 [?o 0, ?o 1, ?o 2] True (nat_digits (?o 3) @ []) = parse4Loop (?o 3) k [?o 0, ?o 1, ?o 2] False []"
    using parse4_octet [OF small] by blast
  moreover have "find (\<lambda>c. c = CHR ''.'' \<or> c = CHR '':'' \<or> c = CHR ''%'') (dotted a) = Some CHR ''.''"
  proof -
    have "find (\<lambda>c. c = CHR ''.'' \<or> c = CHR '':'' \<or> c = CHR ''%'') (nat_digits n) = None" for n
      using nat_digits_plain by (auto simp: find_None_iff)
    then show ?thesis unfolding d by (simp add: find_append)
  qed
  ultimately show ?thesis using octets_of_word [of a] by (simp add: ParseAddr4_def)
qed

lemma last_slash:
  assumes "CHR ''/'' \<notin> set b"
  shows "cutAt ''/'' (rev (a @ CHR ''/'' # b)) = Some (rev b, rev a)"
proof -
  have "CHR ''/'' \<notin> set xs \<Longrightarrow> cutAt ''/'' (xs @ CHR ''/'' # ys) = Some (xs, ys)" for xs ys
    by (induction xs) (auto simp: hasPrefix_def)
  then show ?thesis using assms by simp
qed

lemma ParsePrefix4_string:
  assumes "0 \<le> n" "n \<le> 32"
  shows "ParsePrefix4 (prefixString (Prefix (V4 a) n)) = Some (Prefix (V4 a) n)"
proof -
  have str: "prefixString (Prefix (V4 a) n) = dotted a @ CHR ''/'' # nat_digits (nat n)"
    using assms by (simp add: prefixString_def prefixIsValid_def itoa_def)
  have "CHR ''/'' \<notin> set (nat_digits (nat n))" using nat_digits_plain by blast
  then have cut: "cutAt ''/'' (rev (prefixString (Prefix (V4 a) n))) = Some (rev (nat_digits (nat n)), rev (dotted a))"
    unfolding str by (rule last_slash)
  have small: "nat n < 256" using assms by simp
  have first: "\<not> (1 < length (nat_digits (nat n)) \<and> (nat_digits (nat n) ! 0 < CHR ''1'' \<or> CHR ''9'' < nat_digits (nat n) ! 0))"
  proof
    assume long: "1 < length (nat_digits (nat n)) \<and> (nat_digits (nat n) ! 0 < CHR ''1'' \<or> CHR ''9'' < nat_digits (nat n) ! 0)"
    then have "10 \<le> nat n" "nat n < 100" using digit_split [OF small] assms by (auto split: if_splits)
    then have "nat_digits (nat n) ! 0 = digit (nat n div 10)" "nat n div 10 \<in> {1, 2, 3}" using digit_split [OF small] assms by auto
    with long show False by (auto simp: digit_def less_char_def)
  qed
  have "atoi (nat_digits (nat n)) = Some n" using atoi_itoa [of n] assms by (simp add: itoa_def)
  then show ?thesis
    using assms first by (simp add: ParsePrefix4_def cut ParseAddr4_dotted PrefixFrom_def Let_def)
qed

end
