(* ===== verification/Go_Netip.thy ===== *)
theory Go_Netip
  imports Go_Addr
begin

text \<open>
  The rest of \<open>net/netip\<close> that the packages use: \<open>ParseAddr\<close> and \<open>ParsePrefix\<close> for both families, the order of \<open>Compare\<close> (as the
  \<open>linorder\<close> of addresses, so that a map keyed by addresses is a \<open>gomap\<close>), \<open>Contains\<close>, \<open>Overlaps\<close>, and the classification of addresses;
  with \<open>AddrFromSlice\<close> on the bytes of a \<open>net.IP\<close>.  Two valid prefixes that both contain an address overlap.
\<close>

unbundle bit_operations_syntax

section \<open>Addresses\<close>

primrec Is6 :: "Addr \<Rightarrow> bool" where
  "Is6 NoAddr = False"
| "Is6 (V4 a) = False"
| "Is6 (V6 a z) = True"

primrec Is4In6 :: "Addr \<Rightarrow> bool" where
  "Is4In6 NoAddr = False"
| "Is4In6 (V4 a) = False"
| "Is4In6 (V6 a z) = (drop_bit 32 a = 0xFFFF)"

primrec Unmap :: "Addr \<Rightarrow> Addr" where
  "Unmap NoAddr = NoAddr"
| "Unmap (V4 a) = V4 a"
| "Unmap (V6 a z) = (if drop_bit 32 a = 0xFFFF then V4 (ucast a) else V6 a z)"

definition horner256 :: "8 word list \<Rightarrow> 'a::len word" where
  "horner256 bs = foldl (\<lambda>n b. n * 256 + ucast b) 0 bs"

definition AddrFromSlice :: "8 word list \<Rightarrow> Addr option" where
  "AddrFromSlice bs =
     (if length bs = 4 then Some (V4 (horner256 bs))
      else if length bs = 16 then Some (V6 (horner256 bs) []) else None)"

primrec addrValue :: "Addr \<Rightarrow> int" where
  "addrValue NoAddr = 0"
| "addrValue (V4 a) = uint a"
| "addrValue (V6 a z) = uint a"

primrec addrZone :: "Addr \<Rightarrow> string" where
  "addrZone NoAddr = []"
| "addrZone (V4 a) = []"
| "addrZone (V6 a z) = z"

text \<open>\<open>IsGlobalUnicast\<close>; the loopback and multicast tests look through an IPv4-mapped address.\<close>

primrec isLoopback :: "Addr \<Rightarrow> bool" where
  "isLoopback NoAddr = False"
| "isLoopback (V4 a) = (drop_bit 24 a = 127)"
| "isLoopback (V6 a z) = (if drop_bit 32 a = 0xFFFF then drop_bit 24 (ucast a :: 32 word) = 127 else a = 1)"

primrec isLinkLocalUnicast :: "Addr \<Rightarrow> bool" where
  "isLinkLocalUnicast NoAddr = False"
| "isLinkLocalUnicast (V4 a) = (drop_bit 16 a = 0xA9FE)"
| "isLinkLocalUnicast (V6 a z) = (if drop_bit 32 a = 0xFFFF then drop_bit 16 (ucast a :: 32 word) = 0xA9FE else drop_bit 118 a = 0x3FA)"

definition IsGlobalUnicast :: "Addr \<Rightarrow> bool" where
  "IsGlobalUnicast ip \<longleftrightarrow> ip \<noteq> NoAddr \<and> ip \<noteq> V4 0 \<and> ip \<noteq> V4 0xFFFFFFFF \<and> ip \<noteq> V6 0 [] \<and>
     \<not> isLoopback ip \<and> \<not> IsMulticast (Unmap ip) \<and> \<not> isLinkLocalUnicast ip"

instantiation Addr :: linorder
begin

definition less_Addr :: "Addr \<Rightarrow> Addr \<Rightarrow> bool" where
  "less_Addr a b \<longleftrightarrow> BitLen a < BitLen b \<or> BitLen a = BitLen b \<and>
     (addrValue a < addrValue b \<or> addrValue a = addrValue b \<and> addrZone a < addrZone b)"

definition less_eq_Addr :: "Addr \<Rightarrow> Addr \<Rightarrow> bool" where
  "less_eq_Addr a b \<longleftrightarrow> BitLen a < BitLen b \<or> BitLen a = BitLen b \<and>
     (addrValue a < addrValue b \<or> addrValue a = addrValue b \<and> addrZone a \<le> addrZone b)"

instance
proof
  fix a b c :: Addr
  have same: "a = b" if "BitLen a = BitLen b" "addrValue a = addrValue b" "addrZone a = addrZone b" for a b :: Addr
    using that by (cases a; cases b) (auto simp: unsigned_word_eqI)
  show "(a < b) = (a \<le> b \<and> \<not> b \<le> a)" by (auto simp: less_Addr_def less_eq_Addr_def)
  show "a \<le> a" by (simp add: less_eq_Addr_def)
  show "a \<le> b \<Longrightarrow> b \<le> c \<Longrightarrow> a \<le> c" by (auto simp: less_eq_Addr_def)
  show "a \<le> b \<Longrightarrow> b \<le> a \<Longrightarrow> a = b" by (rule same) (auto simp: less_eq_Addr_def)
  show "a \<le> b \<or> b \<le> a" by (auto simp: less_eq_Addr_def)
qed

end

section \<open>Prefixes\<close>

definition prefixContains :: "Prefix \<Rightarrow> Addr \<Rightarrow> bool" where
  "prefixContains p ip \<longleftrightarrow> prefixIsValid p \<and>
     (case (prefixAddr p, ip) of
        (V4 a, V4 b) \<Rightarrow> drop_bit (32 - nat (prefixBits p)) (a XOR b) = 0
      | (V6 a z, V6 b zb) \<Rightarrow> zb = [] \<and> drop_bit (128 - nat (prefixBits p)) (a XOR b) = 0
      | _ \<Rightarrow> False)"

definition Overlaps :: "Prefix \<Rightarrow> Prefix \<Rightarrow> bool" where
  "Overlaps p q =
     (if \<not> prefixIsValid p \<or> \<not> prefixIsValid q then False
      else if p = q then True
      else if Is4 (prefixAddr p) \<noteq> Is4 (prefixAddr q) then False
      else let minBits = min (prefixBits p) (prefixBits q) in
        minBits = 0 \<or> maskAddr (prefixAddr p) (nat minBits) = maskAddr (prefixAddr q) (nat minBits))"

definition IsSingleIP :: "Prefix \<Rightarrow> bool" where
  "IsSingleIP p \<longleftrightarrow> prefixIsValid p \<and> prefixBits p = BitLen (prefixAddr p)"

section \<open>Parsing\<close>

text \<open>The digits of one group of an IPv6 address: how many, their value, and the rest of the text.\<close>

fun hexRun :: "nat \<Rightarrow> int \<Rightarrow> string \<Rightarrow> (nat \<times> int \<times> string) option" where
  "hexRun off acc [] = Some (off, acc, [])"
| "hexRun off acc (c # s) =
     (case hexval c of
        None \<Rightarrow> Some (off, acc, c # s)
      | Some d \<Rightarrow> let v = acc * 16 + int d in if 3 < off \<or> 65535 < v then None else hexRun (Suc off) v s)"

text \<open>The loop of \<open>parseIPv6\<close>: the bytes written so far, the position of the ellipsis, and the rest of the text.\<close>

function parse6Loop :: "int list \<Rightarrow> nat option \<Rightarrow> string \<Rightarrow> (int list \<times> nat option \<times> string) option" where
  "parse6Loop ip ellipsis s =
     (if 16 \<le> length ip then Some (ip, ellipsis, s)
      else case hexRun 0 0 s of
        None \<Rightarrow> None
      | Some (off, acc, rest) \<Rightarrow>
          if off = 0 then None
          else if rest \<noteq> [] \<and> hd rest = CHR ''.'' then
            (if ellipsis = None \<and> length ip \<noteq> 12 then None
             else if 16 < length ip + 4 then None
             else case parse4Loop 0 0 [] True s of
               None \<Rightarrow> None
             | Some four \<Rightarrow> Some (ip @ map int four, ellipsis, []))
          else
            let ip1 = ip @ [acc div 256, acc mod 256] in
            if rest = [] then Some (ip1, ellipsis, [])
            else if hd rest \<noteq> CHR '':'' then None
            else if tl rest = [] then None
            else
              let s1 = tl rest in
              if hd s1 = CHR '':'' then
                (if ellipsis \<noteq> None then None
                 else if tl s1 = [] then Some (ip1, Some (length ip1), [])
                 else parse6Loop ip1 (Some (length ip1)) (tl s1))
              else parse6Loop ip1 ellipsis s1)"
  by pat_completeness auto

termination by (relation "measure (\<lambda>(ip, _, _). 16 - length ip)") auto

declare parse6Loop.simps [simp del]

text \<open>Fill the ellipsis with zero bytes.\<close>

definition expand6 :: "int list \<Rightarrow> nat option \<Rightarrow> int list option" where
  "expand6 ip ellipsis =
     (if length ip < 16 then
        (case ellipsis of None \<Rightarrow> None | Some e \<Rightarrow> Some (take e ip @ replicate (16 - length ip) 0 @ drop e ip))
      else if ellipsis \<noteq> None then None else Some ip)"

definition parseIPv6 :: "string \<Rightarrow> Addr option" where
  "parseIPv6 full =
     (let (s, zone) = (case cutAt ''%'' full of None \<Rightarrow> (full, Some []) | Some (s, z) \<Rightarrow> (s, if z = [] then None else Some z)) in
      case zone of
        None \<Rightarrow> None
      | Some z \<Rightarrow>
          let lead = hasPrefix ''::'' s; s1 = (if lead then drop 2 s else s) in
          if lead \<and> s1 = [] then Some (V6 0 z)
          else case parse6Loop [] (if lead then Some 0 else None) s1 of
            None \<Rightarrow> None
          | Some (ip, ellipsis, rest) \<Rightarrow>
              if rest \<noteq> [] then None
              else map_option (\<lambda>bs. V6 (foldl (\<lambda>n b. n * 256 + word_of_int b) 0 bs) z) (expand6 ip ellipsis))"

definition ParseAddr :: "string \<Rightarrow> Addr option" where
  "ParseAddr s =
     (case find (\<lambda>c. c = CHR ''.'' \<or> c = CHR '':'' \<or> c = CHR ''%'') s of
        None \<Rightarrow> None
      | Some c \<Rightarrow>
          if c = CHR ''.'' then map_option (\<lambda>fs. V4 (octets fs)) (parse4Loop 0 0 [] True s)
          else if c = CHR '':'' then parseIPv6 s else None)"

definition ParsePrefix :: "string \<Rightarrow> Prefix option" where
  "ParsePrefix s =
     (case cutAt ''/'' (rev s) of
        None \<Rightarrow> None
      | Some (bits, ip) \<Rightarrow>
          case ParseAddr (rev ip) of
            None \<Rightarrow> None
          | Some a \<Rightarrow>
              if Is6 a \<and> addrZone a \<noteq> [] then None
              else let bitsStr = rev bits in
                if 1 < length bitsStr \<and> (bitsStr ! 0 < CHR ''1'' \<or> CHR ''9'' < bitsStr ! 0) then None
                else case atoi bitsStr of
                  None \<Rightarrow> None
                | Some n \<Rightarrow> if n < 0 \<or> BitLen a < n then None else Some (PrefixFrom a n))"

section \<open>Laws\<close>

lemma parseIPv6_V6: "parseIPv6 s = Some a \<Longrightarrow> Is6 a"
  by (auto simp: parseIPv6_def Let_def split: option.splits prod.splits if_splits)

lemma ParseAddr4_eq: "ParseAddr4 s = (case ParseAddr s of Some (V4 a) \<Rightarrow> Some a | _ \<Rightarrow> None)"
proof -
  have "case_option None (case_Addr None Some (\<lambda>_ _. None)) (parseIPv6 s) = None"
  proof (cases "parseIPv6 s")
    case (Some a)
    then show ?thesis using parseIPv6_V6 [OF Some] by (cases a) auto
  qed simp
  then show ?thesis by (auto simp: ParseAddr4_def ParseAddr_def split: option.splits)
qed

lemma ParseAddr_valid: "ParseAddr s = Some a \<Longrightarrow> a \<noteq> NoAddr"
  using parseIPv6_V6 [of s a] by (auto simp: ParseAddr_def split: option.splits if_splits)

lemma ParsePrefix_valid:
  assumes "ParsePrefix s = Some p"
  shows "prefix_ok p \<and> prefixIsValid p"
proof -
  obtain bits ip a n where a: "ParseAddr (rev ip) = Some a" and n: "0 \<le> n" "n \<le> BitLen a" "p = PrefixFrom a n"
    using assms by (auto simp: ParsePrefix_def Let_def not_less split: option.splits prod.splits if_splits)
  then show ?thesis using ParseAddr_valid [OF a] prefix_ok_PrefixFrom [of a n]
    by (simp add: prefixIsValid_def PrefixFrom_def addrIsValid_iff)
qed

lemma agree_iff: "drop_bit k (a XOR b) = 0 \<longleftrightarrow> (\<forall>n. k \<le> n \<longrightarrow> bit a n = bit (b :: 'a::len word) n)"
proof
  assume z: "drop_bit k (a XOR b) = 0"
  show "\<forall>n. k \<le> n \<longrightarrow> bit a n = bit b n"
  proof (intro allI impI)
    fix n
    assume "k \<le> n"
    then have "bit (a XOR b) n = bit (drop_bit k (a XOR b)) (n - k)" by (simp only: bit_drop_bit_eq comp_apply le_add_diff_inverse)
    from this [unfolded z] show "bit a n = bit b n" by (simp add: bit_xor_iff)
  qed
next
  assume "\<forall>n. k \<le> n \<longrightarrow> bit a n = bit b n"
  then show "drop_bit k (a XOR b) = 0" by (intro bit_word_eqI) (simp add: bit_drop_bit_eq bit_xor_iff)
qed

lemma agree_push: "drop_bit k (a XOR b) = 0 \<Longrightarrow> push_bit k (drop_bit k a) = push_bit k (drop_bit k (b :: 'a::len word))"
  unfolding agree_iff by (intro bit_word_eqI) (auto simp: bit_simps)

text \<open>An address in two valid prefixes makes them overlap.\<close>

lemma contains_overlaps:
  assumes "prefix_ok p" "prefix_ok q" "prefixContains p x" "prefixContains q x"
  shows "Overlaps p q"
proof -
  let ?m = "nat (min (prefixBits p) (prefixBits q))"
  have mono: "drop_bit (w - ?m) (a XOR b) = 0"
    if "drop_bit (w - nat (prefixBits p)) (a XOR c) = 0" "drop_bit (w - nat (prefixBits q)) (b XOR c) = 0" for w and a b c :: "'a::len word"
    using that unfolding agree_iff by (metis diff_le_mono2 min.cobounded1 min.cobounded2 nat_mono order_trans)
  have "maskAddr (prefixAddr p) ?m = maskAddr (prefixAddr q) ?m"
  proof (cases x)
    case (V4 c)
    then obtain a b where ab: "prefixAddr p = V4 a" "prefixAddr q = V4 b"
        "drop_bit (32 - nat (prefixBits p)) (a XOR c) = 0" "drop_bit (32 - nat (prefixBits q)) (b XOR c) = 0"
      using assms(3,4) by (auto simp: prefixContains_def split: Addr.splits)
    from mono [OF ab(3,4)] show ?thesis by (simp add: ab keep_top_def agree_push)
  next
    case (V6 c z)
    then obtain a b za zb where ab: "prefixAddr p = V6 a za" "prefixAddr q = V6 b zb"
        "drop_bit (128 - nat (prefixBits p)) (a XOR c) = 0" "drop_bit (128 - nat (prefixBits q)) (b XOR c) = 0"
      using assms(3,4) by (auto simp: prefixContains_def split: Addr.splits)
    from mono [OF ab(3,4)] show ?thesis by (simp add: ab keep_top_def agree_push)
  qed (use assms(3) in \<open>simp add: prefixContains_def split: Addr.splits\<close>)
  moreover have "Is4 (prefixAddr p) = Is4 (prefixAddr q)" "prefixIsValid p" "prefixIsValid q"
    using assms(3,4) by (auto simp: prefixContains_def split: Addr.splits)
  ultimately show ?thesis by (simp add: Overlaps_def Let_def)
qed

lemma overlaps_sym: "Overlaps p q = Overlaps q p"
  by (auto simp: Overlaps_def Let_def min.commute)

end
