(* ===== verification/Behavior_Targets.thy ===== *)
theory Behavior_Targets
  imports Behavior_Validate Device_Class Device_Laws Go_Netip
begin

text \<open>
  Target-level validation of authored timelines (\<open>internal/config/behavior.go\<close>, \<open>behavior_action.go\<close>,
  \<open>behavior_address.go\<close>, \<open>behavior_duplicate_ip.go\<close>, \<open>behavior_mask.go\<close>, \<open>behavior_roam.go\<close>), the address rules they share with the
  runtime (\<open>interface_address.go\<close>, \<open>snmp_availability.go\<close>), and the seeding of a flat device's store from
  its configuration (\<open>protocols/stack_device_state.go\<close>).  The records hold the fields this code reads.
  \<open>netip.ParsePrefix\<close> and \<open>netip.ParseAddr\<close> are the parameters \<open>pp\<close> and \<open>pa\<close>.  An error keeps its sentinel, not its message.
\<close>

unbundle bit_operations_syntax

section \<open>Configuration\<close>

record ConfigInterface =
  ciName :: string
  ciNetwork :: string
  ciAddress :: string
  ciAdminStatus :: string
  ciOperStatus :: string
  ciDescription :: string
  ciVLANs :: "int list"

record ConfigRoute =
  crDestination :: string
  crVia :: string
  crNextHop :: string

record SNMPConfig =
  scEnabled :: "bool option"
  scCommunity :: string

record SNMPv3Config =
  s3Enabled :: bool
  s3Users :: "string list"

record WiFiRadio =
  wrInterface :: string
  wrSSID :: string
  wrTxPowerDBM :: int
  wrClients :: "string list"

record ConfigDevice =
  cdName :: string
  cdType :: string
  cdIPAddresses :: "8 word list list"
  cdVLAN :: int
  cdInterfaces :: "ConfigInterface list"
  cdRoutes :: "ConfigRoute list"
  cdSNMP :: SNMPConfig
  cdSNMPv3 :: "SNMPv3Config option"
  cdServesDHCP :: bool
  cdSTP :: "bool option"
  cdWiFi :: "WiFiRadio list option"

record Segment =
  sgTag :: int
  sgDevices :: "ConfigDevice list"

record Config =
  cgDevices :: "ConfigDevice list"
  cgSegments :: "Segment list"
  cgNetworks :: "string list"
  cgBehaviorTimelines :: "BehaviorTimeline list"

definition NormalizedSegments :: "Config \<Rightarrow> Segment list" where
  "NormalizedSegments c =
     (if cgSegments c \<noteq> [] then cgSegments c else [\<lparr>sgTag = 0, sgDevices = cgDevices c\<rparr>])"

definition SNMPv2Enabled :: "SNMPConfig \<Rightarrow> bool" where
  "SNMPv2Enabled cfg \<longleftrightarrow> (scEnabled cfg = None \<or> scEnabled cfg = Some True) \<and> trimSpace (scCommunity cfg) \<noteq> []"

definition SNMPv3Enabled :: "SNMPv3Config option \<Rightarrow> bool" where
  "SNMPv3Enabled cfg = (case cfg of None \<Rightarrow> False | Some c \<Rightarrow> s3Enabled c \<and> s3Users c \<noteq> [])"

section \<open>Interface addresses (interface_address.go)\<close>

definition DeviceInterfaceAddress :: "(string \<Rightarrow> Prefix option) \<Rightarrow> ConfigDevice \<Rightarrow> nat \<Rightarrow> Prefix" where
  "DeviceInterfaceAddress pp device index =
     (case (if index < length (cdInterfaces device) then pp (trimSpace (ciAddress (cdInterfaces device ! index))) else None) of
        Some pfx \<Rightarrow> pfx
      | None \<Rightarrow>
          (case (if index < length (cdIPAddresses device) then AddrFromSlice (cdIPAddresses device ! index) else None) of
             Some address \<Rightarrow> PrefixFrom (Unmap address) (BitLen (Unmap address))
           | None \<Rightarrow> noPrefix))"

definition ValidIPv4Host :: "Prefix \<Rightarrow> Addr \<Rightarrow> bool" where
  "ValidIPv4Host pfx address =
     (if \<not> prefixIsValid pfx \<or> \<not> Is4 (prefixAddr pfx) \<or> \<not> prefixContains pfx address then False
      else if 30 < prefixBits pfx then True
      else case (prefixAddr (Masked pfx), address) of
        (V4 network, V4 host) \<Rightarrow>
          if host = network then False
          else host \<noteq> network OR mask (32 - nat (prefixBits pfx))
      | _ \<Rightarrow> False)"

section \<open>Targets (behavior.go)\<close>

record behaviorTarget =
  tgDevice :: ConfigDevice
  tgVLAN :: int
  tgRouted :: bool
  tgCount :: int
  tgInterfaces :: "string list"

definition targetStep :: "Config \<Rightarrow> Segment \<Rightarrow> (string, behaviorTarget) gomap \<Rightarrow> ConfigDevice \<Rightarrow> (string, behaviorTarget) gomap" where
  "targetStep cfg segment result device =
     (let (count, interfaces) = (case map_of result (cdName device) of None \<Rightarrow> (0, []) | Some t \<Rightarrow> (tgCount t, tgInterfaces t))
      in gm_put (cdName device)
        \<lparr>tgDevice = device, tgVLAN = (if cgSegments cfg \<noteq> [] then sgTag segment else cdVLAN device),
         tgRouted = (cgNetworks cfg \<noteq> []), tgCount = count + 1,
         tgInterfaces = interfaces @ map ciName (cdInterfaces device)\<rparr> result)"

definition behaviorTargets :: "Config \<Rightarrow> (string, behaviorTarget) gomap" where
  "behaviorTargets cfg =
     foldl (\<lambda>result segment. foldl (targetStep cfg segment) result (sgDevices segment)) [] (NormalizedSegments cfg)"

datatype terror =
    ErrBehaviorTargetNotFound | ErrBehaviorTargetAmbiguous | ErrBehaviorPhaseEmpty | ErrBehaviorFaultScope
  | ErrBehaviorFaultValue | ErrBehaviorAddressTarget | ErrBehaviorActionInvalid | ErrBehaviorActionDuplicate
  | ErrBehaviorActionUnavailable | ErrBehaviorRoamInvalid | Schedule berror

type_synonym targets = "(string, behaviorTarget) gomap"

definition validateBehaviorDevice :: "targets \<Rightarrow> string \<Rightarrow> terror option" where
  "validateBehaviorDevice targets device =
     (case map_of targets device of
        None \<Rightarrow> Some ErrBehaviorTargetNotFound
      | Some target \<Rightarrow> if tgCount target \<noteq> 1 then Some ErrBehaviorTargetAmbiguous else None)"

definition validateBehaviorTarget :: "targets \<Rightarrow> string \<Rightarrow> string \<Rightarrow> terror option" where
  "validateBehaviorTarget targets device iface =
     (case map_of targets device of
        None \<Rightarrow> Some ErrBehaviorTargetNotFound
      | Some target \<Rightarrow>
          if tgCount target \<noteq> 1 then Some ErrBehaviorTargetAmbiguous
          else if iface \<notin> set (tgInterfaces target) then Some ErrBehaviorTargetNotFound else None)"

section \<open>Faults with an address or a mask\<close>

definition behaviorDeviceOnNetwork :: "ConfigDevice \<Rightarrow> string \<Rightarrow> bool" where
  "behaviorDeviceOnNetwork device network =
     (if network = [] then False else list_ex (\<lambda>i. ciNetwork i = network) (cdInterfaces device))"

definition behaviorAddressPeer :: "(string \<Rightarrow> Prefix option) \<Rightarrow> behaviorTarget \<Rightarrow> behaviorTarget \<Rightarrow> Addr \<Rightarrow> bool" where
  "behaviorAddressPeer pp server peer address =
     (if \<not> tgRouted server then
        list_ex (\<lambda>index. let pfx = DeviceInterfaceAddress pp (tgDevice peer) index in
            prefixAddr pfx = address \<and> ValidIPv4Host pfx address)
          [0 ..< max (length (cdInterfaces (tgDevice peer))) (length (cdIPAddresses (tgDevice peer)))]
      else
        list_ex (\<lambda>iface. case pp (ciAddress iface) of
            None \<Rightarrow> False
          | Some pfx \<Rightarrow> prefixAddr pfx = address \<and> ValidIPv4Host pfx address \<and>
              behaviorDeviceOnNetwork (tgDevice server) (ciNetwork iface))
          (cdInterfaces (tgDevice peer)))"

definition hasPeer :: "(string \<Rightarrow> Prefix option) \<Rightarrow> targets \<Rightarrow> string \<Rightarrow> behaviorTarget \<Rightarrow> Addr \<Rightarrow> bool" where
  "hasPeer pp targets device server address =
     list_ex (\<lambda>(name, peer). name \<noteq> device \<and> tgVLAN peer = tgVLAN server \<and> behaviorAddressPeer pp server peer address) targets"

definition validateBehaviorAddressFault :: "(string \<Rightarrow> Prefix option) \<Rightarrow> targets \<Rightarrow> BehaviorFault \<Rightarrow> terror option" where
  "validateBehaviorAddressFault pp targets fault =
     (if bfInterface fault \<noteq> [] then Some ErrBehaviorFaultScope
      else if bfValue fault \<noteq> 0 \<or> \<not> ValidFaultAddress (bfAddress fault) then Some ErrBehaviorFaultValue
      else case validateBehaviorDevice targets (bfDevice fault) of
        Some e \<Rightarrow> Some e
      | None \<Rightarrow>
          let server = the (map_of targets (bfDevice fault)) in
          if \<not> cdServesDHCP (tgDevice server) then Some ErrBehaviorAddressTarget
          else if hasPeer pp targets (bfDevice fault) server (bfAddress fault) then None
          else Some ErrBehaviorAddressTarget)"

definition onlyInterface :: "string \<Rightarrow> behaviorTarget \<Rightarrow> behaviorTarget" where
  "onlyInterface name target =
     (case find (\<lambda>i. ciName i = name) (cdInterfaces (tgDevice target)) of
        None \<Rightarrow> target
      | Some iface \<Rightarrow> target\<lparr>tgDevice := (tgDevice target)\<lparr>cdInterfaces := [iface]\<rparr>\<rparr>)"

definition validateBehaviorDuplicateIP :: "(string \<Rightarrow> Prefix option) \<Rightarrow> targets \<Rightarrow> BehaviorFault \<Rightarrow> terror option" where
  "validateBehaviorDuplicateIP pp targets fault =
     (case validateBehaviorTarget targets (bfDevice fault) (bfInterface fault) of
        Some e \<Rightarrow> Some e
      | None \<Rightarrow>
          if bfValue fault \<noteq> 0 \<or> \<not> ValidFaultAddress (bfAddress fault) then Some ErrBehaviorFaultValue
          else
            let target = onlyInterface (bfInterface fault) (the (map_of targets (bfDevice fault))) in
            if hasPeer pp targets (bfDevice fault) target (bfAddress fault) then None
            else Some ErrBehaviorAddressTarget)"

definition behaviorUsesAddress :: "string \<Rightarrow> bool" where
  "behaviorUsesAddress kind \<longleftrightarrow> kind = FaultDuplicateDHCPOffer \<or> kind = FaultDuplicateIP"

definition validateBehaviorMask :: "(string \<Rightarrow> Prefix option) \<Rightarrow> targets \<Rightarrow> BehaviorFault \<Rightarrow> terror option" where
  "validateBehaviorMask pp targets fault =
     (case validateBehaviorTarget targets (bfDevice fault) (bfInterface fault) of
        Some e \<Rightarrow> Some e
      | None \<Rightarrow>
          if bfPrefixBits fault < 0 \<or> 32 < bfPrefixBits fault \<or> bfValue fault \<noteq> 0 \<or> addrIsValid (bfAddress fault)
          then Some ErrBehaviorFaultValue
          else
            let device = tgDevice (the (map_of targets (bfDevice fault))) in
            if RoutesIP (Parse (cdType device)) then Some ErrBehaviorFaultScope
            else if list_ex (\<lambda>i. ciName i = bfInterface fault \<and>
                (case pp (ciAddress i) of None \<Rightarrow> False | Some p \<Rightarrow> ValidFaultAddress (prefixAddr p))) (cdInterfaces device)
            then None else Some ErrBehaviorFaultScope)"

definition interfaceFaultMax :: int where "interfaceFaultMax = 100"

definition validateBehaviorFault :: "(string \<Rightarrow> Prefix option) \<Rightarrow> targets \<Rightarrow> BehaviorFault \<Rightarrow> terror option" where
  "validateBehaviorFault pp targets fault =
     (if bfType fault = FaultBadMask then validateBehaviorMask pp targets fault
      else if bfPrefixBits fault \<noteq> 0 then Some ErrBehaviorFaultValue
      else if bfType fault = FaultDuplicateIP then validateBehaviorDuplicateIP pp targets fault
      else if bfType fault = FaultDuplicateDHCPOffer then validateBehaviorAddressFault pp targets fault
      else
        let deviceFault = find (\<lambda>d. ddType d = bfType fault) deviceFaultDefinitions;
            isDeviceFault = (deviceFault \<noteq> None) in
        if isDeviceFault \<and> bfInterface fault \<noteq> [] then Some ErrBehaviorFaultScope
        else if \<not> isDeviceFault \<and> bfInterface fault = [] then Some ErrBehaviorFaultScope
        else
          let ceiling = (case deviceFault of Some d \<Rightarrow> ddMaxValue d | None \<Rightarrow> interfaceFaultMax) in
          if bfValue fault < 1 \<or> ceiling < bfValue fault \<or> addrIsValid (bfAddress fault) then Some ErrBehaviorFaultValue
          else if isDeviceFault then validateBehaviorDevice targets (bfDevice fault)
          else validateBehaviorTarget targets (bfDevice fault) (bfInterface fault))"

section \<open>Actions (behavior_action.go)\<close>

definition servesSNMP :: "ConfigDevice \<Rightarrow> bool" where
  "servesSNMP d \<longleftrightarrow> SNMPv2Enabled (cdSNMP d) \<or> SNMPv3Enabled (cdSNMPv3 d)"

fun actionsLoop :: "targets \<Rightarrow> BehaviorAction list \<Rightarrow> BehaviorAction list \<Rightarrow> terror option" where
  "actionsLoop targets seen [] = None"
| "actionsLoop targets seen (action # rest) =
     (if baType action \<noteq> ActionReboot \<and> baType action \<noteq> ActionSTPTopologyChange then Some ErrBehaviorActionInvalid
      else case validateBehaviorDevice targets (baDevice action) of
        Some e \<Rightarrow> Some e
      | None \<Rightarrow>
          let device = tgDevice (the (map_of targets (baDevice action))) in
          if \<not> servesSNMP device \<or> baType action = ActionSTPTopologyChange \<and> cdSTP device \<noteq> Some True
          then Some ErrBehaviorActionUnavailable
          else if action \<in> set seen then Some ErrBehaviorActionDuplicate
          else actionsLoop targets (action # seen) rest)"

definition validateBehaviorActions :: "targets \<Rightarrow> BehaviorAction list \<Rightarrow> terror option" where
  "validateBehaviorActions targets actions = actionsLoop targets [] actions"

section \<open>Roams (behavior_roam.go)\<close>

definition servesSSID :: "ConfigDevice \<Rightarrow> string \<Rightarrow> bool" where
  "servesSSID device ssid = (case cdWiFi device of None \<Rightarrow> False | Some radios \<Rightarrow> list_ex (\<lambda>r. wrSSID r = ssid) radios)"

text \<open>The map is visited in the order of its sorted keys, which is the order of the model's list.\<close>

definition authoredStationSSID :: "targets \<Rightarrow> nat list \<Rightarrow> string option" where
  "authoredStationSSID targets station =
     map_option wrSSID
       (find (\<lambda>radio. list_ex (\<lambda>client. ParseMAC client = Some station) (wrClients radio))
         (concat (map (\<lambda>(name, target). case cdWiFi (tgDevice target) of None \<Rightarrow> [] | Some radios \<Rightarrow> radios) targets)))"

definition validateTxPowerDrop :: "ConfigDevice \<Rightarrow> int \<Rightarrow> string \<Rightarrow> bool" where
  "validateTxPowerDrop from dBm ssid \<longleftrightarrow> dBm \<noteq> 0 \<and>
     \<not> list_ex (\<lambda>radio. wrSSID radio = ssid \<and> wrTxPowerDBM radio \<le> dBm)
        (case cdWiFi from of None \<Rightarrow> [] | Some radios \<Rightarrow> radios)"

definition validateRoamCause :: "ConfigDevice \<Rightarrow> BehaviorRoam \<Rightarrow> string \<Rightarrow> bool" where
  "validateRoamCause from roam ssid =
     (if brCause roam \<noteq> RoamCauseTxPowerDrop \<and> brTxPowerDBM roam \<noteq> 0 then False
      else if brCause roam = [] then True
      else if brCause roam \<noteq> RoamCauseRadioDown \<and> brCause roam \<noteq> RoamCauseTxPowerDrop then False
      else if \<not> servesSNMP from then False
      else if brCause roam = RoamCauseTxPowerDrop then validateTxPowerDrop from (brTxPowerDBM roam) ssid
      else True)"

definition validateBehaviorRoam :: "targets \<Rightarrow> BehaviorRoam \<Rightarrow> nat list \<Rightarrow> terror option" where
  "validateBehaviorRoam targets roam station =
     (if brFrom roam = brTo roam then Some ErrBehaviorRoamInvalid
      else case validateBehaviorDevice targets (brFrom roam) of
        Some e \<Rightarrow> Some e
      | None \<Rightarrow> (case validateBehaviorDevice targets (brTo roam) of
          Some e \<Rightarrow> Some e
        | None \<Rightarrow> (case authoredStationSSID targets station of
            None \<Rightarrow> Some ErrBehaviorRoamInvalid
          | Some ssid \<Rightarrow>
              let from = tgDevice (the (map_of targets (brFrom roam))); to = tgDevice (the (map_of targets (brTo roam))) in
              if \<not> servesSSID from ssid \<or> \<not> servesSSID to ssid then Some ErrBehaviorRoamInvalid
              else if \<not> validateRoamCause from roam ssid then Some ErrBehaviorRoamInvalid
              else None)))"

fun roamsLoop :: "targets \<Rightarrow> string list \<Rightarrow> BehaviorRoam list \<Rightarrow> terror option" where
  "roamsLoop targets seen [] = None"
| "roamsLoop targets seen (roam # rest) =
     (case ParseMAC (brStation roam) of
        None \<Rightarrow> Some ErrBehaviorRoamInvalid
      | Some station \<Rightarrow>
          if macString station \<in> set seen then Some ErrBehaviorRoamInvalid
          else case validateBehaviorRoam targets roam station of
            Some e \<Rightarrow> Some e
          | None \<Rightarrow> roamsLoop targets (macString station # seen) rest)"

definition validateBehaviorRoams :: "targets \<Rightarrow> BehaviorRoam list \<Rightarrow> terror option" where
  "validateBehaviorRoams targets roams = roamsLoop targets [] roams"

section \<open>Phases and timelines\<close>

fun firstError :: "('a \<Rightarrow> 'e option) \<Rightarrow> 'a list \<Rightarrow> 'e option" where
  "firstError f [] = None"
| "firstError f (x # xs) = (case f x of Some e \<Rightarrow> Some e | None \<Rightarrow> firstError f xs)"

definition orElse :: "'e option \<Rightarrow> 'e option \<Rightarrow> 'e option" where
  "orElse a b = (case a of Some e \<Rightarrow> Some e | None \<Rightarrow> b)"

definition validateBehaviorPhase :: "(string \<Rightarrow> Prefix option) \<Rightarrow> targets \<Rightarrow> BehaviorPhase \<Rightarrow> terror option" where
  "validateBehaviorPhase pp targets phase =
     (if phTraffic phase = [] \<and> phFaults phase = [] \<and> phActions phase = [] \<and> phRoams phase = []
      then Some ErrBehaviorPhaseEmpty
      else
        orElse (firstError (\<lambda>t. validateBehaviorTarget targets (btDevice t) (btInterface t)) (phTraffic phase))
       (orElse (firstError (validateBehaviorFault pp targets) (phFaults phase))
       (orElse (validateBehaviorActions targets (phActions phase))
         (validateBehaviorRoams targets (phRoams phase)))))"

fun phasesLoop :: "(string \<Rightarrow> Prefix option) \<Rightarrow> targets \<Rightarrow> int option \<Rightarrow> BehaviorPhase list \<Rightarrow> terror option" where
  "phasesLoop pp targets previousEnd [] = None"
| "phasesLoop pp targets previousEnd (phase # rest) =
     (if (case previousEnd of None \<Rightarrow> False | Some t \<Rightarrow> phStartOffset phase < t) then Some (Schedule ErrBehaviorPhaseOverlap)
      else case validateBehaviorPhase pp targets phase of
        Some e \<Rightarrow> Some e
      | None \<Rightarrow> phasesLoop pp targets (Some (wrap64 (phStartOffset phase + phDuration phase))) rest)"

definition validateBehaviorTimeline ::
  "(BehaviorPhase list \<Rightarrow> BehaviorPhase list) \<Rightarrow> (string \<Rightarrow> Prefix option) \<Rightarrow> targets \<Rightarrow> BehaviorTimeline \<Rightarrow> terror option" where
  "validateBehaviorTimeline ps pp targets timeline = phasesLoop pp targets None (ps (tlPhases timeline))"

definition validateBehaviorTargets ::
  "(BehaviorPhase list \<Rightarrow> BehaviorPhase list) \<Rightarrow> (behaviorInterval list \<Rightarrow> behaviorInterval list) \<Rightarrow>
   (string \<Rightarrow> Prefix option) \<Rightarrow> Config \<Rightarrow> terror option" where
  "validateBehaviorTargets ps sf pp cfg =
     orElse (firstError (validateBehaviorTimeline ps pp (behaviorTargets cfg)) (cgBehaviorTimelines cfg))
    (orElse (map_option Schedule (validateBehaviorScheduleSize (cgBehaviorTimelines cfg)))
      (map_option Schedule (validateBehaviorConflicts sf (cgBehaviorTimelines cfg))))"

section \<open>Seeding a flat device's store (stack_device_state.go)\<close>

definition statusUp :: "string \<Rightarrow> bool" where
  "statusUp status \<longleftrightarrow> toLower (trimSpace status) \<noteq> ''down''"

definition flatDeviceInterfaceState :: "ConfigInterface \<Rightarrow> Prefix \<Rightarrow> Interface" where
  "flatDeviceInterfaceState iface address =
     \<lparr>ifName = ciName iface, ifNetwork = ciNetwork iface, ifAddress = address,
      ifDescription = ciDescription iface, ifVLANs = ciVLANs iface, ifAdminUp = statusUp (ciAdminStatus iface),
      ifOperUp = statusUp (ciAdminStatus iface) \<and> statusUp (ciOperStatus iface),
      ifCarrierUp = statusUp (ciOperStatus iface)\<rparr>"

definition connectedRoute :: "Prefix \<Rightarrow> string \<Rightarrow> Route" where
  "connectedRoute address via = \<lparr>rtDestination = Masked address, rtVia = via, rtNextHop = NoAddr, rtConnected = True\<rparr>"

definition parseFlatPrefix :: "(string \<Rightarrow> Prefix option) \<Rightarrow> string \<Rightarrow> Prefix" where
  "parseFlatPrefix pp value = (case pp (trimSpace value) of None \<Rightarrow> noPrefix | Some p \<Rightarrow> p)"

definition blankInterface :: "string \<Rightarrow> ConfigInterface" where
  "blankInterface name = \<lparr>ciName = name, ciNetwork = [], ciAddress = [], ciAdminStatus = [], ciOperStatus = [],
     ciDescription = [], ciVLANs = []\<rparr>"

text \<open>The interfaces with the address each carries: the authored ones, then one per further usable device address.\<close>

definition flatInterfaces :: "(string \<Rightarrow> Prefix option) \<Rightarrow> ConfigDevice \<Rightarrow> (ConfigInterface \<times> Prefix) list" where
  "flatInterfaces pp device =
     map (\<lambda>index. (cdInterfaces device ! index, DeviceInterfaceAddress pp device index)) [0 ..< length (cdInterfaces device)] @
     concat (map (\<lambda>index. let address = DeviceInterfaceAddress pp device index in
         if \<not> prefixIsValid address then []
         else [(blankInterface (if index = 0 then ''Management'' else ''eth'' @ itoa (int index)), address)])
       [length (cdInterfaces device) ..< length (cdIPAddresses device)])"

definition flatDeviceNetworkState ::
  "(string \<Rightarrow> Prefix option) \<Rightarrow> (string \<Rightarrow> Addr option) \<Rightarrow> ConfigDevice \<Rightarrow> Network" where
  "flatDeviceNetworkState pp pa device =
     \<lparr>nwInterfaces = map (\<lambda>(i, address). flatDeviceInterfaceState i address) (flatInterfaces pp device),
      nwRoutes =
        concat (map (\<lambda>(i, address). if prefixIsValid address then [connectedRoute address (ciName i)] else [])
          (flatInterfaces pp device)) @
        concat (map (\<lambda>r. let destination = parseFlatPrefix pp (crDestination r) in
            if \<not> prefixIsValid destination then []
            else [\<lparr>rtDestination = destination, rtVia = crVia r,
                   rtNextHop = (if crNextHop r \<noteq> [] then (case pa (crNextHop r) of None \<Rightarrow> NoAddr | Some a \<Rightarrow> a) else NoAddr),
                   rtConnected = False\<rparr>]) (cdRoutes device)),
      nwVLANs = [], nwRouters = []\<rparr>"

section \<open>What validation knows of a target\<close>

definition targets_ok :: "targets \<Rightarrow> bool" where
  "targets_ok m \<longleftrightarrow> (\<forall>n t. map_of m n = Some t \<longrightarrow>
     1 \<le> tgCount t \<and> (tgCount t = 1 \<longrightarrow> tgInterfaces t = map ciName (cdInterfaces (tgDevice t))))"

lemma foldl_invariant: "P a \<Longrightarrow> (\<And>a x. P a \<Longrightarrow> P (f a x)) \<Longrightarrow> P (foldl f a xs)"
  by (induction xs arbitrary: a) auto

lemma behaviorTargets_ok: "targets_ok (behaviorTargets cfg)"
proof -
  have "targets_ok (targetStep cfg segment m device)" if m: "targets_ok m" for m segment device
  proof (cases "map_of m (cdName device)")
    case None
    then show ?thesis using m by (auto simp: targets_ok_def targetStep_def gm_simps split: if_splits)
  next
    case (Some t)
    then have "1 \<le> tgCount t" using m by (simp add: targets_ok_def)
    then have c: "0 \<le> tgCount t" "tgCount t \<noteq> 0" by simp_all
    with Some show ?thesis using m by (auto simp: c targets_ok_def targetStep_def gm_simps split: if_splits)
  qed
  note step = this
  have inner: "targets_ok (foldl (targetStep cfg segment) m ds)" if "targets_ok m" for m segment ds
    using foldl_invariant [of targets_ok m "targetStep cfg segment" ds, OF that step] .
  have "targets_ok []" by (simp add: targets_ok_def)
  from foldl_invariant [of targets_ok, OF this inner] show ?thesis unfolding behaviorTargets_def .
qed

lemma flat_running:
  assumes "s = ReplaceNetwork (flatDeviceNetworkState pp pa device) s0"
  shows "length (cdInterfaces device) \<le> length (runningInterfaces s)"
    and "i < length (cdInterfaces device) \<Longrightarrow> ifName (runningInterfaces s ! i) = ciName (cdInterfaces device ! i)"
    and "i < length (cdInterfaces device) \<Longrightarrow> ifAddress (runningInterfaces s ! i) = DeviceInterfaceAddress pp device i"
proof -
  let ?n = "flatDeviceNetworkState pp pa device"
  have run: "runningInterfaces s = map (\<lambda>(i, address). let x = flatDeviceInterfaceState i address in
      cloneInterface (if ifOperUp x then x\<lparr>ifCarrierUp := True\<rparr> else x)) (flatInterfaces pp device)"
    using core_eqD(1) [OF recordEvent_frame(1)] assms
    by (simp add: ReplaceNetwork_def Let_def bumpVersion_def cloneNetwork_def flatDeviceNetworkState_def comp_def case_prod_beta)
  have len: "length (cdInterfaces device) \<le> length (flatInterfaces pp device)" by (simp add: flatInterfaces_def)
  then show "length (cdInterfaces device) \<le> length (runningInterfaces s)" by (simp add: run)
  have at: "flatInterfaces pp device ! i = (cdInterfaces device ! i, DeviceInterfaceAddress pp device i)"
    if "i < length (cdInterfaces device)" for i
    using that by (simp add: flatInterfaces_def nth_append)
  show "i < length (cdInterfaces device) \<Longrightarrow> ifName (runningInterfaces s ! i) = ciName (cdInterfaces device ! i)"
    "i < length (cdInterfaces device) \<Longrightarrow> ifAddress (runningInterfaces s ! i) = DeviceInterfaceAddress pp device i"
    using len at by (simp_all add: run Let_def flatDeviceInterfaceState_def cloneInterface_def)
qed

lemma flat_has_interface:
  assumes "s = ReplaceNetwork (flatDeviceNetworkState pp pa device) s0" "name \<in> set (map ciName (cdInterfaces device))"
  shows "interfaceExists (runningInterfaces s) name"
proof -
  obtain i where i: "i < length (cdInterfaces device)" "ciName (cdInterfaces device ! i) = name"
    using assms(2) by (auto simp: in_set_conv_nth)
  then have "i < length (runningInterfaces s)" using flat_running(1) [OF assms(1)] by simp
  moreover have "ifName (runningInterfaces s ! i) = name" using flat_running(2) [OF assms(1) i(1)] i(2) by simp
  ultimately show ?thesis by (auto simp: interfaceExists_def list_ex_iff intro: bexI [OF _ nth_mem])
qed

lemma flat_index:
  assumes "s = ReplaceNetwork (flatDeviceNetworkState pp pa device) s0" "distinct (map ciName (cdInterfaces device))"
    and i: "i < length (cdInterfaces device)" "ciName (cdInterfaces device ! i) = name"
  shows "index_of (\<lambda>x. ifName x = name) (runningInterfaces s) = Some i"
proof (cases "index_of (\<lambda>x. ifName x = name) (runningInterfaces s)")
  case None
  have "i < length (runningInterfaces s)" using flat_running(1) [OF assms(1)] i(1) by simp
  then have "runningInterfaces s ! i \<in> set (runningInterfaces s)" by (rule nth_mem)
  with None flat_running(2) [OF assms(1) i(1)] i(2) show ?thesis by (auto simp: index_of_None)
next
  case (Some j)
  note j = index_of_Some [OF Some]
  have hit: "ifName (runningInterfaces s ! i) = name" using flat_running(2) [OF assms(1) i(1)] i(2) by simp
  have "\<not> i < j" using j hit by blast
  then have "j < length (cdInterfaces device)" using i(1) by simp
  then have "ciName (cdInterfaces device ! j) = name" using flat_running(2) [OF assms(1)] j by simp
  then have "j = i"
    using assms(2) i \<open>j < length (cdInterfaces device)\<close> by (metis length_map nth_eq_iff_index_eq nth_map)
  with Some show ?thesis by simp
qed

lemma validated_target:
  assumes "validateBehaviorTarget (behaviorTargets cfg) device iface = None" "map_of (behaviorTargets cfg) device = Some t"
  shows "iface \<in> set (map ciName (cdInterfaces (tgDevice t)))"
proof -
  have c: "tgCount t = 1" and "iface \<in> set (tgInterfaces t)"
    using assms by (auto simp: validateBehaviorTarget_def split: if_splits)
  moreover have "tgInterfaces t = map ciName (cdInterfaces (tgDevice t))"
    using behaviorTargets_ok [of cfg] assms(2) c unfolding targets_ok_def by blast
  ultimately show ?thesis by simp
qed

end
