(* ===== verification/Snmp_Oid.thy ===== *)
theory Snmp_Oid
  imports Go_Text
begin

text \<open>
  Object identifiers as text (\<open>internal/protocols/snmp/mib.go\<close>, lines 340-452, and
  \<open>walk_oid.go\<close>): parsing into arcs, comparison, validity, and the normalisation of symbolic walk
  objects.
\<close>

section \<open>Arcs (mib.go)\<close>

definition trimDot :: "string \<Rightarrow> string" where
  "trimDot s = trimPrefix ''.'' s"

definition parseOIDParts :: "string \<Rightarrow> int list" where
  "parseOIDParts oid =
     concat (map (\<lambda>part. if part = [] then [] else case atoi part of None \<Rightarrow> [] | Some n \<Rightarrow> [n])
       (splitAt (CHR ''.'') oid))"

fun compareOIDParts :: "int list \<Rightarrow> int list \<Rightarrow> int" where
  "compareOIDParts (a # as) (b # bs) = (if a < b then - 1 else if b < a then 1 else compareOIDParts as bs)"
| "compareOIDParts [] (b # bs) = - 1"
| "compareOIDParts (a # as) [] = 1"
| "compareOIDParts [] [] = 0"

definition compareOIDs :: "string \<Rightarrow> string \<Rightarrow> int" where
  "compareOIDs a b = compareOIDParts (parseOIDParts a) (parseOIDParts b)"

definition FormatOID :: "string \<Rightarrow> string" where
  "FormatOID oid = (if \<not> hasPrefix ''.'' oid then ''.'' @ oid else oid)"

definition IsValidOID :: "string \<Rightarrow> bool" where
  "IsValidOID oid =
     (if oid = [] then False
      else list_all (\<lambda>part. part \<noteq> [] \<and> (case atoi part of None \<Rightarrow> False | Some n \<Rightarrow> \<not> n < 0))
        (splitAt (CHR ''.'') (trimDot oid)))"

definition StandardOIDs :: "(string \<times> string) list" where
  "StandardOIDs =
     [(''system'', ''1.3.6.1.2.1.1''), (''interfaces'', ''1.3.6.1.2.1.2''), (''at'', ''1.3.6.1.2.1.3''),
      (''ip'', ''1.3.6.1.2.1.4''), (''icmp'', ''1.3.6.1.2.1.5''), (''tcp'', ''1.3.6.1.2.1.6''),
      (''udp'', ''1.3.6.1.2.1.7''), (''snmp'', ''1.3.6.1.2.1.11'')]"

definition GetStandardOID :: "string \<Rightarrow> string option" where
  "GetStandardOID name = map_of StandardOIDs name"

section \<open>Symbolic walk objects (walk_oid.go)\<close>

definition smiAnchors :: "(string \<times> string) list" where
  "smiAnchors =
     [(''snmpv2-smi::iso'', ''.1''), (''snmpv2-smi::org'', ''.1.3''), (''snmpv2-smi::dod'', ''.1.3.6''),
      (''snmpv2-smi::internet'', ''.1.3.6.1''), (''snmpv2-smi::directory'', ''.1.3.6.1.1''),
      (''snmpv2-smi::mgmt'', ''.1.3.6.1.2''), (''snmpv2-smi::mib-2'', ''.1.3.6.1.2.1''),
      (''rfc1213-mib::mib-2'', ''.1.3.6.1.2.1''), (''snmpv2-smi::transmission'', ''.1.3.6.1.2.1.10''),
      (''snmpv2-smi::experimental'', ''.1.3.6.1.3''), (''snmpv2-smi::private'', ''.1.3.6.1.4''),
      (''snmpv2-smi::enterprises'', ''.1.3.6.1.4.1''), (''snmpv2-smi::security'', ''.1.3.6.1.5''),
      (''snmpv2-smi::snmpv2'', ''.1.3.6.1.6''), (''snmpv2-smi::snmpdomains'', ''.1.3.6.1.6.1''),
      (''snmpv2-smi::snmpproxys'', ''.1.3.6.1.6.2''), (''snmpv2-smi::snmpmodules'', ''.1.3.6.1.6.3'')]"

definition smiAnchorOIDBase :: "string \<Rightarrow> string option" where
  "smiAnchorOIDBase name =
     (let name1 = (case cutAt ''::'' name of None \<Rightarrow> ''snmpv2-smi::'' @ name | Some _ \<Rightarrow> name)
      in map_of smiAnchors name1)"

definition discoveryObjects :: "(string \<times> string) list" where
  "discoveryObjects =
     [(''lldp-mib::lldplocportid'', ''.1.0.8802.1.1.2.1.3.7.1.3''),
      (''lldp-mib::lldpremchassisid'', ''.1.0.8802.1.1.2.1.4.1.1.5''),
      (''lldp-mib::lldpremportid'', ''.1.0.8802.1.1.2.1.4.1.1.7''),
      (''lldp-mib::lldpremportdesc'', ''.1.0.8802.1.1.2.1.4.1.1.8''),
      (''lldp-mib::lldpremsysname'', ''.1.0.8802.1.1.2.1.4.1.1.9''),
      (''cisco-cdp-mib::cdpcachedeviceid'', ''.1.3.6.1.4.1.9.9.23.1.2.1.1.6''),
      (''cisco-cdp-mib::cdpcachedeviceport'', ''.1.3.6.1.4.1.9.9.23.1.2.1.1.7'')]"

definition knownDiscoveryWalkOIDBase :: "string \<Rightarrow> string option" where
  "knownDiscoveryWalkOIDBase name =
     (case map_of discoveryObjects name of Some b \<Rightarrow> Some b | None \<Rightarrow> smiAnchorOIDBase name)"

definition walkObjects :: "(string \<times> string) list" where
  "walkObjects =
     [(''snmpv2-mib::sysdescr'', ''.1.3.6.1.2.1.1.1''), (''snmpv2-mib::sysobjectid'', ''.1.3.6.1.2.1.1.2''),
      (''snmpv2-mib::syscontact'', ''.1.3.6.1.2.1.1.4''), (''snmpv2-mib::sysname'', ''.1.3.6.1.2.1.1.5''),
      (''snmpv2-mib::syslocation'', ''.1.3.6.1.2.1.1.6''), (''if-mib::ifdescr'', ''.1.3.6.1.2.1.2.2.1.2''),
      (''if-mib::iftype'', ''.1.3.6.1.2.1.2.2.1.3''), (''if-mib::ifmtu'', ''.1.3.6.1.2.1.2.2.1.4''),
      (''if-mib::ifspeed'', ''.1.3.6.1.2.1.2.2.1.5''), (''if-mib::ifphysaddress'', ''.1.3.6.1.2.1.2.2.1.6''),
      (''if-mib::ifadminstatus'', ''.1.3.6.1.2.1.2.2.1.7''), (''if-mib::ifoperstatus'', ''.1.3.6.1.2.1.2.2.1.8''),
      (''if-mib::ifname'', ''.1.3.6.1.2.1.31.1.1.1.1''), (''if-mib::ifhighspeed'', ''.1.3.6.1.2.1.31.1.1.1.15''),
      (''if-mib::ifalias'', ''.1.3.6.1.2.1.31.1.1.1.18'')]"

definition knownWalkOIDBase :: "string \<Rightarrow> string option" where
  "knownWalkOIDBase name =
     (case map_of walkObjects name of Some b \<Rightarrow> Some b | None \<Rightarrow> knownDiscoveryWalkOIDBase name)"

definition NormalizeWalkOID :: "string \<Rightarrow> string option" where
  "NormalizeWalkOID oid =
     (if IsValidOID oid then Some oid
      else
        let (name, suffix) = (case cutAt ''.'' oid of None \<Rightarrow> (oid, []) | Some (a, b) \<Rightarrow> (a, b)) in
        case knownWalkOIDBase (toLower name) of
          None \<Rightarrow> None
        | Some base \<Rightarrow>
            if suffix = [] then Some base
            else if \<not> IsValidOID suffix then None
            else Some (base @ ''.'' @ suffix))"

section \<open>Comparison is the lexicographic order on arcs\<close>

lemma compareOIDParts_iff:
  "compareOIDParts a b < 0 \<longleftrightarrow> a < b" "0 < compareOIDParts a b \<longleftrightarrow> b < a" "compareOIDParts a b = 0 \<longleftrightarrow> a = b"
  by (induction a b rule: compareOIDParts.induct) auto

section \<open>Normalised walk objects are numeric\<close>

lemma bases_valid:
  "(n, b) \<in> set (walkObjects @ discoveryObjects @ smiAnchors) \<Longrightarrow> \<exists>s. b = CHR ''.'' # s \<and> IsValidOID b \<and> s \<noteq> []"
proof -
  have "list_all (\<lambda>(n, b). hd b = CHR ''.'' \<and> tl b \<noteq> [] \<and> IsValidOID b) (walkObjects @ discoveryObjects @ smiAnchors)"
    by code_simp
  then show "(n, b) \<in> set (walkObjects @ discoveryObjects @ smiAnchors) \<Longrightarrow>
      \<exists>s. b = CHR ''.'' # s \<and> IsValidOID b \<and> s \<noteq> []"
    by (cases b) (simp_all add: list_all_iff Ball_def, force+)
qed

lemma knownWalkOIDBase_valid: "knownWalkOIDBase name = Some b \<Longrightarrow> \<exists>s. b = CHR ''.'' # s \<and> IsValidOID b \<and> s \<noteq> []"
  by (auto simp: knownWalkOIDBase_def knownDiscoveryWalkOIDBase_def smiAnchorOIDBase_def Let_def
      split: option.splits dest!: map_of_SomeD intro!: bases_valid)

text \<open>An object that normalisation resolves is a valid numeric identifier, provided the
  input has no empty arc (two dots in a row).\<close>

theorem normalize_valid:
  assumes "NormalizeWalkOID oid = Some n" "\<And>a b. oid \<noteq> a @ ''..'' @ b"
  shows "IsValidOID n"
proof (cases "IsValidOID oid")
  case True
  with assms(1) show ?thesis by (simp add: NormalizeWalkOID_def)
next
  case False
  obtain name suffix where cut: "(case cutAt ''.'' oid of None \<Rightarrow> (oid, []) | Some (a, b) \<Rightarrow> (a, b)) = (name, suffix)"
    by (cases "case cutAt ''.'' oid of None \<Rightarrow> (oid, []) | Some (a, b) \<Rightarrow> (a, b)")
  from assms(1) False cut obtain base where base: "knownWalkOIDBase (toLower name) = Some base"
    and n: "n = (if suffix = [] then base else base @ ''.'' @ suffix)" "suffix = [] \<or> IsValidOID suffix"
    by (auto simp: NormalizeWalkOID_def split: option.splits if_splits)
  obtain s where s: "base = CHR ''.'' # s" "IsValidOID base" using knownWalkOIDBase_valid [OF base] by blast
  show ?thesis
  proof (cases "suffix = []")
    case True
    with n s show ?thesis by simp
  next
    case ne: False
    then have oid: "oid = name @ CHR ''.'' # suffix"
      using cut by (auto simp: cutAt_dot split: option.splits)
    have "hd suffix \<noteq> CHR ''.''"
      using assms(2) [of name "tl suffix"] oid ne by (cases suffix) auto
    then have "trimDot suffix = suffix"
      using ne by (cases suffix) (auto simp: trimDot_def trimPrefix_def hasPrefix_def)
    with n ne s show ?thesis
      by (auto simp: IsValidOID_def trimDot_def trimPrefix_def hasPrefix_def splitAt_append)
  qed
qed

theorem normalize_valid_witness:
  "NormalizeWalkOID ''IF-MIB::ifDescr.3'' = Some ''.1.3.6.1.2.1.2.2.1.2.3'' \<and> IsValidOID ''.1.3.6.1.2.1.2.2.1.2.3''"
proof -
  have n: "NormalizeWalkOID ''IF-MIB::ifDescr.3'' = Some ''.1.3.6.1.2.1.2.2.1.2.3''" by code_simp
  have parts: "splitAt (CHR ''.'') ''IF-MIB::ifDescr.3'' = [''IF-MIB::ifDescr'', ''3'']" by code_simp
  have "''IF-MIB::ifDescr.3'' \<noteq> a @ ''..'' @ b" for a b
  proof
    assume "''IF-MIB::ifDescr.3'' = a @ ''..'' @ b"
    then have "[] \<in> set (butlast (tl (splitAt (CHR ''.'') ''IF-MIB::ifDescr.3'')))"
      by (simp only: append_Cons append_Nil splitAt_append) (simp add: butlast_append)
    then show False unfolding parts by simp
  qed
  with n show ?thesis using normalize_valid by blast
qed

text \<open>An input with an empty arc after a known anchor is not refused: it is resolved to a
  key that is not a valid identifier.\<close>

theorem normalize_empty_arc:
  "NormalizeWalkOID ''iso..3'' = Some ''.1..3'' \<and> \<not> IsValidOID ''.1..3''"
  by code_simp

end
