(* ===== verification/Snmp_Mib.thy ===== *)
theory Snmp_Mib
  imports Snmp_Oid "HOL-Library.Multiset"
begin

text \<open>
  The agent's management information base (\<open>internal/protocols/snmp/mib.go\<close>): a map from object
  identifiers to values with a sorted index that is rebuilt when stale, exact lookup, lexicographic
  successor by binary search, and the prefix operations of the table writers.

  A dynamic value is a Go closure; the model makes what it reads a value \<open>'w\<close> (the world at the call).
  Values are Go pointers, so an entry may be nil, and reading through nil panics: \<open>NilDeref\<close>.
  \<open>PInt\<close> is a signed Go integer; \<open>fmt.Sprintf("%v")\<close> of a value that is none of these is the text the
  \<open>POther\<close> payload carries.  The order in which \<open>range\<close> visits the map is an argument of the two functions that depend on it,
  and the order \<open>sort.Slice\<close> gives to identifiers with the same arcs is the parameter \<open>sf\<close>.  Each
  operation runs under the lock; \<open>GetNext\<close> drops it between refreshing the index and searching it, so its
  two critical sections are definitions of their own.
\<close>

section \<open>Values and the map\<close>

datatype payload = PString string | PBytes string | PInt int | POther string

datatype 'w OIDValue =
  OIDValue (ovType: int) (ovValue: payload) (ovDynamic: "('w \<Rightarrow> 'w OIDValue option) option")

datatype 'a reading = NilDeref | Reads 'a

type_synonym 'w entries = "(string, 'w OIDValue option) gomap"

record 'w MIB =
  mbEntries :: "'w entries"
  mbSorted :: "string list"
  mbDirty :: bool

type_synonym sorter = "(string \<times> int list) list \<Rightarrow> (string \<times> int list) list"

definition NewMIB :: "'w MIB" where
  "NewMIB = \<lparr>mbEntries = [], mbSorted = [], mbDirty = False\<rparr>"

definition Set :: "string \<Rightarrow> 'w OIDValue option \<Rightarrow> 'w MIB \<Rightarrow> 'w MIB" where
  "Set oid value m = m\<lparr>mbEntries := gm_put (trimDot oid) value (mbEntries m), mbDirty := True\<rparr>"

definition SetDynamic :: "string \<Rightarrow> ('w \<Rightarrow> 'w OIDValue option) option \<Rightarrow> 'w MIB \<Rightarrow> 'w MIB" where
  "SetDynamic oid fn m =
     m\<lparr>mbEntries := gm_put (trimDot oid) (Some (OIDValue 0 (POther ''<nil>'') fn)) (mbEntries m), mbDirty := True\<rparr>"

text \<open>The value a reader of an entry gets: the entry itself, or what its closure returns.\<close>

definition current :: "'w \<Rightarrow> 'w OIDValue option \<Rightarrow> 'w OIDValue option reading" where
  "current w value =
     (case value of None \<Rightarrow> NilDeref
      | Some v \<Rightarrow> (case ovDynamic v of Some fn \<Rightarrow> Reads (fn w) | None \<Rightarrow> Reads (Some v)))"

definition Get :: "'w \<Rightarrow> string \<Rightarrow> 'w MIB \<Rightarrow> 'w OIDValue option reading" where
  "Get w oid m =
     (case map_of (mbEntries m) (trimDot oid) of None \<Rightarrow> Reads None | Some value \<Rightarrow> current w value)"

definition oidValueString :: "'w OIDValue option \<Rightarrow> string reading" where
  "oidValueString value =
     (case value of None \<Rightarrow> NilDeref
      | Some v \<Rightarrow> Reads (case ovValue v of PString t \<Rightarrow> t | PBytes t \<Rightarrow> t | PInt i \<Rightarrow> itoa i | POther t \<Rightarrow> t))"

definition currentString :: "'w \<Rightarrow> 'w OIDValue option \<Rightarrow> string reading" where
  "currentString w value = (case current w value of NilDeref \<Rightarrow> NilDeref | Reads v \<Rightarrow> oidValueString v)"

section \<open>Searching a table column\<close>

fun indexLoop ::
  "'w \<Rightarrow> string \<Rightarrow> string \<Rightarrow> (string \<times> 'w OIDValue option) list \<Rightarrow> string \<Rightarrow> int \<Rightarrow> bool \<Rightarrow> (string \<times> bool) reading" where
  "indexLoop w prefix want [] best bestNum found = Reads (best, found)"
| "indexLoop w prefix want ((oid, val) # rest) best bestNum found =
     (if \<not> hasPrefix prefix oid then indexLoop w prefix want rest best bestNum found
      else case currentString w val of
        NilDeref \<Rightarrow> NilDeref
      | Reads text \<Rightarrow>
          if text \<noteq> want then indexLoop w prefix want rest best bestNum found
          else let suffix = trimPrefix prefix oid in
            case atoi suffix of
              Some n \<Rightarrow> if bestNum < n then indexLoop w prefix want rest suffix n True
                        else indexLoop w prefix want rest best bestNum True
            | None \<Rightarrow> indexLoop w prefix want rest (if found then best else suffix) bestNum True)"

definition IndexSuffixForValue ::
  "'w \<Rightarrow> string \<Rightarrow> string \<Rightarrow> (string \<times> 'w OIDValue option) list \<Rightarrow> (string \<times> bool) reading" where
  "IndexSuffixForValue w table want order = indexLoop w (trimDot table @ ''.'') want order [] (- 1) False"

fun sampleLoop :: "'w \<Rightarrow> string \<Rightarrow> (string \<times> 'w OIDValue option) list \<Rightarrow> (int \<times> int \<times> bool) reading" where
  "sampleLoop w prefix [] = Reads (0, 0, False)"
| "sampleLoop w prefix ((oid, val) # rest) =
     (if \<not> hasPrefix prefix oid then sampleLoop w prefix rest
      else case atoi (trimPrefix prefix oid) of
        None \<Rightarrow> sampleLoop w prefix rest
      | Some s \<Rightarrow> (case currentString w val of
            NilDeref \<Rightarrow> NilDeref
          | Reads text \<Rightarrow> (case atoi text of None \<Rightarrow> sampleLoop w prefix rest | Some iv \<Rightarrow> Reads (s, iv, True))))"

definition SampleIntEntry :: "'w \<Rightarrow> string \<Rightarrow> (string \<times> 'w OIDValue option) list \<Rightarrow> (int \<times> int \<times> bool) reading" where
  "SampleIntEntry w table order = sampleLoop w (trimDot table @ ''.'') order"

section \<open>The sorted index and the successor\<close>

definition updateSortedList :: "sorter \<Rightarrow> 'w MIB \<Rightarrow> 'w MIB" where
  "updateSortedList sf m =
     (let decorated = map (\<lambda>e. (fst e, parseOIDParts (fst e))) (mbEntries m)
      in m\<lparr>mbSorted := map fst (sf decorated), mbDirty := False\<rparr>)"

definition Reindex :: "sorter \<Rightarrow> 'w MIB \<Rightarrow> 'w MIB" where
  "Reindex sf m = (if mbDirty m then updateSortedList sf m else m)"

text \<open>\<open>sort.Search\<close> on the half-open range from \<open>i\<close> to \<open>j\<close>.\<close>

function search :: "(nat \<Rightarrow> bool) \<Rightarrow> nat \<Rightarrow> nat \<Rightarrow> nat" where
  "search f i j =
     (if i < j then let h = (i + j) div 2 in if \<not> f h then search f (h + 1) j else search f i h else i)"
  by pat_completeness auto

termination search
  by (relation "measure (\<lambda>(f, i, j). j - i)") auto

declare search.simps [simp del]

definition nextIndex :: "string \<Rightarrow> 'w MIB \<Rightarrow> nat" where
  "nextIndex oid m = search (\<lambda>i. 0 < compareOIDs (mbSorted m ! i) oid) 0 (length (mbSorted m))"

text \<open>The second critical section of \<open>GetNext\<close>; a missing map key reads as a nil pointer.\<close>

definition lookupNext :: "'w \<Rightarrow> string \<Rightarrow> 'w MIB \<Rightarrow> (string \<times> 'w OIDValue option) reading" where
  "lookupNext w oid m =
     (let idx = nextIndex oid m in
      if length (mbSorted m) \<le> idx then Reads ([], None)
      else
        let nextOID = mbSorted m ! idx;
            value = (case map_of (mbEntries m) nextOID of None \<Rightarrow> None | Some v \<Rightarrow> v) in
        case current w value of NilDeref \<Rightarrow> NilDeref | Reads v \<Rightarrow> Reads (nextOID, v))"

definition GetNext ::
  "sorter \<Rightarrow> 'w \<Rightarrow> string \<Rightarrow> 'w MIB \<Rightarrow> (string \<times> 'w OIDValue option) reading \<times> 'w MIB" where
  "GetNext sf w oid m = (let m1 = Reindex sf m in (lookupNext w (trimDot oid) m1, m1))"

section \<open>Removal, replacement and listing\<close>

definition Delete :: "string \<Rightarrow> 'w MIB \<Rightarrow> 'w MIB" where
  "Delete oid m =
     (if gm_has (mbEntries m) (trimDot oid)
      then m\<lparr>mbEntries := gm_del (trimDot oid) (mbEntries m), mbDirty := True\<rparr> else m)"

definition ReplacePrefix :: "string \<Rightarrow> (string \<times> 'w OIDValue option) list \<Rightarrow> 'w MIB \<Rightarrow> 'w MIB" where
  "ReplacePrefix prefix new m =
     (let p = trimDot prefix @ ''.'';
          kept = gm_remove (hasPrefix p) (mbEntries m)
      in m\<lparr>mbEntries := foldl (\<lambda>es (oid, value). gm_put (trimDot oid) value es) kept new, mbDirty := True\<rparr>)"

definition Count :: "'w MIB \<Rightarrow> nat" where
  "Count m = length (mbEntries m)"

definition AllOIDs :: "sorter \<Rightarrow> 'w MIB \<Rightarrow> string list \<times> 'w MIB" where
  "AllOIDs sf m = (let m1 = (if mbDirty m then updateSortedList sf m else m) in (mbSorted m1, m1))"

section \<open>Operations as a machine\<close>

text \<open>Each operation that sorts carries the order its own call of \<open>sort.Slice\<close> gives to ties.\<close>

datatype 'w mib_op =
    OpSet string "'w OIDValue option"
  | OpSetDynamic string "('w \<Rightarrow> 'w OIDValue option) option"
  | OpDelete string
  | OpReplacePrefix string "(string \<times> 'w OIDValue option) list"
  | OpReindex sorter
  | OpGetNext sorter 'w string
  | OpAllOIDs sorter

primrec mibStep :: "'w mib_op \<Rightarrow> 'w MIB \<Rightarrow> 'w MIB" where
  "mibStep (OpSet oid v) m = Set oid v m"
| "mibStep (OpSetDynamic oid fn) m = SetDynamic oid fn m"
| "mibStep (OpDelete oid) m = Delete oid m"
| "mibStep (OpReplacePrefix p new) m = ReplacePrefix p new m"
| "mibStep (OpReindex sf) m = Reindex sf m"
| "mibStep (OpGetNext sf w oid) m = snd (GetNext sf w oid m)"
| "mibStep (OpAllOIDs sf) m = snd (AllOIDs sf m)"

text \<open>The contract of \<open>sort.Slice\<close> with the comparison of \<open>updateSortedList\<close>.\<close>

definition sorts :: "sorter \<Rightarrow> bool" where
  "sorts sf \<longleftrightarrow> (\<forall>xs. mset (sf xs) = mset xs \<and> sorted_wrt (\<lambda>a b. \<not> compareOIDParts (snd b) (snd a) < 0) (sf xs))"

primrec mibOk :: "'w mib_op \<Rightarrow> 'w MIB \<Rightarrow> bool" where
  "mibOk (OpSet oid v) m \<longleftrightarrow> True"
| "mibOk (OpSetDynamic oid fn) m \<longleftrightarrow> True"
| "mibOk (OpDelete oid) m \<longleftrightarrow> True"
| "mibOk (OpReplacePrefix p new) m \<longleftrightarrow> True"
| "mibOk (OpReindex sf) m \<longleftrightarrow> sorts sf"
| "mibOk (OpGetNext sf w oid) m \<longleftrightarrow> sorts sf"
| "mibOk (OpAllOIDs sf) m \<longleftrightarrow> sorts sf"

text \<open>The invariant: the entries are a map, and a clean index lists exactly its keys in arc order.\<close>

definition index_ok :: "'w MIB \<Rightarrow> bool" where
  "index_ok m \<longleftrightarrow>
     set (mbSorted m) = fst ` set (mbEntries m) \<and> distinct (mbSorted m) \<and> sorted (map parseOIDParts (mbSorted m))"

definition mib_inv :: "'w MIB \<Rightarrow> bool" where
  "mib_inv m \<longleftrightarrow> gm_wf (mbEntries m) \<and> (\<not> mbDirty m \<longrightarrow> index_ok m)"

text \<open>The specification: a partial map on identifiers without their leading dot.\<close>

primrec mibSpec :: "'w mib_op \<Rightarrow> (string \<rightharpoonup> 'w OIDValue option) \<Rightarrow> (string \<rightharpoonup> 'w OIDValue option)" where
  "mibSpec (OpSet oid v) s = s(trimDot oid \<mapsto> v)"
| "mibSpec (OpSetDynamic oid fn) s = s(trimDot oid \<mapsto> Some (OIDValue 0 (POther ''<nil>'') fn))"
| "mibSpec (OpDelete oid) s = s(trimDot oid := None)"
| "mibSpec (OpReplacePrefix p new) s =
     (s |` {k. \<not> hasPrefix (trimDot p @ ''.'') k}) ++ map_of (rev (map (\<lambda>(oid, v). (trimDot oid, v)) new))"
| "mibSpec (OpReindex sf) s = s"
| "mibSpec (OpGetNext sf w oid) s = s"
| "mibSpec (OpAllOIDs sf) s = s"

section \<open>The machine keeps the invariant and refines the map\<close>

lemma gm_wf_puts: "gm_wf es \<Longrightarrow> gm_wf (foldl (\<lambda>es (oid, value). gm_put (trimDot oid) value es) es new)"
  by (induction new arbitrary: es) (auto intro: gm_intros)

lemma map_of_puts:
  "map_of (foldl (\<lambda>es (oid, value). gm_put (trimDot oid) value es) es new) =
   map_of es ++ map_of (rev (map (\<lambda>(oid, v). (trimDot oid, v)) new))"
  by (induction new arbitrary: es) (auto simp: gm_simps map_add_assoc [symmetric] split: prod.splits)

lemma updateSortedList_ok:
  assumes "sorts sf" "gm_wf (mbEntries m)"
  shows "index_ok (updateSortedList sf m)"
proof -
  define d where "d = map (\<lambda>e. (fst e, parseOIDParts (fst e))) (mbEntries m)"
  have perm: "mset (sf d) = mset d"
    and srt: "sorted_wrt (\<lambda>a b. \<not> compareOIDParts (snd b) (snd a) < 0) (sf d)"
    using assms(1) by (auto simp: sorts_def)
  have "mset (map fst (sf d)) = mset (map fst d)" by (simp add: perm)
  moreover have "map fst d = map fst (mbEntries m)" by (simp add: d_def)
  ultimately have keys: "mset (map fst (sf d)) = mset (map fst (mbEntries m))" by simp
  have deco: "snd x = parseOIDParts (fst x)" if "x \<in> set (sf d)" for x
    using that mset_eq_setD [OF perm] by (auto simp: d_def)
  have "sorted (map parseOIDParts (map fst (sf d)))"
    unfolding sorted_map using srt deco
    by (auto simp: sorted_wrt_map compareOIDParts_iff intro: sorted_wrt_mono_rel [rotated])
  moreover have "set (map fst (sf d)) = fst ` set (mbEntries m)"
    using mset_eq_setD [OF keys] by simp
  moreover have "distinct (map fst (sf d))"
    using mset_eq_imp_distinct_iff [OF keys] gm_wf_distinct [OF assms(2)] by simp
  ultimately show ?thesis by (simp add: index_ok_def updateSortedList_def d_def [symmetric])
qed

lemma entries_updateSortedList [simp]: "mbEntries (updateSortedList sf m) = mbEntries m"
  by (simp add: updateSortedList_def)

lemma entries_reindex [simp]: "mbEntries (Reindex sf m) = mbEntries m"
  by (simp add: Reindex_def)

lemma mib_inv_reindex: "sorts sf \<Longrightarrow> mib_inv m \<Longrightarrow> mib_inv (Reindex sf m) \<and> index_ok (Reindex sf m)"
  by (auto simp: mib_inv_def Reindex_def updateSortedList_ok)

lemma AllOIDs_snd: "snd (AllOIDs sf m) = Reindex sf m"
  by (simp add: AllOIDs_def Reindex_def Let_def)

lemma mib_step_inv: "mib_inv m \<Longrightarrow> mibOk x m \<Longrightarrow> mib_inv (mibStep x m)"
  by (cases x) (auto simp: AllOIDs_snd GetNext_def Let_def mib_inv_reindex,
    auto simp: mib_inv_def Set_def SetDynamic_def Delete_def ReplacePrefix_def Let_def intro: gm_intros gm_wf_puts)

lemma mib_step_refines: "map_of (mbEntries (mibStep x m)) = mibSpec x (map_of (mbEntries m))"
  by (cases x) (auto simp: AllOIDs_snd GetNext_def Set_def SetDynamic_def Delete_def ReplacePrefix_def Let_def
    gm_simps gm_has_def map_of_puts restrict_map_def fun_eq_iff map_add_def map_of_gm_remove split: option.splits)

interpretation mib: data_refinement mibStep mibOk mib_inv mibSpec "\<lambda>m. map_of (mbEntries m)"
  by unfold_locales (auto simp: mib_step_inv mib_step_refines)

section \<open>Binary search\<close>

lemma search_spec:
  assumes "i \<le> j" "\<And>a b. a \<le> b \<Longrightarrow> b < n \<Longrightarrow> f a \<Longrightarrow> f b" "j \<le> n"
  shows "i \<le> search f i j \<and> search f i j \<le> j \<and> (\<forall>x. i \<le> x \<and> x < search f i j \<longrightarrow> \<not> f x) \<and>
    (search f i j < j \<longrightarrow> f (search f i j))"
  using assms
proof (induction f i j rule: search.induct)
  case (1 f i j)
  define h where "h = (i + j) div 2"
  consider (stop) "\<not> i < j" | (right) "i < j" "\<not> f h" | (left) "i < j" "f h" by blast
  then show ?case
  proof cases
    case stop
    with 1(3) have "i = j" by simp
    moreover have "search f j j = j" by (subst search.simps) simp
    ultimately show ?thesis by auto
  next
    case right
    then have h: "i \<le> h" "h < j" by (auto simp: h_def)
    have low: "\<not> f x" if "x \<le> h" for x using 1(4) [OF that] h 1(5) right by auto
    from 1(1) [OF right(1) h_def right(2)] 1(4,5) h
    have "h + 1 \<le> search f (h + 1) j \<and> search f (h + 1) j \<le> j \<and>
        (\<forall>x. h + 1 \<le> x \<and> x < search f (h + 1) j \<longrightarrow> \<not> f x) \<and> (search f (h + 1) j < j \<longrightarrow> f (search f (h + 1) j))"
      by simp
    moreover have "search f i j = search f (h + 1) j" using right by (simp add: search.simps [of f i j] h_def)
    moreover have "\<not> f x" if "i \<le> x" "x < search f (h + 1) j" for x
      using low [of x] that calculation(1) by (cases "x \<le> h") auto
    ultimately show ?thesis using h by auto
  next
    case left
    then have h: "i \<le> h" "h < j" by (auto simp: h_def)
    have "\<not> \<not> f h" using left by simp
    from 1(2) [OF left(1) h_def this] 1(4,5) h
    have "i \<le> search f i h \<and> search f i h \<le> h \<and> (\<forall>x. i \<le> x \<and> x < search f i h \<longrightarrow> \<not> f x) \<and>
        (search f i h < h \<longrightarrow> f (search f i h))" by simp
    moreover have "search f i j = search f i h" using left by (simp add: search.simps [of f i j] h_def)
    moreover have "f (search f i h)" using calculation(1) left(2) by (cases "search f i h = h") auto
    ultimately show ?thesis using h by auto
  qed
qed

text \<open>On a clean index the search finds where the identifiers above the asked one begin.\<close>

definition oidsAbove :: "string \<Rightarrow> string list \<Rightarrow> string list" where
  "oidsAbove oid xs = filter (\<lambda>x. parseOIDParts oid < parseOIDParts x) xs"

lemma nextIndex_drop:
  assumes "sorted (map parseOIDParts (mbSorted m))"
  shows "drop (nextIndex oid m) (mbSorted m) = oidsAbove oid (mbSorted m)"
proof -
  let ?xs = "mbSorted m" and ?f = "\<lambda>i. 0 < compareOIDs (mbSorted m ! i) oid"
  let ?P = "\<lambda>x. parseOIDParts oid < parseOIDParts x" and ?k = "nextIndex oid m"
  have f: "?f i = ?P (?xs ! i)" for i by (simp add: compareOIDs_def compareOIDParts_iff)
  have mono: "?f b" if "a \<le> b" "b < length ?xs" "?f a" for a b
    using that sorted_nth_mono [OF assms, of a b] f by auto
  have k: "?k \<le> length ?xs" "\<And>x. x < ?k \<Longrightarrow> \<not> ?f x" "?k < length ?xs \<Longrightarrow> ?f ?k"
    using search_spec [of 0 "length ?xs" "length ?xs" ?f, OF _ mono] by (auto simp: nextIndex_def)
  have "filter ?P (take ?k ?xs) = []"
    using k(1,2) f by (auto simp: filter_empty_conv in_set_conv_nth)
  moreover have "filter ?P (drop ?k ?xs) = drop ?k ?xs"
  proof -
    have "?P (?xs ! i)" if "?k \<le> i" "i < length ?xs" for i
      using mono [OF that] k(3) that f by simp
    then show ?thesis using k(1) by (auto simp: filter_id_conv in_set_conv_nth)
  qed
  ultimately show ?thesis
    by (metis oidsAbove_def append_Nil append_take_drop_id filter_append)
qed

lemma lookupNext_above:
  assumes "index_ok m"
  shows "lookupNext w oid m =
    (case oidsAbove oid (mbSorted m) of
       [] \<Rightarrow> Reads ([], None)
     | k # _ \<Rightarrow> (case current w (the (map_of (mbEntries m) k)) of NilDeref \<Rightarrow> NilDeref | Reads v \<Rightarrow> Reads (k, v)))"
proof -
  have d: "drop (nextIndex oid m) (mbSorted m) = oidsAbove oid (mbSorted m)"
    using assms nextIndex_drop [of m oid] by (simp add: index_ok_def)
  show ?thesis
  proof (cases "oidsAbove oid (mbSorted m)")
    case Nil
    with d show ?thesis by (simp add: lookupNext_def Let_def)
  next
    case (Cons k ks)
    with d have dk: "drop (nextIndex oid m) (mbSorted m) = k # ks" by simp
    then have "mbSorted m ! nextIndex oid m = k" by (rule nth_via_drop)
    moreover have "nextIndex oid m < length (mbSorted m)"
      using dk by (metis drop_all linorder_not_less list.distinct(1))
    moreover have "k \<in> set (mbSorted m)" using Cons set_drop_subset [of "nextIndex oid m" "mbSorted m"] dk by simp
    then have "\<exists>v. map_of (mbEntries m) k = Some v"
      using assms by (auto simp: index_ok_def dest: weak_map_of_SomeI)
    ultimately show ?thesis using Cons by (auto simp: lookupNext_def Let_def)
  qed
qed

section \<open>Walking\<close>

text \<open>A client's walk: \<open>GetNext\<close> from the last identifier it was given, until the end of the base.\<close>

fun walk :: "nat \<Rightarrow> sorter \<Rightarrow> 'w \<Rightarrow> string \<Rightarrow> 'w MIB \<Rightarrow> string list" where
  "walk 0 sf w oid m = []"
| "walk (Suc n) sf w oid m =
     (case GetNext sf w oid m of
        (Reads (k, v), m1) \<Rightarrow> if k = [] then [] else k # walk n sf w k m1
      | (NilDeref, m1) \<Rightarrow> [])"

definition no_nil :: "'w MIB \<Rightarrow> bool" where
  "no_nil m \<longleftrightarrow> list_all (\<lambda>e. snd e \<noteq> None) (mbEntries m)"

definition mibKeys :: "'w MIB \<Rightarrow> string set" where
  "mibKeys m = fst ` set (mbEntries m)"

definition sliceSort :: sorter where
  "sliceSort xs = sort_key snd xs"

lemma sliceSort_sorts: "sorts sliceSort"
proof -
  have "sorted_wrt (\<lambda>a b. \<not> compareOIDParts (snd b) (snd a) < 0) (sliceSort xs)" for xs
    using sorted_sort_key [of snd xs] unfolding sliceSort_def sorted_map
    by (rule sorted_wrt_mono_rel [rotated]) (simp add: compareOIDParts_iff)
  then show ?thesis by (simp add: sorts_def sliceSort_def)
qed

lemma parse_trimDot: "parseOIDParts (trimDot oid) = parseOIDParts oid"
  by (cases oid) (auto simp: trimDot_def trimPrefix_def hasPrefix_def parseOIDParts_def)

lemma oidsAbove_trimDot: "oidsAbove (trimDot oid) xs = oidsAbove oid xs"
  by (simp add: oidsAbove_def parse_trimDot)

lemma current_reads: "e \<noteq> None \<Longrightarrow> \<exists>v. current w e = Reads v"
  by (auto simp: current_def split: option.splits)

lemma no_nil_reads: "no_nil m \<Longrightarrow> map_of (mbEntries m) k = Some e \<Longrightarrow> \<exists>v. current w e = Reads v"
  by (rule current_reads) (force simp: no_nil_def list_all_iff dest: map_of_SomeD)

lemma GetNext_eq:
  assumes "mib_inv m" "sorts sf"
  shows "GetNext sf w oid m =
    ((case oidsAbove oid (mbSorted (Reindex sf m)) of
       [] \<Rightarrow> Reads ([], None)
     | k # _ \<Rightarrow> (case current w (the (map_of (mbEntries m) k)) of NilDeref \<Rightarrow> NilDeref | Reads v \<Rightarrow> Reads (k, v))),
     Reindex sf m)"
  using lookupNext_above [of "Reindex sf m" w "trimDot oid"] mib_inv_reindex [OF assms(2,1)]
  by (simp add: GetNext_def Let_def oidsAbove_trimDot split: list.splits)

lemma mem_oidsAbove: "x \<in> set (oidsAbove oid xs) \<longleftrightarrow> x \<in> set xs \<and> parseOIDParts oid < parseOIDParts x"
  by (auto simp: oidsAbove_def)

lemma oidsAbove_sorted: "sorted (map parseOIDParts xs) \<Longrightarrow> sorted (map parseOIDParts (oidsAbove oid xs))"
  by (simp add: oidsAbove_def sorted_filter)

lemma NewMIB_inv: "mib_inv NewMIB"
  by (simp add: NewMIB_def mib_inv_def index_ok_def)

text \<open>C14 (mib_lookup): after any sequence of operations on a new base, whatever orders its sorts choose, a lookup
  returns what a plain partial map subjected to the same writes, deletions and prefix replacements holds, read
  through its closure when dynamic; index maintenance and walking change no entry.\<close>

theorem mib_lookup:
  assumes "run_ok mibStep mibOk ops NewMIB"
  shows "Get w oid (run_ops mibStep ops NewMIB) =
    (case run_ops mibSpec ops Map.empty (trimDot oid) of None \<Rightarrow> Reads None | Some value \<Rightarrow> current w value)"
  using mib.run_refines [OF NewMIB_inv assms] by (simp add: Get_def NewMIB_def)

theorem mib_lookup_witness:
  "Get () ''.1.3.7'' (run_ops mibStep [OpSet ''1.3.6.1'' None, OpSet ''.1.3.7'' (Some (OIDValue 4 (PString ''b'') None)),
     OpGetNext sliceSort () ''1'', OpReplacePrefix ''1.3.6'' []] NewMIB) = Reads (Some (OIDValue 4 (PString ''b'') None))"
  by (subst mib_lookup)
    (simp_all add: sliceSort_sorts current_def trimDot_def trimPrefix_def hasPrefix_def restrict_map_def map_add_def)

text \<open>C15 (getnext_least): after any sequence of operations that stored no nil value, GetNext does not panic; it returns a stored
  identifier whose arcs are strictly greater than the asked ones, with no stored identifier in between, and its
  current value; and it reports the end exactly when no stored identifier is greater.\<close>

theorem getnext_least:
  assumes "run_ok mibStep mibOk ops NewMIB" "m = run_ops mibStep ops NewMIB" "no_nil m" "sorts sf"
  shows "if \<exists>x \<in> mibKeys m. parseOIDParts oid < parseOIDParts x
    then \<exists>k e v. fst (GetNext sf w oid m) = Reads (k, v) \<and> map_of (mbEntries m) k = Some e \<and> current w e = Reads v \<and>
           parseOIDParts oid < parseOIDParts k \<and>
           (\<forall>x \<in> mibKeys m. parseOIDParts oid < parseOIDParts x \<longrightarrow> parseOIDParts k \<le> parseOIDParts x)
    else fst (GetNext sf w oid m) = Reads ([], None)"
proof -
  have inv: "mib_inv m" using mib.run_inv [OF NewMIB_inv assms(1)] assms(2) by simp
  define xs where "xs = mbSorted (Reindex sf m)"
  have "index_ok (Reindex sf m)" using mib_inv_reindex [OF assms(4) inv] by simp
  then have xs: "set xs = mibKeys m" "sorted (map parseOIDParts xs)" by (auto simp: index_ok_def xs_def mibKeys_def)
  note eq = GetNext_eq [OF inv assms(4), of w oid, folded xs_def]
  show ?thesis
  proof (cases "oidsAbove oid xs")
    case Nil
    then have "\<not> (\<exists>x \<in> mibKeys m. parseOIDParts oid < parseOIDParts x)"
      using xs(1) mem_oidsAbove [of _ oid xs] by auto
    with Nil eq show ?thesis by simp
  next
    case (Cons k ks)
    have k: "k \<in> mibKeys m" "parseOIDParts oid < parseOIDParts k"
      using mem_oidsAbove [of k oid xs] Cons xs(1) by auto
    have least: "parseOIDParts k \<le> parseOIDParts x" if "x \<in> mibKeys m" "parseOIDParts oid < parseOIDParts x" for x
      using oidsAbove_sorted [OF xs(2), of oid] mem_oidsAbove [of x oid xs] that Cons xs(1) by auto
    obtain e where e: "map_of (mbEntries m) k = Some e"
      using k(1) by (auto simp: mibKeys_def dest: weak_map_of_SomeI)
    obtain v where "current w e = Reads v" using no_nil_reads [OF assms(3) e] by blast
    with Cons eq e k least show ?thesis by auto
  qed
qed

theorem getnext_least_witness:
  "\<exists>k e v. fst (GetNext sliceSort () ''1.3'' (run_ops mibStep [OpSet ''1.3.10'' (Some (OIDValue 4 (PString ''b'') None))] NewMIB)) =
       Reads (k, v) \<and> map_of [(''1.3.10'', Some (OIDValue 4 (PString ''b'') None))] k = Some e \<and> current () e = Reads v"
proof -
  let ?m = "run_ops mibStep [OpSet ''1.3.10'' (Some (OIDValue 4 (PString ''b'') None))] NewMIB"
  have m: "mbEntries ?m = [(''1.3.10'', Some (OIDValue 4 (PString ''b'') None))]"
    by (simp add: Set_def NewMIB_def trimDot_def trimPrefix_def hasPrefix_def)
  have arcs: "parseOIDParts ''1.3'' < parseOIDParts ''1.3.10''" by code_simp
  have key: "\<exists>x \<in> mibKeys ?m. parseOIDParts ''1.3'' < parseOIDParts x" unfolding mibKeys_def m using arcs by simp
  have "no_nil ?m" unfolding no_nil_def m by simp
  from getnext_least [of "[OpSet ''1.3.10'' (Some (OIDValue 4 (PString ''b'') None))]", OF _ refl this sliceSort_sorts,
      of "''1.3''" "()"]
  have "\<exists>k e v. fst (GetNext sliceSort () ''1.3'' ?m) = Reads (k, v) \<and> map_of (mbEntries ?m) k = Some e \<and>
      current () e = Reads v"
    unfolding if_P [OF key] by fastforce
  then show ?thesis unfolding m .
qed

lemma strict_head:
  assumes "sorted (map f xs)" "inj_on f (set xs)" "distinct xs" "filter (\<lambda>x. (a::'b::linorder) < f x) xs = k # ks"
  shows "filter (\<lambda>x. f k < f x) xs = ks"
proof -
  let ?ys = "filter (\<lambda>x. a < f x) xs"
  have "k \<in> set ?ys" by (simp add: assms(4))
  then have "a < f k" by simp
  then have "filter (\<lambda>x. f k < f x) xs = filter (\<lambda>x. f k < f x) ?ys"
    by (auto intro!: filter_cong)
  also have "\<dots> = filter (\<lambda>x. f k < f x) ks" by (simp add: assms(4))
  also have "\<dots> = ks"
  proof -
    have srt: "sorted (map f (k # ks))" and dst: "distinct (k # ks)"
      using sorted_filter [OF assms(1)] distinct_filter [OF assms(3)] assms(4) by metis+
    have sub: "set (k # ks) \<subseteq> set xs" using assms(4) by (metis filter_is_subset)
    have "f k < f x" if "x \<in> set ks" for x
    proof -
      have "f k \<le> f x" using srt that by simp
      moreover have "k \<noteq> x" using dst that by auto
      ultimately show ?thesis using inj_onD [OF assms(2), of k x] sub that by force
    qed
    then show ?thesis by (simp add: filter_id_conv)
  qed
  finally show ?thesis .
qed

lemma walk_oidsAbove:
  assumes "mib_inv m" "sorts sf" "no_nil m" "[] \<notin> mibKeys m" "inj_on parseOIDParts (mibKeys m)"
    and "length (oidsAbove oid (mbSorted (Reindex sf m))) < n"
  shows "walk n sf w oid m = oidsAbove oid (mbSorted (Reindex sf m))"
  using assms
proof (induction n sf w oid m rule: walk.induct)
  case (1 sf w oid m)
  then show ?case by simp
next
  case (2 n sf w oid m)
  let ?m1 = "Reindex sf m" and ?xs = "mbSorted (Reindex sf m)"
  have ok: "mib_inv ?m1" "index_ok ?m1" using mib_inv_reindex [OF 2(3,2)] by auto
  have keys: "set ?xs = mibKeys m" using ok(2) by (simp add: index_ok_def mibKeys_def)
  have clean: "Reindex sf ?m1 = ?m1" by (simp add: Reindex_def updateSortedList_def)
  show ?case
  proof (cases "oidsAbove oid ?xs")
    case Nil
    then show ?thesis using GetNext_eq [OF 2(2,3), of w oid] by simp
  next
    case (Cons k ks)
    have k: "k \<in> mibKeys m" using mem_oidsAbove [of k oid ?xs] Cons keys by simp
    then obtain e where e: "map_of (mbEntries m) k = Some e"
      by (auto simp: mibKeys_def dest: weak_map_of_SomeI)
    obtain v where v: "current w e = Reads v" using no_nil_reads [OF 2(4) e] by blast
    have gn: "GetNext sf w oid m = (Reads (k, v), ?m1)" using GetNext_eq [OF 2(2,3), of w oid] Cons e v by simp
    have ne: "k \<noteq> []" using k 2(5) by auto
    have ks: "oidsAbove k ?xs = ks"
      using strict_head [of parseOIDParts ?xs "parseOIDParts oid" k ks] Cons ok(2) 2(6) keys
      by (simp add: oidsAbove_def index_ok_def)
    have "walk n sf w k ?m1 = oidsAbove k (mbSorted (Reindex sf ?m1))"
      using 2(1) [OF gn [symmetric] refl refl ne] ok(1) 2(3-7) Cons clean ks by (simp add: no_nil_def mibKeys_def)
    with gn ne clean ks Cons show ?thesis by simp
  qed
qed

lemma GetNext_next:
  assumes "mib_inv m" "sorts sf" "GetNext sf w oid m = (Reads (k, v), m1)" "k \<noteq> []"
  shows "m1 = Reindex sf m" "k \<in> set (mbSorted m1)" "parseOIDParts oid < parseOIDParts k"
    "\<exists>ks. oidsAbove oid (mbSorted m1) = k # ks"
  using GetNext_eq [OF assms(1,2), of w oid] assms(3,4) mem_oidsAbove [of k oid "mbSorted (Reindex sf m)"]
  by (auto split: list.splits reading.splits)

lemma walk_increases:
  "mib_inv m \<Longrightarrow> sorts sf \<Longrightarrow>
   (\<forall>x \<in> set (walk n sf w oid m). parseOIDParts oid < parseOIDParts x) \<and>
   sorted_wrt (\<lambda>a b. parseOIDParts a < parseOIDParts b) (walk n sf w oid m)"
proof (induction n sf w oid m rule: walk.induct)
  case (1 sf w oid m)
  then show ?case by simp
next
  case (2 n sf w oid m)
  show ?case
  proof (cases "\<exists>k v m1. GetNext sf w oid m = (Reads (k, v), m1) \<and> k \<noteq> []")
    case True
    then obtain k v m1 where gn: "GetNext sf w oid m = (Reads (k, v), m1)" "k \<noteq> []" by blast
    note nx = GetNext_next [OF 2(2,3) gn]
    have "mib_inv m1" using mib_inv_reindex [OF 2(3,2)] nx(1) by simp
    from 2(1) [OF gn(1) [symmetric] refl refl gn(2) this 2(3)] nx(3) gn show ?thesis by auto
  next
    case False
    then have "walk (Suc n) sf w oid m = []" by (auto split: prod.splits reading.splits)
    then show ?thesis by simp
  qed
qed

text \<open>C16 (walk_complete): when no nil value is stored, the stored identifiers have arcs and no two have the same arcs, a walk from the root, given more steps than
  there are entries, visits every stored identifier exactly once, in strictly increasing order of arcs.\<close>

theorem walk_complete:
  assumes "run_ok mibStep mibOk ops NewMIB" "m = run_ops mibStep ops NewMIB" "no_nil m" "sorts sf"
    and "inj_on parseOIDParts (mibKeys m)" "\<forall>k \<in> mibKeys m. parseOIDParts k \<noteq> []" "Count m < n"
  shows "set (walk n sf w [] m) = mibKeys m \<and>
    sorted_wrt (\<lambda>a b. parseOIDParts a < parseOIDParts b) (walk n sf w [] m)"
proof -
  have inv: "mib_inv m" using mib.run_inv [OF NewMIB_inv assms(1)] assms(2) by simp
  let ?xs = "mbSorted (Reindex sf m)"
  have ok: "index_ok (Reindex sf m)" using mib_inv_reindex [OF assms(4) inv] by simp
  have root: "parseOIDParts [] = []" by (simp add: parseOIDParts_def)
  have all: "oidsAbove [] ?xs = ?xs"
    using ok assms(6) root by (auto simp: oidsAbove_def filter_id_conv index_ok_def mibKeys_def neq_Nil_conv)
  have "length ?xs = card (mibKeys m)" using ok distinct_card [of ?xs] by (simp add: index_ok_def mibKeys_def)
  also have "\<dots> \<le> Count m" by (metis mibKeys_def Count_def card_image_le card_length finite_set le_trans)
  finally have "length (oidsAbove [] ?xs) < n" using all assms(7) by simp
  moreover have "[] \<notin> mibKeys m" using assms(6) root by auto
  ultimately have "walk n sf w [] m = ?xs" using walk_oidsAbove [OF inv assms(4,3) _ assms(5)] all by simp
  with ok walk_increases [OF inv assms(4), of n w "[]"] show ?thesis by (simp add: index_ok_def mibKeys_def)
qed

definition threeSets :: "unit mib_op list" where
  "threeSets = map (\<lambda>oid. OpSet oid (Some (OIDValue 4 (PString oid) None))) [''.1.3.10'', ''.1.3.9'', ''1.3'']"

lemma threeSets_ok: "run_ok mibStep mibOk threeSets NewMIB"
  by (simp add: threeSets_def)

theorem walk_complete_witness:
  "set (walk 4 sliceSort () [] (run_ops mibStep threeSets NewMIB)) = {''1.3'', ''1.3.9'', ''1.3.10''}"
proof -
  let ?m = "run_ops mibStep threeSets NewMIB"
  have es: "map fst (mbEntries ?m) = [''1.3'', ''1.3.10'', ''1.3.9'']" "list_all (\<lambda>e. snd e \<noteq> None) (mbEntries ?m)"
    "length (mbEntries ?m) = 3" by code_simp+
  have keys: "mibKeys ?m = {''1.3'', ''1.3.9'', ''1.3.10''}"
    unfolding mibKeys_def set_map [symmetric] es(1) by auto
  have parts: "parseOIDParts ''1.3'' = [1, 3]" "parseOIDParts ''1.3.9'' = [1, 3, 9]" "parseOIDParts ''1.3.10'' = [1, 3, 10]"
    by code_simp+
  have "inj_on parseOIDParts (mibKeys ?m)" "\<forall>k \<in> mibKeys ?m. parseOIDParts k \<noteq> []"
    unfolding keys by (simp_all add: parts)
  moreover have "no_nil ?m" "Count ?m < 4" using es by (simp_all add: no_nil_def Count_def)
  ultimately have "set (walk 4 sliceSort () [] ?m) = mibKeys ?m"
    using walk_complete [OF threeSets_ok refl _ sliceSort_sorts] by blast
  then show ?thesis by (simp only: keys)
qed

text \<open>Of two stored identifiers that differ as text but have the same arcs (both may be valid
  identifiers: leading zeros and plus signs are accepted), no walk visits both, whatever its length and start.\<close>

theorem walk_skips_twin:
  assumes "run_ok mibStep mibOk ops NewMIB" "m = run_ops mibStep ops NewMIB" "sorts sf"
    and "k \<in> mibKeys m" "k' \<in> mibKeys m" "k \<noteq> k'" "parseOIDParts k = parseOIDParts k'"
  shows "\<not> {k, k'} \<subseteq> set (walk n sf w oid m)"
proof
  assume sub: "{k, k'} \<subseteq> set (walk n sf w oid m)"
  let ?ws = "walk n sf w oid m"
  have inv: "mib_inv m" using mib.run_inv [OF NewMIB_inv assms(1)] assms(2) by simp
  from sub obtain i j where ij: "i < length ?ws" "?ws ! i = k" "j < length ?ws" "?ws ! j = k'"
    by (auto simp: in_set_conv_nth)
  with assms(6) have "i < j \<or> j < i" by (metis linorder_neqE_nat)
  with walk_increases [OF inv assms(3), of n w oid] ij assms(7) show False
    using sorted_wrt_nth_less [of "\<lambda>a b. parseOIDParts a < parseOIDParts b" ?ws] by (metis less_irrefl)
qed

theorem walk_skips_twin_witness:
  "IsValidOID ''1.3.1'' \<and> IsValidOID ''1.3.01'' \<and>
   \<not> {''1.3.1'', ''1.3.01''} \<subseteq> set (walk 9 sliceSort () [] (run_ops mibStep
       [OpSet ''1.3.1'' (Some (OIDValue 4 (PString ''a'') None)), OpSet ''1.3.01'' (Some (OIDValue 4 (PString ''b'') None))] NewMIB))"
proof -
  let ?ops = "[OpSet ''1.3.1'' (Some (OIDValue 4 (PString ''a'') None)), OpSet ''1.3.01'' (Some (OIDValue 4 (PString ''b'') None))]"
  let ?m = "run_ops mibStep ?ops NewMIB"
  have ok: "run_ok mibStep mibOk ?ops (NewMIB :: unit MIB)" by simp
  have es: "map fst (mbEntries (?m :: unit MIB)) = [''1.3.01'', ''1.3.1'']" by code_simp
  have "''1.3.1'' \<in> mibKeys (?m :: unit MIB)" "''1.3.01'' \<in> mibKeys (?m :: unit MIB)"
    unfolding mibKeys_def set_map [symmetric] es by simp_all
  moreover have "parseOIDParts ''1.3.1'' = parseOIDParts ''1.3.01''" "IsValidOID ''1.3.1''" "IsValidOID ''1.3.01''"
    by code_simp+
  ultimately show ?thesis using walk_skips_twin [OF ok refl sliceSort_sorts] by simp
qed

section \<open>The gap between the two critical sections of GetNext\<close>

text \<open>GetNext refreshes the index under one lock and searches it under another.  When a deletion
  of the identifier it is about to return runs in between, the search reads through a nil pointer: the call panics,
  although without the interleaving it would have returned that identifier.\<close>

theorem getnext_race:
  assumes "run_ok mibStep mibOk ops NewMIB" "m = run_ops mibStep ops NewMIB" "sorts sf"
    and "fst (GetNext sf w oid m) = Reads (k, v)" "k \<noteq> []" "\<not> hasPrefix ''.'' k"
  shows "lookupNext w (trimDot oid) (Delete k (Reindex sf m)) = NilDeref"
proof -
  have inv: "mib_inv m" using mib.run_inv [OF NewMIB_inv assms(1)] assms(2) by simp
  let ?m1 = "Reindex sf m" and ?m2 = "Delete k (Reindex sf m)"
  have gn: "GetNext sf w oid m = (Reads (k, v), ?m1)" using assms(4) by (auto simp: GetNext_def Let_def)
  have ok: "index_ok ?m1" using mib_inv_reindex [OF assms(3) inv] by simp
  obtain ks where ks: "oidsAbove oid (mbSorted ?m1) = k # ks" using GetNext_next(4) [OF inv assms(3) gn assms(5)] by blast
  have same: "mbSorted ?m2 = mbSorted ?m1" by (simp add: Delete_def)
  have gone: "map_of (mbEntries ?m2) k = None"
    using assms(6) by (auto simp: Delete_def trimDot_def trimPrefix_def gm_simps gm_has_def)
  have dk: "drop (nextIndex (trimDot oid) ?m2) (mbSorted ?m2) = k # ks"
    using nextIndex_drop [of ?m2 "trimDot oid"] ok ks by (simp add: same index_ok_def oidsAbove_trimDot)
  then have "mbSorted ?m2 ! nextIndex (trimDot oid) ?m2 = k" by (rule nth_via_drop)
  moreover have "nextIndex (trimDot oid) ?m2 < length (mbSorted ?m2)"
    using dk by (metis drop_all linorder_not_less list.distinct(1))
  ultimately show ?thesis using gone by (simp add: lookupNext_def Let_def current_def)
qed

theorem getnext_race_witness:
  "fst (GetNext sliceSort () ''1.3'' (run_ops mibStep threeSets NewMIB)) = Reads (''1.3.9'', Some (OIDValue 4 (PString ''.1.3.9'') None)) \<and>
   lookupNext () (trimDot ''1.3'') (Delete ''1.3.9'' (Reindex sliceSort (run_ops mibStep threeSets NewMIB))) = NilDeref"
proof -
  let ?m = "run_ops mibStep threeSets NewMIB"
  have gn: "(case fst (GetNext sliceSort () ''1.3'' ?m) of NilDeref \<Rightarrow> None
      | Reads (k, v) \<Rightarrow> Some (k, map_option (\<lambda>v. (ovType v, ovValue v, ovDynamic v = None)) v)) =
      Some (''1.3.9'', Some (4, PString ''.1.3.9'', True))" by code_simp
  then have "fst (GetNext sliceSort () ''1.3'' ?m) = Reads (''1.3.9'', Some (OIDValue 4 (PString ''.1.3.9'') None))"
    by (auto split: reading.splits prod.splits option.splits intro: OIDValue.expand)
  with getnext_race [OF threeSets_ok refl sliceSort_sorts] show ?thesis by (simp add: hasPrefix_def)
qed

section \<open>The index of a value in a table column\<close>

definition columnMatches :: "'w \<Rightarrow> string \<Rightarrow> string \<Rightarrow> (string \<times> 'w OIDValue option) list \<Rightarrow> string set" where
  "columnMatches w prefix want es =
     {trimPrefix prefix oid |oid e. (oid, e) \<in> set es \<and> hasPrefix prefix oid \<and> currentString w e = Reads want}"

definition columnReadable :: "'w \<Rightarrow> string \<Rightarrow> (string \<times> 'w OIDValue option) list \<Rightarrow> bool" where
  "columnReadable w prefix es \<longleftrightarrow> list_all (\<lambda>(oid, e). hasPrefix prefix oid \<longrightarrow> currentString w e \<noteq> NilDeref) es"

lemma columnMatches_Cons:
  "columnMatches w p want ((oid, e) # es) =
   (if hasPrefix p oid \<and> currentString w e = Reads want then {trimPrefix p oid} else {}) \<union> columnMatches w p want es"
  by (auto simp: columnMatches_def)

lemma indexLoop_spec:
  assumes "columnReadable w p es" "0 \<le> num0 \<longrightarrow> found" "- 1 \<le> num0"
  shows "\<exists>b num. indexLoop w p want es best num0 found = Reads (b, found \<or> columnMatches w p want es \<noteq> {}) \<and> num0 \<le> num \<and>
    (\<forall>s \<in> columnMatches w p want es. \<forall>n. atoi s = Some n \<longrightarrow> n \<le> num) \<and>
    (if num = num0 then 0 \<le> num0 \<longrightarrow> b = best else atoi b = Some num \<and> b \<in> columnMatches w p want es)"
  using assms
proof (induction es arbitrary: best num0 found)
  case Nil
  then show ?case by (auto simp: columnMatches_def)
next
  case (Cons oe es)
  obtain oid e where oe: "oe = (oid, e)" by (cases oe)
  have rd: "columnReadable w p es" using Cons.prems(1) by (simp add: columnReadable_def)
  consider (skip) "\<not> (hasPrefix p oid \<and> currentString w e = Reads want)"
    | (num) n where "hasPrefix p oid" "currentString w e = Reads want" "atoi (trimPrefix p oid) = Some n"
    | (plain) "hasPrefix p oid" "currentString w e = Reads want" "atoi (trimPrefix p oid) = None" by blast
  then show ?case
  proof cases
    case skip
    then have "indexLoop w p want (oe # es) best num0 found = indexLoop w p want es best num0 found"
      using Cons.prems(1) oe by (auto simp: columnReadable_def split: reading.splits)
    moreover have "columnMatches w p want (oe # es) = columnMatches w p want es"
      using skip oe by (auto simp: columnMatches_Cons)
    ultimately show ?thesis using Cons.IH [OF rd Cons.prems(2,3), of best] by (simp only:)
  next
    case num
    have cm: "columnMatches w p want (oe # es) = insert (trimPrefix p oid) (columnMatches w p want es)"
      using num oe by (simp add: columnMatches_Cons)
    show ?thesis
    proof (cases "num0 < n")
      case True
      then have "indexLoop w p want (oe # es) best num0 found = indexLoop w p want es (trimPrefix p oid) n True"
        using num oe by simp
      moreover obtain b N where "indexLoop w p want es (trimPrefix p oid) n True = Reads (b, True)" "n \<le> N"
        "\<forall>s \<in> columnMatches w p want es. \<forall>n. atoi s = Some n \<longrightarrow> n \<le> N"
        "if N = n then 0 \<le> n \<longrightarrow> b = trimPrefix p oid else atoi b = Some N \<and> b \<in> columnMatches w p want es"
        using Cons.IH [OF rd, of n True "trimPrefix p oid"] True Cons.prems(3) by auto
      ultimately show ?thesis using True num cm Cons.prems(3) by (intro exI [of _ b] exI [of _ N]) (auto split: if_splits)
    next
      case False
      then have "indexLoop w p want (oe # es) best num0 found = indexLoop w p want es best num0 True" using num oe by simp
      with Cons.IH [OF rd, of num0 True best] False num cm Cons.prems(3) show ?thesis by fastforce
    qed
  next
    case plain
    have cm: "columnMatches w p want (oe # es) = insert (trimPrefix p oid) (columnMatches w p want es)"
      using plain oe by (simp add: columnMatches_Cons)
    have "indexLoop w p want (oe # es) best num0 found =
        indexLoop w p want es (if found then best else trimPrefix p oid) num0 True" using plain oe by simp
    with Cons.IH [OF rd, of num0 True "if found then best else trimPrefix p oid"] plain cm Cons.prems(2,3)
    show ?thesis by fastforce
  qed
qed

text \<open>Whatever order the map is visited in, when some entry of a table column with the wanted
  text has a non-negative numeric index, the search finds an entry with that text, and its index is the numerically
  largest of them.\<close>

theorem index_suffix_largest:
  assumes "mset order = mset (mbEntries m)" "prefix = trimDot table @ ''.''" "columnReadable w prefix (mbEntries m)"
    and "s \<in> columnMatches w prefix want (mbEntries m)" "atoi s = Some n" "0 \<le> n"
  shows "\<exists>b N. IndexSuffixForValue w table want order = Reads (b, True) \<and>
    b \<in> columnMatches w prefix want (mbEntries m) \<and> atoi b = Some N \<and>
    (\<forall>s' \<in> columnMatches w prefix want (mbEntries m). \<forall>n'. atoi s' = Some n' \<longrightarrow> n' \<le> N)"
proof -
  have "set order = set (mbEntries m)" using mset_eq_setD [OF assms(1)] .
  then have eq: "columnMatches w prefix want order = columnMatches w prefix want (mbEntries m)"
    and rd: "columnReadable w prefix order"
    using assms(3) by (simp_all add: columnMatches_def columnReadable_def list_all_iff)
  have ne: "columnMatches w prefix want order \<noteq> {}" using assms(4) eq by blast
  obtain b N where "indexLoop w prefix want order [] (- 1) False = Reads (b, True)"
    "\<forall>s \<in> columnMatches w prefix want order. \<forall>n. atoi s = Some n \<longrightarrow> n \<le> N"
    "N \<noteq> - 1 \<longrightarrow> atoi b = Some N \<and> b \<in> columnMatches w prefix want order"
    using indexLoop_spec [OF rd, of "- 1" False want "[]"] ne by (auto split: if_splits)
  moreover have "N \<noteq> - 1" using calculation(2) assms(4-6) eq by auto
  ultimately show ?thesis using assms(2) eq by (auto simp: IndexSuffixForValue_def)
qed

definition ifDescrEntries :: "(string \<times> unit OIDValue option) list" where
  "ifDescrEntries = map (\<lambda>oid. (oid, Some (OIDValue 4 (PString ''Gi1'') None))) [''2.2.10101'', ''2.2.7'']"

theorem index_suffix_largest_witness:
  "\<exists>b N. IndexSuffixForValue () ''.2.2'' ''Gi1'' (rev ifDescrEntries) = Reads (b, True) \<and> atoi b = Some N \<and> 10101 \<le> N"
proof -
  let ?m = "\<lparr>mbEntries = ifDescrEntries, mbSorted = [], mbDirty = True\<rparr>" and ?p = "trimDot ''.2.2'' @ ''.''"
  have "columnReadable () ?p (mbEntries ?m)"
    by (simp add: columnReadable_def ifDescrEntries_def currentString_def current_def oidValueString_def)
  moreover have mem: "''10101'' \<in> columnMatches () ?p ''Gi1'' (mbEntries ?m)"
    by (auto simp: columnMatches_def ifDescrEntries_def currentString_def current_def oidValueString_def
      trimDot_def trimPrefix_def hasPrefix_def intro!: exI [of _ "''2.2.10101''"])
  moreover have at: "atoi ''10101'' = Some 10101" by code_simp
  ultimately show ?thesis
    using index_suffix_largest [of "rev ifDescrEntries" ?m ?p "''.2.2''" "()" "''10101''" "''Gi1''" 10101] by fastforce
qed

end
