(* ===== verification/Capture_Ring.thy ===== *)
theory Capture_Ring
  imports Prelude "HOL-Library.Sublist"
begin

text \<open>
  The ring of retained frames behind the capture export (\<open>internal/capturering/ring.go\<close>) and the comments of the
  exported frames (the pure part of \<open>pcapng.go\<close>).  The buffer is the fixed array of the code, with its
  head, its count and its byte total; \<open>OnPacket\<close> takes what \<open>time.Now\<close> would return as an argument.  Byte
  totals are mathematical integers: they count bytes that are in memory.
\<close>

section \<open>Data\<close>

record FabricTrace =
  ftIngressNetwork :: string
  ftPhysicalVLAN :: "16 word"
  ftRouteDecision :: string
  ftHop :: string
  ftEgressNetwork :: string
  ftRejectionReason :: string

record Packet =
  pkBuffer :: "8 word list"
  pkLength :: int
  pkSerialNumber :: int
  pkTimestamp :: int
  pkVLAN :: int
  pkFabricTrace :: FabricTrace

record Limits =
  lmFrames :: int
  lmBytes :: int

record Frame =
  frTimestamp :: int
  frDirection :: string
  frSerial :: int
  frVLAN :: int
  frTrace :: FabricTrace
  frData :: "8 word list"

record Ring =
  rgFrames :: "Frame list"
  rgHead :: nat
  rgCount :: nat
  rgBytes :: int
  rgLimits :: Limits

definition defaultFrames :: int where "defaultFrames = 4096"
definition defaultBytes :: int where "defaultBytes = 8 * 2 ^ 20"

definition DefaultLimits :: Limits where
  "DefaultLimits = \<lparr>lmFrames = defaultFrames, lmBytes = defaultBytes\<rparr>"

definition zeroTrace :: FabricTrace where
  "zeroTrace = \<lparr>ftIngressNetwork = [], ftPhysicalVLAN = 0, ftRouteDecision = [], ftHop = [], ftEgressNetwork = [],
     ftRejectionReason = []\<rparr>"

definition zeroFrame :: Frame where
  "zeroFrame = \<lparr>frTimestamp = 0, frDirection = [], frSerial = 0, frVLAN = 0, frTrace = zeroTrace, frData = []\<rparr>"

section \<open>Operations (ring.go)\<close>

definition New :: "Limits \<Rightarrow> Ring" where
  "New limits =
     (let l1 = (if lmFrames limits \<le> 0 then limits\<lparr>lmFrames := defaultFrames\<rparr> else limits);
          l2 = (if lmBytes l1 \<le> 0 then l1\<lparr>lmBytes := defaultBytes\<rparr> else l1)
      in \<lparr>rgFrames = replicate (nat (lmFrames l2)) zeroFrame, rgHead = 0, rgCount = 0, rgBytes = 0, rgLimits = l2\<rparr>)"

definition dropOldestLocked :: "Ring \<Rightarrow> Ring" where
  "dropOldestLocked r =
     r\<lparr>rgBytes := rgBytes r - int (length (frData (rgFrames r ! rgHead r))),
       rgFrames := (rgFrames r)[rgHead r := zeroFrame],
       rgHead := (rgHead r + 1) mod length (rgFrames r),
       rgCount := rgCount r - 1\<rparr>"

function shrink :: "Ring \<Rightarrow> Ring" where
  "shrink r = (if lmBytes (rgLimits r) < rgBytes r \<and> 1 < rgCount r then shrink (dropOldestLocked r) else r)"
  by pat_completeness auto

termination shrink
  by (relation "measure rgCount") (auto simp: dropOldestLocked_def)

declare shrink.simps [simp del]

definition packetData :: "Packet \<Rightarrow> 8 word list" where
  "packetData pkt =
     (if 0 < pkLength pkt \<and> pkLength pkt \<le> int (length (pkBuffer pkt))
      then take (nat (pkLength pkt)) (pkBuffer pkt) else pkBuffer pkt)"

definition packetFrame :: "int \<Rightarrow> string \<Rightarrow> Packet \<Rightarrow> Frame" where
  "packetFrame now direction pkt =
     \<lparr>frTimestamp = (if pkTimestamp pkt = 0 then now else pkTimestamp pkt), frDirection = direction,
      frSerial = pkSerialNumber pkt, frVLAN = pkVLAN pkt, frTrace = pkFabricTrace pkt, frData = packetData pkt\<rparr>"

definition storeFrame :: "Frame \<Rightarrow> Ring \<Rightarrow> Ring" where
  "storeFrame frame r =
     (let r1 = (if rgCount r = length (rgFrames r) then dropOldestLocked r else r);
          r2 = r1\<lparr>rgFrames := (rgFrames r1)[(rgHead r1 + rgCount r1) mod length (rgFrames r1) := frame],
                  rgCount := rgCount r1 + 1, rgBytes := rgBytes r1 + int (length (frData frame))\<rparr>
      in shrink r2)"

definition OnPacket :: "int \<Rightarrow> string \<Rightarrow> Packet option \<Rightarrow> Ring option \<Rightarrow> Ring option" where
  "OnPacket now direction pkt ring =
     (case (ring, pkt) of
        (Some r, Some p) \<Rightarrow>
          if packetData p = [] then Some r else Some (storeFrame (packetFrame now direction p) r)
      | _ \<Rightarrow> ring)"

definition Snapshot :: "int \<Rightarrow> Ring \<Rightarrow> Frame list" where
  "Snapshot lastN r =
     (let n = (if 0 < lastN \<and> lastN < int (rgCount r) then nat lastN else rgCount r)
      in map (\<lambda>i. rgFrames r ! ((rgHead r + rgCount r - n + i) mod length (rgFrames r))) [0 ..< n])"

section \<open>Frame comments (pcapng.go)\<close>

definition traceComments :: "FabricTrace \<Rightarrow> string list" where
  "traceComments trace =
     (if ftIngressNetwork trace = [] then []
      else [''ingress='' @ ftIngressNetwork trace] @
        (if 0 < ftPhysicalVLAN trace then [''physical_vlan='' @ nat_digits (unat (ftPhysicalVLAN trace))] else []) @
        concat (map (\<lambda>(key, value). if value \<noteq> [] then [key @ ''='' @ value] else [])
          [(''route'', ftRouteDecision trace), (''hop'', ftHop trace), (''egress'', ftEgressNetwork trace),
           (''rejection'', ftRejectionReason trace)]))"

fun joinSpace :: "string list \<Rightarrow> string" where
  "joinSpace [] = []"
| "joinSpace [x] = x"
| "joinSpace (x # y # ys) = x @ '' '' @ joinSpace (y # ys)"

definition frameComments :: "Frame \<Rightarrow> string list" where
  "frameComments frame =
     (let parts =
        (if frDirection frame \<noteq> [] then [''direction='' @ frDirection frame] else []) @
        (if 0 < frSerial frame then [''serial='' @ itoa (frSerial frame)] else []) @
        (if 0 \<le> frVLAN frame then [''vlan='' @ itoa (frVLAN frame)] else []) @
        traceComments (frTrace frame)
      in if parts = [] then [] else [joinSpace parts])"

section \<open>The abstract queue\<close>

definition slot :: "Ring \<Rightarrow> nat \<Rightarrow> nat" where
  "slot r i = (rgHead r + i) mod length (rgFrames r)"

definition live :: "Ring \<Rightarrow> Frame list" where
  "live r = map (\<lambda>i. rgFrames r ! slot r i) [0 ..< rgCount r]"

definition dataBytes :: "Frame list \<Rightarrow> int" where
  "dataBytes fs = (\<Sum>f \<leftarrow> fs. int (length (frData f)))"

definition ring_shape :: "Ring \<Rightarrow> bool" where
  "ring_shape r \<longleftrightarrow>
     0 < lmFrames (rgLimits r) \<and> length (rgFrames r) = nat (lmFrames (rgLimits r)) \<and> rgHead r < length (rgFrames r) \<and>
     rgCount r \<le> length (rgFrames r) \<and> rgBytes r = dataBytes (live r) \<and>
     (\<forall>i. rgCount r \<le> i \<and> i < length (rgFrames r) \<longrightarrow> rgFrames r ! slot r i = zeroFrame)"

definition ring_inv :: "Ring \<Rightarrow> bool" where
  "ring_inv r \<longleftrightarrow> ring_shape r \<and> (rgBytes r \<le> lmBytes (rgLimits r) \<or> rgCount r \<le> 1)"

text \<open>The longest suffix that fits the two bounds; one frame always fits.\<close>

definition fits :: "Limits \<Rightarrow> Frame list \<Rightarrow> bool" where
  "fits l fs \<longleftrightarrow> int (length fs) \<le> lmFrames l \<and> (dataBytes fs \<le> lmBytes l \<or> length fs \<le> 1)"

fun newest :: "Limits \<Rightarrow> Frame list \<Rightarrow> Frame list" where
  "newest l [] = []"
| "newest l (f # fs) = (if fits l (f # fs) then f # fs else newest l fs)"

lemma live_nth: "i < rgCount r \<Longrightarrow> live r ! i = rgFrames r ! slot r i"
  by (simp add: live_def)

lemma length_live [simp]: "length (live r) = rgCount r"
  by (simp add: live_def)

lemma slot_eq:
  "rgHead r < length (rgFrames r) \<Longrightarrow> i < length (rgFrames r) \<Longrightarrow>
   slot r i = (if rgHead r + i < length (rgFrames r) then rgHead r + i else rgHead r + i - length (rgFrames r))"
  by (cases "rgHead r + i < length (rgFrames r)") (auto simp: slot_def le_mod_geq)

lemma slot_inj:
  "rgHead r < length (rgFrames r) \<Longrightarrow> i < length (rgFrames r) \<Longrightarrow> j < length (rgFrames r) \<Longrightarrow>
   slot r i = slot r j \<longleftrightarrow> i = j"
  by (auto simp: slot_eq split: if_splits)

lemma slot_less: "rgHead r < length (rgFrames r) \<Longrightarrow> slot r i < length (rgFrames r)"
  unfolding slot_def by (rule mod_less_divisor) linarith

lemma dataBytes_simps [simp]:
  "dataBytes [] = 0" "dataBytes (f # fs) = int (length (frData f)) + dataBytes fs"
  "dataBytes (fs @ gs) = dataBytes fs + dataBytes gs"
  by (simp_all add: dataBytes_def)

section \<open>The operations on the queue\<close>

lemma drop_slot: "slot (dropOldestLocked r) i = slot r (Suc i)"
  by (simp add: slot_def dropOldestLocked_def mod_add_left_eq)

lemma drop_at:
  assumes "ring_shape r" "Suc i < length (rgFrames r)"
  shows "rgFrames (dropOldestLocked r) ! slot (dropOldestLocked r) i = rgFrames r ! slot r (Suc i)"
proof -
  have h: "rgHead r < length (rgFrames r)" using assms(1) by (simp add: ring_shape_def)
  have "slot r 0 = rgHead r" using h by (simp add: slot_def)
  then have "slot r (Suc i) \<noteq> rgHead r" using slot_inj [OF h assms(2), of 0] h by (cases "rgFrames r") auto
  then show ?thesis by (simp add: drop_slot) (simp add: dropOldestLocked_def)
qed

lemma live_drop:
  assumes "ring_shape r" "0 < rgCount r"
  shows "live (dropOldestLocked r) = tl (live r)"
proof (rule nth_equalityI)
  show "length (live (dropOldestLocked r)) = length (tl (live r))" by (simp add: dropOldestLocked_def)
  fix i assume "i < length (live (dropOldestLocked r))"
  then have i: "Suc i < rgCount r" by (simp add: dropOldestLocked_def)
  then have n: "Suc i < length (rgFrames r)" using assms(1) by (simp add: ring_shape_def)
  have "live (dropOldestLocked r) ! i = rgFrames r ! slot r (Suc i)"
    using i drop_at [OF assms(1) n] by (simp add: live_nth dropOldestLocked_def)
  then show "live (dropOldestLocked r) ! i = tl (live r) ! i" using i by (simp add: nth_tl live_nth)
qed

lemma live_Cons: "0 < rgCount r \<Longrightarrow> rgHead r < length (rgFrames r) \<Longrightarrow> live r = rgFrames r ! rgHead r # tl (live r)"
  using live_nth [of 0 r] length_live [of r] by (cases "live r") (auto simp: slot_def)

lemma ring_shape_drop:
  assumes "ring_shape r" "0 < rgCount r"
  shows "ring_shape (dropOldestLocked r)"
proof -
  let ?r = "dropOldestLocked r"
  have h: "rgHead r < length (rgFrames r)" and n: "length (rgFrames ?r) = length (rgFrames r)"
    using assms(1) by (auto simp: ring_shape_def dropOldestLocked_def)
  have "rgBytes ?r = dataBytes (live ?r)"
  proof -
    have "rgBytes r = int (length (frData (rgFrames r ! rgHead r))) + dataBytes (tl (live r))"
      using assms(1) arg_cong [OF live_Cons [OF assms(2) h], of dataBytes] by (simp add: ring_shape_def)
    then show ?thesis unfolding live_drop [OF assms] by (simp add: dropOldestLocked_def)
  qed
  moreover have "rgFrames ?r ! slot ?r i = zeroFrame" if "rgCount ?r \<le> i" "i < length (rgFrames ?r)" for i
  proof (cases "Suc i < length (rgFrames r)")
    case True
    then show ?thesis using that assms drop_at [OF assms(1) True] by (simp add: ring_shape_def dropOldestLocked_def)
  next
    case False
    then have "Suc i = length (rgFrames r)" using that(2) n by simp
    then have "slot ?r i = rgHead r" unfolding drop_slot using h by (simp add: slot_def)
    then show ?thesis using h by (simp add: dropOldestLocked_def)
  qed
  ultimately show ?thesis using assms by (auto simp: ring_shape_def dropOldestLocked_def)
qed

lemma newest_step:
  assumes "fits l fs" "0 < lmFrames l"
  shows "newest l (fs @ [f]) =
    (let q = (if int (length fs) = lmFrames l then tl fs else fs) @ [f] in newest l q)"
proof (cases "int (length fs) = lmFrames l")
  case True
  then have "fs \<noteq> []" using assms(2) by auto
  moreover have "\<not> fits l (fs @ [f])" using True by (simp add: fits_def)
  ultimately show ?thesis using True by (cases fs) simp_all
next
  case False
  then show ?thesis by (simp add: Let_def)
qed

lemma shrink_frame: "rgLimits (dropOldestLocked r) = rgLimits r" "rgCount (dropOldestLocked r) = rgCount r - 1"
  "length (rgFrames (dropOldestLocked r)) = length (rgFrames r)"
  by (simp_all add: dropOldestLocked_def)

lemma shrink_newest:
  assumes "ring_shape r" "0 < rgCount r"
  shows "ring_shape (shrink r) \<and> 0 < rgCount (shrink r) \<and> rgLimits (shrink r) = rgLimits r \<and>
    (rgBytes (shrink r) \<le> lmBytes (rgLimits r) \<or> rgCount (shrink r) \<le> 1) \<and> live (shrink r) = newest (rgLimits r) (live r)"
  using assms
proof (induction r rule: shrink.induct)
  case (1 r)
  have h: "rgHead r < length (rgFrames r)" using 1(2) by (simp add: ring_shape_def)
  have len: "int (rgCount r) \<le> lmFrames (rgLimits r)" and bytes: "rgBytes r = dataBytes (live r)"
    using 1(2) by (auto simp: ring_shape_def)
  obtain x xs where xs: "live r = x # xs" using live_Cons [OF 1(3) h] by blast
  have nx: "newest (rgLimits r) (live r) = (if fits (rgLimits r) (live r) then live r else newest (rgLimits r) (tl (live r)))"
    unfolding xs by simp
  show ?case
  proof (cases "lmBytes (rgLimits r) < rgBytes r \<and> 1 < rgCount r")
    case True
    then have "\<not> fits (rgLimits r) (live r)" using bytes by (simp add: fits_def)
    moreover have "shrink r = shrink (dropOldestLocked r)" using True by (subst shrink.simps) simp
    ultimately show ?thesis
      using 1(1) [OF True ring_shape_drop [OF 1(2,3)]] True nx live_drop [OF 1(2,3)] by (simp add: shrink_frame)
  next
    case False
    moreover have "shrink r = r" using False by (subst shrink.simps) auto
    moreover have "fits (rgLimits r) (live r)" using False len bytes by (auto simp: fits_def)
    ultimately show ?thesis using 1(2,3) nx by auto
  qed
qed

lemma live_insert:
  assumes "ring_shape r" "rgCount r < length (rgFrames r)"
    and "r2 = r\<lparr>rgFrames := (rgFrames r)[(rgHead r + rgCount r) mod length (rgFrames r) := f],
      rgCount := rgCount r + 1, rgBytes := rgBytes r + int (length (frData f))\<rparr>"
  shows "live r2 = live r @ [f] \<and> ring_shape r2"
proof -
  have h: "rgHead r < length (rgFrames r)" using assms(1) by (simp add: ring_shape_def)
  have sl: "slot r2 i = slot r i" and n: "length (rgFrames r2) = length (rgFrames r)" and c: "rgCount r2 = Suc (rgCount r)"
    and fr: "rgFrames r2 = (rgFrames r)[slot r (rgCount r) := f]" for i
    using assms(3) by (simp_all add: slot_def)
  have other: "rgFrames r2 ! slot r i = rgFrames r ! slot r i" if "i < length (rgFrames r)" "i \<noteq> rgCount r" for i
    using that slot_inj [OF h that(1) assms(2)] fr by simp
  have here: "rgFrames r2 ! slot r (rgCount r) = f" using fr slot_less [OF h] by simp
  have "live r2 = live r @ [f]"
  proof (rule nth_equalityI)
    show "length (live r2) = length (live r @ [f])" by (simp add: c)
    fix i assume i: "i < length (live r2)"
    show "live r2 ! i = (live r @ [f]) ! i"
    proof (cases "i = rgCount r")
      case True
      then show ?thesis using here i by (simp add: live_nth sl nth_append)
    next
      case False
      then show ?thesis using other [of i] i assms(2) by (simp add: live_nth sl nth_append c)
    qed
  qed
  moreover have "rgBytes r2 = dataBytes (live r2)"
    using calculation assms(1,3) by (simp add: ring_shape_def)
  moreover have "rgFrames r2 ! slot r2 i = zeroFrame" if "rgCount r2 \<le> i" "i < length (rgFrames r2)" for i
    using that other [of i] assms(1) c n by (simp add: sl ring_shape_def)
  ultimately show ?thesis using assms(1,2) c n by (auto simp: ring_shape_def assms(3))
qed

lemma storeFrame_newest:
  assumes "ring_inv r"
  shows "ring_inv (storeFrame f r) \<and> rgLimits (storeFrame f r) = rgLimits r \<and>
    live (storeFrame f r) = newest (rgLimits r) (live r @ [f])"
proof -
  let ?l = "rgLimits r"
  define r1 where "r1 = (if rgCount r = length (rgFrames r) then dropOldestLocked r else r)"
  define r2 where "r2 = r1\<lparr>rgFrames := (rgFrames r1)[(rgHead r1 + rgCount r1) mod length (rgFrames r1) := f],
    rgCount := rgCount r1 + 1, rgBytes := rgBytes r1 + int (length (frData f))\<rparr>"
  have sh: "ring_shape r" and pos: "0 < length (rgFrames r)" and full: "int (length (rgFrames r)) = lmFrames ?l"
    and cnt: "rgCount r \<le> length (rgFrames r)"
    using assms by (auto simp: ring_inv_def ring_shape_def)
  have fit: "fits ?l (live r)" using assms full cnt by (auto simp: fits_def ring_inv_def ring_shape_def)
  have r1: "ring_shape r1" "rgLimits r1 = ?l" "rgCount r1 < length (rgFrames r1)"
    "live r1 = (if int (length (live r)) = lmFrames ?l then tl (live r) else live r)"
    using sh pos full cnt ring_shape_drop [OF sh] live_drop [OF sh]
    by (cases "rgCount r = length (rgFrames r)"; auto simp: r1_def shrink_frame)+
  have r2: "live r2 = live r1 @ [f]" "ring_shape r2" using live_insert [OF r1(1,3) r2_def] by auto
  have lim: "rgLimits r2 = ?l" "0 < rgCount r2" by (simp_all add: r2_def r1(2))
  have "storeFrame f r = shrink r2" by (simp add: storeFrame_def r1_def r2_def Let_def)
  moreover have "newest ?l (live r @ [f]) = newest ?l (live r2)"
    using newest_step [OF fit] sh r1(4) r2(1) by (simp add: Let_def ring_shape_def)
  ultimately show ?thesis using shrink_newest [OF r2(2) lim(2)] lim(1) by (simp add: ring_inv_def)
qed

section \<open>The ring as a machine\<close>

type_synonym arrival = "int \<times> string \<times> Packet option"

definition ringStep :: "arrival \<Rightarrow> Ring \<Rightarrow> Ring" where
  "ringStep a r = (case a of (now, direction, pkt) \<Rightarrow> the (OnPacket now direction pkt (Some r)))"

definition accepted :: "arrival \<Rightarrow> Frame list" where
  "accepted a = (case a of
     (now, direction, Some p) \<Rightarrow> if packetData p = [] then [] else [packetFrame now direction p]
   | (now, direction, None) \<Rightarrow> [])"

definition queueStep :: "arrival \<Rightarrow> Limits \<times> Frame list \<Rightarrow> Limits \<times> Frame list" where
  "queueStep a q = (fst q, newest (fst q) (snd q @ accepted a))"

lemma newest_fits: "0 < lmFrames l \<Longrightarrow> fits l (newest l fs)"
  by (induction fs) (auto simp: fits_def)

lemma newest_id: "fits l fs \<Longrightarrow> newest l fs = fs"
  by (cases fs) auto

lemma ringStep_eq: "ringStep a r = foldr storeFrame (accepted a) r"
  by (cases a) (auto simp: ringStep_def OnPacket_def accepted_def split: option.splits)

lemma accepted_cases: "accepted a = [] \<or> (\<exists>f. accepted a = [f])"
  by (auto simp: accepted_def split: prod.splits option.splits)

lemma ring_inv_fits: "ring_inv r \<Longrightarrow> fits (rgLimits r) (live r)"
  by (auto simp: fits_def ring_inv_def ring_shape_def)

lemma ringStep_sim:
  assumes "ring_inv r"
  shows "ring_inv (ringStep a r) \<and> (rgLimits (ringStep a r), live (ringStep a r)) = queueStep a (rgLimits r, live r)"
  using accepted_cases [of a] storeFrame_newest [OF assms] newest_id [OF ring_inv_fits [OF assms]] assms
  by (auto simp: ringStep_eq queueStep_def)

interpretation ring: data_refinement ringStep "\<lambda>_ _. True" ring_inv queueStep "\<lambda>r. (rgLimits r, live r)"
  by unfold_locales (use ringStep_sim in auto)

lemma New_inv: "ring_inv (New l)"
  by (auto simp: New_def Let_def ring_inv_def ring_shape_def live_def slot_def defaultFrames_def)

lemma New_live: "live (New l) = []"
  by (simp add: live_def New_def Let_def)

section \<open>What is retained\<close>

lemma newest_absorb: "newest l (newest l xs @ ys) = newest l (xs @ ys)"
proof (induction xs)
  case Nil
  then show ?case by simp
next
  case (Cons x xs)
  have "0 \<le> dataBytes zs" for zs by (induction zs) auto
  then have "\<not> fits l (x # xs) \<Longrightarrow> \<not> fits l (x # xs @ ys)"
    by (auto simp: fits_def) (smt (verit, best))
  with Cons show ?case by auto
qed

lemma newest_suffix: "suffix (newest l xs) xs"
  by (induction xs) (auto intro: suffix_ConsI)

lemma newest_longest: "suffix q xs \<Longrightarrow> fits l q \<Longrightarrow> length q \<le> length (newest l xs)"
  by (induction xs) (auto simp: suffix_Cons dest: suffix_length_le)

lemma queue_run: "run_ops queueStep as (l, newest l fs) = (l, newest l (fs @ concat (map accepted as)))"
  by (induction as arbitrary: fs) (simp_all add: queueStep_def newest_absorb)

lemma ring_run:
  "ring_inv (run_ops ringStep as (New l)) \<and> rgLimits (run_ops ringStep as (New l)) = rgLimits (New l) \<and>
   live (run_ops ringStep as (New l)) = newest (rgLimits (New l)) (concat (map accepted as))"
  using ring.run_inv [OF New_inv run_ok_True, of as l] ring.run_refines [OF New_inv run_ok_True, of as l]
    queue_run [of as "rgLimits (New l)" "[]"] by (simp add: New_live)

lemma Snapshot_live:
  assumes "ring_inv r"
  shows "Snapshot n r = (if 0 < n then drop (rgCount r - nat n) (live r) else live r)"
proof (rule nth_equalityI)
  show "length (Snapshot n r) = length (if 0 < n then drop (rgCount r - nat n) (live r) else live r)"
    by (auto simp: Snapshot_def Let_def)
next
  fix i assume i: "i < length (Snapshot n r)"
  have "rgHead r + rgCount r - k + i = rgHead r + (rgCount r - k + i)" if "k \<le> rgCount r" for k
    using that by simp
  with i show "Snapshot n r ! i = (if 0 < n then drop (rgCount r - nat n) (live r) else live r) ! i"
    by (auto simp: Snapshot_def live_def slot_def Let_def split: if_splits)
qed

text \<open>C36 (ring_retains): after any arrivals at a new ring, what is retained is the longest run of most recently accepted frames that
  respects both bounds, the frame count and the byte budget, where a single frame may exceed the byte budget; and the
  byte counter is the number of bytes retained.\<close>

theorem ring_retains:
  assumes "r = run_ops ringStep as (New l)" "q = Snapshot 0 r" "everything = concat (map accepted as)"
  shows "suffix q everything \<and> fits (rgLimits (New l)) q \<and> rgBytes r = dataBytes q \<and>
    (\<forall>q'. suffix q' everything \<and> fits (rgLimits (New l)) q' \<longrightarrow> length q' \<le> length q)"
proof -
  have run: "ring_inv r" "rgLimits r = rgLimits (New l)" "live r = newest (rgLimits (New l)) everything"
    using ring_run [of as l] assms(1,3) by auto
  have q: "q = live r" using Snapshot_live [OF run(1), of 0] assms(2) by simp
  have "rgBytes r = dataBytes q" using run(1) q by (simp add: ring_inv_def ring_shape_def)
  moreover have "fits (rgLimits (New l)) q" using ring_inv_fits [OF run(1)] run(2) q by simp
  ultimately show ?thesis using run(3) q newest_suffix newest_longest by auto
qed

definition samplePacket :: "nat \<Rightarrow> Packet" where
  "samplePacket n = \<lparr>pkBuffer = replicate n 7, pkLength = 0, pkSerialNumber = int n, pkTimestamp = 5, pkVLAN = - 1,
     pkFabricTrace = zeroTrace\<rparr>"

definition sampleArrivals :: "arrival list" where
  "sampleArrivals = map (\<lambda>n. (0, ''rx'', Some (samplePacket n))) [3, 0, 2, 4]"

theorem ring_retains_witness:
  "map frSerial (Snapshot 0 (run_ops ringStep sampleArrivals (New \<lparr>lmFrames = 2, lmBytes = 6\<rparr>))) = [2, 4] \<and>
   suffix (Snapshot 0 (run_ops ringStep sampleArrivals (New \<lparr>lmFrames = 2, lmBytes = 6\<rparr>)))
     (concat (map accepted sampleArrivals))"
proof -
  have "map frSerial (Snapshot 0 (run_ops ringStep sampleArrivals (New \<lparr>lmFrames = 2, lmBytes = 6\<rparr>))) = [2, 4]"
    by code_simp
  with ring_retains [OF refl refl refl, of sampleArrivals "\<lparr>lmFrames = 2, lmBytes = 6\<rparr>"] show ?thesis by blast
qed

lemma slot_surj:
  assumes "rgHead r < length (rgFrames r)" "j < length (rgFrames r)"
  shows "\<exists>i < length (rgFrames r). slot r i = j"
proof -
  have "inj_on (slot r) {..< length (rgFrames r)}" by (auto intro!: inj_onI simp: slot_inj [OF assms(1)])
  moreover have "slot r ` {..< length (rgFrames r)} \<subseteq> {..< length (rgFrames r)}" by (auto simp: slot_less [OF assms(1)])
  ultimately have "slot r ` {..< length (rgFrames r)} = {..< length (rgFrames r)}" by (simp add: endo_inj_surj)
  then show ?thesis using assms(2) by (metis imageE lessThan_iff)
qed

text \<open>A snapshot of the newest n frames is the tail of the full snapshot, n not positive meaning all of
  it; and the buffer pins nothing else: every slot holds a retained frame or the zero frame.\<close>

theorem ring_snapshot:
  "Snapshot n (run_ops ringStep as (New l)) =
     (let q = Snapshot 0 (run_ops ringStep as (New l)) in if 0 < n then drop (length q - nat n) q else q) \<and>
   set (rgFrames (run_ops ringStep as (New l))) \<subseteq> insert zeroFrame (set (Snapshot 0 (run_ops ringStep as (New l))))"
proof -
  let ?r = "run_ops ringStep as (New l)"
  have inv: "ring_inv ?r" using ring_run [of as l] by simp
  have s0: "Snapshot 0 ?r = live ?r" using Snapshot_live [OF inv, of 0] by simp
  have h: "rgHead ?r < length (rgFrames ?r)"
    and clear: "\<And>i. rgCount ?r \<le> i \<Longrightarrow> i < length (rgFrames ?r) \<Longrightarrow> rgFrames ?r ! slot ?r i = zeroFrame"
    using inv by (auto simp: ring_inv_def ring_shape_def)
  have "rgFrames ?r ! j \<in> insert zeroFrame (set (live ?r))" if j: "j < length (rgFrames ?r)" for j
  proof -
    obtain i where i: "i < length (rgFrames ?r)" "slot ?r i = j" using slot_surj [OF h j] by blast
    show ?thesis
    proof (cases "i < rgCount ?r")
      case True
      then show ?thesis using i(2) by (auto simp: live_def)
    next
      case False
      then show ?thesis using clear [of i] i by simp
    qed
  qed
  then have "set (rgFrames ?r) \<subseteq> insert zeroFrame (set (live ?r))" by (metis in_set_conv_nth subsetI)
  then show ?thesis using Snapshot_live [OF inv, of n] s0 by (simp add: Let_def)
qed

end
