(* ===== verification/Rate_Limiter.thy ===== *)
theory Rate_Limiter
  imports Prelude "HOL-Library.Multiset"
begin

text \<open>
  Per-client rate limiting (\<open>internal/api/ratelimit/limiter.go\<close>): the table of limiters with its capacity, eviction
  and stale sweep, and the middlewares that consult it.

  A limiter is a \<open>*rate.Limiter\<close> of a third-party package: the table holds pointers, so the model keeps the limiters in
  a heap and the table holds addresses; the constructor and \<open>Allow\<close> are the parameters \<open>mk\<close> and \<open>allow\<close>
  (\<open>allow\<close> takes the time of the call and returns the verdict and the limiter's next state).  \<open>time.Now\<close> readings and the
  order in which \<open>range\<close> visits the table are arguments.  Logging is left out.
\<close>

section \<open>State\<close>

record rateLimiterEntry =
  reLimiter :: nat
  reLastSeen :: int

record ('r, 'l) RateLimiter =
  rlLimiters :: "(string, rateLimiterEntry) gomap"
  rlRate :: 'r
  rlBurst :: int
  rlHeap :: "'l list"

type_synonym visit = "(string \<times> rateLimiterEntry) list"

definition MaxRateLimiterCount :: nat where "MaxRateLimiterCount = 10000"

definition NewRateLimiter :: "'r \<Rightarrow> int \<Rightarrow> ('r, 'l) RateLimiter" where
  "NewRateLimiter r b = \<lparr>rlLimiters = [], rlRate = r, rlBurst = b, rlHeap = []\<rparr>"

section \<open>The table\<close>

definition oldestOf :: "int \<Rightarrow> visit \<Rightarrow> string \<times> int" where
  "oldestOf now order =
     foldl (\<lambda>(oldestIP, oldestTime) (checkIP, checkEntry).
        if reLastSeen checkEntry < oldestTime then (checkIP, reLastSeen checkEntry) else (oldestIP, oldestTime))
       ([], now) order"

definition evictOldestLimiter :: "int \<Rightarrow> visit \<Rightarrow> ('r, 'l) RateLimiter \<Rightarrow> ('r, 'l) RateLimiter" where
  "evictOldestLimiter now order rl =
     (let oldestIP = fst (oldestOf now order) in
      if oldestIP = [] then rl else rl\<lparr>rlLimiters := gm_del oldestIP (rlLimiters rl)\<rparr>)"

text \<open>\<open>t1\<close> is the reading of the clock in the eviction, \<open>t2\<close> the one stored in the entry.\<close>

definition GetLimiter ::
  "('r \<Rightarrow> int \<Rightarrow> 'l) \<Rightarrow> int \<Rightarrow> int \<Rightarrow> visit \<Rightarrow> string \<Rightarrow> ('r, 'l) RateLimiter \<Rightarrow> nat \<times> ('r, 'l) RateLimiter" where
  "GetLimiter mk t1 t2 order ip rl =
     (case map_of (rlLimiters rl) ip of
        Some entry \<Rightarrow>
          (reLimiter entry, rl\<lparr>rlLimiters := gm_put ip (entry\<lparr>reLastSeen := t2\<rparr>) (rlLimiters rl)\<rparr>)
      | None \<Rightarrow>
          let rl1 = (if MaxRateLimiterCount \<le> length (rlLimiters rl) then evictOldestLimiter t1 order rl else rl);
              addr = length (rlHeap rl1);
              entry = \<lparr>reLimiter = addr, reLastSeen = t2\<rparr>
          in (addr, rl1\<lparr>rlHeap := rlHeap rl1 @ [mk (rlRate rl1) (rlBurst rl1)],
                        rlLimiters := gm_put ip entry (rlLimiters rl1)\<rparr>))"

definition staleThreshold :: int where "staleThreshold = 3600 * 10 ^ 9"

definition sinceSeen :: "int \<Rightarrow> rateLimiterEntry \<Rightarrow> int" where
  "sinceSeen now entry = max (- (2 ^ 63)) (min (2 ^ 63 - 1) (now - reLastSeen entry))"

definition CleanupStale :: "int \<Rightarrow> ('r, 'l) RateLimiter \<Rightarrow> ('r, 'l) RateLimiter" where
  "CleanupStale now rl = rl\<lparr>rlLimiters := filter (\<lambda>e. \<not> staleThreshold < sinceSeen now (snd e)) (rlLimiters rl)\<rparr>"

section \<open>The middlewares\<close>

datatype reply = Next | WriteErr nat string string

definition StatusTooManyRequests :: nat where "StatusTooManyRequests = 429"

record call_env =
  ceEvictNow :: int
  ceSeenNow :: int
  ceOrder :: visit
  ceAllowNow :: int

definition allowAt :: "(int \<Rightarrow> 'l \<Rightarrow> bool \<times> 'l) \<Rightarrow> int \<Rightarrow> nat \<Rightarrow> ('r, 'l) RateLimiter \<Rightarrow> bool \<times> ('r, 'l) RateLimiter" where
  "allowAt allow t addr rl =
     (let (ok, l) = allow t (rlHeap rl ! addr) in (ok, rl\<lparr>rlHeap := (rlHeap rl)[addr := l]\<rparr>))"

definition admit ::
  "('r \<Rightarrow> int \<Rightarrow> 'l) \<Rightarrow> (int \<Rightarrow> 'l \<Rightarrow> bool \<times> 'l) \<Rightarrow> call_env \<Rightarrow> string \<Rightarrow> ('r, 'l) RateLimiter \<Rightarrow> bool \<times> ('r, 'l) RateLimiter" where
  "admit mk allow env ip rl =
     (let (addr, rl1) = GetLimiter mk (ceEvictNow env) (ceSeenNow env) (ceOrder env) ip rl
      in allowAt allow (ceAllowNow env) addr rl1)"

definition Upload ::
  "('r \<Rightarrow> int \<Rightarrow> 'l) \<Rightarrow> (int \<Rightarrow> 'l \<Rightarrow> bool \<times> 'l) \<Rightarrow> ('q \<Rightarrow> string) \<Rightarrow> call_env \<Rightarrow> 'q \<Rightarrow> ('r, 'l) RateLimiter \<Rightarrow>
   reply \<times> ('r, 'l) RateLimiter" where
  "Upload mk allow clientIP env r rl =
     (let (ok, rl1) = admit mk allow env (clientIP r) rl in
      if \<not> ok then (WriteErr StatusTooManyRequests ''upload_rate_limit_exceeded''
        ''Upload rate limit exceeded. Please wait before uploading again.'', rl1)
      else (Next, rl1))"

definition Write ::
  "('r \<Rightarrow> int \<Rightarrow> 'l) \<Rightarrow> (int \<Rightarrow> 'l \<Rightarrow> bool \<times> 'l) \<Rightarrow> ('q \<Rightarrow> string) \<Rightarrow> ('q \<Rightarrow> string) \<Rightarrow> call_env \<Rightarrow> 'q \<Rightarrow>
   ('r, 'l) RateLimiter \<Rightarrow> reply \<times> ('r, 'l) RateLimiter" where
  "Write mk allow method clientIP env r rl =
     (if method r \<in> set [''POST'', ''PUT'', ''PATCH'', ''DELETE''] then
        let (ok, rl1) = admit mk allow env (clientIP r) rl in
        if \<not> ok then (WriteErr StatusTooManyRequests ''write_rate_limit_exceeded''
          ''Write rate limit exceeded. Please wait before making more changes.'', rl1)
        else (Next, rl1)
      else (Next, rl))"

definition Walk ::
  "('r \<Rightarrow> int \<Rightarrow> 'l) \<Rightarrow> (int \<Rightarrow> 'l \<Rightarrow> bool \<times> 'l) \<Rightarrow> ('q \<Rightarrow> string) \<Rightarrow> call_env \<Rightarrow> 'q \<Rightarrow> ('r, 'l) RateLimiter \<Rightarrow>
   reply \<times> ('r, 'l) RateLimiter" where
  "Walk mk allow clientIP env r rl =
     (let (ok, rl1) = admit mk allow env (clientIP r) rl in
      if \<not> ok then (WriteErr StatusTooManyRequests ''walk_rate_limit_exceeded''
        ''Walk file operation rate limit exceeded. Please wait before trying again.'', rl1)
      else (Next, rl1))"

definition File ::
  "('r \<Rightarrow> int \<Rightarrow> 'l) \<Rightarrow> (int \<Rightarrow> 'l \<Rightarrow> bool \<times> 'l) \<Rightarrow> ('q \<Rightarrow> string) \<Rightarrow> call_env \<Rightarrow> 'q \<Rightarrow> ('r, 'l) RateLimiter \<Rightarrow>
   reply \<times> ('r, 'l) RateLimiter" where
  "File mk allow clientIP env r rl =
     (let (ok, rl1) = admit mk allow env (clientIP r) rl in
      if \<not> ok then (WriteErr StatusTooManyRequests ''file_rate_limit_exceeded''
        ''File listing rate limit exceeded. Please wait before trying again.'', rl1)
      else (Next, rl1))"

section \<open>Eviction\<close>

lemma oldestOf_gen:
  assumes "foldl (\<lambda>(oldestIP, oldestTime) (checkIP, checkEntry).
        if reLastSeen checkEntry < oldestTime then (checkIP, reLastSeen checkEntry) else (oldestIP, oldestTime))
       (ip0, t0) order = (ip, t)"
  shows "t \<le> t0 \<and> (\<forall>e \<in> snd ` set order. t \<le> reLastSeen e) \<and>
    (ip = ip0 \<and> t = t0 \<and> (\<forall>e \<in> snd ` set order. t0 \<le> reLastSeen e) \<or>
     (\<exists>e. (ip, e) \<in> set order \<and> reLastSeen e = t \<and> t < t0))"
  using assms
proof (induction order arbitrary: ip0 t0)
  case Nil
  then show ?case by simp
next
  case (Cons x order)
  obtain i e where x: "x = (i, e)" by (cases x)
  show ?case
  proof (cases "reLastSeen e < t0")
    case True
    with Cons.prems x have "foldl (\<lambda>(oldestIP, oldestTime) (checkIP, checkEntry).
        if reLastSeen checkEntry < oldestTime then (checkIP, reLastSeen checkEntry) else (oldestIP, oldestTime))
       (i, reLastSeen e) order = (ip, t)" by simp
    from Cons.IH [OF this] True x show ?thesis by fastforce
  next
    case False
    with Cons.prems x have "foldl (\<lambda>(oldestIP, oldestTime) (checkIP, checkEntry).
        if reLastSeen checkEntry < oldestTime then (checkIP, reLastSeen checkEntry) else (oldestIP, oldestTime))
       (ip0, t0) order = (ip, t)" by simp
    from Cons.IH [OF this] False x show ?thesis by fastforce
  qed
qed

text \<open>An entry seen before the clock reading makes the search return one of the least recently seen entries.\<close>

lemma oldestOf_least:
  assumes "(i, e0) \<in> set order" "reLastSeen e0 < now"
  shows "\<exists>ip e. fst (oldestOf now order) = ip \<and> (ip, e) \<in> set order \<and> (\<forall>x \<in> snd ` set order. reLastSeen e \<le> reLastSeen x)"
proof -
  obtain ip t where "oldestOf now order = (ip, t)" by (cases "oldestOf now order")
  with oldestOf_gen [of "[]" now order ip t] assms show ?thesis
    unfolding oldestOf_def by (metis fst_conv image_eqI linorder_not_less snd_conv)
qed

section \<open>The table as a machine\<close>

datatype rl_op = Request string call_env | Sweep int

primrec rlStep :: "('r \<Rightarrow> int \<Rightarrow> 'l) \<Rightarrow> (int \<Rightarrow> 'l \<Rightarrow> bool \<times> 'l) \<Rightarrow> rl_op \<Rightarrow> ('r, 'l) RateLimiter \<Rightarrow> ('r, 'l) RateLimiter" where
  "rlStep mk allow (Request ip env) rl = snd (admit mk allow env ip rl)"
| "rlStep mk allow (Sweep now) rl = CleanupStale now rl"

text \<open>
  A request is permitted when its client address is not empty, the clock has moved on since every entry was last seen,
  and the visiting order lists the table.
\<close>

definition visits :: "call_env \<Rightarrow> ('r, 'l) RateLimiter \<Rightarrow> bool" where
  "visits env rl \<longleftrightarrow> mset (ceOrder env) = mset (rlLimiters rl) \<and>
     list_all (\<lambda>e. reLastSeen (snd e) < ceEvictNow env) (rlLimiters rl)"

primrec rlOk :: "rl_op \<Rightarrow> ('r, 'l) RateLimiter \<Rightarrow> bool" where
  "rlOk (Request ip env) rl \<longleftrightarrow> ip \<noteq> [] \<and> visits env rl"
| "rlOk (Sweep now) rl \<longleftrightarrow> True"

definition table_inv :: "('r, 'l) RateLimiter \<Rightarrow> bool" where
  "table_inv rl \<longleftrightarrow>
     gm_wf (rlLimiters rl) \<and> map_of (rlLimiters rl) [] = None \<and>
     (\<forall>i e. map_of (rlLimiters rl) i = Some e \<longrightarrow> reLimiter e < length (rlHeap rl)) \<and>
     (\<forall>i j e f. map_of (rlLimiters rl) i = Some e \<longrightarrow> map_of (rlLimiters rl) j = Some f \<longrightarrow>
        reLimiter e = reLimiter f \<longrightarrow> i = j)"

definition rl_inv :: "('r, 'l) RateLimiter \<Rightarrow> bool" where
  "rl_inv rl \<longleftrightarrow> table_inv rl \<and> length (rlLimiters rl) \<le> MaxRateLimiterCount"

lemma table_inv_shrinks:
  assumes "table_inv rl" "gm_wf m" "\<And>i e. map_of m i = Some e \<Longrightarrow> map_of (rlLimiters rl) i = Some e"
  shows "table_inv (rl\<lparr>rlLimiters := m\<rparr>)"
proof -
  have "map_of m [] = None" using assms(1) assms(3) [of "[]"] by (cases "map_of m []") (auto simp: table_inv_def)
  with assms show ?thesis unfolding table_inv_def by simp blast
qed

lemma evict_spec:
  assumes "rl_inv rl" "visits env rl" "rlLimiters rl \<noteq> []"
  shows "\<exists>old e. map_of (rlLimiters rl) old = Some e \<and>
    (\<forall>x \<in> snd ` set (rlLimiters rl). reLastSeen e \<le> reLastSeen x) \<and>
    evictOldestLimiter (ceEvictNow env) (ceOrder env) rl = rl\<lparr>rlLimiters := gm_del old (rlLimiters rl)\<rparr>"
proof -
  have set_order: "set (ceOrder env) = set (rlLimiters rl)"
    and before: "\<And>x. x \<in> set (rlLimiters rl) \<Longrightarrow> reLastSeen (snd x) < ceEvictNow env"
    using assms(2) by (auto simp: visits_def list_all_iff dest: mset_eq_setD)
  obtain i e0 where "(i, e0) \<in> set (rlLimiters rl)" using assms(3) by (metis list.set_intros(1) neq_Nil_conv surj_pair)
  with oldestOf_least [of i e0 "ceOrder env" "ceEvictNow env"] set_order before
  obtain ip e where ip: "fst (oldestOf (ceEvictNow env) (ceOrder env)) = ip" "(ip, e) \<in> set (rlLimiters rl)"
    "\<forall>x \<in> snd ` set (rlLimiters rl). reLastSeen e \<le> reLastSeen x" by fastforce
  have m: "map_of (rlLimiters rl) ip = Some e"
    using ip(2) assms(1) by (simp add: rl_inv_def table_inv_def gm_wf_map_of_mem)
  then have "ip \<noteq> []" using assms(1) by (auto simp: rl_inv_def table_inv_def)
  with ip m show ?thesis by (auto simp: evictOldestLimiter_def)
qed

lemma makeRoom_inv:
  assumes "rl_inv rl" "visits env rl"
    and "rl1 = (if MaxRateLimiterCount \<le> length (rlLimiters rl)
      then evictOldestLimiter (ceEvictNow env) (ceOrder env) rl else rl)"
  shows "table_inv rl1 \<and> length (rlLimiters rl1) < MaxRateLimiterCount \<and> rlHeap rl1 = rlHeap rl \<and> rlRate rl1 = rlRate rl \<and>
    rlBurst rl1 = rlBurst rl \<and> (\<forall>i e. map_of (rlLimiters rl1) i = Some e \<longrightarrow> map_of (rlLimiters rl) i = Some e)"
proof (cases "MaxRateLimiterCount \<le> length (rlLimiters rl)")
  case True
  then have "rlLimiters rl \<noteq> []" by (auto simp: MaxRateLimiterCount_def)
  from evict_spec [OF assms(1,2) this] obtain old e where o: "map_of (rlLimiters rl) old = Some e"
    "rl1 = rl\<lparr>rlLimiters := gm_del old (rlLimiters rl)\<rparr>" using True assms(3) by auto
  have wf: "gm_wf (rlLimiters rl)" using assms(1) by (simp add: rl_inv_def table_inv_def)
  have sub: "map_of (gm_del old (rlLimiters rl)) i = Some x \<Longrightarrow> map_of (rlLimiters rl) i = Some x" for i x
    by (auto simp: gm_simps split: if_splits)
  have "Suc (length (rlLimiters rl1)) \<le> MaxRateLimiterCount"
    using size_gm_del [OF wf o(1)] assms(1) o(2) by (simp add: rl_inv_def)
  then show ?thesis using o(2) sub table_inv_shrinks [OF _ gm_wf_del [OF wf] sub] assms(1) by (simp add: rl_inv_def)
next
  case False
  then show ?thesis using assms by (simp add: rl_inv_def)
qed

lemma GetLimiter_inv:
  assumes "rl_inv rl" "visits env rl" "ip \<noteq> []"
    and "GetLimiter mk (ceEvictNow env) t (ceOrder env) ip rl = (addr, rl')"
  shows "rl_inv rl' \<and> (\<exists>e. map_of (rlLimiters rl') ip = Some e \<and> reLimiter e = addr) \<and>
    take (length (rlHeap rl)) (rlHeap rl') = rlHeap rl \<and>
    (\<forall>j e. j \<noteq> ip \<longrightarrow> map_of (rlLimiters rl') j = Some e \<longrightarrow> map_of (rlLimiters rl) j = Some e) \<and>
    rlHeap rl' ! addr = (case map_of (rlLimiters rl) ip of
      Some e \<Rightarrow> rlHeap rl ! reLimiter e | None \<Rightarrow> mk (rlRate rl) (rlBurst rl))"
proof (cases "map_of (rlLimiters rl) ip")
  case (Some entry)
  have wf: "gm_wf (rlLimiters rl)" using assms(1) by (simp add: rl_inv_def table_inv_def)
  have "length (gm_put ip (entry\<lparr>reLastSeen := t\<rparr>) (rlLimiters rl)) = length (rlLimiters rl)"
    using size_gm_put [OF wf] Some by (simp add: gm_has_def)
  with Some assms(1,4) show ?thesis
    by (auto simp: GetLimiter_def rl_inv_def table_inv_def gm_simps gm_wf_put split: if_splits)
next
  case None
  define rl1 where "rl1 = (if MaxRateLimiterCount \<le> length (rlLimiters rl)
    then evictOldestLimiter (ceEvictNow env) (ceOrder env) rl else rl)"
  note room = makeRoom_inv [OF assms(1,2) rl1_def]
  have wf: "gm_wf (rlLimiters rl1)" using room by (simp add: table_inv_def)
  have rl': "addr = length (rlHeap rl)" "rl' = rl1\<lparr>rlHeap := rlHeap rl @ [mk (rlRate rl) (rlBurst rl)],
      rlLimiters := gm_put ip \<lparr>reLimiter = length (rlHeap rl), reLastSeen = t\<rparr> (rlLimiters rl1)\<rparr>"
    using assms(4) None room by (auto simp: GetLimiter_def rl1_def [symmetric] Let_def)
  have sub: "map_of (rlLimiters rl) j = Some e" if "map_of (rlLimiters rl1) j = Some e" for j e
    using room that by blast
  have "length (gm_put ip \<lparr>reLimiter = length (rlHeap rl), reLastSeen = t\<rparr> (rlLimiters rl1)) \<le> MaxRateLimiterCount"
    using size_gm_put [OF wf, of ip] room by auto
  moreover have "table_inv rl'"
    using room assms(3) rl' wf by (fastforce simp: table_inv_def gm_simps gm_wf_put)
  ultimately show ?thesis using rl' sub None by (auto simp: rl_inv_def gm_simps)
qed

lemma rl_inv_heap [simp]: "rl_inv (rl\<lparr>rlHeap := (rlHeap rl)[a := l]\<rparr>) = rl_inv rl"
  by (simp add: rl_inv_def table_inv_def)

lemma allowAt_inv: "rl_inv (snd (allowAt allow t a rl)) = rl_inv rl"
  by (simp add: allowAt_def Let_def split: prod.splits)

lemma CleanupStale_inv: "rl_inv rl \<Longrightarrow> rl_inv (CleanupStale now rl)"
proof -
  assume inv: "rl_inv rl"
  let ?m = "filter (\<lambda>e. \<not> staleThreshold < sinceSeen now (snd e)) (rlLimiters rl)"
  have wf: "gm_wf (rlLimiters rl)" "gm_wf ?m" using inv by (auto simp: rl_inv_def table_inv_def gm_wf_filter)
  then have "map_of ?m i = Some e \<Longrightarrow> map_of (rlLimiters rl) i = Some e" for i e
    by (simp add: gm_wf_map_of_mem)
  with table_inv_shrinks [OF _ wf(2)] inv show ?thesis
    by (auto simp: CleanupStale_def rl_inv_def intro: le_trans [OF length_filter_le])
qed

lemma rlStep_inv: "rl_inv rl \<Longrightarrow> rlOk x rl \<Longrightarrow> rl_inv (rlStep mk allow x rl)"
  by (cases x) (auto simp: admit_def Let_def allowAt_inv CleanupStale_inv dest: GetLimiter_inv split: prod.splits)

interpretation rate: guarded_machine "rlStep mk allow" rlOk rl_inv for mk allow
  by unfold_locales (rule rlStep_inv)

lemma NewRateLimiter_inv: "rl_inv (NewRateLimiter r b)"
  by (simp add: NewRateLimiter_def rl_inv_def table_inv_def)

section \<open>Bound, eviction and isolation\<close>

text \<open>As long as client addresses are not empty and the clock moves on between calls, a new table never tracks
  more than MaxRateLimiterCount clients, after any requests and sweeps, for any limiter implementation.\<close>

theorem limiter_bounded:
  assumes "run_ok (rlStep mk allow) rlOk ops (NewRateLimiter r b)"
  shows "length (rlLimiters (run_ops (rlStep mk allow) ops (NewRateLimiter r b))) \<le> MaxRateLimiterCount"
  using rate.run_inv [OF NewRateLimiter_inv assms] by (simp add: rl_inv_def)

text \<open>A bucket of tokens that is never refilled, as a concrete limiter.\<close>

definition bucketNew :: "unit \<Rightarrow> int \<Rightarrow> int" where "bucketNew r b = b"

definition bucketAllow :: "int \<Rightarrow> int \<Rightarrow> bool \<times> int" where "bucketAllow t l = (0 < l, l - 1)"

definition sampleOps :: "rl_op list" where
  "sampleOps =
     [Request ''10.0.0.1'' \<lparr>ceEvictNow = 1, ceSeenNow = 1, ceOrder = [], ceAllowNow = 1\<rparr>,
      Request ''10.0.0.2'' \<lparr>ceEvictNow = 2, ceSeenNow = 2, ceOrder = [(''10.0.0.1'', \<lparr>reLimiter = 0, reLastSeen = 1\<rparr>)],
        ceAllowNow = 2\<rparr>, Sweep 5]"

lemma sampleOps_ok: "run_ok (rlStep bucketNew bucketAllow) rlOk sampleOps (NewRateLimiter () 1)"
  by (simp add: sampleOps_def visits_def admit_def GetLimiter_def allowAt_def NewRateLimiter_def bucketAllow_def
    bucketNew_def MaxRateLimiterCount_def)

theorem limiter_bounded_witness:
  "length (rlLimiters (run_ops (rlStep bucketNew bucketAllow) sampleOps (NewRateLimiter () 1))) \<le> MaxRateLimiterCount"
  by (rule limiter_bounded [OF sampleOps_ok])

text \<open>When the table is full and a new client arrives, exactly one client is dropped, in whatever order the map is
  visited: one of those seen least recently, not the one that was tracked first; everyone else keeps their
  entry, and the newcomer gets a fresh limiter.\<close>

theorem evicts_least_recent:
  assumes "rl_inv rl" "visits env rl" "length (rlLimiters rl) = MaxRateLimiterCount" "map_of (rlLimiters rl) ip = None"
    and "GetLimiter mk (ceEvictNow env) t (ceOrder env) ip rl = (addr, rl')"
  shows "addr = length (rlHeap rl) \<and> (\<exists>old e. map_of (rlLimiters rl) old = Some e \<and>
      (\<forall>x \<in> snd ` set (rlLimiters rl). reLastSeen e \<le> reLastSeen x) \<and>
      map_of (rlLimiters rl') = (map_of (rlLimiters rl))(old := None, ip \<mapsto> \<lparr>reLimiter = addr, reLastSeen = t\<rparr>))"
proof -
  have "rlLimiters rl \<noteq> []" using assms(3) by (auto simp: MaxRateLimiterCount_def)
  from evict_spec [OF assms(1,2) this] obtain old e where o: "map_of (rlLimiters rl) old = Some e"
    "\<forall>x \<in> snd ` set (rlLimiters rl). reLastSeen e \<le> reLastSeen x"
    "evictOldestLimiter (ceEvictNow env) (ceOrder env) rl = rl\<lparr>rlLimiters := gm_del old (rlLimiters rl)\<rparr>" by blast
  then have "addr = length (rlHeap rl)" "map_of (rlLimiters rl') =
      (map_of (rlLimiters rl))(old := None, ip \<mapsto> \<lparr>reLimiter = addr, reLastSeen = t\<rparr>)"
    using assms(3-5) by (auto simp: GetLimiter_def Let_def gm_simps)
  with o(1,2) show ?thesis by blast
qed

text \<open>A full table: client \<open>aa...a\<close> of length n was last seen at time n.\<close>

definition fullTable :: "(unit, int) RateLimiter" where
  "fullTable = \<lparr>rlLimiters = map (\<lambda>n. (replicate (Suc n) (CHR ''a''), \<lparr>reLimiter = n, reLastSeen = int n\<rparr>)) [0 ..< MaxRateLimiterCount],
     rlRate = (), rlBurst = 1, rlHeap = replicate MaxRateLimiterCount 1\<rparr>"

definition fullEnv :: call_env where
  "fullEnv = \<lparr>ceEvictNow = 10000, ceSeenNow = 10000, ceOrder = rlLimiters fullTable, ceAllowNow = 10000\<rparr>"

lemma replicate_less: "i < j \<Longrightarrow> replicate i (c::char) < replicate j c"
proof (induction i arbitrary: j)
  case 0
  then show ?case by (cases j) auto
next
  case (Suc i)
  then show ?case by (cases j) auto
qed

lemma fullTable_inv: "rl_inv fullTable"
proof -
  have wf: "gm_wf (rlLimiters fullTable)"
    by (auto simp: gm_wf_def fullTable_def sorted_wrt_map comp_def simp del: replicate_Suc
      intro!: sorted_wrt_mono_rel [OF _ sorted_wrt_upt] replicate_less)
  have mem: "map_of (rlLimiters fullTable) i = Some e \<longleftrightarrow>
      (\<exists>n < MaxRateLimiterCount. i = replicate (Suc n) (CHR ''a'') \<and> e = \<lparr>reLimiter = n, reLastSeen = int n\<rparr>)" for i e
    unfolding gm_wf_map_of_mem [OF wf] by (auto simp: fullTable_def simp del: replicate_Suc)
  have "map_of (rlLimiters fullTable) [] = None" using mem [of "[]"] by (cases "map_of (rlLimiters fullTable) []") auto
  with wf mem show ?thesis
    by (auto simp: rl_inv_def table_inv_def simp del: replicate_Suc) (auto simp: fullTable_def)
qed

lemma fullTable_visits: "visits fullEnv fullTable"
  by (auto simp: visits_def fullEnv_def fullTable_def list_all_iff MaxRateLimiterCount_def)

lemma fullTable_absent: "map_of (rlLimiters fullTable) ''b'' = None"
  by (auto simp: map_of_eq_None_iff fullTable_def)

theorem evicts_least_recent_witness:
  "\<exists>old e. map_of (rlLimiters fullTable) old = Some e \<and> (\<forall>x \<in> snd ` set (rlLimiters fullTable). reLastSeen e \<le> reLastSeen x) \<and>
     map_of (rlLimiters (snd (GetLimiter bucketNew 10000 10001 (ceOrder fullEnv) ''b'' fullTable))) old = None"
proof -
  let ?g = "GetLimiter bucketNew (ceEvictNow fullEnv) 10001 (ceOrder fullEnv) ''b'' fullTable"
  have len: "length (rlLimiters fullTable) = MaxRateLimiterCount" by (simp add: fullTable_def)
  from evicts_least_recent [OF fullTable_inv fullTable_visits len fullTable_absent, of bucketNew 10001 "fst ?g" "snd ?g"]
  obtain old e where o: "map_of (rlLimiters fullTable) old = Some e" "\<forall>x \<in> snd ` set (rlLimiters fullTable). reLastSeen e \<le> reLastSeen x"
    "map_of (rlLimiters (snd ?g)) = (map_of (rlLimiters fullTable))(old := None, ''b'' \<mapsto> \<lparr>reLimiter = fst ?g, reLastSeen = 10001\<rparr>)"
    by auto
  have "old \<noteq> ''b''" using o(1) fullTable_absent by auto
  with o(3) have "map_of (rlLimiters (snd ?g)) old = None" by simp
  with o(1,2) show ?thesis by (auto simp: fullEnv_def)
qed

text \<open>On any table that permitted calls can reach, a request is answered by the client's own
  budget: it passes exactly when the client's limiter (a fresh one for a new client) allows it, otherwise it
  gets status 429; and it leaves the entry and the limiter of every other tracked client as they were.\<close>

theorem limiter_isolation:
  assumes "run_ok (rlStep mk allow) rlOk ops (NewRateLimiter r b)" "rl = run_ops (rlStep mk allow) ops (NewRateLimiter r b)"
    and "rlOk (Request (clientIP q) env) rl" "Upload mk allow clientIP env q rl = (answer, rl')"
  shows "(answer = Next \<longleftrightarrow> fst (allow (ceAllowNow env) (case map_of (rlLimiters rl) (clientIP q) of
        Some e \<Rightarrow> rlHeap rl ! reLimiter e | None \<Rightarrow> mk (rlRate rl) (rlBurst rl)))) \<and>
    (answer \<noteq> Next \<longrightarrow> (\<exists>code msg. answer = WriteErr 429 code msg)) \<and>
    (\<forall>j e. j \<noteq> clientIP q \<and> map_of (rlLimiters rl') j = Some e \<longrightarrow>
       map_of (rlLimiters rl) j = Some e \<and> rlHeap rl' ! reLimiter e = rlHeap rl ! reLimiter e)"
proof -
  let ?ip = "clientIP q"
  have inv: "rl_inv rl" using rate.run_inv [OF NewRateLimiter_inv assms(1)] assms(2) by simp
  have ok: "visits env rl" "?ip \<noteq> []" using assms(3) by auto
  obtain addr rl1 where g: "GetLimiter mk (ceEvictNow env) (ceSeenNow env) (ceOrder env) ?ip rl = (addr, rl1)" by fastforce
  note gi = GetLimiter_inv [OF inv ok g]
  obtain v l where al: "allow (ceAllowNow env) (rlHeap rl1 ! addr) = (v, l)" by fastforce
  have res: "rl' = rl1\<lparr>rlHeap := (rlHeap rl1)[addr := l]\<rparr>" "answer = Next \<longleftrightarrow> v"
    "answer \<noteq> Next \<longrightarrow> (\<exists>code msg. answer = WriteErr 429 code msg)"
    using assms(4) g al by (auto simp: Upload_def admit_def allowAt_def StatusTooManyRequests_def split: if_splits)
  have "map_of (rlLimiters rl) j = Some e \<and> rlHeap rl' ! reLimiter e = rlHeap rl ! reLimiter e"
    if j: "j \<noteq> ?ip" "map_of (rlLimiters rl') j = Some e" for j e
  proof -
    have e1: "map_of (rlLimiters rl1) j = Some e" using j(2) res(1) by simp
    then have e0: "map_of (rlLimiters rl) j = Some e" using gi j(1) by blast
    then have lt: "reLimiter e < length (rlHeap rl)" using inv by (simp add: rl_inv_def table_inv_def)
    obtain e' where "map_of (rlLimiters rl1) ?ip = Some e'" "reLimiter e' = addr" using gi by blast
    then have "reLimiter e \<noteq> addr" using gi e1 j(1) by (metis rl_inv_def table_inv_def)
    then have "rlHeap rl' ! reLimiter e = take (length (rlHeap rl)) (rlHeap rl1) ! reLimiter e" using res(1) lt by simp
    then show ?thesis using gi e0 by simp
  qed
  with res(2,3) al gi show ?thesis by auto
qed

theorem limiter_isolation_witness:
  "fst (Upload bucketNew bucketAllow (\<lambda>q. q) \<lparr>ceEvictNow = 9, ceSeenNow = 9,
      ceOrder = rlLimiters (run_ops (rlStep bucketNew bucketAllow) sampleOps (NewRateLimiter () 1)), ceAllowNow = 9\<rparr> ''10.0.0.1''
      (run_ops (rlStep bucketNew bucketAllow) sampleOps (NewRateLimiter () 1))) \<noteq> Next"
proof -
  let ?rl = "run_ops (rlStep bucketNew bucketAllow) sampleOps (NewRateLimiter () 1)"
  let ?env = "\<lparr>ceEvictNow = 9, ceSeenNow = 9, ceOrder = rlLimiters ?rl, ceAllowNow = 9\<rparr>"
  have rl: "map_of (rlLimiters ?rl) ''10.0.0.1'' = Some \<lparr>reLimiter = 0, reLastSeen = 1\<rparr>" "rlHeap ?rl ! 0 = 0"
    "list_all (\<lambda>e. reLastSeen (snd e) < 9) (rlLimiters ?rl)" by code_simp+
  then have "rlOk (Request ((\<lambda>q. q) ''10.0.0.1'') ?env) ?rl" by (simp add: visits_def)
  from limiter_isolation [where clientIP = "\<lambda>q. q" and q = "''10.0.0.1''", OF sampleOps_ok refl this, of "fst (Upload bucketNew bucketAllow (\<lambda>q. q) ?env ''10.0.0.1'' ?rl)"
      "snd (Upload bucketNew bucketAllow (\<lambda>q. q) ?env ''10.0.0.1'' ?rl)"] rl
  show ?thesis by (simp add: bucketAllow_def)
qed

text \<open>
  The empty string doubles as "no candidate" in the eviction: when the least recently seen entry belongs to a client
  whose address is empty, nothing is evicted and a full table grows past its maximum.
\<close>

lemma evict_blocked:
  assumes "gm_wf (rlLimiters rl)" "length (rlLimiters rl) = MaxRateLimiterCount" "map_of (rlLimiters rl) ip = None"
    and "oldestOf now order = ([], t0)"
  shows "length (rlLimiters (snd (GetLimiter mk now t order ip rl))) = Suc MaxRateLimiterCount"
  using assms size_gm_put [OF assms(1)] by (simp add: GetLimiter_def evictOldestLimiter_def Let_def gm_has_def)

end
