(* ===== verification/Safeconv.thy ===== *)
theory Safeconv
  imports Prelude
begin

text \<open>
  The integer conversions every packet builder uses (\<open>internal/safeconv/safeconv.go\<close>), on machine words.  Go's
  \<open>int\<close> and \<open>int64\<close> are 64-bit words read with their sign, \<open>rune\<close> is a 32-bit one; a conversion from a signed type is
  \<open>scast\<close>, from an unsigned one \<open>ucast\<close>, both dropping the high bits when they narrow.
\<close>

unbundle bit_operations_syntax

definition Uint8 :: "64 word \<Rightarrow> 8 word" where
  "Uint8 v = (if v <s 0 then 0 else if 255 <s v then 255 else scast v)"

definition Uint16 :: "64 word \<Rightarrow> 16 word" where
  "Uint16 v = (if v <s 0 then 0 else if 65535 <s v then 65535 else scast v)"

definition Uint32 :: "64 word \<Rightarrow> 32 word" where
  "Uint32 v = (if v <s 0 then 0 else if 4294967295 <s v then 4294967295 else scast v)"

definition Uint32FromInt64 :: "64 word \<Rightarrow> 32 word" where
  "Uint32FromInt64 v = (if v <s 0 then 0 else if 4294967295 <s v then 4294967295 else scast v)"

definition Uint32FromUint64 :: "64 word \<Rightarrow> 32 word" where
  "Uint32FromUint64 v = (if 4294967295 < v then 4294967295 else ucast v)"

definition Byte :: "64 word \<Rightarrow> 8 word" where
  "Byte v = (if v <s 0 then 0 else if 255 <s v then 255 else scast v)"

definition ByteFromUint16 :: "16 word \<Rightarrow> 8 word" where
  "ByteFromUint16 v = ucast (v AND 255)"

definition ByteFromUint64 :: "64 word \<Rightarrow> 8 word" where
  "ByteFromUint64 v = ucast (v AND 255)"

definition ByteFromUint32 :: "32 word \<Rightarrow> 8 word" where
  "ByteFromUint32 v = ucast (v AND 255)"

definition ByteFromRune :: "32 word \<Rightarrow> 8 word" where
  "ByteFromRune v = (if v <s 0 then 0 else if 255 <s v then 255 else scast v)"

definition Int32 :: "64 word \<Rightarrow> 32 word" where
  "Int32 v = (if 2147483647 <s v then 2147483647 else if v <s - 2147483648 then - 2147483648 else scast v)"

definition Int8FromByte :: "8 word \<Rightarrow> 8 word" where
  "Int8FromByte v = ucast v"

definition ByteFromInt8 :: "8 word \<Rightarrow> 8 word" where
  "ByteFromInt8 v = scast v"

definition DNSRCode :: "64 word \<Rightarrow> 8 word" where
  "DNSRCode v = (if v <s 0 \<or> 15 <s v then 0 else scast v)"

section \<open>Clamping\<close>

text \<open>The nearest value of a range.\<close>

definition clamp :: "int \<Rightarrow> int \<Rightarrow> int \<Rightarrow> int" where
  "clamp lo hi x = max lo (min hi x)"

lemma uint_scast: "uint (scast v :: 'b::len word) = take_bit LENGTH('b) (sint (v :: 'a::len word))"
  by (simp add: uint_sint [of "scast v"] signed_scast_eq take_bit_signed_take_bit)

lemma scast_small: "0 \<le> sint v \<Longrightarrow> sint v < 2 ^ LENGTH('b) \<Longrightarrow> uint (scast v :: 'b::len word) = sint (v :: 'a::len word)"
  by (simp add: uint_scast take_bit_int_eq_self)

lemma unsigned_clamp:
  fixes v :: "'a::len word" and tp :: "'b::len word"
  assumes "f = (if v <s 0 then 0 else if hi <s v then tp else scast v)"
    and "sint hi = uint tp" "uint tp = m" "m = 2 ^ LENGTH('b) - 1"
  shows "uint f = clamp 0 m (sint v)"
  using assms scast_small [of v, where 'b = 'b] by (auto simp: clamp_def word_sless_alt)

lemma low_byte:
  fixes v :: "'a::len word"
  assumes "uint (255 :: 'a word) = 255"
  shows "uint (ucast (v AND 255) :: 8 word) = uint v mod 256"
proof -
  have m: "(255::int) = mask 8" by (simp add: mask_eq_exp_minus_1)
  have "uint (v AND 255) = take_bit 8 (uint v)"
    unfolding unsigned_and_eq assms by (simp only: m take_bit_eq_mask)
  then show ?thesis by (simp add: unsigned_ucast_eq take_bit_eq_mod)
qed

lemma sint_byte: "sint (d :: 8 word) = (if uint d < 128 then uint d else uint d - 256)"
proof -
  have r: "0 \<le> uint d" "uint d < 256" using uint_lt2p [of d] by simp_all
  have "bit (uint d) 7 \<longleftrightarrow> 128 \<le> uint d"
  proof (cases "128 \<le> uint d")
    case True
    then have "uint d div 128 = 1" using r by (simp add: div_pos_geq)
    then show ?thesis using True by (simp add: bit_iff_odd)
  next
    case False
    then have "uint d div 128 = 0" using r by simp
    then show ?thesis using False by (simp add: bit_iff_odd)
  qed
  then show ?thesis
    using r by (auto simp: sint_uint signed_take_bit_eq_take_bit_minus take_bit_int_eq_self)
qed

text \<open>Every bounded conversion returns the value of the target type nearest to its argument, with no
  wrap-around anywhere in the source range.\<close>

theorem conversions_clamp:
  "uint (Uint8 v) = clamp 0 255 (sint v) \<and> uint (Uint16 v) = clamp 0 65535 (sint v) \<and>
   uint (Uint32 v) = clamp 0 4294967295 (sint v) \<and> uint (Uint32FromInt64 v) = clamp 0 4294967295 (sint v) \<and>
   uint (Uint32FromUint64 v) = clamp 0 4294967295 (uint v) \<and> uint (Byte v) = clamp 0 255 (sint v) \<and>
   uint (ByteFromRune c) = clamp 0 255 (sint c) \<and> sint (Int32 v) = clamp (- 2147483648) 2147483647 (sint v)"
proof (intro conjI)
  show "uint (Uint8 v) = clamp 0 255 (sint v)" by (rule unsigned_clamp [OF Uint8_def]) simp_all
  show "uint (Uint16 v) = clamp 0 65535 (sint v)" by (rule unsigned_clamp [OF Uint16_def]) simp_all
  show "uint (Uint32 v) = clamp 0 4294967295 (sint v)" by (rule unsigned_clamp [OF Uint32_def]) simp_all
  show "uint (Uint32FromInt64 v) = clamp 0 4294967295 (sint v)" by (rule unsigned_clamp [OF Uint32FromInt64_def]) simp_all
  show "uint (Byte v) = clamp 0 255 (sint v)" by (rule unsigned_clamp [OF Byte_def]) simp_all
  show "uint (ByteFromRune c) = clamp 0 255 (sint c)" by (rule unsigned_clamp [OF ByteFromRune_def]) simp_all
  show "uint (Uint32FromUint64 v) = clamp 0 4294967295 (uint v)"
    by (auto simp: Uint32FromUint64_def clamp_def word_less_def unsigned_ucast_eq take_bit_int_eq_self)
  show "sint (Int32 v) = clamp (- 2147483648) 2147483647 (sint v)"
    by (auto simp: Int32_def clamp_def word_sless_alt signed_scast_eq signed_take_bit_int_eq_self_iff)
qed

text \<open>The byte extractions are reduction modulo 256, reinterpreting a byte as signed and back is the identity, and a
  response code is its argument in the range 0 to 15 and 0 outside it.\<close>

theorem bytes_and_codes:
  "uint (ByteFromUint16 a) = uint a mod 256 \<and> uint (ByteFromUint32 b) = uint b mod 256 \<and>
   uint (ByteFromUint64 c) = uint c mod 256 \<and> ByteFromInt8 (Int8FromByte d) = d \<and>
   sint (Int8FromByte d) = (if uint d < 128 then uint d else uint d - 256) \<and>
   uint (DNSRCode v) = (if 0 \<le> sint v \<and> sint v \<le> 15 then sint v else 0)"
proof (intro conjI)
  show "uint (DNSRCode v) = (if 0 \<le> sint v \<and> sint v \<le> 15 then sint v else 0)"
    using scast_small [of v, where 'b = 8] by (auto simp: DNSRCode_def word_sless_alt)
  show "ByteFromInt8 (Int8FromByte d) = d" by (simp add: ByteFromInt8_def Int8FromByte_def)
  show "sint (Int8FromByte d) = (if uint d < 128 then uint d else uint d - 256)"
    by (simp add: Int8FromByte_def sint_byte)
qed (simp_all add: ByteFromUint16_def ByteFromUint32_def ByteFromUint64_def low_byte)

end
