(* ===== verification/Net_Config.thy ===== *)
theory Net_Config
  imports Prelude
begin

text \<open>
  Configuration records that several components read (\<open>internal/config/types.go\<close>).
\<close>

record TrunkPort =
  tpInterface :: string
  tpVLANs :: "int list"
  tpNativeVLAN :: int
  tpRemoteDevice :: string
  tpRemoteInterface :: string
  tpFDBOnly :: bool

end
