(* ===== verification/Stp_Tree.thy ===== *)
theory Stp_Tree
  imports Safeconv Net_Config
begin

text \<open>
  The spanning tree election (\<open>internal/protocols/stp_tree.go\<close>, \<open>makeBridgeID\<close> of \<open>stp.go\<close>).  A \<open>*config.Device\<close> is the
  position of the device in the slice the election is given; the records hold the fields the election reads.
  Where the code ranges over the map \<open>byName\<close>, whose order Go leaves open, the model takes the order of
  visit as an argument: \<open>visit\<close> for the loop that builds the links, \<open>collect\<close> for the one that collects the bridges to
  sort.  Sorting an arbitrary order by a stable sort gives every order \<open>slices.SortFunc\<close>, which is not
  stable, can give.  A nil \<open>*stpLink\<close> is \<open>None\<close>, and dereferencing it, which panics, makes \<open>placeTree\<close> return \<open>None\<close>.
\<close>

unbundle bit_operations_syntax

section \<open>Configuration\<close>

record STPConfig =
  stEnabled :: bool
  stBridgePriority :: "16 word"
  stHelloTime :: "16 word"
  stMaxAge :: "16 word"
  stForwardDelay :: "16 word"

record Bridge =
  bdName :: string
  bdMACAddress :: "8 word list"
  bdSTPConfig :: "STPConfig option"
  bdTrunkPorts :: "TrunkPort list"

definition stpDefaultBridgePri :: "16 word" where
  "stpDefaultBridgePri = 32768"

definition STPPortPathCostDefault :: "32 word" where
  "STPPortPathCostDefault = 4"

definition SizeOfMac :: nat where
  "SizeOfMac = 6"

definition stpEnabled :: "Bridge \<Rightarrow> bool" where
  "stpEnabled d \<longleftrightarrow> (case bdSTPConfig d of None \<Rightarrow> False | Some c \<Rightarrow> stEnabled c) \<and> 0 < length (bdMACAddress d)"

definition macShift :: "nat \<Rightarrow> int" where
  "macShift i = 40 - int i * 8"

definition makeBridgeID :: "16 word \<Rightarrow> 8 word list \<Rightarrow> 64 word" where
  "makeBridgeID priority mac =
     foldl (\<lambda>bridgeID i. if 0 \<le> macShift i then bridgeID OR push_bit (nat (macShift i)) (ucast (mac ! i)) else bridgeID)
       (push_bit 48 (ucast priority)) [0..<min SizeOfMac (length mac)]"

definition stpBridgeID :: "Bridge \<Rightarrow> 64 word" where
  "stpBridgeID d =
     makeBridgeID (case bdSTPConfig d of None \<Rightarrow> stpDefaultBridgePri
       | Some c \<Rightarrow> if 0 < stBridgePriority c then stBridgePriority c else stpDefaultBridgePri) (bdMACAddress d)"

section \<open>The election\<close>

record stpPosition =
  psRoot :: "64 word"
  psCost :: "32 word"
  psRootInterface :: string
  psUpstream :: "64 word"

record stpLink =
  lkLocal :: string
  lkRemote :: nat

type_synonym links = "(nat, stpLink list) gomap"
type_synonym hops = "(nat, 32 word) gomap"
type_synonym positions = "(nat, stpPosition) gomap"

definition bridgesByName :: "Bridge list \<Rightarrow> (string, nat) gomap" where
  "bridgesByName devices =
     foldl (\<lambda>m i. if stpEnabled (devices ! i) then gm_put (bdName (devices ! i)) i m else m) [] [0..<length devices]"

definition linksOf :: "links \<Rightarrow> nat \<Rightarrow> stpLink list" where
  "linksOf links d = (case map_of links d of None \<Rightarrow> [] | Some ls \<Rightarrow> ls)"

definition addLink :: "nat \<Rightarrow> stpLink \<Rightarrow> links \<Rightarrow> links" where
  "addLink d l links = gm_put d (linksOf links d @ [l]) links"

definition addTrunk :: "(string, nat) gomap \<Rightarrow> nat \<Rightarrow> links \<Rightarrow> TrunkPort \<Rightarrow> links" where
  "addTrunk byName d links trunk =
     (case map_of byName (tpRemoteDevice trunk) of
        None \<Rightarrow> links
      | Some remote \<Rightarrow>
          if tpFDBOnly trunk \<or> remote = d then links
          else addLink remote \<lparr>lkLocal = tpRemoteInterface trunk, lkRemote = d\<rparr>
                 (addLink d \<lparr>lkLocal = tpInterface trunk, lkRemote = remote\<rparr> links))"

definition buildLinks :: "Bridge list \<Rightarrow> (string, nat) gomap \<Rightarrow> nat list \<Rightarrow> links" where
  "buildLinks devices byName visit =
     foldl (\<lambda>links d. foldl (addTrunk byName d) links (bdTrunkPorts (devices ! d))) [] visit"

definition sortedByBridgeID :: "Bridge list \<Rightarrow> nat list \<Rightarrow> nat list" where
  "sortedByBridgeID devices collect = sort_key (\<lambda>d. stpBridgeID (devices ! d)) collect"

definition hopsAt :: "hops \<Rightarrow> nat \<Rightarrow> 32 word" where
  "hopsAt hops d = (case map_of hops d of None \<Rightarrow> 0 | Some n \<Rightarrow> n)"

text \<open>The body of the inner loop of \<open>placeTree\<close>: a link of the bridge \<open>u\<close>, which is \<open>order[i]\<close>.\<close>

definition reach :: "nat \<Rightarrow> hops \<times> nat list \<Rightarrow> stpLink \<Rightarrow> hops \<times> nat list" where
  "reach u s link =
     (if gm_has (fst s) (lkRemote link) then s
      else (gm_put (lkRemote link) (hopsAt (fst s) u + 1) (fst s), snd s @ [lkRemote link]))"

definition linkRemotes :: "links \<Rightarrow> nat set" where
  "linkRemotes links = lkRemote ` (\<Union> (set ` snd ` set links))"

lemma linksOf_remotes: "lkRemote ` set (linksOf links d) \<subseteq> linkRemotes links"
proof (cases "map_of links d")
  case None
  then show ?thesis by (simp add: linksOf_def)
next
  case (Some ls)
  then have "(d, ls) \<in> set links" by (rule map_of_SomeD)
  then have "ls \<in> snd ` set links" by (rule image_eqI [rotated]) simp
  with Some show ?thesis unfolding linksOf_def linkRemotes_def by (simp only: option.case) blast
qed

lemma finite_linkRemotes: "finite (linkRemotes links)"
  by (simp add: linkRemotes_def)

text \<open>Each bridge the inner loop appends leaves the bridges still to be seen.\<close>

lemma reach_balance:
  assumes "lkRemote ` set ls \<subseteq> R" "finite R"
  shows "card (R - fst ` set (fst (foldl (reach u) s ls))) + length (snd (foldl (reach u) s ls)) =
     card (R - fst ` set (fst s)) + length (snd s)"
  using assms(1)
proof (induction ls arbitrary: s)
  case Nil
  then show ?case by simp
next
  case (Cons l ls)
  have step: "card (R - fst ` set (fst (reach u s l))) + length (snd (reach u s l)) =
     card (R - fst ` set (fst s)) + length (snd s)"
  proof (cases "gm_has (fst s) (lkRemote l)")
    case True
    then show ?thesis by (simp add: reach_def)
  next
    case False
    then have new: "lkRemote l \<in> R - fst ` set (fst s)"
      using Cons.prems by (auto simp: gm_has_def map_of_eq_None_iff)
    have "R - fst ` set (fst (reach u s l)) = (R - fst ` set (fst s)) - {lkRemote l}"
      using False by (auto simp: reach_def set_gm_put_fst)
    moreover have "length (snd (reach u s l)) = Suc (length (snd s))" using False by (simp add: reach_def)
    moreover have "card (R - fst ` set (fst s)) = Suc (card ((R - fst ` set (fst s)) - {lkRemote l}))"
      using new assms(2) by (intro card.remove) auto
    ultimately show ?thesis by simp
  qed
  from Cons.IH [of "reach u s l"] Cons.prems step show ?case by simp
qed

function placeLoop :: "links \<Rightarrow> nat \<Rightarrow> hops \<Rightarrow> nat list \<Rightarrow> hops \<times> nat list" where
  "placeLoop links i hops order =
     (if i < length order
      then let s = foldl (reach (order ! i)) (hops, order) (linksOf links (order ! i))
           in placeLoop links (Suc i) (fst s) (snd s)
      else (hops, order))"
  by pat_completeness auto
termination
proof (relation "measure (\<lambda>(links, i, hops, order). card (linkRemotes links - fst ` set hops) + length order - i)")
  fix links :: links and i and hops :: hops and order :: "nat list" and s
  assume i: "i < length order"
    and s: "s = foldl (reach (order ! i)) (hops, order) (linksOf links (order ! i))"
  have "card (linkRemotes links - fst ` set (fst s)) + length (snd s) =
    card (linkRemotes links - fst ` set hops) + length order"
    unfolding s by (subst reach_balance [OF linksOf_remotes finite_linkRemotes]) simp
  with i show "((links, Suc i, fst s, snd s), links, i, hops, order)
    \<in> measure (\<lambda>(links, i, hops, order). card (linkRemotes links - fst ` set hops) + length order - i)"
    by (simp add: case_prod_unfold)
qed simp

declare placeLoop.simps [simp del]

definition better :: "Bridge list \<Rightarrow> stpLink \<Rightarrow> stpLink option \<Rightarrow> bool" where
  "better devices link best =
     (case best of None \<Rightarrow> True
      | Some b \<Rightarrow> stpBridgeID (devices ! lkRemote link) < stpBridgeID (devices ! lkRemote b) \<or>
          (lkRemote link = lkRemote b \<and> lkLocal link < lkLocal b))"

definition rootLink :: "Bridge list \<Rightarrow> stpLink list \<Rightarrow> hops \<Rightarrow> 32 word \<Rightarrow> stpLink option" where
  "rootLink devices links hops upstreamHops =
     foldl (\<lambda>best link. if hopsAt hops (lkRemote link) \<noteq> upstreamHops then best
              else if better devices link best then Some link else best) None links"

definition placeBridge :: "Bridge list \<Rightarrow> links \<Rightarrow> 64 word \<Rightarrow> hops \<Rightarrow> positions option \<Rightarrow> nat \<Rightarrow> positions option" where
  "placeBridge devices links rootID hops acc bridge =
     (case acc of
        None \<Rightarrow> None
      | Some positions \<Rightarrow>
          case rootLink devices (linksOf links bridge) hops (hopsAt hops bridge - 1) of
            None \<Rightarrow> None
          | Some link \<Rightarrow> Some (gm_put bridge
              \<lparr>psRoot = rootID, psCost = hopsAt hops bridge * STPPortPathCostDefault,
               psRootInterface = lkLocal link, psUpstream = stpBridgeID (devices ! lkRemote link)\<rparr> positions))"

definition placeTree :: "Bridge list \<Rightarrow> nat \<Rightarrow> links \<Rightarrow> positions \<Rightarrow> positions option" where
  "placeTree devices root links positions =
     (let rootID = stpBridgeID (devices ! root);
          s = placeLoop links 0 [(root, 0)] [root]
      in foldl (placeBridge devices links rootID (fst s))
           (Some (gm_put root \<lparr>psRoot = rootID, psCost = 0, psRootInterface = [], psUpstream = 0\<rparr> positions))
           (tl (snd s)))"

definition electBridge :: "Bridge list \<Rightarrow> links \<Rightarrow> positions option \<Rightarrow> nat \<Rightarrow> positions option" where
  "electBridge devices links acc bridge =
     (case acc of
        None \<Rightarrow> None
      | Some positions \<Rightarrow>
          if gm_has positions bridge then Some positions else placeTree devices bridge links positions)"

definition electSpanningTree :: "nat list \<Rightarrow> nat list \<Rightarrow> Bridge list \<Rightarrow> positions option" where
  "electSpanningTree visit collect devices =
     (let links = buildLinks devices (bridgesByName devices) visit
      in foldl (electBridge devices links) (Some []) (sortedByBridgeID devices collect))"

end
