(* ===== verification/Stp_Election.thy ===== *)
theory Stp_Election
  imports Stp_Tree
begin

text \<open>
  What the spanning tree election decides.  The graph the bridges form is read off the configuration
  (\<open>linkSet\<close>, \<open>joined\<close>), without the election's own tables; the locale \<open>symmetric_graph\<close> holds the facts
  about hop distances, proved once for any symmetric relation and interpreted on that graph.  \<open>placeLoop\<close> is shown
  to compute the distances of the root's component, \<open>rootLink\<close> the best port, and the election
  the position of every bridge, whatever the order in which Go visits its maps.
\<close>

section \<open>Hop distances in a symmetric graph\<close>

definition dist :: "('a \<times> 'a) set \<Rightarrow> 'a \<Rightarrow> 'a \<Rightarrow> nat" where
  "dist E a b = (LEAST n. (a, b) \<in> E ^^ n)"

locale symmetric_graph =
  fixes E :: "('a \<times> 'a) set"
  assumes symmetric: "(a, b) \<in> E \<Longrightarrow> (b, a) \<in> E"
begin

lemma connected_sym: "(a, b) \<in> E\<^sup>* \<Longrightarrow> (b, a) \<in> E\<^sup>*"
  by (metis symI symD sym_rtrancl symmetric)

lemma same_component: "(a, b) \<in> E\<^sup>* \<Longrightarrow> (a, c) \<in> E\<^sup>* \<longleftrightarrow> (b, c) \<in> E\<^sup>*"
  by (meson connected_sym rtrancl_trans)

text \<open>A labelling that starts at zero, grows by at most one along each edge and is realised by walks is
  the distance.\<close>

lemma labelling_is_dist:
  assumes root: "r \<in> S" "d r = 0"
    and walk: "\<And>v. v \<in> S \<Longrightarrow> (r, v) \<in> E ^^ d v"
    and edge: "\<And>u v. u \<in> S \<Longrightarrow> (u, v) \<in> E \<Longrightarrow> v \<in> S \<and> d v \<le> Suc (d u)"
  shows "S = {v. (r, v) \<in> E\<^sup>*}" and "v \<in> S \<Longrightarrow> dist E r v = d v"
proof -
  have least: "v \<in> S \<and> d v \<le> n" if "(r, v) \<in> E ^^ n" for n v
    using that
  proof (induction n arbitrary: v)
    case 0
    then show ?case using root by simp
  next
    case (Suc n)
    then obtain u where "(r, u) \<in> E ^^ n" "(u, v) \<in> E" by auto
    with Suc.IH [of u] edge [of u v] show ?case by auto
  qed
  then show "S = {v. (r, v) \<in> E\<^sup>*}"
    using walk by (auto simp: rtrancl_power)
  show "dist E r v = d v" if "v \<in> S"
    unfolding dist_def using walk [OF that] least by (intro Least_equality) auto
qed

lemma dist_walk: "(r, v) \<in> E\<^sup>* \<Longrightarrow> (r, v) \<in> E ^^ dist E r v"
  unfolding dist_def by (auto simp: rtrancl_power intro: LeastI)

lemma dist_edge: "(r, u) \<in> E\<^sup>* \<Longrightarrow> (u, v) \<in> E \<Longrightarrow> dist E r v \<le> Suc (dist E r u)"
  using dist_walk [of r u] unfolding dist_def by (intro Least_le) auto

lemma dist_zero: "(r, v) \<in> E\<^sup>* \<Longrightarrow> dist E r v = 0 \<longleftrightarrow> v = r"
  using dist_walk [of r v] by (auto simp: dist_def intro: Least_eq_0)

lemma closer_neighbour:
  assumes "(r, v) \<in> E\<^sup>*" "v \<noteq> r"
  shows "\<exists>u. (v, u) \<in> E \<and> Suc (dist E r u) = dist E r v"
proof -
  obtain m where m: "dist E r v = Suc m" using assms dist_zero by (cases "dist E r v") auto
  with dist_walk [OF assms(1)] obtain u where u: "(r, u) \<in> E ^^ m" "(u, v) \<in> E" by auto
  then have "dist E r u \<le> m" "(r, u) \<in> E\<^sup>*" by (auto simp: dist_def rtrancl_power intro: Least_le)
  with dist_edge [of r u v] u m symmetric show ?thesis by fastforce
qed

end

section \<open>The authored graph\<close>

text \<open>
  The bridges, as positions in the device list: the devices with spanning tree enabled; of several with one name only the
  last one takes part, since the trunks name their remote device.  Bridge \<open>b\<close> is joined to \<open>a\<close> by a trunk of \<open>a\<close> that names \<open>b\<close>.
\<close>

definition bridges :: "Bridge list \<Rightarrow> nat set" where
  "bridges devices = {i. i < length devices \<and> stpEnabled (devices ! i) \<and>
     (\<forall>j < length devices. i < j \<and> stpEnabled (devices ! j) \<longrightarrow> bdName (devices ! j) \<noteq> bdName (devices ! i))}"

definition authored :: "Bridge list \<Rightarrow> nat \<Rightarrow> nat \<Rightarrow> TrunkPort \<Rightarrow> bool" where
  "authored devices a b t \<longleftrightarrow> a \<in> bridges devices \<and> t \<in> set (bdTrunkPorts (devices ! a)) \<and>
     b \<in> bridges devices \<and> bdName (devices ! b) = tpRemoteDevice t \<and> \<not> tpFDBOnly t \<and> b \<noteq> a"

text \<open>The links of bridge \<open>a\<close>: its own trunks, and the other ends of the trunks that name it.\<close>

definition linkSet :: "Bridge list \<Rightarrow> nat \<Rightarrow> stpLink set" where
  "linkSet devices a =
     {l. \<exists>b t. authored devices a b t \<and> l = \<lparr>lkLocal = tpInterface t, lkRemote = b\<rparr> \<or>
        authored devices b a t \<and> l = \<lparr>lkLocal = tpRemoteInterface t, lkRemote = b\<rparr>}"

definition joined :: "Bridge list \<Rightarrow> (nat \<times> nat) set" where
  "joined devices = {(a, lkRemote l) | a l. l \<in> linkSet devices a}"

text \<open>The links one trunk of bridge \<open>d\<close> gives to bridge \<open>a\<close>, through the election's table of names.\<close>

definition trunkLinks :: "(string, nat) gomap \<Rightarrow> nat \<Rightarrow> TrunkPort \<Rightarrow> nat \<Rightarrow> stpLink set" where
  "trunkLinks byName d t a =
     (case map_of byName (tpRemoteDevice t) of
        None \<Rightarrow> {}
      | Some r \<Rightarrow> if tpFDBOnly t \<or> r = d then {}
          else (if a = d then {\<lparr>lkLocal = tpInterface t, lkRemote = r\<rparr>} else {}) \<union>
               (if a = r then {\<lparr>lkLocal = tpRemoteInterface t, lkRemote = d\<rparr>} else {}))"

text \<open>The table of names holds exactly the bridges.\<close>

definition lastNamed :: "Bridge list \<Rightarrow> nat \<Rightarrow> string \<Rightarrow> nat \<Rightarrow> bool" where
  "lastNamed devices k n i \<longleftrightarrow> i < k \<and> stpEnabled (devices ! i) \<and> bdName (devices ! i) = n \<and>
     (\<forall>j < k. i < j \<and> stpEnabled (devices ! j) \<longrightarrow> bdName (devices ! j) \<noteq> n)"

lemma lastNamed_Suc:
  "lastNamed devices (Suc k) n i \<longleftrightarrow>
     (if stpEnabled (devices ! k) \<and> bdName (devices ! k) = n then i = k else lastNamed devices k n i)"
  by (cases "i = k") (auto simp: lastNamed_def less_Suc_eq)

lemma bridgesByName_upto:
  assumes "f = (\<lambda>m i. if stpEnabled (devices ! i) then gm_put (bdName (devices ! i)) i m else m)"
  shows "gm_wf (foldl f [] [0..<k])" "map_of (foldl f [] [0..<k]) n = Some i \<longleftrightarrow> lastNamed devices k n i"
proof (induction k)
  case 0
  { case 1 show ?case by simp }
  { case 2 show ?case by (simp add: lastNamed_def) }
next
  case (Suc k)
  { case 1 show ?case using Suc(1) by (simp add: assms gm_wf_put) }
  { case 2 show ?case using Suc(2) by (simp add: assms lastNamed_Suc gm_simps eq_commute [of i k] eq_commute [of n]) }
qed

lemma byName_iff: "map_of (bridgesByName devices) n = Some i \<longleftrightarrow> i \<in> bridges devices \<and> bdName (devices ! i) = n"
  using bridgesByName_upto(2) [OF refl, of devices "length devices" n i]
  by (auto simp: bridgesByName_def bridges_def lastNamed_def)

lemma bridgesByName_wf: "gm_wf (bridgesByName devices)"
  unfolding bridgesByName_def by (rule bridgesByName_upto(1)) (rule refl)

lemma byName_values: "snd ` set (bridgesByName devices) = bridges devices"
proof
  show "snd ` set (bridgesByName devices) \<subseteq> bridges devices"
  proof
    fix i assume "i \<in> snd ` set (bridgesByName devices)"
    then obtain n where "(n, i) \<in> set (bridgesByName devices)" by auto
    then have "map_of (bridgesByName devices) n = Some i" using bridgesByName_wf [of devices] by (simp add: gm_wf_map_of_mem)
    then show "i \<in> bridges devices" by (simp add: byName_iff)
  qed
  show "bridges devices \<subseteq> snd ` set (bridgesByName devices)"
  proof
    fix i assume "i \<in> bridges devices"
    then have "map_of (bridgesByName devices) (bdName (devices ! i)) = Some i" by (simp add: byName_iff)
    from map_of_SomeD [OF this] show "i \<in> snd ` set (bridgesByName devices)" by (rule rev_image_eqI) simp
  qed
qed

lemma bridges_bound: "bridges devices \<subseteq> {..<length devices}"
  by (auto simp: bridges_def)

text \<open>The table the election builds holds those links, in whatever order the map is visited.\<close>

lemma linksOf_addLink: "linksOf (addLink d l links) a = (if a = d then linksOf links a @ [l] else linksOf links a)"
  by (simp add: addLink_def linksOf_def gm_simps)

lemma linksOf_addTrunk: "set (linksOf (addTrunk byName d links t) a) = set (linksOf links a) \<union> trunkLinks byName d t a"
  by (auto simp: addTrunk_def trunkLinks_def linksOf_addLink split: option.splits if_splits)

lemma foldl_collects:
  assumes "\<And>s x. view (f s x) = view s \<union> c x"
  shows "view (foldl f s xs) = view s \<union> (\<Union>x \<in> set xs. c x)"
  by (induction xs arbitrary: s) (auto simp: assms)

lemma in_trunkLinks:
  "l \<in> trunkLinks byName d t a \<longleftrightarrow>
     (\<exists>r. map_of byName (tpRemoteDevice t) = Some r \<and> \<not> tpFDBOnly t \<and> r \<noteq> d \<and>
        (a = d \<and> l = \<lparr>lkLocal = tpInterface t, lkRemote = r\<rparr> \<or> a = r \<and> l = \<lparr>lkLocal = tpRemoteInterface t, lkRemote = d\<rparr>))"
  by (cases "map_of byName (tpRemoteDevice t)") (auto simp: trunkLinks_def)

lemma in_linkSet:
  "l \<in> linkSet devices a \<longleftrightarrow>
     (\<exists>b t. authored devices a b t \<and> l = \<lparr>lkLocal = tpInterface t, lkRemote = b\<rparr> \<or>
        authored devices b a t \<and> l = \<lparr>lkLocal = tpRemoteInterface t, lkRemote = b\<rparr>)"
  by (simp add: linkSet_def)

lemma trunks_linkSet:
  "(\<Union>d \<in> bridges devices. \<Union>t \<in> set (bdTrunkPorts (devices ! d)). trunkLinks (bridgesByName devices) d t a) = linkSet devices a"
  by (rule set_eqI) (simp add: in_trunkLinks in_linkSet authored_def byName_iff, blast)

lemma linksOf_buildLinks:
  assumes "set visit = bridges devices"
  shows "set (linksOf (buildLinks devices (bridgesByName devices) visit) a) = linkSet devices a"
proof -
  let ?v = "\<lambda>links. set (linksOf links a)"
  note inner = foldl_collects [where view = ?v, OF linksOf_addTrunk]
  have "?v (buildLinks devices (bridgesByName devices) visit) = ?v [] \<union>
      (\<Union>d \<in> set visit. \<Union>t \<in> set (bdTrunkPorts (devices ! d)). trunkLinks (bridgesByName devices) d t a)"
    unfolding buildLinks_def by (rule foldl_collects [where view = ?v]) (rule inner)
  then show ?thesis by (simp add: assms trunks_linkSet) (simp add: linksOf_def)
qed

lemma in_joined: "(a, b) \<in> joined devices \<longleftrightarrow> (\<exists>t. authored devices a b t \<or> authored devices b a t)"
proof -
  have "(a, b) \<in> joined devices \<longleftrightarrow> (\<exists>s. \<lparr>lkLocal = s, lkRemote = b\<rparr> \<in> linkSet devices a)"
    unfolding joined_def by clarsimp (metis stpLink.cases stpLink.select_convs(2))
  then show ?thesis by (auto simp: in_linkSet)
qed

lemma joined_sym: "(a, b) \<in> joined devices \<Longrightarrow> (b, a) \<in> joined devices"
  by (auto simp: in_joined)

lemma joined_bridges: "(a, b) \<in> joined devices \<Longrightarrow> a \<in> bridges devices \<and> b \<in> bridges devices"
  by (auto simp: in_joined authored_def)

lemma joined_in_bound: "joined devices \<subseteq> {..<length devices} \<times> {..<length devices}"
proof -
  have "joined devices \<subseteq> bridges devices \<times> bridges devices"
    by (intro subrelI) (simp add: joined_bridges)
  also have "\<dots> \<subseteq> {..<length devices} \<times> {..<length devices}"
    by (intro Sigma_mono bridges_bound)
  finally show ?thesis .
qed

interpretation net: symmetric_graph "joined devices" for devices
  by unfold_locales (rule joined_sym)

section \<open>The breadth-first loop computes hop distances\<close>

lemma hopsAt_put: "hopsAt (gm_put k x h) v = (if v = k then x else hopsAt h v)"
  by (simp add: hopsAt_def gm_simps)

lemma foldl_reach:
  assumes "gm_has h u"
  shows "\<exists>new. snd (foldl (reach u) (h, ord) ls) = ord @ new \<and> distinct new \<and>
     set new = lkRemote ` set ls - dom (map_of h) \<and>
     dom (map_of (fst (foldl (reach u) (h, ord) ls))) = dom (map_of h) \<union> set new \<and>
     (\<forall>v. hopsAt (fst (foldl (reach u) (h, ord) ls)) v = (if v \<in> set new then hopsAt h u + 1 else hopsAt h v))"
  using assms
proof (induction ls arbitrary: h ord)
  case Nil
  then show ?case by simp
next
  case (Cons l ls)
  let ?v = "lkRemote l"
  show ?case
  proof (cases "gm_has h ?v")
    case True
    then have seen: "?v \<in> dom (map_of h)" by (auto simp: gm_has_def)
    from Cons.IH [OF Cons.prems, of ord] seen True show ?thesis
      by (simp add: reach_def insert_Diff_if)
  next
    case False
    let ?h = "gm_put ?v (hopsAt h u + 1) h"
    have u: "u \<noteq> ?v" "?v \<notin> dom (map_of h)" using False Cons.prems by (auto simp: gm_has_def)
    have dom: "dom (map_of ?h) = insert ?v (dom (map_of h))" by (auto simp: gm_simps)
    have "gm_has ?h u" using Cons.prems by (simp add: gm_has_def gm_simps)
    from Cons.IH [OF this, of "ord @ [?v]"] obtain new where
      new: "snd (foldl (reach u) (?h, ord @ [?v]) ls) = ord @ ?v # new" "distinct new"
      "set new = lkRemote ` set ls - dom (map_of ?h)"
      "dom (map_of (fst (foldl (reach u) (?h, ord @ [?v]) ls))) = dom (map_of ?h) \<union> set new"
      "\<And>v. hopsAt (fst (foldl (reach u) (?h, ord @ [?v]) ls)) v = (if v \<in> set new then hopsAt ?h u + 1 else hopsAt ?h v)"
      by auto
    have "foldl (reach u) (h, ord) (l # ls) = foldl (reach u) (?h, ord @ [?v]) ls"
      using False by (simp add: reach_def)
    moreover have "set (?v # new) = lkRemote ` set (l # ls) - dom (map_of h)" "distinct (?v # new)"
      using new(2,3) u(2) by (auto simp: dom)
    ultimately show ?thesis
      using new(1,4,5) u by (intro exI [of _ "?v # new"]) (auto simp: dom hopsAt_put)
  qed
qed

text \<open>The state of the loop when the bridges before position \<open>i\<close> have been expanded.\<close>

definition frontier :: "(nat \<times> nat) set \<Rightarrow> nat \<Rightarrow> nat \<Rightarrow> nat \<Rightarrow> hops \<Rightarrow> nat list \<Rightarrow> bool" where
  "frontier E n r i h ord \<longleftrightarrow>
     distinct ord \<and> set ord = dom (map_of h) \<and> set ord \<subseteq> {..<n} \<and> ord \<noteq> [] \<and> ord ! 0 = r \<and> hopsAt h r = 0 \<and>
     i \<le> length ord \<and>
     (\<forall>j < length ord. unat (hopsAt h (ord ! j)) \<le> j) \<and>
     (\<forall>j k. j \<le> k \<and> k < length ord \<longrightarrow> unat (hopsAt h (ord ! j)) \<le> unat (hopsAt h (ord ! k))) \<and>
     (\<forall>k < length ord. i < length ord \<longrightarrow> unat (hopsAt h (ord ! k)) \<le> Suc (unat (hopsAt h (ord ! i)))) \<and>
     (\<forall>j < i. \<forall>v. (ord ! j, v) \<in> E \<longrightarrow> v \<in> set ord \<and> unat (hopsAt h v) \<le> Suc (unat (hopsAt h (ord ! j)))) \<and>
     (\<forall>v \<in> set ord. (r, v) \<in> E ^^ unat (hopsAt h v))"

lemma frontier_length: "frontier E n r i h ord \<Longrightarrow> length ord \<le> n"
proof -
  assume "frontier E n r i h ord"
  then have "distinct ord" "set ord \<subseteq> {..<n}" by (auto simp: frontier_def)
  then show "length ord \<le> n" by (metis card_lessThan card_mono distinct_card finite_lessThan)
qed

lemma frontier_start: "r < n \<Longrightarrow> frontier E n r 0 [(r, 0)] [r]"
  by (auto simp: frontier_def hopsAt_def)

lemma frontier_step:
  assumes fr: "frontier E n r i h ord" and i: "i < length ord" and n: "n < 2 ^ 32" and E: "E \<subseteq> {..<n} \<times> {..<n}"
    and out: "\<And>v. (ord ! i, v) \<in> E \<longleftrightarrow> v \<in> lkRemote ` set ls"
  shows "frontier E n r (Suc i) (fst (foldl (reach (ord ! i)) (h, ord) ls)) (snd (foldl (reach (ord ! i)) (h, ord) ls))"
proof -
  let ?u = "ord ! i" and ?d = "\<lambda>v. unat (hopsAt h v)"
  let ?s = "foldl (reach ?u) (h, ord) ls"
  have u: "?u \<in> set ord" using i by simp
  then have "gm_has h ?u" using fr by (auto simp: frontier_def gm_has_def)
  then obtain new where new: "snd ?s = ord @ new" "distinct new" "set new = lkRemote ` set ls - set ord"
    "dom (map_of (fst ?s)) = set ord \<union> set new"
    "\<And>v. hopsAt (fst ?s) v = (if v \<in> set new then hopsAt h ?u + 1 else hopsAt h v)"
    using foldl_reach [of h ?u ord ls] fr by (auto simp: frontier_def)
  have ui: "?d ?u \<le> i" using fr i by (simp add: frontier_def)
  have "?d ?u + 1 < 2 ^ 32" using ui i frontier_length [OF fr] n by linarith
  then have suc: "unat (hopsAt h ?u + 1) = Suc (?d ?u)" using unat_Suc_word [of "hopsAt h ?u"] by simp
  have d': "unat (hopsAt (fst ?s) v) = (if v \<in> set new then Suc (?d ?u) else ?d v)" for v
    by (simp add: new(5) suc)
  have old: "v \<notin> set new" if "v \<in> set ord" for v using new(3) that by blast
  have pos: "unat (hopsAt (fst ?s) ((ord @ new) ! j)) = (if j < length ord then ?d (ord ! j) else Suc (?d ?u))"
    if "j < length (ord @ new)" for j
    using that old by (auto simp: d' nth_append)
  have edge: "v \<in> set ord \<union> set new" if "(?u, v) \<in> E" for v using that out new(3) by blast
  have bounds: "?d (ord ! j) \<le> j" "?d (ord ! j) \<le> Suc (?d ?u)" if "j < length ord" for j
    using fr i that by (auto simp: frontier_def)
  have mono: "?d (ord ! j) \<le> ?d (ord ! k)" if "j \<le> k" "k < length ord" for j k
    using fr that by (simp add: frontier_def)
  have r: "r \<in> set ord" "hopsAt h r = 0" using fr by (auto simp: frontier_def)
  have walk: "(r, v) \<in> E ^^ (if v \<in> set new then Suc (?d ?u) else ?d v)" if "v \<in> set ord \<union> set new" for v
  proof (cases "v \<in> set new")
    case True
    then have "(?u, v) \<in> E" using new(3) out by blast
    moreover have "(r, ?u) \<in> E ^^ ?d ?u" using fr u by (simp add: frontier_def)
    ultimately show ?thesis using True by auto
  next
    case False
    then show ?thesis using that fr by (simp add: frontier_def)
  qed
  have done_edges: "v \<in> set ord \<union> set new \<and> (if v \<in> set new then Suc (?d ?u) else ?d v) \<le> Suc (?d (ord ! j))"
    if "j < Suc i" "(ord ! j, v) \<in> E" for j v
  proof (cases "j = i")
    case True
    with that edge bounds(2) show ?thesis by (force simp: in_set_conv_nth)
  next
    case False
    with that(1) have "j < i" by simp
    with that(2) fr have "v \<in> set ord \<and> ?d v \<le> Suc (?d (ord ! j))" unfolding frontier_def by blast
    with old show ?thesis by auto
  qed
  have sub: "set new \<subseteq> {..<n}" using new(3) out E by auto
  show ?thesis
    unfolding frontier_def new(1,4)
  proof (intro conjI allI impI ballI)
    show "distinct (ord @ new)" using fr new(2) old by (auto simp: frontier_def)
    show "set (ord @ new) \<subseteq> {..<n}" using fr sub by (auto simp: frontier_def)
    show "hopsAt (fst ?s) r = 0" using r old by (simp add: new(5))
  next
    fix j assume "j < length (ord @ new)"
    then show "unat (hopsAt (fst ?s) ((ord @ new) ! j)) \<le> j"
      using pos [of j] bounds(1) [of j] ui i by (cases "j < length ord") auto
  next
    fix j k assume "j \<le> k \<and> k < length (ord @ new)"
    then show "unat (hopsAt (fst ?s) ((ord @ new) ! j)) \<le> unat (hopsAt (fst ?s) ((ord @ new) ! k))"
      using pos [of j] pos [of k] mono [of j k] bounds(2) by auto
  next
    fix k assume "k < length (ord @ new)" "Suc i < length (ord @ new)"
    then show "unat (hopsAt (fst ?s) ((ord @ new) ! k)) \<le> Suc (unat (hopsAt (fst ?s) ((ord @ new) ! Suc i)))"
      using pos [of k] pos [of "Suc i"] mono [of i "Suc i"] bounds(2) [of k] by auto
  next
    fix j v assume j: "j < Suc i" "((ord @ new) ! j, v) \<in> E"
    then have "ord ! j \<in> set ord" "(ord @ new) ! j = ord ! j" using i by (auto simp: nth_append)
    with done_edges [of j v] j old show "unat (hopsAt (fst ?s) v) \<le> Suc (unat (hopsAt (fst ?s) ((ord @ new) ! j)))"
      "v \<in> set (ord @ new)" by (auto simp: d')
  next
    fix v assume "v \<in> set (ord @ new)"
    with walk [of v] show "(r, v) \<in> E ^^ unat (hopsAt (fst ?s) v)" by (simp add: d')
  qed (use fr i in \<open>auto simp: frontier_def nth_append\<close>)
qed

lemma placeLoop_frontier:
  assumes "frontier E n r i h ord" "n < 2 ^ 32" "E \<subseteq> {..<n} \<times> {..<n}"
    and "\<And>u v. (u, v) \<in> E \<longleftrightarrow> v \<in> lkRemote ` set (linksOf links u)"
  shows "frontier E n r (length (snd (placeLoop links i h ord))) (fst (placeLoop links i h ord)) (snd (placeLoop links i h ord))"
  using assms(1,4)
proof (induction links i h ord rule: placeLoop.induct)
  case (1 links i h ord)
  show ?case
  proof (cases "i < length ord")
    case True
    let ?s = "foldl (reach (ord ! i)) (h, ord) (linksOf links (ord ! i))"
    have "frontier E n r (Suc i) (fst ?s) (snd ?s)"
      by (rule frontier_step [OF "1.prems"(1) True assms(2,3) "1.prems"(2)])
    from "1.IH" [OF True refl this "1.prems"(2)] True show ?thesis
      by (simp add: placeLoop.simps [of links i h ord] Let_def)
  next
    case False
    then have "placeLoop links i h ord = (h, ord)" by (simp add: placeLoop.simps [of links i h ord])
    moreover have "i = length ord" using False "1.prems"(1) by (auto simp: frontier_def)
    ultimately show ?thesis using "1.prems"(1) by simp
  qed
qed

section \<open>The position of one bridge\<close>

lemma joined_links: "(a, b) \<in> joined devices \<longleftrightarrow> b \<in> lkRemote ` linkSet devices a"
  by (auto simp: joined_def)

lemma component_bridges: "(a, b) \<in> (joined devices)\<^sup>* \<Longrightarrow> a \<in> bridges devices \<Longrightarrow> b \<in> bridges devices"
  by (induction rule: rtrancl_induct) (auto dest: joined_bridges)

definition upstreamLinks :: "Bridge list \<Rightarrow> nat \<Rightarrow> nat \<Rightarrow> stpLink set" where
  "upstreamLinks devices r v =
     {l \<in> linkSet devices v. Suc (dist (joined devices) r (lkRemote l)) = dist (joined devices) r v}"

definition bestLink :: "Bridge list \<Rightarrow> stpLink set \<Rightarrow> stpLink \<Rightarrow> bool" where
  "bestLink devices L l \<longleftrightarrow> l \<in> L \<and> (\<forall>l' \<in> L. stpBridgeID (devices ! lkRemote l) \<le> stpBridgeID (devices ! lkRemote l') \<and>
     (lkRemote l' = lkRemote l \<longrightarrow> lkLocal l \<le> lkLocal l'))"

text \<open>The position 802.1D gives bridge \<open>v\<close> in the tree of root \<open>r\<close>.\<close>

definition positionIn :: "Bridge list \<Rightarrow> nat \<Rightarrow> nat \<Rightarrow> stpPosition \<Rightarrow> bool" where
  "positionIn devices r v p \<longleftrightarrow>
     psRoot p = stpBridgeID (devices ! r) \<and>
     unat (psCost p) = dist (joined devices) r v * unat STPPortPathCostDefault \<and>
     (if v = r then psRootInterface p = [] \<and> psUpstream p = 0
      else \<exists>l. bestLink devices (upstreamLinks devices r v) l \<and>
        psRootInterface p = lkLocal l \<and> psUpstream p = stpBridgeID (devices ! lkRemote l))"

lemma rootLink_best:
  "(case rootLink devices ls h k of
      None \<Rightarrow> {l \<in> set ls. hopsAt h (lkRemote l) = k} = {}
    | Some l \<Rightarrow> bestLink devices {l \<in> set ls. hopsAt h (lkRemote l) = k} l)"
proof (induction ls rule: rev_induct)
  case Nil
  then show ?case by (simp add: rootLink_def)
next
  case (snoc l ls)
  let ?id = "\<lambda>l. stpBridgeID (devices ! lkRemote l)"
  let ?L = "{l \<in> set ls. hopsAt h (lkRemote l) = k}"
  have step: "rootLink devices (ls @ [l]) h k = (if hopsAt h (lkRemote l) \<noteq> k then rootLink devices ls h k
      else if better devices l (rootLink devices ls h k) then Some l else rootLink devices ls h k)"
    by (simp add: rootLink_def)
  show ?case
  proof (cases "hopsAt h (lkRemote l) = k")
    case False
    then have L: "{x \<in> set (ls @ [l]). hopsAt h (lkRemote x) = k} = ?L" by auto
    show ?thesis unfolding L using False snoc by (simp add: step)
  next
    case True
    then have L: "{x \<in> set (ls @ [l]). hopsAt h (lkRemote x) = k} = insert l ?L" by auto
    show ?thesis
    proof (cases "rootLink devices ls h k")
      case None
      with snoc have empty: "?L = {}" by simp
      show ?thesis unfolding L empty using None True by (simp add: step better_def bestLink_def)
    next
      case (Some b)
      with snoc have b: "bestLink devices ?L b" by simp
      have "bestLink devices (insert l ?L) (if better devices l (Some b) then l else b)"
      proof (cases "better devices l (Some b)")
        case True
        then consider "?id l < ?id b" | "lkRemote l = lkRemote b" "lkLocal l < lkLocal b"
          by (auto simp: better_def)
        then show ?thesis
        proof cases
          case 1
          have "?id l \<le> ?id l' \<and> lkRemote l' \<noteq> lkRemote l" if "l' \<in> ?L" for l'
          proof -
            have "?id b \<le> ?id l'" using b that by (simp add: bestLink_def)
            with 1 have "?id l < ?id l'" by (rule less_le_trans)
            then show ?thesis by auto
          qed
          with True show ?thesis by (simp add: bestLink_def)
        next
          case 2
          have "lkLocal l \<le> lkLocal l'" if "l' \<in> ?L" "lkRemote l' = lkRemote b" for l'
          proof -
            have "lkLocal b \<le> lkLocal l'" using b that by (simp add: bestLink_def)
            with 2(2) show ?thesis by order
          qed
          with b 2 True show ?thesis by (simp add: bestLink_def)
        qed
      next
        case False
        then have "?id b \<le> ?id l" "lkRemote l = lkRemote b \<longrightarrow> lkLocal b \<le> lkLocal l"
          by (auto simp: better_def)
        with b False show ?thesis by (simp add: bestLink_def)
      qed
      then show ?thesis unfolding L using True Some by (cases "better devices l (Some b)") (simp_all add: step)
    qed
  qed
qed

section \<open>One tree\<close>

lemma place_distances:
  assumes r: "r \<in> bridges devices" and visit: "set visit = bridges devices" and n: "length devices < 2 ^ 32"
    and links: "links = buildLinks devices (bridgesByName devices) visit"
    and s: "s = placeLoop links 0 [(r, 0)] [r]"
  shows "set (snd s) = {v. (r, v) \<in> (joined devices)\<^sup>*}" "distinct (snd s)" "snd s = r # tl (snd s)"
    and "(r, v) \<in> (joined devices)\<^sup>* \<Longrightarrow> unat (hopsAt (fst s) v) = dist (joined devices) r v"
    and "(r, v) \<in> (joined devices)\<^sup>* \<Longrightarrow> dist (joined devices) r v < length devices"
proof -
  let ?E = "joined devices" and ?n = "length devices"
  have E: "?E \<subseteq> {..<?n} \<times> {..<?n}"
    using joined_in_bound by blast
  have out: "(u, v) \<in> ?E \<longleftrightarrow> v \<in> lkRemote ` set (linksOf links u)" for u v
    by (simp add: links linksOf_buildLinks [OF visit] joined_links)
  have "r < ?n" using subsetD [OF bridges_bound r] by simp
  from placeLoop_frontier [OF frontier_start [OF this] n E out]
  have fr: "frontier ?E ?n r (length (snd s)) (fst s) (snd s)" unfolding s .
  then have facts: "distinct (snd s)" "snd s \<noteq> []" "snd s ! 0 = r" "hopsAt (fst s) r = 0"
    "\<forall>v \<in> set (snd s). (r, v) \<in> ?E ^^ unat (hopsAt (fst s) v)"
    "\<forall>j < length (snd s). \<forall>v. (snd s ! j, v) \<in> ?E \<longrightarrow>
       v \<in> set (snd s) \<and> unat (hopsAt (fst s) v) \<le> Suc (unat (hopsAt (fst s) (snd s ! j)))"
    "\<forall>j < length (snd s). unat (hopsAt (fst s) (snd s ! j)) \<le> j"
    unfolding frontier_def by - (elim conjE, assumption)+
  have edge: "v \<in> set (snd s) \<and> unat (hopsAt (fst s) v) \<le> Suc (unat (hopsAt (fst s) u))"
    if uv: "u \<in> set (snd s)" "(u, v) \<in> ?E" for u v
  proof -
    obtain j where "j < length (snd s)" "u = snd s ! j" using uv(1) by (auto simp: in_set_conv_nth)
    with facts(6) uv(2) show ?thesis by blast
  qed
  show hd: "snd s = r # tl (snd s)" using facts(2,3) by (cases "snd s") auto
  have root: "r \<in> set (snd s)" "unat (hopsAt (fst s) r) = 0" by (subst hd, simp) (simp add: facts(4))
  have walk: "(r, v) \<in> ?E ^^ unat (hopsAt (fst s) v)" if "v \<in> set (snd s)" for v using facts(5) that by blast
  note lab = net.labelling_is_dist [of r "set (snd s)" "\<lambda>v. unat (hopsAt (fst s) v)" devices, OF root walk edge]
  show "set (snd s) = {v. (r, v) \<in> ?E\<^sup>*}" by (rule lab(1))
  then show label: "(r, v) \<in> ?E\<^sup>* \<Longrightarrow> unat (hopsAt (fst s) v) = dist ?E r v" using lab(2) [of v] by simp
  show "dist ?E r v < ?n" if v: "(r, v) \<in> ?E\<^sup>*"
  proof -
    obtain j where "j < length (snd s)" "v = snd s ! j" using v lab(1) by (metis in_set_conv_nth mem_Collect_eq)
    with facts(7) label [OF v] frontier_length [OF fr] show ?thesis by fastforce
  qed
  show "distinct (snd s)" by (rule facts(1))
qed

lemma foldl_placeBridge:
  assumes "\<And>v. v \<in> set vs \<Longrightarrow> rootLink devices (linksOf links v) h (hopsAt h v - 1) = Some (link v)" "gm_wf ps"
  shows "\<exists>ps'. foldl (placeBridge devices links rootID h) (Some ps) vs = Some ps' \<and> gm_wf ps' \<and>
     (\<forall>v. map_of ps' v = (if v \<in> set vs then Some \<lparr>psRoot = rootID, psCost = hopsAt h v * STPPortPathCostDefault,
        psRootInterface = lkLocal (link v), psUpstream = stpBridgeID (devices ! lkRemote (link v))\<rparr> else map_of ps v))"
  using assms
proof (induction vs arbitrary: ps)
  case Nil
  then show ?case by simp
next
  case (Cons v vs)
  let ?p = "\<lparr>psRoot = rootID, psCost = hopsAt h v * STPPortPathCostDefault,
        psRootInterface = lkLocal (link v), psUpstream = stpBridgeID (devices ! lkRemote (link v))\<rparr>"
  have "placeBridge devices links rootID h (Some ps) v = Some (gm_put v ?p ps)"
    using Cons.prems(1) [of v] by (simp add: placeBridge_def)
  moreover have "gm_wf (gm_put v ?p ps)" using Cons.prems(2) by (rule gm_wf_put)
  moreover note Cons.IH [of "gm_put v ?p ps"] Cons.prems(1)
  ultimately show ?case by (auto simp: gm_simps)
qed

text \<open>The links \<open>rootLink\<close> considers are those one hop closer to the root.\<close>

lemma closer_links:
  assumes links: "set ls = linkSet devices v" and v: "(r, v) \<in> (joined devices)\<^sup>*" "v \<noteq> r"
    and hops: "\<And>u. (r, u) \<in> (joined devices)\<^sup>* \<Longrightarrow> unat (hopsAt h u) = dist (joined devices) r u"
  shows "{l \<in> set ls. hopsAt h (lkRemote l) = hopsAt h v - 1} = upstreamLinks devices r v"
    and "upstreamLinks devices r v \<noteq> {}"
proof -
  let ?E = "joined devices"
  have nz: "hopsAt h v \<noteq> 0" using hops [OF v(1)] net.dist_zero [OF v(1)] v(2) by auto
  have "hopsAt h (lkRemote l) = hopsAt h v - 1 \<longleftrightarrow> Suc (dist ?E r (lkRemote l)) = dist ?E r v" if "l \<in> linkSet devices v" for l
  proof -
    have "(v, lkRemote l) \<in> ?E" using that by (auto simp: joined_links)
    with v(1) have "(r, lkRemote l) \<in> ?E\<^sup>*" by auto
    then have "unat (hopsAt h (lkRemote l)) = dist ?E r (lkRemote l)" by (rule hops)
    moreover have "unat (hopsAt h v - 1) = dist ?E r v - 1" "0 < dist ?E r v"
      using hops [OF v(1)] nz net.dist_zero [OF v(1)] v(2) by (simp_all add: unat_minus_one)
    ultimately show ?thesis by (auto simp: word_unat_eq_iff)
  qed
  then show "{l \<in> set ls. hopsAt h (lkRemote l) = hopsAt h v - 1} = upstreamLinks devices r v"
    by (auto simp: links upstreamLinks_def)
  obtain u where "(v, u) \<in> ?E" "Suc (dist ?E r u) = dist ?E r v" using net.closer_neighbour [OF v] by blast
  then show "upstreamLinks devices r v \<noteq> {}" by (auto simp: upstreamLinks_def joined_links)
qed

lemma placeTree_places:
  assumes r: "r \<in> bridges devices" and visit: "set visit = bridges devices" and n: "length devices < 2 ^ 30"
    and links: "links = buildLinks devices (bridgesByName devices) visit" and wf: "gm_wf ps"
  shows "\<exists>ps'. placeTree devices r links ps = Some ps' \<and> gm_wf ps' \<and>
     (\<forall>v. if (r, v) \<in> (joined devices)\<^sup>* then \<exists>p. map_of ps' v = Some p \<and> positionIn devices r v p
          else map_of ps' v = map_of ps v)"
proof -
  let ?E = "joined devices" and ?rid = "stpBridgeID (devices ! r)"
  let ?p0 = "\<lparr>psRoot = ?rid, psCost = 0, psRootInterface = [], psUpstream = 0\<rparr>"
  obtain h ord where s: "placeLoop links 0 [(r, 0)] [r] = (h, ord)" by fastforce
  have n': "length devices < 2 ^ 32" using n by simp
  note pd = place_distances [OF r visit n' links s [symmetric], simplified]
  define link where "link v = the (rootLink devices (linksOf links v) h (hopsAt h v - 1))" for v
  have tl: "set (tl ord) = {v. (r, v) \<in> ?E\<^sup>*} - {r}" using pd(1-3) by (cases ord) auto
  have best: "rootLink devices (linksOf links v) h (hopsAt h v - 1) = Some (link v) \<and>
      bestLink devices (upstreamLinks devices r v) (link v)" if "v \<in> set (tl ord)" for v
  proof -
    have v: "(r, v) \<in> ?E\<^sup>*" "v \<noteq> r" using that tl by auto
    have ls: "set (linksOf links v) = linkSet devices v" by (simp add: links linksOf_buildLinks [OF visit])
    note cl = closer_links [OF ls v pd(4)]
    show ?thesis
      using rootLink_best [where ls = "linksOf links v" and h = h and k = "hopsAt h v - 1" and devices = devices] cl
      by (auto simp: link_def split: option.splits)
  qed
  obtain ps' where ps': "foldl (placeBridge devices links ?rid h) (Some (gm_put r ?p0 ps)) (tl ord) = Some ps'" "gm_wf ps'"
    and look: "\<And>v. map_of ps' v = (if v \<in> set (tl ord) then Some \<lparr>psRoot = ?rid, psCost = hopsAt h v * STPPortPathCostDefault,
        psRootInterface = lkLocal (link v), psUpstream = stpBridgeID (devices ! lkRemote (link v))\<rparr>
      else map_of (gm_put r ?p0 ps) v)"
    using foldl_placeBridge [of "tl ord" devices links h link "gm_put r ?p0 ps" ?rid] best gm_wf_put [OF wf] by blast
  have "positionIn devices r r ?p0" using net.dist_zero [of r r] by (simp add: positionIn_def)
  moreover have "unat (hopsAt h v * STPPortPathCostDefault) = dist ?E r v * unat STPPortPathCostDefault" if "(r, v) \<in> ?E\<^sup>*" for v
  proof -
    have "dist ?E r v * 4 < 2 ^ 32" using pd(5) [OF that] n by simp
    then show ?thesis using pd(4) [OF that] unat_mult_lem [of "hopsAt h v" STPPortPathCostDefault]
      by (simp add: STPPortPathCostDefault_def)
  qed
  ultimately have "if (r, v) \<in> ?E\<^sup>* then \<exists>p. map_of ps' v = Some p \<and> positionIn devices r v p
      else map_of ps' v = map_of ps v" for v
    using look [of v] best [of v] tl by (auto simp: positionIn_def gm_simps)
  with ps' show ?thesis by (auto simp: placeTree_def s)
qed

section \<open>The whole election\<close>

text \<open>The trees of the bridges in \<open>bs\<close> are placed, each at a root with the least identifier.\<close>

definition elected :: "Bridge list \<Rightarrow> nat set \<Rightarrow> positions \<Rightarrow> bool" where
  "elected devices bs ps \<longleftrightarrow> gm_wf ps \<and> dom (map_of ps) = {v. \<exists>b \<in> bs. (b, v) \<in> (joined devices)\<^sup>*} \<and>
     (\<forall>b \<in> bs. \<exists>r. (b, r) \<in> (joined devices)\<^sup>* \<and>
        (\<forall>v. (b, v) \<in> (joined devices)\<^sup>* \<longrightarrow> stpBridgeID (devices ! r) \<le> stpBridgeID (devices ! v) \<and>
           (\<exists>p. map_of ps v = Some p \<and> positionIn devices r v p)))"

lemma electBridge_step:
  assumes visit: "set visit = bridges devices" and n: "length devices < 2 ^ 30"
    and links: "links = buildLinks devices (bridgesByName devices) visit"
    and el: "elected devices bs ps" and b: "b \<in> bridges devices"
    and least: "\<And>v. v \<in> bridges devices \<Longrightarrow> v \<notin> bs \<Longrightarrow> stpBridgeID (devices ! b) \<le> stpBridgeID (devices ! v)"
  shows "\<exists>ps'. electBridge devices links (Some ps) b = Some ps' \<and> elected devices (insert b bs) ps'"
proof (cases "gm_has ps b")
  case True
  then have "b \<in> dom (map_of ps)" by (auto simp: gm_has_def)
  then obtain c where c: "c \<in> bs" "(c, b) \<in> (joined devices)\<^sup>*" using el by (auto simp: elected_def)
  then have same: "(b, v) \<in> (joined devices)\<^sup>* \<longleftrightarrow> (c, v) \<in> (joined devices)\<^sup>*" for v
    using net.same_component by blast
  have "elected devices (insert b bs) ps"
    using el c(1) unfolding elected_def by (simp add: same) blast
  with True show ?thesis by (simp add: electBridge_def)
next
  case False
  let ?E = "joined devices"
  have wf: "gm_wf ps" using el by (simp add: elected_def)
  have fresh: "(c, v) \<notin> ?E\<^sup>*" if "c \<in> bs" "(b, v) \<in> ?E\<^sup>*" for c v
  proof
    assume "(c, v) \<in> ?E\<^sup>*"
    then have "(c, b) \<in> ?E\<^sup>*" using net.connected_sym [OF that(2)] by (rule rtrancl_trans)
    moreover have "b \<notin> dom (map_of ps)" using False by (auto simp: gm_has_def)
    ultimately show False using el that(1) by (auto simp: elected_def)
  qed
  from placeTree_places [OF b visit n links wf] obtain ps' where
    ps': "placeTree devices b links ps = Some ps'" "gm_wf ps'"
    and look: "\<And>v. if (b, v) \<in> ?E\<^sup>* then \<exists>p. map_of ps' v = Some p \<and> positionIn devices b v p else map_of ps' v = map_of ps v"
    by blast
  have low: "stpBridgeID (devices ! b) \<le> stpBridgeID (devices ! v)" if "(b, v) \<in> ?E\<^sup>*" for v
    using that fresh [of v v] component_bridges [OF that b] by (intro least) auto
  have kept: "map_of ps' v = map_of ps v" if "c \<in> bs" "(c, v) \<in> ?E\<^sup>*" for c v
  proof -
    have "(b, v) \<notin> ?E\<^sup>*" using fresh that by blast
    with look [of v] show ?thesis by simp
  qed
  have "\<exists>r. (c, r) \<in> ?E\<^sup>* \<and> (\<forall>v. (c, v) \<in> ?E\<^sup>* \<longrightarrow> stpBridgeID (devices ! r) \<le> stpBridgeID (devices ! v) \<and>
           (\<exists>p. map_of ps' v = Some p \<and> positionIn devices r v p))" if "c \<in> insert b bs" for c
  proof (cases "c = b")
    case True
    have "\<forall>v. (b, v) \<in> ?E\<^sup>* \<longrightarrow> stpBridgeID (devices ! b) \<le> stpBridgeID (devices ! v) \<and>
           (\<exists>p. map_of ps' v = Some p \<and> positionIn devices b v p)"
      using low look by (simp split: if_splits)
    with True show ?thesis by blast
  next
    case False
    with that have c: "c \<in> bs" by simp
    then show ?thesis using el kept [OF c] by (simp add: elected_def)
  qed
  moreover have "dom (map_of ps') = {v. \<exists>c \<in> insert b bs. (c, v) \<in> ?E\<^sup>*}"
  proof -
    have "v \<in> dom (map_of ps') \<longleftrightarrow> (b, v) \<in> ?E\<^sup>* \<or> v \<in> dom (map_of ps)" for v
      using look [of v] by (cases "(b, v) \<in> ?E\<^sup>*") (auto simp: dom_def)
    with el show ?thesis by (auto simp: elected_def)
  qed
  ultimately have "elected devices (insert b bs) ps'" using ps'(2) unfolding elected_def by blast
  with ps'(1) False show ?thesis by (auto simp: electBridge_def)
qed

lemma foldl_electBridge:
  assumes "set visit = bridges devices" "length devices < 2 ^ 30"
    and "links = buildLinks devices (bridgesByName devices) visit"
    and "elected devices (set xs) ps" "set (xs @ ys) = bridges devices"
    and "sorted (map (\<lambda>d. stpBridgeID (devices ! d)) (xs @ ys))"
  shows "\<exists>ps'. foldl (electBridge devices links) (Some ps) ys = Some ps' \<and> elected devices (bridges devices) ps'"
  using assms(4-6)
proof (induction ys arbitrary: xs ps)
  case Nil
  then show ?case by simp
next
  case (Cons b ys)
  have "\<exists>ps'. electBridge devices links (Some ps) b = Some ps' \<and> elected devices (insert b (set xs)) ps'"
    using Cons.prems by (intro electBridge_step [OF assms(1-3)]) (auto simp: sorted_append)
  then obtain ps' where "electBridge devices links (Some ps) b = Some ps'" "elected devices (set (xs @ [b])) ps'" by auto
  with Cons.IH [of "xs @ [b]" ps'] Cons.prems(2,3) show ?case by simp
qed

lemma electSpanningTree_elects:
  assumes "set visit = bridges devices" "set collect = bridges devices" "length devices < 2 ^ 30"
  shows "\<exists>ps. electSpanningTree visit collect devices = Some ps \<and> elected devices (bridges devices) ps"
proof -
  have "elected devices (set []) []" by (simp add: elected_def)
  from foldl_electBridge [OF assms(1,3) refl this, of "sortedByBridgeID devices collect"] assms(2)
  show ?thesis by (simp add: electSpanningTree_def Let_def sortedByBridgeID_def)
qed

lemma bestLink_unique:
  assumes "bestLink devices L l" "bestLink devices L l'" "inj_on (\<lambda>d. stpBridgeID (devices ! d)) (lkRemote ` L)"
  shows "l = l'"
proof -
  have mem: "lkRemote l \<in> lkRemote ` L" "lkRemote l' \<in> lkRemote ` L" using assms(1,2) by (auto simp: bestLink_def)
  have "stpBridgeID (devices ! lkRemote l) = stpBridgeID (devices ! lkRemote l')"
    using assms(1,2) by (auto simp: bestLink_def intro: order.antisym)
  then have r: "lkRemote l = lkRemote l'" using assms(3) mem by (auto dest: inj_onD)
  then have "lkLocal l = lkLocal l'" using assms(1,2) by (auto simp: bestLink_def intro: order.antisym)
  with r show ?thesis by simp
qed

lemma positionIn_unique:
  assumes "positionIn devices r v p" "positionIn devices r v q" "inj_on (\<lambda>d. stpBridgeID (devices ! d)) (bridges devices)"
  shows "p = q"
proof -
  have "lkRemote ` upstreamLinks devices r v \<subseteq> bridges devices"
  proof
    fix w assume "w \<in> lkRemote ` upstreamLinks devices r v"
    then have "(v, w) \<in> joined devices" by (auto simp: upstreamLinks_def joined_links)
    then show "w \<in> bridges devices" by (simp add: joined_bridges)
  qed
  then have inj: "inj_on (\<lambda>d. stpBridgeID (devices ! d)) (lkRemote ` upstreamLinks devices r v)"
    by (rule inj_on_subset [OF assms(3)])
  have "psRootInterface p = psRootInterface q \<and> psUpstream p = psUpstream q"
  proof (cases "v = r")
    case True
    with assms(1,2) show ?thesis by (simp add: positionIn_def)
  next
    case False
    with assms(1,2) obtain l l' where "bestLink devices (upstreamLinks devices r v) l"
      "bestLink devices (upstreamLinks devices r v) l'"
      "psRootInterface p = lkLocal l" "psUpstream p = stpBridgeID (devices ! lkRemote l)"
      "psRootInterface q = lkLocal l'" "psUpstream q = stpBridgeID (devices ! lkRemote l')"
      by (auto simp: positionIn_def)
    with bestLink_unique [OF _ _ inj] show ?thesis by metis
  qed
  moreover have "psCost p = psCost q" using assms(1,2) by (simp add: positionIn_def word_unat_eq_iff)
  ultimately show ?thesis using assms(1,2) by (simp add: positionIn_def)
qed

section \<open>Properties\<close>

text \<open>Three switches in a triangle and a fourth switch on its own, with authored priorities.\<close>

definition sampleTrunk :: "string \<Rightarrow> string \<Rightarrow> string \<Rightarrow> TrunkPort" where
  "sampleTrunk i d ri = \<lparr>tpInterface = i, tpVLANs = [], tpNativeVLAN = 1, tpRemoteDevice = d, tpRemoteInterface = ri, tpFDBOnly = False\<rparr>"

definition sampleBridge :: "string \<Rightarrow> 16 word \<Rightarrow> 8 word \<Rightarrow> TrunkPort list \<Rightarrow> Bridge" where
  "sampleBridge n priority b ts = \<lparr>bdName = n, bdMACAddress = [2, 0, 0, 0, 0, b],
     bdSTPConfig = Some \<lparr>stEnabled = True, stBridgePriority = priority, stHelloTime = 0, stMaxAge = 0, stForwardDelay = 0\<rparr>, bdTrunkPorts = ts\<rparr>"

definition sampleLan :: "Bridge list" where
  "sampleLan = [sampleBridge ''a'' 8192 1 [sampleTrunk ''p1'' ''b'' ''p1''], sampleBridge ''b'' 4096 2 [sampleTrunk ''p2'' ''c'' ''p1''],
     sampleBridge ''c'' 0 3 [sampleTrunk ''p2'' ''a'' ''p2''], sampleBridge ''d'' 0 4 []]"

lemma sampleLan_bridges: "bridges sampleLan = {0, 1, 2, 3}"
  unfolding byName_values [symmetric] by code_simp

lemma sampleLan_length: "length sampleLan = 4"
  by (simp add: sampleLan_def)



text \<open>When the bridges of a table have distinct identifiers, the elected tree does
  not depend on the order in which Go visits its maps.\<close>

theorem election_order_free:
  assumes "set visit = bridges devices" "set collect = bridges devices" "set visit' = bridges devices" "set collect' = bridges devices"
    and "length devices < 2 ^ 30" "inj_on (\<lambda>d. stpBridgeID (devices ! d)) (bridges devices)"
  shows "electSpanningTree visit collect devices = electSpanningTree visit' collect' devices"
proof -
  obtain ps qs where ps: "electSpanningTree visit collect devices = Some ps" "elected devices (bridges devices) ps"
    and qs: "electSpanningTree visit' collect' devices = Some qs" "elected devices (bridges devices) qs"
    using electSpanningTree_elects assms(1-5) by metis
  have "map_of ps v = map_of qs v" for v
  proof (cases "v \<in> bridges devices")
    case True
    obtain r p where r: "(v, r) \<in> (joined devices)\<^sup>*" "\<And>w. (v, w) \<in> (joined devices)\<^sup>* \<Longrightarrow> stpBridgeID (devices ! r) \<le> stpBridgeID (devices ! w)"
      "map_of ps v = Some p" "positionIn devices r v p"
      using ps(2) True unfolding elected_def by blast
    obtain r' q where r': "(v, r') \<in> (joined devices)\<^sup>*" "\<And>w. (v, w) \<in> (joined devices)\<^sup>* \<Longrightarrow> stpBridgeID (devices ! r') \<le> stpBridgeID (devices ! w)"
      "map_of qs v = Some q" "positionIn devices r' v q"
      using qs(2) True unfolding elected_def by blast
    have "stpBridgeID (devices ! r) = stpBridgeID (devices ! r')" using r(2) [OF r'(1)] r'(2) [OF r(1)] by simp
    then have "r = r'" by (rule inj_onD [OF assms(6) _ component_bridges [OF r(1) True] component_bridges [OF r'(1) True]])
    with positionIn_unique [OF r(4) _ assms(6)] r(3) r'(3,4) show ?thesis by simp
  next
    case False
    then have "v \<notin> dom (map_of ps)" "v \<notin> dom (map_of qs)"
      using ps(2) qs(2) by (auto simp: elected_def dest: component_bridges)
    then show ?thesis by (metis domIff)
  qed
  then have "ps = qs" using ps(2) qs(2) by (intro gm_ext) (auto simp: elected_def)
  with ps(1) qs(1) show ?thesis by simp
qed

theorem election_order_free_witness:
  "electSpanningTree [0, 1, 2, 3] [3, 2, 1, 0] sampleLan = electSpanningTree [2, 0, 3, 1] [0, 1, 2, 3] sampleLan"
proof -
  have "inj_on (\<lambda>d. stpBridgeID (sampleLan ! d)) (bridges sampleLan)"
    unfolding sampleLan_bridges
    by (simp add: inj_on_def sampleLan_def sampleBridge_def stpBridgeID_def makeBridgeID_def macShift_def SizeOfMac_def stpDefaultBridgePri_def upt_rec)
  then show ?thesis
    by (intro election_order_free) (auto simp: sampleLan_bridges sampleLan_length)
qed

end
