(* ===== verification/Go_Bytes.thy ===== *)
theory Go_Bytes
  imports Safeconv
begin

text \<open>
  Byte slices and big-endian integers (\<open>encoding/binary\<close>) as the packet builders and parsers use them.  A byte
  slice is an \<open>8 word list\<close>; \<open>beBytes n v\<close> is what \<open>binary.BigEndian.AppendUint\<close> appends for an \<open>n\<close>-byte integer and \<open>beRead\<close>
  what \<open>binary.BigEndian.Uint\<close> reads from the bytes it is given.  The slice expression \<open>b[i:j]\<close> is \<open>slice i j b\<close>, used where
  the bounds have been checked.
\<close>

unbundle bit_operations_syntax

type_synonym bytes = "8 word list"

definition beBytes :: "nat \<Rightarrow> 'a::len word \<Rightarrow> bytes" where
  "beBytes n v = map (\<lambda>i. ucast (drop_bit (8 * i) v)) (rev [0..<n])"

definition beRead :: "bytes \<Rightarrow> 'a::len word" where
  "beRead bs = foldl (\<lambda>v b. push_bit 8 v OR ucast b) 0 bs"

definition slice :: "nat \<Rightarrow> nat \<Rightarrow> 'a list \<Rightarrow> 'a list" where
  "slice i j bs = take (j - i) (drop i bs)"

text \<open>The little-endian forms.\<close>

definition leBytes :: "nat \<Rightarrow> 'a::len word \<Rightarrow> bytes" where
  "leBytes n v = rev (beBytes n v)"

definition leRead :: "bytes \<Rightarrow> 'a::len word" where
  "leRead bs = beRead (rev bs)"

lemma length_beBytes [simp]: "length (beBytes n v) = n"
  by (simp add: beBytes_def)

lemma length_slice [simp]: "j \<le> length bs \<Longrightarrow> length (slice i j bs) = j - i"
  by (simp add: slice_def)

lemma beBytes_Suc: "beBytes (Suc n) v = ucast (drop_bit (8 * n) v) # beBytes n v"
  by (simp add: beBytes_def)

lemma beBytes_0 [simp]: "beBytes 0 v = []"
  by (simp add: beBytes_def)

text \<open>One byte shifted in under the higher ones gives the value read so far.\<close>

lemma byte_shifted_in:
  fixes v :: "'a::len word"
  shows "push_bit 8 (drop_bit (8 * Suc n) v) OR ucast (ucast (drop_bit (8 * n) v) :: 8 word) = drop_bit (8 * n) v"
  by (rule bit_word_eqI) (auto simp: bit_simps algebra_simps not_less)

lemma beRead_from:
  fixes v :: "'a::len word"
  shows "foldl (\<lambda>v b. push_bit 8 v OR ucast b) (drop_bit (8 * n) v) (beBytes n v) = v"
proof (induction n)
  case 0
  then show ?case by simp
next
  case (Suc n)
  then show ?case by (simp only: beBytes_Suc foldl_Cons byte_shifted_in)
qed

lemma beRead_beBytes: "LENGTH('a) \<le> 8 * n \<Longrightarrow> beRead (beBytes n (v :: 'a::len word)) = v"
  using beRead_from [of n v] by (simp add: beRead_def drop_bit_word_beyond)

lemma ByteFromUint64_ucast: "ByteFromUint64 v = ucast v"
proof -
  have "v AND 255 = take_bit 8 v" by (simp add: take_bit_eq_mask mask_eq_exp_minus_1)
  then show ?thesis unfolding ByteFromUint64_def by (intro bit_word_eqI) (auto simp: bit_simps)
qed

lemma ByteFromUint16_ucast: "ByteFromUint16 v = ucast v"
proof -
  have "v AND 255 = take_bit 8 v" by (simp add: take_bit_eq_mask mask_eq_exp_minus_1)
  then show ?thesis unfolding ByteFromUint16_def by (intro bit_word_eqI) (auto simp: bit_simps)
qed

text \<open>Reading a field that was written into the middle of a buffer.\<close>

lemma slice_field: "length pre = i \<Longrightarrow> j = i + length xs \<Longrightarrow> slice i j (pre @ xs @ post) = xs"
  by (simp add: slice_def)

lemma slice_append: "j \<le> length xs \<Longrightarrow> slice i j (xs @ ys) = slice i j xs"
  by (cases "i \<le> j") (simp_all add: slice_def)

lemma slice_take: "j \<le> n \<Longrightarrow> slice i j (take n xs) = slice i j xs"
  by (simp add: slice_def drop_take)

lemma length_leBytes [simp]: "length (leBytes n v) = n"
  by (simp add: leBytes_def)

lemma leRead_leBytes: "LENGTH('a) \<le> 8 * n \<Longrightarrow> leRead (leBytes n (v :: 'a::len word)) = v"
  by (simp add: leRead_def leBytes_def beRead_beBytes)

text \<open>The clamping conversions keep a number that fits.\<close>

lemma clamped_of_nat:
  assumes "\<And>v. uint (f v :: 'b::len word) = clamp 0 m (sint v)" "int n \<le> m" "n < 2 ^ 63"
  shows "f (of_nat n :: 64 word) = of_nat n"
proof -
  have "sint (of_nat n :: 64 word) = int n"
    using assms(3) by (simp add: signed_of_nat signed_take_bit_int_eq_self)
  then have "uint (f (of_nat n)) = int n" using assms(1) [of "of_nat n"] assms(2) by (simp add: clamp_def)
  then have "word_of_int (uint (f (of_nat n))) = (word_of_int (int n) :: 'b word)" by (rule arg_cong)
  then show ?thesis by simp
qed

lemma Uint32_of_nat: "n < 2 ^ 32 \<Longrightarrow> Uint32 (of_nat n) = of_nat n"
  by (rule clamped_of_nat [where m = 4294967295]) (rule unsigned_clamp [OF Uint32_def], simp_all)

lemma Uint16_of_nat: "n < 2 ^ 16 \<Longrightarrow> Uint16 (of_nat n) = of_nat n"
  by (rule clamped_of_nat [where m = 65535]) (rule unsigned_clamp [OF Uint16_def], simp_all)

lemma Byte_of_nat: "n < 2 ^ 8 \<Longrightarrow> Byte (of_nat n) = of_nat n"
  by (rule clamped_of_nat [where m = 255]) (rule unsigned_clamp [OF Byte_def], simp_all)

lemma Uint8_of_nat: "n < 2 ^ 8 \<Longrightarrow> Uint8 (of_nat n) = of_nat n"
  by (rule clamped_of_nat [where m = 255]) (rule unsigned_clamp [OF Uint8_def], simp_all)

end
