(* ===== verification/Stp_Bpdu.thy ===== *)
theory Stp_Bpdu
  imports Stp_Election Go_Bytes Go_Net
begin

text \<open>
  The spanning tree handler (\<open>internal/protocols/stp.go\<close>): the configuration BPDUs the bridges originate, byte by
  byte, the pacing of their hellos, and the parsing of received BPDUs.  A received BPDU is only logged, so \<open>HandlePacket\<close>
  returns what it would log.  The stack's spanning tree (\<open>Stack.spanningTree\<close>) and its serial number are
  arguments; a sent packet is appended to the list the caller collects.  Times are nanoseconds; \<open>now.Sub\<close>
  saturates beyond 292 years, past any hello time, so the comparison it is used in is the exact one.
\<close>

unbundle bit_operations_syntax

section \<open>Handler state and parameters\<close>

record STPHandler =
  hdBridgePriority :: "16 word"
  hdHelloTime :: "16 word"
  hdMaxAge :: "16 word"
  hdForwardDelay :: "16 word"

definition DefaultHelloTime :: "16 word" where "DefaultHelloTime = 2"

definition DefaultMaxAge :: "16 word" where "DefaultMaxAge = 20"

definition DefaultForwardDelay :: "16 word" where "DefaultForwardDelay = 15"

definition NewSTPHandler :: STPHandler where
  "NewSTPHandler = \<lparr>hdBridgePriority = stpDefaultBridgePri, hdHelloTime = DefaultHelloTime,
     hdMaxAge = DefaultMaxAge, hdForwardDelay = DefaultForwardDelay\<rparr>"

definition SetBridgePriority :: "16 word \<Rightarrow> STPHandler \<Rightarrow> STPHandler" where
  "SetBridgePriority priority h = h\<lparr>hdBridgePriority := priority\<rparr>"

definition STPStateForwarding :: nat where "STPStateForwarding = 4"

definition GetPortState :: "STPHandler \<Rightarrow> nat" where
  "GetPortState h = STPStateForwarding"

record stpParams =
  spBridgePriority :: "16 word"
  spHelloTime :: "16 word"
  spMaxAge :: "16 word"
  spForwardDelay :: "16 word"

definition authoredOr :: "16 word \<Rightarrow> 16 word \<Rightarrow> 16 word" where
  "authoredOr v dflt = (if 0 < v then v else dflt)"

definition getSTPParams :: "STPHandler \<Rightarrow> Bridge \<Rightarrow> stpParams" where
  "getSTPParams h device =
     (case bdSTPConfig device of
        None \<Rightarrow> \<lparr>spBridgePriority = hdBridgePriority h, spHelloTime = hdHelloTime h, spMaxAge = hdMaxAge h, spForwardDelay = hdForwardDelay h\<rparr>
      | Some c \<Rightarrow> \<lparr>spBridgePriority = authoredOr (stBridgePriority c) (hdBridgePriority h),
          spHelloTime = authoredOr (stHelloTime c) (hdHelloTime h),
          spMaxAge = authoredOr (stMaxAge c) (hdMaxAge h),
          spForwardDelay = authoredOr (stForwardDelay c) (hdForwardDelay h)\<rparr>)"

section \<open>Building a BPDU\<close>

definition STPMulticastMAC :: string where "STPMulticastMAC = ''01:80:C2:00:00:00''"

definition stpDefaultPortID :: "16 word" where "stpDefaultPortID = 0x8001"

definition stpTimerScale :: "16 word" where "stpTimerScale = 256"

definition appendBridgeID :: "bytes \<Rightarrow> 64 word \<Rightarrow> bytes" where
  "appendBridgeID buf bridgeID = buf @
     [ByteFromUint64 (drop_bit 56 bridgeID), ByteFromUint64 (drop_bit 48 bridgeID), ByteFromUint64 (drop_bit 40 bridgeID),
      ByteFromUint64 (drop_bit 32 bridgeID), ByteFromUint64 (drop_bit 24 bridgeID), ByteFromUint64 (drop_bit 16 bridgeID),
      ByteFromUint64 (drop_bit 8 bridgeID), ByteFromUint64 bridgeID]"

definition buildBPDUHeader :: "bytes \<Rightarrow> bytes \<Rightarrow> 8 word \<Rightarrow> bytes" where
  "buildBPDUHeader dstMAC srcMAC flags =
     dstMAC @ srcMAC @ [0x00, 0x26] @ [0x42, 0x42, 0x03] @ [0x00, 0x00, 0x00, 0x00] @ [flags]"

definition scaledTimer :: "16 word \<Rightarrow> bytes" where
  "scaledTimer t = [ucast (drop_bit 8 (t * stpTimerScale)), ByteFromUint16 (t * stpTimerScale)]"

definition appendBPDUTimers :: "bytes \<Rightarrow> stpParams \<Rightarrow> bytes" where
  "appendBPDUTimers buf params =
     buf @ [0x00, 0x00] @ scaledTimer (spMaxAge params) @ scaledTimer (spHelloTime params) @ scaledTimer (spForwardDelay params)"

definition padTo :: "nat \<Rightarrow> bytes \<Rightarrow> bytes" where
  "padTo n buf = buf @ replicate (n - length buf) 0"

record StpPacket =
  bpBuffer :: bytes
  bpSerialNumber :: nat
  bpDevice :: nat

datatype stpError = ErrDeviceNoMACAddress | ErrMulticastMAC

text \<open>\<open>SendConfigBPDU\<close>: the error, the packets sent and the stack's serial number afterwards.\<close>

definition SendConfigBPDU :: "STPHandler \<Rightarrow> positions \<Rightarrow> Bridge list \<Rightarrow> nat \<Rightarrow> nat \<Rightarrow> (stpError option \<times> StpPacket list) \<times> nat" where
  "SendConfigBPDU h spanningTree devices d serial =
     (let device = devices ! d in
      if length (bdMACAddress device) = 0 then ((Some ErrDeviceNoMACAddress, []), serial)
      else if (case bdSTPConfig device of None \<Rightarrow> False | Some c \<Rightarrow> \<not> stEnabled c) then ((None, []), serial)
      else case ParseMAC STPMulticastMAC of
        None \<Rightarrow> ((Some ErrMulticastMAC, []), serial)
      | Some dst \<Rightarrow>
          let params = getSTPParams h device;
              buf = buildBPDUHeader (map of_nat dst) (bdMACAddress device) 0;
              bridgeID = makeBridgeID (spBridgePriority params) (bdMACAddress device);
              position = (case map_of spanningTree d of
                Some p \<Rightarrow> p
              | None \<Rightarrow> \<lparr>psRoot = bridgeID, psCost = 0, psRootInterface = [], psUpstream = 0\<rparr>);
              buf = appendBridgeID buf (psRoot position);
              buf = buf @ beBytes 4 (psCost position);
              buf = appendBridgeID buf bridgeID;
              buf = buf @ [ucast (drop_bit 8 stpDefaultPortID), ByteFromUint16 stpDefaultPortID];
              buf = padTo 64 (appendBPDUTimers buf params)
          in ((None, [\<lparr>bpBuffer = buf, bpSerialNumber = Suc serial, bpDevice = d\<rparr>]), Suc serial))"

section \<open>Parsing a BPDU\<close>

record ConfigBPDU =
  cbFlags :: "8 word"
  cbRootID :: "64 word"
  cbRootPathCost :: "32 word"
  cbBridgeID :: "64 word"
  cbPortID :: "16 word"

datatype stpLog = PacketTooShort | InvalidLLC | InvalidProtocolID "16 word" | ConfigTooShort
  | ReceivedConfig ConfigBPDU | ReceivedTCN | UnknownBPDUType "8 word"

definition handleConfigBPDU :: "bytes \<Rightarrow> nat \<Rightarrow> stpLog" where
  "handleConfigBPDU buf offset =
     (let data = drop offset buf in
      if length data < 35 then ConfigTooShort
      else ReceivedConfig \<lparr>cbFlags = data ! 4, cbRootID = beRead (slice 5 13 data), cbRootPathCost = beRead (slice 13 17 data),
             cbBridgeID = beRead (slice 17 25 data), cbPortID = beRead (slice 25 27 data)\<rparr>)"

definition HandlePacket :: "bytes \<Rightarrow> stpLog" where
  "HandlePacket buf =
     (if length buf < 38 then PacketTooShort
      else if buf ! 14 \<noteq> 0x42 \<or> buf ! 15 \<noteq> 0x42 then InvalidLLC
      else let protocolID = beRead (slice 17 19 buf); bpduType = buf ! 20 in
        if protocolID \<noteq> 0 then InvalidProtocolID protocolID
        else if bpduType = 0x00 then handleConfigBPDU buf 17
        else if bpduType = 0x80 then ReceivedTCN
        else UnknownBPDUType bpduType)"

section \<open>Hello pacing\<close>

definition secondNs :: int where "secondNs = 1000000000"

definition helloOf :: "STPHandler \<Rightarrow> Bridge \<Rightarrow> int" where
  "helloOf h device = int (unat (spHelloTime (getSTPParams h device))) * secondNs"

record StpRun =
  srNext :: "(nat, int) gomap"
  srSent :: "StpPacket list"
  srSerial :: nat

text \<open>The loop body of \<open>sendDueBPDUs\<close>.  \<open>advertises\<close> is the answer of \<open>fabric.advertisesAtClient\<close>, constantly true without a
  fabric.\<close>

definition dueStep :: "STPHandler \<Rightarrow> positions \<Rightarrow> Bridge list \<Rightarrow> (nat \<Rightarrow> bool) \<Rightarrow> int \<Rightarrow> (nat, int) gomap \<Rightarrow> StpRun \<Rightarrow> nat \<Rightarrow> StpRun" where
  "dueStep h tree devices advertises now due s d =
     (if \<not> stpEnabled (devices ! d) \<or> \<not> advertises d then s
      else case map_of due d of
        Some at \<Rightarrow>
          if now < at then s\<lparr>srNext := gm_put d at (srNext s)\<rparr>
          else (case SendConfigBPDU h tree devices d (srSerial s) of
            ((err, pkts), serial) \<Rightarrow>
              let hello = helloOf h (devices ! d); at = (if hello \<le> now - at then now else at)
              in s\<lparr>srNext := gm_put d (at + hello) (srNext s), srSent := srSent s @ pkts, srSerial := serial\<rparr>)
      | None \<Rightarrow>
          (case SendConfigBPDU h tree devices d (srSerial s) of
            ((err, pkts), serial) \<Rightarrow>
              s\<lparr>srNext := gm_put d (now + helloOf h (devices ! d)) (srNext s), srSent := srSent s @ pkts, srSerial := serial\<rparr>))"

definition sendDueBPDUs :: "STPHandler \<Rightarrow> positions \<Rightarrow> Bridge list \<Rightarrow> (nat \<Rightarrow> bool) \<Rightarrow> nat list \<Rightarrow> int \<Rightarrow> StpRun \<Rightarrow> StpRun" where
  "sendDueBPDUs h tree devices advertises allDevices now s =
     foldl (dueStep h tree devices advertises now (srNext s)) (s\<lparr>srNext := []\<rparr>) allDevices"

text \<open>\<open>originate\<close>: a first call at the start and one for each tick, until the context ends.\<close>

definition originate :: "STPHandler \<Rightarrow> positions \<Rightarrow> Bridge list \<Rightarrow> (nat \<Rightarrow> bool) \<Rightarrow> nat list \<Rightarrow> int \<Rightarrow> int list \<Rightarrow> nat \<Rightarrow> StpRun" where
  "originate h tree devices advertises allDevices start ticks serial =
     foldl (\<lambda>s now. sendDueBPDUs h tree devices advertises allDevices now s)
       (sendDueBPDUs h tree devices advertises allDevices start \<lparr>srNext = [], srSent = [], srSerial = serial\<rparr>) ticks"

section \<open>A BPDU is read back as it was sent\<close>

lemma appendBridgeID_eq: "appendBridgeID buf v = buf @ beBytes 8 v"
  by (simp add: appendBridgeID_def beBytes_def ByteFromUint64_ucast eval_nat_numeral)

lemma multicast_mac: "ParseMAC STPMulticastMAC = Some [1, 128, 194, 0, 0, 0]"
  by code_simp

lemma port_bytes: "[ucast (drop_bit 8 stpDefaultPortID), ByteFromUint16 stpDefaultPortID] = beBytes 2 stpDefaultPortID"
  by (simp add: beBytes_def ByteFromUint16_ucast eval_nat_numeral)

definition ownBridgeID :: "STPHandler \<Rightarrow> Bridge \<Rightarrow> 64 word" where
  "ownBridgeID h device = makeBridgeID (spBridgePriority (getSTPParams h device)) (bdMACAddress device)"

lemma ownBridgeID_default: "ownBridgeID NewSTPHandler device = stpBridgeID device"
  by (simp add: ownBridgeID_def stpBridgeID_def getSTPParams_def NewSTPHandler_def authoredOr_def split: option.splits)

definition bpduBody :: "64 word \<Rightarrow> 32 word \<Rightarrow> 64 word \<Rightarrow> bytes" where
  "bpduBody root cost own = beBytes 8 root @ beBytes 4 cost @ beBytes 8 own @ beBytes 2 stpDefaultPortID"

lemma HandlePacket_body:
  assumes "length hdr = 14"
  shows "HandlePacket (hdr @ [0x42, 0x42, 0x03] @ [0, 0, 0, 0] @ [flags] @ bpduBody root cost own @ rest) =
    (if length rest < 8 then ConfigTooShort
     else ReceivedConfig \<lparr>cbFlags = flags, cbRootID = root, cbRootPathCost = cost, cbBridgeID = own, cbPortID = stpDefaultPortID\<rparr>)"
  (is "HandlePacket ?buf = _")
proof -
  let ?data = "[0, 0, 0, 0, flags] @ bpduBody root cost own @ rest"
  have data: "drop 17 ?buf = ?data" using assms by simp
  have len: "length ?buf = 44 + length rest" "length ?data = 27 + length rest"
    using assms by (simp_all add: bpduBody_def)
  have "slice 17 19 ?buf = [0, 0]" by (simp only: slice_def data) simp
  then have proto: "beRead (slice 17 19 ?buf) = (0 :: 16 word)" by (simp add: beRead_def)
  have heads: "?buf ! 14 = 0x42" "?buf ! 15 = 0x42" "?buf ! 20 = 0" using assms by (simp_all add: nth_append)
  have "slice 5 13 ?data = beBytes 8 root" by (simp add: slice_def bpduBody_def)
  moreover have "slice 13 17 ?data = beBytes 4 cost" "slice 17 25 ?data = beBytes 8 own" "slice 25 27 ?data = beBytes 2 stpDefaultPortID"
    by (simp_all add: slice_def bpduBody_def)
  ultimately have "handleConfigBPDU ?buf 17 = (if length rest < 8 then ConfigTooShort
     else ReceivedConfig \<lparr>cbFlags = flags, cbRootID = root, cbRootPathCost = cost, cbBridgeID = own, cbPortID = stpDefaultPortID\<rparr>)"
    unfolding handleConfigBPDU_def data Let_def by (simp add: len [simplified] beRead_beBytes)
  then show ?thesis unfolding HandlePacket_def Let_def proto heads by (simp add: len [simplified] assms)
qed

lemma SendConfigBPDU_enabled:
  assumes "stpEnabled (devices ! d)"
  shows "SendConfigBPDU h tree devices d n =
    ((None, [\<lparr>bpBuffer = padTo 64 (appendBPDUTimers (([1, 128, 194, 0, 0, 0] @ bdMACAddress (devices ! d) @ [0, 0x26]) @
        [0x42, 0x42, 0x03] @ [0, 0, 0, 0] @ [0] @
        bpduBody (case map_of tree d of Some p \<Rightarrow> psRoot p | None \<Rightarrow> ownBridgeID h (devices ! d))
          (case map_of tree d of Some p \<Rightarrow> psCost p | None \<Rightarrow> 0) (ownBridgeID h (devices ! d))) (getSTPParams h (devices ! d))),
      bpSerialNumber = Suc n, bpDevice = d\<rparr>]), Suc n)"
  using assms
  by (cases "map_of tree d")
    (auto simp: stpEnabled_def SendConfigBPDU_def Let_def multicast_mac appendBridgeID_eq port_bytes
      buildBPDUHeader_def bpduBody_def ownBridgeID_def split: option.splits)

text \<open>C38 (bpdu_roundtrip): a bridge that runs STP with a six-byte address sends one 64-byte frame, and parsing
  it gives back the bridge's elected position (its own identifier and cost zero outside the tree), its own
  bridge identifier, the port identifier and clear flags.\<close>

theorem bpdu_roundtrip:
  assumes "stpEnabled (devices ! d)" "length (bdMACAddress (devices ! d)) = 6"
  shows "\<exists>buf. SendConfigBPDU h tree devices d n = ((None, [\<lparr>bpBuffer = buf, bpSerialNumber = Suc n, bpDevice = d\<rparr>]), Suc n) \<and>
     length buf = 64 \<and>
     HandlePacket buf = ReceivedConfig \<lparr>cbFlags = 0,
       cbRootID = (case map_of tree d of Some p \<Rightarrow> psRoot p | None \<Rightarrow> ownBridgeID h (devices ! d)),
       cbRootPathCost = (case map_of tree d of Some p \<Rightarrow> psCost p | None \<Rightarrow> 0),
       cbBridgeID = ownBridgeID h (devices ! d), cbPortID = stpDefaultPortID\<rparr>"
proof -
  let ?hdr = "[1, 128, 194, 0, 0, 0] @ bdMACAddress (devices ! d) @ [0, 0x26]"
  have hdr: "length ?hdr = 14" using assms(2) by simp
  have "HandlePacket (padTo 64 (appendBPDUTimers (?hdr @ [0x42, 0x42, 0x03] @ [0, 0, 0, 0] @ [0] @ bpduBody r c o') p)) =
    ReceivedConfig \<lparr>cbFlags = 0, cbRootID = r, cbRootPathCost = c, cbBridgeID = o', cbPortID = stpDefaultPortID\<rparr>"
    for r c o' p
    unfolding padTo_def appendBPDUTimers_def append.assoc
    by (subst HandlePacket_body [OF hdr, unfolded append.assoc]) (simp add: scaledTimer_def)
  moreover have "length (padTo 64 (appendBPDUTimers (?hdr @ [0x42, 0x42, 0x03] @ [0, 0, 0, 0] @ [0] @ bpduBody r c o') p)) = 64"
    for r c o' p
    using hdr by (simp add: padTo_def appendBPDUTimers_def bpduBody_def scaledTimer_def)
  ultimately show ?thesis by (simp only: SendConfigBPDU_enabled [OF assms(1)]) blast
qed

theorem bpdu_roundtrip_witness:
  "\<exists>buf. SendConfigBPDU NewSTPHandler [] sampleLan 3 0 = ((None, [\<lparr>bpBuffer = buf, bpSerialNumber = 1, bpDevice = 3\<rparr>]), 1) \<and>
     HandlePacket buf = ReceivedConfig \<lparr>cbFlags = 0, cbRootID = stpBridgeID (sampleLan ! 3), cbRootPathCost = 0,
       cbBridgeID = stpBridgeID (sampleLan ! 3), cbPortID = stpDefaultPortID\<rparr>"
proof -
  have "stpEnabled (sampleLan ! 3)" "length (bdMACAddress (sampleLan ! 3)) = 6"
    by (simp_all add: sampleLan_def sampleBridge_def stpEnabled_def)
  from bpdu_roundtrip [OF this, of NewSTPHandler "[]" 0] show ?thesis by (auto simp: ownBridgeID_default)
qed

section \<open>Hellos do not drift\<close>

definition sentBy :: "nat \<Rightarrow> StpRun \<Rightarrow> nat" where
  "sentBy d s = length (filter (\<lambda>p. bpDevice p = d) (srSent s))"

lemma dueStep_other:
  assumes "d' \<noteq> d"
  shows "sentBy d (dueStep h tree devices adv now due s d') = sentBy d s"
    "map_of (srNext (dueStep h tree devices adv now due s d')) d = map_of (srNext s) d"
  using assms
  by (auto simp: dueStep_def sentBy_def SendConfigBPDU_enabled Let_def gm_simps split: option.splits)

lemma dueStep_self:
  assumes "stpEnabled (devices ! d)" "adv d"
  shows "sentBy d (dueStep h tree devices adv now due s d) =
      sentBy d s + (case map_of due d of None \<Rightarrow> 1 | Some at \<Rightarrow> if now < at then 0 else 1)"
    "map_of (srNext (dueStep h tree devices adv now due s d)) d = Some (case map_of due d of
        None \<Rightarrow> now + helloOf h (devices ! d)
      | Some at \<Rightarrow> if now < at then at else (if helloOf h (devices ! d) \<le> now - at then now else at) + helloOf h (devices ! d))"
  using assms
  by (auto simp: dueStep_def sentBy_def SendConfigBPDU_enabled Let_def gm_simps split: option.splits)

lemma foldl_dueStep_other:
  assumes "d \<notin> set xs"
  shows "sentBy d (foldl (dueStep h tree devices adv now due) s xs) = sentBy d s \<and>
    map_of (srNext (foldl (dueStep h tree devices adv now due) s xs)) d = map_of (srNext s) d"
  using assms by (induction xs arbitrary: s) (simp_all add: dueStep_other)

lemma sendDue_device:
  assumes en: "stpEnabled (devices ! d)" "adv d" and "distinct xs" "d \<in> set xs"
  shows "sentBy d (sendDueBPDUs h tree devices adv xs now s) =
      sentBy d s + (case map_of (srNext s) d of None \<Rightarrow> 1 | Some at \<Rightarrow> if now < at then 0 else 1)"
    "map_of (srNext (sendDueBPDUs h tree devices adv xs now s)) d = Some (case map_of (srNext s) d of
        None \<Rightarrow> now + helloOf h (devices ! d)
      | Some at \<Rightarrow> if now < at then at else (if helloOf h (devices ! d) \<le> now - at then now else at) + helloOf h (devices ! d))"
proof -
  obtain ys zs where xs: "xs = ys @ d # zs" "d \<notin> set ys" "d \<notin> set zs"
    using assms(3,4) by (metis distinct.simps(2) distinct_append in_set_conv_decomp_first not_distinct_decomp split_list)
  have *: "sentBy d (s\<lparr>srNext := []\<rparr>) = sentBy d s" by (simp add: sentBy_def)
  show "sentBy d (sendDueBPDUs h tree devices adv xs now s) =
      sentBy d s + (case map_of (srNext s) d of None \<Rightarrow> 1 | Some at \<Rightarrow> if now < at then 0 else 1)"
    "map_of (srNext (sendDueBPDUs h tree devices adv xs now s)) d = Some (case map_of (srNext s) d of
        None \<Rightarrow> now + helloOf h (devices ! d)
      | Some at \<Rightarrow> if now < at then at else (if helloOf h (devices ! d) \<le> now - at then now else at) + helloOf h (devices ! d))"
    using xs(2,3) by (simp_all add: sendDueBPDUs_def xs(1) foldl_dueStep_other dueStep_self [of devices d adv, OF en] *)
qed

text \<open>Ticks that come in order, no further apart than one hello.\<close>

primrec spaced :: "int \<Rightarrow> int \<Rightarrow> int list \<Rightarrow> bool" where
  "spaced hello prev [] = True"
| "spaced hello prev (t # ts) = (prev \<le> t \<and> t \<le> prev + hello \<and> spaced hello t ts)"

lemma paced_ticks:
  assumes en: "stpEnabled (devices ! d)" "adv d" "distinct xs" "d \<in> set xs"
    and hello: "hello = helloOf h (devices ! d)" "0 < hello"
    and due: "map_of (srNext s) d = Some (start + hello * c)" "c = int (sentBy d s)"
      "prev < start + hello * c" "start + hello * c \<le> prev + hello"
    and ticks: "spaced hello prev ticks"
  shows "sentBy d (foldl (\<lambda>s now. sendDueBPDUs h tree devices adv xs now s) s ticks) =
     nat ((last (prev # ticks) - start) div hello + 1)"
  using due ticks
proof (induction ticks arbitrary: s c prev)
  case Nil
  have "(prev - start) div hello = c - 1"
    using Nil.prems(3,4) hello(2) by (intro int_div_pos_eq [where r = "prev - start - hello * (c - 1)"]) (auto simp: algebra_simps)
  with Nil.prems(2) show ?case by simp
next
  case (Cons t ts)
  let ?s = "sendDueBPDUs h tree devices adv xs t s"
  have t: "prev \<le> t" "t \<le> prev + hello" "spaced hello t ts" using Cons.prems(5) by auto
  note sd = sendDue_device [of devices d adv xs, OF en, of h tree t s, unfolded Cons.prems(1) option.case hello(1) [symmetric]]
  show ?case
  proof (cases "t < start + hello * c")
    case True
    with Cons.IH [of ?s c t] sd Cons.prems t show ?thesis by simp
  next
    case False
    then have "\<not> hello \<le> t - (start + hello * c)" using t(2) Cons.prems(3) by simp
    then have "map_of (srNext ?s) d = Some (start + hello * (c + 1))" "c + 1 = int (sentBy d ?s)"
      using False sd Cons.prems(2) by (simp_all add: algebra_simps)
    with Cons.IH [of ?s "c + 1" t] False t Cons.prems(3) show ?thesis by (simp add: algebra_simps)
  qed
qed

text \<open>While the ticks come no further apart than the bridge's hello time, an enabled bridge that is
  visible at the client has sent one BPDU at the start and one for each whole hello time since, however
  the ticks jitter.\<close>

theorem hello_pacing:
  assumes "stpEnabled (devices ! d)" "adv d" "distinct xs" "d \<in> set xs" "0 < hdHelloTime h"
    and "spaced (helloOf h (devices ! d)) start ticks"
  shows "sentBy d (originate h tree devices adv xs start ticks serial) =
     nat ((last (start # ticks) - start) div helloOf h (devices ! d) + 1)"
proof -
  let ?s = "sendDueBPDUs h tree devices adv xs start \<lparr>srNext = [], srSent = [], srSerial = serial\<rparr>"
  have "0 < spHelloTime (getSTPParams h (devices ! d))"
    using assms(5) by (auto simp: getSTPParams_def authoredOr_def split: option.splits)
  then have pos: "0 < helloOf h (devices ! d)" by (simp add: helloOf_def secondNs_def word_less_def)
  note sd = sendDue_device [of devices d adv xs h tree start "\<lparr>srNext = [], srSent = [], srSerial = serial\<rparr>", OF assms(1-4)]
  have "sentBy d ?s = 1" "map_of (srNext ?s) d = Some (start + helloOf h (devices ! d))"
    using sd by (simp_all add: sentBy_def)
  with paced_ticks [of devices d adv xs _ h ?s start 1 start ticks tree, OF assms(1-4) refl pos] pos assms(6) show ?thesis
    by (simp add: originate_def)
qed

theorem hello_pacing_witness:
  "sentBy 3 (originate NewSTPHandler [] sampleLan (\<lambda>_. True) [0, 1, 2, 3] 0 [1100000000, 1990000000, 3200000000, 4000000000] 0) = 3"
proof -
  have "stpEnabled (sampleLan ! 3)" and hello: "helloOf NewSTPHandler (sampleLan ! 3) = 2000000000"
    by (simp_all add: sampleLan_def sampleBridge_def stpEnabled_def helloOf_def getSTPParams_def NewSTPHandler_def
      authoredOr_def DefaultHelloTime_def secondNs_def)
  then show ?thesis
    by (subst hello_pacing) (simp_all add: hello NewSTPHandler_def DefaultHelloTime_def)
qed

end
