(* ===== verification/Tcp_Stream.thy ===== *)
theory Tcp_Stream
  imports Go_Bytes
begin

text \<open>
  The byte-stream services' connections (\<open>internal/protocols/tcp_stream.go\<close>) and the segments that answer them
  (\<open>tcp_stateless.go\<close>).  A connection is named by its two IPv4 address and port pairs.  Times are nanoseconds since Go's zero
  time, so \<open>IsZero\<close> is equality with \<open>0\<close>; the readings of \<open>time.Now\<close> and the order in which \<open>range\<close> visits the table are
  arguments.  The service's answer function is a parameter with the contract of the locale \<open>stream_service\<close>, which the
  theories of the services interpret.  Frame serialisation belongs to a third-party package: a sent segment is the TCP
  header fields and the payload, and \<open>sendFrame\<close> says whether serialising it succeeded.
\<close>

unbundle bit_operations_syntax

section \<open>Connections\<close>

type_synonym addrPort = "32 word \<times> 16 word"
type_synonym streamKey = "addrPort \<times> addrPort"
type_synonym streamAnswer = "bytes \<Rightarrow> bytes \<times> nat \<times> bool"

record serviceStream =
  ssNext :: "32 word"
  ssGreeted :: bool
  ssPending :: bytes
  ssLastSeen :: int

type_synonym streams = "(streamKey, serviceStream) gomap"
type_synonym streamVisit = "(streamKey \<times> serviceStream) list"

definition streamMaxConnections :: nat where "streamMaxConnections = 256"

definition newServiceStreams :: streams where "newServiceStreams = []"

definition zeroKey :: streamKey where "zeroKey = ((0, 0), (0, 0))"

definition oldestStream :: "streamVisit \<Rightarrow> streamKey \<times> int" where
  "oldestStream order =
     foldl (\<lambda>(oldest, oldestSeen) (key, stream).
        if oldestSeen = 0 \<or> ssLastSeen stream < oldestSeen then (key, ssLastSeen stream) else (oldest, oldestSeen))
       (zeroKey, 0) order"

definition evictOldestLocked :: "streamVisit \<Rightarrow> streams \<Rightarrow> streams" where
  "evictOldestLocked order streams = gm_del (fst (oldestStream order)) streams"

definition openStream :: "int \<Rightarrow> streamVisit \<Rightarrow> streamKey \<Rightarrow> 32 word \<Rightarrow> streams \<Rightarrow> streams" where
  "openStream now order key next streams =
     (let streams1 = (if \<not> gm_has streams key \<and> streamMaxConnections \<le> length streams
                      then evictOldestLocked order streams else streams)
      in gm_put key \<lparr>ssNext = next, ssGreeted = False, ssPending = [], ssLastSeen = now\<rparr> streams1)"

definition greet :: "streamKey \<Rightarrow> streams \<Rightarrow> bool \<times> streams" where
  "greet key streams =
     (case map_of streams key of
        None \<Rightarrow> (False, streams)
      | Some stream \<Rightarrow>
          if ssGreeted stream then (False, streams)
          else (True, gm_put key (stream\<lparr>ssGreeted := True\<rparr>) streams))"

definition closeStream :: "streamKey \<Rightarrow> streams \<Rightarrow> streams" where
  "closeStream key streams = gm_del key streams"

text \<open>\<open>safeconv.Uint32(len(payload))\<close>, for a length within Go's \<open>int\<close>.\<close>

definition lenWord :: "'a list \<Rightarrow> 32 word" where
  "lenWord xs = Uint32 (of_nat (length xs))"

definition lookupOrStart :: "streamVisit \<Rightarrow> streamKey \<Rightarrow> 32 word \<Rightarrow> streams \<Rightarrow> serviceStream \<times> streams" where
  "lookupOrStart order key seq streams =
     (case map_of streams key of
        Some stream \<Rightarrow> (stream, streams)
      | None \<Rightarrow>
          let streams1 = (if streamMaxConnections \<le> length streams then evictOldestLocked order streams else streams);
              stream = \<lparr>ssNext = seq, ssGreeted = True, ssPending = [], ssLastSeen = 0\<rparr>
          in (stream, gm_put key stream streams1))"

definition receive ::
  "int \<Rightarrow> streamVisit \<Rightarrow> streamAnswer \<Rightarrow> streamKey \<Rightarrow> 32 word \<Rightarrow> bytes \<Rightarrow> streams \<Rightarrow> (bytes \<times> bool) \<times> streams" where
  "receive now order answer key seq payload streams =
     (let (stream, streams1) = lookupOrStart order key seq streams in
      if seq \<noteq> ssNext stream then
        (if seq + lenWord payload = ssNext stream then (([], True), streams1) else (([], False), streams1))
      else
        let pending = ssPending stream @ payload;
            stream1 = stream\<lparr>ssLastSeen := now, ssNext := ssNext stream + lenWord payload, ssPending := pending\<rparr>;
            (reply, consumed, ended) = answer pending
        in if ended then ((reply, True), gm_del key streams1)
           else ((reply, True), gm_put key (stream1\<lparr>ssPending := drop consumed pending\<rparr>) streams1))"

section \<open>Serving a segment\<close>

record tcpSegment =
  tsSeq :: "32 word"
  tsAck :: "32 word"
  tsSYN :: bool
  tsACK :: bool
  tsFIN :: bool
  tsRST :: bool
  tsPayload :: bytes

record tcpReply =
  trSeq :: "32 word"
  trAck :: "32 word"
  trPSH :: bool
  trFIN :: bool
  trChunk :: bytes

definition statelessMaxSegment :: nat where "statelessMaxSegment = 1460"

definition maxUint32Payload :: nat where "maxUint32Payload = 4294967295"

function segmentLoop :: "(tcpReply \<Rightarrow> bool) \<Rightarrow> tcpSegment \<Rightarrow> 32 word \<Rightarrow> 32 word \<Rightarrow> bytes \<Rightarrow> tcpReply list" where
  "segmentLoop sendFrame tcp consumed seq answer =
     (let chunk = take (min (length answer) statelessMaxSegment) answer;
          rest = drop (length chunk) answer;
          reply = \<lparr>trSeq = seq, trAck = tsSeq tcp + consumed, trPSH = 0 < length chunk,
                   trFIN = tsFIN tcp \<and> length rest = 0, trChunk = chunk\<rparr>
      in if \<not> sendFrame reply then []
         else if length rest = 0 then [reply]
         else reply # segmentLoop sendFrame tcp consumed (seq + lenWord chunk) rest)"
  by pat_completeness auto
termination
  by (relation "measure (\<lambda>(_, _, _, _, answer). length answer)") (auto simp: statelessMaxSegment_def)

declare segmentLoop.simps [simp del]

definition sendStatelessSegment :: "(tcpReply \<Rightarrow> bool) \<Rightarrow> bool \<Rightarrow> tcpSegment \<Rightarrow> bytes \<Rightarrow> tcpReply list" where
  "sendStatelessSegment sendFrame hasIdentity tcp answer =
     (if \<not> hasIdentity then []
      else let consumed = Uint32 (of_nat (min (length (tsPayload tcp)) maxUint32Payload));
               consumed = (if tsFIN tcp then consumed + 1 else consumed)
           in segmentLoop sendFrame tcp consumed (tsAck tcp) answer)"

datatype served = NotHandled | Reset | HandshakeReply | Segments "tcpReply list"

definition serveStream ::
  "int \<Rightarrow> streamVisit \<Rightarrow> (tcpReply \<Rightarrow> bool) \<Rightarrow> bool \<Rightarrow> bool \<Rightarrow> streamAnswer \<Rightarrow> streamKey \<Rightarrow> tcpSegment \<Rightarrow> streams \<Rightarrow> served \<times> streams" where
  "serveStream now order sendFrame hasIdentity hasDevice answer key tcp streams =
     (if \<not> hasDevice then (if tsSYN tcp \<and> \<not> tsACK tcp then (Reset, streams) else (NotHandled, streams))
      else if tsRST tcp then (NotHandled, closeStream key streams)
      else if tsSYN tcp \<and> \<not> tsACK tcp then (HandshakeReply, openStream now order key (tsSeq tcp + 1) streams)
      else if 0 < length (tsPayload tcp) \<or> tsFIN tcp then
        (case receive now order answer key (tsSeq tcp) (tsPayload tcp) streams of
           ((reply, inOrder), streams1) \<Rightarrow>
             if \<not> inOrder then (NotHandled, streams1)
             else (Segments (sendStatelessSegment sendFrame hasIdentity tcp reply),
                   if tsFIN tcp then closeStream key streams1 else streams1))
      else (NotHandled, streams))"

section \<open>The table as a machine\<close>

datatype streamOp = OpOpen streamKey "32 word" | OpGreet streamKey | OpClose streamKey | OpReceive streamKey "32 word" bytes

record streamRun =
  snStreams :: streams
  snLog :: "(streamKey \<times> bytes \<times> bool) list"

text \<open>A step with its clock reading and its order of visit.\<close>

type_synonym timedOp = "int \<times> streamVisit \<times> streamOp"

fun streamStep :: "(streamKey \<Rightarrow> streamAnswer) \<Rightarrow> timedOp \<Rightarrow> streamRun \<Rightarrow> streamRun" where
  "streamStep answers (now, order, OpOpen key next) s = s\<lparr>snStreams := openStream now order key next (snStreams s)\<rparr>"
| "streamStep answers (now, order, OpGreet key) s = s\<lparr>snStreams := snd (greet key (snStreams s))\<rparr>"
| "streamStep answers (now, order, OpClose key) s = s\<lparr>snStreams := closeStream key (snStreams s)\<rparr>"
| "streamStep answers (now, order, OpReceive key seq payload) s =
     (case receive now order (answers key) key seq payload (snStreams s) of
        ((reply, inOrder), streams) \<Rightarrow> s\<lparr>snStreams := streams, snLog := snLog s @ [(key, reply, inOrder)]\<rparr>)"

definition repliesTo :: "streamKey \<Rightarrow> streamRun \<Rightarrow> bytes" where
  "repliesTo k s = concat (map (\<lambda>(_, reply, _). reply) (filter (\<lambda>(key, _). key = k) (snLog s)))"

subsection \<open>Capacity\<close>

text \<open>What the environment guarantees: the clock is past Go's zero time and \<open>range\<close> visits each entry once.\<close>

fun clockedOp :: "timedOp \<Rightarrow> streamRun \<Rightarrow> bool" where
  "clockedOp (now, order, x) s \<longleftrightarrow> 0 < now \<and> set order = set (snStreams s)"

definition streams_inv :: "streams \<Rightarrow> bool" where
  "streams_inv m \<longleftrightarrow> gm_wf m \<and> (\<forall>k v. map_of m k = Some v \<longrightarrow> 0 < ssLastSeen v) \<and> length m \<le> streamMaxConnections"

lemma oldestStream_mem:
  assumes "\<forall>e \<in> set order. 0 < ssLastSeen (snd e)" "order \<noteq> []"
  shows "\<exists>v. (fst (oldestStream order), v) \<in> set order \<and> ssLastSeen v = snd (oldestStream order) \<and>
    (\<forall>e \<in> set order. ssLastSeen v \<le> ssLastSeen (snd e))"
  using assms
proof (induction order rule: rev_induct)
  case Nil
  then show ?case by simp
next
  case (snoc e order)
  have step: "oldestStream (order @ [e]) =
     (if snd (oldestStream order) = 0 \<or> ssLastSeen (snd e) < snd (oldestStream order) then (fst e, ssLastSeen (snd e)) else oldestStream order)"
    by (simp add: oldestStream_def case_prod_unfold)
  show ?case
  proof (cases "order = []")
    case True
    then show ?thesis by (cases e) (auto simp: oldestStream_def)
  next
    case False
    with snoc obtain v where v: "(fst (oldestStream order), v) \<in> set order" "ssLastSeen v = snd (oldestStream order)"
      "\<forall>e \<in> set order. ssLastSeen v \<le> ssLastSeen (snd e)" by auto
    then have "0 < snd (oldestStream order)" using snoc.prems by fastforce
    show ?thesis
    proof (cases "ssLastSeen (snd e) < snd (oldestStream order)")
      case True
      then have "oldestStream (order @ [e]) = (fst e, ssLastSeen (snd e))" by (simp add: step)
      with v True show ?thesis by (intro exI [of _ "snd e"]) fastforce
    next
      case False
      with \<open>0 < snd (oldestStream order)\<close> have "oldestStream (order @ [e]) = oldestStream order" by (simp add: step)
      with v False show ?thesis by (intro exI [of _ v]) auto
    qed
  qed
qed

lemma evict_shrinks:
  assumes "streams_inv m" "set order = set m" "m \<noteq> []"
  shows "streams_inv (evictOldestLocked order m) \<and> length (evictOldestLocked order m) < length m"
proof -
  have wf: "gm_wf m" using assms(1) by (simp add: streams_inv_def)
  have "\<forall>e \<in> set order. 0 < ssLastSeen (snd e)"
    using assms(1,2) by (auto simp: streams_inv_def gm_wf_map_of_mem)
  moreover have "order \<noteq> []" using assms(2,3) by auto
  ultimately obtain v where "(fst (oldestStream order), v) \<in> set m" using oldestStream_mem assms(2) by blast
  then have "map_of m (fst (oldestStream order)) = Some v" by (simp add: gm_wf_map_of_mem [OF wf])
  then have "Suc (length (evictOldestLocked order m)) = length m"
    unfolding evictOldestLocked_def by (rule size_gm_del [OF wf])
  with assms(1) show ?thesis
    by (auto simp: streams_inv_def evictOldestLocked_def gm_simps gm_intros)
qed

lemma streams_inv_put:
  assumes "streams_inv m" "0 < ssLastSeen v" "gm_has m k \<or> length m < streamMaxConnections"
  shows "streams_inv (gm_put k v m)"
  using assms by (auto simp: streams_inv_def gm_simps gm_intros size_gm_put split: if_splits)

lemma streams_inv_del: "streams_inv m \<Longrightarrow> streams_inv (gm_del k m)"
  using size_gm_del [of m k] gm.del_absent [of m k]
  by (cases "map_of m k") (auto simp: streams_inv_def gm_simps gm_intros)

text \<open>Making room for a new connection.\<close>

lemma room_made:
  assumes "streams_inv m" "set order = set m"
  shows "streams_inv (if streamMaxConnections \<le> length m then evictOldestLocked order m else m) \<and>
    length (if streamMaxConnections \<le> length m then evictOldestLocked order m else m) < streamMaxConnections"
proof (cases "streamMaxConnections \<le> length m")
  case True
  then have "m \<noteq> []" by (auto simp: streamMaxConnections_def)
  with True evict_shrinks [OF assms] assms(1) show ?thesis by (auto simp: streams_inv_def)
next
  case False
  with assms show ?thesis by simp
qed

lemma openStream_inv:
  assumes "streams_inv m" "set order = set m" "0 < now"
  shows "streams_inv (openStream now order key next m)"
proof (cases "gm_has m key")
  case True
  with assms show ?thesis by (auto simp: openStream_def Let_def intro: streams_inv_put)
next
  case False
  with assms room_made [OF assms(1,2)] show ?thesis by (auto simp: openStream_def Let_def intro!: streams_inv_put)
qed

lemma greet_inv: "streams_inv m \<Longrightarrow> streams_inv (snd (greet key m))"
proof (cases "map_of m key")
  case (Some v)
  assume inv: "streams_inv m"
  with Some have "0 < ssLastSeen v" unfolding streams_inv_def by blast
  with Some inv show "streams_inv (snd (greet key m))" by (simp add: greet_def streams_inv_put gm_has_def)
qed (simp add: greet_def)

lemma receive_inv:
  assumes "streams_inv m" "set order = set m" "0 < now"
  shows "streams_inv (snd (receive now order answer key seq payload m))"
proof (cases "map_of m key")
  case (Some stream)
  then have "lookupOrStart order key seq m = (stream, m)" "gm_has m key" by (simp_all add: lookupOrStart_def gm_has_def)
  with assms(1,3) show ?thesis
    by (auto simp: receive_def Let_def case_prod_unfold intro!: streams_inv_put streams_inv_del)
next
  case None
  let ?m = "if streamMaxConnections \<le> length m then evictOldestLocked order m else m"
  let ?new = "\<lparr>ssNext = seq, ssGreeted = True, ssPending = [], ssLastSeen = 0\<rparr>"
  have look: "lookupOrStart order key seq m = (?new, gm_put key ?new ?m)"
    using None by (simp add: lookupOrStart_def Let_def)
  have room: "streams_inv ?m" "length ?m < streamMaxConnections" using room_made [OF assms(1,2)] by auto
  then have wf: "gm_wf ?m" by (simp add: streams_inv_def)
  have gone: "map_of ?m key = None" using None by (auto simp: evictOldestLocked_def gm_simps)
  have put: "gm_put key v (gm_put key w ?m) = gm_put key v ?m" for v w by (rule gm.put_overwrites [OF wf])
  have del: "gm_del key (gm_put key w ?m) = ?m" for w by (rule gm.del_undoes_put [OF wf gone])
  show ?thesis
    unfolding receive_def look Let_def case_prod_unfold fst_conv snd_conv put del
    using room assms(3) by (simp add: streams_inv_put)
qed

lemma streamStep_inv: "streams_inv (snStreams s) \<Longrightarrow> clockedOp x s \<Longrightarrow> streams_inv (snStreams (streamStep answers x s))"
  by (cases "(answers, x, s)" rule: streamStep.cases)
    (auto simp: openStream_inv greet_inv closeStream_def streams_inv_del receive_inv case_prod_unfold)

interpretation conns: guarded_machine "streamStep answers" clockedOp "\<lambda>s. streams_inv (snStreams s)" for answers
  by unfold_locales (rule streamStep_inv)

section \<open>Answering a stream in pieces\<close>

text \<open>
  The contract of a service's answer function: it consumes bytes it was given; what it leaves over, put in
  front of later bytes, is answered as if everything had arrived at once; and once it has ended the
  conversation, more bytes change nothing in the reply.
\<close>

locale stream_service =
  fixes answer :: streamAnswer
  assumes idle: "answer [] = ([], 0, False)"
    and consumed_le: "answer xs = (r, c, e) \<Longrightarrow> c \<le> length xs"
    and resumes: "answer xs = (r, c, False) \<Longrightarrow> answer (drop c xs @ ys) = (r', c', e') \<Longrightarrow> answer (xs @ ys) = (r @ r', c + c', e')"
    and final: "answer xs = (r, c, True) \<Longrightarrow> \<exists>c'. answer (xs @ ys) = (r, c', True)"
begin

text \<open>What is left over holds no complete request.\<close>

lemma leftover_waits: "answer xs = (r, c, False) \<Longrightarrow> answer (drop c xs) = ([], 0, False)"
  by (cases "answer (drop c xs)") (use resumes [of xs r c "[]"] in auto)

lemma prefix_open: "\<not> snd (snd (answer (xs @ ys))) \<Longrightarrow> \<not> snd (snd (answer xs))"
proof
  assume "\<not> snd (snd (answer (xs @ ys)))" "snd (snd (answer xs))"
  then obtain r c where "answer xs = (r, c, True)" by (cases "answer xs") auto
  from final [OF this, of ys] \<open>\<not> snd (snd (answer (xs @ ys)))\<close> show False by auto
qed

lemma answer_grows: "\<not> snd (snd (answer xs)) \<Longrightarrow> \<exists>r. fst (answer (xs @ ys)) = fst (answer xs) @ r"
proof -
  assume "\<not> snd (snd (answer xs))"
  then obtain r c where a: "answer xs = (r, c, False)" by (cases "answer xs") auto
  obtain r' c' e' where "answer (drop c xs @ ys) = (r', c', e')" by (cases "answer (drop c xs @ ys)")
  from resumes [OF a this] a show "\<exists>r. fst (answer (xs @ ys)) = fst (answer xs) @ r" by simp
qed

end

primrec acceptedBytes :: "32 word \<Rightarrow> (32 word \<times> bytes) list \<Rightarrow> bytes" where
  "acceptedBytes next [] = []"
| "acceptedBytes next (p # segs) =
     (if fst p = next then snd p @ acceptedBytes (next + lenWord (snd p)) segs else acceptedBytes next segs)"

definition segmentsOf :: "streamKey \<Rightarrow> timedOp list \<Rightarrow> (32 word \<times> bytes) list" where
  "segmentsOf k ops = concat (map (\<lambda>(_, _, x). case x of OpReceive key seq p \<Rightarrow> if key = k then [(seq, p)] else [] | _ \<Rightarrow> []) ops)"

text \<open>An operation that neither opens nor closes connection \<open>k\<close> and, where it makes room for another connection, drops one that is not \<open>k\<close>.\<close>

definition keepsStream :: "streamKey \<Rightarrow> streamVisit \<Rightarrow> streamKey \<Rightarrow> streams \<Rightarrow> bool" where
  "keepsStream k order key m \<longleftrightarrow> gm_has m key \<or> length m < streamMaxConnections \<or> fst (oldestStream order) \<noteq> k"

fun undisturbed :: "streamKey \<Rightarrow> timedOp \<Rightarrow> streamRun \<Rightarrow> bool" where
  "undisturbed k (now, order, OpOpen key next) s \<longleftrightarrow> key \<noteq> k \<and> keepsStream k order key (snStreams s)"
| "undisturbed k (now, order, OpGreet key) s \<longleftrightarrow> True"
| "undisturbed k (now, order, OpClose key) s \<longleftrightarrow> key \<noteq> k"
| "undisturbed k (now, order, OpReceive key seq p) s \<longleftrightarrow> key = k \<or> keepsStream k order key (snStreams s)"

definition sameStream :: "serviceStream option \<Rightarrow> serviceStream option \<Rightarrow> bool" where
  "sameStream a b \<longleftrightarrow> map_option ssNext a = map_option ssNext b \<and> map_option ssPending a = map_option ssPending b"

lemma receive_other:
  assumes "key \<noteq> k" "keepsStream k order key m"
  shows "map_of (snd (receive now order answer key seq p m)) k = map_of m k"
proof (cases "map_of m key")
  case None
  with assms show ?thesis
    by (auto simp: receive_def lookupOrStart_def keepsStream_def evictOldestLocked_def Let_def case_prod_unfold gm_simps gm_has_def)
next
  case (Some v)
  with assms show ?thesis by (simp add: receive_def lookupOrStart_def Let_def case_prod_unfold gm_simps)
qed

lemma openStream_other:
  assumes "key \<noteq> k" "keepsStream k order key m"
  shows "map_of (openStream now order key n m) k = map_of m k"
  using assms by (auto simp: openStream_def keepsStream_def evictOldestLocked_def Let_def gm_simps)

lemma greet_same: "sameStream (map_of (snd (greet key m)) k) (map_of m k)"
proof (cases "map_of m key")
  case None
  then show ?thesis by (simp add: greet_def sameStream_def)
next
  case (Some v)
  then show ?thesis by (cases "key = k") (simp_all add: greet_def sameStream_def gm_simps)
qed

lemma streamStep_other:
  assumes "undisturbed k (now, order, y) s" "\<forall>key seq p. y = OpReceive key seq p \<longrightarrow> key \<noteq> k"
  shows "sameStream (map_of (snStreams (streamStep answers (now, order, y) s)) k) (map_of (snStreams s) k)"
    and "repliesTo k (streamStep answers (now, order, y) s) = repliesTo k s" "segmentsOf k ((now, order, y) # ops) = segmentsOf k ops"
proof -
  show "segmentsOf k ((now, order, y) # ops) = segmentsOf k ops"
    using assms(2) by (cases y) (simp_all add: segmentsOf_def)
  show "repliesTo k (streamStep answers (now, order, y) s) = repliesTo k s"
    using assms(2) by (cases y) (simp_all add: repliesTo_def case_prod_unfold)
  have refl: "sameStream m m" for m by (simp add: sameStream_def)
  show "sameStream (map_of (snStreams (streamStep answers (now, order, y) s)) k) (map_of (snStreams s) k)"
  proof (cases y)
    case (OpOpen key n)
    with assms(1) show ?thesis by (simp add: openStream_other refl)
  next
    case (OpGreet key)
    then show ?thesis by (simp add: greet_same)
  next
    case (OpClose key)
    with assms(1) show ?thesis by (simp add: closeStream_def gm_simps refl)
  next
    case (OpReceive key seq p)
    with assms have "key \<noteq> k" "keepsStream k order key (snStreams s)" by auto
    with OpReceive show ?thesis by (simp add: case_prod_unfold receive_other refl)
  qed
qed

context stream_service
begin

lemma receive_known:
  assumes "map_of m k = Some v" "ssPending v = drop c S" "answer S = (R, c, False)"
    and "\<not> snd (snd (answer (S @ p)))" "seq = ssNext v"
  shows "\<exists>r c' v'. receive now order answer k seq p m = ((r, True), gm_put k v' m) \<and>
     answer (S @ p) = (R @ r, c', False) \<and> ssNext v' = ssNext v + lenWord p \<and> ssPending v' = drop c' (S @ p)"
proof -
  obtain r c1 e where a: "answer (drop c S @ p) = (r, c1, e)" by (cases "answer (drop c S @ p)")
  from resumes [OF assms(3) a] have whole: "answer (S @ p) = (R @ r, c + c1, e)" .
  with assms(4) have e: "\<not> e" by simp
  have "c \<le> length S" by (rule consumed_le [OF assms(3)])
  then have "drop c1 (drop c S @ p) = drop (c + c1) (S @ p)" by (simp add: add.commute)
  with a e whole assms(1,2,5) show ?thesis
    by (auto simp: receive_def lookupOrStart_def Let_def)
qed

text \<open>
  However the client's stream is cut into segments, whatever is repeated or arrives out of order, and
  whatever other connections do meanwhile, the replies put together are the answer to the stream in one piece.
\<close>

lemma replies_follow:
  assumes "run_ok (streamStep answers) (undisturbed k) ops s" "answers k = answer"
    and "map_of (snStreams s) k = Some v" "ssPending v = drop c S" "answer S = (R, c, False)"
    and "\<not> snd (snd (answer (S @ acceptedBytes (ssNext v) (segmentsOf k ops))))"
  shows "\<exists>r. repliesTo k (run_ops (streamStep answers) ops s) = repliesTo k s @ r \<and>
     fst (answer (S @ acceptedBytes (ssNext v) (segmentsOf k ops))) = R @ r"
  using assms(1,3-6)
proof (induction ops arbitrary: s v c S R)
  case Nil
  then show ?case by (simp add: segmentsOf_def)
next
  case (Cons x ops)
  obtain now order y where x: "x = (now, order, y)" by (cases x)
  have ok: "undisturbed k x s" "run_ok (streamStep answers) (undisturbed k) ops (streamStep answers x s)"
    using Cons.prems(1) by auto
  show ?case
  proof (cases "\<exists>seq p. y = OpReceive k seq p")
    case False
    then have y: "\<forall>key seq p. y = OpReceive key seq p \<longrightarrow> key \<noteq> k" by auto
    note other = streamStep_other [OF ok(1) [unfolded x] y]
    obtain v' where v': "map_of (snStreams (streamStep answers x s)) k = Some v'" "ssNext v' = ssNext v" "ssPending v' = ssPending v"
      using other(1) [of answers] Cons.prems(2) by (auto simp: x sameStream_def)
    have segs: "segmentsOf k (x # ops) = segmentsOf k ops" by (simp only: x other(3))
    have reps: "repliesTo k (streamStep answers x s) = repliesTo k s" by (simp only: x other(2))
    show ?thesis
      using Cons.IH [OF ok(2) v'(1), of c S R] Cons.prems(3-5) v'(2,3) by (simp add: segs reps)
  next
    case True
    then obtain seq p where y: "y = OpReceive k seq p" by auto
    have segs: "segmentsOf k (x # ops) = (seq, p) # segmentsOf k ops" by (simp add: segmentsOf_def x y)
    show ?thesis
    proof (cases "seq = ssNext v")
      case True
      let ?rest = "acceptedBytes (ssNext v + lenWord p) (segmentsOf k ops)"
      have acc: "acceptedBytes (ssNext v) (segmentsOf k (x # ops)) = p @ ?rest" by (simp add: segs True)
      have open': "\<not> snd (snd (answer (S @ p)))"
        using Cons.prems(5) prefix_open [of "S @ p" ?rest] by (simp add: acc)
      from receive_known [OF Cons.prems(2-4) this True, of now order] obtain r c' v' where
        rec: "receive now order answer k seq p (snStreams s) = ((r, True), gm_put k v' (snStreams s))"
        and v': "answer (S @ p) = (R @ r, c', False)" "ssNext v' = ssNext v + lenWord p" "ssPending v' = drop c' (S @ p)"
        by blast
      have st: "streamStep answers x s = s\<lparr>snStreams := gm_put k v' (snStreams s), snLog := snLog s @ [(k, r, True)]\<rparr>"
        by (simp add: x y assms(2) rec)
      have reps: "repliesTo k (streamStep answers x s) = repliesTo k s @ r" by (simp add: st repliesTo_def)
      have "map_of (snStreams (streamStep answers x s)) k = Some v'" by (simp add: st gm_simps)
      from Cons.IH [OF ok(2) this v'(3,1)] Cons.prems(5) show ?thesis
        by (auto simp: acc v'(2) reps)
    next
      case False
      have "\<exists>b. receive now order answer k seq p (snStreams s) = (([], b), snStreams s)"
        using Cons.prems(2) False by (auto simp: receive_def lookupOrStart_def)
      then obtain b where "receive now order answer k seq p (snStreams s) = (([], b), snStreams s)" by blast
      then have st: "streamStep answers x s = s\<lparr>snStreams := snStreams s, snLog := snLog s @ [(k, [], b)]\<rparr>"
        by (simp add: x y assms(2))
      have reps: "repliesTo k (streamStep answers x s) = repliesTo k s" by (simp add: st repliesTo_def)
      have "map_of (snStreams (streamStep answers x s)) k = Some v" using Cons.prems(2) by (simp add: st)
      from Cons.IH [OF ok(2) this Cons.prems(3,4)] Cons.prems(5) False show ?thesis
        by (simp add: segs reps)
    qed
  qed
qed

end

section \<open>The segments of an answer\<close>

lemma lenWord_small: "length xs \<le> statelessMaxSegment \<Longrightarrow> lenWord xs = of_nat (length xs)"
  by (simp add: lenWord_def Uint32_of_nat statelessMaxSegment_def)

text \<open>The segments one reply makes when every frame is sent: chunks with consecutive sequence numbers.\<close>

primrec wellSegmented :: "32 word \<Rightarrow> 32 word \<Rightarrow> bool \<Rightarrow> tcpReply list \<Rightarrow> bool" where
  "wellSegmented ack seq fin [] = False"
| "wellSegmented ack seq fin (r # rs) =
     (trSeq r = seq \<and> trAck r = ack \<and> length (trChunk r) \<le> statelessMaxSegment \<and> trPSH r = (trChunk r \<noteq> []) \<and>
      trFIN r = (fin \<and> rs = []) \<and> (rs = [] \<or> length (trChunk r) = statelessMaxSegment \<and>
        wellSegmented ack (seq + of_nat (length (trChunk r))) fin rs))"

lemma segmentLoop_good:
  assumes "sendFrame = (\<lambda>_. True)"
  shows "wellSegmented (tsSeq tcp + consumed) seq (tsFIN tcp) (segmentLoop sendFrame tcp consumed seq answer) \<and>
    concat (map trChunk (segmentLoop sendFrame tcp consumed seq answer)) = answer"
  using assms
proof (induction sendFrame tcp consumed seq answer rule: segmentLoop.induct)
  case (1 sendFrame tcp consumed seq answer)
  show ?case
  proof (cases "length answer \<le> statelessMaxSegment")
    case True
    with "1.prems" show ?thesis by (simp add: segmentLoop.simps [of _ _ _ _ answer] Let_def)
  next
    case False
    let ?chunk = "take statelessMaxSegment answer" and ?rest = "drop statelessMaxSegment answer"
    have len: "length ?chunk = statelessMaxSegment" using False by simp
    have loop: "segmentLoop sendFrame tcp consumed seq answer =
      \<lparr>trSeq = seq, trAck = tsSeq tcp + consumed, trPSH = True, trFIN = False, trChunk = ?chunk\<rparr> #
      segmentLoop sendFrame tcp consumed (seq + lenWord ?chunk) ?rest"
      using False "1.prems" by (auto simp: segmentLoop.simps [of _ _ _ _ answer] Let_def min_def statelessMaxSegment_def)
    have ih: "wellSegmented (tsSeq tcp + consumed) (seq + lenWord ?chunk) (tsFIN tcp) (segmentLoop sendFrame tcp consumed (seq + lenWord ?chunk) ?rest) \<and>
      concat (map trChunk (segmentLoop sendFrame tcp consumed (seq + lenWord ?chunk) ?rest)) = ?rest"
      using "1.IH" [OF refl refl refl] False "1.prems" by (simp add: min_def)
    then have ne: "segmentLoop sendFrame tcp consumed (seq + lenWord ?chunk) ?rest \<noteq> []" by auto
    have "lenWord ?chunk = of_nat statelessMaxSegment" using lenWord_small [of ?chunk] len by simp
    with ih ne len False show ?thesis unfolding loop by (auto simp: statelessMaxSegment_def)
  qed
qed

end
