(* ===== verification/Stream_Frames.thy ===== *)
theory Stream_Frames
  imports Tcp_Stream
begin

text \<open>
  What the byte-stream services have in common: each answers the complete requests at the front of a stream, one
  after the other.  \<open>frameLoop\<close> is that loop over a function \<open>front\<close> that looks at the first request: there is none
  yet (\<open>NeedMore\<close>), it takes so many bytes and gets a reply (\<open>Take\<close>), or the conversation is over (\<open>Finish\<close>).  The locale
  \<open>framed_service\<close> says that \<open>front\<close> decides from the bytes of the first request alone; it is a \<open>sublocale\<close> of
  \<open>stream_service\<close>, so a service whose loop equals \<open>frameLoop front\<close> meets the contract of \<open>Tcp_Stream\<close>.
\<close>

datatype frame = NeedMore | Take nat bytes | Finish nat bytes

function frameLoop :: "(bytes \<Rightarrow> frame) \<Rightarrow> bytes \<Rightarrow> bytes \<times> nat \<times> bool" where
  "frameLoop front xs =
     (case front xs of
        NeedMore \<Rightarrow> ([], 0, False)
      | Finish n r \<Rightarrow> (r, n, True)
      | Take n r \<Rightarrow>
          if 0 < n \<and> n \<le> length xs
          then (case frameLoop front (drop n xs) of (r', c, e) \<Rightarrow> (r @ r', n + c, e))
          else ([], 0, False))"
  by pat_completeness auto
termination
  by (relation "measure (\<lambda>(_, xs). length xs)") auto

declare frameLoop.simps [simp del]

locale framed_service =
  fixes front :: "bytes \<Rightarrow> frame"
  assumes front_empty: "front [] = NeedMore"
    and take_bounds: "front xs = Take n r \<Longrightarrow> 0 < n \<and> n \<le> length xs"
    and take_stable: "front xs = Take n r \<Longrightarrow> front (xs @ ys) = Take n r"
    and finish_bounds: "front xs = Finish n r \<Longrightarrow> n \<le> length xs"
    and finish_stable: "front xs = Finish n r \<Longrightarrow> \<exists>m. front (xs @ ys) = Finish m r"
begin

lemma loop_more: "front xs = NeedMore \<Longrightarrow> frameLoop front xs = ([], 0, False)"
  by (simp add: frameLoop.simps)

lemma loop_finish: "front xs = Finish n r \<Longrightarrow> frameLoop front xs = (r, n, True)"
  by (simp add: frameLoop.simps)

lemma loop_take: "front xs = Take n r \<Longrightarrow> frameLoop front xs = (case frameLoop front (drop n xs) of (r', c, e) \<Rightarrow> (r @ r', n + c, e))"
  using take_bounds [of xs n r] by (simp add: frameLoop.simps [of front xs])

lemma frame_induct [case_names more finish take]:
  assumes "\<And>xs. front xs = NeedMore \<Longrightarrow> P xs" "\<And>xs n r. front xs = Finish n r \<Longrightarrow> P xs"
    and "\<And>xs n r. front xs = Take n r \<Longrightarrow> 0 < n \<Longrightarrow> n \<le> length xs \<Longrightarrow> P (drop n xs) \<Longrightarrow> P xs"
  shows "P xs"
proof (induction "length xs" arbitrary: xs rule: less_induct)
  case less
  show ?case
  proof (cases "front xs")
    case NeedMore
    then show ?thesis by (rule assms(1))
  next
    case (Take n r)
    have n: "0 < n" "n \<le> length xs" using take_bounds [OF Take] by auto
    then have "length (drop n xs) < length xs" by auto
    from assms(3) [OF Take n less [OF this]] show ?thesis .
  next
    case (Finish n r)
    then show ?thesis by (rule assms(2))
  qed
qed

lemma loop_consumed: "frameLoop front xs = (r, c, e) \<Longrightarrow> c \<le> length xs"
proof (induction xs arbitrary: r c e rule: frame_induct)
  case (more xs)
  then show ?case by (simp add: loop_more)
next
  case (finish xs n r)
  then show ?case by (auto simp: loop_finish dest: finish_bounds)
next
  case (take xs n r')
  from take.prems obtain r1 c1 where l: "frameLoop front (drop n xs) = (r1, c1, e)" and c: "c = n + c1"
    by (auto simp: loop_take [OF take.hyps(1)] split: prod.splits)
  from take.IH [OF l] c take.hyps(3) show ?case by auto
qed

lemma loop_resumes:
  "frameLoop front xs = (r, c, False) \<Longrightarrow> frameLoop front (drop c xs @ ys) = (r', c', e') \<Longrightarrow>
   frameLoop front (xs @ ys) = (r @ r', c + c', e')"
proof (induction xs arbitrary: r c rule: frame_induct)
  case (more xs)
  then show ?case by (simp add: loop_more)
next
  case (finish xs n r)
  then show ?case by (simp add: loop_finish)
next
  case (take xs n r0)
  from take.prems(1) obtain r1 c1 where l: "frameLoop front (drop n xs) = (r1, c1, False)" and r: "r = r0 @ r1" "c = n + c1"
    by (auto simp: loop_take [OF take.hyps(1)] split: prod.splits)
  have "frameLoop front (drop c1 (drop n xs) @ ys) = (r', c', e')" using take.prems(2) r(2) by (simp add: add.commute)
  from take.IH [OF l this] show ?case
    using take.hyps(3) r by (simp add: loop_take [OF take_stable [OF take.hyps(1)]])
qed

lemma loop_final: "frameLoop front xs = (r, c, True) \<Longrightarrow> \<exists>c'. frameLoop front (xs @ ys) = (r, c', True)"
proof (induction xs arbitrary: r c rule: frame_induct)
  case (more xs)
  then show ?case by (simp add: loop_more)
next
  case (finish xs n r0)
  with finish_stable [of xs n r0 ys] show ?case by (auto simp: loop_finish)
next
  case (take xs n r0)
  from take.prems obtain r1 c1 where l: "frameLoop front (drop n xs) = (r1, c1, True)" and r: "r = r0 @ r1"
    by (auto simp: loop_take [OF take.hyps(1)] split: prod.splits)
  from take.IH [OF l] obtain c' where "frameLoop front (drop n xs @ ys) = (r1, c', True)" by blast
  then show ?case using take.hyps(3) r by (simp add: loop_take [OF take_stable [OF take.hyps(1)]])
qed

text \<open>What is left over is a front that needs more.\<close>

lemma loop_leftover: "frameLoop front xs = (r, c, False) \<Longrightarrow> front (drop c xs) = NeedMore"
proof (induction xs arbitrary: r c rule: frame_induct)
  case (more xs)
  then show ?case by (simp add: loop_more)
next
  case (finish xs n r)
  then show ?case by (simp add: loop_finish)
next
  case (take xs n r0)
  from take.prems obtain r1 c1 where l: "frameLoop front (drop n xs) = (r1, c1, False)" and c: "c = n + c1"
    by (auto simp: loop_take [OF take.hyps(1)] split: prod.splits)
  from take.IH [OF l] c show ?case by (simp add: add.commute)
qed

end

sublocale framed_service \<subseteq> stream_service "frameLoop front"
  by unfold_locales (auto simp: loop_more front_empty intro: loop_consumed loop_resumes loop_final)

text \<open>A loop of the shape the code has, with the bytes consumed and the answer so far.\<close>

lemma accumulating_loop:
  assumes "\<And>stream. (case front stream of Take n r \<Rightarrow> 0 < n \<and> n \<le> length stream | _ \<Rightarrow> True)"
    and step: "\<And>c acc. c \<le> length stream \<Longrightarrow> loop stream c acc =
      (case front (drop c stream) of NeedMore \<Rightarrow> (acc, c, False) | Finish n r \<Rightarrow> (acc @ r, c + n, True)
       | Take n r \<Rightarrow> loop stream (c + n) (acc @ r))"
    and "c \<le> length stream"
  shows "loop stream c acc = (case frameLoop front (drop c stream) of (r, n, e) \<Rightarrow> (acc @ r, c + n, e))"
  using assms(3)
proof (induction "length stream - c" arbitrary: c acc rule: less_induct)
  case less
  show ?case
  proof (cases "front (drop c stream)")
    case NeedMore
    then show ?thesis by (simp add: step less.prems frameLoop.simps [of front])
  next
    case (Take n r)
    then have n: "0 < n" "n \<le> length (drop c stream)" using assms(1) [of "drop c stream"] by auto
    then have "loop stream (c + n) (acc @ r) = (case frameLoop front (drop (c + n) stream) of (r', m, e) \<Rightarrow> ((acc @ r) @ r', c + n + m, e))"
      by (intro less.hyps) (use less.prems in auto)
    with Take n show ?thesis
      by (simp add: step less.prems frameLoop.simps [of front "drop c stream"] add.commute case_prod_unfold)
  next
    case (Finish n r)
    then show ?thesis by (simp add: step less.prems frameLoop.simps [of front])
  qed
qed

end
