(* ===== verification/Industrial_Services.thy ===== *)
theory Industrial_Services
  imports Stream_Frames
begin

text \<open>
  The two industrial stream services: Modbus/TCP register reads (\<open>internal/protocols/modbus.go\<close>) and EtherNet/IP List
  Identity (\<open>enip.go\<close>).  Go's \<open>int\<close> values here are lengths and 16-bit fields, well inside its range, and are naturals; the configured register
  counts are Go \<open>int\<close>s.  Slices are read only where the code has checked the length, so no read is out of range.
\<close>

unbundle bit_operations_syntax

text \<open>\<open>copy\<close> and \<open>Put\<close> into a buffer that is long enough.\<close>

definition putAt :: "nat \<Rightarrow> bytes \<Rightarrow> bytes \<Rightarrow> bytes" where
  "putAt i bs buf = take i buf @ bs @ drop (i + length bs) buf"

section \<open>Modbus/TCP\<close>

record ModbusConfig =
  mcHoldingRegisters :: int
  mcInputRegisters :: int

definition modbusException :: "8 word \<Rightarrow> 8 word \<Rightarrow> bytes" where
  "modbusException function code = [function OR 0x80, code]"

definition modbusRead :: "int \<Rightarrow> 8 word \<Rightarrow> bytes \<Rightarrow> bytes" where
  "modbusRead registers function request =
     (if length request \<noteq> 5 then modbusException function 0x03
      else
        let address = unat (beRead (slice 1 3 request) :: 16 word);
            quantity = unat (beRead (slice 3 5 request) :: 16 word)
        in if quantity < 1 \<or> 125 < quantity then modbusException function 0x03
           else if registers < int (address + quantity) then modbusException function 0x02
           else let values = 2 * quantity
                in putAt 0 [function, Byte (of_nat values)] (replicate (2 + values) 0))"

definition modbusResponsePDU :: "ModbusConfig \<Rightarrow> bytes \<Rightarrow> bytes" where
  "modbusResponsePDU server request =
     (let function = request ! 0 in
      if function = 0x03 then modbusRead (mcHoldingRegisters server) function request
      else if function = 0x04 then modbusRead (mcInputRegisters server) function request
      else modbusException function 0x01)"

definition modbusFrame :: "ModbusConfig \<Rightarrow> bytes \<Rightarrow> bytes" where
  "modbusFrame server request =
     (let pdu = modbusResponsePDU server (drop 7 request)
      in putAt 4 (beBytes 2 (Uint16 (of_nat (1 + length pdu)))) (take 7 request) @ pdu)"

function modbusLoop :: "ModbusConfig \<Rightarrow> bytes \<Rightarrow> nat \<Rightarrow> bytes \<Rightarrow> bytes \<times> nat \<times> bool" where
  "modbusLoop server stream consumed answer =
     (if 7 + consumed \<le> length stream then
        let request = drop consumed stream;
            len = unat (beRead (slice 4 6 request) :: 16 word)
        in if len < 2 \<or> 254 < len then (answer, consumed, True)
           else if length request < 6 + len then (answer, consumed, False)
           else if (beRead (slice 2 4 request) :: 16 word) \<noteq> 0 then modbusLoop server stream (consumed + (6 + len)) answer
           else modbusLoop server stream (consumed + (6 + len)) (answer @ modbusFrame server (take (6 + len) request))
      else (answer, consumed, False))"
  by pat_completeness auto
termination
  by (relation "measure (\<lambda>(_, stream, consumed, _). length stream - consumed)") auto

declare modbusLoop.simps [simp del]

definition modbusAnswer :: "ModbusConfig \<Rightarrow> streamAnswer" where
  "modbusAnswer server stream = modbusLoop server stream 0 []"

section \<open>EtherNet/IP\<close>

record EtherNetIPConfig =
  ecVendorID :: "16 word"
  ecDeviceType :: "16 word"
  ecProductCode :: "16 word"
  ecRevisionMajor :: "8 word"
  ecRevisionMinor :: "8 word"
  ecSerialNumber :: "32 word"
  ecProductName :: bytes

definition enipReplyHeader :: "bytes \<Rightarrow> nat \<Rightarrow> bytes" where
  "enipReplyHeader request dataLen =
     putAt 2 (leBytes 2 (Uint16 (of_nat dataLen)))
       (putAt 12 (slice 12 20 request) (putAt 0 (slice 0 8 request) (replicate 24 0)))"

definition enipIdentityItem :: "EtherNetIPConfig \<Rightarrow> bytes \<Rightarrow> bytes" where
  "enipIdentityItem server address =
     leBytes 2 (1 :: 16 word) @ leBytes 2 (0x000c :: 16 word) @
     leBytes 2 (Uint16 (of_nat (34 + length (ecProductName server)))) @
     leBytes 2 (1 :: 16 word) @ beBytes 2 (2 :: 16 word) @ beBytes 2 (44818 :: 16 word) @ address @ replicate 8 0 @
     leBytes 2 (ecVendorID server) @ leBytes 2 (ecDeviceType server) @ leBytes 2 (ecProductCode server) @
     [ecRevisionMajor server, ecRevisionMinor server] @ leBytes 2 (0 :: 16 word) @ leBytes 4 (ecSerialNumber server) @
     [Byte (of_nat (length (ecProductName server)))] @ ecProductName server @ [3]"

definition enipListIdentityReply :: "EtherNetIPConfig \<Rightarrow> bytes \<Rightarrow> bytes \<Rightarrow> bytes" where
  "enipListIdentityReply server address request =
     enipReplyHeader request (length (enipIdentityItem server address)) @ enipIdentityItem server address"

definition enipReply :: "EtherNetIPConfig \<Rightarrow> bytes \<Rightarrow> bool \<Rightarrow> bytes \<Rightarrow> bytes" where
  "enipReply server address overTCP request =
     (let command = leRead (slice 0 2 request) :: 16 word in
      if command = 0x0063 then enipListIdentityReply server address (take 24 request)
      else if command \<noteq> 0 \<and> overTCP then putAt 8 (leBytes 4 (1 :: 32 word)) (enipReplyHeader (take 24 request) 0)
      else [])"

function enipLoop :: "EtherNetIPConfig \<Rightarrow> bytes \<Rightarrow> bool \<Rightarrow> bytes \<Rightarrow> nat \<Rightarrow> bytes \<Rightarrow> bytes \<times> nat \<times> bool" where
  "enipLoop server address overTCP stream consumed answer =
     (if 24 + consumed \<le> length stream then
        let request = drop consumed stream;
            len = unat (leRead (slice 2 4 request) :: 16 word)
        in if 65511 < len then (answer, consumed, True)
           else if length request < 24 + len then (answer, consumed, False)
           else enipLoop server address overTCP stream (consumed + (24 + len)) (answer @ enipReply server address overTCP request)
      else (answer, consumed, False))"
  by pat_completeness auto
termination
  by (relation "measure (\<lambda>(_, _, _, stream, consumed, _). length stream - consumed)") auto

declare enipLoop.simps [simp del]

definition enipAnswer :: "EtherNetIPConfig \<Rightarrow> bytes \<Rightarrow> bool \<Rightarrow> streamAnswer" where
  "enipAnswer server address overTCP stream = enipLoop server address overTCP stream 0 []"

section \<open>Both loops answer frame by frame\<close>

definition modbusFront :: "ModbusConfig \<Rightarrow> bytes \<Rightarrow> frame" where
  "modbusFront server request =
     (if length request < 7 then NeedMore
      else let len = unat (beRead (slice 4 6 request) :: 16 word) in
        if len < 2 \<or> 254 < len then Finish 0 []
        else if length request < 6 + len then NeedMore
        else Take (6 + len) (if (beRead (slice 2 4 request) :: 16 word) \<noteq> 0 then [] else modbusFrame server (take (6 + len) request)))"

definition enipFront :: "EtherNetIPConfig \<Rightarrow> bytes \<Rightarrow> bool \<Rightarrow> bytes \<Rightarrow> frame" where
  "enipFront server address overTCP request =
     (if length request < 24 then NeedMore
      else let len = unat (leRead (slice 2 4 request) :: 16 word) in
        if 65511 < len then Finish 0 []
        else if length request < 24 + len then NeedMore
        else Take (24 + len) (enipReply server address overTCP request))"

lemma modbusFront_stable:
  "7 \<le> length xs \<Longrightarrow> modbusFront server xs \<noteq> NeedMore \<Longrightarrow> modbusFront server (xs @ ys) = modbusFront server xs"
  by (auto simp: modbusFront_def Let_def slice_append split: if_splits)

lemma enipReply_append: "24 \<le> length xs \<Longrightarrow> enipReply server address overTCP (xs @ ys) = enipReply server address overTCP xs"
  by (simp add: enipReply_def slice_append Let_def)

lemma enipFront_stable:
  "24 \<le> length xs \<Longrightarrow> enipFront server address tcp xs \<noteq> NeedMore \<Longrightarrow> enipFront server address tcp (xs @ ys) = enipFront server address tcp xs"
  by (auto simp: enipFront_def Let_def slice_append enipReply_append split: if_splits)

interpretation modbus_frames: framed_service "modbusFront server" for server
proof
  fix xs ys n r
  have len: "7 \<le> length xs" if "modbusFront server xs \<noteq> NeedMore" using that by (auto simp: modbusFront_def split: if_splits)
  note stable = modbusFront_stable [of xs server ys]
  show "modbusFront server [] = NeedMore" by (simp add: modbusFront_def)
  show "modbusFront server xs = Take n r \<Longrightarrow> 0 < n \<and> n \<le> length xs"
    by (auto simp: modbusFront_def Let_def split: if_splits)
  show "modbusFront server xs = Take n r \<Longrightarrow> modbusFront server (xs @ ys) = Take n r" using len stable by simp
  show "modbusFront server xs = Finish n r \<Longrightarrow> n \<le> length xs" by (auto simp: modbusFront_def Let_def split: if_splits)
  show "modbusFront server xs = Finish n r \<Longrightarrow> \<exists>m. modbusFront server (xs @ ys) = Finish m r" using len stable by simp
qed

interpretation enip_frames: framed_service "enipFront server address tcp" for server address tcp
proof
  fix xs ys n r
  let ?f = "enipFront server address tcp"
  have len: "24 \<le> length xs" if "?f xs \<noteq> NeedMore" using that by (auto simp: enipFront_def split: if_splits)
  note stable = enipFront_stable [of xs server address tcp ys]
  show "?f [] = NeedMore" by (simp add: enipFront_def)
  show "?f xs = Take n r \<Longrightarrow> 0 < n \<and> n \<le> length xs" by (auto simp: enipFront_def Let_def split: if_splits)
  show "?f xs = Take n r \<Longrightarrow> ?f (xs @ ys) = Take n r" using len stable by simp
  show "?f xs = Finish n r \<Longrightarrow> n \<le> length xs" by (auto simp: enipFront_def Let_def split: if_splits)
  show "?f xs = Finish n r \<Longrightarrow> \<exists>m. ?f (xs @ ys) = Finish m r" using len stable by simp
qed

lemma modbusAnswer_frames: "modbusAnswer server = frameLoop (modbusFront server)"
proof
  fix stream
  have "modbusLoop server stream 0 [] = (case frameLoop (modbusFront server) (drop 0 stream) of (r, n, e) \<Rightarrow> ([] @ r, 0 + n, e))"
  proof (rule accumulating_loop)
    show "case modbusFront server stream of Take n r \<Rightarrow> 0 < n \<and> n \<le> length stream | _ \<Rightarrow> True" for stream
      using modbus_frames.take_bounds [of server stream] by (cases "modbusFront server stream") auto
    show "modbusLoop server stream c acc = (case modbusFront server (drop c stream) of NeedMore \<Rightarrow> (acc, c, False)
        | Finish n r \<Rightarrow> (acc @ r, c + n, True) | Take n r \<Rightarrow> modbusLoop server stream (c + n) (acc @ r))"
      if "c \<le> length stream" for c acc
      using that by (subst modbusLoop.simps) (auto simp: modbusFront_def Let_def)
  qed simp
  then show "modbusAnswer server stream = frameLoop (modbusFront server) stream" by (simp add: modbusAnswer_def)
qed

lemma enipAnswer_frames: "enipAnswer server address tcp = frameLoop (enipFront server address tcp)"
proof
  fix stream
  let ?f = "enipFront server address tcp"
  have "enipLoop server address tcp stream 0 [] = (case frameLoop ?f (drop 0 stream) of (r, n, e) \<Rightarrow> ([] @ r, 0 + n, e))"
  proof (rule accumulating_loop)
    show "case ?f stream of Take n r \<Rightarrow> 0 < n \<and> n \<le> length stream | _ \<Rightarrow> True" for stream
      using enip_frames.take_bounds [of server address tcp stream] by (cases "?f stream") auto
    show "enipLoop server address tcp stream c acc = (case ?f (drop c stream) of NeedMore \<Rightarrow> (acc, c, False)
        | Finish n r \<Rightarrow> (acc @ r, c + n, True) | Take n r \<Rightarrow> enipLoop server address tcp stream (c + n) (acc @ r))"
      if "c \<le> length stream" for c acc
      using that by (subst enipLoop.simps) (auto simp: enipFront_def Let_def)
  qed simp
  then show "enipAnswer server address tcp stream = frameLoop ?f stream" by (simp add: enipAnswer_def)
qed

interpretation modbus_stream: stream_service "modbusAnswer server" for server
  unfolding modbusAnswer_frames by (rule modbus_frames.stream_service_axioms)

interpretation enip_stream: stream_service "enipAnswer server address tcp" for server address tcp
  unfolding enipAnswer_frames by (rule enip_frames.stream_service_axioms)

end
