(* ===== verification/Clinical_Services.thy ===== *)
theory Clinical_Services
  imports Stream_Frames
begin

text \<open>
  The clinical stream services: DICOM verification (\<open>internal/protocols/dicom.go\<close>) and the MLLP framing of HL7
  messages (\<open>hl7.go\<close>; the acknowledgement text itself is not modelled).  Strings of the wire are byte lists.  Lengths read from
  the wire are at most 32 bits wide and are naturals; no sum of them leaves Go's 64-bit range.
\<close>

unbundle bit_operations_syntax

definition wire :: "string \<Rightarrow> bytes" where
  "wire s = map (\<lambda>c. of_nat (of_char c)) s"

definition len32 :: "bytes \<Rightarrow> 32 word" where
  "len32 xs = Uint32 (of_nat (length xs))"

section \<open>DICOM\<close>

definition dicomApplicationContext :: bytes where "dicomApplicationContext = wire ''1.2.840.10008.3.1.1.1''"

definition dicomVerificationClass :: bytes where "dicomVerificationClass = wire ''1.2.840.10008.1.1''"

definition dicomImplicitLittle :: bytes where "dicomImplicitLittle = wire ''1.2.840.10008.1.2''"

definition dicomExplicitLittle :: bytes where "dicomExplicitLittle = wire ''1.2.840.10008.1.2.1''"

definition dicomImplementationUID :: bytes where
  "dicomImplementationUID = wire ''2.25.329800735698586629295641978511506172918''"

definition dicomMaxPDU :: nat where "dicomMaxPDU = 65536"

definition dicomItem :: "8 word \<Rightarrow> bytes \<Rightarrow> bytes" where
  "dicomItem itemType val = [itemType, 0] @ beBytes 2 (Uint16 (of_nat (length val))) @ val"

definition dicomPDU :: "8 word \<Rightarrow> bytes \<Rightarrow> bytes" where
  "dicomPDU pduType body = [pduType, 0] @ beBytes 4 (len32 body) @ body"

definition dicomAbortPDU :: "8 word \<Rightarrow> bytes" where
  "dicomAbortPDU reason = dicomPDU 0x07 [0, 0, 2, reason]"

record dicomPresentationContext =
  dcId :: "8 word"
  dcAbstract :: bytes
  dcTransfer :: "bytes list"

definition negotiateDICOMContext :: "dicomPresentationContext \<Rightarrow> 8 word \<times> bytes" where
  "negotiateDICOMContext context =
     (if dcAbstract context \<noteq> dicomVerificationClass then (3, dicomImplicitLittle)
      else case find (\<lambda>t. t \<in> set (dcTransfer context)) [dicomImplicitLittle, dicomExplicitLittle] of
        Some t \<Rightarrow> (0, t)
      | None \<Rightarrow> (4, dicomImplicitLittle))"

text \<open>\<open>nextDICOMItem\<close>: the item's type, its value and the rest, or \<open>None\<close> for an item that is cut short.\<close>

definition nextDICOMItem :: "bytes \<Rightarrow> (8 word \<times> bytes \<times> bytes) option" where
  "nextDICOMItem items =
     (if length items < 4 then None
      else let endd = 4 + unat (beRead (slice 2 4 items) :: 16 word) in
        if length items < endd then None
        else Some (items ! 0, slice 4 endd items, drop endd items))"

lemma nextDICOMItem_shrinks: "nextDICOMItem items = Some (t, v, rest) \<Longrightarrow> length rest < length items"
  by (auto simp: nextDICOMItem_def Let_def split: if_splits)

text \<open>\<open>dicomUID\<close>: \<open>strings.TrimRight\<close> with the cutset of NUL and space.\<close>

definition dicomUID :: "bytes \<Rightarrow> bytes" where
  "dicomUID val = rev (dropWhile (\<lambda>b. b = 0 \<or> b = 32) (rev val))"

function parseSubItems :: "dicomPresentationContext \<Rightarrow> bytes \<Rightarrow> dicomPresentationContext option" where
  "parseSubItems context subItems =
     (if subItems = [] then Some context
      else case nextDICOMItem subItems of
        None \<Rightarrow> None
      | Some (itemType, uid, rest) \<Rightarrow>
          parseSubItems
            (if itemType = 0x30 then context\<lparr>dcAbstract := dicomUID uid\<rparr>
             else if itemType = 0x40 then context\<lparr>dcTransfer := dcTransfer context @ [dicomUID uid]\<rparr>
             else context) rest)"
  by pat_completeness auto
termination
  by (relation "measure (\<lambda>(_, xs). length xs)") (auto dest: nextDICOMItem_shrinks)

declare parseSubItems.simps [simp del]

definition parseDICOMPresentationContext :: "bytes \<Rightarrow> dicomPresentationContext option" where
  "parseDICOMPresentationContext val =
     (if length val < 4 then None
      else parseSubItems \<lparr>dcId = val ! 0, dcAbstract = [], dcTransfer = []\<rparr> (drop 4 val))"

function parseItems :: "bytes \<Rightarrow> dicomPresentationContext list \<Rightarrow> bytes \<Rightarrow> (bytes \<times> dicomPresentationContext list) option" where
  "parseItems applicationContext contexts items =
     (if items = [] then Some (applicationContext, contexts)
      else case nextDICOMItem items of
        None \<Rightarrow> None
      | Some (itemType, val, rest) \<Rightarrow>
          if itemType = 0x10 then parseItems (dicomUID val) contexts rest
          else if itemType = 0x20 then
            (case parseDICOMPresentationContext val of
               None \<Rightarrow> None
             | Some context \<Rightarrow> parseItems applicationContext (contexts @ [context]) rest)
          else parseItems applicationContext contexts rest)"
  by pat_completeness auto
termination
  by (relation "measure (\<lambda>(_, _, xs). length xs)") (auto dest: nextDICOMItem_shrinks)

declare parseItems.simps [simp del]

definition parseDICOMAssociateItems :: "bytes \<Rightarrow> (bytes \<times> dicomPresentationContext list) option" where
  "parseDICOMAssociateItems items = parseItems [] [] items"

definition acceptedContext :: "dicomPresentationContext \<Rightarrow> bytes" where
  "acceptedContext context =
     (case negotiateDICOMContext context of
        (result, transfer) \<Rightarrow> dicomItem 0x21 ([dcId context, 0, result, 0] @ dicomItem 0x40 transfer))"

definition dicomAssociateAnswer :: "bytes \<Rightarrow> bytes" where
  "dicomAssociateAnswer body =
     (if length body < 68 then dicomAbortPDU 6
      else case parseDICOMAssociateItems (drop 68 body) of
        None \<Rightarrow> dicomAbortPDU 6
      | Some (applicationContext, contexts) \<Rightarrow>
          if applicationContext \<noteq> dicomApplicationContext then dicomPDU 0x03 [0, 1, 1, 2]
          else dicomPDU 0x02
            (beBytes 2 (1 :: 16 word) @ [0, 0] @ slice 4 68 body @ dicomItem 0x10 dicomApplicationContext @
             concat (map acceptedContext contexts) @
             dicomItem 0x50 (dicomItem 0x51 (beBytes 4 (16384 :: 32 word)) @ dicomItem 0x52 dicomImplementationUID)))"

text \<open>\<open>dicomEchoRequestID\<close>: the loop over the command elements.\<close>

function echoRequestLoop :: "16 word \<Rightarrow> 16 word option \<Rightarrow> bytes \<Rightarrow> 16 word option" where
  "echoRequestLoop field messageID command =
     (if command = [] then (if field = 0x0030 then messageID else None)
      else if length command < 8 then None
      else
        let group = leRead (slice 0 2 command) :: 16 word;
            element = leRead (slice 2 4 command) :: 16 word;
            endd = 8 + unat (leRead (slice 4 8 command) :: 32 word)
        in if length command < endd then None
           else
             let val = slice 8 endd command; rest = drop endd command in
             if group \<noteq> 0 \<or> length val \<noteq> 2 then echoRequestLoop field messageID rest
             else if element = 0x0100 then echoRequestLoop (leRead val) messageID rest
             else if element = 0x0110 then echoRequestLoop field (Some (leRead val)) rest
             else echoRequestLoop field messageID rest)"
  by pat_completeness auto
termination
  by (relation "measure (\<lambda>(_, _, xs). length xs)") auto

declare echoRequestLoop.simps [simp del]

definition dicomEchoRequestID :: "bytes \<Rightarrow> 16 word option" where
  "dicomEchoRequestID command = echoRequestLoop 0 None command"

definition appendDICOMElement :: "bytes \<Rightarrow> 16 word \<Rightarrow> bytes \<Rightarrow> bytes" where
  "appendDICOMElement buffer element val =
     buffer @ leBytes 2 (0 :: 16 word) @ leBytes 2 element @ leBytes 4 (len32 val) @ val"

definition echoElements :: "16 word \<Rightarrow> bytes" where
  "echoElements messageID =
     appendDICOMElement (appendDICOMElement (appendDICOMElement (appendDICOMElement (appendDICOMElement []
       0x0002 (dicomVerificationClass @ [0])) 0x0100 (leBytes 2 (0x8030 :: 16 word))) 0x0120 (leBytes 2 messageID))
       0x0800 (leBytes 2 (0x0101 :: 16 word))) 0x0900 (leBytes 2 (0 :: 16 word))"

definition dicomEchoResponse :: "16 word \<Rightarrow> bytes" where
  "dicomEchoResponse messageID =
     appendDICOMElement [] 0x0000 (leBytes 4 (len32 (echoElements messageID))) @ echoElements messageID"

function echoReplyLoop :: "bytes \<Rightarrow> bytes \<Rightarrow> bytes option" where
  "echoReplyLoop reply body =
     (if body = [] then Some reply
      else if length body < 6 then None
      else
        let endd = 4 + unat (beRead (slice 0 4 body) :: 32 word) in
        if endd < 6 \<or> length body < endd then None
        else
          let contextID = body ! 4; control = body ! 5; fragment = slice 6 endd body; rest = drop endd body in
          if control AND 1 = 0 then echoReplyLoop reply rest
          else if control \<noteq> 0x03 then None
          else case dicomEchoRequestID fragment of
            None \<Rightarrow> None
          | Some messageID \<Rightarrow>
              let command = dicomEchoResponse messageID;
                  pdv = beBytes 4 (Uint32 (of_nat (2 + length command))) @ [contextID, 0x03]
              in echoReplyLoop (reply @ dicomPDU 0x04 (pdv @ command)) rest)"
  by pat_completeness auto
termination
  by (relation "measure (\<lambda>(_, xs). length xs)") auto

declare echoReplyLoop.simps [simp del]

definition dicomEchoReply :: "bytes \<Rightarrow> bytes option" where
  "dicomEchoReply body = echoReplyLoop [] body"

text \<open>The second \<open>switch\<close> of \<open>dicomAnswer\<close>: \<open>Inr\<close> a reply and on with the loop, \<open>Inl\<close> the last reply.\<close>

definition dicomPDUReply :: "8 word \<Rightarrow> bytes \<Rightarrow> bytes + bytes" where
  "dicomPDUReply pduType body =
     (if pduType = 0x01 then Inr (dicomAssociateAnswer body)
      else if pduType = 0x04 then
        (case dicomEchoReply body of None \<Rightarrow> Inl (dicomAbortPDU 6) | Some reply \<Rightarrow> Inr reply)
      else if pduType = 0x05 then Inr (dicomPDU 0x06 (replicate 4 0))
      else if pduType = 0x07 then Inl []
      else Inl (dicomAbortPDU 2))"

function dicomLoop :: "bytes \<Rightarrow> nat \<Rightarrow> bytes \<Rightarrow> bytes \<times> nat \<times> bool" where
  "dicomLoop stream consumed answer =
     (if 6 + consumed \<le> length stream then
        let pdu = drop consumed stream;
            len = unat (beRead (slice 2 6 pdu) :: 32 word)
        in if pdu ! 0 < 0x01 \<or> 0x07 < pdu ! 0 then (answer @ dicomAbortPDU 1, length stream, True)
           else if dicomMaxPDU < len then (answer @ dicomAbortPDU 6, length stream, True)
           else if length pdu < 6 + len then (answer, consumed, False)
           else case dicomPDUReply (pdu ! 0) (slice 6 (6 + len) pdu) of
             Inr reply \<Rightarrow> dicomLoop stream (consumed + (6 + len)) (answer @ reply)
           | Inl reply \<Rightarrow> (answer @ reply, consumed + (6 + len), True)
      else (answer, consumed, False))"
  by pat_completeness auto
termination
  by (relation "measure (\<lambda>(stream, consumed, _). length stream - consumed)") auto

declare dicomLoop.simps [simp del]

definition dicomAnswer :: streamAnswer where
  "dicomAnswer stream = dicomLoop stream 0 []"

section \<open>MLLP framing\<close>

definition hl7MaxMessage :: nat where "hl7MaxMessage = 65536"

function mllpLoop :: "bytes \<Rightarrow> bytes list \<Rightarrow> nat \<Rightarrow> bytes list \<times> nat" where
  "mllpLoop stream messages consumed =
     (case index_of (\<lambda>b. b = 0x0B) (drop consumed stream) of
        None \<Rightarrow> (messages, length stream)
      | Some start \<Rightarrow>
          let at = consumed + start; block = drop (at + 1) stream in
          case index_of (\<lambda>b. b = 0x1C) block of
            None \<Rightarrow> if hl7MaxMessage < length block then (messages, length stream) else (messages, at)
          | Some endd \<Rightarrow> mllpLoop stream (messages @ [take endd block]) (at + (1 + endd + 1)))"
  by pat_completeness auto
termination
  by (relation "measure (\<lambda>(stream, _, consumed). length stream - consumed)") (auto dest: index_of_Some)

declare mllpLoop.simps [simp del]

definition mllpMessages :: "bytes \<Rightarrow> bytes list \<times> nat" where
  "mllpMessages stream = mllpLoop stream [] 0"

definition mllpFrame :: "bytes \<Rightarrow> bytes" where
  "mllpFrame message = [0x0B] @ message @ [0x1C, 0x0D]"

section \<open>DICOM answers frame by frame\<close>

definition dicomFront :: "bytes \<Rightarrow> frame" where
  "dicomFront pdu =
     (if length pdu < 6 then NeedMore
      else let len = unat (beRead (slice 2 6 pdu) :: 32 word) in
        if pdu ! 0 < 0x01 \<or> 0x07 < pdu ! 0 then Finish (length pdu) (dicomAbortPDU 1)
        else if dicomMaxPDU < len then Finish (length pdu) (dicomAbortPDU 6)
        else if length pdu < 6 + len then NeedMore
        else case dicomPDUReply (pdu ! 0) (slice 6 (6 + len) pdu) of
          Inr reply \<Rightarrow> Take (6 + len) reply
        | Inl reply \<Rightarrow> Finish (6 + len) reply)"

lemma dicomFront_extend:
  assumes "6 \<le> length xs"
  shows "(case dicomFront xs of NeedMore \<Rightarrow> True | Take n r \<Rightarrow> n \<le> length xs \<and> dicomFront (xs @ ys) = Take n r
    | Finish n r \<Rightarrow> n \<le> length xs \<and> (\<exists>m. dicomFront (xs @ ys) = Finish m r))"
proof -
  have hd: "(xs @ ys) ! 0 = xs ! 0" "slice 2 6 (xs @ ys) = slice 2 6 xs"
  proof -
    have "xs \<noteq> []" using assms by auto
    then show "(xs @ ys) ! 0 = xs ! 0" by (simp add: nth_append)
    show "slice 2 6 (xs @ ys) = slice 2 6 xs" by (rule slice_append [OF assms])
  qed
  let ?len = "unat (beRead (slice 2 6 xs) :: 32 word)"
  have body: "slice 6 (6 + ?len) (xs @ ys) = slice 6 (6 + ?len) xs" if "6 + ?len \<le> length xs"
    using that by (simp add: slice_append)
  have long: "\<not> length xs < 6" "\<not> length (xs @ ys) < 6" using assms by simp_all
  consider "xs ! 0 < 0x01 \<or> 0x07 < xs ! 0" | "\<not> (xs ! 0 < 0x01 \<or> 0x07 < xs ! 0)" "dicomMaxPDU < ?len"
    | "\<not> (xs ! 0 < 0x01 \<or> 0x07 < xs ! 0)" "\<not> dicomMaxPDU < ?len" "length xs < 6 + ?len"
    | "\<not> (xs ! 0 < 0x01 \<or> 0x07 < xs ! 0)" "\<not> dicomMaxPDU < ?len" "\<not> length xs < 6 + ?len" by blast
  then show ?thesis
  proof cases
    case 4
    then have "\<not> length (xs @ ys) < 6 + ?len" by simp
    with 4 show ?thesis
      by (simp only: dicomFront_def Let_def hd body long if_False not_less) (simp split: sum.splits)
  qed (simp_all only: dicomFront_def Let_def hd long if_False if_True, simp_all)
qed

interpretation dicom_frames: framed_service dicomFront
proof
  fix xs ys n r
  have len: "6 \<le> length xs" if "dicomFront xs \<noteq> NeedMore" using that by (auto simp: dicomFront_def split: if_splits)
  note ext = dicomFront_extend [of xs ys]
  show "dicomFront [] = NeedMore" by (simp add: dicomFront_def)
  show "dicomFront xs = Take n r \<Longrightarrow> 0 < n \<and> n \<le> length xs"
    by (auto simp: dicomFront_def Let_def split: if_splits sum.splits)
  show "dicomFront xs = Take n r \<Longrightarrow> dicomFront (xs @ ys) = Take n r" using len ext by simp
  show "dicomFront xs = Finish n r \<Longrightarrow> n \<le> length xs" using len ext by simp
  show "dicomFront xs = Finish n r \<Longrightarrow> \<exists>m. dicomFront (xs @ ys) = Finish m r" using len ext by simp
qed

lemma dicomAnswer_frames: "dicomAnswer = frameLoop dicomFront"
proof
  fix stream
  have "dicomLoop stream 0 [] = (case frameLoop dicomFront (drop 0 stream) of (r, n, e) \<Rightarrow> ([] @ r, 0 + n, e))"
  proof (rule accumulating_loop)
    show "case dicomFront stream of Take n r \<Rightarrow> 0 < n \<and> n \<le> length stream | _ \<Rightarrow> True" for stream
      using dicom_frames.take_bounds [of stream] by (cases "dicomFront stream") auto
    show "dicomLoop stream c acc = (case dicomFront (drop c stream) of NeedMore \<Rightarrow> (acc, c, False)
        | Finish n r \<Rightarrow> (acc @ r, c + n, True) | Take n r \<Rightarrow> dicomLoop stream (c + n) (acc @ r))"
      if "c \<le> length stream" for c acc
      using that by (subst dicomLoop.simps) (auto simp: dicomFront_def Let_def split: sum.splits)
  qed simp
  then show "dicomAnswer stream = frameLoop dicomFront stream" by (simp add: dicomAnswer_def)
qed

interpretation dicom_stream: stream_service dicomAnswer
  unfolding dicomAnswer_frames by (rule dicom_frames.stream_service_axioms)

section \<open>Every answer is a sequence of PDUs\<close>

text \<open>Sequences of the PDUs a service class provider may send, each with its true length in its header.\<close>

inductive scpPDUs :: "bytes \<Rightarrow> bool" where
  no_pdu: "scpPDUs []"
| pdu: "t \<in> {0x02, 0x03, 0x04, 0x06, 0x07} \<Longrightarrow> length body < 2 ^ 32 \<Longrightarrow> scpPDUs rest \<Longrightarrow>
    scpPDUs ([t, 0] @ beBytes 4 (of_nat (length body) :: 32 word) @ body @ rest)"

lemma scpPDUs_append: "scpPDUs xs \<Longrightarrow> scpPDUs ys \<Longrightarrow> scpPDUs (xs @ ys)"
proof (induction rule: scpPDUs.induct)
  case no_pdu
  then show ?case by simp
next
  case (pdu t body rest)
  from scpPDUs.pdu [OF pdu.hyps(1,2) pdu.IH [OF pdu.prems]] show ?case by simp
qed

lemma scpPDUs_dicomPDU: "t \<in> {0x02, 0x03, 0x04, 0x06, 0x07} \<Longrightarrow> length body < 2 ^ 32 \<Longrightarrow> scpPDUs (dicomPDU t body)"
  using scpPDUs.pdu [OF _ _ no_pdu, of t body] by (simp add: dicomPDU_def len32_def Uint32_of_nat)

lemma scpPDUs_abort: "scpPDUs (dicomAbortPDU reason)"
  by (simp add: dicomAbortPDU_def scpPDUs_dicomPDU)

lemma length_dicomItem [simp]: "length (dicomItem t v) = 4 + length v"
  by (simp add: dicomItem_def)

lemma parseItems_count: "parseItems a cs items = Some (a', cs') \<Longrightarrow> length cs' \<le> length cs + length items"
proof (induction a cs items rule: parseItems.induct)
  case (1 a cs items)
  show ?case
  proof (cases "items = []")
    case True
    with "1.prems" show ?thesis by (simp add: parseItems.simps [of _ _ "[]"])
  next
    case False
    with "1.prems" obtain t v rest where it: "nextDICOMItem items = Some (t, v, rest)"
      by (auto simp: parseItems.simps [of _ _ items] split: option.splits)
    note unf = parseItems.simps [of a cs items, unfolded it]
    have short: "length rest < length items" by (rule nextDICOMItem_shrinks [OF it])
    consider "t = 0x10" | "t \<noteq> 0x10" "t = 0x20" | "t \<noteq> 0x10" "t \<noteq> 0x20" by blast
    then show ?thesis
    proof cases
      case 1
      with "1.IH"(1) [OF False it refl refl] "1.prems" short False show ?thesis by (auto simp: unf)
    next
      case 2
      then obtain ctx where c: "parseDICOMPresentationContext v = Some ctx"
        using "1.prems" False by (auto simp: unf split: option.splits)
      with 2 "1.IH"(2) [OF False it refl refl _ _ c] "1.prems" short False show ?thesis by (auto simp: unf)
    next
      case 3
      with "1.IH"(3) [OF False it refl refl] "1.prems" short False show ?thesis by (auto simp: unf)
    qed
  qed
qed

lemma acceptedContext_length: "length (acceptedContext c) \<le> 32"
  by (auto simp: acceptedContext_def negotiateDICOMContext_def dicomImplicitLittle_def dicomExplicitLittle_def wire_def
      split: option.splits if_splits)

lemma concat_length_bound: "\<forall>x \<in> set xs. length (f x) \<le> b \<Longrightarrow> length (concat (map f xs)) \<le> b * length xs"
  by (induction xs) auto

lemma scpPDUs_associate:
  assumes "length body \<le> dicomMaxPDU"
  shows "scpPDUs (dicomAssociateAnswer body)"
proof (cases "length body < 68")
  case True
  then show ?thesis by (simp add: dicomAssociateAnswer_def scpPDUs_abort)
next
  case False
  show ?thesis
  proof (cases "parseDICOMAssociateItems (drop 68 body)")
    case None
    with False show ?thesis by (simp add: dicomAssociateAnswer_def scpPDUs_abort)
  next
    case (Some p)
    obtain a cs where p: "p = (a, cs)" by (cases p)
    have "length cs \<le> dicomMaxPDU"
      using parseItems_count [of "[]" "[]" "drop 68 body" a cs] Some p assms by (simp add: parseDICOMAssociateItems_def)
    moreover have "length (concat (map acceptedContext cs)) \<le> 32 * length cs"
      by (rule concat_length_bound) (simp add: acceptedContext_length)
    ultimately have "length (concat (map acceptedContext cs)) \<le> 2097152" by (simp add: dicomMaxPDU_def)
    then show ?thesis
      using False Some p assms
      by (auto simp: dicomAssociateAnswer_def dicomApplicationContext_def dicomImplementationUID_def wire_def dicomMaxPDU_def
        intro!: scpPDUs_dicomPDU)
  qed
qed

lemma length_echoResponse: "length (dicomEchoResponse m) = 78"
  by (simp add: dicomEchoResponse_def echoElements_def appendDICOMElement_def dicomVerificationClass_def wire_def)

lemma scpPDUs_echo: "scpPDUs reply \<Longrightarrow> echoReplyLoop reply body = Some r \<Longrightarrow> scpPDUs r"
proof (induction reply body rule: echoReplyLoop.induct)
  case (1 reply body)
  have step: "scpPDUs (reply @ dicomPDU 0x04 ((beBytes 4 (Uint32 n) @ [c, 0x03]) @ dicomEchoResponse m))" for n c m
    using "1.prems"(1) by (intro scpPDUs_append scpPDUs_dicomPDU) (simp_all add: length_echoResponse)
  let ?e = "4 + unat (beRead (slice 0 4 body) :: 32 word)"
  show ?case
  proof (cases "body = []")
    case True
    with "1.prems" show ?thesis by (simp add: echoReplyLoop.simps [of reply "[]"])
  next
    case False
    have ok: "\<not> length body < 6" "\<not> (?e < 6 \<or> length body < ?e)"
      using "1.prems"(2) False by (auto simp: echoReplyLoop.simps [of reply body] Let_def split: if_splits)
    show ?thesis
    proof (cases "body ! 5 AND 1 = 0")
      case True
      with "1.IH"(1) [OF False ok(1) refl ok(2) refl refl refl refl True] "1.prems" False ok show ?thesis
        by (simp add: echoReplyLoop.simps [of reply body] Let_def)
    next
      case odd: False
      with "1.prems"(2) False ok obtain m where "body ! 5 = 0x03" and m: "dicomEchoRequestID (slice 6 ?e body) = Some m"
        by (auto simp: echoReplyLoop.simps [of reply body] Let_def split: if_splits option.splits)
      then show ?thesis
        using "1.IH"(2) [OF False ok(1) refl ok(2) refl refl refl refl odd _ m refl refl step] "1.prems"(2) False ok odd
        by (simp add: echoReplyLoop.simps [of reply body] Let_def)
    qed
  qed
qed

lemma scpPDUs_front:
  "(case dicomFront xs of NeedMore \<Rightarrow> True | Take n r \<Rightarrow> scpPDUs r | Finish n r \<Rightarrow> scpPDUs r)"
proof -
  let ?len = "unat (beRead (slice 2 6 xs) :: 32 word)"
  have "(case dicomPDUReply (xs ! 0) (slice 6 (6 + ?len) xs) of Inr r \<Rightarrow> scpPDUs r | Inl r \<Rightarrow> scpPDUs r)"
    if "\<not> dicomMaxPDU < ?len" "\<not> length xs < 6 + ?len"
  proof -
    have "scpPDUs (dicomAssociateAnswer (slice 6 (6 + ?len) xs))" using that by (intro scpPDUs_associate) simp
    then show ?thesis
      by (auto simp: dicomPDUReply_def dicomEchoReply_def scpPDUs_abort scpPDUs_dicomPDU
        intro: scpPDUs_echo no_pdu split: option.splits)
  qed
  then show ?thesis
    by (auto simp: dicomFront_def Let_def scpPDUs_abort split: sum.splits)
qed

lemma scpPDUs_loop: "frameLoop dicomFront xs = (r, c, e) \<Longrightarrow> scpPDUs r"
proof (induction xs arbitrary: r c e rule: dicom_frames.frame_induct)
  case (more xs)
  then show ?case by (auto simp: dicom_frames.loop_more intro: no_pdu)
next
  case (finish xs n r0)
  then show ?case using scpPDUs_front [of xs] by (simp add: dicom_frames.loop_finish)
next
  case (take xs n r0)
  then show ?case using scpPDUs_front [of xs]
    by (auto simp: dicom_frames.loop_take intro: scpPDUs_append split: prod.splits)
qed

section \<open>The echo exchange\<close>

definition echoRequest :: "16 word \<Rightarrow> bytes" where
  "echoRequest messageID =
     appendDICOMElement (appendDICOMElement (appendDICOMElement (appendDICOMElement [] 0x0002 (dicomVerificationClass @ [0]))
       0x0100 (leBytes 2 (0x0030 :: 16 word))) 0x0110 (leBytes 2 messageID)) 0x0800 (leBytes 2 (0x0101 :: 16 word))"

lemma echoRequestLoop_element:
  assumes "length v < 2 ^ 16"
  shows "echoRequestLoop f i (leBytes 2 (0 :: 16 word) @ leBytes 2 (e :: 16 word) @ leBytes 4 (len32 v) @ v @ rest) =
    (if length v \<noteq> 2 then echoRequestLoop f i rest
     else if e = 0x0100 then echoRequestLoop (leRead v) i rest
     else if e = 0x0110 then echoRequestLoop f (Some (leRead v)) rest
     else echoRequestLoop f i rest)" (is "echoRequestLoop f i ?c = _")
proof -
  have sl: "slice 0 2 ?c = leBytes 2 (0 :: 16 word)" "slice 2 4 ?c = leBytes 2 e" "slice 4 8 ?c = leBytes 4 (len32 v)"
    by (simp_all add: slice_def)
  have len: "unat (leRead (leBytes 4 (len32 v)) :: 32 word) = length v"
    using assms by (simp add: leRead_leBytes len32_def Uint32_of_nat unat_of_nat)
  have val: "slice 8 (8 + length v) ?c = v" "drop (8 + length v) ?c = rest" by (simp_all add: slice_def)
  have ne: "?c \<noteq> []" "\<not> length ?c < 8" "\<not> length ?c < 8 + length v" by (simp_all add: leBytes_def beBytes_def)
  show ?thesis
    unfolding echoRequestLoop.simps [of f i ?c] Let_def sl len val
    by (simp only: ne if_False leRead_leBytes) (simp add: leRead_leBytes)
qed

lemma echo_request_read: "dicomEchoRequestID (echoRequest m) = Some m"
proof -
  define v where "v = dicomVerificationClass @ [0]"
  have "length v = 18" by (simp add: v_def dicomVerificationClass_def wire_def)
  then show ?thesis
    unfolding dicomEchoRequestID_def echoRequest_def v_def [symmetric]
    using echoRequestLoop_element [where rest = "[]", simplified]
    by (simp add: appendDICOMElement_def echoRequestLoop_element leRead_leBytes echoRequestLoop.simps [of _ _ "[]"])
qed

section \<open>MLLP\<close>

lemma mllpLoop_shift:
  "c \<le> length stream \<Longrightarrow> mllpLoop stream ms c = (case mllpLoop (drop c stream) [] 0 of (ms', c') \<Rightarrow> (ms @ ms', c + c'))"
proof (induction "length stream - c" arbitrary: stream ms c rule: less_induct)
  case less
  let ?d = "drop c stream"
  show ?case
  proof (cases "index_of (\<lambda>b. b = 0x0B) ?d")
    case None
    with less.prems show ?thesis by (simp add: mllpLoop.simps [of stream] mllpLoop.simps [of ?d])
  next
    case (Some start)
    let ?block = "drop (c + start + 1) stream"
    have st: "start < length ?d" using index_of_Some [OF Some] by simp
    have blk: "drop (0 + start + 1) ?d = ?block" by (simp add: add.commute)
    show ?thesis
    proof (cases "index_of (\<lambda>b. b = 0x1C) ?block")
      case None
      with Some less.prems show ?thesis
        by (simp add: mllpLoop.simps [of stream ms c] mllpLoop.simps [of ?d "[]" 0] Let_def add.commute add.left_commute)
    next
      case e: (Some endd)
      let ?n = "start + (1 + endd + 1)" and ?m = "take endd ?block"
      have "endd < length ?block" using index_of_Some [OF e] by simp
      then have n: "c + ?n \<le> length stream" by simp
      have "mllpLoop stream ms c = mllpLoop stream (ms @ [?m]) (c + ?n)"
        using Some e by (simp add: mllpLoop.simps [of stream ms c] Let_def add.commute add.left_commute)
      also have "\<dots> = (case mllpLoop (drop (c + ?n) stream) [] 0 of (ms', c') \<Rightarrow> ((ms @ [?m]) @ ms', c + ?n + c'))"
        using n st by (intro less.hyps) auto
      finally have l: "mllpLoop stream ms c = \<dots>" .
      have "mllpLoop ?d [] 0 = mllpLoop ?d [?m] ?n"
        using Some e blk by (simp add: mllpLoop.simps [of ?d "[]" 0] Let_def add.commute add.left_commute)
      also have "\<dots> = (case mllpLoop (drop ?n ?d) [] 0 of (ms', c') \<Rightarrow> ([?m] @ ms', ?n + c'))"
        using n st by (intro less.hyps) auto
      finally show ?thesis unfolding l by (simp add: case_prod_unfold add.commute add.left_commute)
    qed
  qed
qed

lemma index_of_append: "(\<forall>x \<in> set xs. \<not> p x) \<Longrightarrow> p y \<Longrightarrow> index_of p (xs @ y # ys) = Some (length xs)"
  by (induction xs) auto

lemma mllp_frame_first:
  assumes "0x1C \<notin> set m"
  shows "mllpMessages (mllpFrame m @ rest) = (case mllpMessages (0x0D # rest) of (ms, c) \<Rightarrow> (m # ms, length m + 2 + c))"
proof -
  have "index_of (\<lambda>b. b = 0x1C) (m @ 0x1C # 0x0D # rest) = Some (length m)"
    using assms by (intro index_of_append) auto
  then have "mllpLoop (mllpFrame m @ rest) [] 0 = mllpLoop (mllpFrame m @ rest) [m] (length m + 2)"
    by (subst mllpLoop.simps) (simp add: mllpFrame_def)
  also have "\<dots> = (case mllpLoop (drop (length m + 2) (mllpFrame m @ rest)) [] 0 of (ms', c') \<Rightarrow> ([m] @ ms', length m + 2 + c'))"
    by (rule mllpLoop_shift) (simp add: mllpFrame_def)
  finally show ?thesis by (simp add: mllpMessages_def mllpFrame_def)
qed

lemma mllp_skips_return: "mllpMessages (0x0D # rest) = (case mllpMessages rest of (ms, c) \<Rightarrow> (ms, Suc c))"
proof (cases "index_of (\<lambda>b. b = 0x0B) rest")
  case None
  then show ?thesis by (simp add: mllpMessages_def mllpLoop.simps [of "_ # rest"] mllpLoop.simps [of rest])
next
  case (Some start)
  let ?block = "drop (start + 1) rest"
  show ?thesis
  proof (cases "index_of (\<lambda>b. b = 0x1C) ?block")
    case None
    with Some show ?thesis
      by (simp add: mllpMessages_def mllpLoop.simps [of "_ # rest" "[]" 0] mllpLoop.simps [of rest "[]" 0] Let_def)
  next
    case e: (Some endd)
    let ?n = "start + (1 + endd + 1)" and ?m = "take endd ?block"
    have "endd < length ?block" "start < length rest" using index_of_Some [OF e] index_of_Some [OF Some] by auto
    then have n: "?n \<le> length rest" by simp
    have "mllpMessages rest = mllpLoop rest [?m] ?n"
      using Some e by (simp add: mllpMessages_def mllpLoop.simps [of rest "[]" 0] Let_def)
    moreover have "mllpMessages (0x0D # rest) = mllpLoop (0x0D # rest) [?m] (Suc ?n)"
      using Some e by (simp add: mllpMessages_def mllpLoop.simps [of "_ # rest" "[]" 0] Let_def)
    ultimately show ?thesis
      using n mllpLoop_shift [of ?n rest "[?m]"] mllpLoop_shift [of "Suc ?n" "0x0D # rest" "[?m]"]
      by (simp add: case_prod_unfold)
  qed
qed

lemma mllp_frames_read:
  "(\<forall>m \<in> set ms. 0x1C \<notin> set m) \<Longrightarrow> mllpMessages (concat (map mllpFrame ms)) = (ms, length (concat (map mllpFrame ms)))"
proof (induction ms)
  case Nil
  then show ?case by (simp add: mllpMessages_def mllpLoop.simps)
next
  case (Cons m ms)
  then show ?case by (simp add: mllp_frame_first mllp_skips_return) (simp add: mllpFrame_def)
qed

end
