(* ===== verification/Stream_Services.thy ===== *)
theory Stream_Services
  imports Industrial_Services Clinical_Services
begin

text \<open>
  Three of the byte-stream services together: \<open>answerOf\<close> is the answer function that the handlers of Modbus, EtherNet/IP and DICOM pass to
  \<open>serveStream\<close>; each meets the contract of \<open>stream_service\<close>, so the facts about connections of \<open>Tcp_Stream\<close> hold for all three.  The other
  two users of \<open>serveStream\<close> do not meet it, because what they answer depends on how the stream is cut: HL7 drops a block that has
  not ended after 64 KiB, and FTP ends the conversation at a command line that is too long so far.  Of HL7 only the framing is modelled
  (\<open>mllpMessages\<close>), of FTP nothing.
\<close>

datatype service = ModbusService ModbusConfig | EtherNetIPService EtherNetIPConfig bytes | DICOMService

primrec answerOf :: "service \<Rightarrow> streamAnswer" where
  "answerOf (ModbusService server) = modbusAnswer server"
| "answerOf (EtherNetIPService server address) = enipAnswer server address True"
| "answerOf DICOMService = dicomAnswer"

interpretation services: stream_service "answerOf svc" for svc
proof (cases svc)
  case (ModbusService server)
  then show "stream_service (answerOf svc)" using modbus_stream.stream_service_axioms by simp
next
  case (EtherNetIPService server address)
  then show "stream_service (answerOf svc)" using enip_stream.stream_service_axioms by simp
next
  case DICOMService
  then show "stream_service (answerOf svc)" using dicom_stream.stream_service_axioms by simp
qed

text \<open>A read of one holding register, and the segments of a client that sends it in two pieces, the first one twice.\<close>

definition sampleRead :: bytes where
  "sampleRead = [0, 1, 0, 0, 0, 6, 9, 3, 0, 0, 0, 1]"

definition sampleKey :: streamKey where
  "sampleKey = ((1, 1025), (2, 502))"

definition sampleSegments :: "timedOp list" where
  "sampleSegments = [(2, [], OpReceive sampleKey 8 (take 8 sampleRead)), (3, [], OpReceive sampleKey 8 (take 8 sampleRead)),
     (4, [], OpClose zeroKey), (5, [], OpReceive sampleKey 16 (drop 8 sampleRead))]"

definition samplePlc :: ModbusConfig where
  "samplePlc = \<lparr>mcHoldingRegisters = 10, mcInputRegisters = 0\<rparr>"

lemma sampleRead_answer: "modbusAnswer samplePlc sampleRead = ([0, 1, 0, 0, 0, 5, 9, 3, 2, 0, 0], 12, False)"
  by code_simp

section \<open>Properties\<close>

text \<open>C5 (stream_replies): a client's connection to a Modbus, EtherNet/IP or DICOM service is opened and its segments arrive in any
  cut, with repetitions and segments out of order, mixed with the operations of other connections; as long as
  the conversation has not ended and the connection is neither reopened, closed nor the one dropped to make room for another, the
  replies sent to it, put together, are the service's answer to the bytes accepted in order, as if they had come in one piece.\<close>

theorem stream_replies:
  assumes "run_ok (streamStep (\<lambda>k. answerOf (svc k))) (undisturbed k) ops (streamStep (\<lambda>k. answerOf (svc k)) (now, order, OpOpen k next) s)"
    and "\<not> snd (snd (answerOf (svc k) (acceptedBytes next (segmentsOf k ops))))"
  shows "repliesTo k (run_ops (streamStep (\<lambda>k. answerOf (svc k))) ((now, order, OpOpen k next) # ops) s) =
     repliesTo k s @ fst (answerOf (svc k) (acceptedBytes next (segmentsOf k ops)))"
proof -
  let ?a = "\<lambda>k. answerOf (svc k)"
  let ?s = "streamStep ?a (now, order, OpOpen k next) s"
  let ?v = "\<lparr>ssNext = next, ssGreeted = False, ssPending = [], ssLastSeen = now\<rparr>"
  have v: "map_of (snStreams ?s) k = Some ?v" by (simp add: openStream_def Let_def gm_simps)
  have "repliesTo k ?s = repliesTo k s" by (simp add: repliesTo_def)
  with services.replies_follow [OF assms(1) refl v, where S = "[]" and R = "[]" and c = 0] assms(2)
  show ?thesis by (auto simp: services.idle)
qed

theorem stream_replies_witness:
  "repliesTo sampleKey (run_ops (streamStep (\<lambda>k. answerOf (ModbusService samplePlc)))
       ((1, [], OpOpen sampleKey 8) # sampleSegments) \<lparr>snStreams = [], snLog = []\<rparr>) = [0, 1, 0, 0, 0, 5, 9, 3, 2, 0, 0]"
proof -
  have acc: "acceptedBytes 8 (segmentsOf sampleKey sampleSegments) = sampleRead" by code_simp
  have "run_ok (streamStep (\<lambda>k. answerOf (ModbusService samplePlc))) (undisturbed sampleKey) sampleSegments
      (streamStep (\<lambda>k. answerOf (ModbusService samplePlc)) (1, [], OpOpen sampleKey 8) \<lparr>snStreams = [], snLog = []\<rparr>)"
    by code_simp
  from stream_replies [OF this] show ?thesis by (simp add: acc sampleRead_answer repliesTo_def)
qed

text \<open>Whatever sequence of opens, greetings, closes and segments arrives, a service never holds more than
  256 connections.\<close>

theorem streams_bounded:
  assumes "run_ok (streamStep (\<lambda>k. answerOf (svc k))) clockedOp ops \<lparr>snStreams = newServiceStreams, snLog = []\<rparr>"
  shows "length (snStreams (run_ops (streamStep (\<lambda>k. answerOf (svc k))) ops \<lparr>snStreams = newServiceStreams, snLog = []\<rparr>)) \<le> streamMaxConnections"
proof -
  have "streams_inv (snStreams \<lparr>snStreams = newServiceStreams, snLog = []\<rparr>)" by (simp add: streams_inv_def newServiceStreams_def)
  from conns.run_inv [OF this assms] show ?thesis by (simp add: streams_inv_def)
qed

theorem streams_bounded_witness:
  "length (snStreams (run_ops (streamStep (\<lambda>k. answerOf DICOMService)) [(1, [], OpOpen sampleKey 8)] \<lparr>snStreams = newServiceStreams, snLog = []\<rparr>)) \<le> 256"
proof -
  have "run_ok (streamStep (\<lambda>k. answerOf DICOMService)) clockedOp [(1, [], OpOpen sampleKey 8)] \<lparr>snStreams = newServiceStreams, snLog = []\<rparr>"
    by (simp add: newServiceStreams_def)
  from streams_bounded [OF this] show ?thesis by (simp add: streamMaxConnections_def)
qed

text \<open>What a service leaves unanswered of a stream is less than one largest request, so a
  connection holds at most 259 bytes for Modbus, 65534 for EtherNet/IP and 65541 for DICOM.\<close>

theorem leftover_bounded:
  assumes "answerOf svc stream = (reply, consumed, False)"
  shows "length (drop consumed stream) \<le> (case svc of ModbusService _ \<Rightarrow> 259 | EtherNetIPService _ _ \<Rightarrow> 65534 | DICOMService \<Rightarrow> 65541)"
proof (cases svc)
  case (ModbusService server)
  then have "modbusFront server (drop consumed stream) = NeedMore"
    using assms modbus_frames.loop_leftover by (simp add: modbusAnswer_frames)
  then show ?thesis by (auto simp: ModbusService modbusFront_def Let_def split: if_splits)
next
  case (EtherNetIPService server address)
  then have "enipFront server address True (drop consumed stream) = NeedMore"
    using assms enip_frames.loop_leftover by (simp add: enipAnswer_frames)
  then show ?thesis by (auto simp: EtherNetIPService enipFront_def Let_def split: if_splits)
next
  case DICOMService
  then have "dicomFront (drop consumed stream) = NeedMore"
    using assms dicom_frames.loop_leftover by (simp add: dicomAnswer_frames)
  then show ?thesis by (auto simp: DICOMService dicomFront_def Let_def dicomMaxPDU_def split: if_splits sum.splits)
qed

theorem leftover_bounded_witness:
  "length (drop 12 sampleRead) \<le> (case ModbusService samplePlc of ModbusService _ \<Rightarrow> 259 | EtherNetIPService _ _ \<Rightarrow> 65534 | DICOMService \<Rightarrow> 65541)"
  by (rule leftover_bounded [of _ _ "[0, 1, 0, 0, 0, 5, 9, 3, 2, 0, 0]"]) (simp add: sampleRead_answer)

text \<open>C39 (dicom_answer_typed): whatever bytes a client sends, the DICOM service answers a sequence of well-formed PDUs, each of
  a type a service class provider may send and with its true length in its header.\<close>

theorem dicom_answer_typed: "scpPDUs (fst (dicomAnswer stream))"
  using scpPDUs_loop by (cases "dicomAnswer stream") (auto simp: dicomAnswer_frames)

text \<open>A well-formed read of holding registers is answered with its own transaction, unit and function; with
  twice as many zero bytes as registers when the quantity is 1 to 125 and the range lies within the server's
  registers, with exception 3 for another quantity and exception 2 for another range.\<close>

theorem modbus_read_reply:
  "modbusAnswer server (beBytes 2 (tid :: 16 word) @ [0, 0] @ beBytes 2 (6 :: 16 word) @ [unit, 3] @ beBytes 2 (address :: 16 word) @ beBytes 2 (quantity :: 16 word)) =
    (beBytes 2 tid @ [0, 0] @
      (if unat quantity < 1 \<or> 125 < unat quantity then beBytes 2 (3 :: 16 word) @ [unit, 0x83, 3]
       else if mcHoldingRegisters server < int (unat address + unat quantity) then beBytes 2 (3 :: 16 word) @ [unit, 0x83, 2]
       else beBytes 2 (of_nat (3 + 2 * unat quantity) :: 16 word) @ [unit, 3, of_nat (2 * unat quantity)] @ replicate (2 * unat quantity) 0),
     12, False)"
    (is "modbusAnswer server ?req = (?reply, 12, False)")
proof -
  have fields: "slice 4 6 ?req = beBytes 2 (6 :: 16 word)" "slice 2 4 ?req = [0, 0]" "length ?req = 12"
    by (simp_all add: slice_def)
  have pdu: "drop 7 ?req = 3 # beBytes 2 address @ beBytes 2 quantity" by simp
  have byte: "Byte (of_nat (2 * unat quantity)) = of_nat (2 * unat quantity)" if "\<not> 125 < unat quantity"
    using that by (intro Byte_of_nat) simp
  have rd: "modbusResponsePDU server (3 # beBytes 2 address @ beBytes 2 quantity) =
     (if unat quantity < 1 \<or> 125 < unat quantity then [0x83, 3]
      else if mcHoldingRegisters server < int (unat address + unat quantity) then [0x83, 2]
      else [3, of_nat (2 * unat quantity)] @ replicate (2 * unat quantity) 0)"
    (is "_ = ?pdu")
    using byte by (auto simp: modbusResponsePDU_def modbusRead_def slice_def beRead_beBytes modbusException_def putAt_def Let_def)
  have size: "Uint16 (of_nat (1 + length ?pdu)) = of_nat (1 + length ?pdu)" by (intro Uint16_of_nat) simp
  have "modbusFrame server ?req = beBytes 2 tid @ [0, 0] @ beBytes 2 (of_nat (1 + length ?pdu) :: 16 word) @ [unit] @ ?pdu"
    unfolding modbusFrame_def Let_def pdu rd size by (simp add: putAt_def)
  also have "\<dots> = ?reply" by simp
  finally have "modbusFront server ?req = Take 12 ?reply"
    by (simp add: modbusFront_def fields [simplified] beRead_beBytes) (simp add: beRead_def)
  from modbus_frames.loop_take [OF this] show ?thesis
    by (simp add: modbusAnswer_frames modbus_frames.loop_more modbus_frames.front_empty)
qed

text \<open>Messages framed one after the other are read back as they were, and the whole stream is consumed, when no
  message holds the end-of-block byte.\<close>

theorem mllp_roundtrip:
  assumes "list_all (\<lambda>m. 0x1C \<notin> set m) ms"
  shows "mllpMessages (concat (map mllpFrame ms)) = (ms, length (concat (map mllpFrame ms)))"
  using assms by (simp add: mllp_frames_read list_all_iff)

theorem mllp_roundtrip_witness:
  "mllpMessages (mllpFrame [77, 83, 72] @ mllpFrame [] @ mllpFrame [0x0B]) = ([[77, 83, 72], [], [0x0B]], 13)"
  using mllp_roundtrip [of "[[77, 83, 72], [], [0x0B]]"] by (simp add: mllpFrame_def)

text \<open>Once a conversation has ended the service forgets the connection, so whatever segment
  comes next on it, a repetition of the last one included, is answered as the beginning of a new conversation.\<close>

theorem ended_answered_again:
  assumes "map_of m k = Some v" "seq = ssNext v" "snd (snd (answerOf svc (ssPending v @ p)))"
    and "receive now order (answerOf svc) k seq p m = (out, m')"
  shows "fst (receive now' order' (answerOf svc) k seq' p' m') = (fst (answerOf svc p'), True)"
proof -
  have "m' = gm_del k m"
    using assms by (auto simp: receive_def lookupOrStart_def Let_def case_prod_unfold)
  then have "map_of m' k = None" by (simp add: gm_simps)
  then show ?thesis by (simp add: receive_def lookupOrStart_def Let_def case_prod_unfold)
qed

theorem ended_answered_again_witness:
  "fst (receive 3 [] (answerOf (ModbusService samplePlc)) sampleKey 16 sampleRead
     (snd (receive 2 [] (answerOf (ModbusService samplePlc)) sampleKey 8 [0, 1, 0, 0, 0, 0, 9, 3]
       (openStream 1 [] sampleKey 8 [])))) = ([0, 1, 0, 0, 0, 5, 9, 3, 2, 0, 0], True)"
proof -
  let ?m = "openStream 1 [] sampleKey 8 []"
  let ?v = "\<lparr>ssNext = 8, ssGreeted = False, ssPending = [], ssLastSeen = 1\<rparr>"
  have m: "map_of ?m sampleKey = Some ?v" by (simp add: openStream_def gm_has_def streamMaxConnections_def)
  have fin: "snd (snd (answerOf (ModbusService samplePlc) (ssPending ?v @ [0, 1, 0, 0, 0, 0, 9, 3])))" by code_simp
  obtain out m' where r: "receive 2 [] (answerOf (ModbusService samplePlc)) sampleKey 8 [0, 1, 0, 0, 0, 0, 9, 3] ?m = (out, m')" by fastforce
  have "8 = ssNext ?v" by simp
  from ended_answered_again [OF m this fin r, of 3 "[]" 16 sampleRead] show ?thesis
    unfolding r snd_conv by (simp add: sampleRead_answer)
qed

text \<open>When every frame can be sent, the segments that carry a reply hold its bytes in order, at most 1460 in each, all
  but the last one full, with consecutive sequence numbers from the client's acknowledgement on, modulo
  \<open>2 ^ 32\<close>; they acknowledge the client's segment, and the last one closes if the client did.\<close>

theorem reply_segments:
  "wellSegmented (tsSeq tcp + (Uint32 (of_nat (min (length (tsPayload tcp)) maxUint32Payload)) + (if tsFIN tcp then 1 else 0)))
      (tsAck tcp) (tsFIN tcp) (sendStatelessSegment (\<lambda>_. True) True tcp answer) \<and>
   concat (map trChunk (sendStatelessSegment (\<lambda>_. True) True tcp answer)) = answer"
proof -
  let ?c = "Uint32 (of_nat (min (length (tsPayload tcp)) maxUint32Payload)) + (if tsFIN tcp then 1 else 0)"
  have "sendStatelessSegment (\<lambda>_. True) True tcp answer = segmentLoop (\<lambda>_. True) tcp ?c (tsAck tcp) answer"
    by (simp add: sendStatelessSegment_def Let_def)
  then show ?thesis by (simp only: segmentLoop_good [OF refl, of tcp ?c "tsAck tcp" answer])
qed

end
