(* ===== verification/Virtual_Tcp.thy ===== *)
theory Virtual_Tcp
  imports Go_Bytes "HOL-Library.Sublist"
begin

text \<open>
  The buffered byte streams under simulated TCP sessions (\<open>internal/virtualtcp/conn.go\<close>, \<open>packet_conn.go\<close>).

  A \<open>Pipe\<close> has two independent directions; the model is one of them, with the writing endpoint \<open>a\<close> and the reading
  endpoint \<open>b\<close>.  Its operations run in concurrent goroutines, so each operation is the sequence of its channel operations, one
  rule of the step relation \<open>pipeStep\<close> each, interleaved with those of the others: \<open>Write\<close> (which holds \<open>writeMu\<close>, so one is in
  progress at a time), \<open>Close\<close> of the writing end, \<open>Read\<close> (which holds \<open>readMu\<close>) and the two channel closes of the other end.
  A closed channel is a flag that stays set.  The fields \<open>vpWritten\<close>, \<open>vpRead\<close> and \<open>vpEOF\<close> record what the calls returned to
  their callers.  For \<open>PacketConn\<close> the two operations that exclude each other through \<open>deliverMu\<close> are one step each.
\<close>

section \<open>A pipe\<close>

definition streamBufferDepth :: nat where "streamBufferDepth = 128"

datatype writer = WFree | WStart bytes | WOpen bytes | WSend bytes
datatype closer = CNot | CDone | CAll
datatype reader = RFree | RStart nat | RTry nat | RWait nat | RDrain nat | RCopy nat

record pipe =
  vpQueue :: "bytes list"
  vpPending :: bytes
  vpDoneA :: bool
  vpWriteDoneA :: bool
  vpDoneB :: bool
  vpWriteDoneB :: bool
  vpWriter :: writer
  vpCloser :: closer
  vpReader :: reader
  vpWritten :: bytes
  vpRead :: bytes
  vpEOF :: bool

definition Pipe :: pipe where
  "Pipe = \<lparr>vpQueue = [], vpPending = [], vpDoneA = False, vpWriteDoneA = False, vpDoneB = False, vpWriteDoneB = False,
     vpWriter = WFree, vpCloser = CNot, vpReader = RFree, vpWritten = [], vpRead = [], vpEOF = False\<rparr>"

text \<open>Receiving from the inbound channel into the reader's buffer.\<close>

definition takeInbound :: "pipe \<Rightarrow> pipe" where
  "takeInbound s = s\<lparr>vpPending := hd (vpQueue s), vpQueue := tl (vpQueue s)\<rparr>"

inductive pipeStep :: "pipe \<Rightarrow> pipe \<Rightarrow> bool" where
  write_call: "vpWriter s = WFree \<Longrightarrow> src \<noteq> [] \<Longrightarrow> pipeStep s (s\<lparr>vpWriter := WStart src\<rparr>)"
| write_closed: "vpWriter s = WStart src \<Longrightarrow> vpDoneA s \<Longrightarrow> pipeStep s (s\<lparr>vpWriter := WFree\<rparr>)"
| write_open: "vpWriter s = WStart src \<Longrightarrow> \<not> vpDoneA s \<Longrightarrow> pipeStep s (s\<lparr>vpWriter := WOpen src\<rparr>)"
| write_peer_gone: "vpWriter s = WOpen src \<Longrightarrow> vpWriteDoneB s \<Longrightarrow> pipeStep s (s\<lparr>vpWriter := WFree\<rparr>)"
| write_peer_there: "vpWriter s = WOpen src \<Longrightarrow> \<not> vpWriteDoneB s \<Longrightarrow> pipeStep s (s\<lparr>vpWriter := WSend src\<rparr>)"
| write_sent: "vpWriter s = WSend src \<Longrightarrow> length (vpQueue s) < streamBufferDepth \<Longrightarrow>
    pipeStep s (s\<lparr>vpWriter := WFree, vpQueue := vpQueue s @ [src], vpWritten := vpWritten s @ src\<rparr>)"
| write_interrupted: "vpWriter s = WSend src \<Longrightarrow> vpDoneA s \<or> vpWriteDoneB s \<Longrightarrow> pipeStep s (s\<lparr>vpWriter := WFree\<rparr>)"
| close_done: "vpCloser s = CNot \<Longrightarrow> pipeStep s (s\<lparr>vpCloser := CDone, vpDoneA := True\<rparr>)"
| close_write: "vpCloser s = CDone \<Longrightarrow> vpWriter s = WFree \<Longrightarrow> pipeStep s (s\<lparr>vpCloser := CAll, vpWriteDoneA := True\<rparr>)"
| peer_done: "pipeStep s (s\<lparr>vpDoneB := True\<rparr>)"
| peer_write_done: "vpDoneB s \<Longrightarrow> pipeStep s (s\<lparr>vpWriteDoneB := True\<rparr>)"
| read_call: "vpReader s = RFree \<Longrightarrow> 0 < n \<Longrightarrow> pipeStep s (s\<lparr>vpReader := RStart n\<rparr>)"
| read_closed: "vpReader s = RStart n \<or> vpReader s = RWait n \<and> vpPending s = [] \<Longrightarrow> vpDoneB s \<Longrightarrow> pipeStep s (s\<lparr>vpReader := RFree\<rparr>)"
| read_open: "vpReader s = RStart n \<Longrightarrow> \<not> vpDoneB s \<Longrightarrow> pipeStep s (s\<lparr>vpReader := RTry n\<rparr>)"
| read_try: "vpReader s = RTry n \<Longrightarrow> vpPending s = [] \<Longrightarrow> vpQueue s \<noteq> [] \<Longrightarrow> pipeStep s ((takeInbound s)\<lparr>vpReader := RWait n\<rparr>)"
| read_try_none: "vpReader s = RTry n \<Longrightarrow> vpPending s \<noteq> [] \<or> vpQueue s = [] \<Longrightarrow> pipeStep s (s\<lparr>vpReader := RWait n\<rparr>)"
| read_have: "vpReader s = RWait n \<Longrightarrow> vpPending s \<noteq> [] \<Longrightarrow> pipeStep s (s\<lparr>vpReader := RCopy n\<rparr>)"
| read_wait: "vpReader s = RWait n \<Longrightarrow> vpPending s = [] \<Longrightarrow> vpQueue s \<noteq> [] \<Longrightarrow> pipeStep s ((takeInbound s)\<lparr>vpReader := RCopy n\<rparr>)"
| read_peer_done: "vpReader s = RWait n \<Longrightarrow> vpPending s = [] \<Longrightarrow> vpWriteDoneA s \<Longrightarrow> pipeStep s (s\<lparr>vpReader := RDrain n\<rparr>)"
| read_drain: "vpReader s = RDrain n \<Longrightarrow> vpQueue s \<noteq> [] \<Longrightarrow> pipeStep s ((takeInbound s)\<lparr>vpReader := RCopy n\<rparr>)"
| read_eof: "vpReader s = RDrain n \<Longrightarrow> vpQueue s = [] \<Longrightarrow> pipeStep s (s\<lparr>vpReader := RFree, vpEOF := True\<rparr>)"
| read_copy: "vpReader s = RCopy n \<Longrightarrow>
    pipeStep s (s\<lparr>vpReader := RFree, vpRead := vpRead s @ take n (vpPending s), vpPending := drop n (vpPending s)\<rparr>)"

inductive pipeReachable :: "pipe \<Rightarrow> bool" where
  start: "pipeReachable Pipe"
| step: "pipeReachable s \<Longrightarrow> pipeStep s t \<Longrightarrow> pipeReachable t"

definition pipe_inv :: "pipe \<Rightarrow> bool" where
  "pipe_inv s \<longleftrightarrow>
     vpWritten s = vpRead s @ vpPending s @ concat (vpQueue s) \<and>
     length (vpQueue s) \<le> streamBufferDepth \<and>
     (\<forall>b \<in> set (vpQueue s). b \<noteq> []) \<and>
     (\<forall>src. vpWriter s \<in> {WStart src, WOpen src, WSend src} \<longrightarrow> src \<noteq> []) \<and>
     (vpDoneA s \<longleftrightarrow> vpCloser s \<noteq> CNot) \<and> (vpWriteDoneA s \<longleftrightarrow> vpCloser s = CAll) \<and>
     (vpWriteDoneA s \<longrightarrow> (\<forall>src. vpWriter s \<noteq> WOpen src \<and> vpWriter s \<noteq> WSend src)) \<and>
     (\<forall>n. vpReader s = RDrain n \<longrightarrow> vpPending s = [] \<and> vpWriteDoneA s) \<and>
     (\<forall>n. vpReader s = RCopy n \<longrightarrow> vpPending s \<noteq> [] \<and> 0 < n) \<and>
     (\<forall>n. vpReader s \<in> {RStart n, RTry n, RWait n, RDrain n} \<longrightarrow> 0 < n) \<and>
     (vpEOF s \<longrightarrow> vpWriteDoneA s \<and> vpPending s = [] \<and> vpQueue s = [])"

lemma takeInbound_fields [simp]:
  "vpPending (takeInbound s) = hd (vpQueue s)" "vpQueue (takeInbound s) = tl (vpQueue s)"
  "vpDoneA (takeInbound s) = vpDoneA s" "vpWriteDoneA (takeInbound s) = vpWriteDoneA s" "vpCloser (takeInbound s) = vpCloser s"
  "vpWriter (takeInbound s) = vpWriter s" "vpWritten (takeInbound s) = vpWritten s" "vpRead (takeInbound s) = vpRead s"
  "vpEOF (takeInbound s) = vpEOF s" "vpReader (takeInbound s) = vpReader s"
  by (simp_all add: takeInbound_def)

lemma pipeStep_inv: "pipeStep s t \<Longrightarrow> pipe_inv s \<Longrightarrow> pipe_inv t"
proof (induction rule: pipeStep.induct)
  case (read_try s n)
  then show ?case by (cases "vpQueue s") (auto simp: pipe_inv_def)
next
  case (read_wait s n)
  then show ?case by (cases "vpQueue s") (auto simp: pipe_inv_def)
next
  case (read_drain s n)
  then show ?case by (cases "vpQueue s") (auto simp: pipe_inv_def)
qed (auto simp: pipe_inv_def)

lemma pipe_reachable_inv: "pipeReachable s \<Longrightarrow> pipe_inv s"
proof (induction rule: pipeReachable.induct)
  case start
  show ?case by (simp add: pipe_inv_def Pipe_def)
next
  case (step s t)
  then show ?case by (blast intro: pipeStep_inv)
qed

text \<open>The steps a pending \<open>Close\<close> still has to wait for.\<close>

definition closeWork :: "pipe \<Rightarrow> nat" where
  "closeWork s = (case vpWriter s of WFree \<Rightarrow> 1 | WSend _ \<Rightarrow> 2 | WOpen _ \<Rightarrow> 3 | WStart _ \<Rightarrow> 4) + (if vpCloser s = CAll then 0 else 4)"

section \<open>A packet-backed connection\<close>

datatype packetReader = KFree | KStart nat | KLoop nat | KWait nat | KDrain nat | KCopy nat

datatype deliverError = ErrNetClosed | ErrClosedPipe | ErrReceiveBufferFull

record packetConn =
  pkInbound :: "bytes list"
  pkPending :: bytes
  pkDone :: bool
  pkInboundDone :: bool
  pkReader :: packetReader
  pkWrites :: "bytes list"
  pkEmitted :: "bytes list"
  pkAcceptedWrites :: "bytes list"
  pkDelivered :: bytes
  pkRead :: bytes
  pkEOF :: bool

definition NewPacketConn :: packetConn where
  "NewPacketConn = \<lparr>pkInbound = [], pkPending = [], pkDone = False, pkInboundDone = False, pkReader = KFree, pkWrites = [],
     pkEmitted = [], pkAcceptedWrites = [], pkDelivered = [], pkRead = [], pkEOF = False\<rparr>"

definition Deliver :: "bytes \<Rightarrow> packetConn \<Rightarrow> deliverError option \<times> packetConn" where
  "Deliver payload c =
     (if pkDone c then (Some ErrNetClosed, c)
      else if pkInboundDone c then (Some ErrClosedPipe, c)
      else if length payload = 0 then (None, c)
      else if length (pkInbound c) < streamBufferDepth
        then (None, c\<lparr>pkInbound := pkInbound c @ [payload], pkDelivered := pkDelivered c @ payload\<rparr>)
      else (Some ErrReceiveBufferFull, c))"

definition FinishInbound :: "packetConn \<Rightarrow> packetConn" where
  "FinishInbound c = c\<lparr>pkInboundDone := True\<rparr>"

definition ClosePacket :: "packetConn \<Rightarrow> packetConn" where
  "ClosePacket c = c\<lparr>pkDone := True\<rparr>"

definition takePacket :: "packetConn \<Rightarrow> packetConn" where
  "takePacket c = c\<lparr>pkPending := hd (pkInbound c), pkInbound := tl (pkInbound c)\<rparr>"

inductive packetStep :: "packetConn \<Rightarrow> packetConn \<Rightarrow> bool" where
  deliver: "packetStep c (snd (Deliver payload c))"
| finish: "packetStep c (FinishInbound c)"
| close: "packetStep c (ClosePacket c)"
| enqueue_write: "length (pkWrites c) < streamBufferDepth \<Longrightarrow>
    packetStep c (c\<lparr>pkWrites := pkWrites c @ [payload], pkAcceptedWrites := pkAcceptedWrites c @ [payload]\<rparr>)"
| emit: "pkWrites c = payload # rest \<Longrightarrow> packetStep c (c\<lparr>pkWrites := rest, pkEmitted := pkEmitted c @ [payload]\<rparr>)"
| k_call: "pkReader c = KFree \<Longrightarrow> 0 < n \<Longrightarrow> packetStep c (c\<lparr>pkReader := KStart n\<rparr>)"
| k_closed: "pkReader c = KStart n \<or> pkReader c = KWait n \<Longrightarrow> pkDone c \<Longrightarrow> packetStep c (c\<lparr>pkReader := KFree\<rparr>)"
| k_open: "pkReader c = KStart n \<Longrightarrow> \<not> pkDone c \<Longrightarrow> packetStep c (c\<lparr>pkReader := KLoop n\<rparr>)"
| k_have: "pkReader c = KLoop n \<Longrightarrow> pkPending c \<noteq> [] \<Longrightarrow> packetStep c (c\<lparr>pkReader := KCopy n\<rparr>)"
| k_try: "pkReader c = KLoop n \<Longrightarrow> pkPending c = [] \<Longrightarrow> pkInbound c \<noteq> [] \<Longrightarrow> packetStep c (takePacket c)"
| k_try_none: "pkReader c = KLoop n \<Longrightarrow> pkPending c = [] \<Longrightarrow> pkInbound c = [] \<Longrightarrow> packetStep c (c\<lparr>pkReader := KWait n\<rparr>)"
| k_wait: "pkReader c = KWait n \<Longrightarrow> pkInbound c \<noteq> [] \<Longrightarrow> packetStep c ((takePacket c)\<lparr>pkReader := KLoop n\<rparr>)"
| k_finished: "pkReader c = KWait n \<Longrightarrow> pkInboundDone c \<Longrightarrow> packetStep c (c\<lparr>pkReader := KDrain n\<rparr>)"
| k_drain: "pkReader c = KDrain n \<Longrightarrow> pkInbound c \<noteq> [] \<Longrightarrow> packetStep c ((takePacket c)\<lparr>pkReader := KLoop n\<rparr>)"
| k_eof: "pkReader c = KDrain n \<Longrightarrow> pkInbound c = [] \<Longrightarrow> packetStep c (c\<lparr>pkReader := KFree, pkEOF := True\<rparr>)"
| k_copy: "pkReader c = KCopy n \<Longrightarrow>
    packetStep c (c\<lparr>pkReader := KFree, pkRead := pkRead c @ take n (pkPending c), pkPending := drop n (pkPending c)\<rparr>)"

inductive packetReachable :: "packetConn \<Rightarrow> bool" where
  k_start: "packetReachable NewPacketConn"
| k_step: "packetReachable c \<Longrightarrow> packetStep c d \<Longrightarrow> packetReachable d"

definition packet_inv :: "packetConn \<Rightarrow> bool" where
  "packet_inv c \<longleftrightarrow>
     pkDelivered c = pkRead c @ pkPending c @ concat (pkInbound c) \<and>
     length (pkInbound c) \<le> streamBufferDepth \<and>
     (\<forall>n. pkReader c = KWait n \<or> pkReader c = KDrain n \<longrightarrow> pkPending c = []) \<and>
     (\<forall>n. pkReader c = KDrain n \<longrightarrow> pkInboundDone c) \<and>
     pkAcceptedWrites c = pkEmitted c @ pkWrites c \<and> length (pkWrites c) \<le> streamBufferDepth \<and>
     (pkEOF c \<longrightarrow> pkInboundDone c \<and> pkPending c = [] \<and> pkInbound c = [])"

lemma takePacket_fields [simp]:
  "pkPending (takePacket c) = hd (pkInbound c)" "pkInbound (takePacket c) = tl (pkInbound c)" "pkDone (takePacket c) = pkDone c"
  "pkInboundDone (takePacket c) = pkInboundDone c" "pkReader (takePacket c) = pkReader c" "pkWrites (takePacket c) = pkWrites c"
  "pkEmitted (takePacket c) = pkEmitted c" "pkAcceptedWrites (takePacket c) = pkAcceptedWrites c"
  "pkDelivered (takePacket c) = pkDelivered c" "pkRead (takePacket c) = pkRead c" "pkEOF (takePacket c) = pkEOF c"
  by (simp_all add: takePacket_def)

lemma packetStep_inv: "packetStep c d \<Longrightarrow> packet_inv c \<Longrightarrow> packet_inv d"
proof (induction rule: packetStep.induct)
  case (deliver c payload)
  then show ?case by (auto simp: packet_inv_def Deliver_def)
next
  case (k_try c n)
  then show ?case by (cases "pkInbound c") (auto simp: packet_inv_def)
next
  case (k_wait c n)
  then show ?case by (cases "pkInbound c") (auto simp: packet_inv_def)
next
  case (k_drain c n)
  then show ?case by (cases "pkInbound c") (auto simp: packet_inv_def)
qed (auto simp: packet_inv_def FinishInbound_def ClosePacket_def)

lemma packet_reachable_inv: "packetReachable c \<Longrightarrow> packet_inv c"
proof (induction rule: packetReachable.induct)
  case k_start
  show ?case by (simp add: packet_inv_def NewPacketConn_def)
next
  case (k_step c d)
  then show ?case by (blast intro: packetStep_inv)
qed

section \<open>Properties\<close>

text \<open>C34 (pipe_delivers): in every interleaving of writes, closes and reads, the bytes read are a prefix of the bytes whose write
  succeeded, at most 128 segments wait, and once a read has reported the end of the stream every byte
  written has been read and none can follow.\<close>

theorem pipe_delivers:
  assumes "pipeReachable s"
  shows "prefix (vpRead s) (vpWritten s) \<and> length (vpQueue s) \<le> 128 \<and>
     (vpEOF s \<longrightarrow> vpRead s = vpWritten s \<and> (\<forall>t. pipeStep s t \<longrightarrow> vpWritten t = vpWritten s))"
proof -
  have inv: "pipe_inv s" by (rule pipe_reachable_inv [OF assms])
  have "vpWritten t = vpWritten s" if "vpEOF s" "pipeStep s t" for t
  proof -
    have "vpEOF t" using that(2,1) by (induction rule: pipeStep.induct) auto
    moreover have "pipe_inv t" by (rule pipeStep_inv [OF that(2) inv])
    moreover have "vpRead t = vpRead s"
      using that(2,1) inv by (induction rule: pipeStep.induct) (auto simp: pipe_inv_def)
    ultimately show ?thesis using inv that(1) by (simp add: pipe_inv_def)
  qed
  with inv show ?thesis by (auto simp: pipe_inv_def streamBufferDepth_def)
qed

lemma sample_pipe:
  "pipeReachable (Pipe\<lparr>vpCloser := CAll, vpDoneA := True, vpWriteDoneA := True, vpEOF := True\<rparr>)"
proof -
  have 1: "pipeReachable (Pipe\<lparr>vpCloser := CDone, vpDoneA := True\<rparr>)"
    by (rule pipeReachable.step [OF start]) (rule close_done, simp add: Pipe_def)
  let ?c = "Pipe\<lparr>vpCloser := CAll, vpDoneA := True, vpWriteDoneA := True\<rparr>"
  have 2: "pipeReachable ?c"
    using pipeReachable.step [OF 1 close_write] by (simp add: Pipe_def)
  have 3: "pipeReachable (?c\<lparr>vpReader := RStart 1\<rparr>)"
    by (rule pipeReachable.step [OF 2]) (rule read_call, simp_all add: Pipe_def)
  have 4: "pipeReachable (?c\<lparr>vpReader := RTry 1\<rparr>)"
    using pipeReachable.step [OF 3 read_open] by (simp add: Pipe_def)
  have 5: "pipeReachable (?c\<lparr>vpReader := RWait 1\<rparr>)"
    using pipeReachable.step [OF 4 read_try_none] by (simp add: Pipe_def)
  have 6: "pipeReachable (?c\<lparr>vpReader := RDrain 1\<rparr>)"
    using pipeReachable.step [OF 5 read_peer_done] by (simp add: Pipe_def)
  show ?thesis using pipeReachable.step [OF 6 read_eof] by (simp add: Pipe_def)
qed

theorem pipe_delivers_witness:
  "vpRead (Pipe\<lparr>vpCloser := CAll, vpDoneA := True, vpWriteDoneA := True, vpEOF := True\<rparr>) =
   vpWritten (Pipe\<lparr>vpCloser := CAll, vpDoneA := True, vpWriteDoneA := True, vpEOF := True\<rparr>)"
  using pipe_delivers [OF sample_pipe] by (simp add: Pipe_def)

text \<open>C35 (close_completes): a \<open>Close\<close> that has begun can always proceed, also while a \<open>Write\<close> waits on a full buffer: until it is
  done, some step is possible after which strictly less is left to wait for.\<close>

theorem close_completes:
  assumes "pipeReachable s" "vpCloser s = CDone"
  shows "\<exists>t. pipeStep s t \<and> closeWork t < closeWork s \<and> (vpCloser t = CDone \<or> vpCloser t = CAll)"
proof -
  have fin: "vpDoneA s" using pipe_reachable_inv [OF assms(1)] assms(2) by (simp add: pipe_inv_def)
  show ?thesis
  proof (cases "vpWriter s")
    case WFree
    from close_write [OF assms(2) WFree] show ?thesis
      by - (intro exI conjI, assumption, simp_all add: closeWork_def WFree assms(2))
  next
    case (WStart src)
    from write_closed [OF WStart fin] show ?thesis
      by - (intro exI conjI, assumption, simp_all add: closeWork_def WStart assms(2))
  next
    case (WOpen src)
    show ?thesis
    proof (cases "vpWriteDoneB s")
      case True
      from write_peer_gone [OF WOpen True] show ?thesis
        by - (intro exI conjI, assumption, simp_all add: closeWork_def WOpen assms(2))
    next
      case False
      from write_peer_there [OF WOpen False] show ?thesis
        by - (intro exI conjI, assumption, simp_all add: closeWork_def WOpen assms(2))
    qed
  next
    case (WSend src)
    from write_interrupted [OF WSend disjI1 [OF fin]] show ?thesis
      by - (intro exI conjI, assumption, simp_all add: closeWork_def WSend assms(2))
  qed
qed

theorem close_completes_witness:
  "\<exists>t. pipeStep (Pipe\<lparr>vpCloser := CDone, vpDoneA := True\<rparr>) t \<and>
     closeWork t < closeWork (Pipe\<lparr>vpCloser := CDone, vpDoneA := True\<rparr>)"
proof -
  have "pipeReachable (Pipe\<lparr>vpCloser := CDone, vpDoneA := True\<rparr>)"
    by (rule pipeReachable.step [OF start]) (rule close_done, simp add: Pipe_def)
  from close_completes [OF this] show ?thesis by auto
qed

text \<open>A packet-backed connection hands its reader the delivered bytes in order, holds at most 128 segments
  each way, emits writes in the order they were accepted, and reports the end of the stream only after
  \<open>FinishInbound\<close> and after everything accepted before it has been read.\<close>

theorem packet_conn_delivers:
  assumes "packetReachable c"
  shows "prefix (pkRead c) (pkDelivered c) \<and> prefix (pkEmitted c) (pkAcceptedWrites c) \<and>
     length (pkInbound c) \<le> 128 \<and> length (pkWrites c) \<le> 128 \<and>
     (pkEOF c \<longrightarrow> pkInboundDone c \<and> pkRead c = pkDelivered c)"
  using packet_reachable_inv [OF assms] by (auto simp: packet_inv_def streamBufferDepth_def)

theorem packet_conn_delivers_witness:
  "prefix (pkRead (snd (Deliver [7] NewPacketConn))) (pkDelivered (snd (Deliver [7] NewPacketConn)))"
  using packet_conn_delivers [OF packetReachable.k_step [OF k_start packetStep.deliver]] by blast

end
