(* ===== verification/Draft_Topology.thy ===== *)
theory Draft_Topology
  imports Net_Config Go_Text Go_Net
begin

text \<open>
  Visual topology edits of a configuration draft (\<open>internal/drafttopology/mutation.go\<close>).  A draft keeps its devices in a flat list or
  in segments; a \<open>*config.Device\<close> is the position of the device in the order \<open>findDevice\<close> searches, flat devices first.  An edit returns its
  error class (\<open>IsInvalid\<close>, \<open>IsNotFound\<close>, \<open>IsConflict\<close>), not the message, together with the configuration, which the code edits in place.  A nil slice
  or map is an empty one.  A \<open>float64\<close> is its 64-bit pattern, on which the range check of a position is exact; its decimal text
  (\<open>strconv.FormatFloat\<close>) is the parameter \<open>formatFloat\<close>, and \<open>net.ParseIP\<close> the parameter \<open>parseIP\<close>.
\<close>

unbundle bit_operations_syntax

section \<open>Drafts and mutations\<close>

type_synonym float64 = "64 word"

record DraftInterface =
  diName :: string
  diType :: string
  diNetwork :: string
  diAddress :: string
  diMTU :: int
  diSpeed :: int
  diDuplex :: string
  diAdminStatus :: string
  diOperStatus :: string
  diDescription :: string
  diInUtilization :: float64
  diOutUtilization :: float64
  diVLANs :: "int list"

record DraftSNMP =
  dsEnabled :: "bool option"
  dsCommunity :: string
  dsSysName :: string
  dsWalkFile :: string

record DraftDevice =
  ddName :: string
  ddType :: string
  ddMACAddress :: "nat list"
  ddMACVendor :: string
  ddMACSuffix :: "32 word"
  ddIPAddresses :: "8 word list list"
  ddVLAN :: int
  ddInterfaces :: "DraftInterface list"
  ddSNMPConfig :: DraftSNMP
  ddTrunkPorts :: "TrunkPort list"
  ddProperties :: "(string, string) gomap"

record DraftConfig =
  dcDevices :: "DraftDevice list"
  dcSegments :: "DraftDevice list list"

record DeviceMutation =
  dmName :: string
  dmType :: string
  dmVendor :: string
  dmMAC :: string
  dmMACSuffix :: "32 word"
  dmSysObjectID :: string
  dmIPs :: "string list"
  dmVLAN :: int
  dmInterfaces :: "DraftInterface list"
  dmProperties :: "(string, string) gomap"
  dmWalkFile :: string

record Endpoint =
  epDevice :: string
  epInterface :: string

record LinkEndpoints =
  leSource :: Endpoint
  leTarget :: Endpoint

record LinkProperties =
  lpVLANs :: "int list"
  lpNativeVLAN :: int
  lpFDBOnly :: bool

record LinkMutation =
  lmEndpoints :: LinkEndpoints
  lmProperties :: LinkProperties

record PositionMutation =
  pmDevice :: string
  pmX :: float64
  pmY :: float64

record Mutation =
  mtOperation :: string
  mtDevice :: "DeviceMutation option"
  mtLink :: "LinkMutation option"
  mtPosition :: "PositionMutation option"

datatype draftError = Invalid | NotFound | Conflict

section \<open>Devices of a draft\<close>

definition allDevices :: "DraftConfig \<Rightarrow> DraftDevice list" where
  "allDevices cfg = dcDevices cfg @ concat (dcSegments cfg)"

definition normalizedSegments :: "DraftConfig \<Rightarrow> DraftDevice list list" where
  "normalizedSegments cfg = (if dcSegments cfg \<noteq> [] then dcSegments cfg else [dcDevices cfg])"

definition findDevice :: "DraftConfig \<Rightarrow> string \<Rightarrow> nat option" where
  "findDevice cfg name = index_of (\<lambda>d. ddName d = name) (allDevices cfg)"

fun updateSegments :: "nat \<Rightarrow> (DraftDevice \<Rightarrow> DraftDevice) \<Rightarrow> DraftDevice list list \<Rightarrow> DraftDevice list list" where
  "updateSegments i f [] = []"
| "updateSegments i f (ds # rest) =
     (if i < length ds then ds[i := f (ds ! i)] # rest else ds # updateSegments (i - length ds) f rest)"

text \<open>Writing through the pointer \<open>findDevice\<close> returned.\<close>

definition updateDevice :: "nat \<Rightarrow> (DraftDevice \<Rightarrow> DraftDevice) \<Rightarrow> DraftConfig \<Rightarrow> DraftConfig" where
  "updateDevice i f cfg =
     (if i < length (dcDevices cfg) then cfg\<lparr>dcDevices := (dcDevices cfg)[i := f (dcDevices cfg ! i)]\<rparr>
      else cfg\<lparr>dcSegments := updateSegments (i - length (dcDevices cfg)) f (dcSegments cfg)\<rparr>)"

definition deviceSegment :: "DraftConfig \<Rightarrow> string \<Rightarrow> int" where
  "deviceSegment cfg name =
     (if dcSegments cfg = [] then 0
      else case index_of (\<lambda>ds. \<exists>d \<in> set ds. ddName d = name) (dcSegments cfg) of Some i \<Rightarrow> int i | None \<Rightarrow> - 1)"

definition endpointOccupied :: "DraftConfig \<Rightarrow> Endpoint \<Rightarrow> bool" where
  "endpointOccupied cfg ep \<longleftrightarrow>
     (\<exists>ds \<in> set (normalizedSegments cfg). \<exists>d \<in> set ds. \<exists>t \<in> set (ddTrunkPorts d).
        ddName d = epDevice ep \<and> tpInterface t = epInterface ep \<or>
        tpRemoteDevice t = epDevice ep \<and> tpRemoteInterface t = epInterface ep)"

section \<open>Adding and moving devices\<close>

definition maxMACSuffix :: "32 word" where "maxMACSuffix = 0xFFFFFF"

definition capturedSNMPConfig :: "DeviceMutation \<Rightarrow> DraftSNMP" where
  "capturedSNMPConfig input =
     (if dmWalkFile input = [] then \<lparr>dsEnabled = None, dsCommunity = [], dsSysName = [], dsWalkFile = []\<rparr>
      else \<lparr>dsEnabled = Some True, dsCommunity = ''public'', dsSysName = dmName input, dsWalkFile = dmWalkFile input\<rparr>)"

primrec parseAll :: "('a \<Rightarrow> 'b option) \<Rightarrow> 'a list \<Rightarrow> 'b list option" where
  "parseAll f [] = Some []"
| "parseAll f (x # xs) = (case f x of None \<Rightarrow> None | Some y \<Rightarrow> map_option (Cons y) (parseAll f xs))"

definition addDevice :: "(string \<Rightarrow> 8 word list option) \<Rightarrow> DraftConfig \<Rightarrow> DeviceMutation \<Rightarrow> draftError option \<times> DraftConfig" where
  "addDevice parseIP cfg input =
     (if dcSegments cfg \<noteq> [] then (Some Invalid, cfg)
      else if trimSpace (dmName input) = [] \<or> dmName input \<noteq> trimSpace (dmName input) then (Some Invalid, cfg)
      else if trimSpace (dmType input) = [] then (Some Invalid, cfg)
      else if dmMAC input \<noteq> [] \<and> dmVendor input \<noteq> [] then (Some Invalid, cfg)
      else if dmMAC input = [] \<and> dmVendor input = [] then (Some Invalid, cfg)
      else if maxMACSuffix < dmMACSuffix input then (Some Invalid, cfg)
      else if findDevice cfg (dmName input) \<noteq> None then (Some Conflict, cfg)
      else case (if dmMAC input \<noteq> [] then ParseMAC (dmMAC input) else Some []) of
        None \<Rightarrow> (Some Invalid, cfg)
      | Some mac \<Rightarrow>
          case parseAll parseIP (dmIPs input) of
            None \<Rightarrow> (Some Invalid, cfg)
          | Some ips \<Rightarrow>
              let properties = (if dmSysObjectID input \<noteq> [] then gm_put ''sysObjectID'' (dmSysObjectID input) (dmProperties input)
                                else dmProperties input);
                  device = \<lparr>ddName = dmName input, ddType = dmType input, ddMACAddress = mac, ddMACVendor = dmVendor input,
                    ddMACSuffix = dmMACSuffix input, ddIPAddresses = ips, ddVLAN = dmVLAN input, ddInterfaces = dmInterfaces input,
                    ddSNMPConfig = capturedSNMPConfig input, ddTrunkPorts = [], ddProperties = properties\<rparr>
              in (None, cfg\<lparr>dcDevices := dcDevices cfg @ [device]\<rparr>))"

text \<open>\<open>math.IsNaN\<close>, \<open>math.IsInf\<close> and the comparison with \<open>maxCoordinate\<close>, on the bits of a double: without the sign bit, the patterns of
  numbers are in the order of the numbers, and those of the infinities and not-a-numbers lie above them.\<close>

definition magnitude :: "float64 \<Rightarrow> 64 word" where
  "magnitude x = x AND 0x7FFFFFFFFFFFFFFF"

definition isNaN :: "float64 \<Rightarrow> bool" where
  "isNaN x \<longleftrightarrow> 0x7FF0000000000000 < magnitude x"

definition isInf :: "float64 \<Rightarrow> bool" where
  "isInf x \<longleftrightarrow> magnitude x = 0x7FF0000000000000"

definition beyondMaxCoordinate :: "float64 \<Rightarrow> bool" where
  "beyondMaxCoordinate x \<longleftrightarrow> \<not> isNaN x \<and> 0x412E848000000000 < magnitude x"

definition moveDevice :: "(float64 \<Rightarrow> string) \<Rightarrow> DraftConfig \<Rightarrow> PositionMutation \<Rightarrow> draftError option \<times> DraftConfig" where
  "moveDevice formatFloat cfg position =
     (if isNaN (pmX position) \<or> isNaN (pmY position) \<or> isInf (pmX position) \<or> isInf (pmY position) \<or>
         beyondMaxCoordinate (pmX position) \<or> beyondMaxCoordinate (pmY position) then (Some Invalid, cfg)
      else case findDevice cfg (pmDevice position) of
        None \<Rightarrow> (Some NotFound, cfg)
      | Some i \<Rightarrow> (None, updateDevice i (\<lambda>d. d\<lparr>ddProperties :=
          gm_put ''topology_y'' (formatFloat (pmY position)) (gm_put ''topology_x'' (formatFloat (pmX position)) (ddProperties d))\<rparr>) cfg))"

section \<open>Links\<close>

definition findInterface :: "DraftDevice \<Rightarrow> string \<Rightarrow> nat option" where
  "findInterface d name = index_of (\<lambda>i. diName i = name) (ddInterfaces d)"

definition resolveEndpoint :: "DraftConfig \<Rightarrow> Endpoint \<Rightarrow> draftError + nat \<times> nat" where
  "resolveEndpoint cfg ep =
     (case findDevice cfg (epDevice ep) of
        None \<Rightarrow> Inl NotFound
      | Some i \<Rightarrow>
          case findInterface (allDevices cfg ! i) (epInterface ep) of
            None \<Rightarrow> Inl NotFound
          | Some f \<Rightarrow>
              let iface = ddInterfaces (allDevices cfg ! i) ! f in
              if diType iface \<noteq> [] \<and> diType iface \<noteq> ''ethernet'' \<and> diType iface \<noteq> ''other'' then Inl Invalid
              else Inr (i, f))"

definition linkDevicesAndInterfaces :: "DraftConfig \<Rightarrow> LinkEndpoints \<Rightarrow> draftError + (nat \<times> nat) \<times> (nat \<times> nat)" where
  "linkDevicesAndInterfaces cfg endpoints =
     (if epDevice (leSource endpoints) = epDevice (leTarget endpoints) then Inl Invalid
      else case resolveEndpoint cfg (leSource endpoints) of
        Inl e \<Rightarrow> Inl e
      | Inr left \<Rightarrow>
          case resolveEndpoint cfg (leTarget endpoints) of
            Inl e \<Rightarrow> Inl e
          | Inr right \<Rightarrow> Inr (left, right))"

primrec vlansOk :: "int set \<Rightarrow> int list \<Rightarrow> bool" where
  "vlansOk seen [] = True"
| "vlansOk seen (v # vs) = (if v < 1 \<or> 4094 < v then False else if v \<in> seen then False else vlansOk (insert v seen) vs)"

definition validateLinkProperties :: "LinkProperties \<Rightarrow> draftError option" where
  "validateLinkProperties p =
     (if \<not> vlansOk {} (lpVLANs p) then Some Invalid
      else if lpNativeVLAN p \<noteq> 0 \<and> lpNativeVLAN p \<notin> set (lpVLANs p) then Some Invalid
      else None)"

definition setTrunkProperties :: "LinkProperties \<Rightarrow> TrunkPort \<Rightarrow> TrunkPort" where
  "setTrunkProperties p t = t\<lparr>tpVLANs := lpVLANs p, tpNativeVLAN := lpNativeVLAN p, tpFDBOnly := lpFDBOnly p\<rparr>"

definition newTrunk :: "Endpoint \<Rightarrow> Endpoint \<Rightarrow> TrunkPort" where
  "newTrunk local remote = \<lparr>tpInterface = epInterface local, tpVLANs = [], tpNativeVLAN = 0, tpRemoteDevice = epDevice remote,
     tpRemoteInterface = epInterface remote, tpFDBOnly = False\<rparr>"

definition linkDescription :: "Endpoint \<Rightarrow> string" where
  "linkDescription remote = ''to '' @ epDevice remote @ '' '' @ epInterface remote"

definition updateInterface :: "nat \<Rightarrow> (DraftInterface \<Rightarrow> DraftInterface) \<Rightarrow> DraftDevice \<Rightarrow> DraftDevice" where
  "updateInterface f g d = d\<lparr>ddInterfaces := (ddInterfaces d)[f := g (ddInterfaces d ! f)]\<rparr>"

definition appendTrunk :: "nat \<times> nat \<Rightarrow> Endpoint \<Rightarrow> Endpoint \<Rightarrow> LinkProperties \<Rightarrow> DraftConfig \<Rightarrow> DraftConfig" where
  "appendTrunk at local remote p cfg =
     updateDevice (fst at) (\<lambda>d. updateInterface (snd at) (\<lambda>i. i\<lparr>diDescription := linkDescription remote, diVLANs := lpVLANs p\<rparr>)
       (d\<lparr>ddTrunkPorts := ddTrunkPorts d @ [setTrunkProperties p (newTrunk local remote)]\<rparr>)) cfg"

definition connect :: "DraftConfig \<Rightarrow> LinkMutation \<Rightarrow> draftError option \<times> DraftConfig" where
  "connect cfg link =
     (let source = leSource (lmEndpoints link); target = leTarget (lmEndpoints link) in
      case linkDevicesAndInterfaces cfg (lmEndpoints link) of
        Inl e \<Rightarrow> (Some e, cfg)
      | Inr (left, right) \<Rightarrow>
          if deviceSegment cfg (epDevice source) \<noteq> deviceSegment cfg (epDevice target) then (Some Invalid, cfg)
          else if endpointOccupied cfg source \<or> endpointOccupied cfg target then (Some Conflict, cfg)
          else case validateLinkProperties (lmProperties link) of
            Some e \<Rightarrow> (Some e, cfg)
          | None \<Rightarrow> (None, appendTrunk right target source (lmProperties link) (appendTrunk left source target (lmProperties link) cfg)))"

definition exactTrunkIndex :: "DraftDevice \<Rightarrow> string \<Rightarrow> Endpoint \<Rightarrow> nat option" where
  "exactTrunkIndex d iface remote =
     index_of (\<lambda>t. tpInterface t = iface \<and> tpRemoteDevice t = epDevice remote \<and> tpRemoteInterface t = epInterface remote) (ddTrunkPorts d)"

definition removeAt :: "nat \<Rightarrow> 'a list \<Rightarrow> 'a list" where
  "removeAt n xs = take n xs @ drop (Suc n) xs"

definition clearInterfaceLink :: "Endpoint \<Rightarrow> DraftInterface \<Rightarrow> DraftInterface" where
  "clearInterfaceLink remote i =
     (if diDescription i = linkDescription remote then i\<lparr>diDescription := [], diVLANs := []\<rparr> else i\<lparr>diVLANs := []\<rparr>)"

definition dropTrunk :: "nat \<times> nat \<Rightarrow> nat \<Rightarrow> Endpoint \<Rightarrow> DraftConfig \<Rightarrow> DraftConfig" where
  "dropTrunk at k remote cfg =
     updateDevice (fst at) (\<lambda>d. updateInterface (snd at) (clearInterfaceLink remote) (d\<lparr>ddTrunkPorts := removeAt k (ddTrunkPorts d)\<rparr>)) cfg"

definition reciprocalIndices :: "DraftConfig \<Rightarrow> LinkEndpoints \<Rightarrow> nat \<Rightarrow> nat \<Rightarrow> (nat \<times> nat) option" where
  "reciprocalIndices cfg endpoints left right =
     (case (exactTrunkIndex (allDevices cfg ! left) (epInterface (leSource endpoints)) (leTarget endpoints),
            exactTrunkIndex (allDevices cfg ! right) (epInterface (leTarget endpoints)) (leSource endpoints)) of
        (Some l, Some r) \<Rightarrow> Some (l, r)
      | _ \<Rightarrow> None)"

definition disconnect :: "DraftConfig \<Rightarrow> LinkEndpoints \<Rightarrow> draftError option \<times> DraftConfig" where
  "disconnect cfg endpoints =
     (case linkDevicesAndInterfaces cfg endpoints of
        Inl e \<Rightarrow> (Some e, cfg)
      | Inr (left, right) \<Rightarrow>
          case reciprocalIndices cfg endpoints (fst left) (fst right) of
            None \<Rightarrow> (Some Conflict, cfg)
          | Some (l, r) \<Rightarrow> (None, dropTrunk right r (leSource endpoints) (dropTrunk left l (leTarget endpoints) cfg)))"

definition sameTrunkProperties :: "TrunkPort \<Rightarrow> TrunkPort \<Rightarrow> bool" where
  "sameTrunkProperties a b \<longleftrightarrow> sort (tpVLANs a) = sort (tpVLANs b) \<and> tpNativeVLAN a = tpNativeVLAN b \<and> tpFDBOnly a = tpFDBOnly b"

definition retrunk :: "nat \<times> nat \<Rightarrow> nat \<Rightarrow> LinkProperties \<Rightarrow> DraftConfig \<Rightarrow> DraftConfig" where
  "retrunk at k p cfg =
     updateDevice (fst at) (\<lambda>d. updateInterface (snd at) (\<lambda>i. i\<lparr>diVLANs := lpVLANs p\<rparr>)
       (d\<lparr>ddTrunkPorts := (ddTrunkPorts d)[k := setTrunkProperties p (ddTrunkPorts d ! k)]\<rparr>)) cfg"

definition updateLink :: "DraftConfig \<Rightarrow> LinkMutation \<Rightarrow> draftError option \<times> DraftConfig" where
  "updateLink cfg link =
     (case linkDevicesAndInterfaces cfg (lmEndpoints link) of
        Inl e \<Rightarrow> (Some e, cfg)
      | Inr (left, right) \<Rightarrow>
          case reciprocalIndices cfg (lmEndpoints link) (fst left) (fst right) of
            None \<Rightarrow> (Some Conflict, cfg)
          | Some (l, r) \<Rightarrow>
              if \<not> sameTrunkProperties (ddTrunkPorts (allDevices cfg ! fst left) ! l) (ddTrunkPorts (allDevices cfg ! fst right) ! r)
              then (Some Conflict, cfg)
              else case validateLinkProperties (lmProperties link) of
                Some e \<Rightarrow> (Some e, cfg)
              | None \<Rightarrow> (None, retrunk right r (lmProperties link) (retrunk left l (lmProperties link) cfg)))"

section \<open>Applying a mutation\<close>

definition validatePayload :: "Mutation \<Rightarrow> draftError option" where
  "validatePayload m =
     (let device = mtDevice m \<noteq> None; link = mtLink m \<noteq> None; position = mtPosition m \<noteq> None in
      if mtOperation m = ''add_device'' then (if \<not> device \<or> link \<or> position then Some Invalid else None)
      else if mtOperation m \<in> {''connect'', ''disconnect'', ''update_link''} then (if device \<or> \<not> link \<or> position then Some Invalid else None)
      else if mtOperation m = ''move_device'' then (if device \<or> link \<or> \<not> position then Some Invalid else None)
      else Some Invalid)"

definition applyMutation ::
  "(string \<Rightarrow> 8 word list option) \<Rightarrow> (float64 \<Rightarrow> string) \<Rightarrow> DraftConfig \<Rightarrow> Mutation \<Rightarrow> draftError option \<times> DraftConfig" where
  "applyMutation parseIP formatFloat cfg m =
     (case validatePayload m of
        Some e \<Rightarrow> (Some e, cfg)
      | None \<Rightarrow>
          if mtOperation m = ''add_device'' then addDevice parseIP cfg (the (mtDevice m))
          else if mtOperation m = ''connect'' then connect cfg (the (mtLink m))
          else if mtOperation m = ''disconnect'' then disconnect cfg (lmEndpoints (the (mtLink m)))
          else if mtOperation m = ''move_device'' then moveDevice formatFloat cfg (the (mtPosition m))
          else if mtOperation m = ''update_link'' then updateLink cfg (the (mtLink m))
          else (Some Invalid, cfg))"

end
