(* ===== verification/Draft_Links.thy ===== *)
theory Draft_Links
  imports Draft_Topology
begin

text \<open>
  What topology edits keep true of a draft.  \<open>trunksByName\<close> views a draft as the trunk ports of each device; a draft is well linked
  (\<open>draft_inv\<close>) when device names are unique, each interface carries at most one link, every link is recorded at both of its ends with
  the same properties, joins two devices and has valid VLANs.  The locale \<open>guarded_machine\<close> turns "each edit keeps it" into "each sequence of edits keeps it".
\<close>

section \<open>Updating one device\<close>

lemma concat_updateSegments:
  "i < length (concat dss) \<Longrightarrow> concat (updateSegments i f dss) = (concat dss)[i := f (concat dss ! i)]"
proof (induction dss arbitrary: i)
  case Nil
  then show ?case by simp
next
  case (Cons ds dss)
  show ?case
  proof (cases "i < length ds")
    case True
    then show ?thesis by (simp add: list_update_append nth_append)
  next
    case False
    with Cons.prems Cons.IH [of "i - length ds"] show ?thesis by (simp add: list_update_append nth_append)
  qed
qed

lemma updateSegments_Nil [simp]: "updateSegments i f dss = [] \<longleftrightarrow> dss = []"
  by (cases dss) auto

lemma allDevices_update:
  "i < length (allDevices cfg) \<Longrightarrow> allDevices (updateDevice i f cfg) = (allDevices cfg)[i := f (allDevices cfg ! i)]"
  by (auto simp: allDevices_def updateDevice_def concat_updateSegments list_update_append nth_append)

lemma updateDevice_shape:
  "(dcDevices (updateDevice i f cfg) = [] \<longleftrightarrow> dcDevices cfg = []) \<and> (dcSegments (updateDevice i f cfg) = [] \<longleftrightarrow> dcSegments cfg = [])"
  by (simp add: updateDevice_def)

lemma updateSegments_twice: "updateSegments i f (updateSegments i g dss) = updateSegments i (\<lambda>d. f (g d)) dss"
  by (induction i g dss rule: updateSegments.induct) auto

lemma updateSegments_swap: "i \<noteq> j \<Longrightarrow> updateSegments i f (updateSegments j g dss) = updateSegments j g (updateSegments i f dss)"
  by (induction dss arbitrary: i j) (auto simp: list_update_swap)

lemma updateDevice_twice: "updateDevice i f (updateDevice i g cfg) = updateDevice i (\<lambda>d. f (g d)) cfg"
  by (simp add: updateDevice_def updateSegments_twice)

lemma updateDevice_swap: "i \<noteq> j \<Longrightarrow> updateDevice i f (updateDevice j g cfg) = updateDevice j g (updateDevice i f cfg)"
proof -
  assume ij: "i \<noteq> j"
  show ?thesis
  proof (cases "i < length (dcDevices cfg) \<or> j < length (dcDevices cfg)")
    case True
    with ij show ?thesis by (auto simp: updateDevice_def list_update_swap)
  next
    case False
    with ij have "i - length (dcDevices cfg) \<noteq> j - length (dcDevices cfg)" by auto
    with False show ?thesis by (simp add: updateDevice_def updateSegments_swap)
  qed
qed

lemma updateDevice_interleave:
  assumes "i \<noteq> j"
  shows "updateDevice j f' (updateDevice i f (updateDevice j g' (updateDevice i g cfg))) = updateDevice j (\<lambda>d. f' (g' d)) (updateDevice i (\<lambda>d. f (g d)) cfg)"
  unfolding updateDevice_swap [OF assms, of f] updateDevice_twice ..

lemma updateSegments_same: "i < length (concat dss) \<Longrightarrow> f (concat dss ! i) = g (concat dss ! i) \<Longrightarrow> updateSegments i f dss = updateSegments i g dss"
  by (induction dss arbitrary: i) (auto simp: nth_append)

lemma updateDevice_same:
  "i < length (allDevices cfg) \<Longrightarrow> f (allDevices cfg ! i) = g (allDevices cfg ! i) \<Longrightarrow> updateDevice i f cfg = updateDevice i g cfg"
  by (auto simp: updateDevice_def allDevices_def nth_append intro!: arg_cong [where f = "\<lambda>x. cfg\<lparr>dcSegments := x\<rparr>"] updateSegments_same)

section \<open>Well-linked drafts\<close>

definition trunksByName :: "DraftConfig \<Rightarrow> string \<Rightarrow> TrunkPort list option" where
  "trunksByName cfg = map_of (map (\<lambda>d. (ddName d, ddTrunkPorts d)) (allDevices cfg))"

definition mirrorOf :: "string \<Rightarrow> TrunkPort \<Rightarrow> TrunkPort" where
  "mirrorOf n t = t\<lparr>tpInterface := tpRemoteInterface t, tpRemoteDevice := n, tpRemoteInterface := tpInterface t\<rparr>"

definition trunkOk :: "TrunkPort \<Rightarrow> bool" where
  "trunkOk t \<longleftrightarrow> distinct (tpVLANs t) \<and> (\<forall>v \<in> set (tpVLANs t). 1 \<le> v \<and> v \<le> 4094) \<and>
     (tpNativeVLAN t = 0 \<or> tpNativeVLAN t \<in> set (tpVLANs t))"

definition links_ok :: "(string \<Rightarrow> TrunkPort list option) \<Rightarrow> bool" where
  "links_ok T \<longleftrightarrow> (\<forall>n ts. T n = Some ts \<longrightarrow> distinct (map tpInterface ts) \<and>
     (\<forall>t \<in> set ts. trunkOk t \<and> tpRemoteDevice t \<noteq> n \<and>
        (\<exists>us. T (tpRemoteDevice t) = Some us \<and> mirrorOf n t \<in> set us)))"

definition draft_inv :: "DraftConfig \<Rightarrow> bool" where
  "draft_inv cfg \<longleftrightarrow> distinct (map ddName (allDevices cfg)) \<and> (dcDevices cfg = [] \<or> dcSegments cfg = []) \<and> links_ok (trunksByName cfg)"

lemma mirrorOf_fields [simp]:
  "tpInterface (mirrorOf n t) = tpRemoteInterface t" "tpRemoteDevice (mirrorOf n t) = n" "tpRemoteInterface (mirrorOf n t) = tpInterface t"
  "tpVLANs (mirrorOf n t) = tpVLANs t" "tpNativeVLAN (mirrorOf n t) = tpNativeVLAN t" "tpFDBOnly (mirrorOf n t) = tpFDBOnly t"
  by (simp_all add: mirrorOf_def)

lemma mirrorOf_twice [simp]: "mirrorOf (tpRemoteDevice t) (mirrorOf n t) = t"
  by (simp add: mirrorOf_def)

lemma trunkOk_mirror [simp]: "trunkOk (mirrorOf n t) = trunkOk t"
  by (simp add: trunkOk_def)

lemma trunksByName_nth:
  assumes "distinct (map ddName (allDevices cfg))" "i < length (allDevices cfg)"
  shows "trunksByName cfg (ddName (allDevices cfg ! i)) = Some (ddTrunkPorts (allDevices cfg ! i))"
  unfolding trunksByName_def using assms by (intro map_of_is_SomeI) (auto simp: comp_def)

lemma trunksByName_Some:
  assumes "trunksByName cfg n = Some ts"
  shows "\<exists>d \<in> set (allDevices cfg). ddName d = n \<and> ddTrunkPorts d = ts"
  using map_of_SomeD [OF assms [unfolded trunksByName_def]] by auto

lemma update_names:
  "i < length (allDevices cfg) \<Longrightarrow> ddName (f (allDevices cfg ! i)) = ddName (allDevices cfg ! i) \<Longrightarrow>
   map ddName (allDevices (updateDevice i f cfg)) = map ddName (allDevices cfg)"
  by (simp add: allDevices_update map_update) (metis length_map list_update_id nth_map)

lemma trunksByName_update:
  assumes "distinct (map ddName (allDevices cfg))" "i < length (allDevices cfg)"
    and "ddName (f (allDevices cfg ! i)) = ddName (allDevices cfg ! i)"
  shows "trunksByName (updateDevice i f cfg) =
    (trunksByName cfg)(ddName (allDevices cfg ! i) \<mapsto> ddTrunkPorts (f (allDevices cfg ! i)))"
proof -
  let ?ds = "allDevices cfg" and ?pair = "\<lambda>d. (ddName d, ddTrunkPorts d)"
  have split: "?ds = take i ?ds @ ?ds ! i # drop (Suc i) ?ds" by (simp add: id_take_nth_drop assms(2))
  have upd: "allDevices (updateDevice i f cfg) = take i ?ds @ f (?ds ! i) # drop (Suc i) ?ds"
    by (simp add: allDevices_update assms(2) upd_conv_take_nth_drop)
  have "distinct (map ddName (take i ?ds @ ?ds ! i # drop (Suc i) ?ds))" using assms(1) split by simp
  then have "ddName (?ds ! i) \<notin> ddName ` set (take i ?ds)" by auto
  then have none: "map_of (map ?pair (take i ?ds)) (ddName (?ds ! i)) = None" by (auto simp: map_of_eq_None_iff image_image)
  have "trunksByName cfg = map_of (map ?pair (take i ?ds @ ?ds ! i # drop (Suc i) ?ds))"
    unfolding trunksByName_def using split by simp
  moreover have "trunksByName (updateDevice i f cfg) = map_of (map ?pair (take i ?ds @ f (?ds ! i) # drop (Suc i) ?ds))"
    unfolding trunksByName_def upd ..
  ultimately show ?thesis
    using none assms(3) by (auto simp: map_add_def fun_eq_iff split: option.splits)
qed

section \<open>Adding, removing and changing a link\<close>

lemma links_okD:
  assumes "links_ok T" "T n = Some ts"
  shows "distinct (map tpInterface ts)"
    and "t \<in> set ts \<Longrightarrow> trunkOk t" "t \<in> set ts \<Longrightarrow> tpRemoteDevice t \<noteq> n"
    and "t \<in> set ts \<Longrightarrow> \<exists>us. T (tpRemoteDevice t) = Some us \<and> mirrorOf n t \<in> set us"
  using assms by (simp_all add: links_ok_def)

text \<open>Replacing the links \<open>B\<close> between two devices by the links \<open>A\<close> at both ends.\<close>

lemma links_ok_edit:
  assumes ok: "links_ok T" and L: "T L = Some ls" and R: "T R = Some rs" and ne: "L \<noteq> R"
    and B: "B \<subseteq> set ls" and remote: "\<And>t. t \<in> A \<union> B \<Longrightarrow> tpRemoteDevice t = R" and A: "\<And>t. t \<in> A \<Longrightarrow> trunkOk t"
    and ls': "set ls' = set ls - B \<union> A" "distinct (map tpInterface ls')"
    and rs': "set rs' = set rs - mirrorOf L ` B \<union> mirrorOf L ` A" "distinct (map tpInterface rs')"
  shows "links_ok (T(L \<mapsto> ls', R \<mapsto> rs'))" (is "links_ok ?T")
proof -
  have twice: "mirrorOf R (mirrorOf L t) = t" if "t \<in> A \<union> B" for t using mirrorOf_twice [of t L] remote [OF that] by simp
  have inL: "u \<in> set ls'" if "u \<in> set ls" "tpRemoteDevice u \<noteq> R" for u using that remote ls'(1) by blast
  have inR: "u \<in> set rs'" if "u \<in> set rs" "tpRemoteDevice u \<noteq> L" for u using that rs'(1) by auto
  have fine: "trunkOk u \<and> tpRemoteDevice u \<noteq> n \<and> (\<exists>us. ?T (tpRemoteDevice u) = Some us \<and> mirrorOf n u \<in> set us)"
    if at: "?T n = Some ts" "u \<in> set ts" for n ts u
  proof -
    consider (newL) "n = L" "u \<in> A" | (newR) a where "n = R" "a \<in> A" "u = mirrorOf L a"
      | (oldL) "n = L" "u \<in> set ls" "u \<notin> B" | (oldR) "n = R" "u \<in> set rs" "u \<notin> mirrorOf L ` B"
      | (other) "n \<noteq> L" "n \<noteq> R" "T n = Some ts"
      using at ne ls'(1) rs'(1) by (auto split: if_splits)
    then show ?thesis
    proof cases
      case newL
      then show ?thesis using remote A ne rs'(1) by auto
    next
      case newR
      then show ?thesis using A ne ls'(1) twice by auto
    next
      case oldL
      obtain us where us: "T (tpRemoteDevice u) = Some us" "mirrorOf L u \<in> set us" using links_okD(4) [OF ok L oldL(2)] by blast
      have "mirrorOf L u \<in> set rs'" if "tpRemoteDevice u = R"
      proof -
        have "mirrorOf L u \<notin> mirrorOf L ` B" using oldL(3) that twice mirrorOf_twice [of u L] by (metis UnCI imageE)
        then show ?thesis using us R that rs'(1) by auto
      qed
      then show ?thesis using links_okD(2,3) [OF ok L oldL(2)] us oldL(1) ne by auto
    next
      case oldR
      obtain us where us: "T (tpRemoteDevice u) = Some us" "mirrorOf R u \<in> set us" using links_okD(4) [OF ok R oldR(2)] by blast
      have "mirrorOf R u \<in> set ls'" if "tpRemoteDevice u = L"
      proof -
        have "mirrorOf R u \<notin> B" using oldR(3) that mirrorOf_twice [of u R] by (metis imageI)
        then show ?thesis using us L that ls'(1) by auto
      qed
      then show ?thesis using links_okD(2,3) [OF ok R oldR(2)] us oldR(1) ne by auto
    next
      case other
      then show ?thesis using links_okD(2-4) [OF ok other(3) at(2)] inL [of "mirrorOf n u"] inR [of "mirrorOf n u"] L R by auto
    qed
  qed
  have "distinct (map tpInterface ts)" if "?T n = Some ts" for n ts
    using that ls'(2) rs'(2) links_okD(1) [OF ok, of n ts] by (auto split: if_splits)
  with fine show ?thesis unfolding links_ok_def by blast
qed

lemma set_removeAt: "distinct (map f xs) \<Longrightarrow> k < length xs \<Longrightarrow> set (removeAt k xs) = set xs - {xs ! k} \<and> distinct (map f (removeAt k xs))"
proof -
  assume d: "distinct (map f xs)" and k: "k < length xs"
  have xs: "xs = take k xs @ xs ! k # drop (Suc k) xs" by (simp add: id_take_nth_drop k)
  then have "distinct (map f (take k xs @ xs ! k # drop (Suc k) xs))" using d by simp
  moreover from this have "xs ! k \<notin> set (take k xs) \<union> set (drop (Suc k) xs)" by auto
  ultimately show ?thesis
    unfolding removeAt_def by (subst (3) xs) auto
qed

lemma same_interface: "distinct (map tpInterface ts) \<Longrightarrow> t \<in> set ts \<Longrightarrow> u \<in> set ts \<Longrightarrow> tpInterface t = tpInterface u \<Longrightarrow> t = u"
  by (auto simp: distinct_map dest: inj_onD)

text \<open>The trunk found at the far end is the mirror of the near one.\<close>

lemma far_end_mirrors:
  assumes ok: "links_ok T" and L: "T L = Some ls" and R: "T R = Some rs" and t: "t \<in> set ls" "tpRemoteDevice t = R"
    and u: "u \<in> set rs" "tpInterface u = tpRemoteInterface t"
  shows "u = mirrorOf L t"
proof -
  have "mirrorOf L t \<in> set rs" using links_okD(4) [OF ok L t(1)] t(2) R by auto
  then show ?thesis using same_interface [OF links_okD(1) [OF ok R] u(1)] u(2) by simp
qed

lemma set_replaceAt:
  assumes "distinct (map tpInterface ts)" "k < length ts" "tpInterface t = tpInterface (ts ! k)"
  shows "set (ts[k := t]) = set ts - {ts ! k} \<union> {t}" "distinct (map tpInterface (ts[k := t]))"
proof -
  have "distinct ts" using assms(1) by (simp add: distinct_map)
  then show "set (ts[k := t]) = set ts - {ts ! k} \<union> {t}" using assms(2) by (simp add: set_update_distinct)
  have "map tpInterface (ts[k := t]) = map tpInterface ts"
    using assms(2,3) by (simp add: map_update) (metis length_map list_update_id nth_map)
  then show "distinct (map tpInterface (ts[k := t]))" using assms(1) by simp
qed

section \<open>A refused edit changes nothing\<close>

lemma addDevice_refused: "fst (addDevice parseIP cfg input) \<noteq> None \<Longrightarrow> snd (addDevice parseIP cfg input) = cfg"
  by (auto simp: addDevice_def Let_def split: option.splits if_splits)

lemma moveDevice_refused: "fst (moveDevice formatFloat cfg position) \<noteq> None \<Longrightarrow> snd (moveDevice formatFloat cfg position) = cfg"
  by (auto simp: moveDevice_def split: option.splits if_splits)

lemma connect_refused: "fst (connect cfg link) \<noteq> None \<Longrightarrow> snd (connect cfg link) = cfg"
  by (auto simp: connect_def Let_def split: sum.splits prod.splits option.splits if_splits)

lemma disconnect_refused: "fst (disconnect cfg eps) \<noteq> None \<Longrightarrow> snd (disconnect cfg eps) = cfg"
  by (auto simp: disconnect_def split: sum.splits prod.splits option.splits)

lemma updateLink_refused: "fst (updateLink cfg link) \<noteq> None \<Longrightarrow> snd (updateLink cfg link) = cfg"
  by (auto simp: updateLink_def split: sum.splits prod.splits option.splits if_splits)

lemmas refused = addDevice_refused moveDevice_refused connect_refused disconnect_refused updateLink_refused

lemma applyMutation_refused:
  "fst (applyMutation parseIP formatFloat cfg m) \<noteq> None \<Longrightarrow> snd (applyMutation parseIP formatFloat cfg m) = cfg"
  unfolding applyMutation_def by (cases "validatePayload m") (simp_all add: refused split: if_splits)

section \<open>Every edit keeps a draft well linked\<close>

lemma updateInterface_fields [simp]:
  "ddName (updateInterface f g d) = ddName d" "ddTrunkPorts (updateInterface f g d) = ddTrunkPorts d"
  by (simp_all add: updateInterface_def)

lemma resolve_facts:
  assumes "resolveEndpoint cfg ep = Inr (i, f)"
  shows "i < length (allDevices cfg)" "ddName (allDevices cfg ! i) = epDevice ep"
    "f < length (ddInterfaces (allDevices cfg ! i))" "findInterface (allDevices cfg ! i) (epInterface ep) = Some f"
proof -
  have fd: "findDevice cfg (epDevice ep) = Some i" and fi: "findInterface (allDevices cfg ! i) (epInterface ep) = Some f"
    using assms by (auto simp: resolveEndpoint_def Let_def split: option.splits if_splits)
  show "findInterface (allDevices cfg ! i) (epInterface ep) = Some f" by (rule fi)
  show "i < length (allDevices cfg)" "ddName (allDevices cfg ! i) = epDevice ep"
    using index_of_Some [OF fd [unfolded findDevice_def]] by auto
  show "f < length (ddInterfaces (allDevices cfg ! i))" using index_of_Some [OF fi [unfolded findInterface_def]] by auto
qed

lemma link_facts:
  assumes "linkDevicesAndInterfaces cfg eps = Inr (left, right)"
  shows "resolveEndpoint cfg (leSource eps) = Inr left" "resolveEndpoint cfg (leTarget eps) = Inr right"
    "epDevice (leSource eps) \<noteq> epDevice (leTarget eps)" "fst left \<noteq> fst right"
proof -
  show s: "resolveEndpoint cfg (leSource eps) = Inr left" and t: "resolveEndpoint cfg (leTarget eps) = Inr right"
    and ne: "epDevice (leSource eps) \<noteq> epDevice (leTarget eps)"
    using assms by (auto simp: linkDevicesAndInterfaces_def split: if_splits sum.splits)
  show "fst left \<noteq> fst right"
    using resolve_facts(2) [of cfg "leSource eps" "fst left" "snd left"] resolve_facts(2) [of cfg "leTarget eps" "fst right" "snd right"]
      s t ne by auto
qed

lemma two_updates:
  assumes "distinct (map ddName (allDevices cfg))" "i < length (allDevices cfg)" "j < length (allDevices cfg)" "i \<noteq> j"
    and "\<And>d. ddName (f d) = ddName d" "\<And>d. ddName (g d) = ddName d"
    and "cfg' = updateDevice j g (updateDevice i f cfg)"
  shows "map ddName (allDevices cfg') = map ddName (allDevices cfg)"
    "(dcDevices cfg' = [] \<longleftrightarrow> dcDevices cfg = []) \<and> (dcSegments cfg' = [] \<longleftrightarrow> dcSegments cfg = [])"
    "trunksByName cfg' = (trunksByName cfg)(ddName (allDevices cfg ! i) \<mapsto> ddTrunkPorts (f (allDevices cfg ! i)),
       ddName (allDevices cfg ! j) \<mapsto> ddTrunkPorts (g (allDevices cfg ! j)))"
proof -
  let ?c = "updateDevice i f cfg"
  have names: "map ddName (allDevices ?c) = map ddName (allDevices cfg)" using assms(2,5) by (intro update_names) auto
  have len: "length (allDevices ?c) = length (allDevices cfg)" using arg_cong [OF names, of length] by simp
  have j: "allDevices ?c ! j = allDevices cfg ! j" using assms(2,4) by (simp add: allDevices_update)
  show "map ddName (allDevices cfg') = map ddName (allDevices cfg)"
    unfolding assms(7) names [symmetric] using assms(3,6) len by (intro update_names) auto
  show "(dcDevices cfg' = [] \<longleftrightarrow> dcDevices cfg = []) \<and> (dcSegments cfg' = [] \<longleftrightarrow> dcSegments cfg = [])"
    by (simp add: assms(7) updateDevice_shape)
  have "trunksByName cfg' = (trunksByName ?c)(ddName (allDevices ?c ! j) \<mapsto> ddTrunkPorts (g (allDevices ?c ! j)))"
    unfolding assms(7) using assms(1,3,6) len names by (intro trunksByName_update) auto
  also have "trunksByName ?c = (trunksByName cfg)(ddName (allDevices cfg ! i) \<mapsto> ddTrunkPorts (f (allDevices cfg ! i)))"
    using assms(1,2,5) by (intro trunksByName_update) auto
  finally show "trunksByName cfg' = (trunksByName cfg)(ddName (allDevices cfg ! i) \<mapsto> ddTrunkPorts (f (allDevices cfg ! i)),
       ddName (allDevices cfg ! j) \<mapsto> ddTrunkPorts (g (allDevices cfg ! j)))"
    by (simp only: j)
qed

text \<open>An edit at both ends of a link, in terms of the trunk ports it leaves there.\<close>

lemma link_edit_inv:
  assumes inv: "draft_inv cfg" and link: "linkDevicesAndInterfaces cfg eps = Inr (left, right)"
    and f: "\<And>d. ddName (f d) = ddName d" and g: "\<And>d. ddName (g d) = ddName d"
    and edit: "\<And>ls rs. trunksByName cfg (epDevice (leSource eps)) = Some ls \<Longrightarrow> trunksByName cfg (epDevice (leTarget eps)) = Some rs \<Longrightarrow>
      ls = ddTrunkPorts (allDevices cfg ! fst left) \<Longrightarrow> rs = ddTrunkPorts (allDevices cfg ! fst right) \<Longrightarrow>
      links_ok ((trunksByName cfg)(epDevice (leSource eps) \<mapsto> ddTrunkPorts (f (allDevices cfg ! fst left)),
        epDevice (leTarget eps) \<mapsto> ddTrunkPorts (g (allDevices cfg ! fst right))))"
  shows "draft_inv (updateDevice (fst right) g (updateDevice (fst left) f cfg))"
proof -
  have dist: "distinct (map ddName (allDevices cfg))" using inv by (simp add: draft_inv_def)
  note lf = link_facts [OF link]
  have l: "fst left < length (allDevices cfg)" "ddName (allDevices cfg ! fst left) = epDevice (leSource eps)"
    using resolve_facts(1,2) [of cfg "leSource eps" "fst left" "snd left"] lf(1) by simp_all
  have r: "fst right < length (allDevices cfg)" "ddName (allDevices cfg ! fst right) = epDevice (leTarget eps)"
    using resolve_facts(1,2) [of cfg "leTarget eps" "fst right" "snd right"] lf(2) by simp_all
  note tu = two_updates [OF dist l(1) r(1) lf(4) f g refl]
  show ?thesis
    unfolding draft_inv_def tu(3) l(2) r(2)
    using inv tu(1,2) edit trunksByName_nth [OF dist l(1)] trunksByName_nth [OF dist r(1)] l(2) r(2) by (auto simp: draft_inv_def)
qed

lemma vlansOk_iff: "vlansOk seen vs \<longleftrightarrow> distinct vs \<and> (\<forall>v \<in> set vs. 1 \<le> v \<and> v \<le> 4094) \<and> set vs \<inter> seen = {}"
  by (induction vs arbitrary: seen) auto

lemma validated_trunk: "validateLinkProperties p = None \<Longrightarrow> trunkOk (setTrunkProperties p t)"
  by (auto simp: validateLinkProperties_def trunkOk_def setTrunkProperties_def vlansOk_iff split: if_splits)

lemma occupied_iff:
  assumes "draft_inv cfg"
  shows "endpointOccupied cfg ep \<longleftrightarrow> (\<exists>n ts t. trunksByName cfg n = Some ts \<and> t \<in> set ts \<and>
     (n = epDevice ep \<and> tpInterface t = epInterface ep \<or> tpRemoteDevice t = epDevice ep \<and> tpRemoteInterface t = epInterface ep))"
proof -
  have devs: "(\<exists>ds \<in> set (normalizedSegments cfg). d \<in> set ds) \<longleftrightarrow> d \<in> set (allDevices cfg)" for d
    using assms by (auto simp: draft_inv_def normalizedSegments_def allDevices_def)
  have T: "(\<exists>ts. trunksByName cfg n = Some ts \<and> t \<in> set ts) \<longleftrightarrow> (\<exists>d \<in> set (allDevices cfg). ddName d = n \<and> t \<in> set (ddTrunkPorts d))" for n t
    using trunksByName_nth [of cfg] trunksByName_Some [of cfg n] assms by (fastforce simp: draft_inv_def in_set_conv_nth)
  have "endpointOccupied cfg ep \<longleftrightarrow> (\<exists>d \<in> set (allDevices cfg). \<exists>t \<in> set (ddTrunkPorts d).
      ddName d = epDevice ep \<and> tpInterface t = epInterface ep \<or> tpRemoteDevice t = epDevice ep \<and> tpRemoteInterface t = epInterface ep)"
    unfolding endpointOccupied_def using devs by blast
  also have "\<dots> \<longleftrightarrow> (\<exists>n t. (\<exists>ts. trunksByName cfg n = Some ts \<and> t \<in> set ts) \<and>
     (n = epDevice ep \<and> tpInterface t = epInterface ep \<or> tpRemoteDevice t = epDevice ep \<and> tpRemoteInterface t = epInterface ep))"
    unfolding T by blast
  finally show ?thesis by blast
qed

lemma connect_inv:
  assumes "draft_inv cfg"
  shows "draft_inv (snd (connect cfg link))"
proof (cases "fst (connect cfg link)")
  case (Some e)
  with assms show ?thesis by (simp add: refused)
next
  case None
  let ?s = "leSource (lmEndpoints link)" and ?t = "leTarget (lmEndpoints link)" and ?p = "lmProperties link"
  from None obtain left right where lk: "linkDevicesAndInterfaces cfg (lmEndpoints link) = Inr (left, right)"
    and free: "\<not> endpointOccupied cfg ?s" "\<not> endpointOccupied cfg ?t" and ok: "validateLinkProperties ?p = None"
    and res: "snd (connect cfg link) = appendTrunk right ?t ?s ?p (appendTrunk left ?s ?t ?p cfg)"
    by (auto simp: connect_def Let_def split: sum.splits prod.splits option.splits if_splits)
  let ?new = "setTrunkProperties ?p (newTrunk ?s ?t)"
  have mirror: "setTrunkProperties ?p (newTrunk ?t ?s) = mirrorOf (epDevice ?s) ?new"
    by (simp add: setTrunkProperties_def newTrunk_def mirrorOf_def)
  have fields: "tpRemoteDevice ?new = epDevice ?t" "tpInterface ?new = epInterface ?s" "tpRemoteInterface ?new = epInterface ?t"
    by (simp_all add: setTrunkProperties_def newTrunk_def)
  show ?thesis
    unfolding res appendTrunk_def
  proof (rule link_edit_inv [OF assms lk])
    fix ls rs
    assume L: "trunksByName cfg (epDevice ?s) = Some ls" and R: "trunksByName cfg (epDevice ?t) = Some rs"
      and ls: "ls = ddTrunkPorts (allDevices cfg ! fst left)" and rs: "rs = ddTrunkPorts (allDevices cfg ! fst right)"
    have lo: "links_ok (trunksByName cfg)" using assms by (simp add: draft_inv_def)
    have fl: "epInterface ?s \<notin> tpInterface ` set ls" using free(1) L occupied_iff [OF assms, of ?s] by fastforce
    have fr: "epInterface ?t \<notin> tpInterface ` set rs" using free(2) R occupied_iff [OF assms, of ?t] by fastforce
    have "links_ok ((trunksByName cfg)(epDevice ?s \<mapsto> ls @ [?new], epDevice ?t \<mapsto> rs @ [mirrorOf (epDevice ?s) ?new]))"
      using links_ok_edit [OF lo L R link_facts(3) [OF lk], of "{}" "{?new}"] fl fr fields validated_trunk [OF ok]
        links_okD(1) [OF lo L] links_okD(1) [OF lo R] by simp
    then show "links_ok ((trunksByName cfg)(epDevice ?s \<mapsto> ddTrunkPorts (updateInterface (snd left) (\<lambda>i. i\<lparr>diDescription := linkDescription ?t, diVLANs := lpVLANs ?p\<rparr>)
         ((allDevices cfg ! fst left)\<lparr>ddTrunkPorts := ddTrunkPorts (allDevices cfg ! fst left) @ [?new]\<rparr>)),
       epDevice ?t \<mapsto> ddTrunkPorts (updateInterface (snd right) (\<lambda>i. i\<lparr>diDescription := linkDescription ?s, diVLANs := lpVLANs ?p\<rparr>)
         ((allDevices cfg ! fst right)\<lparr>ddTrunkPorts := ddTrunkPorts (allDevices cfg ! fst right) @ [setTrunkProperties ?p (newTrunk ?t ?s)]\<rparr>))))"
      by (simp add: ls rs mirror)
  qed simp_all
qed

lemma reciprocal_facts:
  assumes inv: "draft_inv cfg" and link: "linkDevicesAndInterfaces cfg eps = Inr (left, right)"
    and rec: "reciprocalIndices cfg eps (fst left) (fst right) = Some (l, r)"
    and L: "trunksByName cfg (epDevice (leSource eps)) = Some ls" and R: "trunksByName cfg (epDevice (leTarget eps)) = Some rs"
    and ls: "ls = ddTrunkPorts (allDevices cfg ! fst left)" and rs: "rs = ddTrunkPorts (allDevices cfg ! fst right)"
  shows "l < length ls" "r < length rs" "tpRemoteDevice (ls ! l) = epDevice (leTarget eps)"
    "rs ! r = mirrorOf (epDevice (leSource eps)) (ls ! l)"
proof -
  have l: "exactTrunkIndex (allDevices cfg ! fst left) (epInterface (leSource eps)) (leTarget eps) = Some l"
    and r: "exactTrunkIndex (allDevices cfg ! fst right) (epInterface (leTarget eps)) (leSource eps) = Some r"
    using rec by (auto simp: reciprocalIndices_def split: option.splits)
  note fl = index_of_Some [OF l [unfolded exactTrunkIndex_def]] and fr = index_of_Some [OF r [unfolded exactTrunkIndex_def]]
  show ll: "l < length ls" and rr: "r < length rs" and rem: "tpRemoteDevice (ls ! l) = epDevice (leTarget eps)" using fl fr ls rs by auto
  have lo: "links_ok (trunksByName cfg)" using inv by (simp add: draft_inv_def)
  show "rs ! r = mirrorOf (epDevice (leSource eps)) (ls ! l)"
    using far_end_mirrors [OF lo L R nth_mem [OF ll] rem nth_mem [OF rr]] fl fr ls rs by auto
qed

lemma disconnect_inv:
  assumes "draft_inv cfg"
  shows "draft_inv (snd (disconnect cfg eps))"
proof (cases "fst (disconnect cfg eps)")
  case (Some e)
  with assms show ?thesis by (simp add: refused)
next
  case None
  then obtain left right l r where lk: "linkDevicesAndInterfaces cfg eps = Inr (left, right)"
    and rec: "reciprocalIndices cfg eps (fst left) (fst right) = Some (l, r)"
    and res: "snd (disconnect cfg eps) = dropTrunk right r (leSource eps) (dropTrunk left l (leTarget eps) cfg)"
    by (auto simp: disconnect_def split: sum.splits prod.splits option.splits)
  show ?thesis
    unfolding res dropTrunk_def
  proof (rule link_edit_inv [OF assms lk])
    fix ls rs
    assume L: "trunksByName cfg (epDevice (leSource eps)) = Some ls" and R: "trunksByName cfg (epDevice (leTarget eps)) = Some rs"
      and ls: "ls = ddTrunkPorts (allDevices cfg ! fst left)" and rs: "rs = ddTrunkPorts (allDevices cfg ! fst right)"
    have lo: "links_ok (trunksByName cfg)" using assms by (simp add: draft_inv_def)
    note rf = reciprocal_facts [OF assms lk rec L R ls rs]
    have "links_ok ((trunksByName cfg)(epDevice (leSource eps) \<mapsto> removeAt l ls, epDevice (leTarget eps) \<mapsto> removeAt r rs))"
      using links_ok_edit [OF lo L R link_facts(3) [OF lk], of "{ls ! l}" "{}"] rf
        set_removeAt [OF links_okD(1) [OF lo L] rf(1)] set_removeAt [OF links_okD(1) [OF lo R] rf(2)] by simp
    then show "links_ok ((trunksByName cfg)(epDevice (leSource eps) \<mapsto> ddTrunkPorts (updateInterface (snd left) (clearInterfaceLink (leTarget eps))
         ((allDevices cfg ! fst left)\<lparr>ddTrunkPorts := removeAt l (ddTrunkPorts (allDevices cfg ! fst left))\<rparr>)),
       epDevice (leTarget eps) \<mapsto> ddTrunkPorts (updateInterface (snd right) (clearInterfaceLink (leSource eps))
         ((allDevices cfg ! fst right)\<lparr>ddTrunkPorts := removeAt r (ddTrunkPorts (allDevices cfg ! fst right))\<rparr>))))"
      by (simp add: ls rs)
  qed simp_all
qed

lemma updateLink_inv:
  assumes "draft_inv cfg"
  shows "draft_inv (snd (updateLink cfg link))"
proof (cases "fst (updateLink cfg link)")
  case (Some e)
  with assms show ?thesis by (simp add: refused)
next
  case None
  let ?eps = "lmEndpoints link" and ?p = "lmProperties link"
  from None obtain left right l r where lk: "linkDevicesAndInterfaces cfg ?eps = Inr (left, right)"
    and rec: "reciprocalIndices cfg ?eps (fst left) (fst right) = Some (l, r)" and ok: "validateLinkProperties ?p = None"
    and res: "snd (updateLink cfg link) = retrunk right r ?p (retrunk left l ?p cfg)"
    by (auto simp: updateLink_def split: sum.splits prod.splits option.splits if_splits)
  show ?thesis
    unfolding res retrunk_def
  proof (rule link_edit_inv [OF assms lk])
    fix ls rs
    assume L: "trunksByName cfg (epDevice (leSource ?eps)) = Some ls" and R: "trunksByName cfg (epDevice (leTarget ?eps)) = Some rs"
      and ls: "ls = ddTrunkPorts (allDevices cfg ! fst left)" and rs: "rs = ddTrunkPorts (allDevices cfg ! fst right)"
    have lo: "links_ok (trunksByName cfg)" using assms by (simp add: draft_inv_def)
    note rf = reciprocal_facts [OF assms lk rec L R ls rs]
    let ?t = "setTrunkProperties ?p (ls ! l)"
    have mirror: "setTrunkProperties ?p (rs ! r) = mirrorOf (epDevice (leSource ?eps)) ?t"
      by (simp add: rf(4) setTrunkProperties_def mirrorOf_def)
    have same: "tpInterface ?t = tpInterface (ls ! l)" "tpInterface (mirrorOf (epDevice (leSource ?eps)) ?t) = tpInterface (rs ! r)"
      and rem: "tpRemoteDevice ?t = epDevice (leTarget ?eps)"
      using rf(3,4) by (simp_all add: setTrunkProperties_def)
    have "links_ok ((trunksByName cfg)(epDevice (leSource ?eps) \<mapsto> ls[l := ?t], epDevice (leTarget ?eps) \<mapsto> rs[r := mirrorOf (epDevice (leSource ?eps)) ?t]))"
      using links_ok_edit [OF lo L R link_facts(3) [OF lk], of "{ls ! l}" "{?t}"] rf rem validated_trunk [OF ok]
        set_replaceAt [OF links_okD(1) [OF lo L] rf(1) same(1)] set_replaceAt [OF links_okD(1) [OF lo R] rf(2) same(2)] by auto
    then show "links_ok ((trunksByName cfg)(epDevice (leSource ?eps) \<mapsto> ddTrunkPorts (updateInterface (snd left) (\<lambda>i. i\<lparr>diVLANs := lpVLANs ?p\<rparr>)
         ((allDevices cfg ! fst left)\<lparr>ddTrunkPorts := (ddTrunkPorts (allDevices cfg ! fst left))[l := setTrunkProperties ?p (ddTrunkPorts (allDevices cfg ! fst left) ! l)]\<rparr>)),
       epDevice (leTarget ?eps) \<mapsto> ddTrunkPorts (updateInterface (snd right) (\<lambda>i. i\<lparr>diVLANs := lpVLANs ?p\<rparr>)
         ((allDevices cfg ! fst right)\<lparr>ddTrunkPorts := (ddTrunkPorts (allDevices cfg ! fst right))[r := setTrunkProperties ?p (ddTrunkPorts (allDevices cfg ! fst right) ! r)]\<rparr>))))"
      by (simp add: ls rs mirror [unfolded rs])
  qed simp_all
qed

lemma links_ok_new_device: "links_ok T \<Longrightarrow> T n = None \<Longrightarrow> links_ok (T(n \<mapsto> []))"
  unfolding links_ok_def by (simp split: if_split) (metis option.distinct(1))

lemma addDevice_inv:
  assumes inv: "draft_inv cfg"
  shows "draft_inv (snd (addDevice parseIP cfg input))"
proof (cases "fst (addDevice parseIP cfg input)")
  case (Some e)
  with inv show ?thesis by (simp add: refused)
next
  case None
  then obtain d where res: "snd (addDevice parseIP cfg input) = cfg\<lparr>dcDevices := dcDevices cfg @ [d]\<rparr>"
    and d: "ddName d = dmName input" "ddTrunkPorts d = []" and flat: "dcSegments cfg = []" and new: "findDevice cfg (dmName input) = None"
    by (auto simp: addDevice_def Let_def split: option.splits if_splits)
  have all: "allDevices (cfg\<lparr>dcDevices := dcDevices cfg @ [d]\<rparr>) = allDevices cfg @ [d]" using flat by (simp add: allDevices_def)
  have fresh: "ddName d \<notin> ddName ` set (allDevices cfg)" using new d(1) by (auto simp: findDevice_def index_of_None)
  then have none: "trunksByName cfg (ddName d) = None" by (auto simp: trunksByName_def map_of_eq_None_iff image_image)
  have "trunksByName (cfg\<lparr>dcDevices := dcDevices cfg @ [d]\<rparr>) = (trunksByName cfg)(ddName d \<mapsto> [])"
    using none by (auto simp: trunksByName_def all d(2) map_add_def fun_eq_iff split: option.splits)
  then show ?thesis
    using inv fresh none flat by (auto simp: res draft_inv_def all intro: links_ok_new_device)
qed

lemma moveDevice_inv:
  assumes inv: "draft_inv cfg"
  shows "draft_inv (snd (moveDevice formatFloat cfg position))"
proof (cases "fst (moveDevice formatFloat cfg position)")
  case (Some e)
  with inv show ?thesis by (simp add: refused)
next
  case None
  then obtain i p where fd: "findDevice cfg (pmDevice position) = Some i"
    and res: "snd (moveDevice formatFloat cfg position) = updateDevice i (\<lambda>d. d\<lparr>ddProperties := p (ddProperties d)\<rparr>) cfg"
    by (auto simp: moveDevice_def split: option.splits if_splits)
  have i: "i < length (allDevices cfg)" using index_of_Some [OF fd [unfolded findDevice_def]] by simp
  have dist: "distinct (map ddName (allDevices cfg))" using inv by (simp add: draft_inv_def)
  let ?f = "\<lambda>d. d\<lparr>ddProperties := p (ddProperties d)\<rparr>"
  have "trunksByName (updateDevice i ?f cfg) = trunksByName cfg"
    using trunksByName_update [OF dist i, of ?f] trunksByName_nth [OF dist i] by (auto simp: fun_eq_iff)
  then show ?thesis using inv update_names [OF i, of ?f] updateDevice_shape [of i ?f cfg] by (simp add: res draft_inv_def)
qed

lemma applyMutation_inv: "draft_inv cfg \<Longrightarrow> draft_inv (snd (applyMutation parseIP formatFloat cfg m))"
  by (simp add: applyMutation_def addDevice_inv moveDevice_inv connect_inv disconnect_inv updateLink_inv split: option.split)

interpretation edits: guarded_machine "\<lambda>m cfg. snd (applyMutation parseIP formatFloat cfg m)" "\<lambda>_ _. True" draft_inv for parseIP formatFloat
  by unfold_locales (rule applyMutation_inv)

section \<open>Connecting and disconnecting\<close>

definition blankInterface :: "nat \<times> nat \<Rightarrow> DraftConfig \<Rightarrow> DraftConfig" where
  "blankInterface at cfg = updateDevice (fst at) (updateInterface (snd at) (\<lambda>i. i\<lparr>diDescription := [], diVLANs := []\<rparr>)) cfg"

lemma index_of_cong: "length xs = length ys \<Longrightarrow> (\<And>i. i < length xs \<Longrightarrow> p (xs ! i) = q (ys ! i)) \<Longrightarrow> index_of p xs = index_of q ys"
proof (induction xs ys rule: list_induct2)
  case (Cons x xs y ys)
  have "index_of p xs = index_of q ys" using Cons.prems [of "Suc i" for i] by (intro Cons.IH) auto
  with Cons.prems [of 0] show ?case by simp
qed simp

lemma index_of_snoc: "index_of p xs = None \<Longrightarrow> p y \<Longrightarrow> index_of p (xs @ [y]) = Some (length xs)"
  by (induction xs) (auto split: if_splits)

lemma removeAt_snoc [simp]: "removeAt (length xs) (xs @ [y]) = xs"
  by (simp add: removeAt_def)

text \<open>An endpoint resolves as before after an edit that keeps the names of devices and the names and types of their interfaces.\<close>

definition sameShape :: "DraftDevice \<Rightarrow> DraftDevice \<Rightarrow> bool" where
  "sameShape d e \<longleftrightarrow> ddName d = ddName e \<and> map (\<lambda>i. (diName i, diType i)) (ddInterfaces d) = map (\<lambda>i. (diName i, diType i)) (ddInterfaces e)"

lemma sameShape_interface:
  assumes "sameShape d e"
  shows "findInterface d n = findInterface e n" "k < length (ddInterfaces e) \<Longrightarrow> diType (ddInterfaces d ! k) = diType (ddInterfaces e ! k)"
proof -
  have len: "length (ddInterfaces d) = length (ddInterfaces e)" using assms map_eq_imp_length_eq unfolding sameShape_def by blast
  have at: "(diName (ddInterfaces d ! i), diType (ddInterfaces d ! i)) = (diName (ddInterfaces e ! i), diType (ddInterfaces e ! i))"
    if "i < length (ddInterfaces d)" for i
    using assms that len nth_map [of i "ddInterfaces d" "\<lambda>i. (diName i, diType i)"] nth_map [of i "ddInterfaces e" "\<lambda>i. (diName i, diType i)"]
    by (simp add: sameShape_def)
  show "findInterface d n = findInterface e n" unfolding findInterface_def using at len by (intro index_of_cong) auto
  show "k < length (ddInterfaces e) \<Longrightarrow> diType (ddInterfaces d ! k) = diType (ddInterfaces e ! k)" using at len by simp
qed

lemma resolve_shape:
  assumes "list_all2 sameShape (allDevices cfg') (allDevices cfg)"
  shows "resolveEndpoint cfg' ep = resolveEndpoint cfg ep"
proof -
  have at: "sameShape (allDevices cfg' ! i) (allDevices cfg ! i)" if "i < length (allDevices cfg)" for i
    using assms that by (simp add: list_all2_conv_all_nth)
  have fd: "findDevice cfg' (epDevice ep) = findDevice cfg (epDevice ep)"
    unfolding findDevice_def using assms by (intro index_of_cong) (auto simp: list_all2_conv_all_nth sameShape_def)
  show ?thesis
  proof (cases "findDevice cfg (epDevice ep)")
    case None
    with fd show ?thesis by (simp add: resolveEndpoint_def)
  next
    case (Some i)
    have i: "i < length (allDevices cfg)" using index_of_Some [OF Some [unfolded findDevice_def]] by simp
    show ?thesis
    proof (cases "findInterface (allDevices cfg ! i) (epInterface ep)")
      case None
      with fd Some sameShape_interface(1) [OF at [OF i]] show ?thesis by (simp add: resolveEndpoint_def)
    next
      case (Some f)
      have "f < length (ddInterfaces (allDevices cfg ! i))" using index_of_Some [OF Some [unfolded findInterface_def]] by simp
      with fd Some \<open>findDevice cfg (epDevice ep) = Some i\<close> sameShape_interface [OF at [OF i]]
      show ?thesis by (simp add: resolveEndpoint_def Let_def)
    qed
  qed
qed

lemma updateInterface_shape: "(\<And>i. diName (g i) = diName i \<and> diType (g i) = diType i) \<Longrightarrow> sameShape (updateInterface k g (d\<lparr>ddTrunkPorts := ts\<rparr>)) d"
  by (cases "k < length (ddInterfaces d)") (simp_all add: sameShape_def updateInterface_def map_update list_update_same_conv not_less list_update_beyond)

lemma updateDevice_shapes:
  assumes "i < length (allDevices cfg)" "\<And>d. sameShape (f d) d"
  shows "list_all2 sameShape (allDevices (updateDevice i f cfg)) (allDevices cfg)"
proof -
  have "sameShape d d" for d by (simp add: sameShape_def)
  with assms show ?thesis by (auto simp: allDevices_update list_all2_conv_all_nth nth_list_update)
qed

lemma sameShape_trans: "sameShape a b \<Longrightarrow> sameShape b c \<Longrightarrow> sameShape a c"
  by (simp add: sameShape_def)

lemma connect_then_disconnect:
  assumes inv: "draft_inv cfg" and con: "connect cfg link = (None, cfg')"
  obtains left right where "linkDevicesAndInterfaces cfg (lmEndpoints link) = Inr (left, right)"
    "disconnect cfg' (lmEndpoints link) = (None, blankInterface right (blankInterface left cfg))"
proof -
  let ?s = "leSource (lmEndpoints link)" and ?t = "leTarget (lmEndpoints link)" and ?p = "lmProperties link"
  let ?eps = "lmEndpoints link"
  from con obtain left right where lk: "linkDevicesAndInterfaces cfg ?eps = Inr (left, right)"
    and free: "\<not> endpointOccupied cfg ?s" "\<not> endpointOccupied cfg ?t"
    and res: "cfg' = appendTrunk right ?t ?s ?p (appendTrunk left ?s ?t ?p cfg)"
    by (auto simp: connect_def Let_def split: sum.splits prod.splits option.splits if_splits)
  note lf = link_facts [OF lk]
  obtain i f j g where l: "left = (i, f)" and r: "right = (j, g)" by (metis surj_pair)
  have rl: "resolveEndpoint cfg ?s = Inr (i, f)" and rr: "resolveEndpoint cfg ?t = Inr (j, g)" and ij: "i \<noteq> j" using lf l r by auto
  note il = resolve_facts [OF rl] and jr = resolve_facts [OF rr]
  let ?at = "\<lambda>k loc rem d. updateInterface k (\<lambda>i. i\<lparr>diDescription := linkDescription rem, diVLANs := lpVLANs ?p\<rparr>)
       (d\<lparr>ddTrunkPorts := ddTrunkPorts d @ [setTrunkProperties ?p (newTrunk loc rem)]\<rparr>)"
  let ?L = "?at f ?s ?t" and ?R = "?at g ?t ?s"
  have c': "cfg' = updateDevice j ?R (updateDevice i ?L cfg)" using res by (simp add: appendTrunk_def l r)
  have shape: "sameShape (?at k loc rem d) d" for k loc rem d by (rule updateInterface_shape) simp
  have s1: "list_all2 sameShape (allDevices (updateDevice i ?L cfg)) (allDevices cfg)" using il(1) shape by (rule updateDevice_shapes)
  have j1: "j < length (allDevices (updateDevice i ?L cfg))" using jr(1) list_all2_lengthD [OF s1] by simp
  have shapes: "list_all2 sameShape (allDevices cfg') (allDevices cfg)"
    using list_all2_trans [OF sameShape_trans updateDevice_shapes [OF j1 shape] s1] c' by simp
  have lk': "linkDevicesAndInterfaces cfg' ?eps = Inr (left, right)"
    using lf(1-3) by (simp add: linkDevicesAndInterfaces_def resolve_shape [OF shapes])
  have di: "allDevices cfg' ! i = ?L (allDevices cfg ! i)" and dj: "allDevices cfg' ! j = ?R (allDevices cfg ! j)"
    using il(1) jr(1) j1 ij by (simp_all add: c' allDevices_update)
  have none: "exactTrunkIndex (allDevices cfg ! k) (epInterface loc) rem = None"
    if "\<not> endpointOccupied cfg loc" "k < length (allDevices cfg)" "ddName (allDevices cfg ! k) = epDevice loc" for k loc rem
    using that trunksByName_nth [of cfg k] inv occupied_iff [OF inv, of loc]
    by (fastforce simp: exactTrunkIndex_def index_of_None draft_inv_def)
  have found: "exactTrunkIndex (?at k loc rem d) (epInterface loc) rem = Some (length (ddTrunkPorts d))"
    if "exactTrunkIndex d (epInterface loc) rem = None" for k loc rem d
    using that by (simp add: exactTrunkIndex_def index_of_snoc setTrunkProperties_def newTrunk_def)
  have rec: "reciprocalIndices cfg' ?eps i j = Some (length (ddTrunkPorts (allDevices cfg ! i)), length (ddTrunkPorts (allDevices cfg ! j)))"
    using found none [OF free(1) il(1,2)] none [OF free(2) jr(1,2)] by (simp add: reciprocalIndices_def di dj)
  let ?drop = "\<lambda>k rem n d. updateInterface k (clearInterfaceLink rem) (d\<lparr>ddTrunkPorts := removeAt n (ddTrunkPorts d)\<rparr>)"
  let ?blank = "\<lambda>k. updateInterface k (\<lambda>i. i\<lparr>diDescription := [], diVLANs := []\<rparr>)"
  have undo: "?drop k rem (length (ddTrunkPorts d)) (?at k loc rem d) = ?blank k d" for k loc rem d
    by (cases "k < length (ddInterfaces d)") (simp_all add: updateInterface_def clearInterfaceLink_def not_less list_update_beyond)
  have "disconnect cfg' ?eps = (None, updateDevice j (?drop g ?s (length (ddTrunkPorts (allDevices cfg ! j))))
      (updateDevice i (?drop f ?t (length (ddTrunkPorts (allDevices cfg ! i)))) cfg'))"
    using lk' rec by (simp add: disconnect_def dropTrunk_def l r)
  also have "\<dots> = (None, updateDevice j (\<lambda>d. ?drop g ?s (length (ddTrunkPorts (allDevices cfg ! j))) (?R d))
      (updateDevice i (\<lambda>d. ?drop f ?t (length (ddTrunkPorts (allDevices cfg ! i))) (?L d)) cfg))"
    unfolding c' updateDevice_interleave [OF ij] ..
  also have "updateDevice i (\<lambda>d. ?drop f ?t (length (ddTrunkPorts (allDevices cfg ! i))) (?L d)) cfg = updateDevice i (?blank f) cfg"
    using il(1) undo by (intro updateDevice_same) simp_all
  also have "updateDevice j (\<lambda>d. ?drop g ?s (length (ddTrunkPorts (allDevices cfg ! j))) (?R d)) (updateDevice i (?blank f) cfg) =
      updateDevice j (?blank g) (updateDevice i (?blank f) cfg)"
    using il(1) jr(1) ij undo by (intro updateDevice_same) (simp_all add: allDevices_update)
  finally show thesis using that [OF lk] by (simp add: blankInterface_def l r)
qed

section \<open>What editing a draft guarantees\<close>

definition sampleInterface :: "string \<Rightarrow> DraftInterface" where
  "sampleInterface n = \<lparr>diName = n, diType = ''ethernet'', diNetwork = [], diAddress = [], diMTU = 1500, diSpeed = 1000, diDuplex = ''full'',
     diAdminStatus = ''up'', diOperStatus = ''up'', diDescription = ''spare'', diInUtilization = 0, diOutUtilization = 0, diVLANs = []\<rparr>"

definition sampleDevice :: "string \<Rightarrow> DeviceMutation" where
  "sampleDevice n = \<lparr>dmName = n, dmType = ''switch'', dmVendor = ''cisco'', dmMAC = [], dmMACSuffix = 1, dmSysObjectID = [], dmIPs = [], dmVLAN = 0,
     dmInterfaces = [sampleInterface ''e0'', sampleInterface ''e1''], dmProperties = [], dmWalkFile = []\<rparr>"

definition sampleLink :: LinkMutation where
  "sampleLink = \<lparr>lmEndpoints = \<lparr>leSource = \<lparr>epDevice = ''a'', epInterface = ''e0''\<rparr>, leTarget = \<lparr>epDevice = ''b'', epInterface = ''e1''\<rparr>\<rparr>,
     lmProperties = \<lparr>lpVLANs = [10, 20], lpNativeVLAN = 10, lpFDBOnly = False\<rparr>\<rparr>"

definition emptyDraft :: DraftConfig where
  "emptyDraft = \<lparr>dcDevices = [], dcSegments = []\<rparr>"

definition pairDraft :: DraftConfig where
  "pairDraft = snd (addDevice (\<lambda>_. None) (snd (addDevice (\<lambda>_. None) emptyDraft (sampleDevice ''a''))) (sampleDevice ''b''))"

definition addOf :: "string \<Rightarrow> Mutation" where
  "addOf n = \<lparr>mtOperation = ''add_device'', mtDevice = Some (sampleDevice n), mtLink = None, mtPosition = None\<rparr>"

definition connectOf :: Mutation where
  "connectOf = \<lparr>mtOperation = ''connect'', mtDevice = None, mtLink = Some sampleLink, mtPosition = None\<rparr>"

lemma emptyDraft_inv: "draft_inv emptyDraft"
  by (simp add: draft_inv_def emptyDraft_def allDevices_def trunksByName_def links_ok_def)

text \<open>C33 (draft_stays_linked): starting from a well-linked draft, every sequence of topology edits, accepted or refused, whatever \<open>net.ParseIP\<close> and
  the number formatting do, leaves a draft in which device names are unique, an interface carries at most one link, every link joins two different
  devices, is recorded at both ends with the same VLANs, native VLAN and forwarding flag, and has distinct VLANs between 1 and 4094 with the native
  one, if it is not 0 (none), among them.\<close>

theorem draft_stays_linked:
  assumes "draft_inv cfg"
  shows "draft_inv (run_ops (\<lambda>m cfg. snd (applyMutation parseIP formatFloat cfg m)) ms cfg)"
  using edits.run_inv [OF assms run_ok_True] .

theorem draft_stays_linked_witness:
  "draft_inv (run_ops (\<lambda>m cfg. snd (applyMutation (\<lambda>_. None) (\<lambda>_. []) cfg m)) [addOf ''a'', addOf ''b'', connectOf] emptyDraft)"
  by (rule draft_stays_linked [OF emptyDraft_inv])

text \<open>An edit that reports an error, of whichever class, leaves the draft exactly as it was, also when
  the error is found after some of the checks have passed.\<close>

theorem edit_refused_unchanged:
  assumes "applyMutation parseIP formatFloat cfg m = (Some e, cfg')"
  shows "cfg' = cfg"
  using assms applyMutation_refused [of parseIP formatFloat cfg m] by simp

theorem edit_refused_unchanged_witness:
  "applyMutation (\<lambda>_. None) (\<lambda>_. []) emptyDraft connectOf = (Some NotFound, emptyDraft) \<and>
   snd (applyMutation (\<lambda>_. None) (\<lambda>_. []) emptyDraft connectOf) = emptyDraft"
proof -
  have e: "applyMutation (\<lambda>_. None) (\<lambda>_. []) emptyDraft connectOf = (Some NotFound, emptyDraft)" by code_simp
  from edit_refused_unchanged [OF this] e show ?thesis by simp
qed

text \<open>On a well-linked draft, disconnecting a link that has just been connected succeeds, and gives back the draft with the
  description and the VLANs of the two interfaces blank; nothing else of the draft differs, whichever links and segments it has.\<close>

theorem connect_disconnect:
  assumes "draft_inv cfg" "connect cfg link = (None, cfg')"
  shows "\<exists>left right. linkDevicesAndInterfaces cfg (lmEndpoints link) = Inr (left, right) \<and>
    disconnect cfg' (lmEndpoints link) = (None, blankInterface right (blankInterface left cfg))"
  using connect_then_disconnect [OF assms] by metis

theorem connect_disconnect_witness:
  "disconnect (snd (connect pairDraft sampleLink)) (lmEndpoints sampleLink) = (None, blankInterface (1, 1) (blankInterface (0, 0) pairDraft))"
proof -
  have inv: "draft_inv pairDraft" unfolding pairDraft_def by (intro addDevice_inv emptyDraft_inv)
  have ok: "fst (connect pairDraft sampleLink) = None" and at: "linkDevicesAndInterfaces pairDraft (lmEndpoints sampleLink) = Inr ((0, 0), (1, 1))"
    by code_simp+
  from ok have "connect pairDraft sampleLink = (None, snd (connect pairDraft sampleLink))" by (simp add: prod_eq_iff)
  from connect_disconnect [OF inv this] at show ?thesis by auto
qed

end
