(* ===== verification/Device_Cli.thy ===== *)
theory Device_Cli
  imports Device_Props Go_Addr
begin

text \<open>
  Command sessions on a device (\<open>internal/devicecli\<close>): modes, command dispatch, rendering, and the line framing of the SSH shell.  \<open>Execute\<close> takes the
  session and the store and returns the response with both; the \<open>Store\<close> pointer of the Go \<open>Session\<close> is the store argument, and \<open>others\<close> is
  what other callers of the store do while \<open>UpdateInterface\<close>, \<open>UpdateIdentity\<close> or \<open>UpdateVLAN\<close> has released its lock.  \<open>Mode\<close> is a string in
  the code; only the six constants are ever assigned, so that the default branches of the switches on it are not reached.  SSH itself
  (\<open>golang.org/x/crypto/ssh\<close>) is outside the model.
\<close>

section \<open>Sessions\<close>

datatype Mode = ModeUser | ModePrivileged | ModeGlobalConfig | ModeInterfaceConfig | ModeVLANConfig | ModeRouterConfig

record Response =
  Output :: string
  Close :: bool

record Session =
  seMode :: Mode
  seInterfaceName :: string
  seVlanID :: int
  seRouterProtocol :: string
  seRouterProcessID :: string

type_synonym cliResult = "Response \<times> Session \<times> Store"

definition NewSession :: Session where
  "NewSession = \<lparr>seMode = ModeUser, seInterfaceName = [], seVlanID = 0, seRouterProtocol = [], seRouterProcessID = []\<rparr>"

definition invalidInput :: string where "invalidInput = ''% Invalid input detected''"

definition say :: "string \<Rightarrow> Session \<Rightarrow> Store \<Rightarrow> cliResult" where
  "say out se s = (\<lparr>Output = out, Close = False\<rparr>, se, s)"

definition enter :: "Mode \<Rightarrow> Session \<Rightarrow> Store \<Rightarrow> cliResult" where
  "enter m se s = (\<lparr>Output = [], Close = False\<rparr>, se\<lparr>seMode := m\<rparr>, s)"

definition hangUp :: "Session \<Rightarrow> Store \<Rightarrow> cliResult" where
  "hangUp se s = (\<lparr>Output = [], Close = True\<rparr>, se, s)"

primrec promptMark :: "Mode \<Rightarrow> string" where
  "promptMark ModeUser = ''>''"
| "promptMark ModePrivileged = ''#''"
| "promptMark ModeGlobalConfig = ''(config)#''"
| "promptMark ModeInterfaceConfig = ''(config-if)#''"
| "promptMark ModeVLANConfig = ''(config-vlan)#''"
| "promptMark ModeRouterConfig = ''(config-router)#''"

definition Prompt :: "Session \<Rightarrow> Store \<Rightarrow> string" where
  "Prompt se s = Hostname (snIdentity (storeSnapshot s)) @ promptMark (seMode se)"

section \<open>The command tree\<close>

record commandSpec =
  csSyntax :: string
  csSummary :: string

definition spec :: "string \<Rightarrow> string \<Rightarrow> commandSpec" where
  "spec syntax summary = \<lparr>csSyntax = syntax, csSummary = summary\<rparr>"

primrec commandsForMode :: "Mode \<Rightarrow> commandSpec list" where
  "commandsForMode ModeUser = [spec ''enable'' ''Enter privileged mode'', spec ''exit'' ''Close this session'']"
| "commandsForMode ModePrivileged =
     [spec ''configure terminal'' ''Enter global configuration mode'', spec ''show ip interface brief'' ''Display interface status'',
      spec ''show ip route'' ''Display the routing table'', spec ''show running-config'' ''Display running configuration'',
      spec ''show startup-config'' ''Display startup configuration'', spec ''show configuration events'' ''Display configuration events'',
      spec ''write memory'' ''Save running configuration'', spec ''write erase'' ''Erase startup configuration'',
      spec ''reload'' ''Reload startup configuration'', spec ''checkpoint <name>'' ''Save a named checkpoint'',
      spec ''rollback checkpoint <name>'' ''Restore a named checkpoint'', spec ''disable'' ''Return to user mode'',
      spec ''exit'' ''Close this session'']"
| "commandsForMode ModeGlobalConfig =
     [spec ''hostname <name>'' ''Set the device hostname'', spec ''interface <name>'' ''Configure an interface'',
      spec ''vlan <id>'' ''Configure a VLAN'', spec ''router ospf <process-id>'' ''Configure an OSPF process'',
      spec ''ip route <prefix> <next-hop> <interface>'' ''Configure a static route'', spec ''end'' ''Return to privileged mode'',
      spec ''exit'' ''Return to privileged mode'']"
| "commandsForMode ModeInterfaceConfig =
     [spec ''description <text>'' ''Set the interface description'', spec ''ip address <prefix>'' ''Set the interface IPv4 prefix'',
      spec ''no ip address'' ''Remove the interface IPv4 prefix'', spec ''shutdown'' ''Administratively disable the interface'',
      spec ''no shutdown'' ''Administratively enable the interface'', spec ''end'' ''Return to privileged mode'',
      spec ''exit'' ''Return to global configuration mode'']"
| "commandsForMode ModeVLANConfig =
     [spec ''name <name>'' ''Set the VLAN name'', spec ''end'' ''Return to privileged mode'',
      spec ''exit'' ''Return to global configuration mode'']"
| "commandsForMode ModeRouterConfig =
     [spec ''network <address> <wildcard> area <id>'' ''Add an OSPF network'', spec ''end'' ''Return to privileged mode'',
      spec ''exit'' ''Return to global configuration mode'']"

definition Complete :: "Session \<Rightarrow> string \<Rightarrow> string list" where
  "Complete se prefix0 =
     (let prefix1 = trimSpace prefix0 in
      sort (foldl (\<lambda>result command. let keyword = hd (Fields (csSyntax command)) in
        if hasPrefix prefix1 (csSyntax command) \<and> keyword \<notin> set result then result @ [keyword] else result) [] (commandsForMode (seMode se))))"

definition newline :: string where "newline = [CHR 0x0A]"

definition helpText :: "Session \<Rightarrow> string \<Rightarrow> string" where
  "helpText se prefix0 =
     (let prefix1 = trimSpace prefix0 in
      trimSuffix newline (concat (map (\<lambda>c. padRight 42 (csSyntax c) @ '' '' @ csSummary c @ newline)
        (filter (\<lambda>c. \<not> (prefix1 \<noteq> [] \<and> \<not> hasPrefix prefix1 (csSyntax c))) (commandsForMode (seMode se))))))"

section \<open>Rendering\<close>

definition upDown :: "bool \<Rightarrow> string" where
  "upDown up = (if up then ''up'' else ''down'')"

definition renderInterfaces :: "Interface list \<Rightarrow> string" where
  "renderInterfaces interfaces =
     trimSuffix newline (''Interface              IP-Address      Status    Protocol'' @ newline @
       concat (map (\<lambda>i. padRight 22 (ifName i) @ '' '' @ padRight 15 (addrString (prefixAddr (ifAddress i))) @ '' '' @
         padRight 9 (upDown (ifAdminUp i)) @ '' '' @ upDown (ifOperUp i) @ newline) interfaces))"

definition renderRoutes :: "Route list \<Rightarrow> string" where
  "renderRoutes routes =
     trimSuffix newline (concat (map (\<lambda>r.
       if rtConnected r then ''C '' @ prefixString (rtDestination r) @ '' is directly connected, '' @ rtVia r @ newline
       else ''S '' @ prefixString (rtDestination r) @ '' [1/0] via '' @ addrString (rtNextHop r) @ '', '' @ rtVia r @ newline) routes))"

definition interfaceLines :: "Interface \<Rightarrow> string list" where
  "interfaceLines i =
     [''interface '' @ ifName i] @ (if ifDescription i \<noteq> [] then ['' description '' @ ifDescription i] else []) @
     (if prefixIsValid (ifAddress i) then ['' ip address '' @ prefixString (ifAddress i)] else []) @
     (if \<not> ifAdminUp i then ['' shutdown''] else []) @ [''!'']"

definition vlanLines :: "VLAN \<Rightarrow> string list" where
  "vlanLines v = [''vlan '' @ itoa (vlanID v)] @ (if vlanName v \<noteq> [] then ['' name '' @ vlanName v] else []) @ [''!'']"

definition routerLines :: "Router \<Rightarrow> string list" where
  "routerLines r =
     [''router '' @ roProtocol r @ '' '' @ roProcessID r] @
     map (\<lambda>n. '' network '' @ rnAddress n @ '' '' @ rnWildcard n @ '' area '' @ rnArea n) (roNetworks r) @ [''!'']"

definition routeLines :: "Route \<Rightarrow> string list" where
  "routeLines r =
     (if rtConnected r then [] else [''ip route '' @ prefixString (rtDestination r) @ '' '' @ addrString (rtNextHop r) @ '' '' @ rtVia r])"

definition configurationLines :: "Snapshot \<Rightarrow> string list" where
  "configurationLines sn =
     [''hostname '' @ Hostname (snIdentity sn), ''!''] @ concat (map interfaceLines (nwInterfaces (snNetwork sn))) @
     concat (map vlanLines (nwVLANs (snNetwork sn))) @ concat (map routerLines (nwRouters (snNetwork sn))) @
     concat (map routeLines (nwRoutes (snNetwork sn)))"

definition renderConfiguration :: "Snapshot \<Rightarrow> string" where
  "renderConfiguration sn = trimSuffix newline (concat (map (\<lambda>l. l @ newline) (configurationLines sn)))"

definition renderEvents :: "Event list \<Rightarrow> string" where
  "renderEvents es =
     trimSuffix newline (''Version  Event                  Target'' @ newline @
       concat (map (\<lambda>e. padRight 8 (nat_digits (unat (evVersion e))) @ '' '' @ padRight 22 (evKind e) @ '' '' @ evTarget e @ newline) es))"

section \<open>Commands of each mode\<close>

definition executeUser :: "string list \<Rightarrow> Session \<Rightarrow> Store \<Rightarrow> cliResult" where
  "executeUser args se s =
     (if length args \<noteq> 1 then say invalidInput se s
      else if args ! 0 = ''enable'' then enter ModePrivileged se s
      else if args ! 0 = ''exit'' \<or> args ! 0 = ''logout'' then hangUp se s
      else say invalidInput se s)"

definition isHostnameChar :: "char \<Rightarrow> bool" where
  "isHostnameChar c \<longleftrightarrow> byteIn 97 122 c \<or> byteIn 65 90 c \<or> byteIn 48 57 c \<or> c = CHR ''-''"

definition validHostname :: "string \<Rightarrow> bool" where
  "validHostname h \<longleftrightarrow> \<not> (length h = 0 \<or> 63 < length h \<or> h ! 0 = CHR ''-'' \<or> last h = CHR ''-'') \<and> list_all isHostnameChar h"

definition executeLifecycle :: "string \<Rightarrow> Session \<Rightarrow> Store \<Rightarrow> cliResult option" where
  "executeLifecycle command se s =
     (if command = ''show ip interface brief'' then Some (say (renderInterfaces (nwInterfaces (snNetwork (storeSnapshot s)))) se s)
      else if command = ''show ip route'' then Some (say (renderRoutes (nwRoutes (snNetwork (storeSnapshot s)))) se s)
      else if command = ''show running-config'' then Some (say (renderConfiguration (storeSnapshot s)) se s)
      else if command = ''show startup-config'' then Some (say (renderConfiguration (StartupSnapshot s)) se s)
      else if command = ''show configuration events'' then Some (say (renderEvents (storeEvents s)) se s)
      else if command = ''copy running-config startup-config'' \<or> command = ''write memory'' then
        Some (say (''Building configuration...'' @ newline @ ''[OK]'') se (SaveStartup s))
      else if command = ''write erase'' then Some (say ''[OK]'' se (EraseStartup s))
      else if command = ''reload'' then Some (hangUp se (ReloadStartup s))
      else None)"

definition executePrivileged :: "string list \<Rightarrow> Session \<Rightarrow> Store \<Rightarrow> cliResult" where
  "executePrivileged args se s =
     (if length args = 2 \<and> args ! 0 = ''checkpoint'' then
        (if \<not> validHostname (args ! 1) then say ''% Invalid checkpoint name'' se s
         else say ''[OK]'' se (SaveCheckpoint (args ! 1) s))
      else if length args = 3 \<and> args ! 0 = ''rollback'' \<and> args ! 1 = ''checkpoint'' then
        (case RestoreCheckpoint (args ! 2) s of
           (Some e, s') \<Rightarrow> say (if e = ErrCheckpointNotFound then ''% Checkpoint not found'' else ''% Rollback failed'') se s'
         | (None, s') \<Rightarrow> say ''[OK]'' se s')
      else
        let command = joinWith '' '' args in
        case executeLifecycle command se s of
          Some r \<Rightarrow> r
        | None \<Rightarrow>
            if command = ''disable'' then enter ModeUser se s
            else if command = ''configure terminal'' \<or> command = ''conf t'' then
              (\<lparr>Output = ''Enter configuration commands, one per line.'', Close = False\<rparr>, se\<lparr>seMode := ModeGlobalConfig\<rparr>, s)
            else if command = ''exit'' \<or> command = ''logout'' then hangUp se s
            else say invalidInput se s)"

definition setStaticRoute :: "(Route \<Rightarrow> bool) option \<Rightarrow> string list \<Rightarrow> Session \<Rightarrow> Store \<Rightarrow> cliResult" where
  "setStaticRoute validateRoute args se s =
     (case (ParsePrefix4 (args ! 2), ParseAddr4 (args ! 3), validateRoute) of
        (Some destination, Some nextHop, Some valid) \<Rightarrow>
          let route = \<lparr>rtDestination = destination, rtVia = args ! 4, rtNextHop = V4 nextHop, rtConnected = False\<rparr> in
          if \<not> valid route then say ''% Invalid static route'' se s else say [] se (UpsertRoute route s)
      | _ \<Rightarrow> say ''% Invalid static route'' se s)"

definition selectVLAN :: "string list \<Rightarrow> Session \<Rightarrow> Store \<Rightarrow> cliResult" where
  "selectVLAN args se s =
     (if length args \<noteq> 2 then say invalidInput se s
      else case atoi (args ! 1) of
        None \<Rightarrow> say ''% Invalid VLAN'' se s
      | Some i \<Rightarrow>
          if i < 1 \<or> 4094 < i then say ''% Invalid VLAN'' se s
          else enter ModeVLANConfig (se\<lparr>seVlanID := i\<rparr>) (EnsureVLAN i s))"

definition selectRouter :: "string list \<Rightarrow> Session \<Rightarrow> Store \<Rightarrow> cliResult" where
  "selectRouter args se s =
     (if length args \<noteq> 3 \<or> args ! 1 \<noteq> ''ospf'' then say invalidInput se s
      else case atoi (args ! 2) of
        None \<Rightarrow> say ''% Invalid process ID'' se s
      | Some processID \<Rightarrow>
          if processID < 1 then say ''% Invalid process ID'' se s
          else enter ModeRouterConfig (se\<lparr>seRouterProtocol := args ! 1, seRouterProcessID := itoa processID\<rparr>)
            (EnsureRouter (args ! 1) (itoa processID) s))"

definition setHostname :: "(Store \<Rightarrow> Store) \<Rightarrow> string list \<Rightarrow> Session \<Rightarrow> Store \<Rightarrow> cliResult" where
  "setHostname others args se s =
     (if length args \<noteq> 2 \<or> \<not> validHostname (args ! 1) then say ''% Invalid hostname'' se s
      else case UpdateIdentity (\<lambda>identity. Inr (identity\<lparr>Hostname := args ! 1\<rparr>)) others s of
        (Some e, s') \<Rightarrow> say ''% Configuration failed'' se s'
      | (None, s') \<Rightarrow> say [] se s')"

definition hasInterface :: "Interface list \<Rightarrow> string \<Rightarrow> bool" where
  "hasInterface interfaces name \<longleftrightarrow> list_ex (\<lambda>i. ifName i = name) interfaces"

definition selectInterface :: "string list \<Rightarrow> Session \<Rightarrow> Store \<Rightarrow> cliResult" where
  "selectInterface args se s =
     (if length args \<noteq> 2 \<or> \<not> hasInterface (nwInterfaces (snNetwork (storeSnapshot s))) (args ! 1) then say ''% Interface not found'' se s
      else enter ModeInterfaceConfig (se\<lparr>seInterfaceName := args ! 1\<rparr>) s)"

definition executeGlobal :: "(Route \<Rightarrow> bool) option \<Rightarrow> (Store \<Rightarrow> Store) \<Rightarrow> string list \<Rightarrow> Session \<Rightarrow> Store \<Rightarrow> cliResult" where
  "executeGlobal validateRoute others args se s =
     (if length args = 5 \<and> args ! 0 = ''ip'' \<and> args ! 1 = ''route'' then setStaticRoute validateRoute args se s
      else if args ! 0 = ''end'' \<or> args ! 0 = ''exit'' then
        (if length args \<noteq> 1 then say invalidInput se s else enter ModePrivileged se s)
      else if args ! 0 = ''hostname'' then setHostname others args se s
      else if args ! 0 = ''interface'' then selectInterface args se s
      else if args ! 0 = ''vlan'' then selectVLAN args se s
      else if args ! 0 = ''router'' then selectRouter args se s
      else say invalidInput se s)"

definition changeInterface :: "(Interface \<Rightarrow> Interface) \<Rightarrow> (Store \<Rightarrow> Store) \<Rightarrow> Session \<Rightarrow> Store \<Rightarrow> cliResult" where
  "changeInterface update others se s =
     (case UpdateInterface (seInterfaceName se) (\<lambda>i. Inr (update i)) others s of
        (Some e, s') \<Rightarrow> say ''% Interface update failed'' se s'
      | (None, s') \<Rightarrow> say [] se s')"

definition setInterfaceStatus :: "bool \<Rightarrow> (Store \<Rightarrow> Store) \<Rightarrow> Session \<Rightarrow> Store \<Rightarrow> cliResult" where
  "setInterfaceStatus up = changeInterface (\<lambda>i. i\<lparr>ifAdminUp := up, ifOperUp := up \<and> ifCarrierUp i\<rparr>)"

definition executeInterface :: "(Store \<Rightarrow> Store) \<Rightarrow> string list \<Rightarrow> Session \<Rightarrow> Store \<Rightarrow> cliResult" where
  "executeInterface others args se s =
     (let command = joinWith '' '' args in
      if args ! 0 = ''description'' \<and> 2 \<le> length args then
        changeInterface (\<lambda>i. i\<lparr>ifDescription := joinWith '' '' (drop 1 args)\<rparr>) others se s
      else if length args = 3 \<and> args ! 0 = ''ip'' \<and> args ! 1 = ''address'' then
        (case ParsePrefix4 (args ! 2) of
           None \<Rightarrow> say ''% Invalid IPv4 prefix'' se s
         | Some address \<Rightarrow> changeInterface (\<lambda>i. i\<lparr>ifAddress := address\<rparr>) others se s)
      else if command = ''no ip address'' then changeInterface (\<lambda>i. i\<lparr>ifAddress := noPrefix\<rparr>) others se s
      else if command = ''end'' then enter ModePrivileged se s
      else if command = ''exit'' then enter ModeGlobalConfig se s
      else if command = ''shutdown'' then setInterfaceStatus False others se s
      else if command = ''no shutdown'' then setInterfaceStatus True others se s
      else say invalidInput se s)"

definition executeVLAN :: "(Store \<Rightarrow> Store) \<Rightarrow> string list \<Rightarrow> Session \<Rightarrow> Store \<Rightarrow> cliResult" where
  "executeVLAN others args se s =
     (if args ! 0 = ''end'' then (if length args \<noteq> 1 then say invalidInput se s else enter ModePrivileged se s)
      else if args ! 0 = ''exit'' then (if length args \<noteq> 1 then say invalidInput se s else enter ModeGlobalConfig se s)
      else if args ! 0 = ''name'' then
        (if length args < 2 then say ''% Invalid VLAN name'' se s
         else case UpdateVLAN (seVlanID se) (\<lambda>v. v\<lparr>vlanName := joinWith '' '' (drop 1 args)\<rparr>) others s of
           (Some e, s') \<Rightarrow> say ''% Configuration failed'' se s'
         | (None, s') \<Rightarrow> say [] se s')
      else say invalidInput se s)"

definition normalizeOSPFArea :: "string \<Rightarrow> string option" where
  "normalizeOSPFArea value =
     (case ParseAddr4 value of
        Some a \<Rightarrow> Some (addrString (V4 a))
      | None \<Rightarrow> map_option nat_digits (parseUint32 value))"

definition validIPv4 :: "string \<Rightarrow> bool" where
  "validIPv4 value \<longleftrightarrow> ParseAddr4 value \<noteq> None"

definition executeRouter :: "string list \<Rightarrow> Session \<Rightarrow> Store \<Rightarrow> cliResult" where
  "executeRouter args se s =
     (if args ! 0 = ''end'' then (if length args \<noteq> 1 then say invalidInput se s else enter ModePrivileged se s)
      else if args ! 0 = ''exit'' then (if length args \<noteq> 1 then say invalidInput se s else enter ModeGlobalConfig se s)
      else if args ! 0 = ''network'' then
        (if length args \<noteq> 5 \<or> args ! 3 \<noteq> ''area'' \<or> \<not> validIPv4 (args ! 1) \<or> \<not> validIPv4 (args ! 2) then say invalidInput se s
         else case normalizeOSPFArea (args ! 4) of
           None \<Rightarrow> say invalidInput se s
         | Some area \<Rightarrow> say [] se (AddRouterNetwork (seRouterProtocol se) (seRouterProcessID se)
             \<lparr>rnAddress = args ! 1, rnWildcard = args ! 2, rnArea = area\<rparr> s))
      else say invalidInput se s)"

definition Execute :: "(Route \<Rightarrow> bool) option \<Rightarrow> (Store \<Rightarrow> Store) \<Rightarrow> string \<Rightarrow> Session \<Rightarrow> Store \<Rightarrow> cliResult" where
  "Execute validateRoute others line se s =
     (case cutSuffix ''?'' (trimSpace line) of
        Some rest \<Rightarrow> say (helpText se (trimSpace rest)) se s
      | None \<Rightarrow>
          let args = Fields line in
          if args = [] then say [] se s
          else case seMode se of
            ModeUser \<Rightarrow> executeUser args se s
          | ModePrivileged \<Rightarrow> executePrivileged args se s
          | ModeGlobalConfig \<Rightarrow> executeGlobal validateRoute others args se s
          | ModeInterfaceConfig \<Rightarrow> executeInterface others args se s
          | ModeVLANConfig \<Rightarrow> executeVLAN others args se s
          | ModeRouterConfig \<Rightarrow> executeRouter args se s)"

section \<open>The shell\<close>

definition crlf :: "string \<Rightarrow> string" where
  "crlf out = concat (map (\<lambda>c. if c = CHR 0x0A then [CHR 0x0D, CHR 0x0A] else [c]) out)"

text \<open>The split function of the shell's scanner: the bytes to skip and the token, if there is one.\<close>

definition scanCLICommands :: "string \<Rightarrow> bool \<Rightarrow> nat \<times> string option" where
  "scanCLICommands data atEOF =
     (if data \<noteq> [] \<and> data ! 0 = CHR 0x0A then (1, None)
      else case index_of (\<lambda>c. c = CHR 0x0D \<or> c = CHR 0x0A) data of
        Some i \<Rightarrow> (i + 1, Some (take i data))
      | None \<Rightarrow> if atEOF \<and> data \<noteq> [] then (length data, Some data) else (0, None))"

text \<open>\<open>serveExec\<close>: exit status, the standard output and the standard error.\<close>

definition serveExec :: "(Route \<Rightarrow> bool) option \<Rightarrow> (Store \<Rightarrow> Store) \<Rightarrow> string \<Rightarrow> Store \<Rightarrow> (32 word \<times> string \<times> string) \<times> Store" where
  "serveExec validateRoute others command s =
     (let (response, _, s') = Execute validateRoute others command (NewSession\<lparr>seMode := ModePrivileged\<rparr>) s;
          out = Output response; text1 = (if out \<noteq> [] then crlf out @ [CHR 0x0D, CHR 0x0A] else []) in
      (if hasPrefix ''%'' out then (1, [], text1) else (0, text1, []), s'))"

text \<open>The loop of \<open>serveShell\<close> on the commands its scanner returns: the bytes written and the store.\<close>

fun shellLoop :: "(Route \<Rightarrow> bool) option \<Rightarrow> (Store \<Rightarrow> Store) list \<Rightarrow> string list \<Rightarrow> Session \<Rightarrow> Store \<Rightarrow> string \<times> Store" where
  "shellLoop validateRoute others [] se s = ([], s)"
| "shellLoop validateRoute others (line # rest) se s =
     (let gap = (case others of [] \<Rightarrow> (\<lambda>x. x) | f # _ \<Rightarrow> f);
          (response, se', s') = Execute validateRoute gap line se s;
          written = (if Output response \<noteq> [] then crlf (Output response) @ [CHR 0x0D, CHR 0x0A] else []) in
      if Close response then (written, s')
      else let (more, s'') = shellLoop validateRoute (tl others) rest se' s' in (written @ Prompt se' s' @ more, s''))"

definition serveShell :: "(Route \<Rightarrow> bool) option \<Rightarrow> (Store \<Rightarrow> Store) list \<Rightarrow> string list \<Rightarrow> Store \<Rightarrow> string \<times> Store" where
  "serveShell validateRoute others commands s =
     (let (more, s') = shellLoop validateRoute others commands NewSession s in (Prompt NewSession s @ more, s'))"

end
