(* ===== verification/Cli_Props.thy ===== *)
theory Cli_Props
  imports Device_Cli
begin

text \<open>
  What command sessions do to a device.  Every command is at most one operation of the store (\<open>Execute_effect\<close>); three of those read the store,
  release the lock and write if the version is still the one they read, and \<open>cliEffect\<close> keeps what other goroutines do in that gap.  So the
  store's invariant holds along every interleaving of commands of any number of sessions with other store operations (interpretation \<open>cli\<close> of
  \<open>guarded_machine\<close>); then which mode may change what; what the exit status of a one-shot command means; and how the shell's bytes are cut into
  commands.
\<close>

section \<open>Each command is at most one store operation\<close>

fun cliOp :: "op \<Rightarrow> bool" where
  "cliOp (OpUpsertRoute r) = True"
| "cliOp (OpEnsureVLAN i) = True"
| "cliOp (OpEnsureRouter p i) = True"
| "cliOp (OpAddRouterNetwork p i n) = True"
| "cliOp OpSaveStartup = True"
| "cliOp OpReloadStartup = True"
| "cliOp OpEraseStartup = True"
| "cliOp (OpSaveCheckpoint n) = True"
| "cliOp (OpRestoreCheckpoint n) = True"
| "cliOp _ = False"

definition cliEffect :: "(Store \<Rightarrow> Store) \<Rightarrow> Store \<Rightarrow> Store \<Rightarrow> bool" where
  "cliEffect others s t \<longleftrightarrow> t = s \<or> (\<exists>x. cliOp x \<and> t = step x s) \<or> (\<exists>f. t = snd (UpdateIdentity f others s)) \<or>
     (\<exists>n f. t = snd (UpdateInterface n f others s)) \<or> (\<exists>i f. t = snd (UpdateVLAN i f others s))"

lemma cliEffect_same [intro]: "cliEffect others s s"
  by (simp add: cliEffect_def)

lemma cliEffect_gap [intro]:
  "cliEffect others s (snd (UpdateIdentity f others s))" "cliEffect others s (snd (UpdateInterface n g others s))"
  "cliEffect others s (snd (UpdateVLAN i h others s))"
  by (auto simp: cliEffect_def)

lemma cliEffect_steps [intro]:
  "cliEffect others s (UpsertRoute r s)" "cliEffect others s (EnsureVLAN i s)"
  "cliEffect others s (EnsureRouter p q s)" "cliEffect others s (AddRouterNetwork p q nw s)" "cliEffect others s (SaveStartup s)"
  "cliEffect others s (ReloadStartup s)" "cliEffect others s (EraseStartup s)" "cliEffect others s (SaveCheckpoint n s)"
  "cliEffect others s (snd (RestoreCheckpoint n s))"
  unfolding cliEffect_def
  by (rule disjI2, rule disjI1, rule exI, rule conjI [rotated], rule step.simps [symmetric], simp)+

lemma response_store [simp]:
  "snd (snd (say m se s)) = s" "snd (snd (enter md se s)) = s" "snd (snd (hangUp se s)) = s"
  "fst (snd (say m se s)) = se" "fst (snd (enter md se s)) = se\<lparr>seMode := md\<rparr>" "fst (snd (hangUp se s)) = se"
  "Output (fst (say m se s)) = m" "Output (fst (enter md se s)) = []" "Output (fst (hangUp se s)) = []"
  by (simp_all add: say_def enter_def hangUp_def)

lemma changeInterface_effect [intro]: "cliEffect others s (snd (snd (changeInterface f others se s)))"
  using cliEffect_gap(2) by (auto simp: changeInterface_def split: prod.split option.split) (metis snd_conv)+

lemma executeUser_store [simp]: "snd (snd (executeUser args se s)) = s"
  by (simp add: executeUser_def)

lemma executePrivileged_effect: "cliEffect others s (snd (snd (executePrivileged args se s)))"
proof -
  have "cliEffect others s (snd (snd (case RestoreCheckpoint n s of (Some e, s') \<Rightarrow> say (m e) se s' | (None, s') \<Rightarrow> say m' se s')))" for n m m'
    using cliEffect_steps(9) [of others s n] by (cases "RestoreCheckpoint n s") (auto split: option.split)
  then show ?thesis by (auto simp: executePrivileged_def executeLifecycle_def Let_def)
qed

lemma executeGlobal_effect: "cliEffect others s (snd (snd (executeGlobal vr others args se s)))"
proof -
  have "cliEffect others s (snd (snd (setHostname others args se s)))"
    using cliEffect_gap(1) by (auto simp: setHostname_def split: prod.split option.split) (metis snd_conv)+
  moreover have "cliEffect others s (snd (snd (setStaticRoute vr args se s)))"
    by (auto simp: setStaticRoute_def Let_def split: option.split)
  moreover have "cliEffect others s (snd (snd (selectVLAN args se s)))" "cliEffect others s (snd (snd (selectRouter args se s)))"
    "cliEffect others s (snd (snd (selectInterface args se s)))"
    by (auto simp: selectVLAN_def selectRouter_def selectInterface_def split: option.split)
  ultimately show ?thesis by (auto simp: executeGlobal_def)
qed

lemma executeInterface_effect: "cliEffect others s (snd (snd (executeInterface others args se s)))"
  by (auto simp: executeInterface_def setInterfaceStatus_def Let_def split: option.split)

lemma executeVLAN_effect: "cliEffect others s (snd (snd (executeVLAN others args se s)))"
proof -
  have "cliEffect others s (snd (snd (case UpdateVLAN i f others s of (Some e, s') \<Rightarrow> say m se s' | (None, s') \<Rightarrow> say m' se s')))" for i f m m'
    using cliEffect_gap(3) [of others s i f] by (cases "UpdateVLAN i f others s") (auto split: option.split)
  then show ?thesis by (auto simp: executeVLAN_def)
qed

lemma executeRouter_effect: "cliEffect others s (snd (snd (executeRouter args se s)))"
  by (auto simp: executeRouter_def split: option.split)

lemma Execute_effect: "cliEffect others s (snd (snd (Execute vr others line se s)))"
  using executePrivileged_effect executeGlobal_effect executeInterface_effect executeVLAN_effect executeRouter_effect
  by (cases "seMode se") (auto simp: Execute_def Let_def split: option.split)

lemma cliOp_permitted: "room s \<Longrightarrow> cliOp x \<Longrightarrow> permitted x s"
  by (cases x) (simp_all add: permitted_def)

text \<open>What the operations of others in a command's gap have to leave: a sound store of the same interfaces.\<close>

definition gapOk :: "(Store \<Rightarrow> Store) \<Rightarrow> Store \<Rightarrow> bool" where
  "gapOk others s \<longleftrightarrow> room s \<and> store_inv (others s) \<and> room (others s) \<and> authored (others s) = authored s"

lemma Execute_keeps_inv: "store_inv s \<Longrightarrow> gapOk others s \<Longrightarrow> store_inv (snd (snd (Execute vr others line se s)))"
  using Execute_effect [of others s vr line se] step_keeps_inv [OF _ cliOp_permitted, of s]
    UpdateIdentity_gap_inv [of others s] UpdateInterface_gap_inv [of s others] UpdateVLAN_gap_inv [of s others]
  unfolding cliEffect_def gapOk_def by metis

section \<open>Sessions side by side\<close>

definition installsNetwork :: "op \<Rightarrow> bool" where
  "installsNetwork x = (case x of OpReplaceNetwork _ \<Rightarrow> True | _ \<Rightarrow> False)"

lemma authored_fields [simp]:
  "authored (recordEvent k tg s) = authored s" "authored (signalChange s) = authored s"
  "authored (recordInterfaceEvent i p c s) = authored s" "authored (updateInterfaceTransitions s) = authored s"
  by (rule core_eqD(3), simp only: store_frame)+

lemma step_authored: "\<not> installsNetwork x \<Longrightarrow> authored (step x s) = authored s"
proof (cases x)
  case (OpRestoreState st)
  then show ?thesis by (simp add: RestoreState_alone Let_def split: option.split)
qed (simp_all add: installsNetwork_def op_defs ClearInterfaceFaults_def SetChangeObserver_def readNow_def Let_def
    split: option.split prod.split sum.split)

lemma cliEffect_authored: "cliEffect others s t \<Longrightarrow> authored (others s) = authored s \<Longrightarrow> authored t = authored s"
proof -
  assume "cliEffect others s t" and au: "authored (others s) = authored s"
  moreover have "\<not> installsNetwork x" if "cliOp x" for x using that by (cases x) (simp_all add: installsNetwork_def)
  moreover have "authored (snd (UpdateIdentity f others s)) = authored s" "authored (snd (UpdateInterface n g others s)) = authored s"
    "authored (snd (UpdateVLAN i h others s)) = authored s" for f n g i h
    using au by (simp_all add: UpdateIdentity_def UpdateInterface_def UpdateVLAN_def setRunningNetwork_def Let_def
        split: option.split sum.split)
  ultimately show ?thesis using step_authored by (auto simp: cliEffect_def)
qed

lemma run_authored: "list_all (\<lambda>x. \<not> installsNetwork x) xs \<Longrightarrow> authored (run_ops step xs s) = authored s"
  by (induction xs arbitrary: s) (simp_all add: step_authored)

text \<open>What the code relies on of a session in each configuration mode.\<close>

definition session_ok :: "string list \<Rightarrow> Session \<Rightarrow> bool" where
  "session_ok names se \<longleftrightarrow>
     (seMode se = ModeInterfaceConfig \<longrightarrow> seInterfaceName se \<in> set names) \<and>
     (seMode se = ModeVLANConfig \<longrightarrow> 1 \<le> seVlanID se \<and> seVlanID se \<le> 4094) \<and>
     (seMode se = ModeRouterConfig \<longrightarrow> seRouterProtocol se = ''ospf'' \<and> (\<exists>n \<ge> 1. seRouterProcessID se = itoa n))"

lemma session_ok_modes [simp]:
  "session_ok names (se\<lparr>seMode := ModeUser\<rparr>)" "session_ok names (se\<lparr>seMode := ModePrivileged\<rparr>)"
  "session_ok names (se\<lparr>seMode := ModeGlobalConfig\<rparr>)" "session_ok names NewSession"
  by (simp_all add: session_ok_def NewSession_def)

lemma hasInterface_names:
  assumes "store_inv s"
  shows "hasInterface (nwInterfaces (snNetwork (storeSnapshot s))) n \<longleftrightarrow> n \<in> set (names_of (authored s))"
proof -
  have "names_of (running s) = names_of (authored s)" using assms body_names by (simp add: store_inv_split)
  moreover have "map ifName (nwInterfaces (snNetwork (storeSnapshot s))) = names_of (running s)"
    by (simp add: storeSnapshot_def snapshot_def names_of_def Let_def)
  moreover have "hasInterface is n \<longleftrightarrow> n \<in> set (map ifName is)" for "is"
    by (auto simp: hasInterface_def list_ex_iff)
  ultimately show ?thesis by metis
qed

lemma changeInterface_session [simp]: "fst (snd (changeInterface f others se s)) = se"
  by (simp add: changeInterface_def split: prod.split option.split)

lemma Execute_session_ok:
  assumes inv: "store_inv s" and ok: "session_ok (names_of (authored s)) se"
  shows "session_ok (names_of (authored s)) (fst (snd (Execute vr others line se s)))"
proof -
  let ?ok = "\<lambda>r. session_ok (names_of (authored s)) (fst (snd r))"
  have "?ok (executeUser args se s)" for args using ok by (simp add: executeUser_def)
  moreover have "?ok (executePrivileged args se s)" for args
    using ok by (auto simp: executePrivileged_def executeLifecycle_def Let_def split: prod.split option.split)
  moreover have "?ok (executeGlobal vr others args se s)" for args
  proof -
    have "session_ok names (se\<lparr>seRouterProtocol := ''ospf'', seRouterProcessID := itoa n, seMode := ModeRouterConfig\<rparr>)" if "1 \<le> n" for names n
      using that by (auto simp: session_ok_def)
    then have "?ok (selectRouter args se s)" using ok by (auto simp: selectRouter_def not_less split: option.split)
    moreover have "?ok (selectVLAN args se s)" using ok by (auto simp: selectVLAN_def session_ok_def split: option.split)
    moreover have "?ok (selectInterface args se s)"
      using ok hasInterface_names [OF inv] by (auto simp: selectInterface_def session_ok_def)
    moreover have "?ok (setHostname others args se s)" "?ok (setStaticRoute vr args se s)"
      using ok by (auto simp: setHostname_def setStaticRoute_def Let_def split: prod.split option.split)
    ultimately show ?thesis using ok by (simp add: executeGlobal_def)
  qed
  moreover have "?ok (executeInterface others args se s)" "?ok (executeVLAN others args se s)" "?ok (executeRouter args se s)" for args
    using ok by (auto simp: executeInterface_def setInterfaceStatus_def executeVLAN_def executeRouter_def Let_def split: prod.split option.split)
  ultimately show ?thesis using ok by (cases "seMode se") (auto simp: Execute_def Let_def split: option.split)
qed

text \<open>
  A command of a session, with the operations other goroutines run while it has released the lock, or an operation of
  another goroutine on its own.
\<close>

datatype deviceEvent = Command nat string "op list" | Other op

text \<open>The sessions by connection number, and the store they share.\<close>

type_synonym cliState = "(nat \<Rightarrow> Session) \<times> Store"

fun cliStep :: "(Route \<Rightarrow> bool) option \<Rightarrow> deviceEvent \<Rightarrow> cliState \<Rightarrow> cliState" where
  "cliStep vr (Command k line gap) (ses, s) =
     (let (r, se, s') = Execute vr (run_ops step gap) line (ses k) s in (ses(k := se), s'))"
| "cliStep vr (Other x) (ses, s) = (ses, step x s)"

definition gapRun :: "op list \<Rightarrow> Store \<Rightarrow> bool" where
  "gapRun gap s \<longleftrightarrow> list_all (\<lambda>x. \<not> installsNetwork x) gap \<and> run_ok step permitted gap s \<and> room s \<and> room (run_ops step gap s)"

fun cliOk :: "deviceEvent \<Rightarrow> cliState \<Rightarrow> bool" where
  "cliOk (Command k line gap) (ses, s) = gapRun gap s"
| "cliOk (Other x) (ses, s) = (permitted x s \<and> \<not> installsNetwork x)"

lemma gapRun_ok: "store_inv s \<Longrightarrow> gapRun gap s \<Longrightarrow> gapOk (run_ops step gap) s"
  using dev.run_inv [of s gap] run_authored [of gap s] by (simp add: gapRun_def gapOk_def)

definition cli_inv :: "cliState \<Rightarrow> bool" where
  "cli_inv st \<longleftrightarrow> store_inv (snd st) \<and> (\<forall>k. session_ok (names_of (authored (snd st))) (fst st k))"

lemma cliStep_inv: "cli_inv st \<Longrightarrow> cliOk x st \<Longrightarrow> cli_inv (cliStep vr x st)"
proof -
  assume inv: "cli_inv st" and ok: "cliOk x st"
  obtain ses s where st: "st = (ses, s)" by (cases st)
  have si: "store_inv s" and so: "\<And>k. session_ok (names_of (authored s)) (ses k)" using inv by (simp_all add: cli_inv_def st)
  show ?thesis
  proof (cases x)
    case (Other y)
    then show ?thesis using ok si so step_keeps_inv [of s y] step_authored [of y s] by (simp add: st cli_inv_def)
  next
    case (Command k line gap)
    let ?r = "Execute vr (run_ops step gap) line (ses k) s"
    have gap: "gapOk (run_ops step gap) s" using ok Command si by (intro gapRun_ok) (simp_all add: st)
    have au: "authored (snd (snd ?r)) = authored s"
      using gap by (intro cliEffect_authored [OF Execute_effect]) (simp add: gapOk_def)
    have "store_inv (snd (snd ?r))" using gap by (rule Execute_keeps_inv [OF si])
    then show ?thesis
      using so Execute_session_ok [OF si so, of vr "run_ops step gap" line k] au by (simp add: Command st cli_inv_def case_prod_unfold Let_def)
  qed
qed

interpretation cli: guarded_machine "cliStep vr" cliOk cli_inv for vr
  by unfold_locales (rule cliStep_inv)

text \<open>Outputs that are not refusals.\<close>

lemma trimSuffix_prefix: "\<exists>r. s = trimSuffix p s @ r"
proof (cases "hasPrefix (rev p) (rev s)")
  case True
  then have "rev s = rev p @ drop (length p) (rev s)" by (metis append_take_drop_id hasPrefix_def length_rev)
  then have "s = rev (drop (length p) (rev s)) @ p" by (metis rev_append rev_rev_ident)
  then show ?thesis using True by (auto simp: trimSuffix_def trimPrefix_def)
qed (simp add: trimSuffix_def trimPrefix_def)

lemma trimmed_start: "s = [] \<or> hd s \<noteq> c \<Longrightarrow> \<not> hasPrefix [c] (trimSuffix p s)"
proof
  assume s: "s = [] \<or> hd s \<noteq> c" and "hasPrefix [c] (trimSuffix p s)"
  then obtain r where "trimSuffix p s = c # r" by (cases "trimSuffix p s") (auto simp: hasPrefix_def)
  with trimSuffix_prefix [of s p] s show False by auto
qed

lemma concat_start: "(\<And>x. x \<in> set xs \<Longrightarrow> f x \<noteq> [] \<and> hd (f x) \<noteq> c) \<Longrightarrow> concat (map f xs) = [] \<or> hd (concat (map f xs)) \<noteq> c"
  by (cases xs) auto

lemma helpText_start: "\<not> hasPrefix ''%'' (helpText se p)"
proof -
  have "csSyntax c \<noteq> [] \<and> hd (csSyntax c) \<noteq> CHR ''%''" if "c \<in> set (commandsForMode (seMode se))" for c
    using that by (cases "seMode se") (auto simp: spec_def)
  then show ?thesis
    unfolding helpText_def Let_def by (intro trimmed_start concat_start) (auto simp: padRight_def newline_def)
qed

text \<open>An interface command fails only when the version changed under it.\<close>

lemma changeInterface_succeeds:
  assumes inv: "store_inv s" and name: "seInterfaceName se \<in> set (names_of (authored s))" and f: "\<And>i. ifName (f i) = ifName i"
    and gap: "gapOk others s" "version (others s) = version s"
  shows "Output (fst (changeInterface f others se s)) = []"
proof -
  have nm: "names_of (running s) = names_of (authored s)" "names_of (running (others s)) = names_of (authored s)"
    using inv gap body_names by (simp_all add: store_inv_split gapOk_def)
  then have len: "length (runningInterfaces (others s)) = length (runningInterfaces s)"
    unfolding names_of_def by (metis length_map)
  have "seInterfaceName se \<in> ifName ` set (runningInterfaces s)" using name nm(1) unfolding names_of_def by (metis set_map)
  then obtain k where k: "index_of (\<lambda>i. ifName i = seInterfaceName se) (runningInterfaces s) = Some k"
    by (cases "index_of (\<lambda>i. ifName i = seInterfaceName se) (runningInterfaces s)") (auto simp: index_of_None)
  have "fst (UpdateInterface (seInterfaceName se) (\<lambda>i. Inr (f i)) others s) = None"
    using k index_of_Some [OF k] f gap(2) len by (simp add: UpdateInterface_def Let_def cloneInterface_def)
  then show ?thesis by (auto simp: changeInterface_def split: prod.split option.split)
qed

lemma interface_command_succeeds:
  assumes "cli_inv (ses, s)" "seMode (ses k) = ModeInterfaceConfig" "gapOk others s" "version (others s) = version s"
  shows "Output (fst (Execute vr others line (ses k) s)) \<noteq> ''% Interface update failed''"
proof -
  have inv: "store_inv s" and nm: "seInterfaceName (ses k) \<in> set (names_of (authored s))"
    using assms by (auto simp: cli_inv_def session_ok_def)
  have "Output (fst (executeInterface others args (ses k) s)) \<noteq> ''% Interface update failed''" for args
    using changeInterface_succeeds [OF inv nm _ assms(3,4)]
    by (auto simp: executeInterface_def setInterfaceStatus_def invalidInput_def Let_def split: option.split)
  moreover have "helpText (ses k) p \<noteq> ''% Interface update failed''" for p using helpText_start [of "ses k" p] by (auto simp: hasPrefix_def)
  ultimately show ?thesis using assms(2) by (simp add: Execute_def Let_def split: option.split)
qed

section \<open>Who may change what\<close>

lemma joined_single:
  assumes "joinWith '' '' args = w" "CHR '' '' \<notin> set w" "w \<noteq> []"
  shows "args = [w]"
proof (cases args)
  case (Cons a rest)
  with assms show ?thesis by (cases rest) auto
qed (use assms in simp)

lemma executePrivileged_running:
  assumes "running (snd (snd (executePrivileged args se s))) \<noteq> running s"
  shows "args = [''reload''] \<or> (\<exists>n. args = [''rollback'', ''checkpoint'', n])"
proof -
  have roll: "\<exists>n. args = [''rollback'', ''checkpoint'', n]" if "length args = 3" "args ! 0 = ''rollback''" "args ! 1 = ''checkpoint''"
    using that by (cases args rule: list.exhaust; cases "tl args"; cases "tl (tl args)") auto
  have "joinWith '' '' args = ''reload'' \<or> (length args = 3 \<and> args ! 0 = ''rollback'' \<and> args ! 1 = ''checkpoint'')"
    using assms by (auto simp: executePrivileged_def executeLifecycle_def SaveStartup_def EraseStartup_def SaveCheckpoint_def Let_def split: if_splits)
  then show ?thesis using joined_single [of args "''reload''"] roll by auto
qed

text \<open>The four fault tables: of interfaces, of addresses, of masks and of the device.\<close>

definition faultTables :: "Store \<Rightarrow> _" where
  "faultTables s = (faults s, addressFaults s, prefixFaults s, deviceFaults s)"

lemma executePrivileged_faults:
  assumes "faultTables (snd (snd (executePrivileged args se s))) \<noteq> faultTables s"
  shows "\<exists>n. args = [''rollback'', ''checkpoint'', n]"
proof -
  have "length args = 3 \<and> args ! 0 = ''rollback'' \<and> args ! 1 = ''checkpoint''"
    using assms by (auto simp: faultTables_def executePrivileged_def executeLifecycle_def SaveStartup_def EraseStartup_def SaveCheckpoint_def
      ReloadStartup_def Let_def split: if_splits)
  then show ?thesis by (cases args rule: list.exhaust; cases "tl args"; cases "tl (tl args)") auto
qed

lemma changes_keep_faults:
  "faultTables (snd (UpdateIdentity f others s)) \<in> {faultTables s, faultTables (others s)}"
  "faultTables (snd (UpdateInterface n g others s)) \<in> {faultTables s, faultTables (others s)}"
  "faultTables (snd (UpdateVLAN i h others s)) \<in> {faultTables s, faultTables (others s)}"
  "faultTables (UpsertRoute r s) = faultTables s" "faultTables (EnsureVLAN i s) = faultTables s"
  "faultTables (EnsureRouter p q s) = faultTables s" "faultTables (AddRouterNetwork p q nw s) = faultTables s"
  by (simp_all add: faultTables_def op_defs setRunningNetwork_def Let_def split: option.split sum.split)

lemma changeInterface_faults: "faultTables (snd (snd (changeInterface f others se s))) \<in> {faultTables s, faultTables (others s)}"
  using changes_keep_faults(2) by (auto simp: changeInterface_def split: prod.split option.split) (metis insert_iff singletonD snd_conv)+

lemma configuring_keeps_faults:
  "faultTables (snd (snd (executeGlobal vr others args se s))) \<in> {faultTables s, faultTables (others s)}"
  "faultTables (snd (snd (executeInterface others args se s))) \<in> {faultTables s, faultTables (others s)}"
  "faultTables (snd (snd (executeVLAN others args se s))) \<in> {faultTables s, faultTables (others s)}"
  "faultTables (snd (snd (executeRouter args se s))) = faultTables s"
proof -
  let ?ok = "\<lambda>r. faultTables (snd (snd r)) \<in> {faultTables s, faultTables (others s)}"
  have "?ok (setHostname others args se s)"
    using changes_keep_faults(1) [of _ others s] by (auto simp: setHostname_def split: prod.split option.split) (metis insert_iff singletonD snd_conv)+
  then show "?ok (executeGlobal vr others args se s)"
    by (auto simp: executeGlobal_def setStaticRoute_def selectInterface_def selectVLAN_def selectRouter_def changes_keep_faults(4-) Let_def split: option.split)
  show "?ok (executeInterface others args se s)"
    using changeInterface_faults [of _ others se s] by (auto simp: executeInterface_def setInterfaceStatus_def Let_def split: option.split)
  show "?ok (executeVLAN others args se s)"
    using changes_keep_faults(3) [of _ _ others s] by (auto simp: executeVLAN_def split: prod.split option.split) (metis insert_iff singletonD snd_conv)+
  show "faultTables (snd (snd (executeRouter args se s))) = faultTables s"
    by (auto simp: executeRouter_def changes_keep_faults(4-) split: option.split)
qed

section \<open>One-shot commands\<close>

lemma rendered_start:
  "\<not> hasPrefix ''%'' (renderInterfaces is)" "\<not> hasPrefix ''%'' (renderRoutes rs)" "\<not> hasPrefix ''%'' (renderConfiguration sn)"
  "\<not> hasPrefix ''%'' (renderEvents es)"
proof -
  show "\<not> hasPrefix ''%'' (renderInterfaces is)" unfolding renderInterfaces_def by (rule trimmed_start) simp
  show "\<not> hasPrefix ''%'' (renderRoutes rs)" unfolding renderRoutes_def by (intro trimmed_start concat_start) simp
  show "\<not> hasPrefix ''%'' (renderConfiguration sn)"
    unfolding renderConfiguration_def by (rule trimmed_start) (simp add: configurationLines_def)
  show "\<not> hasPrefix ''%'' (renderEvents es)" unfolding renderEvents_def by (rule trimmed_start) simp
qed

lemma accepted_start: "\<not> hasPrefix ''%'' ''[OK]''" "\<not> hasPrefix ''%'' []" "\<not> hasPrefix ''%'' (CHR ''B'' # r)"
  by (simp_all add: hasPrefix_def)

lemma executeLifecycle_accepts: "pred_option (\<lambda>r. \<not> hasPrefix ''%'' (Output (fst r))) (executeLifecycle command se s)"
  unfolding executeLifecycle_def if_distrib [of "pred_option P" for P] option.pred_inject response_store
  by (simp add: rendered_start accepted_start)

lemma executePrivileged_refusal:
  assumes "hasPrefix ''%'' (Output (fst (executePrivileged args se s)))"
  shows "snd (snd (executePrivileged args se s)) = s"
proof (cases "executeLifecycle (joinWith '' '' args) se s")
  case None
  then show ?thesis using assms by (auto simp: executePrivileged_def RestoreCheckpoint_def accepted_start Let_def split: if_splits option.splits)
next
  case (Some r)
  then show ?thesis using assms executeLifecycle_accepts [of "joinWith '' '' args" se s]
    by (auto simp: executePrivileged_def RestoreCheckpoint_def accepted_start Let_def split: if_splits option.splits)
qed

section \<open>Cutting the shell's bytes into commands\<close>

text \<open>\<open>bufio.Scanner\<close> over a stream that arrives in chunks: the buffer, the chunks still to come, and the tokens it returns until the stream ends or the
  buffer reaches \<open>maxSSHCommandBytes\<close> without one.  Tokens that are \<open>nil\<close> only advance.\<close>

definition maxSSHCommandBytes :: nat where "maxSSHCommandBytes = 65536"

function scanTokens :: "string \<Rightarrow> string list \<Rightarrow> string list" where
  "scanTokens buf chunks =
     (case scanCLICommands buf False of
        (0, _) \<Rightarrow>
          (if maxSSHCommandBytes \<le> length buf then []
           else case chunks of
             [] \<Rightarrow> (case scanCLICommands buf True of (_, Some t) \<Rightarrow> [t] | (_, None) \<Rightarrow> [])
           | c # cs \<Rightarrow> scanTokens (buf @ c) cs)
      | (Suc n, tok) \<Rightarrow> (case tok of None \<Rightarrow> [] | Some t \<Rightarrow> [t]) @ scanTokens (drop (Suc n) buf) chunks)"
  by auto
termination
  by (relation "measures [\<lambda>(buf, chunks). length chunks, \<lambda>(buf, chunks). length buf]")
    (auto simp: scanCLICommands_def split: if_splits option.splits dest: index_of_Some)

declare scanTokens.simps [simp del]

definition terminator :: "char \<Rightarrow> bool" where
  "terminator c \<longleftrightarrow> c = CHR 0x0D \<or> c = CHR 0x0A"

text \<open>No run without a terminator is as long as the scanner's buffer; \<open>k\<close> bytes of the first run have been seen.\<close>

primrec runOk :: "nat \<Rightarrow> string \<Rightarrow> bool" where
  "runOk k [] \<longleftrightarrow> k < maxSSHCommandBytes"
| "runOk k (c # s) \<longleftrightarrow> (if terminator c then k < maxSSHCommandBytes \<and> runOk 0 s else runOk (Suc k) s)"

lemma runOk_less: "runOk k s \<Longrightarrow> k < maxSSHCommandBytes"
  by (induction s arbitrary: k) (auto split: if_splits dest: Suc_lessD)

lemma runOk_append: "(\<forall>c \<in> set a. \<not> terminator c) \<Longrightarrow> runOk k (a @ b) \<longleftrightarrow> runOk (k + length a) b"
  by (induction a arbitrary: k) auto

lemma scan_some:
  assumes "scanCLICommands buf False = (Suc n, tok)"
  shows "n < length buf" "terminator (buf ! n)" "scanCLICommands (buf @ r) False = (Suc n, tok)"
    "\<forall>c \<in> set (take n buf). \<not> terminator c"
proof -
  have front: "index_of p (xs @ ys) = Some i" if "index_of p xs = Some i" for p :: "char \<Rightarrow> bool" and xs ys i
    using that by (induction xs arbitrary: i) (auto split: if_splits)
  show "scanCLICommands (buf @ r) False = (Suc n, tok)"
  proof (cases "buf \<noteq> [] \<and> buf ! 0 = CHR 0x0A")
    case True
    then show ?thesis using assms by (auto simp: scanCLICommands_def nth_append)
  next
    case False
    then have ix: "index_of (\<lambda>c. c = CHR 0x0D \<or> c = CHR 0x0A) buf = Some n" and tok: "tok = Some (take n buf)"
      using assms by (auto simp: scanCLICommands_def split: option.splits)
    then show ?thesis using False front [OF ix, of r] index_of_Some [OF ix] by (auto simp: scanCLICommands_def nth_append)
  qed
  show "n < length buf" "terminator (buf ! n)" "\<forall>c \<in> set (take n buf). \<not> terminator c"
    using assms by (auto simp: scanCLICommands_def terminator_def in_set_conv_nth split: if_splits option.splits dest!: index_of_Some)
qed

lemma scan_none: "scanCLICommands buf False = (0, tok) \<Longrightarrow> \<forall>c \<in> set buf. \<not> terminator c"
  by (auto simp: scanCLICommands_def terminator_def index_of_None split: if_splits option.splits)

lemma scan_chunks: "runOk 0 (buf @ concat chunks) \<Longrightarrow> scanTokens buf chunks = scanTokens (buf @ concat chunks) []"
proof (induction buf chunks rule: scanTokens.induct)
  case (1 buf chunks)
  show ?case
  proof (cases "scanCLICommands buf False")
    case (Pair n tok)
    show ?thesis
    proof (cases n)
      case 0
      have "\<not> maxSSHCommandBytes \<le> length buf"
        using 1(3) scan_none [of buf tok] Pair 0 runOk_append [of buf 0 "concat chunks"] runOk_less [of "length buf"] by (auto simp: not_le)
      with 1(1) [OF Pair [symmetric]] 1(3) Pair 0 show ?thesis
        by (cases chunks) (simp_all add: scanTokens.simps [of buf])
    next
      case (Suc m)
      note sc = scan_some [OF Pair [unfolded Suc]]
      have split: "buf = take m buf @ buf ! m # drop (Suc m) buf" using sc(1) by (simp add: id_take_nth_drop)
      have "runOk 0 (take m buf @ buf ! m # (drop (Suc m) buf @ concat chunks))" using 1(3) split by (metis append.assoc append_Cons)
      then have "runOk 0 (drop (Suc m) buf @ concat chunks)" using runOk_append [OF sc(4)] sc(2) by (simp del: append_take_drop_id)
      then have "scanTokens (drop (Suc m) buf) chunks = scanTokens (drop (Suc m) (buf @ concat chunks)) []"
        using 1(2) [OF Pair [symmetric] Suc] sc(1) by simp
      then show ?thesis using Pair Suc sc(3) by (simp add: scanTokens.simps [of buf] scanTokens.simps [of "buf @ concat chunks"])
    qed
  qed
qed

lemma scan_line:
  assumes "\<forall>c \<in> set l. \<not> terminator c"
  shows "scanTokens (l @ CHR 0x0D # CHR 0x0A # r) [] = l # scanTokens r []"
proof -
  have "index_of (\<lambda>c. c = CHR 0x0D \<or> c = CHR 0x0A) (l @ CHR 0x0D # CHR 0x0A # r) = Some (length l)"
    using assms by (induction l) (auto simp: terminator_def)
  moreover have "(l @ CHR 0x0D # CHR 0x0A # r) ! 0 \<noteq> CHR 0x0A" using assms by (cases l) (auto simp: terminator_def)
  ultimately have "scanCLICommands (l @ CHR 0x0D # CHR 0x0A # r) False = (Suc (length l), Some l)" by (simp add: scanCLICommands_def)
  moreover have "scanCLICommands (CHR 0x0A # r) False = (Suc 0, None)" by (simp add: scanCLICommands_def)
  ultimately show ?thesis by (simp add: scanTokens.simps [of "l @ CHR 0x0D # CHR 0x0A # r"] scanTokens.simps [of "CHR 0x0A # r"])
qed

lemma scan_lines: "(\<forall>l \<in> set ls. \<forall>c \<in> set l. \<not> terminator c) \<Longrightarrow> scanTokens (concat (map (\<lambda>l. l @ [CHR 0x0D, CHR 0x0A]) ls)) [] = ls"
  by (induction ls) (simp_all add: scan_line, simp add: scanTokens.simps scanCLICommands_def maxSSHCommandBytes_def)

lemma runOk_lines:
  "(\<forall>l \<in> set ls. length l < maxSSHCommandBytes \<and> (\<forall>c \<in> set l. \<not> terminator c)) \<Longrightarrow> runOk 0 (concat (map (\<lambda>l. l @ [CHR 0x0D, CHR 0x0A]) ls))"
  by (induction ls) (auto simp: runOk_append terminator_def maxSSHCommandBytes_def)

section \<open>What command sessions guarantee\<close>

text \<open>C4 (cli_sessions_sound): from any sound store and freshly opened sessions, take any interleaving of the commands of any number
  of sessions with operations of others on the store, both between commands and inside one, where it has released the lock
  between reading and writing; the others' operations are \<open>permitted\<close> (versions do not run out, stations name the device's
  interfaces) and install no network.  Then the store stays sound (its durable record is one the restore path accepts), a
  session configuring an interface names one of the device's interfaces, one configuring a VLAN or a router process has a
  legal identifier, and a command given in interface mode answers that the interface update failed only if the operations
  of others in its gap left another version of the store than the one it read.\<close>

theorem cli_sessions_sound:
  assumes "store_inv s" "run_ok (cliStep vr) cliOk xs (\<lambda>_. NewSession, s)" "run_ops (cliStep vr) xs (\<lambda>_. NewSession, s) = (ses, t)"
  shows "store_inv t \<and> ValidateState (ExportState t) t = None \<and> session_ok (names_of (authored t)) (ses k) \<and>
    (seMode (ses k) = ModeInterfaceConfig \<and> gapRun gap t \<and>
       Output (fst (Execute vr (run_ops step gap) line (ses k) t)) = ''% Interface update failed'' \<longrightarrow>
     version (run_ops step gap t) \<noteq> version t)"
proof -
  have "cli_inv (\<lambda>_. NewSession, s)" using assms(1) by (simp add: cli_inv_def)
  from cli.run_inv [OF this assms(2)] have inv: "cli_inv (ses, t)" by (simp add: assms(3))
  then have t: "store_inv t" "session_ok (names_of (authored t)) (ses k)" by (simp_all add: cli_inv_def)
  then show ?thesis
    using interface_command_succeeds [OF inv _ gapRun_ok [OF t(1)], of k gap vr line] export_valid [OF _ refl]
    by (auto simp: ValidateState_def)
qed

definition sampleScript :: "deviceEvent list" where
  "sampleScript = [Command 1 ''enable'' [], Command 1 ''conf t'' [], Command 1 ''interface e0'' []]"

theorem cli_sessions_sound_witness:
  "\<exists>ses t. run_ops (cliStep None) sampleScript (\<lambda>_. NewSession, sampleStore) = (ses, t) \<and> seInterfaceName (ses 1) = ''e0'' \<and>
     session_ok (names_of (authored t)) (ses 1) \<and> Output (fst (Execute None (run_ops step []) ''shutdown'' (ses 1) t)) \<noteq> ''% Interface update failed''"
proof -
  have f: "Fields ''enable'' = [''enable'']" "Fields ''conf t'' = [''conf'', ''t'']" "Fields ''interface e0'' = [''interface'', ''e0'']"
    and c: "cutSuffix ''?'' (trimSpace ''enable'') = None" "cutSuffix ''?'' (trimSpace ''conf t'') = None"
      "cutSuffix ''?'' (trimSpace ''interface e0'') = None"
    by code_simp+
  let ?ses = "(\<lambda>_. NewSession)(1 := NewSession\<lparr>seMode := ModeInterfaceConfig, seInterfaceName := ''e0''\<rparr>)"
  have "hasInterface (nwInterfaces (snNetwork (storeSnapshot sampleStore))) ''e0''" using hasInterface_names [OF sampleStore_inv] by simp
  note eval = Execute_def f c executeUser_def executePrivileged_def executeLifecycle_def executeGlobal_def selectInterface_def enter_def NewSession_def this
  have run: "run_ops (cliStep None) sampleScript (\<lambda>_. NewSession, sampleStore) = (?ses, sampleStore)"
    by (simp add: sampleScript_def eval)
  have ok: "run_ok (cliStep None) cliOk sampleScript (\<lambda>_. NewSession, sampleStore)" by (simp add: sampleScript_def gapRun_def eval)
  show ?thesis
    using cli_sessions_sound [OF sampleStore_inv ok run, of 1 "[]" "''shutdown''"] run
    by (auto simp: NewSession_def gapRun_def)
qed

text \<open>C29 (cli_authority): a command given in user mode changes nothing; the running configuration changes only in a configuration mode, by
  \<open>reload\<close>, or by rolling back to a checkpoint; and except by rolling back to a checkpoint no command changes the fault
  tables, of interfaces, addresses, masks or the device: after it they are those it found, or those the operations of others in its gap left.\<close>

theorem cli_authority:
  "(seMode se = ModeUser \<longrightarrow> snd (snd (Execute vr others line se s)) = s) \<and>
   (running (snd (snd (Execute vr others line se s))) \<noteq> running s \<longrightarrow>
      seMode se \<in> {ModeGlobalConfig, ModeInterfaceConfig, ModeVLANConfig, ModeRouterConfig} \<or>
      seMode se = ModePrivileged \<and> (Fields line = [''reload''] \<or> (\<exists>n. Fields line = [''rollback'', ''checkpoint'', n]))) \<and>
   (faultTables (snd (snd (Execute vr others line se s))) \<notin> {faultTables s, faultTables (others s)} \<longrightarrow>
      seMode se = ModePrivileged \<and> (\<exists>n. Fields line = [''rollback'', ''checkpoint'', n]))"
  using executePrivileged_running [of "Fields line" se s] executePrivileged_faults [of "Fields line" se s]
    configuring_keeps_faults(1) [of vr others "Fields line" se s] configuring_keeps_faults(2,3) [of others "Fields line" se s]
    configuring_keeps_faults(4) [of "Fields line" se s]
  by (cases "seMode se") (auto simp: Execute_def Let_def split: option.split)

theorem cli_authority_witness:
  "running (snd (snd (Execute None (\<lambda>x. x) ''write memory'' (NewSession\<lparr>seMode := ModePrivileged\<rparr>) sampleStore))) = running sampleStore"
proof -
  have f: "Fields ''write memory'' = [''write'', ''memory'']" by code_simp
  show ?thesis using cli_authority [of "NewSession\<lparr>seMode := ModePrivileged\<rparr>" None "\<lambda>x. x" "''write memory''" sampleStore] by (auto simp: f)
qed

text \<open>A one-shot command that reports failure has written nothing to the standard output and has left the
  store exactly as it was.\<close>

theorem exec_refusal:
  assumes "serveExec vr others command s = ((code, out, err), t)" "code \<noteq> 0"
  shows "t = s \<and> out = []"
proof -
  let ?r = "Execute vr others command (NewSession\<lparr>seMode := ModePrivileged\<rparr>) s"
  have pct: "hasPrefix ''%'' (Output (fst ?r))" and t: "t = snd (snd ?r)" and out: "out = []"
    using assms by (auto simp: serveExec_def Let_def split: prod.splits if_splits)
  have "snd (snd ?r) = s"
    using pct executePrivileged_refusal helpText_start by (auto simp: Execute_def Let_def accepted_start split: option.splits if_splits)
  then show ?thesis using t out by simp
qed

theorem exec_refusal_witness: "snd (serveExec None (\<lambda>x. x) ''rollback checkpoint none'' sampleStore) = sampleStore"
proof -
  have "fst (fst (serveExec None (\<lambda>x. x) ''rollback checkpoint none'' sampleStore)) \<noteq> 0" by code_simp
  then show ?thesis using exec_refusal [of None "\<lambda>x. x" "''rollback checkpoint none''" sampleStore] by (metis prod.collapse)
qed

text \<open>However the bytes of a shell session are split into packets, lines ended by a carriage return and a line feed are executed exactly
  as they were sent, empty ones included, as long as each is shorter than the scanner's buffer.\<close>

theorem shell_lines:
  assumes "\<forall>l \<in> set ls. length l < maxSSHCommandBytes \<and> (\<forall>c \<in> set l. \<not> terminator c)"
    and "concat chunks = concat (map (\<lambda>l. l @ [CHR 0x0D, CHR 0x0A]) ls)"
  shows "scanTokens [] chunks = ls"
  using scan_chunks [of "[]" chunks] runOk_lines [OF assms(1)] scan_lines [of ls] assms by simp

theorem shell_lines_witness: "scanTokens [] [''ena'', ''ble'' @ [CHR 0x0D], [CHR 0x0A, CHR 0x0D], [CHR 0x0A]] = [''enable'', []]"
  by (rule shell_lines) (simp_all add: maxSSHCommandBytes_def terminator_def)

end
