(* ===== verification/Cli_Replay.thy ===== *)
theory Cli_Replay
  imports Cli_Props
begin

text \<open>
  The running configuration as a script.  \<open>configScript\<close> cuts the text that \<open>show running-config\<close> answers into lines and keeps the hostname
  line and the interface blocks, with \<open>exit\<close> in the place of the \<open>!\<close> that closes a block (a session answers \<open>!\<close> with an error).  Given to a
  session in configuration mode, these lines are all accepted and rebuild the name, description, address and administrative state of every
  interface on a device that has none of them yet.
\<close>

section \<open>Reading words back\<close>

definition plainChar :: "char \<Rightarrow> bool" where
  "plainChar c \<longleftrightarrow> byteIn 33 126 c"

text \<open>A word of printable ASCII characters that does not end in a question mark, which would ask for help.\<close>

definition word :: "string \<Rightarrow> bool" where
  "word w \<longleftrightarrow> w \<noteq> [] \<and> list_all plainChar w \<and> last w \<noteq> CHR ''?''"

lemma unicode_high: "p \<in> set unicodeSpaces \<Longrightarrow> p \<noteq> [] \<and> (\<forall>c \<in> set p. \<not> plainChar c \<and> c \<noteq> CHR '' '')"
  by (auto simp: unicodeSpaces_def plainChar_def byteIn_def)

lemma plain_not_space: "plainChar c \<Longrightarrow> \<not> isSpace c"
  by (auto simp: plainChar_def byteIn_def isSpace_def Let_def)

lemma spaceAmong_plain:
  assumes "plainChar c" "\<And>p. p \<in> set seqs \<Longrightarrow> p \<noteq> [] \<and> (\<forall>x \<in> set p. \<not> plainChar x)"
  shows "spaceAmong seqs (c # s) = 0"
proof -
  have "\<not> hasPrefix p (c # s)" if "p \<in> set seqs" for p using assms(2) [OF that] assms(1) by (cases p) (auto simp: hasPrefix_def)
  then have "find (\<lambda>p. hasPrefix p (c # s)) seqs = None" by (auto simp: find_None_iff)
  then show ?thesis using plain_not_space [OF assms(1)] by (simp add: spaceAmong_def)
qed

lemma spaceAt_plain [simp]: "plainChar c \<Longrightarrow> spaceAt (c # s) = 0"
  unfolding spaceAt_def using unicode_high by (intro spaceAmong_plain) auto

lemma spaceAt_space [simp]: "spaceAt (CHR '' '' # s) = 1"
  by (simp add: spaceAt_def spaceAmong_def isSpace_def)

lemma fieldsLoop_plain: "list_all plainChar w \<Longrightarrow> fieldsLoop cur (w @ s) = fieldsLoop (cur @ w) s"
  by (induction w arbitrary: cur) auto

lemma fieldsLoop_words: "list_all word (w # ws) \<Longrightarrow> fieldsLoop [] (joinWith '' '' (w # ws)) = w # ws"
proof (induction ws arbitrary: w)
  case Nil
  then show ?case using fieldsLoop_plain [of w "[]" "[]"] by (simp add: word_def)
next
  case (Cons v vs)
  have "fieldsLoop [] (joinWith '' '' (w # v # vs)) = fieldsLoop w (CHR '' '' # joinWith '' '' (v # vs))"
    using Cons.prems fieldsLoop_plain [of w "[]"] by (simp add: word_def)
  then show ?case using Cons by (simp add: word_def)
qed

lemma Fields_words: "list_all word ws \<Longrightarrow> ws \<noteq> [] \<Longrightarrow> Fields (joinWith '' '' ws) = ws"
  using fieldsLoop_words by (cases ws) (auto simp: Fields_def)

lemma Fields_indent: "Fields (CHR '' '' # s) = Fields s"
  by (simp add: Fields_def)

lemma trimFront_suffix: "\<exists>p. s = p @ trimFront seqs s"
proof (induction seqs s rule: trimFront.induct)
  case (1 seqs s)
  show ?case
  proof (cases "spaceAmong seqs s = 0")
    case True
    then show ?thesis by (simp add: trimFront.simps [of seqs s])
  next
    case False
    with 1 obtain p where "drop (spaceAmong seqs s) s = p @ trimFront seqs (drop (spaceAmong seqs s) s)" by blast
    then have "s = (take (spaceAmong seqs s) s @ p) @ trimFront seqs (drop (spaceAmong seqs s) s)" by (metis append.assoc append_take_drop_id)
    moreover have "trimFront seqs s = trimFront seqs (drop (spaceAmong seqs s) s)" using False by (simp add: trimFront.simps [of seqs s])
    ultimately show ?thesis by metis
  qed
qed

lemma no_help:
  assumes "plainChar (last line)" "last line \<noteq> CHR ''?''"
  shows "cutSuffix ''?'' (trimSpace line) = None"
proof -
  define front where "front = trimFront unicodeSpaces line"
  obtain p where p: "line = p @ front" using trimFront_suffix unfolding front_def by blast
  show ?thesis
  proof (cases "rev front")
    case Nil
    moreover have "trimFront seqs [] = []" for seqs by (subst trimFront.simps) (simp add: spaceAmong_def)
    ultimately show ?thesis by (simp add: trimSpace_def cutSuffix_def hasPrefix_def flip: front_def)
  next
    case (Cons c r)
    then have "front = rev r @ [c]" by (metis rev.simps(2) rev_rev_ident)
    then have c: "c = last line" using p by simp
    have "spaceAmong (map rev unicodeSpaces) (c # r) = 0"
    proof (rule spaceAmong_plain)
      show "plainChar c" using assms(1) c by simp
      show "q \<noteq> [] \<and> (\<forall>x \<in> set q. \<not> plainChar x)" if "q \<in> set (map rev unicodeSpaces)" for q
        using that unicode_high by (metis imageE list.set_map rev_is_Nil_conv set_rev)
    qed
    then have "trimFront (map rev unicodeSpaces) (c # r) = c # r" by (subst trimFront.simps) simp
    then show ?thesis using Cons assms(2) c by (simp add: trimSpace_def cutSuffix_def hasPrefix_def flip: front_def)
  qed
qed

lemma last_join: "ws \<noteq> [] \<Longrightarrow> last ws \<noteq> [] \<Longrightarrow> last (joinWith '' '' ws) = last (last ws)"
proof (induction ws)
  case (Cons x ws)
  show ?case
  proof (cases ws)
    case (Cons y ys)
    then have "last (joinWith '' '' ws) = last (last ws)" "joinWith '' '' ws \<noteq> []" using Cons.IH Cons.prems by (cases ys; auto)+
    then show ?thesis using Cons by (simp add: last_append)
  qed simp
qed simp

lemma word_last: "list_all word ws \<Longrightarrow> ws \<noteq> [] \<Longrightarrow> plainChar (last (joinWith '' '' ws)) \<and> last (joinWith '' '' ws) \<noteq> CHR ''?''"
  using last_join [of ws] by (metis last_in_set list_all_iff word_def)

text \<open>A line of words, perhaps indented, is executed as its words in the session's mode.\<close>

lemma Execute_words:
  assumes "list_all word ws" "ws \<noteq> []" "line = joinWith '' '' ws \<or> line = CHR '' '' # joinWith '' '' ws"
  shows "Execute vr others line se s =
    (case seMode se of ModeUser \<Rightarrow> executeUser ws se s | ModePrivileged \<Rightarrow> executePrivileged ws se s
     | ModeGlobalConfig \<Rightarrow> executeGlobal vr others ws se s | ModeInterfaceConfig \<Rightarrow> executeInterface others ws se s
     | ModeVLANConfig \<Rightarrow> executeVLAN others ws se s | ModeRouterConfig \<Rightarrow> executeRouter ws se s)"
proof -
  have "joinWith '' '' ws \<noteq> []" using assms(1,2) by (cases ws; cases "tl ws") (auto simp: word_def)
  then have "last line = last (joinWith '' '' ws)" using assms(3) by auto
  then have "cutSuffix ''?'' (trimSpace line) = None" using word_last [OF assms(1,2)] no_help [of line] by simp
  moreover have "Fields line = ws" using assms Fields_words Fields_indent by metis
  ultimately show ?thesis using assms(2) by (simp add: Execute_def)
qed

section \<open>Replaying a block\<close>

fun paste :: "(Route \<Rightarrow> bool) option \<Rightarrow> string list \<Rightarrow> Session \<Rightarrow> Store \<Rightarrow> string list \<times> Session \<times> Store" where
  "paste vr [] se t = ([], se, t)"
| "paste vr (l # ls) se t =
     (let (r, se', t') = Execute vr (\<lambda>x. x) l se t; (outs, end) = paste vr ls se' t' in (Output r # outs, end))"

text \<open>Every line was accepted without a word, and \<open>(se', t')\<close> is where the session and the store end up.\<close>

definition accepted :: "(Route \<Rightarrow> bool) option \<Rightarrow> string list \<Rightarrow> Session \<Rightarrow> Store \<Rightarrow> Session \<Rightarrow> Store \<Rightarrow> bool" where
  "accepted vr ls se t se' t' \<longleftrightarrow> paste vr ls se t = (replicate (length ls) [], se', t')"

lemma accepted_Nil: "accepted vr [] se t se t"
  by (simp add: accepted_def)

lemma accepted_append: "accepted vr as se t se' t' \<Longrightarrow> accepted vr bs se' t' se'' t'' \<Longrightarrow> accepted vr (as @ bs) se t se'' t''"
  unfolding accepted_def
proof (induction "as" arbitrary: se t)
  case (Cons a as)
  then show ?case by (cases "Execute vr (\<lambda>x. x) a se t") (auto simp: Let_def split: prod.splits)
qed simp

lemma accepted_line: "Execute vr (\<lambda>x. x) l se t = (\<lparr>Output = [], Close = b\<rparr>, se', t') \<Longrightarrow> accepted vr [l] se t se' t'"
  by (simp add: accepted_def)

lemma index_of_name: "distinct (map ifName is) \<Longrightarrow> k < length is \<Longrightarrow> index_of (\<lambda>i. ifName i = ifName (is ! k)) is = Some k"
proof (induction "is" arbitrary: k)
  case (Cons i "is")
  then show ?case by (cases k) (auto simp: nth_mem image_iff)
qed simp

lemma map_update_same: "k < length xs \<Longrightarrow> f y = f (xs ! k) \<Longrightarrow> map f (xs[k := y]) = map f xs"
  by (simp add: map_update) (metis length_map list_update_id nth_map)

text \<open>What replaying a line has to keep: the other interfaces, the names and the hostname.\<close>

definition interfaceAt :: "nat \<Rightarrow> Interface \<Rightarrow> Store \<Rightarrow> Store \<Rightarrow> bool" where
  "interfaceAt k r t t' \<longleftrightarrow> runningInterfaces t' = (runningInterfaces t)[k := r] \<and> cfIdentity (running t') = cfIdentity (running t)"

lemma changeInterface_at:
  assumes "distinct (map ifName (runningInterfaces t))" "k < length (runningInterfaces t)" "seInterfaceName se = ifName (runningInterfaces t ! k)"
    and "\<And>i. ifName (f i) = ifName i"
  shows "\<exists>t'. changeInterface f (\<lambda>x. x) se t = (\<lparr>Output = [], Close = False\<rparr>, se, t') \<and> interfaceAt k (f (runningInterfaces t ! k)) t t'"
proof -
  have "index_of (\<lambda>i. ifName i = seInterfaceName se) (runningInterfaces t) = Some k" using index_of_name [OF assms(1,2)] assms(3) by simp
  then obtain t' where "UpdateInterface (seInterfaceName se) (\<lambda>i. Inr (f i)) (\<lambda>x. x) t = (None, t')"
    and "runningInterfaces t' = (runningInterfaces t)[k := f (runningInterfaces t ! k)]" "cfIdentity (running t') = cfIdentity (running t)"
    using assms(2,4) by (simp add: UpdateInterface_def cloneInterface_def setRunningNetwork_def Let_def)
  then show ?thesis by (simp add: changeInterface_def say_def interfaceAt_def)
qed

lemma interfaceAt_trans: "interfaceAt k r t t' \<Longrightarrow> interfaceAt k r' t' t'' \<Longrightarrow> interfaceAt k r' t t''"
  by (simp add: interfaceAt_def)

definition inInterface :: "string list \<Rightarrow> nat \<Rightarrow> Session \<Rightarrow> Store \<Rightarrow> bool" where
  "inInterface names k se t \<longleftrightarrow> map ifName (runningInterfaces t) = names \<and> distinct names \<and> k < length names \<and>
     seMode se = ModeInterfaceConfig \<and> seInterfaceName se = names ! k"

lemma optional_line:
  assumes "inInterface names k se t" "\<And>i. ifName (f i) = ifName i"
    and "c \<Longrightarrow> Execute vr (\<lambda>x. x) l se t = changeInterface f (\<lambda>x. x) se t"
  shows "\<exists>t'. accepted vr (if c then [l] else []) se t se t' \<and> inInterface names k se t' \<and>
    interfaceAt k (if c then f (runningInterfaces t ! k) else runningInterfaces t ! k) t t'"
proof (cases c)
  case True
  have k: "distinct (map ifName (runningInterfaces t))" "k < length (runningInterfaces t)" "seInterfaceName se = ifName (runningInterfaces t ! k)"
    using assms(1) by (auto simp: inInterface_def)
  obtain t' where t': "changeInterface f (\<lambda>x. x) se t = (\<lparr>Output = [], Close = False\<rparr>, se, t')" "interfaceAt k (f (runningInterfaces t ! k)) t t'"
    using changeInterface_at [OF k assms(2)] by blast
  moreover have "inInterface names k se t'"
    using assms(1,2) k(2) t'(2) by (auto simp: inInterface_def interfaceAt_def map_update_same)
  moreover have "accepted vr [l] se t se t'" using True assms(3) t'(1) by (intro accepted_line [where b = False]) simp
  ultimately show ?thesis using True by auto
next
  case False
  then show ?thesis using assms(1) accepted_Nil by (auto simp: interfaceAt_def intro!: exI [of _ t])
qed

definition interfaceScript :: "Interface \<Rightarrow> string list" where
  "interfaceScript i = butlast (interfaceLines i) @ [''exit'']"

definition ifView :: "Interface \<Rightarrow> string \<times> string \<times> Prefix \<times> bool" where
  "ifView i = (ifName i, ifDescription i, ifAddress i, ifAdminUp i)"

text \<open>The description is empty or words separated by single spaces; the address is absent or IPv4.\<close>

definition replayable :: "Interface \<Rightarrow> bool" where
  "replayable i \<longleftrightarrow> word (ifName i) \<and>
     (ifDescription i = [] \<or> (\<exists>ws. ws \<noteq> [] \<and> list_all word ws \<and> ifDescription i = joinWith '' '' ws)) \<and>
     (ifAddress i = noPrefix \<or> (\<exists>a n. ifAddress i = Prefix (V4 a) n \<and> 0 \<le> n \<and> n \<le> 32))"

definition unconfigured :: "Interface \<Rightarrow> bool" where
  "unconfigured i \<longleftrightarrow> ifDescription i = [] \<and> ifAddress i = noPrefix \<and> ifAdminUp i"

lemma keyword_words [simp]:
  "word ''interface''" "word ''show''" "word ''running-config''" "word ''description''" "word ''ip''" "word ''address''" "word ''shutdown''" "word ''exit''" "word ''hostname''"
  by (simp_all add: word_def plainChar_def byteIn_def)

lemma digits_plain: "list_all plainChar (nat_digits n) \<and> last (nat_digits n) \<noteq> CHR ''?''"
proof -
  have "plainChar (digit k) \<and> digit k \<noteq> CHR ''?''" if "k < 10" for k
  proof -
    have "k \<in> {0, 1, 2, 3, 4, 5, 6, 7, 8, 9}" using that by auto
    then show ?thesis by (auto simp: digit_def plainChar_def byteIn_def)
  qed
  then have "\<forall>c \<in> set (nat_digits n). plainChar c \<and> c \<noteq> CHR ''?''" using nat_digits_set [of n] by fastforce
  then show ?thesis by (simp add: list_all_iff)
qed

lemma prefix_word: "0 \<le> n \<Longrightarrow> word (prefixString (Prefix (V4 a) n))"
proof -
  assume n: "0 \<le> n"
  have "list_all plainChar (dotted a)" using digits_plain by (simp add: dotted_def plainChar_def byteIn_def)
  then show ?thesis using n digits_plain [of "nat n"] by (simp add: word_def prefixString_def prefixIsValid_def itoa_def plainChar_def byteIn_def)
qed

lemma join_cons: "ws \<noteq> [] \<Longrightarrow> joinWith '' '' (w # ws) = w @ '' '' @ joinWith '' '' ws"
  by (cases ws) auto

lemma interface_block:
  assumes names: "map ifName (runningInterfaces t) = names" "distinct names" "k < length names" "ifName i = names ! k"
    and fresh: "unconfigured (runningInterfaces t ! k)" and ok: "replayable i" and mode: "seMode se = ModeGlobalConfig"
  shows "\<exists>se' t' r. accepted vr (interfaceScript i) se t se' t' \<and> seMode se' = ModeGlobalConfig \<and> interfaceAt k r t t' \<and> ifView r = ifView i"
proof -
  let ?se = "se\<lparr>seInterfaceName := ifName i, seMode := ModeInterfaceConfig\<rparr>" and ?r = "runningInterfaces t ! k"
  have klen: "k < length (runningInterfaces t)" using names(1,3) by auto
  have nm: "word (ifName i)" using ok by (simp add: replayable_def)
  have has: "hasInterface (nwInterfaces (snNetwork (storeSnapshot t))) (ifName i)"
  proof -
    have "map ifName (nwInterfaces (snNetwork (storeSnapshot t))) = names"
      using names(1) by (simp add: storeSnapshot_def snapshot_def Let_def)
    then have "ifName i \<in> ifName ` set (nwInterfaces (snNetwork (storeSnapshot t)))" using names(3,4) nth_mem [of k names] by (metis set_map)
    then show ?thesis by (auto simp: hasInterface_def list_ex_iff)
  qed
  have "Execute vr (\<lambda>x. x) (''interface '' @ ifName i) se t = (\<lparr>Output = [], Close = False\<rparr>, ?se, t)"
    using Execute_words [of "[''interface'', ifName i]"] nm mode has by (simp add: executeGlobal_def selectInterface_def enter_def)
  then have head: "accepted vr [''interface '' @ ifName i] se t ?se t" by (rule accepted_line)
  have in0: "inInterface names k ?se t" using names by (simp add: inInterface_def)
  have mode1: "seMode ?se = ModeInterfaceConfig" by simp
  have keep: "ifName (x\<lparr>ifDescription := d\<rparr>) = ifName x" "ifName (x\<lparr>ifAddress := p\<rparr>) = ifName x"
    "ifName (x\<lparr>ifAdminUp := False, ifOperUp := False\<rparr>) = ifName x" for x :: Interface and d p by simp_all
  have desc: "Execute vr (\<lambda>x. x) ('' description '' @ ifDescription i) ?se u = changeInterface (\<lambda>x. x\<lparr>ifDescription := ifDescription i\<rparr>) (\<lambda>x. x) ?se u"
    if "ifDescription i \<noteq> []" for u
  proof -
    obtain ws where ws: "ws \<noteq> []" "list_all word ws" "ifDescription i = joinWith '' '' ws" using ok \<open>ifDescription i \<noteq> []\<close> by (auto simp: replayable_def)
    show ?thesis using Execute_words [of "''description'' # ws" "'' description '' @ ifDescription i" vr "\<lambda>x. x" ?se u] ws mode1
      by (cases ws) (auto simp: join_cons executeInterface_def)
  qed
  obtain t1 where t1: "accepted vr (if ifDescription i \<noteq> [] then ['' description '' @ ifDescription i] else []) ?se t ?se t1" "inInterface names k ?se t1"
      "interfaceAt k (if ifDescription i \<noteq> [] then ?r\<lparr>ifDescription := ifDescription i\<rparr> else ?r) t t1"
    using optional_line [OF in0 keep(1) desc] by blast
  have addr: "Execute vr (\<lambda>x. x) ('' ip address '' @ prefixString (ifAddress i)) ?se u = changeInterface (\<lambda>x. x\<lparr>ifAddress := ifAddress i\<rparr>) (\<lambda>x. x) ?se u"
    if "prefixIsValid (ifAddress i)" for u
  proof -
    obtain a n where p: "ifAddress i = Prefix (V4 a) n" "0 \<le> n" "n \<le> 32"
      using ok \<open>prefixIsValid (ifAddress i)\<close> by (auto simp: replayable_def noPrefix_def prefixIsValid_def)
    show ?thesis using Execute_words [of "[''ip'', ''address'', prefixString (ifAddress i)]" "'' ip address '' @ prefixString (ifAddress i)" vr "\<lambda>x. x" ?se u]
        prefix_word [OF p(2)] ParsePrefix4_string [OF p(2,3)] mode1 p(1) by (simp add: executeInterface_def)
  qed
  obtain t2 where t2: "accepted vr (if prefixIsValid (ifAddress i) then ['' ip address '' @ prefixString (ifAddress i)] else []) ?se t1 ?se t2"
      "inInterface names k ?se t2"
      "interfaceAt k (if prefixIsValid (ifAddress i) then (runningInterfaces t1 ! k)\<lparr>ifAddress := ifAddress i\<rparr> else runningInterfaces t1 ! k) t1 t2"
    using optional_line [OF t1(2) keep(2) addr] by blast
  have down: "Execute vr (\<lambda>x. x) '' shutdown'' ?se u = changeInterface (\<lambda>x. x\<lparr>ifAdminUp := False, ifOperUp := False\<rparr>) (\<lambda>x. x) ?se u" for u
    using Execute_words [of "[''shutdown'']" "'' shutdown''" vr "\<lambda>x. x" ?se u] mode1 by (simp add: executeInterface_def setInterfaceStatus_def)
  obtain t3 where t3: "accepted vr (if \<not> ifAdminUp i then ['' shutdown''] else []) ?se t2 ?se t3" "inInterface names k ?se t3"
      "interfaceAt k (if \<not> ifAdminUp i then (runningInterfaces t2 ! k)\<lparr>ifAdminUp := False, ifOperUp := False\<rparr> else runningInterfaces t2 ! k) t2 t3"
    using optional_line [OF t2(2) keep(3) down] by blast
  have "Execute vr (\<lambda>x. x) ''exit'' ?se t3 = (\<lparr>Output = [], Close = False\<rparr>, ?se\<lparr>seMode := ModeGlobalConfig\<rparr>, t3)"
    using Execute_words [of "[''exit'']" "''exit''" vr "\<lambda>x. x" ?se t3] mode1 by (simp add: executeInterface_def enter_def)
  then have tail: "accepted vr [''exit''] ?se t3 (?se\<lparr>seMode := ModeGlobalConfig\<rparr>) t3" by (rule accepted_line)
  have all: "accepted vr (interfaceScript i) se t (?se\<lparr>seMode := ModeGlobalConfig\<rparr>) t3"
    using accepted_append [OF head accepted_append [OF t1(1) accepted_append [OF t2(1) accepted_append [OF t3(1) tail]]]]
    by (simp add: interfaceScript_def interfaceLines_def butlast_append)
  have at: "interfaceAt k (runningInterfaces t3 ! k) t t3" and view: "ifView (runningInterfaces t3 ! k) = ifView i"
    using t1(3) t2(3) t3(3) klen fresh ok names(1,3,4)
    by (auto simp: interfaceAt_def ifView_def unconfigured_def replayable_def noPrefix_def prefixIsValid_def)
  show ?thesis by (rule exI [of _ "?se\<lparr>seMode := ModeGlobalConfig\<rparr>"], rule exI [of _ t3], rule exI [of _ "runningInterfaces t3 ! k"]) (use all at view in simp)
qed

section \<open>Replaying a configuration\<close>

lemma replay_interfaces:
  assumes "map ifName (runningInterfaces t) = map ifName (xs @ is)" "distinct (map ifName (xs @ is))" "list_all replayable is"
    and "list_all unconfigured (drop (length xs) (runningInterfaces t))" "seMode se = ModeGlobalConfig"
  shows "\<exists>se' t'. accepted vr (concat (map interfaceScript is)) se t se' t' \<and> cfIdentity (running t') = cfIdentity (running t) \<and>
    take (length xs) (runningInterfaces t') = take (length xs) (runningInterfaces t) \<and>
    map ifView (drop (length xs) (runningInterfaces t')) = map ifView is \<and> seMode se' = ModeGlobalConfig"
  using assms
proof (induction "is" arbitrary: xs t se)
  case Nil
  have "length (runningInterfaces t) = length xs" using arg_cong [OF Nil.prems(1), of length] by simp
  then show ?case using accepted_Nil Nil.prems(5) by (intro exI [of _ se] exI [of _ t]) simp
next
  case (Cons i "is")
  let ?k = "length xs"
  have len: "length (runningInterfaces t) = Suc (?k + length is)" using arg_cong [OF Cons.prems(1), of length] by simp
  then have at: "drop ?k (runningInterfaces t) = runningInterfaces t ! ?k # drop (Suc ?k) (runningInterfaces t)" by (simp add: Cons_nth_drop_Suc)
  have nm: "ifName i = map ifName (xs @ i # is) ! ?k" by (simp add: nth_append)
  obtain se1 t1 r where b: "accepted vr (interfaceScript i) se t se1 t1" "seMode se1 = ModeGlobalConfig" "interfaceAt ?k r t t1" "ifView r = ifView i"
    using interface_block [OF Cons.prems(1,2) _ nm _ _ Cons.prems(5), of vr] Cons.prems(3,4) at by auto
  have ri: "runningInterfaces t1 = (runningInterfaces t)[?k := r]" using b(3) by (simp add: interfaceAt_def)
  have rn: "ifName r = ifName i" using b(4) by (simp add: ifView_def)
  have "map ifName (runningInterfaces t1) = (map ifName (xs @ i # is))[?k := ifName i]" unfolding ri map_update Cons.prems(1) rn ..
  then have names: "map ifName (runningInterfaces t1) = map ifName ((xs @ [i]) @ is)" by (simp add: list_update_append)
  have "list_all unconfigured (drop (length (xs @ [i])) (runningInterfaces t1))" using Cons.prems(4) at ri by simp
  with Cons.IH [of t1 "xs @ [i]" se1] names Cons.prems(2,3) b(2)
  obtain se2 t2 where c: "accepted vr (concat (map interfaceScript is)) se1 t1 se2 t2" "cfIdentity (running t2) = cfIdentity (running t1)"
    "take (Suc ?k) (runningInterfaces t2) = take (Suc ?k) (runningInterfaces t1)"
    "map ifView (drop (Suc ?k) (runningInterfaces t2)) = map ifView is" "seMode se2 = ModeGlobalConfig"
    by auto
  have len2: "?k < length (runningInterfaces t2)"
    using arg_cong [OF c(3), of length] ri len by (simp add: min_def split: if_splits)
  have rk: "runningInterfaces t2 ! ?k = r"
    using arg_cong [OF c(3), of "\<lambda>l. l ! ?k"] ri len by simp
  have "take ?k (runningInterfaces t2) = take ?k (runningInterfaces t)"
    using arg_cong [OF c(3), of "take ?k"] ri by (simp add: min_def)
  moreover have "map ifView (drop ?k (runningInterfaces t2)) = map ifView (i # is)"
    using Cons_nth_drop_Suc [OF len2] c(4) rk b(4) by (metis list.simps(9))
  moreover have "cfIdentity (running t2) = cfIdentity (running t)" using c(2) b(3) by (simp add: interfaceAt_def)
  moreover have "accepted vr (concat (map interfaceScript (i # is))) se t se2 t2" using accepted_append [OF b(1) c(1)] by simp
  ultimately show ?case using c(5) by blast
qed

text \<open>The printed text as lines, and the lines of it that are replayed; the flag says that the line before was in an interface block.\<close>

fun linesOf :: "string \<Rightarrow> string list" where
  "linesOf [] = [[]]"
| "linesOf (c # s) = (if c = CHR 0x0A then [] # linesOf s else (case linesOf s of [] \<Rightarrow> [[c]] | l # ls \<Rightarrow> (c # l) # ls))"

fun scriptOf :: "bool \<Rightarrow> string list \<Rightarrow> string list" where
  "scriptOf inside [] = []"
| "scriptOf True (l # ls) = (if l = ''!'' then ''exit'' # scriptOf False ls else l # scriptOf True ls)"
| "scriptOf False (l # ls) =
     (if hasPrefix ''hostname '' l then l # scriptOf False ls
      else if hasPrefix ''interface '' l then l # scriptOf True ls else scriptOf False ls)"

definition configScript :: "string \<Rightarrow> string list" where
  "configScript text = scriptOf False (linesOf text)"

definition oneLine :: "string \<Rightarrow> bool" where
  "oneLine l \<longleftrightarrow> CHR 0x0A \<notin> set l"

lemma linesOf_one: "oneLine l \<Longrightarrow> linesOf l = [l]"
  by (induction l) (auto simp: oneLine_def)

lemma linesOf_line: "oneLine l \<Longrightarrow> linesOf (l @ CHR 0x0A # s) = l # linesOf s"
  by (induction l) (auto simp: oneLine_def)

lemma linesOf_join: "ls \<noteq> [] \<Longrightarrow> list_all oneLine ls \<Longrightarrow> linesOf (joinWith newline ls) = ls"
proof (induction ls)
  case (Cons l ls)
  then show ?case by (cases ls) (simp_all add: linesOf_one linesOf_line newline_def)
qed simp

lemma printed_lines: "ls \<noteq> [] \<Longrightarrow> trimSuffix newline (concat (map (\<lambda>l. l @ newline) ls)) = joinWith newline ls"
proof -
  assume "ls \<noteq> []"
  then have "concat (map (\<lambda>l. l @ newline) ls) = joinWith newline ls @ newline"
  proof (induction ls)
    case (Cons l ls)
    then show ?case by (cases ls) simp_all
  qed simp
  then show ?thesis by (simp add: trimSuffix_def trimPrefix_def hasPrefix_def newline_def)
qed

lemma scriptOf_interface: "scriptOf False (interfaceLines i @ ls) = interfaceScript i @ scriptOf False ls"
  by (simp add: interfaceLines_def interfaceScript_def hasPrefix_def butlast_append)

lemma scriptOf_interfaces: "scriptOf False (concat (map interfaceLines is) @ ls) = concat (map interfaceScript is) @ scriptOf False ls"
  by (induction "is") (simp_all add: scriptOf_interface)

text \<open>The lines of the other sections are left out.\<close>

definition otherLines :: "Snapshot \<Rightarrow> string list" where
  "otherLines sn = concat (map vlanLines (nwVLANs (snNetwork sn))) @ concat (map routerLines (nwRouters (snNetwork sn))) @
     concat (map routeLines (nwRoutes (snNetwork sn)))"

lemma scriptOf_other: "scriptOf False (otherLines sn) = []"
proof -
  have skip: "scriptOf False ls = []" if "\<forall>l \<in> set ls. \<not> hasPrefix ''hostname '' l \<and> \<not> hasPrefix ''interface '' l" for ls
    using that by (induction ls) auto
  show ?thesis
    by (rule skip) (auto simp: otherLines_def vlanLines_def routerLines_def routeLines_def hasPrefix_def split: if_splits)
qed

lemma plain_oneLine: "word w \<Longrightarrow> oneLine w"
  by (auto simp: word_def oneLine_def plainChar_def byteIn_def list_all_iff)

lemma oneLine_words: "list_all word ws \<Longrightarrow> oneLine (joinWith '' '' ws)"
proof (induction ws)
  case (Cons w ws)
  then show ?case by (cases ws) (auto simp: oneLine_def dest: plain_oneLine)
qed (simp add: oneLine_def)

lemma interfaceLines_oneLine: "replayable i \<Longrightarrow> list_all oneLine (interfaceLines i)"
proof -
  assume ok: "replayable i"
  then have "oneLine (ifName i)" "oneLine (ifDescription i)"
    using plain_oneLine oneLine_words by (auto simp: replayable_def) (simp_all add: oneLine_def)
  moreover have "oneLine (prefixString (ifAddress i))" if "prefixIsValid (ifAddress i)"
    using ok that plain_oneLine prefix_word by (auto simp: replayable_def noPrefix_def prefixIsValid_def)
  ultimately show ?thesis by (simp add: interfaceLines_def oneLine_def)
qed

lemma hostname_word: "validHostname h \<Longrightarrow> word h"
proof -
  assume h: "validHostname h"
  then have "h \<noteq> []" "list_all isHostnameChar h" by (auto simp: validHostname_def)
  moreover from this have "isHostnameChar (last h)" by (simp add: list_all_iff)
  moreover have "isHostnameChar c \<Longrightarrow> plainChar c \<and> c \<noteq> CHR ''?''" for c by (auto simp: isHostnameChar_def plainChar_def byteIn_def)
  ultimately show ?thesis by (auto simp: word_def list_all_iff)
qed

lemma hostname_line:
  assumes "validHostname h" "seMode se = ModeGlobalConfig"
  shows "\<exists>t'. accepted vr [''hostname '' @ h] se t se t' \<and> Hostname (cfIdentity (running t')) = h \<and> runningInterfaces t' = runningInterfaces t"
proof -
  obtain t' where t': "UpdateIdentity (\<lambda>identity. Inr (identity\<lparr>Hostname := h\<rparr>)) (\<lambda>x. x) t = (None, t')"
    "Hostname (cfIdentity (running t')) = h" "runningInterfaces t' = runningInterfaces t"
    by (simp add: UpdateIdentity_def)
  have "Execute vr (\<lambda>x. x) (''hostname '' @ h) se t = (\<lparr>Output = [], Close = False\<rparr>, se, t')"
    using Execute_words [of "[''hostname'', h]" "''hostname '' @ h"] hostname_word [OF assms(1)] assms t'(1)
    by (simp add: executeGlobal_def setHostname_def say_def)
  from accepted_line [OF this] t'(2,3) show ?thesis by blast
qed

lemma configScript_rendered:
  assumes "validHostname (Hostname (snIdentity sn))" "list_all replayable (nwInterfaces (snNetwork sn))" "list_all oneLine (otherLines sn)"
  shows "configScript (renderConfiguration sn) =
    (''hostname '' @ Hostname (snIdentity sn)) # concat (map interfaceScript (nwInterfaces (snNetwork sn)))"
proof -
  have lines: "configurationLines sn = [''hostname '' @ Hostname (snIdentity sn), ''!''] @
      concat (map interfaceLines (nwInterfaces (snNetwork sn))) @ otherLines sn"
    by (simp add: configurationLines_def otherLines_def)
  have "list_all oneLine (concat (map interfaceLines (nwInterfaces (snNetwork sn))))"
    using assms(2) interfaceLines_oneLine by (auto simp: list_all_iff)
  moreover have "oneLine (''hostname '' @ Hostname (snIdentity sn))" "oneLine ''!''"
    using plain_oneLine [OF hostname_word [OF assms(1)]] by (auto simp: oneLine_def)
  ultimately have "list_all oneLine (configurationLines sn)" using assms(3) unfolding lines by simp
  moreover have "configurationLines sn \<noteq> []" by (simp add: lines)
  ultimately have "linesOf (renderConfiguration sn) = configurationLines sn"
    by (simp add: renderConfiguration_def printed_lines linesOf_join)
  then show ?thesis
    by (simp add: configScript_def lines hasPrefix_def scriptOf_interfaces scriptOf_other)
qed

lemma show_running_config:
  "seMode se = ModePrivileged \<Longrightarrow> Output (fst (Execute vr others ''show running-config'' se s)) = renderConfiguration (storeSnapshot s)"
  using Execute_words [of "[''show'', ''running-config'']" "''show running-config''" vr others se s]
  by (simp add: executePrivileged_def executeLifecycle_def)

text \<open>C28 (running_config_replays): take the text one device answers to \<open>show running-config\<close>, keep of its lines the hostname and the
  interface blocks, and write \<open>exit\<close> for the \<open>!\<close> that closes a block.  On a device with the same, distinct interface names, none of
  the interfaces configured yet (no description, no address, up), a session in configuration mode given these lines accepts every one silently, and the
  device ends up with that hostname and with the description, address and administrative state of every interface.  The first device's
  hostname has to be one the \<open>hostname\<close> command takes (letters, digits and hyphens; a configured system name may hold dots), its
  interface names single words of printable ASCII, its descriptions such words separated by single spaces, none ending in a question mark, its addresses IPv4, and
  no VLAN name, router or route text may hold a line break; no other operation runs meanwhile.\<close>

theorem running_config_replays:
  assumes "seMode sp = ModePrivileged" "text = Output (fst (Execute vr others ''show running-config'' sp s))" "sn = storeSnapshot s"
    and "validHostname (Hostname (snIdentity sn))" "list_all replayable (nwInterfaces (snNetwork sn))" "list_all oneLine (otherLines sn)"
    and "map ifName (runningInterfaces t) = map ifName (nwInterfaces (snNetwork sn))" "distinct (map ifName (runningInterfaces t))"
    and "list_all unconfigured (runningInterfaces t)" "seMode se = ModeGlobalConfig"
  shows "\<exists>se' t'. accepted vr (configScript text) se t se' t' \<and> Hostname (snIdentity (storeSnapshot t')) = Hostname (snIdentity sn) \<and>
    map ifView (nwInterfaces (snNetwork (storeSnapshot t'))) = map ifView (nwInterfaces (snNetwork sn))"
proof -
  obtain t1 where t1: "accepted vr [''hostname '' @ Hostname (snIdentity sn)] se t se t1"
    "Hostname (cfIdentity (running t1)) = Hostname (snIdentity sn)" "runningInterfaces t1 = runningInterfaces t"
    using hostname_line [OF assms(4,10)] by blast
  obtain se2 t2 where t2: "accepted vr (concat (map interfaceScript (nwInterfaces (snNetwork sn)))) se t1 se2 t2"
    "cfIdentity (running t2) = cfIdentity (running t1)" "map ifView (runningInterfaces t2) = map ifView (nwInterfaces (snNetwork sn))"
    using replay_interfaces [of t1 "[]" "nwInterfaces (snNetwork sn)" se vr] t1(3) assms by auto
  have "configScript text = (''hostname '' @ Hostname (snIdentity sn)) # concat (map interfaceScript (nwInterfaces (snNetwork sn)))"
    using configScript_rendered [OF assms(4-6)] show_running_config [OF assms(1)] assms(2,3) by simp
  then have "accepted vr (configScript text) se t se2 t2" using accepted_append [OF t1(1) t2(1)] by simp
  moreover have "map ifView (nwInterfaces (snNetwork (storeSnapshot t2))) = map ifView (runningInterfaces t2)"
    by (simp add: storeSnapshot_def snapshot_def applyCarrierFaults_eq takeCarrier_def ifView_def Let_def)
  ultimately show ?thesis using t1(2) t2(2,3) by (intro exI [of _ se2] exI [of _ t2]) (simp add: storeSnapshot_def snapshot_def Let_def)
qed

definition blankStore :: Store where
  "blankStore = ReplaceNetwork (emptyNetwork\<lparr>nwInterfaces := map (\<lambda>n. (sampleInterface n)\<lparr>ifAddress := noPrefix\<rparr>) [''e0'', ''e1'']\<rparr>) sampleNew"

theorem running_config_replays_witness:
  "\<exists>se' t'. accepted None
       (configScript (Output (fst (Execute None (\<lambda>x. x) ''show running-config'' (NewSession\<lparr>seMode := ModePrivileged\<rparr>) sampleStore)))) (NewSession\<lparr>seMode := ModeGlobalConfig\<rparr>) blankStore se' t' \<and>
     map ifView (nwInterfaces (snNetwork (storeSnapshot t'))) = map ifView (nwInterfaces (snNetwork (storeSnapshot sampleStore)))"
proof -
  let ?is = "nwInterfaces (snNetwork (storeSnapshot sampleStore))"
  have "Hostname (snIdentity (storeSnapshot sampleStore)) = ''r1''"
    by (simp add: storeSnapshot_def snapshot_def sampleStore_def ReplaceNetwork_def sampleNew_def NewStore_def Let_def)
  moreover have "validHostname ''r1''" by code_simp
  ultimately have host: "validHostname (Hostname (snIdentity (storeSnapshot sampleStore)))" by simp
  have "replayable (sampleInterface n)" if "word n" for n using that by (auto simp: replayable_def sampleInterface_def PrefixFrom_def)
  moreover have list: "?is = [sampleInterface ''e0'', sampleInterface ''e1'']" by (simp add: storeSnapshot_def snapshot_def Let_def)
  moreover have "word ''e0''" "word ''e1''" by code_simp+
  ultimately have rep: "list_all replayable ?is" by simp
  have ri: "runningInterfaces blankStore = map (\<lambda>n. (sampleInterface n)\<lparr>ifAddress := noPrefix\<rparr>) [''e0'', ''e1'']"
    by (simp add: blankStore_def ReplaceNetwork_def sampleInterface_def Let_def)
  have "map ifName (runningInterfaces blankStore) = map ifName ?is" "distinct (map ifName (runningInterfaces blankStore))"
    "list_all unconfigured (runningInterfaces blankStore)"
    unfolding ri list by (simp_all add: sampleInterface_def unconfigured_def)
  moreover have "list_all oneLine (otherLines (storeSnapshot sampleStore))"
    by (simp add: otherLines_def storeSnapshot_def snapshot_def sampleStore_def ReplaceNetwork_def sampleNetwork_def emptyNetwork_def Let_def)
  ultimately show ?thesis
    using running_config_replays [of "NewSession\<lparr>seMode := ModePrivileged\<rparr>", OF _ refl refl host rep, of blankStore
        "NewSession\<lparr>seMode := ModeGlobalConfig\<rparr>" None "\<lambda>x. x"] by auto
qed

end
