(* ===== verification/Fabric_Compiler.thy ===== *)
theory Fabric_Compiler
  imports Go_Netip Go_Bytes Net_Config Device_Class
begin

text \<open>
  The compiler of routed scenarios (\<open>internal/fabric\<close>): networks, interfaces, routes, DHCP scopes with their relays, and attachment pools are
  read from the configuration into a topology, and every defect becomes a diagnostic.  The compiler object is the record \<open>scenarioCompiler\<close>, in
  which the report under construction is held field by field.  A diagnostic is its code and its field; messages are left out.  A \<open>net.IP\<close> of the
  configuration is its bytes, nil being the empty list.  Loops over Go maps whose order shows only in a message are loops over the sorted map.
\<close>

unbundle bit_operations_syntax

section \<open>Configuration (config/types.go)\<close>

type_synonym netIP = "8 word list"

record NetworkSource =
  nsName :: string
  nsSubnet :: string
  nsSubnetV6 :: string
  nsVirtualVLAN :: int

record PortGroup =
  pgDevice :: string
  pgPorts :: "string list"

record PinSource =
  pnMAC :: string
  pnDevice :: string
  pnInterface :: string

record LogicalAttachment =
  laName :: string
  laNetwork :: string
  laAt :: "PortGroup list"
  laPins :: "PinSource list"

record RouteSource =
  rcDestination :: string
  rcVia :: string
  rcNextHop :: string

record InterfaceSource =
  siName :: string
  siNetwork :: string
  siAddress :: string
  siAddressV6 :: string
  siDHCPRelay :: string
  siVLANs :: "int list"

record LeaseSource =
  lcClientIP :: netIP
  lcMACAddress :: "nat list"
  lcMACMask :: "nat list"

record ScopeSource =
  ssPoolStart :: netIP
  ssPoolEnd :: netIP
  ssRouter :: netIP

record DHCPConfig =
  dcRouter :: netIP
  dcDomainNameServer :: "netIP list"
  dcServerIdentifier :: netIP
  dcNextServerIP :: netIP
  dcPoolStart :: netIP
  dcPoolEnd :: netIP
  dcClientLeases :: "LeaseSource list"
  dcScopes :: "ScopeSource list"

record PortChannel =
  pcID :: int
  pcMembers :: "string list"

record FabricDevice =
  fdName :: string
  fdType :: string
  fdInterfaces :: "InterfaceSource list"
  fdRoutes :: "RouteSource list"
  fdDHCPConfig :: "DHCPConfig option"
  fdTrunkPorts :: "TrunkPort list"
  fdPortChannels :: "PortChannel list"

record FabricConfig =
  fgDevices :: "FabricDevice list"
  fgNetworks :: "NetworkSource list"
  fgAttachments :: "LogicalAttachment list"

section \<open>Topology and report (types.go)\<close>

definition ModeDirect :: string where "ModeDirect = ''direct''"

definition ModeAccess :: string where "ModeAccess = ''access''"

definition ModeTrunk :: string where "ModeTrunk = ''trunk''"

datatype DiagnosticCode = CodeAttachmentPolicyDenied | CodeHostInterfaceUnavailable | CodeInvalidAccessVLAN | CodeInvalidAttachmentMode
  | CodeUnknownAttachment | CodeUnknownNetwork | CodeInvalidNetwork | CodeInvalidVirtualVLAN | CodeDuplicateNetwork | CodeDuplicateDevice
  | CodeDuplicateInterface | CodeDuplicateInterfaceAddr | CodeOverlappingNetworks | CodeInvalidInterfaceAddress | CodeAddressOutsideNetwork
  | CodeInterfacePrefixMismatch | CodeReservedInterfaceAddr | CodeUnknownRouteInterface | CodeInvalidRoute | CodeInvalidRouteNextHop
  | CodeRouteNextHopOffLink | CodeUnknownRouteNextHop | CodeRouteNextHopSelf | CodeDHCPNetworkAmbiguous | CodeDHCPPoolOutsideNetwork
  | CodeInvalidDHCPRange | CodeInvalidDHCPRouter | CodeInvalidDHCPLease | CodeInvalidDHCPOption | CodeReservedDHCPAddress
  | CodeDHCPAddressCollision | CodeInvalidDHCPRelay | CodeAttachmentFormAmbiguous | CodeUnknownAttachmentDevice | CodeUnknownAttachmentPort
  | CodeDuplicateAttachmentPort | CodeAttachmentPoolEmpty | CodeAttachmentPortOccupied | CodeAttachmentPortVLANUnresolved
  | CodeAttachmentPortNetworkUnresolved | CodeAttachmentPortNetworkAmbiguous | CodeAttachmentPoolNetworksDiffer | CodeAttachmentPinOutsidePool
  | CodeAttachmentPinDuplicate | CodeInvalidAttachmentPinMAC

definition bindingDiagnosticCodes :: "DiagnosticCode list" where
  "bindingDiagnosticCodes =
     [CodeAttachmentPolicyDenied, CodeHostInterfaceUnavailable, CodeInvalidAccessVLAN, CodeInvalidAttachmentMode, CodeUnknownAttachment]"

definition IsBinding :: "DiagnosticCode \<Rightarrow> bool" where
  "IsBinding code \<longleftrightarrow> code \<in> set bindingDiagnosticCodes"

record Binding =
  bdAttachment :: string
  bdInterface :: string
  bdMode :: string
  bdAccessVLAN :: "16 word"
  bdPolicyApproved :: bool

record PhysicalAttachmentPolicy =
  ppInterface :: string
  ppMode :: string
  ppAccessVLAN :: "16 word"
  ppAllowedVLANs :: "16 word list"

definition Approves :: "PhysicalAttachmentPolicy \<Rightarrow> Binding \<Rightarrow> bool" where
  "Approves p binding =
     (if ppInterface p \<noteq> bdInterface binding \<or> ppMode p \<noteq> bdMode binding then False
      else if ppMode p \<noteq> ModeTrunk then ppAccessVLAN p = bdAccessVLAN binding
      else bdAccessVLAN binding \<in> set (ppAllowedVLANs p))"

record CompiledBinding =
  cbBinding :: Binding
  cbNetwork :: string
  cbWireTagged :: bool

record Network =
  nwName :: string
  nwPrefix :: Prefix
  nwPrefixV6 :: Prefix
  nwVirtualVLAN :: "16 word"

record Interface =
  fiDevice :: string
  fiName :: string
  fiNetwork :: string
  fiAddress :: Prefix
  fiAddressV6 :: Prefix

record Route =
  roDevice :: string
  roDestination :: Prefix
  roVia :: string
  roNextHop :: Addr
  roConnected :: bool

record DHCPRelay =
  rlDevice :: string
  rlInterface :: string
  rlAddress :: Addr
  rlServer :: Addr

record DHCPScope =
  dsDevice :: string
  dsNetwork :: string
  dsStart :: Addr
  dsEnd :: Addr
  dsRouter :: Addr
  dsRelay :: "DHCPRelay option"

record AttachmentPort =
  apDevice :: string
  apInterface :: string
  apVLAN :: "16 word"
  apNetwork :: string

record AttachmentPin =
  aiMAC :: string
  aiDevice :: string
  aiInterface :: string

record CompiledAttachment =
  caName :: string
  caNetwork :: string
  caPorts :: "AttachmentPort list"
  caPins :: "AttachmentPin list"

record Topology =
  tgBinding :: CompiledBinding
  tgNetworks :: "Network list"
  tgInterfaces :: "Interface list"
  tgRoutes :: "Route list"
  tgDHCPScopes :: "DHCPScope list"
  tgAttachments :: "CompiledAttachment list"

type_synonym Diagnostic = "DiagnosticCode \<times> string"

record Report =
  reSafe :: bool
  reTopology :: Topology
  reDiagnostics :: "Diagnostic list"

definition zeroBinding :: Binding where
  "zeroBinding = \<lparr>bdAttachment = [], bdInterface = [], bdMode = [], bdAccessVLAN = 0, bdPolicyApproved = False\<rparr>"

definition zeroNetwork :: Network where
  "zeroNetwork = \<lparr>nwName = [], nwPrefix = noPrefix, nwPrefixV6 = noPrefix, nwVirtualVLAN = 0\<rparr>"

section \<open>The compiler object (compiler.go)\<close>

record dhcpLeaseMAC =
  lmAddress :: "nat list"
  lmMask :: "nat list"
  lmDevice :: string

record dhcpRelaySource =
  drDevice :: FabricDevice
  drIface :: Interface
  drTarget :: string
  drField :: string
  drAddress :: Addr

record scenarioCompiler =
  fcNetworks :: "(string, Network) gomap"
  fcDevices :: "(string, unit) gomap"
  fcAddresses :: "(Addr, string) gomap"
  fcLeaseAddresses :: "(Addr, string) gomap"
  fcLeaseMACs :: "dhcpLeaseMAC list"
  fcRelays :: "dhcpRelaySource list"
  fcBinding :: CompiledBinding
  fcTopNetworks :: "Network list"
  fcInterfaces :: "Interface list"
  fcRoutes :: "Route list"
  fcScopes :: "DHCPScope list"
  fcAttachments :: "CompiledAttachment list"
  fcDiagnostics :: "Diagnostic list"

definition newScenarioCompiler :: scenarioCompiler where
  "newScenarioCompiler = \<lparr>fcNetworks = [], fcDevices = [], fcAddresses = [], fcLeaseAddresses = [], fcLeaseMACs = [], fcRelays = [],
     fcBinding = \<lparr>cbBinding = zeroBinding, cbNetwork = [], cbWireTagged = False\<rparr>, fcTopNetworks = [], fcInterfaces = [], fcRoutes = [],
     fcScopes = [], fcAttachments = [], fcDiagnostics = []\<rparr>"

definition add :: "DiagnosticCode \<Rightarrow> string \<Rightarrow> scenarioCompiler \<Rightarrow> scenarioCompiler" where
  "add code field c = c\<lparr>fcDiagnostics := fcDiagnostics c @ [(code, field)]\<rparr>"

definition networkOf :: "scenarioCompiler \<Rightarrow> string \<Rightarrow> Network" where
  "networkOf c name = (case map_of (fcNetworks c) name of None \<Rightarrow> zeroNetwork | Some n \<Rightarrow> n)"

text \<open>\<open>fmt.Sprintf\<close> of a field with an index.\<close>

definition indexed :: "string \<Rightarrow> nat \<Rightarrow> string" where
  "indexed name i = name @ ''['' @ itoa (int i) @ '']''"

definition report :: "scenarioCompiler \<Rightarrow> Report" where
  "report c = \<lparr>reSafe = (fcDiagnostics c = []),
     reTopology = \<lparr>tgBinding = fcBinding c, tgNetworks = fcTopNetworks c, tgInterfaces = fcInterfaces c, tgRoutes = fcRoutes c,
       tgDHCPScopes = fcScopes c, tgAttachments = fcAttachments c\<rparr>,
     reDiagnostics = fcDiagnostics c\<rparr>"

definition IsRouted :: "FabricConfig option \<Rightarrow> bool" where
  "IsRouted cfg = (case cfg of None \<Rightarrow> False | Some g \<Rightarrow> fgNetworks g \<noteq> [] \<or> fgAttachments g \<noteq> [])"

definition validateBindingMode :: "Binding \<Rightarrow> scenarioCompiler \<Rightarrow> scenarioCompiler" where
  "validateBindingMode binding c =
     (if bdMode binding = [] then add CodeInvalidAttachmentMode ''mode'' c
      else
        let c1 = (if \<not> bdPolicyApproved binding then add CodeAttachmentPolicyDenied ''interface'' c else c) in
        if bdMode binding = ModeDirect then
          (if bdAccessVLAN binding \<noteq> 0 then add CodeInvalidAccessVLAN ''accessVlan'' c1 else c1)
        else if bdMode binding = ModeAccess \<or> bdMode binding = ModeTrunk then
          (if bdAccessVLAN binding < 1 \<or> 4094 < bdAccessVLAN binding then add CodeInvalidAccessVLAN ''accessVlan'' c1 else c1)
        else add CodeInvalidAttachmentMode ''mode'' c1)"

definition compileBinding :: "FabricConfig option \<Rightarrow> Binding \<Rightarrow> scenarioCompiler \<Rightarrow> scenarioCompiler" where
  "compileBinding cfg binding c =
     (let c1 = validateBindingMode binding c in
      case cfg of
        None \<Rightarrow> add CodeUnknownAttachment ''attachment'' c1
      | Some g \<Rightarrow>
          case find (\<lambda>a. laName a = bdAttachment binding) (fgAttachments g) of
            None \<Rightarrow> add CodeUnknownAttachment ''attachment'' c1
          | Some a \<Rightarrow> c1\<lparr>fcBinding := \<lparr>cbBinding = binding, cbNetwork = laNetwork a, cbWireTagged = (bdMode binding = ModeTrunk)\<rparr>\<rparr>)"

definition CompilePhysicalBinding :: "Binding \<Rightarrow> Report" where
  "CompilePhysicalBinding binding =
     (let c = validateBindingMode binding newScenarioCompiler in
      report (c\<lparr>fcBinding := \<lparr>cbBinding = binding, cbNetwork = [], cbWireTagged = (bdMode binding = ModeTrunk)\<rparr>\<rparr>))"

section \<open>Networks\<close>

definition parseCanonicalPrefix :: "string \<Rightarrow> Prefix option" where
  "parseCanonicalPrefix s =
     (case ParsePrefix s of
        None \<Rightarrow> None
      | Some p \<Rightarrow> if \<not> Is4 (prefixAddr p) then None else if p \<noteq> Masked p then None else Some p)"

definition parseCanonicalPrefixV6 :: "string \<Rightarrow> Prefix option" where
  "parseCanonicalPrefixV6 s =
     (case ParsePrefix s of
        None \<Rightarrow> None
      | Some p \<Rightarrow>
          if \<not> Is6 (prefixAddr p) \<or> Is4In6 (prefixAddr p) then None
          else if p \<noteq> Masked p then None
          else if IsSingleIP p then None
          else if \<not> IsGlobalUnicast (prefixAddr p) then None
          else Some p)"

definition compileSubnetV6 :: "string \<Rightarrow> string \<Rightarrow> scenarioCompiler \<Rightarrow> Prefix option \<times> scenarioCompiler" where
  "compileSubnetV6 field s c =
     (if s = [] then (Some noPrefix, c)
      else case parseCanonicalPrefixV6 s of
        None \<Rightarrow> (None, add CodeInvalidNetwork (field @ ''.subnet_v6'') c)
      | Some p \<Rightarrow> (Some p, c))"

definition checkOverlap :: "string \<Rightarrow> Network \<Rightarrow> scenarioCompiler \<Rightarrow> scenarioCompiler" where
  "checkOverlap field candidate c =
     (case find (\<lambda>n. Overlaps (nwPrefix n) (nwPrefix candidate) \<or>
         prefixIsValid (nwPrefixV6 n) \<and> Overlaps (nwPrefixV6 n) (nwPrefixV6 candidate)) (fcTopNetworks c) of
        None \<Rightarrow> c
      | Some n \<Rightarrow> add CodeOverlappingNetworks
          (field @ (if Overlaps (nwPrefix n) (nwPrefix candidate) then ''.subnet'' else ''.subnet_v6'')) c)"

definition compileNetwork :: "scenarioCompiler \<Rightarrow> nat \<times> NetworkSource \<Rightarrow> scenarioCompiler" where
  "compileNetwork c indexSource =
     (case indexSource of (i, source) \<Rightarrow>
      let field = indexed ''networks'' i in
      case parseCanonicalPrefix (nsSubnet source) of
        None \<Rightarrow> add CodeInvalidNetwork (field @ ''.subnet'') c
      | Some pfx \<Rightarrow>
          if gm_has (fcNetworks c) (nsName source) then add CodeDuplicateNetwork (field @ ''.name'') c
          else if nsVirtualVLAN source < 0 \<or> 4094 < nsVirtualVLAN source then add CodeInvalidVirtualVLAN (field @ ''.virtual_vlan'') c
          else case compileSubnetV6 field (nsSubnetV6 source) c of
            (None, c1) \<Rightarrow> c1
          | (Some pfxV6, c1) \<Rightarrow>
              let network = \<lparr>nwName = nsName source, nwPrefix = pfx, nwPrefixV6 = pfxV6, nwVirtualVLAN = Uint16 (word_of_int (nsVirtualVLAN source))\<rparr>;
                  c2 = checkOverlap field network c1
              in c2\<lparr>fcNetworks := gm_put (nsName source) network (fcNetworks c2), fcTopNetworks := fcTopNetworks c2 @ [network]\<rparr>)"

definition validateAttachmentNetwork :: "scenarioCompiler \<Rightarrow> scenarioCompiler" where
  "validateAttachmentNetwork c =
     (let name = cbNetwork (fcBinding c) in
      if name = [] then c else if gm_has (fcNetworks c) name then c else add CodeUnknownNetwork ''attachment'' c)"

definition compileNetworks :: "FabricConfig \<Rightarrow> scenarioCompiler \<Rightarrow> scenarioCompiler" where
  "compileNetworks cfg c = validateAttachmentNetwork (foldl compileNetwork c (enumerate 0 (fgNetworks cfg)))"

section \<open>Interfaces and routes (compiler\_devices.go, route\_validation.go)\<close>

text \<open>\<open>broadcastAddress\<close> sets the host bits byte by byte.\<close>

definition broadcastAddress :: "Prefix \<Rightarrow> Addr" where
  "broadcastAddress p =
     (case prefixAddr p of
        V4 a \<Rightarrow>
          let bs = beBytes 4 a; wholeBytes = nat (prefixBits p) div 8; remainingBits = nat (prefixBits p) mod 8;
              bs1 = (if remainingBits \<noteq> 0 then bs[wholeBytes := (bs ! wholeBytes) OR drop_bit remainingBits 0xFF] else bs);
              first = (if remainingBits \<noteq> 0 then wholeBytes + 1 else wholeBytes)
          in V4 (beRead (take first bs1 @ replicate (4 - first) 0xFF))
      | _ \<Rightarrow> NoAddr)"

definition isReservedEndpoint :: "Prefix \<Rightarrow> Addr \<Rightarrow> bool" where
  "isReservedEndpoint p address =
     (if 30 < prefixBits p then False else address = prefixAddr p \<or> address = broadcastAddress p)"

definition ipToAddr :: "netIP \<Rightarrow> Addr option" where
  "ipToAddr ip = map_option Unmap (AddrFromSlice ip)"

definition compileInterfaceV6 :: "Network \<Rightarrow> string \<Rightarrow> string \<Rightarrow> scenarioCompiler \<Rightarrow> Prefix option \<times> scenarioCompiler" where
  "compileInterfaceV6 network s field c =
     (if s = [] then (Some noPrefix, c)
      else if \<not> prefixIsValid (nwPrefixV6 network) then (None, add CodeAddressOutsideNetwork field c)
      else case ParsePrefix s of
        None \<Rightarrow> (None, add CodeInvalidInterfaceAddress field c)
      | Some address \<Rightarrow>
          if \<not> Is6 (prefixAddr address) \<or> Is4In6 (prefixAddr address) then (None, add CodeInvalidInterfaceAddress field c)
          else if \<not> prefixContains (nwPrefixV6 network) (prefixAddr address) then (None, add CodeAddressOutsideNetwork field c)
          else if prefixBits address \<noteq> prefixBits (nwPrefixV6 network) then (None, add CodeInterfacePrefixMismatch field c)
          else if prefixBits (nwPrefixV6 network) < 127 \<and> prefixAddr address = prefixAddr (nwPrefixV6 network)
            then (None, add CodeReservedInterfaceAddr field c)
          else if gm_has (fcAddresses c) (prefixAddr address) then (None, add CodeDuplicateInterfaceAddr field c)
          else (Some address, c))"

definition compileInterface :: "string \<Rightarrow> InterfaceSource \<Rightarrow> string \<Rightarrow> scenarioCompiler \<Rightarrow> Interface option \<times> scenarioCompiler" where
  "compileInterface device source field c =
     (case map_of (fcNetworks c) (siNetwork source) of
        None \<Rightarrow> (None, add CodeUnknownNetwork (field @ ''.network'') c)
      | Some network \<Rightarrow>
          case ParsePrefix (siAddress source) of
            None \<Rightarrow> (None, add CodeInvalidInterfaceAddress (field @ ''.address'') c)
          | Some address \<Rightarrow>
              if \<not> Is4 (prefixAddr address) then (None, add CodeInvalidInterfaceAddress (field @ ''.address'') c)
              else if \<not> prefixContains (nwPrefix network) (prefixAddr address) then (None, add CodeAddressOutsideNetwork (field @ ''.address'') c)
              else if prefixBits address \<noteq> prefixBits (nwPrefix network) then (None, add CodeInterfacePrefixMismatch (field @ ''.address'') c)
              else if isReservedEndpoint (nwPrefix network) (prefixAddr address) then (None, add CodeReservedInterfaceAddr (field @ ''.address'') c)
              else if gm_has (fcAddresses c) (prefixAddr address) then (None, add CodeDuplicateInterfaceAddr (field @ ''.address'') c)
              else case compileInterfaceV6 network (siAddressV6 source) (field @ ''.address_v6'') c of
                (None, c1) \<Rightarrow> (None, c1)
              | (Some addressV6, c1) \<Rightarrow>
                  let owners = gm_put (prefixAddr address) device (fcAddresses c1);
                      owners1 = (if prefixIsValid addressV6 then gm_put (prefixAddr addressV6) device owners else owners)
                  in (Some \<lparr>fiDevice = device, fiName = siName source, fiNetwork = siNetwork source, fiAddress = address, fiAddressV6 = addressV6\<rparr>,
                      c1\<lparr>fcAddresses := owners1\<rparr>))"

text \<open>One turn of the loop of \<open>compileInterfaces\<close>: the interfaces compiled, the names used, and the compiler.\<close>

definition interfaceStep ::
  "FabricDevice \<Rightarrow> (string, Interface) gomap \<times> (string, unit) gomap \<times> scenarioCompiler \<Rightarrow> nat \<times> InterfaceSource \<Rightarrow>
     (string, Interface) gomap \<times> (string, unit) gomap \<times> scenarioCompiler" where
  "interfaceStep device st indexSource =
     (case (st, indexSource) of ((compiled, names, c), (i, source)) \<Rightarrow>
      if siNetwork source = [] \<and> siAddress source = [] \<and> siAddressV6 source = [] then st
      else
        let field = indexed (''devices['' @ fdName device @ ''].interfaces'') i in
        if gm_has names (siName source) then (compiled, names, add CodeDuplicateInterface (field @ ''.name'') c)
        else
          let names1 = gm_put (siName source) () names in
          case compileInterface (fdName device) source field c of
            (None, c1) \<Rightarrow> (compiled, names1, c1)
          | (Some iface, c1) \<Rightarrow>
              let c2 = c1\<lparr>fcInterfaces := fcInterfaces c1 @ [iface]\<rparr>;
                  c3 = (if siDHCPRelay source \<noteq> [] then
                     c2\<lparr>fcRelays := fcRelays c2 @ [\<lparr>drDevice = device, drIface = iface, drTarget = siDHCPRelay source,
                       drField = field @ ''.dhcp_relay'', drAddress = NoAddr\<rparr>]\<rparr> else c2);
                  c4 = (if RoutesIP (Parse (fdType device)) then
                     c3\<lparr>fcRoutes := fcRoutes c3 @ [\<lparr>roDevice = fdName device, roDestination = nwPrefix (networkOf c3 (fiNetwork iface)),
                       roVia = fiName iface, roNextHop = NoAddr, roConnected = True\<rparr>]\<rparr> else c3)
              in (gm_put (fiName iface) iface compiled, names1, c4))"

definition compileInterfaces :: "FabricDevice \<Rightarrow> scenarioCompiler \<Rightarrow> (string, Interface) gomap \<times> scenarioCompiler" where
  "compileInterfaces device c =
     (case foldl (interfaceStep device) ([], [], c) (enumerate 0 (fdInterfaces device)) of (compiled, names, c1) \<Rightarrow> (compiled, c1))"

record StaticRouteSpec =
  spDevice :: string
  spDestination :: string
  spVia :: string
  spNextHop :: string

record RouteValidationContext =
  vcInterfaces :: "(string, Interface) gomap"
  vcAddressOwners :: "(Addr, string) gomap"

definition parseRouteDestination :: "string \<Rightarrow> Prefix option" where
  "parseRouteDestination s =
     (case ParsePrefix s of
        Some p \<Rightarrow>
          if \<not> Is6 (prefixAddr p) \<or> Is4In6 (prefixAddr p) then parseCanonicalPrefix s
          else if p \<noteq> Masked p then None
          else if prefixBits p \<noteq> 0 \<and> \<not> IsGlobalUnicast (prefixAddr p) then None
          else Some p
      | None \<Rightarrow> parseCanonicalPrefix s)"

definition isReservedNextHop :: "Prefix \<Rightarrow> Addr \<Rightarrow> bool" where
  "isReservedNextHop p address =
     (if Is4 address then isReservedEndpoint p address else prefixBits p < 127 \<and> address = prefixAddr p)"

definition ValidateStaticRoute :: "StaticRouteSpec \<Rightarrow> RouteValidationContext \<Rightarrow> Diagnostic + Route" where
  "ValidateStaticRoute spec context =
     (case parseRouteDestination (spDestination spec) of
        None \<Rightarrow> Inl (CodeInvalidRoute, ''destination'')
      | Some destination \<Rightarrow>
          case map_of (vcInterfaces context) (spVia spec) of
            None \<Rightarrow> Inl (CodeUnknownRouteInterface, ''via'')
          | Some iface \<Rightarrow>
              case ParseAddr (spNextHop spec) of
                None \<Rightarrow> Inl (CodeInvalidRouteNextHop, ''next_hop'')
              | Some nextHop \<Rightarrow>
                  if Is4In6 nextHop \<or> Is6 nextHop \<noteq> Is6 (prefixAddr destination) then Inl (CodeInvalidRouteNextHop, ''next_hop'')
                  else
                    let egress = (if Is6 nextHop then fiAddressV6 iface else fiAddress iface) in
                    if \<not> prefixIsValid egress \<or> \<not> prefixContains (Masked egress) nextHop \<or> isReservedNextHop (Masked egress) nextHop
                    then Inl (CodeRouteNextHopOffLink, ''next_hop'')
                    else case map_of (vcAddressOwners context) nextHop of
                      None \<Rightarrow> Inl (CodeUnknownRouteNextHop, ''next_hop'')
                    | Some owner \<Rightarrow>
                        if owner = spDevice spec then Inl (CodeRouteNextHopSelf, ''next_hop'')
                        else Inr \<lparr>roDevice = spDevice spec, roDestination = destination, roVia = spVia spec, roNextHop = nextHop, roConnected = False\<rparr>)"

definition routeStep :: "FabricDevice \<Rightarrow> (string, Interface) gomap \<Rightarrow> scenarioCompiler \<Rightarrow> nat \<times> RouteSource \<Rightarrow> scenarioCompiler" where
  "routeStep device interfaces c indexSource =
     (case indexSource of (i, source) \<Rightarrow>
      let field = indexed (''devices['' @ fdName device @ ''].routes'') i in
      case ValidateStaticRoute
          \<lparr>spDevice = fdName device, spDestination = rcDestination source, spVia = rcVia source, spNextHop = rcNextHop source\<rparr>
          \<lparr>vcInterfaces = interfaces, vcAddressOwners = fcAddresses c\<rparr> of
        Inl (code, sub) \<Rightarrow> add code (field @ ''.'' @ sub) c
      | Inr route \<Rightarrow> c\<lparr>fcRoutes := fcRoutes c @ [route]\<rparr>)"

definition compileRoutes :: "FabricDevice \<Rightarrow> (string, Interface) gomap \<Rightarrow> scenarioCompiler \<Rightarrow> scenarioCompiler" where
  "compileRoutes device interfaces c = foldl (routeStep device interfaces) c (enumerate 0 (fdRoutes device))"

section \<open>DHCP scopes\<close>

definition hasDHCPPool :: "DHCPConfig \<Rightarrow> bool" where
  "hasDHCPPool d \<longleftrightarrow> dcPoolStart d \<noteq> [] \<or> dcPoolEnd d \<noteq> []"

definition dhcpField :: "FabricDevice \<Rightarrow> string" where
  "dhcpField device = ''devices.'' @ fdName device @ ''.dhcp''"

definition inRange :: "Addr \<Rightarrow> Addr \<Rightarrow> Addr \<Rightarrow> bool" where
  "inRange start stop a \<longleftrightarrow> start \<le> a \<and> a \<le> stop"

definition validateDHCPPoolCollisions :: "FabricDevice \<Rightarrow> string \<Rightarrow> Addr \<Rightarrow> Addr \<Rightarrow> scenarioCompiler \<Rightarrow> bool \<times> scenarioCompiler" where
  "validateDHCPPoolCollisions device network start stop c =
     (if list_ex (\<lambda>(address, _). inRange start stop address) (fcAddresses c) then (False, add CodeDHCPAddressCollision (dhcpField device) c)
      else if list_ex (\<lambda>scope. dsNetwork scope = network \<and> start \<le> dsEnd scope \<and> dsStart scope \<le> stop) (fcScopes c)
        then (False, add CodeDHCPAddressCollision (dhcpField device) c)
      else if list_ex (\<lambda>(address, _). inRange start stop address) (fcLeaseAddresses c)
        then (False, add CodeDHCPAddressCollision (dhcpField device) c)
      else (True, c))"

definition validateDHCPOptions :: "FabricDevice \<Rightarrow> DHCPConfig \<Rightarrow> Network \<Rightarrow> scenarioCompiler \<Rightarrow> bool \<times> scenarioCompiler" where
  "validateDHCPOptions device d network c =
     (case find (\<lambda>(_, server). case ipToAddr server of None \<Rightarrow> True | Some a \<Rightarrow> \<not> Is4 a \<or> \<not> IsGlobalUnicast a)
         (enumerate 0 (dcDomainNameServer d)) of
        Some (index, _) \<Rightarrow> (False, add CodeInvalidDHCPOption (indexed (dhcpField device @ ''.domain_name_server'') index) c)
      | None \<Rightarrow>
          case find (\<lambda>(_, ip). ip \<noteq> [] \<and> (case ipToAddr ip of None \<Rightarrow> True
                | Some a \<Rightarrow> \<not> Is4 a \<or> \<not> prefixContains (nwPrefix network) a \<or> isReservedEndpoint (nwPrefix network) a))
              [(''server_identifier'', dcServerIdentifier d), (''next_server_ip'', dcNextServerIP d)] of
            Some (name, _) \<Rightarrow> (False, add CodeInvalidDHCPOption (dhcpField device @ ''.'' @ name) c)
          | None \<Rightarrow> (True, c))"

definition validDHCPLeaseMAC :: "LeaseSource \<Rightarrow> bool" where
  "validDHCPLeaseMAC lease =
     (if length (lcMACAddress lease) \<noteq> 6 \<or> (lcMACAddress lease ! 0) AND 1 \<noteq> 0 \<or> lcMACAddress lease = replicate 6 0 then False
      else lcMACMask lease = [] \<or> length (lcMACMask lease) = 6)"

definition dhcpLeaseMACsOverlap :: "nat list \<Rightarrow> nat list \<Rightarrow> nat list \<Rightarrow> nat list \<Rightarrow> bool" where
  "dhcpLeaseMACsOverlap left leftMask right rightMask \<longleftrightarrow>
     list_all (\<lambda>i. (left ! i XOR right ! i) AND (if leftMask \<noteq> [] then leftMask ! i else 255) AND
       (if rightMask \<noteq> [] then rightMask ! i else 255) = 0) [0..<6]"

definition overlappingDHCPLeaseMAC :: "LeaseSource \<Rightarrow> dhcpLeaseMAC list \<Rightarrow> bool" where
  "overlappingDHCPLeaseMAC lease assigned \<longleftrightarrow>
     list_ex (\<lambda>candidate. dhcpLeaseMACsOverlap (lcMACAddress lease) (lcMACMask lease) (lmAddress candidate) (lmMask candidate)) assigned"

definition validateDHCPLeaseAddress ::
  "string \<Rightarrow> Addr \<Rightarrow> Addr \<Rightarrow> Addr \<Rightarrow> (Addr, string) gomap \<Rightarrow> scenarioCompiler \<Rightarrow> bool \<times> scenarioCompiler" where
  "validateDHCPLeaseAddress field address poolStart poolEnd pendingAddresses c =
     (if gm_has (fcAddresses c) address \<or> inRange poolStart poolEnd address \<or>
         list_ex (\<lambda>scope. inRange (dsStart scope) (dsEnd scope) address) (fcScopes c) \<or>
         gm_has (fcLeaseAddresses c) address \<or> gm_has pendingAddresses address
      then (False, add CodeDHCPAddressCollision (field @ ''.ip'') c)
      else (True, c))"

definition validateDHCPLease ::
  "FabricDevice \<Rightarrow> LeaseSource \<Rightarrow> nat \<Rightarrow> Network \<Rightarrow> Addr \<Rightarrow> Addr \<Rightarrow> (Addr, string) gomap \<Rightarrow> dhcpLeaseMAC list \<Rightarrow> scenarioCompiler \<Rightarrow>
     (Addr \<times> dhcpLeaseMAC) option \<times> scenarioCompiler" where
  "validateDHCPLease device lease index network poolStart poolEnd pendingAddresses pendingMACs c =
     (let field = indexed (dhcpField device @ ''.client_leases'') index in
      case ipToAddr (lcClientIP lease) of
        None \<Rightarrow> (None, add CodeInvalidDHCPLease field c)
      | Some address \<Rightarrow>
          if \<not> Is4 address \<or> \<not> prefixContains (nwPrefix network) address \<or> isReservedEndpoint (nwPrefix network) address \<or> \<not> validDHCPLeaseMAC lease
          then (None, add CodeInvalidDHCPLease field c)
          else case validateDHCPLeaseAddress field address poolStart poolEnd pendingAddresses c of
            (False, c1) \<Rightarrow> (None, c1)
          | (True, c1) \<Rightarrow>
              if overlappingDHCPLeaseMAC lease (fcLeaseMACs c1) then (None, add CodeDHCPAddressCollision (field @ ''.mac'') c1)
              else if overlappingDHCPLeaseMAC lease pendingMACs then (None, add CodeDHCPAddressCollision (field @ ''.mac'') c1)
              else (Some (address, \<lparr>lmAddress = lcMACAddress lease, lmMask = lcMACMask lease, lmDevice = fdName device\<rparr>), c1))"

primrec leaseLoop ::
  "FabricDevice \<Rightarrow> Network \<Rightarrow> Addr \<Rightarrow> Addr \<Rightarrow> (Addr, string) gomap \<Rightarrow> dhcpLeaseMAC list \<Rightarrow> scenarioCompiler \<Rightarrow> (nat \<times> LeaseSource) list \<Rightarrow>
     bool \<times> scenarioCompiler" where
  "leaseLoop device network poolStart poolEnd pendingAddresses pendingMACs c [] =
     (True, c\<lparr>fcLeaseAddresses := foldl (\<lambda>m (a, d). gm_put a d m) (fcLeaseAddresses c) pendingAddresses,
       fcLeaseMACs := fcLeaseMACs c @ pendingMACs\<rparr>)"
| "leaseLoop device network poolStart poolEnd pendingAddresses pendingMACs c (x # rest) =
     (case validateDHCPLease device (snd x) (fst x) network poolStart poolEnd pendingAddresses pendingMACs c of
        (None, c1) \<Rightarrow> (False, c1)
      | (Some (address, mac), c1) \<Rightarrow>
          leaseLoop device network poolStart poolEnd (gm_put address (fdName device) pendingAddresses) (pendingMACs @ [mac]) c1 rest)"

definition validateDHCPLeases :: "FabricDevice \<Rightarrow> DHCPConfig \<Rightarrow> Network \<Rightarrow> Addr \<Rightarrow> Addr \<Rightarrow> scenarioCompiler \<Rightarrow> bool \<times> scenarioCompiler" where
  "validateDHCPLeases device d network poolStart poolEnd c =
     leaseLoop device network poolStart poolEnd [] [] c (enumerate 0 (dcClientLeases d))"

definition appendDHCPScope :: "FabricDevice \<Rightarrow> DHCPConfig \<Rightarrow> Interface \<Rightarrow> scenarioCompiler \<Rightarrow> scenarioCompiler" where
  "appendDHCPScope device d iface c =
     (let network = networkOf c (fiNetwork iface) in
      case (ipToAddr (dcPoolStart d), ipToAddr (dcPoolEnd d)) of
        (Some start, Some stop) \<Rightarrow>
          if \<not> prefixContains (nwPrefix network) start \<or> \<not> prefixContains (nwPrefix network) stop
            then add CodeDHCPPoolOutsideNetwork (dhcpField device) c
          else if stop < start then add CodeInvalidDHCPRange (dhcpField device) c
          else if isReservedEndpoint (nwPrefix network) start \<or> isReservedEndpoint (nwPrefix network) stop
            then add CodeReservedDHCPAddress (dhcpField device) c
          else (case ipToAddr (dcRouter d) of
            None \<Rightarrow> add CodeInvalidDHCPRouter (dhcpField device @ ''.router'') c
          | Some router \<Rightarrow>
              if \<not> prefixContains (nwPrefix network) router \<or> isReservedEndpoint (nwPrefix network) router
                then add CodeInvalidDHCPRouter (dhcpField device @ ''.router'') c
              else case validateDHCPOptions device d network c of
                (False, c1) \<Rightarrow> c1
              | (True, c1) \<Rightarrow>
                  case validateDHCPPoolCollisions device (fiNetwork iface) start stop c1 of
                    (False, c2) \<Rightarrow> c2
                  | (True, c2) \<Rightarrow>
                      case validateDHCPLeases device d network start stop c2 of
                        (False, c3) \<Rightarrow> c3
                      | (True, c3) \<Rightarrow> c3\<lparr>fcScopes := fcScopes c3 @ [\<lparr>dsDevice = fdName device, dsNetwork = fiNetwork iface, dsStart = start,
                          dsEnd = stop, dsRouter = router, dsRelay = None\<rparr>]\<rparr>)
      | _ \<Rightarrow> add CodeDHCPPoolOutsideNetwork (dhcpField device) c)"

definition compileDHCP :: "FabricDevice \<Rightarrow> (string, Interface) gomap \<Rightarrow> scenarioCompiler \<Rightarrow> scenarioCompiler" where
  "compileDHCP device interfaces c =
     (case fdDHCPConfig device of
        None \<Rightarrow> c
      | Some d \<Rightarrow>
          if \<not> hasDHCPPool d then c
          else case (ipToAddr (dcPoolStart d), ipToAddr (dcPoolEnd d)) of
            (Some start, Some stop) \<Rightarrow>
              let candidates = foldl (\<lambda>m (_, iface).
                    let network = networkOf c (fiNetwork iface) in
                    if prefixContains (nwPrefix network) start \<and> prefixContains (nwPrefix network) stop
                    then gm_put (fiNetwork iface) iface m else m) [] interfaces in
              if candidates = [] then add CodeDHCPPoolOutsideNetwork (dhcpField device) c
              else if 1 < length candidates then add CodeDHCPNetworkAmbiguous (dhcpField device) c
              else foldl (\<lambda>c (_, iface). appendDHCPScope device d iface c) c candidates
          | _ \<Rightarrow> add CodeDHCPPoolOutsideNetwork (dhcpField device) c)"

section \<open>Relayed scopes (compiler\_dhcp\_relay.go)\<close>

definition validRelayStep :: "dhcpRelaySource list \<times> scenarioCompiler \<Rightarrow> dhcpRelaySource \<Rightarrow> dhcpRelaySource list \<times> scenarioCompiler" where
  "validRelayStep st relay =
     (case st of (valid, c) \<Rightarrow>
      if \<not> RoutesIP (Parse (fdType (drDevice relay))) then (valid, add CodeInvalidDHCPRelay (drField relay) c)
      else case ParseAddr (drTarget relay) of
        None \<Rightarrow> (valid, add CodeInvalidDHCPRelay (drField relay) c)
      | Some target \<Rightarrow>
          if \<not> Is4 target then (valid, add CodeInvalidDHCPRelay (drField relay) c)
          else (valid @ [relay\<lparr>drAddress := target\<rparr>], c))"

definition validDHCPRelays :: "scenarioCompiler \<Rightarrow> dhcpRelaySource list \<times> scenarioCompiler" where
  "validDHCPRelays c = foldl validRelayStep ([], c) (fcRelays c)"

definition networkContaining :: "Addr \<Rightarrow> scenarioCompiler \<Rightarrow> Network option" where
  "networkContaining address c = map_option snd (find (\<lambda>(_, n). prefixContains (nwPrefix n) address) (fcNetworks c))"

definition relaysToServer :: "Network \<Rightarrow> (string, Interface) gomap \<Rightarrow> dhcpRelaySource \<Rightarrow> bool" where
  "relaysToServer network interfaces relay \<longleftrightarrow> fiNetwork (drIface relay) = nwName network \<and>
     list_ex (\<lambda>(_, iface). prefixAddr (fiAddress iface) = drAddress relay) interfaces"

definition compileRelayedScope ::
  "FabricDevice \<Rightarrow> (string, Interface) gomap \<Rightarrow> dhcpRelaySource list \<Rightarrow> bool list \<times> scenarioCompiler \<Rightarrow> nat \<times> ScopeSource \<Rightarrow>
     bool list \<times> scenarioCompiler" where
  "compileRelayedScope device interfaces relays st indexScope =
     (case (st, indexScope) of ((used, c), (index, scope)) \<Rightarrow>
      let field = indexed (dhcpField device @ ''.scopes'') index in
      case (ipToAddr (ssPoolStart scope), ipToAddr (ssPoolEnd scope)) of
        (Some start, Some stop) \<Rightarrow>
          (case networkContaining start c of
            None \<Rightarrow> (used, add CodeDHCPPoolOutsideNetwork field c)
          | Some network \<Rightarrow>
              if \<not> prefixContains (nwPrefix network) stop then (used, add CodeDHCPPoolOutsideNetwork field c)
              else if stop < start then (used, add CodeInvalidDHCPRange field c)
              else if isReservedEndpoint (nwPrefix network) start \<or> isReservedEndpoint (nwPrefix network) stop
                then (used, add CodeReservedDHCPAddress field c)
              else case ipToAddr (ssRouter scope) of
                None \<Rightarrow> (used, add CodeInvalidDHCPRouter (field @ ''.router'') c)
              | Some router \<Rightarrow>
                  if \<not> prefixContains (nwPrefix network) router \<or> isReservedEndpoint (nwPrefix network) router
                    then (used, add CodeInvalidDHCPRouter (field @ ''.router'') c)
                  else if list_ex (\<lambda>(_, iface). fiNetwork iface = nwName network) interfaces then (used, add CodeInvalidDHCPRelay field c)
                  else case find (relaysToServer network interfaces) relays of
                    None \<Rightarrow> (used, add CodeInvalidDHCPRelay field c)
                  | Some relay \<Rightarrow>
                      case validateDHCPPoolCollisions device (nwName network) start stop c of
                        (False, c1) \<Rightarrow> (used, c1)
                      | (True, c1) \<Rightarrow>
                          (map2 (\<lambda>u r. u \<or> relaysToServer network interfaces r) used relays,
                           c1\<lparr>fcScopes := fcScopes c1 @ [\<lparr>dsDevice = fdName device, dsNetwork = nwName network, dsStart = start, dsEnd = stop,
                             dsRouter = router, dsRelay = Some \<lparr>rlDevice = fdName (drDevice relay), rlInterface = fiName (drIface relay),
                               rlAddress = prefixAddr (fiAddress (drIface relay)), rlServer = drAddress relay\<rparr>\<rparr>]\<rparr>))
      | _ \<Rightarrow> (used, add CodeDHCPPoolOutsideNetwork field c))"

definition relayedStep ::
  "dhcpRelaySource list \<Rightarrow> bool list \<times> scenarioCompiler \<Rightarrow> FabricDevice \<times> (string, Interface) gomap option \<Rightarrow> bool list \<times> scenarioCompiler" where
  "relayedStep relays st deviceInterfaces =
     (case deviceInterfaces of
        (device, Some interfaces) \<Rightarrow>
          (case fdDHCPConfig device of
             None \<Rightarrow> st
           | Some d \<Rightarrow> foldl (compileRelayedScope device interfaces relays) st (enumerate 0 (dcScopes d)))
      | (device, None) \<Rightarrow> st)"

definition compileRelayedDHCP :: "(FabricDevice \<times> (string, Interface) gomap option) list \<Rightarrow> scenarioCompiler \<Rightarrow> scenarioCompiler" where
  "compileRelayedDHCP interfacesByDevice c =
     (case validDHCPRelays c of (relays, c1) \<Rightarrow>
      case foldl (relayedStep relays) (replicate (length relays) False, c1) interfacesByDevice of (used, c2) \<Rightarrow>
      foldl (\<lambda>c (relay, u). if \<not> u then add CodeInvalidDHCPRelay (drField relay) c else c) c2 (zip relays used))"

section \<open>Devices\<close>

definition deviceStep ::
  "(FabricDevice \<times> (string, Interface) gomap option) list \<times> scenarioCompiler \<Rightarrow> nat \<times> FabricDevice \<Rightarrow>
     (FabricDevice \<times> (string, Interface) gomap option) list \<times> scenarioCompiler" where
  "deviceStep st indexDevice =
     (case (st, indexDevice) of ((compiled, c), (i, device)) \<Rightarrow>
      if gm_has (fcDevices c) (fdName device) then (compiled @ [(device, None)], add CodeDuplicateDevice (indexed ''devices'' i @ ''.name'') c)
      else case compileInterfaces device (c\<lparr>fcDevices := gm_put (fdName device) () (fcDevices c)\<rparr>) of
        (interfaces, c1) \<Rightarrow> (compiled @ [(device, Some interfaces)], c1))"

definition serviceStep :: "scenarioCompiler \<Rightarrow> FabricDevice \<times> (string, Interface) gomap option \<Rightarrow> scenarioCompiler" where
  "serviceStep c deviceInterfaces =
     (case deviceInterfaces of
        (device, None) \<Rightarrow> c
      | (device, Some interfaces) \<Rightarrow> compileDHCP device interfaces (compileRoutes device interfaces c))"

definition compileDevices :: "FabricConfig \<Rightarrow> scenarioCompiler \<Rightarrow> scenarioCompiler" where
  "compileDevices cfg c =
     (case foldl deviceStep ([], c) (enumerate 0 (fgDevices cfg)) of (interfacesByDevice, c1) \<Rightarrow>
      compileRelayedDHCP interfacesByDevice (foldl serviceStep c1 interfacesByDevice))"

section \<open>Attachment pools (compiler\_attachment.go)\<close>

definition validateAttachmentForm :: "LogicalAttachment \<Rightarrow> string \<Rightarrow> scenarioCompiler \<Rightarrow> bool \<times> scenarioCompiler" where
  "validateAttachmentForm attachment field c =
     (if laNetwork attachment \<noteq> [] \<and> laAt attachment \<noteq> [] then (False, add CodeAttachmentFormAmbiguous field c)
      else if laNetwork attachment = [] \<and> laAt attachment = [] then (False, add CodeAttachmentFormAmbiguous field c)
      else (True, c))"

definition deviceByName :: "FabricConfig \<Rightarrow> string \<Rightarrow> FabricDevice option" where
  "deviceByName cfg name = find (\<lambda>d. fdName d = name) (fgDevices cfg)"

definition interfaceByName :: "FabricDevice \<Rightarrow> string \<Rightarrow> InterfaceSource option" where
  "interfaceByName device name = find (\<lambda>i. siName i = name) (fdInterfaces device)"

definition portOccupation :: "FabricDevice \<Rightarrow> string \<Rightarrow> string" where
  "portOccupation device name =
     (case find (\<lambda>t. tpInterface t = name) (fdTrunkPorts device) of
        Some trunk \<Rightarrow> if tpFDBOnly trunk then ''a client learned in the forwarding database'' else ''a link to '' @ tpRemoteDevice trunk
      | None \<Rightarrow>
          case find (\<lambda>ch. name \<in> set (pcMembers ch)) (fdPortChannels device) of
            Some channel \<Rightarrow> ''port-channel'' @ itoa (pcID channel)
          | None \<Rightarrow> [])"

definition accessVLAN :: "InterfaceSource \<Rightarrow> (16 word) option" where
  "accessVLAN iface =
     (case siVLANs iface of
        [vlan] \<Rightarrow> if vlan < 1 \<or> 4094 < vlan then None else Some (word_of_int vlan)
      | _ \<Rightarrow> None)"

definition trunkCarriesVLAN :: "TrunkPort \<Rightarrow> 16 word \<Rightarrow> bool" where
  "trunkCarriesVLAN trunk vlan \<longleftrightarrow> tpNativeVLAN trunk = uint vlan \<or> uint vlan \<in> set (tpVLANs trunk)"

text \<open>One link of the device being visited: the domain and the queue.\<close>

definition visitTrunk :: "16 word \<Rightarrow> (string, unit) gomap \<times> string list \<Rightarrow> TrunkPort \<Rightarrow> (string, unit) gomap \<times> string list" where
  "visitTrunk vlan st trunk =
     (case st of (domain, queue) \<Rightarrow>
      let neighbour = tpRemoteDevice trunk in
      if neighbour = [] \<or> tpFDBOnly trunk \<or> \<not> trunkCarriesVLAN trunk vlan then st
      else if gm_has domain neighbour then st
      else (gm_put neighbour () domain, queue @ [neighbour]))"

function domainLoop :: "FabricConfig \<Rightarrow> 16 word \<Rightarrow> (string, unit) gomap \<Rightarrow> string list \<Rightarrow> (string, unit) gomap" where
  "domainLoop cfg vlan domain [] = domain"
| "domainLoop cfg vlan domain (current # queue) =
     (case deviceByName cfg current of
        None \<Rightarrow> domainLoop cfg vlan domain queue
      | Some device \<Rightarrow>
          let next = foldl (visitTrunk vlan) (domain, queue) (fdTrunkPorts device) in domainLoop cfg vlan (fst next) (snd next))"
  by pat_completeness auto

text \<open>The loop ends: the links name finitely many devices, and each enters the queue once.\<close>

definition linkNames :: "FabricConfig \<Rightarrow> string set" where
  "linkNames cfg = tpRemoteDevice ` (\<Union>d \<in> set (fgDevices cfg). set (fdTrunkPorts d))"

definition loopWork :: "FabricConfig \<Rightarrow> (string, unit) gomap \<Rightarrow> string list \<Rightarrow> nat" where
  "loopWork cfg domain queue = card (linkNames cfg - fst ` set domain) + length queue"

lemma gm_has_iff: "gm_has m k \<longleftrightarrow> k \<in> fst ` set m"
  by (auto simp: gm_has_def map_of_eq_None_iff)

lemma finite_linkNames [simp]: "finite (linkNames cfg)"
  by (simp add: linkNames_def)

lemma visitTrunk_work:
  assumes "tpRemoteDevice trunk \<in> linkNames cfg"
  shows "loopWork cfg (fst (visitTrunk vlan st trunk)) (snd (visitTrunk vlan st trunk)) \<le> loopWork cfg (fst st) (snd st)"
proof (cases st)
  case (Pair domain queue)
  let ?n = "tpRemoteDevice trunk"
  have "card (linkNames cfg - insert ?n (fst ` set domain)) + 1 = card (linkNames cfg - fst ` set domain)" if "?n \<notin> fst ` set domain"
  proof -
    have "card (linkNames cfg - fst ` set domain) = Suc (card (linkNames cfg - fst ` set domain - {?n}))"
      using assms that by (intro card.remove) auto
    moreover have "linkNames cfg - fst ` set domain - {?n} = linkNames cfg - insert ?n (fst ` set domain)" by auto
    ultimately show ?thesis by simp
  qed
  then show ?thesis by (auto simp: Pair visitTrunk_def Let_def loopWork_def gm_has_iff set_gm_put_fst)
qed

lemma visitTrunks_work:
  assumes "\<forall>t \<in> set ts. tpRemoteDevice t \<in> linkNames cfg"
  shows "loopWork cfg (fst (foldl (visitTrunk vlan) st ts)) (snd (foldl (visitTrunk vlan) st ts)) \<le> loopWork cfg (fst st) (snd st)"
  using assms
proof (induction ts arbitrary: st)
  case (Cons t ts)
  then have "loopWork cfg (fst (foldl (visitTrunk vlan) st (t # ts))) (snd (foldl (visitTrunk vlan) st (t # ts)))
      \<le> loopWork cfg (fst (visitTrunk vlan st t)) (snd (visitTrunk vlan st t))" by simp
  also have "\<dots> \<le> loopWork cfg (fst st) (snd st)" using Cons.prems by (intro visitTrunk_work) simp
  finally show ?case .
qed simp

lemma deviceByName_mem: "deviceByName cfg name = Some d \<Longrightarrow> d \<in> set (fgDevices cfg) \<and> fdName d = name"
  by (auto simp: deviceByName_def find_Some_iff)

termination domainLoop
proof (relation "measure (\<lambda>(cfg, vlan, domain, queue). loopWork cfg domain queue)", goal_cases)
  case (3 cfg vlan domain current queue device nxt)
  then have "\<forall>t \<in> set (fdTrunkPorts device). tpRemoteDevice t \<in> linkNames cfg"
    using deviceByName_mem by (force simp: linkNames_def)
  from visitTrunks_work [OF this, of vlan "(domain, queue)"] show ?case using 3 by (auto simp: loopWork_def split: prod.splits)
qed (simp_all add: loopWork_def)

definition broadcastDomain :: "FabricConfig \<Rightarrow> FabricDevice \<Rightarrow> 16 word \<Rightarrow> (string, unit) gomap" where
  "broadcastDomain cfg from vlan = domainLoop cfg vlan [(fdName from, ())] [fdName from]"

datatype vlanNetworkResolution = vlanNetworkMissing | vlanNetworkResolved | vlanNetworkAmbiguous

definition servingStep :: "scenarioCompiler \<Rightarrow> 16 word \<Rightarrow> string list \<Rightarrow> InterfaceSource \<Rightarrow> string list" where
  "servingStep c vlan found iface =
     (let name = siNetwork iface in
      if name = [] \<or> name \<in> set found then found
      else case map_of (fcNetworks c) name of
        Some network \<Rightarrow> if nwVirtualVLAN network = vlan then found @ [name] else found
      | None \<Rightarrow> found)"

definition networkServingVLAN :: "FabricConfig \<Rightarrow> 16 word \<Rightarrow> (string, unit) gomap \<Rightarrow> scenarioCompiler \<Rightarrow> string \<times> vlanNetworkResolution" where
  "networkServingVLAN cfg vlan domain c =
     (let found = foldl (\<lambda>found device. if \<not> gm_has domain (fdName device) then found
            else foldl (servingStep c vlan) found (fdInterfaces device)) [] (fgDevices cfg) in
      case found of
        [] \<Rightarrow> ([], vlanNetworkMissing)
      | [name] \<Rightarrow> (name, vlanNetworkResolved)
      | _ \<Rightarrow> ([], vlanNetworkAmbiguous))"

definition compileAttachmentPoolPort ::
  "FabricConfig \<Rightarrow> FabricDevice \<Rightarrow> string \<Rightarrow> string \<Rightarrow> scenarioCompiler \<Rightarrow> AttachmentPort option \<times> scenarioCompiler" where
  "compileAttachmentPoolPort cfg device name field c =
     (case interfaceByName device name of
        None \<Rightarrow> (None, add CodeUnknownAttachmentPort field c)
      | Some iface \<Rightarrow>
          if portOccupation device name \<noteq> [] then (None, add CodeAttachmentPortOccupied field c)
          else case accessVLAN iface of
            None \<Rightarrow> (None, add CodeAttachmentPortVLANUnresolved field c)
          | Some vlan \<Rightarrow>
              case networkServingVLAN cfg vlan (broadcastDomain cfg device vlan) c of
                (network, vlanNetworkResolved) \<Rightarrow>
                  (Some \<lparr>apDevice = fdName device, apInterface = name, apVLAN = vlan, apNetwork = network\<rparr>, c)
              | (_, vlanNetworkAmbiguous) \<Rightarrow> (None, add CodeAttachmentPortNetworkAmbiguous field c)
              | (_, vlanNetworkMissing) \<Rightarrow> (None, add CodeAttachmentPortNetworkUnresolved field c))"

definition portKey :: "string \<Rightarrow> string \<Rightarrow> string" where
  "portKey device name = device @ [CHR 0x00] @ name"

text \<open>The state of \<open>compileAttachmentPool\<close>: the ports resolved, the keys seen, whether all is well, and the compiler.\<close>

type_synonym poolState = "AttachmentPort list \<times> (string, unit) gomap \<times> bool \<times> scenarioCompiler"

definition poolPortStep :: "FabricConfig \<Rightarrow> FabricDevice \<Rightarrow> string \<Rightarrow> poolState \<Rightarrow> nat \<times> string \<Rightarrow> poolState" where
  "poolPortStep cfg device groupField st indexName =
     (case (st, indexName) of ((ports, seen, ok, c), (j, name)) \<Rightarrow>
      let portField = indexed (groupField @ ''.ports'') j; key = portKey (fdName device) name in
      if gm_has seen key then (ports, seen, False, add CodeDuplicateAttachmentPort portField c)
      else case compileAttachmentPoolPort cfg device name portField c of
        (None, c1) \<Rightarrow> (ports, gm_put key () seen, False, c1)
      | (Some port, c1) \<Rightarrow> (ports @ [port], gm_put key () seen, ok, c1))"

definition poolGroupStep :: "FabricConfig \<Rightarrow> string \<Rightarrow> poolState \<Rightarrow> nat \<times> PortGroup \<Rightarrow> poolState" where
  "poolGroupStep cfg field st indexGroup =
     (case (st, indexGroup) of ((ports, seen, ok, c), (k, grp)) \<Rightarrow>
      let groupField = indexed (field @ ''.at'') k in
      case deviceByName cfg (pgDevice grp) of
        None \<Rightarrow> (ports, seen, False, add CodeUnknownAttachmentDevice (groupField @ ''.device'') c)
      | Some device \<Rightarrow>
          if pgPorts grp = [] then (ports, seen, False, add CodeAttachmentPoolEmpty (groupField @ ''.ports'') c)
          else foldl (poolPortStep cfg device groupField) st (enumerate 0 (pgPorts grp)))"

text \<open>\<open>None\<close> for a pool without ports, which the caller never passes.\<close>

definition resolvePoolNetwork :: "AttachmentPort list \<Rightarrow> string \<Rightarrow> scenarioCompiler \<Rightarrow> string option \<times> scenarioCompiler" where
  "resolvePoolNetwork ports field c =
     (let networks = foldl (\<lambda>ns port. if apNetwork port \<in> set ns then ns else ns @ [apNetwork port]) [] ports in
      case networks of
        [] \<Rightarrow> (None, c)
      | [network] \<Rightarrow> (Some network, c)
      | _ \<Rightarrow> (None, add CodeAttachmentPoolNetworksDiffer (field @ ''.at'') c))"

definition pinStep ::
  "AttachmentPort list \<Rightarrow> string \<Rightarrow> AttachmentPin list \<times> (string, unit) gomap \<times> scenarioCompiler \<Rightarrow> nat \<times> PinSource \<Rightarrow>
     AttachmentPin list \<times> (string, unit) gomap \<times> scenarioCompiler" where
  "pinStep ports field st indexPin =
     (case (st, indexPin) of ((pins, pinned, c), (j, pin)) \<Rightarrow>
      let pinField = indexed (field @ ''.pins'') j in
      case ParseMAC (pnMAC pin) of
        None \<Rightarrow> (pins, pinned, add CodeInvalidAttachmentPinMAC (pinField @ ''.mac'') c)
      | Some hardware \<Rightarrow>
          if \<not> list_ex (\<lambda>port. apDevice port = pnDevice pin \<and> apInterface port = pnInterface pin) ports
            then (pins, pinned, add CodeAttachmentPinOutsidePool pinField c)
          else if gm_has pinned (portKey (pnDevice pin) (pnInterface pin)) then (pins, pinned, add CodeAttachmentPinDuplicate pinField c)
          else (pins @ [\<lparr>aiMAC = macString hardware, aiDevice = pnDevice pin, aiInterface = pnInterface pin\<rparr>],
                gm_put (portKey (pnDevice pin) (pnInterface pin)) () pinned, c))"

definition compileAttachmentPins :: "LogicalAttachment \<Rightarrow> AttachmentPort list \<Rightarrow> string \<Rightarrow> scenarioCompiler \<Rightarrow> AttachmentPin list \<times> scenarioCompiler" where
  "compileAttachmentPins attachment ports field c =
     (case foldl (pinStep ports field) ([], [], c) (enumerate 0 (laPins attachment)) of (pins, pinned, c1) \<Rightarrow> (pins, c1))"

definition compileAttachmentPool :: "FabricConfig \<Rightarrow> LogicalAttachment \<Rightarrow> string \<Rightarrow> scenarioCompiler \<Rightarrow> CompiledAttachment option \<times> scenarioCompiler" where
  "compileAttachmentPool cfg attachment field c =
     (case foldl (poolGroupStep cfg field) ([], [], True, c) (enumerate 0 (laAt attachment)) of (ports, seen, ok, c1) \<Rightarrow>
      if \<not> ok then (None, c1)
      else case resolvePoolNetwork ports field c1 of
        (None, c2) \<Rightarrow> (None, c2)
      | (Some network, c2) \<Rightarrow>
          case compileAttachmentPins attachment ports field c2 of (pins, c3) \<Rightarrow>
          (Some \<lparr>caName = laName attachment, caNetwork = network, caPorts = ports, caPins = pins\<rparr>, c3))"

definition attachmentStep :: "FabricConfig \<Rightarrow> scenarioCompiler \<Rightarrow> nat \<times> LogicalAttachment \<Rightarrow> scenarioCompiler" where
  "attachmentStep cfg c indexAttachment =
     (case indexAttachment of (i, attachment) \<Rightarrow>
      let field = indexed ''attachments'' i in
      case validateAttachmentForm attachment field c of
        (False, c1) \<Rightarrow> c1
      | (True, c1) \<Rightarrow>
          if laAt attachment = [] then c1
          else case compileAttachmentPool cfg attachment field c1 of
            (None, c2) \<Rightarrow> c2
          | (Some compiled, c2) \<Rightarrow> c2\<lparr>fcAttachments := fcAttachments c2 @ [compiled]\<rparr>)"

definition compileAttachments :: "FabricConfig \<Rightarrow> scenarioCompiler \<Rightarrow> scenarioCompiler" where
  "compileAttachments cfg c = foldl (attachmentStep cfg) c (enumerate 0 (fgAttachments cfg))"

definition bindPoolNetwork :: "Binding \<Rightarrow> scenarioCompiler \<Rightarrow> scenarioCompiler" where
  "bindPoolNetwork binding c =
     (if bdAttachment binding = [] \<or> cbNetwork (fcBinding c) \<noteq> [] then c
      else case find (\<lambda>a. caName a = bdAttachment binding) (fcAttachments c) of
        None \<Rightarrow> c
      | Some a \<Rightarrow> c\<lparr>fcBinding := (fcBinding c)\<lparr>cbNetwork := caNetwork a\<rparr>\<rparr>)"

definition compileScenario :: "FabricConfig option \<Rightarrow> Binding \<Rightarrow> scenarioCompiler \<Rightarrow> Report" where
  "compileScenario cfg binding c =
     (let c1 = (case cfg of None \<Rightarrow> c | Some g \<Rightarrow> compileAttachments g (compileDevices g (compileNetworks g c))) in
      report (bindPoolNetwork binding c1))"

definition Compile :: "FabricConfig option \<Rightarrow> Binding \<Rightarrow> Report" where
  "Compile cfg binding = compileScenario cfg binding (compileBinding cfg binding newScenarioCompiler)"

definition CompileConfig :: "FabricConfig option \<Rightarrow> Report" where
  "CompileConfig cfg = compileScenario cfg zeroBinding newScenarioCompiler"

end
