(* ===== verification/Fabric_Frames.thy ===== *)
theory Fabric_Frames
  imports Fabric_Compiler
begin

text \<open>
  What the steps of the fabric compiler read and write.  \<open>under b ds\<close> puts a binding and earlier diagnostics under a compiler: every step but the
  check of the attachment's network commutes with it (collection \<open>under_steps\<close>), so a step neither reads the binding nor the diagnostics and only
  appends to them.  The locales \<open>step_view\<close>, \<open>attachment_view\<close>, \<open>interface_view\<close>, \<open>dhcp_view\<close>, \<open>service_view\<close> and \<open>device_view\<close> say which fields the later steps leave alone.  \<open>plain\<close> says that the diagnostics of a compiler are about the configuration, which every such step keeps (collection \<open>plain_steps\<close>).
\<close>

named_theorems under_steps \<open>steps of the compiler commute with a binding and earlier diagnostics\<close>
named_theorems plain_steps \<open>steps of the compiler add only diagnostics about the configuration\<close>

definition under :: "CompiledBinding \<Rightarrow> Diagnostic list \<Rightarrow> scenarioCompiler \<Rightarrow> scenarioCompiler" where
  "under b ds c = c\<lparr>fcBinding := b, fcDiagnostics := ds @ fcDiagnostics c\<rparr>"

definition plain :: "scenarioCompiler \<Rightarrow> bool" where
  "plain c \<longleftrightarrow> list_all (\<lambda>d. \<not> IsBinding (fst d)) (fcDiagnostics c)"

section \<open>Fields and updates\<close>

lemma under_fields [simp]:
  "fcNetworks (under b ds c) = fcNetworks c" "fcDevices (under b ds c) = fcDevices c" "fcAddresses (under b ds c) = fcAddresses c"
  "fcLeaseAddresses (under b ds c) = fcLeaseAddresses c" "fcLeaseMACs (under b ds c) = fcLeaseMACs c" "fcRelays (under b ds c) = fcRelays c"
  "fcBinding (under b ds c) = b" "fcTopNetworks (under b ds c) = fcTopNetworks c" "fcInterfaces (under b ds c) = fcInterfaces c"
  "fcRoutes (under b ds c) = fcRoutes c" "fcScopes (under b ds c) = fcScopes c" "fcAttachments (under b ds c) = fcAttachments c"
  "fcDiagnostics (under b ds c) = ds @ fcDiagnostics c" "networkOf (under b ds c) = networkOf c"
  by (simp_all add: under_def networkOf_def fun_eq_iff)

lemma under_updates [simp]:
  "(under b ds c)\<lparr>fcNetworks := x1\<rparr> = under b ds (c\<lparr>fcNetworks := x1\<rparr>)"
  "(under b ds c)\<lparr>fcDevices := x2\<rparr> = under b ds (c\<lparr>fcDevices := x2\<rparr>)"
  "(under b ds c)\<lparr>fcAddresses := x3\<rparr> = under b ds (c\<lparr>fcAddresses := x3\<rparr>)"
  "(under b ds c)\<lparr>fcLeaseAddresses := x4\<rparr> = under b ds (c\<lparr>fcLeaseAddresses := x4\<rparr>)"
  "(under b ds c)\<lparr>fcLeaseMACs := x5\<rparr> = under b ds (c\<lparr>fcLeaseMACs := x5\<rparr>)"
  "(under b ds c)\<lparr>fcRelays := x6\<rparr> = under b ds (c\<lparr>fcRelays := x6\<rparr>)"
  "(under b ds c)\<lparr>fcTopNetworks := x7\<rparr> = under b ds (c\<lparr>fcTopNetworks := x7\<rparr>)"
  "(under b ds c)\<lparr>fcInterfaces := x8\<rparr> = under b ds (c\<lparr>fcInterfaces := x8\<rparr>)"
  "(under b ds c)\<lparr>fcRoutes := x9\<rparr> = under b ds (c\<lparr>fcRoutes := x9\<rparr>)"
  "(under b ds c)\<lparr>fcScopes := x10\<rparr> = under b ds (c\<lparr>fcScopes := x10\<rparr>)"
  "(under b ds c)\<lparr>fcAttachments := x11\<rparr> = under b ds (c\<lparr>fcAttachments := x11\<rparr>)"
  by (simp_all add: under_def)

lemma under_add [simp]: "add code f (under b ds c) = under b ds (add code f c)"
  by (simp add: under_def add_def)

lemma under_self: "under (fcBinding c) (fcDiagnostics c) (c\<lparr>fcDiagnostics := []\<rparr>) = c"
  by (simp add: under_def)

lemma plain_add [simp]: "plain (add code f c) \<longleftrightarrow> plain c \<and> \<not> IsBinding code"
  by (auto simp: plain_def add_def)

lemma plain_updates [simp]:
  "plain (c\<lparr>fcNetworks := x1\<rparr>) = plain c" "plain (c\<lparr>fcDevices := x2\<rparr>) = plain c" "plain (c\<lparr>fcAddresses := x3\<rparr>) = plain c"
  "plain (c\<lparr>fcLeaseAddresses := x4\<rparr>) = plain c" "plain (c\<lparr>fcLeaseMACs := x5\<rparr>) = plain c" "plain (c\<lparr>fcRelays := x6\<rparr>) = plain c"
  "plain (c\<lparr>fcTopNetworks := x7\<rparr>) = plain c" "plain (c\<lparr>fcInterfaces := x8\<rparr>) = plain c" "plain (c\<lparr>fcRoutes := x9\<rparr>) = plain c"
  "plain (c\<lparr>fcScopes := x10\<rparr>) = plain c" "plain (c\<lparr>fcAttachments := x11\<rparr>) = plain c" "plain (c\<lparr>fcBinding := x12\<rparr>) = plain c"
  by (simp_all add: plain_def)

lemma config_codes [simp]:
  "\<not> IsBinding CodeUnknownNetwork" "\<not> IsBinding CodeInvalidNetwork" "\<not> IsBinding CodeInvalidVirtualVLAN" "\<not> IsBinding CodeDuplicateNetwork"
  "\<not> IsBinding CodeDuplicateDevice" "\<not> IsBinding CodeDuplicateInterface" "\<not> IsBinding CodeDuplicateInterfaceAddr"
  "\<not> IsBinding CodeOverlappingNetworks" "\<not> IsBinding CodeInvalidInterfaceAddress" "\<not> IsBinding CodeAddressOutsideNetwork"
  "\<not> IsBinding CodeInterfacePrefixMismatch" "\<not> IsBinding CodeReservedInterfaceAddr" "\<not> IsBinding CodeUnknownRouteInterface"
  "\<not> IsBinding CodeInvalidRoute" "\<not> IsBinding CodeInvalidRouteNextHop" "\<not> IsBinding CodeRouteNextHopOffLink"
  "\<not> IsBinding CodeUnknownRouteNextHop" "\<not> IsBinding CodeRouteNextHopSelf" "\<not> IsBinding CodeDHCPNetworkAmbiguous"
  "\<not> IsBinding CodeDHCPPoolOutsideNetwork" "\<not> IsBinding CodeInvalidDHCPRange" "\<not> IsBinding CodeInvalidDHCPRouter"
  "\<not> IsBinding CodeInvalidDHCPLease" "\<not> IsBinding CodeInvalidDHCPOption" "\<not> IsBinding CodeReservedDHCPAddress"
  "\<not> IsBinding CodeDHCPAddressCollision" "\<not> IsBinding CodeInvalidDHCPRelay" "\<not> IsBinding CodeAttachmentFormAmbiguous"
  "\<not> IsBinding CodeUnknownAttachmentDevice" "\<not> IsBinding CodeUnknownAttachmentPort" "\<not> IsBinding CodeDuplicateAttachmentPort"
  "\<not> IsBinding CodeAttachmentPoolEmpty" "\<not> IsBinding CodeAttachmentPortOccupied" "\<not> IsBinding CodeAttachmentPortVLANUnresolved"
  "\<not> IsBinding CodeAttachmentPortNetworkUnresolved" "\<not> IsBinding CodeAttachmentPortNetworkAmbiguous"
  "\<not> IsBinding CodeAttachmentPoolNetworksDiffer" "\<not> IsBinding CodeAttachmentPinOutsidePool" "\<not> IsBinding CodeAttachmentPinDuplicate"
  "\<not> IsBinding CodeInvalidAttachmentPinMAC"
  by (simp_all add: IsBinding_def bindingDiagnosticCodes_def)

section \<open>Loops\<close>

lemma foldl_under: "(\<And>c x. f (u c) x = u (f c x)) \<Longrightarrow> foldl f (u c) xs = u (foldl f c xs)"
  by (induction xs arbitrary: c) auto

lemma foldl_keeps: "P c \<Longrightarrow> (\<And>c x. P c \<Longrightarrow> x \<in> set xs \<Longrightarrow> P (f c x)) \<Longrightarrow> P (foldl f c xs)"
  by (induction xs arbitrary: c) auto

text \<open>Moving \<open>under\<close> inward through the branches of a step.\<close>

lemma case_apsnd: "(case apsnd g p of (x, y) \<Rightarrow> f x y) = (case p of (x, y) \<Rightarrow> f x (g y))"
  by (cases p) simp

lemmas inward = if_distrib [of "under b ds" for b ds] option.case_distrib [of "under b ds" for b ds] prod.case_distrib [of "under b ds" for b ds]
  if_distrib [of "apsnd (under b ds)" for b ds] option.case_distrib [of "apsnd (under b ds)" for b ds]
  prod.case_distrib [of "apsnd (under b ds)" for b ds] sum.case_distrib [of "under b ds" for b ds]
  bool.case_distrib [of "under b ds" for b ds] bool.case_distrib [of "apsnd (under b ds)" for b ds] case_apsnd
  if_distrib [of "apsnd (apsnd (under b ds))" for b ds] option.case_distrib [of "apsnd (apsnd (under b ds))" for b ds]
  prod.case_distrib [of "apsnd (apsnd (under b ds))" for b ds]

lemma sum_case_pair: "h (case x of Inl (a, b) \<Rightarrow> f a b | Inr y \<Rightarrow> g y) = (case x of Inl (a, b) \<Rightarrow> h (f a b) | Inr y \<Rightarrow> h (g y))"
  by (auto split: sum.splits prod.splits)

section \<open>Networks\<close>

lemma compileSubnetV6_under [under_steps]: "compileSubnetV6 field s (under b ds c) = apsnd (under b ds) (compileSubnetV6 field s c)"
  by (simp add: compileSubnetV6_def split: option.splits)

lemma checkOverlap_under [under_steps]: "checkOverlap field n (under b ds c) = under b ds (checkOverlap field n c)"
  by (simp add: checkOverlap_def split: option.splits)

lemma compileNetwork_under [under_steps]: "compileNetwork (under b ds c) x = under b ds (compileNetwork c x)"
  by (cases "compileSubnetV6 (indexed ''networks'' (fst x)) (nsSubnetV6 (snd x)) c")
    (simp add: compileNetwork_def under_steps Let_def split: option.splits prod.splits)

lemma compileSubnetV6_plain [plain_steps]: "compileSubnetV6 field s c = (r, c') \<Longrightarrow> plain c \<Longrightarrow> plain c'"
  by (auto simp: compileSubnetV6_def split: option.splits if_splits)

lemma checkOverlap_plain [plain_steps]: "plain c \<Longrightarrow> plain (checkOverlap field n c)"
  by (simp add: checkOverlap_def split: option.splits)

lemma compileNetwork_plain [plain_steps]: "plain c \<Longrightarrow> plain (compileNetwork c x)"
  by (auto simp: compileNetwork_def Let_def split: option.splits prod.splits intro: plain_steps)

section \<open>Interfaces and routes\<close>

lemma compileInterfaceV6_under [under_steps]:
  "compileInterfaceV6 n s field (under b ds c) = apsnd (under b ds) (compileInterfaceV6 n s field c)"
  by (simp add: compileInterfaceV6_def split: option.splits)

lemma compileInterface_under [under_steps]:
  "compileInterface d src field (under b ds c) = apsnd (under b ds) (compileInterface d src field c)"
  by (simp add: compileInterface_def under_steps Let_def inward cong: if_cong option.case_cong prod.case_cong)

lemma compileInterfaceV6_plain [plain_steps]: "compileInterfaceV6 n s field c = (r, c') \<Longrightarrow> plain c \<Longrightarrow> plain c'"
  by (auto simp: compileInterfaceV6_def split: option.splits if_splits)

lemma compileInterface_plain [plain_steps]: "compileInterface d src field c = (r, c') \<Longrightarrow> plain c \<Longrightarrow> plain c'"
  by (auto simp: compileInterface_def Let_def split: option.splits prod.splits if_splits intro: compileInterfaceV6_plain)

lemma interfaceStep_under [under_steps]:
  "interfaceStep d (apsnd (apsnd (under b ds)) st) x = apsnd (apsnd (under b ds)) (interfaceStep d st x)"
proof (cases st; cases x)
  fix compiled names c i source
  assume "st = (compiled, names, c)" "x = (i, source)"
  then show ?thesis
    by (cases "compileInterface (fdName d) source (indexed (''devices['' @ fdName d @ ''].interfaces'') i) c"; cases "fst (compileInterface (fdName d) source (indexed (''devices['' @ fdName d @ ''].interfaces'') i) c)")
      (simp_all add: interfaceStep_def under_steps Let_def)
qed

lemma compileInterfaces_under [under_steps]: "compileInterfaces d (under b ds c) = apsnd (under b ds) (compileInterfaces d c)"
  using foldl_under [of "interfaceStep d" "apsnd (apsnd (under b ds))" "([], [], c)", OF interfaceStep_under]
  by (simp add: compileInterfaces_def split: prod.splits)

lemma routeStep_under [under_steps]: "routeStep d ifs (under b ds c) x = under b ds (routeStep d ifs c x)"
  by (cases x) (simp add: routeStep_def Let_def sum_case_pair [of "under b ds"] split: sum.split)

lemma compileRoutes_under [under_steps]: "compileRoutes d ifs (under b ds c) = under b ds (compileRoutes d ifs c)"
  by (simp add: compileRoutes_def foldl_under routeStep_under)

lemma interfaceStep_plain: "plain (snd (snd st)) \<Longrightarrow> plain (snd (snd (interfaceStep d st x)))"
  by (cases st; cases x) (auto simp: interfaceStep_def Let_def split: option.splits prod.splits dest: compileInterface_plain)

lemma compileInterfaces_plain [plain_steps]: "compileInterfaces d c = (r, c') \<Longrightarrow> plain c \<Longrightarrow> plain c'"
  using foldl_keeps [of "\<lambda>st. plain (snd (snd st))" "([], [], c)" "enumerate 0 (fdInterfaces d)" "interfaceStep d"] interfaceStep_plain
  by (auto simp: compileInterfaces_def split: prod.splits)

lemma ValidateStaticRoute_plain: "ValidateStaticRoute spec ctx = Inl (code, f) \<Longrightarrow> \<not> IsBinding code"
  by (auto simp: ValidateStaticRoute_def Let_def split: option.splits if_splits)

lemma compileRoutes_plain [plain_steps]: "plain c \<Longrightarrow> plain (compileRoutes d ifs c)"
  unfolding compileRoutes_def
  by (rule foldl_keeps) (auto simp: routeStep_def Let_def split: sum.splits dest: ValidateStaticRoute_plain)

section \<open>DHCP\<close>

lemma validateDHCPPoolCollisions_under [under_steps]:
  "validateDHCPPoolCollisions d n s e (under b ds c) = apsnd (under b ds) (validateDHCPPoolCollisions d n s e c)"
  by (simp add: validateDHCPPoolCollisions_def)

lemma validateDHCPOptions_under [under_steps]: "validateDHCPOptions d dc n (under b ds c) = apsnd (under b ds) (validateDHCPOptions d dc n c)"
  by (simp add: validateDHCPOptions_def split: option.splits prod.splits)

lemma validateDHCPLeaseAddress_under [under_steps]:
  "validateDHCPLeaseAddress f a s e p (under b ds c) = apsnd (under b ds) (validateDHCPLeaseAddress f a s e p c)"
  by (simp add: validateDHCPLeaseAddress_def)

lemma validateDHCPLease_under [under_steps]:
  "validateDHCPLease d l i n s e p m (under b ds c) = apsnd (under b ds) (validateDHCPLease d l i n s e p m c)"
  unfolding validateDHCPLease_def Let_def
  by (simp only: under_steps under_fields under_add inward apsnd_conv)

lemma leaseLoop_under [under_steps]: "leaseLoop d n s e p m (under b ds c) ls = apsnd (under b ds) (leaseLoop d n s e p m c ls)"
proof (induction ls arbitrary: p m c)
  case (Cons x ls)
  then show ?case by (simp add: under_steps case_apsnd split: prod.split option.split)
qed simp

lemma validateDHCPLeases_under [under_steps]: "validateDHCPLeases d dc n s e (under b ds c) = apsnd (under b ds) (validateDHCPLeases d dc n s e c)"
  by (simp add: validateDHCPLeases_def under_steps)

lemma appendDHCPScope_under [under_steps]: "appendDHCPScope d dc i (under b ds c) = under b ds (appendDHCPScope d dc i c)"
  unfolding appendDHCPScope_def Let_def
  by (simp only: under_steps under_fields under_add under_updates inward prod.case)

lemma compileDHCP_under [under_steps]: "compileDHCP d ifs (under b ds c) = under b ds (compileDHCP d ifs c)"
proof -
  have "foldl (\<lambda>c (_, i). appendDHCPScope d dc i c) (under b ds c) xs = under b ds (foldl (\<lambda>c (_, i). appendDHCPScope d dc i c) c xs)"
    for dc and xs :: "(string, Interface) gomap"
    by (rule foldl_under) (simp add: under_steps split: prod.splits)
  then show ?thesis unfolding compileDHCP_def Let_def
    by (simp only: under_fields under_add inward prod.case)
qed

lemma validateDHCPPoolCollisions_plain [plain_steps]: "validateDHCPPoolCollisions d n s e c = (r, c') \<Longrightarrow> plain c \<Longrightarrow> plain c'"
  by (auto simp: validateDHCPPoolCollisions_def split: if_splits)

lemma validateDHCPOptions_plain [plain_steps]: "validateDHCPOptions d dc n c = (r, c') \<Longrightarrow> plain c \<Longrightarrow> plain c'"
  by (auto simp: validateDHCPOptions_def split: option.splits prod.splits)

lemma validateDHCPLeaseAddress_plain [plain_steps]: "validateDHCPLeaseAddress f a s e p c = (r, c') \<Longrightarrow> plain c \<Longrightarrow> plain c'"
  by (auto simp: validateDHCPLeaseAddress_def split: if_splits)

lemma validateDHCPLease_plain [plain_steps]: "validateDHCPLease d l i n s e p m c = (r, c') \<Longrightarrow> plain c \<Longrightarrow> plain c'"
  by (auto simp: validateDHCPLease_def Let_def split: option.splits prod.splits bool.splits if_splits dest: validateDHCPLeaseAddress_plain)

lemma leaseLoop_plain [plain_steps]: "leaseLoop d n s e p m c ls = (r, c') \<Longrightarrow> plain c \<Longrightarrow> plain c'"
  by (induction ls arbitrary: p m c) (auto split: prod.splits option.splits dest: validateDHCPLease_plain)

lemma appendDHCPScope_plain [plain_steps]: "plain c \<Longrightarrow> plain (appendDHCPScope d dc i c)"
  by (auto simp: appendDHCPScope_def validateDHCPLeases_def Let_def split: option.splits prod.splits bool.splits
      dest: validateDHCPOptions_plain validateDHCPPoolCollisions_plain leaseLoop_plain)

lemma compileDHCP_plain [plain_steps]:
  assumes "plain c"
  shows "plain (compileDHCP d ifs c)"
proof -
  have "plain (foldl (\<lambda>c (_, i). appendDHCPScope d dc i c) c xs)" for dc and xs :: "(string, Interface) gomap"
    using assms by (rule foldl_keeps) (auto split: prod.splits intro: appendDHCPScope_plain)
  then show ?thesis using assms by (auto simp: compileDHCP_def Let_def split: option.splits)
qed

lemma validRelayStep_under: "validRelayStep (apsnd (under b ds) st) r = apsnd (under b ds) (validRelayStep st r)"
  by (cases st) (simp add: validRelayStep_def split: option.splits)

lemma validDHCPRelays_under [under_steps]: "validDHCPRelays (under b ds c) = apsnd (under b ds) (validDHCPRelays c)"
  using foldl_under [of validRelayStep "apsnd (under b ds)" "([], c)", OF validRelayStep_under] by (simp add: validDHCPRelays_def)

lemma networkContaining_under [simp]: "networkContaining a (under b ds c) = networkContaining a c"
  by (simp add: networkContaining_def)

lemma compileRelayedScope_under:
  "compileRelayedScope d ifs rs (apsnd (under b ds) st) x = apsnd (under b ds) (compileRelayedScope d ifs rs st x)"
  by (cases st; cases x)
    (simp only: compileRelayedScope_def Let_def under_steps under_fields under_add under_updates inward prod.case apsnd_conv networkContaining_under)

lemma relayedStep_under: "relayedStep rs (apsnd (under b ds) st) x = apsnd (under b ds) (relayedStep rs st x)"
  using foldl_under [of "compileRelayedScope d ifs rs" "apsnd (under b ds)" st for d ifs, OF compileRelayedScope_under]
  by (simp add: relayedStep_def split: prod.splits option.splits)

lemma compileRelayedDHCP_under [under_steps]: "compileRelayedDHCP xs (under b ds c) = under b ds (compileRelayedDHCP xs c)"
proof -
  have "foldl (\<lambda>c (relay, u). if \<not> u then add CodeInvalidDHCPRelay (drField relay) c else c) (under b ds c) zs =
      under b ds (foldl (\<lambda>c (relay, u). if \<not> u then add CodeInvalidDHCPRelay (drField relay) c else c) c zs)"
    for c and zs :: "(dhcpRelaySource \<times> bool) list"
    by (rule foldl_under) (simp split: prod.splits)
  moreover have "foldl (relayedStep rs) (us, under b ds c) xs = apsnd (under b ds) (foldl (relayedStep rs) (us, c) xs)" for rs us c
    using foldl_under [of "relayedStep rs" "apsnd (under b ds)" "(us, c)", OF relayedStep_under] by simp
  ultimately show ?thesis by (simp add: compileRelayedDHCP_def under_steps case_apsnd split: prod.split)
qed

lemma compileRelayedScope_plain: "plain (snd st) \<Longrightarrow> plain (snd (compileRelayedScope d ifs rs st x))"
  by (cases st; cases x) (auto simp: compileRelayedScope_def Let_def split: option.splits prod.splits bool.splits dest: validateDHCPPoolCollisions_plain)

lemma relayedStep_plain: "plain (snd st) \<Longrightarrow> plain (snd (relayedStep rs st x))"
  by (auto simp: relayedStep_def split: prod.splits option.splits
      intro: foldl_keeps [where P = "\<lambda>st. plain (snd st)"] compileRelayedScope_plain)

lemma compileRelayedDHCP_plain [plain_steps]:
  assumes "plain c"
  shows "plain (compileRelayedDHCP xs c)"
proof -
  obtain rs c1 where v: "validDHCPRelays c = (rs, c1)" by fastforce
  have "plain (snd (validDHCPRelays c))" unfolding validDHCPRelays_def
    by (rule foldl_keeps [where P = "\<lambda>st. plain (snd st)"]) (use assms in \<open>auto simp: validRelayStep_def split: option.splits prod.splits\<close>)
  then have "plain (snd (foldl (relayedStep rs) (replicate (length rs) False, c1) xs))"
    by (intro foldl_keeps [where P = "\<lambda>st. plain (snd st)"]) (auto simp: v intro: relayedStep_plain)
  then show ?thesis by (auto simp: compileRelayedDHCP_def v split: prod.splits intro!: foldl_keeps [where P = plain])
qed

section \<open>Devices\<close>

lemma deviceStep_under: "deviceStep (apsnd (under b ds) st) x = apsnd (under b ds) (deviceStep st x)"
  by (cases st; cases x) (simp add: deviceStep_def under_steps case_apsnd split: prod.split)

lemma serviceStep_under: "serviceStep (under b ds c) x = under b ds (serviceStep c x)"
  by (cases x; cases "snd x") (simp_all add: serviceStep_def under_steps)

lemma compileDevices_under [under_steps]: "compileDevices cfg (under b ds c) = under b ds (compileDevices cfg c)"
  using foldl_under [of deviceStep "apsnd (under b ds)" "([], c)", OF deviceStep_under]
    foldl_under [of serviceStep "under b ds", OF serviceStep_under]
  by (simp add: compileDevices_def under_steps case_apsnd split: prod.split)

lemma deviceStep_plain: "plain (snd st) \<Longrightarrow> plain (snd (deviceStep st x))"
  by (cases st; cases x) (auto simp: deviceStep_def split: prod.splits dest: compileInterfaces_plain)

lemma serviceStep_plain: "plain c \<Longrightarrow> plain (serviceStep c x)"
  by (cases x; cases "snd x") (auto simp: serviceStep_def intro: plain_steps)

lemma compileDevices_plain [plain_steps]:
  assumes "plain c"
  shows "plain (compileDevices cfg c)"
proof -
  obtain xs c1 where f: "foldl deviceStep ([], c) (enumerate 0 (fgDevices cfg)) = (xs, c1)" by fastforce
  have "plain (snd (foldl deviceStep ([], c) (enumerate 0 (fgDevices cfg))))"
    by (rule foldl_keeps [where P = "\<lambda>st. plain (snd st)"]) (use assms in \<open>auto intro: deviceStep_plain\<close>)
  then have "plain (foldl serviceStep c1 xs)" by (intro foldl_keeps [where P = plain]) (auto simp: f intro: serviceStep_plain)
  then show ?thesis by (simp add: compileDevices_def f compileRelayedDHCP_plain)
qed

section \<open>Attachments\<close>

lemma validateAttachmentForm_under [under_steps]:
  "validateAttachmentForm a f (under b ds c) = apsnd (under b ds) (validateAttachmentForm a f c)"
  by (simp add: validateAttachmentForm_def)

lemma networkServingVLAN_under [simp]: "networkServingVLAN cfg v reach (under b ds c) = networkServingVLAN cfg v reach c"
proof -
  have "servingStep (under b ds c) = servingStep c" by (simp add: servingStep_def fun_eq_iff Let_def)
  then show ?thesis by (simp only: networkServingVLAN_def)
qed

lemma compileAttachmentPoolPort_under [under_steps]:
  "compileAttachmentPoolPort cfg d n f (under b ds c) = apsnd (under b ds) (compileAttachmentPoolPort cfg d n f c)"
  by (auto simp: compileAttachmentPoolPort_def split: option.splits prod.splits vlanNetworkResolution.splits)

lemma poolPortStep_under:
  "poolPortStep cfg d g (apsnd (apsnd (apsnd (under b ds))) st) x = apsnd (apsnd (apsnd (under b ds))) (poolPortStep cfg d g st x)"
  by (cases st; cases x) (auto simp: poolPortStep_def under_steps case_apsnd Let_def split: prod.splits option.splits)

lemma poolGroupStep_under:
  "poolGroupStep cfg f (apsnd (apsnd (apsnd (under b ds))) st) x = apsnd (apsnd (apsnd (under b ds))) (poolGroupStep cfg f st x)"
proof (cases st; cases x)
  fix ports seen ok c k grp
  assume st: "st = (ports, seen, ok, c)" and x: "x = (k, grp)"
  have "foldl (poolPortStep cfg d g) (apsnd (apsnd (apsnd (under b ds))) st) xs = apsnd (apsnd (apsnd (under b ds))) (foldl (poolPortStep cfg d g) st xs)"
    for d g xs by (rule foldl_under) (rule poolPortStep_under)
  then show ?thesis by (simp add: st x poolGroupStep_def Let_def split: option.splits)
qed

lemma resolvePoolNetwork_under [under_steps]: "resolvePoolNetwork ps f (under b ds c) = apsnd (under b ds) (resolvePoolNetwork ps f c)"
  by (simp add: resolvePoolNetwork_def Let_def split: list.splits)

lemma pinStep_under: "pinStep ps f (apsnd (apsnd (under b ds)) st) x = apsnd (apsnd (under b ds)) (pinStep ps f st x)"
  by (cases st; cases x) (auto simp: pinStep_def Let_def split: option.splits)

lemma compileAttachmentPins_under [under_steps]:
  "compileAttachmentPins a ps f (under b ds c) = apsnd (under b ds) (compileAttachmentPins a ps f c)"
  using foldl_under [of "pinStep ps f" "apsnd (apsnd (under b ds))" "([], [], c)", OF pinStep_under]
  by (simp add: compileAttachmentPins_def split: prod.splits)

lemma compileAttachmentPool_under [under_steps]:
  "compileAttachmentPool cfg a f (under b ds c) = apsnd (under b ds) (compileAttachmentPool cfg a f c)"
  using foldl_under [of "poolGroupStep cfg f" "apsnd (apsnd (apsnd (under b ds)))" "([], [], True, c)", OF poolGroupStep_under]
  by (auto simp: compileAttachmentPool_def under_steps case_apsnd split: prod.splits option.splits)

lemma attachmentStep_under: "attachmentStep cfg (under b ds c) x = under b ds (attachmentStep cfg c x)"
  by (cases x) (auto simp: attachmentStep_def under_steps case_apsnd Let_def split: prod.splits bool.splits option.splits)

lemma compileAttachments_under [under_steps]: "compileAttachments cfg (under b ds c) = under b ds (compileAttachments cfg c)"
  by (simp add: compileAttachments_def foldl_under attachmentStep_under)

lemma compileAttachmentPoolPort_plain: "compileAttachmentPoolPort cfg d n f c = (r, c') \<Longrightarrow> plain c \<Longrightarrow> plain c'"
  by (auto simp: compileAttachmentPoolPort_def split: option.splits prod.splits vlanNetworkResolution.splits if_splits)

lemma poolPortStep_plain: "plain (snd (snd (snd st))) \<Longrightarrow> plain (snd (snd (snd (poolPortStep cfg d g st x))))"
  by (cases st; cases x) (auto simp: poolPortStep_def Let_def split: prod.splits option.splits dest: compileAttachmentPoolPort_plain)

lemma poolGroupStep_plain: "plain (snd (snd (snd st))) \<Longrightarrow> plain (snd (snd (snd (poolGroupStep cfg f st x))))"
  by (auto simp: poolGroupStep_def Let_def split: prod.splits option.splits
      intro!: foldl_keeps [where P = "\<lambda>st. plain (snd (snd (snd st)))"] poolPortStep_plain)

lemma compileAttachmentPins_plain: "compileAttachmentPins a ps f c = (r, c') \<Longrightarrow> plain c \<Longrightarrow> plain c'"
  using foldl_keeps [of "\<lambda>st. plain (snd (snd st))" "([], [], c)" "enumerate 0 (laPins a)" "pinStep ps f"]
  by (auto simp: compileAttachmentPins_def pinStep_def Let_def split: prod.splits option.splits)

lemma compileAttachmentPool_plain: "compileAttachmentPool cfg a f c = (r, c') \<Longrightarrow> plain c \<Longrightarrow> plain c'"
  using foldl_keeps [of "\<lambda>st. plain (snd (snd (snd st)))" "([], [], True, c)" "enumerate 0 (laAt a)" "poolGroupStep cfg f"] poolGroupStep_plain
  by (auto simp: compileAttachmentPool_def resolvePoolNetwork_def Let_def split: prod.splits option.splits if_splits list.splits
      dest: compileAttachmentPins_plain)

lemma compileAttachments_plain [plain_steps]: "plain c \<Longrightarrow> plain (compileAttachments cfg c)"
  unfolding compileAttachments_def
  by (rule foldl_keeps) (auto simp: attachmentStep_def validateAttachmentForm_def Let_def split: prod.splits option.splits if_splits
      dest: compileAttachmentPool_plain)

section \<open>Growing diagnostics\<close>

lemma grows:
  assumes "\<And>b ds c. f (under b ds c) = under b ds (f c)"
  shows "\<exists>ds. fcDiagnostics (f c) = fcDiagnostics c @ ds"
proof -
  have "f c = under (fcBinding c) (fcDiagnostics c) (f (c\<lparr>fcDiagnostics := []\<rparr>))" by (metis assms under_self)
  then show ?thesis by (metis under_fields(13))
qed

section \<open>What the steps leave alone\<close>

locale step_view =
  fixes view :: "scenarioCompiler \<Rightarrow> 'v"
  assumes view_add: "view (add code f c) = view c"
begin

lemma view_port: "compileAttachmentPoolPort cfg d n f c = (r, c') \<Longrightarrow> view c' = view c"
  by (auto simp: compileAttachmentPoolPort_def view_add split: option.splits prod.splits vlanNetworkResolution.splits if_splits)

lemma view_poolPort: "view (snd (snd (snd (poolPortStep cfg d g st x)))) = view (snd (snd (snd st)))"
  by (cases st; cases x) (auto simp: poolPortStep_def Let_def view_add split: prod.splits option.splits dest: view_port)

lemma view_poolGroup: "view (snd (snd (snd (poolGroupStep cfg f st x)))) = view (snd (snd (snd st)))"
proof -
  have "view (snd (snd (snd (foldl (poolPortStep cfg d g) st xs)))) = view (snd (snd (snd st)))" for d g xs
    by (rule foldl_keeps [where P = "\<lambda>s. view (snd (snd (snd s))) = view (snd (snd (snd st)))"]) (simp_all add: view_poolPort)
  then show ?thesis by (cases st; cases x) (auto simp: poolGroupStep_def Let_def view_add split: option.splits)
qed

lemma view_pin: "view (snd (snd (pinStep ps f st x))) = view (snd (snd st))"
  by (cases st; cases x) (auto simp: pinStep_def Let_def view_add split: option.splits)

lemma view_pins: "compileAttachmentPins a ps f c = (r, c') \<Longrightarrow> view c' = view c"
  using foldl_keeps [of "\<lambda>s. view (snd (snd s)) = view c" "([], [], c)" "enumerate 0 (laPins a)" "pinStep ps f"]
  by (auto simp: compileAttachmentPins_def view_pin split: prod.splits)

lemma view_pool: "compileAttachmentPool cfg a f c = (r, c') \<Longrightarrow> view c' = view c"
  using foldl_keeps [of "\<lambda>s. view (snd (snd (snd s))) = view c" "([], [], True, c)" "enumerate 0 (laAt a)" "poolGroupStep cfg f"]
  by (auto simp: compileAttachmentPool_def resolvePoolNetwork_def Let_def view_poolGroup view_add split: prod.splits option.splits if_splits list.splits
      dest: view_pins)

end

locale attachment_view = step_view +
  assumes view_attachments: "view (c\<lparr>fcAttachments := as\<rparr>) = view c"
begin

lemma view_attachment: "view (attachmentStep cfg c x) = view c"
  by (cases x) (auto simp: attachmentStep_def validateAttachmentForm_def Let_def view_add view_attachments split: prod.splits option.splits dest: view_pool)

lemma view_compileAttachments: "view (compileAttachments cfg c) = view c"
  unfolding compileAttachments_def
  by (rule foldl_keeps [where P = "\<lambda>c'. view c' = view c"]) (simp_all add: view_attachment)

end

locale dhcp_view = step_view +
  assumes view_scopes: "view (c\<lparr>fcScopes := ss\<rparr>) = view c"
    and view_leases: "view (c\<lparr>fcLeaseAddresses := la, fcLeaseMACs := lm\<rparr>) = view c"
begin

lemma view_collisions: "validateDHCPPoolCollisions d n s e c = (r, c') \<Longrightarrow> view c' = view c"
  by (auto simp: validateDHCPPoolCollisions_def view_add split: if_splits)

lemma view_options: "validateDHCPOptions d dc n c = (r, c') \<Longrightarrow> view c' = view c"
  by (auto simp: validateDHCPOptions_def view_add split: option.splits prod.splits)

lemma view_lease: "validateDHCPLease d l i n s e p m c = (r, c') \<Longrightarrow> view c' = view c"
  by (auto simp: validateDHCPLease_def validateDHCPLeaseAddress_def Let_def view_add split: option.splits prod.splits bool.splits if_splits)

lemma view_leaseLoop: "leaseLoop d n s e p m c ls = (r, c') \<Longrightarrow> view c' = view c"
  by (induction ls arbitrary: p m c) (auto simp: view_leases split: prod.splits option.splits dest: view_lease)

lemma view_appendDHCPScope: "view (appendDHCPScope d dc i c) = view c"
  by (auto simp: appendDHCPScope_def validateDHCPLeases_def Let_def view_add view_scopes split: option.splits prod.splits bool.splits
      dest!: view_options view_collisions view_leaseLoop)

lemma view_compileDHCP: "view (compileDHCP d ifs c) = view c"
proof -
  have "view (foldl (\<lambda>c (_, i). appendDHCPScope d dc i c) c xs) = view c" for dc and xs :: "(string, Interface) gomap"
    by (rule foldl_keeps [where P = "\<lambda>c'. view c' = view c"]) (auto simp: view_appendDHCPScope)
  then show ?thesis by (auto simp: compileDHCP_def Let_def view_add split: option.splits)
qed

lemma view_relays: "view (snd (validDHCPRelays c)) = view c"
  unfolding validDHCPRelays_def
  by (rule foldl_keeps [where P = "\<lambda>s. view (snd s) = view c"]) (auto simp: validRelayStep_def view_add split: option.splits prod.splits)

lemma view_relayedScope: "view (snd (compileRelayedScope d ifs rs st x)) = view (snd st)"
  by (cases st; cases x)
    (auto simp: compileRelayedScope_def Let_def view_add view_scopes split: option.splits prod.splits bool.splits dest: view_collisions)

lemma view_relayed: "view (snd (relayedStep rs st x)) = view (snd st)"
proof -
  have "view (snd (foldl (compileRelayedScope d ifs rs) st xs)) = view (snd st)" for d ifs xs
    by (rule foldl_keeps [where P = "\<lambda>s. view (snd s) = view (snd st)"]) (simp_all add: view_relayedScope)
  then show ?thesis by (simp add: relayedStep_def split: prod.splits option.splits)
qed

lemma view_compileRelayedDHCP: "view (compileRelayedDHCP xs c) = view c"
proof -
  obtain rs c1 where v: "validDHCPRelays c = (rs, c1)" by fastforce
  have "view (snd (foldl (relayedStep rs) (replicate (length rs) False, c1) xs)) = view c"
    by (rule foldl_keeps [where P = "\<lambda>s. view (snd s) = view c"]) (use view_relays [of c] v in \<open>simp_all add: view_relayed\<close>)
  then show ?thesis
    by (auto simp: compileRelayedDHCP_def v view_add split: prod.splits intro!: foldl_keeps [where P = "\<lambda>c'. view c' = view c"])
qed

end

locale service_view = dhcp_view +
  assumes view_routes: "view (c\<lparr>fcRoutes := rs\<rparr>) = view c"
begin

lemma view_compileRoutes: "view (compileRoutes d ifs c) = view c"
  unfolding compileRoutes_def
  by (rule foldl_keeps [where P = "\<lambda>c'. view c' = view c"]) (auto simp: routeStep_def Let_def view_add view_routes split: sum.splits)

lemma view_service: "view (serviceStep c x) = view c"
  by (cases x; cases "snd x") (simp_all add: serviceStep_def view_compileDHCP view_compileRoutes)

lemma view_services: "view (compileRelayedDHCP xs (foldl serviceStep c xs)) = view c"
proof -
  have "view (foldl serviceStep c xs) = view c"
    by (rule foldl_keeps [where P = "\<lambda>c'. view c' = view c"]) (simp_all add: view_service)
  then show ?thesis by (simp add: view_compileRelayedDHCP)
qed

end

locale interface_view = step_view +
  assumes view_devices: "view (c\<lparr>fcDevices := dv\<rparr>) = view c"
    and view_addresses: "view (c\<lparr>fcAddresses := ad\<rparr>) = view c"
    and view_interfaces: "view (c\<lparr>fcInterfaces := fs\<rparr>) = view c"
    and view_relaySources: "view (c\<lparr>fcRelays := rl\<rparr>) = view c"
    and view_connected: "view (c\<lparr>fcRoutes := rs\<rparr>) = view c"
begin

lemma view_interfaceV6: "compileInterfaceV6 n s f c = (r, c') \<Longrightarrow> view c' = view c"
  by (auto simp: compileInterfaceV6_def view_add split: option.splits if_splits)

lemma view_interface: "compileInterface d s f c = (r, c') \<Longrightarrow> view c' = view c"
  by (auto simp: compileInterface_def Let_def view_add view_addresses split: option.splits prod.splits if_splits dest: view_interfaceV6)

lemma view_interfaceStep: "view (snd (snd (interfaceStep d st x))) = view (snd (snd st))"
  by (cases st; cases x)
    (auto simp: interfaceStep_def Let_def view_add view_interfaces view_relaySources view_connected split: option.splits prod.splits dest: view_interface)

lemma view_compileInterfaces: "compileInterfaces d c = (r, c') \<Longrightarrow> view c' = view c"
  using foldl_keeps [of "\<lambda>s. view (snd (snd s)) = view c" "([], [], c)" "enumerate 0 (fdInterfaces d)" "interfaceStep d"]
  by (auto simp: compileInterfaces_def view_interfaceStep split: prod.splits)

lemma view_deviceStep: "view (snd (deviceStep st x)) = view (snd st)"
  by (cases st; cases x) (auto simp: deviceStep_def view_add view_devices split: prod.splits dest: view_compileInterfaces)

lemma view_deviceSteps: "view (snd (foldl deviceStep ([], c) xs)) = view c"
  by (rule foldl_keeps [where P = "\<lambda>s. view (snd s) = view c"]) (simp_all add: view_deviceStep)

end

locale device_view = service_view + interface_view
begin

lemma view_compileDevices: "view (compileDevices cfg c) = view c"
proof -
  obtain xs c1 where f: "foldl deviceStep ([], c) (enumerate 0 (fgDevices cfg)) = (xs, c1)" by fastforce
  then show ?thesis using view_deviceSteps [of c "enumerate 0 (fgDevices cfg)"] by (simp add: compileDevices_def f view_services)
qed

end

locale topology_view = attachment_view + device_view

text \<open>Devices change neither the attachments nor the networks, nor their interfaces the DHCP scopes; services do not change the interfaces; DHCP does not change the routes; attachments change neither routes nor scopes.\<close>

interpretation added: device_view fcAttachments
  by unfold_locales (simp_all add: add_def)

interpretation nets: topology_view "\<lambda>c. (fcNetworks c, fcTopNetworks c)"
  by unfold_locales (simp_all add: add_def)

interpretation pools: interface_view "\<lambda>c. (fcScopes c, fcLeaseAddresses c, fcLeaseMACs c)"
  by unfold_locales (simp_all add: add_def)

interpretation ifaces: service_view "\<lambda>c. (fcNetworks c, fcTopNetworks c, fcInterfaces c, fcAddresses c, fcDevices c, fcRelays c)"
  by unfold_locales (simp_all add: add_def)

interpretation routed: dhcp_view "\<lambda>c. (fcNetworks c, fcTopNetworks c, fcInterfaces c, fcAddresses c, fcDevices c, fcRelays c, fcRoutes c)"
  by unfold_locales (simp_all add: add_def)

interpretation services: attachment_view "\<lambda>c. ((fcNetworks c, fcTopNetworks c, fcInterfaces c, fcAddresses c, fcDevices c, fcRelays c, fcRoutes c),
    fcScopes c, fcLeaseAddresses c, fcLeaseMACs c)"
  by unfold_locales (simp_all add: add_def)

end
