(* ===== verification/Fabric_Sound.thy ===== *)
theory Fabric_Sound
  imports Fabric_Frames
begin

text \<open>
  The topologies the fabric compiler makes.  Invariants of the compiler, one per stage: networks are canonical, named once, and apart when nothing
  is wrong; interfaces lie in their networks with addresses of their own; routes leave through an interface to a neighbour on its network;
  DHCP pools stay clear of interface addresses, static leases and each other; attachment pools land on one network.
\<close>

section \<open>Networks\<close>

definition network_ok :: "Network \<Rightarrow> bool" where
  "network_ok n \<longleftrightarrow> prefix_ok (nwPrefix n) \<and> prefixIsValid (nwPrefix n) \<and> Is4 (prefixAddr (nwPrefix n)) \<and> Masked (nwPrefix n) = nwPrefix n \<and>
     (nwPrefixV6 n = noPrefix \<or> prefix_ok (nwPrefixV6 n) \<and> prefixIsValid (nwPrefixV6 n) \<and> Is6 (prefixAddr (nwPrefixV6 n)) \<and>
        \<not> Is4In6 (prefixAddr (nwPrefixV6 n)) \<and> Masked (nwPrefixV6 n) = nwPrefixV6 n \<and> IsGlobalUnicast (prefixAddr (nwPrefixV6 n))) \<and>
     nwVirtualVLAN n \<le> 4094"

definition clear_of :: "Network \<Rightarrow> Network \<Rightarrow> bool" where
  "clear_of m n \<longleftrightarrow> \<not> Overlaps (nwPrefix m) (nwPrefix n) \<and> \<not> Overlaps (nwPrefixV6 m) (nwPrefixV6 n)"

definition nets_ok :: "scenarioCompiler \<Rightarrow> bool" where
  "nets_ok c \<longleftrightarrow> gm_wf (fcNetworks c) \<and> (\<forall>k n. map_of (fcNetworks c) k = Some n \<longleftrightarrow> n \<in> set (fcTopNetworks c) \<and> nwName n = k) \<and>
     distinct (map nwName (fcTopNetworks c)) \<and> list_all network_ok (fcTopNetworks c) \<and>
     (fcDiagnostics c = [] \<longrightarrow> sorted_wrt clear_of (fcTopNetworks c))"

lemma parseCanonicalPrefix_ok:
  "parseCanonicalPrefix s = Some p \<Longrightarrow> prefix_ok p \<and> prefixIsValid p \<and> Is4 (prefixAddr p) \<and> Masked p = p"
  by (auto simp: parseCanonicalPrefix_def dest: ParsePrefix_valid split: option.splits if_splits)

lemma compileSubnetV6_ok:
  "compileSubnetV6 f s c = (Some p, c') \<Longrightarrow> c' = c \<and> (p = noPrefix \<or> prefix_ok p \<and> prefixIsValid p \<and> Is6 (prefixAddr p) \<and>
     \<not> Is4In6 (prefixAddr p) \<and> Masked p = p \<and> IsGlobalUnicast (prefixAddr p))"
  by (auto simp: compileSubnetV6_def parseCanonicalPrefixV6_def dest: ParsePrefix_valid split: option.splits if_splits)

lemma compileSubnetV6_bad: "compileSubnetV6 f s c = (None, c') \<Longrightarrow> \<exists>g. c' = add CodeInvalidNetwork g c"
  by (auto simp: compileSubnetV6_def split: option.splits if_splits)

lemma nets_ok_add [simp]: "nets_ok c \<Longrightarrow> nets_ok (add code f c)"
  by (simp add: nets_ok_def add_def)

lemma vlan_bound: "0 \<le> v \<Longrightarrow> v \<le> 4094 \<Longrightarrow> Uint16 (word_of_int v) \<le> 4094"
proof -
  assume "0 \<le> v" "v \<le> 4094"
  then obtain n where "v = int n" "n \<le> 4094" by (metis nonneg_int_cases of_nat_le_iff of_nat_numeral)
  then show ?thesis using Uint16_of_nat [of n] by (simp add: word_le_nat_alt unat_of_nat)
qed

lemma checkOverlap_ok: "(\<exists>g. checkOverlap f n c = add CodeOverlappingNetworks g c) \<or> checkOverlap f n c = c \<and> list_all (\<lambda>m. clear_of m n) (fcTopNetworks c)"
proof (cases "find (\<lambda>m. Overlaps (nwPrefix m) (nwPrefix n) \<or> prefixIsValid (nwPrefixV6 m) \<and> Overlaps (nwPrefixV6 m) (nwPrefixV6 n)) (fcTopNetworks c)")
  case None
  then have "clear_of m n" if "m \<in> set (fcTopNetworks c)" for m
    using that unfolding find_None_iff clear_of_def by (auto simp: Overlaps_def)
  then show ?thesis using None by (simp add: checkOverlap_def list_all_iff)
qed (auto simp: checkOverlap_def)

lemma nets_ok_append:
  assumes c: "nets_ok c" and n: "network_ok n" and fresh: "map_of (fcNetworks c) (nwName n) = None"
    and clear: "fcDiagnostics c = [] \<longrightarrow> list_all (\<lambda>m. clear_of m n) (fcTopNetworks c)"
  shows "nets_ok (c\<lparr>fcNetworks := gm_put (nwName n) n (fcNetworks c), fcTopNetworks := fcTopNetworks c @ [n]\<rparr>)"
proof -
  have all: "map_of (fcNetworks c) k = Some m \<longleftrightarrow> m \<in> set (fcTopNetworks c) \<and> nwName m = k" for k m
    using c by (simp add: nets_ok_def)
  have new: "\<forall>m \<in> set (fcTopNetworks c). nwName m \<noteq> nwName n" using fresh all by (metis option.distinct(1))
  show ?thesis using c n clear new all
    by (auto simp: nets_ok_def gm_simps gm_intros sorted_wrt_append list_all_iff)
qed

lemma compileNetwork_ok:
  assumes c: "nets_ok c"
  shows "nets_ok (compileNetwork c x)"
proof (cases "\<exists>i source p p6. x = (i, source) \<and> parseCanonicalPrefix (nsSubnet source) = Some p \<and> \<not> gm_has (fcNetworks c) (nsName source) \<and>
    0 \<le> nsVirtualVLAN source \<and> nsVirtualVLAN source \<le> 4094 \<and> compileSubnetV6 (indexed ''networks'' i) (nsSubnetV6 source) c = (Some p6, c)")
  case True
  then obtain i source p p6 where x: "x = (i, source)" "parseCanonicalPrefix (nsSubnet source) = Some p" "\<not> gm_has (fcNetworks c) (nsName source)"
      "0 \<le> nsVirtualVLAN source" "nsVirtualVLAN source \<le> 4094" "compileSubnetV6 (indexed ''networks'' i) (nsSubnetV6 source) c = (Some p6, c)"
    by blast
  define n where "n = \<lparr>nwName = nsName source, nwPrefix = p, nwPrefixV6 = p6, nwVirtualVLAN = Uint16 (word_of_int (nsVirtualVLAN source))\<rparr>"
  define c2 where "c2 = checkOverlap (indexed ''networks'' i) n c"
  have eq: "compileNetwork c x = c2\<lparr>fcNetworks := gm_put (nwName n) n (fcNetworks c2), fcTopNetworks := fcTopNetworks c2 @ [n]\<rparr>"
    using x by (simp add: compileNetwork_def Let_def n_def c2_def)
  have "network_ok n"
    using parseCanonicalPrefix_ok [OF x(2)] compileSubnetV6_ok [OF x(6)] vlan_bound [OF x(4,5)] by (simp add: network_ok_def n_def)
  moreover have "nets_ok c2" "map_of (fcNetworks c2) (nwName n) = None"
      "fcDiagnostics c2 = [] \<longrightarrow> list_all (\<lambda>m. clear_of m n) (fcTopNetworks c2)"
    using checkOverlap_ok [of "indexed ''networks'' i" n c] c x(3) by (auto simp: c2_def n_def gm_has_def) (auto simp: add_def)
  ultimately show ?thesis unfolding eq by (intro nets_ok_append) auto
next
  case False
  obtain i source where x: "x = (i, source)" by fastforce
  show ?thesis using c False compileSubnetV6_ok [of "indexed ''networks'' i" "nsSubnetV6 source" c]
      compileSubnetV6_bad [of "indexed ''networks'' i" "nsSubnetV6 source" c]
    by (auto simp: x compileNetwork_def Let_def not_less split: option.splits prod.splits)
qed

lemma compileNetworks_ok:
  assumes "nets_ok c"
  shows "nets_ok (compileNetworks g c)"
proof -
  have "nets_ok (foldl compileNetwork c (enumerate 0 (fgNetworks g)))" using assms by (rule foldl_keeps) (rule compileNetwork_ok)
  then show ?thesis by (simp add: compileNetworks_def validateAttachmentNetwork_def Let_def)
qed

text \<open>The networks of the finished topology are those of the network stage, and nothing is wrong at the end only if nothing was then.\<close>

lemma nets_ok_kept:
  assumes "nets_ok c" "(fcNetworks c', fcTopNetworks c') = (fcNetworks c, fcTopNetworks c)" "\<exists>ds. fcDiagnostics c' = fcDiagnostics c @ ds"
  shows "nets_ok c'"
  using assms by (auto simp: nets_ok_def)

lemma compiled_nets: "nets_ok c \<Longrightarrow> nets_ok (compileAttachments g (compileDevices g c))"
  by (intro nets_ok_kept [OF _ nets.view_compileAttachments grows [OF compileAttachments_under]]
      nets_ok_kept [OF _ nets.view_compileDevices grows [OF compileDevices_under]])

section \<open>Interfaces\<close>

text \<open>The addresses of an interface, and what a compiled interface is.\<close>

definition ifaceAddrs :: "Interface \<Rightarrow> Addr list" where
  "ifaceAddrs i = prefixAddr (fiAddress i) # (if prefixIsValid (fiAddressV6 i) then [prefixAddr (fiAddressV6 i)] else [])"

definition hosted :: "Network \<Rightarrow> Interface \<Rightarrow> bool" where
  "hosted n i \<longleftrightarrow> nwName n = fiNetwork i \<and> Is4 (prefixAddr (fiAddress i)) \<and> prefixContains (nwPrefix n) (prefixAddr (fiAddress i)) \<and>
     prefixBits (fiAddress i) = prefixBits (nwPrefix n) \<and> \<not> isReservedEndpoint (nwPrefix n) (prefixAddr (fiAddress i)) \<and>
     (prefixIsValid (fiAddressV6 i) \<longrightarrow> Is6 (prefixAddr (fiAddressV6 i)) \<and> prefixContains (nwPrefixV6 n) (prefixAddr (fiAddressV6 i)) \<and>
        prefixBits (fiAddressV6 i) = prefixBits (nwPrefixV6 n))"

definition ifaces_ok :: "scenarioCompiler \<Rightarrow> bool" where
  "ifaces_ok c \<longleftrightarrow> gm_wf (fcAddresses c) \<and>
     (\<forall>i \<in> set (fcInterfaces c). \<exists>n. map_of (fcNetworks c) (fiNetwork i) = Some n \<and> hosted n i) \<and>
     distinct (concat (map ifaceAddrs (fcInterfaces c))) \<and>
     (\<forall>a owner. map_of (fcAddresses c) a = Some owner \<longleftrightarrow> (\<exists>i \<in> set (fcInterfaces c). a \<in> set (ifaceAddrs i) \<and> fiDevice i = owner))"

lemma compileInterfaceV6_ok:
  assumes "compileInterfaceV6 n s f c = (Some p, c')"
  shows "c' = c \<and> (prefixIsValid p \<longrightarrow> Is6 (prefixAddr p) \<and> prefixContains (nwPrefixV6 n) (prefixAddr p) \<and> prefixBits p = prefixBits (nwPrefixV6 n) \<and>
     map_of (fcAddresses c) (prefixAddr p) = None)"
  using assms by (auto simp: compileInterfaceV6_def prefixIsValid_def noPrefix_def gm_has_def split: option.splits if_splits)

lemma compileInterfaceV6_bad: "compileInterfaceV6 n s f c = (None, c') \<Longrightarrow> \<exists>code. c' = add code f c"
  by (auto simp: compileInterfaceV6_def split: option.splits if_splits)

lemma compileInterface_bad: "compileInterface d s f c = (None, c') \<Longrightarrow> \<exists>code g. c' = add code g c"
  by (auto simp: compileInterface_def Let_def split: option.splits if_splits prod.splits dest!: compileInterfaceV6_bad)

lemma compileInterface_good:
  assumes "compileInterface d s f c = (Some i, c')" "\<And>k n. map_of (fcNetworks c) k = Some n \<Longrightarrow> nwName n = k"
  shows "\<exists>n. map_of (fcNetworks c) (fiNetwork i) = Some n \<and> hosted n i \<and> fiDevice i = d \<and> fiName i = siName s \<and>
    (\<forall>a \<in> set (ifaceAddrs i). map_of (fcAddresses c) a = None) \<and>
    c' = c\<lparr>fcAddresses := foldl (\<lambda>m a. gm_put a d m) (fcAddresses c) (ifaceAddrs i)\<rparr>"
proof -
  obtain n a p6 c1 where n: "map_of (fcNetworks c) (siNetwork s) = Some n" and a: "ParsePrefix (siAddress s) = Some a" "Is4 (prefixAddr a)"
      "prefixContains (nwPrefix n) (prefixAddr a)" "prefixBits a = prefixBits (nwPrefix n)" "\<not> isReservedEndpoint (nwPrefix n) (prefixAddr a)"
      "\<not> gm_has (fcAddresses c) (prefixAddr a)" and v6: "compileInterfaceV6 n (siAddressV6 s) (f @ ''.address_v6'') c = (Some p6, c1)"
      and i: "i = \<lparr>fiDevice = d, fiName = siName s, fiNetwork = siNetwork s, fiAddress = a, fiAddressV6 = p6\<rparr>"
      and c': "c' = c1\<lparr>fcAddresses := (if prefixIsValid p6 then gm_put (prefixAddr p6) d (gm_put (prefixAddr a) d (fcAddresses c1))
        else gm_put (prefixAddr a) d (fcAddresses c1))\<rparr>"
    using assms(1) by (auto simp: compileInterface_def Let_def split: option.splits if_splits prod.splits)
  then show ?thesis using compileInterfaceV6_ok [OF v6] assms(2) [OF n]
    by (auto simp: hosted_def ifaceAddrs_def gm_has_def)
qed

lemma map_of_owners: "map_of (foldl (\<lambda>m a. gm_put a d m) m as) a = (if a \<in> set as then Some d else map_of m a)"
  by (induction as arbitrary: m) (auto simp: gm_simps)

lemma gm_wf_owners: "gm_wf m \<Longrightarrow> gm_wf (foldl (\<lambda>m a. gm_put a d m) m as)"
  by (induction as arbitrary: m) (auto intro: gm_intros)

lemma ifaces_ok_append:
  assumes c: "ifaces_ok c" and n: "map_of (fcNetworks c) (fiNetwork i) = Some n" "hosted n i"
    and free: "\<forall>a \<in> set (ifaceAddrs i). map_of (fcAddresses c) a = None"
  shows "ifaces_ok (c\<lparr>fcAddresses := foldl (\<lambda>m a. gm_put a (fiDevice i) m) (fcAddresses c) (ifaceAddrs i), fcInterfaces := fcInterfaces c @ [i]\<rparr>)"
proof -
  have owner: "map_of (fcAddresses c) a = Some o' \<longleftrightarrow> (\<exists>j \<in> set (fcInterfaces c). a \<in> set (ifaceAddrs j) \<and> fiDevice j = o')" for a o'
    using c by (simp add: ifaces_ok_def)
  have apart: "a \<notin> set (ifaceAddrs j)" if "a \<in> set (ifaceAddrs i)" "j \<in> set (fcInterfaces c)" for a j
    using free that owner by (metis option.distinct(1))
  have "distinct (ifaceAddrs i)" using n(2)
    by (cases "prefixAddr (fiAddress i)"; cases "prefixAddr (fiAddressV6 i)") (auto simp: ifaceAddrs_def hosted_def)
  then have "distinct (concat (map ifaceAddrs (fcInterfaces c @ [i])))" using c apart by (auto simp: ifaces_ok_def)
  then show ?thesis using c n apart owner by (auto simp: ifaces_ok_def map_of_owners gm_wf_owners)
qed

section \<open>Devices and routes\<close>

text \<open>A route leaves its device through one of the device's interfaces: to that interface's network, or to an address of another device on it.\<close>

definition hop_ok :: "Interface list \<Rightarrow> Route \<Rightarrow> Interface \<Rightarrow> bool" where
  "hop_ok is r i \<longleftrightarrow> (let egress = (if Is6 (roNextHop r) then fiAddressV6 i else fiAddress i) in
     prefixIsValid egress \<and> prefixContains (Masked egress) (roNextHop r) \<and> \<not> isReservedNextHop (Masked egress) (roNextHop r) \<and>
     Is6 (roNextHop r) = Is6 (prefixAddr (roDestination r)) \<and> Masked (roDestination r) = roDestination r \<and>
     (\<exists>j \<in> set is. roNextHop r \<in> set (ifaceAddrs j) \<and> fiDevice j \<noteq> roDevice r))"

definition route_ok :: "scenarioCompiler \<Rightarrow> Route \<Rightarrow> bool" where
  "route_ok c r \<longleftrightarrow> (\<exists>i \<in> set (fcInterfaces c). fiDevice i = roDevice r \<and> fiName i = roVia r \<and>
     (if roConnected r then roDestination r = nwPrefix (networkOf c (fiNetwork i)) else hop_ok (fcInterfaces c) r i))"

text \<open>The interfaces compiled for one device.\<close>

definition of_device :: "scenarioCompiler \<Rightarrow> FabricDevice \<Rightarrow> (string, Interface) gomap \<Rightarrow> bool" where
  "of_device c d compiled \<longleftrightarrow> (\<forall>k i. map_of compiled k = Some i \<longrightarrow> i \<in> set (fcInterfaces c) \<and> fiDevice i = fdName d \<and> fiName i = k)"

definition devices_ok :: "scenarioCompiler \<Rightarrow> bool" where
  "devices_ok c \<longleftrightarrow> (\<forall>k n. map_of (fcNetworks c) k = Some n \<longrightarrow> nwName n = k) \<and> ifaces_ok c \<and>
     distinct (map (\<lambda>i. (fiDevice i, fiName i)) (fcInterfaces c)) \<and> (\<forall>i \<in> set (fcInterfaces c). gm_has (fcDevices c) (fiDevice i)) \<and>
     (\<forall>r \<in> set (fcRoutes c). route_ok c r) \<and>
     (\<forall>r \<in> set (fcRelays c). drIface r \<in> set (fcInterfaces c) \<and> fiDevice (drIface r) = fdName (drDevice r))"

lemma route_ok_more:
  assumes "route_ok c r" "fcNetworks c' = fcNetworks c" "set (fcInterfaces c) \<subseteq> set (fcInterfaces c')"
  shows "route_ok c' r"
proof -
  have "hop_ok (fcInterfaces c') r i" if "hop_ok (fcInterfaces c) r i" for i using that assms(3) by (auto simp: hop_ok_def Let_def)
  moreover have "networkOf c' = networkOf c" using assms(2) by (simp add: networkOf_def fun_eq_iff)
  ultimately show ?thesis using assms(1,3) by (auto simp: route_ok_def split: if_splits)
qed

lemma ifaces_ok_kept:
  "ifaces_ok c \<Longrightarrow> fcNetworks c' = fcNetworks c \<Longrightarrow> fcInterfaces c' = fcInterfaces c \<Longrightarrow> fcAddresses c' = fcAddresses c \<Longrightarrow> ifaces_ok c'"
  by (simp add: ifaces_ok_def)

lemma devices_ok_add [simp]: "devices_ok c \<Longrightarrow> devices_ok (add code f c)"
proof -
  assume c: "devices_ok c"
  have "route_ok (add code f c) r" if "route_ok c r" for r using that by (rule route_ok_more) (simp_all add: add_def)
  moreover have "ifaces_ok (add code f c)" if "ifaces_ok c" using that by (rule ifaces_ok_kept) (simp_all add: add_def)
  ultimately show ?thesis using c by (auto simp: devices_ok_def) (auto simp: add_def)
qed

text \<open>Adding one interface, with its relay and its connected route.\<close>

lemma devices_ok_interface:
  assumes c: "devices_ok c" and n: "map_of (fcNetworks c) (fiNetwork i) = Some n" "hosted n i"
    and free: "\<forall>a \<in> set (ifaceAddrs i). map_of (fcAddresses c) a = None"
    and name: "\<forall>j \<in> set (fcInterfaces c). fiDevice j = fiDevice i \<longrightarrow> fiName j \<noteq> fiName i" and dev: "gm_has (fcDevices c) (fiDevice i)"
    and relays: "set relays \<subseteq> {r. drIface r = i \<and> fiDevice i = fdName (drDevice r)}"
    and routes: "set routes \<subseteq> {r. roConnected r \<and> roDevice r = fiDevice i \<and> roVia r = fiName i \<and> roDestination r = nwPrefix (networkOf c (fiNetwork i))}"
    and c': "c' = c\<lparr>fcAddresses := foldl (\<lambda>m a. gm_put a (fiDevice i) m) (fcAddresses c) (ifaceAddrs i), fcInterfaces := fcInterfaces c @ [i],
      fcRelays := fcRelays c @ relays, fcRoutes := fcRoutes c @ routes\<rparr>"
  shows "devices_ok c'"
proof -
  have "ifaces_ok c'"
    by (rule ifaces_ok_kept [OF ifaces_ok_append [OF _ n free]]) (use c in \<open>simp_all add: c' devices_ok_def\<close>)
  moreover have "route_ok c' r" if "r \<in> set (fcRoutes c)" for r
    by (rule route_ok_more [of c]) (use c that in \<open>auto simp: c' devices_ok_def\<close>)
  moreover have "route_ok c' r" if "r \<in> set routes" for r
    using subsetD [OF routes that] by (auto simp: c' route_ok_def networkOf_def)
  moreover have "distinct (map (\<lambda>i. (fiDevice i, fiName i)) (fcInterfaces c @ [i]))"
    using c name by (auto simp: devices_ok_def)
  ultimately show ?thesis using c dev relays unfolding devices_ok_def by (auto simp: c')
qed

text \<open>The loop over a device's interfaces.\<close>

definition loop_ok :: "FabricDevice \<Rightarrow> (string, Interface) gomap \<times> (string, unit) gomap \<times> scenarioCompiler \<Rightarrow> bool" where
  "loop_ok d st \<longleftrightarrow> (case st of (compiled, names, c) \<Rightarrow> devices_ok c \<and> gm_has (fcDevices c) (fdName d) \<and> of_device c d compiled \<and>
     (\<forall>i \<in> set (fcInterfaces c). fiDevice i = fdName d \<longrightarrow> gm_has names (fiName i)))"

lemma gm_has_put [simp]: "gm_has (gm_put k v m) j \<longleftrightarrow> j = k \<or> gm_has m j"
  by (simp add: gm_has_def gm_simps)

lemma loop_ok_add:
  "loop_ok d (compiled, names, c) \<Longrightarrow> (\<And>k. gm_has names k \<Longrightarrow> gm_has names' k) \<Longrightarrow> loop_ok d (compiled, names', add code f c)"
  by (auto simp: loop_ok_def of_device_def) (auto simp: add_def)

lemma interfaceStep_ok:
  assumes st: "loop_ok d st"
  shows "loop_ok d (interfaceStep d st x)"
proof -
  obtain compiled names c i source where s: "st = (compiled, names, c)" and x: "x = (i, source)" by (metis prod.exhaust)
  define field where "field = indexed (''devices['' @ fdName d @ ''].interfaces'') i"
  note step = interfaceStep_def [of d st x, unfolded s x prod.case Let_def, folded field_def]
  have c: "devices_ok c" "gm_has (fcDevices c) (fdName d)" "of_device c d compiled"
      "\<And>i. i \<in> set (fcInterfaces c) \<Longrightarrow> fiDevice i = fdName d \<Longrightarrow> gm_has names (fiName i)"
    using st by (auto simp: loop_ok_def s)
  have skip: "loop_ok d (compiled, names, add code f c)" "loop_ok d (compiled, gm_put k () names, add code f c)" for code f k
    using st by (auto simp: s intro: loop_ok_add)
  show ?thesis
  proof (cases "fst (compileInterface (fdName d) source field c)")
    case None
    then show ?thesis using st skip compileInterface_bad [of "fdName d" source field c]
      by (cases "compileInterface (fdName d) source field c") (auto simp: s x step)
  next
    case (Some iface)
    then obtain c1 where i1: "compileInterface (fdName d) source field c = (Some iface, c1)" by (metis prod.collapse)
    obtain n where n: "map_of (fcNetworks c) (fiNetwork iface) = Some n" "hosted n iface" and dev: "fiDevice iface = fdName d"
        "fiName iface = siName source" and free: "\<forall>a \<in> set (ifaceAddrs iface). map_of (fcAddresses c) a = None"
        and c1: "c1 = c\<lparr>fcAddresses := foldl (\<lambda>m a. gm_put a (fdName d) m) (fcAddresses c) (ifaceAddrs iface)\<rparr>"
      using compileInterface_good [OF i1] c(1) by (auto simp: devices_ok_def)
    define relays where "relays = (if siDHCPRelay source \<noteq> [] then [\<lparr>drDevice = d, drIface = iface, drTarget = siDHCPRelay source,
      drField = field @ ''.dhcp_relay'', drAddress = NoAddr\<rparr>] else [])"
    define routes where "routes = (if RoutesIP (Parse (fdType d)) then [\<lparr>roDevice = fdName d, roDestination = nwPrefix (networkOf c (fiNetwork iface)),
      roVia = fiName iface, roNextHop = NoAddr, roConnected = True\<rparr>] else [])"
    define c4 where "c4 = c\<lparr>fcAddresses := foldl (\<lambda>m a. gm_put a (fiDevice iface) m) (fcAddresses c) (ifaceAddrs iface),
      fcInterfaces := fcInterfaces c @ [iface], fcRelays := fcRelays c @ relays, fcRoutes := fcRoutes c @ routes\<rparr>"
    show ?thesis
    proof (cases "siNetwork source = [] \<and> siAddress source = [] \<and> siAddressV6 source = [] \<or> gm_has names (siName source)")
      case True
      then show ?thesis using st skip by (auto simp: s x step)
    next
      case False
      then have eq: "interfaceStep d st x = (gm_put (fiName iface) iface compiled, gm_put (siName source) () names, c4)"
        by (auto simp: s x step i1 c1 c4_def relays_def routes_def dev networkOf_def)
      have fresh: "\<forall>j \<in> set (fcInterfaces c). fiDevice j = fiDevice iface \<longrightarrow> fiName j \<noteq> fiName iface"
        using False c(4) dev by metis
      have "devices_ok c4"
        by (rule devices_ok_interface [OF c(1) n free fresh _ _ _ c4_def]) (use c(2) dev in \<open>auto simp: relays_def routes_def\<close>)
      moreover have "of_device c4 d (gm_put (fiName iface) iface compiled)"
        using c(3) dev by (auto simp: of_device_def c4_def gm_simps)
      ultimately show ?thesis unfolding eq using c dev by (auto simp: loop_ok_def c4_def)
    qed
  qed
qed

lemma compileInterface_keeps: "compileInterface dv s f c = (r, c') \<Longrightarrow> fcInterfaces c' = fcInterfaces c"
  by (auto simp: compileInterface_def compileInterfaceV6_def Let_def add_def split: option.splits prod.splits if_splits)

lemma interfaceStep_more: "set (fcInterfaces (snd (snd st))) \<subseteq> set (fcInterfaces (snd (snd (interfaceStep d st x))))"
  by (cases st; cases x) (auto simp: interfaceStep_def Let_def split: option.splits prod.splits dest!: compileInterface_keeps, auto simp: add_def)

lemma compileInterfaces_ok:
  assumes "devices_ok c" "gm_has (fcDevices c) (fdName d)" "\<forall>i \<in> set (fcInterfaces c). fiDevice i \<noteq> fdName d" "compileInterfaces d c = (compiled, c')"
  shows "devices_ok c' \<and> of_device c' d compiled \<and> set (fcInterfaces c) \<subseteq> set (fcInterfaces c')"
proof -
  have "loop_ok d ([], [], c)" using assms by (auto simp: loop_ok_def of_device_def)
  then have "loop_ok d (foldl (interfaceStep d) ([], [], c) (enumerate 0 (fdInterfaces d)))" by (rule foldl_keeps) (rule interfaceStep_ok)
  moreover have "set (fcInterfaces c) \<subseteq> set (fcInterfaces (snd (snd (foldl (interfaceStep d) ([], [], c) (enumerate 0 (fdInterfaces d))))))"
    by (rule foldl_keeps [where P = "\<lambda>st. set (fcInterfaces c) \<subseteq> set (fcInterfaces (snd (snd st)))"]) (auto dest: subsetD [OF interfaceStep_more])
  ultimately show ?thesis using assms(4) by (auto simp: compileInterfaces_def loop_ok_def split: prod.splits)
qed

text \<open>The loop over the devices: every device whose interfaces were compiled comes with interfaces of its own.\<close>

definition staged :: "(FabricDevice \<times> (string, Interface) gomap option) list \<Rightarrow> scenarioCompiler \<Rightarrow> bool" where
  "staged xs c \<longleftrightarrow> (\<forall>d m. (d, Some m) \<in> set xs \<longrightarrow> of_device c d m)"

lemma of_device_more: "of_device c d m \<Longrightarrow> set (fcInterfaces c) \<subseteq> set (fcInterfaces c') \<Longrightarrow> of_device c' d m"
  by (auto simp: of_device_def)

lemma devices_ok_device:
  assumes "devices_ok c"
  shows "devices_ok (c\<lparr>fcDevices := gm_put k () (fcDevices c)\<rparr>)"
proof -
  have "route_ok (c\<lparr>fcDevices := gm_put k () (fcDevices c)\<rparr>) r" if "route_ok c r" for r using that by (rule route_ok_more) simp_all
  moreover have "ifaces_ok (c\<lparr>fcDevices := gm_put k () (fcDevices c)\<rparr>)" using assms by (auto simp: devices_ok_def intro: ifaces_ok_kept)
  ultimately show ?thesis using assms by (auto simp: devices_ok_def)
qed

lemma deviceStep_ok:
  assumes "devices_ok (snd st)" "staged (fst st) (snd st)"
  shows "devices_ok (snd (deviceStep st x)) \<and> staged (fst (deviceStep st x)) (snd (deviceStep st x))"
proof -
  obtain xs c i d where s: "st = (xs, c)" "x = (i, d)" by (metis prod.exhaust)
  let ?c0 = "c\<lparr>fcDevices := gm_put (fdName d) () (fcDevices c)\<rparr>"
  obtain m c1 where m: "compileInterfaces d ?c0 = (m, c1)" by fastforce
  show ?thesis
  proof (cases "gm_has (fcDevices c) (fdName d)")
    case True
    then have "deviceStep st x = (xs @ [(d, None)], add CodeDuplicateDevice (indexed ''devices'' i @ ''.name'') c)"
      by (simp add: deviceStep_def s)
    moreover have "of_device (add code f c) dv m" if "of_device c dv m" for code f dv m using that by (rule of_device_more) (simp add: add_def)
    ultimately show ?thesis using assms by (auto simp: s staged_def)
  next
    case False
    then have none: "\<forall>i \<in> set (fcInterfaces ?c0). fiDevice i \<noteq> fdName d" using assms(1) by (auto simp: s devices_ok_def)
    have "devices_ok c1 \<and> of_device c1 d m \<and> set (fcInterfaces c) \<subseteq> set (fcInterfaces c1)"
      using compileInterfaces_ok [OF devices_ok_device _ none m] assms(1) by (simp add: s)
    then show ?thesis using False assms(2) m by (auto simp: deviceStep_def s staged_def intro: of_device_more)
  qed
qed

lemma ValidateStaticRoute_ok:
  assumes "ValidateStaticRoute spec ctx = Inr r"
  shows "roDevice r = spDevice spec \<and> roVia r = spVia spec \<and> \<not> roConnected r \<and> (\<exists>i owner. map_of (vcInterfaces ctx) (spVia spec) = Some i \<and>
    map_of (vcAddressOwners ctx) (roNextHop r) = Some owner \<and> owner \<noteq> spDevice spec \<and> Masked (roDestination r) = roDestination r \<and>
    Is6 (roNextHop r) = Is6 (prefixAddr (roDestination r)) \<and>
    (let egress = (if Is6 (roNextHop r) then fiAddressV6 i else fiAddress i) in
     prefixIsValid egress \<and> prefixContains (Masked egress) (roNextHop r) \<and> \<not> isReservedNextHop (Masked egress) (roNextHop r)))"
proof -
  have canon: "Masked p = p" if "parseRouteDestination s = Some p" for s p
    using that parseCanonicalPrefix_ok [of s p] by (auto simp: parseRouteDestination_def split: option.splits if_splits)
  show ?thesis using assms by (auto simp: ValidateStaticRoute_def Let_def split: option.splits if_splits dest: canon)
qed

lemma routeStep_ok:
  assumes c: "devices_ok c" and m: "of_device c d m"
  shows "devices_ok (routeStep d m c x)"
proof (cases x)
  case (Pair i source)
  let ?spec = "\<lparr>spDevice = fdName d, spDestination = rcDestination source, spVia = rcVia source, spNextHop = rcNextHop source\<rparr>"
  let ?ctx = "\<lparr>vcInterfaces = m, vcAddressOwners = fcAddresses c\<rparr>"
  show ?thesis
  proof (cases "ValidateStaticRoute ?spec ?ctx")
    case (Inl e)
    then show ?thesis using c by (cases e) (simp add: routeStep_def Pair Let_def)
  next
    case (Inr r)
    let ?c' = "c\<lparr>fcRoutes := fcRoutes c @ [r]\<rparr>"
    note v = ValidateStaticRoute_ok [OF Inr]
    obtain i owner where i: "map_of m (rcVia source) = Some i" and owner: "map_of (fcAddresses c) (roNextHop r) = Some owner" "owner \<noteq> fdName d"
      using v by auto
    have "\<exists>j \<in> set (fcInterfaces c). roNextHop r \<in> set (ifaceAddrs j) \<and> fiDevice j \<noteq> fdName d"
      using c owner by (auto simp: devices_ok_def ifaces_ok_def)
    then have "hop_ok (fcInterfaces ?c') r i" using v i by (auto simp: hop_ok_def Let_def)
    then have new: "route_ok ?c' r" using m i v by (auto simp: route_ok_def of_device_def)
    have old: "route_ok ?c' s" if "route_ok c s" for s using that by (rule route_ok_more) simp_all
    have "ifaces_ok ?c'" using c by (auto simp: devices_ok_def intro: ifaces_ok_kept)
    then have "devices_ok ?c'" using c new old by (auto simp: devices_ok_def)
    then show ?thesis using Inr by (simp add: routeStep_def Pair Let_def)
  qed
qed

lemma compileRoutes_ok: "devices_ok c \<Longrightarrow> of_device c d m \<Longrightarrow> devices_ok (compileRoutes d m c)"
proof -
  assume "devices_ok c" "of_device c d m"
  then have "devices_ok c \<and> of_device c d m" by simp
  then have "devices_ok (compileRoutes d m c) \<and> of_device (compileRoutes d m c) d m"
    unfolding compileRoutes_def
  proof (rule foldl_keeps)
    fix c x
    assume c: "devices_ok c \<and> of_device c d m"
    have "set (fcInterfaces c) \<subseteq> set (fcInterfaces (routeStep d m c x))"
      by (cases x) (auto simp: routeStep_def Let_def add_def split: sum.splits)
    then show "devices_ok (routeStep d m c x) \<and> of_device (routeStep d m c x) d m" using c by (auto intro: routeStep_ok of_device_more)
  qed
  then show ?thesis by simp
qed

lemma devices_ok_kept:
  assumes c: "devices_ok c"
    and eq: "(fcNetworks c', fcTopNetworks c', fcInterfaces c', fcAddresses c', fcDevices c', fcRelays c', fcRoutes c') =
      (fcNetworks c, fcTopNetworks c, fcInterfaces c, fcAddresses c, fcDevices c, fcRelays c, fcRoutes c)"
  shows "devices_ok c'"
proof -
  have "route_ok c' r" if "route_ok c r" for r using that eq by (auto intro: route_ok_more)
  moreover have "ifaces_ok c'" using c eq by (auto simp: devices_ok_def intro: ifaces_ok_kept)
  ultimately show ?thesis using c eq by (auto simp: devices_ok_def)
qed

lemma serviceStep_ok:
  assumes "devices_ok c" "case x of (d, None) \<Rightarrow> True | (d, Some m) \<Rightarrow> of_device c d m"
  shows "devices_ok (serviceStep c x)"
  using assms compileRoutes_ok devices_ok_kept [OF _ routed.view_compileDHCP]
  by (cases x; cases "snd x") (auto simp: serviceStep_def)

section \<open>DHCP scopes\<close>

definition keys :: "('k, 'v) gomap \<Rightarrow> 'k set" where
  "keys m = fst ` set m"

lemma gm_has_keys: "gm_has m k \<longleftrightarrow> k \<in> keys m"
  by (simp add: gm_has_iff keys_def)

lemma keys_put [simp]: "keys (gm_put k v m) = insert k (keys m)"
  by (simp add: keys_def set_gm_put_fst)

lemma keys_list [simp]: "keys [] = {}" "keys (x # m) = insert (fst x) (keys m)"
  by (simp_all add: keys_def)

lemma list_ex_keys: "list_ex (\<lambda>(a, _). P a) m \<longleftrightarrow> (\<exists>a \<in> keys m. P a)"
  by (force simp: list_ex_iff keys_def)

text \<open>A usable address of a network.\<close>

definition usable :: "Network \<Rightarrow> Addr \<Rightarrow> bool" where
  "usable n a \<longleftrightarrow> prefixContains (nwPrefix n) a \<and> \<not> isReservedEndpoint (nwPrefix n) a"

definition leaseMAC :: "FabricDevice \<Rightarrow> LeaseSource \<Rightarrow> dhcpLeaseMAC" where
  "leaseMAC d l = \<lparr>lmAddress = lcMACAddress l, lmMask = lcMACMask l, lmDevice = fdName d\<rparr>"

definition macs_clear :: "dhcpLeaseMAC \<Rightarrow> dhcpLeaseMAC \<Rightarrow> bool" where
  "macs_clear x y \<longleftrightarrow> \<not> dhcpLeaseMACsOverlap (lmAddress x) (lmMask x) (lmAddress y) (lmMask y)"

text \<open>The addresses a static lease may have while a pool is being added.\<close>

definition lease_free :: "scenarioCompiler \<Rightarrow> Network \<Rightarrow> Addr \<Rightarrow> Addr \<Rightarrow> Addr \<Rightarrow> bool" where
  "lease_free c n start stop a \<longleftrightarrow> Is4 a \<and> usable n a \<and> a \<notin> keys (fcAddresses c) \<and> a \<notin> keys (fcLeaseAddresses c) \<and> \<not> inRange start stop a \<and>
     (\<forall>s \<in> set (fcScopes c). \<not> inRange (dsStart s) (dsEnd s) a)"

lemma macs_clear_sym: "macs_clear x y = macs_clear y x"
proof -
  have "(p XOR q) AND m AND k = (q XOR p) AND k AND (m :: nat)" for p q m k by (simp add: xor.commute and.commute and.left_commute)
  then show ?thesis unfolding macs_clear_def dhcpLeaseMACsOverlap_def by presburger
qed

lemma validateDHCPLease_bad: "validateDHCPLease d l i n s e p m c = (None, c') \<Longrightarrow> \<exists>code f. c' = add code f c"
  by (auto simp: validateDHCPLease_def validateDHCPLeaseAddress_def Let_def split: option.splits if_splits)

lemma validateDHCPLease_good:
  assumes "validateDHCPLease d l i n s e p m c = (Some (a, mac), c')"
  shows "c' = c \<and> ipToAddr (lcClientIP l) = Some a \<and> lease_free c n s e a \<and> a \<notin> keys p \<and> mac = leaseMAC d l \<and> validDHCPLeaseMAC l \<and>
    (\<forall>x \<in> set (fcLeaseMACs c @ m). macs_clear (leaseMAC d l) x)"
  using assms
  by (auto simp: validateDHCPLease_def validateDHCPLeaseAddress_def Let_def lease_free_def usable_def gm_has_keys macs_clear_def leaseMAC_def
      overlappingDHCPLeaseMAC_def list_ex_iff split: option.splits if_splits)

lemma keys_puts: "keys (foldl (\<lambda>m (a, d). gm_put a d m) m xs) = keys m \<union> keys xs"
proof (induction xs arbitrary: m)
  case (Cons x xs)
  then show ?case by (cases x) auto
qed simp

lemma leaseLoop_bad: "leaseLoop d n s e p m c ls = (False, c') \<Longrightarrow> \<exists>code f. c' = add code f c"
  by (induction ls arbitrary: p m c) (auto split: prod.splits option.splits dest: validateDHCPLease_bad validateDHCPLease_good)

lemma leaseLoop_good:
  assumes "leaseLoop d n s e p m c ls = (True, c')"
  shows "\<exists>as. map (\<lambda>x. ipToAddr (lcClientIP (snd x))) ls = map Some as \<and> distinct as \<and> (\<forall>a \<in> set as. lease_free c n s e a \<and> a \<notin> keys p) \<and>
    (\<exists>L. c' = c\<lparr>fcLeaseAddresses := L, fcLeaseMACs := fcLeaseMACs c @ m @ map (\<lambda>x. leaseMAC d (snd x)) ls\<rparr> \<and>
      keys L = keys (fcLeaseAddresses c) \<union> keys p \<union> set as) \<and>
    (\<forall>x \<in> set ls. validDHCPLeaseMAC (snd x)) \<and>
    (sorted_wrt macs_clear (fcLeaseMACs c @ m) \<longrightarrow> sorted_wrt macs_clear (fcLeaseMACs c @ m @ map (\<lambda>x. leaseMAC d (snd x)) ls))"
  using assms
proof (induction ls arbitrary: p m)
  case Nil
  then show ?case using keys_puts [of "fcLeaseAddresses c" p] by (intro exI [of _ "[]"]) (auto intro!: exI)
next
  case (Cons x ls)
  obtain a mac c1 where v: "validateDHCPLease d (snd x) (fst x) n s e p m c = (Some (a, mac), c1)"
      and loop: "leaseLoop d n s e (gm_put a (fdName d) p) (m @ [mac]) c1 ls = (True, c')"
    using Cons.prems by (auto split: prod.splits option.splits)
  have g: "c1 = c" "ipToAddr (lcClientIP (snd x)) = Some a" "lease_free c n s e a" "a \<notin> keys p" "mac = leaseMAC d (snd x)" "validDHCPLeaseMAC (snd x)"
      "\<forall>y \<in> set (fcLeaseMACs c @ m). macs_clear (leaseMAC d (snd x)) y"
    using validateDHCPLease_good [OF v] by auto
  from Cons.IH [OF loop [unfolded g(1)]] obtain as L where as: "map (\<lambda>x. ipToAddr (lcClientIP (snd x))) ls = map Some as" "distinct as"
      "\<forall>b \<in> set as. lease_free c n s e b \<and> b \<noteq> a \<and> b \<notin> keys p"
      and L: "c' = c\<lparr>fcLeaseAddresses := L, fcLeaseMACs := fcLeaseMACs c @ m @ [mac] @ map (\<lambda>x. leaseMAC d (snd x)) ls\<rparr>"
        "keys L = keys (fcLeaseAddresses c) \<union> insert a (keys p) \<union> set as" "\<forall>x \<in> set ls. validDHCPLeaseMAC (snd x)"
      and sorted: "sorted_wrt macs_clear (fcLeaseMACs c @ m @ [mac]) \<longrightarrow>
        sorted_wrt macs_clear (fcLeaseMACs c @ m @ [mac] @ map (\<lambda>x. leaseMAC d (snd x)) ls)"
    by auto
  have "sorted_wrt macs_clear (fcLeaseMACs c @ m @ [mac])" if "sorted_wrt macs_clear (fcLeaseMACs c @ m)"
    using that g(5,7) macs_clear_sym by (auto simp: sorted_wrt_append)
  then show ?case using g as L sorted by (intro exI [of _ "a # as"]) auto
qed

text \<open>A scope of the topology: its pool and router lie in its network; a server's own scope is the one its device authored, and its static leases are
  recorded, each with an address of its own.\<close>

definition scope_ok :: "scenarioCompiler \<Rightarrow> DHCPScope \<Rightarrow> bool" where
  "scope_ok c s \<longleftrightarrow> (\<exists>n. map_of (fcNetworks c) (dsNetwork s) = Some n \<and> dsStart s \<le> dsEnd s \<and> usable n (dsStart s) \<and> usable n (dsEnd s) \<and> usable n (dsRouter s))"

definition own_scope :: "FabricDevice set \<Rightarrow> scenarioCompiler \<Rightarrow> DHCPScope \<Rightarrow> bool" where
  "own_scope ds c s \<longleftrightarrow> (\<exists>d \<in> ds. \<exists>dc n as xs ys. fdName d = dsDevice s \<and> fdDHCPConfig d = Some dc \<and> ipToAddr (dcPoolStart dc) = Some (dsStart s) \<and>
     ipToAddr (dcPoolEnd dc) = Some (dsEnd s) \<and> map_of (fcNetworks c) (dsNetwork s) = Some n \<and>
     map (\<lambda>l. ipToAddr (lcClientIP l)) (dcClientLeases dc) = map Some as \<and> distinct as \<and> set as \<subseteq> keys (fcLeaseAddresses c) \<and>
     (\<forall>a \<in> set as. Is4 a \<and> usable n a) \<and> (\<forall>l \<in> set (dcClientLeases dc). validDHCPLeaseMAC l) \<and>
     fcLeaseMACs c = xs @ map (leaseMAC d) (dcClientLeases dc) @ ys)"

definition pools_clear :: "DHCPScope \<Rightarrow> DHCPScope \<Rightarrow> bool" where
  "pools_clear s t \<longleftrightarrow> dsNetwork s \<noteq> dsNetwork t \<or> dsEnd s < dsStart t \<or> dsEnd t < dsStart s"

definition scopes_ok :: "FabricDevice set \<Rightarrow> scenarioCompiler \<Rightarrow> bool" where
  "scopes_ok ds c \<longleftrightarrow> gm_wf (fcNetworks c) \<and> (\<forall>k n. map_of (fcNetworks c) k = Some n \<longrightarrow> nwName n = k) \<and>
     (\<forall>s \<in> set (fcScopes c). scope_ok c s \<and> (dsRelay s = None \<longrightarrow> own_scope ds c s) \<and>
        (\<forall>a \<in> keys (fcAddresses c) \<union> keys (fcLeaseAddresses c). \<not> inRange (dsStart s) (dsEnd s) a)) \<and>
     sorted_wrt pools_clear (fcScopes c) \<and> keys (fcLeaseAddresses c) \<inter> keys (fcAddresses c) = {} \<and> sorted_wrt macs_clear (fcLeaseMACs c)"

lemma own_scope_more:
  assumes "own_scope ds c s" "fcNetworks c' = fcNetworks c" "keys (fcLeaseAddresses c) \<subseteq> keys (fcLeaseAddresses c')" "fcLeaseMACs c' = fcLeaseMACs c @ ms"
  shows "own_scope ds c' s"
proof -
  obtain d dc n as xs ys where o: "d \<in> ds" "fdName d = dsDevice s" "fdDHCPConfig d = Some dc" "ipToAddr (dcPoolStart dc) = Some (dsStart s)"
      "ipToAddr (dcPoolEnd dc) = Some (dsEnd s)" "map_of (fcNetworks c) (dsNetwork s) = Some n"
      "map (\<lambda>l. ipToAddr (lcClientIP l)) (dcClientLeases dc) = map Some as" "distinct as" "set as \<subseteq> keys (fcLeaseAddresses c)"
      "\<forall>a \<in> set as. Is4 a \<and> usable n a" "\<forall>l \<in> set (dcClientLeases dc). validDHCPLeaseMAC l"
      "fcLeaseMACs c = xs @ map (leaseMAC d) (dcClientLeases dc) @ ys"
    using assms(1) unfolding own_scope_def by blast
  then have "set as \<subseteq> keys (fcLeaseAddresses c')" "fcLeaseMACs c' = xs @ map (leaseMAC d) (dcClientLeases dc) @ ys @ ms" using assms(3,4) by auto
  then show ?thesis using o assms(2) unfolding own_scope_def by metis
qed

lemma scopes_ok_add [simp]: "scopes_ok ds c \<Longrightarrow> scopes_ok ds (add code f c)"
proof -
  assume c: "scopes_ok ds c"
  have "own_scope ds (add code f c) s" if "own_scope ds c s" for s by (rule own_scope_more [OF that, where ms = "[]"]) (simp_all add: add_def)
  then show ?thesis using c by (auto simp: scopes_ok_def scope_ok_def) (auto simp: add_def)
qed

lemma collisions_bad: "validateDHCPPoolCollisions d n s e c = (False, c') \<Longrightarrow> \<exists>code f. c' = add code f c"
  by (auto simp: validateDHCPPoolCollisions_def split: if_splits)

lemma collisions_good:
  assumes "validateDHCPPoolCollisions d n s e c = (True, c')"
  shows "c' = c \<and> (\<forall>a \<in> keys (fcAddresses c) \<union> keys (fcLeaseAddresses c). \<not> inRange s e a) \<and>
    (\<forall>t \<in> set (fcScopes c). dsNetwork t \<noteq> n \<or> e < dsStart t \<or> dsEnd t < s)"
  using assms by (auto simp: validateDHCPPoolCollisions_def list_ex_keys not_le list_ex_iff [of _ "fcScopes c"] split: if_splits)

text \<open>Adding a scope, with the static leases of its server.\<close>

lemma scopes_ok_append:
  assumes c: "scopes_ok ds c" and s: "scope_ok c s"
    and free: "\<forall>a \<in> keys (fcAddresses c) \<union> keys (fcLeaseAddresses c). \<not> inRange (dsStart s) (dsEnd s) a"
      "\<forall>t \<in> set (fcScopes c). dsNetwork t \<noteq> dsNetwork s \<or> dsEnd s < dsStart t \<or> dsEnd t < dsStart s"
    and as: "\<forall>a \<in> set as. lease_free c n (dsStart s) (dsEnd s) a" "keys L = keys (fcLeaseAddresses c) \<union> set as"
    and ms: "sorted_wrt macs_clear (fcLeaseMACs c @ ms)" and c': "c' = c\<lparr>fcLeaseAddresses := L, fcLeaseMACs := fcLeaseMACs c @ ms, fcScopes := fcScopes c @ [s]\<rparr>"
    and own: "dsRelay s = None \<longrightarrow> own_scope ds c' s"
  shows "scopes_ok ds c'"
proof -
  have "own_scope ds c' t" if "own_scope ds c t" for t by (rule own_scope_more [OF that]) (auto simp: c' as(2))
  moreover have "scope_ok c' t \<longleftrightarrow> scope_ok c t" for t by (simp add: scope_ok_def c')
  moreover have "sorted_wrt pools_clear (fcScopes c @ [s])" using c free(2) by (auto simp: scopes_ok_def sorted_wrt_append pools_clear_def)
  ultimately show ?thesis using c s free(1) as ms own unfolding scopes_ok_def
    by (auto simp: lease_free_def c')
qed

lemma networkOf_contains: "prefixContains (nwPrefix (networkOf c k)) a \<Longrightarrow> map_of (fcNetworks c) k = Some (networkOf c k)"
  by (cases "map_of (fcNetworks c) k") (auto simp: networkOf_def zeroNetwork_def noPrefix_def prefixContains_def prefixIsValid_def)

lemma options_bad: "validateDHCPOptions d dc n c = (False, c') \<Longrightarrow> \<exists>code f. c' = add code f c"
  by (auto simp: validateDHCPOptions_def split: option.splits)

lemma options_good: "validateDHCPOptions d dc n c = (True, c') \<Longrightarrow> c' = c"
  by (auto simp: validateDHCPOptions_def split: option.splits)

lemma map_enumerate_snd: "map (\<lambda>x. f (snd x)) (enumerate k xs) = map f xs"
  by (induction xs arbitrary: k) simp_all

lemma all_enumerate_snd: "(\<forall>x \<in> set (enumerate k xs). P (snd x)) \<longleftrightarrow> (\<forall>x \<in> set xs. P x)"
  by (induction xs arbitrary: k) simp_all

definition refused :: "scenarioCompiler \<Rightarrow> scenarioCompiler \<Rightarrow> bool" where
  "refused c c' \<longleftrightarrow> (\<exists>code f. c' = add code f c)"

lemma refused_add [simp]: "refused c (add code f c)"
  by (auto simp: refused_def)

lemma appendDHCPScope_cases:
  assumes "\<not> refused c (appendDHCPScope d dc i c)"
  obtains start stop router c3 where "ipToAddr (dcPoolStart dc) = Some start" "ipToAddr (dcPoolEnd dc) = Some stop"
    "usable (networkOf c (fiNetwork i)) start" "usable (networkOf c (fiNetwork i)) stop" "usable (networkOf c (fiNetwork i)) router" "start \<le> stop"
    "validateDHCPPoolCollisions d (fiNetwork i) start stop c = (True, c)" "validateDHCPLeases d dc (networkOf c (fiNetwork i)) start stop c = (True, c3)"
    "appendDHCPScope d dc i c = c3\<lparr>fcScopes := fcScopes c3 @ [\<lparr>dsDevice = fdName d, dsNetwork = fiNetwork i, dsStart = start, dsEnd = stop,
      dsRouter = router, dsRelay = None\<rparr>]\<rparr>"
proof -
  let ?n = "networkOf c (fiNetwork i)"
  obtain start stop where p: "ipToAddr (dcPoolStart dc) = Some start" "ipToAddr (dcPoolEnd dc) = Some stop"
    using assms by (cases "ipToAddr (dcPoolStart dc)"; cases "ipToAddr (dcPoolEnd dc)") (simp_all add: appendDHCPScope_def)
  have "refused c (appendDHCPScope d dc i c)" if "\<not> (usable ?n start \<and> usable ?n stop \<and> start \<le> stop)"
    using that by (auto simp: appendDHCPScope_def p usable_def Let_def not_le)
  then have u: "usable ?n start" "usable ?n stop" "start \<le> stop" using assms by auto
  have "refused c (appendDHCPScope d dc i c)" if "ipToAddr (dcRouter dc) = None"
    using that u by (auto simp: appendDHCPScope_def p usable_def Let_def)
  then obtain router where r: "ipToAddr (dcRouter dc) = Some router" using assms by fastforce
  have "refused c (appendDHCPScope d dc i c)" if "\<not> usable ?n router"
    using that u by (auto simp: appendDHCPScope_def p r usable_def Let_def)
  then have ru: "usable ?n router" using assms by auto
  note eq = appendDHCPScope_def [of d dc i c, unfolded Let_def p r prod.case option.case]
  have eq1: "appendDHCPScope d dc i c = (case validateDHCPOptions d dc ?n c of (False, c1) \<Rightarrow> c1
      | (True, c1) \<Rightarrow> case validateDHCPPoolCollisions d (fiNetwork i) start stop c1 of (False, c2) \<Rightarrow> c2
        | (True, c2) \<Rightarrow> case validateDHCPLeases d dc ?n start stop c2 of (False, c3) \<Rightarrow> c3
          | (True, c3) \<Rightarrow> c3\<lparr>fcScopes := fcScopes c3 @ [\<lparr>dsDevice = fdName d, dsNetwork = fiNetwork i, dsStart = start, dsEnd = stop,
              dsRouter = router, dsRelay = None\<rparr>]\<rparr>)"
    using u ru unfolding eq by (simp add: usable_def not_less)
  have o: "validateDHCPOptions d dc ?n c = (True, c)"
    using assms options_bad [of d dc ?n c] options_good [of d dc ?n c]
    by (cases "validateDHCPOptions d dc ?n c"; cases "fst (validateDHCPOptions d dc ?n c)") (auto simp: eq1 refused_def)
  have k: "validateDHCPPoolCollisions d (fiNetwork i) start stop c = (True, c)"
    using assms collisions_bad [of d "fiNetwork i" start stop c] collisions_good [of d "fiNetwork i" start stop c]
    by (cases "validateDHCPPoolCollisions d (fiNetwork i) start stop c"; cases "fst (validateDHCPPoolCollisions d (fiNetwork i) start stop c)")
      (auto simp: eq1 o refused_def)
  obtain c3 where l: "validateDHCPLeases d dc ?n start stop c = (True, c3)"
    using assms leaseLoop_bad [of d ?n start stop "[]" "[]" c "enumerate 0 (dcClientLeases dc)"]
    by (cases "validateDHCPLeases d dc ?n start stop c"; cases "fst (validateDHCPLeases d dc ?n start stop c)")
      (auto simp: eq1 o k refused_def validateDHCPLeases_def)
  show thesis by (rule that [OF p u(1,2) ru u(3) k l]) (simp add: eq1 o k l)
qed

lemma appendDHCPScope_ok:
  assumes c: "scopes_ok ds c" and d: "d \<in> ds" "fdDHCPConfig d = Some dc"
  shows "scopes_ok ds (appendDHCPScope d dc i c)"
proof (cases "refused c (appendDHCPScope d dc i c)")
  case True
  then show ?thesis using c by (auto simp: refused_def)
next
  case False
  let ?n = "networkOf c (fiNetwork i)"
  obtain start stop router c3 where p: "ipToAddr (dcPoolStart dc) = Some start" "ipToAddr (dcPoolEnd dc) = Some stop"
      and u: "usable ?n start" "usable ?n stop" "usable ?n router" "start \<le> stop"
      and k: "validateDHCPPoolCollisions d (fiNetwork i) start stop c = (True, c)" and l: "validateDHCPLeases d dc ?n start stop c = (True, c3)"
      and eq: "appendDHCPScope d dc i c = c3\<lparr>fcScopes := fcScopes c3 @ [\<lparr>dsDevice = fdName d, dsNetwork = fiNetwork i, dsStart = start, dsEnd = stop,
        dsRouter = router, dsRelay = None\<rparr>]\<rparr>"
    using appendDHCPScope_cases [OF False] by metis
  define s where "s = \<lparr>dsDevice = fdName d, dsNetwork = fiNetwork i, dsStart = start, dsEnd = stop, dsRouter = router, dsRelay = None\<rparr>"
  have n: "map_of (fcNetworks c) (fiNetwork i) = Some ?n" using u(1) by (auto simp: usable_def intro: networkOf_contains)
  obtain as L where as: "map (\<lambda>l. ipToAddr (lcClientIP l)) (dcClientLeases dc) = map Some as" "distinct as" "\<forall>a \<in> set as. lease_free c ?n start stop a"
      and L: "c3 = c\<lparr>fcLeaseAddresses := L, fcLeaseMACs := fcLeaseMACs c @ map (leaseMAC d) (dcClientLeases dc)\<rparr>"
        "keys L = keys (fcLeaseAddresses c) \<union> set as" "\<forall>l \<in> set (dcClientLeases dc). validDHCPLeaseMAC l"
      and ms: "sorted_wrt macs_clear (fcLeaseMACs c @ map (leaseMAC d) (dcClientLeases dc))"
    using leaseLoop_good [OF l [unfolded validateDHCPLeases_def], unfolded map_enumerate_snd map_enumerate_snd [of "\<lambda>l. ipToAddr (lcClientIP l)"] all_enumerate_snd] c
    by (auto simp: scopes_ok_def)
  let ?c' = "c\<lparr>fcLeaseAddresses := L, fcLeaseMACs := fcLeaseMACs c @ map (leaseMAC d) (dcClientLeases dc), fcScopes := fcScopes c @ [s]\<rparr>"
  have "own_scope ds ?c' s"
    unfolding own_scope_def
    by (rule bexI [OF _ d(1)], intro exI [of _ dc] exI [of _ ?n] exI [of _ as] exI [of _ "fcLeaseMACs c"] exI [of _ "[]"])
      (use d p n as L(2,3) in \<open>auto simp: s_def lease_free_def\<close>)
  then have "scopes_ok ds ?c'"
    using collisions_good [OF k] as(3) L(2) ms u n by (intro scopes_ok_append [OF c, where s = s and n = ?n and as = as]) (auto simp: s_def scope_ok_def)
  then show ?thesis by (simp add: eq L(1) s_def)
qed

lemma compileDHCP_ok:
  assumes c: "scopes_ok ds c" and d: "d \<in> ds"
  shows "scopes_ok ds (compileDHCP d m c)"
proof -
  have "scopes_ok ds (foldl (\<lambda>c (_, i). appendDHCPScope d dc i c) c xs)" if "fdDHCPConfig d = Some dc" for dc and xs :: "(string, Interface) gomap"
    using c by (rule foldl_keeps) (auto intro: appendDHCPScope_ok [OF _ d that])
  then show ?thesis using c by (auto simp: compileDHCP_def Let_def split: option.splits)
qed

lemma networkContaining_found:
  assumes "networkContaining a c = Some n" "scopes_ok ds c"
  shows "map_of (fcNetworks c) (nwName n) = Some n \<and> prefixContains (nwPrefix n) a"
proof -
  obtain k where k: "(k, n) \<in> set (fcNetworks c)" "prefixContains (nwPrefix n) a"
    using assms(1) by (auto simp: networkContaining_def find_Some_iff) (metis nth_mem)
  then have "map_of (fcNetworks c) k = Some n" using assms(2) by (simp add: scopes_ok_def gm_wf_map_of_mem)
  then show ?thesis using assms(2) k(2) by (auto simp: scopes_ok_def)
qed

lemma compileRelayedScope_cases:
  assumes "\<not> refused c (snd (compileRelayedScope d m rs (used, c) (i, sc)))"
  obtains start stop router n relay where "networkContaining start c = Some n" "usable n stop" "\<not> isReservedEndpoint (nwPrefix n) start" "usable n router" "start \<le> stop"
    "validateDHCPPoolCollisions d (nwName n) start stop c = (True, c)" "relay \<in> set rs" "relaysToServer n m relay"
    "snd (compileRelayedScope d m rs (used, c) (i, sc)) = c\<lparr>fcScopes := fcScopes c @ [\<lparr>dsDevice = fdName d, dsNetwork = nwName n, dsStart = start, dsEnd = stop,
      dsRouter = router, dsRelay = Some \<lparr>rlDevice = fdName (drDevice relay), rlInterface = fiName (drIface relay),
        rlAddress = prefixAddr (fiAddress (drIface relay)), rlServer = drAddress relay\<rparr>\<rparr>]\<rparr>"
proof -
  let ?r = "refused c (snd (compileRelayedScope d m rs (used, c) (i, sc)))"
  obtain start stop where p: "ipToAddr (ssPoolStart sc) = Some start" "ipToAddr (ssPoolEnd sc) = Some stop"
    using assms by (cases "ipToAddr (ssPoolStart sc)"; cases "ipToAddr (ssPoolEnd sc)") (simp_all add: compileRelayedScope_def Let_def)
  obtain n where n: "networkContaining start c = Some n"
    using assms p by (cases "networkContaining start c") (simp_all add: compileRelayedScope_def Let_def)
  have "?r" if "\<not> (usable n stop \<and> start \<le> stop \<and> \<not> isReservedEndpoint (nwPrefix n) start)"
    using that by (auto simp: compileRelayedScope_def p n usable_def Let_def not_le)
  then have u: "usable n stop" "start \<le> stop" "\<not> isReservedEndpoint (nwPrefix n) start" using assms by auto
  have "?r" if "ipToAddr (ssRouter sc) = None" using that u by (auto simp: compileRelayedScope_def p n usable_def Let_def)
  then obtain router where r: "ipToAddr (ssRouter sc) = Some router" using assms by fastforce
  have "?r" if "\<not> usable n router" using that u by (auto simp: compileRelayedScope_def p n r usable_def Let_def)
  then have ru: "usable n router" using assms by auto
  have "?r" if "list_ex (\<lambda>(_, iface). fiNetwork iface = nwName n) m" using that u ru by (auto simp: compileRelayedScope_def p n r usable_def Let_def)
  then have e: "\<not> list_ex (\<lambda>(_, iface). fiNetwork iface = nwName n) m" using assms by auto
  have "?r" if "find (relaysToServer n m) rs = None" using that u ru e by (auto simp: compileRelayedScope_def p n r usable_def Let_def)
  then obtain relay where relay: "find (relaysToServer n m) rs = Some relay" using assms by fastforce
  then have rel: "relay \<in> set rs" "relaysToServer n m relay" by (auto simp: find_Some_iff)
  note defs = compileRelayedScope_def p n r usable_def Let_def relay
  have "?r" if "validateDHCPPoolCollisions d (nwName n) start stop c = (False, c')" for c'
    using that u ru e collisions_bad [OF that] by (auto simp: defs)
  then have k: "validateDHCPPoolCollisions d (nwName n) start stop c = (True, c)"
    using assms collisions_good [of d "nwName n" start stop c] by (metis prod.exhaust)
  show thesis by (rule that [OF n u(1) u(3) ru u(2) k rel]) (use u ru e k in \<open>auto simp: defs\<close>)
qed

lemma scopes_ok_relayed:
  assumes c: "scopes_ok ds c" and n: "networkContaining start c = Some n"
    and u: "usable n stop" "\<not> isReservedEndpoint (nwPrefix n) start" "usable n router" "start \<le> stop"
    and k: "validateDHCPPoolCollisions d (nwName n) start stop c = (True, c)"
    and s: "dsNetwork s = nwName n" "dsStart s = start" "dsEnd s = stop" "dsRouter s = router" "dsRelay s \<noteq> None"
  shows "scopes_ok ds (c\<lparr>fcScopes := fcScopes c @ [s]\<rparr>)"
proof -
  have "map_of (fcNetworks c) (nwName n) = Some n" "usable n start" using networkContaining_found [OF n c] u(2) by (auto simp: usable_def)
  then have "scope_ok c s" using u s by (simp add: scope_ok_def)
  moreover have "sorted_wrt macs_clear (fcLeaseMACs c @ [])" using c by (simp add: scopes_ok_def)
  ultimately show ?thesis
    using collisions_good [OF k] s by (intro scopes_ok_append [OF c, where as = "[]" and L = "fcLeaseAddresses c" and ms = "[]" and n = n]) auto
qed

lemma compileRelayedScope_ok:
  assumes c: "scopes_ok ds (snd st)"
  shows "scopes_ok ds (snd (compileRelayedScope d m rs st x))"
proof -
  obtain used c0 i sc where st: "st = (used, c0)" "x = (i, sc)" by (metis prod.exhaust)
  show ?thesis
  proof (cases "refused c0 (snd (compileRelayedScope d m rs (used, c0) (i, sc)))")
    case True
    then show ?thesis using c by (auto simp: st refused_def)
  next
    case False
    show ?thesis unfolding st
    proof (rule compileRelayedScope_cases [OF False], goal_cases)
      case (1 start stop router n relay)
      show ?case unfolding 1(9)
        by (rule scopes_ok_relayed [OF _ 1(1-3,4,5,6)]) (use c in \<open>simp_all add: st\<close>)
    qed
  qed
qed

lemma relayedStep_ok: "scopes_ok ds (snd st) \<Longrightarrow> scopes_ok ds (snd (relayedStep rs st x))"
  by (auto simp: relayedStep_def split: prod.splits option.splits
      intro: foldl_keeps [where P = "\<lambda>st. scopes_ok ds (snd st)"] compileRelayedScope_ok)

lemma compileRelayedDHCP_ok:
  assumes "scopes_ok ds c"
  shows "scopes_ok ds (compileRelayedDHCP xs c)"
proof -
  obtain rs c1 where v: "validDHCPRelays c = (rs, c1)" by fastforce
  have "scopes_ok ds (snd (validDHCPRelays c))" unfolding validDHCPRelays_def
    by (rule foldl_keeps [where P = "\<lambda>st. scopes_ok ds (snd st)"]) (use assms in \<open>auto simp: validRelayStep_def split: option.splits prod.splits\<close>)
  then have "scopes_ok ds (snd (foldl (relayedStep rs) (replicate (length rs) False, c1) xs))"
    by (intro foldl_keeps [where P = "\<lambda>st. scopes_ok ds (snd st)"]) (auto simp: v intro: relayedStep_ok)
  then show ?thesis by (auto simp: compileRelayedDHCP_def v split: prod.splits intro!: foldl_keeps [where P = "scopes_ok ds"])
qed

lemma compileRoutes_scopes:
  assumes "scopes_ok ds c"
  shows "scopes_ok ds (compileRoutes d m c)"
proof -
  have "scopes_ok ds (c\<lparr>fcRoutes := rs\<rparr>)" if "scopes_ok ds c" for rs c
    using that by (auto simp: scopes_ok_def scope_ok_def intro: own_scope_more [where ms = "[]"])
  then show ?thesis
    unfolding compileRoutes_def using assms by (intro foldl_keeps [where P = "scopes_ok ds"]) (auto simp: routeStep_def Let_def split: sum.splits)
qed

section \<open>The whole compilation\<close>

lemma deviceStep_members: "fst ` set (fst (foldl deviceStep (xs, c) ys)) \<subseteq> fst ` set xs \<union> snd ` set ys"
proof (induction ys arbitrary: xs c)
  case (Cons y ys)
  obtain zs c' where z: "deviceStep (xs, c) y = (zs, c')" by fastforce
  have "fst ` set zs \<subseteq> insert (snd y) (fst ` set xs)"
    using z by (auto simp: deviceStep_def split: prod.splits if_splits)
  with Cons [of zs c'] show ?case by (simp add: z) blast
qed simp

lemma compileDevices_ok:
  assumes c: "devices_ok c" "fcInterfaces c = []"
  shows "devices_ok (compileDevices g c)"
proof -
  let ?st = "foldl deviceStep ([], c) (enumerate 0 (fgDevices g))"
  obtain xs c1 where f: "?st = (xs, c1)" by fastforce
  have "devices_ok (snd ?st) \<and> staged (fst ?st) (snd ?st)"
  proof (rule foldl_keeps [where P = "\<lambda>st. devices_ok (snd st) \<and> staged (fst st) (snd st)"])
    show "devices_ok (snd ([], c)) \<and> staged (fst ([], c)) (snd ([], c))" using c by (simp add: staged_def)
  qed (rule deviceStep_ok; simp)
  then have c1: "devices_ok c1" "staged xs c1" by (simp_all add: f)
  have "devices_ok (foldl serviceStep c1 xs) \<and> fcInterfaces (foldl serviceStep c1 xs) = fcInterfaces c1"
  proof (rule foldl_keeps [where P = "\<lambda>c. devices_ok c \<and> fcInterfaces c = fcInterfaces c1"])
    fix c x
    assume x: "devices_ok c \<and> fcInterfaces c = fcInterfaces c1" "x \<in> set xs"
    then have "case x of (d, None) \<Rightarrow> True | (d, Some m) \<Rightarrow> of_device c d m"
      using c1(2) by (auto simp: staged_def of_device_def split: option.splits)
    then show "devices_ok (serviceStep c x) \<and> fcInterfaces (serviceStep c x) = fcInterfaces c1"
      using x(1) serviceStep_ok ifaces.view_service [of c x] by simp
  qed (use c1 in simp)
  then show ?thesis using devices_ok_kept [OF _ routed.view_compileRelayedDHCP] by (simp add: compileDevices_def f)
qed

lemma compileDevices_scopes:
  assumes c: "gm_wf (fcNetworks c)" "\<forall>k n. map_of (fcNetworks c) k = Some n \<longrightarrow> nwName n = k" "fcScopes c = []" "fcLeaseAddresses c = []" "fcLeaseMACs c = []"
  shows "scopes_ok (set (fgDevices g)) (compileDevices g c)"
proof -
  let ?st = "foldl deviceStep ([], c) (enumerate 0 (fgDevices g))"
  obtain xs c1 where f: "?st = (xs, c1)" by fastforce
  have c1: "scopes_ok (set (fgDevices g)) c1"
    using c pools.view_deviceSteps [of c "enumerate 0 (fgDevices g)"] nets.view_deviceSteps [of c "enumerate 0 (fgDevices g)"]
    by (simp add: f scopes_ok_def)
  have ds: "fst ` set xs \<subseteq> set (fgDevices g)"
    using deviceStep_members [of "[]" c "enumerate 0 (fgDevices g)"] by (auto simp: f in_set_enumerate_eq)
  have "scopes_ok (set (fgDevices g)) (foldl serviceStep c1 xs)"
    by (rule foldl_keeps [where P = "scopes_ok (set (fgDevices g))"]) (use c1 ds in \<open>auto simp: serviceStep_def split: option.splits intro!: compileDHCP_ok compileRoutes_scopes\<close>)
  then show ?thesis by (simp add: compileDevices_def f compileRelayedDHCP_ok)
qed

end
