(* ===== verification/Fabric_Pools.thy ===== *)
theory Fabric_Pools
  imports Fabric_Sound
begin

text \<open>
  The attachment pools of the fabric compiler.  The broadcast domain of a port is the set of devices its VLAN reaches over the links; a compiled pool
  is made of free ports, each with one access VLAN, and all on the one network that serves those VLANs; its pins are ports of the pool; and a pool that
  does not compile is diagnosed.
\<close>

section \<open>Broadcast domains\<close>

text \<open>A device is linked to the devices that one of its trunks names, if the trunk is a real link and carries the VLAN.\<close>

definition carries :: "16 word \<Rightarrow> TrunkPort \<Rightarrow> bool" where
  "carries vlan t \<longleftrightarrow> tpRemoteDevice t \<noteq> [] \<and> \<not> tpFDBOnly t \<and> trunkCarriesVLAN t vlan"

definition linked :: "FabricConfig \<Rightarrow> 16 word \<Rightarrow> (string \<times> string) set" where
  "linked g vlan = {(x, y). \<exists>d t. deviceByName g x = Some d \<and> t \<in> set (fdTrunkPorts d) \<and> carries vlan t \<and> tpRemoteDevice t = y}"

lemma visitTrunks:
  "keys (fst (foldl (visitTrunk vlan) st ts)) = keys (fst st) \<union> tpRemoteDevice ` {t \<in> set ts. carries vlan t} \<and>
   set (snd (foldl (visitTrunk vlan) st ts)) = set (snd st) \<union> (tpRemoteDevice ` {t \<in> set ts. carries vlan t} - keys (fst st))"
proof (induction ts arbitrary: st)
  case (Cons t ts)
  have "keys (fst (visitTrunk vlan st t)) = keys (fst st) \<union> (if carries vlan t then {tpRemoteDevice t} else {}) \<and>
      set (snd (visitTrunk vlan st t)) = set (snd st) \<union> (if carries vlan t then {tpRemoteDevice t} - keys (fst st) else {})"
    by (cases st) (auto simp: visitTrunk_def carries_def Let_def gm_has_keys)
  moreover have "{x \<in> set (t # ts). carries vlan x} = (if carries vlan t then {t} else {}) \<union> {x \<in> set ts. carries vlan x}" by auto
  ultimately show ?case using Cons [of "visitTrunk vlan st t"] by (auto split: if_splits)
qed simp

definition frontier :: "FabricConfig \<Rightarrow> 16 word \<Rightarrow> string set \<Rightarrow> string set \<Rightarrow> bool" where
  "frontier g vlan seen todo \<longleftrightarrow> todo \<subseteq> seen \<and> linked g vlan `` (seen - todo) \<subseteq> seen"

lemma frontier_visit:
  assumes "frontier g vlan S (insert x Q)"
  shows "frontier g vlan (S \<union> linked g vlan `` {x}) (Q \<union> (linked g vlan `` {x} - S))"
proof -
  have "(S \<union> linked g vlan `` {x}) - (Q \<union> (linked g vlan `` {x} - S)) \<subseteq> insert x (S - insert x Q)" by auto
  then have "linked g vlan `` ((S \<union> linked g vlan `` {x}) - (Q \<union> (linked g vlan `` {x} - S))) \<subseteq> linked g vlan `` {x} \<union> linked g vlan `` (S - insert x Q)"
    by auto
  then show ?thesis using assms unfolding frontier_def by blast
qed

lemma domainLoop_closed:
  assumes "frontier g vlan (keys m) (set q)"
  shows "keys m \<subseteq> keys (domainLoop g vlan m q) \<and> linked g vlan `` keys (domainLoop g vlan m q) \<subseteq> keys (domainLoop g vlan m q)"
  using assms
proof (induction g vlan m q rule: domainLoop.induct)
  case (2 g vlan m x q)
  show ?case
  proof (cases "deviceByName g x")
    case None
    then have "linked g vlan `` {x} = {}" by (auto simp: linked_def)
    then have "frontier g vlan (keys m) (set q)" using 2(3) by (auto simp: frontier_def)
    then show ?thesis using 2(1) None by simp
  next
    case (Some d)
    let ?n = "foldl (visitTrunk vlan) (m, q) (fdTrunkPorts d)"
    note v = visitTrunks [of vlan "(m, q)" "fdTrunkPorts d"]
    have "linked g vlan `` {x} = tpRemoteDevice ` {t \<in> set (fdTrunkPorts d). carries vlan t}" using Some by (auto simp: linked_def)
    then have "frontier g vlan (keys (fst ?n)) (set (snd ?n))" using frontier_visit [of g vlan "keys m" x "set q"] 2(3) v by simp
    then show ?thesis using 2(2) [OF Some refl] v Some by (auto simp: Let_def)
  qed
qed (simp add: frontier_def)

lemma domainLoop_reach:
  assumes "keys m \<subseteq> (linked g vlan)\<^sup>* `` S" "set q \<subseteq> (linked g vlan)\<^sup>* `` S"
  shows "keys (domainLoop g vlan m q) \<subseteq> (linked g vlan)\<^sup>* `` S"
  using assms
proof (induction g vlan m q rule: domainLoop.induct)
  case (2 g vlan m x q)
  show ?case
  proof (cases "deviceByName g x")
    case (Some d)
    let ?n = "foldl (visitTrunk vlan) (m, q) (fdTrunkPorts d)"
    have "tpRemoteDevice ` {t \<in> set (fdTrunkPorts d). carries vlan t} \<subseteq> linked g vlan `` {x}" using Some by (auto simp: linked_def)
    also have "\<dots> \<subseteq> (linked g vlan)\<^sup>* `` S" using 2(4) by (auto intro: rtrancl_into_rtrancl)
    finally show ?thesis using 2(2) [OF Some refl] 2(3,4) visitTrunks [of vlan "(m, q)" "fdTrunkPorts d"] Some by (auto simp: Let_def)
  qed (use 2 in simp)
qed simp

lemma broadcastDomain_keys: "keys (broadcastDomain g d vlan) = (linked g vlan)\<^sup>* `` {fdName d}"
proof
  let ?m = "broadcastDomain g d vlan"
  show "keys ?m \<subseteq> (linked g vlan)\<^sup>* `` {fdName d}" unfolding broadcastDomain_def by (rule domainLoop_reach) auto
  have closed: "fdName d \<in> keys ?m" "linked g vlan `` keys ?m \<subseteq> keys ?m"
    using domainLoop_closed [of g vlan "[(fdName d, ())]" "[fdName d]"] by (simp_all add: broadcastDomain_def frontier_def)
  have "y \<in> keys ?m" if "(fdName d, y) \<in> (linked g vlan)\<^sup>*" for y
    using that by (induction rule: rtrancl_induct) (use closed in auto)
  then show "(linked g vlan)\<^sup>* `` {fdName d} \<subseteq> keys ?m" by auto
qed

text \<open>C26 (broadcast_domain): the devices in the broadcast domain of a port are those that links carrying its VLAN reach from the port's device: the
  queue-driven search ends, and computes the reflexive and transitive closure of the links.\<close>

theorem broadcast_domain: "gm_has (broadcastDomain cfg device vlan) name \<longleftrightarrow> (fdName device, name) \<in> (linked cfg vlan)\<^sup>*"
  by (simp add: gm_has_keys broadcastDomain_keys)

section \<open>Attachment pools\<close>

text \<open>A network serves a VLAN in a domain if it has that VLAN and a device of the domain has an interface on it.\<close>

definition serves :: "FabricConfig \<Rightarrow> (string, Network) gomap \<Rightarrow> 16 word \<Rightarrow> string set \<Rightarrow> string \<Rightarrow> bool" where
  "serves g nets vlan domain name \<longleftrightarrow> name \<noteq> [] \<and> (\<exists>n. map_of nets name = Some n \<and> nwVirtualVLAN n = vlan) \<and>
     (\<exists>d \<in> set (fgDevices g). fdName d \<in> domain \<and> (\<exists>i \<in> set (fdInterfaces d). siNetwork i = name))"

lemma servingStep_set:
  "set (servingStep c vlan found i) =
     set found \<union> (if siNetwork i \<noteq> [] \<and> (\<exists>n. map_of (fcNetworks c) (siNetwork i) = Some n \<and> nwVirtualVLAN n = vlan) then {siNetwork i} else {})"
  by (auto simp: servingStep_def Let_def split: option.splits)

lemma servingSteps_set:
  "set (foldl (servingStep c vlan) found is) =
     set found \<union> {siNetwork i |i. i \<in> set is \<and> siNetwork i \<noteq> [] \<and> (\<exists>n. map_of (fcNetworks c) (siNetwork i) = Some n \<and> nwVirtualVLAN n = vlan)}"
  by (induction "is" arbitrary: found) (auto simp: servingStep_set)

lemma serving_set:
  "set (foldl (\<lambda>found d. if \<not> gm_has m (fdName d) then found else foldl (servingStep c vlan) found (fdInterfaces d)) found ds) =
     set found \<union> {name. name \<noteq> [] \<and> (\<exists>n. map_of (fcNetworks c) name = Some n \<and> nwVirtualVLAN n = vlan) \<and>
       (\<exists>d \<in> set ds. fdName d \<in> keys m \<and> (\<exists>i \<in> set (fdInterfaces d). siNetwork i = name))}"
  by (induction ds arbitrary: found) (auto simp: servingSteps_set gm_has_keys)

text \<open>The network of a port is the one network that serves its VLAN in its broadcast domain.\<close>

lemma networkServingVLAN_resolved:
  assumes "networkServingVLAN g vlan m c = (name, vlanNetworkResolved)"
  shows "\<forall>x. serves g (fcNetworks c) vlan (keys m) x \<longleftrightarrow> x = name"
proof -
  let ?found = "foldl (\<lambda>found d. if \<not> gm_has m (fdName d) then found else foldl (servingStep c vlan) found (fdInterfaces d)) [] (fgDevices g)"
  have "?found = [name]" using assms by (auto simp: networkServingVLAN_def Let_def split: list.splits)
  then have "set ?found = {name}" by simp
  then show ?thesis unfolding serving_set by (auto simp: serves_def)
qed

text \<open>A port of a pool: an interface of the device that no link and no port channel uses, with one access VLAN and the one network that serves it.\<close>

definition port_ok :: "FabricConfig \<Rightarrow> (string, Network) gomap \<Rightarrow> AttachmentPort \<Rightarrow> bool" where
  "port_ok g nets p \<longleftrightarrow> (\<exists>d i. deviceByName g (apDevice p) = Some d \<and> interfaceByName d (apInterface p) = Some i \<and> siVLANs i = [uint (apVLAN p)] \<and>
     (\<forall>t \<in> set (fdTrunkPorts d). tpInterface t \<noteq> apInterface p) \<and> (\<forall>ch \<in> set (fdPortChannels d). apInterface p \<notin> set (pcMembers ch)) \<and>
     (\<forall>x. serves g nets (apVLAN p) ((linked g (apVLAN p))\<^sup>* `` {apDevice p}) x \<longleftrightarrow> x = apNetwork p))"

lemma portOccupation_free:
  "portOccupation d name = [] \<Longrightarrow> (\<forall>t \<in> set (fdTrunkPorts d). tpInterface t \<noteq> name) \<and> (\<forall>ch \<in> set (fdPortChannels d). name \<notin> set (pcMembers ch))"
  by (auto simp: portOccupation_def find_None_iff split: option.splits if_splits)

lemma accessVLAN_only: "accessVLAN i = Some v \<Longrightarrow> siVLANs i = [uint v]"
  by (auto simp: accessVLAN_def uint_word_of_int take_bit_int_eq_self split: list.splits if_splits)

lemma compileAttachmentPoolPort_ok:
  assumes "compileAttachmentPoolPort g d name f c = (Some p, c')" "deviceByName g (fdName d) = Some d"
  shows "port_ok g (fcNetworks c) p \<and> apDevice p = fdName d \<and> apInterface p = name"
proof -
  obtain i v net where h: "interfaceByName d name = Some i" "portOccupation d name = []" "accessVLAN i = Some v"
      "networkServingVLAN g v (broadcastDomain g d v) c = (net, vlanNetworkResolved)"
      "p = \<lparr>apDevice = fdName d, apInterface = name, apVLAN = v, apNetwork = net\<rparr>"
    using assms(1) by (auto simp: compileAttachmentPoolPort_def split: option.splits if_splits prod.splits vlanNetworkResolution.splits)
  from networkServingVLAN_resolved [OF h(4)] accessVLAN_only [OF h(3)] portOccupation_free [OF h(2)] show ?thesis
    using h(1,5) assms(2) by (auto simp: port_ok_def broadcastDomain_keys)
qed

lemma deviceByName_self: "deviceByName g name = Some d \<Longrightarrow> deviceByName g (fdName d) = Some d"
  by (metis deviceByName_mem)

abbreviation portPair :: "AttachmentPort \<Rightarrow> string \<times> string" where
  "portPair p \<equiv> (apDevice p, apInterface p)"

text \<open>The ports collected so far, with the keys seen.\<close>

definition pool_inv :: "FabricConfig \<Rightarrow> (string, Network) gomap \<Rightarrow> poolState \<Rightarrow> bool" where
  "pool_inv g nets st \<longleftrightarrow> (case st of (ports, seen, ok, c) \<Rightarrow> fcNetworks c = nets \<and> (\<forall>p \<in> set ports. port_ok g nets p \<and> gm_has seen (portKey (apDevice p) (apInterface p))) \<and>
     distinct (map portPair ports))"

lemma pool_inv_add: "pool_inv g nets (ports, seen, ok, c) \<Longrightarrow> pool_inv g nets (ports, seen, ok', add code f c)"
  by (simp add: pool_inv_def add_def)

lemma poolPortStep_ok:
  assumes st: "pool_inv g nets st" and d: "deviceByName g (fdName d) = Some d"
  shows "pool_inv g nets (poolPortStep g d f st x)"
proof -
  obtain ports seen ok c j name where s: "st = (ports, seen, ok, c)" "x = (j, name)" by (metis prod.exhaust)
  define field where "field = indexed (f @ ''.ports'') j"
  obtain r c' where r: "compileAttachmentPoolPort g d name field c = (r, c')" by fastforce
  have c': "fcNetworks c' = nets" using nets.view_port [OF r] st by (simp add: s pool_inv_def)
  show ?thesis
  proof (cases "gm_has seen (portKey (fdName d) name)")
    case True
    then show ?thesis using st by (simp add: s poolPortStep_def Let_def pool_inv_add)
  next
    case False
    have eq: "poolPortStep g d f st x = (case r of None \<Rightarrow> (ports, gm_put (portKey (fdName d) name) () seen, False, c')
        | Some p \<Rightarrow> (ports @ [p], gm_put (portKey (fdName d) name) () seen, ok, c'))"
      using False r by (simp add: s poolPortStep_def Let_def flip: field_def split: option.splits)
    show ?thesis
    proof (cases r)
      case (Some p)
      then have p: "port_ok g nets p" "apDevice p = fdName d" "apInterface p = name"
        using compileAttachmentPoolPort_ok [OF _ d, of name field c] r st by (auto simp: s pool_inv_def)
      then have "portPair p \<notin> set (map portPair ports)" using False st by (auto simp: s pool_inv_def)
      then show ?thesis using st c' p unfolding eq by (auto simp: Some s pool_inv_def)
    next
      case None
      then show ?thesis using st c' unfolding eq by (auto simp: s pool_inv_def)
    qed
  qed
qed

lemma poolGroupStep_ok:
  assumes st: "pool_inv g nets st"
  shows "pool_inv g nets (poolGroupStep g f st x)"
proof -
  obtain ports seen ok c k grp where s: "st = (ports, seen, ok, c)" "x = (k, grp)" by (metis prod.exhaust)
  have "pool_inv g nets (foldl (poolPortStep g d gf) st xs)" if "deviceByName g (pgDevice grp) = Some d" for d gf xs
    using st by (rule foldl_keeps) (auto intro: poolPortStep_ok deviceByName_self [OF that])
  then show ?thesis using st by (auto simp: s poolGroupStep_def Let_def pool_inv_add split: option.splits)
qed

lemma uniq_set: "set (foldl (\<lambda>ns p. if f p \<in> set ns then ns else ns @ [f p]) ns ps) = set ns \<union> f ` set ps"
  by (induction ps arbitrary: ns) auto

lemma resolvePoolNetwork_one: "resolvePoolNetwork ps f c = (Some n, c') \<Longrightarrow> ps \<noteq> [] \<and> (\<forall>p \<in> set ps. apNetwork p = n)"
proof -
  assume r: "resolvePoolNetwork ps f c = (Some n, c')"
  let ?u = "foldl (\<lambda>ns p. if apNetwork p \<in> set ns then ns else ns @ [apNetwork p]) [] ps"
  have "?u = [n]" using r by (auto simp: resolvePoolNetwork_def Let_def split: list.splits)
  then show ?thesis using uniq_set [of apNetwork "[]" ps] by force
qed

abbreviation pinPair :: "AttachmentPin \<Rightarrow> string \<times> string" where
  "pinPair i \<equiv> (aiDevice i, aiInterface i)"

definition pins_ok :: "AttachmentPort list \<Rightarrow> AttachmentPin list \<Rightarrow> bool" where
  "pins_ok ports pins \<longleftrightarrow> (\<forall>i \<in> set pins. pinPair i \<in> set (map portPair ports)) \<and> distinct (map pinPair pins)"

lemma compileAttachmentPins_ok:
  assumes "compileAttachmentPins a ports f c = (pins, c')"
  shows "pins_ok ports pins"
proof -
  let ?P = "\<lambda>(pins, pinned :: (string, unit) gomap, c :: scenarioCompiler). pins_ok ports pins \<and> (\<forall>i \<in> set pins. gm_has pinned (portKey (aiDevice i) (aiInterface i)))"
  have "?P (foldl (pinStep ports f) ([], [], c) (enumerate 0 (laPins a)))"
  proof (rule foldl_keeps [where P = ?P])
    fix st and x :: "nat \<times> PinSource"
    assume P: "?P st"
    obtain pins pinned c j pin where s: "st = (pins, pinned, c)" "x = (j, pin)" by (metis prod.exhaust)
    have "pins_ok ports (pins @ [\<lparr>aiMAC = m, aiDevice = pnDevice pin, aiInterface = pnInterface pin\<rparr>])"
      if "list_ex (\<lambda>p. apDevice p = pnDevice pin \<and> apInterface p = pnInterface pin) ports" "\<not> gm_has pinned (portKey (pnDevice pin) (pnInterface pin))" for m
    proof -
      have "(pnDevice pin, pnInterface pin) \<in> set (map portPair ports)" using that(1) by (force simp: list_ex_iff)
      moreover have "(pnDevice pin, pnInterface pin) \<notin> set (map pinPair pins)" using that(2) P by (auto simp: s)
      ultimately show ?thesis using P by (simp add: s pins_ok_def)
    qed
    then show "?P (pinStep ports f st x)" using P by (simp add: s pinStep_def Let_def split: option.split)
  qed (simp add: pins_ok_def)
  then show ?thesis using assms by (auto simp: compileAttachmentPins_def split: prod.splits)
qed

definition pool_ok :: "FabricConfig \<Rightarrow> (string, Network) gomap \<Rightarrow> CompiledAttachment \<Rightarrow> bool" where
  "pool_ok g nets a \<longleftrightarrow> caPorts a \<noteq> [] \<and> (\<forall>p \<in> set (caPorts a). port_ok g nets p \<and> apNetwork p = caNetwork a) \<and>
     distinct (map portPair (caPorts a)) \<and> pins_ok (caPorts a) (caPins a)"

lemma compileAttachmentPool_ok:
  assumes "compileAttachmentPool g a f c = (Some ca, c')"
  shows "pool_ok g (fcNetworks c) ca \<and> caName ca = laName a"
proof -
  obtain ports seen ok c1 where l: "foldl (poolGroupStep g f) ([], [], True, c) (enumerate 0 (laAt a)) = (ports, seen, ok, c1)" by (metis prod.exhaust)
  have "pool_inv g (fcNetworks c) (foldl (poolGroupStep g f) ([], [], True, c) (enumerate 0 (laAt a)))"
    by (rule foldl_keeps) (auto simp: pool_inv_def [of g _ "([], r)" for r] intro: poolGroupStep_ok)
  then have "pool_inv g (fcNetworks c) (ports, seen, ok, c1)" by (simp add: l)
  moreover obtain n c2 pins where "resolvePoolNetwork ports f c1 = (Some n, c2)" "compileAttachmentPins a ports f c2 = (pins, c')"
      "ca = \<lparr>caName = laName a, caNetwork = n, caPorts = ports, caPins = pins\<rparr>"
    using assms by (auto simp: compileAttachmentPool_def l split: if_splits prod.splits option.splits)
  ultimately show ?thesis using resolvePoolNetwork_one [of ports f c1 n c2] compileAttachmentPins_ok [of a ports f c2 pins c']
    by (auto simp: pool_ok_def pool_inv_def)
qed

text \<open>A pool that does not compile is diagnosed.\<close>

definition grown :: "scenarioCompiler \<Rightarrow> scenarioCompiler \<Rightarrow> bool" where
  "grown c c' \<longleftrightarrow> (\<exists>ds. ds \<noteq> [] \<and> fcDiagnostics c' = fcDiagnostics c @ ds)"

lemma grown_add [simp]: "grown c (add code f c)"
  by (simp add: grown_def add_def)

lemma poolPort_grown: "compileAttachmentPoolPort g d n f c = (None, c') \<Longrightarrow> grown c c'"
  by (auto simp: compileAttachmentPoolPort_def split: option.splits if_splits prod.splits vlanNetworkResolution.splits)

lemma grown_or_same: "(\<exists>ds. fcDiagnostics c' = fcDiagnostics c @ ds) \<Longrightarrow> grown c c' \<or> fcDiagnostics c' = fcDiagnostics c"
  by (auto simp: grown_def)

lemma grown_trans: "grown c c1 \<Longrightarrow> \<exists>ds. fcDiagnostics c2 = fcDiagnostics c1 @ ds \<Longrightarrow> grown c c2"
  "\<exists>ds. fcDiagnostics c1 = fcDiagnostics c @ ds \<Longrightarrow> grown c1 c2 \<Longrightarrow> grown c c2"
  by (auto simp: grown_def)

lemma foldl_last: "xs \<noteq> [] \<Longrightarrow> P s \<Longrightarrow> (\<And>s x. P s \<Longrightarrow> P (f s x) \<and> Q (f s x)) \<Longrightarrow> Q (foldl f s xs)"
  using foldl_keeps [of P s _ f] by (cases xs rule: rev_cases) auto

definition pool_told :: "scenarioCompiler \<Rightarrow> poolState \<Rightarrow> bool" where
  "pool_told c0 st \<longleftrightarrow> (case st of (ports, seen, ok, c) \<Rightarrow> (\<exists>ds. fcDiagnostics c = fcDiagnostics c0 @ ds) \<and> (\<not> ok \<longrightarrow> grown c0 c))"

definition pool_filled :: "poolState \<Rightarrow> bool" where
  "pool_filled st \<longleftrightarrow> (case st of (ports, seen, ok, c) \<Rightarrow> ok \<longrightarrow> ports \<noteq> [])"

lemma pool_told_add: "pool_told c0 (ports, seen, ok, c) \<Longrightarrow> pool_told c0 (ports', seen', ok', add code f c)"
  by (auto simp: pool_told_def grown_def add_def)

lemma poolPortStep_told:
  assumes st: "pool_told c0 st"
  shows "pool_told c0 (poolPortStep g d f st x) \<and> pool_filled (poolPortStep g d f st x)"
proof -
  obtain ports seen ok c j name where s: "st = (ports, seen, ok, c)" "x = (j, name)" by (metis prod.exhaust)
  define field where "field = indexed (f @ ''.ports'') j"
  obtain r c' where r: "compileAttachmentPoolPort g d name field c = (r, c')" by fastforce
  have some: "pool_told c0 (ps, m, ok, c')" if "r = Some p" for p ps m
  proof -
    have "c' = c" using r that by (auto simp: compileAttachmentPoolPort_def split: option.splits if_splits prod.splits vlanNetworkResolution.splits)
    then show ?thesis using st by (simp add: s pool_told_def)
  qed
  have none: "pool_told c0 (ps, m, False, c')" if "r = None" for ps m
    using r that st poolPort_grown [of g d name field c c'] by (auto simp: s pool_told_def grown_def)
  have "poolPortStep g d f st x = (if gm_has seen (portKey (fdName d) name) then (ports, seen, False, add CodeDuplicateAttachmentPort field c)
      else case r of None \<Rightarrow> (ports, gm_put (portKey (fdName d) name) () seen, False, c')
        | Some p \<Rightarrow> (ports @ [p], gm_put (portKey (fdName d) name) () seen, ok, c'))"
    using r by (simp add: s poolPortStep_def Let_def flip: field_def split: option.splits)
  then show ?thesis using st some none by (simp add: s pool_filled_def pool_told_add split: option.split)
qed

lemma poolGroupStep_told:
  assumes st: "pool_told c0 st"
  shows "pool_told c0 (poolGroupStep g f st x) \<and> pool_filled (poolGroupStep g f st x)"
proof -
  obtain ports seen ok c k grp where s: "st = (ports, seen, ok, c)" "x = (k, grp)" by (metis prod.exhaust)
  have "pool_told c0 (foldl (poolPortStep g d gf) st xs) \<and> pool_filled (foldl (poolPortStep g d gf) st xs)" if "xs \<noteq> []" for d gf xs
    by (rule foldl_last [where P = "pool_told c0", OF that st]) (use poolPortStep_told in blast)
  moreover have "enumerate 0 (pgPorts grp) \<noteq> []" if "pgPorts grp \<noteq> []" using that by (metis length_0_conv length_enumerate)
  ultimately show ?thesis using st by (auto simp: s poolGroupStep_def Let_def pool_filled_def intro: pool_told_add split: option.split)
qed

lemma compileAttachmentPool_told:
  assumes "compileAttachmentPool g a f c = (None, c')" "laAt a \<noteq> []"
  shows "grown c c'"
proof -
  let ?st = "foldl (poolGroupStep g f) ([], [], True, c) (enumerate 0 (laAt a))"
  obtain ports seen ok c1 where l: "?st = (ports, seen, ok, c1)" by (metis prod.exhaust)
  have "enumerate 0 (laAt a) \<noteq> []" using assms(2) by (metis length_0_conv length_enumerate)
  then have "pool_told c ?st \<and> pool_filled ?st"
    by (rule foldl_last [where P = "pool_told c"]) (use poolGroupStep_told in \<open>auto simp: pool_told_def [of _ "([], r)" for r]\<close>)
  then have st: "pool_told c (ports, seen, ok, c1)" "ok \<longrightarrow> ports \<noteq> []" by (simp_all add: l pool_filled_def)
  show ?thesis
  proof (cases ok)
    case True
    then have "apNetwork (hd ports) \<in> set (foldl (\<lambda>ns p. if apNetwork p \<in> set ns then ns else ns @ [apNetwork p]) [] ports)"
      using st(2) by (simp add: uniq_set)
    then have "grown c1 c'" using assms(1) True
      by (auto simp: compileAttachmentPool_def l resolvePoolNetwork_def Let_def split: list.splits prod.splits)
    then show ?thesis using st(1) by (auto simp: pool_told_def grown_def)
  next
    case False
    then show ?thesis using assms(1) st(1) by (simp add: compileAttachmentPool_def l pool_told_def)
  qed
qed

text \<open>One attachment: what it adds is a good pool of its name, and it is diagnosed if it adds nothing and names no network.\<close>

lemma attachmentStep_effect:
  obtains "fcAttachments (attachmentStep g c (i, a)) = fcAttachments c" "laNetwork a \<noteq> [] \<or> grown c (attachmentStep g c (i, a))"
  | ca where "fcAttachments (attachmentStep g c (i, a)) = fcAttachments c @ [ca]" "pool_ok g (fcNetworks c) ca" "caName ca = laName a"
proof -
  define field where "field = indexed ''attachments'' i"
  obtain r c2 where p: "compileAttachmentPool g a field c = (r, c2)" by fastforce
  have eq: "attachmentStep g c (i, a) = (if (laNetwork a = []) = (laAt a = []) then add CodeAttachmentFormAmbiguous field c else if laAt a = [] then c
      else case r of None \<Rightarrow> c2 | Some ca \<Rightarrow> c2\<lparr>fcAttachments := fcAttachments c2 @ [ca]\<rparr>)"
    using p by (auto simp: attachmentStep_def validateAttachmentForm_def Let_def simp flip: field_def split: option.splits)
  have kept: "fcAttachments c2 = fcAttachments c" using added.view_pool [OF p] .
  show thesis
  proof (cases "(laNetwork a = []) = (laAt a = []) \<or> laAt a = []")
    case True
    then show ?thesis by (intro that(1)) (auto simp: eq add_def grown_def)
  next
    case False
    show ?thesis
    proof (cases r)
      case None
      then show ?thesis using False kept compileAttachmentPool_told [OF p [unfolded None]] by (intro that(1)) (auto simp: eq)
    next
      case (Some ca)
      then show ?thesis using False kept compileAttachmentPool_ok [OF p [unfolded Some]] by (intro that(2) [of ca]) (auto simp: eq)
    qed
  qed
qed

lemma attachmentSteps_grows: "\<exists>ds. fcDiagnostics (foldl (attachmentStep g) c xs) = fcDiagnostics c @ ds"
  using grows [of "\<lambda>c. foldl (attachmentStep g) c xs" c] by (simp add: foldl_under attachmentStep_under)

lemma compileAttachments_pools:
  assumes "\<forall>a \<in> set (fcAttachments c). pool_ok g (fcNetworks c) a"
  shows "\<forall>a \<in> set (fcAttachments (compileAttachments g c)). pool_ok g (fcNetworks c) a"
proof -
  let ?P = "\<lambda>c'. fcNetworks c' = fcNetworks c \<and> (\<forall>a \<in> set (fcAttachments c'). pool_ok g (fcNetworks c) a)"
  have "?P (foldl (attachmentStep g) c (enumerate 0 (fgAttachments g)))"
  proof (rule foldl_keeps [where P = ?P])
    fix c' :: scenarioCompiler and x :: "nat \<times> LogicalAttachment"
    assume P: "?P c'"
    obtain i a where x: "x = (i, a)" by fastforce
    show "?P (attachmentStep g c' x)" unfolding x
      by (rule attachmentStep_effect [of g c' i a]) (use P nets.view_attachment [of g c' "(i, a)"] in auto)
  qed (use assms in simp)
  then show ?thesis by (simp add: compileAttachments_def)
qed

lemma attachmentSteps_all:
  "fcDiagnostics (foldl (attachmentStep g) c xs) = [] \<Longrightarrow> set (fcAttachments c) \<subseteq> set (fcAttachments (foldl (attachmentStep g) c xs)) \<and>
     (\<forall>(i, a) \<in> set xs. laNetwork a = [] \<longrightarrow> (\<exists>ca \<in> set (fcAttachments (foldl (attachmentStep g) c xs)). caName ca = laName a))"
proof (induction xs arbitrary: c)
  case (Cons x xs)
  obtain i a where x: "x = (i, a)" by fastforce
  let ?c = "attachmentStep g c x"
  have none: "\<not> grown c ?c" using Cons.prems attachmentSteps_grows [of g ?c xs] by (auto simp: grown_def)
  have "set (fcAttachments c) \<subseteq> set (fcAttachments ?c) \<and> (laNetwork a = [] \<longrightarrow> (\<exists>ca \<in> set (fcAttachments ?c). caName ca = laName a))"
    by (rule attachmentStep_effect [of g c i a]) (use none in \<open>auto simp: x\<close>)
  then show ?case using Cons.IH [of ?c] Cons.prems by (auto simp: x)
qed simp

lemma compileAttachments_all:
  assumes "fcDiagnostics (compileAttachments g c) = []" "a \<in> set (fgAttachments g)" "laNetwork a = []"
  shows "\<exists>ca \<in> set (fcAttachments (compileAttachments g c)). caName ca = laName a"
proof -
  obtain i where "(i, a) \<in> set (enumerate 0 (fgAttachments g))" using assms(2) by (metis in_set_conv_nth nth_enumerate_eq length_enumerate nth_mem)
  then show ?thesis using attachmentSteps_all [of g c "enumerate 0 (fgAttachments g)"] assms(1,3) by (fastforce simp: compileAttachments_def)
qed

end
