(* ===== verification/Fabric_Props.thy ===== *)
theory Fabric_Props
  imports Fabric_Pools
begin

text \<open>
  What the fabric compiler promises of its report: the topology is sound whatever was diagnosed; a safe report leaves no address in two networks or
  two pools, and its binding stands on a network of the topology; and validation without a binding agrees with the compilation that has one.
\<close>

section \<open>The compiler at the end\<close>

definition blank :: "scenarioCompiler \<Rightarrow> bool" where
  "blank c \<longleftrightarrow> fcNetworks c = [] \<and> fcDevices c = [] \<and> fcAddresses c = [] \<and> fcLeaseAddresses c = [] \<and> fcLeaseMACs c = [] \<and> fcRelays c = [] \<and>
     fcTopNetworks c = [] \<and> fcInterfaces c = [] \<and> fcRoutes c = [] \<and> fcScopes c = [] \<and> fcAttachments c = []"

lemma blank_new: "blank newScenarioCompiler" "blank (under b ds newScenarioCompiler)"
  by (simp_all add: blank_def newScenarioCompiler_def)

definition body :: "FabricConfig \<Rightarrow> scenarioCompiler \<Rightarrow> scenarioCompiler" where
  "body g c = compileAttachments g (compileDevices g c)"

lemma body_under: "body g (under b ds c) = under b ds (body g c)"
  by (simp add: body_def under_steps)

lemma compileNetwork_rest:
  "(fcDevices (compileNetwork c x), fcAddresses (compileNetwork c x), fcLeaseAddresses (compileNetwork c x), fcLeaseMACs (compileNetwork c x),
    fcRelays (compileNetwork c x), fcInterfaces (compileNetwork c x), fcRoutes (compileNetwork c x), fcScopes (compileNetwork c x), fcAttachments (compileNetwork c x)) =
   (fcDevices c, fcAddresses c, fcLeaseAddresses c, fcLeaseMACs c, fcRelays c, fcInterfaces c, fcRoutes c, fcScopes c, fcAttachments c)"
  by (auto simp: compileNetwork_def compileSubnetV6_def checkOverlap_def Let_def add_def split: prod.splits option.splits if_splits)

lemma compileNetworks_rest:
  assumes "blank c"
  shows "nets_ok (compileNetworks g c) \<and> (fcDevices (compileNetworks g c), fcAddresses (compileNetworks g c), fcLeaseAddresses (compileNetworks g c),
    fcLeaseMACs (compileNetworks g c), fcRelays (compileNetworks g c), fcInterfaces (compileNetworks g c), fcRoutes (compileNetworks g c),
    fcScopes (compileNetworks g c), fcAttachments (compileNetworks g c)) = ([], [], [], [], [], [], [], [], [])"
proof -
  let ?F = "foldl compileNetwork c (enumerate 0 (fgNetworks g))"
  have "(fcDevices ?F, fcAddresses ?F, fcLeaseAddresses ?F, fcLeaseMACs ?F, fcRelays ?F, fcInterfaces ?F, fcRoutes ?F, fcScopes ?F, fcAttachments ?F) =
      ([], [], [], [], [], [], [], [], [])"
    by (rule foldl_keeps [where P = "\<lambda>c :: scenarioCompiler. (fcDevices c, fcAddresses c, fcLeaseAddresses c, fcLeaseMACs c, fcRelays c, fcInterfaces c, fcRoutes c,
        fcScopes c, fcAttachments c) = ([], [], [], [], [], [], [], [], [])"]) (use assms in \<open>simp_all only: compileNetwork_rest blank_def simp_thms\<close>)
  then show ?thesis using assms compileNetworks_ok [of c g]
    by (auto simp: compileNetworks_def validateAttachmentNetwork_def Let_def add_def blank_def nets_ok_def [of c])
qed

lemma scopes_ok_kept:
  assumes "scopes_ok ds c" "(fcNetworks c', fcAddresses c', fcScopes c', fcLeaseAddresses c', fcLeaseMACs c') =
    (fcNetworks c, fcAddresses c, fcScopes c, fcLeaseAddresses c, fcLeaseMACs c)"
  shows "scopes_ok ds c'"
  using assms by (auto simp: scopes_ok_def scope_ok_def intro: own_scope_more [where ms = "[]"])

lemma compiled:
  assumes "blank c" and b: "c' = body g (compileNetworks g c)"
  shows "nets_ok c' \<and> devices_ok c' \<and> scopes_ok (set (fgDevices g)) c' \<and> (\<forall>a \<in> set (fcAttachments c'). pool_ok g (fcNetworks c') a)"
proof -
  define c1 where "c1 = compileNetworks g c"
  define c2 where "c2 = compileDevices g c1"
  have c': "c' = compileAttachments g c2" by (simp add: b body_def c2_def c1_def)
  have n: "nets_ok c1" "fcDevices c1 = []" "fcAddresses c1 = []" "fcLeaseAddresses c1 = []" "fcLeaseMACs c1 = []" "fcRelays c1 = []" "fcInterfaces c1 = []"
      "fcRoutes c1 = []" "fcScopes c1 = []" "fcAttachments c1 = []"
    using compileNetworks_rest [OF assms(1), of g] by (simp_all add: c1_def)
  then have w: "gm_wf (fcNetworks c1)" "\<forall>k n. map_of (fcNetworks c1) k = Some n \<longrightarrow> nwName n = k" by (auto simp: nets_ok_def)
  have "devices_ok c1" using n w by (simp add: devices_ok_def ifaces_ok_def)
  then have d: "devices_ok c2" unfolding c2_def using n(7) by (rule compileDevices_ok)
  have s: "scopes_ok (set (fgDevices g)) c2" unfolding c2_def by (rule compileDevices_scopes [OF w n(9,4,5)])
  have "\<forall>a \<in> set (fcAttachments c2). pool_ok g (fcNetworks c2) a" using added.view_compileDevices [of g c1] n(10) by (simp add: c2_def)
  note pools = compileAttachments_pools [OF this]
  note kept = services.view_compileAttachments [of g c2, folded c']
  have "devices_ok c'" by (rule devices_ok_kept [OF d]) (use kept in simp)
  moreover have "scopes_ok (set (fgDevices g)) c'" by (rule scopes_ok_kept [OF s]) (use kept in simp)
  moreover have "nets_ok c'" unfolding c' c2_def by (rule compiled_nets [OF n(1)])
  ultimately show ?thesis using pools kept by (simp add: c')
qed

section \<open>Topologies\<close>

text \<open>What the topology of a configuration has to be, without the compiler that builds it.\<close>

definition route_in :: "Topology \<Rightarrow> Route \<Rightarrow> bool" where
  "route_in t r \<longleftrightarrow> (\<exists>i \<in> set (tgInterfaces t). fiDevice i = roDevice r \<and> fiName i = roVia r \<and>
     (if roConnected r then \<exists>n \<in> set (tgNetworks t). nwName n = fiNetwork i \<and> roDestination r = nwPrefix n else hop_ok (tgInterfaces t) r i))"

definition scope_in :: "Topology \<Rightarrow> DHCPScope \<Rightarrow> bool" where
  "scope_in t s \<longleftrightarrow> (\<exists>n \<in> set (tgNetworks t). nwName n = dsNetwork s \<and> dsStart s \<le> dsEnd s \<and> usable n (dsStart s) \<and> usable n (dsEnd s) \<and> usable n (dsRouter s)) \<and>
     (\<forall>i \<in> set (tgInterfaces t). \<forall>a \<in> set (ifaceAddrs i). \<not> inRange (dsStart s) (dsEnd s) a)"

definition topology_ok :: "FabricConfig \<Rightarrow> Topology \<Rightarrow> bool" where
  "topology_ok g t \<longleftrightarrow>
     list_all network_ok (tgNetworks t) \<and> distinct (map nwName (tgNetworks t)) \<and>
     (\<forall>i \<in> set (tgInterfaces t). \<exists>n \<in> set (tgNetworks t). hosted n i) \<and>
     distinct (map (\<lambda>i. (fiDevice i, fiName i)) (tgInterfaces t)) \<and> distinct (concat (map ifaceAddrs (tgInterfaces t))) \<and>
     (\<forall>r \<in> set (tgRoutes t). route_in t r) \<and> (\<forall>s \<in> set (tgDHCPScopes t). scope_in t s) \<and> sorted_wrt pools_clear (tgDHCPScopes t) \<and>
     (\<forall>a \<in> set (tgAttachments t). pool_ok g (map (\<lambda>n. (nwName n, n)) (tgNetworks t)) a)"

lemma topology_ok_binding [simp]: "topology_ok g (t\<lparr>tgBinding := b\<rparr>) = topology_ok g t"
proof -
  have "route_in (t\<lparr>tgBinding := b\<rparr>) = route_in t" "scope_in (t\<lparr>tgBinding := b\<rparr>) = scope_in t" by (simp_all add: route_in_def scope_in_def fun_eq_iff)
  then show ?thesis by (simp add: topology_ok_def)
qed

lemma map_of_named: "distinct (map nwName ns) \<Longrightarrow> map_of (map (\<lambda>n. (nwName n, n)) ns) k = Some n \<longleftrightarrow> n \<in> set ns \<and> nwName n = k"
  by (subst map_of_eq_Some_iff) (auto simp: comp_def)

lemma pool_ok_cong: "(\<And>k. map_of m k = map_of m' k) \<Longrightarrow> pool_ok g m a = pool_ok g m' a"
  by (simp add: pool_ok_def port_ok_def serves_def)

lemma networks_index: "nets_ok c \<Longrightarrow> map_of (fcNetworks c) k = Some m \<longleftrightarrow> m \<in> set (fcTopNetworks c) \<and> nwName m = k"
  by (simp add: nets_ok_def)

lemma networks_named:
  assumes n: "nets_ok c"
  shows "map_of (fcNetworks c) k = map_of (map (\<lambda>n. (nwName n, n)) (fcTopNetworks c)) k"
proof -
  have "map_of (fcNetworks c) k = Some m \<longleftrightarrow> map_of (map (\<lambda>n. (nwName n, n)) (fcTopNetworks c)) k = Some m" for m
    using n by (simp add: networks_index map_of_named nets_ok_def)
  then show ?thesis by (cases "map_of (fcNetworks c) k") (metis option.exhaust, metis)
qed

lemma interface_network:
  "devices_ok c \<Longrightarrow> i \<in> set (fcInterfaces c) \<Longrightarrow> \<exists>n. map_of (fcNetworks c) (fiNetwork i) = Some n \<and> hosted n i"
  by (simp add: devices_ok_def ifaces_ok_def)

lemma route_report:
  assumes n: "nets_ok c" and d: "devices_ok c" and r: "r \<in> set (fcRoutes c)"
  shows "route_in (reTopology (report c)) r"
proof -
  obtain i where i: "i \<in> set (fcInterfaces c)" "fiDevice i = roDevice r" "fiName i = roVia r"
      "if roConnected r then roDestination r = nwPrefix (networkOf c (fiNetwork i)) else hop_ok (fcInterfaces c) r i"
    using d r unfolding devices_ok_def route_ok_def by blast
  obtain m where m: "map_of (fcNetworks c) (fiNetwork i) = Some m" using interface_network [OF d i(1)] by blast
  then have "m \<in> set (fcTopNetworks c)" "nwName m = fiNetwork i" using networks_index [OF n] by auto
  then show ?thesis using i m by (auto simp: route_in_def report_def networkOf_def split: if_splits)
qed

lemma interface_owned: "devices_ok c \<Longrightarrow> i \<in> set (fcInterfaces c) \<Longrightarrow> a \<in> set (ifaceAddrs i) \<Longrightarrow> a \<in> keys (fcAddresses c)"
  by (auto simp: devices_ok_def ifaces_ok_def gm_has_def simp flip: gm_has_keys)

lemma scope_report:
  assumes n: "nets_ok c" and d: "devices_ok c" and s: "scopes_ok ds c" "x \<in> set (fcScopes c)"
  shows "scope_in (reTopology (report c)) x"
proof -
  have "scope_ok c x" "\<forall>a \<in> keys (fcAddresses c). \<not> inRange (dsStart x) (dsEnd x) a" using s by (simp_all add: scopes_ok_def)
  then show ?thesis using interface_owned [OF d] networks_index [OF n] by (auto simp: scope_ok_def scope_in_def report_def)
qed

lemma report_ok:
  assumes n: "nets_ok c" and d: "devices_ok c" and s: "scopes_ok ds c" and p: "\<forall>a \<in> set (fcAttachments c). pool_ok g (fcNetworks c) a"
  shows "topology_ok g (reTopology (report c))"
proof -
  have "\<exists>m \<in> set (fcTopNetworks c). hosted m i" if "i \<in> set (fcInterfaces c)" for i
    using interface_network [OF d that] networks_index [OF n] by blast
  moreover have "\<forall>a \<in> set (fcAttachments c). pool_ok g (map (\<lambda>n. (nwName n, n)) (fcTopNetworks c)) a"
    using p pool_ok_cong [OF networks_named [OF n]] by simp
  moreover have "list_all network_ok (fcTopNetworks c)" "distinct (map nwName (fcTopNetworks c))" using n by (simp_all add: nets_ok_def)
  moreover have "distinct (map (\<lambda>i. (fiDevice i, fiName i)) (fcInterfaces c))" "distinct (concat (map ifaceAddrs (fcInterfaces c)))"
    using d by (simp_all add: devices_ok_def ifaces_ok_def)
  moreover have "sorted_wrt pools_clear (fcScopes c)" using s by (simp add: scopes_ok_def)
  ultimately show ?thesis using route_report [OF n d] scope_report [OF n d s] unfolding topology_ok_def report_def by simp
qed

section \<open>The two entry points\<close>

text \<open>What a binding has to be, whatever it is bound to.\<close>

definition binding_ok :: "Binding \<Rightarrow> bool" where
  "binding_ok b \<longleftrightarrow> bdPolicyApproved b \<and> (bdMode b = ModeDirect \<and> bdAccessVLAN b = 0 \<or>
     bdMode b \<in> {ModeAccess, ModeTrunk} \<and> bdAccessVLAN b \<noteq> 0 \<and> bdAccessVLAN b \<le> 4094)"

abbreviation boundAttachment :: "FabricConfig \<Rightarrow> Binding \<Rightarrow> LogicalAttachment option" where
  "boundAttachment g b \<equiv> find (\<lambda>a. laName a = bdAttachment b) (fgAttachments g)"

lemma mode_names [simp]: "ModeDirect \<noteq> []" "ModeAccess \<noteq> []" "ModeTrunk \<noteq> []" "ModeAccess \<noteq> ModeDirect" "ModeTrunk \<noteq> ModeDirect"
  "[] \<noteq> ModeDirect" "[] \<noteq> ModeAccess" "[] \<noteq> ModeTrunk" "ModeDirect \<noteq> ModeAccess" "ModeDirect \<noteq> ModeTrunk"
  by (simp_all add: ModeDirect_def ModeAccess_def ModeTrunk_def)

lemma binding_codes [simp]: "IsBinding CodeAttachmentPolicyDenied" "IsBinding CodeInvalidAccessVLAN" "IsBinding CodeInvalidAttachmentMode" "IsBinding CodeUnknownAttachment"
  by (simp_all add: IsBinding_def bindingDiagnosticCodes_def)

lemma validateBindingMode_effect:
  "\<exists>ds. validateBindingMode b c = c\<lparr>fcDiagnostics := fcDiagnostics c @ ds\<rparr> \<and> list_all (\<lambda>d. IsBinding (fst d)) ds \<and> (ds = [] \<longleftrightarrow> binding_ok b)"
proof -
  let ?p = "if \<not> bdPolicyApproved b then [(CodeAttachmentPolicyDenied, ''interface'')] else []"
  consider "bdMode b = []" | "bdMode b = ModeDirect" | "bdMode b \<in> {ModeAccess, ModeTrunk}" | "bdMode b \<notin> {[], ModeDirect, ModeAccess, ModeTrunk}" by auto
  then show ?thesis
  proof cases
    case 1
    then show ?thesis by (intro exI [of _ "[(CodeInvalidAttachmentMode, ''mode'')]"]) (auto simp: validateBindingMode_def add_def binding_ok_def)
  next
    case 2
    then show ?thesis by (intro exI [of _ "?p @ (if bdAccessVLAN b \<noteq> 0 then [(CodeInvalidAccessVLAN, ''accessVlan'')] else [])"])
        (auto simp: validateBindingMode_def add_def binding_ok_def Let_def)
  next
    case 3
    then have "bdMode b \<noteq> []" "bdMode b \<noteq> ModeDirect" by auto
    then show ?thesis using 3
      by (intro exI [of _ "?p @ (if bdAccessVLAN b < 1 \<or> 4094 < bdAccessVLAN b then [(CodeInvalidAccessVLAN, ''accessVlan'')] else [])"])
        (auto simp: validateBindingMode_def add_def binding_ok_def Let_def not_less)
  next
    case 4
    then show ?thesis by (intro exI [of _ "?p @ [(CodeInvalidAttachmentMode, ''mode'')]"]) (auto simp: validateBindingMode_def add_def binding_ok_def Let_def)
  qed
qed

lemma compileBinding_effect:
  obtains bd ds where "compileBinding (Some g) b newScenarioCompiler = under bd ds newScenarioCompiler" "list_all (\<lambda>d. IsBinding (fst d)) ds"
    "ds = [] \<longleftrightarrow> binding_ok b \<and> boundAttachment g b \<noteq> None"
    "boundAttachment g b = None \<Longrightarrow> cbNetwork bd = []"
    "\<And>a. boundAttachment g b = Some a \<Longrightarrow> bd = \<lparr>cbBinding = b, cbNetwork = laNetwork a, cbWireTagged = (bdMode b = ModeTrunk)\<rparr>"
proof -
  obtain ds where v: "validateBindingMode b newScenarioCompiler = newScenarioCompiler\<lparr>fcDiagnostics := fcDiagnostics newScenarioCompiler @ ds\<rparr>"
      "list_all (\<lambda>d. IsBinding (fst d)) ds" "ds = [] \<longleftrightarrow> binding_ok b"
    using validateBindingMode_effect by blast
  show thesis
  proof (cases "boundAttachment g b")
    case None
    then show ?thesis using v
      by (intro that [of "fcBinding newScenarioCompiler" "ds @ [(CodeUnknownAttachment, ''attachment'')]"])
        (simp_all add: compileBinding_def under_def add_def newScenarioCompiler_def)
  next
    case (Some a)
    then show ?thesis using v
      by (intro that [of "\<lparr>cbBinding = b, cbNetwork = laNetwork a, cbWireTagged = (bdMode b = ModeTrunk)\<rparr>" ds])
        (simp_all add: compileBinding_def under_def newScenarioCompiler_def)
  qed
qed

text \<open>The network stage, and the stages after it with the earlier diagnostics set aside.\<close>

definition stage :: "FabricConfig \<Rightarrow> scenarioCompiler" where
  "stage g = foldl compileNetwork newScenarioCompiler (enumerate 0 (fgNetworks g))"

definition rest :: "FabricConfig \<Rightarrow> scenarioCompiler" where
  "rest g = body g ((stage g)\<lparr>fcDiagnostics := []\<rparr>)"

lemma compileNetworks_fold_under:
  "foldl compileNetwork (under b ds c) xs = under b ds (foldl compileNetwork c xs)"
  by (rule foldl_under) (simp add: under_steps)

lemma stage_binding: "fcBinding (stage g) = fcBinding newScenarioCompiler"
proof -
  have "stage g = under (fcBinding newScenarioCompiler) [] (stage g)"
    using compileNetworks_fold_under [of "fcBinding newScenarioCompiler" "[]" newScenarioCompiler]
    by (simp add: stage_def) (simp add: under_def newScenarioCompiler_def)
  then show ?thesis by (metis under_fields(7))
qed

lemma body_diagnosed: "body g (under b ds (stage g)) = under b (ds @ fcDiagnostics (stage g)) (rest g)"
proof -
  have eq: "under b ds (stage g) = under b (ds @ fcDiagnostics (stage g)) ((stage g)\<lparr>fcDiagnostics := []\<rparr>)" by (simp add: under_def)
  show ?thesis unfolding eq by (simp only: body_under rest_def)
qed

lemma compileNetworks_new: "compileNetworks g newScenarioCompiler = stage g"
  by (simp add: compileNetworks_def flip: stage_def) (simp add: validateAttachmentNetwork_def stage_binding Let_def, simp add: newScenarioCompiler_def)

lemma CompileConfig_form: "CompileConfig (Some g) = report (under (fcBinding newScenarioCompiler) (fcDiagnostics (stage g)) (rest g))"
proof -
  have "stage g = under (fcBinding newScenarioCompiler) [] (stage g)" by (simp add: under_def flip: stage_binding [of g])
  then show ?thesis
    using body_diagnosed [of g "fcBinding newScenarioCompiler" "[]"]
    by (simp add: compileNetworks_new CompileConfig_def compileScenario_def bindPoolNetwork_def zeroBinding_def flip: body_def)
qed

text \<open>A binding misses if the attachment it names connects to a network that is not compiled.\<close>

definition misses :: "FabricConfig \<Rightarrow> Binding \<Rightarrow> bool" where
  "misses g b \<longleftrightarrow> (case boundAttachment g b of None \<Rightarrow> False | Some a \<Rightarrow> laNetwork a \<noteq> [] \<and> laNetwork a \<notin> nwName ` set (tgNetworks (reTopology (CompileConfig (Some g)))))"

lemma nets_new: "nets_ok newScenarioCompiler"
  by (simp add: nets_ok_def newScenarioCompiler_def)

lemma stage_ok: "nets_ok (stage g)"
  unfolding stage_def using nets_new by (rule foldl_keeps) (rule compileNetwork_ok)

lemma rest_nets: "fcNetworks (rest g) = fcNetworks (stage g)" "fcTopNetworks (rest g) = fcTopNetworks (stage g)"
  using nets.view_compileAttachments [of g "compileDevices g ((stage g)\<lparr>fcDiagnostics := []\<rparr>)"] nets.view_compileDevices [of g "(stage g)\<lparr>fcDiagnostics := []\<rparr>"]
  by (simp_all add: rest_def body_def)

lemma compiled_names: "gm_has (fcNetworks (stage g)) k \<longleftrightarrow> k \<in> nwName ` set (tgNetworks (reTopology (CompileConfig (Some g))))"
proof -
  have "gm_has (fcNetworks (stage g)) k \<longleftrightarrow> (\<exists>n. map_of (fcNetworks (stage g)) k = Some n)" by (auto simp: gm_has_def)
  also have "\<dots> \<longleftrightarrow> k \<in> nwName ` set (fcTopNetworks (stage g))" using networks_index [OF stage_ok] by auto
  finally show ?thesis by (simp add: CompileConfig_form report_def rest_nets)
qed

lemma Compile_form:
  obtains bd ds where "Compile (Some g) b = report (bindPoolNetwork b (under bd (ds @ fcDiagnostics (stage g) @ (if misses g b then [(CodeUnknownNetwork, ''attachment'')] else [])) (rest g)))"
    "list_all (\<lambda>d. IsBinding (fst d)) ds" "ds = [] \<longleftrightarrow> binding_ok b \<and> boundAttachment g b \<noteq> None"
    "\<And>a. boundAttachment g b = Some a \<Longrightarrow> bd = \<lparr>cbBinding = b, cbNetwork = laNetwork a, cbWireTagged = (bdMode b = ModeTrunk)\<rparr>"
proof (rule compileBinding_effect [of g b])
  fix bd ds
  assume c: "compileBinding (Some g) b newScenarioCompiler = under bd ds newScenarioCompiler" and ds: "list_all (\<lambda>d. IsBinding (fst d)) ds"
    "ds = [] \<longleftrightarrow> binding_ok b \<and> boundAttachment g b \<noteq> None" and none: "boundAttachment g b = None \<Longrightarrow> cbNetwork bd = []"
    and some: "\<And>a. boundAttachment g b = Some a \<Longrightarrow> bd = \<lparr>cbBinding = b, cbNetwork = laNetwork a, cbWireTagged = (bdMode b = ModeTrunk)\<rparr>"
  have m: "misses g b \<longleftrightarrow> cbNetwork bd \<noteq> [] \<and> \<not> gm_has (fcNetworks (stage g)) (cbNetwork bd)"
    using none some by (cases "boundAttachment g b") (simp_all add: misses_def compiled_names)
  let ?x = "if misses g b then [(CodeUnknownNetwork, ''attachment'')] else []"
  have "compileNetworks g (under bd ds newScenarioCompiler) = under bd (ds @ fcDiagnostics (stage g) @ ?x) ((stage g)\<lparr>fcDiagnostics := []\<rparr>)"
    by (simp add: compileNetworks_def compileNetworks_fold_under m validateAttachmentNetwork_def Let_def flip: stage_def) (simp add: under_def add_def)
  then have "Compile (Some g) b = report (bindPoolNetwork b (under bd (ds @ fcDiagnostics (stage g) @ ?x) (rest g)))"
    by (simp add: Compile_def c compileScenario_def body_under rest_def flip: body_def)
  from that [OF this ds some] show thesis .
qed

lemma report_under [simp]:
  "reDiagnostics (report (under b ds c)) = ds @ reDiagnostics (report c)" "reTopology (report (under b ds c)) = (reTopology (report c))\<lparr>tgBinding := b\<rparr>"
  by (simp_all add: report_def)

lemma report_bindPool [simp]:
  "reDiagnostics (report (bindPoolNetwork b c)) = reDiagnostics (report c)"
  "reTopology (report (bindPoolNetwork b c)) = (reTopology (report c))\<lparr>tgBinding := fcBinding (bindPoolNetwork b c)\<rparr>"
  by (auto simp: report_def bindPoolNetwork_def split: option.split)

section \<open>Properties\<close>

lemma rest_ok: "topology_ok g (reTopology (report (rest g)))"
proof -
  have c: "nets_ok (body g (stage g)) \<and> devices_ok (body g (stage g)) \<and> scopes_ok (set (fgDevices g)) (body g (stage g)) \<and>
      (\<forall>a \<in> set (fcAttachments (body g (stage g))). pool_ok g (fcNetworks (body g (stage g))) a)"
    using compiled [OF blank_new(1), of _ g] by (simp add: compileNetworks_new)
  have "reTopology (report (rest g)) = (reTopology (report (body g (stage g))))\<lparr>tgBinding := fcBinding (rest g)\<rparr>"
    using body_diagnosed [of g "fcBinding (stage g)" "[]"] by (simp add: under_def report_def)
  then show ?thesis using report_ok [of "body g (stage g)" "set (fgDevices g)" g] c by simp
qed

lemma topology_forms:
  "reTopology (CompileConfig (Some g)) = (reTopology (report (rest g)))\<lparr>tgBinding := tgBinding (reTopology (CompileConfig (Some g)))\<rparr>"
  "reTopology (Compile (Some g) b) = (reTopology (report (rest g)))\<lparr>tgBinding := tgBinding (reTopology (Compile (Some g) b))\<rparr>"
proof -
  show "reTopology (CompileConfig (Some g)) = (reTopology (report (rest g)))\<lparr>tgBinding := tgBinding (reTopology (CompileConfig (Some g)))\<rparr>"
    by (simp add: CompileConfig_form)
  show "reTopology (Compile (Some g) b) = (reTopology (report (rest g)))\<lparr>tgBinding := tgBinding (reTopology (Compile (Some g) b))\<rparr>"
    by (rule Compile_form [of g b]) simp
qed

lemma stage_plain: "list_all (\<lambda>d. \<not> IsBinding (fst d)) (fcDiagnostics (stage g))" "list_all (\<lambda>d. \<not> IsBinding (fst d)) (fcDiagnostics (rest g))"
proof -
  have "plain newScenarioCompiler" by (simp add: plain_def newScenarioCompiler_def)
  then have "plain (stage g)" unfolding stage_def by (rule foldl_keeps [where P = plain]) (rule compileNetwork_plain)
  then show "list_all (\<lambda>d. \<not> IsBinding (fst d)) (fcDiagnostics (stage g))" by (simp add: plain_def)
  have "plain (rest g)" unfolding rest_def body_def by (intro compileAttachments_plain compileDevices_plain) (simp add: plain_def)
  then show "list_all (\<lambda>d. \<not> IsBinding (fst d)) (fcDiagnostics (rest g))" by (simp add: plain_def)
qed

text \<open>C2 (fabric_sound): whatever is diagnosed, and with or without a binding, the topology of a report is sound: its networks are canonical and named
  apart; every interface has a usable address of its network, and no two interfaces share an address or a name on one device; every route leaves
  its device by an interface of the device, to that interface's network or to an address another device has on the link; every DHCP scope lies in
  its network, clear of every interface and of the other scopes of that network; every attachment pool is made of free ports of one network.\<close>

theorem fabric_sound: "topology_ok g (reTopology (Compile (Some g) b)) \<and> topology_ok g (reTopology (CompileConfig (Some g)))"
  using rest_ok topology_forms topology_ok_binding by metis

text \<open>C23 (preflight_agrees): compiling a configuration alone gives the topology that compiling it with a binding gives, but for the binding itself, and
  the same diagnostics about the configuration, in the same order, with one exception: that the attachment of the binding connects to a network
  that does not exist is reported only with the binding.\<close>

theorem preflight_agrees:
  "reTopology (Compile (Some g) b) = (reTopology (CompileConfig (Some g)))\<lparr>tgBinding := tgBinding (reTopology (Compile (Some g) b))\<rparr> \<and>
   (\<exists>before after. reDiagnostics (CompileConfig (Some g)) = before @ after \<and>
     filter (\<lambda>d. \<not> IsBinding (fst d)) (reDiagnostics (Compile (Some g) b)) =
       before @ (if misses g b then [(CodeUnknownNetwork, ''attachment'')] else []) @ after)"
proof (rule Compile_form [of g b])
  fix bd and ds :: "Diagnostic list"
  assume ds: "list_all (\<lambda>d. IsBinding (fst d)) ds"
  assume c: "Compile (Some g) b = report (bindPoolNetwork b (under bd (ds @ fcDiagnostics (stage g) @ (if misses g b then [(CodeUnknownNetwork, ''attachment'')] else [])) (rest g)))"
  have "filter (\<lambda>d. \<not> IsBinding (fst d)) (reDiagnostics (Compile (Some g) b)) =
      fcDiagnostics (stage g) @ (if misses g b then [(CodeUnknownNetwork, ''attachment'')] else []) @ fcDiagnostics (rest g)"
    using ds stage_plain [of g] by (simp add: c filter_id_conv list_all_iff) (simp add: report_def filter_id_conv)
  moreover have "reDiagnostics (CompileConfig (Some g)) = fcDiagnostics (stage g) @ fcDiagnostics (rest g)" by (simp add: CompileConfig_form) (simp add: report_def)
  moreover have "reTopology (Compile (Some g) b) = (reTopology (CompileConfig (Some g)))\<lparr>tgBinding := tgBinding (reTopology (Compile (Some g) b))\<rparr>"
    by (subst topology_forms(2), subst topology_forms(1)) simp
  ultimately show ?thesis by blast
qed

text \<open>The addresses of a range lie in every prefix that its ends lie in.\<close>

lemma agree_between:
  fixes p a b x :: "'a::len word"
  assumes "drop_bit k (p XOR a) = 0" "drop_bit k (p XOR b) = 0" "unat a \<le> unat x" "unat x \<le> unat b"
  shows "drop_bit k (p XOR x) = 0"
proof -
  have zero: "u XOR v = 0 \<longleftrightarrow> u = v" for u v :: "'a word" by (metis xor.commute xor.left_commute xor_self_eq xor.right_neutral)
  have iff: "drop_bit k (p XOR y) = 0 \<longleftrightarrow> unat p div 2 ^ k = unat y div 2 ^ k" for y
  proof -
    have "drop_bit k (p XOR y) = 0 \<longleftrightarrow> drop_bit k p = drop_bit k y" by (simp only: drop_bit_xor zero)
    also have "\<dots> \<longleftrightarrow> unat (drop_bit k p) = unat (drop_bit k y)" by (simp only: word_unat_eq_iff)
    finally show ?thesis by (simp only: unat_drop_bit_eq flip: drop_bit_eq_div)
  qed
  have "unat a div 2 ^ k \<le> unat x div 2 ^ k" "unat x div 2 ^ k \<le> unat b div 2 ^ k" using assms(3,4) by (simp_all add: div_le_mono)
  then show ?thesis using assms(1,2) unfolding iff by linarith
qed

lemma contains_range:
  assumes p: "Is4 (prefixAddr p)" "prefixContains p s" "prefixContains p e" and r: "inRange s e a"
  shows "prefixContains p a"
proof -
  obtain w where w: "prefixAddr p = V4 w" using p(1) by (cases "prefixAddr p") auto
  obtain x y where xy: "s = V4 x" "e = V4 y" using p(2,3) w by (cases s; cases e) (auto simp: prefixContains_def)
  obtain z where z: "a = V4 z" using r xy by (cases a) (auto simp: inRange_def less_eq_Addr_def)
  have "uint x \<le> uint z" "uint z \<le> uint y" using r by (auto simp: xy z inRange_def less_eq_Addr_def)
  then have "unat x \<le> unat z" "unat z \<le> unat y" by (simp_all flip: word_le_nat_alt word_le_def)
  then show ?thesis using p agree_between [of _ w x y z] by (auto simp: prefixContains_def w xy z)
qed

lemma sorted_wrt_pair:
  assumes "sorted_wrt P xs" "\<And>x y. P x y \<Longrightarrow> P y x" "x \<in> set xs" "y \<in> set xs" "x \<noteq> y"
  shows "P x y"
proof -
  obtain i j where "i < length xs" "j < length xs" "x = xs ! i" "y = xs ! j" using assms(3,4) by (auto simp: in_set_conv_nth)
  then show ?thesis using sorted_wrt_nth_less [OF assms(1)] assms(2,5) by (metis linorder_neqE_nat)
qed

definition covers :: "Network \<Rightarrow> Addr \<Rightarrow> bool" where
  "covers n a \<longleftrightarrow> prefixContains (nwPrefix n) a \<or> prefixContains (nwPrefixV6 n) a"

lemma covers_clear:
  assumes n: "network_ok m" "network_ok n" and c: "clear_of m n" and a: "covers m a" "covers n a"
  shows False
proof -
  have v6: "prefix_ok (nwPrefixV6 k) \<and> Is6 (prefixAddr (nwPrefixV6 k))" if "network_ok k" "prefixContains (nwPrefixV6 k) a" for k
    using that by (auto simp: network_ok_def prefixContains_def noPrefix_def prefixIsValid_def)
  have mixed: "\<not> prefixContains (nwPrefix k) a" if "network_ok k" "prefixContains p a" "Is6 (prefixAddr p)" for k p
    using that by (cases a; cases "prefixAddr (nwPrefix k)"; cases "prefixAddr p") (auto simp: network_ok_def prefixContains_def)
  consider "prefixContains (nwPrefix m) a" "prefixContains (nwPrefix n) a" | "prefixContains (nwPrefixV6 m) a" "prefixContains (nwPrefixV6 n) a"
    using a mixed [OF n(1)] mixed [OF n(2)] v6 [OF n(1)] v6 [OF n(2)] by (auto simp: covers_def)
  then show False
  proof cases
    case 1
    then show False using contains_overlaps [of "nwPrefix m" "nwPrefix n" a] n c by (simp add: network_ok_def clear_of_def)
  next
    case 2
    then show False using contains_overlaps [of "nwPrefixV6 m" "nwPrefixV6 n" a] v6 n c by (simp add: clear_of_def)
  qed
qed

lemma safe_clean:
  assumes "reSafe (Compile (Some g) b)"
  shows "fcDiagnostics (stage g) = [] \<and> fcDiagnostics (rest g) = [] \<and> \<not> misses g b \<and> binding_ok b \<and> boundAttachment g b \<noteq> None"
proof (rule Compile_form [of g b])
  fix bd and ds :: "Diagnostic list"
  assume ds: "ds = [] \<longleftrightarrow> binding_ok b \<and> boundAttachment g b \<noteq> None"
  assume c: "Compile (Some g) b = report (bindPoolNetwork b (under bd (ds @ fcDiagnostics (stage g) @ (if misses g b then [(CodeUnknownNetwork, ''attachment'')] else [])) (rest g)))"
  have "reDiagnostics (Compile (Some g) b) = []" using assms by (simp add: Compile_def compileScenario_def report_def Let_def)
  then have "ds @ fcDiagnostics (stage g) @ (if misses g b then [(CodeUnknownNetwork, ''attachment'')] else []) @ fcDiagnostics (rest g) = []"
    unfolding c by simp (simp add: report_def)
  then show ?thesis using ds by (simp split: if_splits)
qed

lemma networks_apart:
  assumes "fcDiagnostics (stage g) = []" "m \<in> set (fcTopNetworks (stage g))" "n \<in> set (fcTopNetworks (stage g))" "covers m a" "covers n a"
  shows "m = n"
proof (rule ccontr)
  assume "m \<noteq> n"
  moreover have "sorted_wrt clear_of (fcTopNetworks (stage g))" "network_ok m" "network_ok n"
    using stage_ok [of g] assms(1-3) by (auto simp: nets_ok_def list_all_iff)
  moreover have "clear_of y x" if "clear_of x y" for x y using that by (simp add: clear_of_def overlaps_sym)
  ultimately show False using sorted_wrt_pair [of clear_of "fcTopNetworks (stage g)" m n] covers_clear assms(2-5) by blast
qed

lemma scope_home:
  assumes "s \<in> set (fcScopes (rest g))" "inRange (dsStart s) (dsEnd s) a"
  shows "\<exists>n \<in> set (fcTopNetworks (stage g)). nwName n = dsNetwork s \<and> covers n a"
proof -
  have "scope_in (reTopology (report (rest g))) s" using rest_ok [of g] assms(1) by (simp add: topology_ok_def report_def)
  then obtain n where n: "n \<in> set (fcTopNetworks (stage g))" "nwName n = dsNetwork s" "usable n (dsStart s)" "usable n (dsEnd s)"
    by (auto simp: scope_in_def report_def rest_nets)
  then have "Is4 (prefixAddr (nwPrefix n))" using stage_ok [of g] by (simp add: nets_ok_def list_all_iff network_ok_def)
  then have "covers n a" using contains_range [OF _ _ _ assms(2)] n(3,4) by (simp add: covers_def usable_def)
  then show ?thesis using n(1,2) by blast
qed

definition pools_apart :: "DHCPScope \<Rightarrow> DHCPScope \<Rightarrow> bool" where
  "pools_apart s u \<longleftrightarrow> (\<forall>a. \<not> (inRange (dsStart s) (dsEnd s) a \<and> inRange (dsStart u) (dsEnd u) a))"

lemma scopes_apart:
  assumes "fcDiagnostics (stage g) = []" "s \<in> set (fcScopes (rest g))" "u \<in> set (fcScopes (rest g))" "pools_clear s u"
  shows "pools_apart s u"
  unfolding pools_apart_def
proof (intro allI notI, elim conjE)
  fix a
  assume a: "inRange (dsStart s) (dsEnd s) a" "inRange (dsStart u) (dsEnd u) a"
  obtain m n where "m \<in> set (fcTopNetworks (stage g))" "nwName m = dsNetwork s" "covers m a" "n \<in> set (fcTopNetworks (stage g))" "nwName n = dsNetwork u" "covers n a"
    using scope_home [OF assms(2) a(1)] scope_home [OF assms(3) a(2)] by blast
  then have "dsNetwork s = dsNetwork u" using networks_apart [OF assms(1), of m n a] by simp
  then have "dsEnd s < dsStart u \<or> dsEnd u < dsStart s" using assms(4) by (simp add: pools_clear_def)
  then show False using a unfolding inRange_def by (meson leD order_trans)
qed

text \<open>C24 (fabric_safe_apart): in the topology of a safe report an address belongs to at most one network, and no address can be leased from two DHCP pools, whether
  the pools serve the same network or different ones.\<close>

theorem fabric_safe_apart:
  assumes "reSafe (Compile (Some g) b)"
  shows "(\<forall>m \<in> set (tgNetworks (reTopology (Compile (Some g) b))). \<forall>n \<in> set (tgNetworks (reTopology (Compile (Some g) b))). \<forall>a.
      covers m a \<longrightarrow> covers n a \<longrightarrow> m = n) \<and>
    sorted_wrt pools_apart (tgDHCPScopes (reTopology (Compile (Some g) b)))"
proof -
  have t: "tgNetworks (reTopology (Compile (Some g) b)) = fcTopNetworks (stage g)" "tgDHCPScopes (reTopology (Compile (Some g) b)) = fcScopes (rest g)"
    by (subst topology_forms(2), simp add: report_def rest_nets)+
  have clean: "fcDiagnostics (stage g) = []" using safe_clean [OF assms] by simp
  have "sorted_wrt pools_clear (fcScopes (rest g))" using rest_ok [of g] by (simp add: topology_ok_def report_def)
  then have "sorted_wrt pools_apart (fcScopes (rest g))" using scopes_apart [OF clean] by (rule sorted_wrt_mono_rel [rotated])
  then show ?thesis using networks_apart [OF clean] unfolding t by blast
qed

lemma rest_pools: "a \<in> set (fcAttachments (rest g)) \<Longrightarrow> caNetwork a \<in> nwName ` set (fcTopNetworks (stage g))"
proof -
  assume "a \<in> set (fcAttachments (rest g))"
  then have p: "pool_ok g (map (\<lambda>n. (nwName n, n)) (fcTopNetworks (stage g))) a"
    using rest_ok [of g] by (simp add: topology_ok_def report_def rest_nets)
  then obtain port where "apNetwork port = caNetwork a" "port_ok g (map (\<lambda>n. (nwName n, n)) (fcTopNetworks (stage g))) port"
    unfolding pool_ok_def by (metis last_in_set)
  then obtain v S where "serves g (map (\<lambda>n. (nwName n, n)) (fcTopNetworks (stage g))) v S (caNetwork a)" unfolding port_ok_def by metis
  then obtain n where "map_of (map (\<lambda>n. (nwName n, n)) (fcTopNetworks (stage g))) (caNetwork a) = Some n" unfolding serves_def by blast
  from map_of_SomeD [OF this] show ?thesis by (auto intro: rev_image_eqI)
qed

text \<open>C25 (binding_grounded): a report is safe only if the binding was approved by policy, has a known mode with the VLAN the mode asks for, and names one
  of the configuration's attachments; the compiled binding is then the requested one, tagged on the wire exactly in trunk mode, and, unless the attachment's name is empty, the
  network it stands on is a network of the topology, whether the attachment names its network or takes it from a pool of ports.\<close>

theorem binding_grounded:
  assumes "reSafe (Compile (Some g) b)"
  shows "binding_ok b \<and> bdAttachment b \<in> laName ` set (fgAttachments g) \<and> cbBinding (tgBinding (reTopology (Compile (Some g) b))) = b \<and>
    (cbWireTagged (tgBinding (reTopology (Compile (Some g) b))) \<longleftrightarrow> bdMode b = ModeTrunk) \<and>
    (bdAttachment b \<noteq> [] \<longrightarrow>
       cbNetwork (tgBinding (reTopology (Compile (Some g) b))) \<in> nwName ` set (tgNetworks (reTopology (Compile (Some g) b))))"
proof (rule Compile_form [of g b])
  fix bd and ds :: "Diagnostic list"
  assume c: "Compile (Some g) b = report (bindPoolNetwork b (under bd (ds @ fcDiagnostics (stage g) @ (if misses g b then [(CodeUnknownNetwork, ''attachment'')] else [])) (rest g)))"
    and bd: "\<And>a. boundAttachment g b = Some a \<Longrightarrow> bd = \<lparr>cbBinding = b, cbNetwork = laNetwork a, cbWireTagged = (bdMode b = ModeTrunk)\<rparr>"
  note clean = safe_clean [OF assms]
  obtain a where a: "boundAttachment g b = Some a" using clean by auto
  then have mem: "a \<in> set (fgAttachments g)" "laName a = bdAttachment b" by (auto simp: find_Some_iff)
  have names: "nwName ` set (tgNetworks (reTopology (CompileConfig (Some g)))) = nwName ` set (fcTopNetworks (stage g))"
    by (simp add: CompileConfig_form) (simp add: report_def rest_nets)
  let ?c = "under bd (ds @ fcDiagnostics (stage g) @ (if misses g b then [(CodeUnknownNetwork, ''attachment'')] else [])) (rest g)"
  have t: "tgBinding (reTopology (Compile (Some g) b)) = fcBinding (bindPoolNetwork b ?c)"
      "tgNetworks (reTopology (Compile (Some g) b)) = fcTopNetworks (stage g)"
    unfolding c by simp_all (simp add: report_def rest_nets)
  have "cbBinding (fcBinding (bindPoolNetwork b ?c)) = b \<and> cbWireTagged (fcBinding (bindPoolNetwork b ?c)) = (bdMode b = ModeTrunk) \<and>
      (bdAttachment b \<noteq> [] \<longrightarrow> cbNetwork (fcBinding (bindPoolNetwork b ?c)) \<in> nwName ` set (fcTopNetworks (stage g)))"
  proof (cases "laNetwork a = []")
    case True
    then obtain ca where "ca \<in> set (fcAttachments (rest g))" "caName ca = laName a"
      using compileAttachments_all [of g "compileDevices g ((stage g)\<lparr>fcDiagnostics := []\<rparr>)", OF _ mem(1)] clean by (auto simp: rest_def body_def)
    then obtain ca' where f: "find (\<lambda>x. caName x = bdAttachment b) (fcAttachments (rest g)) = Some ca'"
      using mem(2) by (cases "find (\<lambda>x. caName x = bdAttachment b) (fcAttachments (rest g))") (auto simp: find_None_iff)
    then have "ca' \<in> set (fcAttachments (rest g))" by (auto simp: find_Some_iff)
    then show ?thesis using True f rest_pools [of ca' g] by (simp add: bindPoolNetwork_def bd [OF a])
  next
    case False
    then have "laNetwork a \<in> nwName ` set (fcTopNetworks (stage g))" using clean a by (simp add: misses_def flip: names)
    then show ?thesis using False by (simp add: bindPoolNetwork_def bd [OF a])
  qed
  moreover have "bdAttachment b \<in> laName ` set (fgAttachments g)" using mem by (metis imageI)
  ultimately show ?thesis using clean by (simp add: t)
qed

section \<open>A scenario\<close>

text \<open>Two networks behind a router, one with a DHCP server on the router and one with a server of its own, and a switch with a free access port.\<close>

definition exampleConfig :: FabricConfig where
  "exampleConfig = \<lparr>
     fgDevices = [
       \<lparr>fdName = ''r1'', fdType = ''router'',
        fdInterfaces = [
          \<lparr>siName = ''e0'', siNetwork = ''lan'', siAddress = ''10.0.1.1/24'', siAddressV6 = [], siDHCPRelay = [], siVLANs = []\<rparr>,
          \<lparr>siName = ''e1'', siNetwork = ''wan'', siAddress = ''10.0.2.1/24'', siAddressV6 = [], siDHCPRelay = [], siVLANs = []\<rparr>],
        fdRoutes = [],
        fdDHCPConfig = Some \<lparr>dcRouter = [10,0,1,1], dcDomainNameServer = [], dcServerIdentifier = [], dcNextServerIP = [],
          dcPoolStart = [10,0,1,100], dcPoolEnd = [10,0,1,200], dcClientLeases = [], dcScopes = []\<rparr>,
        fdTrunkPorts = [], fdPortChannels = []\<rparr>,
       \<lparr>fdName = ''s2'', fdType = ''server'',
        fdInterfaces = [\<lparr>siName = ''e0'', siNetwork = ''wan'', siAddress = ''10.0.2.2/24'', siAddressV6 = [], siDHCPRelay = [], siVLANs = []\<rparr>],
        fdRoutes = [],
        fdDHCPConfig = Some \<lparr>dcRouter = [10,0,2,1], dcDomainNameServer = [], dcServerIdentifier = [], dcNextServerIP = [],
          dcPoolStart = [10,0,2,100], dcPoolEnd = [10,0,2,200], dcClientLeases = [], dcScopes = []\<rparr>,
        fdTrunkPorts = [], fdPortChannels = []\<rparr>,
       \<lparr>fdName = ''sw'', fdType = ''switch'',
        fdInterfaces = [\<lparr>siName = ''p1'', siNetwork = [], siAddress = [], siAddressV6 = [], siDHCPRelay = [], siVLANs = [10]\<rparr>],
        fdRoutes = [], fdDHCPConfig = None,
        fdTrunkPorts = [\<lparr>tpInterface = ''up'', tpVLANs = [10], tpNativeVLAN = 0, tpRemoteDevice = ''r1'', tpRemoteInterface = ''e0'', tpFDBOnly = False\<rparr>],
        fdPortChannels = []\<rparr>],
     fgNetworks = [
       \<lparr>nsName = ''lan'', nsSubnet = ''10.0.1.0/24'', nsSubnetV6 = [], nsVirtualVLAN = 10\<rparr>,
       \<lparr>nsName = ''wan'', nsSubnet = ''10.0.2.0/24'', nsSubnetV6 = [], nsVirtualVLAN = 20\<rparr>],
     fgAttachments = [
       \<lparr>laName = ''pool'', laNetwork = [], laAt = [\<lparr>pgDevice = ''sw'', pgPorts = [''p1'']\<rparr>], laPins = []\<rparr>]\<rparr>"

definition exampleBinding :: "string \<Rightarrow> Binding" where
  "exampleBinding name = \<lparr>bdAttachment = name, bdInterface = ''eth0'', bdMode = ''access'', bdAccessVLAN = 10, bdPolicyApproved = True\<rparr>"

lemma example_safe: "reSafe (Compile (Some exampleConfig) (exampleBinding ''pool''))"
  by code_simp

theorem fabric_safe_apart_witness:
  "reSafe (Compile (Some exampleConfig) (exampleBinding ''pool'')) \<and>
   sorted_wrt pools_apart (tgDHCPScopes (reTopology (Compile (Some exampleConfig) (exampleBinding ''pool''))))"
  using fabric_safe_apart [OF example_safe] example_safe by simp

theorem binding_grounded_witness:
  "reSafe (Compile (Some exampleConfig) (exampleBinding ''pool'')) \<and>
   cbNetwork (tgBinding (reTopology (Compile (Some exampleConfig) (exampleBinding ''pool'')))) \<in>
     nwName ` set (tgNetworks (reTopology (Compile (Some exampleConfig) (exampleBinding ''pool''))))"
  using binding_grounded [OF example_safe] example_safe by (simp add: exampleBinding_def)

text \<open>
  A configuration is safe by itself although its attachment connects to a network that does not exist; only a binding to that attachment reveals it,
  with a diagnostic that is not one of the binding's.
\<close>

definition strayConfig :: FabricConfig where
  "strayConfig = \<lparr>fgDevices = [], fgNetworks = [\<lparr>nsName = ''lan'', nsSubnet = ''10.0.1.0/24'', nsSubnetV6 = [], nsVirtualVLAN = 10\<rparr>],
     fgAttachments = [\<lparr>laName = ''stray'', laNetwork = ''dmz'', laAt = [], laPins = []\<rparr>]\<rparr>"

theorem validate_misses_network:
  "reSafe (CompileConfig (Some strayConfig)) \<and>
   reDiagnostics (Compile (Some strayConfig) (exampleBinding ''stray'')) = [(CodeUnknownNetwork, ''attachment'')] \<and> \<not> IsBinding CodeUnknownNetwork"
  by code_simp

end
