(* ===== verification/Dhcp_Server.thy ===== *)
theory Dhcp_Server
  imports Go_Bytes Go_Addr
begin

text \<open>
  The DHCPv4 server of a device (\<open>internal/protocols/dhcp.go\<close> with \<open>dhcp_pool.go\<close>, \<open>dhcp_selection.go\<close>, \<open>dhcp_relay.go\<close>, \<open>dhcp_fault.go\<close>,
  \<open>dhcp_domain_search.go\<close> and the address fault of \<open>stack_address_fault.go\<close>).  The handler's lock makes each operation one step; a \<open>net.IP\<close> is an \<open>Addr\<close>,
  nil being \<open>NoAddr\<close> and an IPv4 address \<open>V4\<close> whichever of its two encodings it has, which is all that \<open>Equal\<close>, \<open>To4\<close> and \<open>String\<close> look at.
  A device pointer is a number.  The readings of the clock inside one call are taken as one, \<open>now\<close>.  What the handler reads of its surroundings (the faults armed on the
  server, whether a reply could be sent) is the record \<open>DhcpEnv\<close>.  Decoding the request and encoding the reply's layers is gopacket's.
\<close>

unbundle bit_operations_syntax

section \<open>State\<close>

type_synonym hardwareAddr = "nat list"

record DHCPLease =
  dlIP :: Addr
  dlMAC :: hardwareAddr
  dlHostname :: string
  dlExpiry :: int
  dlLeaseTime :: int

record StaticLease =
  slClientIP :: Addr
  slMACAddress :: hardwareAddr
  slMACMask :: hardwareAddr

record DHCPHandler =
  dhLeases :: "(string, DHCPLease) gomap"
  dhDeclined :: "(string, unit) gomap"
  dhIpPool :: "Addr list"
  dhPoolStart :: Addr
  dhPoolEnd :: Addr
  dhServerDevice :: "nat option"
  dhServerIP :: Addr
  dhNextServerIP :: Addr
  dhSubnetMask :: Addr
  dhGateway :: Addr
  dhDnsServers :: "Addr list"
  dhDomainName :: string
  dhNtpServers :: "Addr list"
  dhDomainSearch :: "string list"
  dhTftpServerName :: string
  dhBootfileName :: string
  dhVendorSpecificInfo :: bytes
  dhStaticLeases :: "StaticLease list"
  dhRelayIP :: Addr
  dhRelayDevice :: "nat option"

definition DefaultLeaseTime :: int where "DefaultLeaseTime = 24 * 3600 * 1000000000"

definition MaxDHCPv4PoolSize :: int where "MaxDHCPv4PoolSize = 65536"

definition getDefaultSubnetMask :: Addr where "getDefaultSubnetMask = V4 0xFFFFFF00"

definition NewDHCPHandler :: DHCPHandler where
  "NewDHCPHandler = \<lparr>dhLeases = [], dhDeclined = [], dhIpPool = [], dhPoolStart = NoAddr, dhPoolEnd = NoAddr, dhServerDevice = None,
     dhServerIP = NoAddr, dhNextServerIP = NoAddr, dhSubnetMask = getDefaultSubnetMask, dhGateway = NoAddr, dhDnsServers = [], dhDomainName = [],
     dhNtpServers = [], dhDomainSearch = [], dhTftpServerName = [], dhBootfileName = [], dhVendorSpecificInfo = [], dhStaticLeases = [],
     dhRelayIP = NoAddr, dhRelayDevice = None\<rparr>"

text \<open>\<open>Reset\<close> assigns every field but the stack.\<close>

definition Reset :: "DHCPHandler \<Rightarrow> DHCPHandler" where
  "Reset h = NewDHCPHandler"

section \<open>The pool\<close>

datatype dhcpError = ErrDHCPPoolInvalid | ErrDHCPPoolSizeExceeded | ErrNoAvailableIPAddresses | ErrFaultConflictAbsent

text \<open>The loop over the addresses of the range, which ends only at its last address.\<close>

partial_function (option) poolLoop :: "32 word \<Rightarrow> 32 word \<Rightarrow> Addr list option" where
  "poolLoop i endInt =
     (if i = endInt then Some [V4 i] else Option.bind (poolLoop (i + 1) endInt) (\<lambda>rest. Some (V4 i # rest)))"

definition generateIPPool :: "Addr \<Rightarrow> Addr \<Rightarrow> (dhcpError + Addr list) option" where
  "generateIPPool start stop =
     (case (start, stop) of
        (V4 startInt, V4 endInt) \<Rightarrow>
          if endInt < startInt then Some (Inl ErrDHCPPoolInvalid)
          else let size = uint endInt - uint startInt + 1 in
            if MaxDHCPv4PoolSize < size then Some (Inl ErrDHCPPoolSizeExceeded)
            else map_option Inr (poolLoop startInt endInt)
      | _ \<Rightarrow> Some (Inl ErrDHCPPoolInvalid))"

text \<open>\<open>None\<close> stands for a call that does not return.\<close>

definition SetPool :: "Addr \<Rightarrow> Addr \<Rightarrow> DHCPHandler \<Rightarrow> DHCPHandler option" where
  "SetPool start stop h =
     (case generateIPPool start stop of
        None \<Rightarrow> None
      | Some r \<Rightarrow> Some (h\<lparr>dhPoolStart := start, dhPoolEnd := stop, dhIpPool := (case r of Inl e \<Rightarrow> [] | Inr pool \<Rightarrow> pool)\<rparr>))"

definition setServerConfig :: "nat option \<Rightarrow> Addr \<Rightarrow> Addr \<Rightarrow> Addr list \<Rightarrow> string \<Rightarrow> DHCPHandler \<Rightarrow> DHCPHandler" where
  "setServerConfig device serverIP gateway dnsServers domain h =
     h\<lparr>dhServerDevice := device, dhServerIP := serverIP, dhGateway := gateway, dhDnsServers := dnsServers, dhDomainName := domain\<rparr>"

definition SetServerConfig :: "Addr \<Rightarrow> Addr \<Rightarrow> Addr list \<Rightarrow> string \<Rightarrow> DHCPHandler \<Rightarrow> DHCPHandler" where
  "SetServerConfig = setServerConfig None"

definition updateDerivedServerIP :: "nat option \<Rightarrow> Addr \<Rightarrow> DHCPHandler \<Rightarrow> DHCPHandler" where
  "updateDerivedServerIP device serverIP h = (if dhServerDevice h = device then h\<lparr>dhServerIP := serverIP\<rparr> else h)"

definition SetAdvancedOptions :: "Addr list \<Rightarrow> string list \<Rightarrow> string \<Rightarrow> string \<Rightarrow> bytes \<Rightarrow> DHCPHandler \<Rightarrow> DHCPHandler" where
  "SetAdvancedOptions ntp search tftp boot vendor h =
     h\<lparr>dhNtpServers := ntp, dhDomainSearch := search, dhTftpServerName := tftp, dhBootfileName := boot, dhVendorSpecificInfo := vendor\<rparr>"

definition SetStaticLeases :: "StaticLease list \<Rightarrow> DHCPHandler \<Rightarrow> DHCPHandler" where
  "SetStaticLeases leases h = h\<lparr>dhStaticLeases := leases\<rparr>"

record RelayScope =
  rsStart :: Addr
  rsEnd :: Addr
  rsRouter :: Addr
  rsRelayAddress :: Addr
  rsMask :: Addr
  rsDevice :: "nat option"

definition serveRelayedScope :: "RelayScope \<Rightarrow> DHCPHandler \<Rightarrow> DHCPHandler option" where
  "serveRelayedScope relay h =
     map_option (\<lambda>h. h\<lparr>dhSubnetMask := rsMask relay, dhGateway := rsRouter relay, dhStaticLeases := [], dhRelayIP := rsRelayAddress relay,
       dhRelayDevice := rsDevice relay\<rparr>) (SetPool (rsStart relay) (rsEnd relay) h)"

section \<open>Leases\<close>

record DhcpEnv =
  enFaultAddress :: Addr
  enConflictActive :: bool
  enNoOffer :: bool

definition macMatchesMask :: "hardwareAddr \<Rightarrow> hardwareAddr \<Rightarrow> hardwareAddr \<Rightarrow> bool" where
  "macMatchesMask mac match bits =
     (if mac = [] \<or> match = [] then False
      else if bits = [] then macString mac = macString match
      else if length bits \<noteq> length mac \<or> length match \<noteq> length mac then False
      else list_all (\<lambda>i. (mac ! i AND bits ! i) = (match ! i AND bits ! i)) [0..<length mac])"

definition matchStaticLease :: "DHCPHandler \<Rightarrow> hardwareAddr \<Rightarrow> Addr" where
  "matchStaticLease h mac =
     (case find (\<lambda>l. slMACAddress l \<noteq> [] \<and> macMatchesMask mac (slMACAddress l) (slMACMask l)) (dhStaticLeases h) of
        None \<Rightarrow> NoAddr
      | Some l \<Rightarrow> slClientIP l)"

definition isIPInPool :: "DHCPHandler \<Rightarrow> Addr \<Rightarrow> bool" where
  "isIPInPool h ip \<longleftrightarrow> list_ex (\<lambda>p. p = ip) (dhIpPool h)"

definition isIPLeased :: "int \<Rightarrow> DHCPHandler \<Rightarrow> Addr \<Rightarrow> bool" where
  "isIPLeased now h ip \<longleftrightarrow> list_ex (\<lambda>(_, lease). dlIP lease = ip \<and> now < dlExpiry lease) (dhLeases h)"

definition isDeclined :: "DHCPHandler \<Rightarrow> Addr \<Rightarrow> bool" where
  "isDeclined h ip \<longleftrightarrow> gm_has (dhDeclined h) (addrString ip)"

definition findAvailableIP :: "int \<Rightarrow> DHCPHandler \<Rightarrow> Addr" where
  "findAvailableIP now h =
     (case find (\<lambda>ip. \<not> isDeclined h ip \<and> \<not> list_ex (\<lambda>(_, lease). dlIP lease = ip \<and> now < dlExpiry lease) (dhLeases h)) (dhIpPool h) of
        None \<Rightarrow> NoAddr
      | Some ip \<Rightarrow> ip)"

definition conflictsWithOffer :: "DhcpEnv \<Rightarrow> Addr \<Rightarrow> bool" where
  "conflictsWithOffer env ip \<longleftrightarrow> ip \<noteq> NoAddr \<and> addrIsValid (enFaultAddress env) \<and> ip = enFaultAddress env"

definition canGrantRequestedIPLocked :: "int \<Rightarrow> DHCPHandler \<Rightarrow> hardwareAddr \<Rightarrow> Addr \<Rightarrow> bool" where
  "canGrantRequestedIPLocked now h mac ip =
     (let staticIP = matchStaticLease h mac in
      if staticIP \<noteq> NoAddr then staticIP = ip
      else if isDeclined h ip then False
      else case map_of (dhLeases h) (macString mac) of
        Some existing \<Rightarrow> if dlIP existing = ip then True else isIPInPool h ip \<and> \<not> isIPLeased now h ip
      | None \<Rightarrow> isIPInPool h ip \<and> \<not> isIPLeased now h ip)"

definition canGrantRequestedIP :: "DhcpEnv \<Rightarrow> int \<Rightarrow> DHCPHandler \<Rightarrow> hardwareAddr \<Rightarrow> Addr \<Rightarrow> bool" where
  "canGrantRequestedIP env now h mac ip \<longleftrightarrow> \<not> conflictsWithOffer env ip \<and> canGrantRequestedIPLocked now h mac ip"

definition newLease :: "int \<Rightarrow> Addr \<Rightarrow> hardwareAddr \<Rightarrow> string \<Rightarrow> DHCPLease" where
  "newLease now ip mac hostname =
     \<lparr>dlIP = ip, dlMAC = mac, dlHostname = hostname, dlExpiry = now + DefaultLeaseTime, dlLeaseTime = DefaultLeaseTime\<rparr>"

definition renew :: "int \<Rightarrow> Addr \<Rightarrow> string \<Rightarrow> DHCPLease \<Rightarrow> DHCPLease" where
  "renew now ip hostname existing =
     existing\<lparr>dlExpiry := now + DefaultLeaseTime, dlIP := ip, dlHostname := (if hostname \<noteq> [] then hostname else dlHostname existing)\<rparr>"

definition putLease :: "hardwareAddr \<Rightarrow> DHCPLease \<Rightarrow> DHCPHandler \<Rightarrow> (dhcpError + DHCPLease) \<times> DHCPHandler" where
  "putLease mac lease h = (Inr lease, h\<lparr>dhLeases := gm_put (macString mac) lease (dhLeases h)\<rparr>)"

definition allocateLease ::
  "DhcpEnv \<Rightarrow> int \<Rightarrow> hardwareAddr \<Rightarrow> Addr \<Rightarrow> string \<Rightarrow> DHCPHandler \<Rightarrow> (dhcpError + DHCPLease) \<times> DHCPHandler" where
  "allocateLease env now mac requestedIP hostname h =
     (if conflictsWithOffer env requestedIP then (Inl ErrNoAvailableIPAddresses, h)
      else if requestedIP \<noteq> NoAddr \<and> \<not> canGrantRequestedIPLocked now h mac requestedIP then (Inl ErrNoAvailableIPAddresses, h)
      else
        let staticIP = matchStaticLease h mac; existing = map_of (dhLeases h) (macString mac) in
        if staticIP \<noteq> NoAddr then
          (case existing of
             Some e \<Rightarrow> putLease mac (renew now staticIP hostname e) h
           | None \<Rightarrow> putLease mac (newLease now staticIP mac hostname) h)
        else case existing of
          Some e \<Rightarrow> putLease mac (renew now (if requestedIP \<noteq> NoAddr then requestedIP else dlIP e) hostname e) h
        | None \<Rightarrow>
            let ip = (if requestedIP \<noteq> NoAddr \<and> isIPInPool h requestedIP \<and> \<not> isIPLeased now h requestedIP then requestedIP
                      else findAvailableIP now h) in
            if ip = NoAddr then (Inl ErrNoAvailableIPAddresses, h)
            else putLease mac (newLease now ip mac hostname) h)"

definition offerAddress :: "DhcpEnv \<Rightarrow> int \<Rightarrow> hardwareAddr \<Rightarrow> string \<Rightarrow> DHCPHandler \<Rightarrow> (dhcpError + Addr) \<times> DHCPHandler" where
  "offerAddress env now mac hostname h =
     (if addrIsValid (enFaultAddress env) then
        (if \<not> enConflictActive env then (Inl ErrFaultConflictAbsent, h) else (Inr (enFaultAddress env), h))
      else case allocateLease env now mac NoAddr hostname h of
        (Inl e, h') \<Rightarrow> (Inl e, h')
      | (Inr lease, h') \<Rightarrow> (Inr (dlIP lease), h'))"

section \<open>Options of a reply\<close>

record DHCPOption =
  opType :: nat
  opLength :: "8 word"
  opData :: bytes

definition To4 :: "Addr \<Rightarrow> bytes" where
  "To4 ip = (case ip of V4 a \<Rightarrow> beBytes 4 a | _ \<Rightarrow> [])"

definition textBytes :: "string \<Rightarrow> bytes" where
  "textBytes s = map (\<lambda>c. of_nat (of_char c)) s"

text \<open>An option whose data is cut at 255 bytes, and one that claims an address.\<close>

definition cutOption :: "nat \<Rightarrow> bytes \<Rightarrow> DHCPOption" where
  "cutOption type d = (let n = min (length d) 255 in \<lparr>opType = type, opLength = Uint8 (word_of_nat n), opData = take n d\<rparr>)"

definition fourOption :: "nat \<Rightarrow> bytes \<Rightarrow> DHCPOption" where
  "fourOption type d = \<lparr>opType = type, opLength = 4, opData = d\<rparr>"

definition encodeUint32 :: "32 word \<Rightarrow> bytes" where
  "encodeUint32 v = beBytes 4 v"

definition MaxDHCPOptionLen :: nat where "MaxDHCPOptionLen = 255"

definition MaxDomainSearchCount :: nat where "MaxDomainSearchCount = 10"

definition MaxDomainLen :: nat where "MaxDomainLen = 253"

definition maxDomainLabelLen :: nat where "maxDomainLabelLen = 63"

text \<open>\<open>splitDomain\<close>: the loop over the domain with the label being read.\<close>

primrec splitLoop :: "string \<Rightarrow> string \<Rightarrow> string list" where
  "splitLoop cur [] = (if cur = [] then [] else [cur])"
| "splitLoop cur (c # s) =
     (if c = CHR ''.'' then (if cur = [] then [] else [cur]) @ splitLoop [] s else splitLoop (cur @ [c]) s)"

definition splitDomain :: "string \<Rightarrow> string list" where
  "splitDomain domain =
     (if domain = [] then []
      else splitLoop [] (if last domain = CHR ''.'' then butlast domain else domain))"

definition encodeLabel :: "string \<Rightarrow> bytes" where
  "encodeLabel label =
     (if length label = 0 \<or> maxDomainLabelLen < length label then [] else Byte (word_of_nat (length label)) # textBytes label)"

primrec encodeDomains :: "bytes \<Rightarrow> string list \<Rightarrow> bytes option" where
  "encodeDomains result [] = Some result"
| "encodeDomains result (domain # rest) =
     (if MaxDomainLen < length domain then None
      else let labels = concat (map encodeLabel (splitDomain domain)) @ [0] in
        if MaxDHCPOptionLen < length result + length labels then None else encodeDomains (result @ labels) rest)"

definition encodeDomainSearchList :: "string list \<Rightarrow> bytes option" where
  "encodeDomainSearchList domains = (if MaxDomainSearchCount < length domains then None else encodeDomains [] domains)"

definition appendNetworkOptions :: "DHCPHandler \<Rightarrow> DHCPOption list \<Rightarrow> DHCPOption list" where
  "appendNetworkOptions h options =
     options @ (if dhGateway h \<noteq> NoAddr then [fourOption 3 (To4 (dhGateway h))] else []) @
     (if dhDnsServers h \<noteq> [] then [cutOption 6 (concat (map To4 (dhDnsServers h)))] else []) @
     (if dhDomainName h \<noteq> [] then [cutOption 15 (textBytes (dhDomainName h))] else [])"

definition appendTimingOptions :: "DHCPHandler \<Rightarrow> DHCPOption list \<Rightarrow> DHCPOption list" where
  "appendTimingOptions h options =
     options @ [fourOption 58 (encodeUint32 43200), fourOption 59 (encodeUint32 75600)] @
     (if dhNtpServers h \<noteq> [] then [cutOption 42 (concat (map To4 (dhNtpServers h)))] else [])"

definition appendBootOptions :: "DHCPHandler \<Rightarrow> DHCPOption list \<Rightarrow> DHCPOption list" where
  "appendBootOptions h options =
     options @ (if dhTftpServerName h \<noteq> [] then [cutOption 66 (textBytes (dhTftpServerName h))] else []) @
     (if dhBootfileName h \<noteq> [] then [cutOption 67 (textBytes (dhBootfileName h))] else []) @
     (if dhDomainSearch h \<noteq> [] then
        (case encodeDomainSearchList (dhDomainSearch h) of
           None \<Rightarrow> []
         | Some searchData \<Rightarrow> if searchData \<noteq> [] then [cutOption 119 searchData] else [])
      else [])"

definition appendMiscOptions :: "DHCPHandler \<Rightarrow> hardwareAddr \<Rightarrow> DHCPOption list \<Rightarrow> DHCPOption list" where
  "appendMiscOptions h clientMAC options =
     options @ (if dhVendorSpecificInfo h \<noteq> [] then [cutOption 43 (dhVendorSpecificInfo h)] else []) @
     (case map_of (dhLeases h) (macString clientMAC) of
        Some lease \<Rightarrow> if dlHostname lease \<noteq> [] then [cutOption 12 (textBytes (dlHostname lease))] else []
      | None \<Rightarrow> [])"

definition dhcpNakReason :: string where "dhcpNakReason = ''requested address not available''"

definition endOption :: DHCPOption where "endOption = \<lparr>opType = 255, opLength = 0, opData = []\<rparr>"

definition buildDHCPOptions :: "DHCPHandler \<Rightarrow> nat \<Rightarrow> Addr \<Rightarrow> hardwareAddr \<Rightarrow> bool \<Rightarrow> DHCPOption list" where
  "buildDHCPOptions h msgType serverIP clientMAC withLease =
     (let typeOption = \<lparr>opType = 53, opLength = 1, opData = [of_nat msgType]\<rparr>; serverOption = fourOption 54 (To4 serverIP) in
      if msgType = 6 then [typeOption, serverOption, cutOption 56 (textBytes dhcpNakReason), endOption]
      else
        let options0 = [typeOption, serverOption, fourOption 1 (To4 (dhSubnetMask h))];
            options1 = (if withLease then options0 @ [fourOption 51 (encodeUint32 86400)] else options0);
            options2 = appendNetworkOptions h options1;
            options3 = (if withLease then appendTimingOptions h options2 else options2);
            options4 = appendMiscOptions h clientMAC (appendBootOptions h options3)
        in options4 @ [endOption])"

section \<open>Messages\<close>

record dhcpInfo =
  diXid :: "32 word"
  diClientHWAddr :: hardwareAddr
  diClientIP :: Addr
  diOptions :: "DHCPOption list"
  diVlan :: int

record dhcpReply =
  rpXid :: "32 word"
  rpMsgType :: nat
  rpYourIP :: Addr
  rpNextServer :: Addr
  rpRelayAgent :: Addr
  rpSourceIP :: Addr
  rpClientMAC :: hardwareAddr
  rpOptions :: "DHCPOption list"
  rpVlan :: int

text \<open>What handling a message does besides changing the handler: replies sent, counters incremented, and client addresses learned by the bridges.\<close>

datatype dhcpOut = Sent dhcpReply | Stat string | Learned hardwareAddr

text \<open>The message type and host name: the last option of each kind that has data.\<close>

definition messageType :: "dhcpInfo \<Rightarrow> nat" where
  "messageType info = foldl (\<lambda>t opt. if opType opt = 53 \<and> opData opt \<noteq> [] then unat (opData opt ! 0) else t) 0 (diOptions info)"

definition hostnameOf :: "dhcpInfo \<Rightarrow> string" where
  "hostnameOf info =
     foldl (\<lambda>n opt. if opType opt = 12 \<and> opData opt \<noteq> [] then map (\<lambda>b. char_of (unat b)) (opData opt) else n) [] (diOptions info)"

definition bytesAddr :: "bytes \<Rightarrow> Addr" where
  "bytesAddr d = V4 (beRead d)"

definition getRequestedIP :: "dhcpInfo \<Rightarrow> Addr" where
  "getRequestedIP info =
     (case find (\<lambda>opt. opType opt = 50 \<and> length (opData opt) = 4) (diOptions info) of
        None \<Rightarrow> NoAddr
      | Some opt \<Rightarrow> bytesAddr (opData opt))"

text \<open>The loop of \<open>acceptsDHCPRequest\<close> over server identifiers: \<open>None\<close> for one of the wrong length.\<close>

primrec serverIDs :: "DHCPOption list \<Rightarrow> Addr list option" where
  "serverIDs [] = Some []"
| "serverIDs (opt # rest) =
     (if opType opt = 54 then
        (if length (opData opt) \<noteq> 4 then None else map_option (Cons (bytesAddr (opData opt))) (serverIDs rest))
      else serverIDs rest)"

definition acceptsDHCPRequest :: "DHCPHandler \<Rightarrow> dhcpInfo \<Rightarrow> bool" where
  "acceptsDHCPRequest h info =
     (case serverIDs (diOptions info) of
        None \<Rightarrow> False
      | Some ids \<Rightarrow>
          if ids \<noteq> [] then
            length ids = 1 \<and> \<not> IsUnspecified (last ids) \<and> \<not> IsMulticast (last ids) \<and> last ids \<noteq> V4 0xFFFFFFFF \<and> last ids = dhServerIP h
          else if messageType info = 4 \<or> messageType info = 7 then False
          else if messageType info \<noteq> 3 then True
          else
            let address = (if getRequestedIP info = NoAddr then diClientIP info else getRequestedIP info) in
            if address = NoAddr \<or> IsUnspecified address then False
            else isIPInPool h address \<or> matchStaticLease h (diClientHWAddr info) = address)"

definition replySource :: "DHCPHandler \<Rightarrow> Addr \<Rightarrow> Addr \<times> Addr" where
  "replySource h serverIP = (if dhRelayIP h = NoAddr then (V4 0, serverIP) else (dhRelayIP h, dhRelayIP h))"

definition sendDHCPResponse :: "DHCPHandler \<Rightarrow> dhcpInfo \<Rightarrow> Addr \<Rightarrow> nat \<Rightarrow> bool \<Rightarrow> dhcpReply" where
  "sendDHCPResponse h info assignedIP msgType withLease =
     \<lparr>rpXid = diXid info, rpMsgType = msgType, rpYourIP = (if msgType = 6 then V4 0 else assignedIP),
      rpNextServer = (if msgType = 6 then V4 0 else dhNextServerIP h), rpRelayAgent = fst (replySource h (dhServerIP h)),
      rpSourceIP = snd (replySource h (dhServerIP h)), rpClientMAC = diClientHWAddr info,
      rpOptions = buildDHCPOptions h msgType (dhServerIP h) (diClientHWAddr info) withLease, rpVlan = diVlan info\<rparr>"

text \<open>Send a reply and, when that succeeded, do what follows it.\<close>

definition answer :: "(dhcpReply \<Rightarrow> bool) \<Rightarrow> dhcpReply \<Rightarrow> dhcpOut list \<Rightarrow> dhcpOut list" where
  "answer sends reply after = (if sends reply then Sent reply # after else [])"

definition sendDHCPNakForRequest :: "(dhcpReply \<Rightarrow> bool) \<Rightarrow> dhcpInfo \<Rightarrow> DHCPHandler \<Rightarrow> dhcpOut list" where
  "sendDHCPNakForRequest sends info h = answer sends (sendDHCPResponse h info (V4 0) 6 False) [Stat ''dhcp_naks'']"

definition handleDHCPDiscover ::
  "(dhcpReply \<Rightarrow> bool) \<Rightarrow> DhcpEnv \<Rightarrow> int \<Rightarrow> dhcpInfo \<Rightarrow> DHCPHandler \<Rightarrow> dhcpOut list \<times> DHCPHandler" where
  "handleDHCPDiscover sends env now info h =
     (if enNoOffer env then ([], h)
      else case offerAddress env now (diClientHWAddr info) (hostnameOf info) h of
        (Inl e, h') \<Rightarrow> ([], h')
      | (Inr address, h') \<Rightarrow> (answer sends (sendDHCPResponse h' info address 2 True) [Stat ''dhcp_offers''], h'))"

definition handleDHCPRequest ::
  "(dhcpReply \<Rightarrow> bool) \<Rightarrow> DhcpEnv \<Rightarrow> int \<Rightarrow> dhcpInfo \<Rightarrow> DHCPHandler \<Rightarrow> dhcpOut list \<times> DHCPHandler" where
  "handleDHCPRequest sends env now info h =
     (let requestedIP = (if getRequestedIP info = NoAddr \<and> \<not> IsUnspecified (diClientIP info) then diClientIP info else getRequestedIP info) in
      if requestedIP \<noteq> NoAddr \<and> \<not> canGrantRequestedIP env now h (diClientHWAddr info) requestedIP
      then (sendDHCPNakForRequest sends info h, h)
      else case allocateLease env now (diClientHWAddr info) requestedIP (hostnameOf info) h of
        (Inl e, h') \<Rightarrow> (sendDHCPNakForRequest sends info h', h')
      | (Inr lease, h') \<Rightarrow>
          (answer sends (sendDHCPResponse h' info (dlIP lease) 5 True) [Stat ''dhcp_acks'', Learned (diClientHWAddr info)], h'))"

definition handleDHCPInform :: "(dhcpReply \<Rightarrow> bool) \<Rightarrow> dhcpInfo \<Rightarrow> DHCPHandler \<Rightarrow> dhcpOut list" where
  "handleDHCPInform sends info h = answer sends (sendDHCPResponse h info (V4 0) 5 False) [Stat ''dhcp_acks'']"

definition handleDHCPDecline :: "dhcpInfo \<Rightarrow> DHCPHandler \<Rightarrow> DHCPHandler" where
  "handleDHCPDecline info h =
     (let declinedIP = getRequestedIP info; mac = macString (diClientHWAddr info) in
      if declinedIP = NoAddr then h
      else
        let h1 = (if isIPInPool h declinedIP then h\<lparr>dhDeclined := gm_put (addrString declinedIP) () (dhDeclined h)\<rparr> else h) in
        case map_of (dhLeases h1) mac of
          Some lease \<Rightarrow> if dlIP lease = declinedIP then h1\<lparr>dhLeases := gm_del mac (dhLeases h1)\<rparr> else h1
        | None \<Rightarrow> h1)"

definition releaseLease :: "dhcpInfo \<Rightarrow> DHCPHandler \<Rightarrow> DHCPHandler" where
  "releaseLease info h =
     (let mac = macString (diClientHWAddr info) in
      case map_of (dhLeases h) mac of
        Some lease \<Rightarrow> if dlIP lease = diClientIP info then h\<lparr>dhLeases := gm_del mac (dhLeases h)\<rparr> else h
      | None \<Rightarrow> h)"

definition dispatchDHCPMessage ::
  "(dhcpReply \<Rightarrow> bool) \<Rightarrow> DhcpEnv \<Rightarrow> int \<Rightarrow> dhcpInfo \<Rightarrow> DHCPHandler \<Rightarrow> dhcpOut list \<times> DHCPHandler" where
  "dispatchDHCPMessage sends env now info h =
     (if messageType info = 1 then handleDHCPDiscover sends env now info h
      else if messageType info = 3 then handleDHCPRequest sends env now info h
      else if messageType info = 7 then ([], releaseLease info h)
      else if messageType info = 8 then (handleDHCPInform sends info h, h)
      else if messageType info = 4 then ([], handleDHCPDecline info h)
      else ([], h))"

definition HandleDHCP ::
  "(dhcpReply \<Rightarrow> bool) \<Rightarrow> DhcpEnv \<Rightarrow> int \<Rightarrow> dhcpInfo \<Rightarrow> DHCPHandler \<Rightarrow> dhcpOut list \<times> DHCPHandler" where
  "HandleDHCP sends env now info h =
     (if dhServerDevice h = None then ([], h)
      else if \<not> acceptsDHCPRequest h info then ([], h)
      else dispatchDHCPMessage sends env now info h)"

end
