(* ===== verification/Dhcp_Leases.thy ===== *)
theory Dhcp_Leases
  imports Dhcp_Server "HOL-Library.Sublist"
begin

text \<open>
  What the DHCP server promises.  The pool is exactly the configured range and building it ends; while no lease has run out, no two clients
  hold the same address (interpretation \<open>server\<close> of \<open>guarded_machine\<close>); a request is acknowledged for exactly the address it names or
  refused; the options of a reply have the lengths they claim, and the domain search list decodes to the labels it was made from.  Two
  behaviours the code's comments rule out are shown on concrete runs.
\<close>

section \<open>Vocabulary of the properties\<close>

text \<open>The address a request asks for: its option, or the client's own address when there is no option.\<close>

definition askedFor :: "dhcpInfo \<Rightarrow> Addr" where
  "askedFor info = (if getRequestedIP info = NoAddr \<and> \<not> IsUnspecified (diClientIP info) then diClientIP info else getRequestedIP info)"

text \<open>An option that is as long as it says.\<close>

definition sized :: "DHCPOption \<Rightarrow> bool" where
  "sized opt \<longleftrightarrow> unat (opLength opt) = length (opData opt)"

definition isV4 :: "Addr \<Rightarrow> bool" where
  "isV4 a \<longleftrightarrow> (case a of V4 _ \<Rightarrow> True | _ \<Rightarrow> False)"

text \<open>A reader of uncompressed domain names, each a list of labels closed by a zero byte.\<close>

fun decodeNames :: "string list \<Rightarrow> bytes \<Rightarrow> string list list option" where
  "decodeNames cur [] = (if cur = [] then Some [] else None)"
| "decodeNames cur (n # bs) =
     (if n = 0 then map_option (Cons cur) (decodeNames [] bs)
      else if length bs < unat n then None
      else decodeNames (cur @ [map (\<lambda>b. char_of (unat b)) (take (unat n) bs)]) (drop (unat n) bs))"

section \<open>The pool\<close>

lemma poolLoop_range:
  assumes "i \<le> e"
  shows "poolLoop i e = Some (map (\<lambda>k. V4 (word_of_int k)) [uint i..uint e])"
  using assms
proof (induction "nat (uint e - uint i)" arbitrary: i)
  case 0
  then have "uint e = uint i" by (simp add: word_le_def)
  then have "e = i" by (simp add: word_uint_eq_iff)
  then show ?case by (simp add: poolLoop.simps)
next
  case (Suc n)
  then have ne: "i \<noteq> e" by auto
  with Suc.prems have less: "uint i < uint e" by (simp add: word_le_def order_less_le word_uint_eq_iff)
  then have up: "uint (i + 1) = uint i + 1" using uint_bounded [of e] by (simp add: uint_plus_if')
  have "poolLoop (i + 1) e = Some (map (\<lambda>k. V4 (word_of_int k)) [uint (i + 1)..uint e])"
    using Suc.hyps(2) up less by (intro Suc.hyps(1)) (auto simp: word_le_def)
  then show ?case using ne less by (subst poolLoop.simps) (simp add: up upto_rec1)
qed

lemma generateIPPool_eq:
  "generateIPPool start stop =
     Some (case (start, stop) of
        (V4 a, V4 b) \<Rightarrow> if b < a then Inl ErrDHCPPoolInvalid
          else if 65536 < uint b - uint a + 1 then Inl ErrDHCPPoolSizeExceeded
          else Inr (map (\<lambda>k. V4 (word_of_int k)) [uint a..uint b])
      | _ \<Rightarrow> Inl ErrDHCPPoolInvalid)"
  by (cases start; cases stop) (auto simp: generateIPPool_def MaxDHCPv4PoolSize_def poolLoop_range Let_def)

lemma pool_addresses:
  fixes a b :: "32 word"
  shows "distinct (map (\<lambda>k. V4 (word_of_int k)) [uint a..uint b] :: Addr list)"
    and "V4 x \<in> set (map (\<lambda>k. V4 (word_of_int k)) [uint a..uint b]) \<longleftrightarrow> a \<le> x \<and> x \<le> b"
proof -
  have r: "uint (word_of_int k :: 32 word) = k" if "k \<in> {uint a..uint b}" for k
  proof -
    have "0 \<le> k" "k < 2 ^ 32" using that uint_bounded [of b] uint_nonnegative [of a] by (auto intro: order_trans)
    then show ?thesis by (simp add: uint_word_of_int_eq take_bit_int_eq_self_iff)
  qed
  then show "distinct (map (\<lambda>k. V4 (word_of_int k)) [uint a..uint b] :: Addr list)"
    by (auto simp: distinct_map inj_on_def) (metis atLeastAtMost_iff r)
  show "V4 x \<in> set (map (\<lambda>k. V4 (word_of_int k)) [uint a..uint b]) \<longleftrightarrow> a \<le> x \<and> x \<le> b"
    using r by (auto simp: word_le_def image_iff intro!: bexI [of _ "uint x"])
qed

section \<open>Exclusive leases\<close>

text \<open>The static address of the client whose hardware address prints as \<open>key\<close>, when static leases name whole addresses.\<close>

definition staticFor :: "DHCPHandler \<Rightarrow> string \<Rightarrow> Addr" where
  "staticFor h key =
     (case find (\<lambda>l. slMACAddress l \<noteq> [] \<and> macString (slMACAddress l) = key) (dhStaticLeases h) of None \<Rightarrow> NoAddr | Some l \<Rightarrow> slClientIP l)"

definition statics_ok :: "DHCPHandler \<Rightarrow> bool" where
  "statics_ok h \<longleftrightarrow> (\<forall>l \<in> set (dhStaticLeases h). slMACMask l = [] \<and> slClientIP l \<noteq> NoAddr \<and> slClientIP l \<notin> set (dhIpPool h)) \<and>
     distinct (map slClientIP (dhStaticLeases h)) \<and> NoAddr \<notin> set (dhIpPool h)"

definition leases_ok :: "int \<Rightarrow> DHCPHandler \<Rightarrow> bool" where
  "leases_ok now h \<longleftrightarrow> gm_wf (dhLeases h) \<and>
     (\<forall>k l. map_of (dhLeases h) k = Some l \<longrightarrow> dlIP l = staticFor h k \<and> staticFor h k \<noteq> NoAddr \<or> dlIP l \<in> set (dhIpPool h)) \<and>
     (\<forall>k l k' l'. map_of (dhLeases h) k = Some l \<longrightarrow> map_of (dhLeases h) k' = Some l' \<longrightarrow> k \<noteq> k' \<longrightarrow> dlIP l = dlIP l' \<longrightarrow>
        dlExpiry l \<le> now \<or> dlExpiry l' \<le> now)"

definition dhcp_inv :: "int \<times> DHCPHandler \<Rightarrow> bool" where
  "dhcp_inv s \<longleftrightarrow> statics_ok (snd s) \<and> leases_ok (fst s) (snd s)"

text \<open>The client's own lease, when the table still has one, has not run out.\<close>

definition current :: "int \<Rightarrow> hardwareAddr \<Rightarrow> DHCPHandler \<Rightarrow> bool" where
  "current now mac h \<longleftrightarrow> (case map_of (dhLeases h) (macString mac) of None \<Rightarrow> True | Some l \<Rightarrow> now < dlExpiry l)"

text \<open>A message as it reaches the server: what sending does, the faults armed, the time, and the message.\<close>

type_synonym dhcpEvent = "(dhcpReply \<Rightarrow> bool) \<times> DhcpEnv \<times> int \<times> dhcpInfo"

definition serve :: "dhcpEvent \<Rightarrow> int \<times> DHCPHandler \<Rightarrow> int \<times> DHCPHandler" where
  "serve ev s = (case ev of (sends, env, now, info) \<Rightarrow> (now, snd (HandleDHCP sends env now info (snd s))))"

definition inTime :: "dhcpEvent \<Rightarrow> int \<times> DHCPHandler \<Rightarrow> bool" where
  "inTime ev s = (case ev of (_, _, now, info) \<Rightarrow> fst s \<le> now \<and> current now (diClientHWAddr info) (snd s))"

lemma dhcp_inv_later: "dhcp_inv (t, h) \<Longrightarrow> t \<le> now \<Longrightarrow> dhcp_inv (now, h)"
  by (fastforce simp: dhcp_inv_def leases_ok_def)

lemma macString_Nil [simp]: "macString [] = []"
  by (simp add: macString_def)

lemma macString_Nil_iff [simp]: "macString bs = [] \<longleftrightarrow> bs = []"
proof (cases bs)
  case (Cons b cs)
  then have "length (macString bs) \<noteq> 0" using length_macString [of bs] by simp
  then show ?thesis using Cons by force
qed (simp add: macString_def)

lemma matchStaticLease_eq:
  assumes "statics_ok h"
  shows "matchStaticLease h mac = staticFor h (macString mac)"
proof -
  have "find (\<lambda>l. slMACAddress l \<noteq> [] \<and> macMatchesMask mac (slMACAddress l) (slMACMask l)) ls =
      find (\<lambda>l. slMACAddress l \<noteq> [] \<and> macString (slMACAddress l) = macString mac) ls"
    if "\<forall>l \<in> set ls. slMACMask l = []" for ls :: "StaticLease list"
    using that by (induction ls) (auto simp: macMatchesMask_def)
  then show ?thesis using assms by (simp add: matchStaticLease_def staticFor_def statics_ok_def)
qed

lemma staticFor_found:
  assumes "staticFor h k \<noteq> NoAddr"
  obtains l where "l \<in> set (dhStaticLeases h)" "macString (slMACAddress l) = k" "slClientIP l = staticFor h k"
  using assms by (cases "find (\<lambda>l. slMACAddress l \<noteq> [] \<and> macString (slMACAddress l) = k) (dhStaticLeases h)")
    (auto simp: staticFor_def find_Some_iff intro: nth_mem)

lemma staticFor_apart:
  assumes "statics_ok h" "staticFor h k \<noteq> NoAddr"
  shows "staticFor h k \<notin> set (dhIpPool h)" "staticFor h k = staticFor h k' \<Longrightarrow> k = k'"
proof -
  obtain l where l: "l \<in> set (dhStaticLeases h)" "macString (slMACAddress l) = k" "slClientIP l = staticFor h k"
    using staticFor_found [OF assms(2)] by blast
  then show "staticFor h k \<notin> set (dhIpPool h)" using assms(1) by (auto simp: statics_ok_def)
  assume same: "staticFor h k = staticFor h k'"
  obtain l' where l': "l' \<in> set (dhStaticLeases h)" "macString (slMACAddress l') = k'" "slClientIP l' = staticFor h k'"
    using staticFor_found assms(2) same by metis
  have "inj_on slClientIP (set (dhStaticLeases h))" using assms(1) by (simp add: statics_ok_def distinct_map)
  then have "l = l'" using l l' same by (simp add: inj_on_def)
  then show "k = k'" using l l' by simp
qed

lemma isIPLeased_iff:
  assumes "gm_wf (dhLeases h)"
  shows "isIPLeased now h ip \<longleftrightarrow> (\<exists>k l. map_of (dhLeases h) k = Some l \<and> dlIP l = ip \<and> now < dlExpiry l)"
proof -
  have "(\<exists>k l. map_of (dhLeases h) k = Some l \<and> dlIP l = ip \<and> now < dlExpiry l) \<longleftrightarrow>
      (\<exists>k l. (k, l) \<in> set (dhLeases h) \<and> dlIP l = ip \<and> now < dlExpiry l)"
    by (simp add: map_of_eq_Some_iff [OF gm_wf_distinct [OF assms]])
  then show ?thesis by (fastforce simp: isIPLeased_def list_ex_iff)
qed

text \<open>Recording a lease whose address is the client's static one, or an address of the pool that no other client's running lease holds.\<close>

definition onlyFor :: "int \<Rightarrow> DHCPHandler \<Rightarrow> string \<Rightarrow> Addr \<Rightarrow> bool" where
  "onlyFor now h key ip \<longleftrightarrow> (\<forall>k l. map_of (dhLeases h) k = Some l \<longrightarrow> k \<noteq> key \<longrightarrow> dlIP l = ip \<longrightarrow> dlExpiry l \<le> now)"

lemma putLease_ok:
  assumes inv: "dhcp_inv (now, h)" and put: "putLease mac lease h = (r, h')"
    and own: "dlIP lease = staticFor h (macString mac) \<and> staticFor h (macString mac) \<noteq> NoAddr \<or>
      dlIP lease \<in> set (dhIpPool h) \<and> onlyFor now h (macString mac) (dlIP lease)"
  shows "dhcp_inv (now, h')"
proof -
  let ?k = "macString mac"
  have h': "h' = h\<lparr>dhLeases := gm_put ?k lease (dhLeases h)\<rparr>" using put by (simp add: putLease_def)
  have st: "statics_ok h" and wf: "gm_wf (dhLeases h)" using inv by (simp_all add: dhcp_inv_def leases_ok_def)
  have sf: "staticFor h' k = staticFor h k" for k by (simp add: h' staticFor_def)
  have look: "map_of (dhLeases h') k = (if k = ?k then Some lease else map_of (dhLeases h) k)" for k
    using wf by (simp add: h' gm_simps)
  have pool: "dhIpPool h' = dhIpPool h" by (simp add: h')
  have apart: "dlExpiry l \<le> now" if l: "map_of (dhLeases h) k = Some l" "k \<noteq> ?k" "dlIP l = dlIP lease" for k l
  proof -
    have "dlIP l = staticFor h k \<and> staticFor h k \<noteq> NoAddr \<or> dlIP l \<in> set (dhIpPool h)" using inv l(1) by (simp add: dhcp_inv_def leases_ok_def)
    then have "\<not> (dlIP lease = staticFor h ?k \<and> staticFor h ?k \<noteq> NoAddr)" using l staticFor_apart [OF st] by metis
    then show ?thesis using own l by (auto simp: onlyFor_def)
  qed
  have "leases_ok now h'"
    unfolding leases_ok_def
  proof (intro conjI allI impI)
    show "gm_wf (dhLeases h')" using wf by (simp add: h' gm_intros)
    show "dlIP l = staticFor h' k \<and> staticFor h' k \<noteq> NoAddr \<or> dlIP l \<in> set (dhIpPool h')" if "map_of (dhLeases h') k = Some l" for k l
      using that inv own pool by (auto simp: look sf dhcp_inv_def leases_ok_def split: if_splits)
    show "dlExpiry l \<le> now \<or> dlExpiry l' \<le> now"
      if two: "map_of (dhLeases h') k = Some l" "map_of (dhLeases h') k' = Some l'" "k \<noteq> k'" "dlIP l = dlIP l'" for k l k' l'
    proof -
      have "dlExpiry l \<le> now \<or> dlExpiry l' \<le> now" if "map_of (dhLeases h) k = Some l" "map_of (dhLeases h) k' = Some l'"
        using inv that two by (auto simp: dhcp_inv_def leases_ok_def)
      then show ?thesis using two apart [of k l] apart [of k' l'] by (auto simp: look split: if_splits)
    qed
  qed
  moreover have "statics_ok h'" using st by (simp add: h' statics_ok_def)
  ultimately show ?thesis by (simp add: dhcp_inv_def)
qed

text \<open>Leases of the table, and dropping one.\<close>

lemma delLease_ok: "dhcp_inv (now, h) \<Longrightarrow> dhcp_inv (now, h\<lparr>dhLeases := gm_del k (dhLeases h)\<rparr>)"
  by (auto simp: dhcp_inv_def statics_ok_def leases_ok_def staticFor_def gm_simps gm_intros split: if_splits)

lemma declared_ok: "dhcp_inv (now, h) \<Longrightarrow> dhcp_inv (now, h\<lparr>dhDeclined := d\<rparr>)"
  by (simp add: dhcp_inv_def statics_ok_def leases_ok_def staticFor_def)

lemma findAvailableIP_found:
  assumes "findAvailableIP now h \<noteq> NoAddr"
  shows "findAvailableIP now h \<in> set (dhIpPool h)" "\<not> isIPLeased now h (findAvailableIP now h)" "\<not> isDeclined h (findAvailableIP now h)"
proof -
  let ?p = "\<lambda>ip. \<not> isDeclined h ip \<and> \<not> list_ex (\<lambda>(_, lease). dlIP lease = ip \<and> now < dlExpiry lease) (dhLeases h)"
  obtain ip where ip: "find ?p (dhIpPool h) = Some ip"
    using assms unfolding findAvailableIP_def by (cases "find ?p (dhIpPool h)") simp_all
  then have "ip \<in> set (dhIpPool h) \<and> ?p ip" unfolding find_Some_iff by auto
  moreover have "findAvailableIP now h = ip" using ip by (simp add: findAvailableIP_def)
  ultimately show "findAvailableIP now h \<in> set (dhIpPool h)" "\<not> isIPLeased now h (findAvailableIP now h)"
    "\<not> isDeclined h (findAvailableIP now h)" by (simp_all add: isIPLeased_def)
qed

lemma allocateLease_ok:
  assumes inv: "dhcp_inv (now, h)" and cur: "current now mac h" and alloc: "allocateLease env now mac req host h = (r, h')"
  shows "dhcp_inv (now, h')"
proof -
  let ?k = "macString mac"
  have st: "statics_ok h" and wf: "gm_wf (dhLeases h)" using inv by (simp_all add: dhcp_inv_def leases_ok_def)
  note static = matchStaticLease_eq [OF st, of mac]
  have free: "onlyFor now h ?k ip" if "\<not> isIPLeased now h ip" for ip
    using that by (auto simp: isIPLeased_iff [OF wf] onlyFor_def not_less)
  have held: "dlIP e = staticFor h ?k \<and> staticFor h ?k \<noteq> NoAddr \<or> dlIP e \<in> set (dhIpPool h) \<and> onlyFor now h ?k (dlIP e)" if "map_of (dhLeases h) ?k = Some e" for e
    using inv that cur by (fastforce simp: dhcp_inv_def leases_ok_def onlyFor_def current_def)
  note ok = putLease_ok [OF inv]
  have fixed: "dhcp_inv (now, h')" if "putLease mac l h = (r, h')" "dlIP l = staticFor h ?k" "staticFor h ?k \<noteq> NoAddr" for l
    using that by (intro ok) auto
  show ?thesis
  proof (cases "conflictsWithOffer env req \<or> req \<noteq> NoAddr \<and> \<not> canGrantRequestedIPLocked now h mac req")
    case True
    then show ?thesis using alloc inv by (auto simp: allocateLease_def split: if_splits)
  next
    case granted: False
    show ?thesis
    proof (cases "staticFor h ?k = NoAddr")
      case False
      then show ?thesis using alloc granted
        by (auto simp: allocateLease_def static Let_def renew_def newLease_def split: option.splits elim!: fixed)
    next
      case True
      show ?thesis
      proof (cases "map_of (dhLeases h) ?k")
        case None
        then have "isIPInPool h req \<and> \<not> isIPLeased now h req" if "req \<noteq> NoAddr"
          using granted that True by (auto simp: canGrantRequestedIPLocked_def static Let_def split: if_splits)
        then show ?thesis using alloc granted None True inv findAvailableIP_found [of now h] free
          by (auto simp: allocateLease_def static Let_def newLease_def isIPInPool_def list_ex_iff split: if_splits intro!: ok)
      next
        case (Some e)
        define ip where "ip = (if req \<noteq> NoAddr then req else dlIP e)"
        have "ip = dlIP e \<or> isIPInPool h ip \<and> \<not> isIPLeased now h ip"
          using granted Some True by (auto simp: ip_def canGrantRequestedIPLocked_def static Let_def split: if_splits)
        then have "ip \<in> set (dhIpPool h) \<and> onlyFor now h ?k ip"
          using held [OF Some] True free [of ip] by (auto simp: isIPInPool_def list_ex_iff)
        moreover have "putLease mac (renew now ip host e) h = (r, h')"
          using alloc granted Some True by (auto simp: allocateLease_def static Let_def ip_def)
        ultimately show ?thesis by (intro ok [of mac "renew now ip host e"]) (simp_all add: renew_def)
      qed
    qed
  qed
qed

lemma handleDHCP_ok:
  assumes inv: "dhcp_inv (now, h)" and cur: "current now (diClientHWAddr info) h"
  shows "dhcp_inv (now, snd (HandleDHCP sends env now info h))"
proof -
  have offer: "dhcp_inv (now, snd (offerAddress env now (diClientHWAddr info) host h))" for host
    using allocateLease_ok [OF inv cur, of env NoAddr host] inv by (auto simp: offerAddress_def split: prod.splits sum.splits)
  have "dhcp_inv (now, snd (handleDHCPDiscover sends env now info h))"
    using offer [of "hostnameOf info"] inv by (auto simp: handleDHCPDiscover_def split: prod.splits sum.splits)
  moreover have "dhcp_inv (now, snd (handleDHCPRequest sends env now info h))"
    using allocateLease_ok [OF inv cur, of env _ "hostnameOf info"] inv
    by (auto simp: handleDHCPRequest_def Let_def split: prod.splits sum.splits)
  moreover have "dhcp_inv (now, releaseLease info h)"
    using delLease_ok [OF inv] inv by (auto simp: releaseLease_def Let_def split: option.splits)
  moreover have "dhcp_inv (now, handleDHCPDecline info h)"
    using delLease_ok [OF declared_ok [OF inv]] delLease_ok [OF inv] declared_ok [OF inv] inv
    by (auto simp: handleDHCPDecline_def Let_def split: option.splits)
  ultimately show ?thesis using inv by (simp add: HandleDHCP_def dispatchDHCPMessage_def)
qed

interpretation server: guarded_machine serve inTime dhcp_inv
  by unfold_locales (auto simp: serve_def inTime_def split: prod.splits intro!: handleDHCP_ok elim: dhcp_inv_later)

text \<open>C3 (lease_exclusive): start a server with no leases, whose static leases have pairwise distinct whole hardware addresses and pairwise distinct addresses, outside
  the pool, and let it handle any messages in the order of their times, under any faults and whether or not replies can be sent, such that no message comes from a client whose
  own lease ran out.  Then no two clients hold running leases of the same address, and every lease is of the client's static address or of the pool.\<close>

theorem lease_exclusive:
  assumes "statics_ok h" "dhLeases h = []" "run_ok serve inTime evs (t, h)" "run_ops serve evs (t, h) = (now, h')"
    and l: "map_of (dhLeases h') k = Some l" and l': "map_of (dhLeases h') k' = Some l'"
  shows "(dlIP l = dlIP l' \<and> now < dlExpiry l \<and> now < dlExpiry l' \<longrightarrow> k = k') \<and>
    (dlIP l = staticFor h' k \<or> dlIP l \<in> set (dhIpPool h'))"
proof -
  have "dhcp_inv (t, h)" using assms(1,2) by (simp add: dhcp_inv_def leases_ok_def)
  then have "dhcp_inv (now, h')" using server.run_inv [OF _ assms(3)] assms(4) by simp
  then have inv: "leases_ok now h'" by (simp add: dhcp_inv_def)
  moreover have "k = k'" if "dlIP l = dlIP l'" "now < dlExpiry l" "now < dlExpiry l'"
    using inv l l' that by (fastforce simp: leases_ok_def)
  ultimately show ?thesis using l by (auto simp: leases_ok_def)
qed

lemma SetPool_effect:
  "\<exists>h'. SetPool start stop h = Some h' \<and> distinct (dhIpPool h') \<and> length (dhIpPool h') \<le> 65536 \<and> dhLeases h' = dhLeases h \<and>
     set (dhIpPool h') = {V4 x | x a b. start = V4 a \<and> stop = V4 b \<and> a \<le> x \<and> x \<le> b \<and> uint b - uint a < 65536}"
proof (cases "\<exists>a b. start = V4 a \<and> stop = V4 b \<and> a \<le> b \<and> uint b - uint a < 65536")
  case True
  then obtain a b where r: "start = V4 a" "stop = V4 b" "a \<le> b" "uint b - uint a < 65536" by blast
  have "set (map (\<lambda>k. V4 (word_of_int k)) [uint a..uint b]) = {V4 x | x. a \<le> x \<and> x \<le> b}"
    using pool_addresses(2) [of _ a b] by auto
  then show ?thesis using r pool_addresses(1) [of a b] by (auto simp: SetPool_def generateIPPool_eq)
next
  case False
  then have "\<exists>e. generateIPPool start stop = Some (Inl e)"
    by (auto simp: generateIPPool_eq split: Addr.splits)
  moreover have "{V4 x | x a b. start = V4 a \<and> stop = V4 b \<and> a \<le> x \<and> x \<le> b \<and> uint b - uint a < 65536} = {}"
    using False by (auto intro: order_trans)
  ultimately show ?thesis by (auto simp: SetPool_def)
qed

text \<open>C31 (dhcp_pool): configuring a pool always returns; the pool it installs has no address twice, at most 65536 of them, and exactly the IPv4
  addresses of the range when there are that few, the top address of the address space included; no lease is touched.\<close>

theorem dhcp_pool:
  "\<exists>h'. SetPool start stop h = Some h' \<and> distinct (dhIpPool h') \<and> length (dhIpPool h') \<le> 65536 \<and> dhLeases h' = dhLeases h \<and>
     set (dhIpPool h') = {V4 x | x a b. start = V4 a \<and> stop = V4 b \<and> a \<le> x \<and> x \<le> b \<and> uint b - uint a < 65536}"
  by (rule SetPool_effect)

section \<open>Requests\<close>

lemma allocateLease_granted:
  assumes "canGrantRequestedIP env now h mac r" "r \<noteq> NoAddr"
  shows "\<exists>lease. allocateLease env now mac r host h = (Inr lease, h\<lparr>dhLeases := gm_put (macString mac) lease (dhLeases h)\<rparr>) \<and>
    dlIP lease = r \<and> dlExpiry lease = now + DefaultLeaseTime"
proof (cases "map_of (dhLeases h) (macString mac)")
  case None
  with assms show ?thesis
    by (auto simp: canGrantRequestedIP_def canGrantRequestedIPLocked_def allocateLease_def putLease_def newLease_def Let_def split: if_splits)
next
  case (Some e)
  with assms show ?thesis
    by (auto simp: canGrantRequestedIP_def canGrantRequestedIPLocked_def allocateLease_def putLease_def renew_def Let_def split: if_splits)
qed

text \<open>C30 (dhcp_request_answer): a request the server accepts that asks for an address is acknowledged with exactly that address when the server may grant
  it, the client's lease of it then running for the lease time from now and every other client's lease staying as it was; otherwise it is refused with the
  address 0.0.0.0 and nothing of the server changes.  It is never answered with another address.\<close>

theorem dhcp_request_answer:
  assumes "dhServerDevice h \<noteq> None" "acceptsDHCPRequest h info" "messageType info = 3" "askedFor info \<noteq> NoAddr"
    and "HandleDHCP sends env now info h = (outs, h')"
  shows "if canGrantRequestedIP env now h (diClientHWAddr info) (askedFor info)
    then (\<exists>lease. map_of (dhLeases h') (macString (diClientHWAddr info)) = Some lease \<and> dlIP lease = askedFor info \<and>
           dlExpiry lease = now + DefaultLeaseTime) \<and>
         (\<forall>k. k = macString (diClientHWAddr info) \<or> map_of (dhLeases h') k = map_of (dhLeases h) k) \<and>
         (\<exists>reply. outs = (if sends reply then [Sent reply, Stat ''dhcp_acks'', Learned (diClientHWAddr info)] else []) \<and>
           rpMsgType reply = 5 \<and> rpYourIP reply = askedFor info \<and> rpXid reply = diXid info)
    else h' = h \<and> (\<exists>reply. outs = (if sends reply then [Sent reply, Stat ''dhcp_naks''] else []) \<and>
           rpMsgType reply = 6 \<and> rpYourIP reply = V4 0 \<and> rpXid reply = diXid info)"
proof -
  have run: "handleDHCPRequest sends env now info h = (outs, h')"
    using assms by (auto simp: HandleDHCP_def dispatchDHCPMessage_def)
  let ?mac = "diClientHWAddr info"
  show ?thesis
  proof (cases "canGrantRequestedIP env now h ?mac (askedFor info)")
    case True
    then obtain lease where a: "allocateLease env now ?mac (askedFor info) (hostnameOf info) h =
        (Inr lease, h\<lparr>dhLeases := gm_put (macString ?mac) lease (dhLeases h)\<rparr>)"
      and l: "dlIP lease = askedFor info" "dlExpiry lease = now + DefaultLeaseTime"
      using allocateLease_granted [OF _ assms(4)] by blast
    have h': "h' = h\<lparr>dhLeases := gm_put (macString ?mac) lease (dhLeases h)\<rparr>"
      and outs: "outs = answer sends (sendDHCPResponse h' info (dlIP lease) 5 True) [Stat ''dhcp_acks'', Learned ?mac]"
      using run True a by (auto simp: handleDHCPRequest_def askedFor_def [symmetric] Let_def)
    have "\<exists>reply. outs = (if sends reply then [Sent reply, Stat ''dhcp_acks'', Learned ?mac] else []) \<and>
        rpMsgType reply = 5 \<and> rpYourIP reply = askedFor info \<and> rpXid reply = diXid info"
      by (rule exI [of _ "sendDHCPResponse h' info (dlIP lease) 5 True"]) (simp add: outs answer_def l sendDHCPResponse_def)
    then show ?thesis using True l by (simp add: h' gm_simps)
  next
    case False
    then have "outs = sendDHCPNakForRequest sends info h" "h' = h"
      using run assms(4) by (auto simp: handleDHCPRequest_def askedFor_def [symmetric] Let_def)
    then have "h' = h \<and> (\<exists>reply. outs = (if sends reply then [Sent reply, Stat ''dhcp_naks''] else []) \<and>
        rpMsgType reply = 6 \<and> rpYourIP reply = V4 0 \<and> rpXid reply = diXid info)"
      by (intro conjI exI [of _ "sendDHCPResponse h info (V4 0) 6 False"])
        (simp_all add: sendDHCPNakForRequest_def answer_def sendDHCPResponse_def)
    then show ?thesis using False by simp
  qed
qed

section \<open>Options\<close>

lemma sized_cut [simp]: "sized (cutOption t d)"
proof -
  have "unat (word_of_nat (min (length d) 255) :: 8 word) = min (length d) 255"
    by (simp add: unat_of_nat min_def)
  then show ?thesis by (simp add: sized_def cutOption_def Let_def Uint8_of_nat)
qed

lemma opType_cut [simp]: "opType (cutOption t d) = t"
  by (simp add: cutOption_def Let_def)

lemma sized_four: "length d = 4 \<Longrightarrow> sized (fourOption t d)"
  by (simp add: sized_def fourOption_def)

lemma opType_four [simp]: "opType (fourOption t d) = t"
  by (simp add: fourOption_def)

lemma length_To4: "isV4 a \<Longrightarrow> length (To4 a) = 4"
  by (simp add: isV4_def To4_def split: Addr.splits)

lemma length_encodeUint32 [simp]: "length (encodeUint32 v) = 4"
  by (simp add: encodeUint32_def)

text \<open>What an appending step adds: sized options with types of a given list, in its order.\<close>

definition adds :: "nat list \<Rightarrow> DHCPOption list \<Rightarrow> bool" where
  "adds ts os \<longleftrightarrow> list_all sized os \<and> subseq (map opType os) ts"

lemma adds_append: "adds ts os \<Longrightarrow> adds ts' os' \<Longrightarrow> adds (ts @ ts') (os @ os')"
  by (simp add: adds_def list_emb_append_mono)

lemma adds_when: "(b \<Longrightarrow> sized opt) \<Longrightarrow> opType opt = t \<Longrightarrow> adds [t] (if b then [opt] else [])"
  by (simp add: adds_def)

lemma appendNetworkOptions_adds:
  "dhGateway h = NoAddr \<or> isV4 (dhGateway h) \<Longrightarrow> \<exists>new. appendNetworkOptions h os = os @ new \<and> adds ([3] @ [6] @ [15]) new"
  unfolding appendNetworkOptions_def
  by (intro exI conjI, rule refl, intro adds_append adds_when) (auto simp: sized_four length_To4)

lemma appendTimingOptions_adds: "\<exists>new. appendTimingOptions h os = os @ new \<and> adds ([58, 59] @ [42]) new"
  unfolding appendTimingOptions_def
  by (intro exI conjI, rule refl, intro adds_append adds_when) (auto simp: adds_def sized_four)

lemma appendBootOptions_adds: "\<exists>new. appendBootOptions h os = os @ new \<and> adds ([66] @ [67] @ [119]) new"
proof -
  have "(if dhDomainSearch h \<noteq> [] then
        (case encodeDomainSearchList (dhDomainSearch h) of
           None \<Rightarrow> []
         | Some d \<Rightarrow> if d \<noteq> [] then [cutOption 119 d] else [])
      else []) =
     (if dhDomainSearch h \<noteq> [] \<and> encodeDomainSearchList (dhDomainSearch h) \<noteq> None \<and> the (encodeDomainSearchList (dhDomainSearch h)) \<noteq> []
      then [cutOption 119 (the (encodeDomainSearchList (dhDomainSearch h)))] else [])"
    by (auto split: option.splits)
  then show ?thesis unfolding appendBootOptions_def
    by (simp only:) (intro exI conjI, rule refl, intro adds_append adds_when, auto)
qed

lemma appendMiscOptions_adds: "\<exists>new. appendMiscOptions h mac os = os @ new \<and> adds ([43] @ [12]) new"
proof -
  have "(case map_of (dhLeases h) (macString mac) of
        Some lease \<Rightarrow> if dlHostname lease \<noteq> [] then [cutOption 12 (textBytes (dlHostname lease))] else []
      | None \<Rightarrow> []) =
     (if map_of (dhLeases h) (macString mac) \<noteq> None \<and> dlHostname (the (map_of (dhLeases h) (macString mac))) \<noteq> []
      then [cutOption 12 (textBytes (dlHostname (the (map_of (dhLeases h) (macString mac)))))] else [])"
    by (auto split: option.splits)
  then show ?thesis unfolding appendMiscOptions_def
    by (simp only:) (intro exI conjI, rule refl, intro adds_append adds_when, auto)
qed

lemma adds_distinct: "adds ts os \<Longrightarrow> distinct ts \<Longrightarrow> distinct (map opType os)"
  unfolding adds_def in_set_subseqs [symmetric] by (blast intro: subseqs_distinctD)

lemma buildDHCPOptions_wellformed:
  assumes "isV4 server" "isV4 (dhSubnetMask h)" "dhGateway h = NoAddr \<or> isV4 (dhGateway h)"
  shows "\<exists>mid. buildDHCPOptions h t server mac lease = \<lparr>opType = 53, opLength = 1, opData = [of_nat t]\<rparr> # mid @ [endOption] \<and>
    adds [54, 56, 1, 51, 3, 6, 15, 58, 59, 42, 66, 67, 119, 43, 12] mid \<and> (t = 6 \<longrightarrow> map opType mid = [54, 56])"
proof (cases "t = 6")
  case True
  then show ?thesis using assms
    by (intro exI [of _ "[fourOption 54 (To4 server), cutOption 56 (textBytes dhcpNakReason)]"])
      (simp add: buildDHCPOptions_def Let_def adds_def sized_four length_To4)
next
  case False
  define o0 where "o0 = [fourOption 54 (To4 server), fourOption 1 (To4 (dhSubnetMask h))] @ (if lease then [fourOption 51 (encodeUint32 86400)] else [])"
  have o0: "adds ([54, 56, 1] @ [51]) o0"
    using assms unfolding o0_def by (intro adds_append adds_when) (auto simp: adds_def sized_four length_To4)
  obtain n1 where n1: "\<And>os. appendNetworkOptions h os = os @ n1" "adds ([3] @ [6] @ [15]) n1"
    using appendNetworkOptions_adds [OF assms(3), of "[]"] by (auto simp: appendNetworkOptions_def)
  obtain n2 where n2: "\<And>os. appendTimingOptions h os = os @ n2" "adds ([58, 59] @ [42]) n2"
    using appendTimingOptions_adds [of h "[]"] by (auto simp: appendTimingOptions_def)
  obtain n3 where n3: "\<And>os. appendBootOptions h os = os @ n3" "adds ([66] @ [67] @ [119]) n3"
    using appendBootOptions_adds [of h "[]"] by (auto simp: appendBootOptions_def)
  obtain n4 where n4: "\<And>os. appendMiscOptions h mac os = os @ n4" "adds ([43] @ [12]) n4"
    using appendMiscOptions_adds [of h mac "[]"] by (auto simp: appendMiscOptions_def)
  have n2': "adds ([58, 59] @ [42]) (if lease then n2 else [])" using n2(2) by (simp add: adds_def)
  let ?mid = "o0 @ n1 @ (if lease then n2 else []) @ n3 @ n4"
  have "buildDHCPOptions h t server mac lease = \<lparr>opType = 53, opLength = 1, opData = [of_nat t]\<rparr> # ?mid @ [endOption]"
    using False by (simp add: buildDHCPOptions_def Let_def n1 n2 n3 n4 o0_def)
  moreover have "adds (([54, 56, 1] @ [51]) @ ([3] @ [6] @ [15]) @ ([58, 59] @ [42]) @ ([66] @ [67] @ [119]) @ ([43] @ [12])) ?mid"
    by (intro adds_append [OF o0] adds_append [OF n1(2)] adds_append [OF n2'] adds_append [OF n3(2)] n4(2))
  ultimately show ?thesis using False by (intro exI [of _ ?mid]) simp
qed

lemma allocateLease_state: "\<exists>m. snd (allocateLease env now mac r host h) = h\<lparr>dhLeases := m\<rparr>"
proof -
  have same: "\<exists>m. h = h\<lparr>dhLeases := m\<rparr>" by (rule exI [of _ "dhLeases h"]) simp
  have put: "\<exists>m. snd (putLease mac l h) = h\<lparr>dhLeases := m\<rparr>" for l by (auto simp: putLease_def)
  show ?thesis by (auto simp: allocateLease_def Let_def same put split: option.splits)
qed

lemma offerAddress_state: "\<exists>m. snd (offerAddress env now mac host h) = h\<lparr>dhLeases := m\<rparr>"
proof -
  have same: "\<exists>m. h = h\<lparr>dhLeases := m\<rparr>" by (rule exI [of _ "dhLeases h"]) simp
  show ?thesis using allocateLease_state [of env now mac NoAddr host h]
    by (cases "allocateLease env now mac NoAddr host h") (auto simp: offerAddress_def same split: sum.splits)
qed

text \<open>Every reply is a response built from the handler as it was, but for its leases.\<close>

lemma reply_built:
  assumes "Sent reply \<in> set (fst (HandleDHCP sends env now info h))"
  shows "\<exists>m ip t lease. reply = sendDHCPResponse (h\<lparr>dhLeases := m\<rparr>) info ip t lease"
proof -
  have same: "h = h\<lparr>dhLeases := dhLeases h\<rparr>" by simp
  have sent: ?thesis if "Sent reply \<in> set (answer sends (sendDHCPResponse h' info ip t lease) after)" "h' = h\<lparr>dhLeases := m\<rparr>"
    "\<And>r. Sent r \<notin> set after" for h' ip t lease after m
    using that by (auto simp: answer_def split: if_splits)
  note here = sent [OF _ same]
  have "?thesis" if "Sent reply \<in> set (fst (handleDHCPDiscover sends env now info h))"
  proof (cases "offerAddress env now (diClientHWAddr info) (hostnameOf info) h")
    case (Pair r h')
    then show ?thesis using that offerAddress_state [of env now "diClientHWAddr info" "hostnameOf info" h]
      by (cases r) (auto simp: handleDHCPDiscover_def split: if_splits intro: sent)
  qed
  moreover have "?thesis" if "Sent reply \<in> set (fst (handleDHCPRequest sends env now info h))"
  proof (cases "allocateLease env now (diClientHWAddr info) (askedFor info) (hostnameOf info) h")
    case (Pair r h')
    then show ?thesis using that allocateLease_state [of env now "diClientHWAddr info" "askedFor info" "hostnameOf info" h]
      by (cases r) (auto simp: handleDHCPRequest_def sendDHCPNakForRequest_def askedFor_def [symmetric] Let_def split: if_splits intro: sent here)
  qed
  moreover have "?thesis" if "Sent reply \<in> set (handleDHCPInform sends info h)"
    using that by (auto simp: handleDHCPInform_def intro: here)
  ultimately show ?thesis using assms by (auto simp: HandleDHCP_def dispatchDHCPMessage_def split: if_splits)
qed

text \<open>When the server's address and mask and any gateway are IPv4 addresses, every reply it sends opens with its message type, closes with
  the end option, says each option's length truly, never over 255 bytes, and has no option twice; a refusal carries only the server's identity and the reason.\<close>

theorem dhcp_options_wellformed:
  assumes "Sent reply \<in> set (fst (HandleDHCP sends env now info h))"
    and "isV4 (dhServerIP h)" "isV4 (dhSubnetMask h)" "dhGateway h = NoAddr \<or> isV4 (dhGateway h)"
  shows "list_all sized (rpOptions reply) \<and> distinct (map opType (rpOptions reply)) \<and>
    opType (hd (rpOptions reply)) = 53 \<and> opData (hd (rpOptions reply)) = [of_nat (rpMsgType reply)] \<and> last (rpOptions reply) = endOption \<and>
    (rpMsgType reply = 6 \<longrightarrow> map opType (rpOptions reply) = [53, 54, 56, 255])"
proof -
  obtain m ip t lease where r: "reply = sendDHCPResponse (h\<lparr>dhLeases := m\<rparr>) info ip t lease"
    using reply_built [OF assms(1)] by blast
  obtain mid where mid: "rpOptions reply = \<lparr>opType = 53, opLength = 1, opData = [of_nat t]\<rparr> # mid @ [endOption]"
      "adds [54, 56, 1, 51, 3, 6, 15, 58, 59, 42, 66, 67, 119, 43, 12] mid" "t = 6 \<longrightarrow> map opType mid = [54, 56]"
    using buildDHCPOptions_wellformed [of "dhServerIP h" "h\<lparr>dhLeases := m\<rparr>" t "diClientHWAddr info" lease] assms(2-)
    by (auto simp: r sendDHCPResponse_def)
  have "set (map opType mid) \<subseteq> set [54, 56, 1, 51, 3, 6, 15, 58, 59, 42, 66, 67, 119, 43, 12]"
    using mid(2) unfolding adds_def by (blast dest: list_emb_set)
  then have "distinct (map opType (rpOptions reply))"
    using adds_distinct [OF mid(2)] by (auto simp: mid(1) endOption_def)
  moreover have "rpMsgType reply = t" by (simp add: r sendDHCPResponse_def)
  ultimately show ?thesis using mid by (simp add: adds_def sized_def endOption_def)
qed

section \<open>The domain search list\<close>

lemma length_textBytes [simp]: "length (textBytes s) = length s"
  by (simp add: textBytes_def)

lemma textBytes_read: "map (\<lambda>b. char_of (unat b)) (textBytes s) = s"
proof -
  have "char_of (unat (of_nat (of_char c) :: 8 word)) = (c :: char)" for c
    by (simp add: unat_of_nat)
  then show ?thesis by (simp add: textBytes_def comp_def)
qed

lemma splitLoop_labels: "\<forall>l \<in> set (splitLoop cur s). l \<noteq> []"
  by (induction s arbitrary: cur) auto

lemma splitDomain_labels: "l \<in> set (splitDomain d) \<Longrightarrow> l \<noteq> []"
  using splitLoop_labels by (auto simp: splitDomain_def split: if_splits)

lemma decode_label:
  assumes "l \<noteq> []"
  shows "decodeNames cur (encodeLabel l @ bs) = decodeNames (cur @ filter (\<lambda>l. length l \<le> 63) [l]) bs"
proof (cases "length l \<le> 63")
  case True
  then have n: "unat (Byte (word_of_nat (length l))) = length l" by (simp add: Byte_of_nat unat_of_nat)
  have "Byte (word_of_nat (length l)) \<noteq> 0"
  proof
    assume "Byte (word_of_nat (length l)) = 0"
    then show False using n assms by simp
  qed
  then show ?thesis using True assms n textBytes_read [of l]
    by (simp add: encodeLabel_def maxDomainLabelLen_def)
next
  case False
  then show ?thesis by (simp add: encodeLabel_def maxDomainLabelLen_def)
qed

lemma decode_labels:
  "\<forall>l \<in> set ls. l \<noteq> [] \<Longrightarrow>
    decodeNames cur (concat (map encodeLabel ls) @ 0 # bs) = map_option (Cons (cur @ filter (\<lambda>l. length l \<le> 63) ls)) (decodeNames [] bs)"
proof (induction ls arbitrary: cur)
  case (Cons l ls)
  then show ?case using decode_label [of l cur "concat (map encodeLabel ls) @ 0 # bs"] by (auto split: if_splits)
qed simp

lemma encodeDomains_decode:
  "encodeDomains acc ds = Some bs \<Longrightarrow>
    \<exists>rest. bs = acc @ rest \<and> decodeNames [] rest = Some (map (\<lambda>d. filter (\<lambda>l. length l \<le> 63) (splitDomain d)) ds)"
proof (induction ds arbitrary: acc)
  case (Cons d ds)
  let ?labels = "concat (map encodeLabel (splitDomain d)) @ [0]"
  have "encodeDomains (acc @ ?labels) ds = Some bs" using Cons.prems by (simp add: Let_def split: if_splits)
  from Cons.IH [OF this] obtain rest where rest: "bs = (acc @ ?labels) @ rest"
      "decodeNames [] rest = Some (map (\<lambda>d. filter (\<lambda>l. length l \<le> 63) (splitDomain d)) ds)" by blast
  have "decodeNames [] (?labels @ rest) = map_option (Cons (filter (\<lambda>l. length l \<le> 63) (splitDomain d))) (decodeNames [] rest)"
    using decode_labels [of "splitDomain d" "[]" rest] splitDomain_labels by auto
  then show ?case using rest by (intro exI [of _ "?labels @ rest"]) simp
qed simp

lemma encodeDomains_bound: "encodeDomains acc ds = Some bs \<Longrightarrow> length acc \<le> 255 \<Longrightarrow> length bs \<le> 255"
  by (induction ds arbitrary: acc) (auto simp: Let_def MaxDHCPOptionLen_def split: if_splits)

text \<open>C32 (domain_search_roundtrip): a search list that is encoded at all fits one option and reads back as the labels of its domains in order, without
  the labels that are too long for a name.\<close>

theorem domain_search_roundtrip:
  assumes "encodeDomainSearchList ds = Some bs"
  shows "length bs \<le> 255 \<and> length ds \<le> 10 \<and> decodeNames [] bs = Some (map (\<lambda>d. filter (\<lambda>l. length l \<le> 63) (splitDomain d)) ds)"
proof -
  have e: "encodeDomains [] ds = Some bs" "length ds \<le> 10"
    using assms by (auto simp: encodeDomainSearchList_def MaxDomainSearchCount_def split: if_splits)
  then show ?thesis using encodeDomains_decode [OF e(1)] encodeDomains_bound [OF e(1)] by auto
qed

section \<open>Concrete servers and messages\<close>

definition noFault :: DhcpEnv where
  "noFault = \<lparr>enFaultAddress = NoAddr, enConflictActive = False, enNoOffer = False\<rparr>"

text \<open>A server at 10.0.0.1 with a pool of the addresses 10.0.0.10 to \<open>last\<close> and a static lease of 10.0.0.5.\<close>

definition sampleServer :: "Addr list \<Rightarrow> DHCPHandler" where
  "sampleServer pool = (setServerConfig (Some 0) (V4 0x0A000001) (V4 0x0A000001) [V4 0x08080808] ''lab.example'' NewDHCPHandler)
     \<lparr>dhIpPool := pool, dhStaticLeases := [\<lparr>slClientIP = V4 0x0A000005, slMACAddress = [2, 0, 0, 0, 0, 9], slMACMask = []\<rparr>]\<rparr>"

definition client :: "nat \<Rightarrow> hardwareAddr" where
  "client n = [2, 0, 0, 0, 0, n]"

text \<open>A message of a type, asking for an address when it names one; every type but a discover names the server.\<close>

definition message :: "8 word \<Rightarrow> nat \<Rightarrow> Addr \<Rightarrow> dhcpInfo" where
  "message t n ip = \<lparr>diXid = 7, diClientHWAddr = client n, diClientIP = V4 0,
     diOptions = [\<lparr>opType = 53, opLength = 1, opData = [t]\<rparr>] @ (if ip = NoAddr then [] else [fourOption 50 (To4 ip)]) @
       (if t = 1 then [] else [fourOption 54 (To4 (V4 0x0A000001))]), diVlan = 0\<rparr>"

definition hour :: int where "hour = 3600 * 1000000000"

definition arrives :: "int \<Rightarrow> dhcpInfo \<Rightarrow> dhcpEvent" where
  "arrives h info = ((\<lambda>_. True), noFault, h * hour, info)"

lemma sampleServer_ok: "statics_ok (sampleServer [V4 0x0A00000A, V4 0x0A00000B])" "dhLeases (sampleServer pool) = []"
  by (simp_all add: statics_ok_def sampleServer_def setServerConfig_def NewDHCPHandler_def)

definition sampleRun :: "dhcpEvent list" where
  "sampleRun = [arrives 0 (message 1 1 NoAddr), arrives 1 (message 3 1 (V4 0x0A00000A)), arrives 2 (message 1 2 NoAddr), arrives 3 (message 1 9 NoAddr)]"

lemma sampleRun_ok: "run_ok serve inTime sampleRun (0, sampleServer [V4 0x0A00000A, V4 0x0A00000B])"
  by code_simp

lemma sampleRun_leases:
  "map (\<lambda>(k, l). (k, dlIP l)) (dhLeases (snd (run_ops serve sampleRun (0, sampleServer [V4 0x0A00000A, V4 0x0A00000B])))) =
    [(''02:00:00:00:00:01'', V4 0x0A00000A), (''02:00:00:00:00:02'', V4 0x0A00000B), (''02:00:00:00:00:09'', V4 0x0A000005)]"
  by code_simp

theorem lease_exclusive_witness:
  "\<exists>now h' l l'. run_ops serve sampleRun (0, sampleServer [V4 0x0A00000A, V4 0x0A00000B]) = (now, h') \<and>
     map_of (dhLeases h') ''02:00:00:00:00:01'' = Some l \<and> map_of (dhLeases h') ''02:00:00:00:00:02'' = Some l' \<and>
     (dlIP l = staticFor h' ''02:00:00:00:00:01'' \<or> dlIP l \<in> set (dhIpPool h')) \<and> dlIP l \<noteq> dlIP l'"
proof -
  obtain now h' where run: "run_ops serve sampleRun (0, sampleServer [V4 0x0A00000A, V4 0x0A00000B]) = (now, h')" by fastforce
  have look: "map_option dlIP (map_of (dhLeases h') k) = map_of (map (\<lambda>(k, l). (k, dlIP l)) (dhLeases h')) k" for k
    by (simp add: map_of_map)
  have t: "map (\<lambda>(k, l). (k, dlIP l)) (dhLeases h') =
      [(''02:00:00:00:00:01'', V4 0x0A00000A), (''02:00:00:00:00:02'', V4 0x0A00000B), (''02:00:00:00:00:09'', V4 0x0A000005)]"
    using sampleRun_leases run by simp
  obtain l where l: "map_of (dhLeases h') ''02:00:00:00:00:01'' = Some l" "dlIP l = V4 0x0A00000A"
    using look [of "''02:00:00:00:00:01''"] unfolding t by auto
  obtain l' where l': "map_of (dhLeases h') ''02:00:00:00:00:02'' = Some l'" "dlIP l' = V4 0x0A00000B"
    using look [of "''02:00:00:00:00:02''"] unfolding t by auto
  from lease_exclusive [OF sampleServer_ok sampleRun_ok run l(1) l'(1)] show ?thesis using run l l' by auto
qed

theorem dhcp_request_answer_witness:
  "\<exists>h'. HandleDHCP (\<lambda>_. True) noFault 0 (message 3 1 (V4 0x0A00000A)) (sampleServer [V4 0x0A00000A]) = h' \<and>
     (\<exists>lease. map_of (dhLeases (snd h')) (macString (client 1)) = Some lease \<and> dlIP lease = V4 0x0A00000A)"
proof -
  let ?info = "message 3 1 (V4 0x0A00000A)" and ?h = "sampleServer [V4 0x0A00000A]"
  obtain outs h' where run: "HandleDHCP (\<lambda>_. True) noFault 0 ?info ?h = (outs, h')" by fastforce
  have hyps: "dhServerDevice ?h \<noteq> None" "acceptsDHCPRequest ?h ?info" "messageType ?info = 3" "askedFor ?info \<noteq> NoAddr"
    by code_simp+
  have more: "canGrantRequestedIP noFault 0 ?h (diClientHWAddr ?info) (askedFor ?info)" "askedFor ?info = V4 0x0A00000A" "diClientHWAddr ?info = client 1"
    by code_simp+
  from dhcp_request_answer [OF hyps run] show ?thesis using run more by auto
qed

theorem dhcp_options_wellformed_witness:
  "\<exists>reply. Sent reply \<in> set (fst (HandleDHCP (\<lambda>_. True) noFault 0 (message 3 1 (V4 0x0A000063)) (sampleServer [V4 0x0A00000A]))) \<and>
     map opType (rpOptions reply) = [53, 54, 56, 255] \<and> list_all sized (rpOptions reply)"
proof -
  let ?info = "message 3 1 (V4 0x0A000063)" and ?h = "sampleServer [V4 0x0A00000A]"
  define reply where "reply = sendDHCPResponse ?h ?info (V4 0) 6 False"
  have "fst (HandleDHCP (\<lambda>_. True) noFault 0 ?info ?h) = [Sent reply, Stat ''dhcp_naks'']" unfolding reply_def by code_simp
  then have sent: "Sent reply \<in> set (fst (HandleDHCP (\<lambda>_. True) noFault 0 ?info ?h))" by simp
  have nak: "rpMsgType reply = 6" by (simp add: reply_def sendDHCPResponse_def)
  have v4: "isV4 (dhServerIP ?h)" "isV4 (dhSubnetMask ?h)" "dhGateway ?h = NoAddr \<or> isV4 (dhGateway ?h)" by code_simp+
  from dhcp_options_wellformed [OF sent v4] show ?thesis using sent nak by auto
qed

theorem domain_search_roundtrip_witness:
  "\<exists>bs. encodeDomainSearchList [''lab.example.'', ''a.b''] = Some bs \<and> decodeNames [] bs = Some [[''lab'', ''example''], [''a'', ''b'']]"
proof -
  obtain bs where bs: "encodeDomainSearchList [''lab.example.'', ''a.b''] = Some bs"
    by (cases "encodeDomainSearchList [''lab.example.'', ''a.b'']")
      (auto simp: encodeDomainSearchList_def encodeLabel_def splitDomain_def MaxDomainSearchCount_def MaxDomainLen_def MaxDHCPOptionLen_def
        maxDomainLabelLen_def textBytes_def)
  from domain_search_roundtrip [OF this] show ?thesis using bs by (simp add: splitDomain_def)
qed

text \<open>A server with one address: client 1 has a lease, which runs out; client 2 is given the address; then client 1 asks for it again, and is acknowledged.\<close>

theorem expired_lease_shared:
  "let s = run_ops serve [arrives 0 (message 1 1 NoAddr), arrives 25 (message 1 2 NoAddr), arrives 26 (message 3 1 (V4 0x0A00000A))]
       (0, sampleServer [V4 0x0A00000A]) in
     map (\<lambda>(k, l). (k, dlIP l)) (dhLeases (snd s)) = [(''02:00:00:00:00:01'', V4 0x0A00000A), (''02:00:00:00:00:02'', V4 0x0A00000A)] \<and>
     list_all (\<lambda>(_, l). fst s < dlExpiry l) (dhLeases (snd s))"
  by code_simp

text \<open>Client 2 declines the address it was given after client 1's lease of it ran out.  Client 1 is offered the declined address all the same, and its request for it is refused.\<close>

theorem declined_offered_again:
  "let s = run_ops serve [arrives 0 (message 1 1 NoAddr), arrives 25 (message 1 2 NoAddr), arrives 25 (message 4 2 (V4 0x0A00000A))]
       (0, sampleServer [V4 0x0A00000A, V4 0x0A00000B]);
     replies = (\<lambda>h info. concat (map (\<lambda>x. case x of Sent r \<Rightarrow> [(rpMsgType r, rpYourIP r)] | _ \<Rightarrow> [])
       (fst (HandleDHCP (\<lambda>_. True) noFault (26 * hour) info h)))) in
     isDeclined (snd s) (V4 0x0A00000A) \<and> replies (snd s) (message 1 1 NoAddr) = [(2, V4 0x0A00000A)] \<and>
     replies (snd (serve (arrives 26 (message 1 1 NoAddr)) s)) (message 3 1 (V4 0x0A00000A)) = [(6, V4 0)]"
  by code_simp

end
