(* ===== verification/Fabric_Dhcp.thy ===== *)
theory Fabric_Dhcp
  imports Fabric_Props Dhcp_Leases
begin

text \<open>
  The DHCP servers of a compiled scenario.  \<open>configureDHCPServer\<close> gives a device's handler its pool and its static leases, as the stack does when it
  starts; what the fabric compiler checked of the scope makes the handler one to which the theorems on leases apply.
\<close>

unbundle bit_operations_syntax

definition staticLease :: "LeaseSource \<Rightarrow> StaticLease" where
  "staticLease l = \<lparr>slClientIP = (case ipToAddr (lcClientIP l) of None \<Rightarrow> NoAddr | Some a \<Rightarrow> a), slMACAddress = lcMACAddress l, slMACMask = lcMACMask l\<rparr>"

text \<open>The pool and the static leases of \<open>configureDHCPServer\<close>; the options it also sets are not part of a scope.\<close>

definition configureDHCPServer :: "DHCPConfig \<Rightarrow> DHCPHandler \<Rightarrow> DHCPHandler option" where
  "configureDHCPServer d h =
     (case (if dcPoolStart d \<noteq> [] \<and> dcPoolEnd d \<noteq> [] then
              SetPool (case ipToAddr (dcPoolStart d) of None \<Rightarrow> NoAddr | Some a \<Rightarrow> a) (case ipToAddr (dcPoolEnd d) of None \<Rightarrow> NoAddr | Some a \<Rightarrow> a) h
            else Some h) of
        None \<Rightarrow> None
      | Some h1 \<Rightarrow> Some (h1\<lparr>dhStaticLeases := map staticLease (dcClientLeases d)\<rparr>))"

text \<open>Two static leases that match one client overlap.\<close>

lemma masked_overlap:
  fixes x a b j k :: nat
  assumes "x AND j = a AND j" "x AND k = b AND k"
  shows "(a XOR b) AND j AND k = 0"
proof (rule bit_eqI)
  fix n
  have "bit (x AND j) n = bit (a AND j) n" "bit (x AND k) n = bit (b AND k) n" using assms by simp_all
  then show "bit ((a XOR b) AND j AND k) n = bit (0 :: nat) n" by (auto simp: bit_and_iff bit_xor_iff)
qed

definition bytes_below :: "LeaseSource \<Rightarrow> bool" where
  "bytes_below l \<longleftrightarrow> (\<forall>x \<in> set (lcMACAddress l). x < 256)"

lemma matches_mask:
  assumes "macMatchesMask mac (lcMACAddress l) (lcMACMask l)" "length mac = 6" "\<forall>x \<in> set mac. x < 256" "validDHCPLeaseMAC l" "bytes_below l" "i < 6"
  shows "mac ! i AND (if lcMACMask l \<noteq> [] then lcMACMask l ! i else 255) = lcMACAddress l ! i AND (if lcMACMask l \<noteq> [] then lcMACMask l ! i else 255)"
proof (cases "lcMACMask l = []")
  case True
  then have "macString mac = macString (lcMACAddress l)" using assms(1) by (simp add: macMatchesMask_def split: if_splits)
  moreover have "length (lcMACAddress l) = 6" using assms(4) by (simp add: validDHCPLeaseMAC_def split: if_splits)
  ultimately have "mac = lcMACAddress l"
    using ParseMAC_macString [of mac] ParseMAC_macString [of "lcMACAddress l"] assms(2,3,5) by (simp add: bytes_below_def)
  then show ?thesis by simp
next
  case False
  then show ?thesis using assms(1,2,6) by (auto simp: macMatchesMask_def list_all_iff split: if_splits)
qed

lemma matches_overlap:
  assumes mac: "length mac = 6" "\<forall>x \<in> set mac. x < 256"
    and l: "macMatchesMask mac (lcMACAddress l) (lcMACMask l)" "validDHCPLeaseMAC l" "bytes_below l"
    and l': "macMatchesMask mac (lcMACAddress l') (lcMACMask l')" "validDHCPLeaseMAC l'" "bytes_below l'"
  shows "\<not> macs_clear (leaseMAC d l) (leaseMAC d l')"
  using masked_overlap [OF matches_mask [OF l(1) mac l(2,3)] matches_mask [OF l'(1) mac l'(2,3)]]
  by (simp add: macs_clear_def leaseMAC_def dhcpLeaseMACsOverlap_def list_all_iff)

lemma rest_scopes: "scopes_ok (set (fgDevices g)) (rest g)"
proof -
  have "scopes_ok (set (fgDevices g)) (body g (stage g))" using compiled [OF blank_new(1), of _ g] by (simp add: compileNetworks_new)
  then show ?thesis
    by (rule scopes_ok_kept) (use body_diagnosed [of g "fcBinding (stage g)" "[]"] in \<open>simp add: under_def\<close>)
qed

text \<open>No two entries of the list match one hardware address.\<close>

definition one_match :: "StaticLease list \<Rightarrow> bool" where
  "one_match ls \<longleftrightarrow> (\<forall>mac. length mac = 6 \<and> (\<forall>x \<in> set mac. x < 256) \<longrightarrow>
     sorted_wrt (\<lambda>l l'. \<not> (macMatchesMask mac (slMACAddress l) (slMACMask l) \<and> macMatchesMask mac (slMACAddress l') (slMACMask l'))) ls)"

lemma statics_one_match:
  assumes s: "sorted_wrt macs_clear (map (leaseMAC d) ls)" and v: "\<forall>l \<in> set ls. validDHCPLeaseMAC l" "\<forall>l \<in> set ls. bytes_below l"
  shows "one_match (map staticLease ls)"
  unfolding one_match_def
proof (intro allI impI)
  fix mac :: "nat list"
  assume mac: "length mac = 6 \<and> (\<forall>x \<in> set mac. x < 256)"
  have "sorted_wrt (\<lambda>l l'. macs_clear (leaseMAC d l) (leaseMAC d l')) ls" using s by (simp add: sorted_wrt_map)
  then show "sorted_wrt (\<lambda>l l'. \<not> (macMatchesMask mac (slMACAddress l) (slMACMask l) \<and> macMatchesMask mac (slMACAddress l') (slMACMask l'))) (map staticLease ls)"
    unfolding sorted_wrt_map
    by (rule sorted_wrt_mono_rel [rotated]) (use mac v matches_overlap in \<open>auto simp: staticLease_def\<close>)
qed

lemma configured_pool:
  assumes "ipToAddr (dcPoolStart d) = Some start" "ipToAddr (dcPoolEnd d) = Some stop"
  shows "\<exists>h'. configureDHCPServer d h = Some h' \<and> dhStaticLeases h' = map staticLease (dcClientLeases d) \<and>
    dhLeases h' = dhLeases h \<and> (\<forall>a \<in> set (dhIpPool h'). inRange start stop a) \<and> NoAddr \<notin> set (dhIpPool h')"
proof -
  have ne: "dcPoolStart d \<noteq> []" "dcPoolEnd d \<noteq> []" using assms by (auto simp: ipToAddr_def AddrFromSlice_def)
  obtain h1 where h1: "SetPool start stop h = Some h1" "dhLeases h1 = dhLeases h"
      "set (dhIpPool h1) = {V4 x | x a b. start = V4 a \<and> stop = V4 b \<and> a \<le> x \<and> x \<le> b \<and> uint b - uint a < 65536}"
    using SetPool_effect [of start stop h] by blast
  then have "\<forall>a \<in> set (dhIpPool h1). inRange start stop a" "NoAddr \<notin> set (dhIpPool h1)" by (auto simp: inRange_def less_eq_Addr_def word_le_def)
  then show ?thesis using h1 ne assms by (simp add: configureDHCPServer_def)
qed

text \<open>C27 (scope_served): for every scope that a compiled scenario gives a server itself, a device of that name has a DHCP configuration whose handler can be set up; its pool lies in
  the scope, no hardware address matches two of its static leases, masks included, and when none has a mask the handler is one whose leases the
  server keeps exclusive.  Bytes of hardware addresses are below 256.\<close>

theorem scope_served:
  assumes "s \<in> set (tgDHCPScopes (reTopology (Compile (Some g) b)))" "dsRelay s = None"
    and "\<forall>d \<in> set (fgDevices g). \<forall>dc. fdDHCPConfig d = Some dc \<longrightarrow> (\<forall>l \<in> set (dcClientLeases dc). bytes_below l)"
  shows "\<exists>d \<in> set (fgDevices g). \<exists>dc h'. fdName d = dsDevice s \<and> fdDHCPConfig d = Some dc \<and> configureDHCPServer dc h = Some h' \<and>
    dhLeases h' = dhLeases h \<and> (\<forall>a \<in> set (dhIpPool h'). inRange (dsStart s) (dsEnd s) a) \<and> one_match (dhStaticLeases h') \<and>
    ((\<forall>l \<in> set (dcClientLeases dc). lcMACMask l = []) \<longrightarrow> statics_ok h')"
proof -
  have "tgDHCPScopes (reTopology (Compile (Some g) b)) = fcScopes (rest g)" by (subst topology_forms(2)) (simp add: report_def)
  then have s: "own_scope (set (fgDevices g)) (rest g) s" "\<forall>a \<in> keys (fcLeaseAddresses (rest g)). \<not> inRange (dsStart s) (dsEnd s) a"
      and macs: "sorted_wrt macs_clear (fcLeaseMACs (rest g))"
    using rest_scopes [of g] assms(1,2) by (simp_all add: scopes_ok_def)
  obtain d dc n as xs ys where d: "d \<in> set (fgDevices g)" "fdName d = dsDevice s" "fdDHCPConfig d = Some dc"
      and pool: "ipToAddr (dcPoolStart dc) = Some (dsStart s)" "ipToAddr (dcPoolEnd dc) = Some (dsEnd s)"
      and as: "map (\<lambda>l. ipToAddr (lcClientIP l)) (dcClientLeases dc) = map Some as" "distinct as" "set as \<subseteq> keys (fcLeaseAddresses (rest g))"
        "\<forall>a \<in> set as. Is4 a \<and> usable n a" and v: "\<forall>l \<in> set (dcClientLeases dc). validDHCPLeaseMAC l"
      and m: "fcLeaseMACs (rest g) = xs @ map (leaseMAC d) (dcClientLeases dc) @ ys"
    using s(1) unfolding own_scope_def by blast
  obtain h' where h': "configureDHCPServer dc h = Some h'" "dhStaticLeases h' = map staticLease (dcClientLeases dc)" "dhLeases h' = dhLeases h"
      "\<forall>a \<in> set (dhIpPool h'). inRange (dsStart s) (dsEnd s) a" "NoAddr \<notin> set (dhIpPool h')"
    using configured_pool [OF pool, of h] by blast
  have one: "one_match (dhStaticLeases h')"
    using macs v assms(3) d unfolding m h'(2) by (intro statics_one_match [of d]) (simp_all add: sorted_wrt_append)
  have ips: "map slClientIP (dhStaticLeases h') = as"
    using arg_cong [OF as(1), of "map (case_option NoAddr (\<lambda>a. a))"] by (simp add: h'(2) staticLease_def comp_def)
  have "slClientIP l \<noteq> NoAddr \<and> slClientIP l \<notin> set (dhIpPool h')" if "l \<in> set (dhStaticLeases h')" for l
  proof -
    have "slClientIP l \<in> set as" using that by (simp flip: ips)
    then show ?thesis using as(3,4) s(2) h'(4) by fastforce
  qed
  then have "statics_ok h'" if "\<forall>l \<in> set (dcClientLeases dc). lcMACMask l = []"
    using that as(2) h'(5) ips by (auto simp: statics_ok_def h'(2) staticLease_def)
  then show ?thesis using d h' one by blast
qed

text \<open>The scopes of the example scenario, which it serves itself.\<close>

lemma example_scopes:
  "map (\<lambda>s. (dsDevice s, dsStart s, dsEnd s, dsRelay s)) (tgDHCPScopes (reTopology (Compile (Some exampleConfig) (exampleBinding ''pool'')))) =
     [(''r1'', V4 0x0A000164, V4 0x0A0001C8, None), (''s2'', V4 0x0A000264, V4 0x0A0002C8, None)]"
  by code_simp

theorem scope_served_witness:
  "\<exists>d \<in> set (fgDevices exampleConfig). \<exists>dc h'. fdName d = ''r1'' \<and> fdDHCPConfig d = Some dc \<and> configureDHCPServer dc NewDHCPHandler = Some h' \<and>
     (\<forall>a \<in> set (dhIpPool h'). inRange (V4 0x0A000164) (V4 0x0A0001C8) a) \<and> one_match (dhStaticLeases h')"
proof -
  obtain s where s: "s \<in> set (tgDHCPScopes (reTopology (Compile (Some exampleConfig) (exampleBinding ''pool''))))" "dsRelay s = None" "dsDevice s = ''r1''"
      "dsStart s = V4 0x0A000164" "dsEnd s = V4 0x0A0001C8"
    using example_scopes by (clarsimp simp: map_eq_Cons_conv) blast
  have "\<forall>d \<in> set (fgDevices exampleConfig). \<forall>dc. fdDHCPConfig d = Some dc \<longrightarrow> (\<forall>l \<in> set (dcClientLeases dc). bytes_below l)"
    by (simp add: exampleConfig_def)
  from scope_served [OF s(1,2) this, of NewDHCPHandler] show ?thesis unfolding s(3-5) by blast
qed

end
