(* ===== verification/Snmp_Agent.thy ===== *)
theory Snmp_Agent
  imports Snmp_Mib Go_Netip Go_Bytes
begin

text \<open>
  The SNMP agent (\<open>internal/protocols/snmp/agent.go\<close>, \<open>mib\_snmp.go\<close>) and the handler that gives it datagrams (\<open>internal/protocols/snmp.go\<close>,
  \<open>snmp\_agents.go\<close>).  An agent is its management base, its community and its counters, which the objects of the snmp group read: the world a
  dynamic value sees is the counters with whatever else its closure reads, a value \<open>'x\<close>.

  \<open>syncDeviceStateMIBs\<close>, which republishes the device's state before each read, is the parameter \<open>evSync\<close>; \<open>sort.Slice\<close> is \<open>evSort\<close>; decoding,
  marshalling and sending belong to gosnmp and the stack and are parameters of the handler.  The tags and names of gosnmp are those of RFC 3416.
  Logging is left out.
\<close>

section \<open>Values of gosnmp\<close>

datatype PDUType = Sequence | GetRequest | GetNextRequest | GetResponse | SetRequest | Trap | GetBulkRequest | InformRequest | SNMPv2Trap
  | Report | UnknownPDU int

datatype SNMPError = NoError | TooBig | NoSuchName | BadValue | ReadOnly | GenErr | NoAccess | WrongType | WrongLength | WrongEncoding
  | WrongValue | NoCreation | InconsistentValue | ResourceUnavailable | CommitFailed | UndoFailed | AuthorizationError | NotWritable
  | InconsistentName | UnknownStatus "8 word"

datatype SnmpVersion = Version1 | Version2c | Version3 | UnknownVersion int

definition IntegerTag :: int where "IntegerTag = 0x02"

definition Counter32 :: int where "Counter32 = 0x41"

definition NoSuchObject :: int where "NoSuchObject = 0x80"

definition EndOfMibView :: int where "EndOfMibView = 0x82"

definition nilValue :: payload where "nilValue = POther ''<nil>''"

record SnmpPDU =
  vbName :: string
  vbType :: int
  vbValue :: payload

record SnmpPacket =
  pkVersion :: SnmpVersion
  pkCommunity :: string
  pkPDUType :: PDUType
  pkRequestID :: "32 word"
  pkError :: SNMPError
  pkErrorIndex :: "8 word"
  pkVariables :: "SnmpPDU list"
  pkNonRepeaters :: "8 word"
  pkMaxRepetitions :: "32 word"

section \<open>Counters (mib\_snmp.go)\<close>

datatype counter = InPkts | OutPkts | InBadVersions | InBadCommunityNames | InBadCommunityUses | InASNParseErrs | InBadTypes | InTooBigs
  | InNoSuchNames | InBadValues | InReadOnlys | InGenErrs | InTotalReqVars | InTotalSetVars | InGetRequests | InGetNexts | InSetRequests
  | InGetResponses | InTraps | OutTooBigs | OutNoSuchNames | OutBadValues | OutReadOnlys | OutGenErrs | OutGetRequests | OutGetNexts
  | OutSetRequests | OutGetResponses | OutTraps | EnableAuthenTraps

text \<open>The counters wrap around as \<open>atomic.Uint32\<close> does.\<close>

type_synonym snmpStats = "counter \<Rightarrow> 32 word"

definition bump :: "counter \<Rightarrow> 32 word \<Rightarrow> snmpStats \<Rightarrow> snmpStats" where
  "bump c n s = s(c := s c + n)"

definition snmpGroup :: string where "snmpGroup = ''1.3.6.1.2.1.11''"

definition enableAuthenTrapsOID :: string where "enableAuthenTrapsOID = snmpGroup @ ''.30.0''"

definition authenticationTrapsOn :: int where "authenticationTrapsOn = 1"

definition authenticationTrapsOff :: int where "authenticationTrapsOff = 2"

definition snmpCounters :: "counter list" where
  "snmpCounters = [InPkts, OutPkts, InBadVersions, InBadCommunityNames, InBadCommunityUses, InASNParseErrs, InBadTypes, InTooBigs, InNoSuchNames,
     InBadValues, InReadOnlys, InGenErrs, InTotalReqVars, InTotalSetVars, InGetRequests, InGetNexts, InSetRequests, InGetResponses, InTraps,
     OutTooBigs, OutNoSuchNames, OutBadValues, OutReadOnlys, OutGenErrs, OutGetRequests, OutGetNexts, OutSetRequests, OutGetResponses, OutTraps]"

definition counterOID :: "nat \<Rightarrow> string" where
  "counterOID suffix = snmpGroup @ ''.'' @ itoa (int suffix) @ ''.0''"

definition safeUint32FromInt :: "int \<Rightarrow> 32 word" where
  "safeUint32FromInt v = (if v < 0 then 0 else if 4294967295 < v then 4294967295 else word_of_int v)"

definition recordInboundPDU :: "PDUType \<Rightarrow> nat \<Rightarrow> snmpStats \<Rightarrow> snmpStats" where
  "recordInboundPDU pduType variables s =
     (let n = safeUint32FromInt (int variables) in
      case pduType of
        GetRequest \<Rightarrow> bump InTotalReqVars n (bump InGetRequests 1 s)
      | GetNextRequest \<Rightarrow> bump InTotalReqVars n (bump InGetNexts 1 s)
      | GetBulkRequest \<Rightarrow> bump InTotalReqVars n (bump InGetNexts 1 s)
      | SetRequest \<Rightarrow> bump InTotalSetVars n (bump InSetRequests 1 s)
      | GetResponse \<Rightarrow> bump InGetResponses 1 s
      | Trap \<Rightarrow> bump InTraps 1 s
      | InformRequest \<Rightarrow> bump InTraps 1 s
      | SNMPv2Trap \<Rightarrow> bump InTraps 1 s
      | Sequence \<Rightarrow> bump InBadTypes 1 s
      | Report \<Rightarrow> bump InBadTypes 1 s
      | UnknownPDU _ \<Rightarrow> s)"

text \<open>The counter of an error status, with the counters of one direction as arguments.\<close>

definition errorCounter :: "counter \<Rightarrow> counter \<Rightarrow> counter \<Rightarrow> counter \<Rightarrow> counter \<Rightarrow> SNMPError \<Rightarrow> counter option" where
  "errorCounter tooBig noSuchName badValue readOnly genErr status =
     (case status of
        TooBig \<Rightarrow> Some tooBig
      | NoSuchName \<Rightarrow> Some noSuchName
      | BadValue \<Rightarrow> Some badValue
      | ReadOnly \<Rightarrow> Some readOnly
      | GenErr \<Rightarrow> Some genErr
      | NoError \<Rightarrow> None
      | UnknownStatus _ \<Rightarrow> None
      | _ \<Rightarrow> if status \<in> {WrongType, WrongLength, WrongEncoding, WrongValue, InconsistentValue} then Some badValue else Some genErr)"

definition RecordInboundPacket :: "snmpStats \<Rightarrow> snmpStats" where
  "RecordInboundPacket = bump InPkts 1"

definition RecordBadVersion :: "snmpStats \<Rightarrow> snmpStats" where
  "RecordBadVersion s = bump InBadVersions 1 (bump InPkts 1 s)"

definition RecordBadCommunityName :: "snmpStats \<Rightarrow> snmpStats" where
  "RecordBadCommunityName s = bump InBadCommunityNames 1 (bump InPkts 1 s)"

definition RecordBadCommunityUse :: "snmpStats \<Rightarrow> snmpStats" where
  "RecordBadCommunityUse s = bump InBadCommunityUses 1 (bump InPkts 1 s)"

definition RecordASNParseError :: "snmpStats \<Rightarrow> snmpStats" where
  "RecordASNParseError s = bump InASNParseErrs 1 (bump InPkts 1 s)"

definition RecordResponse :: "SNMPError \<Rightarrow> snmpStats \<Rightarrow> snmpStats" where
  "RecordResponse status s =
     (let s1 = bump OutGetResponses 1 (bump OutPkts 1 s) in
      case errorCounter OutTooBigs OutNoSuchNames OutBadValues OutReadOnlys OutGenErrs status of None \<Rightarrow> s1 | Some c \<Rightarrow> bump c 1 s1)"

definition RecordInboundError :: "SNMPError \<Rightarrow> snmpStats \<Rightarrow> snmpStats" where
  "RecordInboundError status s =
     (case errorCounter InTooBigs InNoSuchNames InBadValues InReadOnlys InGenErrs status of None \<Rightarrow> s | Some c \<Rightarrow> bump c 1 s)"

section \<open>The agent (agent.go)\<close>

record 'x Agent =
  agMib :: "(snmpStats \<times> 'x) MIB"
  agCommunity :: string
  agStats :: snmpStats

record 'x agentEnv =
  evSort :: sorter
  evWorld :: 'x
  evSync :: "(snmpStats \<times> 'x) MIB \<Rightarrow> (snmpStats \<times> 'x) MIB"

datatype agentError = ErrNoSuchObject | ErrEndOfMIBView | ErrNotWritable | ErrInvalidValue

definition SNMPRetryCount :: int where "SNMPRetryCount = 10"

definition MaxOIDResultSize :: int where "MaxOIDResultSize = 50"

definition MaxBulkResponseBytes :: int where "MaxBulkResponseBytes = 1400"

definition counterValue :: "counter \<Rightarrow> snmpStats \<times> 'x \<Rightarrow> (snmpStats \<times> 'x) OIDValue option" where
  "counterValue c w = Some (OIDValue Counter32 (POther (itoa (uint (fst w c)))) None)"

definition authenTrapsValue :: "snmpStats \<times> 'x \<Rightarrow> (snmpStats \<times> 'x) OIDValue option" where
  "authenTrapsValue w = Some (OIDValue IntegerTag (PInt (uint (fst w EnableAuthenTraps))) None)"

definition initializeSNMPMIB :: "'x Agent \<Rightarrow> 'x Agent" where
  "initializeSNMPMIB a =
     a\<lparr>agStats := (agStats a)(EnableAuthenTraps := word_of_int authenticationTrapsOff),
       agMib := SetDynamic enableAuthenTrapsOID (Some authenTrapsValue)
         (foldl (\<lambda>m (i, c). SetDynamic (counterOID i) (Some (counterValue c)) m) (agMib a) (enumerate 1 snmpCounters))\<rparr>"

text \<open>The base as a request sees it, and the world its closures read.\<close>

definition syncDeviceStateMIBs :: "'x agentEnv \<Rightarrow> 'x Agent \<Rightarrow> 'x Agent" where
  "syncDeviceStateMIBs env a = a\<lparr>agMib := evSync env (agMib a)\<rparr>"

definition world :: "'x agentEnv \<Rightarrow> 'x Agent \<Rightarrow> snmpStats \<times> 'x" where
  "world env a = (agStats a, evWorld env)"

definition mibNext :: "'x agentEnv \<Rightarrow> string \<Rightarrow> 'x Agent \<Rightarrow> (string \<times> (snmpStats \<times> 'x) OIDValue option) reading \<times> 'x Agent" where
  "mibNext env oid a = (case GetNext (evSort env) (world env a) oid (agMib a) of (r, m) \<Rightarrow> (r, a\<lparr>agMib := m\<rparr>))"

definition HandleGet :: "'x agentEnv \<Rightarrow> string \<Rightarrow> 'x Agent \<Rightarrow> (agentError + (snmpStats \<times> 'x) OIDValue) reading \<times> 'x Agent" where
  "HandleGet env oid a0 =
     (let a = syncDeviceStateMIBs env a0 in
      (case Get (world env a) oid (agMib a) of
         NilDeref \<Rightarrow> NilDeref
       | Reads None \<Rightarrow> Reads (Inl ErrNoSuchObject)
       | Reads (Some value) \<Rightarrow> Reads (Inr value), a))"

definition HandleGetNext ::
  "'x agentEnv \<Rightarrow> string \<Rightarrow> 'x Agent \<Rightarrow> (agentError + string \<times> (snmpStats \<times> 'x) OIDValue) reading \<times> 'x Agent" where
  "HandleGetNext env oid a0 =
     (case mibNext env oid (syncDeviceStateMIBs env a0) of
        (NilDeref, a) \<Rightarrow> (NilDeref, a)
      | (Reads (nextOID, value), a) \<Rightarrow>
          (case value of
             None \<Rightarrow> (Reads (Inl ErrEndOfMIBView), a)
           | Some v \<Rightarrow> if nextOID = [] then (Reads (Inl ErrEndOfMIBView), a) else (Reads (Inr (nextOID, v)), a)))"

definition estimateVarbindSize :: "string \<Rightarrow> 'w OIDValue \<Rightarrow> int" where
  "estimateVarbindSize oid value =
     int (length oid) + 8 + (case ovValue value of PString s \<Rightarrow> int (length s) | PBytes b \<Rightarrow> int (length b) | _ \<Rightarrow> 16)"

text \<open>\<open>HandleGetBulk\<close>: one turn per repetition.\<close>

primrec bulkLoop ::
  "nat \<Rightarrow> 'x agentEnv \<Rightarrow> string \<Rightarrow> int \<Rightarrow> (string \<times> (snmpStats \<times> 'x) OIDValue) list \<Rightarrow> 'x Agent \<Rightarrow>
     (string \<times> (snmpStats \<times> 'x) OIDValue) list reading \<times> 'x Agent" where
  "bulkLoop 0 env currentOID budget results a = (Reads results, a)"
| "bulkLoop (Suc n) env currentOID budget results a =
     (case mibNext env currentOID a of
        (NilDeref, a1) \<Rightarrow> (NilDeref, a1)
      | (Reads (nextOID, value), a1) \<Rightarrow>
          (case value of
             None \<Rightarrow> (Reads results, a1)
           | Some v \<Rightarrow>
               if nextOID = [] then (Reads results, a1)
               else
                 let size = estimateVarbindSize nextOID v in
                 if results \<noteq> [] \<and> budget < size then (Reads results, a1)
                 else bulkLoop n env nextOID (budget - size) (results @ [(nextOID, v)]) a1))"

definition HandleGetBulk ::
  "'x agentEnv \<Rightarrow> string \<Rightarrow> int \<Rightarrow> 'x Agent \<Rightarrow> (string \<times> (snmpStats \<times> 'x) OIDValue) list reading \<times> 'x Agent" where
  "HandleGetBulk env oid maxRepetitions a = bulkLoop (nat maxRepetitions) env oid MaxBulkResponseBytes [] (syncDeviceStateMIBs env a)"

section \<open>Writing\<close>

definition snmpInteger :: "payload \<Rightarrow> int option" where
  "snmpInteger value = (case value of PInt n \<Rightarrow> Some n | _ \<Rightarrow> None)"

definition setEnableAuthenTraps :: "payload \<Rightarrow> 'x Agent \<Rightarrow> agentError option \<times> 'x Agent" where
  "setEnableAuthenTraps value a =
     (case snmpInteger value of
        None \<Rightarrow> (Some ErrInvalidValue, a)
      | Some enabled \<Rightarrow>
          if enabled \<noteq> authenticationTrapsOn \<and> enabled \<noteq> authenticationTrapsOff then (Some ErrInvalidValue, a)
          else (None, a\<lparr>agStats := (agStats a)(EnableAuthenTraps := word_of_int enabled)\<rparr>))"

definition SetOID :: "string \<Rightarrow> (snmpStats \<times> 'x) OIDValue \<Rightarrow> 'x Agent \<Rightarrow> agentError option \<times> 'x Agent" where
  "SetOID oid value a =
     (let oid = trimDot oid in
      if oid = enableAuthenTrapsOID then setEnableAuthenTraps (ovValue value) a
      else (None, a\<lparr>agMib := Set oid (Some value) (agMib a)\<rparr>))"

definition writeOID :: "string \<Rightarrow> payload \<Rightarrow> 'x Agent \<Rightarrow> agentError option \<times> 'x Agent" where
  "writeOID oid value a =
     (if trimDot oid \<noteq> enableAuthenTrapsOID then (Some ErrNotWritable, a) else setEnableAuthenTraps value a)"

definition RedactCommunityString :: "string \<Rightarrow> string" where
  "RedactCommunityString community =
     (if length community = 0 then ''[EMPTY]''
      else if length community \<le> 2 then ''**''
      else [community ! 0] @ replicate (length community - 2) (CHR ''*'') @ [community ! (length community - 1)])"

text \<open>The loop of \<open>processSetRequest\<close>: the position of the variable, the status and index so far.\<close>

primrec setLoop :: "nat \<Rightarrow> SNMPError \<times> 8 word \<Rightarrow> SnmpPDU list \<Rightarrow> 'x Agent \<Rightarrow> (SNMPError \<times> 8 word) \<times> 'x Agent" where
  "setLoop i st [] a = (st, a)"
| "setLoop i st (v # vs) a =
     (case writeOID (vbName v) (vbValue v) a of (err, a1) \<Rightarrow>
      setLoop (i + 1)
        (case err of
           None \<Rightarrow> st
         | Some e \<Rightarrow> if fst st \<noteq> NoError then st else (if e = ErrNotWritable then NotWritable else BadValue, word_of_nat (i + 1)))
        vs a1)"

definition processSetRequest :: "SnmpPDU list \<Rightarrow> 'x Agent \<Rightarrow> (SnmpPDU list \<times> SNMPError \<times> 8 word) \<times> 'x Agent" where
  "processSetRequest vars a = (case setLoop 0 (NoError, 0) vars a of ((status, index), a1) \<Rightarrow> ((vars, status, index), a1))"

section \<open>Reading\<close>

definition noBinding :: "string \<Rightarrow> int \<Rightarrow> SnmpPDU" where
  "noBinding name tag = \<lparr>vbName = name, vbType = tag, vbValue = nilValue\<rparr>"

definition valueBinding :: "string \<Rightarrow> 'w OIDValue \<Rightarrow> SnmpPDU" where
  "valueBinding name value = \<lparr>vbName = name, vbType = ovType value, vbValue = ovValue value\<rparr>"

primrec getLoop :: "'x agentEnv \<Rightarrow> SnmpPDU list \<Rightarrow> 'x Agent \<Rightarrow> SnmpPDU list reading \<times> 'x Agent" where
  "getLoop env [] a = (Reads [], a)"
| "getLoop env (v # vs) a =
     (case HandleGet env (vbName v) a of
        (NilDeref, a1) \<Rightarrow> (NilDeref, a1)
      | (Reads r, a1) \<Rightarrow>
          (case getLoop env vs a1 of
             (NilDeref, a2) \<Rightarrow> (NilDeref, a2)
           | (Reads bs, a2) \<Rightarrow>
               (Reads ((case r of Inl e \<Rightarrow> noBinding (vbName v) NoSuchObject | Inr value \<Rightarrow> valueBinding (vbName v) value) # bs), a2)))"

definition processGetRequest :: "'x agentEnv \<Rightarrow> SnmpPDU list \<Rightarrow> 'x Agent \<Rightarrow> SnmpPDU list reading \<times> 'x Agent" where
  "processGetRequest = getLoop"

primrec getNextLoop :: "'x agentEnv \<Rightarrow> SnmpPDU list \<Rightarrow> 'x Agent \<Rightarrow> SnmpPDU list reading \<times> 'x Agent" where
  "getNextLoop env [] a = (Reads [], a)"
| "getNextLoop env (v # vs) a =
     (case HandleGetNext env (vbName v) a of
        (NilDeref, a1) \<Rightarrow> (NilDeref, a1)
      | (Reads r, a1) \<Rightarrow>
          (case getNextLoop env vs a1 of
             (NilDeref, a2) \<Rightarrow> (NilDeref, a2)
           | (Reads bs, a2) \<Rightarrow>
               (Reads ((case r of Inl e \<Rightarrow> noBinding (vbName v) EndOfMibView | Inr (nextOID, value) \<Rightarrow> valueBinding nextOID value) # bs), a2)))"

definition processGetNextRequest :: "'x agentEnv \<Rightarrow> SnmpPDU list \<Rightarrow> 'x Agent \<Rightarrow> SnmpPDU list reading \<times> 'x Agent" where
  "processGetNextRequest = getNextLoop"

definition bulkBinding :: "string \<Rightarrow> string \<Rightarrow> 'w OIDValue option \<Rightarrow> SnmpPDU" where
  "bulkBinding requestedOID nextOID value =
     (case value of
        None \<Rightarrow> noBinding requestedOID EndOfMibView
      | Some v \<Rightarrow> if nextOID = [] then noBinding requestedOID EndOfMibView else valueBinding nextOID v)"

text \<open>The non-repeaters: the response and what is left of the budget.\<close>

primrec nonRepeaterLoop :: "'x agentEnv \<Rightarrow> SnmpPDU list \<Rightarrow> SnmpPDU list \<Rightarrow> int \<Rightarrow> 'x Agent \<Rightarrow> (SnmpPDU list \<times> int) reading \<times> 'x Agent" where
  "nonRepeaterLoop env [] response budget a = (Reads (response, budget), a)"
| "nonRepeaterLoop env (v # vs) response budget a =
     (case mibNext env (vbName v) a of
        (NilDeref, a1) \<Rightarrow> (NilDeref, a1)
      | (Reads (nextOID, value), a1) \<Rightarrow>
          nonRepeaterLoop env vs (response @ [bulkBinding (vbName v) nextOID value])
            (case value of None \<Rightarrow> budget | Some v \<Rightarrow> budget - estimateVarbindSize nextOID v) a1)"

text \<open>One repetition over the repeaters, each a cursor with its exhausted flag.  The result: whether the budget stopped it, whether a cursor moved,
  the response, the budget left, and the cursors.\<close>

type_synonym bulkRow = "bool \<times> bool \<times> SnmpPDU list \<times> int \<times> (string \<times> bool) list"

fun rowLoop ::
  "'x agentEnv \<Rightarrow> (string \<times> bool) list \<Rightarrow> (string \<times> bool) list \<Rightarrow> bool \<Rightarrow> SnmpPDU list \<Rightarrow> int \<Rightarrow> 'x Agent \<Rightarrow> bulkRow reading \<times> 'x Agent" where
  "rowLoop env cs [] progressed response budget a = (Reads (False, progressed, response, budget, cs), a)"
| "rowLoop env cs ((cursor, exhausted) # rest) progressed response budget a =
     (if exhausted then rowLoop env (cs @ [(cursor, True)]) rest progressed response budget a
      else case mibNext env cursor a of
        (NilDeref, a1) \<Rightarrow> (NilDeref, a1)
      | (Reads (nextOID, value), a1) \<Rightarrow>
          (case (if nextOID = [] then None else value) of
             None \<Rightarrow> rowLoop env (cs @ [(cursor, True)]) rest progressed (response @ [noBinding cursor EndOfMibView]) budget a1
           | Some v \<Rightarrow>
               let size = estimateVarbindSize nextOID v in
               if response \<noteq> [] \<and> budget < size then (Reads (True, progressed, response, budget, cs @ (cursor, False) # rest), a1)
               else rowLoop env (cs @ [(nextOID, False)]) rest True (response @ [bulkBinding cursor nextOID value]) (budget - size) a1))"

primrec rowsLoop :: "nat \<Rightarrow> 'x agentEnv \<Rightarrow> (string \<times> bool) list \<Rightarrow> SnmpPDU list \<Rightarrow> int \<Rightarrow> 'x Agent \<Rightarrow> SnmpPDU list reading \<times> 'x Agent" where
  "rowsLoop 0 env cs response budget a = (Reads response, a)"
| "rowsLoop (Suc n) env cs response budget a =
     (case rowLoop env [] cs False response budget a of
        (NilDeref, a1) \<Rightarrow> (NilDeref, a1)
      | (Reads (full, progressed, response1, budget1, cs1), a1) \<Rightarrow>
          if full \<or> \<not> progressed then (Reads response1, a1) else rowsLoop n env cs1 response1 budget1 a1)"

definition processGetBulk :: "'x agentEnv \<Rightarrow> SnmpPDU list \<Rightarrow> int \<Rightarrow> int \<Rightarrow> 'x Agent \<Rightarrow> SnmpPDU list reading \<times> 'x Agent" where
  "processGetBulk env vars nonRepeaters maxRepetitions a =
     (let n = nat (max 0 (min nonRepeaters (int (length vars)))) in
      case nonRepeaterLoop env (take n vars) [] MaxBulkResponseBytes (syncDeviceStateMIBs env a) of
        (NilDeref, a1) \<Rightarrow> (NilDeref, a1)
      | (Reads (response, budget), a1) \<Rightarrow>
          rowsLoop (nat maxRepetitions) env (map (\<lambda>v. (vbName v, False)) (drop n vars)) response budget a1)"

section \<open>Requests\<close>

definition unsupportedPDU :: "SnmpPDU list \<Rightarrow> SnmpPDU list" where
  "unsupportedPDU vars = [noBinding (case vars of [] \<Rightarrow> [] | v # _ \<Rightarrow> vbName v) NoSuchObject]"

definition ProcessPDU ::
  "'x agentEnv \<Rightarrow> PDUType \<Rightarrow> SnmpPDU list \<Rightarrow> int \<Rightarrow> 32 word \<Rightarrow> 'x Agent \<Rightarrow> SnmpPDU list reading \<times> 'x Agent" where
  "ProcessPDU env pduType vars nonRepeaters maxRepetitions a0 =
     (let a = a0\<lparr>agStats := recordInboundPDU pduType (length vars) (agStats a0)\<rparr> in
      case pduType of
        GetRequest \<Rightarrow> processGetRequest env vars a
      | GetNextRequest \<Rightarrow> processGetNextRequest env vars a
      | GetBulkRequest \<Rightarrow>
          let reps = (if uint maxRepetitions \<le> 0 then SNMPRetryCount else uint maxRepetitions) in
          processGetBulk env vars nonRepeaters (min reps MaxOIDResultSize) a
      | SetRequest \<Rightarrow> (case processSetRequest vars a of ((response, _), a1) \<Rightarrow> (Reads response, a1))
      | _ \<Rightarrow> (Reads (unsupportedPDU vars), a))"

definition setErrorForVersion :: "SNMPError \<Rightarrow> SnmpVersion \<Rightarrow> SNMPError" where
  "setErrorForVersion status version = (if status = NotWritable \<and> version = Version1 then NoSuchName else status)"

definition ProcessRequest :: "'x agentEnv \<Rightarrow> SnmpPacket \<Rightarrow> 'x Agent \<Rightarrow> (SnmpPDU list \<times> SNMPError \<times> 8 word) reading \<times> 'x Agent" where
  "ProcessRequest env request a =
     (if pkPDUType request = SetRequest then
        case processSetRequest (pkVariables request)
            (a\<lparr>agStats := recordInboundPDU (pkPDUType request) (length (pkVariables request)) (agStats a)\<rparr>) of
          ((variables, status, index), a1) \<Rightarrow> (Reads (variables, setErrorForVersion status (pkVersion request), index), a1)
      else case ProcessPDU env (pkPDUType request) (pkVariables request) (uint (pkNonRepeaters request)) (pkMaxRepetitions request) a of
        (NilDeref, a1) \<Rightarrow> (NilDeref, a1)
      | (Reads variables, a1) \<Rightarrow>
          (case find (\<lambda>(i, v). pkVersion request = Version1 \<and> (vbType v = NoSuchObject \<or> vbType v = EndOfMibView)) (enumerate 0 variables) of
             Some (i, _) \<Rightarrow> (Reads (pkVariables request, NoSuchName, word_of_nat (i + 1)), a1)
           | None \<Rightarrow> (Reads (variables, NoError, 0), a1)))"

section \<open>Datagrams (protocols/snmp.go, snmp\_agents.go)\<close>

text \<open>The version in a raw datagram, read without decoding it.\<close>

definition snmpPeekVersion :: "8 word list \<Rightarrow> SnmpVersion option" where
  "snmpPeekVersion payload =
     (if length payload < 2 \<or> payload ! 0 \<noteq> 0x30 then None
      else
        let first = uint (payload ! 1);
            cursor = (if 128 \<le> first then 1 + (1 + nat (first mod 128)) else 2) in
        if length payload \<le> cursor + 2 \<or> payload ! cursor \<noteq> 0x02 then None
        else if uint (payload ! (cursor + 1)) \<noteq> 1 \<or> length payload \<le> cursor + 2 then None
        else Some (let v = uint (payload ! (cursor + 2)) in
          if v = 0 then Version1 else if v = 1 then Version2c else if v = 3 then Version3 else UnknownVersion v))"

text \<open>A device's agents: a store of agents, the communities that name them, and the agent of SNMPv3 if the device speaks it.\<close>

record 'x snmpAgentGroup =
  gpStore :: "(nat, 'x Agent) gomap"
  gpAgents :: "(string, nat) gomap"
  gpV3Agent :: "nat option"

definition groupGet :: "string \<Rightarrow> 'x snmpAgentGroup \<Rightarrow> nat option" where
  "groupGet community g = map_of (gpAgents g) community"

text \<open>Without SNMPv3 the observer is whichever agent the map gives first; the choice is an argument.\<close>

definition observer :: "((string, nat) gomap \<Rightarrow> nat option) \<Rightarrow> 'x snmpAgentGroup \<Rightarrow> nat option" where
  "observer firstOf g = (case gpV3Agent g of Some n \<Rightarrow> Some n | None \<Rightarrow> firstOf (gpAgents g))"

definition onAgent :: "(snmpStats \<Rightarrow> snmpStats) \<Rightarrow> nat \<Rightarrow> 'x snmpAgentGroup \<Rightarrow> 'x snmpAgentGroup" where
  "onAgent record n g =
     (case map_of (gpStore g) n of
        None \<Rightarrow> g
      | Some a \<Rightarrow> g\<lparr>gpStore := gm_put n (a\<lparr>agStats := record (agStats a)\<rparr>) (gpStore g)\<rparr>)"

definition snmpAccessAllowed :: "Addr list \<Rightarrow> Addr \<Rightarrow> bool" where
  "snmpAccessAllowed accessList src \<longleftrightarrow> accessList = [] \<or> src \<in> set accessList \<and> src \<noteq> NoAddr"

definition findAgent :: "((string, nat) gomap \<Rightarrow> nat option) \<Rightarrow> Addr list \<Rightarrow> Addr \<Rightarrow> string \<Rightarrow> 'x snmpAgentGroup \<Rightarrow> nat option \<times> 'x snmpAgentGroup" where
  "findAgent firstOf accessList src community g =
     (if \<not> snmpAccessAllowed accessList src then
        (None, case groupGet community g of None \<Rightarrow> g | Some n \<Rightarrow> onAgent RecordBadCommunityUse n g)
      else case groupGet community g of
        Some n \<Rightarrow> (Some n, g)
      | None \<Rightarrow> (None, case observer firstOf g of None \<Rightarrow> g | Some n \<Rightarrow> onAgent RecordBadCommunityName n g))"

text \<open>What a device sends: the response packet, or nothing.  \<open>marshals\<close> says whether gosnmp can encode it, \<open>sends\<close> whether the frame went out.\<close>

definition responsePacket :: "SnmpPacket \<Rightarrow> SnmpPDU list \<Rightarrow> SNMPError \<Rightarrow> 8 word \<Rightarrow> SnmpPacket" where
  "responsePacket request vars status index = \<lparr>pkVersion = pkVersion request, pkCommunity = pkCommunity request, pkPDUType = GetResponse,
     pkRequestID = pkRequestID request, pkError = status, pkErrorIndex = index, pkVariables = vars, pkNonRepeaters = 0, pkMaxRepetitions = 0\<rparr>"

definition buildResponse :: "'x agentEnv \<Rightarrow> (SnmpPacket \<Rightarrow> bool) \<Rightarrow> SnmpPacket \<Rightarrow> 'x Agent \<Rightarrow> SnmpPacket option reading \<times> 'x Agent" where
  "buildResponse env marshals request a =
     (if pkVersion request \<noteq> Version1 \<and> pkVersion request \<noteq> Version2c then (Reads None, a)
      else case ProcessRequest env request a of
        (NilDeref, a1) \<Rightarrow> (NilDeref, a1)
      | (Reads (vars, status, index), a1) \<Rightarrow>
          let response = responsePacket request vars status index in (Reads (if marshals response then Some response else None), a1))"

definition processDeviceRequest ::
  "'x agentEnv \<Rightarrow> ((string, nat) gomap \<Rightarrow> nat option) \<Rightarrow> (SnmpPacket \<Rightarrow> bool) \<Rightarrow> (SnmpPacket \<Rightarrow> bool) \<Rightarrow> Addr list \<Rightarrow> Addr \<Rightarrow> SnmpPacket \<Rightarrow>
     'x snmpAgentGroup \<Rightarrow> SnmpPacket option reading \<times> 'x snmpAgentGroup" where
  "processDeviceRequest env firstOf marshals sends accessList src request g0 =
     (case findAgent firstOf accessList src (pkCommunity request) g0 of
        (None, g) \<Rightarrow> (Reads None, g)
      | (Some n, g) \<Rightarrow>
          (case map_of (gpStore g) n of
             None \<Rightarrow> (Reads None, g)
           | Some a \<Rightarrow>
               let a1 = a\<lparr>agStats := RecordInboundError (pkError request) (RecordInboundPacket (agStats a))\<rparr> in
               case buildResponse env marshals request a1 of
                 (NilDeref, a2) \<Rightarrow> (NilDeref, g\<lparr>gpStore := gm_put n a2 (gpStore g)\<rparr>)
               | (Reads None, a2) \<Rightarrow> (Reads None, g\<lparr>gpStore := gm_put n a2 (gpStore g)\<rparr>)
               | (Reads (Some response), a2) \<Rightarrow>
                   if sends response then
                     (Reads (Some response), g\<lparr>gpStore := gm_put n (a2\<lparr>agStats := RecordResponse (pkError response) (agStats a2)\<rparr>) (gpStore g)\<rparr>)
                   else (Reads None, g\<lparr>gpStore := gm_put n a2 (gpStore g)\<rparr>)))"

text \<open>The devices a datagram reaches, each its access list and its agents if it has any.\<close>

type_synonym 'x snmpDevice = "Addr list \<times> 'x snmpAgentGroup option"

definition recordForDevices ::
  "((string, nat) gomap \<Rightarrow> nat option) \<Rightarrow> (snmpStats \<Rightarrow> snmpStats) \<Rightarrow> 'x snmpDevice list \<Rightarrow> 'x snmpDevice list" where
  "recordForDevices firstOf record devices =
     map (\<lambda>(acl, group). (acl, map_option (\<lambda>g. case observer firstOf g of None \<Rightarrow> g | Some n \<Rightarrow> onAgent record n g) group)) devices"

primrec deviceLoop ::
  "'x agentEnv \<Rightarrow> ((string, nat) gomap \<Rightarrow> nat option) \<Rightarrow> (SnmpPacket \<Rightarrow> bool) \<Rightarrow> (SnmpPacket \<Rightarrow> bool) \<Rightarrow> Addr \<Rightarrow> SnmpPacket \<Rightarrow>
     'x snmpDevice list \<Rightarrow> SnmpPacket list reading \<times> 'x snmpDevice list" where
  "deviceLoop env firstOf marshals sends src request [] = (Reads [], [])"
| "deviceLoop env firstOf marshals sends src request (d # ds) =
     (case snd d of
        None \<Rightarrow>
          (case deviceLoop env firstOf marshals sends src request ds of (r, ds1) \<Rightarrow> (r, d # ds1))
      | Some g \<Rightarrow>
          (case processDeviceRequest env firstOf marshals sends (fst d) src request g of
             (NilDeref, g1) \<Rightarrow> (NilDeref, (fst d, Some g1) # ds)
           | (Reads answer, g1) \<Rightarrow>
               (case deviceLoop env firstOf marshals sends src request ds of
                  (NilDeref, ds1) \<Rightarrow> (NilDeref, (fst d, Some g1) # ds1)
                | (Reads answers, ds1) \<Rightarrow> (Reads (case answer of None \<Rightarrow> answers | Some p \<Rightarrow> p # answers), (fst d, Some g1) # ds1))))"

text \<open>\<open>decode\<close> is gosnmp's decoder; the path of SNMPv3 datagrams, which the USM engine handles, is the parameter \<open>handleV3\<close>.\<close>

definition handleDatagram ::
  "'x agentEnv \<Rightarrow> ((string, nat) gomap \<Rightarrow> nat option) \<Rightarrow> (8 word list \<Rightarrow> SnmpPacket option) \<Rightarrow> (SnmpPacket \<Rightarrow> bool) \<Rightarrow> (SnmpPacket \<Rightarrow> bool) \<Rightarrow>
     (8 word list \<Rightarrow> 'x snmpDevice list \<Rightarrow> SnmpPacket list reading \<times> 'x snmpDevice list) \<Rightarrow> Addr \<Rightarrow> 8 word list \<Rightarrow> 'x snmpDevice list \<Rightarrow>
     SnmpPacket list reading \<times> 'x snmpDevice list" where
  "handleDatagram env firstOf decode marshals sends handleV3 src payload devices =
     (if payload = [] then (Reads [], devices)
      else case snmpPeekVersion payload of
        Some Version3 \<Rightarrow> handleV3 payload devices
      | Some (UnknownVersion _) \<Rightarrow> (Reads [], recordForDevices firstOf RecordBadVersion devices)
      | _ \<Rightarrow>
          (case decode payload of
             None \<Rightarrow> (Reads [], recordForDevices firstOf RecordASNParseError devices)
           | Some request \<Rightarrow> deviceLoop env firstOf marshals sends src request devices))"

end
