(* ===== verification/Snmp_Answers.thy ===== *)
theory Snmp_Answers
  imports Snmp_Agent
begin

text \<open>
  What the SNMP agent answers.  A GET-BULK response is the row-major interleaving of walks, cut where the datagram budget ends (\<open>bulk_rows\<close>), so a manager
  that continues from the last identifier it was given sees the whole base (\<open>bulk_walk_complete\<close>); GET and GET-NEXT answer every variable
  in its place; SET changes nothing but the one writable object; and only a manager that is allowed and knows a community is answered.
\<close>

section \<open>A base that is ready to be read\<close>

definition served :: "sorter \<Rightarrow> 'w \<Rightarrow> 'w MIB \<Rightarrow> bool" where
  "served sf w m \<longleftrightarrow> mib_inv m \<and> sorts sf \<and> [] \<notin> mibKeys m \<and> inj_on parseOIDParts (mibKeys m) \<and>
     (\<forall>k \<in> mibKeys m. \<exists>e v. map_of (mbEntries m) k = Some e \<and> current w e = Reads (Some v))"

definition valueAt :: "'w \<Rightarrow> 'w MIB \<Rightarrow> string \<Rightarrow> 'w OIDValue" where
  "valueAt w m k =
     (case map_of (mbEntries m) k of
        Some e \<Rightarrow> (case current w e of Reads (Some v) \<Rightarrow> v | _ \<Rightarrow> OIDValue 0 nilValue None)
      | None \<Rightarrow> OIDValue 0 nilValue None)"

definition ready :: "'x agentEnv \<Rightarrow> 'x Agent \<Rightarrow> 'x Agent" where
  "ready env a = a\<lparr>agMib := Reindex (evSort env) (agMib a)\<rparr>"

text \<open>The identifiers a walk from \<open>oid\<close> visits.\<close>

definition path :: "'x agentEnv \<Rightarrow> 'x Agent \<Rightarrow> string \<Rightarrow> string list" where
  "path env a oid = oidsAbove oid (mbSorted (Reindex (evSort env) (agMib a)))"

abbreviation agentServed :: "'x agentEnv \<Rightarrow> 'x Agent \<Rightarrow> bool" where
  "agentServed env a \<equiv> served (evSort env) (world env a) (agMib a)"

abbreviation agentValue :: "'x agentEnv \<Rightarrow> 'x Agent \<Rightarrow> string \<Rightarrow> (snmpStats \<times> 'x) OIDValue" where
  "agentValue env a \<equiv> valueAt (world env a) (agMib a)"

lemma reindex_idem [simp]: "Reindex sf (Reindex sf m) = Reindex sf m"
  by (simp add: Reindex_def updateSortedList_def)

lemma ready_simps [simp]: "ready env (ready env a) = ready env a" "path env (ready env a) = path env a" "world env (ready env a) = world env a"
    "valueAt w (agMib (ready env a)) = valueAt w (agMib a)" "agStats (ready env a) = agStats a" "mbEntries (agMib (ready env a)) = mbEntries (agMib a)"
  by (simp_all add: ready_def path_def world_def valueAt_def fun_eq_iff)

lemma served_ready [simp]: "agentServed env a \<Longrightarrow> served (evSort env) (world env a) (agMib (ready env a))"
  by (simp add: served_def mib_inv_reindex mibKeys_def) (simp add: ready_def mib_inv_reindex world_def)

lemma path_keys: "agentServed env a \<Longrightarrow> set (path env a oid) \<subseteq> mibKeys (agMib a)"
  using mib_inv_reindex [of "evSort env" "agMib a"] mem_oidsAbove by (auto simp: served_def path_def index_ok_def mibKeys_def)

lemma path_step:
  assumes s: "agentServed env a" and k: "path env a oid = k # ks"
  shows "path env a k = ks"
proof -
  have "index_ok (Reindex (evSort env) (agMib a))" using s mib_inv_reindex by (auto simp: served_def)
  then show ?thesis
    using strict_head [of parseOIDParts "mbSorted (Reindex (evSort env) (agMib a))" "parseOIDParts oid" k ks] s k
    by (simp add: path_def oidsAbove_def served_def index_ok_def mibKeys_def)
qed

lemma mibNext_served:
  assumes s: "agentServed env a"
  shows "mibNext env oid a = (Reads (case path env a oid of [] \<Rightarrow> ([], None) | k # _ \<Rightarrow> (k, Some (agentValue env a k))), ready env a)"
proof -
  have g: "GetNext (evSort env) (world env a) oid (agMib a) =
      ((case path env a oid of [] \<Rightarrow> Reads ([], None)
        | k # _ \<Rightarrow> (case current (world env a) (the (map_of (mbEntries (agMib a)) k)) of NilDeref \<Rightarrow> NilDeref | Reads v \<Rightarrow> Reads (k, v))),
       Reindex (evSort env) (agMib a))"
    using s GetNext_eq [of "agMib a" "evSort env"] by (simp add: served_def path_def)
  show ?thesis
  proof (cases "path env a oid")
    case (Cons k ks)
    then have "k \<in> mibKeys (agMib a)" using path_keys [OF s, of oid] by auto
    then obtain e v where "map_of (mbEntries (agMib a)) k = Some e" "current (world env a) e = Reads (Some v)" using s by (auto simp: served_def)
    then show ?thesis using g Cons by (simp add: mibNext_def valueAt_def ready_def)
  qed (use g in \<open>simp add: mibNext_def ready_def\<close>)
qed

lemma path_ne: "agentServed env a \<Longrightarrow> path env a oid = k # ks \<Longrightarrow> k \<noteq> []"
  using path_keys [of env a oid] by (auto simp: served_def)

section \<open>Bulk reads\<close>

text \<open>The items of a response, with the size of those that count against the budget; and what of them fits.\<close>

type_synonym item = "SnmpPDU \<times> int option"

fun fit :: "bool \<Rightarrow> int \<Rightarrow> item list \<Rightarrow> SnmpPDU list" where
  "fit started budget [] = []"
| "fit started budget ((b, None) # xs) = b # fit True budget xs"
| "fit started budget ((b, Some n) # xs) = (if started \<and> budget < n then [] else b # fit True (budget - n) xs)"

definition cost :: "item list \<Rightarrow> int" where
  "cost xs = sum_list (map (\<lambda>x. case snd x of None \<Rightarrow> 0 | Some n \<Rightarrow> n) xs)"

definition fits :: "bool \<Rightarrow> int \<Rightarrow> item list \<Rightarrow> bool" where
  "fits started budget xs \<longleftrightarrow> length (fit started budget xs) = length xs"

definition valueItem :: "string \<Rightarrow> 'w OIDValue \<Rightarrow> item" where
  "valueItem k v = (valueBinding k v, Some (estimateVarbindSize k v))"

definition endItem :: "string \<Rightarrow> item" where
  "endItem cursor = (noBinding cursor EndOfMibView, None)"

text \<open>
  What the loops need of the base: its invariant, a sort that sorts, and no entry without a value object.  Texts with equal arcs and
  closures that return nothing are allowed.  The successor of an identifier is the first one of the sorted index with greater arcs, if it
  reads as a value; a closure that returns nothing ends the view there.
\<close>

definition indexed :: "'x agentEnv \<Rightarrow> 'x Agent \<Rightarrow> bool" where
  "indexed env a \<longleftrightarrow> mib_inv (agMib a) \<and> sorts (evSort env) \<and> no_nil (agMib a)"

definition successor :: "'x agentEnv \<Rightarrow> 'x Agent \<Rightarrow> string \<Rightarrow> (string \<times> (snmpStats \<times> 'x) OIDValue) option" where
  "successor env a oid =
     (case path env a oid of
        [] \<Rightarrow> None
      | k # _ \<Rightarrow> (case current (world env a) (the (map_of (mbEntries (agMib a)) k)) of Reads (Some v) \<Rightarrow> Some (k, v) | _ \<Rightarrow> None))"

text \<open>What a repeater contributes to a repetition: the walk along the successors, then one end of the view, then nothing.\<close>

fun column :: "'x agentEnv \<Rightarrow> 'x Agent \<Rightarrow> string \<Rightarrow> nat \<Rightarrow> item list" where
  "column env a oid 0 = [case successor env a oid of None \<Rightarrow> endItem oid | Some (k, v) \<Rightarrow> valueItem k v]"
| "column env a oid (Suc r) = (case successor env a oid of None \<Rightarrow> [] | Some (k, _) \<Rightarrow> column env a k r)"

definition bulkRows :: "'x agentEnv \<Rightarrow> 'x Agent \<Rightarrow> string list \<Rightarrow> nat \<Rightarrow> item list" where
  "bulkRows env a names n = concat (map (\<lambda>r. concat (map (\<lambda>oid. column env a oid r) names)) [0..<n])"

lemma ready_indexed [simp]: "indexed env a \<Longrightarrow> indexed env (ready env a)"
  using mib_inv_reindex [of "evSort env" "agMib a"] by (simp add: indexed_def no_nil_def) (simp add: ready_def)

lemma mibNext_successor:
  assumes "indexed env a"
  shows "\<exists>k v. mibNext env oid a = (Reads (k, v), ready env a) \<and>
    (case successor env a oid of None \<Rightarrow> v = None | Some (k', v') \<Rightarrow> k = k' \<and> v = Some v' \<and> k \<noteq> [])"
proof -
  have g: "GetNext (evSort env) (world env a) oid (agMib a) =
      ((case path env a oid of [] \<Rightarrow> Reads ([], None)
        | k # _ \<Rightarrow> (case current (world env a) (the (map_of (mbEntries (agMib a)) k)) of NilDeref \<Rightarrow> NilDeref | Reads v \<Rightarrow> Reads (k, v))),
       Reindex (evSort env) (agMib a))"
    using assms GetNext_eq [of "agMib a" "evSort env"] by (simp add: indexed_def path_def)
  show ?thesis
  proof (cases "path env a oid")
    case (Cons k ks)
    then have above: "k \<in> set (path env a oid)" by simp
    have "index_ok (Reindex (evSort env) (agMib a))" using assms mib_inv_reindex by (auto simp: indexed_def)
    with above have "k \<in> mibKeys (agMib a)" by (auto simp: path_def mem_oidsAbove index_ok_def mibKeys_def)
    then obtain e where e: "map_of (mbEntries (agMib a)) k = Some e" by (auto simp: mibKeys_def dest: weak_map_of_SomeI)
    obtain v where v: "current (world env a) e = Reads v" using no_nil_reads [OF _ e, of "world env a"] assms by (auto simp: indexed_def)
    have "parseOIDParts [] = []" by (simp add: parseOIDParts_def)
    then have "k \<noteq> []" using above by (auto simp: path_def mem_oidsAbove)
    then show ?thesis using g Cons e v by (auto simp: mibNext_def successor_def ready_def split: option.split)
  qed (use g in \<open>simp add: mibNext_def successor_def ready_def\<close>)
qed

lemma fit_le: "length (fit s b xs) \<le> length xs"
  by (induction s b xs rule: fit.induct) auto

lemma fits_simps [simp]: "fits s b []" "fits s b ((x, None) # xs) = fits True b xs"
  "fits s b ((x, Some n) # xs) \<longleftrightarrow> \<not> (s \<and> b < n) \<and> fits True (b - n) xs"
  by (auto simp: fits_def)

lemma cost_simps [simp]: "cost [] = 0" "cost ((x, None) # xs) = cost xs" "cost ((x, Some n) # xs) = n + cost xs" "cost (xs @ ys) = cost xs + cost ys"
  by (simp_all add: cost_def)

lemma fit_append: "fit s b (xs @ ys) = (if fits s b xs then map fst xs @ fit (s \<or> xs \<noteq> []) (b - cost xs) ys else fit s b xs)"
  by (induction s b xs rule: fit.induct) (auto simp: algebra_simps)

lemma fits_map: "fits s b xs \<Longrightarrow> fit s b xs = map fst xs"
  using fit_append [of s b xs "[]"] by simp

text \<open>A repeater's cursor: the item it gives next, and where it stands then.\<close>

definition cell :: "'x agentEnv \<Rightarrow> 'x Agent \<Rightarrow> string \<times> bool \<Rightarrow> item list" where
  "cell env a c = (if snd c then [] else column env a (fst c) 0)"

definition advance :: "'x agentEnv \<Rightarrow> 'x Agent \<Rightarrow> string \<times> bool \<Rightarrow> string \<times> bool" where
  "advance env a c = (if snd c then c else case successor env a (fst c) of None \<Rightarrow> (fst c, True) | Some (k, _) \<Rightarrow> (k, False))"

definition row :: "'x agentEnv \<Rightarrow> 'x Agent \<Rightarrow> (string \<times> bool) list \<Rightarrow> item list" where
  "row env a cs = concat (map (cell env a) cs)"

lemma ready_successor [simp]: "successor env (ready env a) = successor env a"
  unfolding successor_def ready_simps ..

lemma ready_column [simp]: "column env (ready env a) = column env a"
proof -
  have "column env (ready env a) oid r = column env a oid r" for oid r
    by (induction r arbitrary: oid) (simp_all split: option.split)
  then show ?thesis by (simp add: fun_eq_iff)
qed

lemma ready_views [simp]: "cell env (ready env a) = cell env a" "advance env (ready env a) = advance env a" "row env (ready env a) = row env a"
proof -
  show cell: "cell env (ready env a) = cell env a" by (simp add: fun_eq_iff cell_def)
  show "advance env (ready env a) = advance env a" "row env (ready env a) = row env a" by (simp_all add: fun_eq_iff advance_def row_def cell)
qed

lemma row_simps [simp]: "row env a [] = []" "row env a (c # cs) = cell env a c @ row env a cs"
  by (simp_all add: row_def)

lemma cursor_simps:
  "cell env a (cur, True) = []" "advance env a (cur, True) = (cur, True)"
  "successor env a cur = None \<Longrightarrow> cell env a (cur, False) = [endItem cur]" "successor env a cur = None \<Longrightarrow> advance env a (cur, False) = (cur, True)"
  "successor env a cur = Some (k, v) \<Longrightarrow> cell env a (cur, False) = [valueItem k v]"
  "successor env a cur = Some (k, v) \<Longrightarrow> advance env a (cur, False) = (k, False)"
  by (simp_all add: cell_def advance_def)

lemma bulkBinding_value: "k \<noteq> [] \<Longrightarrow> bulkBinding oid k (Some v) = valueBinding k v"
  by (simp add: bulkBinding_def)

lemma rowLoop_fits:
  "indexed env a \<Longrightarrow> fits (response \<noteq> []) budget (row env a cs) \<Longrightarrow>
     \<exists>a1 \<in> {a, ready env a}. rowLoop env past cs progressed response budget a =
       (Reads (False, progressed \<or> (\<exists>c \<in> set cs. \<not> snd (advance env a c)), response @ map fst (row env a cs), budget - cost (row env a cs),
          past @ map (advance env a) cs), a1)"
proof (induction cs arbitrary: past progressed response budget a)
  case (Cons c cs)
  obtain cur ex where c: "c = (cur, ex)" by (cases c)
  show ?case
  proof (cases ex)
    case True
    then show ?thesis using Cons.IH [OF Cons.prems(1), of response budget "past @ [(cur, True)]" progressed] Cons.prems(2)
      by (simp add: c cursor_simps)
  next
    case live: False
    obtain k v where nxt: "mibNext env cur a = (Reads (k, v), ready env a)"
      "case successor env a cur of None \<Rightarrow> v = None | Some (k', v') \<Rightarrow> k = k' \<and> v = Some v' \<and> k \<noteq> []"
      using mibNext_successor [OF Cons.prems(1), of cur] by blast
    show ?thesis
    proof (cases "successor env a cur")
      case None
      then show ?thesis
        using Cons.IH [of "ready env a" "response @ [noBinding cur EndOfMibView]" budget "past @ [(cur, True)]" progressed] Cons.prems live nxt
        by (simp add: c cursor_simps endItem_def)
    next
      case (Some s)
      then obtain k' v' where s: "successor env a cur = Some (k', v')" by (cases s) auto
      then have k: "k = k'" "v = Some v'" "k' \<noteq> []" using nxt(2) by auto
      let ?n = "estimateVarbindSize k' v'"
      show ?thesis
        using Cons.IH [of "ready env a" "response @ [valueBinding k' v']" "budget - ?n" "past @ [(k', False)]" True]
          Cons.prems live nxt(1) k
        by (simp add: c cursor_simps(5,6) [OF s] valueItem_def bulkBinding_value Let_def algebra_simps)
    qed
  qed
qed simp

lemma rowLoop_full:
  "indexed env a \<Longrightarrow> \<not> fits (response \<noteq> []) budget (row env a cs) \<Longrightarrow>
     \<exists>p b cs1. \<exists>a1 \<in> {a, ready env a}. rowLoop env past cs progressed response budget a = (Reads (True, p, response @ fit (response \<noteq> []) budget (row env a cs), b, cs1), a1)"
proof (induction cs arbitrary: past progressed response budget a)
  case (Cons c cs)
  obtain cur ex where c: "c = (cur, ex)" by (cases c)
  show ?case
  proof (cases ex)
    case True
    then show ?thesis using Cons.IH [OF Cons.prems(1), of response budget "past @ [(cur, True)]" progressed] Cons.prems(2)
      by (simp add: c cursor_simps)
  next
    case live: False
    obtain k v where nxt: "mibNext env cur a = (Reads (k, v), ready env a)"
      "case successor env a cur of None \<Rightarrow> v = None | Some (k', v') \<Rightarrow> k = k' \<and> v = Some v' \<and> k \<noteq> []"
      using mibNext_successor [OF Cons.prems(1), of cur] by blast
    show ?thesis
    proof (cases "successor env a cur")
      case None
      then show ?thesis
        using Cons.IH [of "ready env a" "response @ [noBinding cur EndOfMibView]" budget "past @ [(cur, True)]" progressed] Cons.prems live nxt
        by (auto simp: c cursor_simps endItem_def)
    next
      case (Some s)
      then obtain k' v' where s: "successor env a cur = Some (k', v')" by (cases s) auto
      then have k: "k = k'" "v = Some v'" "k' \<noteq> []" using nxt(2) by auto
      let ?n = "estimateVarbindSize k' v'"
      show ?thesis
        using Cons.IH [of "ready env a" "response @ [valueBinding k' v']" "budget - ?n" "past @ [(k', False)]" True]
          Cons.prems live nxt(1) k
        by (cases "response = []") (auto simp: c cursor_simps(5,6) [OF s] valueItem_def bulkBinding_value Let_def ex_disj_distrib)
    qed
  qed
qed simp

text \<open>The items of all repetitions.  A turn in which no cursor moves leaves every cursor exhausted, so nothing is lost by stopping there.\<close>

primrec rowItems :: "nat \<Rightarrow> 'x agentEnv \<Rightarrow> 'x Agent \<Rightarrow> (string \<times> bool) list \<Rightarrow> item list" where
  "rowItems 0 env a cs = []"
| "rowItems (Suc n) env a cs = row env a cs @ rowItems n env a (map (advance env a) cs)"

lemma rowItems_ready [simp]: "rowItems n env (ready env a) cs = rowItems n env a cs"
  by (induction n arbitrary: cs) simp_all

lemma row_exhausted: "\<forall>c \<in> set cs. snd c \<Longrightarrow> row env a cs = []"
  by (induction cs) (auto simp: cell_def)

lemma rowItems_exhausted: "\<forall>c \<in> set cs. snd c \<Longrightarrow> rowItems n env a cs = []"
proof (induction n arbitrary: cs)
  case (Suc n)
  then have "\<forall>c \<in> set (map (advance env a) cs). snd c" by (auto simp: advance_def)
  then show ?case using Suc by (simp add: row_exhausted)
qed simp

lemma rowsLoop_rows:
  "indexed env a \<Longrightarrow> \<exists>a1 \<in> {a, ready env a}. rowsLoop n env cs response budget a =
     (Reads (response @ fit (response \<noteq> []) budget (rowItems n env a cs)), a1)"
proof (induction n arbitrary: cs response budget a)
  case (Suc n)
  let ?row = "row env a cs" and ?moved = "\<exists>c \<in> set cs. \<not> snd (advance env a c)"
  show ?case
  proof (cases "fits (response \<noteq> []) budget ?row")
    case True
    from rowLoop_fits [OF Suc.prems True, of "[]" False]
    obtain a1 where a1: "a1 = a \<or> a1 = ready env a" and
      eq: "rowLoop env [] cs False response budget a = (Reads (False, ?moved, response @ map fst ?row, budget - cost ?row, map (advance env a) cs), a1)"
      by auto
    have "rowItems n env a (map (advance env a) cs) = []" if "\<not> ?moved" using that by (intro rowItems_exhausted) simp
    moreover have "\<exists>a2 \<in> {a, ready env a}. rowsLoop n env (map (advance env a) cs) (response @ map fst ?row) (budget - cost ?row) a1 =
        (Reads (response @ map fst ?row @ fit (response \<noteq> [] \<or> ?row \<noteq> []) (budget - cost ?row) (rowItems n env a (map (advance env a) cs))), a2)"
      using a1 Suc.IH [OF Suc.prems, of "map (advance env a) cs" "response @ map fst ?row" "budget - cost ?row"]
        Suc.IH [of "ready env a" "map (advance env a) cs" "response @ map fst ?row" "budget - cost ?row"] Suc.prems by auto
    ultimately show ?thesis using True a1 by (cases ?moved) (auto simp: eq fit_append fits_map)
  next
    case False
    from rowLoop_full [OF Suc.prems False, of "[]" False] False show ?thesis by (force simp: fit_append)
  qed
qed simp

lemma column_advance: "cell env a (((advance env a) ^^ r) (oid, False)) = column env a oid r"
proof (induction r arbitrary: oid)
  case (Suc r)
  show ?case
  proof (cases "successor env a oid")
    case None
    have "((advance env a) ^^ r) (oid, True) = (oid, True)" by (induction r) (simp_all add: cursor_simps)
    then show ?thesis using None by (simp add: funpow_Suc_right cursor_simps del: funpow.simps)
  next
    case (Some s)
    then obtain k v where "successor env a oid = Some (k, v)" by (cases s) auto
    then show ?thesis using Suc.IH [of k] by (simp add: funpow_Suc_right cursor_simps del: funpow.simps)
  qed
qed (simp add: cell_def)

lemma rowItems_iterate: "rowItems n env a cs = concat (map (\<lambda>r. row env a (map ((advance env a) ^^ r) cs)) [0..<n])"
proof (induction n arbitrary: cs)
  case (Suc n)
  have "[0..<Suc n] = 0 # map Suc [0..<n]" by (simp add: map_Suc_upt upt_conv_Cons)
  then show ?case using Suc [of "map (advance env a) cs"] by (simp add: o_def funpow_Suc_right del: funpow.simps(2) upt_Suc)
qed simp

lemma rowItems_bulkRows: "rowItems n env a (map (\<lambda>v :: SnmpPDU. (vbName v, False)) vs) = bulkRows env a (map vbName vs) n"
  by (simp add: rowItems_iterate bulkRows_def row_def o_def column_advance)

lemma nonRepeaterLoop_rows:
  "indexed env a \<Longrightarrow> \<exists>a1 \<in> {a, ready env a}. nonRepeaterLoop env vs response budget a =
     (Reads (response @ map fst (bulkRows env a (map vbName vs) 1), budget - cost (bulkRows env a (map vbName vs) 1)), a1)"
proof (induction vs arbitrary: response budget a)
  case (Cons v vs)
  have rows: "bulkRows env a (map vbName (v # vs)) 1 = column env a (vbName v) 0 @ bulkRows env a (map vbName vs) 1" by (simp add: bulkRows_def)
  have same: "bulkRows env (ready env a) = bulkRows env a" by (simp add: bulkRows_def fun_eq_iff)
  obtain k w where nxt: "mibNext env (vbName v) a = (Reads (k, w), ready env a)"
    "case successor env a (vbName v) of None \<Rightarrow> w = None | Some (k', v') \<Rightarrow> k = k' \<and> w = Some v' \<and> k \<noteq> []"
    using mibNext_successor [OF Cons.prems, of "vbName v"] by blast
  show ?case
  proof (cases "successor env a (vbName v)")
    case None
    then show ?thesis using Cons.IH [of "ready env a"] Cons.prems nxt unfolding rows by (simp add: same endItem_def bulkBinding_def)
  next
    case (Some s)
    then obtain k' v' where s: "successor env a (vbName v) = Some (k', v')" by (cases s) auto
    then have "k = k'" "w = Some v'" "k' \<noteq> []" using nxt(2) by auto
    then show ?thesis using Cons.IH [of "ready env a"] Cons.prems nxt(1) s unfolding rows
      by (simp add: same valueItem_def bulkBinding_value algebra_simps)
  qed
qed (simp add: bulkRows_def)

lemma processGetBulk_rows:
  fixes vars :: "SnmpPDU list" and nonRepeaters :: int and env :: "'x agentEnv"
  assumes "indexed env (syncDeviceStateMIBs env a)"
  defines "b \<equiv> syncDeviceStateMIBs env a" and "n \<equiv> nat (max 0 (min nonRepeaters (int (length vars))))"
  defines "first \<equiv> bulkRows env b (map vbName (take n vars)) 1"
  shows "\<exists>b1 \<in> {b, ready env b}. processGetBulk env vars nonRepeaters maxRepetitions a =
    (Reads (map fst first @
      fit (first \<noteq> []) (MaxBulkResponseBytes - cost first) (bulkRows env b (map vbName (drop n vars)) (nat maxRepetitions))), b1)"
proof -
  have s: "indexed env b" using assms(1) by (simp add: b_def)
  from nonRepeaterLoop_rows [OF s, of "take n vars" "[]" MaxBulkResponseBytes]
  obtain b1 where b1: "b1 = b \<or> b1 = ready env b" and eq: "nonRepeaterLoop env (take n vars) [] MaxBulkResponseBytes b =
      (Reads (map fst first, MaxBulkResponseBytes - cost first), b1)" by (auto simp: first_def)
  have "indexed env b1" "rowItems m env b1 cs = rowItems m env b cs" "ready env b1 = ready env b" for m cs using b1 s by auto
  with rowsLoop_rows [of env b1 "nat maxRepetitions" "map (\<lambda>v. (vbName v, False)) (drop n vars)" "map fst first" "MaxBulkResponseBytes - cost first"]
  show ?thesis using rowItems_bulkRows [of _ env b] eq b1 by (auto simp: processGetBulk_def Let_def b_def n_def)
qed

text \<open>C17 (bulk_rows): over a base in its invariant without nil entries, with whatever order its sort gives texts of equal arcs, the response to GET-BULK is the
  successors of the non-repeaters, then the walks of the repeaters interleaved repetition by repetition.  A walk follows the successors
  (the first identifier of the sorted index with greater arcs) and ends with one end-of-view binding under its last identifier, after
  the last one or where a closure returns nothing; the response stops at the first value of a repeater that does not fit what the earlier ones left of
  the budget, which the first binding of a response always does.\<close>

theorem bulk_rows:
  assumes "indexed env b" "b = syncDeviceStateMIBs env a" "n = nat (max 0 (min nonRepeaters (int (length vars))))"
    and "first = bulkRows env b (map vbName (take n vars)) 1"
  shows "fst (processGetBulk env vars nonRepeaters maxRepetitions a) =
    Reads (map fst first @
      fit (first \<noteq> []) (MaxBulkResponseBytes - cost first) (bulkRows env b (map vbName (drop n vars)) (nat maxRepetitions)))"
  using processGetBulk_rows [of env a vars nonRepeaters maxRepetitions] assms by auto

text \<open>Over a base whose objects all read and whose texts differ in their arcs, the walk is the rest of the sorted index.\<close>

lemma served_indexed: "agentServed env a \<Longrightarrow> indexed env a"
proof -
  assume s: "agentServed env a"
  have "snd e \<noteq> None" if "e \<in> set (mbEntries (agMib a))" for e
  proof -
    have "fst e \<in> mibKeys (agMib a)" using that by (auto simp: mibKeys_def)
    then obtain e' v where e': "map_of (mbEntries (agMib a)) (fst e) = Some e'" "current (world env a) e' = Reads (Some v)" using s by (auto simp: served_def)
    have "gm_wf (mbEntries (agMib a))" using s by (simp add: served_def mib_inv_def)
    then have "map_of (mbEntries (agMib a)) (fst e) = Some (snd e)" using that by (simp add: gm_wf_map_of_mem)
    with e'(1) have "current (world env a) (snd e) = Reads (Some v)" using e'(2) by simp
    then show ?thesis by (simp add: current_def split: option.splits)
  qed
  with s show ?thesis by (simp add: indexed_def served_def no_nil_def list_all_iff)
qed

lemma successor_served:
  assumes "agentServed env a"
  shows "successor env a oid = (case path env a oid of [] \<Rightarrow> None | k # _ \<Rightarrow> Some (k, agentValue env a k))"
proof (cases "path env a oid")
  case (Cons k ks)
  then have "k \<in> mibKeys (agMib a)" using path_keys [OF assms, of oid] by auto
  then obtain e v where "map_of (mbEntries (agMib a)) k = Some e" "current (world env a) e = Reads (Some v)" using assms by (auto simp: served_def)
  then show ?thesis using Cons by (simp add: successor_def valueAt_def)
qed (simp add: successor_def)

lemma column_served:
  "agentServed env a \<Longrightarrow> column env a oid r =
     (let ks = path env a oid in
      if r < length ks then [valueItem (ks ! r) (agentValue env a (ks ! r))]
      else if r = length ks then [endItem (last (oid # ks))]
      else [])"
proof (induction r arbitrary: oid)
  case 0
  then show ?case by (cases "path env a oid") (simp_all add: successor_served)
next
  case (Suc r)
  show ?case
  proof (cases "path env a oid")
    case (Cons k ks)
    then show ?thesis using Suc.IH [OF Suc.prems, of k] path_step [OF Suc.prems Cons] by (simp add: successor_served [OF Suc.prems] Let_def)
  qed (simp add: successor_served [OF Suc.prems])
qed

section \<open>A manager that walks\<close>

text \<open>A manager that repeats GET-BULK from the last identifier it was given, until a response ends the view.\<close>

primrec bulkWalk :: "nat \<Rightarrow> 'x agentEnv \<Rightarrow> 32 word \<Rightarrow> string \<Rightarrow> 'x Agent \<Rightarrow> string list" where
  "bulkWalk 0 env reps oid a = []"
| "bulkWalk (Suc f) env reps oid a =
     (case ProcessPDU env GetBulkRequest [noBinding oid 5] 0 reps a of
        (NilDeref, a1) \<Rightarrow> []
      | (Reads bs, a1) \<Rightarrow>
          let ks = map vbName (takeWhile (\<lambda>b. vbType b \<noteq> EndOfMibView) bs) in
          if ks = [] \<or> length ks < length bs then ks else ks @ bulkWalk f env reps (last ks) a1)"

text \<open>
  The device's state is settled: publishing it again changes nothing; and whatever the counters are, no two stored identifiers have the same arcs, none is
  empty, and every object can be read, with a type of its own.
\<close>

definition steady :: "'x agentEnv \<Rightarrow> 'x Agent \<Rightarrow> bool" where
  "steady env a \<longleftrightarrow> evSync env (agMib a) = agMib a \<and> evSync env (agMib (ready env a)) = agMib (ready env a) \<and>
     (\<forall>st. served (evSort env) (st, evWorld env) (agMib a)) \<and>
     (\<forall>st. \<forall>k \<in> mibKeys (agMib a). ovType (valueAt (st, evWorld env) (agMib a) k) \<notin> {NoSuchObject, EndOfMibView})"

lemma steady_sync: "steady env a \<Longrightarrow> syncDeviceStateMIBs env (a\<lparr>agStats := st\<rparr>) = a\<lparr>agStats := st\<rparr>"
  by (simp add: steady_def syncDeviceStateMIBs_def)

lemma steady_served: "steady env a \<Longrightarrow> agentServed env (a\<lparr>agStats := st\<rparr>)"
  by (simp add: steady_def world_def)

lemma stats_views [simp]: "path env (a\<lparr>agStats := st\<rparr>) = path env a" "ready env (a\<lparr>agStats := st\<rparr>) = (ready env a)\<lparr>agStats := st\<rparr>"
  by (simp_all add: fun_eq_iff path_def ready_def)

lemma steady_step: "steady env a \<Longrightarrow> steady env (a\<lparr>agStats := st\<rparr>) \<and> steady env ((ready env a)\<lparr>agStats := st\<rparr>)"
  using steady_served [of env a] served_ready [of env "a\<lparr>agStats := _\<rparr>"]
  by (auto simp: steady_def mibKeys_def world_def)

lemma fit_prefix: "\<exists>j \<le> length xs. fit s b xs = map fst (take j xs)"
proof (induction s b xs rule: fit.induct)
  case (2 started budget b xs)
  then obtain j where "j \<le> length xs" "fit True budget xs = map fst (take j xs)" by blast
  then show ?case by (intro exI [of _ "Suc j"]) simp
next
  case (3 started budget b n xs)
  show ?case
  proof (cases "started \<and> budget < n")
    case False
    with 3 obtain j where "j \<le> length xs" "fit True (budget - n) xs = map fst (take j xs)" by blast
    with False show ?thesis by (intro exI [of _ "Suc j"]) auto
  qed (intro exI [of _ 0], simp)
qed simp

lemma fit_first: "xs \<noteq> [] \<Longrightarrow> \<exists>j. 0 < j \<and> j \<le> length xs \<and> fit False b xs = map fst (take j xs)"
proof -
  assume xs: "xs \<noteq> []"
  then have "fit False b xs \<noteq> []" by (cases "(False, b, xs)" rule: fit.cases) auto
  with fit_prefix [of xs False b] show ?thesis by (auto intro: gr0I)
qed

lemma bulkRows_single:
  "agentServed env a \<Longrightarrow> bulkRows env a [oid] n = take n (map (\<lambda>k. valueItem k (agentValue env a k)) (path env a oid) @ [endItem (last (oid # path env a oid))])"
proof (induction n)
  case (Suc n)
  then show ?case by (simp add: bulkRows_def column_served Let_def take_Suc_conv_app_nth nth_append)
qed (simp add: bulkRows_def)

lemma path_drop: "agentServed env a \<Longrightarrow> m < length (path env a oid) \<Longrightarrow> path env a (path env a oid ! m) = drop (Suc m) (path env a oid)"
proof (induction m arbitrary: oid)
  case 0
  then show ?case using path_step by (cases "path env a oid") auto
next
  case (Suc m)
  then obtain k ks where k: "path env a oid = k # ks" by (cases "path env a oid") auto
  then show ?case using Suc.IH [OF Suc.prems(1), of k] Suc.prems path_step [OF Suc.prems(1) k] by simp
qed

text \<open>One request of the walk: a prefix of the path with at least its head, or the whole path and the end of the view.\<close>

lemma bulk_request:
  assumes "steady env a"
  shows "\<exists>m a1 items. 0 < m \<and> m \<le> Suc (length items) \<and> steady env a1 \<and> path env a1 = path env a \<and> map vbName items = path env a oid \<and>
    (\<forall>b \<in> set items. vbType b \<noteq> EndOfMibView) \<and>
    ProcessPDU env GetBulkRequest [noBinding oid 5] 0 reps a = (Reads (take m (items @ [noBinding (last (oid # path env a oid)) EndOfMibView])), a1)"
proof -
  let ?b = "a\<lparr>agStats := recordInboundPDU GetBulkRequest 1 (agStats a)\<rparr>"
  define N where "N = min (if uint reps \<le> 0 then SNMPRetryCount else uint reps) MaxOIDResultSize"
  let ?vals = "map (\<lambda>k. valueItem k (agentValue env ?b k)) (path env a oid)"
  let ?all = "?vals @ [endItem (last (oid # path env a oid))]"
  have n: "0 < nat N" unfolding N_def by (cases "uint reps \<le> 0") (simp_all add: SNMPRetryCount_def MaxOIDResultSize_def min_def not_le [symmetric])
  have sync: "syncDeviceStateMIBs env ?b = ?b" using steady_sync [OF assms(1)] .
  have rows: "bulkRows env ?b [oid] (nat N) = take (nat N) ?all" using bulkRows_single [OF steady_served [OF assms(1)]] by simp
  have "take (nat N) ?all \<noteq> []" using n by (auto simp: take_eq_Nil)
  from fit_first [OF this, of MaxBulkResponseBytes] obtain j where j: "0 < j" "j \<le> length (take (nat N) ?all)" "fit False MaxBulkResponseBytes (take (nat N) ?all) = map fst (take j (take (nat N) ?all))" by blast
  from processGetBulk_rows [of env ?b "[noBinding oid 5]" 0 N] served_indexed [OF steady_served [OF assms(1)]]
  obtain a1 where a1: "a1 = ?b \<or> a1 = ready env ?b" and
    eq: "processGetBulk env [noBinding oid 5] 0 N ?b = (Reads (map fst (take j (take (nat N) ?all))), a1)"
    using j(3) rows unfolding sync by (auto simp: noBinding_def bulkRows_def)
  have a1': "steady env a1" "path env a1 = path env a" using a1 steady_step [OF assms(1)] by (auto simp: fun_eq_iff)
  have served: "agentServed env a" using steady_served [OF assms, of "agStats a"] by simp
  have live: "\<forall>b \<in> set (map fst ?vals). vbType b \<noteq> EndOfMibView"
    using assms path_keys [OF served, of oid] by (auto simp: steady_def world_def valueItem_def valueBinding_def)
  have names: "map vbName (map fst ?vals) = path env a oid" by (simp add: o_def valueItem_def valueBinding_def)
  have "map fst (take j (take (nat N) ?all)) = take (min j (nat N)) (map fst ?vals @ [noBinding (last (oid # path env a oid)) EndOfMibView])"
    by (simp only: take_take take_map [symmetric] map_append list.map endItem_def fst_conv)
  moreover have "ProcessPDU env GetBulkRequest [noBinding oid 5] 0 reps a = processGetBulk env [noBinding oid 5] 0 N ?b"
    by (simp add: ProcessPDU_def Let_def N_def)
  ultimately have "ProcessPDU env GetBulkRequest [noBinding oid 5] 0 reps a =
      (Reads (take (min j (nat N)) (map fst ?vals @ [noBinding (last (oid # path env a oid)) EndOfMibView])), a1)"
    using eq by (simp only:)
  moreover have "0 < min j (nat N)" "min j (nat N) \<le> Suc (length (map fst ?vals))" using j(1,2) n by auto
  ultimately show ?thesis using a1' live names by blast
qed

lemma takeWhile_take: "\<forall>x \<in> set xs. P x \<Longrightarrow> takeWhile P (take m xs) = take m xs"
  by (metis in_set_takeD takeWhile_eq_all_conv)

lemma bulkWalk_path: "steady env a \<Longrightarrow> length (path env a oid) < f \<Longrightarrow> bulkWalk f env reps oid a = path env a oid"
proof (induction f arbitrary: oid a)
  case (Suc f)
  let ?ws = "path env a oid"
  from bulk_request [OF Suc.prems(1), of oid reps]
  obtain m a1 items where m: "0 < m" "m \<le> Suc (length items)" and a1: "steady env a1" "path env a1 = path env a" and names: "map vbName items = ?ws" and
    live: "\<forall>b \<in> set items. vbType b \<noteq> EndOfMibView" and
    eq: "ProcessPDU env GetBulkRequest [noBinding oid 5] 0 reps a = (Reads (take m (items @ [noBinding (last (oid # ?ws)) EndOfMibView])), a1)" by blast
  have served: "agentServed env a" using steady_served [OF Suc.prems(1), of "agStats a"] by simp
  have len: "length ?ws = length items" using names by (metis length_map)
  show ?case
  proof (cases "m = Suc (length items)")
    case True
    have "takeWhile (\<lambda>b. vbType b \<noteq> EndOfMibView) (items @ [noBinding (last (oid # ?ws)) EndOfMibView]) = items"
      using live by (simp add: takeWhile_append noBinding_def)
    then show ?thesis using True names len by (simp add: eq Let_def)
  next
    case False
    with m have le: "m \<le> length items" by simp
    then have tk: "take m (items @ [noBinding (last (oid # ?ws)) EndOfMibView]) = take m items" by simp
    have tw: "takeWhile (\<lambda>b. vbType b \<noteq> EndOfMibView) (take m items) = take m items" using live by (rule takeWhile_take)
    have nm: "map vbName (take m items) = take m ?ws" using names by (simp add: take_map [symmetric])
    have ne: "take m ?ws \<noteq> []" using le len m(1) by (cases ?ws) auto
    have walk: "bulkWalk (Suc f) env reps oid a = take m ?ws @ bulkWalk f env reps (last (take m ?ws)) a1"
      using ne le len by (simp add: eq tk tw nm Let_def del: take_eq_Nil)
    have "last (take m ?ws) = ?ws ! (m - 1)" using ne le len m(1) by (simp add: last_conv_nth)
    then have "path env a1 (last (take m ?ws)) = drop m ?ws"
      using path_drop [OF served, of "m - 1" oid] le len m(1) a1(2) by simp
    then show ?thesis using Suc.IH [OF a1(1), of "last (take m ?ws)"] Suc.prems(2) m(1) le len walk by simp
  qed
qed simp

lemma served_index:
  assumes "served sf w m"
  defines "xs \<equiv> mbSorted (Reindex sf m)"
  shows "set xs = mibKeys m" "distinct xs" "sorted (map parseOIDParts xs)" "inj_on parseOIDParts (set xs)"
proof -
  have "index_ok (Reindex sf m)" using assms(1) mib_inv_reindex by (auto simp: served_def)
  then show "set xs = mibKeys m" "distinct xs" "sorted (map parseOIDParts xs)" by (simp_all add: index_ok_def mibKeys_def xs_def)
  then show "inj_on parseOIDParts (set xs)" using assms(1) by (simp add: served_def)
qed

lemma path_set: "agentServed env a \<Longrightarrow> set (path env a oid) = {k \<in> mibKeys (agMib a). parseOIDParts oid < parseOIDParts k}"
  by (rule set_eqI) (simp only: path_def mem_oidsAbove served_index(1) mem_Collect_eq)

lemma path_increasing: "agentServed env a \<Longrightarrow> sorted_wrt (\<lambda>k l. parseOIDParts k < parseOIDParts l) (path env a oid)"
proof -
  assume s: "agentServed env a"
  let ?xs = "mbSorted (Reindex (evSort env) (agMib a))"
  have "distinct (map parseOIDParts ?xs)" using served_index [OF s] by (simp only: distinct_map simp_thms)
  then have "sorted_wrt (<) (map parseOIDParts ?xs)" using served_index(3) [OF s] by (simp only: strict_sorted_iff simp_thms)
  then show ?thesis unfolding sorted_wrt_map path_def oidsAbove_def by (rule sorted_wrt_filter)
qed

lemma path_length: "agentServed env a \<Longrightarrow> length (path env a oid) \<le> Count (agMib a)"
proof -
  assume s: "agentServed env a"
  let ?xs = "mbSorted (Reindex (evSort env) (agMib a))"
  have "length (path env a oid) \<le> length ?xs" by (simp add: path_def oidsAbove_def)
  also have "\<dots> = card (set ?xs)" using distinct_card [OF served_index(2) [OF s]] by simp
  also have "\<dots> = card (fst ` set (mbEntries (agMib a)))" using served_index(1) [OF s] by (simp only: mibKeys_def)
  also have "\<dots> \<le> card (set (mbEntries (agMib a)))" by (rule card_image_le) simp
  also have "\<dots> \<le> length (mbEntries (agMib a))" by (rule card_length)
  finally show ?thesis by (simp add: Count_def)
qed

text \<open>C18 (bulk_walk_complete): while the device's state is settled, no two stored texts have the same arcs, no empty identifier is stored, and every
  closure returns a value with a type of its own, a manager that asks for the objects after \<open>oid\<close> with GET-BULK and goes on from the
  last identifier it was given, whatever number of repetitions it asks for and however little of it fits a response, is given every
  identifier after \<open>oid\<close> exactly once, in increasing order, and then stops: more requests than there are objects are never needed.\<close>

theorem bulk_walk_complete:
  assumes "steady env a" "Count (agMib a) < f"
  shows "set (bulkWalk f env reps oid a) = {k \<in> mibKeys (agMib a). parseOIDParts oid < parseOIDParts k} \<and>
    sorted_wrt (\<lambda>k l. parseOIDParts k < parseOIDParts l) (bulkWalk f env reps oid a)"
proof -
  have "agentServed env a" using steady_served [OF assms(1), of "agStats a"] by simp
  note facts = path_set [OF this, of oid] path_increasing [OF this, of oid] path_length [OF this, of oid]
  have "bulkWalk f env reps oid a = path env a oid" using bulkWalk_path [OF assms(1), of oid f reps] assms(2) facts(3) by linarith
  with facts show ?thesis by (simp only: simp_thms)
qed

section \<open>An agent with two objects\<close>

definition exampleEnv :: "unit agentEnv" where
  "exampleEnv = \<lparr>evSort = sliceSort, evWorld = (), evSync = (\<lambda>m. m)\<rparr>"

definition exampleAgent :: "unit Agent" where
  "exampleAgent = \<lparr>agMib = SetDynamic enableAuthenTrapsOID (Some authenTrapsValue)
       (Set ''.1.3.6.1.2.1.1.5.0'' (Some (OIDValue 4 (PString ''core'') None)) NewMIB),
     agCommunity = ''public'', agStats = (\<lambda>_. 0)(EnableAuthenTraps := 2)\<rparr>"

lemma example_entries: "mbEntries (agMib exampleAgent) =
    [(''1.3.6.1.2.1.1.5.0'', Some (OIDValue 4 (PString ''core'') None)), (''1.3.6.1.2.1.11.30.0'', Some (OIDValue 0 (POther ''<nil>'') (Some authenTrapsValue)))]"
  by (simp add: exampleAgent_def Set_def SetDynamic_def NewMIB_def gm_put_def trimDot_def trimPrefix_def hasPrefix_def enableAuthenTrapsOID_def snmpGroup_def)

lemma example_keys: "mibKeys (agMib exampleAgent) = {''1.3.6.1.2.1.1.5.0'', ''1.3.6.1.2.1.11.30.0''}"
  by (simp add: mibKeys_def example_entries)

lemma example_arcs: "parseOIDParts ''1.3.6.1.2.1.1.5.0'' = [1, 3, 6, 1, 2, 1, 1, 5, 0]" "parseOIDParts ''1.3.6.1.2.1.11.30.0'' = [1, 3, 6, 1, 2, 1, 11, 30, 0]"
    "parseOIDParts ''1.3.6.1.2.1.11'' = [1, 3, 6, 1, 2, 1, 11]"
  by code_simp+

lemma example_inv: "mib_inv (agMib exampleAgent)"
  by (simp add: mib_inv_def exampleAgent_def SetDynamic_def Set_def NewMIB_def gm_wf_put del: gm_put.simps)

lemma example_current: "k \<in> mibKeys (agMib exampleAgent) \<Longrightarrow> \<exists>e v. map_of (mbEntries (agMib exampleAgent)) k = Some e \<and> current w e = Reads (Some v) \<and>
    ovType v \<notin> {NoSuchObject, EndOfMibView}"
  by (auto simp: example_keys example_entries current_def authenTrapsValue_def IntegerTag_def NoSuchObject_def EndOfMibView_def)

lemma example_served: "served sliceSort w (agMib exampleAgent)"
proof -
  have "[] \<notin> mibKeys (agMib exampleAgent)" "inj_on parseOIDParts (mibKeys (agMib exampleAgent))" by (simp_all add: example_keys example_arcs)
  then show ?thesis unfolding served_def using example_inv sliceSort_sorts example_current by blast
qed

lemma example_steady: "steady exampleEnv exampleAgent"
proof -
  have "ovType (valueAt w (agMib exampleAgent) k) \<notin> {NoSuchObject, EndOfMibView}" if "k \<in> mibKeys (agMib exampleAgent)" for w k
    using example_current [OF that, of w] by (auto simp: valueAt_def)
  then show ?thesis using example_served by (simp add: steady_def exampleEnv_def)
qed

theorem bulk_walk_complete_witness: "set (bulkWalk 3 exampleEnv 1 [] exampleAgent) = {''1.3.6.1.2.1.1.5.0'', ''1.3.6.1.2.1.11.30.0''}"
proof -
  have "Count (agMib exampleAgent) < 3" by (simp add: Count_def example_entries)
  then have "set (bulkWalk 3 exampleEnv 1 [] exampleAgent) = {k \<in> mibKeys (agMib exampleAgent). parseOIDParts [] < parseOIDParts k}"
    using bulk_walk_complete [OF example_steady, of 3 1 "[]"] by simp
  also have "\<dots> = {''1.3.6.1.2.1.1.5.0'', ''1.3.6.1.2.1.11.30.0''}"
    by (auto simp: example_keys example_arcs parseOIDParts_def [of "[]"])
  finally show ?thesis .
qed

lemma example_path: "path exampleEnv exampleAgent [] = [''1.3.6.1.2.1.1.5.0'', ''1.3.6.1.2.1.11.30.0'']"
  by code_simp

theorem bulk_rows_witness:
  "fst (processGetBulk exampleEnv [noBinding [] 5] 0 5 exampleAgent) =
     Reads [\<lparr>vbName = ''1.3.6.1.2.1.1.5.0'', vbType = 4, vbValue = PString ''core''\<rparr>,
       \<lparr>vbName = ''1.3.6.1.2.1.11.30.0'', vbType = 2, vbValue = PInt 2\<rparr>, \<lparr>vbName = ''1.3.6.1.2.1.11.30.0'', vbType = 0x82, vbValue = nilValue\<rparr>]"
proof -
  have sync: "syncDeviceStateMIBs exampleEnv exampleAgent = exampleAgent" by (simp add: syncDeviceStateMIBs_def exampleEnv_def)
  have srv: "agentServed exampleEnv exampleAgent" using example_served by (simp add: exampleEnv_def)
  have traps: "agStats exampleAgent EnableAuthenTraps = 2" by (simp add: exampleAgent_def)
  have vals: "agentValue exampleEnv exampleAgent ''1.3.6.1.2.1.1.5.0'' = OIDValue 4 (PString ''core'') None"
    "agentValue exampleEnv exampleAgent ''1.3.6.1.2.1.11.30.0'' = OIDValue 2 (PInt 2) None"
    by (simp_all add: valueAt_def example_entries current_def authenTrapsValue_def IntegerTag_def world_def traps)
  have "fst (processGetBulk exampleEnv [noBinding [] 5] 0 5 exampleAgent) = Reads (fit False MaxBulkResponseBytes (bulkRows exampleEnv exampleAgent [[]] 5))"
    using bulk_rows [OF served_indexed [OF srv] sync [symmetric] refl refl, where nonRepeaters = 0 and vars = "[noBinding [] 5]" and maxRepetitions = 5] by (simp add: bulkRows_def noBinding_def)
  then show ?thesis
    by (simp add: bulkRows_single [OF srv] example_path vals valueItem_def endItem_def valueBinding_def noBinding_def estimateVarbindSize_def MaxBulkResponseBytes_def EndOfMibView_def)
qed

text \<open>The budget bounds the repeaters only: two hundred non-repeaters, as many as a request may name, are all answered, with four times the bytes of
  the budget.\<close>

theorem bulk_budget_exceeded:
  "fst (processGetBulk exampleEnv (replicate 200 (noBinding [] 5)) 200 1 exampleAgent) =
     Reads (replicate 200 (valueBinding ''1.3.6.1.2.1.1.5.0'' (agentValue exampleEnv exampleAgent ''1.3.6.1.2.1.1.5.0''))) \<and>
   4 * MaxBulkResponseBytes < 200 * estimateVarbindSize ''1.3.6.1.2.1.1.5.0'' (agentValue exampleEnv exampleAgent ''1.3.6.1.2.1.1.5.0'')"
proof
  have sync: "syncDeviceStateMIBs exampleEnv exampleAgent = exampleAgent" by (simp add: syncDeviceStateMIBs_def exampleEnv_def)
  have srv: "agentServed exampleEnv exampleAgent" using example_served by (simp add: exampleEnv_def)
  have first: "bulkRows exampleEnv exampleAgent (replicate n []) 1 =
      replicate n (valueItem ''1.3.6.1.2.1.1.5.0'' (agentValue exampleEnv exampleAgent ''1.3.6.1.2.1.1.5.0''))" for n
    by (induction n) (simp_all add: bulkRows_def column_served [OF srv] example_path Let_def)
  show "fst (processGetBulk exampleEnv (replicate 200 (noBinding [] 5)) 200 1 exampleAgent) =
     Reads (replicate 200 (valueBinding ''1.3.6.1.2.1.1.5.0'' (agentValue exampleEnv exampleAgent ''1.3.6.1.2.1.1.5.0'')))"
    using processGetBulk_rows [of exampleEnv exampleAgent "replicate 200 (noBinding [] 5)" 200 1] served_indexed [OF srv] first [of 200]
    by (auto simp: sync noBinding_def valueItem_def bulkRows_def [of _ _ "[]"])
  show "4 * MaxBulkResponseBytes < 200 * estimateVarbindSize ''1.3.6.1.2.1.1.5.0'' (agentValue exampleEnv exampleAgent ''1.3.6.1.2.1.1.5.0'')"
    by (simp add: valueAt_def example_entries current_def estimateVarbindSize_def MaxBulkResponseBytes_def)
qed

end
