(* ===== verification/Snmp_Requests.thy ===== *)
theory Snmp_Requests
  imports Snmp_Answers
begin

text \<open>
  What a manager is told: a GET or GET-NEXT answers every variable in its place (\<open>request_answer\<close>), a SET changes the one writable object and
  nothing else (\<open>set_read_only\<close>), and only a manager that may ask and knows a community is answered at all (\<open>snmp_access\<close>).
\<close>

section \<open>GET and GET-NEXT\<close>

definition getAnswer :: "'x agentEnv \<Rightarrow> 'x Agent \<Rightarrow> SnmpPDU \<Rightarrow> SnmpPDU" where
  "getAnswer env a v =
     (if trimDot (vbName v) \<in> mibKeys (agMib a) then valueBinding (vbName v) (agentValue env a (trimDot (vbName v)))
      else noBinding (vbName v) NoSuchObject)"

definition nextAnswer :: "'x agentEnv \<Rightarrow> 'x Agent \<Rightarrow> SnmpPDU \<Rightarrow> SnmpPDU" where
  "nextAnswer env a v =
     (case path env a (vbName v) of [] \<Rightarrow> noBinding (vbName v) EndOfMibView | k # _ \<Rightarrow> valueBinding k (agentValue env a k))"

lemma steady_same: "steady env a \<Longrightarrow> syncDeviceStateMIBs env a = a" "steady env a \<Longrightarrow> agentServed env a"
  using steady_sync [of env a "agStats a"] steady_served [of env a "agStats a"] by simp_all

lemma steady_ready: "steady env a \<Longrightarrow> steady env (ready env a)"
  using steady_step [of env a "agStats a"] by (metis Agent.surjective Agent.update_convs(3) ready_simps(5))

lemma Get_served: "served sf w m \<Longrightarrow> Get w oid m = Reads (if trimDot oid \<in> mibKeys m then Some (valueAt w m (trimDot oid)) else None)"
proof (cases "trimDot oid \<in> mibKeys m")
  case True
  assume "served sf w m"
  with True obtain e v where "map_of (mbEntries m) (trimDot oid) = Some e" "current w e = Reads (Some v)" unfolding served_def by blast
  then show ?thesis using True by (simp add: Get_def valueAt_def)
next
  case False
  then have "map_of (mbEntries m) (trimDot oid) = None" by (simp add: map_of_eq_None_iff mibKeys_def)
  then show ?thesis using False by (simp add: Get_def)
qed

lemma getLoop_answers: "steady env a \<Longrightarrow> getLoop env vs a = (Reads (map (getAnswer env a) vs), a)"
proof (induction vs)
  case (Cons v vs)
  then show ?case
    using Get_served [OF steady_same(2) [OF Cons.prems], of "vbName v"] by (simp add: HandleGet_def steady_same(1) getAnswer_def)
qed simp

lemma nextAnswer_ready [simp]: "nextAnswer env (ready env a) = nextAnswer env a"
  by (simp add: nextAnswer_def fun_eq_iff split: list.splits)

lemma getNextLoop_answers: "steady env a \<Longrightarrow> \<exists>a1 \<in> {a, ready env a}. getNextLoop env vs a = (Reads (map (nextAnswer env a) vs), a1)"
proof (induction vs arbitrary: a)
  case (Cons v vs)
  note srv = steady_same(2) [OF Cons.prems]
  have "HandleGetNext env (vbName v) a =
      (Reads (case path env a (vbName v) of [] \<Rightarrow> Inl ErrEndOfMIBView | k # _ \<Rightarrow> Inr (k, agentValue env a k)), ready env a)"
    using mibNext_served [OF srv, of "vbName v"] path_ne [OF srv, of "vbName v"]
    by (auto simp: HandleGetNext_def steady_same(1) [OF Cons.prems] split: list.splits)
  with Cons.IH [OF steady_ready [OF Cons.prems]] show ?case by (auto simp: nextAnswer_def split: list.splits)
qed simp

text \<open>What a variable asks for is not there.\<close>

definition absent :: "PDUType \<Rightarrow> 'x Agent \<Rightarrow> SnmpPDU \<Rightarrow> bool" where
  "absent t a v \<longleftrightarrow>
     (if t = GetRequest then trimDot (vbName v) \<notin> mibKeys (agMib a)
      else \<not> (\<exists>k \<in> mibKeys (agMib a). parseOIDParts (vbName v) < parseOIDParts k))"

definition answer :: "PDUType \<Rightarrow> 'x agentEnv \<Rightarrow> 'x Agent \<Rightarrow> SnmpPDU \<Rightarrow> SnmpPDU" where
  "answer t = (if t = GetRequest then getAnswer else nextAnswer)"

lemma answer_missing:
  assumes "steady env a"
  shows "vbType (answer t env a v) = NoSuchObject \<or> vbType (answer t env a v) = EndOfMibView \<longleftrightarrow> absent t a v"
proof -
  have types: "ovType (agentValue env a k) \<notin> {NoSuchObject, EndOfMibView}" if "k \<in> mibKeys (agMib a)" for k
    using assms that unfolding steady_def world_def by blast
  show ?thesis
  proof (cases "t = GetRequest")
    case True
    then show ?thesis using types [of "trimDot (vbName v)"] by (auto simp: answer_def absent_def getAnswer_def valueBinding_def noBinding_def)
  next
    case False
    have keys: "set (path env a (vbName v)) = {k \<in> mibKeys (agMib a). parseOIDParts (vbName v) < parseOIDParts k}"
      using path_set [OF steady_same(2) [OF assms]] .
    show ?thesis
    proof (cases "path env a (vbName v)")
      case Nil
      then have "absent t a v" using keys False unfolding absent_def by auto
      then show ?thesis using Nil False by (simp add: answer_def nextAnswer_def noBinding_def)
    next
      case (Cons k ks)
      then have k: "k \<in> mibKeys (agMib a)" "parseOIDParts (vbName v) < parseOIDParts k" using keys by auto
      then have "\<not> absent t a v" using False unfolding absent_def by auto
      then show ?thesis using Cons False types [OF k(1)] by (simp add: answer_def nextAnswer_def valueBinding_def)
    qed
  qed
qed

lemma ProcessPDU_answers:
  fixes vars :: "SnmpPDU list"
  assumes "steady env a" "t = GetRequest \<or> t = GetNextRequest"
  defines "b \<equiv> a\<lparr>agStats := recordInboundPDU t (length vars) (agStats a)\<rparr>"
  shows "\<exists>b1. ProcessPDU env t vars n m a = (Reads (map (answer t env b) vars), b1)"
proof -
  have b: "steady env b" using steady_step [OF assms(1)] by (simp add: b_def)
  show ?thesis
    using assms(2) getLoop_answers [OF b, of vars] getNextLoop_answers [OF b, of vars]
    by (auto simp: ProcessPDU_def processGetRequest_def processGetNextRequest_def answer_def b_def [symmetric])
qed

lemma find_enumerate:
  "(case find (\<lambda>(i, x). P x) (enumerate n xs) of None \<Rightarrow> \<forall>x \<in> set xs. \<not> P x
    | Some (i, x) \<Rightarrow> \<exists>j < length xs. i = n + j \<and> x = xs ! j \<and> P (xs ! j) \<and> (\<forall>l < j. \<not> P (xs ! l)))"
proof (induction xs arbitrary: n)
  case (Cons x xs)
  show ?case
  proof (cases "P x")
    case False
    show ?thesis
    proof (cases "find (\<lambda>(i, x). P x) (enumerate (Suc n) xs)")
      case (Some p)
      with Cons.IH [of "Suc n"] obtain j where "j < length xs" "fst p = Suc n + j" "snd p = xs ! j" "P (xs ! j)" "\<forall>l < j. \<not> P (xs ! l)" by (auto split: prod.splits)
      then have "Suc j < length (x # xs) \<and> fst p = n + Suc j \<and> snd p = (x # xs) ! Suc j \<and> P ((x # xs) ! Suc j) \<and> (\<forall>l < Suc j. \<not> P ((x # xs) ! l))"
        using False by (auto simp: nth_Cons split: nat.splits)
      then show ?thesis using Some False by (auto split: prod.splits)
    qed (use Cons.IH [of "Suc n"] False in auto)
  qed auto
qed simp

text \<open>C19 (request_answer): while the device's state is settled, no two stored texts have the same arcs and every closure returns a value with a type of its own, the response to a GET or GET-NEXT has one binding per variable of the request, in its
  order: the object's value under the name that was asked for, or the next object and its value, or the exception for what is absent.
  A version 1 response has no exceptions: if anything is absent it is the request's own variables, with noSuchName and the position of
  the first absent one.\<close>

theorem request_answer:
  assumes "steady env a" "pkPDUType request = GetRequest \<or> pkPDUType request = GetNextRequest"
    and "b = a\<lparr>agStats := recordInboundPDU (pkPDUType request) (length (pkVariables request)) (agStats a)\<rparr>"
  shows "if pkVersion request = Version1 \<and> (\<exists>v \<in> set (pkVariables request). absent (pkPDUType request) a v)
    then \<exists>i < length (pkVariables request). absent (pkPDUType request) a (pkVariables request ! i) \<and>
      (\<forall>j < i. \<not> absent (pkPDUType request) a (pkVariables request ! j)) \<and>
      fst (ProcessRequest env request a) = Reads (pkVariables request, NoSuchName, word_of_nat (i + 1))
    else fst (ProcessRequest env request a) = Reads (map (answer (pkPDUType request) env b) (pkVariables request), NoError, 0)"
proof -
  let ?t = "pkPDUType request" and ?vs = "pkVariables request"
  let ?as = "map (answer ?t env b) ?vs"
  let ?P = "\<lambda>v :: SnmpPDU. pkVersion request = Version1 \<and> (vbType v = NoSuchObject \<or> vbType v = EndOfMibView)"
  have b: "steady env b" using steady_step [OF assms(1)] by (simp add: assms(3))
  have miss: "?P (answer ?t env b v) \<longleftrightarrow> pkVersion request = Version1 \<and> absent ?t a v" for v
    using answer_missing [OF b, of ?t v] by (simp add: absent_def assms(3))
  obtain b1 where "ProcessPDU env ?t ?vs (uint (pkNonRepeaters request)) (pkMaxRepetitions request) a = (Reads ?as, b1)"
    using ProcessPDU_answers [OF assms(1,2)] assms(3) by blast
  then have eq: "fst (ProcessRequest env request a) =
      (case find (\<lambda>(i, v). ?P v) (enumerate 0 ?as) of Some (i, _) \<Rightarrow> Reads (?vs, NoSuchName, word_of_nat (i + 1)) | None \<Rightarrow> Reads (?as, NoError, 0))"
    using assms(2) by (auto simp: ProcessRequest_def split: option.splits)
  show ?thesis
  proof (cases "find (\<lambda>(i, v). ?P v) (enumerate 0 ?as)")
    case None
    then have all: "\<forall>v \<in> set ?as. \<not> ?P v" using find_enumerate [where P = ?P and n = 0 and xs = ?as] by simp
    have "\<not> (pkVersion request = Version1 \<and> absent ?t a v)" if "v \<in> set ?vs" for v
      using all that miss [of v] by (simp only: ball_simps set_map) blast
    then show ?thesis using eq None by auto
  next
    case (Some p)
    then obtain i where i: "i < length ?vs" "fst p = i" "?P (?as ! i)" "\<forall>l < i. \<not> ?P (?as ! l)"
      using find_enumerate [where P = ?P and n = 0 and xs = ?as] by (auto split: prod.splits)
    have "pkVersion request = Version1" "absent ?t a (?vs ! i)" using i(1,3) miss by auto
    moreover have "\<not> absent ?t a (?vs ! l)" if "l < i" for l using i(1,4) miss [of "?vs ! l"] calculation(1) that by auto
    moreover have "fst (ProcessRequest env request a) = Reads (?vs, NoSuchName, word_of_nat (i + 1))" using eq Some i(2) by (auto split: prod.splits)
    ultimately show ?thesis using i(1) nth_mem by (metis (no_types, lifting))
  qed
qed

definition exampleRequest :: "SnmpVersion \<Rightarrow> PDUType \<Rightarrow> SnmpPDU list \<Rightarrow> SnmpPacket" where
  "exampleRequest version pduType vars = \<lparr>pkVersion = version, pkCommunity = ''public'', pkPDUType = pduType, pkRequestID = 7, pkError = NoError,
     pkErrorIndex = 0, pkVariables = vars, pkNonRepeaters = 0, pkMaxRepetitions = 0\<rparr>"

theorem request_answer_witness:
  "fst (ProcessRequest exampleEnv (exampleRequest Version1 GetRequest [noBinding ''.1.3.6.1.2.1.1.5.0'' 5, noBinding ''1.3.9'' 5]) exampleAgent) =
    Reads ([noBinding ''.1.3.6.1.2.1.1.5.0'' 5, noBinding ''1.3.9'' 5], NoSuchName, 2)"
proof -
  let ?v = "noBinding ''.1.3.6.1.2.1.1.5.0'' 5" and ?w = "noBinding ''1.3.9'' 5"
  let ?r = "exampleRequest Version1 GetRequest [?v, ?w]"
  have "trimDot ''1.3.9'' = ''1.3.9''" "trimDot ''.1.3.6.1.2.1.1.5.0'' = ''1.3.6.1.2.1.1.5.0''" by code_simp+
  then have absent: "absent GetRequest exampleAgent ?w" "\<not> absent GetRequest exampleAgent ?v" by (simp_all add: absent_def example_keys noBinding_def)
  have r: "pkPDUType ?r = GetRequest" "pkVersion ?r = Version1" "pkVariables ?r = [?v, ?w]" by (simp_all add: exampleRequest_def)
  obtain i where "i < Suc (Suc 0)" "absent GetRequest exampleAgent ([?v, ?w] ! i)" "fst (ProcessRequest exampleEnv ?r exampleAgent) = Reads ([?v, ?w], NoSuchName, 1 + word_of_nat i)"
    using request_answer [OF example_steady, of ?r] absent unfolding r by auto
  then show ?thesis using absent by (auto simp: less_Suc_eq)
qed

section \<open>SET\<close>

definition accepted :: "SnmpPDU \<Rightarrow> bool" where
  "accepted v \<longleftrightarrow> trimDot (vbName v) = enableAuthenTrapsOID \<and> vbValue v \<in> {PInt 1, PInt 2}"

definition writeTraps :: "snmpStats \<Rightarrow> SnmpPDU \<Rightarrow> snmpStats" where
  "writeTraps s v = s(EnableAuthenTraps := word_of_int (the (snmpInteger (vbValue v))))"

definition refusal :: "SnmpPDU \<Rightarrow> SNMPError" where
  "refusal v = (if trimDot (vbName v) = enableAuthenTrapsOID then BadValue else NotWritable)"

lemma writeOID_spec:
  "writeOID (vbName v) (vbValue v) a =
     (if accepted v then (None, a\<lparr>agStats := writeTraps (agStats a) v\<rparr>)
      else (Some (if trimDot (vbName v) = enableAuthenTrapsOID then ErrInvalidValue else ErrNotWritable), a))"
  by (auto simp: writeOID_def accepted_def writeTraps_def setEnableAuthenTraps_def snmpInteger_def authenticationTrapsOn_def
      authenticationTrapsOff_def split: payload.splits option.splits)

lemma setLoop_spec:
  "setLoop n st vars a =
     (if fst st \<noteq> NoError then st
      else case find (\<lambda>(i, v). \<not> accepted v) (enumerate n vars) of None \<Rightarrow> st | Some (i, v) \<Rightarrow> (refusal v, word_of_nat (i + 1)),
      a\<lparr>agStats := foldl writeTraps (agStats a) (filter accepted vars)\<rparr>)"
proof (induction vars arbitrary: n st a)
  case (Cons v vars)
  then show ?case by (cases "fst st = NoError") (auto simp: writeOID_spec refusal_def split: option.splits)
qed simp

text \<open>C20 (set_read_only): a SET echoes its variables and leaves the base and the community as they are; of the counters it changes those of SET requests
  and, for every variable that writes a legal value to snmpEnableAuthenTraps, that object, also when another variable is refused.  The status is
  noError exactly when every variable is such a write; else it and its index tell of the first that is not: badValue for a value the object does not
  take, notWritable (in version 1 noSuchName) for any other object.\<close>

theorem set_read_only:
  assumes "pkPDUType request = SetRequest" and "vars = pkVariables request"
  shows "\<exists>status index a1. ProcessRequest env request a = (Reads (vars, status, index), a1) \<and>
    agMib a1 = agMib a \<and> agCommunity a1 = agCommunity a \<and>
    agStats a1 = foldl writeTraps (recordInboundPDU SetRequest (length vars) (agStats a)) (filter accepted vars) \<and>
    (if \<forall>v \<in> set vars. accepted v then status = NoError \<and> index = 0
     else \<exists>i < length vars. \<not> accepted (vars ! i) \<and> (\<forall>j < i. accepted (vars ! j)) \<and> index = word_of_nat (i + 1) \<and>
       status = (if trimDot (vbName (vars ! i)) = enableAuthenTrapsOID then BadValue
         else if pkVersion request = Version1 then NoSuchName else NotWritable))"
proof -
  let ?f = "find (\<lambda>(i, v). \<not> accepted v) (enumerate 0 vars)"
  note first = find_enumerate [where P = "\<lambda>v. \<not> accepted v" and n = 0 and xs = vars]
  show ?thesis
  proof (cases ?f)
    case None
    then show ?thesis using first assms by (simp add: ProcessRequest_def processSetRequest_def setLoop_spec setErrorForVersion_def)
  next
    case (Some p)
    then obtain i where "i < length vars" "p = (i, vars ! i)" "\<not> accepted (vars ! i)" "\<forall>j < i. accepted (vars ! j)"
      using first by (cases p) auto
    then show ?thesis using Some assms nth_mem [of i vars]
      by (auto simp: ProcessRequest_def processSetRequest_def setLoop_spec setErrorForVersion_def refusal_def)
  qed
qed

theorem set_read_only_witness:
  "\<exists>status index a1. ProcessRequest exampleEnv (exampleRequest Version2c SetRequest
       [\<lparr>vbName = ''1.3.6.1.2.1.11.30.0'', vbType = 2, vbValue = PInt 1\<rparr>, \<lparr>vbName = ''1.3.9'', vbType = 2, vbValue = PInt 1\<rparr>]) exampleAgent =
     (Reads ([\<lparr>vbName = ''1.3.6.1.2.1.11.30.0'', vbType = 2, vbValue = PInt 1\<rparr>, \<lparr>vbName = ''1.3.9'', vbType = 2, vbValue = PInt 1\<rparr>], status, index), a1) \<and>
     status = NotWritable \<and> agMib a1 = agMib exampleAgent \<and> agStats a1 EnableAuthenTraps = 1"
proof -
  let ?v = "\<lparr>vbName = ''1.3.6.1.2.1.11.30.0'', vbType = 2, vbValue = PInt 1\<rparr>" and ?w = "\<lparr>vbName = ''1.3.9'', vbType = 2, vbValue = PInt 1\<rparr> :: SnmpPDU"
  have t: "trimDot ''1.3.6.1.2.1.11.30.0'' = enableAuthenTrapsOID" "trimDot ''1.3.9'' \<noteq> enableAuthenTrapsOID" by code_simp+
  have acc: "accepted ?v" "\<not> accepted ?w" by (simp_all add: accepted_def t)
  show ?thesis
    using set_read_only [of "exampleRequest Version2c SetRequest [?v, ?w]" "[?v, ?w]" exampleEnv exampleAgent] acc t
    by (auto simp: exampleRequest_def writeTraps_def snmpInteger_def less_Suc_eq)
qed

section \<open>Who is answered\<close>

definition entitled :: "Addr list \<Rightarrow> Addr \<Rightarrow> SnmpPacket \<Rightarrow> 'x snmpAgentGroup \<Rightarrow> bool" where
  "entitled accessList src request g \<longleftrightarrow> (accessList = [] \<or> src \<noteq> NoAddr \<and> src \<in> set accessList) \<and> pkCommunity request \<in> dom (map_of (gpAgents g)) \<and>
     pkVersion request \<in> {Version1, Version2c}"

text \<open>Only counters differ.\<close>

definition quiet :: "'x snmpAgentGroup \<Rightarrow> 'x snmpAgentGroup \<Rightarrow> bool" where
  "quiet g g1 \<longleftrightarrow> gpAgents g1 = gpAgents g \<and> gpV3Agent g1 = gpV3Agent g \<and>
     (\<forall>n. map_option (\<lambda>a. (agMib a, agCommunity a)) (map_of (gpStore g1) n) = map_option (\<lambda>a. (agMib a, agCommunity a)) (map_of (gpStore g) n))"

definition answersFor :: "'x agentEnv \<Rightarrow> SnmpPacket \<Rightarrow> 'x snmpAgentGroup \<Rightarrow> SnmpPacket \<Rightarrow> bool" where
  "answersFor env request g p \<longleftrightarrow> pkVersion p = pkVersion request \<and> pkCommunity p = pkCommunity request \<and> pkRequestID p = pkRequestID request \<and>
     pkPDUType p = GetResponse \<and>
     (\<exists>n a. map_of (gpAgents g) (pkCommunity request) = Some n \<and> map_of (gpStore g) n = Some a \<and>
        fst (ProcessRequest env request (a\<lparr>agStats := RecordInboundError (pkError request) (RecordInboundPacket (agStats a))\<rparr>)) =
          Reads (pkVariables p, pkError p, pkErrorIndex p))"

lemma quiet_refl [simp]: "quiet g g"
  by (simp add: quiet_def)

lemma quiet_onAgent [simp]: "quiet g (onAgent f n g)"
  by (simp add: quiet_def onAgent_def gm_simps split: option.splits)

lemma quiet_put: "map_of (gpStore g) n = Some a \<Longrightarrow> quiet g (g\<lparr>gpStore := gm_put n (a\<lparr>agStats := st\<rparr>) (gpStore g)\<rparr>)"
  by (simp add: quiet_def gm_simps)

lemma findAgent_spec:
  "findAgent firstOf acl src community g = (r, g1) \<Longrightarrow> quiet g g1 \<and> (r = None \<or> g1 = g \<and> r = map_of (gpAgents g) community \<and> snmpAccessAllowed acl src)"
  by (auto simp: findAgent_def groupGet_def split: if_splits option.splits)

lemma processDeviceRequest_access:
  assumes "processDeviceRequest env firstOf marshals sends acl src request g = (Reads r, g1)"
  shows "gpAgents g1 = gpAgents g \<and> gpV3Agent g1 = gpV3Agent g \<and>
    (if entitled acl src request g then \<forall>p. r = Some p \<longrightarrow> answersFor env request g p else r = None \<and> quiet g g1)"
proof -
  obtain n g0 where f: "findAgent firstOf acl src (pkCommunity request) g = (n, g0)" by fastforce
  note q = findAgent_spec [OF f]
  show ?thesis
  proof (cases n)
    case None
    then have "r = None" "g1 = g0" using assms f by (simp_all add: processDeviceRequest_def)
    then show ?thesis using q by (auto simp: quiet_def)
  next
    case (Some i)
    with q have g0: "g0 = g" and i: "map_of (gpAgents g) (pkCommunity request) = Some i" and ok: "snmpAccessAllowed acl src" by auto
    show ?thesis
    proof (cases "map_of (gpStore g) i")
      case None
      then have "r = None" "g1 = g" using assms f Some g0 by (simp_all add: processDeviceRequest_def)
      then show ?thesis by simp
    next
      case agent: (Some a)
      let ?a = "a\<lparr>agStats := RecordInboundError (pkError request) (RecordInboundPacket (agStats a))\<rparr>"
      show ?thesis
      proof (cases "pkVersion request \<in> {Version1, Version2c}")
        case False
        then have "r = None" "g1 = g\<lparr>gpStore := gm_put i ?a (gpStore g)\<rparr>"
          using assms f Some agent g0 by (auto simp: processDeviceRequest_def buildResponse_def Let_def)
        then show ?thesis using quiet_put [OF agent] False by (simp add: entitled_def)
      next
        case True
        then have "entitled acl src request g" using ok i by (auto simp: entitled_def snmpAccessAllowed_def)
        moreover have "gpAgents g1 = gpAgents g \<and> gpV3Agent g1 = gpV3Agent g \<and> (\<forall>p. r = Some p \<longrightarrow> answersFor env request g p)"
          using assms f Some agent g0 True i
          by (auto simp: processDeviceRequest_def buildResponse_def Let_def answersFor_def responsePacket_def
              split: prod.splits reading.splits option.splits if_splits)
        ultimately show ?thesis by simp
      qed
    qed
  qed
qed

definition visited :: "SnmpPacket option \<Rightarrow> Addr \<Rightarrow> 'x snmpDevice \<Rightarrow> 'x snmpDevice \<Rightarrow> bool" where
  "visited request src d d1 \<longleftrightarrow> fst d1 = fst d \<and>
     (case snd d of
        None \<Rightarrow> snd d1 = None
      | Some g \<Rightarrow> (\<exists>g1. snd d1 = Some g1 \<and> gpAgents g1 = gpAgents g \<and> gpV3Agent g1 = gpV3Agent g \<and>
          ((\<exists>r. request = Some r \<and> entitled (fst d) src r g) \<or> quiet g g1)))"

lemma deviceLoop_access:
  "deviceLoop env firstOf marshals sends src request devices = (Reads answers, devices1) \<Longrightarrow>
     list_all2 (visited (Some request) src) devices devices1 \<and>
     (\<forall>p \<in> set answers. \<exists>acl g. (acl, Some g) \<in> set devices \<and> entitled acl src request g \<and> answersFor env request g p)"
proof (induction devices arbitrary: answers devices1)
  case (Cons d ds)
  show ?case
  proof (cases "snd d")
    case None
    with Cons.prems obtain ds1 where l: "deviceLoop env firstOf marshals sends src request ds = (Reads answers, ds1)" "devices1 = d # ds1"
      by (auto split: prod.splits)
    have "visited (Some request) src d d" using None by (simp add: visited_def)
    then show ?thesis using Cons.IH [OF l(1)] l(2) by (simp, blast)
  next
    case (Some g)
    obtain r g1 where q: "processDeviceRequest env firstOf marshals sends (fst d) src request g = (r, g1)" by fastforce
    obtain rs ds1 where l: "deviceLoop env firstOf marshals sends src request ds = (rs, ds1)" by fastforce
    from Cons.prems Some q l obtain x xs where r: "r = Reads x" "rs = Reads xs" "devices1 = (fst d, Some g1) # ds1"
      "answers = (case x of None \<Rightarrow> xs | Some p \<Rightarrow> p # xs)" by (auto split: reading.splits)
    note dev = processDeviceRequest_access [OF q [unfolded r(1)]]
    note IH = Cons.IH [OF l [unfolded r(2)]]
    have "visited (Some request) src d (fst d, Some g1)" using dev Some by (auto simp: visited_def split: if_splits)
    moreover have "x = Some p \<Longrightarrow> entitled (fst d) src request g \<and> answersFor env request g p" for p using dev by (auto split: if_splits)
    moreover have "(fst d, Some g) \<in> set (d # ds)" using Some by (cases d) simp
    ultimately show ?thesis using IH r by (cases x) (simp, blast)+
  qed
qed simp

lemma recordForDevices_quiet: "list_all2 (visited request src) devices (recordForDevices firstOf f devices)"
  by (auto simp: recordForDevices_def visited_def list_all2_map2 list_all2_same quiet_def onAgent_def gm_simps split: option.splits)

text \<open>C10 (snmp_access): every answer to a datagram that is not SNMPv3 is for its decoded request: it comes from a device whose access list is empty or has the
  sender and that has an agent of the request's community, in version 1 or 2c, with the request's version, community and identifier and the agent's own
  result.  Every device keeps its access list and communities; one the sender is not entitled to ask changes counters only.\<close>

theorem snmp_access:
  assumes "handleDatagram env firstOf decode marshals sends handleV3 src payload devices = (Reads answers, devices1)"
    and "snmpPeekVersion payload \<noteq> Some Version3"
  shows "list_all2 (visited (decode payload) src) devices devices1 \<and>
    (\<forall>p \<in> set answers. \<exists>request acl g. decode payload = Some request \<and> (acl, Some g) \<in> set devices \<and> entitled acl src request g \<and>
       answersFor env request g p)"
proof -
  have same: "list_all2 (visited (decode payload) src) devices devices" by (auto simp: visited_def list_all2_same split: option.splits)
  consider "answers = []" "devices1 = devices" | f where "answers = []" "devices1 = recordForDevices firstOf f devices"
    | request where "decode payload = Some request" "deviceLoop env firstOf marshals sends src request devices = (Reads answers, devices1)"
    using assms by (auto simp: handleDatagram_def split: if_splits option.splits SnmpVersion.splits)
  then show ?thesis
  proof cases
    case (3 request)
    then show ?thesis using deviceLoop_access [OF 3(2)] by auto
  qed (use same recordForDevices_quiet in auto)
qed

definition exampleDevice :: "unit snmpDevice" where
  "exampleDevice = ([], Some \<lparr>gpStore = [(0, exampleAgent)], gpAgents = [(''public'', 0)], gpV3Agent = None\<rparr>)"

theorem snmp_access_witness:
  "\<exists>p d. handleDatagram exampleEnv (\<lambda>_. None) (\<lambda>_. Some (exampleRequest Version2c GetRequest [])) (\<lambda>_. True) (\<lambda>_. True) (\<lambda>_ ds. (Reads [], ds)) NoAddr [0]
      [exampleDevice] = (Reads [p], [d]) \<and> pkCommunity p = ''public'' \<and> pkVersion p = Version2c"
proof -
  let ?h = "handleDatagram exampleEnv (\<lambda>_. None) (\<lambda>_. Some (exampleRequest Version2c GetRequest [])) (\<lambda>_. True) (\<lambda>_. True) (\<lambda>_ ds. (Reads [], ds)) NoAddr [0] [exampleDevice]"
  have peek: "snmpPeekVersion [0] = None" by (simp add: snmpPeekVersion_def)
  have "\<exists>p d. ?h = (Reads [p], [d])"
    by (simp add: handleDatagram_def peek exampleDevice_def processDeviceRequest_def findAgent_def snmpAccessAllowed_def groupGet_def exampleRequest_def
        buildResponse_def ProcessRequest_def ProcessPDU_def processGetRequest_def Let_def)
  then obtain p d where h: "?h = (Reads [p], [d])" by blast
  from snmp_access [OF h] peek have "pkCommunity p = ''public'' \<and> pkVersion p = Version2c" by (auto simp: answersFor_def exampleRequest_def)
  with h show ?thesis by blast
qed

end
