(* ===== verification/Dns_Service.thy ===== *)
theory Dns_Service
  imports Go_Netip Go_Bytes Safeconv
begin

text \<open>
  The name service (\<open>internal/protocols/dns.go\<close>, \<open>dns\_resolver.go\<close>, \<open>dns\_forward.go\<close>, \<open>dns\_handler.go\<close>, \<open>dns\_fault.go\<close>, \<open>dns\_nbstat.go\<close>):
  the records of a handler and of its devices, the resolution of questions, the chain of forwarders, and NetBIOS status.

  A \<open>net.IP\<close> is the address it equals (\<open>NoAddr\<close> for nil; an IPv4-mapped address is its IPv4 address, as \<open>Equal\<close>, \<open>To4\<close> and \<open>String\<close> have it).  A device is
  named by a number, its pointer, and the record set of a device by its device.  What the stack, gopacket and the host's network decide are fields of
  \<open>dnsEnv\<close>: which addresses a device owns, armed faults, the frames, what a real resolver answers, and, as \<open>range\<close> over a map has no
  order, a rank of the devices for every time the map is ranged over.  Logging is left out.
\<close>

section \<open>Records (dns.go)\<close>

definition NoErr :: "8 word" where "NoErr = 0"

definition ServFail :: "8 word" where "ServFail = 2"

definition NXDomain :: "8 word" where "NXDomain = 3"

definition dnsDefaultTTL :: "32 word" where "dnsDefaultTTL = 300"

definition typeA :: "16 word" where "typeA = 1"

definition typePTR :: "16 word" where "typePTR = 12"

definition typeAAAA :: "16 word" where "typeAAAA = 28"

definition dnsTypeNBSTAT :: "16 word" where "dnsTypeNBSTAT = 33"

definition classIN :: "16 word" where "classIN = 1"

record dnsRecord =
  drIP :: Addr
  drTTL :: "32 word"
  drRcode :: "8 word"

record dnsPTR =
  dpName :: string
  dpTTL :: "32 word"
  dpRcode :: "8 word"

record dnsRecordSet =
  rsForward :: "(string, dnsRecord list) gomap"
  rsReverse :: "(string, dnsPTR) gomap"
  rsForwarders :: "Addr list"

text \<open>The configuration of a device, as far as names need it.\<close>

record recordSource =
  rcName :: string
  rcIP :: Addr
  rcTTL :: "32 word"
  rcRCode :: "64 word"

record dnsSource =
  dnForwardRecords :: "recordSource list"
  dnReverseRecords :: "recordSource list"
  dnForwarders :: "Addr list"

record NetBIOSName =
  nnName :: string
  nnSuffix :: "8 word"
  nnGroup :: bool

record NetBIOSConfig =
  nbName :: string
  nbNodeType :: string
  nbServices :: "string list"
  nbNames :: "NetBIOSName list"
  nbMsBrowse :: bool

record nameDevice =
  ndName :: string
  ndSysName :: string
  ndMAC :: bytes
  ndIPAddresses :: "Addr list"
  ndDNSConfig :: "dnsSource option"
  ndNetBIOSConfig :: "NetBIOSConfig option"

record DNSHandler =
  dhRecords :: "(string, dnsRecord list) gomap"
  dhPtrRecords :: "(string, dnsPTR) gomap"
  dhDeviceRecords :: "(nat, nameDevice \<times> dnsRecordSet) gomap"
  dhDomain :: string

definition ipString :: "Addr \<Rightarrow> string" where
  "ipString ip = (if ip = NoAddr then ''<nil>'' else addrString ip)"

definition hostKey :: "string \<Rightarrow> string" where
  "hostKey hostname = toLower (trimSuffix ''.'' hostname)"

definition NewDNSHandler :: DNSHandler where
  "NewDNSHandler = \<lparr>dhRecords = [], dhPtrRecords = [], dhDeviceRecords = [], dhDomain = ''local''\<rparr>"

definition Reset :: "DNSHandler \<Rightarrow> DNSHandler" where
  "Reset h = h\<lparr>dhRecords := [], dhPtrRecords := [], dhDeviceRecords := [], dhDomain := ''local''\<rparr>"

text \<open>\<open>m[k] = append(m[k], v)\<close>.\<close>

definition gm_append :: "string \<Rightarrow> 'v \<Rightarrow> (string, 'v list) gomap \<Rightarrow> (string, 'v list) gomap" where
  "gm_append k v m = gm_put k ((case map_of m k of None \<Rightarrow> [] | Some vs \<Rightarrow> vs) @ [v]) m"

definition AddRecordWithTTL :: "string \<Rightarrow> Addr \<Rightarrow> 32 word \<Rightarrow> 8 word \<Rightarrow> DNSHandler \<Rightarrow> DNSHandler" where
  "AddRecordWithTTL hostname ip ttl rcode h =
     (let hostname = hostKey hostname in
      h\<lparr>dhRecords := gm_append hostname \<lparr>drIP = ip, drTTL = ttl, drRcode = rcode\<rparr> (dhRecords h),
        dhPtrRecords := gm_put (ipString ip) \<lparr>dpName = hostname, dpTTL = ttl, dpRcode = rcode\<rparr> (dhPtrRecords h)\<rparr>)"

definition AddRecord :: "string \<Rightarrow> Addr \<Rightarrow> DNSHandler \<Rightarrow> DNSHandler" where
  "AddRecord hostname ip h = AddRecordWithTTL hostname ip dnsDefaultTTL NoErr h"

definition AddPTRRecord :: "Addr \<Rightarrow> string \<Rightarrow> 32 word \<Rightarrow> 8 word \<Rightarrow> DNSHandler \<Rightarrow> DNSHandler" where
  "AddPTRRecord ip hostname ttl rcode h =
     h\<lparr>dhPtrRecords := gm_put (ipString ip) \<lparr>dpName = hostKey hostname, dpTTL = ttl, dpRcode = rcode\<rparr> (dhPtrRecords h)\<rparr>"

definition SetDomain :: "string \<Rightarrow> DNSHandler \<Rightarrow> DNSHandler" where
  "SetDomain domain h = h\<lparr>dhDomain := domain\<rparr>"

definition LoadDeviceRecords :: "nameDevice list \<Rightarrow> DNSHandler \<Rightarrow> DNSHandler" where
  "LoadDeviceRecords devices h =
     foldl (\<lambda>h device.
        let hostname = (if ndSysName device = [] then ndName device else ndSysName device) in
        foldl (\<lambda>h ip. AddRecord hostname ip h) h (ndIPAddresses device)) h devices"

definition LoadDeviceDNSConfig :: "nat \<Rightarrow> nameDevice \<Rightarrow> DNSHandler \<Rightarrow> DNSHandler" where
  "LoadDeviceDNSConfig n device h =
     (case ndDNSConfig device of
        None \<Rightarrow> h
      | Some cfg \<Rightarrow>
          let forward = foldl (\<lambda>m rec. gm_append (hostKey (rcName rec))
                \<lparr>drIP = rcIP rec, drTTL = rcTTL rec, drRcode = DNSRCode (rcRCode rec)\<rparr> m) [] (dnForwardRecords cfg);
              reverse = foldl (\<lambda>m rec. gm_put (ipString (rcIP rec))
                \<lparr>dpName = hostKey (rcName rec), dpTTL = rcTTL rec, dpRcode = DNSRCode (rcRCode rec)\<rparr> m) [] (dnReverseRecords cfg) in
          h\<lparr>dhDeviceRecords := gm_put n (device, \<lparr>rsForward = forward, rsReverse = reverse, rsForwarders = dnForwarders cfg\<rparr>) (dhDeviceRecords h)\<rparr>)"

section \<open>Resolution (dns\_resolver.go)\<close>

record DNSQuestion =
  quName :: string
  quType :: "16 word"
  quClass :: "16 word"

record DNSResourceRecord =
  rrName :: string
  rrType :: "16 word"
  rrClass :: "16 word"
  rrTTL :: "32 word"
  rrIP :: Addr
  rrPTR :: string

type_synonym dnsResolveContext = "DNSResourceRecord list \<times> 8 word"

definition isValidDNSName :: "string \<Rightarrow> bool" where
  "isValidDNSName name \<longleftrightarrow> length name \<le> 255 \<and> list_all (\<lambda>label. length label \<le> 63) (splitAt CHR ''.'' name)"

definition wildcardRecords :: "(string, dnsRecord list) gomap \<Rightarrow> dnsRecord list" where
  "wildcardRecords forward = (case map_of forward ''*'' of Some recs \<Rightarrow> recs | None \<Rightarrow> [])"

definition lookupIn :: "string \<Rightarrow> string \<Rightarrow> (string, dnsRecord list) gomap \<Rightarrow> dnsRecord list" where
  "lookupIn hostname domain forward =
     (case map_of forward hostname of
        Some recs \<Rightarrow> recs
      | None \<Rightarrow>
          (case (if CHR ''.'' \<notin> set hostname then map_of forward (hostname @ ''.'' @ domain) else None) of
             Some recs \<Rightarrow> recs
           | None \<Rightarrow> wildcardRecords forward))"

definition lookupHost :: "DNSHandler \<Rightarrow> string \<Rightarrow> dnsRecordSet option \<Rightarrow> dnsRecord list" where
  "lookupHost h hostname set1 =
     lookupIn (hostKey hostname) (dhDomain h) (case set1 of Some rs \<Rightarrow> rsForward rs | None \<Rightarrow> dhRecords h)"

text \<open>The loop of \<open>resolveARecord\<close> and \<open>resolveAAAARecord\<close>, which differ in the records they pass over and in the type they answer.\<close>

definition addAddress :: "DNSQuestion \<Rightarrow> 16 word \<Rightarrow> (Addr \<Rightarrow> bool) \<Rightarrow> dnsResolveContext \<Rightarrow> dnsRecord \<Rightarrow> dnsResolveContext" where
  "addAddress q t wanted ctx rec =
     (if \<not> wanted (drIP rec) then ctx
      else (fst ctx @ [\<lparr>rrName = quName q, rrType = t, rrClass = classIN, rrTTL = drTTL rec, rrIP = drIP rec, rrPTR = []\<rparr>],
            if drRcode rec \<noteq> NoErr then drRcode rec else snd ctx))"

definition resolveARecord :: "DNSHandler \<Rightarrow> DNSQuestion \<Rightarrow> string \<Rightarrow> dnsRecordSet option \<Rightarrow> dnsResolveContext \<Rightarrow> dnsResolveContext" where
  "resolveARecord h q hostname set1 ctx = foldl (addAddress q typeA Is4) ctx (lookupHost h hostname set1)"

definition resolveAAAARecord :: "DNSHandler \<Rightarrow> DNSQuestion \<Rightarrow> string \<Rightarrow> dnsRecordSet option \<Rightarrow> dnsResolveContext \<Rightarrow> dnsResolveContext" where
  "resolveAAAARecord h q hostname set1 ctx = foldl (addAddress q typeAAAA (\<lambda>ip. \<not> Is4 ip \<and> ip \<noteq> NoAddr)) ctx (lookupHost h hostname set1)"

definition trimDots :: "string \<Rightarrow> string" where
  "trimDots s = rev (dropWhile (\<lambda>c. c = CHR ''.'') (rev (dropWhile (\<lambda>c. c = CHR ''.'') s)))"

definition hasSuffix :: "string \<Rightarrow> string \<Rightarrow> bool" where
  "hasSuffix p s \<longleftrightarrow> hasPrefix (rev p) (rev s)"

definition parseIPv4PTRName :: "string \<Rightarrow> Addr option" where
  "parseIPv4PTRName name =
     (let parts = splitAt CHR ''.'' (trimDots (trimSuffix ''.in-addr.arpa'' name)) in
      if length parts \<noteq> 4 then None
      else case map atoi (rev parts) of
        [Some a, Some b, Some c, Some d] \<Rightarrow>
          if list_all (\<lambda>v. 0 \<le> v \<and> v \<le> 255) [a, b, c, d] then Some (V4 (horner256 (map word_of_int [a, b, c, d]))) else None
      | _ \<Rightarrow> None)"

text \<open>\<open>hex.DecodeString\<close>.\<close>

fun hexDecode :: "string \<Rightarrow> bytes option" where
  "hexDecode [] = Some []"
| "hexDecode [c] = None"
| "hexDecode (c # d # s) =
     (case (hexval c, hexval d, hexDecode s) of
        (Some x, Some y, Some bs) \<Rightarrow> Some (word_of_nat (16 * x + y) # bs)
      | _ \<Rightarrow> None)"

definition parseIPv6PTRName :: "string \<Rightarrow> Addr option" where
  "parseIPv6PTRName name =
     (let nibbles = splitAt CHR ''.'' (trimDots (trimSuffix ''.ip6.arpa'' name)) in
      if length nibbles \<noteq> 32 \<or> \<not> list_all (\<lambda>v. length v = 1) nibbles then None
      else case hexDecode (concat (rev nibbles)) of
        None \<Rightarrow> None
      | Some data \<Rightarrow> if length data \<noteq> 16 then None else Some (Unmap (V6 (horner256 data) [])))"

text \<open>The address of a PTR name, whether it could be read, and whether it was an IPv6 name.\<close>

definition parsePTRName :: "string \<Rightarrow> Addr option \<times> bool" where
  "parsePTRName name =
     (let ptrName = hostKey name in
      if hasSuffix ''.in-addr.arpa'' ptrName then (parseIPv4PTRName ptrName, False)
      else if hasSuffix ''.ip6.arpa'' ptrName then (parseIPv6PTRName ptrName, True)
      else (None, False))"

definition lookupPTR :: "DNSHandler \<Rightarrow> Addr \<Rightarrow> dnsRecordSet option \<Rightarrow> dnsPTR option" where
  "lookupPTR h ip set1 = map_of (case set1 of Some rs \<Rightarrow> rsReverse rs | None \<Rightarrow> dhPtrRecords h) (ipString ip)"

definition resolvePTRRecord :: "DNSHandler \<Rightarrow> DNSQuestion \<Rightarrow> dnsRecordSet option \<Rightarrow> dnsResolveContext \<Rightarrow> dnsResolveContext" where
  "resolvePTRRecord h q set1 ctx =
     (case parsePTRName (quName q) of
        (None, _) \<Rightarrow> ctx
      | (Some ip, isV6) \<Rightarrow>
          (case lookupPTR h ip set1 of
             Some host \<Rightarrow>
               if dpName host = [] then (fst ctx, if isV6 then NXDomain else snd ctx)
               else
                 (fst ctx @ [\<lparr>rrName = quName q, rrType = typePTR, rrClass = classIN, rrTTL = dpTTL host, rrIP = NoAddr,
                    rrPTR = trimSuffix ''.'' (dpName host)\<rparr>],
                  if dpRcode host \<noteq> NoErr then dpRcode host else snd ctx)
           | None \<Rightarrow> (fst ctx, if isV6 then NXDomain else snd ctx)))"

definition resolveByType :: "DNSHandler \<Rightarrow> DNSQuestion \<Rightarrow> string \<Rightarrow> dnsRecordSet option \<Rightarrow> dnsResolveContext \<Rightarrow> dnsResolveContext" where
  "resolveByType h q hostname set1 ctx =
     (if quType q = typeA then resolveARecord h q hostname set1 ctx
      else if quType q = typeAAAA then resolveAAAARecord h q hostname set1 ctx
      else if quType q = typePTR then resolvePTRRecord h q set1 ctx
      else ctx)"

definition validateAndResolveQuestion :: "DNSHandler \<Rightarrow> dnsRecordSet option \<Rightarrow> dnsResolveContext \<Rightarrow> DNSQuestion \<Rightarrow> dnsResolveContext" where
  "validateAndResolveQuestion h set1 ctx q =
     (if \<not> isValidDNSName (quName q) then ctx else resolveByType h q (hostKey (quName q)) set1 ctx)"

definition resolveQuestions :: "DNSHandler \<Rightarrow> DNSQuestion list \<Rightarrow> dnsRecordSet option \<Rightarrow> DNSResourceRecord list \<times> 8 word" where
  "resolveQuestions h questions set1 =
     (let ctx = foldl (validateAndResolveQuestion h set1) ([], NoErr) questions in
      (fst ctx, if fst ctx = [] \<and> snd ctx = NoErr then NXDomain else snd ctx))"

section \<open>Forwarding (dns\_forward.go)\<close>

text \<open>\<open>simulatedResolver\<close>: the first device that owns the address, in the order the map is ranged over this time.\<close>

definition simulatedResolver :: "(nat \<Rightarrow> nat) \<Rightarrow> DNSHandler \<Rightarrow> Addr \<Rightarrow> (nat \<times> dnsRecordSet) option" where
  "simulatedResolver rank h address =
     map_option (\<lambda>(n, _, rs). (n, rs))
       (find (\<lambda>(n, device, rs). address \<in> set (ndIPAddresses device)) (sort_key (\<lambda>e. rank (fst e)) (dhDeviceRecords h)))"

text \<open>The loop of \<open>resolveForwarded\<close>: the times the map was ranged over, the visited sets, the forwarders still to ask, the real ones met.\<close>

function forwardLoop ::
  "(nat \<Rightarrow> nat \<Rightarrow> nat) \<Rightarrow> DNSHandler \<Rightarrow> DNSQuestion list \<Rightarrow> nat \<Rightarrow> nat list \<Rightarrow> Addr list \<Rightarrow> Addr list \<Rightarrow>
     DNSResourceRecord list \<times> 8 word \<times> Addr list" where
  "forwardLoop ranks h questions i visited [] upstreams = ([], NXDomain, upstreams)"
| "forwardLoop ranks h questions i visited (forwarder # pending) upstreams =
     (case simulatedResolver (ranks i) h forwarder of
        None \<Rightarrow> forwardLoop ranks h questions (Suc i) visited pending (upstreams @ [forwarder])
      | Some (n, rs) \<Rightarrow>
          if n \<in> set visited then forwardLoop ranks h questions (Suc i) visited pending upstreams
          else
            (case resolveQuestions h questions (Some rs) of (answers, rcode) \<Rightarrow>
               if answers \<noteq> [] \<or> rcode \<noteq> NXDomain then (answers, rcode, [])
               else forwardLoop ranks h questions (Suc i) (n # visited) (pending @ rsForwarders rs) upstreams))"
  by pat_completeness auto


lemma simulatedResolver_Some:
  assumes "simulatedResolver rank h address = Some (n, rs)"
  shows "\<exists>device. (n, device, rs) \<in> set (dhDeviceRecords h) \<and> address \<in> set (ndIPAddresses device)"
proof -
  obtain e where "find (\<lambda>(n, device, rs). address \<in> set (ndIPAddresses device)) (sort_key (\<lambda>e. rank (fst e)) (dhDeviceRecords h)) = Some e"
    and e: "(n, rs) = (case e of (n, _, rs) \<Rightarrow> (n, rs))"
    using assms by (auto simp: simulatedResolver_def)
  then obtain i where "i < length (dhDeviceRecords h)" "e = sort_key (\<lambda>e. rank (fst e)) (dhDeviceRecords h) ! i"
    "case e of (n, device, rs) \<Rightarrow> address \<in> set (ndIPAddresses device)" by (auto simp: find_Some_iff)
  then show ?thesis using e nth_mem [of i "sort_key (\<lambda>e. rank (fst e)) (dhDeviceRecords h)"] by auto
qed

termination forwardLoop
proof (relation "measures [\<lambda>(ranks, h, qs, i, visited, pending, ups). card (fst ` set (dhDeviceRecords h) - set visited),
    \<lambda>(ranks, h, qs, i, visited, pending, ups). length pending]", goal_cases)
  case (4 ranks h qs i visited forwarder pending ups e n rs r answers)
  then have "n \<in> fst ` set (dhDeviceRecords h)" using simulatedResolver_Some by (metis fst_conv image_eqI)
  then have "card (fst ` set (dhDeviceRecords h) - set (n # visited)) < card (fst ` set (dhDeviceRecords h) - set visited)"
    using 4 by (intro psubset_card_mono) auto
  then show ?case by simp
qed auto

definition resolveForwarded ::
  "(nat \<Rightarrow> nat \<Rightarrow> nat) \<Rightarrow> DNSHandler \<Rightarrow> DNSQuestion list \<Rightarrow> nat \<times> dnsRecordSet \<Rightarrow> DNSResourceRecord list \<times> 8 word \<times> Addr list" where
  "resolveForwarded ranks h questions set1 = forwardLoop ranks h questions 0 [fst set1] (rsForwarders (snd set1)) []"

record DNS =
  msID :: "16 word"
  msQR :: bool
  msOpCode :: "8 word"
  msAA :: bool
  msRD :: bool
  msRA :: bool
  msResponseCode :: "8 word"
  msQuestions :: "DNSQuestion list"
  msAnswers :: "DNSResourceRecord list"

record dnsEnv =
  deRanks :: "nat \<Rightarrow> nat \<Rightarrow> nat"
  deOwns :: "nat \<Rightarrow> Addr \<Rightarrow> bool"
  deTimeout :: "nat \<Rightarrow> bool"
  deNXDomain :: "nat \<Rightarrow> bool"
  deSlotFree :: bool
  deAsk :: "Addr \<Rightarrow> DNSQuestion list \<Rightarrow> DNS option"
  deEncodes :: "DNSResourceRecord \<Rightarrow> bool"
  deReachable :: "nat \<Rightarrow> bool"

definition dnsUnanswered :: "DNS \<Rightarrow> bool" where
  "dnsUnanswered response \<longleftrightarrow> msAnswers response = [] \<and> msResponseCode response = NXDomain"

primrec queryUpstreams :: "dnsEnv \<Rightarrow> Addr list \<Rightarrow> DNSQuestion list \<Rightarrow> DNS option" where
  "queryUpstreams env [] questions = None"
| "queryUpstreams env (upstream # upstreams) questions =
     (case deAsk env upstream questions of Some answer \<Rightarrow> Some answer | None \<Rightarrow> queryUpstreams env upstreams questions)"

definition encodableAnswers :: "dnsEnv \<Rightarrow> DNSResourceRecord list \<Rightarrow> DNSResourceRecord list" where
  "encodableAnswers env answers = filter (deEncodes env) answers"

text \<open>\<open>askUpstream\<close> with its exchange run to the end: the response that is given to \<open>reply\<close>.\<close>

definition askUpstream :: "dnsEnv \<Rightarrow> DNS \<Rightarrow> Addr list \<Rightarrow> DNS" where
  "askUpstream env response0 upstreams =
     (let response = response0\<lparr>msAA := False\<rparr> in
      if \<not> deSlotFree env then response\<lparr>msResponseCode := ServFail\<rparr>
      else case queryUpstreams env upstreams (msQuestions response) of
        None \<Rightarrow> response\<lparr>msResponseCode := ServFail\<rparr>
      | Some answer \<Rightarrow> response\<lparr>msAnswers := encodableAnswers env (msAnswers answer), msResponseCode := msResponseCode answer\<rparr>)"

definition applyNXDomainFault :: "dnsEnv \<Rightarrow> nat \<Rightarrow> DNS \<Rightarrow> DNS" where
  "applyNXDomainFault env serverDevice response =
     (if \<not> deNXDomain env serverDevice then response else response\<lparr>msAnswers := [], msResponseCode := NXDomain\<rparr>)"

definition getRecordSetForDevice :: "DNSHandler \<Rightarrow> nat \<Rightarrow> dnsRecordSet option" where
  "getRecordSetForDevice h dev = map_option snd (map_of (dhDeviceRecords h) dev)"

definition answerQuery :: "dnsEnv \<Rightarrow> DNSHandler \<Rightarrow> DNS \<Rightarrow> nat \<Rightarrow> DNS" where
  "answerQuery env h query serverDevice =
     (let set1 = getRecordSetForDevice h serverDevice;
          (answers, rcode) = resolveQuestions h (msQuestions query) set1;
          response = applyNXDomainFault env serverDevice
            \<lparr>msID = msID query, msQR = True, msOpCode = msOpCode query, msAA = True, msRD = msRD query, msRA = True,
             msResponseCode = rcode, msQuestions = msQuestions query, msAnswers = answers\<rparr> in
      case set1 of
        None \<Rightarrow> response
      | Some rs \<Rightarrow>
          if \<not> dnsUnanswered response \<or> rsForwarders rs = [] \<or> deNXDomain env serverDevice then response
          else case resolveForwarded (deRanks env) h (msQuestions query) (serverDevice, rs) of (answers, rcode, upstreams) \<Rightarrow>
            if upstreams = [] then response\<lparr>msAA := answers = [], msAnswers := answers, msResponseCode := rcode\<rparr>
            else askUpstream env response upstreams)"

section \<open>Serving a query (dns\_handler.go)\<close>

definition deviceHasDNSRecords :: "DNSHandler \<Rightarrow> nat \<Rightarrow> nameDevice \<Rightarrow> bool" where
  "deviceHasDNSRecords h n dev \<longleftrightarrow> gm_has (dhDeviceRecords h) n \<or> ndDNSConfig dev \<noteq> None \<or> ndDNSConfig dev = None \<and> dhRecords h \<noteq> []"

definition pickIPAddressForDNS :: "nameDevice \<Rightarrow> bool \<Rightarrow> Addr" where
  "pickIPAddressForDNS device wantIPv6 =
     (case find (\<lambda>ip. if wantIPv6 then \<not> Is4 ip \<and> ip \<noteq> NoAddr else Is4 ip) (ndIPAddresses device) of Some ip \<Rightarrow> ip | None \<Rightarrow> NoAddr)"

definition pickServerIP :: "dnsEnv \<Rightarrow> nat \<Rightarrow> nameDevice \<Rightarrow> bool \<Rightarrow> Addr \<Rightarrow> Addr" where
  "pickServerIP env n device wantIPv6 targetIP =
     (if targetIP \<noteq> NoAddr \<and> \<not> wantIPv6 \<and> Is4 targetIP \<and> deOwns env n targetIP then targetIP
      else if targetIP \<noteq> NoAddr \<and> wantIPv6 \<and> deOwns env n targetIP then targetIP
      else pickIPAddressForDNS device wantIPv6)"

primrec selectServerDevice :: "dnsEnv \<Rightarrow> DNSHandler \<Rightarrow> bool \<Rightarrow> Addr \<Rightarrow> (nat \<times> nameDevice) list \<Rightarrow> (nat \<times> nameDevice \<times> Addr) option" where
  "selectServerDevice env h wantIPv6 targetIP [] = None"
| "selectServerDevice env h wantIPv6 targetIP (d # ds) =
     (case d of (n, dev) \<Rightarrow>
        let ip = pickServerIP env n dev wantIPv6 targetIP in
        if \<not> deviceHasDNSRecords h n dev \<or> ip = NoAddr \<or> ndMAC dev = [] then selectServerDevice env h wantIPv6 targetIP ds
        else Some (n, dev, ip))"

section \<open>NetBIOS status (dns\_nbstat.go)\<close>

record nbstatNameEntry =
  neName :: string
  neSuffix :: "8 word"
  neGroup :: bool

definition charBytes :: "string \<Rightarrow> bytes" where
  "charBytes s = map (\<lambda>c. of_char c) s"

definition decodePair :: "char \<Rightarrow> char \<Rightarrow> char option" where
  "decodePair c d =
     (let hi = (of_char c :: 8 word) - 65; lo = (of_char d :: 8 word) - 65 in
      if 15 < hi \<or> 15 < lo then None else Some (char_of (unat (push_bit 4 hi OR lo))))"

fun decodePairs :: "string \<Rightarrow> string option" where
  "decodePairs (c # d # s) =
     (case decodePair c d of None \<Rightarrow> None | Some x \<Rightarrow> map_option ((#) x) (decodePairs s))"
| "decodePairs _ = Some []"

definition decodeNBSTATService :: "string \<Rightarrow> string" where
  "decodeNBSTATService name =
     (let base = takeWhile (\<lambda>c. c \<noteq> CHR ''.'') (trimSuffix ''.'' name) in
      if length base < 2 then [] else case decodePairs base of None \<Rightarrow> [] | Some decoded \<Rightarrow> decoded)"

definition isNBSTATServiceSupported :: "string \<Rightarrow> nameDevice \<Rightarrow> bool" where
  "isNBSTATServiceSupported service device =
     (case ndNetBIOSConfig device of
        None \<Rightarrow> False
      | Some cfg \<Rightarrow>
          if service = CHR ''*'' # replicate 15 (CHR 0x00) then True
          else if service = [CHR 0x01, CHR 0x02] @ ''__MSBROWSE__'' @ [CHR 0x02, CHR 0x01] then nbMsBrowse cfg
          else False)"

definition msBrowseEntry :: nbstatNameEntry where
  "msBrowseEntry = \<lparr>neName = ''__MSBROWSE__'', neSuffix = 0x01, neGroup = True\<rparr>"

definition serviceEntries :: "string \<Rightarrow> string \<Rightarrow> nbstatNameEntry list" where
  "serviceEntries baseName svc =
     (let s = toLower svc in
      if s = ''workstation'' then [\<lparr>neName = baseName, neSuffix = 0x00, neGroup = False\<rparr>]
      else if s = ''messenger'' then [\<lparr>neName = baseName, neSuffix = 0x03, neGroup = False\<rparr>]
      else if s = ''fileserver'' then [\<lparr>neName = baseName, neSuffix = 0x20, neGroup = False\<rparr>]
      else if s = ''domainmaster'' then [\<lparr>neName = baseName, neSuffix = 0x1B, neGroup = True\<rparr>]
      else if s = ''masterbrowser'' then [\<lparr>neName = baseName, neSuffix = 0x1D, neGroup = True\<rparr>]
      else if s = ''browser'' then [\<lparr>neName = baseName, neSuffix = 0x1E, neGroup = True\<rparr>]
      else if s = ''msbrowse'' then [msBrowseEntry]
      else [])"

definition netbiosNamesForDevice :: "nameDevice \<Rightarrow> nbstatNameEntry list" where
  "netbiosNamesForDevice device =
     (case ndNetBIOSConfig device of
        None \<Rightarrow> []
      | Some cfg \<Rightarrow>
          let baseName = (if nbName cfg = [] then ndName device else nbName cfg);
              names = (if nbNames cfg \<noteq> [] then map (\<lambda>n. \<lparr>neName = nnName n, neSuffix = nnSuffix n, neGroup = nnGroup n\<rparr>) (nbNames cfg)
                       else concat (map (serviceEntries baseName) (nbServices cfg))) in
          names @ (if nbMsBrowse cfg then [msBrowseEntry] else []))"

definition netbiosOwnerNodeType :: "nameDevice \<Rightarrow> 8 word" where
  "netbiosOwnerNodeType device =
     (case ndNetBIOSConfig device of
        None \<Rightarrow> 0
      | Some cfg \<Rightarrow>
          if nbNodeType cfg \<in> {''P'', ''p''} then 1 else if nbNodeType cfg \<in> {''M'', ''m''} then 2 else if nbNodeType cfg \<in> {''H'', ''h''} then 3 else 0)"

definition encodeDNSName :: "string \<Rightarrow> bytes" where
  "encodeDNSName name =
     (let trimmed = trimSuffix ''.'' name in
      if trimmed = [] then [0]
      else concat (map (\<lambda>label. if label = [] then [] else Byte (word_of_nat (length label)) # charBytes label) (splitAt CHR ''.'' trimmed)))"

definition wordBytes :: "16 word \<Rightarrow> bytes" where
  "wordBytes v = [ucast (drop_bit 8 v), ByteFromUint16 v]"

definition buildNBSTATHeader :: "16 word \<Rightarrow> bytes" where
  "buildNBSTATHeader ident = beBytes 2 ident @ beBytes 2 (0x8000 OR 0x0400 :: 16 word) @ beBytes 2 (1 :: 16 word) @ beBytes 2 (1 :: 16 word) @ replicate 4 0"

definition buildNBSTATQuestion :: "DNSQuestion \<Rightarrow> bytes \<Rightarrow> bytes" where
  "buildNBSTATQuestion q encodedQName = encodedQName @ [0] @ wordBytes (quType q) @ wordBytes (quClass q)"

definition nameEntryBytes :: "8 word \<Rightarrow> nbstatNameEntry \<Rightarrow> bytes" where
  "nameEntryBytes ownerNodeType name =
     (let rawName = take 15 (charBytes (neName name));
          flags = (0x0400 OR push_bit 13 (ucast ownerNodeType)) OR (if neGroup name then 0x8000 else 0) in
      rawName @ replicate (15 - length rawName) 32 @ [neSuffix name] @ wordBytes flags)"

definition appendNBSTATNameEntries :: "bytes \<Rightarrow> nbstatNameEntry list \<Rightarrow> 8 word \<Rightarrow> bytes" where
  "appendNBSTATNameEntries answer names ownerNodeType = answer @ concat (map (nameEntryBytes ownerNodeType) names)"

definition appendNBSTATMACAndStats :: "bytes \<Rightarrow> bytes \<Rightarrow> bytes" where
  "appendNBSTATMACAndStats answer macAddr = answer @ (if length macAddr = 6 then macAddr else replicate 6 0) @ replicate 40 0"

definition buildNBSTATAnswer :: "DNSQuestion \<Rightarrow> nbstatNameEntry list \<Rightarrow> 8 word \<Rightarrow> bytes \<Rightarrow> bytes" where
  "buildNBSTATAnswer q names ownerNodeType macAddr =
     (let rdLength = (1 + 18 * word_of_nat (length names) + 46 :: 64 word) in
      appendNBSTATMACAndStats
        (appendNBSTATNameEntries
          ([0xC0, 0x0C] @ wordBytes (quType q) @ wordBytes (quClass q) @ [0, 0, 0, 0] @ [Byte (signed_drop_bit 8 rdLength), Byte rdLength] @
           [Byte (word_of_nat (length names))])
          names ownerNodeType)
        macAddr)"

definition buildNBSTATResponse :: "nameDevice \<Rightarrow> 16 word \<Rightarrow> DNSQuestion \<Rightarrow> bytes" where
  "buildNBSTATResponse device ident q =
     (if ndNetBIOSConfig device = None \<or> \<not> isNBSTATServiceSupported (decodeNBSTATService (quName q)) device \<or> netbiosNamesForDevice device = [] then []
      else buildNBSTATHeader ident @ buildNBSTATQuestion q (encodeDNSName (quName q)) @
        buildNBSTATAnswer q (netbiosNamesForDevice device) (netbiosOwnerNodeType device) (ndMAC device))"

text \<open>What a query leads to: nothing, a NetBIOS status payload, or a response from the server's address.  \<open>deReachable\<close> says whether the frame
  has the hardware addresses a reply needs.\<close>

datatype dnsOutcome = NoReply | NbstatReply bytes | Response DNS Addr

definition handleNBSTATIfPresent :: "nameDevice \<Rightarrow> DNS \<Rightarrow> dnsOutcome option" where
  "handleNBSTATIfPresent serverDevice dns =
     (case find (\<lambda>q. quType q = dnsTypeNBSTAT) (msQuestions dns) of
        None \<Rightarrow> None
      | Some q \<Rightarrow> Some (let payload = buildNBSTATResponse serverDevice (msID dns) q in if payload = [] then NoReply else NbstatReply payload))"

text \<open>\<open>HandleQuery\<close> and \<open>HandleQueryV6\<close>, with the counter of queries.\<close>

definition HandleQuery :: "dnsEnv \<Rightarrow> DNSHandler \<Rightarrow> bool \<Rightarrow> DNS option \<Rightarrow> Addr \<Rightarrow> (nat \<times> nameDevice) list \<Rightarrow> nat \<Rightarrow> dnsOutcome \<times> nat" where
  "HandleQuery env h wantIPv6 packet dstIP devices queries =
     (case packet of
        None \<Rightarrow> (NoReply, queries)
      | Some dns \<Rightarrow>
          (case selectServerDevice env h wantIPv6 dstIP devices of
             None \<Rightarrow> NoReply
           | Some (n, dev, serverIP) \<Rightarrow>
               if deTimeout env n then NoReply
               else case handleNBSTATIfPresent dev dns of
                 Some outcome \<Rightarrow> outcome
               | None \<Rightarrow> if \<not> deReachable env n then NoReply else Response (answerQuery env h dns n) serverIP, queries + 1))"

end
