(* ===== verification/Dns_Props.thy ===== *)
theory Dns_Props
  imports Dns_Service
begin

text \<open>
  Properties of the name service: the search through forwarders ends at the nearest resolver that answers (\<open>forward_nearest\<close>), what was recorded is
  found by name and by address (\<open>dns_record_found\<close>), and the length a NetBIOS status answer declares (\<open>nbstat_length\<close>).
\<close>

section \<open>The chain of forwarders\<close>

text \<open>No address belongs to two devices with records.\<close>

definition owners_unique :: "DNSHandler \<Rightarrow> bool" where
  "owners_unique h \<longleftrightarrow> gm_wf (dhDeviceRecords h) \<and>
     (\<forall>(n, d, _) \<in> set (dhDeviceRecords h). \<forall>(n', d', _) \<in> set (dhDeviceRecords h). set (ndIPAddresses d) \<inter> set (ndIPAddresses d') \<noteq> {} \<longrightarrow> n = n')"

text \<open>The simulated resolver an address belongs to, the forwarders of a resolver, and whether it answers.\<close>

definition owner :: "DNSHandler \<Rightarrow> Addr \<Rightarrow> nat option" where
  "owner h f = map_option fst (simulatedResolver (\<lambda>_. 0) h f)"

definition fwd :: "DNSHandler \<Rightarrow> nat \<Rightarrow> Addr list" where
  "fwd h n = (case getRecordSetForDevice h n of None \<Rightarrow> [] | Some rs \<Rightarrow> rsForwarders rs)"

definition resolution :: "DNSHandler \<Rightarrow> DNSQuestion list \<Rightarrow> nat \<Rightarrow> DNSResourceRecord list \<times> 8 word" where
  "resolution h qs n = resolveQuestions h qs (getRecordSetForDevice h n)"

definition answersAt :: "DNSHandler \<Rightarrow> DNSQuestion list \<Rightarrow> nat \<Rightarrow> bool" where
  "answersAt h qs n \<longleftrightarrow> resolution h qs n \<noteq> ([], NXDomain)"

text \<open>The resolvers at most \<open>k\<close> forwardings away from \<open>s\<close>.\<close>

primrec within :: "DNSHandler \<Rightarrow> nat \<Rightarrow> nat \<Rightarrow> nat set" where
  "within h s 0 = {s}"
| "within h s (Suc k) = within h s k \<union> {n. \<exists>m \<in> within h s k. \<exists>f \<in> set (fwd h m). owner h f = Some n}"

lemma find_None_or_unique:
  assumes "\<And>x y. x \<in> set xs \<Longrightarrow> y \<in> set xs \<Longrightarrow> P x \<Longrightarrow> P y \<Longrightarrow> x = y" "set ys = set xs"
  shows "find P ys = find P xs"
proof (cases "find P xs")
  case None
  then have "find P ys = None" using assms(2) by (simp add: find_None_iff)
  with None show ?thesis by simp
next
  case (Some x)
  then have x: "x \<in> set ys" "P x" using assms(2) by (auto simp: find_Some_iff)
  then obtain y where y: "find P ys = Some y" using find_None_iff [of P ys] by (cases "find P ys") auto
  then have "y \<in> set xs" "P y" using assms(2) by (auto simp: find_Some_iff)
  with x assms y Some show ?thesis by auto
qed

lemma simulatedResolver_owner:
  assumes "owners_unique h"
  shows "simulatedResolver rank h f = (case owner h f of None \<Rightarrow> None | Some n \<Rightarrow> map_option (\<lambda>rs. (n, rs)) (getRecordSetForDevice h n))"
proof -
  let ?P = "\<lambda>(n, device, rs :: dnsRecordSet). f \<in> set (ndIPAddresses device)"
  have key: "map_of (dhDeviceRecords h) (fst e) = Some (snd e)" if "e \<in> set (dhDeviceRecords h)" for e
    using assms that by (cases e) (auto simp: owners_unique_def gm_wf_def strict_sorted_iff intro: map_of_is_SomeI)
  have one: "x = y" if "x \<in> set (dhDeviceRecords h)" "y \<in> set (dhDeviceRecords h)" "?P x" "?P y" for x y
  proof -
    have "fst x = fst y" using assms that unfolding owners_unique_def by (cases x, cases y) (simp, blast)
    then show ?thesis using key [OF that(1)] key [OF that(2)] by (simp add: prod_eq_iff)
  qed
  have same: "simulatedResolver rank h f = simulatedResolver (\<lambda>_. 0) h f"
    unfolding simulatedResolver_def using find_None_or_unique [of "dhDeviceRecords h" ?P "sort_key (\<lambda>e. rank (fst e)) (dhDeviceRecords h)", OF one]
      find_None_or_unique [of "dhDeviceRecords h" ?P "sort_key (\<lambda>e. 0 :: nat) (dhDeviceRecords h)", OF one] by simp
  show ?thesis
  proof (cases "simulatedResolver (\<lambda>_. 0) h f")
    case (Some e)
    then obtain n rs where e: "simulatedResolver (\<lambda>_. 0) h f = Some (n, rs)" by (cases e) auto
    from simulatedResolver_Some [OF e] obtain d where "(n, d, rs) \<in> set (dhDeviceRecords h)" by blast
    from key [OF this] show ?thesis using same e by (simp add: owner_def getRecordSetForDevice_def)
  qed (simp add: same owner_def)
qed

lemma owner_set: "owners_unique h \<Longrightarrow> owner h f = Some n \<Longrightarrow> \<exists>rs. getRecordSetForDevice h n = Some rs"
  using simulatedResolver_owner [of h "\<lambda>_. 0" f] by (cases "getRecordSetForDevice h n") (auto simp: owner_def)

text \<open>The state of the search: \<open>V\<close> visited, \<open>A\<close> the forwarders of the level being searched, \<open>B\<close> those of the next.\<close>

definition searching :: "DNSHandler \<Rightarrow> DNSQuestion list \<Rightarrow> nat \<Rightarrow> nat \<Rightarrow> nat set \<Rightarrow> Addr list \<Rightarrow> Addr list \<Rightarrow> Addr list \<Rightarrow> bool" where
  "searching h qs s k V A B ups \<longleftrightarrow>
     within h s k \<subseteq> V \<and> V \<subseteq> within h s (Suc k) \<and>
     (\<forall>m \<in> within h s (Suc k) - V. \<exists>f \<in> set A. owner h f = Some m) \<and>
     (\<forall>v \<in> V - within h s k. set (fwd h v) \<subseteq> set B) \<and>
     (\<forall>f \<in> set A. \<exists>m \<in> within h s k. f \<in> set (fwd h m)) \<and>
     (\<forall>f \<in> set B. \<exists>m \<in> V. f \<in> set (fwd h m)) \<and>
     (\<forall>v \<in> V - {s}. \<not> answersAt h qs v) \<and>
     (\<forall>f \<in> set ups. owner h f = None \<and> (\<exists>m \<in> V. f \<in> set (fwd h m))) \<and>
     (\<forall>m \<in> V. \<forall>f \<in> set (fwd h m). owner h f = None \<longrightarrow> f \<in> set ups \<union> set A \<union> set B)"

definition found :: "DNSHandler \<Rightarrow> DNSQuestion list \<Rightarrow> nat \<Rightarrow> DNSResourceRecord list \<times> 8 word \<times> Addr list \<Rightarrow> bool" where
  "found h qs s r \<longleftrightarrow> (\<exists>d k. d \<in> within h s (Suc k) \<and> answersAt h qs d \<and> (\<forall>e \<in> within h s k - {s}. \<not> answersAt h qs e) \<and>
     r = (fst (resolution h qs d), snd (resolution h qs d), []))"

definition exhausted :: "DNSHandler \<Rightarrow> DNSQuestion list \<Rightarrow> nat \<Rightarrow> DNSResourceRecord list \<times> 8 word \<times> Addr list \<Rightarrow> bool" where
  "exhausted h qs s r \<longleftrightarrow> (\<forall>k. \<forall>e \<in> within h s k - {s}. \<not> answersAt h qs e) \<and>
     (\<exists>ups. r = ([], NXDomain, ups) \<and> set ups = {f. owner h f = None \<and> (\<exists>k. \<exists>m \<in> within h s k. f \<in> set (fwd h m))})"

lemma within_step: "m \<in> within h s k \<Longrightarrow> f \<in> set (fwd h m) \<Longrightarrow> owner h f = Some n \<Longrightarrow> n \<in> within h s (Suc k)"
  by auto

lemma within_cases:
  "n \<in> within h s (Suc k) \<Longrightarrow> n \<in> within h s k \<or> (\<exists>m f. m \<in> within h s k \<and> f \<in> set (fwd h m) \<and> owner h f = Some n)"
  by auto

lemma within_Suc: "within h s k \<subseteq> within h s (Suc k)"
  by simp

declare within.simps(2) [simp del]

lemma searchingD:
  assumes "searching h qs s k V A B ups"
  shows "within h s k \<subseteq> V" "V \<subseteq> within h s (Suc k)"
    "m \<in> within h s (Suc k) \<Longrightarrow> m \<notin> V \<Longrightarrow> \<exists>f \<in> set A. owner h f = Some m"
    "v \<in> V \<Longrightarrow> v \<notin> within h s k \<Longrightarrow> set (fwd h v) \<subseteq> set B"
    "f \<in> set A \<Longrightarrow> \<exists>m \<in> within h s k. f \<in> set (fwd h m)" "f \<in> set B \<Longrightarrow> \<exists>m \<in> V. f \<in> set (fwd h m)"
    "v \<in> V \<Longrightarrow> v \<noteq> s \<Longrightarrow> \<not> answersAt h qs v" "f \<in> set ups \<Longrightarrow> owner h f = None" "f \<in> set ups \<Longrightarrow> \<exists>m \<in> V. f \<in> set (fwd h m)"
    "m \<in> V \<Longrightarrow> f \<in> set (fwd h m) \<Longrightarrow> owner h f = None \<Longrightarrow> f \<in> set ups \<or> f \<in> set A \<or> f \<in> set B"
  using assms unfolding searching_def by blast+

lemma searchingI:
  assumes "within h s k \<subseteq> V" "V \<subseteq> within h s (Suc k)"
    "\<And>m. m \<in> within h s (Suc k) \<Longrightarrow> m \<notin> V \<Longrightarrow> \<exists>f \<in> set A. owner h f = Some m"
    "\<And>v. v \<in> V \<Longrightarrow> v \<notin> within h s k \<Longrightarrow> set (fwd h v) \<subseteq> set B"
    "\<And>f. f \<in> set A \<Longrightarrow> \<exists>m \<in> within h s k. f \<in> set (fwd h m)" "\<And>f. f \<in> set B \<Longrightarrow> \<exists>m \<in> V. f \<in> set (fwd h m)"
    "\<And>v. v \<in> V \<Longrightarrow> v \<noteq> s \<Longrightarrow> \<not> answersAt h qs v" "\<And>f. f \<in> set ups \<Longrightarrow> owner h f = None" "\<And>f. f \<in> set ups \<Longrightarrow> \<exists>m \<in> V. f \<in> set (fwd h m)"
    "\<And>m f. m \<in> V \<Longrightarrow> f \<in> set (fwd h m) \<Longrightarrow> owner h f = None \<Longrightarrow> f \<in> set ups \<or> f \<in> set A \<or> f \<in> set B"
  shows "searching h qs s k V A B ups"
  unfolding searching_def using assms by blast

lemma searching_shift:
  assumes "searching h qs s k V [] B ups"
  shows "searching h qs s (Suc k) V B [] ups"
proof -
  note d = searchingD [OF assms]
  have V: "V = within h s (Suc k)" using d(2,3) by fastforce
  show ?thesis
  proof (rule searchingI)
    fix m assume m: "m \<in> within h s (Suc (Suc k))" "m \<notin> V"
    obtain v f where v: "v \<in> within h s (Suc k)" "f \<in> set (fwd h v)" "owner h f = Some m" using within_cases [OF m(1)] m(2) V by blast
    then have "v \<notin> within h s k" using within_step [of v h s k f m] m V by blast
    then have "f \<in> set B" using d(4) v V by blast
    then show "\<exists>f \<in> set B. owner h f = Some m" using v(3) by blast
  qed (use d V within_Suc [of h s "Suc k"] in \<open>auto simp: V\<close>)
qed

lemma searching_real:
  assumes "searching h qs s k V (f # A) B ups" "owner h f = None"
  shows "searching h qs s k V A B (ups @ [f])"
proof -
  note d = searchingD [OF assms(1)]
  show ?thesis
  proof (rule searchingI)
    show "\<exists>g \<in> set A. owner h g = Some m" if "m \<in> within h s (Suc k)" "m \<notin> V" for m using d(3) [OF that] assms(2) by auto
    show "\<exists>m \<in> V. g \<in> set (fwd h m)" if "g \<in> set (ups @ [f])" for g using that d(9) [of g] d(5) [of f] d(1) by auto
    show "owner h g = None" if "g \<in> set (ups @ [f])" for g using that d(8) [of g] assms(2) by auto
    show "g \<in> set (ups @ [f]) \<or> g \<in> set A \<or> g \<in> set B" if "m \<in> V" "g \<in> set (fwd h m)" "owner h g = None" for m g using d(10) [OF that] by auto
  qed (use d in auto)
qed

lemma searching_seen:
  assumes "searching h qs s k V (f # A) B ups" "owner h f = Some n" "n \<in> V"
  shows "searching h qs s k V A B ups"
proof -
  note d = searchingD [OF assms(1)]
  show ?thesis
  proof (rule searchingI)
    show "\<exists>g \<in> set A. owner h g = Some m" if "m \<in> within h s (Suc k)" "m \<notin> V" for m using d(3) [OF that] assms(2,3) that by auto
    show "g \<in> set ups \<or> g \<in> set A \<or> g \<in> set B" if "m \<in> V" "g \<in> set (fwd h m)" "owner h g = None" for m g using d(10) [OF that] assms(2) that by auto
  qed (use d in auto)
qed

lemma searching_next: "searching h qs s k V (f # A) B ups \<Longrightarrow> owner h f = Some n \<Longrightarrow> n \<in> within h s (Suc k)"
  using searchingD(5) [of h qs s k V "f # A" B ups f] within_step [of _ h s k f n] by auto

lemma searching_visit:
  assumes "searching h qs s k V (f # A) B ups" "owner h f = Some n" "\<not> answersAt h qs n"
  shows "searching h qs s k (insert n V) A (B @ fwd h n) ups"
proof -
  note d = searchingD [OF assms(1)]
  show ?thesis
  proof (rule searchingI)
    show "\<exists>g \<in> set A. owner h g = Some m" if "m \<in> within h s (Suc k)" "m \<notin> insert n V" for m using d(3) [of m] assms(2) that by auto
    show "set (fwd h v) \<subseteq> set (B @ fwd h n)" if "v \<in> insert n V" "v \<notin> within h s k" for v using d(4) [of v] that by auto
    show "g \<in> set ups \<or> g \<in> set A \<or> g \<in> set (B @ fwd h n)" if "m \<in> insert n V" "g \<in> set (fwd h m)" "owner h g = None" for m g
      using d(10) [of m g] assms(2) that by auto
    show "insert n V \<subseteq> within h s (Suc k)" using d(2) searching_next [OF assms(1,2)] by blast
  qed (use d assms(3) in auto)
qed

lemma searching_found:
  assumes "searching h qs s k V (f # A) B ups" "owner h f = Some n" "answersAt h qs n"
  shows "found h qs s (fst (resolution h qs n), snd (resolution h qs n), [])"
  unfolding found_def using searchingD(1,7) [OF assms(1)] searching_next [OF assms(1,2)] assms(3) by blast

lemma within_start: "s \<in> within h s j"
  by (induction j) (use within_Suc in auto)

lemma searching_stop:
  assumes "searching h qs s k V [] [] ups"
  shows "exhausted h qs s ([], NXDomain, ups)"
proof -
  note d = searchingD [OF assms]
  have closed: "n \<in> V" if "v \<in> V" "f \<in> set (fwd h v)" "owner h f = Some n" for v f n
  proof -
    have "v \<in> within h s k" using d(4) [of v] that(1,2) by (cases "v \<in> within h s k") auto
    then show "n \<in> V" using within_step [OF _ that(2,3)] d(3) [of n] by auto
  qed
  have all: "within h s j \<subseteq> V" for j
  proof (induction j)
    case (Suc j)
    then show ?case using within_cases closed by blast
  qed (use within_start [of s h k] d(1) in auto)
  have "set ups = {f. owner h f = None \<and> (\<exists>j. \<exists>m \<in> within h s j. f \<in> set (fwd h m))}"
  proof (intro set_eqI iffI)
    fix f assume "f \<in> set ups"
    then show "f \<in> {f. owner h f = None \<and> (\<exists>j. \<exists>m \<in> within h s j. f \<in> set (fwd h m))}" using d(2,8,9) by blast
  next
    fix f assume "f \<in> {f. owner h f = None \<and> (\<exists>j. \<exists>m \<in> within h s j. f \<in> set (fwd h m))}"
    then obtain j m where "owner h f = None" "m \<in> within h s j" "f \<in> set (fwd h m)" by blast
    then show "f \<in> set ups" using d(10) [of m f] all [of j] by auto
  qed
  moreover have "\<not> answersAt h qs e" if "e \<in> within h s j - {s}" for e j using d(7) [of e] all [of j] that by blast
  ultimately show ?thesis unfolding exhausted_def by blast
qed

lemma forwardLoop_search:
  "owners_unique h \<Longrightarrow> searching h qs s k (set visited) A B ups \<Longrightarrow> pending = A @ B \<Longrightarrow>
    (let r = forwardLoop ranks h qs i visited pending ups in found h qs s r \<or> exhausted h qs s r)"
proof (induction ranks h qs i visited pending ups arbitrary: k A B rule: forwardLoop.induct)
  case (1 ranks h questions i visited upstreams)
  then show ?case using searching_stop by (simp add: Let_def)
next
  case (2 ranks h qs i visited f pending ups)
  have "\<exists>k A B. searching h qs s k (set visited) (f # A) B ups \<and> pending = A @ B"
  proof (cases A)
    case Nil
    then show ?thesis using searching_shift [of h qs s k "set visited" B ups] 2(5,6) by (intro exI [of _ "Suc k"] exI [of _ pending] exI [of _ "[]"]) simp
  qed (use 2(5,6) in auto)
  then obtain k A B where inv: "searching h qs s k (set visited) (f # A) B ups" and p: "pending = A @ B" by blast
  note look = simulatedResolver_owner [OF 2(4), of "ranks i" f]
  show ?case
  proof (cases "owner h f")
    case None
    then show ?thesis using 2(1) [OF _ 2(4) searching_real [OF inv None] p] look by simp
  next
    case (Some n)
    then obtain rs where rs: "getRecordSetForDevice h n = Some rs" using owner_set 2(4) by blast
    then have sim: "simulatedResolver (ranks i) h f = Some (n, rs)" using look Some by simp
    have res: "resolveQuestions h qs (Some rs) = resolution h qs n" by (simp add: resolution_def rs)
    show ?thesis
    proof (cases "n \<in> set visited")
      case True
      then show ?thesis using 2(2) [OF sim refl _ 2(4) searching_seen [OF inv Some True] p] sim by simp
    next
      case new: False
      show ?thesis
      proof (cases "answersAt h qs n")
        case True
        then have "forwardLoop ranks h qs i visited (f # pending) ups = (fst (resolution h qs n), snd (resolution h qs n), [])"
          using sim new by (auto simp: res answersAt_def split: prod.splits)
        then show ?thesis using searching_found [OF inv Some True] by (simp add: Let_def)
      next
        case False
        have "searching h qs s k (set (n # visited)) A (B @ rsForwarders rs) ups"
          using searching_visit [OF inv Some False] rs by (simp add: fwd_def)
        then show ?thesis using 2(3) [OF sim refl new, of "[]" NXDomain k A "B @ rsForwarders rs"] False 2(4) p sim new
          by (simp add: res answersAt_def)
      qed
    qed
  qed
qed

lemma resolveForwarded_search:
  assumes "owners_unique h" "getRecordSetForDevice h s = Some rs"
  shows "found h qs s (resolveForwarded ranks h qs (s, rs)) \<or> exhausted h qs s (resolveForwarded ranks h qs (s, rs))"
proof -
  have "searching h qs s 0 {s} (rsForwarders rs) [] []"
    using within_start [of s h "Suc 0"] within_cases [of _ h s 0] assms(2) by (intro searchingI) (auto simp: fwd_def)
  then show ?thesis using forwardLoop_search [OF assms(1), of qs s 0 "[s]" "rsForwarders rs" "[]" "[]" "rsForwarders rs" ranks 0]
    by (simp add: resolveForwarded_def Let_def)
qed

text \<open>C21 (forward_nearest): let no address belong to two devices with records.  A server that has no answer of its own and has forwarders, and no
  fault, replies with the answer of a simulated resolver that can be reached through forwarders such that no resolver fewer forwardings away
  answers, or, when none that can be reached answers, with a name error; unless real resolvers were met on the way: then the query is passed
  to the list of all of those that can be reached (which are asked in turn until one replies; SERVFAIL when all slots for such queries are taken).  However the forwarders refer to each other, the search ends.\<close>

theorem forward_nearest:
  assumes "owners_unique h" "getRecordSetForDevice h s = Some rs" "rsForwarders rs \<noteq> []" "\<not> deNXDomain env s"
    and "\<not> answersAt h (msQuestions query) s"
    and "base = \<lparr>msID = msID query, msQR = True, msOpCode = msOpCode query, msAA = True, msRD = msRD query, msRA = True,
      msResponseCode = NXDomain, msQuestions = msQuestions query, msAnswers = []\<rparr>"
  shows "\<exists>answers rcode upstreams.
    (found h (msQuestions query) s (answers, rcode, upstreams) \<or> exhausted h (msQuestions query) s (answers, rcode, upstreams)) \<and>
    answerQuery env h query s =
      (if upstreams = [] then base\<lparr>msAA := answers = [], msAnswers := answers, msResponseCode := rcode\<rparr> else askUpstream env base upstreams)"
proof -
  have own: "resolveQuestions h (msQuestions query) (Some rs) = ([], NXDomain)"
    using assms(2,5) by (simp add: answersAt_def resolution_def)
  obtain answers rcode upstreams where r: "resolveForwarded (deRanks env) h (msQuestions query) (s, rs) = (answers, rcode, upstreams)"
    using prod_cases3 by blast
  have "answerQuery env h query s =
      (if upstreams = [] then base\<lparr>msAA := answers = [], msAnswers := answers, msResponseCode := rcode\<rparr> else askUpstream env base upstreams)"
    using assms(2-4) by (simp add: answerQuery_def own r assms(6) applyNXDomainFault_def dnsUnanswered_def)
  then show ?thesis using resolveForwarded_search [OF assms(1,2), of "msQuestions query" "deRanks env"] r by auto
qed

section \<open>Names of addresses\<close>

primrec reverseName :: "Addr \<Rightarrow> string" where
  "reverseName NoAddr = []"
| "reverseName (V4 a) = joinWith ''.'' (map (\<lambda>i. nat_digits (unat (drop_bit (8 * i) a AND 255))) [0..<4]) @ ''.in-addr.arpa''"
| "reverseName (V6 a z) = joinWith ''.'' (map (\<lambda>i. [hex_digit (unat (drop_bit (4 * i) a AND 15))]) [0..<32]) @ ''.ip6.arpa''"

lemma splitAt_plain: "c \<notin> set w \<Longrightarrow> splitAt c w = [w]"
  by (induction w) auto

lemma splitAt_joinWith: "\<forall>w \<in> set ws. c \<notin> set w \<Longrightarrow> ws \<noteq> [] \<Longrightarrow> splitAt c (joinWith [c] ws) = ws"
proof (induction "[c]" ws rule: joinWith.induct)
  case (3 x y ys)
  then show ?case using splitAt_append [of c x "joinWith [c] (y # ys)"] by (simp add: splitAt_plain)
qed (simp_all add: splitAt_plain)

lemma hd_joinWith: "\<forall>w \<in> set ws. w \<noteq> [] \<Longrightarrow> ws \<noteq> [] \<Longrightarrow> joinWith sep ws \<noteq> [] \<and> hd (joinWith sep ws) = hd (hd ws)"
  by (induction sep ws rule: joinWith.induct) auto

lemma last_joinWith: "\<forall>w \<in> set ws. w \<noteq> [] \<Longrightarrow> ws \<noteq> [] \<Longrightarrow> last (joinWith sep ws) = last (last ws)"
proof (induction sep ws rule: joinWith.induct)
  case (3 sep x y ys)
  then show ?case using hd_joinWith [of "y # ys" sep] by simp
qed auto

lemma set_joinWith: "set (joinWith sep ws) \<subseteq> set sep \<union> \<Union> (set ` set ws)"
  by (induction sep ws rule: joinWith.induct) auto

lemma trimDots_join:
  assumes "\<forall>w \<in> set ws. w \<noteq> [] \<and> CHR ''.'' \<notin> set w" "ws \<noteq> []"
  shows "trimDots (joinWith ''.'' ws) = joinWith ''.'' ws"
proof -
  let ?s = "joinWith ''.'' ws"
  have s: "?s \<noteq> []" "hd ?s = hd (hd ws)" "last ?s = last (last ws)" using hd_joinWith [of ws] last_joinWith [of ws] assms by auto
  have "hd ?s \<noteq> CHR ''.''" "last ?s \<noteq> CHR ''.''" using s assms by (metis hd_in_set list.set_sel(1), metis last_in_set)
  then have "dropWhile (\<lambda>c. c = CHR ''.'') ?s = ?s" "dropWhile (\<lambda>c. c = CHR ''.'') (rev ?s) = rev ?s"
    using s(1) by (auto simp: dropWhile_eq_self_iff hd_rev)
  then show ?thesis by (simp add: trimDots_def)
qed

lemma trimSuffix_append: "trimSuffix p (s @ p) = s"
  by (simp add: trimSuffix_def trimPrefix_def hasPrefix_def)

lemma lowerChar_plain: "of_char c < (65 :: nat) \<or> 90 < (of_char c :: nat) \<Longrightarrow> lowerChar c = c"
  by (auto simp: lowerChar_def Let_def)

text \<open>Labels of the names: no dot and no capital.\<close>

definition plainLabel :: "string \<Rightarrow> bool" where
  "plainLabel w \<longleftrightarrow> w \<noteq> [] \<and> CHR ''.'' \<notin> set w \<and> map lowerChar w = w"

lemma plain_digits: "plainLabel (nat_digits n)"
proof -
  have "lowerChar c = c" if c: "c \<in> set (nat_digits n)" for c
  proof -
    obtain k where "k < 10" "c = digit k" using nat_digits_set [of n] c by blast
    then have "k \<in> {0, 1, 2, 3, 4, 5, 6, 7, 8, 9}" "c = digit k" by auto
    then show ?thesis by (auto simp: digit_def lowerChar_def)
  qed
  then show ?thesis using nat_digits_plain [of _ n] by (auto simp: plainLabel_def map_idI)
qed

lemma plain_hex: "n < 16 \<Longrightarrow> plainLabel [hex_digit n]"
proof -
  have "list_all (\<lambda>n. plainLabel [hex_digit n]) [0..<16]" by code_simp
  then show "n < 16 \<Longrightarrow> plainLabel [hex_digit n]" by (simp add: list_all_iff)
qed

lemma toLower_join: "\<forall>w \<in> set ws. plainLabel w \<Longrightarrow> toLower (joinWith ''.'' ws) = joinWith ''.'' ws"
  by (induction "''.''" ws rule: joinWith.induct) (auto simp: toLower_def plainLabel_def lowerChar_def)

lemma hostKey_arpa:
  assumes "\<forall>w \<in> set ws. plainLabel w" "p \<in> {''.in-addr.arpa'', ''.ip6.arpa''}"
  shows "hostKey (joinWith ''.'' ws @ p) = joinWith ''.'' ws @ p"
proof -
  have "trimSuffix ''.'' (joinWith ''.'' ws @ p) = joinWith ''.'' ws @ p"
    using assms(2) by (auto simp: trimSuffix_def trimPrefix_def hasPrefix_def)
  moreover have "toLower p = p" using assms(2) by (auto simp: toLower_def lowerChar_def)
  ultimately show ?thesis using toLower_join [OF assms(1)] by (simp add: hostKey_def toLower_def)
qed

lemma labels_arpa:
  assumes "\<forall>w \<in> set ws. plainLabel w" "ws \<noteq> []"
  shows "splitAt CHR ''.'' (trimDots (trimSuffix p (joinWith ''.'' ws @ p))) = ws"
  using assms trimDots_join [of ws] splitAt_joinWith [of ws "CHR ''.''"] by (simp add: trimSuffix_append plainLabel_def)

lemma octet_bound: "unat (w AND 255 :: 32 word) \<le> 255"
  using word_and_le1 [of w 255] by (simp add: word_le_nat_alt)

lemma parse_octets:
  assumes "p \<le> 255" "q \<le> 255" "r \<le> 255" "t \<le> 255"
  shows "parseIPv4PTRName (joinWith ''.'' (map nat_digits [t, r, q, p]) @ ''.in-addr.arpa'') = Some (V4 (octets [p, q, r, t]))"
proof -
  have parts: "splitAt CHR ''.'' (trimDots (trimSuffix ''.in-addr.arpa'' (joinWith ''.'' (map nat_digits [t, r, q, p]) @ ''.in-addr.arpa''))) = map nat_digits [t, r, q, p]"
    by (rule labels_arpa) (simp_all add: plain_digits)
  have atoi: "atoi (nat_digits n) = Some (int n)" if "n \<le> 255" for n using atoi_itoa [of "int n"] that by (simp add: itoa_def)
  have byte: "ucast (word_of_int (int n) :: 8 word) = (of_nat n :: 32 word)" if "n \<le> 255" for n
    using that by (simp add: unsigned_of_nat take_bit_nat_eq_self)
  have "horner256 (map word_of_int [int p, int q, int r, int t]) = octets [p, q, r, t]"
    using byte assms by (simp add: horner256_def octets_def)
  then show ?thesis unfolding parseIPv4PTRName_def Let_def parts using assms by (simp add: atoi)
qed

lemma parse_reverse4: "parsePTRName (reverseName (V4 a)) = (Some (V4 a), False)"
proof -
  let ?n = "\<lambda>i. unat (drop_bit (8 * i) a AND 255)"
  have name: "reverseName (V4 a) = joinWith ''.'' (map nat_digits [?n 0, ?n 1, ?n 2, ?n 3]) @ ''.in-addr.arpa''" by (simp add: upt_rec)
  have "octets [?n 3, ?n 2, ?n 1, ?n 0] = a" using octets_of_word [of a] by simp
  then have "parseIPv4PTRName (reverseName (V4 a)) = Some (V4 a)" unfolding name using parse_octets octet_bound by presburger
  moreover have "hostKey (reverseName (V4 a)) = reverseName (V4 a)" unfolding name by (rule hostKey_arpa) (simp_all add: plain_digits)
  moreover have "hasSuffix ''.in-addr.arpa'' (reverseName (V4 a))" by (simp add: hasSuffix_def hasPrefix_def)
  ultimately show ?thesis by (simp only: parsePTRName_def Let_def if_True)
qed

lemma horner_beRead: "horner256 bs = (beRead bs :: 'a::len word)"
proof -
  have "push_bit 8 v OR ucast b = v * 256 + ucast b" for v :: "'a word" and b :: "8 word"
  proof -
    have "push_bit 8 v + ucast b = push_bit 8 v OR ucast b"
      by (rule disjunctive_add) (auto simp: bit_push_bit_iff bit_ucast_iff dest: bit_imp_le_length)
    then show ?thesis by (simp add: push_bit_eq_mult mult.commute)
  qed
  then show ?thesis by (simp add: horner256_def beRead_def)
qed

lemma hexDecode_pairs:
  "(\<forall>i \<in> set is. hi i < 16 \<and> lo i < 16) \<Longrightarrow>
     hexDecode (concat (map (\<lambda>i. [hex_digit (hi i), hex_digit (lo i)]) is)) = Some (map (\<lambda>i. word_of_nat (16 * hi i + lo i)) is)"
  by (induction "is") (simp_all add: hexval_hex_digit)

lemma rev_pairs: "concat (rev (map (\<lambda>i. [f i]) [0..<2 * n])) = concat (map (\<lambda>i. [f (2 * i + 1), f (2 * i)]) (rev [0..<n]))"
  by (induction n) simp_all

definition nibble :: "128 word \<Rightarrow> nat \<Rightarrow> nat" where
  "nibble a i = unat (drop_bit (4 * i) a AND 15)"

lemma unat_shift: "unat (drop_bit k (a :: 128 word)) = unat a div 2 ^ k"
proof -
  have "take_bit 128 (unat a) = unat a" using unsigned_less [of a] by (simp add: take_bit_nat_eq_self_iff)
  then have "unat (drop_bit k a) = drop_bit k (unat a)" by (simp add: unsigned_drop_bit_eq)
  then show ?thesis by (simp only: drop_bit_eq_div)
qed

lemma nibble_mod: "nibble a i = unat a div 16 ^ i mod 16"
proof -
  have "drop_bit (4 * i) a AND 15 = take_bit 4 (drop_bit (4 * i) a)" by (simp add: take_bit_eq_mask mask_eq_exp_minus_1)
  then have "nibble a i = take_bit 4 (unat (drop_bit (4 * i) a))" by (simp only: nibble_def unsigned_take_bit_eq)
  moreover have "(2 :: nat) ^ (4 * i) = 16 ^ i" by (simp add: power_mult)
  ultimately show ?thesis by (simp only: unat_shift take_bit_eq_mod) simp
qed

lemma nibble_byte: "word_of_nat (16 * nibble a (2 * i + 1) + nibble a (2 * i)) = (ucast (drop_bit (8 * i) a) :: 8 word)"
proof -
  let ?u = "unat (drop_bit (8 * i) a)"
  have wrap: "(word_of_nat (x mod 256) :: 8 word) = word_of_nat x" for x by (simp add: word_of_nat_eq_iff take_bit_eq_mod)
  have "(2 :: nat) ^ (8 * i) = 16 ^ (2 * i)" by (simp add: power_mult)
  then have u: "?u = unat a div 16 ^ (2 * i)" by (simp only: unat_shift)
  have "16 * nibble a (2 * i + 1) + nibble a (2 * i) = 16 * (?u div 16 mod 16) + ?u mod 16"
    unfolding nibble_mod u by (simp add: div_mult2_eq [symmetric] mult.commute)
  also have "\<dots> = ?u mod 256" using mod_mult2_eq [of ?u 16 16] by simp
  finally have "(word_of_nat (16 * nibble a (2 * i + 1) + nibble a (2 * i)) :: 8 word) = word_of_nat (?u mod 256)" by simp
  also have "\<dots> = word_of_nat ?u" by (rule wrap)
  also have "\<dots> = ucast (drop_bit (8 * i) a)" by simp
  finally show ?thesis .
qed

lemma parse_reverse6:
  assumes "\<not> Is4In6 (V6 a [])"
  shows "parsePTRName (reverseName (V6 a [])) = (Some (V6 a []), True)"
proof -
  let ?ws = "map (\<lambda>i. [hex_digit (nibble a i)]) [0..<32]"
  have name: "reverseName (V6 a []) = joinWith ''.'' ?ws @ ''.ip6.arpa''" by (simp only: reverseName.simps nibble_def)
  have small: "nibble a i < 16" for i by (simp add: nibble_mod)
  have plain: "\<forall>w \<in> set ?ws. plainLabel w" using plain_hex small by simp
  have parts: "splitAt CHR ''.'' (trimDots (trimSuffix ''.ip6.arpa'' (joinWith ''.'' ?ws @ ''.ip6.arpa''))) = ?ws" by (rule labels_arpa [OF plain]) simp
  have "concat (rev ?ws) = concat (map (\<lambda>i. [hex_digit (nibble a (2 * i + 1)), hex_digit (nibble a (2 * i))]) (rev [0..<16]))"
    using rev_pairs [of "\<lambda>i. hex_digit (nibble a i)" 16] by simp
  then have "hexDecode (concat (rev ?ws)) = Some (map (\<lambda>i. ucast (drop_bit (8 * i) a)) (rev [0..<16]))"
    using hexDecode_pairs [of "rev [0..<16]" "\<lambda>i. nibble a (2 * i + 1)" "\<lambda>i. nibble a (2 * i)"] small by (simp only: nibble_byte) simp
  then have dec: "hexDecode (concat (rev ?ws)) = Some (beBytes 16 a)" by (simp only: beBytes_def)
  have "parseIPv6PTRName (reverseName (V6 a [])) = Some (V6 a [])"
    unfolding name parseIPv6PTRName_def Let_def parts dec using assms beRead_beBytes [of 16 a] by (simp add: horner_beRead list_all_iff)
  moreover have "hostKey (reverseName (V6 a [])) = reverseName (V6 a [])" unfolding name by (rule hostKey_arpa [OF plain]) simp
  moreover have "hasSuffix ''.ip6.arpa'' (reverseName (V6 a []))" "\<not> hasSuffix ''.in-addr.arpa'' (reverseName (V6 a []))"
    unfolding name by (simp_all add: hasSuffix_def hasPrefix_def)
  ultimately show ?thesis by (simp only: parsePTRName_def Let_def if_True if_False)
qed

section \<open>What was recorded is found\<close>

definition canonical :: "Addr \<Rightarrow> bool" where
  "canonical ip \<longleftrightarrow> (case ip of NoAddr \<Rightarrow> False | V4 a \<Rightarrow> True | V6 a z \<Rightarrow> z = [] \<and> \<not> Is4In6 ip)"

lemma parse_reverse: "canonical ip \<Longrightarrow> parsePTRName (reverseName ip) = (Some ip, \<not> Is4 ip)"
proof (cases ip)
  case (V4 a)
  then show ?thesis using parse_reverse4 by simp
next
  case (V6 a z)
  assume "canonical ip"
  then show ?thesis using V6 parse_reverse6 [of a] by (simp add: canonical_def)
qed (simp add: canonical_def)

lemma length_joinWith: "length (joinWith sep ws) = sum_list (map length ws) + length sep * (length ws - 1)"
  by (induction sep ws rule: joinWith.induct) auto

lemma length_nat_digits: "n < 1000 \<Longrightarrow> length (nat_digits n) \<le> 3"
  by (subst nat_digits.simps, subst nat_digits.simps, subst nat_digits.simps) auto

lemma valid_arpa:
  assumes "\<forall>w \<in> set ws. plainLabel w \<and> length w \<le> 3" "ws \<noteq> []" "length ws \<le> 32" "p = ''in-addr'' \<or> p = ''ip6''"
  shows "isValidDNSName (joinWith ''.'' ws @ CHR ''.'' # p @ ''.arpa'')"
proof -
  have "splitAt CHR ''.'' (joinWith ''.'' ws @ CHR ''.'' # p @ ''.arpa'') = ws @ [p, ''arpa'']"
    using splitAt_append [of "CHR ''.''" "joinWith ''.'' ws" "p @ ''.arpa''"] splitAt_joinWith [of ws "CHR ''.''"] assms
    by (auto simp: plainLabel_def)
  moreover have "sum_list (map length ws) \<le> 3 * length ws" using assms(1) by (induction ws) auto
  ultimately show ?thesis using assms by (auto simp: isValidDNSName_def length_joinWith list_all_iff)
qed

lemma valid_reverse: "canonical ip \<Longrightarrow> isValidDNSName (reverseName ip)"
proof (cases ip)
  case (V4 a)
  let ?ws = "map (\<lambda>i. nat_digits (unat (drop_bit (8 * i) a AND 255))) [0..<4]"
  have "length (nat_digits (unat (w AND 255))) \<le> 3" for w :: "32 word" using octet_bound [of w] by (intro length_nat_digits) simp
  then have "isValidDNSName (joinWith ''.'' ?ws @ CHR ''.'' # ''in-addr'' @ ''.arpa'')" by (intro valid_arpa) (auto simp: plain_digits)
  then show ?thesis using V4 by (simp del: upt_Suc)
next
  case (V6 a z)
  let ?ws = "map (\<lambda>i. [hex_digit (nibble a i)]) [0..<32]"
  have "isValidDNSName (joinWith ''.'' ?ws @ CHR ''.'' # ''ip6'' @ ''.arpa'')" by (intro valid_arpa) (auto simp: plain_hex nibble_mod)
  then show ?thesis using V6 by (simp add: nibble_def [symmetric] del: upt_Suc)
qed (simp add: canonical_def)

lemma trimSuffix_same: "s = [] \<or> last s \<noteq> c \<Longrightarrow> trimSuffix [c] s = s"
  by (cases s rule: rev_cases) (auto simp: trimSuffix_def trimPrefix_def hasPrefix_def)

lemma toLower_idem: "toLower (toLower s) = toLower s"
  by (auto simp: toLower_def lowerChar_def Let_def)

lemma hostKey_idem: "hostKey n = [] \<or> last (hostKey n) \<noteq> CHR ''.'' \<Longrightarrow> hostKey (hostKey n) = hostKey n"
  unfolding hostKey_def [of "hostKey n"] by (simp add: trimSuffix_same) (simp add: hostKey_def toLower_idem)

lemma addAddress_all: "fst (foldl (addAddress q t wanted) ctx recs) =
    fst ctx @ map (\<lambda>rec. \<lparr>rrName = quName q, rrType = t, rrClass = classIN, rrTTL = drTTL rec, rrIP = drIP rec, rrPTR = []\<rparr>) (filter (\<lambda>rec. wanted (drIP rec)) recs)"
  by (induction recs arbitrary: ctx) (auto simp: addAddress_def)

text \<open>C22 (dns_record_found): after a record without an error code is added to the shared records under a name that is legal and does not end in two dots, a question for the name and the
  family of the address is answered with the address and its time to live, and a question for the reverse name of the address, which is
  read back as that address, with exactly the name, normalised.  The server has no records of its own.\<close>

theorem dns_record_found:
  assumes "canonical ip" "isValidDNSName name" "hostKey name \<noteq> []" "last (hostKey name) \<noteq> CHR ''.''"
    and "h1 = AddRecordWithTTL name ip ttl NoErr h"
  shows "\<lparr>rrName = name, rrType = (if Is4 ip then typeA else typeAAAA), rrClass = classIN, rrTTL = ttl, rrIP = ip, rrPTR = []\<rparr>
      \<in> set (fst (resolveQuestions h1 [\<lparr>quName = name, quType = (if Is4 ip then typeA else typeAAAA), quClass = classIN\<rparr>] None)) \<and>
    resolveQuestions h1 [\<lparr>quName = reverseName ip, quType = typePTR, quClass = classIN\<rparr>] None =
      ([\<lparr>rrName = reverseName ip, rrType = typePTR, rrClass = classIN, rrTTL = ttl, rrIP = NoAddr, rrPTR = hostKey name\<rparr>], NoErr)"
proof
  have key: "hostKey (hostKey name) = hostKey name" using hostKey_idem assms(4) by blast
  have ne: "ip \<noteq> NoAddr" using assms(1) by (auto simp: canonical_def)
  have "\<lparr>drIP = ip, drTTL = ttl, drRcode = NoErr\<rparr> \<in> set (lookupHost h1 (hostKey name) None)"
    by (simp add: lookupHost_def lookupIn_def key assms(5) AddRecordWithTTL_def gm_append_def gm_simps Let_def)
  then show "\<lparr>rrName = name, rrType = (if Is4 ip then typeA else typeAAAA), rrClass = classIN, rrTTL = ttl, rrIP = ip, rrPTR = []\<rparr>
      \<in> set (fst (resolveQuestions h1 [\<lparr>quName = name, quType = (if Is4 ip then typeA else typeAAAA), quClass = classIN\<rparr>] None))"
    using assms(2) ne by (force simp: resolveQuestions_def validateAndResolveQuestion_def resolveByType_def resolveARecord_def resolveAAAARecord_def
        addAddress_all Let_def typeA_def typeAAAA_def)
  show "resolveQuestions h1 [\<lparr>quName = reverseName ip, quType = typePTR, quClass = classIN\<rparr>] None =
      ([\<lparr>rrName = reverseName ip, rrType = typePTR, rrClass = classIN, rrTTL = ttl, rrIP = NoAddr, rrPTR = hostKey name\<rparr>], NoErr)"
    using valid_reverse [OF assms(1)] parse_reverse [OF assms(1)] assms(3,4)
    by (simp add: resolveQuestions_def validateAndResolveQuestion_def resolveByType_def resolvePTRRecord_def lookupPTR_def assms(5)
        AddRecordWithTTL_def gm_simps Let_def typeA_def typeAAAA_def typePTR_def trimSuffix_same)
qed

theorem dns_record_found_witness:
  "resolveQuestions (AddRecordWithTTL ''Core.Lab.'' (V4 0x0A000001) 60 NoErr NewDNSHandler) [\<lparr>quName = reverseName (V4 0x0A000001), quType = typePTR, quClass = classIN\<rparr>] None =
     ([\<lparr>rrName = reverseName (V4 0x0A000001), rrType = typePTR, rrClass = classIN, rrTTL = 60, rrIP = NoAddr, rrPTR = ''core.lab''\<rparr>], NoErr)"
proof -
  have key: "hostKey ''Core.Lab.'' = ''core.lab''" "isValidDNSName ''Core.Lab.''" by code_simp+
  show ?thesis using dns_record_found [of "V4 0x0A000001" "''Core.Lab.''", OF _ key(2) _ _ refl, of 60 NewDNSHandler]
    by (simp add: key canonical_def)
qed

section \<open>The length of a NetBIOS status answer\<close>

lemma length_entry: "length (nameEntryBytes t n) = 18"
  by (simp add: nameEntryBytes_def wordBytes_def charBytes_def Let_def)

lemma length_answer: "length (buildNBSTATAnswer q names t mac) = 12 + (47 + 18 * length names)"
proof -
  have "length (concat (map (nameEntryBytes t) names)) = 18 * length names"
    by (induction names) (simp_all add: length_entry)
  then show ?thesis
    by (simp add: buildNBSTATAnswer_def appendNBSTATMACAndStats_def appendNBSTATNameEntries_def wordBytes_def Let_def)
qed

lemma answer_length_field:
  "slice 10 12 (buildNBSTATAnswer q names t mac) =
     (let rd = (1 + 18 * word_of_nat (length names) + 46 :: 64 word) in [Byte (signed_drop_bit 8 rd), Byte rd])"
  by (simp add: buildNBSTATAnswer_def appendNBSTATMACAndStats_def appendNBSTATNameEntries_def wordBytes_def slice_def Let_def)

lemma byte_clamp: "0 \<le> sint v \<Longrightarrow> uint (Byte v) = min 255 (sint v)"
proof -
  have "uint (Byte v) = clamp 0 255 (sint v)" by (rule unsigned_clamp [OF Byte_def]) simp_all
  then show "0 \<le> sint v \<Longrightarrow> uint (Byte v) = min 255 (sint v)" by (simp add: clamp_def min_def)
qed

lemma length_field_value:
  assumes "0 \<le> k" "k < 65536"
  shows "uint (Byte (signed_drop_bit 8 (word_of_int k))) * 256 + uint (Byte (word_of_int k)) = k div 256 * 256 + min 255 k"
proof -
  have k: "sint (word_of_int k :: 64 word) = k" using assms by (simp add: signed_of_int signed_take_bit_int_eq_self_iff)
  then have "sint (signed_drop_bit 8 (word_of_int k :: 64 word)) = k div 256" by (simp add: sint_signed_drop_bit_eq drop_bit_eq_div)
  then have "uint (Byte (signed_drop_bit 8 (word_of_int k))) = k div 256" using byte_clamp [of "signed_drop_bit 8 (word_of_int k)"] assms by simp
  moreover have "uint (Byte (word_of_int k)) = min 255 k" using byte_clamp [of "word_of_int k"] k assms(1) by simp
  ultimately show ?thesis by (simp only:)
qed

lemma beRead_pair: "uint (beRead [a, b] :: 16 word) = uint a * 256 + uint b"
proof -
  have fits: "uint (word_of_int k :: 16 word) = k" if "0 \<le> k" "k < 65536" for k using that by (simp add: unsigned_of_int take_bit_int_eq_self)
  have "(beRead [a, b] :: 16 word) = ucast a * 256 + ucast b" unfolding horner_beRead [symmetric] horner256_def by simp
  also have "\<dots> = word_of_int (uint a * 256 + uint b)" by simp
  finally have eq: "(beRead [a, b] :: 16 word) = word_of_int (uint a * 256 + uint b)" .
  have "uint a * 256 + uint b < 65536" using uint_lt2p [of a] uint_lt2p [of b] by simp
  then show ?thesis unfolding eq by (intro fits) simp_all
qed

text \<open>C40 (nbstat_length): with fewer than 65536 bytes of data, the answer to a NetBIOS status query has as many bytes of data as its length field declares exactly when they are at most 255,
  that is for at most eleven names, or their number happens to be 255 modulo 256.\<close>

theorem nbstat_length:
  assumes "47 + 18 * length names < 65536"
  shows "uint (beRead (slice 10 12 (buildNBSTATAnswer q names t mac)) :: 16 word) = int (length (buildNBSTATAnswer q names t mac)) - 12 \<longleftrightarrow>
    length names \<le> 11 \<or> (47 + 18 * length names) mod 256 = 255"
proof -
  let ?n = "length names" and ?k = "int (47 + 18 * length names)"
  have "(1 + 18 * word_of_nat (length names) + 46 :: 64 word) = word_of_int ?k" by simp
  then have field: "uint (beRead (slice 10 12 (buildNBSTATAnswer q names t mac)) :: 16 word) = ?k div 256 * 256 + min 255 ?k"
    unfolding answer_length_field Let_def beRead_pair using length_field_value [of ?k] assms by simp
  have len: "int (length (buildNBSTATAnswer q names t mac)) - 12 = ?k" by (simp add: length_answer)
  have "?k div 256 * 256 = ?k - int ((47 + 18 * ?n) mod 256)" by (simp add: zmod_int minus_mod_eq_div_mult [symmetric])
  moreover have "(47 + 18 * ?n) mod 256 = 47 + 18 * ?n" if "?n \<le> 11" using that by simp
  moreover have "255 < ?k \<longleftrightarrow> \<not> ?n \<le> 11" by linarith
  ultimately show ?thesis unfolding field len by (cases "?n \<le> 11") auto
qed

theorem nbstat_length_witness:
  "uint (beRead (slice 10 12 (buildNBSTATAnswer \<lparr>quName = [], quType = 33, quClass = 1\<rparr> (replicate 12 msBrowseEntry) 0 [])) :: 16 word) \<noteq>
     int (length (buildNBSTATAnswer \<lparr>quName = [], quType = 33, quClass = 1\<rparr> (replicate 12 msBrowseEntry) 0 [])) - 12"
  using nbstat_length [of "replicate 12 msBrowseEntry"] by simp

section \<open>A ring of forwarders\<close>

text \<open>A site's resolver forwards to the edge, which forwards back to it and to a resolver that knows every name.\<close>

definition exampleResolver :: "32 word \<Rightarrow> (string, dnsRecord list) gomap \<Rightarrow> Addr list \<Rightarrow> nameDevice \<times> dnsRecordSet" where
  "exampleResolver ip forward forwarders =
     (\<lparr>ndName = ''dns'', ndSysName = [], ndMAC = [2, 0, 0, 0, 0, 1], ndIPAddresses = [V4 ip], ndDNSConfig = None, ndNetBIOSConfig = None\<rparr>,
      \<lparr>rsForward = forward, rsReverse = [], rsForwarders = forwarders\<rparr>)"

definition exampleHandler :: DNSHandler where
  "exampleHandler = NewDNSHandler\<lparr>dhDeviceRecords :=
     [(0, exampleResolver 1 [] [V4 2]), (1, exampleResolver 2 [] [V4 1, V4 3]),
      (2, exampleResolver 3 [(''*'', [\<lparr>drIP = V4 9, drTTL = 60, drRcode = NoErr\<rparr>])] [])]\<rparr>"

definition exampleQuery :: DNS where
  "exampleQuery = \<lparr>msID = 7, msQR = False, msOpCode = 0, msAA = False, msRD = True, msRA = False, msResponseCode = NoErr,
     msQuestions = [\<lparr>quName = ''www.example'', quType = typeA, quClass = classIN\<rparr>], msAnswers = []\<rparr>"

definition exampleNet :: dnsEnv where
  "exampleNet = \<lparr>deRanks = (\<lambda>_ _. 0), deOwns = (\<lambda>_ _. False), deTimeout = (\<lambda>_. False), deNXDomain = (\<lambda>_. False), deSlotFree = False,
     deAsk = (\<lambda>_ _. None), deEncodes = (\<lambda>_. True), deReachable = (\<lambda>_. True)\<rparr>"

theorem forward_nearest_witness:
  "map rrIP (msAnswers (answerQuery exampleNet exampleHandler exampleQuery 0)) = [V4 9] \<and>
   found exampleHandler (msQuestions exampleQuery) 0
     (msAnswers (answerQuery exampleNet exampleHandler exampleQuery 0), msResponseCode (answerQuery exampleNet exampleHandler exampleQuery 0), [])"
proof
  show ips: "map rrIP (msAnswers (answerQuery exampleNet exampleHandler exampleQuery 0)) = [V4 9]" by code_simp
  have uni: "owners_unique exampleHandler" by code_simp
  have set1: "getRecordSetForDevice exampleHandler 0 = Some (snd (exampleResolver 1 [] [V4 2]))"
    by (simp add: getRecordSetForDevice_def exampleHandler_def)
  have fwds: "rsForwarders (snd (exampleResolver 1 [] [V4 2])) \<noteq> []" by (simp add: exampleResolver_def)
  have own: "\<not> answersAt exampleHandler (msQuestions exampleQuery) 0" "\<not> deNXDomain exampleNet 0" "\<not> deSlotFree exampleNet" by code_simp+
  define base where "base = \<lparr>msID = msID exampleQuery, msQR = True, msOpCode = msOpCode exampleQuery, msAA = True, msRD = msRD exampleQuery, msRA = True,
      msResponseCode = NXDomain, msQuestions = msQuestions exampleQuery, msAnswers = []\<rparr>"
  obtain answers rcode upstreams where
    either: "found exampleHandler (msQuestions exampleQuery) 0 (answers, rcode, upstreams) \<or> exhausted exampleHandler (msQuestions exampleQuery) 0 (answers, rcode, upstreams)"
    and reply: "answerQuery exampleNet exampleHandler exampleQuery 0 =
      (if upstreams = [] then base\<lparr>msAA := answers = [], msAnswers := answers, msResponseCode := rcode\<rparr> else askUpstream exampleNet base upstreams)"
    using forward_nearest [OF uni set1 fwds own(2,1) base_def] by blast
  have "msAnswers (askUpstream exampleNet base upstreams) = []" by (simp add: askUpstream_def base_def own(3))
  then have up: "upstreams = []" "answers \<noteq> []" using ips reply by (auto split: if_splits)
  then have "found exampleHandler (msQuestions exampleQuery) 0 (answers, rcode, [])" using either by (auto simp: exhausted_def)
  then show "found exampleHandler (msQuestions exampleQuery) 0
     (msAnswers (answerQuery exampleNet exampleHandler exampleQuery 0), msResponseCode (answerQuery exampleNet exampleHandler exampleQuery 0), [])"
    using reply up by simp
qed

end
