(* ===== verification/Spec2Isabelle.thy ===== *)
theory Spec2Isabelle
  imports Device_Laws Behavior_Targets Snmp_Mib Capture_Ring Rate_Limiter Safeconv Stp_Election Stp_Bpdu Stream_Services Virtual_Tcp Draft_Links Cli_Replay Fabric_Dhcp Snmp_Requests Dns_Props
begin

text \<open>
  A verification library for NIAC-Go, a simulator that answers on a wire as a whole network of devices.

  \<^bold>\<open>The program.\<close>  A scenario file is read into a configuration (\<open>internal/converter\<close>, \<open>internal/config\<close>) and validated; a routed scenario is
  compiled into a topology (\<open>internal/fabric\<close>) and the author may edit its draft (\<open>internal/drafttopology\<close>).  The protocol stack
  (\<open>internal/protocols\<close>) builds one state store per device (\<open>internal/devicestate\<close>), the device's servers (DHCP, spanning tree, the stream services,
  command sessions of \<open>internal/devicecli\<close> over the connections of \<open>internal/virtualtcp\<close>) and an SNMP agent with its management base
  (\<open>internal/protocols/snmp\<close>).  The behavior runner (\<open>internal/behavior\<close>) replays authored timelines of faults, traffic, operations and roams
  against the stores; an HTTP service (\<open>internal/api\<close>) with per-client rate limiting exposes the session, and a ring (\<open>internal/capturering\<close>)
  retains the frames the stack handled for export.

  \<^bold>\<open>Theories.\<close>
  \<^item> \<open>Prelude\<close>: Go maps as ordered association lists with the locale \<open>go_map\<close>; machines and refinement (locales \<open>guarded_machine\<close>,
    \<open>data_refinement\<close>); \<open>int64\<close> wrap-around, \<open>strconv.Itoa\<close>, bounded appends.  \<open>Go_Text\<close>, \<open>Go_Net\<close>, \<open>Go_Addr\<close>, \<open>Go_Netip\<close>, \<open>Go_Bytes\<close>: what
    the source uses of \<open>strings\<close>, \<open>strconv\<close>, \<open>net\<close>, \<open>net/netip\<close> and \<open>encoding/binary\<close>.  \<open>Net_Config\<close>: configuration records shared by components.
    \<open>Safeconv\<close>: the integer conversions on machine words (\<open>internal/safeconv\<close>).
  \<^item> \<open>Device_Types\<close>, \<open>Device_Store\<close>, \<open>Device_Ops\<close>, \<open>Device_Durable\<close>: the device store, file by file.  The record \<open>Store\<close> is the struct \<open>Store\<close>
    (locks left out: each exported method is one atomic step, except that \<open>UpdateInterface\<close>, \<open>UpdateVLAN\<close> and \<open>UpdateIdentity\<close>, which release the
    lock around the caller's function, and \<open>RestoreState\<close>, which releases it before it calls the observer, take the operations that run in that gap as an
    argument; in the machine \<open>step\<close> that gap is empty, and \<open>Cli_Props\<close> fills it); the clock is a sequence of readings
    consumed by \<open>ticks\<close>; the change observer is the list of snapshots it was given; channels are their one-slot buffers.  \<open>Device_Inv\<close> and
    \<open>Device_Machine\<close>: the invariant, what callers have to respect (\<open>permitted\<close>), the stack's start-up of a store, one lemma per operation, and the interpretation \<open>dev\<close> of \<open>guarded_machine\<close> that carries it along runs.
    \<open>Device_Props\<close>, \<open>Device_Laws\<close>: the store's properties, with the locale \<open>change_follower\<close> for whatever is refreshed on every signalled change.
  \<^item> \<open>Behavior_Schedule\<close>, \<open>Behavior_Runner\<close>, \<open>Behavior_Validate\<close>, \<open>Behavior_Targets\<close>: compilation of timelines into transitions, their replay
    against an arbitrary target and clock, and the validation of timelines (sizes, conflicts, targets).  The runner's goroutine is run to its end;
    cancellation is a predicate on the points where the code tests the context, and the clock's waits may be cut short.  \<open>Device_Class\<close>: the
    meaning of device types.
  \<^item> \<open>Snmp_Oid\<close>, \<open>Snmp_Mib\<close>: object identifiers, walk normalisation, and the management base with its lazily sorted index (interpretation \<open>mib\<close> of
    \<open>data_refinement\<close>: the base refines a partial map).  \<open>Snmp_Agent\<close>, \<open>Snmp_Answers\<close>, \<open>Snmp_Requests\<close>: the
    agent (\<open>agent.go\<close>, \<open>mib\_snmp.go\<close>) and the handler of datagrams (\<open>protocols/snmp.go\<close>, \<open>snmp\_agents.go\<close>): an agent is its base, community
    and counters, and a request maps an agent to a response and an agent.
  \<^item> \<open>Device_Cli\<close>, \<open>Cli_Props\<close>, \<open>Cli_Replay\<close>: command sessions with their modes, every command as operations of the device store, rendering of the
    running configuration, and the shell and single-command loops of the SSH server.
  \<^item> \<open>Dhcp_Server\<close>, \<open>Dhcp_Leases\<close>: the DHCPv4 server of a device: configuration, pool, leases, options and every message (interpretation \<open>server\<close>
    of \<open>guarded_machine\<close>).
  \<^item> \<open>Dns_Service\<close>, \<open>Dns_Props\<close>: the name service: records, resolution, the chain of forwarders, NetBIOS status.
  \<^item> \<open>Fabric_Compiler\<close>: the compiler of routed scenarios; the compiler object is the record \<open>scenarioCompiler\<close>, which holds the report under
    construction.  \<open>Fabric_Frames\<close>: what its steps read and write (locales \<open>step_view\<close> to \<open>topology_view\<close>, one per group of fields a step leaves
    alone).  \<open>Fabric_Sound\<close>, \<open>Fabric_Pools\<close>, \<open>Fabric_Props\<close>: the invariants of its stages and the properties of its reports.  \<open>Fabric_Dhcp\<close>: the
    DHCP servers a compiled scenario starts.
  \<^item> \<open>Stp_Tree\<close>, \<open>Stp_Bpdu\<close>, \<open>Stp_Election\<close>: the spanning tree election and its frames, with the locale \<open>symmetric_graph\<close> for the graph of bridges.
  \<^item> \<open>Stream_Frames\<close>, \<open>Tcp_Stream\<close>, \<open>Industrial_Services\<close>, \<open>Clinical_Services\<close>, \<open>Stream_Services\<close>: conversations of the stateless TCP services,
    with Modbus, EtherNet/IP and DICOM behind one contract for answering a byte stream; of HL7 only the framing, and of FTP nothing is modelled (what
    those two answer depends on how the stream is cut).  \<open>Virtual_Tcp\<close>: the buffered connections, as step relations.
  \<^item> \<open>Draft_Topology\<close>, \<open>Draft_Links\<close>: the edits of a topology draft and what they keep true of its links.
  \<^item> \<open>Capture_Ring\<close>: the frame ring (interpretation \<open>ring\<close> of \<open>data_refinement\<close>: the circular buffer refines a bounded queue) and the comments of
    exported frames.  \<open>Rate_Limiter\<close>: the limiter table (interpretation \<open>rate\<close> of \<open>guarded_machine\<close>) and the middlewares.

  \<^bold>\<open>What the theorems show.\<close>
  \<^item> The store: the start-up and every permitted run after it keep the invariant (\<open>device_run_inv\<close>); the durable record survives a save and restore, and a restored record
    is either refused or leaves a sound store (\<open>durable_roundtrip\<close>, \<open>restore_sound\<close>); observers and the last-change table follow every change
    (\<open>observer_never_behind\<close>, with the gap of a restore that leaves an observer behind; \<open>transitions_follow\<close>); checkpoints, one-shot actions, refused calls and carrier faults behave as documented
    (\<open>checkpoint_brings_back\<close>, \<open>action_once\<close>, \<open>refused_unchanged\<close>, \<open>carrier_projection\<close>).
  \<^item> Behaviors: compiled transitions are exactly the scheduled ones in order (\<open>compile_groups\<close>); a replay ends completed, stopped or failed having
    applied exactly the transitions it reports (\<open>run_outcome\<close>); the conflict check accepts exactly what it should (\<open>conflicts_iff\<close>); an
    interface that validation accepts as a target exists in the store of a flat scenario's device (\<open>validated_target_seeded\<close>, below).
  \<^item> SNMP: lookups return what the operations stored (\<open>mib_lookup\<close>), successors are the least above (\<open>getnext_least\<close>), a walk visits
    everything once (\<open>walk_complete\<close>).  A GET-BULK response is the interleaved walks of its repeaters cut at the byte budget
    (\<open>bulk_rows\<close>; \<open>bulk_budget_exceeded\<close> shows what escapes it), so a manager that continues sees the whole base (\<open>bulk_walk_complete\<close>); GET and GET-NEXT answer
    every variable in its place (\<open>request_answer\<close>), SET changes one object only (\<open>set_read_only\<close>), and only those entitled are answered
    (\<open>snmp_access\<close>).
  \<^item> Command sessions: any interleaving of sessions and other operations, inside commands too, keeps the store's invariant, and an interface
    command fails only when the version changed under it (\<open>cli_sessions_sound\<close>); only configuration
    modes, reload and rollback change the running configuration (\<open>cli_authority\<close>); the interface blocks of the printed configuration, given back, rebuild the interfaces (\<open>running_config_replays\<close>).
  \<^item> DHCP: running leases are exclusive (\<open>lease_exclusive\<close>), requests are answered as the protocol asks (\<open>dhcp_request_answer\<close>), building a pool ends
    and gives the range (\<open>dhcp_pool\<close>), options are well formed and search lists decode to what was configured (\<open>dhcp_options_wellformed\<close>,
    \<open>domain_search_roundtrip\<close>).
  \<^item> Names: a server without an answer replies with the nearest simulated resolver's, however forwarders refer to each other (\<open>forward_nearest\<close>); a
    record is found by its name and by its address (\<open>dns_record_found\<close>); a NetBIOS status answer declares its true length only up to eleven names
    (\<open>nbstat_length\<close>, a defect).
  \<^item> The fabric compiler: every report has a sound topology (\<open>fabric_sound\<close>); a safe one has no address in two networks or two pools
    (\<open>fabric_safe_apart\<close>) and a binding that stands on a network (\<open>binding_grounded\<close>); validation without a binding agrees with the compilation that
    has one (\<open>preflight_agrees\<close>), but for the defect \<open>validate_misses_network\<close> exhibits; broadcast domains are what the links reach
    (\<open>broadcast_domain\<close>); the scopes it accepts make DHCP servers to which \<open>lease_exclusive\<close> applies (\<open>scope_served\<close>).
  \<^item> The rest: the election elects the root and the tree of least cost (\<open>election_correct\<close>), BPDUs round-trip (\<open>bpdu_roundtrip\<close>), streams are answered
    once and in order (\<open>stream_replies\<close>, \<open>dicom_answer_typed\<close>), connections deliver what was written and close (\<open>pipe_delivers\<close>, \<open>close_completes\<close>), edits keep
    a draft linked and undo each other (\<open>draft_stays_linked\<close>, \<open>connect_disconnect\<close>), the ring retains the newest frames (\<open>ring_retains\<close>), the limiter's
    table is bounded (\<open>limiter_bounded\<close>).

  \<^bold>\<open>Parameters.\<close>  Code outside the repository is an argument: the limiter of \<open>golang.org/x/time/rate\<close>, the wall clock, the target and clock
  interfaces of the runner, a real DNS resolver, gosnmp's decoding, sending a frame.  In \<open>Behavior_Targets\<close> the reading of prefixes is an argument too, with the laws it needs as
  hypotheses.  Where Go leaves an order open (ranging over a map, sorting with ties), the order is an argument, and the theorems hold for every order.

  \<^bold>\<open>Bounds.\<close>  The store's counters are 64-bit words and \<open>permitted\<close> asks that they have room; schedule arithmetic is \<open>int64\<close> with wrap-around, and
  the theorems that need none assume the authored ranges (\<open>timelineLimits\<close>).  A walk over a management base takes a step count; more steps than
  entries are enough.  The loops of the fabric's broadcast search, of the DHCP pool and of DNS forwarding are total functions with termination proofs.

  \<^bold>\<open>Not modelled.\<close>  Packet parsing and building (gopacket), sockets, HTTP routing, files and the database, the daemon's process control,
  flag parsing, and goroutine scheduling inside one store method.  Of SNMP, the publication of the device's state and of tables,
  walk files, traps and the SNMPv3 engine (the first and the last are parameters of the agent and the handler).  Candidates for further work: DHCPv6, the replay controller, token storage and path
  confinement, sanitising of captures.
\<close>

section \<open>Validated targets exist in the stores\<close>

text \<open>In a scenario without a topology, whose stores are seeded flat from the configuration, an interface that validation accepts as the target of
  a timeline is an interface of the store of the device it names.\<close>

theorem validated_target_seeded:
  assumes "validateBehaviorTarget (behaviorTargets cfg) device iface = None" "map_of (behaviorTargets cfg) device = Some t"
    and "s = ReplaceNetwork (flatDeviceNetworkState pp pa (tgDevice t)) s0"
  shows "interfaceExists (runningInterfaces s) iface"
  using flat_has_interface [OF assms(3) validated_target [OF assms(1,2)]] .

end
